(* ===== verification/Prelude.thy ===== *)
theory Prelude
  imports Main "HOL-Library.Word" "HOL-Library.Monad_Syntax"
begin

text \<open>
  Shared vocabulary of the development: the named collections the component theories add their
  facts to, the machine types, indexed access that reports a Rust panic as \<open>None\<close>, lemmas on
  lists that several components use, and the interface of a component whose operations keep an
  invariant (\<open>transition_system\<close>), from which every component derives its statement about
  arbitrary sequences of operations.
\<close>

section \<open>Collections\<close>

named_theorems step_defs "definitions of operations, for unfolding one step"
named_theorems keeps_inv "operations that keep the invariant of their component"
named_theorems frame_simps "fields an operation does not write"

section \<open>Machine types\<close>

type_synonym u8 = "8 word"
type_synonym u16 = "16 word"
type_synonym u32 = "32 word"

text \<open>
  A slice access or an index outside the vector panics in Rust. \<open>nth_opt\<close> is \<open>v[i]\<close> and
  \<open>update_opt\<close> is \<open>v[i] = x\<close> (or any in-place change of \<open>v[i]\<close>), with the panic as \<open>None\<close>.
\<close>

definition nth_opt :: "'a list \<Rightarrow> nat \<Rightarrow> 'a option" where
  "nth_opt xs i = (if i < length xs then Some (xs ! i) else None)"

definition update_opt :: "'a list \<Rightarrow> nat \<Rightarrow> 'a \<Rightarrow> 'a list option" where
  "update_opt xs i x = (if i < length xs then Some (xs[i := x]) else None)"

lemma nth_opt_Some [simp]: "i < length xs \<Longrightarrow> nth_opt xs i = Some (xs ! i)"
  by (simp add: nth_opt_def)

lemma nth_opt_None [simp]: "length xs \<le> i \<Longrightarrow> nth_opt xs i = None"
  by (simp add: nth_opt_def)

lemma nth_opt_eq_Some: "nth_opt xs i = Some x \<longleftrightarrow> i < length xs \<and> xs ! i = x"
  by (auto simp: nth_opt_def)

lemma update_opt_Some [simp]: "i < length xs \<Longrightarrow> update_opt xs i x = Some (xs[i := x])"
  by (simp add: update_opt_def)

lemma nth_opt_append_at [simp]: "nth_opt (xs @ y # ys) (length xs) = Some y"
  by (simp add: nth_opt_def)

lemma update_opt_append_at [simp]: "update_opt (xs @ y # ys) (length xs) z = Some (xs @ z # ys)"
  by (simp add: update_opt_def)

section \<open>Lists\<close>

lemma last_drop_butlast: "xs \<noteq> [] \<Longrightarrow> butlast xs @ [last xs] = xs"
  by simp

lemma nth_drop_take:
  "i < n \<Longrightarrow> m + n \<le> length xs \<Longrightarrow> take n (drop m xs) ! i = xs ! (m + i)"
  by simp

text \<open>Row \<open>r\<close> of a matrix stored row by row in one vector.\<close>

lemma row_index_less:
  fixes r c m n :: nat
  assumes "r < m" and "c < n"
  shows "r * n + c < m * n"
proof -
  have "r * n + c < r * n + n" using assms(2) by simp
  also have "\<dots> = Suc r * n" by simp
  also have "\<dots> \<le> m * n" using assms(1) by (intro mult_le_mono1) simp
  finally show ?thesis .
qed

lemma row_index_inj:
  fixes r c r' c' n :: nat
  assumes "c < n" and "c' < n"
  shows "r * n + c = r' * n + c' \<longleftrightarrow> r = r' \<and> c = c'"
proof
  assume eq: "r * n + c = r' * n + c'"
  have "r = (r * n + c) div n" and "c = (r * n + c) mod n" using assms(1) by auto
  moreover have "r' = (r' * n + c') div n" and "c' = (r' * n + c') mod n" using assms(2) by auto
  ultimately show "r = r' \<and> c = c'" using eq by metis
qed simp

text \<open>
  A loop \<open>for i in a..b\<close> over a state is \<open>fold body [a..<b]\<close>, and \<open>(a..b).rev()\<close> is
  \<open>fold body (rev [a..<b])\<close>.
\<close>

lemma fold_keeps:
  assumes "\<And>x s. x \<in> set xs \<Longrightarrow> P s \<Longrightarrow> P (f x s)" and "P s"
  shows "P (fold f xs s)"
  using assms by (induction xs arbitrary: s) auto

lemma fold_frame:
  assumes "\<And>x s. g (f x s) = g s"
  shows "g (fold f xs s) = g s"
  using assms by (induction xs arbitrary: s) auto

lemma funpow_keeps:
  assumes "\<And>s. P s \<Longrightarrow> P (f s)" and "P s"
  shows "P ((f ^^ n) s)"
  using assms by (induction n) auto

lemma funpow_frame:
  assumes "\<And>s. g (f s) = g s"
  shows "g ((f ^^ n) s) = g s"
  using assms by (induction n) auto

text \<open>
  A loop over a concrete state seen through an abstraction: if every iteration acts on the
  abstraction as \<open>F\<close>, the whole loop does.
\<close>

lemma fold_abstract:
  assumes "\<And>x s. x \<in> set xs \<Longrightarrow> P s \<Longrightarrow> P (f x s) \<and> A (f x s) = F x (A s)" and "P s"
  shows "A (fold f xs s) = fold F xs (A s)"
  using assms by (induction xs arbitrary: s) auto

text \<open>
  The two directions of an in-place shift: copying upwards reads cells not yet written when it
  goes from the low end, and copying downwards when it goes from the high end.
\<close>

lemma fold_shift_down:
  fixes R :: "nat \<Rightarrow> 'a"
  shows "fold (\<lambda>i R. R(i := R (i + n))) [a..<b] R = (\<lambda>i. if a \<le> i \<and> i < b then R (i + n) else R i)"
proof (induction b)
  case 0
  then show ?case by simp
next
  case (Suc b)
  then show ?case by (auto simp: fun_eq_iff less_Suc_eq)
qed

lemma fold_shift_up:
  fixes R :: "nat \<Rightarrow> 'a"
  shows "fold (\<lambda>i R. R(i := R (i - n))) (rev [a..<b]) R =
    (\<lambda>i. if a \<le> i \<and> i < b then R (i - n) else R i)"
proof (induction "b - a" arbitrary: b R)
  case 0
  then show ?case by (auto simp: fun_eq_iff)
next
  case (Suc m)
  then obtain b' where b: "b = Suc b'" and le: "a \<le> b'" and m: "m = b' - a"
    by (cases b) auto
  have "fold (\<lambda>i R. R(i := R (i - n))) (rev [a..<b']) (R(b' := R (b' - n))) =
      (\<lambda>i. if a \<le> i \<and> i < b' then (R(b' := R (b' - n))) (i - n) else (R(b' := R (b' - n))) i)"
    by (rule Suc.hyps(1) [OF m])
  with le show ?case by (auto simp: b fun_eq_iff less_Suc_eq)
qed

lemma fold_set_range:
  fixes R :: "nat \<Rightarrow> 'a"
  shows "fold (\<lambda>i R. R(i := x)) is R = (\<lambda>i. if i \<in> set is then x else R i)"
  by (induction "is" arbitrary: R) (auto simp: fun_eq_iff)

text \<open>
  A matrix stored row by row: rows of one length \<open>n\<close>, concatenated. \<open>chunk\<close> reads the rows back.
\<close>

definition chunk :: "nat \<Rightarrow> nat \<Rightarrow> 'a list \<Rightarrow> 'a list list" where
  "chunk n m xs = map (\<lambda>r. take n (drop (r * n) xs)) [0..<m]"

lemma length_chunk [simp]: "length (chunk n m xs) = m"
  by (simp add: chunk_def)

lemma length_concat_rows:
  "(\<And>r. r \<in> set rows \<Longrightarrow> length r = n) \<Longrightarrow> length (concat rows) = length rows * n"
  by (induction rows) auto

lemma drop_concat_rows:
  "(\<And>r. r \<in> set rows \<Longrightarrow> length r = n) \<Longrightarrow> drop (k * n) (concat rows) = concat (drop k rows)"
proof (induction rows arbitrary: k)
  case (Cons r rows)
  then show ?case by (cases k) auto
qed simp

lemma take_concat_rows:
  "(\<And>r. r \<in> set rows \<Longrightarrow> length r = n) \<Longrightarrow> take (k * n) (concat rows) = concat (take k rows)"
proof (induction rows arbitrary: k)
  case (Cons r rows)
  then show ?case by (cases k) auto
qed simp

lemma chunk_concat:
  assumes "\<And>r. r \<in> set rows \<Longrightarrow> length r = n" and "length rows = m"
  shows "chunk n m (concat rows) = rows"
proof (rule nth_equalityI)
  fix i
  assume "i < length (chunk n m (concat rows))"
  then have i: "i < length rows" using assms(2) by simp
  have "drop (i * n) (concat rows) = concat (drop i rows)" by (rule drop_concat_rows) (rule assms(1))
  also have "\<dots> = rows ! i @ concat (drop (Suc i) rows)" using i by (simp flip: Cons_nth_drop_Suc)
  finally show "chunk n m (concat rows) ! i = rows ! i" using i assms by (simp add: chunk_def)
qed (simp add: assms(2))

lemma concat_chunk:
  assumes "length xs = m * n"
  shows "concat (chunk n m xs) = xs"
  using assms
proof (induction m arbitrary: xs)
  case (Suc m)
  have "chunk n (Suc m) xs = take n xs # chunk n m (drop n xs)"
    by (simp add: chunk_def map_upt_Suc del: upt_Suc) (simp add: algebra_simps)
  with Suc show ?case by simp
qed (simp add: chunk_def)

lemma chunk_row_length:
  assumes "length xs = m * n" and "r \<in> set (chunk n m xs)"
  shows "length r = n"
proof -
  from assms(2) obtain i where "i < m" and r: "r = take n (drop (i * n) xs)"
    by (auto simp: chunk_def)
  then have "Suc i * n \<le> m * n" by (intro mult_le_mono1) simp
  with assms(1) show ?thesis by (simp add: r)
qed

section \<open>Components with an invariant\<close>

text \<open>
  What a stateful component promises: an operation applied to a state that satisfies the
  invariant and to an operation that satisfies its precondition gives a state that satisfies it
  again. The client's fact is about any sequence of operations.
\<close>

locale transition_system =
  fixes step :: "'op \<Rightarrow> 's \<Rightarrow> 's"
    and inv :: "'s \<Rightarrow> bool"
    and pre :: "'op \<Rightarrow> bool"
  assumes step_keeps: "inv s \<Longrightarrow> pre a \<Longrightarrow> inv (step a s)"
begin

lemma run_keeps: "inv s \<Longrightarrow> (\<And>a. a \<in> set as \<Longrightarrow> pre a) \<Longrightarrow> inv (fold step as s)"
  by (induction as arbitrary: s) (auto intro: step_keeps)

lemma run_prefix_keeps:
  assumes "inv s" and "\<And>a. a \<in> set as \<Longrightarrow> pre a"
  shows "inv (fold step (take n as) s)"
  using assms by (intro run_keeps) (auto dest: in_set_takeD)

end

text \<open>
  The same contract for operations that may panic (\<open>None\<close>): under the invariant none does, so a
  run of any length from a good state returns, and its last state is good.
\<close>

fun run_opt :: "('op \<Rightarrow> 's \<Rightarrow> 's option) \<Rightarrow> 'op list \<Rightarrow> 's \<Rightarrow> 's option" where
  "run_opt f [] s = Some s"
| "run_opt f (a # as) s = (case f a s of None \<Rightarrow> None | Some s' \<Rightarrow> run_opt f as s')"

locale panic_free_system =
  fixes step :: "'op \<Rightarrow> 's \<Rightarrow> 's option"
    and inv :: "'s \<Rightarrow> bool"
    and pre :: "'op \<Rightarrow> bool"
  assumes step_total: "inv s \<Longrightarrow> pre a \<Longrightarrow> \<exists>s'. step a s = Some s' \<and> inv s'"
begin

lemma run_total:
  assumes "inv s" and "\<And>a. a \<in> set as \<Longrightarrow> pre a"
  shows "\<exists>s'. run_opt step as s = Some s' \<and> inv s'"
  using assms
proof (induction as arbitrary: s)
  case Nil
  then show ?case by simp
next
  case (Cons a as)
  from Cons.prems obtain s1 where "step a s = Some s1" and "inv s1"
    using step_total by (meson list.set_intros(1))
  with Cons show ?case by auto
qed

end

end
