(* ===== verification/Rust_Str.thy ===== *)
theory Rust_Str
  imports Prelude
begin

text \<open>
  The part of Rust's string library the modelled code uses. A \<open>String\<close> or \<open>&str\<close> is the list of
  its Unicode scalar values; a byte offset into it is measured with \<open>len_utf8\<close>, and slicing at an
  offset that is out of range or inside a character is a panic, \<open>None\<close>. Byte vectors are lists of
  8-bit words; \<open>utf8\<close> is \<open>as_bytes\<close> and \<open>from_utf8\<close> the validating decoder.
\<close>

section \<open>Characters and byte lengths\<close>

type_synonym rchar = nat
type_synonym rstr = "rchar list"

text \<open>ASCII literals: of strings, and of byte strings.\<close>

definition str_lit :: "string \<Rightarrow> rstr" where
  "str_lit s = map of_char s"

definition byte_lit :: "string \<Rightarrow> u8 list" where
  "byte_lit s = map of_char s"

definition len_utf8 :: "rchar \<Rightarrow> nat" where
  "len_utf8 c = (if c < 128 then 1 else if c < 2048 then 2 else if c < 65536 then 3 else 4)"

definition blen :: "rstr \<Rightarrow> nat" where
  "blen s = sum_list (map len_utf8 s)"

lemma len_utf8_pos [simp]: "0 < len_utf8 c"
  by (simp add: len_utf8_def)

lemma len_utf8_neq_0 [simp]: "len_utf8 c \<noteq> 0"
  by (simp add: len_utf8_def)

lemma len_utf8_le_4: "len_utf8 c \<le> 4"
  by (simp add: len_utf8_def)

lemma blen_simps [simp]:
  "blen [] = 0" "blen (c # s) = len_utf8 c + blen s" "blen (s @ t) = blen s + blen t"
  by (simp_all add: blen_def)

lemma blen_0_iff [simp]: "blen s = 0 \<longleftrightarrow> s = []" "0 = blen s \<longleftrightarrow> s = []"
  by (cases s; simp)+

lemma length_le_blen: "length s \<le> blen s"
proof (induction s)
  case (Cons c s)
  have "1 \<le> len_utf8 c" using len_utf8_pos [of c] by linarith
  with Cons show ?case by simp
qed simp

text \<open>\<open>char::is_whitespace\<close>: the code points with the Unicode property \<open>White_Space\<close>.\<close>

definition is_whitespace :: "rchar \<Rightarrow> bool" where
  "is_whitespace c \<longleftrightarrow> (9 \<le> c \<and> c \<le> 13) \<or> c = 32 \<or> c = 133 \<or> c = 160 \<or> c = 5760
     \<or> (8192 \<le> c \<and> c \<le> 8202) \<or> c = 8232 \<or> c = 8233 \<or> c = 8239 \<or> c = 8287 \<or> c = 12288"

text \<open>\<open>trim_start\<close>, \<open>trim_end\<close> and \<open>trim\<close>.\<close>

definition trim_start :: "rstr \<Rightarrow> rstr" where
  "trim_start s = dropWhile is_whitespace s"

definition trim_end :: "rstr \<Rightarrow> rstr" where
  "trim_end s = rev (dropWhile is_whitespace (rev s))"

definition trim :: "rstr \<Rightarrow> rstr" where
  "trim s = trim_end (trim_start s)"

lemma trim_Nil_iff: "trim s = [] \<longleftrightarrow> (\<forall>c \<in> set s. is_whitespace c)"
proof -
  let ?t = "dropWhile is_whitespace s"
  have "(\<forall>c \<in> set ?t. is_whitespace c) \<longleftrightarrow> ?t = []"
    using hd_dropWhile [of is_whitespace s] hd_in_set [of ?t] by (metis empty_iff list.set(1))
  moreover have "trim s = [] \<longleftrightarrow> (\<forall>c \<in> set ?t. is_whitespace c)"
    by (simp add: trim_def trim_end_def trim_start_def dropWhile_eq_Nil_conv)
  ultimately show ?thesis by (simp add: dropWhile_eq_Nil_conv)
qed

section \<open>Slicing at byte offsets\<close>

fun split_at :: "nat \<Rightarrow> rstr \<Rightarrow> (rstr \<times> rstr) option" where
  "split_at n s =
     (if n = 0 then Some ([], s)
      else case s of
        [] \<Rightarrow> None
      | c # cs \<Rightarrow>
          if len_utf8 c \<le> n
          then map_option (\<lambda>(a, b). (c # a, b)) (split_at (n - len_utf8 c) cs)
          else None)"

declare split_at.simps [simp del]

definition is_char_boundary :: "rstr \<Rightarrow> nat \<Rightarrow> bool" where
  "is_char_boundary s n \<longleftrightarrow> split_at n s \<noteq> None"

definition slice_to :: "rstr \<Rightarrow> nat \<Rightarrow> rstr option" where
  "slice_to s b = map_option fst (split_at b s)"

definition slice_from :: "rstr \<Rightarrow> nat \<Rightarrow> rstr option" where
  "slice_from s a = map_option snd (split_at a s)"

definition slice :: "rstr \<Rightarrow> nat \<Rightarrow> nat \<Rightarrow> rstr option" where
  "slice s a b = Option.bind (slice_to s b) (\<lambda>p. slice_from p a)"

lemma split_at_0 [simp]: "split_at 0 s = Some ([], s)"
  by (simp add: split_at.simps)

lemma split_at_append [simp]: "split_at (blen a) (a @ b) = Some (a, b)"
proof (induction a)
  case Nil
  show ?case by simp
next
  case (Cons c a)
  then show ?case by (simp add: split_at.simps [of _ "c # a @ b"])
qed

lemma split_at_blen [simp]: "split_at (blen a) a = Some (a, [])"
  using split_at_append [of a "[]"] by simp

lemma split_at_SomeD: "split_at n s = Some (a, b) \<Longrightarrow> s = a @ b \<and> blen a = n"
proof (induction n s arbitrary: a b rule: split_at.induct)
  case (1 n s)
  then show ?case
    by (auto simp: split_at.simps [of n s] split: if_splits list.splits)
qed

lemma split_at_eq_Some: "split_at n s = Some (a, b) \<longleftrightarrow> s = a @ b \<and> blen a = n"
  using split_at_SomeD split_at_append by blast

lemma is_char_boundary_iff: "is_char_boundary s n \<longleftrightarrow> (\<exists>a b. s = a @ b \<and> blen a = n)"
  by (auto simp: is_char_boundary_def split_at_eq_Some)

lemma is_char_boundary_0 [simp]: "is_char_boundary s 0"
  by (simp add: is_char_boundary_def)

lemma is_char_boundary_blen [simp]: "is_char_boundary s (blen s)"
  by (simp add: is_char_boundary_def)

lemma is_char_boundary_append [simp]: "is_char_boundary (a @ b) (blen a)"
  by (simp add: is_char_boundary_def)

lemma is_char_boundary_le: "is_char_boundary s n \<Longrightarrow> n \<le> blen s"
  by (auto simp: is_char_boundary_iff)

lemma is_char_boundary_prefix: "is_char_boundary a n \<Longrightarrow> is_char_boundary (a @ b) n"
  by (metis append.assoc is_char_boundary_iff)

lemma is_char_boundary_shift:
  "is_char_boundary (a @ b) (blen a + n) \<longleftrightarrow> is_char_boundary b n"
proof
  assume "is_char_boundary (a @ b) (blen a + n)"
  then obtain x y where xy: "a @ b = x @ y" "blen x = blen a + n"
    by (auto simp: is_char_boundary_iff)
  then consider us where "a = x @ us" "us @ b = y" | us where "a @ us = x" "b = us @ y"
    by (auto simp: append_eq_append_conv2)
  then show "is_char_boundary b n"
  proof cases
    case 1
    with xy have "us = []" "n = 0" by auto
    then show ?thesis by simp
  next
    case 2
    with xy have "blen us = n" by auto
    with 2 show ?thesis by auto
  qed
next
  assume "is_char_boundary b n"
  then obtain x y where "b = x @ y" "blen x = n" by (auto simp: is_char_boundary_iff)
  then have "a @ b = (a @ x) @ y \<and> blen (a @ x) = blen a + n" by simp
  then show "is_char_boundary (a @ b) (blen a + n)" by (auto simp only: is_char_boundary_iff)
qed

lemma prefix_eq_blen: "a @ b = a' @ b' \<Longrightarrow> blen a = blen a' \<Longrightarrow> a = a' \<and> b = b'"
  by (metis option.inject prod.inject split_at_append)

lemma slice_to_append [simp]: "slice_to (a @ b) (blen a) = Some a"
  by (simp add: slice_to_def)

lemma slice_to_blen [simp]: "slice_to a (blen a) = Some a"
  by (simp add: slice_to_def)

lemma slice_from_append [simp]: "slice_from (a @ b) (blen a) = Some b"
  by (simp add: slice_from_def)

lemma slice_from_blen [simp]: "slice_from a (blen a) = Some []"
  by (simp add: slice_from_def)

lemma slice_from_0 [simp]: "slice_from s 0 = Some s"
  by (simp add: slice_from_def)

lemma slice_to_0 [simp]: "slice_to s 0 = Some []"
  by (simp add: slice_to_def)

lemma slice_append [simp]: "slice (a @ b @ c) (blen a) (blen a + blen b) = Some b"
  using slice_to_append [of "a @ b" c] by (simp add: slice_def)

lemma slice_from_eq_Some: "slice_from s n = Some b \<longleftrightarrow> (\<exists>a. s = a @ b \<and> blen a = n)"
  by (auto simp: slice_from_def split_at_eq_Some)

lemma slice_to_eq_Some: "slice_to s n = Some a \<longleftrightarrow> (\<exists>b. s = a @ b \<and> blen a = n)"
  by (auto simp: slice_to_def split_at_eq_Some)

lemma slice_panics_iff: "slice s a b = None \<longleftrightarrow> \<not> (is_char_boundary s a \<and> is_char_boundary s b \<and> a \<le> b)"
proof (cases "split_at b s")
  case None
  then show ?thesis by (simp add: slice_def slice_to_def is_char_boundary_def)
next
  case (Some pq)
  then obtain p q where s: "s = p @ q" and b: "b = blen p" by (cases pq) (auto dest: split_at_SomeD)
  have "is_char_boundary p a \<longleftrightarrow> is_char_boundary s a \<and> a \<le> b"
  proof
    assume "is_char_boundary p a"
    then show "is_char_boundary s a \<and> a \<le> b"
      using s b is_char_boundary_prefix is_char_boundary_le by blast
  next
    assume *: "is_char_boundary s a \<and> a \<le> b"
    then obtain x y where xy: "p @ q = x @ y" "blen x = a" by (auto simp: s is_char_boundary_iff)
    then consider us where "p = x @ us" | us where "p @ us = x"
      by (auto simp: append_eq_append_conv2)
    then show "is_char_boundary p a"
    proof cases
      case 1
      with xy show ?thesis by auto
    next
      case 2
      with xy b * have "us = []" by auto
      with 2 xy show ?thesis by auto
    qed
  qed
  moreover have "is_char_boundary s b" by (simp add: s b)
  moreover have "slice s a b = None \<longleftrightarrow> \<not> is_char_boundary p a"
    by (cases "split_at a p") (simp_all add: slice_def slice_to_def slice_from_def is_char_boundary_def s b)
  ultimately show ?thesis by blast
qed

text \<open>\<open>char_indices\<close>: every character with the byte offset it starts at.\<close>

fun char_indices_from :: "nat \<Rightarrow> rstr \<Rightarrow> (nat \<times> rchar) list" where
  "char_indices_from n [] = []"
| "char_indices_from n (c # s) = (n, c) # char_indices_from (n + len_utf8 c) s"

definition char_indices :: "rstr \<Rightarrow> (nat \<times> rchar) list" where
  "char_indices s = char_indices_from 0 s"

lemma length_char_indices_from [simp]: "length (char_indices_from n s) = length s"
  by (induction s arbitrary: n) auto

lemma length_char_indices [simp]: "length (char_indices s) = length s"
  by (simp add: char_indices_def)

lemma nth_char_indices_from:
  "i < length s \<Longrightarrow> char_indices_from n s ! i = (n + blen (take i s), s ! i)"
  by (induction s arbitrary: n i) (auto simp: nth_Cons' take_Cons')

lemma nth_char_indices: "i < length s \<Longrightarrow> char_indices s ! i = (blen (take i s), s ! i)"
  by (simp add: char_indices_def nth_char_indices_from)

lemma char_indices_from_append:
  "char_indices_from n (s @ t) = char_indices_from n s @ char_indices_from (n + blen s) t"
  by (induction s arbitrary: n) (auto simp: algebra_simps)

section \<open>UTF-8\<close>

text \<open>A \<open>char\<close> is a scalar value: below 0x110000 and no surrogate.\<close>

definition is_scalar :: "rchar \<Rightarrow> bool" where
  "is_scalar c \<longleftrightarrow> c < 55296 \<or> (57344 \<le> c \<and> c < 1114112)"

definition byte :: "nat \<Rightarrow> u8" where
  "byte n = of_nat n"

definition utf8_char :: "rchar \<Rightarrow> u8 list" where
  "utf8_char c =
     (if c < 128 then [byte c]
      else if c < 2048 then [byte (192 + c div 64), byte (128 + c mod 64)]
      else if c < 65536 then
        [byte (224 + c div 4096), byte (128 + c div 64 mod 64), byte (128 + c mod 64)]
      else
        [byte (240 + c div 262144 mod 8), byte (128 + c div 4096 mod 64),
         byte (128 + c div 64 mod 64), byte (128 + c mod 64)])"

definition utf8 :: "rstr \<Rightarrow> u8 list" where
  "utf8 s = concat (map utf8_char s)"

definition is_cont :: "u8 \<Rightarrow> bool" where
  "is_cont b \<longleftrightarrow> 128 \<le> unat b \<and> unat b < 192"

text \<open>
  One character off the front: its value and the number of bytes it takes, or \<open>None\<close> where the
  bytes are no UTF-8 (a stray continuation byte, a truncated sequence, an overlong form, a
  surrogate, a value above 0x10FFFF).
\<close>

fun decode_char :: "u8 list \<Rightarrow> (rchar \<times> nat) option" where
  "decode_char [] = None"
| "decode_char (b0 # r) =
     (let x = unat b0 in
      if x < 128 then Some (x, 1)
      else if x < 192 then None
      else if x < 224 then
        (case r of
           b1 # _ \<Rightarrow>
             let v = (x - 192) * 64 + (unat b1 - 128)
             in if is_cont b1 \<and> 128 \<le> v then Some (v, 2) else None
         | _ \<Rightarrow> None)
      else if x < 240 then
        (case r of
           b1 # b2 # _ \<Rightarrow>
             let v = (x - 224) * 4096 + (unat b1 - 128) * 64 + (unat b2 - 128)
             in if is_cont b1 \<and> is_cont b2 \<and> 2048 \<le> v \<and> is_scalar v then Some (v, 3) else None
         | _ \<Rightarrow> None)
      else
        (case r of
           b1 # b2 # b3 # _ \<Rightarrow>
             let v = (x - 240) * 262144 + (unat b1 - 128) * 4096 + (unat b2 - 128) * 64
                       + (unat b3 - 128)
             in if is_cont b1 \<and> is_cont b2 \<and> is_cont b3 \<and> 65536 \<le> v \<and> is_scalar v
                then Some (v, 4) else None
         | _ \<Rightarrow> None))"

lemma decode_char_pos: "decode_char b = Some (c, n) \<Longrightarrow> 0 < n"
  by (cases b) (auto simp: Let_def split: if_splits list.splits)

function from_utf8 :: "u8 list \<Rightarrow> rstr option" where
  "from_utf8 b =
     (if b = [] then Some []
      else case decode_char b of
        None \<Rightarrow> None
      | Some (c, n) \<Rightarrow> map_option ((#) c) (from_utf8 (drop n b)))"
  by pat_completeness auto
termination
  by (relation "measure length") (auto dest!: decode_char_pos simp: Let_def)

declare from_utf8.simps [simp del]

lemma from_utf8_Nil [simp]: "from_utf8 [] = Some []"
  by (simp add: from_utf8.simps)

lemma length_utf8_char [simp]: "length (utf8_char c) = len_utf8 c"
  by (simp add: utf8_char_def len_utf8_def)

lemma utf8_simps [simp]: "utf8 [] = []" "utf8 (c # s) = utf8_char c @ utf8 s"
  "utf8 (s @ t) = utf8 s @ utf8 t"
  by (simp_all add: utf8_def)

lemma length_utf8 [simp]: "length (utf8 s) = blen s"
  by (induction s) auto

lemma unat_byte [simp]: "n < 256 \<Longrightarrow> unat (byte n) = n"
  by (simp add: byte_def unat_of_nat)

lemma mod_64_less [simp]: "128 + m mod 64 < 192" "128 + m mod 64 < (256::nat)" for m :: nat
proof -
  have "m mod 64 < 64" by simp
  then show "128 + m mod 64 < 192" "128 + m mod 64 < (256::nat)" by linarith+
qed

lemma is_cont_tail [simp]: "is_cont (byte (128 + m mod 64))"
  by (simp add: is_cont_def)

lemma base_64_3: "c div 4096 * 4096 + c div 64 mod 64 * 64 + c mod 64 = c" for c :: nat
proof -
  have "c div 64 div 64 * 64 + c div 64 mod 64 = c div 64" by (rule div_mult_mod_eq)
  moreover have "c div 64 div 64 = c div 4096" by (simp flip: div_mult2_eq)
  moreover have "c div 64 * 64 + c mod 64 = c" by (rule div_mult_mod_eq)
  ultimately show ?thesis by linarith
qed

lemma base_64_4:
  "c div 262144 * 262144 + c div 4096 mod 64 * 4096 + c div 64 mod 64 * 64 + c mod 64 = c"
  for c :: nat
proof -
  have "c div 4096 div 64 * 64 + c div 4096 mod 64 = c div 4096" by (rule div_mult_mod_eq)
  moreover have "c div 4096 div 64 = c div 262144" by (simp flip: div_mult2_eq)
  ultimately show ?thesis using base_64_3 [of c] by linarith
qed

lemma decode_char_utf8_char:
  assumes "is_scalar c"
  shows "decode_char (utf8_char c @ r) = Some (c, len_utf8 c)"
proof -
  consider "c < 128" | "128 \<le> c" "c < 2048" | "2048 \<le> c" "c < 65536" | "65536 \<le> c" "c < 1114112"
    using assms by (auto simp: is_scalar_def) linarith+
  then show ?thesis
  proof cases
    case 1
    then show ?thesis by (simp add: utf8_char_def len_utf8_def)
  next
    case 2
    then have "c div 64 < 32" by simp
    with 2 show ?thesis by (simp add: utf8_char_def len_utf8_def Let_def)
  next
    case 3
    then have "c div 4096 < 16" by simp
    moreover note base_64_3 [of c]
    ultimately show ?thesis using 3 assms by (simp add: utf8_char_def len_utf8_def Let_def)
  next
    case 4
    then have "c div 262144 < 5" by simp
    moreover note base_64_4 [of c]
    ultimately show ?thesis using 4 assms by (simp add: utf8_char_def len_utf8_def Let_def)
  qed
qed

text \<open>A string's bytes decode to the string.\<close>

lemma from_utf8_utf8: "(\<And>c. c \<in> set s \<Longrightarrow> is_scalar c) \<Longrightarrow> from_utf8 (utf8 s) = Some s"
proof (induction s)
  case (Cons c s)
  have "utf8_char c @ utf8 s \<noteq> []" by (simp flip: length_0_conv)
  with Cons show ?case
    by (subst from_utf8.simps) (simp add: decode_char_utf8_char)
qed simp

section \<open>Searching, splitting, numbers\<close>

fun strip_prefix :: "'a list \<Rightarrow> 'a list \<Rightarrow> 'a list option" where
  "strip_prefix [] s = Some s"
| "strip_prefix (p # ps) [] = None"
| "strip_prefix (p # ps) (c # s) = (if p = c then strip_prefix ps s else None)"

definition starts_with :: "'a list \<Rightarrow> 'a list \<Rightarrow> bool" where
  "starts_with p s \<longleftrightarrow> strip_prefix p s \<noteq> None"

definition strip_suffix :: "'a list \<Rightarrow> 'a list \<Rightarrow> 'a list option" where
  "strip_suffix p s = map_option rev (strip_prefix (rev p) (rev s))"

lemma strip_prefix_eq_Some: "strip_prefix p s = Some t \<longleftrightarrow> s = p @ t"
  by (induction p s rule: strip_prefix.induct) auto

lemma starts_with_iff: "starts_with p s \<longleftrightarrow> (\<exists>t. s = p @ t)"
  by (auto simp: starts_with_def strip_prefix_eq_Some)

lemma strip_suffix_eq_Some: "strip_suffix p s = Some t \<longleftrightarrow> s = t @ p"
  by (auto simp: strip_suffix_def strip_prefix_eq_Some)
    (metis rev_append rev_rev_ident)

text \<open>\<open>str::find\<close> for a substring: the characters before the first occurrence.\<close>

fun find_str :: "'a list \<Rightarrow> 'a list \<Rightarrow> 'a list option" where
  "find_str p s =
     (if starts_with p s then Some []
      else case s of [] \<Rightarrow> None | c # cs \<Rightarrow> map_option ((#) c) (find_str p cs))"

declare find_str.simps [simp del]

lemma find_str_SomeD: "find_str p s = Some a \<Longrightarrow> \<exists>b. s = a @ p @ b"
proof (induction p s arbitrary: a rule: find_str.induct)
  case (1 p s)
  then show ?case
    by (auto simp: find_str.simps [of p s] starts_with_iff split: if_splits list.splits)
qed

lemma find_str_None_iff: "find_str p s = None \<longleftrightarrow> \<not> (\<exists>a b. s = a @ p @ b)"
proof (induction p s rule: find_str.induct)
  case (1 p s)
  show ?case
  proof (cases "starts_with p s")
    case True
    then have "\<exists>a b. s = a @ p @ b" by (metis append_Nil starts_with_iff)
    with True show ?thesis by (simp add: find_str.simps [of p s])
  next
    case False
    show ?thesis
    proof (cases s)
      case Nil
      with False show ?thesis by (auto simp: find_str.simps [of p "[]"] starts_with_iff)
    next
      case (Cons c cs)
      have "(\<exists>a b. s = a @ p @ b) \<longleftrightarrow> (\<exists>a b. cs = a @ p @ b)"
      proof
        assume "\<exists>a b. s = a @ p @ b"
        then obtain a b where ab: "s = a @ p @ b" by blast
        from False this have "a \<noteq> []" by (auto simp: starts_with_iff)
        with ab Cons show "\<exists>a b. cs = a @ p @ b" by (cases a) auto
      next
        assume "\<exists>a b. cs = a @ p @ b"
        with Cons show "\<exists>a b. s = a @ p @ b" by (metis append_Cons)
      qed
      with 1 [OF False Cons] False Cons show ?thesis
        by (simp add: find_str.simps [of p "c # cs"])
    qed
  qed
qed

text \<open>\<open>split(c)\<close> for a character yields at least one piece; \<open>split_once\<close> and \<open>rsplit_once\<close>.\<close>

fun split_char :: "'a \<Rightarrow> 'a list \<Rightarrow> 'a list list" where
  "split_char d [] = [[]]"
| "split_char d (c # s) =
     (if c = d then [] # split_char d s
      else case split_char d s of [] \<Rightarrow> [[c]] | p # ps \<Rightarrow> (c # p) # ps)"

fun split_once :: "'a \<Rightarrow> 'a list \<Rightarrow> ('a list \<times> 'a list) option" where
  "split_once d [] = None"
| "split_once d (c # s) =
     (if c = d then Some ([], s) else map_option (\<lambda>(a, b). (c # a, b)) (split_once d s))"

definition rsplit_once :: "'a \<Rightarrow> 'a list \<Rightarrow> ('a list \<times> 'a list) option" where
  "rsplit_once d s = map_option (\<lambda>(a, b). (rev b, rev a)) (split_once d (rev s))"

text \<open>\<open>slice.join(sep)\<close> for a one-character separator.\<close>

fun join_char :: "'a \<Rightarrow> 'a list list \<Rightarrow> 'a list" where
  "join_char d [] = []"
| "join_char d [l] = l"
| "join_char d (l # ls) = l @ d # join_char d ls"

lemma split_char_neq_Nil [simp]: "split_char d s \<noteq> []"
  by (induction s) (auto split: list.splits)

lemma join_split_char [simp]: "join_char d (split_char d s) = s"
proof (induction s)
  case (Cons c s)
  then show ?case
    by (cases "split_char d s"; cases "tl (split_char d s)") auto
qed simp

lemma split_char_no_sep: "l \<in> set (split_char d s) \<Longrightarrow> d \<notin> set l"
  by (induction s arbitrary: l) (fastforce split: if_splits list.splits)+

lemma split_char_id: "d \<notin> set s \<Longrightarrow> split_char d s = [s]"
  by (induction s) auto

lemma split_char_append:
  "split_char d (s @ t) =
     butlast (split_char d s) @ (last (split_char d s) @ hd (split_char d t)) # tl (split_char d t)"
  by (induction s) (auto split: list.splits simp: neq_Nil_conv)

lemma split_char_sep: "split_char d (s @ d # t) = split_char d s @ split_char d t"
  by (simp add: split_char_append)

lemma split_join_char:
  "ls \<noteq> [] \<Longrightarrow> (\<And>l. l \<in> set ls \<Longrightarrow> d \<notin> set l) \<Longrightarrow> split_char d (join_char d ls) = ls"
proof (induction d ls rule: join_char.induct)
  case (3 d l l2 ls)
  then show ?case by (simp add: split_char_sep split_char_id)
qed (auto simp: split_char_id)

lemma length_split_char: "length (split_char d s) = Suc (count_list s d)"
  by (induction s) (auto split: list.splits)

lemma split_once_eq_Some: "split_once d s = Some (a, b) \<longleftrightarrow> s = a @ d # b \<and> d \<notin> set a"
  by (induction s arbitrary: a b) (auto simp: Cons_eq_append_conv)

lemma split_once_None_iff: "split_once d s = None \<longleftrightarrow> d \<notin> set s"
  by (induction s) auto

lemma rsplit_once_eq_Some: "rsplit_once d s = Some (a, b) \<longleftrightarrow> s = a @ d # b \<and> d \<notin> set b"
proof -
  have "rsplit_once d s = Some (a, b) \<longleftrightarrow> split_once d (rev s) = Some (rev b, rev a)"
    by (auto simp: rsplit_once_def)
  also have "\<dots> \<longleftrightarrow> rev s = rev b @ d # rev a \<and> d \<notin> set b"
    by (simp add: split_once_eq_Some)
  also have "\<dots> \<longleftrightarrow> s = a @ d # b \<and> d \<notin> set b"
    by (metis append.assoc append_Cons append_Nil rev.simps(2) rev_append rev_rev_ident)
  finally show ?thesis .
qed

lemma rsplit_once_None_iff: "rsplit_once d s = None \<longleftrightarrow> d \<notin> set s"
  by (simp add: rsplit_once_def split_once_None_iff)

text \<open>Decimal digits, as \<open>format!\<close> writes an unsigned number.\<close>

fun show_nat :: "nat \<Rightarrow> rstr" where
  "show_nat n = (if n < 10 then [48 + n] else show_nat (n div 10) @ [48 + n mod 10])"

declare show_nat.simps [simp del]

end
