(* ===== verification/Cell_Types.thy ===== *)
theory Cell_Types
  imports Rust_Str
begin

unbundle bit_operations_syntax

text \<open>
  \<open>color.rs\<close> and \<open>cell.rs\<close> of \<open>unshit-terminal-core\<close>: RGBA colours, the 16-colour palette and the
  256-colour lookup with its narrowing casts, and the cell with its attribute bit set.
\<close>

section \<open>Colours\<close>

record color =
  col_r :: u8
  col_g :: u8
  col_b :: u8
  col_a :: u8

definition TRANSPARENT :: color where
  "TRANSPARENT = \<lparr>col_r = 0, col_g = 0, col_b = 0, col_a = 0\<rparr>"

definition BLACK :: color where
  "BLACK = \<lparr>col_r = 0, col_g = 0, col_b = 0, col_a = 255\<rparr>"

definition WHITE :: color where
  "WHITE = \<lparr>col_r = 255, col_g = 255, col_b = 255, col_a = 255\<rparr>"

definition rgb :: "u8 \<Rightarrow> u8 \<Rightarrow> u8 \<Rightarrow> color" where
  "rgb r g b = \<lparr>col_r = r, col_g = g, col_b = b, col_a = 255\<rparr>"

definition rgba :: "u8 \<Rightarrow> u8 \<Rightarrow> u8 \<Rightarrow> u8 \<Rightarrow> color" where
  "rgba r g b a = \<lparr>col_r = r, col_g = g, col_b = b, col_a = a\<rparr>"

definition ANSI_16 :: "color list" where
  "ANSI_16 =
     [rgba 0 0 0 255, rgba 170 0 0 255, rgba 0 170 0 255, rgba 170 85 0 255,
      rgba 0 0 170 255, rgba 170 0 170 255, rgba 0 170 170 255, rgba 170 170 170 255,
      rgba 85 85 85 255, rgba 255 85 85 255, rgba 85 255 85 255, rgba 255 255 85 255,
      rgba 85 85 255 255, rgba 255 85 255 255, rgba 85 255 255 255, rgba 255 255 255 255]"

text \<open>
  \<open>color_256\<close>: the index is a byte, the arithmetic is on 16-bit words, and the results are cast
  back to bytes (\<open>ucast\<close> truncates, as \<open>as u8\<close> does).
\<close>

definition to_val :: "u16 \<Rightarrow> u8" where
  "to_val i = (if i = 0 then 0 else ucast (55 + 40 * i))"

definition color_256 :: "u8 \<Rightarrow> color" where
  "color_256 index =
     (if index < 16 then ANSI_16 ! unat index
      else if index < 232 then
        (let idx = (ucast (index - 16) :: u16);
             b_idx = idx mod 6;
             g_idx = (idx div 6) mod 6;
             r_idx = idx div 36
         in rgb (to_val r_idx) (to_val g_idx) (to_val b_idx))
      else
        (let v = 8 + 10 * (ucast (index - 232) :: u16)
         in rgb (ucast v) (ucast v) (ucast v)))"

lemma length_ANSI_16 [simp]: "length ANSI_16 = 16"
  by (simp add: ANSI_16_def)

text \<open>
  The casts lose nothing: every component is the number the 16-bit arithmetic computed, in the
  colour cube as on the grey ramp.
\<close>

lemma unat_u8_less [simp]: "unat (i :: u8) < 256"
  using unsigned_less [of i] by simp

lemma unat_u16_less [simp]: "unat (i :: u16) < 65536"
  using unsigned_less [of i] by simp

lemma unat_narrow: "unat (ucast (x :: u16) :: u8) = unat x mod 256"
  by (simp add: unsigned_ucast_eq take_bit_eq_mod)

lemma unat_widen: "unat (ucast (x :: u8) :: u16) = unat x"
proof -
  have "unat x < 65536" using unat_u8_less [of x] by linarith
  then show ?thesis by (simp add: unsigned_ucast_eq take_bit_eq_mod)
qed

lemma unat_to_val:
  assumes "unat i < 6"
  shows "unat (to_val i) = (if i = 0 then 0 else 55 + 40 * unat i)"
  using assms by (auto simp: to_val_def unat_narrow unat_word_ariths)

lemma unat_sub_16: "16 \<le> i \<Longrightarrow> unat (ucast (i - 16 :: u8) :: u16) = unat i - 16"
  by (simp add: unat_widen unat_sub_if' word_le_nat_alt)

lemma unat_sub_232: "232 \<le> i \<Longrightarrow> unat (ucast (i - 232 :: u8) :: u16) = unat i - 232"
  by (simp add: unat_widen unat_sub_if' word_le_nat_alt)

lemma color_256_cube:
  assumes "16 \<le> i" and "i < 232"
  defines "n \<equiv> unat i - 16"
  shows "unat (col_r (color_256 i)) = (if n div 36 = 0 then 0 else 55 + 40 * (n div 36))"
    and "unat (col_g (color_256 i)) = (if n div 6 mod 6 = 0 then 0 else 55 + 40 * (n div 6 mod 6))"
    and "unat (col_b (color_256 i)) = (if n mod 6 = 0 then 0 else 55 + 40 * (n mod 6))"
    and "col_a (color_256 i) = 255"
proof -
  define idx where "idx = (ucast (i - 16) :: u16)"
  have idx: "unat idx = n" using assms by (simp add: idx_def n_def unat_sub_16)
  have n: "n < 216" using assms by (simp add: n_def word_less_nat_alt word_le_nat_alt)
  have r: "unat (idx div 36) = n div 36" and g: "unat (idx div 6 mod 6) = n div 6 mod 6"
    and b: "unat (idx mod 6) = n mod 6"
    by (simp_all add: unat_div unat_mod idx)
  have z: "w = 0 \<longleftrightarrow> unat w = 0" for w :: u16 by (simp add: unat_eq_0)
  have eq: "color_256 i = rgb (to_val (idx div 36)) (to_val (idx div 6 mod 6)) (to_val (idx mod 6))"
    using assms(1,2) by (simp add: color_256_def idx_def Let_def)
  have "n div 36 < 6" and "n div 6 mod 6 < 6" and "n mod 6 < 6" using n by auto
  with r g b z show "unat (col_r (color_256 i)) = (if n div 36 = 0 then 0 else 55 + 40 * (n div 36))"
    and "unat (col_g (color_256 i)) = (if n div 6 mod 6 = 0 then 0 else 55 + 40 * (n div 6 mod 6))"
    and "unat (col_b (color_256 i)) = (if n mod 6 = 0 then 0 else 55 + 40 * (n mod 6))"
    and "col_a (color_256 i) = 255"
    by (simp_all only: eq unat_to_val) (simp_all add: rgb_def unat_to_val)
qed

lemma color_256_grey:
  assumes "232 \<le> i"
  shows "unat (col_r (color_256 i)) = 8 + 10 * (unat i - 232)"
    and "col_g (color_256 i) = col_r (color_256 i)" and "col_b (color_256 i) = col_r (color_256 i)"
    and "col_a (color_256 i) = 255"
proof -
  have n: "unat i - 232 < 24" using unat_u8_less [of i] by linarith
  have nl: "\<not> i < 232" "\<not> i < 16" using assms by (auto simp: word_less_nat_alt word_le_nat_alt)
  show "unat (col_r (color_256 i)) = 8 + 10 * (unat i - 232)"
    using n nl assms
    by (simp add: color_256_def rgb_def Let_def unat_narrow unat_word_ariths unat_sub_232)
  show "col_g (color_256 i) = col_r (color_256 i)" "col_b (color_256 i) = col_r (color_256 i)"
    "col_a (color_256 i) = 255"
    using nl by (simp_all add: color_256_def rgb_def Let_def)
qed

section \<open>Cells\<close>

type_synonym cell_attrs = u8

definition BOLD :: cell_attrs where "BOLD = 1"
definition ITALIC :: cell_attrs where "ITALIC = 2"
definition UNDERLINE :: cell_attrs where "UNDERLINE = 4"
definition STRIKETHROUGH :: cell_attrs where "STRIKETHROUGH = 8"
definition INVERSE :: cell_attrs where "INVERSE = 16"
definition DIM :: cell_attrs where "DIM = 32"
definition BLINK :: cell_attrs where "BLINK = 64"

text \<open>The \<open>bitflags\<close> operators: \<open>!a\<close> keeps to the seven declared flags.\<close>

definition attrs_all :: cell_attrs where "attrs_all = 127"
definition attrs_empty :: cell_attrs where "attrs_empty = 0"

definition attrs_not :: "cell_attrs \<Rightarrow> cell_attrs" where
  "attrs_not a = NOT a AND attrs_all"

record cell =
  c_ch :: rchar
  c_fg :: color
  c_bg :: color
  c_attrs :: cell_attrs

definition BLANK :: cell where
  "BLANK = \<lparr>c_ch = 32, c_fg = WHITE, c_bg = TRANSPARENT, c_attrs = attrs_empty\<rparr>"

definition cell_new :: "rchar \<Rightarrow> color \<Rightarrow> color \<Rightarrow> cell_attrs \<Rightarrow> cell" where
  "cell_new c f b a = \<lparr>c_ch = c, c_fg = f, c_bg = b, c_attrs = a\<rparr>"

end
