(* ===== verification/Grid.thy ===== *)
theory Grid
  imports Cell_Types
begin

text \<open>
  \<open>grid.rs\<close>: the screen as one vector of cells, row by row, with a cursor. Every operation is
  the code's, loops as folds over the same index ranges. Rust would panic on an index past the
  vector; \<open>grid_wf\<close> is what rules that out, and \<open>grid_index_in_range\<close> is the bound every access
  rests on. \<open>cell_store\<close> is what the emulator asks of a grid: reads after writes.
\<close>

section \<open>State and operations\<close>

record grid =
  g_rows :: nat
  g_cols :: nat
  g_cells :: "cell list"
  g_cursor_row :: nat
  g_cursor_col :: nat
  g_cursor_visible :: bool

definition grid_new :: "nat \<Rightarrow> nat \<Rightarrow> grid" where
  "grid_new rows cols =
     \<lparr>g_rows = rows, g_cols = cols, g_cells = replicate (rows * cols) BLANK,
      g_cursor_row = 0, g_cursor_col = 0, g_cursor_visible = True\<rparr>"

definition grid_cursor :: "grid \<Rightarrow> nat \<times> nat" where
  "grid_cursor g = (g_cursor_row g, g_cursor_col g)"

text \<open>\<open>saturating_sub\<close> is subtraction on naturals.\<close>

definition grid_set_cursor :: "grid \<Rightarrow> nat \<Rightarrow> nat \<Rightarrow> grid" where
  "grid_set_cursor g row col =
     g\<lparr>g_cursor_row := min row (g_rows g - 1), g_cursor_col := min col (g_cols g - 1)\<rparr>"

definition grid_set_cursor_visible :: "grid \<Rightarrow> bool \<Rightarrow> grid" where
  "grid_set_cursor_visible g v = g\<lparr>g_cursor_visible := v\<rparr>"

definition grid_get :: "grid \<Rightarrow> nat \<Rightarrow> nat \<Rightarrow> cell option" where
  "grid_get g row col =
     (if row < g_rows g \<and> col < g_cols g then nth_opt (g_cells g) (row * g_cols g + col) else None)"

definition grid_set :: "grid \<Rightarrow> nat \<Rightarrow> nat \<Rightarrow> cell \<Rightarrow> grid" where
  "grid_set g row col x =
     (if row < g_rows g \<and> col < g_cols g
      then g\<lparr>g_cells := (g_cells g)[row * g_cols g + col := x]\<rparr> else g)"

definition grid_row :: "grid \<Rightarrow> nat \<Rightarrow> cell list option" where
  "grid_row g row =
     (if row < g_rows g then Some (take (g_cols g) (drop (row * g_cols g) (g_cells g))) else None)"

definition grid_resize :: "grid \<Rightarrow> nat \<Rightarrow> nat \<Rightarrow> grid" where
  "grid_resize g rows cols =
     (if rows = g_rows g \<and> cols = g_cols g then g
      else
        (let copy_rows = min rows (g_rows g);
             copy_cols = min cols (g_cols g);
             next = fold (\<lambda>r. fold (\<lambda>c next. next[r * cols + c := g_cells g ! (r * g_cols g + c)])
                                   [0..<copy_cols])
                         [0..<copy_rows] (replicate (rows * cols) BLANK)
         in g\<lparr>g_cells := next, g_rows := rows, g_cols := cols,
              g_cursor_row := (if rows = 0 then 0
                               else if g_cursor_row g \<ge> rows then rows - 1 else g_cursor_row g),
              g_cursor_col := (if cols = 0 then 0
                               else if g_cursor_col g \<ge> cols then cols - 1 else g_cursor_col g)\<rparr>))"

text \<open>\<open>v[a..b].fill(x)\<close>\<close>

definition fill_range :: "nat \<Rightarrow> nat \<Rightarrow> 'a \<Rightarrow> 'a list \<Rightarrow> 'a list" where
  "fill_range a b x xs = take a xs @ replicate (b - a) x @ drop b xs"

definition grid_erase_to_line_end :: "grid \<Rightarrow> nat \<Rightarrow> nat \<Rightarrow> grid" where
  "grid_erase_to_line_end g row col =
     (if row \<ge> g_rows g then g
      else g\<lparr>g_cells := fill_range (row * g_cols g + min col (g_cols g)) ((row + 1) * g_cols g)
                           BLANK (g_cells g)\<rparr>)"

definition grid_erase_all :: "grid \<Rightarrow> grid" where
  "grid_erase_all g = g\<lparr>g_cells := fill_range 0 (length (g_cells g)) BLANK (g_cells g)\<rparr>"

text \<open>\<open>v.copy_within(k.., 0)\<close>: the tail from \<open>k\<close> is copied to the front, the rest stays.\<close>

definition copy_within_front :: "nat \<Rightarrow> 'a list \<Rightarrow> 'a list" where
  "copy_within_front k xs = drop k xs @ drop (length xs - k) xs"

definition grid_shrink_rows_from_top :: "grid \<Rightarrow> nat \<Rightarrow> cell list list \<times> grid" where
  "grid_shrink_rows_from_top g n =
     (if n = 0 \<or> g_rows g = 0 \<or> g_cols g = 0 then ([], g)
      else
        (let k = min n (g_rows g);
             evicted = map (\<lambda>r. take (g_cols g) (drop (r * g_cols g) (g_cells g))) [0..<k];
             moved = copy_within_front (k * g_cols g) (g_cells g);
             tail_start = (g_rows g - k) * g_cols g
         in (evicted, g\<lparr>g_cells := fill_range tail_start (length moved) BLANK moved\<rparr>)))"

text \<open>\<open>v[d..d + src.len()].copy_from_slice(src)\<close>\<close>

definition copy_slice :: "nat \<Rightarrow> 'a list \<Rightarrow> 'a list \<Rightarrow> 'a list" where
  "copy_slice d src xs = take d xs @ src @ drop (d + length src) xs"

definition grid_grow_rows_at_top :: "grid \<Rightarrow> nat \<Rightarrow> cell list list \<Rightarrow> grid" where
  "grid_grow_rows_at_top g n lifted =
     (if n = 0 then g
      else
        (let new_rows = g_rows g + n;
             cols = g_cols g;
             lifted_rows = take n lifted;
             blank_top = n - length lifted_rows;
             next0 = replicate (new_rows * cols) BLANK;
             next1 = fold (\<lambda>i next. copy_slice ((blank_top + i) * cols)
                                      (take (min (length (lifted_rows ! i)) cols) (lifted_rows ! i)) next)
                       [0..<length lifted_rows] next0;
             next2 = fold (\<lambda>r next. copy_slice ((r + n) * cols)
                                      (take cols (drop (r * cols) (g_cells g))) next)
                       [0..<g_rows g] next1
         in g\<lparr>g_cells := next2, g_rows := new_rows\<rparr>))"

definition grid_scroll_up :: "grid \<Rightarrow> cell list \<times> grid" where
  "grid_scroll_up g =
     (if g_rows g = 0 \<or> g_cols g = 0 then ([], g)
      else
        (let evicted = take (g_cols g) (g_cells g);
             moved = copy_within_front (g_cols g) (g_cells g);
             tail_start = (g_rows g - 1) * g_cols g
         in (evicted, g\<lparr>g_cells := fill_range tail_start (length moved) BLANK moved\<rparr>)))"

section \<open>Well-formedness and the view as rows\<close>

definition grid_wf :: "grid \<Rightarrow> bool" where
  "grid_wf g \<longleftrightarrow> length (g_cells g) = g_rows g * g_cols g
     \<and> g_cursor_row g \<le> g_rows g - 1 \<and> g_cursor_col g \<le> g_cols g - 1"

definition grid_lines :: "grid \<Rightarrow> cell list list" where
  "grid_lines g = chunk (g_cols g) (g_rows g) (g_cells g)"

lemma grid_index_in_range:
  "grid_wf g \<Longrightarrow> r < g_rows g \<Longrightarrow> c < g_cols g \<Longrightarrow> r * g_cols g + c < length (g_cells g)"
  by (simp add: grid_wf_def row_index_less)

lemma length_grid_lines [simp]: "length (grid_lines g) = g_rows g"
  by (simp add: grid_lines_def)

lemma grid_lines_width: "grid_wf g \<Longrightarrow> l \<in> set (grid_lines g) \<Longrightarrow> length l = g_cols g"
  by (auto simp: grid_lines_def grid_wf_def dest: chunk_row_length)

lemma concat_grid_lines: "grid_wf g \<Longrightarrow> concat (grid_lines g) = g_cells g"
  by (simp add: grid_lines_def grid_wf_def concat_chunk)

lemma grid_lines_concat:
  "g_cells g = concat ls \<Longrightarrow> length ls = g_rows g \<Longrightarrow> (\<And>l. l \<in> set ls \<Longrightarrow> length l = g_cols g) \<Longrightarrow>
    grid_lines g = ls"
  by (simp add: grid_lines_def chunk_concat)

lemma grid_row_eq: "r < g_rows g \<Longrightarrow> grid_row g r = Some (grid_lines g ! r)"
  by (simp add: grid_row_def grid_lines_def chunk_def)

lemma grid_get_lines:
  "grid_wf g \<Longrightarrow> grid_get g r c = (if r < g_rows g \<and> c < g_cols g then Some (grid_lines g ! r ! c) else None)"
proof -
  assume wf: "grid_wf g"
  have "grid_lines g ! r ! c = g_cells g ! (r * g_cols g + c)" if "r < g_rows g" "c < g_cols g"
  proof -
    have "Suc r * g_cols g \<le> g_rows g * g_cols g" using that by (intro mult_le_mono1) simp
    then have "r * g_cols g + g_cols g \<le> length (g_cells g)" using wf by (simp add: grid_wf_def)
    with that show ?thesis by (simp add: grid_lines_def chunk_def)
  qed
  then show ?thesis using grid_index_in_range [OF wf] by (simp add: grid_get_def)
qed

lemma grid_get_None_iff: "grid_wf g \<Longrightarrow> grid_get g r c = None \<longleftrightarrow> \<not> (r < g_rows g \<and> c < g_cols g)"
  by (simp add: grid_get_lines)

lemma grid_eqI:
  assumes "grid_wf g" "grid_wf g'" "g_rows g = g_rows g'" "g_cols g = g_cols g'"
    and "g_cursor_row g = g_cursor_row g'" "g_cursor_col g = g_cursor_col g'"
    and "g_cursor_visible g = g_cursor_visible g'"
    and "grid_lines g = grid_lines g'"
  shows "g = (g' :: grid)"
  using assms concat_grid_lines [of g] concat_grid_lines [of g'] by simp

lemma grid_lines_eqI:
  assumes "grid_wf g" "grid_wf g'" "g_rows g = g_rows g'" "g_cols g = g_cols g'"
    and "\<And>r c. r < g_rows g \<Longrightarrow> c < g_cols g \<Longrightarrow> grid_get g r c = grid_get g' r c"
  shows "grid_lines g = grid_lines g'"
proof (rule nth_equalityI)
  fix r
  assume "r < length (grid_lines g)"
  then have r: "r < g_rows g" by simp
  have lens: "length (grid_lines g ! r) = g_cols g" "length (grid_lines g' ! r) = g_cols g"
    using r assms(1-4) by (simp_all add: grid_lines_width)
  show "grid_lines g ! r = grid_lines g' ! r"
  proof (rule nth_equalityI)
    fix c
    assume "c < length (grid_lines g ! r)"
    with lens r assms(5) [of r c] assms(1-4) show "grid_lines g ! r ! c = grid_lines g' ! r ! c"
      by (simp add: grid_get_lines)
  qed (simp add: lens)
qed (simp add: assms)

section \<open>Each operation\<close>

subsection \<open>Cell access\<close>

lemma grid_new_wf [keeps_inv]: "grid_wf (grid_new rows cols)"
  by (simp add: grid_wf_def grid_new_def)

lemma grid_new_simps [simp]:
  "g_rows (grid_new rows cols) = rows" "g_cols (grid_new rows cols) = cols"
  "g_cursor_row (grid_new rows cols) = 0" "g_cursor_col (grid_new rows cols) = 0"
  "g_cursor_visible (grid_new rows cols)"
  by (simp_all add: grid_new_def)

lemma grid_set_cursor_wf [keeps_inv]: "grid_wf g \<Longrightarrow> grid_wf (grid_set_cursor g r c)"
  by (simp add: grid_wf_def grid_set_cursor_def)

lemma grid_set_cursor_simps [simp]:
  "g_rows (grid_set_cursor g r c) = g_rows g" "g_cols (grid_set_cursor g r c) = g_cols g"
  "g_cells (grid_set_cursor g r c) = g_cells g"
  "g_cursor_visible (grid_set_cursor g r c) = g_cursor_visible g"
  "grid_lines (grid_set_cursor g r c) = grid_lines g"
  "grid_get (grid_set_cursor g r c) i j = grid_get g i j"
  by (simp_all add: grid_set_cursor_def grid_lines_def grid_get_def)

lemma grid_set_cursor_visible_wf [keeps_inv]: "grid_wf g \<Longrightarrow> grid_wf (grid_set_cursor_visible g v)"
  by (simp add: grid_wf_def grid_set_cursor_visible_def)

lemma grid_set_cursor_visible_simps [simp]:
  "g_rows (grid_set_cursor_visible g v) = g_rows g" "g_cols (grid_set_cursor_visible g v) = g_cols g"
  "g_cells (grid_set_cursor_visible g v) = g_cells g"
  "grid_lines (grid_set_cursor_visible g v) = grid_lines g"
  by (simp_all add: grid_set_cursor_visible_def grid_lines_def)

lemma grid_set_wf [keeps_inv]: "grid_wf g \<Longrightarrow> grid_wf (grid_set g r c x)"
  by (simp add: grid_wf_def grid_set_def)

lemma grid_set_simps [simp]:
  "g_rows (grid_set g r c x) = g_rows g" "g_cols (grid_set g r c x) = g_cols g"
  "g_cursor_row (grid_set g r c x) = g_cursor_row g" "g_cursor_col (grid_set g r c x) = g_cursor_col g"
  "g_cursor_visible (grid_set g r c x) = g_cursor_visible g"
  by (simp_all add: grid_set_def)

lemma grid_get_set:
  assumes "grid_wf g"
  shows "grid_get (grid_set g r c x) i j =
    (if i = r \<and> j = c \<and> grid_get g i j \<noteq> None then Some x else grid_get g i j)"
proof (cases "r < g_rows g \<and> c < g_cols g \<and> i < g_rows g \<and> j < g_cols g")
  case True
  then have "r * g_cols g + c < length (g_cells g)" "i * g_cols g + j < length (g_cells g)"
    using assms by (simp_all add: grid_index_in_range)
  moreover have "i * g_cols g + j = r * g_cols g + c \<longleftrightarrow> i = r \<and> j = c"
    using True by (intro row_index_inj) auto
  ultimately show ?thesis using True by (auto simp: grid_get_def grid_set_def nth_list_update)
next
  case False
  then show ?thesis by (auto simp: grid_get_def grid_set_def)
qed

subsection \<open>What the emulator asks of a grid\<close>

locale cell_store =
  fixes get :: "'s \<Rightarrow> nat \<Rightarrow> nat \<Rightarrow> 'c option"
    and put :: "'s \<Rightarrow> nat \<Rightarrow> nat \<Rightarrow> 'c \<Rightarrow> 's"
    and inv :: "'s \<Rightarrow> bool"
  assumes put_inv: "inv s \<Longrightarrow> inv (put s r c x)"
    and get_put: "inv s \<Longrightarrow>
      get (put s r c x) i j = (if i = r \<and> j = c \<and> get s i j \<noteq> None then Some x else get s i j)"
begin

lemma fill_row_inv: "inv s \<Longrightarrow> inv (fold (\<lambda>c s. put s r c x) cs s)"
  by (induction cs arbitrary: s) (auto intro: put_inv)

lemma get_fill_row:
  "inv s \<Longrightarrow> get (fold (\<lambda>c s. put s r c x) cs s) i j =
    (if i = r \<and> j \<in> set cs \<and> get s i j \<noteq> None then Some x else get s i j)"
  by (induction cs arbitrary: s) (auto simp: put_inv get_put)

lemma fill_block_inv: "inv s \<Longrightarrow> inv (fold (\<lambda>r. fold (\<lambda>c s. put s r c x) cs) rs s)"
  by (induction rs arbitrary: s) (auto intro: fill_row_inv)

lemma get_fill_block:
  "inv s \<Longrightarrow> get (fold (\<lambda>r. fold (\<lambda>c s. put s r c x) cs) rs s) i j =
    (if i \<in> set rs \<and> j \<in> set cs \<and> get s i j \<noteq> None then Some x else get s i j)"
  by (induction rs arbitrary: s) (auto simp: fill_row_inv get_fill_row)

text \<open>Copying a row cell by cell, as a loop of reads and writes.\<close>

lemma copy_row_inv:
  "inv s \<Longrightarrow> inv (fold (\<lambda>c s. put s dst c (case get s src c of Some x \<Rightarrow> x | None \<Rightarrow> b)) cs s)"
  by (induction cs arbitrary: s) (auto intro: put_inv)

lemma get_copy_row:
  assumes "inv s" and "dst \<noteq> src"
  shows "get (fold (\<lambda>c s. put s dst c (case get s src c of Some x \<Rightarrow> x | None \<Rightarrow> b)) cs s) i j =
    (if i = dst \<and> j \<in> set cs \<and> get s i j \<noteq> None
     then Some (case get s src j of Some x \<Rightarrow> x | None \<Rightarrow> b) else get s i j)"
  using assms
  by (induction cs arbitrary: s) (auto simp: put_inv get_put)

text \<open>Moving cells inside a row: an iteration writes at \<open>c\<close> what it reads at \<open>f c\<close>.\<close>

lemma move_cells_inv:
  "inv s \<Longrightarrow> inv (fold (\<lambda>c s. case get s r (f c) of Some x \<Rightarrow> put s r c x | None \<Rightarrow> s) cs s)"
  by (induction cs arbitrary: s) (auto intro: put_inv split: option.split)

lemma get_move_cells_other:
  "inv s \<Longrightarrow> i \<noteq> r \<Longrightarrow>
    get (fold (\<lambda>c s. case get s r (f c) of Some x \<Rightarrow> put s r c x | None \<Rightarrow> s) cs s) i j = get s i j"
  by (induction cs arbitrary: s) (auto simp: put_inv get_put split: option.split)

lemma get_move_cells:
  assumes "inv s" and "\<And>c. c \<in> set cs \<Longrightarrow> get s r c \<noteq> None \<and> get s r (f c) \<noteq> None"
  shows "get (fold (\<lambda>c s. case get s r (f c) of Some x \<Rightarrow> put s r c x | None \<Rightarrow> s) cs s) r =
    fold (\<lambda>c R. R(c := R (f c))) cs (get s r)"
  using assms
proof (induction cs arbitrary: s)
  case (Cons c cs)
  then obtain x where x: "get s r (f c) = Some x" and c: "get s r c \<noteq> None" by force
  let ?s = "put s r c x"
  have row: "get ?s r = (get s r)(c := get s r (f c))"
    using Cons.prems(1) x c by (auto simp: get_put fun_eq_iff)
  have "get (fold (\<lambda>c s. case get s r (f c) of Some x \<Rightarrow> put s r c x | None \<Rightarrow> s) (c # cs) s) r =
      get (fold (\<lambda>c s. case get s r (f c) of Some x \<Rightarrow> put s r c x | None \<Rightarrow> s) cs ?s) r"
    by (simp add: x)
  also have "\<dots> = fold (\<lambda>c R. R(c := R (f c))) cs (get ?s r)"
    using Cons.prems x by (intro Cons.IH) (auto simp: row intro: put_inv)
  also have "\<dots> = fold (\<lambda>c R. R(c := R (f c))) (c # cs) (get s r)" by (simp only: row fold_simps)
  finally show ?case .
qed simp

end

interpretation grid_store: cell_store grid_get grid_set grid_wf
  by unfold_locales (simp_all add: grid_set_wf grid_get_set)

subsection \<open>Scrolling, shrinking and growing at the top\<close>

lemma length_fill_range [simp]:
  "a \<le> b \<Longrightarrow> b \<le> length xs \<Longrightarrow> length (fill_range a b x xs) = length xs"
  by (simp add: fill_range_def)

lemma length_copy_within_front [simp]: "k \<le> length xs \<Longrightarrow> length (copy_within_front k xs) = length xs"
  by (simp add: copy_within_front_def)

text \<open>
  Dropping \<open>k\<close> rows at the top: the vector operations of the code are, on rows, a shift with
  blank rows at the bottom.
\<close>

lemma shift_rows_out:
  assumes "\<And>l. l \<in> set ls \<Longrightarrow> length l = n" and "k \<le> length ls"
  shows "fill_range ((length ls - k) * n) (length (concat ls)) x (copy_within_front (k * n) (concat ls))
    = concat (drop k ls @ replicate k (replicate n x))"
proof -
  have len: "length (concat ls) = length ls * n" by (rule length_concat_rows) (rule assms(1))
  have d: "drop (k * n) (concat ls) = concat (drop k ls)" by (rule drop_concat_rows) (rule assms(1))
  have "length (concat (drop k ls)) = (length ls - k) * n"
    using assms(1) by (subst length_concat_rows) (auto dest: in_set_dropD)
  moreover have "concat (replicate k (replicate n x)) = replicate (k * n) x"
    by (induction k) (simp_all add: replicate_add)
  moreover have "length ls * n - (length ls - k) * n = k * n"
    using assms(2) by (simp add: diff_mult_distrib [symmetric])
  ultimately show ?thesis
    using assms(2) by (simp add: fill_range_def copy_within_front_def len d)
qed

lemma grid_shrink_simps [simp]:
  "g_rows (snd (grid_shrink_rows_from_top g n)) = g_rows g"
  "g_cols (snd (grid_shrink_rows_from_top g n)) = g_cols g"
  "g_cursor_row (snd (grid_shrink_rows_from_top g n)) = g_cursor_row g"
  "g_cursor_col (snd (grid_shrink_rows_from_top g n)) = g_cursor_col g"
  "g_cursor_visible (snd (grid_shrink_rows_from_top g n)) = g_cursor_visible g"
  by (simp_all add: grid_shrink_rows_from_top_def Let_def)

lemma grid_shrink_spec:
  assumes wf: "grid_wf g" and "n \<le> g_rows g" and "0 < g_cols g"
  shows "grid_wf (snd (grid_shrink_rows_from_top g n))"
    and "fst (grid_shrink_rows_from_top g n) = take n (grid_lines g)"
    and "grid_lines (snd (grid_shrink_rows_from_top g n)) =
      drop n (grid_lines g) @ replicate n (replicate (g_cols g) BLANK)"
proof -
  let ?g = "snd (grid_shrink_rows_from_top g n)"
  let ?ls = "drop n (grid_lines g) @ replicate n (replicate (g_cols g) BLANK)"
  have w: "l \<in> set (grid_lines g) \<Longrightarrow> length l = g_cols g" for l by (rule grid_lines_width [OF wf])
  have cells: "g_cells ?g = concat ?ls"
  proof (cases "n = 0 \<or> g_rows g = 0")
    case True
    then have "n = 0" using assms(2) by auto
    then show ?thesis by (simp add: grid_shrink_rows_from_top_def concat_grid_lines wf)
  next
    case False
    have "n * g_cols g \<le> length (concat (grid_lines g))"
      using assms(1,2) by (simp add: concat_grid_lines grid_wf_def)
    then show ?thesis
      using False assms(2,3) shift_rows_out [where ls = "grid_lines g" and n = "g_cols g" and k = n, of BLANK]
      by (simp add: grid_shrink_rows_from_top_def Let_def w concat_grid_lines [OF wf])
  qed
  have wls: "l \<in> set ?ls \<Longrightarrow> length l = g_cols g" for l
    using w by (auto dest: in_set_dropD split: if_splits)
  show "grid_lines ?g = ?ls" using cells wls assms(2) by (intro grid_lines_concat) auto
  have "length (g_cells ?g) = g_rows g * g_cols g"
    using cells wls assms(2) by (simp only: cells, subst length_concat_rows) auto
  with wf show "grid_wf ?g" by (simp add: grid_wf_def)
  show "fst (grid_shrink_rows_from_top g n) = take n (grid_lines g)"
    using assms(2,3) by (auto simp: grid_shrink_rows_from_top_def Let_def grid_lines_def chunk_def take_map)
qed

lemma grid_scroll_up_simps [simp]:
  "g_rows (snd (grid_scroll_up g)) = g_rows g" "g_cols (snd (grid_scroll_up g)) = g_cols g"
  "g_cursor_row (snd (grid_scroll_up g)) = g_cursor_row g"
  "g_cursor_col (snd (grid_scroll_up g)) = g_cursor_col g"
  "g_cursor_visible (snd (grid_scroll_up g)) = g_cursor_visible g"
  by (simp_all add: grid_scroll_up_def Let_def)

lemma grid_scroll_up_eq_shrink:
  assumes "grid_wf g" and "0 < g_rows g" and "0 < g_cols g"
  shows "snd (grid_scroll_up g) = snd (grid_shrink_rows_from_top g 1)"
    and "fst (grid_scroll_up g) = hd (fst (grid_shrink_rows_from_top g 1))"
  using assms by (simp_all add: grid_scroll_up_def grid_shrink_rows_from_top_def Let_def min_def)

lemma grid_scroll_up_wf [keeps_inv]: "grid_wf g \<Longrightarrow> grid_wf (snd (grid_scroll_up g))"
proof (cases "0 < g_rows g \<and> 0 < g_cols g")
  case True
  assume "grid_wf g"
  with True show ?thesis by (simp add: grid_scroll_up_eq_shrink grid_shrink_spec)
qed (auto simp: grid_scroll_up_def)

lemma grid_scroll_up_spec:
  assumes "grid_wf g" and "0 < g_rows g" and "0 < g_cols g"
  shows "fst (grid_scroll_up g) = hd (grid_lines g)"
    and "grid_lines (snd (grid_scroll_up g)) = tl (grid_lines g) @ [replicate (g_cols g) BLANK]"
  using assms
  by (simp_all add: grid_scroll_up_eq_shrink grid_shrink_spec drop_Suc)

subsection \<open>Growing and resizing\<close>

lemma length_copy_slice [simp]:
  "d + length src \<le> length xs \<Longrightarrow> length (copy_slice d src xs) = length xs"
  by (simp add: copy_slice_def)

text \<open>Copying a slice that fits into row \<open>r\<close> changes the front of that row only.\<close>

lemma copy_slice_row:
  assumes w: "\<And>l. l \<in> set ls \<Longrightarrow> length l = n" and r: "r < length ls" and src: "length src \<le> n"
  shows "copy_slice (r * n) src (concat ls) = concat (ls[r := src @ drop (length src) (ls ! r)])"
proof -
  have t: "take (r * n) (concat ls) = concat (take r ls)" by (rule take_concat_rows) (rule w)
  have d: "drop (r * n) (concat ls) = concat (drop r ls)" by (rule drop_concat_rows) (rule w)
  have dr: "drop r ls = ls ! r # drop (Suc r) ls" using r by (simp add: Cons_nth_drop_Suc)
  have "drop (r * n + length src) (concat ls) = drop (length src) (drop (r * n) (concat ls))"
    by (simp add: add.commute)
  also have "\<dots> = drop (length src) (ls ! r) @ concat (drop (Suc r) ls)"
    using src w [of "ls ! r"] r by (simp add: d dr)
  finally show ?thesis using r by (simp add: copy_slice_def t upd_conv_take_nth_drop)
qed

text \<open>A row of the scrollback put back on the screen: padded with blanks, or clipped.\<close>

definition fit_row :: "nat \<Rightarrow> cell list \<Rightarrow> cell list" where
  "fit_row n l = take (min (length l) n) l @ replicate (n - min (length l) n) BLANK"

lemma length_fit_row [simp]: "length (fit_row n l) = n"
  by (simp add: fit_row_def)

lemma fit_row_id: "length l = n \<Longrightarrow> fit_row n l = l"
  by (simp add: fit_row_def)

lemma grow_loop_lifted:
  assumes "\<And>l. l \<in> set ls \<Longrightarrow> length l = n" and "b + length lifted \<le> length ls"
    and "\<And>i. b \<le> i \<Longrightarrow> i < b + length lifted \<Longrightarrow> ls ! i = replicate n BLANK"
  shows "fold (\<lambda>i next. copy_slice ((b + i) * n) (take (min (length (lifted ! i)) n) (lifted ! i)) next)
      [0..<length lifted] (concat ls) =
    concat (take b ls @ map (fit_row n) lifted @ drop (b + length lifted) ls)"
proof -
  let ?F = "\<lambda>i next. copy_slice ((b + i) * n) (take (min (length (lifted ! i)) n) (lifted ! i)) next"
  have "fold ?F [0..<m] (concat ls) =
      concat (take b ls @ map (fit_row n) (take m lifted) @ drop (b + m) ls)" if "m \<le> length lifted" for m
    using that
  proof (induction m)
    case (Suc m)
    let ?ls = "take b ls @ map (fit_row n) (take m lifted) @ drop (b + m) ls"
    let ?l = "lifted ! m"
    have w: "x \<in> set ?ls \<Longrightarrow> length x = n" for x
      using assms(1) by (auto dest: in_set_takeD in_set_dropD)
    have dr: "drop (b + m) ls = ls ! (b + m) # drop (b + Suc m) ls"
      using Suc.prems assms(2) by (simp add: Cons_nth_drop_Suc)
    have at: "?ls ! (b + m) = replicate n BLANK"
      using Suc.prems assms(2) assms(3) [of "b + m"] by (simp add: dr nth_append)
    have upd: "?ls[b + m := x] = take b ls @ (map (fit_row n) (take m lifted) @ [x]) @ drop (b + Suc m) ls"
      for x
      using Suc.prems assms(2) by (simp add: list_update_append dr)
    have len: "b + m < length ?ls" using Suc.prems assms(2) by simp
    let ?src = "take (min (length ?l) n) ?l"
    have "?F m (concat ?ls) = concat (?ls[b + m := ?src @ drop (length ?src) (?ls ! (b + m))])"
      using w len by (rule copy_slice_row) auto
    also have "?src @ drop (length ?src) (?ls ! (b + m)) = fit_row n ?l"
      by (simp only: at) (simp add: fit_row_def)
    also have "concat (?ls[b + m := fit_row n ?l]) =
        concat (take b ls @ map (fit_row n) (take (Suc m) lifted) @ drop (b + Suc m) ls)"
      using Suc.prems by (simp only: upd) (simp add: take_Suc_conv_app_nth)
    finally show ?case using Suc by simp
  qed simp
  from this [of "length lifted"] show ?thesis by simp
qed

lemma grow_loop_existing:
  assumes "\<And>l. l \<in> set ls \<Longrightarrow> length l = n" and "\<And>l. l \<in> set old \<Longrightarrow> length l = n"
    and "length ls = length old + k"
  shows "fold (\<lambda>r next. copy_slice ((r + k) * n) (old ! r) next) [0..<length old] (concat ls) =
    concat (take k ls @ old)"
proof -
  have "fold (\<lambda>r next. copy_slice ((r + k) * n) (old ! r) next) [0..<m] (concat ls) =
      concat (take k ls @ take m old @ drop (k + m) ls)" if "m \<le> length old" for m
    using that
  proof (induction m)
    case (Suc m)
    let ?ls = "take k ls @ take m old @ drop (k + m) ls"
    have w: "x \<in> set ?ls \<Longrightarrow> length x = n" for x
      using assms(1,2) by (auto dest: in_set_takeD in_set_dropD)
    have old: "length (old ! m) = n" using assms(2) Suc.prems by simp
    have len: "m + k < length ?ls" using Suc.prems assms(3) by simp
    have "length (?ls ! (m + k)) = n" using w len nth_mem by blast
    moreover have "?ls[m + k := old ! m] = take k ls @ take (Suc m) old @ drop (k + Suc m) ls"
      using Suc.prems assms(3)
      by (simp add: list_update_append take_Suc_conv_app_nth Cons_nth_drop_Suc [symmetric] add.commute)
    ultimately have "copy_slice ((m + k) * n) (old ! m) (concat ?ls) =
        concat (take k ls @ take (Suc m) old @ drop (k + Suc m) ls)"
      using w len old by (subst copy_slice_row) simp_all
    with Suc show ?case by simp
  qed simp
  from this [of "length old"] show ?thesis using assms(3) by simp
qed

lemma grid_grow_simps [simp]:
  "g_rows (grid_grow_rows_at_top g n lifted) = g_rows g + n"
  "g_cols (grid_grow_rows_at_top g n lifted) = g_cols g"
  "g_cursor_row (grid_grow_rows_at_top g n lifted) = g_cursor_row g"
  "g_cursor_col (grid_grow_rows_at_top g n lifted) = g_cursor_col g"
  "g_cursor_visible (grid_grow_rows_at_top g n lifted) = g_cursor_visible g"
  by (simp_all add: grid_grow_rows_at_top_def Let_def)

lemma concat_replicate_rows: "concat (replicate m (replicate n x)) = replicate (m * n) x"
  by (induction m) (simp_all add: replicate_add)

lemma grid_grow_spec:
  assumes wf: "grid_wf g"
  shows "grid_wf (grid_grow_rows_at_top g n lifted)"
    and "grid_lines (grid_grow_rows_at_top g n lifted) =
      replicate (n - length (take n lifted)) (replicate (g_cols g) BLANK) @
      map (fit_row (g_cols g)) (take n lifted) @ grid_lines g"
proof -
  let ?g = "grid_grow_rows_at_top g n lifted" and ?c = "g_cols g"
  let ?lt = "take n lifted"
  let ?ls = "replicate (n - length ?lt) (replicate ?c BLANK) @ map (fit_row ?c) ?lt @ grid_lines g"
  have w: "l \<in> set ?ls \<Longrightarrow> length l = ?c" for l
    using grid_lines_width [OF wf] by auto
  have len: "length ?ls = g_rows g + n" by simp
  have cells: "g_cells ?g = concat ?ls"
  proof (cases "n = 0")
    case True
    then show ?thesis by (simp add: grid_grow_rows_at_top_def concat_grid_lines wf)
  next
    case False
    let ?l0 = "replicate (g_rows g + n) (replicate ?c BLANK)"
    let ?b = "n - length ?lt"
    have 1: "fold (\<lambda>i next. copy_slice ((?b + i) * ?c) (take (min (length (?lt ! i)) ?c) (?lt ! i)) next)
        [0..<length ?lt] (concat ?l0) =
      concat (take ?b ?l0 @ map (fit_row ?c) ?lt @ drop (?b + length ?lt) ?l0)"
      by (rule grow_loop_lifted) auto
    let ?l1 = "take ?b ?l0 @ map (fit_row ?c) ?lt @ drop (?b + length ?lt) ?l0"
    have old: "take ?c (drop (r * ?c) (g_cells g)) = grid_lines g ! r" if "r < g_rows g" for r
      using that by (simp add: grid_lines_def chunk_def)
    have "fold (\<lambda>r next. copy_slice ((r + n) * ?c) (take ?c (drop (r * ?c) (g_cells g))) next)
        [0..<g_rows g] (concat ?l1) =
      fold (\<lambda>r next. copy_slice ((r + n) * ?c) (grid_lines g ! r) next) [0..<length (grid_lines g)]
        (concat ?l1)"
      by (rule fold_cong) (simp_all add: old)
    also have "\<dots> = concat (take n ?l1 @ grid_lines g)"
      by (rule grow_loop_existing) (auto simp: grid_lines_width [OF wf])
    finally have 2: "fold (\<lambda>r next. copy_slice ((r + n) * ?c) (take ?c (drop (r * ?c) (g_cells g))) next)
        [0..<g_rows g] (concat ?l1) = concat (take n ?l1 @ grid_lines g)" .
    moreover have "take n ?l1 = replicate ?b (replicate ?c BLANK) @ map (fit_row ?c) ?lt" by simp
    ultimately show ?thesis
      using False 1 2 unfolding grid_grow_rows_at_top_def Let_def concat_replicate_rows
      by (simp only: if_False grid.simps) simp
  qed
  show "grid_lines ?g = ?ls" using cells w len by (intro grid_lines_concat) auto
  have "length (g_cells ?g) = (g_rows g + n) * ?c"
    using w len by (simp only: cells, subst length_concat_rows) auto
  with wf show "grid_wf ?g" by (auto simp: grid_wf_def)
qed

text \<open>The copy loop of \<open>resize\<close>: the common rectangle is kept, the rest is blank.\<close>

lemma resize_loop_row:
  assumes "cc \<le> cols" and "length next = rows * cols" and "r < rows"
  shows "length (fold (\<lambda>c next. next[r * cols + c := f c]) [0..<cc] next) = rows * cols"
    and "i < rows \<Longrightarrow> j < cols \<Longrightarrow>
      fold (\<lambda>c next. next[r * cols + c := f c]) [0..<cc] next ! (i * cols + j) =
      (if i = r \<and> j < cc then f j else next ! (i * cols + j))"
proof -
  have "length (fold (\<lambda>c next. next[r * cols + c := f c]) [0..<m] next) = rows * cols \<and>
      (\<forall>i < rows. \<forall>j < cols. fold (\<lambda>c next. next[r * cols + c := f c]) [0..<m] next ! (i * cols + j) =
        (if i = r \<and> j < m then f j else next ! (i * cols + j)))" if "m \<le> cols" for m
    using that
  proof (induction m)
    case (Suc m)
    have "r * cols + m < rows * cols" using Suc.prems assms(3) by (intro row_index_less) auto
    moreover have "r * cols + m = i * cols + j \<longleftrightarrow> i = r \<and> j = m" if "j < cols" for i j
      using that Suc.prems row_index_inj [of m cols j r i] by auto
    ultimately show ?case using Suc by (auto simp: nth_list_update less_Suc_eq row_index_less)
  qed (simp add: assms(2))
  from this [OF assms(1)]
  show "length (fold (\<lambda>c next. next[r * cols + c := f c]) [0..<cc] next) = rows * cols"
    and "i < rows \<Longrightarrow> j < cols \<Longrightarrow>
      fold (\<lambda>c next. next[r * cols + c := f c]) [0..<cc] next ! (i * cols + j) =
      (if i = r \<and> j < cc then f j else next ! (i * cols + j))"
    by auto
qed

lemma resize_loop:
  assumes "cc \<le> cols" and "length next = rows * cols" and "cr \<le> rows"
  shows "length (fold (\<lambda>r. fold (\<lambda>c next. next[r * cols + c := f r c]) [0..<cc]) [0..<cr] next) = rows * cols"
    and "i < rows \<Longrightarrow> j < cols \<Longrightarrow>
      fold (\<lambda>r. fold (\<lambda>c next. next[r * cols + c := f r c]) [0..<cc]) [0..<cr] next ! (i * cols + j) =
      (if i < cr \<and> j < cc then f i j else next ! (i * cols + j))"
proof -
  have "length (fold (\<lambda>r. fold (\<lambda>c next. next[r * cols + c := f r c]) [0..<cc]) [0..<m] next) = rows * cols \<and>
      (\<forall>i < rows. \<forall>j < cols.
        fold (\<lambda>r. fold (\<lambda>c next. next[r * cols + c := f r c]) [0..<cc]) [0..<m] next ! (i * cols + j) =
        (if i < m \<and> j < cc then f i j else next ! (i * cols + j)))" if "m \<le> rows" for m
    using that
  proof (induction m)
    case (Suc m)
    then show ?case using assms(1) by (auto simp: resize_loop_row less_Suc_eq)
  qed (simp add: assms(2))
  from this [OF assms(3)]
  show "length (fold (\<lambda>r. fold (\<lambda>c next. next[r * cols + c := f r c]) [0..<cc]) [0..<cr] next) = rows * cols"
    and "i < rows \<Longrightarrow> j < cols \<Longrightarrow>
      fold (\<lambda>r. fold (\<lambda>c next. next[r * cols + c := f r c]) [0..<cc]) [0..<cr] next ! (i * cols + j) =
      (if i < cr \<and> j < cc then f i j else next ! (i * cols + j))"
    by auto
qed

lemma grid_resize_simps [simp]:
  "g_rows (grid_resize g rows cols) = rows" "g_cols (grid_resize g rows cols) = cols"
  "g_cursor_visible (grid_resize g rows cols) = g_cursor_visible g"
  by (simp_all add: grid_resize_def Let_def)

lemma grid_resize_cells_length:
  "grid_wf g \<Longrightarrow> length (g_cells (grid_resize g rows cols)) = rows * cols"
  by (auto simp: grid_resize_def Let_def resize_loop grid_wf_def)

lemma grid_resize_wf [keeps_inv]: "grid_wf g \<Longrightarrow> grid_wf (grid_resize g rows cols)"
  using grid_resize_cells_length [of g rows cols]
  by (auto simp: grid_wf_def grid_resize_def Let_def)

lemma grid_get_resize:
  assumes wf: "grid_wf g"
  shows "grid_get (grid_resize g rows cols) i j =
    (if i < rows \<and> j < cols
     then Some (case grid_get g i j of Some x \<Rightarrow> x | None \<Rightarrow> BLANK) else None)"
proof (cases "rows = g_rows g \<and> cols = g_cols g")
  case True
  then have "grid_resize g rows cols = g" by (simp add: grid_resize_def)
  with True wf show ?thesis by (auto simp: grid_get_lines)
next
  case False
  have cells: "g_cells (grid_resize g rows cols) ! (i * cols + j) =
      (if i < min rows (g_rows g) \<and> j < min cols (g_cols g) then g_cells g ! (i * g_cols g + j) else BLANK)"
    if "i < rows" "j < cols"
    using False that by (simp add: grid_resize_def Let_def resize_loop row_index_less)
  show ?thesis
  proof (cases "i < rows \<and> j < cols")
    case True
    then have "i * cols + j < length (g_cells (grid_resize g rows cols))"
      using wf by (simp add: grid_resize_cells_length row_index_less)
    with True cells show ?thesis
      using wf by (auto simp: grid_get_def grid_index_in_range)
  qed (auto simp: grid_get_def)
qed

text \<open>On rows, when the width stays: clipping below, or blank rows below.\<close>

lemma grid_lines_resize_rows:
  assumes wf: "grid_wf g"
  shows "grid_lines (grid_resize g rows (g_cols g)) =
    take rows (grid_lines g) @ replicate (rows - g_rows g) (replicate (g_cols g) BLANK)"
proof (rule nth_equalityI)
  let ?g = "grid_resize g rows (g_cols g)"
  show "length (grid_lines ?g) =
      length (take rows (grid_lines g) @ replicate (rows - g_rows g) (replicate (g_cols g) BLANK))"
    by simp
  fix i
  assume "i < length (grid_lines ?g)"
  then have i: "i < rows" by simp
  have wf': "grid_wf ?g" using wf by (rule grid_resize_wf)
  have w: "length (grid_lines ?g ! i) = g_cols g" using i grid_lines_width [OF wf'] by simp
  show "grid_lines ?g ! i =
      (take rows (grid_lines g) @ replicate (rows - g_rows g) (replicate (g_cols g) BLANK)) ! i"
  proof (rule nth_equalityI)
    fix j
    assume "j < length (grid_lines ?g ! i)"
    with w have j: "j < g_cols g" by simp
    have "grid_get ?g i j = Some (grid_lines ?g ! i ! j)" using i j wf' by (simp add: grid_get_lines)
    moreover have "grid_get ?g i j = Some (case grid_get g i j of Some x \<Rightarrow> x | None \<Rightarrow> BLANK)"
      using i j wf by (simp add: grid_get_resize)
    ultimately show "grid_lines ?g ! i ! j =
        (take rows (grid_lines g) @ replicate (rows - g_rows g) (replicate (g_cols g) BLANK)) ! i ! j"
      using i j wf by (cases "i < g_rows g") (auto simp: grid_get_lines nth_append)
  qed (use i w wf in \<open>auto simp: nth_append grid_lines_width\<close>)
qed

lemma grid_resize_cursor_id:
  assumes "grid_wf g" and "g_cursor_row g \<le> rows - 1" and "g_cursor_col g \<le> cols - 1"
  shows "g_cursor_row (grid_resize g rows cols) = g_cursor_row g"
    and "g_cursor_col (grid_resize g rows cols) = g_cursor_col g"
  using assms by (auto simp: grid_resize_def Let_def grid_wf_def)

subsection \<open>Erasing\<close>

lemma grid_erase_all_wf [keeps_inv]: "grid_wf g \<Longrightarrow> grid_wf (grid_erase_all g)"
  by (simp add: grid_wf_def grid_erase_all_def)

lemma grid_erase_all_spec:
  "grid_wf g \<Longrightarrow> grid_get (grid_erase_all g) i j = (if grid_get g i j = None then None else Some BLANK)"
  by (auto simp: grid_get_def grid_erase_all_def fill_range_def grid_index_in_range)

lemma grid_erase_to_line_end_wf [keeps_inv]:
  assumes "grid_wf g"
  shows "grid_wf (grid_erase_to_line_end g row col)"
proof (cases "row < g_rows g")
  case True
  have "Suc row * g_cols g \<le> g_rows g * g_cols g" using True by (intro mult_le_mono1) simp
  then show ?thesis using assms True by (simp add: grid_wf_def grid_erase_to_line_end_def)
qed (simp add: grid_erase_to_line_end_def assms)

lemma grid_erase_to_line_end_spec:
  assumes wf: "grid_wf g"
  shows "grid_get (grid_erase_to_line_end g row col) i j =
    (if i = row \<and> col \<le> j \<and> grid_get g i j \<noteq> None then Some BLANK else grid_get g i j)"
proof (cases "row < g_rows g \<and> i < g_rows g \<and> j < g_cols g")
  case True
  let ?n = "g_cols g"
  let ?a = "row * ?n + min col ?n" and ?b = "(row + 1) * ?n"
  have b: "?b \<le> length (g_cells g)"
    using True wf mult_le_mono1 [of "row + 1" "g_rows g" ?n] by (simp add: grid_wf_def)
  have ij: "i * ?n + j < length (g_cells g)" using wf True by (simp add: grid_index_in_range)
  have iff: "?a \<le> i * ?n + j \<and> i * ?n + j < ?b \<longleftrightarrow> i = row \<and> col \<le> j"
  proof
    assume *: "?a \<le> i * ?n + j \<and> i * ?n + j < ?b"
    have "i = row"
    proof (rule ccontr)
      assume "i \<noteq> row"
      then consider "i + 1 \<le> row" | "row + 1 \<le> i" by linarith
      then show False
      proof cases
        case 1
        then have "(i + 1) * ?n \<le> row * ?n" by (rule mult_le_mono1)
        with * True show False by simp
      next
        case 2
        then have "(row + 1) * ?n \<le> i * ?n" by (rule mult_le_mono1)
        with * show False by simp
      qed
    qed
    with * True show "i = row \<and> col \<le> j" by auto
  qed (use True in auto)
  have "fill_range ?a ?b BLANK (g_cells g) ! (i * ?n + j) =
      (if i = row \<and> col \<le> j then BLANK else g_cells g ! (i * ?n + j))"
    using b ij by (simp only: iff [symmetric]) (auto simp: fill_range_def nth_append)
  then show ?thesis
    using True ij b by (auto simp: grid_get_def grid_erase_to_line_end_def)
qed (auto simp: grid_get_def grid_erase_to_line_end_def)

end
