(* ===== verification/Scrollback.thy ===== *)
theory Scrollback
  imports Grid
begin

text \<open>
  \<open>scrollback.rs\<close>: the bounded history of lines that left the screen, oldest first. \<open>history\<close> is
  the interface the emulator relies on: what pushing, taking back and clearing do to the
  contents, and the bound.
\<close>

record scrollback =
  sb_lines :: "cell list list"
  sb_max_lines :: nat

definition sb_new :: "nat \<Rightarrow> scrollback" where
  "sb_new max_lines = \<lparr>sb_lines = [], sb_max_lines = max_lines\<rparr>"

definition sb_len :: "scrollback \<Rightarrow> nat" where
  "sb_len sb = length (sb_lines sb)"

definition sb_is_empty :: "scrollback \<Rightarrow> bool" where
  "sb_is_empty sb \<longleftrightarrow> sb_lines sb = []"

text \<open>The eviction loop of \<open>push\<close>: lines are popped off the front while there are too many.\<close>

fun evict_front :: "nat \<Rightarrow> cell list list \<Rightarrow> cell list list" where
  "evict_front m [] = []"
| "evict_front m (l # ls) = (if length (l # ls) > m then evict_front m ls else l # ls)"

definition sb_push :: "scrollback \<Rightarrow> cell list \<Rightarrow> scrollback" where
  "sb_push sb line =
     (if sb_max_lines sb = 0 then sb
      else sb\<lparr>sb_lines := evict_front (sb_max_lines sb) (sb_lines sb @ [line])\<rparr>)"

definition sb_tail :: "scrollback \<Rightarrow> nat \<Rightarrow> cell list list" where
  "sb_tail sb n = drop (length (sb_lines sb) - n) (sb_lines sb)"

definition sb_clear :: "scrollback \<Rightarrow> scrollback" where
  "sb_clear sb = sb\<lparr>sb_lines := []\<rparr>"

definition sb_pop_back_n :: "scrollback \<Rightarrow> nat \<Rightarrow> cell list list \<times> scrollback" where
  "sb_pop_back_n sb n =
     (let k = min n (length (sb_lines sb));
          split_at = length (sb_lines sb) - k
      in (drop split_at (sb_lines sb), sb\<lparr>sb_lines := take split_at (sb_lines sb)\<rparr>))"

definition sb_wf :: "scrollback \<Rightarrow> bool" where
  "sb_wf sb \<longleftrightarrow> length (sb_lines sb) \<le> sb_max_lines sb"

text \<open>The newest \<open>m\<close> of a list of lines.\<close>

definition newest :: "nat \<Rightarrow> 'a list \<Rightarrow> 'a list" where
  "newest m xs = drop (length xs - m) xs"

lemma length_newest [simp]: "length (newest m xs) = min m (length xs)"
  by (simp add: newest_def)

lemma newest_id [simp]: "length xs \<le> m \<Longrightarrow> newest m xs = xs"
  by (simp add: newest_def)

lemma newest_0 [simp]: "newest 0 xs = []"
  by (simp add: newest_def)

lemma newest_newest_append: "newest m (newest m xs @ ys) = newest m (xs @ ys)"
proof (cases "length xs \<le> m")
  case False
  then show ?thesis by (auto simp: newest_def add.commute)
qed simp

lemma evict_front_newest: "evict_front m ls = newest m ls"
  by (induction ls) (auto simp: newest_def Suc_diff_le not_less drop_Cons split: nat.split)

subsection \<open>The interface\<close>

locale history =
  fixes contents :: "'h \<Rightarrow> 'l list"
    and cap :: "'h \<Rightarrow> nat"
    and push :: "'h \<Rightarrow> 'l \<Rightarrow> 'h"
    and pop :: "'h \<Rightarrow> nat \<Rightarrow> 'l list \<times> 'h"
    and bounded :: "'h \<Rightarrow> bool"
  assumes bounded_length: "bounded h \<Longrightarrow> length (contents h) \<le> cap h"
    and push_bounded: "bounded h \<Longrightarrow> bounded (push h l)"
    and push_cap: "cap (push h l) = cap h"
    and push_contents: "bounded h \<Longrightarrow> contents (push h l) = newest (cap h) (contents h @ [l])"
    and pop_bounded: "bounded h \<Longrightarrow> bounded (snd (pop h n))"
    and pop_cap: "cap (snd (pop h n)) = cap h"
    and pop_split: "contents (snd (pop h n)) @ fst (pop h n) = contents h"
    and pop_length: "length (fst (pop h n)) = min n (length (contents h))"
begin

lemma push_all_bounded: "bounded h \<Longrightarrow> bounded (fold (\<lambda>l h. push h l) ls h)"
  by (induction ls arbitrary: h) (auto intro: push_bounded)

lemma push_all_cap: "cap (fold (\<lambda>l h. push h l) ls h) = cap h"
  by (induction ls arbitrary: h) (auto simp: push_cap)

lemma push_all_contents:
  "bounded h \<Longrightarrow> contents (fold (\<lambda>l h. push h l) ls h) = newest (cap h) (contents h @ ls)"
proof (induction ls arbitrary: h)
  case Nil
  then show ?case by (simp add: bounded_length)
next
  case (Cons l ls)
  then show ?case by (simp add: push_bounded push_cap push_contents newest_newest_append)
qed

text \<open>Lines pushed while there is room come back, in order, and the history is as before.\<close>

lemma push_then_pop:
  assumes "bounded h" and room: "length (contents h) + length ls \<le> cap h"
  shows "fst (pop (fold (\<lambda>l h. push h l) ls h) (length ls)) = ls"
    and "contents (snd (pop (fold (\<lambda>l h. push h l) ls h) (length ls))) = contents h"
proof -
  let ?h = "fold (\<lambda>l h. push h l) ls h"
  have c: "contents ?h = contents h @ ls" using assms by (simp add: push_all_contents)
  have "contents (snd (pop ?h (length ls))) @ fst (pop ?h (length ls)) = contents h @ ls"
    by (simp add: pop_split c)
  moreover have "length (fst (pop ?h (length ls))) = length ls" by (simp add: pop_length c)
  ultimately show "fst (pop ?h (length ls)) = ls"
    and "contents (snd (pop ?h (length ls))) = contents h"
    by auto
qed

end

interpretation sb: history sb_lines sb_max_lines sb_push sb_pop_back_n sb_wf
  by unfold_locales
    (auto simp: sb_wf_def sb_push_def sb_pop_back_n_def Let_def evict_front_newest)

lemma sb_new_wf [keeps_inv]: "sb_wf (sb_new m)"
  by (simp add: sb_wf_def sb_new_def)

lemma sb_clear_wf [keeps_inv]: "sb_wf (sb_clear sb)"
  by (simp add: sb_wf_def sb_clear_def)

lemmas sb_push_wf [keeps_inv] = sb.push_bounded
lemmas sb_pop_wf [keeps_inv] = sb.pop_bounded

lemma sb_clear_simps [simp]: "sb_lines (sb_clear sb) = []" "sb_max_lines (sb_clear sb) = sb_max_lines sb"
  by (simp_all add: sb_clear_def)

lemma length_sb_tail: "length (sb_tail sb n) = min n (sb_len sb)"
  by (simp add: sb_tail_def sb_len_def)

end
