(* ===== verification/Rust_Parse.thy ===== *)
theory Rust_Parse
  imports Rust_Str
begin

text \<open>
  More of the standard library for the parsers of text: lines, numbers, white space, last occurrences.
  The line iterator of a joined list of lines is that list (\<open>str_lines_join\<close>), and reading the decimal
  form of a number gives it back (\<open>parse_u32_show_nat\<close>).
\<close>

definition to_ascii_lowercase :: "rstr \<Rightarrow> rstr" where
  "to_ascii_lowercase s = map (\<lambda>c. if 65 \<le> c \<and> c \<le> 90 then c + 32 else c) s"

text \<open>\<open>str::lines\<close>: a line ends at a line feed, with a carriage return before it dropped too; a last
line that is not ended is kept as it is, unless it is empty.\<close>

definition strip_cr :: "rstr \<Rightarrow> rstr" where
  "strip_cr l = (case strip_suffix [13] l of Some x \<Rightarrow> x | None \<Rightarrow> l)"

definition str_lines :: "rstr \<Rightarrow> rstr list" where
  "str_lines s =
     (let ps = split_char 10 s
      in map strip_cr (butlast ps) @ (if last ps = [] then [] else [last ps]))"

lemma strip_cr_set: "set (strip_cr l) \<subseteq> set l"
proof (cases "strip_suffix [13] l")
  case (Some x)
  then have "strip_cr l = x" "l = x @ [13]" by (simp add: strip_cr_def) (use Some in \<open>simp add: strip_suffix_eq_Some\<close>)
  then show ?thesis by auto
qed (simp add: strip_cr_def)

lemma strip_cr_id [simp]: "13 \<notin> set l \<Longrightarrow> strip_cr l = l"
  by (cases "strip_suffix [13] l") (auto simp: strip_cr_def strip_suffix_eq_Some)

lemma str_lines_no_nl: "l \<in> set (str_lines s) \<Longrightarrow> 10 \<notin> set l"
  using split_char_no_sep [of _ 10 s] strip_cr_set last_in_set [of "split_char 10 s"]
  by (auto simp: str_lines_def Let_def dest!: in_set_butlastD split: if_splits)

text \<open>Lines joined with a line feed after each one.\<close>

definition unlines :: "rstr list \<Rightarrow> rstr" where
  "unlines ls = concat (map (\<lambda>l. l @ [10]) ls)"

lemma unlines_simps [simp]: "unlines [] = []" "unlines (l # ls) = l @ 10 # unlines ls"
  "unlines (xs @ ys) = unlines xs @ unlines ys"
  by (simp_all add: unlines_def)

lemma split_unlines:
  "(\<And>l. l \<in> set ls \<Longrightarrow> 10 \<notin> set l) \<Longrightarrow> split_char 10 (unlines ls) = ls @ [[]]"
  by (induction ls) (simp_all add: split_char_sep split_char_id)

lemma str_lines_unlines:
  assumes "\<And>l. l \<in> set ls \<Longrightarrow> 10 \<notin> set l"
  shows "str_lines (unlines ls) = map strip_cr ls"
  using split_unlines [OF assms] by (simp add: str_lines_def Let_def)

text \<open>\<open>str::parse::<u32>\<close>: an optional plus sign and at least one digit, within range.\<close>

fun digits_value :: "nat \<Rightarrow> rstr \<Rightarrow> nat option" where
  "digits_value n [] = Some n"
| "digits_value n (c # cs) = (if 48 \<le> c \<and> c \<le> 57 then digits_value (n * 10 + (c - 48)) cs else None)"

definition parse_u32 :: "rstr \<Rightarrow> u32 option" where
  "parse_u32 s =
     (let ds = (case s of c # cs \<Rightarrow> if c = 43 then cs else s | [] \<Rightarrow> [])
      in if ds = [] then None
         else case digits_value 0 ds of
                None \<Rightarrow> None
              | Some n \<Rightarrow> if n < 2 ^ 32 then Some (of_nat n) else None)"

lemma digits_value_append: "digits_value n (s @ t) = Option.bind (digits_value n s) (\<lambda>m. digits_value m t)"
  by (induction s arbitrary: n) auto

lemma digits_value_show_nat: "digits_value 0 (show_nat n) = Some n"
proof (induction n rule: show_nat.induct)
  case (1 n)
  show ?case
  proof (cases "n < 10")
    case True
    then show ?thesis by (simp add: show_nat.simps [of n])
  next
    case False
    then show ?thesis using 1 by (simp add: show_nat.simps [of n] digits_value_append)
  qed
qed

lemma show_nat_set: "c \<in> set (show_nat n) \<Longrightarrow> 48 \<le> c \<and> c \<le> 57"
proof (induction n rule: show_nat.induct)
  case (1 n)
  show ?case
  proof (cases "n < 10")
    case True
    then show ?thesis using 1(2) by (simp add: show_nat.simps [of n])
  next
    case False
    then have "c \<in> set (show_nat (n div 10)) \<or> c = 48 + n mod 10" using 1(2) by (auto simp: show_nat.simps [of n])
    then show ?thesis using 1(1) False by (auto simp: less_Suc_eq_le [symmetric])
  qed
qed

lemma show_nat_neq_Nil [simp]: "show_nat n \<noteq> []"
  by (subst show_nat.simps) simp

lemma parse_u32_show_nat: "n < 2 ^ 32 \<Longrightarrow> parse_u32 (show_nat n) = Some (of_nat n)"
proof -
  assume n: "n < 2 ^ 32"
  obtain c cs where c: "show_nat n = c # cs" by (cases "show_nat n") simp_all
  then have "c \<noteq> 43" using show_nat_set [of c n] by auto
  then show ?thesis using n digits_value_show_nat [of n] by (simp add: parse_u32_def c)
qed

text \<open>\<open>split_whitespace\<close>: the longest runs of other characters.\<close>

function split_whitespace :: "rstr \<Rightarrow> rstr list" where
  "split_whitespace s =
     (let t = dropWhile is_whitespace s
      in if t = [] then []
         else takeWhile (\<lambda>c. \<not> is_whitespace c) t # split_whitespace (dropWhile (\<lambda>c. \<not> is_whitespace c) t))"
  by pat_completeness auto
termination
proof (relation "measure length", simp)
  fix s x :: rstr
  assume "x = dropWhile is_whitespace s" and "x \<noteq> []"
  then have "\<not> is_whitespace (hd x)" "length x \<le> length s"
    using hd_dropWhile [of is_whitespace s] length_dropWhile_le [of is_whitespace s] by auto
  moreover from this \<open>x \<noteq> []\<close> have "length (dropWhile (\<lambda>c. \<not> is_whitespace c) x) < length x"
    by (cases x) (auto simp: less_Suc_eq_le length_dropWhile_le)
  ultimately show "(dropWhile (\<lambda>c. \<not> is_whitespace c) x, s) \<in> measure length" by simp
qed

declare split_whitespace.simps [simp del]

lemma split_whitespace_word:
  assumes "w \<noteq> []" and "\<And>c. c \<in> set w \<Longrightarrow> \<not> is_whitespace c" and "r = [] \<or> is_whitespace (hd r)"
  shows "split_whitespace (w @ r) = w # split_whitespace r"
proof -
  have "dropWhile is_whitespace (w @ r) = w @ r" using assms(1,2) by (cases w) auto
  moreover have "takeWhile (\<lambda>c. \<not> is_whitespace c) (w @ r) = w" "dropWhile (\<lambda>c. \<not> is_whitespace c) (w @ r) = r"
    using assms(2,3) by (cases r; simp add: takeWhile_append dropWhile_append)+
  ultimately show ?thesis using assms(1) by (subst split_whitespace.simps) (simp add: Let_def)
qed

lemma split_whitespace_skip: "is_whitespace c \<Longrightarrow> split_whitespace (c # s) = split_whitespace s"
  by (subst (1 2) split_whitespace.simps) simp

lemma split_whitespace_Nil [simp]: "split_whitespace [] = []"
  by (subst split_whitespace.simps) simp

text \<open>\<open>str::rfind\<close> for a substring: what is before and after its last occurrence.\<close>

definition rfind_str :: "'a list \<Rightarrow> 'a list \<Rightarrow> ('a list \<times> 'a list) option" where
  "rfind_str p s =
     map_option (\<lambda>after. (rev (drop (length after + length p) (rev s)), rev after)) (find_str (rev p) (rev s))"

lemma rfind_str_SomeD: "rfind_str p s = Some (a, b) \<Longrightarrow> s = a @ p @ b"
proof -
  assume "rfind_str p s = Some (a, b)"
  then obtain af where af: "find_str (rev p) (rev s) = Some af" "a = rev (drop (length af + length p) (rev s))" "b = rev af"
    by (auto simp: rfind_str_def)
  from find_str_SomeD [OF af(1)] obtain c where c: "rev s = af @ rev p @ c" by blast
  then have "s = rev c @ p @ rev af" by (metis append.assoc rev_append rev_rev_ident)
  with af c show ?thesis by simp
qed

text \<open>An ASCII byte in the bytes of a string is a character of its own.\<close>

lemma utf8_char_ascii: "b \<in> set (utf8_char c) \<Longrightarrow> unat b < 128 \<Longrightarrow> utf8_char c = [b] \<and> c = unat b"
proof -
  assume b: "b \<in> set (utf8_char c)" "unat b < 128"
  have big: "128 \<le> unat (byte m)" if "128 \<le> m" "m < 256" for m using that by simp
  have "c < 128"
  proof (rule ccontr)
    assume "\<not> c < 128"
    then show False using b big by (auto simp: utf8_char_def split: if_splits)
  qed
  with b show ?thesis by (auto simp: utf8_char_def)
qed

lemma ascii_byte_boundary:
  assumes "i < length (utf8 s)" and "unat (utf8 s ! i) < 128"
  obtains a r where "s = a @ unat (utf8 s ! i) # r" and "blen a = i"
  using assms
proof (induction s arbitrary: i thesis)
  case (Cons c s)
  show ?case
  proof (cases "i < len_utf8 c")
    case True
    then have "utf8 (c # s) ! i = utf8_char c ! i" by (simp add: nth_append)
    moreover have "utf8_char c ! i \<in> set (utf8_char c)" using True by simp
    ultimately have "utf8_char c = [utf8 (c # s) ! i]" "c = unat (utf8 (c # s) ! i)"
      using utf8_char_ascii [of "utf8_char c ! i" c] Cons.prems(3) by auto
    moreover from this(1) have "len_utf8 c = 1" by (metis length_utf8_char length_Cons list.size(3) One_nat_def)
    ultimately show ?thesis using True Cons.prems(1) [of "[]" s] by simp
  next
    case False
    then have nth: "utf8 (c # s) ! i = utf8 s ! (i - len_utf8 c)" by (simp add: nth_append)
    have "i - len_utf8 c < length (utf8 s)" using Cons.prems(2) False by simp
    then obtain a r where "s = a @ unat (utf8 s ! (i - len_utf8 c)) # r" "blen a = i - len_utf8 c"
      using Cons.IH [of "i - len_utf8 c"] Cons.prems(3) nth by auto
    then show ?thesis using Cons.prems(1) [of "c # a" r] nth False by simp
  qed
qed simp

end
