(* ===== verification/Terminal.thy ===== *)
theory Terminal
  imports Scrollback Rust_Parse
begin

text \<open>
  The emulator state of \<open>terminal.rs\<close> and the operations of \<open>impl Terminal\<close>. The escape-sequence
  parser (crate \<open>vte\<close>) is not part of the repository: its state is a type variable, and
  \<open>Performer.thy\<close> takes the parser as an argument. The environment variable the colour functions
  read is the argument \<open>pe\<close> (parity enabled), computed from its value by
  \<open>parity_windows_terminal_colors_enabled\<close>.
\<close>

section \<open>Colour profile\<close>

definition DEFAULT_FG :: color where "DEFAULT_FG = WHITE"
definition DEFAULT_BG :: color where "DEFAULT_BG = TRANSPARENT"

definition WINDOWS_TERMINAL_PARITY_DEFAULT_FG :: color where
  "WINDOWS_TERMINAL_PARITY_DEFAULT_FG = rgb 196 196 196"

definition WINDOWS_TERMINAL_ANSI_16 :: "color list" where
  "WINDOWS_TERMINAL_ANSI_16 =
     [rgb 12 12 12, rgb 197 15 31, rgb 19 161 14, rgb 193 156 0,
      rgb 0 55 218, rgb 136 23 152, rgb 58 150 221, rgb 204 204 204,
      rgb 118 118 118, rgb 231 72 86, rgb 22 198 12, rgb 249 241 165,
      rgb 59 120 255, rgb 180 0 158, rgb 97 214 214, rgb 242 242 242]"

text \<open>The argument is the variable's value, if it is set.\<close>

definition parity_windows_terminal_colors_enabled :: "rstr option \<Rightarrow> bool" where
  "parity_windows_terminal_colors_enabled var =
     (case var of
        None \<Rightarrow> False
      | Some v \<Rightarrow> v \<noteq> [] \<and>
          to_ascii_lowercase (trim v) \<notin> {str_lit ''0'', str_lit ''false'', str_lit ''off'', str_lit ''no''})"

definition default_fg_for_parity :: "bool \<Rightarrow> color" where
  "default_fg_for_parity pe = (if pe then WINDOWS_TERMINAL_PARITY_DEFAULT_FG else DEFAULT_FG)"

definition default_bg :: color where
  "default_bg = DEFAULT_BG"

definition ansi_16_color_for_parity :: "nat \<Rightarrow> bool \<Rightarrow> color" where
  "ansi_16_color_for_parity i pe = (if pe then WINDOWS_TERMINAL_ANSI_16 ! i else ANSI_16 ! i)"

definition ansi_16_fg_color_for_parity :: "nat \<Rightarrow> bool \<Rightarrow> color" where
  "ansi_16_fg_color_for_parity i pe =
     (let c = ansi_16_color_for_parity i pe
      in if \<not> pe then c
         else if i = 7 then WINDOWS_TERMINAL_PARITY_DEFAULT_FG
         else if i = 8 then rgb 114 114 114
         else c)"

definition fg_color_256_for_parity_with_profile :: "u8 \<Rightarrow> bool \<Rightarrow> color" where
  "fg_color_256_for_parity_with_profile i pe =
     (if i < 16 then ansi_16_fg_color_for_parity (unat i) pe else color_256 i)"

definition bg_color_256_for_parity_with_profile :: "u8 \<Rightarrow> bool \<Rightarrow> color" where
  "bg_color_256_for_parity_with_profile i pe =
     (if i < 16 then ansi_16_color_for_parity (unat i) pe else color_256 i)"

section \<open>State\<close>

record mouse_modes =
  report_1000 :: bool
  report_1002 :: bool
  report_1003 :: bool
  sgr :: bool

definition mouse_modes_default :: mouse_modes where
  "mouse_modes_default = \<lparr>report_1000 = False, report_1002 = False, report_1003 = False, sgr = False\<rparr>"

record snapshot =
  snap_grid :: grid
  snap_scrollback :: "cell list list"
  snap_mouse_modes :: mouse_modes
  snap_focus_reporting_1004 :: bool

record 'p terminal =
  t_grid :: grid
  t_scrollback :: scrollback
  t_parser :: 'p
  t_rows :: nat
  t_cols :: nat
  t_cursor_row :: nat
  t_cursor_col :: nat
  t_wrap_pending :: bool
  t_saved_cursor :: "nat \<times> nat"
  t_fg :: color
  t_bg :: color
  t_attrs :: cell_attrs
  t_title :: rstr
  t_alt_grid :: "grid option"
  t_alt_saved_cursor :: "nat \<times> nat"
  t_alt_saved_fg :: color
  t_alt_saved_bg :: color
  t_alt_saved_attrs :: cell_attrs
  t_scroll_top :: nat
  t_scroll_bot :: nat
  t_pending_response :: "u8 list"
  t_synchronized_output_active :: bool
  t_mouse_modes :: mouse_modes
  t_focus_reporting_1004 :: bool

definition terminal_new :: "bool \<Rightarrow> 'p \<Rightarrow> nat \<Rightarrow> nat \<Rightarrow> nat \<Rightarrow> 'p terminal" where
  "terminal_new pe parser_new rows cols max_scrollback =
     \<lparr>t_grid = grid_new rows cols, t_scrollback = sb_new max_scrollback, t_parser = parser_new,
      t_rows = rows, t_cols = cols, t_cursor_row = 0, t_cursor_col = 0, t_wrap_pending = False,
      t_saved_cursor = (0, 0), t_fg = default_fg_for_parity pe, t_bg = default_bg,
      t_attrs = attrs_empty, t_title = [], t_alt_grid = None, t_alt_saved_cursor = (0, 0),
      t_alt_saved_fg = default_fg_for_parity pe, t_alt_saved_bg = default_bg,
      t_alt_saved_attrs = attrs_empty, t_scroll_top = 0, t_scroll_bot = rows,
      t_pending_response = [], t_synchronized_output_active = False,
      t_mouse_modes = mouse_modes_default, t_focus_reporting_1004 = False\<rparr>"

definition take_pending_response :: "'p terminal \<Rightarrow> u8 list \<times> 'p terminal" where
  "take_pending_response t = (t_pending_response t, t\<lparr>t_pending_response := []\<rparr>)"

definition terminal_snapshot :: "'p terminal \<Rightarrow> nat \<Rightarrow> snapshot" where
  "terminal_snapshot t scrollback_lines =
     \<lparr>snap_grid = t_grid t, snap_scrollback = sb_tail (t_scrollback t) scrollback_lines,
      snap_mouse_modes = t_mouse_modes t, snap_focus_reporting_1004 = t_focus_reporting_1004 t\<rparr>"

section \<open>Scrolling and the screen\<close>

definition blank_cell :: "'p terminal \<Rightarrow> cell" where
  "blank_cell t = \<lparr>c_ch = 32, c_fg = t_fg t, c_bg = t_bg t, c_attrs = attrs_empty\<rparr>"

definition region_is_full_screen :: "'p terminal \<Rightarrow> bool" where
  "region_is_full_screen t \<longleftrightarrow> t_scroll_top t = 0 \<and> t_scroll_bot t = t_rows t"

definition scroll_up_and_capture :: "'p terminal \<Rightarrow> 'p terminal" where
  "scroll_up_and_capture t =
     (let (evicted, g) = grid_scroll_up (t_grid t);
          t = t\<lparr>t_grid := g\<rparr>
      in if t_alt_grid t = None \<and> evicted \<noteq> []
         then t\<lparr>t_scrollback := sb_push (t_scrollback t) evicted\<rparr> else t)"

definition clear_pending_wrap :: "'p terminal \<Rightarrow> 'p terminal" where
  "clear_pending_wrap t = t\<lparr>t_wrap_pending := False\<rparr>"

definition copy_row :: "'p terminal \<Rightarrow> nat \<Rightarrow> nat \<Rightarrow> 'p terminal" where
  "copy_row t dst src =
     (if dst \<ge> t_rows t \<or> src \<ge> t_rows t then t
      else t\<lparr>t_grid :=
        fold (\<lambda>col g. grid_set g dst col (case grid_get g src col of Some x \<Rightarrow> x | None \<Rightarrow> BLANK))
          [0..<t_cols t] (t_grid t)\<rparr>)"

definition clear_row :: "'p terminal \<Rightarrow> nat \<Rightarrow> 'p terminal" where
  "clear_row t row =
     (if row \<ge> t_rows t then t
      else t\<lparr>t_grid := fold (\<lambda>col g. grid_set g row col (blank_cell t)) [0..<t_cols t] (t_grid t)\<rparr>)"

definition scroll_up :: "'p terminal \<Rightarrow> 'p terminal" where
  "scroll_up t =
     (if t_rows t = 0 \<or> t_scroll_bot t \<le> t_scroll_top t then t
      else if region_is_full_screen t then scroll_up_and_capture t
      else
        (let top = t_scroll_top t;
             bot = t_scroll_bot t;
             t1 = (if top = 0 \<and> t_alt_grid t = None
                   then t\<lparr>t_scrollback := sb_push (t_scrollback t)
                          (List.map_filter (grid_get (t_grid t) top) [0..<t_cols t])\<rparr>
                   else t);
             t2 = fold (\<lambda>row t. copy_row t row (row + 1)) [top..<bot - 1] t1
         in clear_row t2 (bot - 1)))"

definition scroll_down :: "'p terminal \<Rightarrow> 'p terminal" where
  "scroll_down t =
     (if t_rows t = 0 \<or> t_scroll_bot t \<le> t_scroll_top t then t
      else
        (let top = t_scroll_top t;
             bot = t_scroll_bot t;
             t1 = fold (\<lambda>row t. copy_row t row (row - 1)) (rev [top + 1..<bot]) t
         in clear_row t1 top))"

definition wrap_to_next_line :: "'p terminal \<Rightarrow> 'p terminal" where
  "wrap_to_next_line t =
     (let t = t\<lparr>t_cursor_col := 0\<rparr>;
          t = (if t_cursor_row t + 1 = t_scroll_bot t then scroll_up t
               else if t_cursor_row t + 1 < t_rows t then t\<lparr>t_cursor_row := t_cursor_row t + 1\<rparr>
               else t\<lparr>t_cursor_row := t_rows t - 1\<rparr>)
      in t\<lparr>t_wrap_pending := False\<rparr>)"

definition prepare_for_printable :: "'p terminal \<Rightarrow> 'p terminal" where
  "prepare_for_printable t = (if t_wrap_pending t then wrap_to_next_line t else t)"

definition clear_region :: "'p terminal \<Rightarrow> nat \<Rightarrow> nat \<Rightarrow> nat \<Rightarrow> nat \<Rightarrow> 'p terminal" where
  "clear_region t start_row start_col end_row end_col =
     (let er = min end_row (t_rows t - 1);
          ec = min end_col (t_cols t - 1)
      in t\<lparr>t_grid := fold (\<lambda>r. fold (\<lambda>c g. grid_set g r c (blank_cell t)) [start_col..<ec + 1])
                      [start_row..<er + 1] (t_grid t)\<rparr>)"

definition put_char :: "'p terminal \<Rightarrow> rchar \<Rightarrow> 'p terminal" where
  "put_char t c =
     (if t_rows t = 0 \<or> t_cols t = 0 then t
      else
        (let t = prepare_for_printable t;
             x = \<lparr>c_ch = c, c_fg = t_fg t, c_bg = t_bg t, c_attrs = t_attrs t\<rparr>;
             t = t\<lparr>t_grid := grid_set (t_grid t) (t_cursor_row t) (t_cursor_col t) x\<rparr>
         in if t_cursor_col t + 1 \<ge> t_cols t
            then t\<lparr>t_cursor_col := t_cols t - 1, t_wrap_pending := True\<rparr>
            else t\<lparr>t_cursor_col := t_cursor_col t + 1, t_wrap_pending := False\<rparr>))"

section \<open>The alternate screen and resizing\<close>

text \<open>\<open>mem::swap\<close> leaves the old screen in \<open>fresh\<close>, which becomes the saved main screen.\<close>

definition enter_alt_screen :: "'p terminal \<Rightarrow> 'p terminal" where
  "enter_alt_screen t =
     (if t_alt_grid t \<noteq> None then t
      else
        (let t = clear_pending_wrap t;
             t = t\<lparr>t_alt_saved_cursor := (t_cursor_row t, t_cursor_col t),
                   t_alt_saved_fg := t_fg t, t_alt_saved_bg := t_bg t,
                   t_alt_saved_attrs := t_attrs t\<rparr>;
             fresh = grid_new (t_rows t) (t_cols t);
             t = t\<lparr>t_alt_grid := Some (t_grid t), t_grid := fresh\<rparr>
         in t\<lparr>t_cursor_row := 0, t_cursor_col := 0, t_grid := grid_set_cursor (t_grid t) 0 0\<rparr>))"

definition exit_alt_screen :: "'p terminal \<Rightarrow> 'p terminal" where
  "exit_alt_screen t =
     (case t_alt_grid t of
        None \<Rightarrow> t
      | Some main \<Rightarrow>
          (let t = t\<lparr>t_alt_grid := None, t_grid := main,
                     t_cursor_row := min (fst (t_alt_saved_cursor t)) (t_rows t - 1),
                     t_cursor_col := min (snd (t_alt_saved_cursor t)) (t_cols t - 1)\<rparr>;
               t = clear_pending_wrap t;
               t = t\<lparr>t_fg := t_alt_saved_fg t, t_bg := t_alt_saved_bg t,
                     t_attrs := t_alt_saved_attrs t\<rparr>
           in t\<lparr>t_grid := grid_set_cursor (t_grid t) (t_cursor_row t) (t_cursor_col t)\<rparr>))"

definition clamp_scroll_region_after_resize :: "'p terminal \<Rightarrow> nat \<Rightarrow> bool \<Rightarrow> 'p terminal" where
  "clamp_scroll_region_after_resize t rows was_full_screen =
     (if was_full_screen \<or> t_scroll_top t \<ge> rows \<or> t_scroll_bot t > rows
         \<or> t_scroll_top t \<ge> t_scroll_bot t
      then t\<lparr>t_scroll_top := 0, t_scroll_bot := rows\<rparr> else t)"

text \<open>
  \<open>resize\<close> in the code's phases. While the alternate screen is up the main screen is swapped in
  first (\<open>swap_grids\<close>), reflowed, and swapped back at the end.
\<close>

definition swap_grids :: "'p terminal \<Rightarrow> 'p terminal" where
  "swap_grids t =
     (case t_alt_grid t of
        None \<Rightarrow> t
      | Some g \<Rightarrow> t\<lparr>t_alt_grid := Some (t_grid t), t_grid := g\<rparr>)"

definition reflow_rows :: "'p terminal \<Rightarrow> nat \<Rightarrow> bool \<Rightarrow> 'p terminal" where
  "reflow_rows t rows alt_active =
     (let old_rows = t_rows t in
      if rows > old_rows then
        (let k = rows - old_rows;
             (lifted, sbk) = sb_pop_back_n (t_scrollback t) k;
             t = t\<lparr>t_scrollback := sbk, t_grid := grid_grow_rows_at_top (t_grid t) k lifted\<rparr>
         in if alt_active
            then t\<lparr>t_alt_saved_cursor :=
                     (fst (t_alt_saved_cursor t) + k, snd (t_alt_saved_cursor t))\<rparr>
            else t\<lparr>t_cursor_row := t_cursor_row t + k\<rparr>)
      else if rows < old_rows then
        (let k = old_rows - rows;
             cursor_for_eviction = (if alt_active then fst (t_alt_saved_cursor t) else t_cursor_row t);
             evict_above = min k cursor_for_eviction
         in if evict_above > 0 then
              (let (evicted, g) = grid_shrink_rows_from_top (t_grid t) evict_above;
                   t = t\<lparr>t_grid := g,
                         t_scrollback := fold (\<lambda>line s. sb_push s line) evicted (t_scrollback t)\<rparr>
               in if alt_active
                  then t\<lparr>t_alt_saved_cursor :=
                           (fst (t_alt_saved_cursor t) - evict_above, snd (t_alt_saved_cursor t))\<rparr>
                  else t\<lparr>t_cursor_row := t_cursor_row t - evict_above\<rparr>)
            else t)
      else t)"

definition terminal_resize :: "'p terminal \<Rightarrow> nat \<Rightarrow> nat \<Rightarrow> 'p terminal" where
  "terminal_resize t rows cols =
     (let alt_active = t_alt_grid t \<noteq> None;
          scroll_region_was_full_screen = region_is_full_screen t;
          t = (if alt_active then swap_grids t else t);
          t = reflow_rows t rows alt_active;
          t = t\<lparr>t_grid := grid_resize (t_grid t) rows cols\<rparr>;
          t = (if alt_active
               then (let t = swap_grids t in t\<lparr>t_grid := grid_resize (t_grid t) rows cols\<rparr>)
               else t);
          t = t\<lparr>t_rows := rows, t_cols := cols\<rparr>;
          t = clamp_scroll_region_after_resize t rows scroll_region_was_full_screen;
          t = t\<lparr>t_cursor_row := min (t_cursor_row t) (rows - 1),
                t_cursor_col := min (t_cursor_col t) (cols - 1), t_wrap_pending := False\<rparr>;
          t = (if alt_active
               then t\<lparr>t_alt_saved_cursor :=
                        (min (fst (t_alt_saved_cursor t)) (rows - 1),
                         min (snd (t_alt_saved_cursor t)) (cols - 1))\<rparr>
               else t)
      in t\<lparr>t_grid := grid_set_cursor (t_grid t) (t_cursor_row t) (t_cursor_col t)\<rparr>)"

end
