(* ===== verification/Performer.thy ===== *)
theory Performer
  imports Terminal
begin

text \<open>
  \<open>impl Perform for Performer\<close> and \<open>process_bytes\<close> of \<open>terminal.rs\<close>: what the emulator does for
  each callback of the \<open>vte\<close> parser. The parser itself is the argument \<open>advance\<close>, which turns a
  parser state and a byte into a new state and the callbacks made. A parameter list is a list of
  non-empty groups, a group being its first value and the sub-parameters after it.
\<close>

datatype vte_action =
    Print rchar
  | Execute u8
  | Csi "(u16 \<times> u16 list) list" "u8 list" bool char
  | Osc "u8 list list" bool
  | Esc "u8 list" bool u8
  | Hook "(u16 \<times> u16 list) list" "u8 list" bool char
  | Put u8
  | Unhook

section \<open>C0 controls\<close>

definition line_feed :: "'p terminal \<Rightarrow> 'p terminal" where
  "line_feed t =
     (let t = clear_pending_wrap t
      in if t_cursor_row t + 1 = t_scroll_bot t then scroll_up t
         else if t_cursor_row t + 1 < t_rows t then t\<lparr>t_cursor_row := t_cursor_row t + 1\<rparr>
         else t\<lparr>t_cursor_row := t_rows t - 1\<rparr>)"

definition execute :: "u8 \<Rightarrow> 'p terminal \<Rightarrow> 'p terminal" where
  "execute b t =
     (if b = 0x0A then line_feed t
      else if b = 0x0D then (clear_pending_wrap t)\<lparr>t_cursor_col := 0\<rparr>
      else if b = 0x09 then
        (let next_tab = (t_cursor_col t div 8 + 1) * 8
         in (clear_pending_wrap t)\<lparr>t_cursor_col := min next_tab (t_cols t - 1)\<rparr>)
      else if b = 0x08 then (clear_pending_wrap t)\<lparr>t_cursor_col := t_cursor_col t - 1\<rparr>
      else t)"

section \<open>SGR\<close>

definition reset_attrs :: "bool \<Rightarrow> 'p terminal \<Rightarrow> 'p terminal" where
  "reset_attrs pe t = t\<lparr>t_fg := default_fg_for_parity pe, t_bg := default_bg, t_attrs := attrs_empty\<rparr>"

definition set_attr :: "cell_attrs \<Rightarrow> 'p terminal \<Rightarrow> 'p terminal" where
  "set_attr a t = t\<lparr>t_attrs := t_attrs t OR a\<rparr>"

definition unset_attr :: "cell_attrs \<Rightarrow> 'p terminal \<Rightarrow> 'p terminal" where
  "unset_attr a t = t\<lparr>t_attrs := t_attrs t AND attrs_not a\<rparr>"

text \<open>The arms of the \<open>match\<close> that read one parameter.\<close>

definition sgr_simple :: "bool \<Rightarrow> u16 \<Rightarrow> 'p terminal \<Rightarrow> 'p terminal" where
  "sgr_simple pe code t =
     (if code = 0 then reset_attrs pe t
      else if code = 1 then set_attr BOLD t
      else if code = 2 then set_attr DIM t
      else if code = 3 then set_attr ITALIC t
      else if code = 4 then set_attr UNDERLINE t
      else if code = 5 then set_attr BLINK t
      else if code = 7 then set_attr INVERSE t
      else if code = 9 then set_attr STRIKETHROUGH t
      else if code = 22 then unset_attr (BOLD OR DIM) t
      else if code = 23 then unset_attr ITALIC t
      else if code = 24 then unset_attr UNDERLINE t
      else if code = 25 then unset_attr BLINK t
      else if code = 27 then unset_attr INVERSE t
      else if code = 29 then unset_attr STRIKETHROUGH t
      else if 30 \<le> code \<and> code \<le> 37 then t\<lparr>t_fg := ansi_16_fg_color_for_parity (unat (code - 30)) pe\<rparr>
      else if code = 39 then t\<lparr>t_fg := default_fg_for_parity pe\<rparr>
      else if 40 \<le> code \<and> code \<le> 47 then t\<lparr>t_bg := ansi_16_color_for_parity (unat (code - 40)) pe\<rparr>
      else if code = 49 then t\<lparr>t_bg := default_bg\<rparr>
      else if 90 \<le> code \<and> code \<le> 97 then t\<lparr>t_fg := ansi_16_fg_color_for_parity (unat (code - 90 + 8)) pe\<rparr>
      else if 100 \<le> code \<and> code \<le> 107 then t\<lparr>t_bg := ansi_16_color_for_parity (unat (code - 100 + 8)) pe\<rparr>
      else t)"

text \<open>
  Codes 38 and 48 look ahead. The result is the index the loop continues from (before its own
  \<open>i += 1\<close>) and the colour chosen, if any. \<open>as u8\<close> is \<open>ucast\<close>.
\<close>

definition sgr_extended :: "(u8 \<Rightarrow> color) \<Rightarrow> u16 list \<Rightarrow> nat \<Rightarrow> nat \<times> color option" where
  "sgr_extended palette pv i0 =
     (let i = i0 + 1 in
      if i < length pv then
        (if pv ! i = 5 then
           (let i = i + 1
            in if i < length pv then (i, Some (palette (ucast (pv ! i)))) else (i, None))
         else if pv ! i = 2 then
           (if i + 3 < length pv
            then (i + 3, Some (rgb (ucast (pv ! (i + 1))) (ucast (pv ! (i + 2))) (ucast (pv ! (i + 3)))))
            else (i, None))
         else (i, None))
      else (i, None))"

definition sgr_step :: "bool \<Rightarrow> u16 list \<Rightarrow> nat \<Rightarrow> 'p terminal \<Rightarrow> nat \<times> 'p terminal" where
  "sgr_step pe pv i t =
     (let code = pv ! i in
      if code = 38 then
        (case sgr_extended (\<lambda>n. fg_color_256_for_parity_with_profile n pe) pv i of
           (j, Some c) \<Rightarrow> (j, t\<lparr>t_fg := c\<rparr>) | (j, None) \<Rightarrow> (j, t))
      else if code = 48 then
        (case sgr_extended (\<lambda>n. bg_color_256_for_parity_with_profile n pe) pv i of
           (j, Some c) \<Rightarrow> (j, t\<lparr>t_bg := c\<rparr>) | (j, None) \<Rightarrow> (j, t))
      else (i, sgr_simple pe code t))"

lemma sgr_extended_ge: "i \<le> fst (sgr_extended p pv i)"
  by (simp add: sgr_extended_def Let_def)

lemma sgr_step_ge: "i \<le> fst (sgr_step pe pv i t)"
  using sgr_extended_ge [of i "\<lambda>n. fg_color_256_for_parity_with_profile n pe" pv]
    sgr_extended_ge [of i "\<lambda>n. bg_color_256_for_parity_with_profile n pe" pv]
  by (auto simp: sgr_step_def Let_def split: prod.split option.split)

function sgr_loop :: "bool \<Rightarrow> u16 list \<Rightarrow> nat \<Rightarrow> 'p terminal \<Rightarrow> 'p terminal" where
  "sgr_loop pe pv i t =
     (if i < length pv then
        (case sgr_step pe pv i t of (j, t') \<Rightarrow> sgr_loop pe pv (j + 1) t')
      else t)"
  by pat_completeness auto
termination
  by (relation "measure (\<lambda>(pe, pv, i, t). length pv - i)")
    (auto dest!: arg_cong [where f = fst], metis sgr_step_ge fst_conv diff_less_mono2 le_imp_less_Suc)

declare sgr_loop.simps [simp del]

definition handle_sgr :: "bool \<Rightarrow> u16 list \<Rightarrow> 'p terminal \<Rightarrow> 'p terminal" where
  "handle_sgr pe pv t = (if pv = [] then reset_attrs pe t else sgr_loop pe pv 0 t)"

section \<open>CSI\<close>

text \<open>The parameter accessors \<open>raw\<close> and \<open>p\<close>: a missing or zero parameter takes the default.\<close>

definition csi_raw :: "u16 list \<Rightarrow> nat \<Rightarrow> u16" where
  "csi_raw pv i = (case nth_opt pv i of Some v \<Rightarrow> v | None \<Rightarrow> 0)"

definition csi_p :: "u16 list \<Rightarrow> nat \<Rightarrow> u16 \<Rightarrow> u16" where
  "csi_p pv i d = (let v = csi_raw pv i in if v = 0 then d else v)"

definition csi_p0 :: "u16 list \<Rightarrow> nat" where
  "csi_p0 pv = unat (csi_p pv 0 1)"

definition private_mode :: "bool \<Rightarrow> u16 \<Rightarrow> 'p terminal \<Rightarrow> 'p terminal" where
  "private_mode on code t =
     (if code = 25 then t\<lparr>t_grid := grid_set_cursor_visible (t_grid t) on\<rparr>
      else if code = 1000 then t\<lparr>t_mouse_modes := (t_mouse_modes t)\<lparr>report_1000 := on\<rparr>\<rparr>
      else if code = 1002 then t\<lparr>t_mouse_modes := (t_mouse_modes t)\<lparr>report_1002 := on\<rparr>\<rparr>
      else if code = 1003 then t\<lparr>t_mouse_modes := (t_mouse_modes t)\<lparr>report_1003 := on\<rparr>\<rparr>
      else if code = 1006 then t\<lparr>t_mouse_modes := (t_mouse_modes t)\<lparr>sgr := on\<rparr>\<rparr>
      else if code = 1004 then t\<lparr>t_focus_reporting_1004 := on\<rparr>
      else if code = 2026 then t\<lparr>t_synchronized_output_active := on\<rparr>
      else if code = 47 \<or> code = 1047 \<or> code = 1049
      then (if on then enter_alt_screen t else exit_alt_screen t)
      else t)"

definition csi_private :: "char \<Rightarrow> u16 list \<Rightarrow> 'p terminal \<Rightarrow> 'p terminal" where
  "csi_private action pv t =
     (if action = CHR ''h'' \<or> action = CHR ''l''
      then fold (private_mode (action = CHR ''h'')) pv t else t)"

definition csi_position :: "u16 list \<Rightarrow> 'p terminal \<Rightarrow> 'p terminal" where
  "csi_position pv t =
     (let row = unat (csi_p pv 0 1);
          col = unat (csi_p pv 1 1)
      in t\<lparr>t_cursor_row := min (row - 1) (t_rows t - 1), t_cursor_col := min (col - 1) (t_cols t - 1)\<rparr>)"

definition csi_erase_display :: "u16 list \<Rightarrow> 'p terminal \<Rightarrow> 'p terminal" where
  "csi_erase_display pv t =
     (let m = csi_raw pv 0 in
      if m = 0 then
        (let t' = clear_region t (t_cursor_row t) (t_cursor_col t) (t_cursor_row t) (t_cols t - 1)
         in if t_cursor_row t' + 1 < t_rows t'
            then clear_region t' (t_cursor_row t' + 1) 0 (t_rows t' - 1) (t_cols t' - 1) else t')
      else if m = 1 then
        (let t' = (if t_cursor_row t > 0
                   then clear_region t 0 0 (t_cursor_row t - 1) (t_cols t - 1) else t)
         in clear_region t' (t_cursor_row t') 0 (t_cursor_row t') (t_cursor_col t'))
      else if m = 2 then clear_region t 0 0 (t_rows t - 1) (t_cols t - 1)
      else if m = 3 then
        (let t' = clear_region t 0 0 (t_rows t - 1) (t_cols t - 1)
         in t'\<lparr>t_scrollback := sb_clear (t_scrollback t')\<rparr>)
      else t)"

definition csi_erase_line :: "u16 list \<Rightarrow> 'p terminal \<Rightarrow> 'p terminal" where
  "csi_erase_line pv t =
     (let m = csi_raw pv 0 in
      if m = 0 then clear_region t (t_cursor_row t) (t_cursor_col t) (t_cursor_row t) (t_cols t - 1)
      else if m = 1 then clear_region t (t_cursor_row t) 0 (t_cursor_row t) (t_cursor_col t)
      else if m = 2 then clear_region t (t_cursor_row t) 0 (t_cursor_row t) (t_cols t - 1)
      else t)"

definition csi_insert_lines :: "u16 list \<Rightarrow> 'p terminal \<Rightarrow> 'p terminal" where
  "csi_insert_lines pv t =
     (let n = csi_p0 pv;
          cursor_row = t_cursor_row t
      in if cursor_row \<ge> t_scroll_top t \<and> cursor_row < t_scroll_bot t then
           (let bot = t_scroll_bot t;
                n = min n (bot - cursor_row)
            in if n > 0
               then fold (\<lambda>row t. clear_row t row) [cursor_row..<cursor_row + n]
                      (fold (\<lambda>row t. copy_row t row (row - n)) (rev [cursor_row + n..<bot]) t)
               else t)
         else t)"

definition csi_delete_lines :: "u16 list \<Rightarrow> 'p terminal \<Rightarrow> 'p terminal" where
  "csi_delete_lines pv t =
     (let n = csi_p0 pv;
          cursor_row = t_cursor_row t
      in if cursor_row \<ge> t_scroll_top t \<and> cursor_row < t_scroll_bot t then
           (let bot = t_scroll_bot t;
                n = min n (bot - cursor_row)
            in if n > 0
               then fold (\<lambda>row t. clear_row t row) [bot - n..<bot]
                      (fold (\<lambda>row t. copy_row t row (row + n)) [cursor_row..<bot - n] t)
               else t)
         else t)"

text \<open>The cell loops of \<open>@\<close> and \<open>P\<close> copy \<open>if let Some(cell)\<close>.\<close>

definition csi_insert_chars :: "u16 list \<Rightarrow> 'p terminal \<Rightarrow> 'p terminal" where
  "csi_insert_chars pv t =
     (let n = min (csi_p0 pv) (t_cols t - t_cursor_col t);
          r = t_cursor_row t;
          g = fold (\<lambda>col g. case grid_get g r (col - n) of Some x \<Rightarrow> grid_set g r col x | None \<Rightarrow> g)
                (rev [t_cursor_col t + n..<t_cols t]) (t_grid t)
      in t\<lparr>t_grid := fold (\<lambda>col g. grid_set g r col (blank_cell t))
             [t_cursor_col t..<t_cursor_col t + n] g\<rparr>)"

definition csi_delete_chars :: "u16 list \<Rightarrow> 'p terminal \<Rightarrow> 'p terminal" where
  "csi_delete_chars pv t =
     (let n = min (csi_p0 pv) (t_cols t - t_cursor_col t);
          r = t_cursor_row t;
          g = fold (\<lambda>col g. case grid_get g r (col + n) of Some x \<Rightarrow> grid_set g r col x | None \<Rightarrow> g)
                [t_cursor_col t..<t_cols t - n] (t_grid t)
      in t\<lparr>t_grid := fold (\<lambda>col g. grid_set g r col (blank_cell t)) [t_cols t - n..<t_cols t] g\<rparr>)"

definition csi_erase_chars :: "u16 list \<Rightarrow> 'p terminal \<Rightarrow> 'p terminal" where
  "csi_erase_chars pv t =
     (let n = min (csi_p0 pv) (t_cols t - t_cursor_col t)
      in t\<lparr>t_grid := fold (\<lambda>col g. grid_set g (t_cursor_row t) col (blank_cell t))
             [t_cursor_col t..<t_cursor_col t + n] (t_grid t)\<rparr>)"

definition csi_set_region :: "u16 list \<Rightarrow> 'p terminal \<Rightarrow> 'p terminal" where
  "csi_set_region pv t =
     (let rows = t_rows t;
          top_1 = csi_raw pv 0;
          bot_1 = csi_raw pv 1;
          top = (if top_1 = 0 then 1 else unat top_1);
          bot = (if bot_1 = 0 then rows else unat bot_1);
          new_top = top - 1;
          new_bot = min bot rows
      in if new_top < new_bot \<and> new_bot \<le> rows
         then t\<lparr>t_scroll_top := new_top, t_scroll_bot := new_bot, t_cursor_row := 0, t_cursor_col := 0\<rparr>
         else t)"

definition respond :: "u8 list \<Rightarrow> 'p terminal \<Rightarrow> 'p terminal" where
  "respond b t = t\<lparr>t_pending_response := t_pending_response t @ b\<rparr>"

definition cursor_report :: "'p terminal \<Rightarrow> u8 list" where
  "cursor_report t =
     27 # byte_lit ''['' @ utf8 (show_nat (t_cursor_row t + 1)) @ byte_lit '';'' @
     utf8 (show_nat (t_cursor_col t + 1)) @ byte_lit ''R''"

text \<open>The second \<open>match\<close> of \<open>csi_dispatch\<close>, arm by arm in its order.\<close>

definition csi_action :: "bool \<Rightarrow> u16 list \<Rightarrow> u8 list \<Rightarrow> char \<Rightarrow> 'p terminal \<Rightarrow> 'p terminal" where
  "csi_action pe pv intermediates action t =
     (if action = CHR ''A'' then t\<lparr>t_cursor_row := t_cursor_row t - csi_p0 pv\<rparr>
      else if action = CHR ''B''
      then t\<lparr>t_cursor_row := min (t_cursor_row t + csi_p0 pv) (t_rows t - 1)\<rparr>
      else if action = CHR ''C''
      then t\<lparr>t_cursor_col := min (t_cursor_col t + csi_p0 pv) (t_cols t - 1)\<rparr>
      else if action = CHR ''D'' then t\<lparr>t_cursor_col := t_cursor_col t - csi_p0 pv\<rparr>
      else if action = CHR ''H'' \<or> action = CHR ''f'' then csi_position pv t
      else if action = CHR ''d'' then t\<lparr>t_cursor_row := min (csi_p0 pv - 1) (t_rows t - 1)\<rparr>
      else if action = CHR ''G'' then t\<lparr>t_cursor_col := min (csi_p0 pv - 1) (t_cols t - 1)\<rparr>
      else if action = CHR ''J'' then csi_erase_display pv t
      else if action = CHR ''K'' then csi_erase_line pv t
      else if action = CHR ''L'' then csi_insert_lines pv t
      else if action = CHR ''M'' \<and> intermediates = [] then csi_delete_lines pv t
      else if action = CHR ''S'' then (scroll_up ^^ csi_p0 pv) t
      else if action = CHR ''T'' then (scroll_down ^^ csi_p0 pv) t
      else if action = CHR ''@'' then csi_insert_chars pv t
      else if action = CHR ''P'' then csi_delete_chars pv t
      else if action = CHR ''X'' then csi_erase_chars pv t
      else if action = CHR ''r'' \<and> intermediates = [] then csi_set_region pv t
      else if action = CHR ''c'' \<and> intermediates = [] then respond (27 # byte_lit ''[?1;2c'') t
      else if action = CHR ''c'' \<and> intermediates = byte_lit ''>''
      then respond (27 # byte_lit ''[>0;95;0c'') t
      else if action = CHR ''n'' \<and> intermediates = [] \<and> nth_opt pv 0 = Some 5
      then respond (27 # byte_lit ''[0n'') t
      else if action = CHR ''n'' \<and> intermediates = [] \<and> nth_opt pv 0 = Some 6
      then respond (cursor_report t) t
      else if action = CHR ''q'' \<and> intermediates = byte_lit ''>''
      then respond (27 # byte_lit ''P>|godly-terminal 0.1'' @ [27, 92]) t
      else if action = CHR ''m'' then handle_sgr pe pv t
      else t)"

definition csi_dispatch ::
    "bool \<Rightarrow> (u16 \<times> u16 list) list \<Rightarrow> u8 list \<Rightarrow> char \<Rightarrow> 'p terminal \<Rightarrow> 'p terminal" where
  "csi_dispatch pe params intermediates action t =
     (let pv = map fst params in
      if intermediates = byte_lit ''?'' then csi_private action pv t
      else if intermediates = byte_lit '' '' \<and> action = CHR ''q'' then t
      else
        (let t = (if action \<notin> {CHR ''m'', CHR ''c'', CHR ''n'', CHR ''q''}
                  then clear_pending_wrap t else t)
         in csi_action pe pv intermediates action t))"

section \<open>OSC and ESC\<close>

definition osc_dispatch :: "u8 list list \<Rightarrow> 'p terminal \<Rightarrow> 'p terminal" where
  "osc_dispatch params t =
     (if 2 \<le> length params \<and> (params ! 0 = byte_lit ''0'' \<or> params ! 0 = byte_lit ''2'')
      then (case from_utf8 (params ! 1) of Some title \<Rightarrow> t\<lparr>t_title := title\<rparr> | None \<Rightarrow> t)
      else t)"

definition esc_dispatch :: "u8 \<Rightarrow> 'p terminal \<Rightarrow> 'p terminal" where
  "esc_dispatch b t =
     (if b = 55 then t\<lparr>t_saved_cursor := (t_cursor_row t, t_cursor_col t)\<rparr>
      else if b = 56 then
        (clear_pending_wrap t)
          \<lparr>t_cursor_row := min (fst (t_saved_cursor t)) (t_rows t - 1),
           t_cursor_col := min (snd (t_saved_cursor t)) (t_cols t - 1)\<rparr>
      else if b = 77 then
        (let t = clear_pending_wrap t
         in if t_cursor_row t = 0 then scroll_down t else t\<lparr>t_cursor_row := t_cursor_row t - 1\<rparr>)
      else t)"

section \<open>The parser's callbacks, and a chunk of bytes\<close>

fun perform :: "bool \<Rightarrow> vte_action \<Rightarrow> 'p terminal \<Rightarrow> 'p terminal" where
  "perform pe (Print c) t = put_char t c"
| "perform pe (Execute b) t = execute b t"
| "perform pe (Csi params intermediates ignore action) t = csi_dispatch pe params intermediates action t"
| "perform pe (Osc params bell_terminated) t = osc_dispatch params t"
| "perform pe (Esc intermediates ignore b) t = esc_dispatch b t"
| "perform pe (Hook params intermediates ignore action) t = t"
| "perform pe (Put b) t = t"
| "perform pe Unhook t = t"

text \<open>
  The parser is taken out of the terminal for the loop, so the callbacks cannot touch it;
  \<open>parser_default\<close> is what \<open>mem::take\<close> leaves behind meanwhile.
\<close>

definition process_bytes ::
    "'p \<Rightarrow> ('p \<Rightarrow> u8 \<Rightarrow> 'p \<times> vte_action list) \<Rightarrow> bool \<Rightarrow> u8 list \<Rightarrow> 'p terminal \<Rightarrow> 'p terminal" where
  "process_bytes parser_default advance pe bytes t =
     (let (p, t) =
            fold (\<lambda>b (p, t). case advance p b of (p', as) \<Rightarrow> (p', fold (perform pe) as t)) bytes
              (t_parser t, t\<lparr>t_parser := parser_default\<rparr>);
          t = t\<lparr>t_parser := p\<rparr>
      in t\<lparr>t_grid := grid_set_cursor (t_grid t) (t_cursor_row t) (t_cursor_col t)\<rparr>)"

end
