(* ===== verification/Terminal_Inv.thy ===== *)
theory Terminal_Inv
  imports Performer
begin

text \<open>
  The invariant of the emulator and that everything keeps it: each action of the parser, a chunk
  of bytes, and a resize. Operations that only write the screen and the history are grouped by
  \<open>screen_step\<close>, from which their frame and their part of the invariant follow together.
\<close>

section \<open>The invariant\<close>

definition grid_dim :: "nat \<Rightarrow> nat \<Rightarrow> grid \<Rightarrow> bool" where
  "grid_dim rows cols g \<longleftrightarrow> grid_wf g \<and> g_rows g = rows \<and> g_cols g = cols"

definition region_ok :: "nat \<Rightarrow> nat \<Rightarrow> nat \<Rightarrow> bool" where
  "region_ok rows a b \<longleftrightarrow> (if rows = 0 then a = 0 \<and> b = 0 else a < b \<and> b \<le> rows)"

definition term_wf :: "'p terminal \<Rightarrow> bool" where
  "term_wf t \<longleftrightarrow>
     grid_dim (t_rows t) (t_cols t) (t_grid t)
     \<and> (case t_alt_grid t of
          None \<Rightarrow> True
        | Some g \<Rightarrow> grid_dim (t_rows t) (t_cols t) g
            \<and> fst (t_alt_saved_cursor t) \<le> t_rows t - 1 \<and> snd (t_alt_saved_cursor t) \<le> t_cols t - 1)
     \<and> t_cursor_row t \<le> t_rows t - 1 \<and> t_cursor_col t \<le> t_cols t - 1
     \<and> region_ok (t_rows t) (t_scroll_top t) (t_scroll_bot t)
     \<and> sb_wf (t_scrollback t)
     \<and> (t_wrap_pending t \<longrightarrow> t_cursor_col t + 1 = t_cols t)"

lemma grid_dim_new [simp, intro]: "grid_dim rows cols (grid_new rows cols)"
  by (simp add: grid_dim_def keeps_inv)

lemma grid_dim_set [intro]: "grid_dim R C g \<Longrightarrow> grid_dim R C (grid_set g r c x)"
  by (simp add: grid_dim_def keeps_inv)

lemma grid_dim_set_cursor [intro]: "grid_dim R C g \<Longrightarrow> grid_dim R C (grid_set_cursor g r c)"
  by (simp add: grid_dim_def keeps_inv)

lemma grid_dim_visible [intro]: "grid_dim R C g \<Longrightarrow> grid_dim R C (grid_set_cursor_visible g v)"
  by (simp add: grid_dim_def keeps_inv)

lemma grid_dim_scroll_up [intro]: "grid_dim R C g \<Longrightarrow> grid_dim R C (snd (grid_scroll_up g))"
  by (simp add: grid_dim_def keeps_inv)

lemma grid_dim_resize [intro]: "grid_wf g \<Longrightarrow> grid_dim R C (grid_resize g R C)"
  by (simp add: grid_dim_def keeps_inv)

section \<open>Operations that write the screen and the history only\<close>

definition screen_step :: "'p terminal \<Rightarrow> 'p terminal \<Rightarrow> bool" where
  "screen_step t t' \<longleftrightarrow>
     t' = t\<lparr>t_grid := t_grid t', t_scrollback := t_scrollback t'\<rparr>
     \<and> (\<forall>R C. grid_dim R C (t_grid t) \<longrightarrow> grid_dim R C (t_grid t'))
     \<and> (sb_wf (t_scrollback t) \<longrightarrow> sb_wf (t_scrollback t'))"

lemma screen_step_frame:
  assumes "screen_step t t'"
  shows "t_parser t' = t_parser t" "t_rows t' = t_rows t" "t_cols t' = t_cols t"
    "t_cursor_row t' = t_cursor_row t" "t_cursor_col t' = t_cursor_col t"
    "t_wrap_pending t' = t_wrap_pending t" "t_saved_cursor t' = t_saved_cursor t"
    "t_fg t' = t_fg t" "t_bg t' = t_bg t" "t_attrs t' = t_attrs t" "t_title t' = t_title t"
    "t_alt_grid t' = t_alt_grid t" "t_alt_saved_cursor t' = t_alt_saved_cursor t"
    "t_alt_saved_fg t' = t_alt_saved_fg t" "t_alt_saved_bg t' = t_alt_saved_bg t"
    "t_alt_saved_attrs t' = t_alt_saved_attrs t"
    "t_scroll_top t' = t_scroll_top t" "t_scroll_bot t' = t_scroll_bot t"
    "t_pending_response t' = t_pending_response t"
    "t_synchronized_output_active t' = t_synchronized_output_active t"
    "t_mouse_modes t' = t_mouse_modes t" "t_focus_reporting_1004 t' = t_focus_reporting_1004 t"
proof -
  obtain g s where t': "t' = t\<lparr>t_grid := g, t_scrollback := s\<rparr>"
    using assms unfolding screen_step_def by blast
  show "t_parser t' = t_parser t" "t_rows t' = t_rows t" "t_cols t' = t_cols t"
    "t_cursor_row t' = t_cursor_row t" "t_cursor_col t' = t_cursor_col t"
    "t_wrap_pending t' = t_wrap_pending t" "t_saved_cursor t' = t_saved_cursor t"
    "t_fg t' = t_fg t" "t_bg t' = t_bg t" "t_attrs t' = t_attrs t" "t_title t' = t_title t"
    "t_alt_grid t' = t_alt_grid t" "t_alt_saved_cursor t' = t_alt_saved_cursor t"
    "t_alt_saved_fg t' = t_alt_saved_fg t" "t_alt_saved_bg t' = t_alt_saved_bg t"
    "t_alt_saved_attrs t' = t_alt_saved_attrs t"
    "t_scroll_top t' = t_scroll_top t" "t_scroll_bot t' = t_scroll_bot t"
    "t_pending_response t' = t_pending_response t"
    "t_synchronized_output_active t' = t_synchronized_output_active t"
    "t_mouse_modes t' = t_mouse_modes t" "t_focus_reporting_1004 t' = t_focus_reporting_1004 t"
    by (simp_all add: t')
qed

lemma screen_stepE:
  assumes "screen_step t t'"
  obtains g s where "t' = t\<lparr>t_grid := g, t_scrollback := s\<rparr>"
    and "\<And>R C. grid_dim R C (t_grid t) \<Longrightarrow> grid_dim R C g"
    and "sb_wf (t_scrollback t) \<Longrightarrow> sb_wf s"
proof -
  have eq: "t' = t\<lparr>t_grid := t_grid t', t_scrollback := t_scrollback t'\<rparr>"
    and d: "\<forall>R C. grid_dim R C (t_grid t) \<longrightarrow> grid_dim R C (t_grid t')"
    and s: "sb_wf (t_scrollback t) \<longrightarrow> sb_wf (t_scrollback t')"
    using assms unfolding screen_step_def by blast+
  show thesis by (rule that [OF eq]) (use d s in blast)+
qed

lemma screen_stepI:
  assumes "t' = t\<lparr>t_grid := g, t_scrollback := s\<rparr>"
    and "\<And>R C. grid_dim R C (t_grid t) \<Longrightarrow> grid_dim R C g"
    and "sb_wf (t_scrollback t) \<Longrightarrow> sb_wf s"
  shows "screen_step t t'"
  using assms by (simp add: screen_step_def)

lemma screen_step_wf: "screen_step t t' \<Longrightarrow> term_wf t \<Longrightarrow> term_wf t'"
  by (erule screen_stepE) (auto simp: term_wf_def split: option.splits)

lemma screen_step_refl [simp, intro]: "screen_step t t"
  by (simp add: screen_step_def)

lemma screen_step_trans: "screen_step t t' \<Longrightarrow> screen_step t' t'' \<Longrightarrow> screen_step t t''"
  by (elim screen_stepE, rule_tac g = "t_grid t''" and s = "t_scrollback t''" in screen_stepI) simp_all

lemma screen_step_fold: "(\<And>x t. screen_step t (f x t)) \<Longrightarrow> screen_step t (fold f xs t)"
  by (induction xs arbitrary: t) (auto intro: screen_step_trans)

lemma screen_step_funpow: "(\<And>t. screen_step t (f t)) \<Longrightarrow> screen_step t ((f ^^ n) t)"
  by (induction n) (auto intro: screen_step_trans)

lemma screen_step_grid:
  "(\<And>R C. grid_dim R C (t_grid t) \<Longrightarrow> grid_dim R C g) \<Longrightarrow> screen_step t (t\<lparr>t_grid := g\<rparr>)"
  by (simp add: screen_step_def)

lemma screen_step_scrollback:
  "(sb_wf (t_scrollback t) \<Longrightarrow> sb_wf s) \<Longrightarrow> screen_step t (t\<lparr>t_scrollback := s\<rparr>)"
  by (simp add: screen_step_def)

lemma grid_dim_fold: "(\<And>x g. grid_dim R C g \<Longrightarrow> grid_dim R C (f x g)) \<Longrightarrow> grid_dim R C g \<Longrightarrow>
    grid_dim R C (fold f xs g)"
  by (induction xs arbitrary: g) auto

lemma copy_row_step: "screen_step t (copy_row t dst src)"
  by (auto simp: copy_row_def intro!: screen_step_grid grid_dim_fold)

lemma clear_row_step: "screen_step t (clear_row t row)"
  by (auto simp: clear_row_def intro!: screen_step_grid grid_dim_fold)

lemma clear_region_step: "screen_step t (clear_region t a b c d)"
  unfolding clear_region_def Let_def by (intro screen_step_grid grid_dim_fold grid_dim_set)

lemma scroll_up_and_capture_step: "screen_step t (scroll_up_and_capture t)"
proof -
  have g: "screen_step t (t\<lparr>t_grid := snd (grid_scroll_up (t_grid t))\<rparr>)"
    by (rule screen_step_grid) auto
  then have "screen_step t ((t\<lparr>t_grid := snd (grid_scroll_up (t_grid t))\<rparr>)
      \<lparr>t_scrollback := sb_push (t_scrollback t) (fst (grid_scroll_up (t_grid t)))\<rparr>)"
    by (rule screen_step_trans) (auto intro!: screen_step_scrollback simp: keeps_inv)
  with g show ?thesis by (simp add: scroll_up_and_capture_def split_beta Let_def)
qed

lemma scroll_up_step: "screen_step t (scroll_up t)"
proof (cases "t_rows t = 0 \<or> t_scroll_bot t \<le> t_scroll_top t \<or> region_is_full_screen t")
  case True
  then show ?thesis by (auto simp: scroll_up_def scroll_up_and_capture_step)
next
  case False
  let ?t1 = "if t_scroll_top t = 0 \<and> t_alt_grid t = None
             then t\<lparr>t_scrollback := sb_push (t_scrollback t)
                    (List.map_filter (grid_get (t_grid t) (t_scroll_top t)) [0..<t_cols t])\<rparr>
             else t"
  have "screen_step t ?t1" by (auto intro!: screen_step_scrollback simp: keeps_inv)
  moreover have "screen_step s (clear_row (fold (\<lambda>row t. copy_row t row (row + 1)) rs s) b)"
    for s :: "'a terminal" and rs b
    by (rule screen_step_trans [OF screen_step_fold [OF copy_row_step] clear_row_step])
  ultimately show ?thesis
    using False unfolding scroll_up_def Let_def by (auto intro: screen_step_trans)
qed

lemma scroll_down_step: "screen_step t (scroll_down t)"
  unfolding scroll_down_def Let_def
  by (auto intro: screen_step_trans [OF screen_step_fold [OF copy_row_step] clear_row_step])

lemma csi_erase_display_step: "screen_step t (csi_erase_display pv t)"
  unfolding csi_erase_display_def Let_def
  by (auto intro: clear_region_step screen_step_trans
    intro!: screen_step_trans [OF clear_region_step screen_step_scrollback] simp: keeps_inv)

lemma csi_erase_line_step: "screen_step t (csi_erase_line pv t)"
  by (simp add: csi_erase_line_def Let_def clear_region_step)

lemma csi_insert_lines_step: "screen_step t (csi_insert_lines pv t)"
  unfolding csi_insert_lines_def Let_def
  by (auto intro: screen_step_trans [OF screen_step_fold [OF copy_row_step]
      screen_step_fold [OF clear_row_step]])

lemma csi_delete_lines_step: "screen_step t (csi_delete_lines pv t)"
  unfolding csi_delete_lines_def Let_def
  by (auto intro: screen_step_trans [OF screen_step_fold [OF copy_row_step]
      screen_step_fold [OF clear_row_step]])

lemma csi_insert_chars_step: "screen_step t (csi_insert_chars pv t)"
  unfolding csi_insert_chars_def Let_def
  by (intro screen_step_grid grid_dim_fold) (auto split: option.split)

lemma csi_delete_chars_step: "screen_step t (csi_delete_chars pv t)"
  unfolding csi_delete_chars_def Let_def
  by (intro screen_step_grid grid_dim_fold) (auto split: option.split)

lemma csi_erase_chars_step: "screen_step t (csi_erase_chars pv t)"
  unfolding csi_erase_chars_def Let_def by (intro screen_step_grid grid_dim_fold) auto

lemmas scroll_steps =
  scroll_up_step scroll_down_step screen_step_funpow [of scroll_up, OF scroll_up_step]
  screen_step_funpow [of scroll_down, OF scroll_down_step]

lemmas screen_steps =
  copy_row_step clear_row_step clear_region_step scroll_steps
  csi_erase_display_step csi_erase_line_step csi_insert_lines_step csi_delete_lines_step
  csi_insert_chars_step csi_delete_chars_step csi_erase_chars_step

lemmas scroll_up_frame [simp] = screen_step_frame [OF scroll_up_step]
lemmas scroll_down_frame [simp] = screen_step_frame [OF scroll_down_step]
lemmas copy_row_frame [simp] = screen_step_frame [OF copy_row_step]
lemmas clear_row_frame [simp] = screen_step_frame [OF clear_row_step]

text \<open>Which of them touch the history: only a scroll of the main screen and \<open>CSI 3 J\<close>.\<close>

lemma copy_row_scrollback [simp]: "t_scrollback (copy_row t dst src) = t_scrollback t"
  by (simp add: copy_row_def)

lemma clear_row_scrollback [simp]: "t_scrollback (clear_row t row) = t_scrollback t"
  by (simp add: clear_row_def)

lemma clear_region_scrollback [simp]: "t_scrollback (clear_region t a b c d) = t_scrollback t"
  by (simp add: clear_region_def Let_def)

lemma rows_loop_scrollback [simp]:
  "t_scrollback (fold (\<lambda>row t. copy_row t (f row) (g row)) rs t) = t_scrollback t"
  "t_scrollback (fold (\<lambda>row t. clear_row t row) rs t) = t_scrollback t"
  by (rule fold_frame, simp)+

lemma scroll_up_scrollback_alt: "t_alt_grid t \<noteq> None \<Longrightarrow> t_scrollback (scroll_up t) = t_scrollback t"
  by (cases "t_alt_grid t") (simp_all add: scroll_up_def scroll_up_and_capture_def Let_def split_beta)

lemma scroll_up_sb_max [simp]: "sb_max_lines (t_scrollback (scroll_up t)) = sb_max_lines (t_scrollback t)"
  by (simp add: scroll_up_def scroll_up_and_capture_def Let_def split_beta sb.push_cap)

lemma scroll_down_scrollback [simp]: "t_scrollback (scroll_down t) = t_scrollback t"
  by (simp add: scroll_down_def Let_def)

lemma editing_scrollback [simp]:
  "t_scrollback (csi_erase_line pv t) = t_scrollback t"
  "t_scrollback (csi_insert_lines pv t) = t_scrollback t"
  "t_scrollback (csi_delete_lines pv t) = t_scrollback t"
  "t_scrollback (csi_insert_chars pv t) = t_scrollback t"
  "t_scrollback (csi_delete_chars pv t) = t_scrollback t"
  "t_scrollback (csi_erase_chars pv t) = t_scrollback t"
  by (simp_all add: csi_erase_line_def csi_insert_lines_def csi_delete_lines_def
    csi_insert_chars_def csi_delete_chars_def csi_erase_chars_def Let_def)

lemma erase_display_scrollback:
  "csi_raw pv 0 \<noteq> 3 \<Longrightarrow> t_scrollback (csi_erase_display pv t) = t_scrollback t"
  by (simp add: csi_erase_display_def Let_def)

section \<open>Every action keeps the invariant\<close>

text \<open>Moving the cursor inside the screen, with no wrap pending.\<close>

lemma term_wf_move:
  assumes "term_wf t" and "r \<le> t_rows t - 1" and "c \<le> t_cols t - 1"
  shows "term_wf (t\<lparr>t_cursor_row := r, t_cursor_col := c, t_wrap_pending := False\<rparr>)"
  using assms by (auto simp: term_wf_def split: option.splits)

lemma term_wf_clear_pending [keeps_inv]: "term_wf t \<Longrightarrow> term_wf (clear_pending_wrap t)"
  by (auto simp: term_wf_def clear_pending_wrap_def split: option.splits)

lemma clear_pending_wrap_simps [simp]:
  "t_grid (clear_pending_wrap t) = t_grid t" "t_scrollback (clear_pending_wrap t) = t_scrollback t"
  "t_rows (clear_pending_wrap t) = t_rows t" "t_cols (clear_pending_wrap t) = t_cols t"
  "t_cursor_row (clear_pending_wrap t) = t_cursor_row t"
  "t_cursor_col (clear_pending_wrap t) = t_cursor_col t"
  "t_wrap_pending (clear_pending_wrap t) = False"
  "t_saved_cursor (clear_pending_wrap t) = t_saved_cursor t"
  "t_fg (clear_pending_wrap t) = t_fg t" "t_bg (clear_pending_wrap t) = t_bg t"
  "t_attrs (clear_pending_wrap t) = t_attrs t"
  "t_alt_grid (clear_pending_wrap t) = t_alt_grid t"
  "t_alt_saved_cursor (clear_pending_wrap t) = t_alt_saved_cursor t"
  "t_alt_saved_fg (clear_pending_wrap t) = t_alt_saved_fg t"
  "t_alt_saved_bg (clear_pending_wrap t) = t_alt_saved_bg t"
  "t_alt_saved_attrs (clear_pending_wrap t) = t_alt_saved_attrs t"
  "t_scroll_top (clear_pending_wrap t) = t_scroll_top t"
  "t_scroll_bot (clear_pending_wrap t) = t_scroll_bot t"
  "t_pending_response (clear_pending_wrap t) = t_pending_response t"
  by (simp_all add: clear_pending_wrap_def)

lemma term_wf_new [keeps_inv]: "term_wf (terminal_new pe p rows cols m)"
  by (simp add: term_wf_def terminal_new_def region_ok_def keeps_inv)

lemma term_wf_cursor:
  assumes "term_wf t" and "\<not> t_wrap_pending t"
  shows "c \<le> t_cols t - 1 \<Longrightarrow> term_wf (t\<lparr>t_cursor_col := c\<rparr>)"
    "r \<le> t_rows t - 1 \<Longrightarrow> c \<le> t_cols t - 1 \<Longrightarrow> term_wf (t\<lparr>t_cursor_row := r, t_cursor_col := c\<rparr>)"
  using assms by (auto simp: term_wf_def split: option.splits)

lemma term_wf_cursor_row: "term_wf t \<Longrightarrow> r \<le> t_rows t - 1 \<Longrightarrow> term_wf (t\<lparr>t_cursor_row := r\<rparr>)"
  by (auto simp: term_wf_def split: option.splits)

lemma term_wfD:
  assumes "term_wf t"
  shows "grid_dim (t_rows t) (t_cols t) (t_grid t)" "grid_wf (t_grid t)"
    "g_rows (t_grid t) = t_rows t" "g_cols (t_grid t) = t_cols t"
    "t_cursor_row t \<le> t_rows t - 1" "t_cursor_col t \<le> t_cols t - 1"
    "region_ok (t_rows t) (t_scroll_top t) (t_scroll_bot t)" "sb_wf (t_scrollback t)"
    "t_wrap_pending t \<Longrightarrow> t_cursor_col t + 1 = t_cols t"
  using assms by (auto simp: term_wf_def grid_dim_def)

lemma wrap_to_next_line_wf [keeps_inv]:
  assumes "term_wf t"
  shows "term_wf (wrap_to_next_line t)"
proof -
  let ?t = "t\<lparr>t_cursor_col := 0, t_wrap_pending := False\<rparr>"
  have wf: "term_wf ?t" using assms by (auto simp: term_wf_def split: option.splits)
  have eq: "scroll_up (t\<lparr>t_cursor_col := 0\<rparr>)\<lparr>t_wrap_pending := False\<rparr> = u \<Longrightarrow> term_wf u" for u
    using screen_step_wf [OF scroll_up_step [of "t\<lparr>t_cursor_col := 0\<rparr>"]] assms
      screen_step_frame [OF scroll_up_step [of "t\<lparr>t_cursor_col := 0\<rparr>"]]
      scroll_up_step [of "t\<lparr>t_cursor_col := 0\<rparr>"]
    by (auto simp: term_wf_def screen_step_def split: option.splits)
  from assms wf show ?thesis
    by (auto simp: wrap_to_next_line_def Let_def eq) (auto simp: term_wf_def split: option.splits)
qed

lemma put_char_wf [keeps_inv]:
  assumes "term_wf t"
  shows "term_wf (put_char t c)"
proof (cases "t_rows t = 0 \<or> t_cols t = 0")
  case False
  have "term_wf (prepare_for_printable t)"
    by (simp add: prepare_for_printable_def assms keeps_inv)
  moreover have "t_cols (prepare_for_printable t) = t_cols t"
    by (auto simp: prepare_for_printable_def wrap_to_next_line_def Let_def)
  ultimately show ?thesis
    using False by (auto simp: put_char_def Let_def term_wf_def split: option.splits)
qed (auto simp: put_char_def assms)

lemma enter_alt_screen_wf [keeps_inv]: "term_wf t \<Longrightarrow> term_wf (enter_alt_screen t)"
  by (auto simp: enter_alt_screen_def Let_def term_wf_def split: option.splits)

lemma exit_alt_screen_wf [keeps_inv]: "term_wf t \<Longrightarrow> term_wf (exit_alt_screen t)"
  by (auto simp: exit_alt_screen_def clear_pending_wrap_def Let_def term_wf_def split: option.splits)

lemma line_feed_wf [keeps_inv]: "term_wf t \<Longrightarrow> term_wf (line_feed t)"
  using screen_step_wf [OF scroll_up_step term_wf_clear_pending [of t]]
  by (auto simp: line_feed_def Let_def intro!: term_wf_cursor_row term_wf_clear_pending)

lemma execute_wf [keeps_inv]: "term_wf t \<Longrightarrow> term_wf (execute b t)"
  using term_wfD(6) [of t]
  by (auto simp: execute_def Let_def keeps_inv intro!: term_wf_cursor(1) term_wf_clear_pending)

text \<open>SGR writes the pen: foreground, background and attributes.\<close>

definition pen_step :: "'p terminal \<Rightarrow> 'p terminal \<Rightarrow> bool" where
  "pen_step t t' \<longleftrightarrow> t' = t\<lparr>t_fg := t_fg t', t_bg := t_bg t', t_attrs := t_attrs t'\<rparr>"

lemma pen_step_refl [simp]: "pen_step t t"
  by (simp add: pen_step_def)

lemma pen_step_trans: "pen_step t t' \<Longrightarrow> pen_step t' t'' \<Longrightarrow> pen_step t t''"
proof -
  assume "pen_step t t'" and "pen_step t' t''"
  then obtain f b a f' b' a' where "t' = t\<lparr>t_fg := f, t_bg := b, t_attrs := a\<rparr>"
    and "t'' = t'\<lparr>t_fg := f', t_bg := b', t_attrs := a'\<rparr>"
    unfolding pen_step_def by blast
  then show ?thesis by (simp add: pen_step_def)
qed

lemma pen_step_simps [simp]:
  "pen_step t (t\<lparr>t_fg := f\<rparr>)" "pen_step t (t\<lparr>t_bg := b\<rparr>)" "pen_step t (t\<lparr>t_attrs := a\<rparr>)"
  "pen_step t (reset_attrs pe t)"
  by (simp_all add: pen_step_def reset_attrs_def)

lemma sgr_simple_pen: "pen_step t (sgr_simple pe code t)"
  by (simp add: sgr_simple_def set_attr_def unset_attr_def)

lemma sgr_step_pen: "pen_step t (snd (sgr_step pe pv i t))"
  by (simp add: sgr_step_def Let_def sgr_simple_pen split: prod.split option.split)

lemma sgr_loop_pen: "pen_step t (sgr_loop pe pv i t)"
proof (induction pe pv i t rule: sgr_loop.induct)
  case (1 pe pv i t)
  show ?case
  proof (cases "i < length pv")
    case True
    have "pen_step (snd (sgr_step pe pv i t)) (sgr_loop pe pv (fst (sgr_step pe pv i t) + 1) (snd (sgr_step pe pv i t)))"
      using 1 [OF True, of "fst (sgr_step pe pv i t)" "snd (sgr_step pe pv i t)"] by simp
    with sgr_step_pen [of t pe pv i] have "pen_step t
        (sgr_loop pe pv (fst (sgr_step pe pv i t) + 1) (snd (sgr_step pe pv i t)))"
      by (rule pen_step_trans)
    with True show ?thesis by (simp add: sgr_loop.simps [of pe pv i t] split_beta)
  qed (simp add: sgr_loop.simps)
qed

lemma handle_sgr_pen: "pen_step t (handle_sgr pe pv t)"
  by (simp add: handle_sgr_def sgr_loop_pen)

lemma pen_step_frame:
  assumes "pen_step t t'"
  shows "t_grid t' = t_grid t" "t_scrollback t' = t_scrollback t"
    "t_parser t' = t_parser t" "t_rows t' = t_rows t" "t_cols t' = t_cols t"
    "t_cursor_row t' = t_cursor_row t" "t_cursor_col t' = t_cursor_col t"
    "t_wrap_pending t' = t_wrap_pending t" "t_saved_cursor t' = t_saved_cursor t"
    "t_title t' = t_title t" "t_alt_grid t' = t_alt_grid t"
    "t_alt_saved_cursor t' = t_alt_saved_cursor t"
    "t_alt_saved_fg t' = t_alt_saved_fg t" "t_alt_saved_bg t' = t_alt_saved_bg t"
    "t_alt_saved_attrs t' = t_alt_saved_attrs t"
    "t_scroll_top t' = t_scroll_top t" "t_scroll_bot t' = t_scroll_bot t"
    "t_pending_response t' = t_pending_response t"
proof -
  obtain f b a where t': "t' = t\<lparr>t_fg := f, t_bg := b, t_attrs := a\<rparr>"
    using assms unfolding pen_step_def by blast
  show "t_grid t' = t_grid t" "t_scrollback t' = t_scrollback t"
    "t_parser t' = t_parser t" "t_rows t' = t_rows t" "t_cols t' = t_cols t"
    "t_cursor_row t' = t_cursor_row t" "t_cursor_col t' = t_cursor_col t"
    "t_wrap_pending t' = t_wrap_pending t" "t_saved_cursor t' = t_saved_cursor t"
    "t_title t' = t_title t" "t_alt_grid t' = t_alt_grid t"
    "t_alt_saved_cursor t' = t_alt_saved_cursor t"
    "t_alt_saved_fg t' = t_alt_saved_fg t" "t_alt_saved_bg t' = t_alt_saved_bg t"
    "t_alt_saved_attrs t' = t_alt_saved_attrs t"
    "t_scroll_top t' = t_scroll_top t" "t_scroll_bot t' = t_scroll_bot t"
    "t_pending_response t' = t_pending_response t"
    by (simp_all add: t')
qed

lemma pen_step_wf: "pen_step t t' \<Longrightarrow> term_wf t \<Longrightarrow> term_wf t'"
  by (auto simp: term_wf_def pen_step_frame split: option.splits)

lemma handle_sgr_wf [keeps_inv]: "term_wf t \<Longrightarrow> term_wf (handle_sgr pe pv t)"
  by (rule pen_step_wf [OF handle_sgr_pen])

lemma private_mode_wf [keeps_inv]:
  assumes "term_wf t"
  shows "term_wf (private_mode on code t)"
proof -
  have "term_wf (t\<lparr>t_grid := grid_set_cursor_visible (t_grid t) on\<rparr>)"
    by (rule screen_step_wf [OF screen_step_grid assms]) auto
  moreover have "term_wf (t\<lparr>t_mouse_modes := m\<rparr>)" "term_wf (t\<lparr>t_focus_reporting_1004 := b\<rparr>)"
    "term_wf (t\<lparr>t_synchronized_output_active := b\<rparr>)" for m b
    using assms by (auto simp: term_wf_def split: option.splits)
  ultimately show ?thesis using assms by (simp add: private_mode_def keeps_inv)
qed

lemma csi_private_wf [keeps_inv]: "term_wf t \<Longrightarrow> term_wf (csi_private action pv t)"
  unfolding csi_private_def by (auto intro: fold_keeps [where P = term_wf] private_mode_wf)

lemma term_wf_region:
  assumes "term_wf t" and "\<not> t_wrap_pending t" and "a < b" and "b \<le> t_rows t"
  shows "term_wf (t\<lparr>t_scroll_top := a, t_scroll_bot := b, t_cursor_row := 0, t_cursor_col := 0\<rparr>)"
  using assms by (cases "t_alt_grid t") (simp_all add: term_wf_def region_ok_def)

lemma csi_set_region_wf [keeps_inv]:
  "term_wf t \<Longrightarrow> \<not> t_wrap_pending t \<Longrightarrow> term_wf (csi_set_region pv t)"
  unfolding csi_set_region_def Let_def
  by (rule if_split [where P = term_wf, THEN iffD2]) (blast intro: term_wf_region)

lemma respond_wf [keeps_inv]: "term_wf t \<Longrightarrow> term_wf (respond b t)"
  by (auto simp: respond_def term_wf_def split: option.splits)

lemma csi_action_wf:
  assumes wf: "term_wf t" and pending: "action \<notin> {CHR ''m'', CHR ''c'', CHR ''n'', CHR ''q''} \<Longrightarrow> \<not> t_wrap_pending t"
  shows "term_wf (csi_action pe pv im action t)"
proof -
  have steps: "term_wf (csi_erase_display pv t)" "term_wf (csi_erase_line pv t)"
    "term_wf (csi_insert_lines pv t)" "term_wf (csi_delete_lines pv t)"
    "term_wf ((scroll_up ^^ n) t)" "term_wf ((scroll_down ^^ n) t)"
    "term_wf (csi_insert_chars pv t)" "term_wf (csi_delete_chars pv t)" "term_wf (csi_erase_chars pv t)" for n
    by (rule screen_step_wf [OF _ wf], rule screen_steps)+
  have moves: "\<not> t_wrap_pending t \<Longrightarrow> term_wf (csi_position pv t)"
    "\<not> t_wrap_pending t \<Longrightarrow> c \<le> t_cols t - 1 \<Longrightarrow> term_wf (t\<lparr>t_cursor_col := c\<rparr>)"
    "r \<le> t_rows t - 1 \<Longrightarrow> term_wf (t\<lparr>t_cursor_row := r\<rparr>)" for r c
    using wf by (simp_all add: csi_position_def Let_def term_wf_cursor term_wf_cursor_row)
  have le: "t_cursor_row t - n \<le> t_rows t - 1" "t_cursor_col t - n \<le> t_cols t - 1" for n
    using term_wfD(5,6) [OF wf] by linarith+
  note pend = pending [simplified]
  show ?thesis
    unfolding csi_action_def
    by (intro if_split [where P = term_wf, THEN iffD2] conjI impI)
      (use wf steps moves pend le in \<open>auto simp: keeps_inv\<close>)
qed

lemma csi_dispatch_wf [keeps_inv]: "term_wf t \<Longrightarrow> term_wf (csi_dispatch pe params im action t)"
  unfolding csi_dispatch_def Let_def by (auto intro!: csi_action_wf keeps_inv)

lemma osc_dispatch_wf [keeps_inv]: "term_wf t \<Longrightarrow> term_wf (osc_dispatch params t)"
  by (auto simp: osc_dispatch_def term_wf_def split: option.splits)

lemma esc_dispatch_wf [keeps_inv]:
  assumes "term_wf t"
  shows "term_wf (esc_dispatch b t)"
proof -
  have "term_wf (t\<lparr>t_saved_cursor := s\<rparr>)" for s using assms by (auto simp: term_wf_def split: option.splits)
  moreover have "term_wf (scroll_down (clear_pending_wrap t))"
    by (rule screen_step_wf [OF scroll_down_step]) (simp add: assms keeps_inv)
  moreover have "t_cursor_row t - Suc 0 \<le> t_rows t - 1" using term_wfD(5) [OF assms] by linarith
  ultimately show ?thesis
    using assms by (simp add: esc_dispatch_def Let_def term_wf_cursor term_wf_cursor_row term_wf_clear_pending)
qed

lemma perform_wf [keeps_inv]: "term_wf t \<Longrightarrow> term_wf (perform pe a t)"
  by (cases a) (auto simp: keeps_inv)

section \<open>A chunk of bytes\<close>

text \<open>The callbacks of a chunk keep whatever every single callback keeps.\<close>

lemma feed_keeps:
  assumes "\<And>a t. P t \<Longrightarrow> P (perform pe a t)" and "P t"
  shows "P (snd (fold (\<lambda>b (p, t). case advance p b of (p', as) \<Rightarrow> (p', fold (perform pe) as t)) bytes (p, t)))"
  using assms(2)
proof (induction bytes arbitrary: p t)
  case (Cons b bytes)
  obtain p' as where "advance p b = (p', as)" by (cases "advance p b")
  moreover have "P (fold (perform pe) as t)" by (rule fold_keeps [where P = P]) (auto intro: assms(1) Cons.prems)
  ultimately show ?case by (simp add: Cons.IH)
qed simp

lemma term_wf_parser [simp]: "term_wf (t\<lparr>t_parser := p\<rparr>) = term_wf t"
  by (cases "t_alt_grid t") (simp_all add: term_wf_def)

lemma process_bytes_wf [keeps_inv]:
  assumes "term_wf t"
  shows "term_wf (process_bytes pd advance pe bytes t)"
proof -
  have "term_wf (snd (fold (\<lambda>b (p, t). case advance p b of (p', as) \<Rightarrow> (p', fold (perform pe) as t)) bytes
      (t_parser t, t\<lparr>t_parser := pd\<rparr>)))"
    by (rule feed_keeps) (auto simp: assms perform_wf)
  moreover have "term_wf u \<Longrightarrow>
      term_wf (u\<lparr>t_parser := p, t_grid := grid_set_cursor (t_grid u) a b\<rparr>)" for u :: "'a terminal" and p a b
    using screen_step_wf [OF screen_step_grid, of "u\<lparr>t_parser := p\<rparr>" "grid_set_cursor (t_grid u) a b"]
    by (simp add: grid_dim_set_cursor)
  ultimately show ?thesis by (simp add: process_bytes_def Let_def split_beta)
qed

lemma process_bytes_cursor:
  assumes "term_wf t"
  shows "grid_cursor (t_grid (process_bytes pd advance pe bytes t)) =
    (t_cursor_row (process_bytes pd advance pe bytes t), t_cursor_col (process_bytes pd advance pe bytes t))"
proof -
  let ?F = "fold (\<lambda>b (p, t). case advance p b of (p', as) \<Rightarrow> (p', fold (perform pe) as t)) bytes
      (t_parser t, t\<lparr>t_parser := pd\<rparr>)"
  have "term_wf (snd ?F)"
    by (rule feed_keeps) (auto simp: assms perform_wf)
  from term_wfD(3-6) [OF this] show ?thesis
    by (simp add: process_bytes_def Let_def split_beta grid_cursor_def grid_set_cursor_def)
qed

section \<open>Resizing\<close>

lemma grid_dim_shrink: "grid_dim R C g \<Longrightarrow> n \<le> R \<Longrightarrow> grid_dim R C (snd (grid_shrink_rows_from_top g n))"
  by (cases "C = 0") (auto simp: grid_dim_def grid_shrink_spec, simp add: grid_shrink_rows_from_top_def)

lemma grid_dim_grow: "grid_dim R C g \<Longrightarrow> grid_dim (R + n) C (grid_grow_rows_at_top g n lifted)"
  by (simp add: grid_dim_def grid_grow_spec)

lemma reflow_rows_frame:
  "t_rows (reflow_rows t rows b) = t_rows t" "t_cols (reflow_rows t rows b) = t_cols t"
  "t_alt_grid (reflow_rows t rows b) = t_alt_grid t"
  "t_scroll_top (reflow_rows t rows b) = t_scroll_top t"
  "t_scroll_bot (reflow_rows t rows b) = t_scroll_bot t"
  by (simp_all add: reflow_rows_def Let_def split_beta)

lemma reflow_rows_ok:
  assumes "grid_dim (t_rows t) (t_cols t) (t_grid t)" and "sb_wf (t_scrollback t)"
  shows "grid_wf (t_grid (reflow_rows t rows b))" and "sb_wf (t_scrollback (reflow_rows t rows b))"
proof -
  have "grid_wf (grid_grow_rows_at_top (t_grid t) n l)" for n l
    using grid_dim_grow [OF assms(1)] by (simp add: grid_dim_def)
  moreover have "n \<le> t_rows t \<Longrightarrow> grid_wf (snd (grid_shrink_rows_from_top (t_grid t) n))" for n
    using grid_dim_shrink [OF assms(1)] by (simp add: grid_dim_def)
  moreover have "grid_wf (t_grid t)" using assms(1) by (simp add: grid_dim_def)
  ultimately show "grid_wf (t_grid (reflow_rows t rows b))"
    by (simp add: reflow_rows_def Let_def split_beta)
  show "sb_wf (t_scrollback (reflow_rows t rows b))"
    using assms(2) sb.push_all_bounded [OF assms(2)] sb.pop_bounded [OF assms(2)]
    by (simp add: reflow_rows_def Let_def split_beta)
qed

lemma clamp_scroll_region_ok:
  assumes "region_ok (t_rows t0) (t_scroll_top t) (t_scroll_bot t)"
  shows "region_ok rows (t_scroll_top (clamp_scroll_region_after_resize t rows b))
    (t_scroll_bot (clamp_scroll_region_after_resize t rows b))"
  by (auto simp: clamp_scroll_region_after_resize_def region_ok_def)

lemma clamp_scroll_region_frame [simp]:
  "t_grid (clamp_scroll_region_after_resize t rows b) = t_grid t"
  "t_scrollback (clamp_scroll_region_after_resize t rows b) = t_scrollback t"
  "t_rows (clamp_scroll_region_after_resize t rows b) = t_rows t"
  "t_cols (clamp_scroll_region_after_resize t rows b) = t_cols t"
  "t_cursor_row (clamp_scroll_region_after_resize t rows b) = t_cursor_row t"
  "t_cursor_col (clamp_scroll_region_after_resize t rows b) = t_cursor_col t"
  "t_alt_grid (clamp_scroll_region_after_resize t rows b) = t_alt_grid t"
  "t_alt_saved_cursor (clamp_scroll_region_after_resize t rows b) = t_alt_saved_cursor t"
  by (simp_all add: clamp_scroll_region_after_resize_def)

lemma terminal_resize_wf [keeps_inv]:
  assumes "term_wf t"
  shows "term_wf (terminal_resize t rows cols)"
proof (cases "t_alt_grid t")
  case None
  let ?u = "reflow_rows t rows False"
  have u: "grid_wf (t_grid ?u)" "sb_wf (t_scrollback ?u)"
    using assms by (simp_all add: term_wf_def reflow_rows_ok)
  have "grid_dim rows cols (grid_resize (t_grid ?u) rows cols)" using u by auto
  then show ?thesis using None u clamp_scroll_region_ok
    by (simp add: terminal_resize_def Let_def term_wf_def reflow_rows_frame grid_dim_set_cursor)
      (simp add: clamp_scroll_region_after_resize_def region_ok_def)
next
  case (Some main)
  let ?t = "t\<lparr>t_alt_grid := Some (t_grid t), t_grid := main\<rparr>"
  let ?u = "reflow_rows ?t rows True"
  have u: "grid_wf (t_grid ?u)" "sb_wf (t_scrollback ?u)"
    using assms Some by (simp_all add: term_wf_def reflow_rows_ok)
  have g: "grid_wf (t_grid t)" using assms by (simp add: term_wf_def grid_dim_def)
  show ?thesis using Some u g
    by (simp add: terminal_resize_def Let_def term_wf_def swap_grids_def reflow_rows_frame
        grid_dim_set_cursor grid_dim_resize)
      (simp add: clamp_scroll_region_after_resize_def region_ok_def)
qed

section \<open>The emulator as a transition system\<close>

datatype term_op =
    Feed "u8 list"
  | Resize nat nat
  | Drain_Response

fun term_op_step ::
    "'p \<Rightarrow> ('p \<Rightarrow> u8 \<Rightarrow> 'p \<times> vte_action list) \<Rightarrow> bool \<Rightarrow> term_op \<Rightarrow> 'p terminal \<Rightarrow> 'p terminal" where
  "term_op_step pd advance pe (Feed bytes) t = process_bytes pd advance pe bytes t"
| "term_op_step pd advance pe (Resize rows cols) t = terminal_resize t rows cols"
| "term_op_step pd advance pe Drain_Response t = snd (take_pending_response t)"

lemma take_pending_response_wf [keeps_inv]: "term_wf t \<Longrightarrow> term_wf (snd (take_pending_response t))"
  by (cases "t_alt_grid t") (simp_all add: take_pending_response_def term_wf_def)

interpretation emulator: transition_system "term_op_step pd advance pe" term_wf "\<lambda>_. True" for pd advance pe
proof unfold_locales
  fix t :: "'a terminal" and a
  assume "term_wf t"
  then show "term_wf (term_op_step pd advance pe a t)" by (cases a) (auto simp: keeps_inv)
qed

end
