(* ===== verification/Terminal_Screen.thy ===== *)
theory Terminal_Screen
  imports Terminal_Inv
begin

text \<open>
  What the editing operations of the emulator do to the screen, seen row by row (\<open>grid_row\<close>) or
  cell by cell (\<open>grid_get\<close>): scrolling inside a region, inserting and deleting lines and
  characters, erasing, printing and wrapping. The loops of the code are reduced to the two
  in-place shifts of the prelude.
\<close>

section \<open>Rows\<close>

lemma grid_rowI:
  assumes "grid_wf g" and "r < g_rows g" and "length l = g_cols g"
    and "\<And>c. c < g_cols g \<Longrightarrow> grid_get g r c = Some (l ! c)"
  shows "grid_row g r = Some l"
proof -
  have "grid_lines g ! r = l"
  proof (rule nth_equalityI)
    show "length (grid_lines g ! r) = length l"
      using assms grid_lines_width [OF assms(1), of "grid_lines g ! r"] by simp
    fix c assume "c < length (grid_lines g ! r)"
    then have "c < g_cols g" using assms grid_lines_width [OF assms(1), of "grid_lines g ! r"] by simp
    then show "grid_lines g ! r ! c = l ! c"
      using assms(4) [of c] assms(1,2) by (simp add: grid_get_lines)
  qed
  with assms(2) show ?thesis by (simp add: grid_row_eq)
qed

lemma grid_row_None [simp]: "g_rows g \<le> r \<Longrightarrow> grid_row g r = None"
  by (simp add: grid_row_def)

lemma grid_row_lengthD: "grid_wf g \<Longrightarrow> grid_row g r = Some l \<Longrightarrow> length l = g_cols g"
  by (cases "r < g_rows g") (auto simp: grid_row_eq grid_lines_width)

lemma grid_get_row:
  "grid_wf g \<Longrightarrow> grid_get g r c = Option.bind (grid_row g r) (\<lambda>l. nth_opt l c)"
  by (cases "r < g_rows g") (auto simp: grid_row_eq grid_get_lines nth_opt_def grid_lines_width)

lemma grid_lines_rows: "map Some (grid_lines g) = map (grid_row g) [0..<g_rows g]"
  by (rule nth_equalityI) (auto simp: grid_row_eq)

definition screen_dim :: "'p terminal \<Rightarrow> bool" where
  "screen_dim t \<longleftrightarrow> grid_dim (t_rows t) (t_cols t) (t_grid t)"

lemma screen_dim_step: "screen_step t t' \<Longrightarrow> screen_dim t \<Longrightarrow> screen_dim t'"
  by (erule screen_stepE) (simp add: screen_dim_def)

lemma term_wf_screen_dim: "term_wf t \<Longrightarrow> screen_dim t"
  by (simp add: screen_dim_def term_wf_def)

lemma screen_dimD:
  assumes "screen_dim t"
  shows "grid_wf (t_grid t)" "g_rows (t_grid t) = t_rows t" "g_cols (t_grid t) = t_cols t"
  using assms by (auto simp: screen_dim_def grid_dim_def)

lemma grid_get_new_row:
  "screen_dim t \<Longrightarrow> screen_dim t' \<Longrightarrow> t_rows t' = t_rows t \<Longrightarrow> t_cols t' = t_cols t \<Longrightarrow>
    (grid_get (t_grid t') r c = None) = (grid_get (t_grid t) r c = None)"
  by (simp add: screen_dimD grid_get_None_iff)

lemma copy_row_get:
  assumes dim: "screen_dim t" and "dst < t_rows t" and "src < t_rows t" and "dst \<noteq> src"
  shows "grid_get (t_grid (copy_row t dst src)) i j =
    (if i = dst then grid_get (t_grid t) src j else grid_get (t_grid t) i j)"
proof (cases "j < t_cols t")
  case True
  with assms screen_dimD [OF dim] grid_get_None_iff [OF screen_dimD(1) [OF dim]] show ?thesis
    by (auto simp: copy_row_def grid_store.get_copy_row split: option.splits)
next
  case False
  with screen_dimD [OF dim] screen_dimD [OF screen_dim_step [OF copy_row_step dim]] show ?thesis
    by (auto simp: grid_get_def)
qed

lemma copy_row_rows:
  assumes dim: "screen_dim t" and "dst < t_rows t" and "src < t_rows t" and "dst \<noteq> src"
  shows "grid_row (t_grid (copy_row t dst src)) =
    (grid_row (t_grid t))(dst := grid_row (t_grid t) src)"
proof
  fix r
  note dim' = screen_dim_step [OF copy_row_step dim, of dst src]
  note D = screen_dimD [OF dim] and D' = screen_dimD [OF dim']
  let ?s = "if r = dst then src else r"
  show "grid_row (t_grid (copy_row t dst src)) r =
      ((grid_row (t_grid t))(dst := grid_row (t_grid t) src)) r"
  proof (cases "r < t_rows t")
    case True
    then have s: "?s < t_rows t" using assms by simp
    have "grid_row (t_grid (copy_row t dst src)) r = Some (grid_lines (t_grid t) ! ?s)"
      using True s D D' assms by (intro grid_rowI) (auto simp: copy_row_get [OF assms] grid_lines_width grid_get_lines [OF D(1)])
    with s D show ?thesis by (simp add: grid_row_eq split: if_splits)
  qed (use assms D D' in auto)
qed

lemma clear_row_rows:
  assumes dim: "screen_dim t" and "row < t_rows t"
  shows "grid_row (t_grid (clear_row t row)) =
    (grid_row (t_grid t))(row := Some (replicate (t_cols t) (blank_cell t)))"
proof
  fix r
  note dim' = screen_dim_step [OF clear_row_step dim, of row]
  note D = screen_dimD [OF dim] and D' = screen_dimD [OF dim']
  have get: "grid_get (t_grid (clear_row t row)) i j =
      (if i = row \<and> j < t_cols t then Some (blank_cell t) else grid_get (t_grid t) i j)" for i j
    using assms D by (auto simp: clear_row_def grid_store.get_fill_row grid_get_None_iff)
  show "grid_row (t_grid (clear_row t row)) r =
      ((grid_row (t_grid t))(row := Some (replicate (t_cols t) (blank_cell t)))) r"
  proof (cases "r < t_rows t")
    case True
    have "grid_row (t_grid (clear_row t row)) r =
        Some (if r = row then replicate (t_cols t) (blank_cell t) else grid_lines (t_grid t) ! r)"
      using True D D' by (intro grid_rowI) (auto simp: get grid_lines_width grid_get_lines [OF D(1)])
    with True D show ?thesis by (simp add: grid_row_eq)
  qed (use assms D D' in auto)
qed

lemma clear_row_blank: "screen_step t t' \<Longrightarrow> blank_cell t' = blank_cell t"
  by (simp add: blank_cell_def screen_step_frame)

text \<open>The two row loops, and clearing a range of rows.\<close>

lemma copy_rows_up:
  assumes dim: "screen_dim t" and "b + n \<le> t_rows t" and "0 < n"
  shows "grid_row (t_grid (fold (\<lambda>row t. copy_row t row (row + n)) [a..<b] t)) =
    (\<lambda>r. if a \<le> r \<and> r < b then grid_row (t_grid t) (r + n) else grid_row (t_grid t) r)"
proof -
  have "grid_row (t_grid (fold (\<lambda>row t. copy_row t row (row + n)) [a..<b] t)) =
      fold (\<lambda>i R. R(i := R (i + n))) [a..<b] (grid_row (t_grid t))"
    by (rule fold_abstract [where P = "screen_step t"])
      (use assms in \<open>auto simp: copy_row_rows screen_dim_step screen_step_frame
        intro: screen_step_trans copy_row_step\<close>)
  then show ?thesis by (simp add: fold_shift_down)
qed

lemma copy_rows_down:
  assumes dim: "screen_dim t" and "b \<le> t_rows t" and "0 < n" and "n \<le> a"
  shows "grid_row (t_grid (fold (\<lambda>row t. copy_row t row (row - n)) (rev [a..<b]) t)) =
    (\<lambda>r. if a \<le> r \<and> r < b then grid_row (t_grid t) (r - n) else grid_row (t_grid t) r)"
proof -
  have "grid_row (t_grid (fold (\<lambda>row t. copy_row t row (row - n)) (rev [a..<b]) t)) =
      fold (\<lambda>i R. R(i := R (i - n))) (rev [a..<b]) (grid_row (t_grid t))"
    by (rule fold_abstract [where P = "screen_step t"])
      (use assms in \<open>auto simp: copy_row_rows screen_dim_step screen_step_frame
        intro: screen_step_trans copy_row_step\<close>)
  then show ?thesis by (simp add: fold_shift_up)
qed

lemma clear_rows:
  assumes dim: "screen_dim t" and "b \<le> t_rows t"
  shows "grid_row (t_grid (fold (\<lambda>row t. clear_row t row) [a..<b] t)) =
    (\<lambda>r. if a \<le> r \<and> r < b then Some (replicate (t_cols t) (blank_cell t)) else grid_row (t_grid t) r)"
proof -
  have "grid_row (t_grid (fold (\<lambda>row t. clear_row t row) [a..<b] t)) =
      fold (\<lambda>i R. R(i := Some (replicate (t_cols t) (blank_cell t)))) [a..<b] (grid_row (t_grid t))"
    by (rule fold_abstract [where P = "screen_step t"])
      (use assms in \<open>auto simp: clear_row_rows screen_dim_step screen_step_frame clear_row_blank
        intro: screen_step_trans clear_row_step\<close>)
  then show ?thesis by (simp add: fold_set_range fun_eq_iff)
qed

section \<open>Scrolling a region\<close>

lemma scroll_up_rows:
  assumes dim: "screen_dim t" and reg: "t_scroll_top t < t_scroll_bot t" "t_scroll_bot t \<le> t_rows t"
    and part: "\<not> region_is_full_screen t"
  shows "grid_row (t_grid (scroll_up t)) r =
    (if t_scroll_top t \<le> r \<and> r + 1 < t_scroll_bot t then grid_row (t_grid t) (r + 1)
     else if r + 1 = t_scroll_bot t then Some (replicate (t_cols t) (blank_cell t))
     else grid_row (t_grid t) r)"
proof -
  let ?a = "t_scroll_top t" and ?b = "t_scroll_bot t"
  define t1 where "t1 = (if ?a = 0 \<and> t_alt_grid t = None
             then t\<lparr>t_scrollback := sb_push (t_scrollback t)
                    (List.map_filter (grid_get (t_grid t) ?a) [0..<t_cols t])\<rparr>
             else t)"
  define t2 where "t2 = fold (\<lambda>row t. copy_row t row (row + 1)) [?a..<?b - 1] t1"
  have s1: "screen_step t t1" by (auto simp: t1_def intro!: screen_step_scrollback simp: keeps_inv)
  note d1 = screen_dim_step [OF s1 dim] and f1 = screen_step_frame [OF s1]
  have s2: "screen_step t1 t2" unfolding t2_def by (rule screen_step_fold [OF copy_row_step])
  note d2 = screen_dim_step [OF s2 d1] and f2 = screen_step_frame [OF s2]
  have eq: "scroll_up t = clear_row t2 (?b - 1)"
    using reg part by (simp add: scroll_up_def Let_def t1_def t2_def)
  have "grid_row (t_grid (scroll_up t)) =
      (grid_row (t_grid t2))(?b - 1 := Some (replicate (t_cols t2) (blank_cell t2)))"
    unfolding eq using reg by (intro clear_row_rows d2) (simp add: f1 f2)
  moreover have "grid_row (t_grid t2) = (\<lambda>r. if ?a \<le> r \<and> r < ?b - 1
      then grid_row (t_grid t1) (r + 1) else grid_row (t_grid t1) r)"
    unfolding t2_def using reg by (intro copy_rows_up d1) (simp_all add: f1)
  moreover have "grid_row (t_grid t1) = grid_row (t_grid t)" by (simp add: t1_def)
  moreover have "t_cols t2 = t_cols t" "blank_cell t2 = blank_cell t"
    by (simp_all add: f1 f2 blank_cell_def)
  ultimately show ?thesis using reg by auto
qed

lemma scroll_down_rows:
  assumes dim: "screen_dim t" and reg: "t_scroll_top t < t_scroll_bot t" "t_scroll_bot t \<le> t_rows t"
  shows "grid_row (t_grid (scroll_down t)) r =
    (if r = t_scroll_top t then Some (replicate (t_cols t) (blank_cell t))
     else if t_scroll_top t < r \<and> r < t_scroll_bot t then grid_row (t_grid t) (r - 1)
     else grid_row (t_grid t) r)"
proof -
  let ?a = "t_scroll_top t" and ?b = "t_scroll_bot t"
  define t1 where "t1 = fold (\<lambda>row t. copy_row t row (row - 1)) (rev [?a + 1..<?b]) t"
  have s1: "screen_step t t1" unfolding t1_def by (rule screen_step_fold [OF copy_row_step])
  note d1 = screen_dim_step [OF s1 dim] and f1 = screen_step_frame [OF s1]
  have eq: "scroll_down t = clear_row t1 ?a"
    using reg by (simp add: scroll_down_def Let_def t1_def)
  have "grid_row (t_grid (scroll_down t)) =
      (grid_row (t_grid t1))(?a := Some (replicate (t_cols t1) (blank_cell t1)))"
    unfolding eq using reg by (intro clear_row_rows d1) (simp add: f1)
  moreover have "grid_row (t_grid t1) = (\<lambda>r. if ?a + 1 \<le> r \<and> r < ?b
      then grid_row (t_grid t) (r - 1) else grid_row (t_grid t) r)"
    unfolding t1_def using reg by (intro copy_rows_down dim) simp_all
  ultimately show ?thesis using reg by (auto simp: f1 clear_row_blank [OF s1])
qed

section \<open>Inserting and deleting lines\<close>

lemma csi_p0_pos [simp]: "0 < csi_p0 pv"
  by (simp add: csi_p0_def csi_p_def Let_def unat_gt_0)

lemma insert_lines_rows:
  assumes dim: "screen_dim t"
    and reg: "t_scroll_top t \<le> t_cursor_row t" "t_cursor_row t < t_scroll_bot t" "t_scroll_bot t \<le> t_rows t"
    and n: "n = min (csi_p0 pv) (t_scroll_bot t - t_cursor_row t)"
  shows "grid_row (t_grid (csi_insert_lines pv t)) r =
    (if r < t_cursor_row t \<or> t_scroll_bot t \<le> r then grid_row (t_grid t) r
     else if r < t_cursor_row t + n then Some (replicate (t_cols t) (blank_cell t))
     else grid_row (t_grid t) (r - n))"
proof -
  let ?c = "t_cursor_row t" and ?b = "t_scroll_bot t"
  have n0: "0 < n" "?c + n \<le> ?b" using n reg csi_p0_pos [of pv] by (auto simp del: csi_p0_pos)
  define t1 where "t1 = fold (\<lambda>row t. copy_row t row (row - n)) (rev [?c + n..<?b]) t"
  have s1: "screen_step t t1" unfolding t1_def by (rule screen_step_fold [OF copy_row_step])
  note d1 = screen_dim_step [OF s1 dim] and f1 = screen_step_frame [OF s1]
  have eq: "csi_insert_lines pv t = fold (\<lambda>row t. clear_row t row) [?c..<?c + n] t1"
    using reg n0 by (simp add: csi_insert_lines_def Let_def n [symmetric] t1_def)
  have "grid_row (t_grid (csi_insert_lines pv t)) = (\<lambda>r. if ?c \<le> r \<and> r < ?c + n
      then Some (replicate (t_cols t1) (blank_cell t1)) else grid_row (t_grid t1) r)"
    unfolding eq using reg n0 by (intro clear_rows d1) (simp add: f1)
  moreover have "grid_row (t_grid t1) = (\<lambda>r. if ?c + n \<le> r \<and> r < ?b
      then grid_row (t_grid t) (r - n) else grid_row (t_grid t) r)"
    unfolding t1_def using reg n0 by (intro copy_rows_down dim) simp_all
  ultimately show ?thesis using reg n0 by (auto simp: f1 clear_row_blank [OF s1])
qed

lemma delete_lines_rows:
  assumes dim: "screen_dim t"
    and reg: "t_scroll_top t \<le> t_cursor_row t" "t_cursor_row t < t_scroll_bot t" "t_scroll_bot t \<le> t_rows t"
    and n: "n = min (csi_p0 pv) (t_scroll_bot t - t_cursor_row t)"
  shows "grid_row (t_grid (csi_delete_lines pv t)) r =
    (if r < t_cursor_row t \<or> t_scroll_bot t \<le> r then grid_row (t_grid t) r
     else if r + n < t_scroll_bot t then grid_row (t_grid t) (r + n)
     else Some (replicate (t_cols t) (blank_cell t)))"
proof -
  let ?c = "t_cursor_row t" and ?b = "t_scroll_bot t"
  have n0: "0 < n" "?c + n \<le> ?b" using n reg csi_p0_pos [of pv] by (auto simp del: csi_p0_pos)
  define t1 where "t1 = fold (\<lambda>row t. copy_row t row (row + n)) [?c..<?b - n] t"
  have s1: "screen_step t t1" unfolding t1_def by (rule screen_step_fold [OF copy_row_step])
  note d1 = screen_dim_step [OF s1 dim] and f1 = screen_step_frame [OF s1]
  have eq: "csi_delete_lines pv t = fold (\<lambda>row t. clear_row t row) [?b - n..<?b] t1"
    using reg n0 by (simp add: csi_delete_lines_def Let_def n [symmetric] t1_def)
  have "grid_row (t_grid (csi_delete_lines pv t)) = (\<lambda>r. if ?b - n \<le> r \<and> r < ?b
      then Some (replicate (t_cols t1) (blank_cell t1)) else grid_row (t_grid t1) r)"
    unfolding eq using reg n0 by (intro clear_rows d1) (simp add: f1)
  moreover have "grid_row (t_grid t1) = (\<lambda>r. if ?c \<le> r \<and> r < ?b - n
      then grid_row (t_grid t) (r + n) else grid_row (t_grid t) r)"
    unfolding t1_def using reg n0 by (intro copy_rows_up dim) simp_all
  ultimately show ?thesis using reg n0 by (auto simp: f1 clear_row_blank [OF s1])
qed

section \<open>Characters of the cursor row\<close>

text \<open>The two in-place shifts of a row, then the blank cells.\<close>

lemma insert_chars_get:
  assumes dim: "screen_dim t" and cur: "t_cursor_row t < t_rows t" "t_cursor_col t < t_cols t"
    and n: "n = min (csi_p0 pv) (t_cols t - t_cursor_col t)"
  shows "grid_get (t_grid (csi_insert_chars pv t)) r c =
    (if r \<noteq> t_cursor_row t \<or> c < t_cursor_col t \<or> t_cols t \<le> c then grid_get (t_grid t) r c
     else if c < t_cursor_col t + n then Some (blank_cell t)
     else grid_get (t_grid t) r (c - n))"
proof -
  let ?r = "t_cursor_row t" and ?k = "t_cursor_col t" and ?g = "t_grid t"
  note D = screen_dimD [OF dim]
  define g where "g = fold (\<lambda>col g. case grid_get g ?r (col - n) of Some x \<Rightarrow> grid_set g ?r col x | None \<Rightarrow> g)
      (rev [?k + n..<t_cols t]) ?g"
  have wf: "grid_wf g" unfolding g_def by (rule grid_store.move_cells_inv) (rule D(1))
  have eq: "t_grid (csi_insert_chars pv t) = fold (\<lambda>col g. grid_set g ?r col (blank_cell t)) [?k..<?k + n] g"
    by (simp add: csi_insert_chars_def Let_def n [symmetric] g_def)
  have row: "grid_get g ?r = (\<lambda>c. if ?k + n \<le> c \<and> c < t_cols t
      then grid_get ?g ?r (c - n) else grid_get ?g ?r c)"
  proof -
    have "grid_get g ?r = fold (\<lambda>c R. R(c := R (c - n))) (rev [?k + n..<t_cols t]) (grid_get ?g ?r)"
      unfolding g_def
      by (rule grid_store.get_move_cells) (use D cur in \<open>auto simp: grid_get_None_iff\<close>)
    then show ?thesis by (simp add: fold_shift_up)
  qed
  have other: "r \<noteq> ?r \<Longrightarrow> grid_get g r c = grid_get ?g r c"
    unfolding g_def by (rule grid_store.get_move_cells_other) (use D in auto)
  have "grid_get (t_grid (csi_insert_chars pv t)) r c =
      (if r = ?r \<and> c \<in> set [?k..<?k + n] \<and> grid_get g r c \<noteq> None then Some (blank_cell t) else grid_get g r c)"
    unfolding eq by (rule grid_store.get_fill_row [OF wf])
  moreover have "c < t_cols t \<Longrightarrow> grid_get ?g ?r c \<noteq> None" using D cur by (simp add: grid_get_None_iff)
  moreover have "?k + n \<le> t_cols t" using n cur by simp
  ultimately show ?thesis using row other by (cases "r = ?r") auto
qed

lemma delete_chars_get:
  assumes dim: "screen_dim t" and cur: "t_cursor_row t < t_rows t" "t_cursor_col t < t_cols t"
    and n: "n = min (csi_p0 pv) (t_cols t - t_cursor_col t)"
  shows "grid_get (t_grid (csi_delete_chars pv t)) r c =
    (if r \<noteq> t_cursor_row t \<or> c < t_cursor_col t \<or> t_cols t \<le> c then grid_get (t_grid t) r c
     else if c + n < t_cols t then grid_get (t_grid t) r (c + n)
     else Some (blank_cell t))"
proof -
  let ?r = "t_cursor_row t" and ?k = "t_cursor_col t" and ?g = "t_grid t"
  note D = screen_dimD [OF dim]
  define g where "g = fold (\<lambda>col g. case grid_get g ?r (col + n) of Some x \<Rightarrow> grid_set g ?r col x | None \<Rightarrow> g)
      [?k..<t_cols t - n] ?g"
  have wf: "grid_wf g" unfolding g_def by (rule grid_store.move_cells_inv) (rule D(1))
  have eq: "t_grid (csi_delete_chars pv t) =
      fold (\<lambda>col g. grid_set g ?r col (blank_cell t)) [t_cols t - n..<t_cols t] g"
    by (simp add: csi_delete_chars_def Let_def n [symmetric] g_def)
  have row: "grid_get g ?r = (\<lambda>c. if ?k \<le> c \<and> c < t_cols t - n
      then grid_get ?g ?r (c + n) else grid_get ?g ?r c)"
  proof -
    have "grid_get g ?r = fold (\<lambda>c R. R(c := R (c + n))) [?k..<t_cols t - n] (grid_get ?g ?r)"
      unfolding g_def
      by (rule grid_store.get_move_cells) (use D cur in \<open>auto simp: grid_get_None_iff\<close>)
    then show ?thesis by (simp add: fold_shift_down)
  qed
  have other: "r \<noteq> ?r \<Longrightarrow> grid_get g r c = grid_get ?g r c"
    unfolding g_def by (rule grid_store.get_move_cells_other) (use D in auto)
  have "grid_get (t_grid (csi_delete_chars pv t)) r c =
      (if r = ?r \<and> c \<in> set [t_cols t - n..<t_cols t] \<and> grid_get g r c \<noteq> None
       then Some (blank_cell t) else grid_get g r c)"
    unfolding eq by (rule grid_store.get_fill_row [OF wf])
  moreover have "c < t_cols t \<Longrightarrow> grid_get ?g ?r c \<noteq> None" for c using D cur by (simp add: grid_get_None_iff)
  moreover have "?k + n \<le> t_cols t" using n cur by simp
  ultimately show ?thesis using row other by (cases "r = ?r") (auto simp: not_less)
qed

lemma erase_chars_get:
  assumes dim: "screen_dim t"
  shows "grid_get (t_grid (csi_erase_chars pv t)) r c =
    (if r = t_cursor_row t \<and> t_cursor_col t \<le> c \<and> c < t_cursor_col t + csi_p0 pv
        \<and> r < t_rows t \<and> c < t_cols t
     then Some (blank_cell t) else grid_get (t_grid t) r c)"
  using screen_dimD [OF dim]
  by (auto simp: csi_erase_chars_def Let_def grid_store.get_fill_row grid_get_None_iff)

section \<open>Erasing\<close>

lemma clear_region_get:
  assumes dim: "screen_dim t"
  shows "grid_get (t_grid (clear_region t r0 c0 r1 c1)) r c =
    (if r0 \<le> r \<and> r \<le> r1 \<and> c0 \<le> c \<and> c \<le> c1 \<and> r < t_rows t \<and> c < t_cols t
     then Some (blank_cell t) else grid_get (t_grid t) r c)"
proof -
  note D = screen_dimD [OF dim]
  let ?rs = "[r0..<min r1 (t_rows t - 1) + 1]" and ?cs = "[c0..<min c1 (t_cols t - 1) + 1]"
  have "grid_get (t_grid (clear_region t r0 c0 r1 c1)) r c =
      (if r \<in> set ?rs \<and> c \<in> set ?cs \<and> grid_get (t_grid t) r c \<noteq> None
       then Some (blank_cell t) else grid_get (t_grid t) r c)"
    unfolding clear_region_def Let_def
    using grid_store.get_fill_block [OF D(1), of "blank_cell t" ?cs ?rs r c]
    by (simp del: upt_Suc add: Suc_eq_plus1 [symmetric])
  moreover have "grid_get (t_grid t) r c \<noteq> None \<longleftrightarrow> r < t_rows t \<and> c < t_cols t"
    using D by (simp add: grid_get_None_iff)
  moreover have "r < t_rows t \<Longrightarrow> r \<in> set ?rs \<longleftrightarrow> r0 \<le> r \<and> r \<le> r1"
    and "c < t_cols t \<Longrightarrow> c \<in> set ?cs \<longleftrightarrow> c0 \<le> c \<and> c \<le> c1"
    by (auto simp del: upt_Suc)
  ultimately show ?thesis by (simp only:) (auto simp del: upt_Suc)
qed

lemmas clear_region_frame [simp] = screen_step_frame [OF clear_region_step]

lemma clear_region_dim [simp]: "screen_dim t \<Longrightarrow> screen_dim (clear_region t a b c d)"
  by (rule screen_dim_step [OF clear_region_step])

lemma clear_region_blank [simp]: "blank_cell (clear_region t a b c d) = blank_cell t"
  by (rule clear_row_blank [OF clear_region_step])

section \<open>Printing\<close>

definition pen_cell :: "'p terminal \<Rightarrow> rchar \<Rightarrow> cell" where
  "pen_cell t c = \<lparr>c_ch = c, c_fg = t_fg t, c_bg = t_bg t, c_attrs = t_attrs t\<rparr>"

text \<open>A character printed with no wrap pending.\<close>

lemma put_char_here:
  assumes "term_wf t" and "0 < t_rows t" and "0 < t_cols t" and "\<not> t_wrap_pending t"
  shows "put_char t c = t\<lparr>t_grid := grid_set (t_grid t) (t_cursor_row t) (t_cursor_col t) (pen_cell t c),
      t_cursor_col := min (t_cursor_col t + 1) (t_cols t - 1),
      t_wrap_pending := t_cursor_col t + 1 = t_cols t\<rparr>"
  using assms term_wfD(6) [OF assms(1)]
  by (auto simp: put_char_def Let_def prepare_for_printable_def pen_cell_def min_def)

lemma put_char_pending:
  assumes "t_wrap_pending t" and "0 < t_rows t" and "0 < t_cols t"
  shows "put_char t c = put_char (wrap_to_next_line t) c"
proof -
  have "\<not> t_wrap_pending (wrap_to_next_line t)" "t_rows (wrap_to_next_line t) = t_rows t"
    "t_cols (wrap_to_next_line t) = t_cols t"
    by (simp_all add: wrap_to_next_line_def Let_def)
  with assms show ?thesis by (simp add: put_char_def prepare_for_printable_def)
qed

lemma grid_set_row:
  assumes "grid_wf g" and "grid_row g r = Some l" and "c < g_cols g"
  shows "grid_row (grid_set g r c x) = (grid_row g)(r := Some (l[c := x]))"
proof
  fix i
  have r: "r < g_rows g" using assms(2) by (auto simp: grid_row_def split: if_splits)
  have l: "l = grid_lines g ! r" using assms(2) r by (simp add: grid_row_eq)
  have w: "length l = g_cols g" by (rule grid_row_lengthD [OF assms(1,2)])
  show "grid_row (grid_set g r c x) i = ((grid_row g)(r := Some (l[c := x]))) i"
  proof (cases "i < g_rows g")
    case True
    have "grid_row (grid_set g r c x) i = Some (if i = r then l[c := x] else grid_lines g ! i)"
      using True w r assms(1,3) keeps_inv
      by (intro grid_rowI) (auto simp: grid_get_set grid_get_lines [OF assms(1)] l nth_list_update grid_lines_width)
    with True show ?thesis by (simp add: grid_row_eq)
  qed (use r in auto)
qed

text \<open>Printing a run that fits on the line.\<close>

lemma print_run_rows:
  assumes "term_wf t" and "0 < t_rows t" and "\<not> t_wrap_pending t" and "s \<noteq> []"
    and "t_cursor_col t + length s \<le> t_cols t"
    and "grid_row (t_grid t) (t_cursor_row t) = Some l"
  shows "grid_row (t_grid (fold (\<lambda>c t. put_char t c) s t)) =
      (grid_row (t_grid t))(t_cursor_row t := Some (take (t_cursor_col t) l @ map (pen_cell t) s @
         drop (t_cursor_col t + length s) l))
    \<and> t_cursor_row (fold (\<lambda>c t. put_char t c) s t) = t_cursor_row t
    \<and> t_cursor_col (fold (\<lambda>c t. put_char t c) s t) = min (t_cursor_col t + length s) (t_cols t - 1)
    \<and> t_wrap_pending (fold (\<lambda>c t. put_char t c) s t) = (t_cursor_col t + length s = t_cols t)
    \<and> t_scrollback (fold (\<lambda>c t. put_char t c) s t) = t_scrollback t"
  using assms
proof (induction s arbitrary: t l)
  case (Cons c s)
  let ?k = "t_cursor_col t" and ?r = "t_cursor_row t"
  note D = term_wfD [OF Cons.prems(1)]
  have k: "?k < t_cols t" using Cons.prems(5) by simp
  have eq: "put_char t c = t\<lparr>t_grid := grid_set (t_grid t) ?r ?k (pen_cell t c),
      t_cursor_col := min (?k + 1) (t_cols t - 1), t_wrap_pending := ?k + 1 = t_cols t\<rparr>"
    using Cons.prems k by (intro put_char_here) auto
  have row: "grid_row (grid_set (t_grid t) ?r ?k (pen_cell t c)) =
      (grid_row (t_grid t))(?r := Some (l[?k := pen_cell t c]))"
    by (rule grid_set_row) (use D k Cons.prems in auto)
  have w: "length l = t_cols t" using grid_row_lengthD [OF D(2) Cons.prems(6)] D by simp
  have upd: "l[?k := x] = take ?k l @ x # drop (Suc ?k) l" for x using k w by (simp add: upd_conv_take_nth_drop)
  have pc: "pen_cell (put_char t c) = pen_cell t" by (simp add: eq pen_cell_def fun_eq_iff)
  show ?case
  proof (cases "s = []")
    case True
    then show ?thesis using k by (auto simp: eq row upd)
  next
    case False
    then have k1: "?k + 1 < t_cols t" using Cons.prems(5) by (cases s) auto
    have wf': "term_wf (put_char t c)" by (rule put_char_wf [OF Cons.prems(1)])
    have f: "t_rows (put_char t c) = t_rows t" "t_cols (put_char t c) = t_cols t"
      "t_cursor_row (put_char t c) = ?r" "t_cursor_col (put_char t c) = ?k + 1"
      "\<not> t_wrap_pending (put_char t c)" "t_scrollback (put_char t c) = t_scrollback t"
      "t_grid (put_char t c) = grid_set (t_grid t) ?r ?k (pen_cell t c)"
      using k1 by (simp_all add: eq)
    have tk: "take (Suc ?k) (l[?k := x]) = take ?k l @ [x]" for x
      using k w by (simp add: upd)
    have dr: "drop (Suc ?k + n) (l[?k := x]) = drop (Suc ?k + n) l" for x n by simp
    show ?thesis
      using Cons.IH [OF wf', of "l[?k := pen_cell t c]"] Cons.prems(2,5) False tk
      by (simp add: f row pc fun_eq_iff)
  qed
qed simp

end
