(* ===== verification/Terminal_Props.thy ===== *)
theory Terminal_Props
  imports Terminal_Screen
begin

text \<open>
  The properties of the emulator: what every run keeps, what printing, scrolling, editing and
  erasing do, that the alternate screen leaves the main one alone, that resizing loses nothing it
  need not lose, and that SGR reads its parameters as a stream.
\<close>

section \<open>The full-screen scroll and the history\<close>

lemma scroll_up_full:
  assumes wf: "term_wf t" and full: "region_is_full_screen t" and dims: "0 < t_rows t" "0 < t_cols t"
  shows "grid_lines (t_grid (scroll_up t)) = tl (grid_lines (t_grid t)) @ [replicate (t_cols t) BLANK]"
    and "t_scrollback (scroll_up t) =
      (if t_alt_grid t = None then sb_push (t_scrollback t) (hd (grid_lines (t_grid t))) else t_scrollback t)"
proof -
  note D = term_wfD [OF wf]
  let ?gl = "grid_lines (t_grid t)"
  have ne: "?gl \<noteq> []" using D dims by (simp flip: length_0_conv)
  then have "length (hd ?gl) = t_cols t" using grid_lines_width [OF D(2), of "hd ?gl"] D by simp
  then have hd: "hd ?gl \<noteq> []" using dims by auto
  have up: "scroll_up t = scroll_up_and_capture t"
    using full dims D(7) by (simp add: scroll_up_def region_ok_def)
  have sp: "fst (grid_scroll_up (t_grid t)) = hd ?gl"
    "grid_lines (snd (grid_scroll_up (t_grid t))) = tl ?gl @ [replicate (t_cols t) BLANK]"
    using grid_scroll_up_spec [OF D(2)] dims D by simp_all
  show "grid_lines (t_grid (scroll_up t)) = tl ?gl @ [replicate (t_cols t) BLANK]"
    and "t_scrollback (scroll_up t) =
      (if t_alt_grid t = None then sb_push (t_scrollback t) (hd ?gl) else t_scrollback t)"
    using sp hd by (simp_all add: up scroll_up_and_capture_def split_beta Let_def)
qed

lemma region_is_full_screen_step: "screen_step t t' \<Longrightarrow> region_is_full_screen t' = region_is_full_screen t"
  by (simp add: region_is_full_screen_def screen_step_frame)

text \<open>
  The emulator's log: the history followed by the screen. A full-screen scroll moves the window
  over the log down by one, and only the bound of the history loses lines.
\<close>

text \<open>C2: scrolling the whole main screen \<open>n\<close> times, for any \<open>n\<close>: the screen shows the log shifted
by \<open>n\<close> lines, with blank lines coming in at the bottom, and the history is exactly the newest lines
of what it held followed by the \<open>n\<close> lines that left, in order; nothing is lost below the bound.\<close>

theorem scroll_up_keeps_history:
  assumes "term_wf t" and "region_is_full_screen t" and "0 < t_rows t" and "0 < t_cols t"
    and "t_alt_grid t = None"
  shows "grid_lines (t_grid ((scroll_up ^^ n) t)) =
      drop n (grid_lines (t_grid t) @ replicate n (replicate (t_cols t) BLANK))
    \<and> sb_lines (t_scrollback ((scroll_up ^^ n) t)) =
        newest (sb_max_lines (t_scrollback t)) (sb_lines (t_scrollback t) @
          take n (grid_lines (t_grid t) @ replicate n (replicate (t_cols t) BLANK)))"
proof (induction n)
  case 0
  have "length (sb_lines (t_scrollback t)) \<le> sb_max_lines (t_scrollback t)"
    using term_wfD(8) [OF assms(1)] by (simp add: sb_wf_def)
  then show ?case by simp
next
  case (Suc n)
  let ?u = "(scroll_up ^^ n) t" and ?b = "replicate (t_cols t) BLANK"
  let ?m = "sb_max_lines (t_scrollback t)"
  have step: "screen_step t ?u" by (rule screen_step_funpow [OF scroll_up_step])
  note F = screen_step_frame [OF step]
  have wf: "term_wf ?u" by (rule screen_step_wf [OF step assms(1)])
  have full: "region_is_full_screen ?u" using assms(2) by (simp add: region_is_full_screen_step [OF step])
  note U = scroll_up_full [OF wf full, unfolded F, OF assms(3,4)]
  define fl where "fl = grid_lines (t_grid t) @ replicate n ?b"
  have fl': "grid_lines (t_grid t) @ replicate (Suc n) ?b = fl @ [?b]"
    by (simp add: fl_def replicate_append_same)
  have len: "n < length fl" using term_wfD(3) [OF assms(1)] assms(3) by (simp add: fl_def)
  have IH: "grid_lines (t_grid ?u) = drop n fl"
    "sb_lines (t_scrollback ?u) = newest ?m (sb_lines (t_scrollback t) @ take n fl)"
    using Suc.IH by (simp_all only: fl_def)
  have max: "sb_max_lines (t_scrollback ?u) = ?m"
    by (rule funpow_frame [where g = "\<lambda>t. sb_max_lines (t_scrollback t)"]) simp
  have "sb_lines (t_scrollback (scroll_up ?u)) = newest ?m (sb_lines (t_scrollback ?u) @ [fl ! n])"
    using U(2) assms(5) sb.push_contents [OF term_wfD(8) [OF wf]] len
    by (simp add: IH(1) hd_drop_conv_nth max)
  also have "\<dots> = newest ?m (sb_lines (t_scrollback t) @ take (Suc n) fl)"
    using newest_newest_append [of ?m "sb_lines (t_scrollback t) @ take n fl" "[fl ! n]"] len
    by (simp add: IH(2) take_Suc_conv_app_nth)
  finally have "sb_lines (t_scrollback (scroll_up ?u)) =
      newest ?m (sb_lines (t_scrollback t) @ take (Suc n) (fl @ [?b]))"
    using len by simp
  moreover have "grid_lines (t_grid (scroll_up ?u)) = drop (Suc n) (fl @ [?b])"
    using U(1) len by (simp add: IH(1) drop_Suc tl_drop)
  ultimately show ?case unfolding fl' by simp
qed

text \<open>A small parser for the witnesses: printable ASCII is printed, the rest executed.\<close>

definition ascii_parser :: "unit \<Rightarrow> u8 \<Rightarrow> unit \<times> vte_action list" where
  "ascii_parser p b = ((), if 32 \<le> b then [Print (unat b)] else [Execute b])"

definition demo :: "nat \<Rightarrow> nat \<Rightarrow> unit terminal" where
  "demo rows cols = terminal_new False () rows cols 3"

lemma demo_wf [simp]: "term_wf (demo rows cols)"
  by (simp add: demo_def term_wf_new)

lemma demo_simps [simp]:
  "t_rows (demo rows cols) = rows" "t_cols (demo rows cols) = cols"
  "t_cursor_row (demo rows cols) = 0" "t_cursor_col (demo rows cols) = 0"
  "\<not> t_wrap_pending (demo rows cols)" "t_alt_grid (demo rows cols) = None"
  "t_scroll_top (demo rows cols) = 0" "t_scroll_bot (demo rows cols) = rows"
  "t_scrollback (demo rows cols) = sb_new 3" "t_grid (demo rows cols) = grid_new rows cols"
  "region_is_full_screen (demo rows cols)"
  by (simp_all add: demo_def terminal_new_def region_is_full_screen_def)

theorem scroll_up_keeps_history_witness:
  "sb_lines (t_scrollback ((scroll_up ^^ 4) (demo 2 3))) =
    newest 3 (take 4 (grid_lines (grid_new 2 3) @ replicate 4 (replicate 3 BLANK)))"
  using scroll_up_keeps_history [of "demo 2 3" 4] by (simp add: sb_new_def)

section \<open>Every run\<close>

text \<open>C1: from a new terminal of any size, any sequence of output chunks (whatever the escape-sequence
parser makes of them), resizes and response drains leaves the screen and, while the alternate screen is
up, the saved main screen at exactly \<open>rows * cols\<close> cells, the cursor and the grid's copy of it on the
screen, the scroll region inside it, a pending wrap only in the last column, and the history within
its bound.\<close>

theorem emulator_invariant:
  "let t = fold (term_op_step pd advance pe) ops (terminal_new pe p rows cols m) in
    length (g_cells (t_grid t)) = t_rows t * t_cols t
    \<and> (case t_alt_grid t of None \<Rightarrow> True | Some g \<Rightarrow> length (g_cells g) = t_rows t * t_cols t)
    \<and> t_cursor_row t < max 1 (t_rows t) \<and> t_cursor_col t < max 1 (t_cols t)
    \<and> g_cursor_row (t_grid t) < max 1 (t_rows t) \<and> g_cursor_col (t_grid t) < max 1 (t_cols t)
    \<and> t_scroll_top t < max 1 (t_scroll_bot t) \<and> t_scroll_bot t \<le> t_rows t
    \<and> (if t_wrap_pending t then t_cursor_col t + 1 = t_cols t else True)
    \<and> length (sb_lines (t_scrollback t)) \<le> sb_max_lines (t_scrollback t)"
proof -
  define t where "t = fold (term_op_step pd advance pe) ops (terminal_new pe p rows cols m)"
  have wf: "term_wf t" unfolding t_def by (rule emulator.run_keeps) (simp_all add: term_wf_new)
  note D = term_wfD [OF wf]
  have g: "length (g_cells (t_grid t)) = t_rows t * t_cols t"
    "g_cursor_row (t_grid t) \<le> t_rows t - 1" "g_cursor_col (t_grid t) \<le> t_cols t - 1"
    using D(2-4) by (simp_all add: grid_wf_def)
  have a: "case t_alt_grid t of None \<Rightarrow> True | Some g \<Rightarrow> length (g_cells g) = t_rows t * t_cols t"
    using wf by (auto simp: term_wf_def grid_dim_def grid_wf_def split: option.splits)
  have r: "t_scroll_top t < max 1 (t_scroll_bot t) \<and> t_scroll_bot t \<le> t_rows t"
    using D(7) by (auto simp: region_ok_def split: if_splits)
  have lt: "x \<le> y - 1 \<Longrightarrow> x < max 1 y" for x y :: nat by (cases y) auto
  show ?thesis
    unfolding t_def [symmetric] Let_def
    using g a r lt [OF D(5)] lt [OF D(6)] lt [OF g(2)] lt [OF g(3)] D(8,9)
    by (simp add: sb_wf_def)
qed

section \<open>Printing\<close>

lemma perform_prints: "fold (perform pe) (map Print s) t = fold (\<lambda>c t. put_char t c) s t"
  by (induction s arbitrary: t) simp_all

text \<open>Printing a run of characters that fits on the cursor's line writes exactly those cells,
in the current colours and attributes, leaves every other cell and the history alone, and moves the
cursor past them; when the run ends in the last column the cursor stays there with a wrap pending.\<close>

theorem print_run:
  assumes "term_wf t" and "0 < t_rows t" and "\<not> t_wrap_pending t" and "s \<noteq> []"
    and "t_cursor_col t + length s \<le> t_cols t"
    and "grid_row (t_grid t) (t_cursor_row t) = Some l"
  shows "let t' = fold (perform pe) (map Print s) t in
      grid_row (t_grid t') =
        (grid_row (t_grid t))(t_cursor_row t := Some (take (t_cursor_col t) l @ map (pen_cell t) s @
          drop (t_cursor_col t + length s) l))
    \<and> t_cursor_row t' = t_cursor_row t
    \<and> t_cursor_col t' = min (t_cursor_col t + length s) (t_cols t - 1)
    \<and> t_wrap_pending t' = (t_cursor_col t + length s = t_cols t)
    \<and> t_scrollback t' = t_scrollback t"
  using print_run_rows [OF assms] by (simp add: Let_def perform_prints)

lemma grid_new_row [simp]: "r < rows \<Longrightarrow> grid_row (grid_new rows cols) r = Some (replicate cols BLANK)"
proof -
  assume r: "r < rows"
  have "grid_get (grid_new rows cols) r c = Some BLANK" if "c < cols" for c
    using r that by (simp add: grid_get_def grid_new_def nth_opt_def row_index_less)
  with r show ?thesis by (intro grid_rowI) (simp_all add: grid_new_wf)
qed

theorem print_run_witness:
  "t_wrap_pending (fold (perform False) (map Print [104, 105, 33]) (demo 2 3))"
  using print_run [of "demo 2 3" "[104, 105, 33]" "replicate 3 BLANK" False] by (simp add: Let_def)

text \<open>the wrap is deferred: a run that exactly fills the line does not scroll or move the cursor
off it, and the next character starts the following line, which it overwrites from the left.\<close>

theorem print_past_margin_wraps:
  assumes "term_wf t" and "\<not> t_wrap_pending t" and "s \<noteq> []"
    and "t_cursor_col t + length s = t_cols t"
    and "t_cursor_row t + 1 < t_rows t" and "t_cursor_row t + 1 \<noteq> t_scroll_bot t"
    and "grid_row (t_grid t) (t_cursor_row t) = Some l"
    and "grid_row (t_grid t) (t_cursor_row t + 1) = Some l'"
  shows "let t' = fold (perform pe) (map Print (s @ [c])) t in
      grid_row (t_grid t') =
        (grid_row (t_grid t))
          (t_cursor_row t := Some (take (t_cursor_col t) l @ map (pen_cell t) s),
           t_cursor_row t + 1 := Some (pen_cell t c # drop 1 l'))
    \<and> t_cursor_row t' = t_cursor_row t + 1
    \<and> t_cursor_col t' = min 1 (t_cols t - 1)
    \<and> t_scrollback t' = t_scrollback t"
proof -
  let ?r = "t_cursor_row t"
  define u where "u = fold (\<lambda>c t. put_char t c) s t"
  note D = term_wfD [OF assms(1)]
  have rows: "0 < t_rows t" and cols: "0 < t_cols t" using assms(3-5) by (auto simp flip: length_greater_0_conv)
  have wl: "length l = t_cols t" "length l' = t_cols t"
    using grid_row_lengthD [OF D(2)] assms(7,8) D by simp_all
  have run: "grid_row (t_grid u) = (grid_row (t_grid t))(?r := Some (take (t_cursor_col t) l @ map (pen_cell t) s))"
    "t_cursor_row u = ?r" "t_wrap_pending u" "t_scrollback u = t_scrollback t"
    using print_run_rows [OF assms(1) rows assms(2,3) _ assms(7)] assms(4) wl unfolding u_def by simp_all
  have frame: "t_rows u = t_rows t \<and> t_cols u = t_cols t \<and> t_scroll_bot u = t_scroll_bot t
      \<and> t_fg u = t_fg t \<and> t_bg u = t_bg t \<and> t_attrs u = t_attrs t"
    unfolding u_def
  proof (rule fold_keeps)
    fix c and v :: "'a terminal"
    assume "t_rows v = t_rows t \<and> t_cols v = t_cols t \<and> t_scroll_bot v = t_scroll_bot t
      \<and> t_fg v = t_fg t \<and> t_bg v = t_bg t \<and> t_attrs v = t_attrs t"
    then show "t_rows (put_char v c) = t_rows t \<and> t_cols (put_char v c) = t_cols t
      \<and> t_scroll_bot (put_char v c) = t_scroll_bot t \<and> t_fg (put_char v c) = t_fg t
      \<and> t_bg (put_char v c) = t_bg t \<and> t_attrs (put_char v c) = t_attrs t"
      by (simp add: put_char_def prepare_for_printable_def wrap_to_next_line_def Let_def)
  qed simp
  have wf: "term_wf u" unfolding u_def by (rule fold_keeps) (auto simp: put_char_wf assms(1))
  define v where "v = wrap_to_next_line u"
  have v: "v = u\<lparr>t_cursor_col := 0, t_cursor_row := ?r + 1, t_wrap_pending := False\<rparr>"
    using assms(5,6) run frame by (simp add: v_def wrap_to_next_line_def)
  have wfv: "term_wf v" using wf by (simp add: v_def wrap_to_next_line_wf)
  have put: "put_char u c = fold (\<lambda>c t. put_char t c) [c] v"
    using put_char_pending [OF run(3)] frame rows cols by (simp add: v_def)
  have pc: "pen_cell v c = pen_cell t c" using frame by (simp add: v pen_cell_def)
  have "grid_row (t_grid v) (t_cursor_row v) = Some l'" using run assms(8) by (simp add: v)
  then have "grid_row (t_grid (put_char u c)) = (grid_row (t_grid u))(?r + 1 := Some (pen_cell t c # drop 1 l'))
      \<and> t_cursor_row (put_char u c) = ?r + 1 \<and> t_cursor_col (put_char u c) = min 1 (t_cols t - 1)
      \<and> t_scrollback (put_char u c) = t_scrollback t"
    using print_run_rows [OF wfv, of "[c]" l'] rows cols frame run pc unfolding put
    by (simp add: v)
  moreover have "fold (perform pe) (map Print (s @ [c])) t = put_char u c"
    by (simp add: u_def perform_prints)
  ultimately show ?thesis using run(1) by (simp add: Let_def)
qed

theorem print_past_margin_wraps_witness:
  "t_cursor_row (fold (perform False) (map Print ([104, 105, 33] @ [63])) (demo 3 3)) = 1"
  using print_past_margin_wraps [of "demo 3 3" "[104, 105, 33]" "replicate 3 BLANK" "replicate 3 BLANK" False 63]
  by (simp add: Let_def)

end
