(* ===== verification/Terminal_Mode_Props.thy ===== *)
theory Terminal_Mode_Props
  imports Terminal_Props
begin

text \<open>
  Properties of the editing sequences as they are dispatched: scrolling inside a region, inserting
  and deleting lines and characters, erasing in the display, and the parameters of SGR.
\<close>

lemma clear_pending_more [simp]:
  "blank_cell (clear_pending_wrap t) = blank_cell t"
  "region_is_full_screen (clear_pending_wrap t) = region_is_full_screen t"
  "screen_dim (clear_pending_wrap t) = screen_dim t"
  by (simp_all add: clear_pending_wrap_def blank_cell_def region_is_full_screen_def screen_dim_def)

lemma csi_dispatch_arms:
  "csi_dispatch pe ps [] CHR ''S'' t = (scroll_up ^^ csi_p0 (map fst ps)) (clear_pending_wrap t)"
  "csi_dispatch pe ps [] CHR ''T'' t = (scroll_down ^^ csi_p0 (map fst ps)) (clear_pending_wrap t)"
  "csi_dispatch pe ps [] CHR ''L'' t = csi_insert_lines (map fst ps) (clear_pending_wrap t)"
  "csi_dispatch pe ps [] CHR ''M'' t = csi_delete_lines (map fst ps) (clear_pending_wrap t)"
  "csi_dispatch pe ps [] CHR ''@'' t = csi_insert_chars (map fst ps) (clear_pending_wrap t)"
  "csi_dispatch pe ps [] CHR ''P'' t = csi_delete_chars (map fst ps) (clear_pending_wrap t)"
  "csi_dispatch pe ps [] CHR ''J'' t = csi_erase_display (map fst ps) (clear_pending_wrap t)"
  "csi_dispatch pe ps [] CHR ''m'' t = handle_sgr pe (map fst ps) t"
  by (simp_all add: csi_dispatch_def csi_action_def byte_lit_def)

section \<open>Scrolling a region\<close>

lemma scroll_up_n_rows:
  assumes "screen_dim t" and "t_scroll_top t < t_scroll_bot t" and "t_scroll_bot t \<le> t_rows t"
    and "\<not> region_is_full_screen t"
  shows "grid_row (t_grid ((scroll_up ^^ n) t)) r =
    (if r < t_scroll_top t \<or> t_scroll_bot t \<le> r then grid_row (t_grid t) r
     else if r + n < t_scroll_bot t then grid_row (t_grid t) (r + n)
     else Some (replicate (t_cols t) (blank_cell t)))"
proof (induction n arbitrary: r)
  case (Suc n)
  let ?u = "(scroll_up ^^ n) t"
  have st: "screen_step t ?u" by (rule screen_step_funpow [OF scroll_up_step])
  note F = screen_step_frame [OF st]
  have "grid_row (t_grid (scroll_up ?u)) r =
    (if t_scroll_top t \<le> r \<and> r + 1 < t_scroll_bot t then grid_row (t_grid ?u) (r + 1)
     else if r + 1 = t_scroll_bot t then Some (replicate (t_cols t) (blank_cell t))
     else grid_row (t_grid ?u) r)"
    using scroll_up_rows [OF screen_dim_step [OF st assms(1)]] assms
    by (simp add: F region_is_full_screen_step [OF st] clear_row_blank [OF st])
  then show ?case using assms(2) by (auto simp: Suc.IH)
qed auto

lemma scroll_down_n_rows:
  assumes "screen_dim t" and "t_scroll_top t < t_scroll_bot t" and "t_scroll_bot t \<le> t_rows t"
  shows "grid_row (t_grid ((scroll_down ^^ n) t)) r =
    (if r < t_scroll_top t \<or> t_scroll_bot t \<le> r then grid_row (t_grid t) r
     else if t_scroll_top t + n \<le> r then grid_row (t_grid t) (r - n)
     else Some (replicate (t_cols t) (blank_cell t)))"
proof (induction n arbitrary: r)
  case (Suc n)
  let ?u = "(scroll_down ^^ n) t"
  have st: "screen_step t ?u" by (rule screen_step_funpow [OF scroll_down_step])
  note F = screen_step_frame [OF st]
  have "grid_row (t_grid (scroll_down ?u)) r =
    (if r = t_scroll_top t then Some (replicate (t_cols t) (blank_cell t))
     else if t_scroll_top t < r \<and> r < t_scroll_bot t then grid_row (t_grid ?u) (r - 1)
     else grid_row (t_grid ?u) r)"
    using scroll_down_rows [OF screen_dim_step [OF st assms(1)]] assms
    by (simp add: F clear_row_blank [OF st])
  moreover have "r - Suc 0 - n = r - Suc n" by simp
  ultimately show ?case using assms(2) by (auto simp: Suc.IH)
qed auto

text \<open>\<open>CSI n S\<close> with a region that is not the whole screen: the rows of the region move up by
\<open>n\<close>, the rows that come in at its bottom are blank in the current colours, and no row outside the
region changes, for any \<open>n\<close> including one larger than the region.\<close>

theorem region_scroll_up:
  assumes "term_wf t" and "0 < t_rows t" and "\<not> region_is_full_screen t"
    and "n = csi_p0 (map fst ps)"
  shows "grid_row (t_grid (csi_dispatch pe ps [] CHR ''S'' t)) r =
    (if r < t_scroll_top t \<or> t_scroll_bot t \<le> r then grid_row (t_grid t) r
     else if r + n < t_scroll_bot t then grid_row (t_grid t) (r + n)
     else Some (replicate (t_cols t) (blank_cell t)))"
  using assms scroll_up_n_rows [of "clear_pending_wrap t" n r] term_wfD(7) [OF assms(1)]
  by (simp add: csi_dispatch_arms term_wf_screen_dim region_ok_def)

definition demo_region :: "unit terminal" where
  "demo_region = (demo 4 3)\<lparr>t_scroll_top := 1, t_scroll_bot := 3\<rparr>"

lemma demo_region_simps [simp]:
  "term_wf demo_region" "t_rows demo_region = 4" "t_cols demo_region = 3"
  "t_scroll_top demo_region = 1" "t_scroll_bot demo_region = 3" "\<not> region_is_full_screen demo_region"
  "t_cursor_row demo_region = 0" "t_cursor_col demo_region = 0" "t_alt_grid demo_region = None"
  "\<not> t_wrap_pending demo_region"
proof -
  show "term_wf demo_region" using demo_wf [of 4 3]
    by (simp add: demo_region_def term_wf_def region_ok_def)
qed (simp_all add: demo_region_def region_is_full_screen_def)

theorem region_scroll_up_witness:
  "grid_row (t_grid (csi_dispatch False [(7, [])] [] CHR ''S'' demo_region)) 2 =
    Some (replicate 3 (blank_cell demo_region))"
  using region_scroll_up [of demo_region 7 "[(7, [])]" False 2]
  by (simp add: csi_p0_def csi_p_def csi_raw_def)

text \<open>\<open>CSI n T\<close> is the mirror image: the rows of the region move down by \<open>n\<close>, blank rows come
in at its top, and no row outside the region changes.\<close>

theorem region_scroll_down:
  assumes "term_wf t" and "0 < t_rows t" and "n = csi_p0 (map fst ps)"
  shows "grid_row (t_grid (csi_dispatch pe ps [] CHR ''T'' t)) r =
    (if r < t_scroll_top t \<or> t_scroll_bot t \<le> r then grid_row (t_grid t) r
     else if t_scroll_top t + n \<le> r then grid_row (t_grid t) (r - n)
     else Some (replicate (t_cols t) (blank_cell t)))"
  using assms scroll_down_n_rows [of "clear_pending_wrap t" n r] term_wfD(7) [OF assms(1)]
  by (simp add: csi_dispatch_arms term_wf_screen_dim region_ok_def)

theorem region_scroll_down_witness:
  "grid_row (t_grid (csi_dispatch False [(7, [])] [] CHR ''T'' demo_region)) 1 =
    Some (replicate 3 (blank_cell demo_region))"
  using region_scroll_down [of demo_region 7 "[(7, [])]" False 1]
  by (simp add: csi_p0_def csi_p_def csi_raw_def)

section \<open>Inserting and deleting\<close>

text \<open>inserting \<open>n\<close> lines and deleting them again at the same place gives back every row of the
screen but the last \<open>n\<close> of the region below the cursor, which the insertion pushed out and which come
back blank; rows above the cursor and outside the region never change.\<close>

theorem insert_then_delete_lines:
  assumes "term_wf t" and "t_scroll_top t \<le> t_cursor_row t" and "t_cursor_row t < t_scroll_bot t"
    and "n = min (csi_p0 (map fst ps)) (t_scroll_bot t - t_cursor_row t)"
  shows "grid_row (t_grid (csi_dispatch pe ps [] CHR ''M'' (csi_dispatch pe ps [] CHR ''L'' t))) r =
    (if t_scroll_bot t \<le> r + n \<and> r < t_scroll_bot t then Some (replicate (t_cols t) (blank_cell t))
     else grid_row (t_grid t) r)"
proof -
  define s where "s = clear_pending_wrap t"
  define u where "u = csi_insert_lines (map fst ps) s"
  have st: "screen_step s u" unfolding u_def by (rule csi_insert_lines_step)
  note F = screen_step_frame [OF st]
  have dim: "screen_dim s" by (simp add: s_def term_wf_screen_dim assms(1))
  have bot: "t_scroll_bot t \<le> t_rows t"
    using term_wfD(7) [OF assms(1)] assms(3) by (auto simp: region_ok_def split: if_splits)
  have dim': "screen_dim (clear_pending_wrap u)" by (simp add: screen_dim_step [OF st dim])
  have n': "n = min (csi_p0 (map fst ps)) (t_scroll_bot s - t_cursor_row s)"
    by (simp add: s_def assms(4))
  have n'': "n = min (csi_p0 (map fst ps)) (t_scroll_bot (clear_pending_wrap u) - t_cursor_row (clear_pending_wrap u))"
    by (simp add: F s_def assms(4))
  have ins: "grid_row (t_grid u) q =
    (if q < t_cursor_row t \<or> t_scroll_bot t \<le> q then grid_row (t_grid t) q
     else if q < t_cursor_row t + n then Some (replicate (t_cols t) (blank_cell t))
     else grid_row (t_grid t) (q - n))" for q
    using insert_lines_rows [OF dim _ _ _ n', of q] assms(2,3) bot by (simp add: u_def s_def)
  have "grid_row (t_grid (csi_delete_lines (map fst ps) (clear_pending_wrap u))) r =
    (if r < t_cursor_row t \<or> t_scroll_bot t \<le> r then grid_row (t_grid u) r
     else if r + n < t_scroll_bot t then grid_row (t_grid u) (r + n)
     else Some (replicate (t_cols t) (blank_cell t)))"
    using delete_lines_rows [OF dim' _ _ _ n'', of r] assms(2,3) bot clear_row_blank [OF st]
    by (simp add: F s_def)
  moreover have "n \<le> t_scroll_bot t - t_cursor_row t" using assms(4) by simp
  ultimately show ?thesis
    using assms(3) by (auto simp: csi_dispatch_arms u_def [symmetric] s_def [symmetric] ins)
qed

theorem insert_then_delete_lines_witness:
  "grid_row (t_grid (csi_dispatch False [(2, [])] [] CHR ''M'' (csi_dispatch False [(2, [])] [] CHR ''L'' (demo 4 3)))) 2 =
    Some (replicate 3 (blank_cell (demo 4 3)))"
  using insert_then_delete_lines [of "demo 4 3" 2 "[(2, [])]" False 2]
  by (simp add: csi_p0_def csi_p_def csi_raw_def)

text \<open>the same for characters: after \<open>CSI n @\<close> and \<open>CSI n P\<close> at one cursor position, the row has
its characters back except the last \<open>n\<close>, which are blank, and no other cell of the screen changed.\<close>

theorem insert_then_delete_chars:
  assumes "term_wf t" and "0 < t_rows t" and "0 < t_cols t"
    and "n = min (csi_p0 (map fst ps)) (t_cols t - t_cursor_col t)"
  shows "grid_get (t_grid (csi_dispatch pe ps [] CHR ''P'' (csi_dispatch pe ps [] CHR ''@'' t))) r c =
    (if r = t_cursor_row t \<and> t_cols t \<le> c + n \<and> c < t_cols t then Some (blank_cell t)
     else grid_get (t_grid t) r c)"
proof -
  define s where "s = clear_pending_wrap t"
  define u where "u = csi_insert_chars (map fst ps) s"
  have st: "screen_step s u" unfolding u_def by (rule csi_insert_chars_step)
  note F = screen_step_frame [OF st]
  have dim: "screen_dim s" by (simp add: s_def term_wf_screen_dim assms(1))
  have dim': "screen_dim (clear_pending_wrap u)" by (simp add: screen_dim_step [OF st dim])
  have cur: "t_cursor_row t < t_rows t" "t_cursor_col t < t_cols t"
    using term_wfD(5,6) [OF assms(1)] assms(2,3) by linarith+
  have ins: "grid_get (t_grid u) r q =
    (if r \<noteq> t_cursor_row t \<or> q < t_cursor_col t \<or> t_cols t \<le> q then grid_get (t_grid t) r q
     else if q < t_cursor_col t + n then Some (blank_cell t)
     else grid_get (t_grid t) r (q - n))" for q
    using insert_chars_get [OF dim, of n "map fst ps" r q] assms cur by (simp add: u_def s_def)
  have "grid_get (t_grid (csi_delete_chars (map fst ps) (clear_pending_wrap u))) r c =
    (if r \<noteq> t_cursor_row t \<or> c < t_cursor_col t \<or> t_cols t \<le> c then grid_get (t_grid u) r c
     else if c + n < t_cols t then grid_get (t_grid u) r (c + n)
     else Some (blank_cell t))"
    using delete_chars_get [OF dim', of n "map fst ps" r c] assms cur clear_row_blank [OF st]
    by (simp add: F s_def)
  moreover have "n \<le> t_cols t - t_cursor_col t" using assms(4) by simp
  ultimately show ?thesis
    using cur ins [of c] ins [of "c + n"]
    by (auto simp: csi_dispatch_arms u_def [symmetric] s_def [symmetric])
qed

theorem insert_then_delete_chars_witness:
  "grid_get (t_grid (csi_dispatch False [(2, [])] [] CHR ''P'' (csi_dispatch False [(2, [])] [] CHR ''@'' (demo 4 3)))) 0 1 =
    Some (blank_cell (demo 4 3))"
  using insert_then_delete_chars [of "demo 4 3" 2 "[(2, [])]" False 0 1]
  by (simp add: csi_p0_def csi_p_def csi_raw_def)

section \<open>Erasing\<close>

text \<open>\<open>CSI J\<close> erases exactly the cells from the cursor to the end of the screen in reading order
(mode 0), from the start of the screen up to and including the cursor (mode 1), or all of them (modes 2
and 3), in the current colours; any other mode erases nothing; and only mode 3 drops the history.\<close>

theorem erase_display:
  assumes "term_wf t" and "r < t_rows t" and "c < t_cols t" and "m = csi_raw (map fst ps) 0"
  shows "grid_get (t_grid (csi_dispatch pe ps [] CHR ''J'' t)) r c =
      (if m = 0 \<and> (t_cursor_row t < r \<or> t_cursor_row t = r \<and> t_cursor_col t \<le> c)
        \<or> m = 1 \<and> (r < t_cursor_row t \<or> r = t_cursor_row t \<and> c \<le> t_cursor_col t)
        \<or> m = 2 \<or> m = 3
       then Some (blank_cell t) else grid_get (t_grid t) r c)
    \<and> t_scrollback (csi_dispatch pe ps [] CHR ''J'' t) =
      (if m = 3 then sb_clear (t_scrollback t) else t_scrollback t)"
proof -
  define s where "s = clear_pending_wrap t"
  have dim: "screen_dim s" by (simp add: s_def term_wf_screen_dim assms(1))
  have S: "t_rows s = t_rows t" "t_cols s = t_cols t" "t_cursor_row s = t_cursor_row t"
    "t_cursor_col s = t_cursor_col t" "blank_cell s = blank_cell t" "t_grid s = t_grid t"
    "t_scrollback s = t_scrollback t"
    by (simp_all add: s_def)
  note get = clear_region_get [OF dim] clear_region_get [OF clear_region_dim [OF dim]]
  show ?thesis
    using assms(2,3)
    by (auto simp: csi_dispatch_arms s_def [symmetric] csi_erase_display_def Let_def assms(4) [symmetric] get S)
qed

theorem erase_display_witness:
  "grid_get (t_grid (csi_dispatch False [(1, [])] [] CHR ''J'' (demo 4 3))) 0 0 = Some (blank_cell (demo 4 3))"
  using erase_display [of "demo 4 3" 0 0 1 "[(1, [])]" False] by (simp add: csi_raw_def)

text \<open>
  Properties of the modes of the emulator: the alternate screen, resizing, the pen (SGR), the replies
  queued for the child, and the title.
\<close>

section \<open>The alternate screen\<close>

text \<open>The actions that leave the alternate screen, and the one that drops the history.\<close>

fun leaves_alt :: "vte_action \<Rightarrow> bool" where
  "leaves_alt (Csi ps im ignore action) \<longleftrightarrow>
     im = byte_lit ''?'' \<and> action = CHR ''l'' \<and> {47, 1047, 1049} \<inter> set (map fst ps) \<noteq> {}"
| "leaves_alt _ \<longleftrightarrow> False"

fun drops_history :: "vte_action \<Rightarrow> bool" where
  "drops_history (Csi ps im ignore action) \<longleftrightarrow>
     im \<noteq> byte_lit ''?'' \<and> action = CHR ''J'' \<and> csi_raw (map fst ps) 0 = 3"
| "drops_history _ \<longleftrightarrow> False"

text \<open>What the alternate screen keeps of the state it was entered from.\<close>

definition alt_of :: "'p terminal \<Rightarrow> 'p terminal \<Rightarrow> bool" where
  "alt_of t0 t \<longleftrightarrow>
     t_alt_grid t = Some (t_grid t0) \<and> t_alt_saved_cursor t = (t_cursor_row t0, t_cursor_col t0)
     \<and> t_alt_saved_fg t = t_fg t0 \<and> t_alt_saved_bg t = t_bg t0 \<and> t_alt_saved_attrs t = t_attrs t0
     \<and> t_rows t = t_rows t0 \<and> t_cols t = t_cols t0 \<and> t_scrollback t = t_scrollback t0"

lemma alt_of_screen:
  "screen_step t t' \<Longrightarrow> t_scrollback t' = t_scrollback t \<Longrightarrow> alt_of t0 t \<Longrightarrow> alt_of t0 t'"
  by (simp add: alt_of_def screen_step_frame)

lemma alt_of_updates [simp]:
  "alt_of t0 (t\<lparr>t_cursor_row := x\<rparr>) = alt_of t0 t" "alt_of t0 (t\<lparr>t_cursor_col := x\<rparr>) = alt_of t0 t"
  "alt_of t0 (t\<lparr>t_grid := g\<rparr>) = alt_of t0 t" "alt_of t0 (t\<lparr>t_title := s\<rparr>) = alt_of t0 t"
  "alt_of t0 (t\<lparr>t_saved_cursor := sc\<rparr>) = alt_of t0 t" "alt_of t0 (t\<lparr>t_wrap_pending := b\<rparr>) = alt_of t0 t"
  "alt_of t0 (t\<lparr>t_scroll_top := x\<rparr>) = alt_of t0 t" "alt_of t0 (t\<lparr>t_scroll_bot := x\<rparr>) = alt_of t0 t"
  "alt_of t0 (t\<lparr>t_mouse_modes := mm\<rparr>) = alt_of t0 t"
  "alt_of t0 (t\<lparr>t_focus_reporting_1004 := b\<rparr>) = alt_of t0 t"
  "alt_of t0 (t\<lparr>t_synchronized_output_active := b\<rparr>) = alt_of t0 t"
  "alt_of t0 (clear_pending_wrap t) = alt_of t0 t" "alt_of t0 (respond rs t) = alt_of t0 t"
  by (simp_all add: alt_of_def respond_def)

lemma alt_of_scroll_up: "alt_of t0 t \<Longrightarrow> alt_of t0 (scroll_up t)"
  by (rule alt_of_screen [OF scroll_up_step scroll_up_scrollback_alt]) (simp_all add: alt_of_def)

lemma alt_of_scroll_down: "alt_of t0 t \<Longrightarrow> alt_of t0 (scroll_down t)"
  by (rule alt_of_screen [OF scroll_down_step]) simp_all

lemma alt_of_put_char: "alt_of t0 t \<Longrightarrow> alt_of t0 (put_char t c)"
  by (simp add: put_char_def prepare_for_printable_def wrap_to_next_line_def Let_def alt_of_scroll_up)

lemma alt_of_execute: "alt_of t0 t \<Longrightarrow> alt_of t0 (execute b t)"
  by (simp add: execute_def line_feed_def Let_def alt_of_scroll_up)

lemma alt_of_pen: "pen_step t t' \<Longrightarrow> alt_of t0 t \<Longrightarrow> alt_of t0 t'"
  by (simp add: alt_of_def pen_step_frame)

lemma alt_of_private_mode:
  "alt_of t0 t \<Longrightarrow> on \<or> code \<notin> {47, 1047, 1049} \<Longrightarrow> alt_of t0 (private_mode on code t)"
  by (auto simp: private_mode_def enter_alt_screen_def) (simp_all add: alt_of_def)

lemma alt_of_csi_private:
  assumes "alt_of t0 t" and "\<not> (action = CHR ''l'' \<and> {47, 1047, 1049} \<inter> set pv \<noteq> {})"
  shows "alt_of t0 (csi_private action pv t)"
  unfolding csi_private_def
  using assms by (auto intro!: fold_keeps [where P = "alt_of t0"] alt_of_private_mode)

lemma alt_of_csi_action:
  assumes "alt_of t0 t" and "\<not> (action = CHR ''J'' \<and> csi_raw pv 0 = 3)"
  shows "alt_of t0 (csi_action pe pv im action t)"
proof -
  have steps: "csi_raw pv 0 \<noteq> 3 \<Longrightarrow> alt_of t0 (csi_erase_display pv t)" "alt_of t0 (csi_erase_line pv t)"
    "alt_of t0 (csi_insert_lines pv t)" "alt_of t0 (csi_delete_lines pv t)"
    "alt_of t0 (csi_insert_chars pv t)" "alt_of t0 (csi_delete_chars pv t)" "alt_of t0 (csi_erase_chars pv t)"
    by (rule alt_of_screen [OF _ _ assms(1)]; simp add: screen_steps erase_display_scrollback)+
  have loops: "alt_of t0 ((scroll_up ^^ n) t)" "alt_of t0 ((scroll_down ^^ n) t)" for n
    by (rule funpow_keeps [where P = "alt_of t0"]; simp add: assms(1) alt_of_scroll_up alt_of_scroll_down)+
  have "alt_of t0 (csi_position pv t)" "alt_of t0 (csi_set_region pv t)" "alt_of t0 (handle_sgr pe pv t)"
    using assms(1) alt_of_pen [OF handle_sgr_pen]
    by (simp_all add: csi_position_def csi_set_region_def Let_def)
  with steps loops assms show ?thesis
    unfolding csi_action_def
    by (intro if_split [where P = "alt_of t0", THEN iffD2] conjI impI; simp only: alt_of_updates; blast)
qed

lemma alt_of_perform:
  assumes "alt_of t0 t" and "\<not> leaves_alt a" and "\<not> drops_history a"
  shows "alt_of t0 (perform pe a t)"
proof (cases a)
  case (Csi ps im ignore action)
  show ?thesis
  proof (cases "im = byte_lit ''?''")
    case True
    have "\<not> (action = CHR ''l'' \<and> {47, 1047, 1049} \<inter> set (map fst ps) \<noteq> {})"
      using assms(2) Csi True by simp
    then have "alt_of t0 (csi_private action (map fst ps) t)" by (rule alt_of_csi_private [OF assms(1)])
    then show ?thesis by (simp add: Csi True csi_dispatch_def)
  next
    case False
    have "\<not> (action = CHR ''J'' \<and> csi_raw (map fst ps) 0 = 3)"
      using assms(3) Csi False by simp
    then have "alt_of t0 u \<Longrightarrow> alt_of t0 (csi_action pe (map fst ps) im action u)" for u
      by (rule alt_of_csi_action [rotated])
    then show ?thesis
      using False assms(1) by (simp only: Csi perform.simps csi_dispatch_def Let_def if_False alt_of_updates split: if_split) blast
  qed
qed (use assms in \<open>auto simp: alt_of_put_char alt_of_execute osc_dispatch_def esc_dispatch_def Let_def
    alt_of_scroll_down split: option.split\<close>)

text \<open>C3: a program on the alternate screen cannot touch the main one: entering it, performing any
actions that neither leave it nor erase the history, and leaving it again gives back the main grid cell
for cell, the cursor, the colours and attributes, and the history, whatever was printed, scrolled or
erased meanwhile.\<close>

theorem alt_screen_isolation:
  assumes "term_wf t" and "t_alt_grid t = None"
    and "\<forall>a \<in> set as. \<not> leaves_alt a \<and> \<not> drops_history a"
  shows "let t' = exit_alt_screen (fold (perform pe) as (enter_alt_screen t)) in
      t_grid t' = grid_set_cursor (t_grid t) (t_cursor_row t) (t_cursor_col t)
    \<and> t_cursor_row t' = t_cursor_row t \<and> t_cursor_col t' = t_cursor_col t
    \<and> t_fg t' = t_fg t \<and> t_bg t' = t_bg t \<and> t_attrs t' = t_attrs t
    \<and> t_scrollback t' = t_scrollback t \<and> t_alt_grid t' = None"
proof -
  let ?u = "fold (perform pe) as (enter_alt_screen t)"
  have "alt_of t (enter_alt_screen t)"
    using assms(2) by (simp add: enter_alt_screen_def Let_def alt_of_def)
  then have "alt_of t ?u"
    using assms(3) by (intro fold_keeps [where P = "alt_of t"] alt_of_perform) auto
  then show ?thesis
    using term_wfD(5,6) [OF assms(1)]
    by (simp add: alt_of_def exit_alt_screen_def Let_def)
qed

theorem alt_screen_isolation_witness:
  "t_grid (exit_alt_screen (fold (perform False) [Print 120, Execute 10, Csi [(2, [])] [] False CHR ''J'']
      (enter_alt_screen (demo 2 3)))) = grid_set_cursor (grid_new 2 3) 0 0"
  using alt_screen_isolation [of "demo 2 3" "[Print 120, Execute 10, Csi [(2, [])] [] False CHR ''J'']" False]
  by (simp add: Let_def csi_raw_def)

section \<open>Resizing\<close>

text \<open>A resize of the main screen that keeps the width.\<close>

lemma resize_shrink:
  assumes wf: "term_wf t" and alt: "t_alt_grid t = None" and cols: "0 < t_cols t"
    and k: "k \<le> t_cursor_row t" "0 < t_rows t"
  shows "grid_lines (t_grid (terminal_resize t (t_rows t - k) (t_cols t))) = drop k (grid_lines (t_grid t))"
    and "t_scrollback (terminal_resize t (t_rows t - k) (t_cols t)) =
      fold (\<lambda>l h. sb_push h l) (take k (grid_lines (t_grid t))) (t_scrollback t)"
    and "t_cursor_row (terminal_resize t (t_rows t - k) (t_cols t)) = t_cursor_row t - k"
    and "t_cursor_col (terminal_resize t (t_rows t - k) (t_cols t)) = t_cursor_col t"
    and "t_alt_grid (terminal_resize t (t_rows t - k) (t_cols t)) = None"
    and "t_rows (terminal_resize t (t_rows t - k) (t_cols t)) = t_rows t - k"
    and "t_cols (terminal_resize t (t_rows t - k) (t_cols t)) = t_cols t"
proof -
  note D = term_wfD [OF wf]
  have kr: "k < t_rows t" using k D(5) by linarith
  let ?g = "snd (grid_shrink_rows_from_top (t_grid t) k)"
  have S: "grid_wf ?g" "fst (grid_shrink_rows_from_top (t_grid t) k) = take k (grid_lines (t_grid t))"
    "grid_lines ?g = drop k (grid_lines (t_grid t)) @ replicate k (replicate (t_cols t) BLANK)"
    using grid_shrink_spec [OF D(2), of k] kr cols D by simp_all
  have "g_cols ?g = t_cols t" "g_rows ?g = t_rows t" by (simp_all add: D)
  then have lines: "grid_lines (grid_resize ?g (t_rows t - k) (t_cols t)) = drop k (grid_lines (t_grid t))"
    using grid_lines_resize_rows [OF S(1), of "t_rows t - k"] D by (simp add: S(3))
  have u: "reflow_rows t (t_rows t - k) False = (if k = 0 then t else
      t\<lparr>t_grid := ?g, t_scrollback := fold (\<lambda>l h. sb_push h l) (take k (grid_lines (t_grid t))) (t_scrollback t),
        t_cursor_row := t_cursor_row t - k\<rparr>)"
    using kr k by (auto simp: reflow_rows_def Let_def split_beta S(2) min_def)
  have same: "grid_lines (grid_resize (t_grid t) (t_rows t) (t_cols t)) = grid_lines (t_grid t)"
    using D by (simp add: grid_resize_def)
  show "grid_lines (t_grid (terminal_resize t (t_rows t - k) (t_cols t))) = drop k (grid_lines (t_grid t))"
    "t_scrollback (terminal_resize t (t_rows t - k) (t_cols t)) =
      fold (\<lambda>l h. sb_push h l) (take k (grid_lines (t_grid t))) (t_scrollback t)"
    "t_cursor_row (terminal_resize t (t_rows t - k) (t_cols t)) = t_cursor_row t - k"
    "t_cursor_col (terminal_resize t (t_rows t - k) (t_cols t)) = t_cursor_col t"
    "t_alt_grid (terminal_resize t (t_rows t - k) (t_cols t)) = None"
    "t_rows (terminal_resize t (t_rows t - k) (t_cols t)) = t_rows t - k"
    "t_cols (terminal_resize t (t_rows t - k) (t_cols t)) = t_cols t"
    using alt D(5,6) k kr lines same by (simp_all add: terminal_resize_def Let_def u)
qed

lemma resize_grow:
  assumes wf: "term_wf t" and alt: "t_alt_grid t = None" and cols: "0 < t_cols t" and rows: "0 < t_rows t"
    and k: "k \<le> sb_len (t_scrollback t)"
    and widths: "\<forall>l \<in> set (fst (sb_pop_back_n (t_scrollback t) k)). length l = t_cols t"
  shows "grid_lines (t_grid (terminal_resize t (t_rows t + k) (t_cols t))) =
      fst (sb_pop_back_n (t_scrollback t) k) @ grid_lines (t_grid t)"
    and "t_scrollback (terminal_resize t (t_rows t + k) (t_cols t)) = snd (sb_pop_back_n (t_scrollback t) k)"
    and "t_cursor_row (terminal_resize t (t_rows t + k) (t_cols t)) = t_cursor_row t + k"
    and "t_cursor_col (terminal_resize t (t_rows t + k) (t_cols t)) = t_cursor_col t"
proof -
  note D = term_wfD [OF wf]
  let ?l = "fst (sb_pop_back_n (t_scrollback t) k)"
  let ?g = "grid_grow_rows_at_top (t_grid t) k ?l"
  have len: "length ?l = k" using k by (simp add: sb.pop_length sb_len_def)
  have "map (fit_row (t_cols t)) ?l = ?l" using widths by (intro map_idI) (auto simp: fit_row_id)
  then have G: "grid_wf ?g" "grid_lines ?g = ?l @ grid_lines (t_grid t)"
    using grid_grow_spec [OF D(2), of k ?l] len D by simp_all
  have "grid_resize ?g (t_rows t + k) (t_cols t) = ?g" by (simp add: grid_resize_def D)
  moreover have "reflow_rows t (t_rows t + k) False = (if k = 0 then t else
      t\<lparr>t_scrollback := snd (sb_pop_back_n (t_scrollback t) k), t_grid := ?g, t_cursor_row := t_cursor_row t + k\<rparr>)"
    by (auto simp: reflow_rows_def Let_def split_beta)
  moreover have "k = 0 \<Longrightarrow> ?l = [] \<and> snd (sb_pop_back_n (t_scrollback t) k) = t_scrollback t \<and> ?g = t_grid t"
    by (simp add: sb_pop_back_n_def Let_def grid_grow_rows_at_top_def)
  moreover have "grid_resize (t_grid t) (t_rows t) (t_cols t) = t_grid t" using D by (simp add: grid_resize_def)
  ultimately show "grid_lines (t_grid (terminal_resize t (t_rows t + k) (t_cols t))) = ?l @ grid_lines (t_grid t)"
    and "t_scrollback (terminal_resize t (t_rows t + k) (t_cols t)) = snd (sb_pop_back_n (t_scrollback t) k)"
    and "t_cursor_row (terminal_resize t (t_rows t + k) (t_cols t)) = t_cursor_row t + k"
    and "t_cursor_col (terminal_resize t (t_rows t + k) (t_cols t)) = t_cursor_col t"
    using alt D(5,6) G rows by (auto simp: terminal_resize_def Let_def)
qed

text \<open>making the window \<open>k\<close> rows shorter, where the cursor has at least \<open>k\<close> rows above it, keeps
every line from the \<open>k\<close>-th on, moves the lines above into the history in order, and keeps the cursor on
its line and column; so the history followed by the screen is unchanged up to the history's bound.\<close>

theorem resize_shrink_keeps_lines:
  assumes "term_wf t" and "t_alt_grid t = None" and "0 < t_cols t" and "0 < t_rows t"
    and "k \<le> t_cursor_row t"
  shows "let t' = terminal_resize t (t_rows t - k) (t_cols t) in
      grid_lines (t_grid t') = drop k (grid_lines (t_grid t))
    \<and> sb_lines (t_scrollback t') = newest (sb_max_lines (t_scrollback t))
        (sb_lines (t_scrollback t) @ take k (grid_lines (t_grid t)))
    \<and> grid_row (t_grid t') (t_cursor_row t') = grid_row (t_grid t) (t_cursor_row t)
    \<and> t_cursor_col t' = t_cursor_col t"
proof -
  note D = term_wfD [OF assms(1)]
  let ?t = "terminal_resize t (t_rows t - k) (t_cols t)"
  note S = resize_shrink [OF assms(1-3,5,4)]
  have wf': "term_wf ?t" by (rule terminal_resize_wf [OF assms(1)])
  have r: "t_cursor_row t < t_rows t" using D(5) assms(4) by linarith
  have "t_cursor_row t - k < t_rows t - k" using r assms(5) by linarith
  then have "grid_row (t_grid ?t) (t_cursor_row ?t) = Some (drop k (grid_lines (t_grid t)) ! (t_cursor_row t - k))"
    using term_wfD(3) [OF wf'] by (simp add: grid_row_eq S)
  also have "\<dots> = grid_row (t_grid t) (t_cursor_row t)"
    using r assms(5) D by (simp add: grid_row_eq)
  finally show ?thesis
    using S sb.push_all_contents [OF D(8)] by (simp add: Let_def)
qed

definition demo_typed :: "unit terminal" where
  "demo_typed = fold (perform False) [Print 97, Execute 10, Execute 13, Print 98] (demo 3 2)"

lemma demo_typed_simps [simp]:
  "term_wf demo_typed" "t_rows demo_typed = 3" "t_cols demo_typed = 2" "t_alt_grid demo_typed = None"
  "t_cursor_row demo_typed = 1" "t_scrollback demo_typed = sb_new 3" "t_cursor_col demo_typed = 1"
  "region_is_full_screen demo_typed"
proof -
  show "term_wf demo_typed" unfolding demo_typed_def
    by (rule fold_keeps [where P = term_wf]) (auto intro: perform_wf)
qed (simp_all add: demo_typed_def put_char_def prepare_for_printable_def execute_def line_feed_def Let_def
    region_is_full_screen_def)

theorem resize_shrink_keeps_lines_witness:
  "sb_lines (t_scrollback (terminal_resize demo_typed 2 2)) = take 1 (grid_lines (t_grid demo_typed))"
proof -
  have "length (grid_lines (t_grid demo_typed)) = 3" using term_wfD(3) [of demo_typed] by simp
  then show ?thesis
    using resize_shrink_keeps_lines [of demo_typed 1] by (simp add: Let_def sb_new_def)
qed

text \<open>C4: shrinking the window by \<open>k\<close> rows and growing it back is invisible while the main screen is in front, when
the history has room for \<open>k\<close> more lines and the cursor has \<open>k\<close> rows above it: every line of the screen, every
line of the history and the cursor are as before.\<close>

theorem resize_round_trip:
  assumes "term_wf t" and "t_alt_grid t = None" and "0 < t_cols t" and "0 < t_rows t"
    and "k \<le> t_cursor_row t"
    and "sb_len (t_scrollback t) + k \<le> sb_max_lines (t_scrollback t)"
  shows "let t' = terminal_resize (terminal_resize t (t_rows t - k) (t_cols t)) (t_rows t) (t_cols t) in
      grid_lines (t_grid t') = grid_lines (t_grid t)
    \<and> t_scrollback t' = t_scrollback t
    \<and> t_cursor_row t' = t_cursor_row t \<and> t_cursor_col t' = t_cursor_col t"
proof -
  note D = term_wfD [OF assms(1)]
  let ?u = "terminal_resize t (t_rows t - k) (t_cols t)" and ?ls = "take k (grid_lines (t_grid t))"
  note S = resize_shrink [OF assms(1-3,5,4)]
  have wf: "term_wf ?u" by (rule terminal_resize_wf [OF assms(1)])
  have kr: "k < t_rows t" using D(5) assms(4,5) by linarith
  then have len: "length ?ls = k" by (simp add: D)
  have room: "length (sb_lines (t_scrollback t)) + length ?ls \<le> sb_max_lines (t_scrollback t)"
    using assms(6) len by (simp add: sb_len_def)
  note P = sb.push_then_pop [OF D(8) room, unfolded len]
  have w: "\<forall>l \<in> set ?ls. length l = t_cols t"
    using grid_lines_width [OF D(2)] D by (auto dest: in_set_takeD)
  have kl: "k \<le> sb_len (t_scrollback ?u)"
    using sb.push_all_contents [OF D(8), of ?ls] room len by (simp add: S sb_len_def)
  note G = resize_grow [OF wf S(5), of k, unfolded S(6,7) S(2) P(1)]
  have "t_rows t - k + k = t_rows t" using kr by simp
  then have G': "grid_lines (t_grid (terminal_resize ?u (t_rows t) (t_cols t))) = ?ls @ grid_lines (t_grid ?u)"
    "t_scrollback (terminal_resize ?u (t_rows t) (t_cols t)) =
      snd (sb_pop_back_n (fold (\<lambda>l h. sb_push h l) ?ls (t_scrollback t)) k)"
    "t_cursor_row (terminal_resize ?u (t_rows t) (t_cols t)) = t_cursor_row ?u + k"
    "t_cursor_col (terminal_resize ?u (t_rows t) (t_cols t)) = t_cursor_col ?u"
    using G [OF assms(3) _ kl [unfolded S(2)] w] kr by simp_all
  have "snd (sb_pop_back_n (fold (\<lambda>l h. sb_push h l) ?ls (t_scrollback t)) k) = t_scrollback t"
    using P(2) sb.pop_cap sb.push_all_cap by (simp add: scrollback.equality)
  with G' show ?thesis using S assms(5) by (simp add: Let_def)
qed

theorem resize_round_trip_witness:
  "grid_lines (t_grid (terminal_resize (terminal_resize demo_typed 2 2) 3 2)) = grid_lines (t_grid demo_typed)"
  using resize_round_trip [of demo_typed 1] by (simp add: Let_def sb_new_def sb_len_def)

end
