(* ===== verification/Terminal_Stream_Props.thy ===== *)
theory Terminal_Stream_Props
  imports Terminal_Inv
begin

text \<open>
  Properties of the emulator as a consumer of a stream: SGR reads its parameters as a stream (the
  index loop of the code against a recursion over the list), replies are only ever appended, the
  title, and how the output is cut into chunks does not matter.
\<close>

section \<open>SGR\<close>

text \<open>The colour after a 38 or 48, and the parameters left.\<close>

fun sgr_color :: "(u8 \<Rightarrow> color) \<Rightarrow> u16 list \<Rightarrow> color option \<times> u16 list" where
  "sgr_color palette [] = (None, [])"
| "sgr_color palette (m # ps) =
     (if m = 5 then (case ps of [] \<Rightarrow> (None, []) | n # rest \<Rightarrow> (Some (palette (ucast n)), rest))
      else if m = 2 then
        (case ps of
           r # g # b # rest \<Rightarrow> (Some (rgb (ucast r) (ucast g) (ucast b)), rest)
         | _ \<Rightarrow> (None, ps))
      else (None, ps))"

lemma sgr_color_length: "length (snd (sgr_color palette ps)) \<le> length ps"
  by (cases ps) (auto split: list.split)

function sgr_stream :: "bool \<Rightarrow> u16 list \<Rightarrow> 'p terminal \<Rightarrow> 'p terminal" where
  "sgr_stream pe [] t = t"
| "sgr_stream pe (code # ps) t =
     (if code = 38 then
        (let (c, rest) = sgr_color (\<lambda>n. fg_color_256_for_parity_with_profile n pe) ps
         in sgr_stream pe rest (case c of Some c \<Rightarrow> t\<lparr>t_fg := c\<rparr> | None \<Rightarrow> t))
      else if code = 48 then
        (let (c, rest) = sgr_color (\<lambda>n. bg_color_256_for_parity_with_profile n pe) ps
         in sgr_stream pe rest (case c of Some c \<Rightarrow> t\<lparr>t_bg := c\<rparr> | None \<Rightarrow> t))
      else sgr_stream pe ps (sgr_simple pe code t))"
  by pat_completeness auto
termination
  by (relation "measure (\<lambda>(pe, ps, t). length ps)")
    (auto simp: less_Suc_eq_le dest!: arg_cong [where f = snd], (metis sgr_color_length snd_conv)+)

lemma sgr_extended_append:
  assumes "length a = i + 1"
  shows "sgr_color palette xs =
    (snd (sgr_extended palette (a @ xs) i), drop (fst (sgr_extended palette (a @ xs) i) + 1) (a @ xs))"
proof -
  consider "xs = []" | m where "xs = [m]" | m n where "xs = [m, n]" | m n g where "xs = [m, n, g]"
    | m n g b rest where "xs = m # n # g # b # rest"
    by (metis list.exhaust)
  then show ?thesis
    using assms by cases (simp_all add: sgr_extended_def Let_def nth_append)
qed

lemma sgr_extended_color:
  assumes "i < length pv"
  shows "sgr_color palette (drop (i + 1) pv) =
    (snd (sgr_extended palette pv i), drop (fst (sgr_extended palette pv i) + 1) pv)"
  using sgr_extended_append [of "take (i + 1) pv" i palette "drop (i + 1) pv"] assms
  by (simp only: append_take_drop_id) simp

lemma sgr_loop_stream: "sgr_loop pe pv i t = sgr_stream pe (drop i pv) t"
proof (induction pe pv i t rule: sgr_loop.induct)
  case (1 pe pv i t)
  show ?case
  proof (cases "i < length pv")
    case True
    then have d: "drop i pv = pv ! i # drop (i + 1) pv" by (simp add: Cons_nth_drop_Suc)
    have "sgr_loop pe pv i t =
        sgr_stream pe (drop (fst (sgr_step pe pv i t) + 1) pv) (snd (sgr_step pe pv i t))"
      using True 1 [OF True surjective_pairing [symmetric]]
      by (simp add: sgr_loop.simps [of pe pv i t] split_beta)
    also have "\<dots> = sgr_stream pe (pv ! i # drop (i + 1) pv) t"
      by (simp add: sgr_step_def Let_def sgr_extended_color [OF True, simplified] split_beta split: option.split)
    finally show ?thesis by (simp only: d)
  qed (simp add: sgr_loop.simps)
qed

text \<open>the index loop of \<open>handle_sgr\<close>, with its look-ahead and its \<open>i += 3\<close>, is the parameter
stream read from the left: a plain code changes the pen, 38 and 48 take the colour that follows them,
a truncated true-colour sequence is skipped past its 2 and the rest read as plain codes; no parameter
is read twice or skipped, and the empty list is a reset.\<close>

theorem handle_sgr_is_stream:
  "handle_sgr pe pv t = (if pv = [] then reset_attrs pe t else sgr_stream pe pv t)"
  by (simp add: handle_sgr_def sgr_loop_stream)

text \<open>the private prefix of \<open>CSI > 4 ; 2 m\<close> (the key-modifier setting XTMODKEYS) is not looked at: the
sequence is taken for SGR 4 and 2, and turns underline and dim on in any state.\<close>

theorem modify_keys_taken_for_sgr:
  "csi_dispatch pe [(4, []), (2, [])] (byte_lit ''>'') CHR ''m'' t =
    t\<lparr>t_attrs := t_attrs t OR UNDERLINE OR DIM\<rparr>"
  by (simp add: csi_dispatch_def csi_action_def byte_lit_def handle_sgr_def sgr_loop_stream sgr_simple_def set_attr_def
      word_bw_assocs)

section \<open>Colours\<close>

text \<open>The 256-colour lookup never truncates: indices 16 to 231 give the 6x6x6 cube with components
0, 95, 135, 175, 215, 255 by the base-6 digits of the index, 232 to 255 the grey ramp 8, 18, \<dots>, 238,
below 16 the palette, always opaque.\<close>

theorem color_256_exact:
  "let n = unat i; level = (\<lambda>d. if d = 0 then 0 else 55 + 40 * d) in
    (if n < 16 then color_256 i = ANSI_16 ! n
     else if n < 232 then
       map unat [col_r (color_256 i), col_g (color_256 i), col_b (color_256 i)] =
         [level ((n - 16) div 36), level ((n - 16) div 6 mod 6), level ((n - 16) mod 6)]
     else map unat [col_r (color_256 i), col_g (color_256 i), col_b (color_256 i)] =
         replicate 3 (8 + 10 * (n - 232)))
    \<and> col_a (color_256 i) = 255"
proof -
  have *: "i < 16 \<longleftrightarrow> unat i < 16" "i < 232 \<longleftrightarrow> unat i < 232" "16 \<le> i \<longleftrightarrow> \<not> unat i < 16"
    "232 \<le> i \<longleftrightarrow> \<not> unat i < 232"
    by (auto simp: word_less_nat_alt word_le_nat_alt)
  have "unat i < 16 \<Longrightarrow> col_a (ANSI_16 ! unat i) = 255"
    by (auto simp: ANSI_16_def rgba_def nth_Cons split: nat.split)
  moreover have "unat i < 16 \<Longrightarrow> color_256 i = ANSI_16 ! unat i" using * by (simp add: color_256_def)
  ultimately show ?thesis
    using color_256_cube [of i] color_256_grey [of i] *
    by (cases "unat i < 16"; cases "unat i < 232") (simp_all add: Let_def numeral_3_eq_3)
qed

section \<open>Replies and title\<close>

lemma respond_pending [simp]: "t_pending_response (respond b t) = t_pending_response t @ b"
  by (simp add: respond_def)

definition appends :: "'p terminal \<Rightarrow> 'p terminal \<Rightarrow> bool" where
  "appends t t' \<longleftrightarrow> (\<exists>b. t_pending_response t' = t_pending_response t @ b)"

lemma appends_trans: "appends t t' \<Longrightarrow> appends t' t'' \<Longrightarrow> appends t t''"
  by (auto simp: appends_def)

lemma appends_same: "t_pending_response t' = t_pending_response t \<Longrightarrow> appends t t'"
  by (simp add: appends_def)

lemma private_mode_pending: "t_pending_response (private_mode on code t) = t_pending_response t"
  by (simp add: private_mode_def enter_alt_screen_def exit_alt_screen_def clear_pending_wrap_def Let_def split: option.split)

lemma put_char_pending_response: "t_pending_response (put_char t c) = t_pending_response t"
  by (simp add: put_char_def prepare_for_printable_def wrap_to_next_line_def Let_def)

lemma csi_action_appends: "appends t (csi_action pe pv im action t)"
proof -
  have "\<And>b. appends t (respond b t)" "appends t (csi_position pv t)" "appends t (csi_set_region pv t)"
    "\<And>x. appends t (t\<lparr>t_cursor_row := x\<rparr>)" "\<And>x. appends t (t\<lparr>t_cursor_col := x\<rparr>)"
    "appends t t"
    by (simp_all add: appends_def csi_position_def csi_set_region_def Let_def)
  moreover have "appends t (csi_erase_display pv t)" "appends t (csi_erase_line pv t)"
    "appends t (csi_insert_lines pv t)" "appends t (csi_delete_lines pv t)"
    "\<And>n. appends t ((scroll_up ^^ n) t)" "\<And>n. appends t ((scroll_down ^^ n) t)"
    "appends t (csi_insert_chars pv t)" "appends t (csi_delete_chars pv t)" "appends t (csi_erase_chars pv t)"
    by (rule appends_same, rule screen_step_frame, rule screen_steps)+
  moreover have "appends t (handle_sgr pe pv t)"
    by (rule appends_same, rule pen_step_frame, rule handle_sgr_pen)
  ultimately show ?thesis
    unfolding csi_action_def by (intro if_split [where P = "appends t", THEN iffD2] conjI impI)
qed

lemma perform_appends: "appends t (perform pe a t)"
proof (cases a)
  case (Csi ps im ignore action)
  have "appends t (csi_private action (map fst ps) t)"
    by (rule appends_same) (simp add: csi_private_def fold_frame [where g = t_pending_response] private_mode_pending)
  moreover have "appends t (csi_action pe (map fst ps) im action (clear_pending_wrap t))"
    using csi_action_appends [of "clear_pending_wrap t"] by (simp add: appends_def)
  ultimately show ?thesis
    using csi_action_appends [of t pe "map fst ps" im action] by (simp add: Csi csi_dispatch_def appends_same Let_def)
qed (auto simp: put_char_pending_response execute_def line_feed_def osc_dispatch_def esc_dispatch_def Let_def
    intro!: appends_same split: option.split)

text \<open>replies to the child are only ever queued behind those already waiting: whatever a chunk of
output contains, what was pending stays, first and in order, until it is taken, and taking it returns
exactly the queue and empties it.\<close>

theorem replies_are_queued:
  "(\<exists>b. t_pending_response (process_bytes pd advance pe bytes t) = t_pending_response t @ b)
    \<and> fst (take_pending_response t) = t_pending_response t
    \<and> t_pending_response (snd (take_pending_response t)) = []"
proof -
  have "appends t (snd (fold (\<lambda>b (p, t). case advance p b of (p', as) \<Rightarrow> (p', fold (perform pe) as t)) bytes
      (t_parser t, t\<lparr>t_parser := pd\<rparr>)))"
    by (rule feed_keeps [where P = "appends t"]) (auto intro: appends_trans perform_appends appends_same)
  then show ?thesis by (simp add: process_bytes_def Let_def split_beta take_pending_response_def appends_def)
qed

text \<open>\<open>OSC 0\<close> and \<open>OSC 2\<close> with a valid UTF-8 string set the title to exactly that string, and a
payload that is not UTF-8 leaves the old title; nothing else in the emulator changes.\<close>

theorem osc_sets_title:
  assumes "cmd \<in> {byte_lit ''0'', byte_lit ''2''}" and "\<And>c. c \<in> set s \<Longrightarrow> is_scalar c"
  shows "perform pe (Osc (cmd # utf8 s # params) bell) t = t\<lparr>t_title := s\<rparr>
    \<and> (from_utf8 payload = None \<longrightarrow> perform pe (Osc (cmd # payload # params) bell) t = t)"
  using assms from_utf8_utf8 [of s] by (auto simp: osc_dispatch_def)

theorem osc_sets_title_witness:
  "perform False (Osc [byte_lit ''2'', utf8 [8364]] False) (terminal_new False () 2 2 0) =
      (terminal_new False () 2 2 0)\<lparr>t_title := [8364]\<rparr>
    \<and> perform False (Osc [byte_lit ''2'', [255]] False) (terminal_new False () 2 2 0) = terminal_new False () 2 2 0"
proof -
  have "from_utf8 [255] = None" by (simp add: from_utf8.simps)
  then show ?thesis
    using osc_sets_title [of "byte_lit ''2''" "[8364]" False "[]" False "terminal_new False () 2 2 0" "[255]"]
    by (simp add: is_scalar_def)
qed

section \<open>Chunks\<close>

text \<open>
  The grids carry a copy of the cursor, which \<open>process_bytes\<close> sets at the end of a chunk and the
  operations never read. \<open>park\<close> forgets it; every operation is the same with or without it.
\<close>

definition park :: "grid \<Rightarrow> grid" where
  "park g = g\<lparr>g_cursor_row := 0, g_cursor_col := 0\<rparr>"

definition blind :: "'p terminal \<Rightarrow> 'p terminal" where
  "blind t = t\<lparr>t_grid := park (t_grid t), t_alt_grid := map_option park (t_alt_grid t)\<rparr>"

lemma park_simps [simp]:
  "g_rows (park g) = g_rows g" "g_cols (park g) = g_cols g" "g_cells (park g) = g_cells g"
  "park (park g) = park g" "park (grid_set_cursor g r c) = park g"
  "grid_get (park g) = grid_get g" "grid_set (park g) r c x = park (grid_set g r c x)"
  "grid_set_cursor_visible (park g) v = park (grid_set_cursor_visible g v)"
  "fst (grid_scroll_up (park g)) = fst (grid_scroll_up g)"
  "snd (grid_scroll_up (park g)) = park (snd (grid_scroll_up g))"
  by (simp_all add: park_def grid_set_cursor_def grid_get_def grid_set_def grid_set_cursor_visible_def
      grid_scroll_up_def Let_def fun_eq_iff)

lemma fold_park: "(\<And>x g. f x (park g) = park (f x g)) \<Longrightarrow> fold f xs (park g) = park (fold f xs g)"
  by (induction xs arbitrary: g) simp_all

lemma blind_simps [simp]:
  "t_grid (blind t) = park (t_grid t)" "t_alt_grid (blind t) = map_option park (t_alt_grid t)"
  "t_rows (blind t) = t_rows t" "t_cols (blind t) = t_cols t"
  "t_cursor_row (blind t) = t_cursor_row t" "t_cursor_col (blind t) = t_cursor_col t"
  "t_wrap_pending (blind t) = t_wrap_pending t" "t_saved_cursor (blind t) = t_saved_cursor t"
  "t_fg (blind t) = t_fg t" "t_bg (blind t) = t_bg t" "t_attrs (blind t) = t_attrs t"
  "t_scrollback (blind t) = t_scrollback t" "t_scroll_top (blind t) = t_scroll_top t"
  "t_scroll_bot (blind t) = t_scroll_bot t" "t_pending_response (blind t) = t_pending_response t"
  "t_alt_saved_cursor (blind t) = t_alt_saved_cursor t" "t_alt_saved_fg (blind t) = t_alt_saved_fg t"
  "t_alt_saved_bg (blind t) = t_alt_saved_bg t" "t_alt_saved_attrs (blind t) = t_alt_saved_attrs t"
  "t_mouse_modes (blind t) = t_mouse_modes t" "t_parser (blind t) = t_parser t"
  "blank_cell (blind t) = blank_cell t"
  "region_is_full_screen (blind t) = region_is_full_screen t" "blind (blind t) = blind t"
  by (simp_all add: blind_def blank_cell_def region_is_full_screen_def option.map_comp comp_def)

lemma blind_updates [simp]:
  "(blind t)\<lparr>t_cursor_row := x\<rparr> = blind (t\<lparr>t_cursor_row := x\<rparr>)"
  "(blind t)\<lparr>t_cursor_col := x\<rparr> = blind (t\<lparr>t_cursor_col := x\<rparr>)"
  "(blind t)\<lparr>t_wrap_pending := b\<rparr> = blind (t\<lparr>t_wrap_pending := b\<rparr>)"
  "(blind t)\<lparr>t_saved_cursor := sc\<rparr> = blind (t\<lparr>t_saved_cursor := sc\<rparr>)"
  "(blind t)\<lparr>t_fg := c\<rparr> = blind (t\<lparr>t_fg := c\<rparr>)" "(blind t)\<lparr>t_bg := c\<rparr> = blind (t\<lparr>t_bg := c\<rparr>)"
  "(blind t)\<lparr>t_attrs := a\<rparr> = blind (t\<lparr>t_attrs := a\<rparr>)" "(blind t)\<lparr>t_title := s\<rparr> = blind (t\<lparr>t_title := s\<rparr>)"
  "(blind t)\<lparr>t_scrollback := sbk\<rparr> = blind (t\<lparr>t_scrollback := sbk\<rparr>)"
  "(blind t)\<lparr>t_scroll_top := x\<rparr> = blind (t\<lparr>t_scroll_top := x\<rparr>)"
  "(blind t)\<lparr>t_scroll_bot := x\<rparr> = blind (t\<lparr>t_scroll_bot := x\<rparr>)"
  "(blind t)\<lparr>t_pending_response := rs\<rparr> = blind (t\<lparr>t_pending_response := rs\<rparr>)"
  "(blind t)\<lparr>t_mouse_modes := mm\<rparr> = blind (t\<lparr>t_mouse_modes := mm\<rparr>)"
  "(blind t)\<lparr>t_focus_reporting_1004 := b\<rparr> = blind (t\<lparr>t_focus_reporting_1004 := b\<rparr>)"
  "(blind t)\<lparr>t_synchronized_output_active := b\<rparr> = blind (t\<lparr>t_synchronized_output_active := b\<rparr>)"
  "(blind t)\<lparr>t_parser := p\<rparr> = blind (t\<lparr>t_parser := p\<rparr>)"
  "(blind t)\<lparr>t_grid := park g\<rparr> = blind (t\<lparr>t_grid := g\<rparr>)"
  by (simp_all add: blind_def)

lemma blind_clear_pending [simp]: "clear_pending_wrap (blind t) = blind (clear_pending_wrap t)"
  by (simp add: clear_pending_wrap_def)

lemma blind_copy_row [simp]: "copy_row (blind t) d s = blind (copy_row t d s)"
  by (simp add: copy_row_def fold_park)

lemma blind_clear_row [simp]: "clear_row (blind t) r = blind (clear_row t r)"
  by (simp add: clear_row_def fold_park)

lemma blind_clear_region [simp]: "clear_region (blind t) a b c d = blind (clear_region t a b c d)"
  by (simp add: clear_region_def Let_def fold_park del: upt_Suc)

lemma fold_blind: "(\<And>x t. f x (blind t) = blind (f x t)) \<Longrightarrow> fold f xs (blind t) = blind (fold f xs t)"
  by (induction xs arbitrary: t) simp_all

lemma funpow_blind:
  fixes f :: "'p terminal \<Rightarrow> 'p terminal"
  shows "(\<And>t. f (blind t) = blind (f t)) \<Longrightarrow> (f ^^ n) (blind t) = blind ((f ^^ n) t)"
  by (induction n) simp_all

lemma blind_scroll_up [simp]: "scroll_up (blind t) = blind (scroll_up t)"
  by (simp add: scroll_up_def scroll_up_and_capture_def Let_def split_beta fold_blind)

lemma blind_scroll_down [simp]: "scroll_down (blind t) = blind (scroll_down t)"
  by (simp add: scroll_down_def Let_def fold_blind)

lemma blind_wrap [simp]: "wrap_to_next_line (blind t) = blind (wrap_to_next_line t)"
  by (simp add: wrap_to_next_line_def Let_def)

lemma blind_prepare [simp]: "prepare_for_printable (blind t) = blind (prepare_for_printable t)"
  by (simp add: prepare_for_printable_def)

lemma blind_put_char [simp]: "put_char (blind t) c = blind (put_char t c)"
  by (simp add: put_char_def Let_def)

lemma blind_execute [simp]: "execute b (blind t) = blind (execute b t)"
  by (simp add: execute_def line_feed_def Let_def)

lemma blind_sgr_simple [simp]: "sgr_simple pe code (blind t) = blind (sgr_simple pe code t)"
  unfolding sgr_simple_def reset_attrs_def set_attr_def unset_attr_def
  by (simp only: if_distrib [of blind] blind_simps blind_updates cong: if_cong split del: if_split)

lemma blind_sgr_stream [simp]: "sgr_stream pe ps (blind t) = blind (sgr_stream pe ps t)"
proof (induction "length ps" arbitrary: ps t rule: less_induct)
  case less
  show ?case
  proof (cases ps)
    case (Cons code qs)
    have "length (snd (sgr_color palette qs)) < length ps" for palette
      using sgr_color_length [of palette qs] Cons by simp
    then have ih: "sgr_stream pe (snd (sgr_color palette qs)) (blind u) =
        blind (sgr_stream pe (snd (sgr_color palette qs)) u)" for palette and u :: "'a terminal"
      by (rule less)
    have "sgr_stream pe qs (blind u) = blind (sgr_stream pe qs u)" for u :: "'a terminal"
      using Cons by (intro less) simp
    with ih show ?thesis by (simp add: Cons Let_def split_beta split: option.split)
  qed simp
qed

lemma blind_handle_sgr [simp]: "handle_sgr pe ps (blind t) = blind (handle_sgr pe ps t)"
  by (simp add: handle_sgr_def sgr_loop_stream reset_attrs_def)

lemma blind_respond [simp]: "respond b (blind t) = blind (respond b t)"
  by (simp add: respond_def)

lemma blind_position [simp]: "csi_position pv (blind t) = blind (csi_position pv t)"
  by (simp add: csi_position_def Let_def)

lemma blind_erase_display [simp]: "csi_erase_display pv (blind t) = blind (csi_erase_display pv t)"
  unfolding csi_erase_display_def Let_def
  by (simp only: if_distrib [of blind] blind_clear_region blind_simps blind_updates if_cancel
      cong: if_cong) (simp add: sb_clear_def)

lemma blind_erase_line [simp]: "csi_erase_line pv (blind t) = blind (csi_erase_line pv t)"
  by (simp add: csi_erase_line_def Let_def)

lemma blind_lines [simp]:
  "csi_insert_lines pv (blind t) = blind (csi_insert_lines pv t)"
  "csi_delete_lines pv (blind t) = blind (csi_delete_lines pv t)"
  by (simp_all add: csi_insert_lines_def csi_delete_lines_def Let_def fold_blind)

lemma move_cells_park:
  "fold (\<lambda>c g. case grid_get g r (f c) of Some x \<Rightarrow> grid_set g r c x | None \<Rightarrow> g) cs (park g) =
    park (fold (\<lambda>c g. case grid_get g r (f c) of Some x \<Rightarrow> grid_set g r c x | None \<Rightarrow> g) cs g)"
  by (rule fold_park) (simp split: option.split)

lemma fill_park: "fold (\<lambda>c g. grid_set g r c x) cs (park g) = park (fold (\<lambda>c g. grid_set g r c x) cs g)"
  by (rule fold_park) simp

lemma blind_chars [simp]:
  "csi_insert_chars pv (blind t) = blind (csi_insert_chars pv t)"
  "csi_delete_chars pv (blind t) = blind (csi_delete_chars pv t)"
  "csi_erase_chars pv (blind t) = blind (csi_erase_chars pv t)"
  unfolding csi_insert_chars_def csi_delete_chars_def csi_erase_chars_def Let_def
  by (simp_all only: blind_simps move_cells_park fill_park blind_updates)

lemma blind_set_region [simp]: "csi_set_region pv (blind t) = blind (csi_set_region pv t)"
  unfolding csi_set_region_def Let_def by (simp only: if_distrib [of blind] blind_simps blind_updates)

lemma blind_report [simp]: "cursor_report (blind t) = cursor_report t"
  by (simp add: cursor_report_def)

lemma blind_csi_action [simp]: "csi_action pe pv im action (blind t) = blind (csi_action pe pv im action t)"
  unfolding csi_action_def
  by (simp only: if_distrib [of blind] blind_simps blind_updates blind_position blind_erase_display
      blind_erase_line blind_lines blind_chars blind_set_region blind_report blind_respond blind_handle_sgr
      funpow_blind [where f = scroll_up, OF blind_scroll_up]
      funpow_blind [where f = scroll_down, OF blind_scroll_down] cong: if_cong split del: if_split)

text \<open>Only switching screens writes the copies; the results agree once they are forgotten.\<close>

lemma blind_private_mode: "blind (private_mode on code (blind t)) = blind (private_mode on code t)"
proof -
  have "blind (enter_alt_screen (blind t)) = blind (enter_alt_screen t)"
    by (simp add: enter_alt_screen_def Let_def) (simp add: blind_def clear_pending_wrap_def)
  moreover have "blind (exit_alt_screen (blind t)) = blind (exit_alt_screen t)"
    by (cases "t_alt_grid t") (simp_all add: exit_alt_screen_def Let_def, simp add: blind_def clear_pending_wrap_def)
  ultimately show ?thesis by (simp add: private_mode_def)
qed

lemma fold_blind_outer:
  assumes "\<And>x t. blind (f x (blind t)) = blind (f x t)"
  shows "blind (fold f xs (blind t)) = blind (fold f xs t)"
proof (induction xs arbitrary: t)
  case (Cons x xs)
  have "blind (fold f (x # xs) (blind t)) = blind (fold f xs (blind (f x (blind t))))" by (simp add: Cons.IH)
  also have "\<dots> = blind (fold f xs (blind (f x t)))" by (simp only: assms)
  also have "\<dots> = blind (fold f (x # xs) t)" by (simp add: Cons.IH)
  finally show ?case .
qed simp

lemma blind_perform: "blind (perform pe a (blind t)) = blind (perform pe a t)"
proof (cases a)
  case (Csi ps im ignore action)
  have "blind (csi_private action pv (blind t)) = blind (csi_private action pv t)" for pv
    by (simp add: csi_private_def fold_blind_outer [where f = "private_mode on" for on, OF blind_private_mode])
  then show ?thesis
    unfolding Csi perform.simps csi_dispatch_def Let_def
    by (simp only: if_distrib [of blind] blind_clear_pending blind_csi_action blind_simps
        if_distrib [of "csi_action pe (map fst ps) im action"] cong: if_cong split del: if_split)
next
  case (Esc im ignore b)
  show ?thesis
    unfolding Esc perform.simps esc_dispatch_def Let_def
    by (simp only: if_distrib [of blind] blind_clear_pending blind_scroll_down blind_simps blind_updates
        cong: if_cong split del: if_split)
next
  case (Osc ps bell)
  show ?thesis
    unfolding Osc perform.simps osc_dispatch_def
    by (cases "from_utf8 (ps ! 1)")
      (simp_all only: option.case if_distrib [of blind] blind_simps blind_updates cong: if_cong split del: if_split)
next
  case (Print c)
  show ?thesis by (simp only: Print perform.simps blind_put_char blind_simps)
next
  case (Execute b)
  show ?thesis by (simp only: Execute perform.simps blind_execute blind_simps)
qed (simp_all only: perform.simps blind_simps)

definition feed ::
    "('p \<Rightarrow> u8 \<Rightarrow> 'p \<times> vte_action list) \<Rightarrow> bool \<Rightarrow> u8 \<Rightarrow> 'p \<times> 'p terminal \<Rightarrow> 'p \<times> 'p terminal" where
  "feed advance pe b s = (case advance (fst s) b of (p', as) \<Rightarrow> (p', fold (perform pe) as (snd s)))"

lemma feed_blind:
  assumes "fst s = fst s'" and "blind (snd s) = blind (snd s')"
  shows "fst (fold (feed advance pe) bytes s) = fst (fold (feed advance pe) bytes s')
    \<and> blind (snd (fold (feed advance pe) bytes s)) = blind (snd (fold (feed advance pe) bytes s'))"
  using assms
proof (induction bytes arbitrary: s s')
  case (Cons b bytes)
  obtain p as where adv: "advance (fst s) b = (p, as)" by (cases "advance (fst s) b")
  have "blind (fold (perform pe) as (snd s)) = blind (fold (perform pe) as (snd s'))"
    using fold_blind_outer [of "perform pe", OF blind_perform, of as "snd s"]
      fold_blind_outer [of "perform pe", OF blind_perform, of as "snd s'"] Cons.prems(2) by simp
  then show ?case
    using Cons.IH [of "feed advance pe b s" "feed advance pe b s'"] adv Cons.prems(1) by (simp add: feed_def)
qed simp

lemma put_char_parser: "t_parser (put_char t c) = t_parser t"
  by (simp add: put_char_def prepare_for_printable_def wrap_to_next_line_def Let_def)

lemma clear_pending_parser [simp]: "t_parser (clear_pending_wrap t) = t_parser t"
  by (simp add: clear_pending_wrap_def)

lemma csi_action_parser: "t_parser (csi_action pe pv im action t) = t_parser t"
proof -
  have "t_parser (respond b t) = t_parser t" "t_parser (csi_position pv t) = t_parser t"
    "t_parser (csi_set_region pv t) = t_parser t"
    "t_parser (t\<lparr>t_cursor_row := x\<rparr>) = t_parser t" "t_parser (t\<lparr>t_cursor_col := x\<rparr>) = t_parser t" for b x
    by (simp_all add: respond_def csi_position_def csi_set_region_def Let_def)
  moreover have "t_parser (csi_erase_display pv t) = t_parser t" "t_parser (csi_erase_line pv t) = t_parser t"
    "t_parser (csi_insert_lines pv t) = t_parser t" "t_parser (csi_delete_lines pv t) = t_parser t"
    "\<And>n. t_parser ((scroll_up ^^ n) t) = t_parser t" "\<And>n. t_parser ((scroll_down ^^ n) t) = t_parser t"
    "t_parser (csi_insert_chars pv t) = t_parser t" "t_parser (csi_delete_chars pv t) = t_parser t"
    "t_parser (csi_erase_chars pv t) = t_parser t"
    by (rule screen_step_frame(1), rule screen_steps)+
  moreover have "t_parser (handle_sgr pe pv t) = t_parser t"
    by (rule pen_step_frame, rule handle_sgr_pen)
  ultimately show ?thesis
    unfolding csi_action_def
    by (simp only: if_distrib [of t_parser] if_cancel cong: if_cong split del: if_split)
qed

lemma private_mode_parser: "t_parser (private_mode on code t) = t_parser t"
  by (simp add: private_mode_def enter_alt_screen_def exit_alt_screen_def Let_def split: option.split)

lemma perform_parser: "t_parser (perform pe a t) = t_parser t"
proof (cases a)
  case (Csi ps im ignore action)
  have "t_parser (csi_private action pv t) = t_parser t" for pv
    by (simp add: csi_private_def fold_frame [where g = t_parser] private_mode_parser)
  then show ?thesis by (simp add: Csi csi_dispatch_def Let_def csi_action_parser)
qed (simp_all add: put_char_parser execute_def line_feed_def osc_dispatch_def esc_dispatch_def Let_def split: option.split)

lemma perform_parser_frame: "t_parser (fold (perform pe) as t) = t_parser t"
  by (rule fold_frame) (rule perform_parser)

text \<open>The callbacks run on a terminal whose parser is taken out, and do not look at it.\<close>

lemma process_bytes_feed:
  "process_bytes pd advance pe bytes t =
    (let s = fold (feed advance pe) bytes (t_parser t, t\<lparr>t_parser := pd\<rparr>);
         u = (snd s)\<lparr>t_parser := fst s\<rparr>
     in u\<lparr>t_grid := grid_set_cursor (t_grid u) (t_cursor_row u) (t_cursor_col u)\<rparr>)"
proof -
  have "(\<lambda>b (p, t). case advance p b of (p', as) \<Rightarrow> (p', fold (perform pe) as t)) = feed advance pe"
    by (simp add: feed_def fun_eq_iff split_beta)
  then show ?thesis by (simp add: process_bytes_def Let_def split_beta)
qed


definition forget_saved_cursor_copy :: "'p terminal \<Rightarrow> 'p terminal" where
  "forget_saved_cursor_copy t = t\<lparr>t_alt_grid := map_option park (t_alt_grid t)\<rparr>"

lemma sync_cursor_blind:
  assumes "blind u = blind v"
  shows "forget_saved_cursor_copy (u\<lparr>t_grid := grid_set_cursor (t_grid u) (t_cursor_row u) (t_cursor_col u)\<rparr>) =
    forget_saved_cursor_copy (v\<lparr>t_grid := grid_set_cursor (t_grid v) (t_cursor_row v) (t_cursor_col v)\<rparr>)"
proof -
  have set: "forget_saved_cursor_copy (w\<lparr>t_grid := grid_set_cursor (t_grid w) (t_cursor_row w) (t_cursor_col w)\<rparr>) =
      (blind w)\<lparr>t_grid := grid_set_cursor (t_grid (blind w)) (t_cursor_row (blind w)) (t_cursor_col (blind w))\<rparr>"
    for w :: "'a terminal"
    by (simp add: forget_saved_cursor_copy_def blind_def park_def grid_set_cursor_def)
  show ?thesis by (simp only: set assms)
qed

text \<open>C5: where the operating system cuts the child's output does not matter: feeding it as one chunk
or as two gives the same terminal, for any parser, any output and any cut, up to the cursor copy inside
the saved main grid, which is overwritten when the alternate screen is left.\<close>

theorem chunks_do_not_matter:
  "forget_saved_cursor_copy (process_bytes pd advance pe (xs @ ys) t) =
    forget_saved_cursor_copy (process_bytes pd advance pe ys (process_bytes pd advance pe xs t))"
proof -
  define s where "s = fold (feed advance pe) xs (t_parser t, t\<lparr>t_parser := pd\<rparr>)"
  define u where "u = process_bytes pd advance pe xs t"
  have parser: "t_parser u = fst s" by (simp add: u_def s_def process_bytes_feed Let_def)
  have pd: "t_parser (snd s) = pd"
    unfolding s_def by (rule fold_keeps [where P = "\<lambda>s. t_parser (snd s) = pd"])
      (auto simp: feed_def split_beta perform_parser_frame)
  have u: "u\<lparr>t_parser := pd\<rparr> = (snd s)\<lparr>t_grid := grid_set_cursor (t_grid (snd s)) (t_cursor_row (snd s)) (t_cursor_col (snd s))\<rparr>"
    using pd by (simp add: u_def s_def [symmetric] process_bytes_feed Let_def)
  have "blind (u\<lparr>t_parser := pd\<rparr>) = blind (snd s)" unfolding u by (simp add: blind_def)
  then have "fst (fold (feed advance pe) ys (fst s, u\<lparr>t_parser := pd\<rparr>)) = fst (fold (feed advance pe) ys s)
      \<and> blind (snd (fold (feed advance pe) ys (fst s, u\<lparr>t_parser := pd\<rparr>))) = blind (snd (fold (feed advance pe) ys s))"
    by (intro feed_blind) simp_all
  then show ?thesis
    unfolding u_def [symmetric] process_bytes_feed [of pd advance pe "xs @ ys"] process_bytes_feed [of pd advance pe ys u]
    unfolding parser Let_def fold_append comp_apply s_def [symmetric]
    by (intro sync_cursor_blind) (simp flip: blind_updates)
qed

end
