(* ===== verification/Frame.thy ===== *)
theory Frame
  imports Rust_Str
begin

text \<open>
  The wire protocol of the pty daemon: \<open>protocol/error.rs\<close>, \<open>frame.rs\<close> (length-prefixed frames) and
  \<open>codec.rs\<close> (reading and writing them on a stream). A byte stream is the list of what its reads
  deliver, a chunk of bytes or an I/O failure, so that a property of every chunking is a property of
  every such list; at the end of the list a read returns no bytes. The error of \<open>serde_json\<close> is a bare
  constructor, nothing at this level raises it.
\<close>

section \<open>Errors and constants\<close>

datatype io_error_kind = UnexpectedEof | InvalidData | OtherIo

datatype protocol_error =
    FrameTooLarge u32 u32
  | EmptyFrame
  | UnknownKind u8
  | MalformedJson
  | IoError io_error_kind

definition MAX_FRAME_LEN :: u32 where "MAX_FRAME_LEN = 1024 * 1024"
definition KIND_CONTROL :: u8 where "KIND_CONTROL = 0"
definition KIND_OUTPUT :: u8 where "KIND_OUTPUT = 1"
definition KIND_EVENT :: u8 where "KIND_EVENT = 2"
definition LEN_PREFIX_SIZE :: nat where "LEN_PREFIX_SIZE = 4"

text \<open>\<open>to_le_bytes\<close>, \<open>from_le_bytes\<close> and \<open>u32::try_from\<close> of the standard library.\<close>

definition to_le_bytes :: "u32 \<Rightarrow> u8 list" where
  "to_le_bytes x = map (\<lambda>k. byte (unat x div 256 ^ k mod 256)) [0..<4]"

fun from_le_nat :: "u8 list \<Rightarrow> nat" where
  "from_le_nat [] = 0"
| "from_le_nat (b # bs) = unat b + 256 * from_le_nat bs"

definition from_le_bytes :: "u8 list \<Rightarrow> u32" where
  "from_le_bytes bs = of_nat (from_le_nat bs)"

definition u32_try_from :: "nat \<Rightarrow> u32 option" where
  "u32_try_from n = (if n < 2 ^ 32 then Some (of_nat n) else None)"

section \<open>Frames\<close>

text \<open>\<open>encode_frame\<close> appends to \<open>out\<close>; on an error it has not touched it.\<close>

definition encode_frame :: "u8 \<Rightarrow> u8 list \<Rightarrow> u8 list \<Rightarrow> protocol_error + u8 list" where
  "encode_frame kind payload out =
     (case u32_try_from (length payload + 1) of
        None \<Rightarrow> Inl (FrameTooLarge (- 1) MAX_FRAME_LEN)
      | Some body_len \<Rightarrow>
          if body_len > MAX_FRAME_LEN then Inl (FrameTooLarge body_len MAX_FRAME_LEN)
          else Inr (out @ to_le_bytes body_len @ [kind] @ payload))"

record frame_header =
  fh_kind :: u8
  fh_payload_len :: u32

definition decode_length :: "u8 list \<Rightarrow> protocol_error + u32" where
  "decode_length prefix =
     (let body_len = from_le_bytes prefix in
      if body_len = 0 then Inl EmptyFrame
      else if body_len > MAX_FRAME_LEN then Inl (FrameTooLarge body_len MAX_FRAME_LEN)
      else Inr body_len)"

definition split_header :: "u8 list \<Rightarrow> protocol_error + (frame_header \<times> u8 list)" where
  "split_header body =
     (case body of
        [] \<Rightarrow> Inl EmptyFrame
      | kind # payload \<Rightarrow>
          if kind \<noteq> KIND_CONTROL \<and> kind \<noteq> KIND_OUTPUT \<and> kind \<noteq> KIND_EVENT then Inl (UnknownKind kind)
          else (case u32_try_from (length payload) of
                  None \<Rightarrow> Inl (FrameTooLarge (- 1) MAX_FRAME_LEN)
                | Some n \<Rightarrow> Inr (\<lparr>fh_kind = kind, fh_payload_len = n\<rparr>, payload)))"

section \<open>Streams\<close>

record frame =
  fr_kind :: u8
  fr_payload :: "u8 list"

text \<open>What the reads of a stream deliver: \<open>None\<close> is an I/O failure.\<close>

type_synonym reader = "u8 list option list"

definition read_some :: "nat \<Rightarrow> reader \<Rightarrow> protocol_error + (u8 list \<times> reader)" where
  "read_some cap rd =
     (case rd of
        [] \<Rightarrow> Inr ([], [])
      | None # rd' \<Rightarrow> Inl (IoError OtherIo)
      | Some c # rd' \<Rightarrow> Inr (take cap c, if length c \<le> cap then rd' else Some (drop cap c) # rd'))"

definition reader_size :: "reader \<Rightarrow> nat" where
  "reader_size rd = sum_list (map (\<lambda>c. case c of None \<Rightarrow> 0 | Some b \<Rightarrow> length b) rd)"

lemma read_some_size:
  "read_some cap rd = Inr (b, rd') \<Longrightarrow> b \<noteq> [] \<Longrightarrow> reader_size rd' < reader_size rd"
  by (auto simp: read_some_def reader_size_def split: list.splits option.splits if_splits)

text \<open>
  The header loop of \<open>read_frame\<close>: \<open>got\<close> is the part of the prefix read so far. \<open>Inr None\<close> is the clean
  end of the stream.
\<close>

function read_header :: "u8 list \<Rightarrow> reader \<Rightarrow> protocol_error + (u8 list \<times> reader) option" where
  "read_header got rd =
     (if length got < LEN_PREFIX_SIZE then
        (case read_some (LEN_PREFIX_SIZE - length got) rd of
           Inl e \<Rightarrow> Inl e
         | Inr (b, rd') \<Rightarrow>
             if b = [] then (if got = [] then Inr None else Inl (IoError UnexpectedEof))
             else read_header (got @ b) rd')
      else Inr (Some (got, rd)))"
  by pat_completeness auto
termination
  by (relation "measure (\<lambda>(got, rd). reader_size rd)") (auto dest: read_some_size)

declare read_header.simps [simp del]

text \<open>\<open>read_exact\<close> of the I/O library: as many reads as it takes, and an error at the end of the stream.\<close>

function read_exact :: "nat \<Rightarrow> u8 list \<Rightarrow> reader \<Rightarrow> protocol_error + (u8 list \<times> reader)" where
  "read_exact n got rd =
     (if length got < n then
        (case read_some (n - length got) rd of
           Inl e \<Rightarrow> Inl e
         | Inr (b, rd') \<Rightarrow>
             if b = [] then Inl (IoError UnexpectedEof) else read_exact n (got @ b) rd')
      else Inr (got, rd))"
  by pat_completeness auto
termination
  by (relation "measure (\<lambda>(n, got, rd). reader_size rd)") (auto dest: read_some_size)

declare read_exact.simps [simp del]

definition read_frame :: "reader \<Rightarrow> protocol_error + (frame \<times> reader) option" where
  "read_frame rd =
     (case read_header [] rd of
        Inl e \<Rightarrow> Inl e
      | Inr None \<Rightarrow> Inr None
      | Inr (Some (len_buf, rd1)) \<Rightarrow>
          (case decode_length len_buf of
             Inl e \<Rightarrow> Inl e
           | Inr body_len \<Rightarrow>
               (case read_exact (unat body_len) [] rd1 of
                  Inl e \<Rightarrow> Inl e
                | Inr (body, rd2) \<Rightarrow>
                    (case split_header body of
                       Inl e \<Rightarrow> Inl e
                     | Inr (header, payload) \<Rightarrow>
                         Inr (Some (\<lparr>fr_kind = fh_kind header, fr_payload = payload\<rparr>, rd2))))))"

text \<open>\<open>write_frame\<close> on a stream that accepts everything: the bytes on the wire afterwards.\<close>

definition write_frame :: "u8 list \<Rightarrow> u8 \<Rightarrow> u8 list \<Rightarrow> protocol_error + u8 list" where
  "write_frame wire kind payload =
     (case encode_frame kind payload [] of Inl e \<Rightarrow> Inl e | Inr buf \<Rightarrow> Inr (wire @ buf))"

text \<open>A connection's read loop: frames until the end of the stream or an error.\<close>

function read_all :: "reader \<Rightarrow> frame list \<times> protocol_error option" where
  "read_all rd =
     (case read_frame rd of
        Inl e \<Rightarrow> ([], Some e)
      | Inr None \<Rightarrow> ([], None)
      | Inr (Some (f, rd')) \<Rightarrow>
          if reader_size rd' < reader_size rd
          then (case read_all rd' of (fs, e) \<Rightarrow> (f # fs, e)) else ([f], None))"
  by pat_completeness auto
termination
  by (relation "measure reader_size") auto

declare read_all.simps [simp del]

section \<open>Lengths\<close>

lemma unat_MAX_FRAME_LEN [simp]: "unat MAX_FRAME_LEN = 1048576"
  by (simp add: MAX_FRAME_LEN_def)

lemma length_to_le_bytes [simp]: "length (to_le_bytes x) = 4"
  by (simp add: to_le_bytes_def)

lemma to_le_bytes_eq:
  "to_le_bytes x = [byte (unat x mod 256), byte (unat x div 256 mod 256),
    byte (unat x div 65536 mod 256), byte (unat x div 16777216 mod 256)]"
proof -
  have "[0..<4] = [0, 1, 2, 3::nat]" by (simp add: upt_conv_Cons)
  then show ?thesis by (simp add: to_le_bytes_def)
qed

lemma base_256:
  assumes "n < (2::nat) ^ 32"
  shows "n mod 256 + 256 * (n div 256 mod 256 + 256 * (n div 65536 mod 256 + 256 * (n div 16777216 mod 256))) = n"
proof -
  have "n div 16777216 < 256" using assms by (simp add: less_mult_imp_div_less)
  then have 3: "n div 16777216 mod 256 = n div 16777216" by simp
  have 2: "n div 65536 mod 256 + 256 * (n div 16777216) = n div 65536"
    using mod_mult_div_eq [of "n div 65536" 256] by (simp only: div_mult2_eq [symmetric]) simp
  have 1: "n div 256 mod 256 + 256 * (n div 65536) = n div 256"
    using mod_mult_div_eq [of "n div 256" 256] by (simp only: div_mult2_eq [symmetric]) simp
  show ?thesis using mod_mult_div_eq [of n 256] by (simp only: 1 2 3)
qed

lemma unat_byte_mod: "unat (byte (k mod 256)) = k mod 256"
  by (rule unat_byte) simp

lemma from_le_to_le [simp]: "from_le_bytes (to_le_bytes x) = x"
proof -
  have "unat x < 2 ^ 32" using unsigned_less [of x] by simp
  from base_256 [OF this] have "from_le_nat (to_le_bytes x) = unat x"
    by (simp only: to_le_bytes_eq from_le_nat.simps unat_byte_mod mult_0_right add_0_right)
  then show ?thesis by (simp add: from_le_bytes_def)
qed

section \<open>Streams that deliver bytes\<close>

text \<open>What is left on a stream whose reads all succeed and deliver something.\<close>

definition live :: "reader \<Rightarrow> bool" where
  "live rd \<longleftrightarrow> (\<forall>c \<in> set rd. c \<noteq> None \<and> c \<noteq> Some [])"

definition rest :: "reader \<Rightarrow> u8 list" where
  "rest rd = concat (map (\<lambda>c. case c of None \<Rightarrow> [] | Some b \<Rightarrow> b) rd)"

lemma reader_size_rest: "reader_size rd = length (rest rd)"
  by (induction rd) (auto simp: reader_size_def rest_def split: option.split)

lemma rest_Nil_iff: "live rd \<Longrightarrow> rest rd = [] \<longleftrightarrow> rd = []"
  by (cases rd) (auto simp: live_def rest_def)

lemma read_some_live:
  assumes "live rd" and "0 < cap"
  obtains b rd' where "read_some cap rd = Inr (b, rd')" and "live rd'" and "rest rd = b @ rest rd'"
    and "length b \<le> cap" and "b = [] \<longleftrightarrow> rest rd = []"
proof (cases rd)
  case Nil
  then show ?thesis by (intro that [of "[]" "[]"]) (simp_all add: read_some_def live_def rest_def)
next
  case (Cons c rd')
  then obtain b where c: "c = Some b" "b \<noteq> []" using assms(1) by (auto simp: live_def)
  show ?thesis
    by (rule that [of "take cap b" "if length b \<le> cap then rd' else Some (drop cap b) # rd'"])
      (use assms Cons c in \<open>auto simp: read_some_def live_def rest_def\<close>)
qed

text \<open>Enough bytes are read however they are cut; with too few the stream ends in the middle.\<close>

lemma read_exact_live:
  assumes "live rd" and "length got \<le> n"
  shows "if n \<le> length got + length (rest rd)
    then \<exists>rd'. read_exact n got rd = Inr (got @ take (n - length got) (rest rd), rd') \<and> live rd'
      \<and> rest rd' = drop (n - length got) (rest rd)
    else read_exact n got rd = Inl (IoError UnexpectedEof)"
  using assms
proof (induction n got rd rule: read_exact.induct)
  case (1 n got rd)
  show ?case
  proof (cases "length got < n")
    case True
    then have "0 < n - length got" by simp
    from read_some_live [OF 1(2) this] obtain b rd' where b: "read_some (n - length got) rd = Inr (b, rd')"
      "live rd'" "rest rd = b @ rest rd'" "length b \<le> n - length got" "b = [] \<longleftrightarrow> rest rd = []" .
    show ?thesis
    proof (cases "b = []")
      case True
      with b \<open>length got < n\<close> show ?thesis by (simp add: read_exact.simps [of n got rd])
    next
      case False
      have "read_exact n got rd = read_exact n (got @ b) rd'"
        using b(1) False \<open>length got < n\<close> by (simp add: read_exact.simps [of n got rd])
      moreover have "length (got @ b) \<le> n" using b(4) True by simp
      ultimately show ?thesis using 1(1) [OF True b(1) refl False b(2)] b(3) by (auto simp: add.assoc)
    qed
  next
    case False
    with 1(3) have "length got = n" by simp
    then show ?thesis using 1(2) by (simp add: read_exact.simps [of n got rd])
  qed
qed

lemma read_exact_enough:
  assumes "live rd" and "n \<le> length (rest rd)"
  shows "\<exists>rd'. read_exact n [] rd = Inr (take n (rest rd), rd') \<and> live rd' \<and> rest rd' = drop n (rest rd)"
  using read_exact_live [OF assms(1), of "[]" n] assms(2) by (simp del: ex_simps)

lemma read_exact_short:
  assumes "live rd" and "length (rest rd) < n"
  shows "read_exact n [] rd = Inl (IoError UnexpectedEof)"
  using read_exact_live [OF assms(1), of "[]" n] assms(2) by simp

lemma read_header_exact:
  assumes "live rd" and "length got \<le> LEN_PREFIX_SIZE"
  shows "read_header got rd =
    (if got = [] \<and> rest rd = [] then Inr None
     else case read_exact LEN_PREFIX_SIZE got rd of Inl e \<Rightarrow> Inl e | Inr x \<Rightarrow> Inr (Some x))"
  using assms
proof (induction got rd rule: read_header.induct)
  case (1 got rd)
  show ?case
  proof (cases "length got < LEN_PREFIX_SIZE")
    case True
    then have "0 < LEN_PREFIX_SIZE - length got" by simp
    from read_some_live [OF 1(2) this] obtain b rd' where b: "read_some (LEN_PREFIX_SIZE - length got) rd = Inr (b, rd')"
      "live rd'" "rest rd = b @ rest rd'" "length b \<le> LEN_PREFIX_SIZE - length got" "b = [] \<longleftrightarrow> rest rd = []" .
    show ?thesis
    proof (cases "b = []")
      case True
      with b \<open>length got < LEN_PREFIX_SIZE\<close> show ?thesis
        by (simp add: read_header.simps [of got rd] read_exact.simps [of LEN_PREFIX_SIZE got rd])
    next
      case False
      have "length (got @ b) \<le> LEN_PREFIX_SIZE" using b(4) True by simp
      from 1(1) [OF True b(1) refl False b(2) this]
      have "read_header (got @ b) rd' =
          (case read_exact LEN_PREFIX_SIZE (got @ b) rd' of Inl e \<Rightarrow> Inl e | Inr x \<Rightarrow> Inr (Some x))"
        using False by simp
      moreover have "read_header got rd = read_header (got @ b) rd'"
        using b(1) False True by (simp add: read_header.simps [of got rd])
      moreover have "read_exact LEN_PREFIX_SIZE got rd = read_exact LEN_PREFIX_SIZE (got @ b) rd'"
        using b(1) False True by (simp add: read_exact.simps [of LEN_PREFIX_SIZE got rd])
      moreover have "rest rd \<noteq> []" using b(5) False by simp
      ultimately show ?thesis by simp
    qed
  next
    case False
    then have "got \<noteq> []" by (auto simp: LEN_PREFIX_SIZE_def)
    with False show ?thesis
      by (simp add: read_header.simps [of got rd] read_exact.simps [of LEN_PREFIX_SIZE got rd])
  qed
qed

text \<open>So on such a stream \<open>read_frame\<close> is a function of the bytes alone.\<close>

lemma read_frame_live:
  assumes "live rd"
  shows "rest rd = [] \<Longrightarrow> read_frame rd = Inr None"
    and "rest rd \<noteq> [] \<Longrightarrow> length (rest rd) < 4 \<Longrightarrow> read_frame rd = Inl (IoError UnexpectedEof)"
    and "4 \<le> length (rest rd) \<Longrightarrow> decode_length (take 4 (rest rd)) = Inl e \<Longrightarrow> read_frame rd = Inl e"
    and "4 \<le> length (rest rd) \<Longrightarrow> decode_length (take 4 (rest rd)) = Inr n \<Longrightarrow>
      length (rest rd) < 4 + unat n \<Longrightarrow> read_frame rd = Inl (IoError UnexpectedEof)"
    and "4 \<le> length (rest rd) \<Longrightarrow> decode_length (take 4 (rest rd)) = Inr n \<Longrightarrow>
      4 + unat n \<le> length (rest rd) \<Longrightarrow>
      split_header (take (unat n) (drop 4 (rest rd))) = Inr (h, payload) \<Longrightarrow>
      \<exists>rd'. read_frame rd = Inr (Some (\<lparr>fr_kind = fh_kind h, fr_payload = payload\<rparr>, rd')) \<and> live rd'
        \<and> rest rd' = drop (4 + unat n) (rest rd)"
    and "4 \<le> length (rest rd) \<Longrightarrow> decode_length (take 4 (rest rd)) = Inr n \<Longrightarrow>
      4 + unat n \<le> length (rest rd) \<Longrightarrow>
      split_header (take (unat n) (drop 4 (rest rd))) = Inl e \<Longrightarrow> read_frame rd = Inl e"
proof -
  have hd: "read_header [] rd = (if rest rd = [] then Inr None
      else case read_exact 4 [] rd of Inl e \<Rightarrow> Inl e | Inr x \<Rightarrow> Inr (Some x))"
    using read_header_exact [OF assms, of "[]"] by (simp add: LEN_PREFIX_SIZE_def)
  show "rest rd = [] \<Longrightarrow> read_frame rd = Inr None" by (simp add: read_frame_def hd)
  show "rest rd \<noteq> [] \<Longrightarrow> length (rest rd) < 4 \<Longrightarrow> read_frame rd = Inl (IoError UnexpectedEof)"
    by (simp add: read_frame_def hd read_exact_short [OF assms])
  assume long: "4 \<le> length (rest rd)"
  from read_exact_enough [OF assms this] obtain rd1 where
    rd1: "read_exact 4 [] rd = Inr (take 4 (rest rd), rd1)" "live rd1" "rest rd1 = drop 4 (rest rd)" by blast
  from long have "rest rd \<noteq> []" by auto
  then have rf: "read_frame rd = (case decode_length (take 4 (rest rd)) of Inl e \<Rightarrow> Inl e
      | Inr n \<Rightarrow> (case read_exact (unat n) [] rd1 of Inl e \<Rightarrow> Inl e
        | Inr (body, rd2) \<Rightarrow> (case split_header body of Inl e \<Rightarrow> Inl e
          | Inr (h, payload) \<Rightarrow> Inr (Some (\<lparr>fr_kind = fh_kind h, fr_payload = payload\<rparr>, rd2)))))"
    by (simp add: read_frame_def hd rd1)
  then show "decode_length (take 4 (rest rd)) = Inl e \<Longrightarrow> read_frame rd = Inl e" by simp
  assume n: "decode_length (take 4 (rest rd)) = Inr n"
  show "length (rest rd) < 4 + unat n \<Longrightarrow> read_frame rd = Inl (IoError UnexpectedEof)"
    using read_exact_short [OF rd1(2), of "unat n"] long by (simp add: rf n rd1(3))
  assume full: "4 + unat n \<le> length (rest rd)"
  then have "unat n \<le> length (rest rd1)" by (simp add: rd1(3))
  from read_exact_enough [OF rd1(2) this] obtain rd2 where
    rd2: "read_exact (unat n) [] rd1 = Inr (take (unat n) (drop 4 (rest rd)), rd2)" "live rd2"
    "rest rd2 = drop (4 + unat n) (rest rd)"
    by (auto simp: rd1(3) add.commute)
  show "split_header (take (unat n) (drop 4 (rest rd))) = Inr (h, payload) \<Longrightarrow>
      \<exists>rd'. read_frame rd = Inr (Some (\<lparr>fr_kind = fh_kind h, fr_payload = payload\<rparr>, rd')) \<and> live rd'
        \<and> rest rd' = drop (4 + unat n) (rest rd)"
    using rd2 by (simp add: rf n)
  show "split_header (take (unat n) (drop 4 (rest rd))) = Inl e \<Longrightarrow> read_frame rd = Inl e"
    using rd2 by (simp add: rf n)
qed

section \<open>Encoding and decoding\<close>

lemma u32_try_from_eq: "u32_try_from n = Some w \<longleftrightarrow> n < 2 ^ 32 \<and> unat w = n"
  by (auto simp: u32_try_from_def unat_of_nat take_bit_eq_mod)

lemma encode_frame_ok:
  assumes "length payload < 1048576"
  shows "\<exists>w. encode_frame kind payload out = Inr (out @ to_le_bytes w @ [kind] @ payload)
    \<and> unat w = length payload + 1"
proof -
  have "length payload + 1 < 2 ^ 32" using assms by simp
  then obtain w where w: "u32_try_from (length payload + 1) = Some w" "unat w = length payload + 1"
    using u32_try_from_eq [of "length payload + 1"] by (auto simp: u32_try_from_def)
  then have "\<not> w > MAX_FRAME_LEN" using assms by (simp add: word_less_nat_alt)
  with w show ?thesis by (auto simp: encode_frame_def)
qed

lemma encode_frame_too_large:
  assumes "1048576 \<le> length payload"
  shows "\<exists>n. encode_frame kind payload out = Inl (FrameTooLarge n MAX_FRAME_LEN)"
proof (cases "u32_try_from (length payload + 1)")
  case (Some w)
  then have "unat w = length payload + 1" by (simp add: u32_try_from_eq)
  with assms have "w > MAX_FRAME_LEN" by (simp add: word_less_nat_alt)
  with Some show ?thesis by (simp add: encode_frame_def)
qed (simp add: encode_frame_def)

lemma decode_length_ok:
  "decode_length bs = Inr n \<Longrightarrow> 0 < unat n \<and> unat n \<le> 1048576"
  by (auto simp: decode_length_def Let_def word_less_nat_alt unat_gt_0 split: if_splits)

definition known_kind :: "u8 \<Rightarrow> bool" where
  "known_kind k \<longleftrightarrow> k = KIND_CONTROL \<or> k = KIND_OUTPUT \<or> k = KIND_EVENT"

lemma split_header_ok:
  "known_kind k \<Longrightarrow> length payload < 2 ^ 32 \<Longrightarrow>
    \<exists>h. split_header (k # payload) = Inr (h, payload) \<and> fh_kind h = k"
  by (auto simp: split_header_def known_kind_def u32_try_from_def)

text \<open>One frame at the front of a stream.\<close>

lemma read_frame_encoded:
  assumes "encode_frame k payload [] = Inr bs" and "live rd" and "rest rd = bs @ tail_bytes"
  shows "known_kind k \<Longrightarrow> \<exists>rd'. read_frame rd = Inr (Some (\<lparr>fr_kind = k, fr_payload = payload\<rparr>, rd'))
      \<and> live rd' \<and> rest rd' = tail_bytes"
    and "\<not> known_kind k \<Longrightarrow> read_frame rd = Inl (UnknownKind k)"
proof -
  have len: "length payload < 1048576"
    using assms(1) encode_frame_too_large [of payload k "[]"] by (cases "length payload < 1048576") auto
  from encode_frame_ok [OF this, of k "[]"] assms(1) obtain w where
    bs: "bs = to_le_bytes w @ k # payload" and w: "unat w = length payload + 1" by auto
  have dl: "decode_length (take 4 (rest rd)) = Inr w"
  proof -
    have "w \<noteq> 0" "\<not> w > MAX_FRAME_LEN" using w len by (auto simp: word_less_nat_alt simp flip: unat_gt_0)
    then show ?thesis by (simp add: assms(3) bs decode_length_def Let_def)
  qed
  have body: "take (unat w) (drop 4 (rest rd)) = k # payload" by (simp add: assms(3) bs w)
  have long: "4 \<le> length (rest rd)" "4 + unat w \<le> length (rest rd)" by (simp_all add: assms(3) bs w)
  have dr: "drop (4 + unat w) (rest rd) = tail_bytes" by (simp add: assms(3) bs w)
  show "\<exists>rd'. read_frame rd = Inr (Some (\<lparr>fr_kind = k, fr_payload = payload\<rparr>, rd')) \<and> live rd' \<and> rest rd' = tail_bytes"
    if "known_kind k"
  proof -
    have "length payload < 2 ^ 32" using len by simp
    from split_header_ok [OF \<open>known_kind k\<close> this] obtain h where
      "split_header (k # payload) = Inr (h, payload)" "fh_kind h = k" by blast
    then show ?thesis using read_frame_live(5) [OF assms(2) long(1) dl long(2), of h payload] by (simp add: body dr)
  qed
  show "read_frame rd = Inl (UnknownKind k)" if "\<not> known_kind k"
    using read_frame_live(6) [OF assms(2) long(1) dl long(2), of "UnknownKind k"] that
    by (simp add: body split_header_def known_kind_def)
qed

fun encode_all :: "frame list \<Rightarrow> protocol_error + u8 list" where
  "encode_all [] = Inr []"
| "encode_all (f # fs) =
     (case encode_frame (fr_kind f) (fr_payload f) [] of
        Inl e \<Rightarrow> Inl e
      | Inr bs \<Rightarrow> (case encode_all fs of Inl e \<Rightarrow> Inl e | Inr tail_bytes \<Rightarrow> Inr (bs @ tail_bytes)))"

section \<open>Properties\<close>

text \<open>C6: what one side writes the other side reads, however the bytes are cut on the way: any
sequence of frames of the known kinds, encoded one after the other and delivered in any chunks, is read
back frame by frame, in order, with nothing left over, and then the clean end of the stream.\<close>

theorem frames_round_trip:
  assumes "encode_all fs = Inr bytes" and "\<forall>f \<in> set fs. known_kind (fr_kind f)"
    and "live rd" and "rest rd = bytes"
  shows "read_all rd = (fs, None)"
  using assms
proof (induction fs arbitrary: bytes rd)
  case Nil
  then show ?case by (simp add: read_all.simps [of rd] read_frame_live(1))
next
  case (Cons f fs)
  then obtain bs tail_bytes where bs: "encode_frame (fr_kind f) (fr_payload f) [] = Inr bs"
    and tail_bytes: "encode_all fs = Inr tail_bytes" and bytes: "bytes = bs @ tail_bytes"
    by (auto split: sum.splits)
  obtain rd' where rd': "read_frame rd = Inr (Some (f, rd'))" "live rd'" "rest rd' = tail_bytes"
    using read_frame_encoded(1) [OF bs Cons.prems(3), of tail_bytes] Cons.prems(2,4) bytes by auto
  have "bs \<noteq> []" using bs by (auto simp: encode_frame_def split: option.splits if_splits)
  then have "reader_size rd' < reader_size rd"
    using rd'(3) Cons.prems(4) bytes by (simp add: reader_size_rest)
  then show ?case using Cons.IH [OF tail_bytes _ rd'(2,3)] Cons.prems(2) rd'(1) by (simp add: read_all.simps [of rd])
qed

theorem frames_round_trip_witness:
  "read_all [Some [3, 0], Some [0], Some [0, 0, 104, 105, 1], Some [0, 0, 0, 2]] =
    ([\<lparr>fr_kind = 0, fr_payload = [104, 105]\<rparr>, \<lparr>fr_kind = 2, fr_payload = []\<rparr>], None)"
  by (rule frames_round_trip)
    (simp_all add: encode_frame_def u32_try_from_def MAX_FRAME_LEN_def to_le_bytes_eq byte_def
      known_kind_def KIND_CONTROL_def KIND_OUTPUT_def KIND_EVENT_def live_def rest_def)

text \<open>a frame that is cut short never comes out as a frame: a stream that ends inside the first
frame, at any byte after its first, is an unexpected-end error, in the length prefix as in the body, and
only a stream with no byte at all is the clean end.\<close>

theorem truncated_frame_is_an_error:
  assumes "encode_frame kind payload [] = Inr bytes" and "live rd" and "rest rd = take n bytes"
    and "n < length bytes"
  shows "read_frame rd = (if n = 0 then Inr None else Inl (IoError UnexpectedEof))"
proof -
  have len: "length payload < 1048576"
    using assms(1) encode_frame_too_large [of payload kind "[]"] by (cases "length payload < 1048576") auto
  from encode_frame_ok [OF this, of kind "[]"] assms(1) obtain w where
    bs: "bytes = to_le_bytes w @ kind # payload" and w: "unat w = length payload + 1" by auto
  have lr: "length (rest rd) = n" using assms(3,4) by simp
  consider "n = 0" | "0 < n" "n < 4" | "4 \<le> n" by linarith
  then show ?thesis
  proof cases
    case 1
    then show ?thesis using read_frame_live(1) [OF assms(2)] assms(3) by simp
  next
    case 2
    then show ?thesis using read_frame_live(2) [OF assms(2)] lr by auto
  next
    case 3
    have "w \<noteq> 0" "\<not> w > MAX_FRAME_LEN" using w len by (auto simp: word_less_nat_alt simp flip: unat_gt_0)
    then have "decode_length (take 4 (rest rd)) = Inr w"
      using 3 by (simp add: assms(3) bs decode_length_def Let_def)
    moreover have "length (rest rd) < 4 + unat w" using lr assms(4) by (simp add: bs w)
    ultimately show ?thesis using read_frame_live(4) [OF assms(2)] lr 3 by simp
  qed
qed

theorem truncated_frame_is_an_error_witness:
  "read_frame [Some [3, 0], Some [0, 0, 0, 104]] = Inl (IoError UnexpectedEof)"
proof -
  have "encode_frame 0 [104, 105] [] = Inr [3, 0, 0, 0, 0, 104, 105]"
    by (simp add: encode_frame_def u32_try_from_def MAX_FRAME_LEN_def to_le_bytes_eq byte_def)
  from truncated_frame_is_an_error [OF this, of "[Some [3, 0], Some [0, 0, 0, 104]]" 6] show ?thesis
    by (simp add: live_def rest_def)
qed

text \<open>the size cap holds in both directions. Encoding succeeds exactly when kind and payload
together fit in it, and otherwise reports the frame as too large; and whatever bytes arrive from the
peer, a frame that is read has a known kind and a payload smaller than the cap, so the buffer allocated
for a body is never larger.\<close>

theorem frame_size_is_capped:
  "(case encode_frame kind payload out of
      Inr bytes \<Rightarrow> length payload + 1 \<le> unat MAX_FRAME_LEN \<and> bytes = out @ drop (length out) bytes
    | Inl e \<Rightarrow> length payload + 1 > unat MAX_FRAME_LEN \<and> (\<exists>n. e = FrameTooLarge n MAX_FRAME_LEN))
    \<and> (case read_frame rd of
        Inr (Some (f, rd')) \<Rightarrow> known_kind (fr_kind f) \<and> length (fr_payload f) < unat MAX_FRAME_LEN
      | _ \<Rightarrow> True)"
proof (rule conjI)
  show "case encode_frame kind payload out of
      Inr bytes \<Rightarrow> length payload + 1 \<le> unat MAX_FRAME_LEN \<and> bytes = out @ drop (length out) bytes
    | Inl e \<Rightarrow> length payload + 1 > unat MAX_FRAME_LEN \<and> (\<exists>n. e = FrameTooLarge n MAX_FRAME_LEN)"
    using encode_frame_ok [of payload kind out] encode_frame_too_large [of payload kind out]
    by (cases "length payload < 1048576") auto
  have exact: "read_exact n got rd = Inr (bs, rd') \<Longrightarrow> length got \<le> n \<Longrightarrow> length bs = n" for n got rd bs rd'
  proof (induction n got rd rule: read_exact.induct)
    case (1 n got rd)
    show ?case
    proof (cases "length got < n")
      case True
      with 1(2) obtain b rd1 where b: "read_some (n - length got) rd = Inr (b, rd1)" "b \<noteq> []"
        "read_exact n (got @ b) rd1 = Inr (bs, rd')"
        by (auto simp: read_exact.simps [of n got rd] split: sum.splits if_splits prod.splits)
      then have "length (got @ b) \<le> n" using True by (auto simp: read_some_def split: list.splits option.splits)
      with 1(1) [OF True b(1) refl b(2,3)] show ?thesis by simp
    next
      case False
      with 1(2,3) show ?thesis by (simp add: read_exact.simps [of n got rd])
    qed
  qed
  show "case read_frame rd of
        Inr (Some (f, rd')) \<Rightarrow> known_kind (fr_kind f) \<and> length (fr_payload f) < unat MAX_FRAME_LEN
      | _ \<Rightarrow> True"
    by (auto simp: read_frame_def split: sum.splits option.splits prod.splits)
      (auto simp: split_header_def known_kind_def split: list.splits if_splits option.splits
        dest!: exact decode_length_ok)
qed

text \<open>a well-formed frame of a kind the protocol does not know is refused by name, and never
reaches the message layer.\<close>

theorem unknown_kind_is_refused:
  assumes "encode_frame kind payload [] = Inr bytes" and "kind \<notin> {KIND_CONTROL, KIND_OUTPUT, KIND_EVENT}"
    and "live rd" and "rest rd = bytes @ tail_bytes"
  shows "read_frame rd = Inl (UnknownKind kind)"
  using read_frame_encoded(2) [OF assms(1,3,4)] assms(2) by (simp add: known_kind_def)

theorem unknown_kind_is_refused_witness:
  "read_frame [Some [1, 0, 0, 0, 9]] = Inl (UnknownKind 9)"
proof -
  have "encode_frame 9 [] [] = Inr [1, 0, 0, 0, 9]"
    by (simp add: encode_frame_def u32_try_from_def MAX_FRAME_LEN_def to_le_bytes_eq byte_def)
  from unknown_kind_is_refused [OF this, of "[Some [1, 0, 0, 0, 9]]" "[]"] show ?thesis
    by (simp add: KIND_CONTROL_def KIND_OUTPUT_def KIND_EVENT_def live_def rest_def)
qed

end
