(* ===== verification/Editor.thy ===== *)
theory Editor
  imports Rust_Str
begin

text \<open>
  The text buffer of the built-in editor, \<open>editor/buffer.rs\<close>: lines, cursor, selection and undo
  history, with every operation of \<open>impl EditorBuffer\<close>. Indexing a line that is not there and slicing
  a line at an offset that is out of range or inside a character are panics, so the operations
  return options and \<open>None\<close> is the panic. \<open>usize\<close> and \<open>u64\<close> are naturals, \<open>isize\<close> is an integer.
  \<open>char::is_alphanumeric\<close> is the argument \<open>alnum\<close>.
\<close>

section \<open>Positions, damage, records\<close>

definition TAB_SPACES :: nat where "TAB_SPACES = 4"

definition char_width_at :: "rchar \<Rightarrow> nat \<Rightarrow> nat" where
  "char_width_at ch col = (if ch = 9 then TAB_SPACES - col mod TAB_SPACES else 1)"

datatype line_ending = Lf | CrLf

fun line_ending_str :: "line_ending \<Rightarrow> rstr" where
  "line_ending_str Lf = [10]"
| "line_ending_str CrLf = [13, 10]"

definition detect :: "rstr \<Rightarrow> line_ending" where
  "detect text = (if find_str [13, 10] text \<noteq> None then CrLf else Lf)"

text \<open>The derived order is lexicographic, on the line first.\<close>

datatype position = Position (p_line: nat) (p_col: nat)

instantiation position :: linorder
begin

definition less_eq_position :: "position \<Rightarrow> position \<Rightarrow> bool" where
  "p \<le> q \<longleftrightarrow> p_line p < p_line q \<or> p_line p = p_line q \<and> p_col p \<le> p_col q"

definition less_position :: "position \<Rightarrow> position \<Rightarrow> bool" where
  "p < q \<longleftrightarrow> p_line p < p_line q \<or> p_line p = p_line q \<and> p_col p < p_col q"

instance
proof
  fix p q r :: position
  show "(p < q) = (p \<le> q \<and> \<not> q \<le> p)" by (auto simp: less_eq_position_def less_position_def)
  show "p \<le> p" by (simp add: less_eq_position_def)
  show "p \<le> q \<Longrightarrow> q \<le> r \<Longrightarrow> p \<le> r" by (auto simp: less_eq_position_def)
  show "p \<le> q \<Longrightarrow> q \<le> p \<Longrightarrow> p = q" by (cases p; cases q) (auto simp: less_eq_position_def)
  show "p \<le> q \<or> q \<le> p" by (auto simp: less_eq_position_def)
qed

end

definition position_default :: position where "position_default = Position 0 0"

datatype damage = No_Damage | Line nat | From nat

fun damage_merge :: "damage \<Rightarrow> damage \<Rightarrow> damage" where
  "damage_merge No_Damage d = d"
| "damage_merge d No_Damage = d"
| "damage_merge (Line a) (Line b) = (if a = b then Line a else From (min a b))"
| "damage_merge (From a) (Line b) = From (min a b)"
| "damage_merge (Line b) (From a) = From (min a b)"
| "damage_merge (From a) (From b) = From (min a b)"

datatype group_kind = Typing | Deleting | Other

record edit_record =
  er_start :: position
  er_old_text :: rstr
  er_new_text :: rstr
  er_cursor_before :: position
  er_anchor_before :: "position option"
  er_cursor_after :: position

record undo_group =
  ug_id :: nat
  ug_kind :: group_kind
  ug_records :: "edit_record list"

section \<open>Functions on lines\<close>

definition end_of_text :: "position \<Rightarrow> rstr \<Rightarrow> position" where
  "end_of_text start text =
     (case rsplit_once 10 text of
        None \<Rightarrow> Position (p_line start) (p_col start + blen text)
      | Some (head, tail) \<Rightarrow> Position (p_line start + count_list head 10 + 1) (blen tail))"

definition indent_end :: "rstr \<Rightarrow> nat" where
  "indent_end line =
     (case List.find (\<lambda>(b, c). \<not> is_whitespace c) (char_indices line) of
        Some (b, c) \<Rightarrow> b | None \<Rightarrow> blen line)"

definition outdent_width :: "rstr \<Rightarrow> nat" where
  "outdent_width line =
     (if starts_with [9] line then 1
      else length (takeWhile (\<lambda>b. b = 32) (take TAB_SPACES (utf8 line))))"

definition is_word_char :: "(rchar \<Rightarrow> bool) \<Rightarrow> rchar \<Rightarrow> bool" where
  "is_word_char alnum c \<longleftrightarrow> alnum c \<or> c = 95"

text \<open>A \<open>while i > 0 && p(chars[i - 1]) { i -= 1 }\<close> and a \<open>while i < chars.len() && p(chars[i]) { i += 1 }\<close>.\<close>

fun walk_back :: "(nat \<times> rchar \<Rightarrow> bool) \<Rightarrow> (nat \<times> rchar) list \<Rightarrow> nat \<Rightarrow> nat" where
  "walk_back p cs 0 = 0"
| "walk_back p cs (Suc i) = (if p (cs ! i) then walk_back p cs i else Suc i)"

function walk_on :: "(nat \<times> rchar \<Rightarrow> bool) \<Rightarrow> (nat \<times> rchar) list \<Rightarrow> nat \<Rightarrow> nat" where
  "walk_on p cs i = (if i < length cs \<and> p (cs ! i) then walk_on p cs (i + 1) else i)"
  by pat_completeness auto
termination
  by (relation "measure (\<lambda>(p, cs, i). length cs - i)") auto

declare walk_on.simps [simp del]

definition prev_word_boundary :: "(rchar \<Rightarrow> bool) \<Rightarrow> rstr \<Rightarrow> nat \<Rightarrow> nat option" where
  "prev_word_boundary alnum s pos =
     do {
       pre \<leftarrow> slice_to s pos;
       let chars = char_indices pre;
       let i = walk_back (\<lambda>(b, c). is_whitespace c) chars (length chars);
       if i = 0 then Some 0
       else do {
         let class = is_word_char alnum (snd (chars ! (i - 1)));
         let i = walk_back (\<lambda>(b, c). \<not> is_whitespace c \<and> is_word_char alnum c = class) chars i;
         if i = 0 then Some 0 else Some (fst (chars ! i))
       }
     }"

definition next_word_boundary :: "(rchar \<Rightarrow> bool) \<Rightarrow> rstr \<Rightarrow> nat \<Rightarrow> nat option" where
  "next_word_boundary alnum s pos =
     do {
       after \<leftarrow> slice_from s pos;
       let chars = char_indices after;
       let i = (if 0 < length chars \<and> \<not> is_whitespace (snd (chars ! 0))
                then (let class = is_word_char alnum (snd (chars ! 0))
                      in walk_on (\<lambda>(b, c). \<not> is_whitespace c \<and> is_word_char alnum c = class) chars 0)
                else 0);
       let i = walk_on (\<lambda>(b, c). is_whitespace c) chars i;
       if i \<ge> length chars then Some (blen s) else Some (pos + fst (chars ! i))
     }"

section \<open>The buffer\<close>

record ebuf =
  eb_lines :: "rstr list"
  eb_cursor :: position
  eb_anchor :: "position option"
  eb_sticky :: "nat option"
  eb_undo :: "undo_group list"
  eb_redo :: "undo_group list"
  eb_next_id :: nat
  eb_group_open :: bool

definition from_text :: "rstr \<Rightarrow> ebuf" where
  "from_text text =
     \<lparr>eb_lines = split_char 10 text, eb_cursor = position_default, eb_anchor = None, eb_sticky = None,
      eb_undo = [], eb_redo = [], eb_next_id = 1, eb_group_open = False\<rparr>"

definition eb_line :: "ebuf \<Rightarrow> nat \<Rightarrow> rstr option" where
  "eb_line b i = nth_opt (eb_lines b) i"

definition to_text :: "ebuf \<Rightarrow> rstr" where
  "to_text b = join_char 10 (eb_lines b)"

definition selection :: "ebuf \<Rightarrow> (position \<times> position) option" where
  "selection b =
     (case eb_anchor b of
        None \<Rightarrow> None
      | Some anchor \<Rightarrow>
          if anchor = eb_cursor b then None
          else if anchor < eb_cursor b then Some (anchor, eb_cursor b)
          else Some (eb_cursor b, anchor))"

text \<open>\<open>v[a..b]\<close> on the vector of lines.\<close>

definition sub_vec :: "nat \<Rightarrow> nat \<Rightarrow> 'a list \<Rightarrow> 'a list option" where
  "sub_vec a b xs = (if a \<le> b \<and> b \<le> length xs then Some (take (b - a) (drop a xs)) else None)"

definition text_range :: "ebuf \<Rightarrow> position \<Rightarrow> position \<Rightarrow> rstr option" where
  "text_range b start en =
     (if p_line start = p_line en then
        do { l \<leftarrow> eb_line b (p_line start); slice l (p_col start) (p_col en) }
      else
        do {
          l0 \<leftarrow> eb_line b (p_line start);
          first \<leftarrow> slice_from l0 (p_col start);
          mid \<leftarrow> sub_vec (p_line start + 1) (p_line en) (eb_lines b);
          l1 \<leftarrow> eb_line b (p_line en);
          final \<leftarrow> slice_to l1 (p_col en);
          Some (fold (\<lambda>line out. out @ [10] @ line) mid first @ [10] @ final)
        })"

definition selected_text :: "ebuf \<Rightarrow> rstr option option" where
  "selected_text b =
     (case selection b of None \<Rightarrow> Some None | Some (start, en) \<Rightarrow> map_option Some (text_range b start en))"

subsection \<open>Columns\<close>

fun floor_char_boundary :: "rstr \<Rightarrow> nat \<Rightarrow> nat" where
  "floor_char_boundary s c = (if c > 0 \<and> \<not> is_char_boundary s c then floor_char_boundary s (c - 1) else c)"

declare floor_char_boundary.simps [simp del]

definition snap_to_char_boundary :: "ebuf \<Rightarrow> nat \<Rightarrow> nat \<Rightarrow> nat option" where
  "snap_to_char_boundary b line col =
     do { s \<leftarrow> eb_line b line; Some (floor_char_boundary s (min col (blen s))) }"

definition clamp_position :: "ebuf \<Rightarrow> position \<Rightarrow> position option" where
  "clamp_position b pos =
     do {
       let line = min (p_line pos) (length (eb_lines b) - 1);
       l \<leftarrow> eb_line b line;
       col \<leftarrow> snap_to_char_boundary b line (min (p_col pos) (blen l));
       Some (Position line col)
     }"

definition char_col :: "ebuf \<Rightarrow> position \<Rightarrow> nat option" where
  "char_col b pos =
     do { l \<leftarrow> eb_line b (p_line pos); s \<leftarrow> slice_to l (p_col pos); Some (length s) }"

definition col_for_char_index :: "ebuf \<Rightarrow> nat \<Rightarrow> nat \<Rightarrow> nat option" where
  "col_for_char_index b line chars =
     do {
       s \<leftarrow> eb_line b line;
       Some (case nth_opt (char_indices s) chars of Some (i, c) \<Rightarrow> i | None \<Rightarrow> blen s)
     }"

fun visual_loop :: "nat \<Rightarrow> (nat \<times> rchar) list \<Rightarrow> nat \<Rightarrow> nat" where
  "visual_loop col [] v = v"
| "visual_loop col ((i, ch) # cs) v =
     (if i \<ge> col then v else visual_loop col cs (v + char_width_at ch v))"

definition visual_col :: "ebuf \<Rightarrow> position \<Rightarrow> nat option" where
  "visual_col b pos =
     do { l \<leftarrow> eb_line b (p_line pos); Some (visual_loop (p_col pos) (char_indices l) 0) }"

fun col_for_visual_loop :: "rstr \<Rightarrow> nat \<Rightarrow> (nat \<times> rchar) list \<Rightarrow> nat \<Rightarrow> nat" where
  "col_for_visual_loop s target [] v = blen s"
| "col_for_visual_loop s target ((i, ch) # cs) v =
     (let width = char_width_at ch v in
      if target < v + width then i else col_for_visual_loop s target cs (v + width))"

definition col_for_visual :: "ebuf \<Rightarrow> nat \<Rightarrow> nat \<Rightarrow> nat option" where
  "col_for_visual b line target =
     do { s \<leftarrow> eb_line b line; Some (col_for_visual_loop s target (char_indices s) 0) }"

definition line_visual_width :: "ebuf \<Rightarrow> nat \<Rightarrow> nat" where
  "line_visual_width b line =
     (case eb_line b line of None \<Rightarrow> 0 | Some s \<Rightarrow> fold (\<lambda>ch v. v + char_width_at ch v) s 0)"

definition prev_char_col :: "ebuf \<Rightarrow> nat \<Rightarrow> nat \<Rightarrow> nat option" where
  "prev_char_col b line col =
     do {
       l \<leftarrow> eb_line b line;
       s \<leftarrow> slice_to l col;
       Some (if s = [] then 0 else fst (last (char_indices s)))
     }"

definition next_char_col :: "ebuf \<Rightarrow> nat \<Rightarrow> nat \<Rightarrow> nat option" where
  "next_char_col b line col =
     do {
       l \<leftarrow> eb_line b line;
       s \<leftarrow> slice_from l col;
       Some (case s of c # cs \<Rightarrow> col + len_utf8 c | [] \<Rightarrow> blen l)
     }"

definition doc_end :: "ebuf \<Rightarrow> position option" where
  "doc_end b =
     do {
       let line = length (eb_lines b) - 1;
       l \<leftarrow> eb_line b line;
       Some (Position line (blen l))
     }"

section \<open>Movement\<close>

definition begin_move :: "bool \<Rightarrow> ebuf \<Rightarrow> ebuf" where
  "begin_move ext b =
     (let b = b\<lparr>eb_group_open := False\<rparr>
      in if ext then (if eb_anchor b = None then b\<lparr>eb_anchor := Some (eb_cursor b)\<rparr> else b)
         else b\<lparr>eb_anchor := None\<rparr>)"

definition set_col :: "nat \<Rightarrow> ebuf \<Rightarrow> ebuf" where
  "set_col c b = b\<lparr>eb_cursor := Position (p_line (eb_cursor b)) c\<rparr>"

definition move_left :: "bool \<Rightarrow> ebuf \<Rightarrow> ebuf option" where
  "move_left ext b =
     (let b = b\<lparr>eb_sticky := None\<rparr> in
      case (if ext then None else selection b) of
        Some (start, _) \<Rightarrow> Some (b\<lparr>eb_cursor := start, eb_anchor := None\<rparr>)
      | None \<Rightarrow>
          (let b = begin_move ext b;
               line = p_line (eb_cursor b);
               col = p_col (eb_cursor b)
           in if col > 0 then do { c \<leftarrow> prev_char_col b line col; Some (set_col c b) }
              else if line > 0 then
                do { l \<leftarrow> eb_line b (line - 1); Some (b\<lparr>eb_cursor := Position (line - 1) (blen l)\<rparr>) }
              else Some b))"

definition move_right :: "bool \<Rightarrow> ebuf \<Rightarrow> ebuf option" where
  "move_right ext b =
     (let b = b\<lparr>eb_sticky := None\<rparr> in
      case (if ext then None else selection b) of
        Some (_, en) \<Rightarrow> Some (b\<lparr>eb_cursor := en, eb_anchor := None\<rparr>)
      | None \<Rightarrow>
          (let b = begin_move ext b;
               line = p_line (eb_cursor b);
               col = p_col (eb_cursor b)
           in do {
                l \<leftarrow> eb_line b line;
                if col < blen l then do { c \<leftarrow> next_char_col b line col; Some (set_col c b) }
                else if line + 1 < length (eb_lines b)
                then Some (b\<lparr>eb_cursor := Position (line + 1) 0\<rparr>)
                else Some b
              }))"

definition move_vertical :: "int \<Rightarrow> bool \<Rightarrow> ebuf \<Rightarrow> ebuf option" where
  "move_vertical delta ext b =
     (let b = (case (if ext then None else selection b) of
                 Some (start, en) \<Rightarrow> b\<lparr>eb_cursor := if delta < 0 then start else en\<rparr>
               | None \<Rightarrow> b);
          b = begin_move ext b
      in do {
           sticky \<leftarrow> (case eb_sticky b of Some s \<Rightarrow> Some s | None \<Rightarrow> visual_col b (eb_cursor b));
           let b = b\<lparr>eb_sticky := Some sticky\<rparr>;
           let line = p_line (eb_cursor b);
           let target_line = min (nat (int line + delta)) (length (eb_lines b) - 1);
           if target_line = line then
             (if delta < 0 then Some ((set_col 0 b)\<lparr>eb_sticky := None\<rparr>)
              else do { l \<leftarrow> eb_line b line; Some ((set_col (blen l) b)\<lparr>eb_sticky := None\<rparr>) })
           else do { c \<leftarrow> col_for_visual b target_line sticky; Some (b\<lparr>eb_cursor := Position target_line c\<rparr>) }
         })"

definition move_up :: "bool \<Rightarrow> ebuf \<Rightarrow> ebuf option" where "move_up = move_vertical (- 1)"
definition move_down :: "bool \<Rightarrow> ebuf \<Rightarrow> ebuf option" where "move_down = move_vertical 1"
definition move_page :: "int \<Rightarrow> bool \<Rightarrow> ebuf \<Rightarrow> ebuf option" where "move_page = move_vertical"

definition move_home :: "bool \<Rightarrow> ebuf \<Rightarrow> ebuf option" where
  "move_home ext b =
     (let b = begin_move ext (b\<lparr>eb_sticky := None\<rparr>)
      in do {
           l \<leftarrow> eb_line b (p_line (eb_cursor b));
           let indent = indent_end l;
           Some (set_col (if p_col (eb_cursor b) = indent then 0 else indent) b)
         })"

definition move_end :: "bool \<Rightarrow> ebuf \<Rightarrow> ebuf option" where
  "move_end ext b =
     (let b = begin_move ext (b\<lparr>eb_sticky := None\<rparr>)
      in do { l \<leftarrow> eb_line b (p_line (eb_cursor b)); Some (set_col (blen l) b) })"

definition move_doc_start :: "bool \<Rightarrow> ebuf \<Rightarrow> ebuf option" where
  "move_doc_start ext b =
     Some ((begin_move ext (b\<lparr>eb_sticky := None\<rparr>))\<lparr>eb_cursor := position_default\<rparr>)"

definition move_doc_end :: "bool \<Rightarrow> ebuf \<Rightarrow> ebuf option" where
  "move_doc_end ext b =
     (let b = begin_move ext (b\<lparr>eb_sticky := None\<rparr>)
      in do { e \<leftarrow> doc_end b; Some (b\<lparr>eb_cursor := e\<rparr>) })"

definition move_word_left :: "(rchar \<Rightarrow> bool) \<Rightarrow> bool \<Rightarrow> ebuf \<Rightarrow> ebuf option" where
  "move_word_left alnum ext b =
     (let b = begin_move ext (b\<lparr>eb_sticky := None\<rparr>);
          line = p_line (eb_cursor b)
      in if p_col (eb_cursor b) = 0 then
           (if line > 0
            then do { l \<leftarrow> eb_line b (line - 1); Some (b\<lparr>eb_cursor := Position (line - 1) (blen l)\<rparr>) }
            else Some b)
         else do {
           l \<leftarrow> eb_line b line;
           c \<leftarrow> prev_word_boundary alnum l (p_col (eb_cursor b));
           Some (set_col c b)
         })"

definition move_word_right :: "(rchar \<Rightarrow> bool) \<Rightarrow> bool \<Rightarrow> ebuf \<Rightarrow> ebuf option" where
  "move_word_right alnum ext b =
     (let b = begin_move ext (b\<lparr>eb_sticky := None\<rparr>);
          line = p_line (eb_cursor b)
      in do {
           l \<leftarrow> eb_line b line;
           if p_col (eb_cursor b) \<ge> blen l then
             (if line + 1 < length (eb_lines b) then Some (b\<lparr>eb_cursor := Position (line + 1) 0\<rparr>)
              else Some b)
           else do { c \<leftarrow> next_word_boundary alnum l (p_col (eb_cursor b)); Some (set_col c b) }
         })"

definition eb_set_cursor :: "position \<Rightarrow> bool \<Rightarrow> ebuf \<Rightarrow> ebuf option" where
  "eb_set_cursor pos ext b =
     (let b = begin_move ext (b\<lparr>eb_sticky := None\<rparr>)
      in do { p \<leftarrow> clamp_position b pos; Some (b\<lparr>eb_cursor := p\<rparr>) })"

definition select_all :: "ebuf \<Rightarrow> ebuf option" where
  "select_all b =
     do { e \<leftarrow> doc_end b; Some (b\<lparr>eb_sticky := None, eb_anchor := Some position_default, eb_cursor := e\<rparr>) }"

definition char_class :: "(rchar \<Rightarrow> bool) \<Rightarrow> rchar \<Rightarrow> nat" where
  "char_class alnum c = (if is_whitespace c then 2 else if is_word_char alnum c then 0 else 1)"

text \<open>The two \<open>while\<close> loops of \<open>select_word_at\<close>; \<open>unwrap\<close> of no character would be a panic.\<close>

partial_function (option) word_start ::
    "(rchar \<Rightarrow> bool) \<Rightarrow> ebuf \<Rightarrow> nat \<Rightarrow> rstr \<Rightarrow> nat \<Rightarrow> nat \<Rightarrow> nat option" where
  "word_start alnum b line l class start =
     (if start > 0 then
        Option.bind (prev_char_col b line start) (\<lambda>prev.
        Option.bind (slice_from l prev) (\<lambda>s.
        Option.bind (nth_opt s 0) (\<lambda>c.
          if char_class alnum c \<noteq> class then Some start
          else word_start alnum b line l class prev)))
      else Some start)"

partial_function (option) word_end ::
    "(rchar \<Rightarrow> bool) \<Rightarrow> rstr \<Rightarrow> nat \<Rightarrow> nat \<Rightarrow> nat option" where
  "word_end alnum l class en =
     (if en < blen l then
        Option.bind (slice_from l en) (\<lambda>s.
        Option.bind (nth_opt s 0) (\<lambda>c.
          if char_class alnum c \<noteq> class then Some en
          else word_end alnum l class (en + len_utf8 c)))
      else Some en)"

declare word_start.simps [code] word_end.simps [code]

definition select_word_at :: "(rchar \<Rightarrow> bool) \<Rightarrow> position \<Rightarrow> ebuf \<Rightarrow> ebuf option" where
  "select_word_at alnum pos b =
     do {
       let b = b\<lparr>eb_sticky := None\<rparr>;
       pos \<leftarrow> clamp_position b pos;
       l \<leftarrow> eb_line b (p_line pos);
       if l = [] then Some (b\<lparr>eb_anchor := None, eb_cursor := pos\<rparr>)
       else do {
         col \<leftarrow> (if p_col pos \<ge> blen l then prev_char_col b (p_line pos) (blen l) else Some (p_col pos));
         s \<leftarrow> slice_from l col;
         let target = (case s of c # cs \<Rightarrow> c | [] \<Rightarrow> 32);
         let class = char_class alnum target;
         start \<leftarrow> word_start alnum b (p_line pos) l class col;
         en \<leftarrow> word_end alnum l class col;
         Some (b\<lparr>eb_anchor := Some (Position (p_line pos) start),
                 eb_cursor := Position (p_line pos) en\<rparr>)
       }
     }"

end
