(* ===== verification/Editor_Edit.thy ===== *)
theory Editor_Edit
  imports Editor
begin

text \<open>
  The editing half of \<open>editor/buffer.rs\<close>: the splice every edit goes through (\<open>raw_replace\<close>), the undo
  history with its coalescing, and the commands built on them. A command returns the repaint hint and
  the new buffer.
\<close>

section \<open>The splice\<close>

text \<open>
  \<open>String::truncate\<close>, \<open>String::replace_range(a..b, "")\<close>, \<open>String::insert_str\<close>, \<open>Vec::drain(a..=b)\<close> and
  \<open>Vec::insert\<close>, with their panics.
\<close>

definition str_truncate :: "nat \<Rightarrow> rstr \<Rightarrow> rstr option" where
  "str_truncate n s = (if n \<le> blen s then slice_to s n else Some s)"

definition str_remove :: "nat \<Rightarrow> nat \<Rightarrow> rstr \<Rightarrow> rstr option" where
  "str_remove a b s =
     do { gone \<leftarrow> slice s a b; x \<leftarrow> slice_to s a; y \<leftarrow> slice_from s b; Some (x @ y) }"

definition str_insert :: "nat \<Rightarrow> rstr \<Rightarrow> rstr \<Rightarrow> rstr option" where
  "str_insert a text s = do { x \<leftarrow> slice_to s a; y \<leftarrow> slice_from s a; Some (x @ text @ y) }"

definition drain_incl :: "nat \<Rightarrow> nat \<Rightarrow> 'a list \<Rightarrow> 'a list option" where
  "drain_incl a b xs = (if a \<le> b + 1 \<and> b < length xs then Some (take a xs @ drop (b + 1) xs) else None)"

definition vec_insert :: "nat \<Rightarrow> 'a \<Rightarrow> 'a list \<Rightarrow> 'a list option" where
  "vec_insert i x xs = (if i \<le> length xs then Some (take i xs @ x # drop i xs) else None)"

definition remove_range :: "position \<Rightarrow> position \<Rightarrow> rstr list \<Rightarrow> (damage \<times> rstr list) option" where
  "remove_range start en ls =
     (if start = en then Some (No_Damage, ls)
      else if p_line start = p_line en then
        do {
          l \<leftarrow> nth_opt ls (p_line start);
          l' \<leftarrow> str_remove (p_col start) (p_col en) l;
          Some (Line (p_line start), ls[p_line start := l'])
        }
      else
        do {
          le \<leftarrow> nth_opt ls (p_line en);
          tail \<leftarrow> slice_from le (p_col en);
          l \<leftarrow> nth_opt ls (p_line start);
          l' \<leftarrow> str_truncate (p_col start) l;
          ls \<leftarrow> drain_incl (p_line start + 1) (p_line en) (ls[p_line start := l' @ tail]);
          Some (From (p_line start), ls)
        })"

text \<open>The loop over the remaining parts; the result is the last line written.\<close>

fun insert_parts :: "nat \<Rightarrow> nat \<Rightarrow> rstr list \<Rightarrow> rstr list \<Rightarrow> (nat \<times> rstr list) option" where
  "insert_parts insert_at last_line [] ls = Some (last_line, ls)"
| "insert_parts insert_at last_line (part # parts) ls =
     (case vec_insert insert_at part ls of
        None \<Rightarrow> None
      | Some ls' \<Rightarrow> insert_parts (insert_at + 1) insert_at parts ls')"

definition insert_text :: "position \<Rightarrow> rstr \<Rightarrow> rstr list \<Rightarrow> (damage \<times> rstr list) option" where
  "insert_text start text ls =
     (if text = [] then Some (No_Damage, ls)
      else if 10 \<notin> set text then
        do {
          l \<leftarrow> nth_opt ls (p_line start);
          l' \<leftarrow> str_insert (p_col start) text l;
          Some (Line (p_line start), ls[p_line start := l'])
        }
      else
        do {
          l \<leftarrow> nth_opt ls (p_line start);
          tail \<leftarrow> slice_from l (p_col start);
          l' \<leftarrow> str_truncate (p_col start) l;
          let parts = split_char 10 text;
          let ls = ls[p_line start := l' @ hd parts];
          (last_line, ls) \<leftarrow> insert_parts (p_line start + 1) (p_line start) (tl parts) ls;
          l \<leftarrow> nth_opt ls last_line;
          Some (From (p_line start), ls[last_line := l @ tail])
        })"

definition raw_replace :: "position \<Rightarrow> position \<Rightarrow> rstr \<Rightarrow> ebuf \<Rightarrow> (damage \<times> ebuf) option" where
  "raw_replace start en text b =
     do {
       (removal, ls) \<leftarrow> remove_range start en (eb_lines b);
       (insertion, ls) \<leftarrow> insert_text start text ls;
       Some (damage_merge removal insertion,
             b\<lparr>eb_lines := ls, eb_cursor := end_of_text start text, eb_anchor := None\<rparr>)
     }"

section \<open>History\<close>

text \<open>
  The three coalescing arms of \<open>push_record\<close>: what the last record of the open group becomes, if the
  new one can be absorbed.
\<close>

definition absorb :: "group_kind \<Rightarrow> edit_record \<Rightarrow> edit_record \<Rightarrow> edit_record option" where
  "absorb kind record last_rec =
     (if kind = Typing \<and> er_old_text record = []
         \<and> er_start record = end_of_text (er_start last_rec) (er_new_text last_rec) then
        Some (last_rec\<lparr>er_new_text := er_new_text last_rec @ er_new_text record,
                       er_cursor_after := er_cursor_after record\<rparr>)
      else if kind = Deleting \<and> er_new_text record = []
         \<and> end_of_text (er_start record) (er_old_text record) = er_start last_rec then
        Some (last_rec\<lparr>er_old_text := er_old_text record @ er_old_text last_rec,
                       er_start := er_start record,
                       er_cursor_after := er_cursor_after record\<rparr>)
      else if kind = Deleting \<and> er_new_text record = [] \<and> er_start record = er_start last_rec then
        Some (last_rec\<lparr>er_old_text := er_old_text last_rec @ er_old_text record,
                       er_cursor_after := er_cursor_after record\<rparr>)
      else None)"

text \<open>The nested conditions that reach the arms: an open group of the same kind with a last record.\<close>

definition absorb_into_top :: "ebuf \<Rightarrow> group_kind \<Rightarrow> edit_record \<Rightarrow> undo_group option" where
  "absorb_into_top b kind record =
     (if eb_group_open b \<and> kind \<noteq> Other \<and> eb_undo b \<noteq> [] then
        (let g = last (eb_undo b) in
         if ug_kind g = kind \<and> ug_records g \<noteq> [] then
           (case absorb kind record (last (ug_records g)) of
              Some r \<Rightarrow> Some (g\<lparr>ug_records := butlast (ug_records g) @ [r]\<rparr>)
            | None \<Rightarrow> None)
         else None)
      else None)"

definition push_record :: "group_kind \<Rightarrow> edit_record \<Rightarrow> ebuf \<Rightarrow> ebuf" where
  "push_record kind record b =
     (let b = b\<lparr>eb_redo := []\<rparr> in
      case absorb_into_top b kind record of
        Some g \<Rightarrow> b\<lparr>eb_undo := butlast (eb_undo b) @ [g]\<rparr>
      | None \<Rightarrow>
          b\<lparr>eb_next_id := eb_next_id b + 1,
            eb_undo := eb_undo b @ [\<lparr>ug_id = eb_next_id b, ug_kind = kind, ug_records = [record]\<rparr>],
            eb_group_open := kind \<noteq> Other\<rparr>)"

definition record_replace ::
    "position \<Rightarrow> position \<Rightarrow> rstr \<Rightarrow> group_kind \<Rightarrow> ebuf \<Rightarrow> (damage \<times> ebuf) option" where
  "record_replace start en text kind b =
     do {
       old_text \<leftarrow> text_range b start en;
       if old_text = [] \<and> text = [] then Some (No_Damage, b)
       else do {
         let record = \<lparr>er_start = start, er_old_text = old_text, er_new_text = text,
                       er_cursor_before = eb_cursor b, er_anchor_before = eb_anchor b,
                       er_cursor_after = end_of_text start text\<rparr>;
         (damage, b) \<leftarrow> raw_replace start en text b;
         Some (damage, push_record kind record b)
       }
     }"

definition top_group_id :: "ebuf \<Rightarrow> nat" where
  "top_group_id b = (if eb_undo b = [] then 0 else ug_id (last (eb_undo b)))"

definition break_undo_group :: "ebuf \<Rightarrow> ebuf" where
  "break_undo_group b = b\<lparr>eb_group_open := False\<rparr>"

text \<open>The replay loops of \<open>undo\<close> and \<open>redo\<close>.\<close>

fun undo_records :: "edit_record list \<Rightarrow> damage \<Rightarrow> ebuf \<Rightarrow> (damage \<times> ebuf) option" where
  "undo_records [] d b = Some (d, b)"
| "undo_records (rec # recs) d b =
     (case raw_replace (er_start rec) (end_of_text (er_start rec) (er_new_text rec)) (er_old_text rec) b of
        None \<Rightarrow> None
      | Some (d', b') \<Rightarrow> undo_records recs (damage_merge d d') b')"

fun redo_records :: "edit_record list \<Rightarrow> damage \<Rightarrow> ebuf \<Rightarrow> (damage \<times> ebuf) option" where
  "redo_records [] d b = Some (d, b)"
| "redo_records (rec # recs) d b =
     (case raw_replace (er_start rec) (end_of_text (er_start rec) (er_old_text rec)) (er_new_text rec) b of
        None \<Rightarrow> None
      | Some (d', b') \<Rightarrow> redo_records recs (damage_merge d d') b')"

text \<open>\<open>first()\<close> and \<open>last()\<close> of a group with no records would be the panic of \<open>expect\<close>.\<close>

definition undo :: "ebuf \<Rightarrow> (damage \<times> ebuf) option" where
  "undo b =
     (let b = b\<lparr>eb_sticky := None, eb_group_open := False\<rparr> in
      if eb_undo b = [] then Some (No_Damage, b)
      else
        (let group = last (eb_undo b);
             b = b\<lparr>eb_undo := butlast (eb_undo b)\<rparr>
         in do {
              (damage, b) \<leftarrow> undo_records (rev (ug_records group)) No_Damage b;
              first \<leftarrow> nth_opt (ug_records group) 0;
              Some (damage, b\<lparr>eb_cursor := er_cursor_before first, eb_anchor := er_anchor_before first,
                              eb_redo := eb_redo b @ [group]\<rparr>)
            }))"

definition redo :: "ebuf \<Rightarrow> (damage \<times> ebuf) option" where
  "redo b =
     (let b = b\<lparr>eb_sticky := None, eb_group_open := False\<rparr> in
      if eb_redo b = [] then Some (No_Damage, b)
      else
        (let group = last (eb_redo b);
             b = b\<lparr>eb_redo := butlast (eb_redo b)\<rparr>
         in do {
              (damage, b) \<leftarrow> redo_records (ug_records group) No_Damage b;
              final \<leftarrow> nth_opt (ug_records group) (length (ug_records group) - 1);
              Some (damage, b\<lparr>eb_cursor := er_cursor_after final, eb_anchor := None,
                              eb_undo := eb_undo b @ [group]\<rparr>)
            }))"

section \<open>Typing and deleting\<close>

definition delete_selection :: "ebuf \<Rightarrow> (damage \<times> ebuf) option" where
  "delete_selection b =
     (let b = b\<lparr>eb_sticky := None\<rparr> in
      case selection b of
        Some (start, en) \<Rightarrow> record_replace start en [] Other b
      | None \<Rightarrow> Some (No_Damage, b))"

fun replace_crlf :: "rstr \<Rightarrow> rstr" where
  "replace_crlf (c # d # s) = (if c = 13 \<and> d = 10 then 10 # replace_crlf s else c # replace_crlf (d # s))"
| "replace_crlf s = s"

definition normalize :: "rstr \<Rightarrow> rstr" where
  "normalize text =
     (if 13 \<in> set text then map (\<lambda>c. if c = 13 then 10 else c) (replace_crlf text) else text)"

definition insert_with_kind :: "rstr \<Rightarrow> group_kind \<Rightarrow> ebuf \<Rightarrow> (damage \<times> ebuf) option" where
  "insert_with_kind text kind b =
     (let b = b\<lparr>eb_sticky := None\<rparr>;
          text = normalize text;
          (start, en) = (case selection b of Some s \<Rightarrow> s | None \<Rightarrow> (eb_cursor b, eb_cursor b))
      in record_replace start en text kind b)"

definition insert_str :: "rstr \<Rightarrow> ebuf \<Rightarrow> (damage \<times> ebuf) option" where
  "insert_str text = insert_with_kind text Other"

definition insert_typed :: "rstr \<Rightarrow> ebuf \<Rightarrow> (damage \<times> ebuf) option" where
  "insert_typed text = insert_with_kind text Typing"

definition insert_char :: "rchar \<Rightarrow> ebuf \<Rightarrow> (damage \<times> ebuf) option" where
  "insert_char ch = insert_typed [ch]"

definition insert_newline :: "ebuf \<Rightarrow> (damage \<times> ebuf) option" where
  "insert_newline = insert_str [10]"

definition insert_newline_auto_indent :: "ebuf \<Rightarrow> (damage \<times> ebuf) option" where
  "insert_newline_auto_indent b =
     (let start = (case selection b of Some (start, _) \<Rightarrow> start | None \<Rightarrow> eb_cursor b)
      in do {
           l \<leftarrow> eb_line b (p_line start);
           indent \<leftarrow> slice_to l (min (indent_end l) (p_col start));
           insert_with_kind (10 # indent) Other b
         })"

definition backspace :: "(rchar \<Rightarrow> bool) \<Rightarrow> bool \<Rightarrow> ebuf \<Rightarrow> (damage \<times> ebuf) option" where
  "backspace alnum word b =
     (let b = b\<lparr>eb_sticky := None\<rparr> in
      if selection b \<noteq> None then delete_selection b
      else
        (let line = p_line (eb_cursor b);
             col = p_col (eb_cursor b)
         in if col = 0 then
              (if line = 0 then Some (No_Damage, b)
               else do {
                 l \<leftarrow> eb_line b (line - 1);
                 record_replace (Position (line - 1) (blen l)) (eb_cursor b) [] Other b
               })
            else if word then
              do {
                l \<leftarrow> eb_line b line;
                c \<leftarrow> prev_word_boundary alnum l col;
                record_replace (Position line c) (eb_cursor b) [] Other b
              }
            else
              do { c \<leftarrow> prev_char_col b line col; record_replace (Position line c) (eb_cursor b) [] Deleting b }))"

definition delete_forward :: "(rchar \<Rightarrow> bool) \<Rightarrow> bool \<Rightarrow> ebuf \<Rightarrow> (damage \<times> ebuf) option" where
  "delete_forward alnum word b =
     (let b = b\<lparr>eb_sticky := None\<rparr> in
      if selection b \<noteq> None then delete_selection b
      else
        (let line = p_line (eb_cursor b);
             col = p_col (eb_cursor b)
         in do {
              l \<leftarrow> eb_line b line;
              if col \<ge> blen l then
                (if line + 1 \<ge> length (eb_lines b) then Some (No_Damage, b)
                 else record_replace (eb_cursor b) (Position (line + 1) 0) [] Other b)
              else if word then
                do {
                  c \<leftarrow> next_word_boundary alnum l col;
                  record_replace (eb_cursor b) (Position line c) [] Other b
                }
              else
                do { c \<leftarrow> next_char_col b line col; record_replace (eb_cursor b) (Position line c) [] Deleting b }
            }))"

section \<open>Line-wise commands\<close>

definition line_span :: "ebuf \<Rightarrow> nat \<times> nat" where
  "line_span b =
     (case selection b of
        None \<Rightarrow> (p_line (eb_cursor b), p_line (eb_cursor b))
      | Some (start, en) \<Rightarrow>
          (p_line start,
           if p_col en = 0 \<and> p_line en > p_line start then p_line en - 1 else p_line en))"

definition floor_boundary :: "ebuf \<Rightarrow> nat \<Rightarrow> nat \<Rightarrow> nat option" where
  "floor_boundary b line col =
     do { text \<leftarrow> eb_line b line; Some (floor_char_boundary text (min col (blen text))) }"

definition set_last_cursor_after :: "position \<Rightarrow> ebuf \<Rightarrow> ebuf" where
  "set_last_cursor_after pos b =
     (if eb_undo b = [] then b
      else
        (let g = last (eb_undo b) in
         if ug_records g = [] then b
         else
           (let r = (last (ug_records g))\<lparr>er_cursor_after := pos\<rparr>;
                g = g\<lparr>ug_records := butlast (ug_records g) @ [r]\<rparr>
            in b\<lparr>eb_undo := butlast (eb_undo b) @ [g]\<rparr>)))"

text \<open>\<open>iter().enumerate().all(|(offset, line)| *line == self.lines[first + offset])\<close>, short-circuiting.\<close>

fun lines_same :: "ebuf \<Rightarrow> nat \<Rightarrow> rstr list \<Rightarrow> bool option" where
  "lines_same b i [] = Some True"
| "lines_same b i (l # ls) =
     (case eb_line b i of
        None \<Rightarrow> None
      | Some x \<Rightarrow> if l = x then lines_same b (i + 1) ls else Some False)"

definition rewrite_lines :: "nat \<Rightarrow> nat \<Rightarrow> rstr list \<Rightarrow> int \<Rightarrow> ebuf \<Rightarrow> (damage \<times> ebuf) option" where
  "rewrite_lines first last_line new_lines cursor_delta b =
     do {
       same \<leftarrow> lines_same b first new_lines;
       if same then Some (No_Damage, b)
       else do {
         let selected = selection b \<noteq> None;
         let cursor_line = p_line (eb_cursor b);
         let cursor_col = p_col (eb_cursor b);
         let start = Position first 0;
         l \<leftarrow> eb_line b last_line;
         let en = Position last_line (blen l);
         (damage, b) \<leftarrow> record_replace start en (join_char 10 new_lines) Other b;
         (cursor, anchor) \<leftarrow>
           (if selected then
              do { l \<leftarrow> eb_line b last_line; Some (Position last_line (blen l), Some start) }
            else
              do {
                l \<leftarrow> eb_line b cursor_line;
                let col = nat (min (max (int cursor_col + cursor_delta) 0) (int (blen l)));
                c \<leftarrow> floor_boundary b cursor_line col;
                Some (Position cursor_line c, None)
              });
         let b = b\<lparr>eb_cursor := cursor, eb_anchor := anchor\<rparr>;
         let b = set_last_cursor_after cursor b;
         Some (damage, b\<lparr>eb_sticky := None\<rparr>)
       }
     }"

text \<open>\<open>(first..=last).map(f).collect()\<close> for an \<open>f\<close> that may panic.\<close>

fun map_lines :: "(nat \<Rightarrow> 'a option) \<Rightarrow> nat list \<Rightarrow> 'a list option" where
  "map_lines f [] = Some []"
| "map_lines f (i # is) =
     (case f i of None \<Rightarrow> None | Some x \<Rightarrow> (case map_lines f is of None \<Rightarrow> None | Some xs \<Rightarrow> Some (x # xs)))"

definition indent :: "ebuf \<Rightarrow> (damage \<times> ebuf) option" where
  "indent b =
     (if selection b = None then
        do {
          v \<leftarrow> visual_col b (eb_cursor b);
          insert_typed (replicate (TAB_SPACES - v mod TAB_SPACES) 32) b
        }
      else
        (let (first, last_line) = line_span b;
             pad = replicate TAB_SPACES 32
         in do {
              new_lines \<leftarrow> map_lines (\<lambda>line. do { l \<leftarrow> eb_line b line; Some (if l = [] then [] else pad @ l) })
                [first..<last_line + 1];
              rewrite_lines first last_line new_lines 0 b
            }))"

text \<open>The closures of \<open>outdent\<close> and \<open>toggle_line_comment\<close> also set \<open>cursor_delta\<close>, at the cursor's line.\<close>

definition outdent :: "ebuf \<Rightarrow> (damage \<times> ebuf) option" where
  "outdent b =
     (let (first, last_line) = line_span b;
          cursor_line = p_line (eb_cursor b)
      in do {
           rows \<leftarrow> map_lines (\<lambda>line. do {
               text \<leftarrow> eb_line b line;
               let removed = outdent_width text;
               kept \<leftarrow> slice_from text removed;
               Some (kept, if line = cursor_line then Some (- int removed) else None)
             }) [first..<last_line + 1];
           let cursor_delta = fold (\<lambda>(_, d) acc. case d of Some x \<Rightarrow> x | None \<Rightarrow> acc) rows 0;
           rewrite_lines first last_line (map fst rows) cursor_delta b
         })"

definition comment_line ::
    "ebuf \<Rightarrow> rstr \<Rightarrow> bool \<Rightarrow> nat \<Rightarrow> nat \<Rightarrow> (rstr \<times> int option) option" where
  "comment_line b prefix uncomment column line =
     do {
       text \<leftarrow> eb_line b line;
       if trim text = [] then Some (text, None)
       else do {
         (rewritten, delta) \<leftarrow>
           (if uncomment then
              do {
                let at = indent_end text;
                rest \<leftarrow> slice_from text (at + blen prefix);
                let rest = (case strip_prefix [32] rest of Some r \<Rightarrow> r | None \<Rightarrow> rest);
                let removed = blen text - at - blen rest;
                pre \<leftarrow> slice_to text at;
                Some (pre @ rest, - int removed)
              }
            else
              do {
                at \<leftarrow> floor_boundary b line column;
                pre \<leftarrow> slice_to text at;
                after \<leftarrow> slice_from text at;
                Some (pre @ prefix @ [32] @ after, int (blen prefix) + 1)
              });
         Some (rewritten, if line = p_line (eb_cursor b) then Some delta else None)
       }
     }"

definition toggle_line_comment :: "rstr \<Rightarrow> ebuf \<Rightarrow> (damage \<times> ebuf) option" where
  "toggle_line_comment prefix b =
     (let (first, last_line) = line_span b
      in do {
           texts \<leftarrow> map_lines (eb_line b) [first..<last_line + 1];
           let non_blank = filter (\<lambda>l. trim l \<noteq> []) texts;
           if non_blank = [] then Some (No_Damage, b)
           else do {
             let uncomment = list_all (\<lambda>l. starts_with prefix (trim_start l)) non_blank;
             let column = fold min (map indent_end (tl non_blank)) (indent_end (hd non_blank));
             rows \<leftarrow> map_lines (comment_line b prefix uncomment column) [first..<last_line + 1];
             let cursor_delta = fold (\<lambda>(_, d) acc. case d of Some x \<Rightarrow> x | None \<Rightarrow> acc) rows 0;
             rewrite_lines first last_line (map fst rows) cursor_delta b
           }
         })"

end
