(* ===== verification/Editor_Text.thy ===== *)
theory Editor_Text
  imports Editor_Edit
begin

text \<open>
  The buffer seen as one text. \<open>pos_of p\<close> is the position after the prefix \<open>p\<close>; the positions of a
  document are those of its prefixes (\<open>valid_pos_iff\<close>). On that view the splice of the code is the
  replacement of the middle of \<open>p @ m @ q\<close> (\<open>raw_replace_text\<close>), whatever lines it spans.
\<close>

abbreviation lines_of :: "rstr \<Rightarrow> rstr list" where
  "lines_of \<equiv> split_char 10"

definition pos_of :: "rstr \<Rightarrow> position" where
  "pos_of p = Position (length (lines_of p) - 1) (blen (last (lines_of p)))"

definition valid_pos :: "rstr \<Rightarrow> position \<Rightarrow> bool" where
  "valid_pos D pos \<longleftrightarrow> (\<exists>p q. D = p @ q \<and> pos = pos_of p)"

lemma length_lines_pos: "0 < length (lines_of p)"
  by simp

lemma pos_of_simps [simp]:
  "p_line (pos_of p) = length (lines_of p) - 1" "p_col (pos_of p) = blen (last (lines_of p))"
  by (simp_all add: pos_of_def)

lemma pos_of_Nil [simp]: "pos_of [] = position_default"
  by (simp add: pos_of_def position_default_def)

text \<open>Splitting a concatenation, with the line where the two meet spelled out.\<close>

lemma lines_append:
  "lines_of (p @ q) = butlast (lines_of p) @ (last (lines_of p) @ hd (lines_of q)) # tl (lines_of q)"
  by (rule split_char_append)

lemma last_lines_append:
  "last (lines_of (p @ q)) = (if 10 \<in> set q then last (lines_of q) else last (lines_of p) @ q)"
proof (cases "10 \<in> set q")
  case True
  then have "tl (lines_of q) \<noteq> []"
    using length_split_char [of 10 q] by (cases "lines_of q") (auto simp: count_list_0_iff)
  with True show ?thesis by (simp add: lines_append) (metis last_tl)
next
  case False
  then show ?thesis by (simp add: lines_append split_char_id)
qed

lemma length_lines_append: "length (lines_of (p @ q)) = length (lines_of p) + count_list q 10"
  by (simp add: length_split_char)

lemma end_of_text_pos_of [simp]: "end_of_text (pos_of p) t = pos_of (p @ t)"
proof (cases "rsplit_once 10 t")
  case None
  then have "10 \<notin> set t" by (simp add: rsplit_once_None_iff)
  with None show ?thesis
    by (simp add: end_of_text_def pos_of_def last_lines_append length_lines_append count_list_0_iff)
next
  case (Some ht)
  then obtain h l where hl: "ht = (h, l)" "t = h @ 10 # l" "10 \<notin> set l"
    by (cases ht) (auto simp: rsplit_once_eq_Some)
  then have "last (lines_of t) = l" by (simp add: split_char_sep split_char_id)
  with Some hl show ?thesis
    by (simp add: end_of_text_def pos_of_def last_lines_append length_lines_append length_split_char
        count_list_0_iff [symmetric] count_notin)
qed

lemma end_of_text_default: "end_of_text position_default t = pos_of t"
  using end_of_text_pos_of [of "[]" t] by simp

text \<open>Later prefixes have later positions.\<close>

lemma pos_of_mono: "q \<noteq> [] \<Longrightarrow> pos_of p < pos_of (p @ q)"
  by (cases "10 \<in> set q")
    (auto simp: less_position_def length_lines_append last_lines_append count_list_0_iff length_split_char
      intro: gr0I)

lemma pos_of_le: "pos_of p \<le> pos_of (p @ q)"
  using pos_of_mono [of q p] by (cases "q = []") auto

lemma prefix_cases:
  assumes "p @ q = p' @ q'"
  obtains m where "p' = p @ m" "q = m @ q'" | m where "p = p' @ m" "q' = m @ q" "m \<noteq> []"
proof -
  from assms obtain us where "p = p' @ us \<and> us @ q = q' \<or> p @ us = p' \<and> q = us @ q'"
    by (auto simp: append_eq_append_conv2)
  then show thesis
  proof
    assume "p = p' @ us \<and> us @ q = q'"
    then show thesis using that(1) [of "[]"] that(2) [of us] by (cases "us = []") auto
  next
    assume "p @ us = p' \<and> q = us @ q'"
    then show thesis using that(1) [of us] by auto
  qed
qed

lemma pos_of_inj:
  assumes "p @ q = p' @ q'" and "pos_of p = pos_of p'"
  shows "p = p' \<and> q = q'"
  using assms(1)
proof (cases rule: prefix_cases)
  case (1 m)
  have "m = []"
  proof (rule ccontr)
    assume "m \<noteq> []"
    from pos_of_mono [OF this, of p] assms(2) 1(1) show False by simp
  qed
  with 1 show ?thesis by simp
next
  case (2 m)
  from pos_of_mono [OF 2(3), of p'] assms(2) 2(1) show ?thesis by simp
qed

lemma pos_of_less_split:
  assumes "p @ q = p' @ q'" and "pos_of p \<le> pos_of p'"
  obtains m where "p' = p @ m" and "q = m @ q'"
  using assms(1)
proof (cases rule: prefix_cases)
  case (1 m)
  then show ?thesis by (rule that)
next
  case (2 m)
  then show ?thesis using pos_of_mono [of m p'] assms(2) by auto
qed

text \<open>The positions of a text are its lines and the character boundaries in them.\<close>

lemma line_at_pos:
  "lines_of (p @ q) ! p_line (pos_of p) = last (lines_of p) @ hd (lines_of q)"
  "p_line (pos_of p) < length (lines_of (p @ q))"
  by (simp_all add: lines_append nth_append)

lemma split_at_line:
  assumes "i < length (lines_of D)" and "lines_of D ! i = a @ b"
  obtains p q where "D = p @ q" and "pos_of p = Position i (blen a)"
    and "last (lines_of p) = a" and "hd (lines_of q) = b"
    and "length (lines_of p) = Suc i"
proof -
  let ?L = "lines_of D"
  let ?p = "join_char 10 (take i ?L @ [a])" and ?q = "join_char 10 (b # drop (Suc i) ?L)"
  have nl: "10 \<notin> set l" if "l \<in> set ?L" for l using that by (rule split_char_no_sep)
  have "?L ! i \<in> set ?L" using assms(1) by simp
  from nl [OF this] assms(2) have ab: "10 \<notin> set a" "10 \<notin> set b" by auto
  have P: "lines_of ?p = take i ?L @ [a]"
    by (rule split_join_char) (use nl ab in \<open>auto dest: in_set_takeD\<close>)
  have Q: "lines_of ?q = b # drop (Suc i) ?L"
    by (rule split_join_char) (use nl ab in \<open>auto dest: in_set_dropD\<close>)
  have "lines_of (?p @ ?q) = take i ?L @ (a @ b) # drop (Suc i) ?L" by (simp add: lines_append P Q)
  also have "\<dots> = ?L" unfolding assms(2) [symmetric] by (rule id_take_nth_drop [OF assms(1), symmetric])
  finally have "join_char 10 (lines_of (?p @ ?q)) = join_char 10 ?L" by simp
  then have "?p @ ?q = D" by (simp only: join_split_char)
  then show ?thesis
    by (intro that [of ?p ?q]) (use P Q assms(1) in \<open>simp_all add: pos_of_def\<close>)
qed

lemma valid_pos_iff:
  "valid_pos D pos \<longleftrightarrow> p_line pos < length (lines_of D) \<and> is_char_boundary (lines_of D ! p_line pos) (p_col pos)"
proof
  assume "valid_pos D pos"
  then obtain p q where "D = p @ q" "pos = pos_of p" by (auto simp: valid_pos_def)
  then show "p_line pos < length (lines_of D) \<and> is_char_boundary (lines_of D ! p_line pos) (p_col pos)"
    using line_at_pos [of p q] by simp
next
  assume *: "p_line pos < length (lines_of D) \<and> is_char_boundary (lines_of D ! p_line pos) (p_col pos)"
  then obtain a b where "lines_of D ! p_line pos = a @ b" "blen a = p_col pos"
    by (auto simp: is_char_boundary_iff)
  with * split_at_line [of "p_line pos" D a b] obtain p q where "D = p @ q" "pos_of p = pos"
    by (metis position.collapse)
  then show "valid_pos D pos" by (auto simp: valid_pos_def)
qed

lemma valid_pos_I: "D = p @ q \<Longrightarrow> valid_pos D (pos_of p)"
  by (auto simp: valid_pos_def)

lemma valid_pos_default [simp]: "valid_pos D position_default"
  unfolding valid_pos_def by (rule exI [of _ "[]"], rule exI [of _ D]) simp

lemma valid_pos_line_end: "i < length (lines_of D) \<Longrightarrow> valid_pos D (Position i (blen (lines_of D ! i)))"
  by (simp add: valid_pos_iff)

lemma valid_pos_line_start: "i < length (lines_of D) \<Longrightarrow> valid_pos D (Position i 0)"
  by (simp add: valid_pos_iff)

lemma valid_posE:
  assumes "valid_pos D pos"
  obtains p q where "D = p @ q" and "pos = pos_of p"
  using assms by (auto simp: valid_pos_def)

lemma valid_pos_ordE:
  assumes "valid_pos D s" and "valid_pos D e" and "s \<le> e"
  obtains p m q where "D = p @ m @ q" and "s = pos_of p" and "e = pos_of (p @ m)"
proof -
  from assms(1) obtain p q where 1: "D = p @ q" "s = pos_of p" by (rule valid_posE)
  from assms(2) obtain p' q' where 2: "D = p' @ q'" "e = pos_of p'" by (rule valid_posE)
  note pq = 1 2
  have "p @ q = p' @ q'" "pos_of p \<le> pos_of p'" using pq assms(3) by auto
  then obtain m where "p' = p @ m" "q = m @ q'" by (rule pos_of_less_split)
  then show ?thesis using pq by (intro that [of p m q']) auto
qed

section \<open>Repaint hints\<close>

text \<open>What a hint promises of the lines before and after.\<close>

fun damage_covers :: "damage \<Rightarrow> rstr list \<Rightarrow> rstr list \<Rightarrow> bool" where
  "damage_covers No_Damage L L' \<longleftrightarrow> L' = L"
| "damage_covers (Line a) L L' \<longleftrightarrow> length L' = length L \<and> (\<forall>i < length L. i = a \<or> L' ! i = L ! i)"
| "damage_covers (From a) L L' \<longleftrightarrow> take a L' = take a L"

lemma damage_covers_line: "damage_covers (Line (length P)) (P @ x # Q) (P @ y # Q)"
  by (auto simp: nth_append nth_Cons split: nat.splits)

lemma take_eq_mono: "take a xs = take a ys \<Longrightarrow> c \<le> a \<Longrightarrow> take c xs = take c ys"
  by (metis min.absorb1 take_take)

lemma damage_covers_take:
  "damage_covers (Line a) L L' \<Longrightarrow> take a L' = take a L"
  by (auto intro!: nth_equalityI)

lemma damage_merge_covers:
  assumes "damage_covers d1 A B" and "damage_covers d2 B C"
  shows "damage_covers (damage_merge d1 d2) A C"
proof -
  have line_line: "damage_covers (From (min a b)) A C"
    if "damage_covers (Line a) A B" "damage_covers (Line b) B C" for a b
    using take_eq_mono [OF damage_covers_take [OF that(1)], of "min a b"]
      take_eq_mono [OF damage_covers_take [OF that(2)], of "min a b"] by simp
  have mixed: "damage_covers (From (min a b)) A C"
    if "take a B = take a A" "take b C = take b B" for a b
    using take_eq_mono [OF that(1), of "min a b"] take_eq_mono [OF that(2), of "min a b"] by simp
  have same: "damage_covers (Line a) A C" if "damage_covers (Line a) A B" "damage_covers (Line a) B C" for a
  proof -
    have "\<forall>i < length A. i = a \<or> C ! i = A ! i"
    proof (intro allI impI)
      fix i assume i: "i < length A"
      with that(1) have "i < length B" by simp
      with that i show "i = a \<or> C ! i = A ! i" by fastforce
    qed
    with that show ?thesis by simp
  qed
  show ?thesis
  proof (cases d1)
    case d1: No_Damage
    then show ?thesis using assms by simp
  next
    case d1: (Line a)
    show ?thesis
    proof (cases d2)
      case No_Damage
      then show ?thesis using assms d1 by simp
    next
      case (Line b)
      then show ?thesis
        using assms d1 line_line [of a b] same [of a] by (cases "a = b") (simp_all del: damage_covers.simps)
    next
      case (From b)
      have "take a B = take a A" using damage_covers_take assms(1) d1 by blast
      from mixed [OF this, of b] show ?thesis using assms(2) d1 From by (simp add: min.commute)
    qed
  next
    case d1: (From a)
    show ?thesis
    proof (cases d2)
      case No_Damage
      then show ?thesis using assms d1 by simp
    next
      case (Line b)
      have "take b C = take b B" using damage_covers_take assms(2) Line by blast
      from mixed [OF _ this, of a] show ?thesis using assms(1) d1 Line by simp
    next
      case (From b)
      from mixed [of a b] show ?thesis using assms d1 From by simp
    qed
  qed
qed

section \<open>The splice on texts\<close>

text \<open>The last line of the prefix and the first of the suffix are named \<open>l\<close> and \<open>h\<close>.\<close>

lemma lines_lastE:
  obtains P l where "lines_of p = P @ [l]"
  by (metis append_butlast_last_id split_char_neq_Nil)

lemma lines_headE:
  obtains h Q where "lines_of q = h # Q"
  by (metis list.exhaust split_char_neq_Nil)

lemma lines_join:
  assumes "lines_of p = P @ [l]" and "lines_of q = h # Q"
  shows "lines_of (p @ q) = P @ (l @ h) # Q"
  by (simp add: lines_append assms)

text \<open>The lines of \<open>p @ m @ q\<close>, for an \<open>m\<close> inside one line and for one that crosses lines.\<close>

lemma lines_mid_single:
  assumes "lines_of p = P @ [l]" and "lines_of q = h # Q" and "10 \<notin> set m"
  shows "lines_of (p @ m @ q) = P @ (l @ m @ h) # Q"
  using assms by (simp add: lines_append [of p] lines_append [of m] split_char_id)

lemma lines_mid_multi:
  assumes "lines_of p = P @ [l]" and "lines_of q = h # Q" and "lines_of m = m0 # mid @ [m1]"
  shows "lines_of (p @ m @ q) = P @ (l @ m0) # mid @ (m1 @ h) # Q"
  using assms by (simp add: lines_append [of p] lines_append [of m] butlast_append)

lemma multi_lines:
  assumes "10 \<in> set m"
  obtains m0 mid m1 where "lines_of m = m0 # mid @ [m1]"
proof -
  from assms have "2 \<le> length (lines_of m)"
    using count_list_0_iff [of m 10] by (simp add: length_split_char)
  then obtain m0 r where r: "lines_of m = m0 # r" "r \<noteq> []"
    by (cases "lines_of m"; cases "tl (lines_of m)") auto
  then show ?thesis using that [of m0 "butlast r" "last r"] by simp
qed

lemma join_prepend: "join_char d ((x @ m0) # ls) = x @ join_char d (m0 # ls)"
  by (cases ls) simp_all

lemma join_fold:
  "fold (\<lambda>line out. out @ [d] @ line) mid m0 @ [d] @ m1 = join_char d (m0 # mid @ [m1])"
proof (induction mid arbitrary: m0)
  case (Cons a mid)
  have "join_char d ((m0 @ [d] @ a) # mid @ [m1]) = (m0 @ [d]) @ join_char d (a # mid @ [m1])"
    using join_prepend [of d "m0 @ [d]" a] by simp
  with Cons [of "m0 @ [d] @ a"] show ?case by simp
qed simp

lemma pos_of_lines: "lines_of p = P @ [l] \<Longrightarrow> pos_of p = Position (length P) (blen l)"
  by (simp add: pos_of_def)

lemma pos_multi:
  assumes "lines_of p = P @ [l]" and "lines_of m = m0 # mid @ [m1]"
  shows "pos_of (p @ m) = Position (length P + length mid + 1) (blen m1)"
proof -
  have "lines_of (p @ m) = (P @ (l @ m0) # mid) @ [m1]" by (simp add: lines_append assms)
  from pos_of_lines [OF this] show ?thesis by simp
qed

lemma pos_single:
  assumes "lines_of p = P @ [l]" and "10 \<notin> set m"
  shows "pos_of (p @ m) = Position (length P) (blen l + blen m)"
proof -
  have "lines_of (p @ m) = P @ [l @ m]" by (simp add: lines_append assms split_char_id)
  from pos_of_lines [OF this] show ?thesis by simp
qed

lemma nth_opt_append_Suc:
  "nth_opt (P @ x # mid @ y # Q) (Suc (length P + length mid)) = Some y"
  using nth_opt_append_at [of "P @ x # mid" y Q] by simp

lemma text_range_mid:
  assumes "eb_lines b = lines_of (p @ m @ q)"
  shows "text_range b (pos_of p) (pos_of (p @ m)) = Some m"
proof -
  obtain P l where P: "lines_of p = P @ [l]" by (rule lines_lastE)
  obtain h Q where Q: "lines_of q = h # Q" by (rule lines_headE)
  show ?thesis
  proof (cases "10 \<in> set m")
    case False
    then show ?thesis
      using slice_append [of l m h]
      by (simp add: text_range_def pos_of_lines [OF P] pos_single [OF P] eb_line_def assms lines_mid_single [OF P Q])
  next
    case True
    then obtain m0 mid m1 where m: "lines_of m = m0 # mid @ [m1]" by (rule multi_lines)
    have "sub_vec (Suc (length P)) (Suc (length P + length mid)) (P @ (l @ m0) # mid @ (m1 @ h) # Q) = Some mid"
      by (simp add: sub_vec_def)
    moreover have "fold (\<lambda>line out. out @ [10] @ line) mid m0 @ [10] @ m1 = m"
      unfolding join_fold m [symmetric] by (rule join_split_char)
    ultimately show ?thesis
      by (simp add: text_range_def pos_of_lines [OF P] pos_multi [OF P m] eb_line_def assms
          lines_mid_multi [OF P Q m] nth_opt_append_Suc)
  qed
qed

lemma remove_range_mid:
  "\<exists>d. remove_range (pos_of p) (pos_of (p @ m)) (lines_of (p @ m @ q)) = Some (d, lines_of (p @ q))
    \<and> damage_covers d (lines_of (p @ m @ q)) (lines_of (p @ q))"
proof -
  obtain P l where P: "lines_of p = P @ [l]" by (rule lines_lastE)
  obtain h Q where Q: "lines_of q = h # Q" by (rule lines_headE)
  note pos = pos_of_lines [OF P] and R = lines_join [OF P Q]
  consider "m = []" | "m \<noteq> []" "10 \<notin> set m" | m0 mid m1 where "lines_of m = m0 # mid @ [m1]"
    using multi_lines by blast
  then show ?thesis
  proof cases
    case 1
    then show ?thesis by (simp add: remove_range_def)
  next
    case 2
    have "str_remove (blen l) (blen l + blen m) (l @ m @ h) = Some (l @ h)"
      using slice_append [of l m h] slice_from_append [of "l @ m" h] by (simp add: str_remove_def)
    then show ?thesis
      using 2 by (intro exI [of _ "Line (length P)"])
        (simp add: remove_range_def pos pos_single [OF P] lines_mid_single [OF P Q] R damage_covers_line
          del: damage_covers.simps)
  next
    case 3
    have "str_truncate (blen l) (l @ m0) = Some l" by (simp add: str_truncate_def)
    moreover have "drain_incl (Suc (length P)) (Suc (length P + length mid)) (P @ (l @ h) # mid @ (m1 @ h) # Q) =
        Some (P @ (l @ h) # Q)"
      by (simp add: drain_incl_def)
    ultimately show ?thesis
      by (intro exI [of _ "From (length P)"])
        (simp add: remove_range_def pos pos_multi [OF P 3] lines_mid_multi [OF P Q 3] R nth_opt_append_Suc)
  qed
qed

lemma insert_parts_append:
  "insert_parts (Suc (length ps)) (length ps) parts (ps @ x # rs) = Some (length ps + length parts, ps @ x # parts @ rs)"
proof (induction parts arbitrary: ps x)
  case (Cons part parts)
  then show ?case using Cons.IH [of "ps @ [x]" part] by (simp add: vec_insert_def)
qed simp

lemma insert_text_mid:
  "\<exists>d. insert_text (pos_of p) t (lines_of (p @ q)) = Some (d, lines_of (p @ t @ q))
    \<and> damage_covers d (lines_of (p @ q)) (lines_of (p @ t @ q))"
proof -
  obtain P l where P: "lines_of p = P @ [l]" by (rule lines_lastE)
  obtain h Q where Q: "lines_of q = h # Q" by (rule lines_headE)
  note pos = pos_of_lines [OF P] and R = lines_join [OF P Q]
  consider "t = []" | "t \<noteq> []" "10 \<notin> set t" | m0 mid m1 where "lines_of t = m0 # mid @ [m1]" "10 \<in> set t"
    using multi_lines by blast
  then show ?thesis
  proof cases
    case 1
    then show ?thesis by (simp add: insert_text_def)
  next
    case 2
    then show ?thesis
      by (intro exI [of _ "Line (length P)"])
        (simp add: insert_text_def pos R lines_mid_single [OF P Q] str_insert_def damage_covers_line
          del: damage_covers.simps)
  next
    case 3
    have "str_truncate (blen l) (l @ h) = Some l" by (simp add: str_truncate_def)
    moreover have "insert_parts (Suc (length P)) (length P) (mid @ [m1]) (P @ (l @ m0) # Q) =
        Some (Suc (length P + length mid), P @ (l @ m0) # mid @ m1 # Q)"
      using insert_parts_append [of P "mid @ [m1]" "l @ m0" Q] by simp
    moreover have "(P @ (l @ m0) # mid @ m1 # Q)[Suc (length P + length mid) := m1 @ h] =
        P @ (l @ m0) # mid @ (m1 @ h) # Q"
      using list_update_length [of "P @ (l @ m0) # mid" m1 Q "m1 @ h"] by simp
    moreover have "t \<noteq> []" using 3(2) by auto
    ultimately show ?thesis
      using 3(2) by (intro exI [of _ "From (length P)"])
        (simp add: insert_text_def pos R lines_mid_multi [OF P Q 3(1)] 3(1) nth_opt_append_Suc)
  qed
qed

text \<open>The splice of the code replaces the middle of the text, and its hint covers what changed.\<close>

lemma raw_replace_text:
  assumes "eb_lines b = lines_of (p @ m @ q)"
  shows "\<exists>d. raw_replace (pos_of p) (pos_of (p @ m)) t b =
      Some (d, b\<lparr>eb_lines := lines_of (p @ t @ q), eb_cursor := pos_of (p @ t), eb_anchor := None\<rparr>)
    \<and> damage_covers d (lines_of (p @ m @ q)) (lines_of (p @ t @ q))"
proof -
  obtain d1 where d1: "remove_range (pos_of p) (pos_of (p @ m)) (lines_of (p @ m @ q)) = Some (d1, lines_of (p @ q))"
    "damage_covers d1 (lines_of (p @ m @ q)) (lines_of (p @ q))"
    using remove_range_mid [of p m q] by blast
  obtain d2 where d2: "insert_text (pos_of p) t (lines_of (p @ q)) = Some (d2, lines_of (p @ t @ q))"
    "damage_covers d2 (lines_of (p @ q)) (lines_of (p @ t @ q))"
    using insert_text_mid [of p t q] by blast
  show ?thesis
    using damage_merge_covers [OF d1(2) d2(2)] d1(1) d2(1) by (simp add: raw_replace_def assms)
qed

end
