(* ===== verification/Editor_Cols.thy ===== *)
theory Editor_Cols
  imports Editor_Text
begin

text \<open>
  The column functions of the buffer return character boundaries: stepping by a character, by a word,
  to the indent, to a visual column, and the loops of word selection. The visual column of a boundary
  is inverted exactly.
\<close>

lemma last_char_indices: "s \<noteq> [] \<Longrightarrow> fst (last (char_indices s)) = blen (butlast s)"
  by (simp add: last_conv_nth nth_char_indices butlast_conv_take flip: length_greater_0_conv)

lemma blen_take_boundary [simp]: "is_char_boundary s (blen (take k s))"
  using is_char_boundary_append [of "take k s" "drop k s"] by simp

lemma blen_butlast_boundary: "is_char_boundary (a @ r) (blen (butlast a))"
  using is_char_boundary_prefix [OF blen_take_boundary [of a "length a - 1"], of r]
  by (simp add: butlast_conv_take)

lemma fst_char_indices_boundary:
  "(i, c) \<in> set (char_indices s) \<Longrightarrow> is_char_boundary s i"
  by (auto simp: in_set_conv_nth nth_char_indices)

lemma prev_char_col_eq:
  assumes "eb_line b i = Some (a @ r)"
  shows "prev_char_col b i (blen a) = Some (blen (butlast a))"
  using assms last_char_indices [of a] by (simp add: prev_char_col_def)

lemma next_char_col_eq:
  assumes "eb_line b i = Some (a @ r)"
  shows "next_char_col b i (blen a) = Some (blen a + (case r of [] \<Rightarrow> 0 | c # cs \<Rightarrow> len_utf8 c))"
  using assms by (simp add: next_char_col_def split: list.split)

lemma next_char_boundary: "is_char_boundary (a @ r) (blen a + (case r of [] \<Rightarrow> 0 | c # cs \<Rightarrow> len_utf8 c))"
proof (cases r)
  case (Cons c cs)
  then show ?thesis using is_char_boundary_append [of "a @ [c]" cs] by simp
qed simp

lemma find_char_indices_from:
  "List.find (\<lambda>(b, c). \<not> P c) (char_indices_from n s) =
    (if dropWhile P s = [] then None
     else Some (n + blen (takeWhile P s), hd (dropWhile P s)))"
  by (induction s arbitrary: n) auto

lemma indent_end_eq: "indent_end line = blen (takeWhile is_whitespace line)"
proof (cases "dropWhile is_whitespace line = []")
  case True
  have "takeWhile is_whitespace line @ dropWhile is_whitespace line = line" by simp
  then have "takeWhile is_whitespace line = line" unfolding True by simp
  moreover have "indent_end line = blen line"
    using True unfolding indent_end_def char_indices_def find_char_indices_from by simp
  ultimately show ?thesis by (simp only:)
next
  case False
  then show ?thesis
    by (simp add: indent_end_def char_indices_def find_char_indices_from del: dropWhile_eq_Nil_conv)
qed

lemma indent_end_boundary [simp]: "is_char_boundary line (indent_end line)"
  using is_char_boundary_append [of "takeWhile is_whitespace line" "dropWhile is_whitespace line"]
  by (simp add: indent_end_eq)

lemma walk_back_le: "walk_back p cs i \<le> i"
  by (induction i) auto

lemma walk_back_stops: "0 < walk_back p cs i \<Longrightarrow> \<not> p (cs ! (walk_back p cs i - 1))"
  by (induction i) auto

lemma walk_back_less: "p (cs ! (i - 1)) \<Longrightarrow> 0 < i \<Longrightarrow> walk_back p cs i < i"
  using walk_back_le [of p cs "i - 1"] by (cases i) (auto simp: less_Suc_eq_le)

lemma char_index_boundary:
  assumes "i < length a"
  shows "is_char_boundary (a @ r) (fst (char_indices a ! i)) \<and> fst (char_indices a ! i) \<le> blen a"
proof -
  have "is_char_boundary a (blen (take i a))" by simp
  with assms show ?thesis
    using is_char_boundary_prefix is_char_boundary_le by (simp add: nth_char_indices)
qed

lemma prev_word_boundary_ok:
  "\<exists>c. prev_word_boundary alnum (a @ r) (blen a) = Some c \<and> is_char_boundary (a @ r) c \<and> c \<le> blen a"
proof -
  let ?cs = "char_indices a"
  let ?ws = "\<lambda>(b :: nat, c). is_whitespace c"
  define i where "i = walk_back ?ws ?cs (length a)"
  define cl where "cl = is_word_char alnum (snd (?cs ! (i - 1)))"
  let ?same = "\<lambda>(b :: nat, c). \<not> is_whitespace c \<and> is_word_char alnum c = cl"
  define j where "j = walk_back ?same ?cs i"
  have i: "i \<le> length a" by (simp add: i_def walk_back_le)
  have j: "j < length a" if "0 < i"
  proof -
    have "\<not> ?ws (?cs ! (i - 1))" using that unfolding i_def by (rule walk_back_stops)
    then have "?same (?cs ! (i - 1))" by (simp add: cl_def split_beta)
    from walk_back_less [of ?same, OF this that] i show ?thesis by (simp add: j_def)
  qed
  have "prev_word_boundary alnum (a @ r) (blen a) =
      (if i = 0 then Some 0 else if j = 0 then Some 0 else Some (fst (?cs ! j)))"
    by (simp add: prev_word_boundary_def Let_def i_def [symmetric] j_def [symmetric] cl_def [symmetric])
      (simp add: j_def cl_def)
  then show ?thesis using char_index_boundary [OF j, of r] by auto
qed

lemma next_word_boundary_ok:
  "\<exists>c. next_word_boundary alnum (a @ r) (blen a) = Some c \<and> is_char_boundary (a @ r) c \<and> blen a \<le> c"
proof -
  have "is_char_boundary (a @ r) (blen a + fst (char_indices r ! i))" if "i < length r" for i
    using char_index_boundary [OF that, of "[]"] by (simp add: is_char_boundary_shift)
  moreover have "is_char_boundary (a @ r) (blen a + blen r)"
    using is_char_boundary_blen [of "a @ r"] by simp
  ultimately show ?thesis by (simp add: next_word_boundary_def Let_def)
qed

subsection \<open>Word selection\<close>

text \<open>The loops take the longest run of one class to the left and to the right.\<close>

lemma word_start_eq:
  assumes "eb_line b i = Some l" and "l = a @ r"
  shows "word_start alnum b i l class (blen a) = Some (blen (rev (dropWhile (\<lambda>c. char_class alnum c = class) (rev a))))"
  using assms(2)
proof (induction a arbitrary: r rule: rev_induct)
  case Nil
  then show ?case by (simp add: word_start.simps)
next
  case (snoc x a)
  have "prev_char_col b i (blen a + len_utf8 x) = Some (blen a)"
    using prev_char_col_eq [of b i "a @ [x]" r] assms(1) snoc.prems by simp
  moreover have "slice_from l (blen a) = Some (x # r)" using snoc.prems by simp
  ultimately show ?case
    using snoc.IH [of "x # r"] snoc.prems
    by (subst word_start.simps) simp
qed

lemma word_end_eq:
  assumes "l = a @ r"
  shows "word_end alnum l class (blen a) = Some (blen a + blen (takeWhile (\<lambda>c. char_class alnum c = class) r))"
  using assms
proof (induction r arbitrary: a)
  case Nil
  then show ?case by (simp add: word_end.simps)
next
  case (Cons x r)
  have "slice_from l (blen a) = Some (x # r)" using Cons.prems by simp
  then show ?case
    using Cons.IH [of "a @ [x]"] Cons.prems by (subst word_end.simps) simp
qed

subsection \<open>Visual columns\<close>

lemma visual_loop_prefix:
  "visual_loop (n + blen a) (char_indices_from n (a @ r)) v = fold (\<lambda>ch v. v + char_width_at ch v) a v"
proof (induction a arbitrary: n v)
  case Nil
  then show ?case by (cases r) simp_all
next
  case (Cons c a)
  then show ?case using len_utf8_pos [of c] by (simp add: add.assoc [symmetric])
qed

lemma char_width_at_pos [simp]: "0 < char_width_at ch v"
  by (simp add: char_width_at_def TAB_SPACES_def)

lemma fold_width_ge: "v \<le> fold (\<lambda>ch v. v + char_width_at ch v) a v"
proof (induction a arbitrary: v)
  case (Cons c a)
  have "v \<le> v + char_width_at c v" by simp
  also have "\<dots> \<le> fold (\<lambda>ch v. v + char_width_at ch v) a (v + char_width_at c v)" by (rule Cons)
  finally show ?case by simp
qed simp

lemma col_for_visual_loop_prefix:
  "s = x @ a @ r \<Longrightarrow> col_for_visual_loop s (fold (\<lambda>ch v. v + char_width_at ch v) a v)
      (char_indices_from (blen x) (a @ r)) v = blen x + blen a"
proof (induction a arbitrary: x v)
  case Nil
  then show ?case by (cases r) (simp_all add: Let_def)
next
  case (Cons c a)
  have "\<not> fold (\<lambda>ch v. v + char_width_at ch v) a (v + char_width_at c v) < v + char_width_at c v"
    using fold_width_ge [of "v + char_width_at c v" a] by simp
  then show ?case using Cons.IH [of "x @ [c]" "v + char_width_at c v"] Cons.prems by (simp add: Let_def)
qed

lemma col_for_visual_loop_boundary:
  "s = x @ r \<Longrightarrow> is_char_boundary s (col_for_visual_loop s t (char_indices_from (blen x) r) v)"
proof (induction r arbitrary: x v)
  case (Cons c r)
  then show ?case using Cons.IH [of "x @ [c]"] by (simp add: Let_def)
qed simp

lemma col_for_visual_ok:
  assumes "eb_line b i = Some s"
  shows "\<exists>c. col_for_visual b i t = Some c \<and> is_char_boundary s c"
  using assms col_for_visual_loop_boundary [of s "[]" s t 0]
  by (simp add: col_for_visual_def char_indices_def)

lemma visual_round_trip:
  assumes "eb_line b i = Some (a @ r)"
  shows "\<exists>v. visual_col b (Position i (blen a)) = Some v \<and> col_for_visual b i v = Some (blen a)"
  using assms visual_loop_prefix [of 0 a r 0] col_for_visual_loop_prefix [of "a @ r" "[]" a r 0]
  by (simp add: visual_col_def col_for_visual_def char_indices_def)

subsection \<open>Rounding down to a boundary\<close>

lemma floor_char_boundary_ok:
  "is_char_boundary s (floor_char_boundary s c) \<and> floor_char_boundary s c \<le> c"
proof (induction s c rule: floor_char_boundary.induct)
  case (1 s c)
  then show ?case by (subst (1 2) floor_char_boundary.simps) (auto intro: le_trans)
qed

lemma floor_char_boundary_id: "is_char_boundary s c \<Longrightarrow> floor_char_boundary s c = c"
  by (simp add: floor_char_boundary.simps)

lemma lead_byte_not_space: "c \<noteq> 32 \<Longrightarrow> hd (utf8_char c) \<noteq> 32"
proof -
  have u: "byte m \<noteq> 32" if "m < 256" "m \<noteq> 32" for m
  proof
    assume "byte m = 32"
    with unat_byte [OF that(1)] that(2) show False by simp
  qed
  assume "c \<noteq> 32"
  then show ?thesis using u by (auto simp: utf8_char_def)
qed

lemma outdent_width_boundary: "is_char_boundary text (outdent_width text)"
proof (cases "starts_with [9] text")
  case True
  then obtain t where "text = [9] @ t" by (auto simp: starts_with_iff)
  then show ?thesis using True is_char_boundary_append [of "[9]" t] by (simp add: outdent_width_def len_utf8_def)
next
  case False
  have "is_char_boundary t (length (takeWhile (\<lambda>b. b = 32) (take n (utf8 t))))" for n t
  proof (induction t arbitrary: n)
    case (Cons c t)
    show ?case
    proof (cases "c = 32 \<and> n \<noteq> 0")
      case True
      then obtain m where n: "n = Suc m" by (cases n) auto
      have "utf8_char c = [32]" using True by (simp add: utf8_char_def byte_def)
      moreover have "is_char_boundary ([c] @ t) (blen [c] + length (takeWhile (\<lambda>b. b = 32) (take m (utf8 t))))"
        unfolding is_char_boundary_shift by (rule Cons.IH)
      ultimately show ?thesis using n True by (simp add: len_utf8_def)
    next
      case False
      have "hd (utf8_char c) \<noteq> 32" if "c \<noteq> 32" using that by (rule lead_byte_not_space)
      then have "takeWhile (\<lambda>b. b = 32) (take n (utf8 (c # t))) = []"
        using False by (cases n; cases "utf8_char c") (auto simp: utf8_char_def split: if_splits)
      then show ?thesis by simp
    qed
  qed simp
  with False show ?thesis by (simp add: outdent_width_def)
qed

end
