(* ===== verification/Editor_Inv.thy ===== *)
theory Editor_Inv
  imports Editor_Cols
begin

text \<open>
  What the undo history of a buffer means. A record is a replacement of the middle of a text, a group
  a chain of records, and the undo and redo stacks together one chain of groups from the text the
  buffer was opened with through the present one. The invariant also follows one text, the one that
  was there when the group \<open>k\<close> was the newest: it is what the dirty flag of the editor pane relies on.
\<close>

section \<open>Chains\<close>

fun chain :: "('s \<Rightarrow> 'x \<Rightarrow> 's \<Rightarrow> bool) \<Rightarrow> 's \<Rightarrow> 'x list \<Rightarrow> 's \<Rightarrow> bool" where
  "chain R A [] B \<longleftrightarrow> A = B"
| "chain R A (x # xs) B \<longleftrightarrow> (\<exists>C. R A x C \<and> chain R C xs B)"

lemma chain_append: "chain R A (xs @ ys) B \<longleftrightarrow> (\<exists>C. chain R A xs C \<and> chain R C ys B)"
  by (induction xs arbitrary: A) auto

lemma chain_snoc [simp]: "chain R A (xs @ [x]) B \<longleftrightarrow> (\<exists>C. chain R A xs C \<and> R C x B)"
  by (simp add: chain_append)

lemma chain_det:
  assumes "\<And>A x B B'. R A x B \<Longrightarrow> R A x B' \<Longrightarrow> B = B'"
  shows "chain R A xs B \<Longrightarrow> chain R A xs B' \<Longrightarrow> B = B'"
  by (induction xs arbitrary: A) (auto dest: assms)

section \<open>Records and groups\<close>

definition rec_step :: "rstr \<Rightarrow> edit_record \<Rightarrow> rstr \<Rightarrow> bool" where
  "rec_step A r B \<longleftrightarrow>
     (\<exists>p q. A = p @ er_old_text r @ q \<and> B = p @ er_new_text r @ q \<and> er_start r = pos_of p)"

definition rec_ok :: "rstr \<Rightarrow> edit_record \<Rightarrow> rstr \<Rightarrow> bool" where
  "rec_ok A r B \<longleftrightarrow> rec_step A r B \<and> valid_pos A (er_cursor_before r)
     \<and> (\<forall>a. er_anchor_before r = Some a \<longrightarrow> valid_pos A a) \<and> valid_pos B (er_cursor_after r)"

definition group_ok :: "rstr \<Rightarrow> undo_group \<Rightarrow> rstr \<Rightarrow> bool" where
  "group_ok A g B \<longleftrightarrow> ug_records g \<noteq> [] \<and> chain rec_ok A (ug_records g) B
     \<and> (ug_kind g = Deleting \<longrightarrow> (\<forall>r \<in> set (ug_records g). er_new_text r = []))"

lemma rec_ok_det: "rec_ok A r B \<Longrightarrow> rec_ok A r B' \<Longrightarrow> B = B'"
proof -
  assume "rec_ok A r B" and "rec_ok A r B'"
  then obtain p q p' q' where "A = p @ er_old_text r @ q" "B = p @ er_new_text r @ q" "er_start r = pos_of p"
    "A = p' @ er_old_text r @ q'" "B' = p' @ er_new_text r @ q'" "er_start r = pos_of p'"
    unfolding rec_ok_def rec_step_def by blast
  then show "B = B'" using pos_of_inj [of p "er_old_text r @ q" p' "er_old_text r @ q'"] by auto
qed

lemma group_ok_det: "group_ok A g B \<Longrightarrow> group_ok A g B' \<Longrightarrow> B = B'"
  using chain_det [of rec_ok A "ug_records g" B B'] rec_ok_det by (metis group_ok_def)

lemma groups_det: "chain group_ok A gs B \<Longrightarrow> chain group_ok A gs B' \<Longrightarrow> B = B'"
  using chain_det [of group_ok A gs B B'] group_ok_det by metis

section \<open>The invariant\<close>

text \<open>The buffer holds the text \<open>D\<close>, with its cursor and anchor on positions of \<open>D\<close>.\<close>

definition holds_text :: "rstr \<Rightarrow> ebuf \<Rightarrow> bool" where
  "holds_text D b \<longleftrightarrow> eb_lines b = lines_of D \<and> valid_pos D (eb_cursor b)
     \<and> (\<forall>a. eb_anchor b = Some a \<longrightarrow> valid_pos D a)"

definition timeline :: "ebuf \<Rightarrow> undo_group list" where
  "timeline b = eb_undo b @ rev (eb_redo b)"

definition newest_is :: "nat \<Rightarrow> undo_group list \<Rightarrow> bool" where
  "newest_is k gs \<longleftrightarrow> (if gs = [] then k = 0 else ug_id (last gs) = k)"

definition history_ok :: "rstr \<Rightarrow> nat \<Rightarrow> rstr \<Rightarrow> rstr \<Rightarrow> ebuf \<Rightarrow> bool" where
  "history_ok T0 k T D b \<longleftrightarrow>
     chain group_ok T0 (eb_undo b) D \<and> (\<exists>E. chain group_ok D (rev (eb_redo b)) E)
   \<and> sorted_wrt (<) (map ug_id (timeline b))
   \<and> (\<forall>g \<in> set (timeline b). 0 < ug_id g \<and> ug_id g < eb_next_id b)
   \<and> (eb_group_open b \<longrightarrow> eb_undo b \<noteq> [] \<and> \<not> newest_is k (eb_undo b))
   \<and> k < eb_next_id b
   \<and> (\<forall>xs ys. timeline b = xs @ ys \<longrightarrow> newest_is k xs \<longrightarrow> chain group_ok T0 xs T)"

definition ed_inv :: "rstr \<Rightarrow> nat \<Rightarrow> rstr \<Rightarrow> ebuf \<Rightarrow> bool" where
  "ed_inv T0 k T b \<longleftrightarrow> (\<exists>D. holds_text D b \<and> history_ok T0 k T D b)"

definition edit_ok :: "rstr \<Rightarrow> nat \<Rightarrow> rstr \<Rightarrow> ebuf \<Rightarrow> (damage \<times> ebuf) option \<Rightarrow> bool" where
  "edit_ok T0 k T b res \<longleftrightarrow>
     (\<exists>d b'. res = Some (d, b') \<and> ed_inv T0 k T b' \<and> damage_covers d (eb_lines b) (eb_lines b'))"

lemma holds_text_to_text: "holds_text D b \<Longrightarrow> to_text b = D"
  by (simp add: holds_text_def to_text_def)

lemma ed_invE:
  assumes "ed_inv T0 k T b"
  obtains D where "holds_text D b" and "history_ok T0 k T D b" and "to_text b = D"
  using assms holds_text_to_text by (auto simp: ed_inv_def)

lemma ed_inv_from_text: "ed_inv t 0 t (from_text t)"
  by (auto simp: ed_inv_def holds_text_def history_ok_def from_text_def timeline_def newest_is_def)

lemma edit_okI:
  "res = Some (d, b') \<Longrightarrow> ed_inv T0 k T b' \<Longrightarrow> damage_covers d (eb_lines b) (eb_lines b') \<Longrightarrow> edit_ok T0 k T b res"
  by (auto simp: edit_ok_def)

lemma edit_ok_same: "ed_inv T0 k T b' \<Longrightarrow> eb_lines b' = eb_lines b \<Longrightarrow> edit_ok T0 k T b (Some (No_Damage, b'))"
  unfolding edit_ok_def by (intro exI [of _ No_Damage] exI [of _ b']) simp

text \<open>An edit after a step that keeps the lines.\<close>

lemma edit_ok_lines: "edit_ok T0 k T b' res \<Longrightarrow> eb_lines b' = eb_lines b \<Longrightarrow> edit_ok T0 k T b res"
  by (auto simp: edit_ok_def)

text \<open>A state that differs in cursor, anchor, sticky column and a closed group only.\<close>

lemma history_ok_cong:
  assumes "history_ok T0 k T D b" and "eb_undo b' = eb_undo b" and "eb_redo b' = eb_redo b"
    and "eb_next_id b' = eb_next_id b" and "eb_group_open b' \<Longrightarrow> eb_group_open b"
  shows "history_ok T0 k T D b'"
  using assms by (auto simp: history_ok_def timeline_def)

section \<open>Pushing a record\<close>

lemma sorted_ids_snoc:
  "sorted_wrt (<) (map ug_id (xs @ ys)) \<Longrightarrow> \<forall>g \<in> set (xs @ ys). ug_id g < n \<Longrightarrow>
    sorted_wrt (<) (map ug_id xs @ [n])"
  by (auto simp: sorted_wrt_append)

lemma history_push_new:
  assumes h: "history_ok T0 k T D b" and r: "rec_ok D r D'" and del: "kind = Deleting \<longrightarrow> er_new_text r = []"
    and b': "eb_undo b' = eb_undo b @ [\<lparr>ug_id = eb_next_id b, ug_kind = kind, ug_records = [r]\<rparr>]"
      "eb_redo b' = []" "eb_next_id b' = eb_next_id b + 1"
  shows "history_ok T0 k T D' b'"
proof -
  let ?g = "\<lparr>ug_id = eb_next_id b, ug_kind = kind, ug_records = [r]\<rparr>"
  have g: "group_ok D ?g D'" using r del by (simp add: group_ok_def)
  have und: "chain group_ok T0 (eb_undo b) D" using h by (simp add: history_ok_def)
  have ids: "sorted_wrt (<) (map ug_id (eb_undo b) @ [eb_next_id b])"
    using h sorted_ids_snoc [of "eb_undo b" "rev (eb_redo b)"] by (auto simp: history_ok_def timeline_def)
  have k: "k < eb_next_id b" using h by (simp add: history_ok_def)
  have keep: "chain group_ok T0 xs T" if "eb_undo b @ [?g] = xs @ ys" "newest_is k xs" for xs ys
  proof (cases ys rule: rev_cases)
    case Nil
    with that have "xs = eb_undo b @ [?g]" by simp
    with that k show ?thesis by (simp add: newest_is_def)
  next
    case (snoc zs z)
    with that have "timeline b = xs @ zs @ rev (eb_redo b)" by (simp add: timeline_def)
    with h that show ?thesis by (simp add: history_ok_def)
  qed
  show ?thesis
    using h ids k und g keep by (auto simp: history_ok_def timeline_def b' newest_is_def less_Suc_eq)
qed

text \<open>Each of the three arms of the coalescing gives the record of both changes.\<close>

lemma absorb_ok:
  assumes "rec_ok A last_rec B" and "rec_ok B r C" and "absorb kind r last_rec = Some r'"
    and "kind = Deleting \<longrightarrow> er_new_text last_rec = []"
  shows "rec_ok A r' C \<and> (kind = Deleting \<longrightarrow> er_new_text r' = [])"
proof -
  from assms(1) obtain p q where 1: "A = p @ er_old_text last_rec @ q" "B = p @ er_new_text last_rec @ q"
    "er_start last_rec = pos_of p" by (auto simp: rec_ok_def rec_step_def)
  from assms(2) obtain p' q' where 2: "B = p' @ er_old_text r @ q'" "C = p' @ er_new_text r @ q'"
    "er_start r = pos_of p'" by (auto simp: rec_ok_def rec_step_def)
  have rest: "valid_pos A (er_cursor_before last_rec)" "valid_pos C (er_cursor_after r)"
    "\<forall>a. er_anchor_before last_rec = Some a \<longrightarrow> valid_pos A a"
    using assms(1,2) by (auto simp: rec_ok_def)
  consider
    (typing) "kind = Typing" "er_old_text r = []" "pos_of p' = pos_of (p @ er_new_text last_rec)"
      "r' = last_rec\<lparr>er_new_text := er_new_text last_rec @ er_new_text r, er_cursor_after := er_cursor_after r\<rparr>"
  | (backward) "kind = Deleting" "er_new_text r = []" "pos_of (p' @ er_old_text r) = pos_of p"
      "r' = last_rec\<lparr>er_old_text := er_old_text r @ er_old_text last_rec, er_start := er_start r,
              er_cursor_after := er_cursor_after r\<rparr>"
  | (forward) "kind = Deleting" "er_new_text r = []" "pos_of p' = pos_of p"
      "r' = last_rec\<lparr>er_old_text := er_old_text last_rec @ er_old_text r, er_cursor_after := er_cursor_after r\<rparr>"
    using assms(3) by (auto simp: absorb_def 1(3) 2(3) split: if_splits)
  then show ?thesis
  proof cases
    case typing
    have "p' @ q' = (p @ er_new_text last_rec) @ q" using 1(2) 2(1) typing(2) by simp
    from pos_of_inj [OF this typing(3)] have eq: "p' = p @ er_new_text last_rec" "q' = q" by blast+
    have "rec_step A r' C"
      unfolding rec_step_def 1(1) 2(2) eq typing(4) by (intro exI [of _ p] exI [of _ q]) (simp add: 1(3))
    with typing rest show ?thesis by (simp add: rec_ok_def)
  next
    case backward
    have "(p' @ er_old_text r) @ q' = p @ q" using 1(2) 2(1) backward(1) assms(4) by simp
    from pos_of_inj [OF this backward(3)] have eq: "p = p' @ er_old_text r" "q' = q" by blast+
    have "rec_step A r' C"
      unfolding rec_step_def 1(1) 2(2) eq backward(4)
      by (intro exI [of _ p'] exI [of _ q]) (use 2(3) backward(1,2) assms(4) in simp)
    with backward rest assms(4) show ?thesis by (simp add: rec_ok_def)
  next
    case forward
    have "p' @ er_old_text r @ q' = p @ q" using 1(2) 2(1) forward(1) assms(4) by simp
    from pos_of_inj [OF this forward(3)] have eq: "p' = p" "q = er_old_text r @ q'" by blast+
    have "rec_step A r' C"
      unfolding rec_step_def 1(1) 2(2) eq forward(4)
      by (intro exI [of _ p] exI [of _ q']) (use 1(3) forward(1,2) assms(4) in simp)
    with forward rest assms(4) show ?thesis by (simp add: rec_ok_def)
  qed
qed

lemma absorb_into_top_ok:
  assumes "absorb_into_top b kind r = Some g'" and "group_ok A (last (eb_undo b)) B" and "rec_ok B r C"
  shows "group_ok A g' C \<and> ug_id g' = ug_id (last (eb_undo b)) \<and> eb_group_open b \<and> eb_undo b \<noteq> []"
proof -
  let ?g = "last (eb_undo b)"
  from assms(1) obtain r' where *: "eb_group_open b" "eb_undo b \<noteq> []" "ug_kind ?g = kind" "ug_records ?g \<noteq> []"
    "absorb kind r (last (ug_records ?g)) = Some r'" "g' = ?g\<lparr>ug_records := butlast (ug_records ?g) @ [r']\<rparr>"
    by (auto simp: absorb_into_top_def Let_def split: if_splits option.splits)
  obtain rs l where rs: "ug_records ?g = rs @ [l]" using *(4) by (metis rev_exhaust)
  with assms(2) obtain M where M: "chain rec_ok A rs M" "rec_ok M l B" by (auto simp: group_ok_def)
  have l: "kind = Deleting \<longrightarrow> er_new_text l = []" using assms(2) *(3) rs by (simp add: group_ok_def)
  have "absorb kind r l = Some r'" using *(5) rs by simp
  from absorb_ok [OF M(2) assms(3) this l] M(1) assms(2) rs *
  show ?thesis by (auto simp: group_ok_def)
qed

lemma history_push_absorbed:
  assumes h: "history_ok T0 k T D b" and r: "rec_ok D r D'"
    and a: "absorb_into_top b kind r = Some g"
    and b': "eb_undo b' = butlast (eb_undo b) @ [g]" "eb_redo b' = []" "eb_next_id b' = eb_next_id b"
  shows "history_ok T0 k T D' b'"
proof -
  have ne: "eb_undo b \<noteq> []" using a by (auto simp: absorb_into_top_def split: if_splits)
  then obtain gs g0 where gs: "eb_undo b = gs @ [g0]" by (metis rev_exhaust)
  from h gs obtain C where C: "chain group_ok T0 gs C" "group_ok C g0 D" by (auto simp: history_ok_def)
  from absorb_into_top_ok [OF a, of C D D'] C(2) r gs
  have g: "group_ok C g D'" "ug_id g = ug_id g0" and op: "eb_group_open b" by auto
  have k: "ug_id g0 \<noteq> k" using h op gs by (auto simp: history_ok_def newest_is_def)
  have keep: "chain group_ok T0 xs T" if "gs @ [g] = xs @ ys" "newest_is k xs" for xs ys
  proof (cases ys rule: rev_cases)
    case Nil
    with that have "xs = gs @ [g]" by simp
    with that k g(2) show ?thesis by (simp add: newest_is_def)
  next
    case (snoc zs z)
    with that have "timeline b = xs @ zs @ g0 # rev (eb_redo b)" by (simp add: timeline_def gs)
    with h that show ?thesis by (simp add: history_ok_def)
  qed
  have ids: "sorted_wrt (<) (map ug_id (gs @ [g0]))" "\<forall>g \<in> set (gs @ [g0]). 0 < ug_id g \<and> ug_id g < eb_next_id b"
    using h by (auto simp: history_ok_def timeline_def gs sorted_wrt_append)
  have "k < eb_next_id b" using h by (simp add: history_ok_def)
  then show ?thesis
    using C(1) g k ids keep by (auto simp: history_ok_def timeline_def b' gs newest_is_def sorted_wrt_append)
qed

lemma push_record_ok:
  assumes "history_ok T0 k T D b" and "rec_ok D r D'" and "kind = Deleting \<longrightarrow> er_new_text r = []"
  shows "history_ok T0 k T D' (push_record kind r b)"
proof (cases "absorb_into_top (b\<lparr>eb_redo := []\<rparr>) kind r")
  case None
  then show ?thesis
    by (intro history_push_new [OF assms]) (simp_all add: push_record_def)
next
  case (Some g)
  then have "absorb_into_top b kind r = Some g" by (simp add: absorb_into_top_def cong: if_cong)
  then show ?thesis
    by (rule history_push_absorbed [OF assms(1,2)]) (use Some in \<open>simp_all add: push_record_def\<close>)
qed

lemma push_record_frame [simp]:
  "eb_lines (push_record kind r b) = eb_lines b" "eb_cursor (push_record kind r b) = eb_cursor b"
  "eb_anchor (push_record kind r b) = eb_anchor b" "eb_sticky (push_record kind r b) = eb_sticky b"
  by (simp_all add: push_record_def Let_def split: option.split)

end
