(* ===== verification/Editor_Ops.thy ===== *)
theory Editor_Ops
  imports Editor_Inv
begin

text \<open>
  Every operation of the buffer under the invariant: none panics, movements keep the document and its
  history and leave cursor and anchor on positions of the text, and edits extend the history by what
  they did and return a repaint hint that covers it.
\<close>

section \<open>Movements\<close>

definition same_doc :: "ebuf \<Rightarrow> ebuf \<Rightarrow> bool" where
  "same_doc b b' \<longleftrightarrow> eb_lines b' = eb_lines b \<and> eb_undo b' = eb_undo b \<and> eb_redo b' = eb_redo b
     \<and> eb_next_id b' = eb_next_id b \<and> (eb_group_open b' \<longrightarrow> eb_group_open b)"

definition move_ok :: "rstr \<Rightarrow> ebuf \<Rightarrow> ebuf option \<Rightarrow> bool" where
  "move_ok D b res \<longleftrightarrow> (\<exists>b'. res = Some b' \<and> same_doc b b' \<and> holds_text D b')"

lemma same_doc_refl [simp]: "same_doc b b"
  by (simp add: same_doc_def)

lemma same_doc_trans: "same_doc a b \<Longrightarrow> same_doc b c \<Longrightarrow> same_doc a c"
  by (simp add: same_doc_def)

lemma same_doc_writes [simp]:
  "same_doc b (c\<lparr>eb_cursor := p\<rparr>) = same_doc b c" "same_doc b (c\<lparr>eb_anchor := a\<rparr>) = same_doc b c"
  "same_doc b (c\<lparr>eb_sticky := s\<rparr>) = same_doc b c" "same_doc b (set_col n c) = same_doc b c"
  by (simp_all add: same_doc_def set_col_def)

lemma same_doc_begin_move [simp]: "same_doc b (begin_move ext c) \<longleftrightarrow> same_doc b (c\<lparr>eb_group_open := False\<rparr>)"
  by (simp add: same_doc_def begin_move_def Let_def)

lemma same_doc_close [simp]: "same_doc b c \<Longrightarrow> same_doc b (c\<lparr>eb_group_open := False\<rparr>)"
  by (simp add: same_doc_def)

lemma begin_move_simps [simp]:
  "eb_cursor (begin_move ext b) = eb_cursor b" "eb_lines (begin_move ext b) = eb_lines b"
  "eb_line (begin_move ext b) = eb_line b" "eb_sticky (begin_move ext b) = eb_sticky b"
  by (simp_all add: begin_move_def Let_def eb_line_def fun_eq_iff)

lemma eb_line_writes [simp]:
  "eb_line (b\<lparr>eb_cursor := p\<rparr>) = eb_line b" "eb_line (b\<lparr>eb_anchor := a\<rparr>) = eb_line b"
  "eb_line (b\<lparr>eb_sticky := s\<rparr>) = eb_line b" "eb_line (b\<lparr>eb_group_open := g\<rparr>) = eb_line b"
  by (simp_all add: eb_line_def fun_eq_iff)

lemma holds_text_writes [simp]:
  "holds_text D (b\<lparr>eb_sticky := s\<rparr>) = holds_text D b" "holds_text D (b\<lparr>eb_group_open := g\<rparr>) = holds_text D b"
  by (simp_all add: holds_text_def)

lemma holds_text_cursor [simp]: "holds_text D b \<Longrightarrow> valid_pos D p \<Longrightarrow> holds_text D (b\<lparr>eb_cursor := p\<rparr>)"
  by (simp add: holds_text_def)

lemma holds_text_anchor [simp]:
  "holds_text D b \<Longrightarrow> (\<forall>p. a = Some p \<longrightarrow> valid_pos D p) \<Longrightarrow> holds_text D (b\<lparr>eb_anchor := a\<rparr>)"
  by (simp add: holds_text_def)

lemma holds_text_begin_move [simp]: "holds_text D b \<Longrightarrow> holds_text D (begin_move ext b)"
  by (simp add: holds_text_def begin_move_def Let_def)

lemma move_okI: "same_doc b b' \<Longrightarrow> holds_text D b' \<Longrightarrow> move_ok D b (Some b')"
  by (auto simp: move_ok_def)

lemma valid_pos_in_line:
  "i < length (lines_of D) \<Longrightarrow> lines_of D ! i = l \<Longrightarrow> is_char_boundary l c \<Longrightarrow> valid_pos D (Position i c)"
  by (simp add: valid_pos_iff)

lemma eb_line_text: "holds_text D b \<Longrightarrow> i < length (lines_of D) \<Longrightarrow> eb_line b i = Some (lines_of D ! i)"
  by (simp add: eb_line_def holds_text_def nth_opt_def)

text \<open>The line of a position, cut at the position.\<close>

lemma pos_lineE:
  assumes "holds_text D b" and "valid_pos D pos"
  obtains a r where "eb_line b (p_line pos) = Some (a @ r)" and "p_col pos = blen a"
    and "p_line pos < length (lines_of D)" and "lines_of D ! p_line pos = a @ r"
proof -
  from assms(2) have *: "p_line pos < length (lines_of D)" "is_char_boundary (lines_of D ! p_line pos) (p_col pos)"
    by (auto simp: valid_pos_iff)
  then obtain a r where "lines_of D ! p_line pos = a @ r" "blen a = p_col pos"
    by (auto simp: is_char_boundary_iff)
  with * eb_line_text [OF assms(1) *(1)] that show ?thesis by auto
qed

lemma cursor_lineE:
  assumes "holds_text D b"
  obtains a r where "eb_line b (p_line (eb_cursor b)) = Some (a @ r)" and "p_col (eb_cursor b) = blen a"
    and "p_line (eb_cursor b) < length (lines_of D)" and "lines_of D ! p_line (eb_cursor b) = a @ r"
  using assms pos_lineE [OF assms, of "eb_cursor b"] by (auto simp: holds_text_def)

lemma holds_text_set_col:
  assumes "holds_text D b" and "lines_of D ! p_line (eb_cursor b) = l" and "is_char_boundary l c"
  shows "holds_text D (set_col c b)"
  using assms by (auto simp: set_col_def valid_pos_iff holds_text_def)

lemma selection_valid:
  assumes "holds_text D b" and "selection b = Some (s, e)"
  shows "valid_pos D s \<and> valid_pos D e \<and> s < e \<and> s \<le> e"
  using assms by (auto simp: selection_def holds_text_def split: option.splits if_splits)

lemma last_line_less [simp]: "length (lines_of D) - Suc 0 < length (lines_of D)"
  "min k (length (lines_of D) - Suc 0) < length (lines_of D)"
  by (cases "lines_of D"; simp add: min_def)+

lemma doc_end_ok: "holds_text D b \<Longrightarrow> \<exists>e. doc_end b = Some e \<and> valid_pos D e"
  using eb_line_text [of D b "length (lines_of D) - 1"]
  by (simp add: doc_end_def holds_text_def Let_def valid_pos_line_end)

lemma clamp_position_ok: "holds_text D b \<Longrightarrow> \<exists>p. clamp_position b pos = Some p \<and> valid_pos D p"
proof -
  assume h: "holds_text D b"
  define i where "i = min (p_line pos) (length (lines_of D) - 1)"
  have i: "i < length (lines_of D)" by (simp add: i_def)
  have "eb_lines b = lines_of D" using h by (simp add: holds_text_def)
  then show ?thesis
    using eb_line_text [OF h i] i floor_char_boundary_ok
    by (simp add: clamp_position_def snap_to_char_boundary_def Let_def valid_pos_iff flip: i_def [unfolded One_nat_def])
qed

lemma move_left_ok: "holds_text D b \<Longrightarrow> move_ok D b (move_left ext b)"
proof -
  assume h: "holds_text D b"
  define b1 where "b1 = begin_move ext (b\<lparr>eb_sticky := None\<rparr>)"
  have h1: "holds_text D b1" and s1: "same_doc b b1" using h by (simp_all add: b1_def)
  obtain a r where l: "eb_line b1 (p_line (eb_cursor b1)) = Some (a @ r)" "p_col (eb_cursor b1) = blen a"
    "p_line (eb_cursor b1) < length (lines_of D)" "lines_of D ! p_line (eb_cursor b1) = a @ r"
    by (rule cursor_lineE [OF h1])
  have 1: "move_ok D b (do { c \<leftarrow> prev_char_col b1 (p_line (eb_cursor b1)) (p_col (eb_cursor b1)); Some (set_col c b1) })"
    using prev_char_col_eq [OF l(1)] l holds_text_set_col [OF h1 l(4) blen_butlast_boundary] s1
    by (simp add: move_okI)
  have 2: "move_ok D b (do { l \<leftarrow> eb_line b1 (p_line (eb_cursor b1) - 1);
      Some (b1\<lparr>eb_cursor := Position (p_line (eb_cursor b1) - 1) (blen l)\<rparr>) })" if "0 < p_line (eb_cursor b1)"
    using eb_line_text [OF h1, of "p_line (eb_cursor b1) - 1"] that l(3) h1 s1
    by (simp add: move_okI valid_pos_line_end)
  show ?thesis
  proof (cases "if ext then None else selection (b\<lparr>eb_sticky := None\<rparr>)")
    case None
    then show ?thesis using 1 2 h1 s1 by (auto simp: move_left_def Let_def move_okI simp flip: b1_def)
  next
    case (Some se)
    then obtain s e where "selection (b\<lparr>eb_sticky := None\<rparr>) = Some (s, e)" "\<not> ext" by (cases se) (auto split: if_splits)
    with selection_valid [of D "b\<lparr>eb_sticky := None\<rparr>" s e] h show ?thesis
      by (simp add: move_left_def move_okI)
  qed
qed

lemma move_right_ok: "holds_text D b \<Longrightarrow> move_ok D b (move_right ext b)"
proof -
  assume h: "holds_text D b"
  define b1 where "b1 = begin_move ext (b\<lparr>eb_sticky := None\<rparr>)"
  have h1: "holds_text D b1" and s1: "same_doc b b1" using h by (simp_all add: b1_def)
  obtain a r where l: "eb_line b1 (p_line (eb_cursor b1)) = Some (a @ r)" "p_col (eb_cursor b1) = blen a"
    "p_line (eb_cursor b1) < length (lines_of D)" "lines_of D ! p_line (eb_cursor b1) = a @ r"
    by (rule cursor_lineE [OF h1])
  have ls: "eb_lines b1 = lines_of D" using h1 by (simp add: holds_text_def)
  have 1: "move_ok D b (do { c \<leftarrow> next_char_col b1 (p_line (eb_cursor b1)) (blen a); Some (set_col c b1) })"
    using next_char_col_eq [OF l(1)] holds_text_set_col [OF h1 l(4) next_char_boundary] s1
    by (simp add: move_okI)
  show ?thesis
  proof (cases "if ext then None else selection (b\<lparr>eb_sticky := None\<rparr>)")
    case None
    then show ?thesis using 1 h1 s1 l ls
      by (auto simp: move_right_def Let_def move_okI valid_pos_line_start simp flip: b1_def)
  next
    case (Some se)
    then obtain s e where "selection (b\<lparr>eb_sticky := None\<rparr>) = Some (s, e)" "\<not> ext" by (cases se) (auto split: if_splits)
    with selection_valid [of D "b\<lparr>eb_sticky := None\<rparr>" s e] h show ?thesis
      by (simp add: move_right_def move_okI)
  qed
qed

lemma visual_col_total: "holds_text D b \<Longrightarrow> valid_pos D pos \<Longrightarrow> \<exists>v. visual_col b pos = Some v"
  by (erule (1) pos_lineE) (simp add: visual_col_def)

lemma move_vertical_ok: "holds_text D b \<Longrightarrow> move_ok D b (move_vertical delta ext b)"
proof -
  assume h: "holds_text D b"
  define b0 where "b0 = (case (if ext then None else selection b) of
                 Some (start, en) \<Rightarrow> b\<lparr>eb_cursor := if delta < 0 then start else en\<rparr>
               | None \<Rightarrow> b)"
  have h0: "holds_text D b0" and s0: "same_doc b b0"
    using h selection_valid [OF h] by (auto simp: b0_def split: option.split)
  define b1 where "b1 = begin_move ext b0"
  have h1: "holds_text D b1" and s1: "same_doc b b1" using h0 s0 by (simp_all add: b1_def)
  have ls: "eb_lines b1 = lines_of D" using h1 by (simp add: holds_text_def)
  have vc: "valid_pos D (eb_cursor b1)" using h1 by (simp add: holds_text_def)
  obtain sticky where st: "(case eb_sticky b1 of Some s \<Rightarrow> Some s | None \<Rightarrow> visual_col b1 (eb_cursor b1)) = Some sticky"
    using visual_col_total [OF h1 vc] by (cases "eb_sticky b1") auto
  define b2 where "b2 = b1\<lparr>eb_sticky := Some sticky\<rparr>"
  have h2: "holds_text D b2" and s2: "same_doc b b2" using h1 s1 by (simp_all add: b2_def)
  obtain a r where l: "eb_line b2 (p_line (eb_cursor b2)) = Some (a @ r)"
    "p_line (eb_cursor b2) < length (lines_of D)" "lines_of D ! p_line (eb_cursor b2) = a @ r"
    by (rule cursor_lineE [OF h2])
  define t where "t = min (nat (int (p_line (eb_cursor b2)) + delta)) (length (lines_of D) - 1)"
  have t: "t < length (lines_of D)" by (simp add: t_def)
  obtain c where c: "col_for_visual b2 t sticky = Some c" "is_char_boundary (lines_of D ! t) c"
    using col_for_visual_ok [OF eb_line_text [OF h2 t]] by blast
  have e: "move_ok D b (Some ((set_col 0 b2)\<lparr>eb_sticky := None\<rparr>))"
    "move_ok D b (Some ((set_col (blen (a @ r)) b2)\<lparr>eb_sticky := None\<rparr>))"
    "move_ok D b (Some (b2\<lparr>eb_cursor := Position t c\<rparr>))"
    using holds_text_set_col [OF h2 l(3)] s2 h2 c(2) t is_char_boundary_blen [of "a @ r"]
    by (auto intro!: move_okI simp: valid_pos_iff simp del: is_char_boundary_append)
  have "move_vertical delta ext b =
     (if t = p_line (eb_cursor b2) then
             (if delta < 0 then Some ((set_col 0 b2)\<lparr>eb_sticky := None\<rparr>)
              else do { l \<leftarrow> eb_line b2 (p_line (eb_cursor b2)); Some ((set_col (blen l) b2)\<lparr>eb_sticky := None\<rparr>) })
           else do { c \<leftarrow> col_for_visual b2 t sticky; Some (b2\<lparr>eb_cursor := Position t c\<rparr>) })"
    unfolding move_vertical_def Let_def b0_def [symmetric] b1_def [symmetric] st
    by (simp add: t_def b2_def ls)
  with e l c show ?thesis by simp
qed

lemma move_home_ok: "holds_text D b \<Longrightarrow> move_ok D b (move_home ext b)"
proof -
  assume h: "holds_text D b"
  define b1 where "b1 = begin_move ext (b\<lparr>eb_sticky := None\<rparr>)"
  have h1: "holds_text D b1" and s1: "same_doc b b1" using h by (simp_all add: b1_def)
  obtain a r where l: "eb_line b1 (p_line (eb_cursor b1)) = Some (a @ r)" "lines_of D ! p_line (eb_cursor b1) = a @ r"
    by (rule cursor_lineE [OF h1])
  then show ?thesis using holds_text_set_col [OF h1 l(2)] s1
    by (simp add: move_home_def Let_def move_okI flip: b1_def)
qed

lemma move_end_ok: "holds_text D b \<Longrightarrow> move_ok D b (move_end ext b)"
proof -
  assume h: "holds_text D b"
  define b1 where "b1 = begin_move ext (b\<lparr>eb_sticky := None\<rparr>)"
  have h1: "holds_text D b1" and s1: "same_doc b b1" using h by (simp_all add: b1_def)
  obtain a r where l: "eb_line b1 (p_line (eb_cursor b1)) = Some (a @ r)" "lines_of D ! p_line (eb_cursor b1) = a @ r"
    by (rule cursor_lineE [OF h1])
  then show ?thesis using holds_text_set_col [OF h1 l(2) is_char_boundary_blen] s1
    by (simp add: move_end_def Let_def move_okI flip: b1_def)
qed

lemma move_doc_start_ok: "holds_text D b \<Longrightarrow> move_ok D b (move_doc_start ext b)"
  by (simp add: move_doc_start_def move_okI)

lemma move_doc_end_ok: "holds_text D b \<Longrightarrow> move_ok D b (move_doc_end ext b)"
proof -
  assume h: "holds_text D b"
  then have h1: "holds_text D (begin_move ext (b\<lparr>eb_sticky := None\<rparr>))" by simp
  from doc_end_ok [OF h1] h1 show ?thesis by (auto simp: move_doc_end_def Let_def move_okI)
qed

lemma eb_set_cursor_ok: "holds_text D b \<Longrightarrow> move_ok D b (eb_set_cursor pos ext b)"
proof -
  assume h: "holds_text D b"
  then have h1: "holds_text D (begin_move ext (b\<lparr>eb_sticky := None\<rparr>))" by simp
  from clamp_position_ok [OF h1, of pos] h1 show ?thesis by (auto simp: eb_set_cursor_def Let_def move_okI)
qed

lemma select_all_ok: "holds_text D b \<Longrightarrow> move_ok D b (select_all b)"
  using doc_end_ok [of D b] by (auto simp: select_all_def intro!: move_okI)

lemma move_word_left_ok: "holds_text D b \<Longrightarrow> move_ok D b (move_word_left alnum ext b)"
proof -
  assume h: "holds_text D b"
  define b1 where "b1 = begin_move ext (b\<lparr>eb_sticky := None\<rparr>)"
  have h1: "holds_text D b1" and s1: "same_doc b b1" using h by (simp_all add: b1_def)
  obtain a r where l: "eb_line b1 (p_line (eb_cursor b1)) = Some (a @ r)" "p_col (eb_cursor b1) = blen a"
    "p_line (eb_cursor b1) < length (lines_of D)" "lines_of D ! p_line (eb_cursor b1) = a @ r"
    by (rule cursor_lineE [OF h1])
  obtain c where c: "prev_word_boundary alnum (a @ r) (blen a) = Some c" "is_char_boundary (a @ r) c"
    using prev_word_boundary_ok by blast
  have "move_ok D b (do { l \<leftarrow> eb_line b1 (p_line (eb_cursor b1) - 1);
      Some (b1\<lparr>eb_cursor := Position (p_line (eb_cursor b1) - 1) (blen l)\<rparr>) })" if "0 < p_line (eb_cursor b1)"
    using eb_line_text [OF h1, of "p_line (eb_cursor b1) - 1"] that l(3) h1 s1
    by (simp add: move_okI valid_pos_line_end)
  then show ?thesis using l c holds_text_set_col [OF h1 l(4) c(2)] h1 s1
    by (auto simp: move_word_left_def Let_def move_okI simp flip: b1_def)
qed

lemma move_word_right_ok: "holds_text D b \<Longrightarrow> move_ok D b (move_word_right alnum ext b)"
proof -
  assume h: "holds_text D b"
  define b1 where "b1 = begin_move ext (b\<lparr>eb_sticky := None\<rparr>)"
  have h1: "holds_text D b1" and s1: "same_doc b b1" using h by (simp_all add: b1_def)
  have ls: "eb_lines b1 = lines_of D" using h1 by (simp add: holds_text_def)
  obtain a r where l: "eb_line b1 (p_line (eb_cursor b1)) = Some (a @ r)" "p_col (eb_cursor b1) = blen a"
    "p_line (eb_cursor b1) < length (lines_of D)" "lines_of D ! p_line (eb_cursor b1) = a @ r"
    by (rule cursor_lineE [OF h1])
  obtain c where c: "next_word_boundary alnum (a @ r) (blen a) = Some c" "is_char_boundary (a @ r) c"
    using next_word_boundary_ok by blast
  show ?thesis using l c ls holds_text_set_col [OF h1 l(4) c(2)] h1 s1
    by (auto simp: move_word_right_def Let_def move_okI valid_pos_line_start simp flip: b1_def)
qed

lemma dropWhile_rev_suffix: "\<exists>x. xs = rev (dropWhile P (rev xs)) @ x"
  by (rule exI [of _ "rev (takeWhile P (rev xs))"]) (simp flip: rev_append)

lemma word_start_ok:
  assumes "eb_line b i = Some (a @ r)"
  shows "\<exists>c. word_start alnum b i (a @ r) class (blen a) = Some c \<and> is_char_boundary (a @ r) c"
proof -
  obtain x where x: "a = rev (dropWhile (\<lambda>c. char_class alnum c = class) (rev a)) @ x"
    using dropWhile_rev_suffix by blast
  then have "is_char_boundary (a @ r) (blen (rev (dropWhile (\<lambda>c. char_class alnum c = class) (rev a))))"
    by (metis append.assoc is_char_boundary_append)
  then show ?thesis using word_start_eq [OF assms refl] by simp
qed

lemma word_end_ok:
  "\<exists>c. word_end alnum (a @ r) class (blen a) = Some c \<and> is_char_boundary (a @ r) c"
proof -
  have "r = takeWhile (\<lambda>c. char_class alnum c = class) r @ dropWhile (\<lambda>c. char_class alnum c = class) r" by simp
  then have "is_char_boundary r (blen (takeWhile (\<lambda>c. char_class alnum c = class) r))"
    by (metis is_char_boundary_append)
  then show ?thesis using word_end_eq [of "a @ r" a r] by (simp add: is_char_boundary_shift)
qed

lemma select_word_at_ok: "holds_text D b \<Longrightarrow> move_ok D b (select_word_at alnum pos b)"
proof -
  assume h: "holds_text D b"
  define b1 where "b1 = b\<lparr>eb_sticky := None\<rparr>"
  have h1: "holds_text D b1" and s1: "same_doc b b1" using h by (simp_all add: b1_def)
  obtain p where p: "clamp_position b1 pos = Some p" "valid_pos D p" using clamp_position_ok [OF h1] by blast
  obtain a r where l: "eb_line b1 (p_line p) = Some (a @ r)" "p_col p = blen a"
    "p_line p < length (lines_of D)" "lines_of D ! p_line p = a @ r"
    by (rule pos_lineE [OF h1 p(2)])
  define col where "col = (if p_col p \<ge> blen (a @ r) then blen (butlast a) else blen a)"
  have "\<exists>x y. a @ r = x @ y \<and> col = blen x"
  proof (cases "p_col p \<ge> blen (a @ r)")
    case True
    have "a = butlast a @ drop (length a - 1) a" by (simp add: butlast_conv_take)
    then have "a @ r = butlast a @ drop (length a - 1) a @ r" by (metis append.assoc)
    with True show ?thesis unfolding col_def by metis
  next
    case False
    then show ?thesis unfolding col_def by auto
  qed
  then obtain x y where xy: "a @ r = x @ y" "col = blen x" by blast
  have lc: "(if p_col p \<ge> blen (x @ y) then prev_char_col b1 (p_line p) (blen (x @ y)) else Some (p_col p)) = Some (blen x)"
    using prev_char_col_eq [of b1 "p_line p" "a @ r" "[]"] l xy(2) unfolding xy(1) [symmetric]
    by (auto simp: col_def)
  have line: "eb_line b1 (p_line p) = Some (x @ y)" "lines_of D ! p_line p = x @ y" using l xy by simp_all
  define cl where "cl = char_class alnum (case y of c # cs \<Rightarrow> c | [] \<Rightarrow> 32)"
  obtain s where s: "word_start alnum b1 (p_line p) (x @ y) cl (blen x) = Some s" "is_char_boundary (x @ y) s"
    using word_start_ok [OF line(1)] by blast
  obtain e where e: "word_end alnum (x @ y) cl (blen x) = Some e" "is_char_boundary (x @ y) e"
    using word_end_ok by blast
  have v: "valid_pos D (Position (p_line p) s)" "valid_pos D (Position (p_line p) e)"
    using l(3) line(2) s(2) e(2) by (simp_all add: valid_pos_iff)
  have "select_word_at alnum pos b = (if x @ y = [] then Some (b1\<lparr>eb_anchor := None, eb_cursor := p\<rparr>)
       else Some (b1\<lparr>eb_anchor := Some (Position (p_line p) s), eb_cursor := Position (p_line p) e\<rparr>))"
    unfolding select_word_at_def b1_def [symmetric] Let_def p(1) bind.bind_lunit line(1) lc
    using s(1) e(1) by (simp add: cl_def [symmetric])
  then show ?thesis using h1 s1 p(2) v by (simp add: move_okI)
qed

end
