(* ===== verification/Editor_Cmds.thy ===== *)
theory Editor_Cmds
  imports Editor_Ops
begin

text \<open>
  The editing commands under the invariant: the recorded splice, undo and redo, typing and deleting,
  and the line-wise commands that replace a block of lines.
\<close>

section \<open>The recorded splice\<close>

text \<open>
  From a closed group a command is one step of the history or none: nothing changed, or one group with
  one record was pushed, which remembers the cursor and the anchor.
\<close>

definition one_step :: "ebuf \<Rightarrow> ebuf \<Rightarrow> bool" where
  "one_step b b' \<longleftrightarrow> (\<not> eb_group_open b \<longrightarrow>
     eb_lines b' = eb_lines b \<and> eb_undo b' = eb_undo b \<and> eb_redo b' = eb_redo b
   \<or> (\<exists>g r. eb_undo b' = eb_undo b @ [g] \<and> eb_redo b' = [] \<and> ug_records g = [r]
        \<and> er_cursor_before r = eb_cursor b \<and> er_anchor_before r = eb_anchor b))"

definition cmd_ok :: "rstr \<Rightarrow> nat \<Rightarrow> rstr \<Rightarrow> ebuf \<Rightarrow> (damage \<times> ebuf) option \<Rightarrow> bool" where
  "cmd_ok T0 k T b res \<longleftrightarrow>
     (\<exists>d b'. res = Some (d, b') \<and> ed_inv T0 k T b' \<and> damage_covers d (eb_lines b) (eb_lines b') \<and> one_step b b')"

lemma cmd_ok_edit_ok: "cmd_ok T0 k T b res \<Longrightarrow> edit_ok T0 k T b res"
  by (auto simp: cmd_ok_def edit_ok_def)

lemma cmd_okI:
  "res = Some (d, b') \<Longrightarrow> ed_inv T0 k T b' \<Longrightarrow> damage_covers d (eb_lines b) (eb_lines b') \<Longrightarrow> one_step b b' \<Longrightarrow>
    cmd_ok T0 k T b res"
  by (auto simp: cmd_ok_def)

lemma cmd_ok_none:
  "holds_text D b' \<Longrightarrow> history_ok T0 k T D b' \<Longrightarrow> eb_lines b' = eb_lines b \<Longrightarrow> eb_undo b' = eb_undo b \<Longrightarrow>
    eb_redo b' = eb_redo b \<Longrightarrow> cmd_ok T0 k T b (Some (No_Damage, b'))"
  unfolding cmd_ok_def
  by (intro exI [of _ No_Damage] exI [of _ b']) (auto simp: one_step_def ed_inv_def)

text \<open>Forgetting the sticky column first changes nothing.\<close>

lemma cmd_ok_sticky: "cmd_ok T0 k T (b\<lparr>eb_sticky := s\<rparr>) res \<Longrightarrow> cmd_ok T0 k T b res"
  by (simp add: cmd_ok_def one_step_def)

lemma history_ok_sticky [simp]: "history_ok T0 k T D (b\<lparr>eb_sticky := s\<rparr>) = history_ok T0 k T D b"
  by (simp add: history_ok_def timeline_def)

lemma selection_sticky [simp]: "selection (b\<lparr>eb_sticky := s\<rparr>) = selection b"
  by (cases "eb_anchor b") (simp_all add: selection_def)

lemma rec_ok_splice:
  assumes "holds_text (p @ m @ q) b"
  shows "rec_ok (p @ m @ q) \<lparr>er_start = pos_of p, er_old_text = m, er_new_text = t,
                       er_cursor_before = eb_cursor b, er_anchor_before = eb_anchor b,
                       er_cursor_after = end_of_text (pos_of p) t\<rparr> (p @ t @ q)"
  using assms valid_pos_I [of "p @ t @ q" "p @ t" q] by (auto simp: rec_ok_def rec_step_def holds_text_def)

lemma push_record_closed:
  assumes "\<not> eb_group_open b"
  shows "\<exists>g. eb_undo (push_record kind r b) = eb_undo b @ [g] \<and> ug_records g = [r]"
  using assms by (simp add: push_record_def absorb_into_top_def)

lemma push_record_redo [simp]: "eb_redo (push_record kind r b) = []"
  by (simp add: push_record_def Let_def split: option.split)

lemma record_replace_mid:
  assumes h: "holds_text (p @ m @ q) b" and hist: "history_ok T0 k T (p @ m @ q) b"
    and del: "kind = Deleting \<longrightarrow> t = []"
  shows "\<exists>d b'. record_replace (pos_of p) (pos_of (p @ m)) t kind b = Some (d, b')
    \<and> holds_text (p @ t @ q) b' \<and> history_ok T0 k T (p @ t @ q) b'
    \<and> damage_covers d (eb_lines b) (eb_lines b') \<and> one_step b b'
    \<and> (if m = [] \<and> t = [] then b' = b
       else eb_cursor b' = pos_of (p @ t) \<and> eb_anchor b' = None \<and> eb_sticky b' = eb_sticky b \<and> eb_undo b' \<noteq> []
         \<and> eb_redo b' = [] \<and> (\<not> eb_group_open b \<longrightarrow> eb_undo b' \<noteq> eb_undo b))"
proof (cases "m = [] \<and> t = []")
  case True
  have "text_range b (pos_of p) (pos_of (p @ m)) = Some m" using text_range_mid [of b p m q] h by (simp add: holds_text_def)
  with True h hist show ?thesis
    by (intro exI [of _ No_Damage] exI [of _ b]) (simp add: record_replace_def one_step_def)
next
  case False
  let ?r = "\<lparr>er_start = pos_of p, er_old_text = m, er_new_text = t, er_cursor_before = eb_cursor b,
             er_anchor_before = eb_anchor b, er_cursor_after = end_of_text (pos_of p) t\<rparr>"
  have ls: "eb_lines b = lines_of (p @ m @ q)" using h by (simp add: holds_text_def)
  obtain d b1 where rr: "raw_replace (pos_of p) (pos_of (p @ m)) t b = Some (d, b1)"
    and b1: "b1 = b\<lparr>eb_lines := lines_of (p @ t @ q), eb_cursor := pos_of (p @ t), eb_anchor := None\<rparr>"
    and dc: "damage_covers d (lines_of (p @ m @ q)) (lines_of (p @ t @ q))"
    using raw_replace_text [OF ls, of t] by blast
  have h1: "history_ok T0 k T (p @ m @ q) b1" by (rule history_ok_cong [OF hist]) (simp_all add: b1)
  let ?b' = "push_record kind ?r b1"
  have "record_replace (pos_of p) (pos_of (p @ m)) t kind b = Some (d, ?b')"
    using text_range_mid [OF ls] False rr by (auto simp: record_replace_def)
  moreover have "holds_text (p @ t @ q) ?b'"
    using valid_pos_I [of "p @ t @ q" "p @ t" q] by (simp add: holds_text_def b1)
  moreover have "history_ok T0 k T (p @ t @ q) ?b'"
    by (rule push_record_ok [OF h1 rec_ok_splice [OF h]]) (use del in simp)
  moreover have "eb_undo ?b' \<noteq> []" by (simp add: push_record_def Let_def split: option.split)
  moreover have "\<not> eb_group_open b \<longrightarrow> eb_undo ?b' \<noteq> eb_undo b"
    using push_record_closed [of b1 kind ?r] by (auto simp: b1)
  moreover have "one_step b ?b'"
    using push_record_closed [of b1 kind ?r] by (auto simp: one_step_def b1)
  ultimately show ?thesis using False dc ls by (intro exI [of _ d] exI [of _ ?b']) (auto simp: b1)
qed

lemma record_replace_ok:
  assumes "holds_text D b" and "history_ok T0 k T D b" and "valid_pos D s" and "valid_pos D e" and "s \<le> e"
    and "kind = Deleting \<longrightarrow> t = []"
  shows "cmd_ok T0 k T b (record_replace s e t kind b)"
proof -
  from valid_pos_ordE [OF assms(3-5)] obtain p m q where D: "D = p @ m @ q" "s = pos_of p" "e = pos_of (p @ m)" .
  from record_replace_mid [of p m q b T0 k T kind t] assms(1,2,6)
  show ?thesis unfolding D by (auto simp: cmd_ok_def ed_inv_def)
qed

lemma record_replace_sticky:
  "holds_text D b \<Longrightarrow> history_ok T0 k T D b \<Longrightarrow> valid_pos D s \<Longrightarrow> valid_pos D e \<Longrightarrow> s \<le> e \<Longrightarrow>
    kind = Deleting \<longrightarrow> t = [] \<Longrightarrow> cmd_ok T0 k T b (record_replace s e t kind (b\<lparr>eb_sticky := x\<rparr>))"
  by (rule cmd_ok_sticky [where s = x], rule record_replace_ok) simp_all

section \<open>Undo and redo\<close>

lemma undo_records_ok:
  assumes "chain rec_ok A rs B" and "eb_lines b = lines_of B" and "damage_covers d L (eb_lines b)"
  shows "\<exists>d' c a. undo_records (rev rs) d b = Some (d', b\<lparr>eb_lines := lines_of A, eb_cursor := c, eb_anchor := a\<rparr>)
    \<and> damage_covers d' L (lines_of A)"
  using assms
proof (induction rs arbitrary: B b d rule: rev_induct)
  case Nil
  then show ?case by (intro exI [of _ d] exI [of _ "eb_cursor b"] exI [of _ "eb_anchor b"]) simp
next
  case (snoc r rs)
  then obtain C where C: "chain rec_ok A rs C" "rec_ok C r B" by auto
  then obtain p q where pq: "C = p @ er_old_text r @ q" "B = p @ er_new_text r @ q" "er_start r = pos_of p"
    by (auto simp: rec_ok_def rec_step_def)
  define b1 where "b1 = b\<lparr>eb_lines := lines_of C, eb_cursor := pos_of (p @ er_old_text r), eb_anchor := None\<rparr>"
  obtain d1 where rr: "raw_replace (pos_of p) (pos_of (p @ er_new_text r)) (er_old_text r) b = Some (d1, b1)"
    "damage_covers d1 (lines_of B) (lines_of C)"
    using raw_replace_text [of b p "er_new_text r" q "er_old_text r"] snoc.prems(2) by (auto simp: pq b1_def)
  have dc: "damage_covers (damage_merge d d1) L (eb_lines b1)"
    using damage_merge_covers [of d L "eb_lines b" d1] snoc.prems rr(2) by (simp add: b1_def)
  have l1: "eb_lines b1 = lines_of C" by (simp add: b1_def)
  from snoc.IH [OF C(1) l1 dc] obtain d' c a where
    "undo_records (rev rs) (damage_merge d d1) b1 = Some (d', b1\<lparr>eb_lines := lines_of A, eb_cursor := c, eb_anchor := a\<rparr>)"
    "damage_covers d' L (lines_of A)" by blast
  then show ?case using rr(1) pq(3)
    by (intro exI [of _ d'] exI [of _ c] exI [of _ a]) (simp add: b1_def)
qed

lemma redo_records_ok:
  assumes "chain rec_ok A rs B" and "eb_lines b = lines_of A" and "damage_covers d L (eb_lines b)"
  shows "\<exists>d' c a. redo_records rs d b = Some (d', b\<lparr>eb_lines := lines_of B, eb_cursor := c, eb_anchor := a\<rparr>)
    \<and> damage_covers d' L (lines_of B)"
  using assms
proof (induction rs arbitrary: A b d)
  case Nil
  then show ?case by (intro exI [of _ d] exI [of _ "eb_cursor b"] exI [of _ "eb_anchor b"]) simp
next
  case (Cons r rs)
  then obtain C where C: "rec_ok A r C" "chain rec_ok C rs B" by auto
  then obtain p q where pq: "A = p @ er_old_text r @ q" "C = p @ er_new_text r @ q" "er_start r = pos_of p"
    by (auto simp: rec_ok_def rec_step_def)
  define b1 where "b1 = b\<lparr>eb_lines := lines_of C, eb_cursor := pos_of (p @ er_new_text r), eb_anchor := None\<rparr>"
  obtain d1 where rr: "raw_replace (pos_of p) (pos_of (p @ er_old_text r)) (er_new_text r) b = Some (d1, b1)"
    "damage_covers d1 (lines_of A) (lines_of C)"
    using raw_replace_text [of b p "er_old_text r" q "er_new_text r"] Cons.prems(2) by (auto simp: pq b1_def)
  have dc: "damage_covers (damage_merge d d1) L (eb_lines b1)"
    using damage_merge_covers [of d L "eb_lines b" d1] Cons.prems rr(2) by (simp add: b1_def)
  have l1: "eb_lines b1 = lines_of C" by (simp add: b1_def)
  from Cons.IH [OF C(2) l1 dc] obtain d' c a where
    "redo_records rs (damage_merge d d1) b1 = Some (d', b1\<lparr>eb_lines := lines_of B, eb_cursor := c, eb_anchor := a\<rparr>)"
    "damage_covers d' L (lines_of B)" by blast
  then show ?case using rr(1) pq(3)
    by (intro exI [of _ d'] exI [of _ c] exI [of _ a]) (simp add: b1_def)
qed

text \<open>One undo takes the newest group off the text, with the cursor and anchor of before.\<close>

lemma undo_group:
  assumes "holds_text D b" and "eb_undo b = gs @ [g]" and "group_ok C g D"
  shows "\<exists>d. undo b = Some (d, b\<lparr>eb_lines := lines_of C, eb_cursor := er_cursor_before (hd (ug_records g)),
        eb_anchor := er_anchor_before (hd (ug_records g)), eb_sticky := None, eb_undo := gs,
        eb_redo := eb_redo b @ [g], eb_group_open := False\<rparr>)
    \<and> damage_covers d (eb_lines b) (lines_of C)"
proof -
  let ?b = "b\<lparr>eb_sticky := None, eb_group_open := False, eb_undo := gs\<rparr>"
  obtain r rs where r: "ug_records g = r # rs" using assms(3) by (cases "ug_records g") (auto simp: group_ok_def)
  have "chain rec_ok C (ug_records g) D" using assms(3) by (simp add: group_ok_def)
  from undo_records_ok [OF this, of ?b No_Damage "eb_lines b"] assms(1)
  show ?thesis by (auto simp: undo_def assms(2) holds_text_def r nth_opt_def)
qed

lemma redo_group:
  assumes "holds_text D b" and "eb_redo b = gs @ [g]" and "group_ok D g E"
  shows "\<exists>d. redo b = Some (d, b\<lparr>eb_lines := lines_of E, eb_cursor := er_cursor_after (last (ug_records g)),
        eb_anchor := None, eb_sticky := None, eb_undo := eb_undo b @ [g], eb_redo := gs, eb_group_open := False\<rparr>)
    \<and> damage_covers d (eb_lines b) (lines_of E)"
proof -
  let ?b = "b\<lparr>eb_sticky := None, eb_group_open := False, eb_redo := gs\<rparr>"
  obtain r rs where r: "ug_records g = rs @ [r]" using assms(3) by (cases "ug_records g" rule: rev_cases) (auto simp: group_ok_def)
  have "chain rec_ok D (ug_records g) E" using assms(3) by (simp add: group_ok_def)
  from redo_records_ok [OF this, of ?b No_Damage "eb_lines b"] assms(1)
  show ?thesis by (auto simp: redo_def assms(2) holds_text_def r nth_opt_def)
qed

lemma group_ok_ends:
  assumes "group_ok C g D"
  shows "valid_pos C (er_cursor_before (hd (ug_records g)))"
    and "er_anchor_before (hd (ug_records g)) = Some a \<Longrightarrow> valid_pos C a"
    and "valid_pos D (er_cursor_after (last (ug_records g)))"
proof -
  obtain r rs where r: "ug_records g = r # rs" using assms by (cases "ug_records g") (auto simp: group_ok_def)
  then show "valid_pos C (er_cursor_before (hd (ug_records g)))"
    "er_anchor_before (hd (ug_records g)) = Some a \<Longrightarrow> valid_pos C a"
    using assms by (auto simp: group_ok_def rec_ok_def)
  obtain l ls where l: "ug_records g = ls @ [l]" using assms by (cases "ug_records g" rule: rev_cases) (auto simp: group_ok_def)
  then show "valid_pos D (er_cursor_after (last (ug_records g)))"
    using assms by (auto simp: group_ok_def rec_ok_def)
qed

lemma history_ok_timeline:
  assumes "history_ok T0 k T D b" and "timeline b' = timeline b" and "chain group_ok T0 (eb_undo b') D'"
    and "chain group_ok D' (rev (eb_redo b')) E" and "eb_next_id b' = eb_next_id b" and "\<not> eb_group_open b'"
  shows "history_ok T0 k T D' b'"
  using assms by (auto simp: history_ok_def)

lemma close_group_ok:
  "holds_text D b \<Longrightarrow> history_ok T0 k T D b \<Longrightarrow> ed_inv T0 k T (b\<lparr>eb_sticky := s, eb_group_open := False\<rparr>)"
  unfolding ed_inv_def
  by (rule exI [of _ D]) (auto intro: history_ok_cong)

lemma undo_ok:
  assumes "holds_text D b" and "history_ok T0 k T D b"
  shows "edit_ok T0 k T b (undo b)"
proof (cases "eb_undo b" rule: rev_cases)
  case Nil
  then show ?thesis using edit_ok_same [OF close_group_ok [OF assms]] by (simp add: undo_def)
next
  case (snoc gs g)
  with assms(2) obtain C E where C: "chain group_ok T0 gs C" "group_ok C g D" "chain group_ok D (rev (eb_redo b)) E"
    by (auto simp: history_ok_def)
  from undo_group [OF assms(1) snoc C(2)] obtain d b' where b': "undo b = Some (d, b')"
    "b' = b\<lparr>eb_lines := lines_of C, eb_cursor := er_cursor_before (hd (ug_records g)),
        eb_anchor := er_anchor_before (hd (ug_records g)), eb_sticky := None, eb_undo := gs,
        eb_redo := eb_redo b @ [g], eb_group_open := False\<rparr>"
    "damage_covers d (eb_lines b) (lines_of C)" by blast
  have "history_ok T0 k T C b'"
    by (rule history_ok_timeline [OF assms(2), where E = E]) (use C snoc in \<open>auto simp: b'(2) timeline_def\<close>)
  moreover have "holds_text C b'" using group_ok_ends [OF C(2)] by (auto simp: holds_text_def b'(2))
  moreover have "eb_lines b' = lines_of C" by (simp add: b'(2))
  ultimately show ?thesis using b'(1,3) unfolding edit_ok_def ed_inv_def by auto
qed

lemma redo_ok:
  assumes "holds_text D b" and "history_ok T0 k T D b"
  shows "edit_ok T0 k T b (redo b)"
proof (cases "eb_redo b" rule: rev_cases)
  case Nil
  then show ?thesis using edit_ok_same [OF close_group_ok [OF assms]] by (simp add: redo_def)
next
  case (snoc gs g)
  with assms(2) obtain C E where C: "chain group_ok T0 (eb_undo b) D" "group_ok D g C" "chain group_ok C (rev gs) E"
    by (auto simp: history_ok_def)
  from redo_group [OF assms(1) snoc C(2)] obtain d b' where b': "redo b = Some (d, b')"
    "b' = b\<lparr>eb_lines := lines_of C, eb_cursor := er_cursor_after (last (ug_records g)),
        eb_anchor := None, eb_sticky := None, eb_undo := eb_undo b @ [g], eb_redo := gs, eb_group_open := False\<rparr>"
    "damage_covers d (eb_lines b) (lines_of C)" by blast
  have "history_ok T0 k T C b'"
    by (rule history_ok_timeline [OF assms(2), where E = E]) (use C snoc in \<open>auto simp: b'(2) timeline_def\<close>)
  moreover have "holds_text C b'" using group_ok_ends [OF C(2)] by (auto simp: holds_text_def b'(2))
  moreover have "eb_lines b' = lines_of C" by (simp add: b'(2))
  ultimately show ?thesis using b'(1,3) unfolding edit_ok_def ed_inv_def by auto
qed

section \<open>Typing and deleting\<close>

lemma delete_selection_ok:
  assumes "holds_text D b" and "history_ok T0 k T D b"
  shows "cmd_ok T0 k T b (delete_selection b)"
proof (cases "selection b")
  case None
  then show ?thesis using cmd_ok_none [of D "b\<lparr>eb_sticky := None\<rparr>" T0 k T b] assms by (simp add: delete_selection_def)
next
  case (Some se)
  then obtain s e where se: "selection b = Some (s, e)" by (cases se) simp
  with selection_valid [OF assms(1) se] record_replace_sticky [OF assms, of s e Other "[]" None]
  show ?thesis by (simp add: delete_selection_def)
qed

lemma insert_with_kind_ok:
  assumes "holds_text D b" and "history_ok T0 k T D b" and "kind \<noteq> Deleting"
  shows "cmd_ok T0 k T b (insert_with_kind text kind b)"
proof (cases "selection b")
  case None
  have "valid_pos D (eb_cursor b)" using assms(1) by (simp add: holds_text_def)
  with None record_replace_sticky [OF assms(1,2), of "eb_cursor b" "eb_cursor b"] assms(3)
  show ?thesis by (simp add: insert_with_kind_def Let_def)
next
  case (Some se)
  then obtain s e where se: "selection b = Some (s, e)" by (cases se) simp
  with selection_valid [OF assms(1) se] record_replace_sticky [OF assms(1,2), of s e] assms(3)
  show ?thesis by (simp add: insert_with_kind_def Let_def)
qed

lemma insert_str_ok: "holds_text D b \<Longrightarrow> history_ok T0 k T D b \<Longrightarrow> cmd_ok T0 k T b (insert_str text b)"
  by (simp add: insert_str_def insert_with_kind_ok)

lemma insert_typed_ok: "holds_text D b \<Longrightarrow> history_ok T0 k T D b \<Longrightarrow> cmd_ok T0 k T b (insert_typed text b)"
  by (simp add: insert_typed_def insert_with_kind_ok)

lemma min_indent_boundary:
  assumes "is_char_boundary l c"
  shows "\<exists>s. slice_to l (min (indent_end l) c) = Some s"
  using assms indent_end_boundary [of l] by (auto simp: min_def is_char_boundary_def slice_to_def)

lemma insert_newline_auto_indent_ok:
  assumes "holds_text D b" and "history_ok T0 k T D b"
  shows "cmd_ok T0 k T b (insert_newline_auto_indent b)"
proof -
  define pos where "pos = (case selection b of Some (start, _) \<Rightarrow> start | None \<Rightarrow> eb_cursor b)"
  have "valid_pos D pos"
    using assms(1) selection_valid [OF assms(1)] by (auto simp: pos_def holds_text_def split: option.split)
  from pos_lineE [OF assms(1) this] obtain a r where l: "eb_line b (p_line pos) = Some (a @ r)" "p_col pos = blen a"
    by blast
  obtain s where "slice_to (a @ r) (min (indent_end (a @ r)) (blen a)) = Some s"
    using min_indent_boundary [of "a @ r" "blen a"] by auto
  with l insert_with_kind_ok [OF assms, of Other] show ?thesis
    by (simp add: insert_newline_auto_indent_def Let_def flip: pos_def)
qed

lemma pos_le_line: "p_line s = p_line e \<Longrightarrow> p_col s \<le> p_col e \<Longrightarrow> s \<le> e" for s e :: position
  by (simp add: less_eq_position_def)

lemma blen_butlast_le: "blen (butlast a) \<le> blen a"
  by (cases a rule: rev_cases) simp_all

lemma backspace_ok:
  assumes h: "holds_text D b" and hist: "history_ok T0 k T D b"
  shows "cmd_ok T0 k T b (backspace alnum word b)"
proof (cases "selection b")
  case (Some se)
  have "delete_selection (b\<lparr>eb_sticky := None\<rparr>) = delete_selection b" by (simp add: delete_selection_def)
  with Some delete_selection_ok [OF assms] show ?thesis by (simp add: backspace_def)
next
  case None
  have vc: "valid_pos D (eb_cursor b)" using h by (simp add: holds_text_def)
  obtain a r where l: "eb_line b (p_line (eb_cursor b)) = Some (a @ r)" "p_col (eb_cursor b) = blen a"
    "p_line (eb_cursor b) < length (lines_of D)" "lines_of D ! p_line (eb_cursor b) = a @ r"
    by (rule cursor_lineE [OF h])
  have rr: "cmd_ok T0 k T b (record_replace (Position (p_line (eb_cursor b)) c) (eb_cursor b) [] kd (b\<lparr>eb_sticky := None\<rparr>))"
    if "is_char_boundary (a @ r) c" "c \<le> blen a" for c kd
    using that l(2-4) vc by (intro record_replace_sticky [OF h hist]) (auto simp: valid_pos_iff less_eq_position_def)
  obtain c where c: "prev_word_boundary alnum (a @ r) (blen a) = Some c" "is_char_boundary (a @ r) c" "c \<le> blen a"
    using prev_word_boundary_ok by blast
  have pl: "prev_char_col (b\<lparr>eb_sticky := None\<rparr>) (p_line (eb_cursor b)) (blen a) = Some (blen (butlast a))"
    by (rule prev_char_col_eq [of _ _ _ r]) (simp add: l(1))
  have up: "cmd_ok T0 k T b (do { l \<leftarrow> eb_line b (p_line (eb_cursor b) - 1);
        record_replace (Position (p_line (eb_cursor b) - 1) (blen l)) (eb_cursor b) [] Other (b\<lparr>eb_sticky := None\<rparr>) })"
    if "0 < p_line (eb_cursor b)"
  proof -
    have i: "p_line (eb_cursor b) - 1 < length (lines_of D)" using l(3) by simp
    have "Position (p_line (eb_cursor b) - 1) n \<le> eb_cursor b" for n using that by (simp add: less_eq_position_def)
    then show ?thesis
      using eb_line_text [OF h i] record_replace_sticky [OF h hist valid_pos_line_end [OF i] vc] by simp
  qed
  show ?thesis
    using None l(1,2) up rr [OF c(2,3)] rr [OF blen_butlast_boundary blen_butlast_le] c(1) pl
      cmd_ok_none [of D "b\<lparr>eb_sticky := None\<rparr>" T0 k T b] h hist
    by (auto simp: backspace_def Let_def)
qed

lemma delete_forward_ok:
  assumes h: "holds_text D b" and hist: "history_ok T0 k T D b"
  shows "cmd_ok T0 k T b (delete_forward alnum word b)"
proof (cases "selection b")
  case (Some se)
  have "delete_selection (b\<lparr>eb_sticky := None\<rparr>) = delete_selection b" by (simp add: delete_selection_def)
  with Some delete_selection_ok [OF assms] show ?thesis by (simp add: delete_forward_def)
next
  case None
  have vc: "valid_pos D (eb_cursor b)" using h by (simp add: holds_text_def)
  have ls: "eb_lines b = lines_of D" using h by (simp add: holds_text_def)
  obtain a r where l: "eb_line b (p_line (eb_cursor b)) = Some (a @ r)" "p_col (eb_cursor b) = blen a"
    "p_line (eb_cursor b) < length (lines_of D)" "lines_of D ! p_line (eb_cursor b) = a @ r"
    by (rule cursor_lineE [OF h])
  have rr: "cmd_ok T0 k T b (record_replace (eb_cursor b) (Position (p_line (eb_cursor b)) c) [] kd (b\<lparr>eb_sticky := None\<rparr>))"
    if "is_char_boundary (a @ r) c" "blen a \<le> c" for c kd
    using that l(2-4) vc by (intro record_replace_sticky [OF h hist]) (auto simp: valid_pos_iff less_eq_position_def)
  obtain c where c: "next_word_boundary alnum (a @ r) (blen a) = Some c" "is_char_boundary (a @ r) c" "blen a \<le> c"
    using next_word_boundary_ok by blast
  have nl: "next_char_col (b\<lparr>eb_sticky := None\<rparr>) (p_line (eb_cursor b)) (blen a) =
      Some (blen a + (case r of [] \<Rightarrow> 0 | c # cs \<Rightarrow> len_utf8 c))"
    by (rule next_char_col_eq) (simp add: l(1))
  have down: "cmd_ok T0 k T b (record_replace (eb_cursor b) (Position (Suc (p_line (eb_cursor b))) 0) [] Other (b\<lparr>eb_sticky := None\<rparr>))"
    if "Suc (p_line (eb_cursor b)) < length (lines_of D)"
    using record_replace_sticky [OF h hist vc valid_pos_line_start [OF that]] by (simp add: less_eq_position_def)
  show ?thesis
    using None l(1,2) down rr [OF c(2,3)] rr [OF next_char_boundary] c(1) nl ls
      cmd_ok_none [of D "b\<lparr>eb_sticky := None\<rparr>" T0 k T b] h hist
    by (auto simp: delete_forward_def Let_def)
qed

end
