(* ===== verification/Editor_Lines.thy ===== *)
theory Editor_Lines
  imports Editor_Cmds
begin

text \<open>
  The line-wise commands (indent, outdent, comment toggle): they compute new lines for a block and
  replace the block by one recorded splice.
\<close>

section \<open>Mapping lines\<close>

lemma map_lines_eq_Some: "map_lines f is = Some xs \<longleftrightarrow> map f is = map Some xs"
proof (induction "is" arbitrary: xs)
  case (Cons i "is")
  then show ?case by (cases xs; cases "f i"; cases "map_lines f is") (simp_all flip: Cons.IH)
qed auto

lemma map_lines_total:
  assumes "\<And>i. i \<in> set is \<Longrightarrow> \<exists>x. f i = Some x"
  shows "\<exists>xs. map_lines f is = Some xs \<and> length xs = length is"
  using assms
proof (induction "is")
  case (Cons i "is")
  then obtain x xs where "f i = Some x" "map_lines f is = Some xs" "length xs = length is" by force
  then show ?case by simp
qed simp

lemma map_lines_nth:
  assumes "map_lines f is = Some xs" and "n < length is"
  shows "length xs = length is \<and> f (is ! n) = Some (xs ! n)"
proof -
  have eq: "map f is = map Some xs" using assms(1) by (simp add: map_lines_eq_Some)
  then have len: "length xs = length is" by (metis length_map)
  have "map f is ! n = map Some xs ! n" using eq by simp
  with assms(2) len show ?thesis by simp
qed

lemma lines_same_eq:
  assumes "eb_lines b = L" and "i + length ls \<le> length L"
  shows "lines_same b i ls = Some (take (length ls) (drop i L) = ls)"
  using assms(2)
proof (induction ls arbitrary: i)
  case (Cons l ls)
  then have "eb_line b i = Some (L ! i)" "drop i L = L ! i # drop (Suc i) L"
    using assms(1) by (simp_all add: eb_line_def nth_opt_def Cons_nth_drop_Suc)
  with Cons show ?case by auto
qed simp

section \<open>Blocks of lines\<close>

text \<open>The text of a block of whole lines, as the middle of the document.\<close>

lemma line_block:
  assumes "i \<le> j" and "j < length (lines_of D)"
  obtains p m q where "D = p @ m @ q" and "pos_of p = Position i 0" and "pos_of (p @ m) = Position j (blen (lines_of D ! j))"
    and "m = join_char 10 (take (Suc j - i) (drop i (lines_of D)))"
    and "\<And>t. lines_of (p @ t @ q) = take i (lines_of D) @ lines_of t @ drop (Suc j) (lines_of D)"
proof -
  let ?L = "lines_of D"
  have v: "valid_pos D (Position i 0)" "valid_pos D (Position j (blen (?L ! j)))"
    using assms by (simp_all add: valid_pos_line_start valid_pos_line_end)
  have "Position i 0 \<le> Position j (blen (?L ! j))" using assms by (simp add: less_eq_position_def) linarith
  from valid_pos_ordE [OF v this] obtain p m q where D: "D = p @ m @ q" "Position i 0 = pos_of p"
    "Position j (blen (?L ! j)) = pos_of (p @ m)" .
  have ll: "last (lines_of p) = []" "length (lines_of p) = Suc i"
  proof -
    show "last (lines_of p) = []" using D(2) by (simp add: pos_of_def)
    show "length (lines_of p) = Suc i" using D(2) length_lines_pos [of p] by (simp add: pos_of_def)
  qed
  obtain P where P: "lines_of p = P @ [[]]" "length P = i"
    using ll by (metis append_butlast_last_id diff_Suc_1 length_butlast split_char_neq_Nil)
  obtain h Q where Q: "lines_of q = h # Q" by (rule lines_headE)
  have pt: "lines_of (p @ t) = P @ lines_of t" for t
    using hd_Cons_tl [of "lines_of t"] by (simp add: lines_append [of p] P(1))
  note pm = pt [of m]
  have lm: "length (lines_of m) = Suc j - i"
  proof -
    have "length (lines_of (p @ m)) = Suc j" using D(3) length_lines_pos [of "p @ m"] by (simp add: pos_of_def)
    then show ?thesis using pm P(2) by simp
  qed
  obtain M x where M: "lines_of m = M @ [x]" by (rule lines_lastE)
  have all: "?L = P @ M @ (x @ h) # Q"
    using lines_join [of "p @ m" "P @ M" x q h Q] pm M Q by (simp add: D(1))
  have len: "length M = j - i" using lm M assms(1) by simp
  have "?L ! j = x @ h" using all len P(2) assms(1) by (simp add: nth_append)
  moreover have "pos_of (p @ m) = Position (length (P @ M)) (blen x)"
    by (rule pos_of_lines) (simp add: pm M)
  then have "blen (?L ! j) = blen x" using D(3) by (metis position.inject)
  ultimately have "h = []" by simp
  then have "take (Suc j - i) (drop i ?L) = lines_of m"
    using all len P(2) assms(1) M by (simp add: Suc_diff_le)
  then have m: "m = join_char 10 (take (Suc j - i) (drop i ?L))" by simp
  have PQ: "P = take i ?L" "Q = drop (Suc j) ?L"
    using all len P(2) assms(1) \<open>h = []\<close> by simp_all
  have "lines_of (p @ t @ q) = take i ?L @ lines_of t @ drop (Suc j) ?L" for t
  proof -
    obtain N y where N: "lines_of t = N @ [y]" by (rule lines_lastE)
    have "lines_of ((p @ t) @ q) = (P @ N) @ (y @ h) # Q"
      by (rule lines_join) (simp_all add: pt N Q)
    then show ?thesis using \<open>h = []\<close> N by (simp flip: PQ)
  qed
  from that [OF D(1) D(2) [symmetric] D(3) [symmetric] m this] show ?thesis .
qed

lemma count_join: "ls \<noteq> [] \<Longrightarrow> length ls \<le> Suc (count_list (join_char d ls) d)"
  by (induction d ls rule: join_char.induct) auto

lemma length_lines_block:
  assumes "length new = length old" and "old \<noteq> []" and "\<And>l. l \<in> set old \<Longrightarrow> 10 \<notin> set l"
  shows "length (lines_of (p @ join_char 10 old @ q)) \<le> length (lines_of (p @ join_char 10 new @ q))"
proof -
  have "Suc (count_list (join_char 10 old) 10) = length old"
    using split_join_char [of old 10] assms(2,3) length_split_char [of 10 "join_char 10 old"] by simp
  moreover have "length new \<le> Suc (count_list (join_char 10 new) 10)" using assms(1,2) by (intro count_join) auto
  ultimately show ?thesis using assms(1) by (simp add: length_lines_append)
qed

section \<open>The rewriting of a block\<close>

lemma set_last_cursor_after_frame [simp]:
  "eb_lines (set_last_cursor_after p b) = eb_lines b" "eb_cursor (set_last_cursor_after p b) = eb_cursor b"
  "eb_anchor (set_last_cursor_after p b) = eb_anchor b" "eb_redo (set_last_cursor_after p b) = eb_redo b"
  "eb_next_id (set_last_cursor_after p b) = eb_next_id b" "eb_group_open (set_last_cursor_after p b) = eb_group_open b"
  by (simp_all add: set_last_cursor_after_def Let_def)

lemma set_last_cursor_after_ok:
  assumes hist: "history_ok T0 k T D b" and v: "valid_pos D pos" and "eb_redo b = []"
  shows "history_ok T0 k T D (set_last_cursor_after pos b)"
proof (cases "eb_undo b" rule: rev_cases)
  case Nil
  then show ?thesis using hist by (simp add: set_last_cursor_after_def)
next
  case (snoc gs g)
  with hist obtain C where C: "chain group_ok T0 gs C" "group_ok C g D" by (auto simp: history_ok_def)
  then obtain rs r where r: "ug_records g = rs @ [r]" by (cases "ug_records g" rule: rev_cases) (auto simp: group_ok_def)
  define g' where "g' = g\<lparr>ug_records := rs @ [r\<lparr>er_cursor_after := pos\<rparr>]\<rparr>"
  have g': "group_ok C g' D"
    using C(2) v r by (auto simp: group_ok_def g'_def rec_ok_def rec_step_def)
  have b': "set_last_cursor_after pos b = b\<lparr>eb_undo := gs @ [g']\<rparr>"
    by (simp add: set_last_cursor_after_def snoc r g'_def Let_def)
  have keep: "chain group_ok T0 xs T" if "gs @ [g'] = xs @ ys" "newest_is k xs" for xs ys
  proof (cases ys rule: rev_cases)
    case Nil
    have "newest_is k (gs @ [g])" using that Nil by (auto simp: newest_is_def g'_def)
    moreover have "timeline b = (gs @ [g]) @ []" by (simp add: timeline_def snoc assms(3))
    ultimately have "chain group_ok T0 (gs @ [g]) T" using hist unfolding history_ok_def by blast
    moreover have "chain group_ok T0 (gs @ [g]) D" using C by auto
    ultimately have "T = D" by (rule groups_det)
    then show ?thesis using that Nil C(1) g' by auto
  next
    case (snoc zs z)
    with that \<open>eb_undo b = gs @ [g]\<close> assms(3) have "timeline b = xs @ zs @ [g]" by (simp add: timeline_def)
    with hist that show ?thesis by (auto simp: history_ok_def)
  qed
  show ?thesis using hist C(1) g' keep assms(3)
    by (auto simp: history_ok_def b' timeline_def snoc newest_is_def g'_def)
qed

lemma one_step_set_last:
  assumes "one_step b b'" and "eb_undo b' \<noteq> eb_undo b \<or> eb_group_open b"
  shows "one_step b (set_last_cursor_after pos b')"
  using assms by (auto simp: one_step_def set_last_cursor_after_def Let_def)

lemma rewrite_lines_run:
  assumes h: "holds_text D b" and hist: "history_ok T0 k T D b" and ij: "i \<le> j" "j < length (lines_of D)"
    and len: "length new = Suc j - i"
  shows "\<exists>d b'. rewrite_lines i j new delta b = Some (d, b') \<and> ed_inv T0 k T b'
    \<and> damage_covers d (eb_lines b) (eb_lines b') \<and> one_step b b'
    \<and> (if take (Suc j - i) (drop i (lines_of D)) = new then b' = b
       else eb_lines b' = take i (lines_of D) @ lines_of (join_char 10 new) @ drop (Suc j) (lines_of D)
         \<and> (selection b \<noteq> None \<longrightarrow> eb_anchor b' = Some (Position i 0) \<and> eb_cursor b' = Position j (blen (eb_lines b' ! j))))"
proof -
  let ?L = "lines_of D"
  obtain p m q where D: "D = p @ m @ q" "pos_of p = Position i 0" "pos_of (p @ m) = Position j (blen (?L ! j))"
    and m: "m = join_char 10 (take (Suc j - i) (drop i ?L))"
    and repl: "\<And>t. lines_of (p @ t @ q) = take i ?L @ lines_of t @ drop (Suc j) ?L"
    by (rule line_block [OF ij], rule that)
  define old where "old = take (Suc j - i) (drop i ?L)"
  define t where "t = join_char 10 new"
  have ls: "eb_lines b = ?L" using h by (simp add: holds_text_def)
  have same: "lines_same b i new = Some (old = new)"
    using lines_same_eq [OF ls, of i new] len ij by (simp add: old_def)
  show ?thesis
  proof (cases "old = new")
    case True
    then have "rewrite_lines i j new delta b = Some (No_Damage, b)" using same by (simp add: rewrite_lines_def)
    then show ?thesis using True h hist
      by (intro exI [of _ No_Damage] exI [of _ b]) (auto simp: old_def ed_inv_def one_step_def)
  next
    case False
    have lold: "length old = length new" using ij len by (simp add: old_def)
    have ne: "\<not> (m = [] \<and> t = [])"
    proof
      assume *: "m = [] \<and> t = []"
      have "old = [[]] \<and> new = [[]]"
        using * m lold len ij unfolding t_def old_def [symmetric]
        by (cases old; cases new; cases "tl old"; cases "tl new") auto
      with False show False by simp
    qed
    from record_replace_mid [of p m q b T0 k T Other t] h hist ne
    obtain d b1 where b1: "record_replace (Position i 0) (Position j (blen (?L ! j))) t Other b = Some (d, b1)"
      "holds_text (p @ t @ q) b1" "history_ok T0 k T (p @ t @ q) b1"
      "damage_covers d (eb_lines b) (eb_lines b1)" "one_step b b1" "eb_redo b1 = []"
      "eb_undo b1 \<noteq> eb_undo b \<or> eb_group_open b"
      unfolding D(2,3) [symmetric] by (auto simp flip: D(1))
    have more: "length ?L \<le> length (lines_of (p @ t @ q))"
    proof -
      have "m = join_char 10 old" by (simp only: m old_def)
      then have "?L = lines_of (p @ join_char 10 old @ q)" by (simp only: D(1))
      moreover have "length new = length old" "old \<noteq> []" using lold len ij by auto
      moreover have "10 \<notin> set l" if "l \<in> set old" for l
        using that by (auto simp: old_def dest!: in_set_takeD in_set_dropD split_char_no_sep)
      ultimately show ?thesis unfolding t_def by (metis length_lines_block)
    qed
    let ?L' = "lines_of (p @ t @ q)"
    have j': "j < length ?L'" and c': "p_line (eb_cursor b) < length ?L'"
      using more ij h by (auto simp: holds_text_def valid_pos_iff)
    define cl where "cl = (if selection b \<noteq> None then Position j (blen (?L' ! j))
      else Position (p_line (eb_cursor b)) (floor_char_boundary (?L' ! p_line (eb_cursor b))
        (nat (min (max (int (p_col (eb_cursor b)) + delta) 0) (int (blen (?L' ! p_line (eb_cursor b))))))))"
    define a where "a = (if selection b \<noteq> None then Some (Position i 0) else None)"
    have v: "valid_pos (p @ t @ q) cl" "\<forall>x. a = Some x \<longrightarrow> valid_pos (p @ t @ q) x"
      using j' c' ij floor_char_boundary_ok by (auto simp: cl_def a_def valid_pos_iff)
    define b2 where "b2 = b1\<lparr>eb_cursor := cl, eb_anchor := a\<rparr>"
    have "min (nat (min x (int n))) n = nat (min x (int n))" for x n by linarith
    then have rl: "rewrite_lines i j new delta b = Some (d, (set_last_cursor_after cl b2)\<lparr>eb_sticky := None\<rparr>)"
      using same False b1(1) eb_line_text [OF h ij(2)] eb_line_text [OF b1(2) j'] eb_line_text [OF b1(2) c']
      by (simp add: rewrite_lines_def Let_def t_def cl_def a_def b2_def floor_boundary_def)
    define b3 where "b3 = (set_last_cursor_after cl b2)\<lparr>eb_sticky := None\<rparr>"
    have "history_ok T0 k T (p @ t @ q) b2" by (rule history_ok_cong [OF b1(3)]) (simp_all add: b2_def)
    then have "history_ok T0 k T (p @ t @ q) (set_last_cursor_after cl b2)"
      by (rule set_last_cursor_after_ok) (use v b1(6) in \<open>simp_all add: b2_def\<close>)
    moreover have "holds_text (p @ t @ q) b3" using b1(2) v by (simp add: holds_text_def b3_def b2_def)
    ultimately have inv: "ed_inv T0 k T b3" unfolding ed_inv_def by (intro exI [of _ "p @ t @ q"]) (simp add: b3_def)
    have "one_step b (set_last_cursor_after cl b2)"
      by (rule one_step_set_last) (use b1(5,7) in \<open>simp_all add: one_step_def b2_def\<close>)
    then have step: "one_step b b3" by (simp add: one_step_def b3_def)
    have lines3: "eb_lines b3 = eb_lines b1" by (simp add: b3_def b2_def)
    have "eb_lines b1 = take i ?L @ lines_of t @ drop (Suc j) ?L" using b1(2) repl [of t] by (simp add: holds_text_def)
    then have l3: "eb_lines b3 = take i ?L @ lines_of (join_char 10 new) @ drop (Suc j) ?L" by (simp add: lines3 t_def)
    have "selection b \<noteq> None \<longrightarrow> eb_anchor b3 = Some (Position i 0) \<and> eb_cursor b3 = Position j (blen (eb_lines b3 ! j))"
      using b1(2) by (simp add: lines3 holds_text_def) (simp add: b3_def b2_def cl_def a_def)
    with inv step l3 b1(4) rl [folded b3_def] False show ?thesis
      unfolding old_def lines3 [symmetric] by (intro exI [of _ d] exI [of _ b3]) simp
  qed
qed

lemma rewrite_lines_ok:
  assumes "holds_text D b" and "history_ok T0 k T D b" and "i \<le> j" "j < length (lines_of D)"
    and "length new = Suc j - i"
  shows "cmd_ok T0 k T b (rewrite_lines i j new delta b)"
  using rewrite_lines_run [OF assms, of delta] by (auto simp: cmd_ok_def)

section \<open>Indent, outdent, comments\<close>

lemma line_span_ok:
  assumes "holds_text D b" and "line_span b = (i, j)"
  shows "i \<le> j \<and> j < length (lines_of D)"
proof (cases "selection b")
  case None
  then show ?thesis using assms by (auto simp: line_span_def holds_text_def valid_pos_iff)
next
  case (Some se)
  then obtain s e where se: "selection b = Some (s, e)" by (cases se) simp
  with selection_valid [OF assms(1) se] assms(2) show ?thesis
    by (auto simp: line_span_def less_position_def valid_pos_iff split: if_splits)
qed

lemma block_lines_ok:
  assumes h: "holds_text D b" and "line_span b = (i, j)"
    and f: "\<And>n l. i \<le> n \<Longrightarrow> n \<le> j \<Longrightarrow> eb_line b n = Some l \<Longrightarrow> l = lines_of D ! n \<Longrightarrow> \<exists>x. f n = Some x"
  shows "\<exists>xs. map_lines f [i..<j + 1] = Some xs \<and> length xs = Suc j - i"
proof -
  have "\<exists>xs. map_lines f [i..<j + 1] = Some xs \<and> length xs = length [i..<j + 1]"
  proof (rule map_lines_total)
    fix n
    assume "n \<in> set [i..<j + 1]"
    then have n: "i \<le> n" "n \<le> j" by auto
    with line_span_ok [OF assms(1,2)] have "n < length (lines_of D)" by simp
    from f [OF n eb_line_text [OF h this]] show "\<exists>x. f n = Some x" by simp
  qed
  then show ?thesis by (simp del: upt_Suc)
qed

lemma indent_ok:
  assumes "holds_text D b" and "history_ok T0 k T D b"
  shows "cmd_ok T0 k T b (indent b)"
proof (cases "selection b")
  case None
  obtain v where "visual_col b (eb_cursor b) = Some v"
    using visual_col_total [OF assms(1)] assms(1) by (auto simp: holds_text_def)
  with None insert_typed_ok [OF assms] show ?thesis by (simp add: indent_def)
next
  case (Some se)
  obtain i j where ij: "line_span b = (i, j)" by (cases "line_span b")
  let ?f = "\<lambda>line. do { l \<leftarrow> eb_line b line; Some (if l = [] then [] else replicate TAB_SPACES 32 @ l) }"
  obtain xs where xs: "map_lines ?f [i..<j + 1] = Some xs" "length xs = Suc j - i"
    using block_lines_ok [OF assms(1) ij, of ?f] by auto
  have "indent b = rewrite_lines i j xs 0 b" using Some ij xs(1) by (simp add: indent_def)
  with rewrite_lines_ok [OF assms, of i j xs] line_span_ok [OF assms(1) ij] xs(2) show ?thesis by simp
qed

lemma boundary_slice_from: "is_char_boundary l c \<Longrightarrow> \<exists>s. slice_from l c = Some s"
  by (auto simp: is_char_boundary_def slice_from_def)

lemma outdent_ok:
  assumes "holds_text D b" and "history_ok T0 k T D b"
  shows "cmd_ok T0 k T b (outdent b)"
proof -
  obtain i j where ij: "line_span b = (i, j)" by (cases "line_span b")
  let ?f = "\<lambda>line. do {
               text \<leftarrow> eb_line b line;
               let removed = outdent_width text;
               kept \<leftarrow> slice_from text removed;
               Some (kept, if line = p_line (eb_cursor b) then Some (- int removed) else None)
             }"
  have "\<exists>x. ?f n = Some x" if "eb_line b n = Some l" for n l
    using that boundary_slice_from [OF outdent_width_boundary [of l]] by auto
  then obtain rows where rows: "map_lines ?f [i..<j + 1] = Some rows" "length rows = Suc j - i"
    using block_lines_ok [OF assms(1) ij, of ?f] by blast
  then have "outdent b = rewrite_lines i j (map fst rows)
      (fold (\<lambda>(_, d) acc. case d of Some x \<Rightarrow> x | None \<Rightarrow> acc) rows 0) b"
    using ij by (simp add: outdent_def)
  with rewrite_lines_ok [OF assms, of i j "map fst rows"] line_span_ok [OF assms(1) ij] rows(2)
  show ?thesis by simp
qed

lemma comment_line_ok:
  assumes l: "eb_line b n = Some text"
    and u: "uncomment \<Longrightarrow> trim text \<noteq> [] \<Longrightarrow> starts_with prefix (trim_start text)"
  shows "\<exists>x. comment_line b prefix uncomment column n = Some x"
proof -
  have at: "text = takeWhile is_whitespace text @ trim_start text" by (simp add: trim_start_def)
  have c: "is_char_boundary text (floor_char_boundary text (min column (blen text)))"
    using floor_char_boundary_ok by blast
  then obtain x y where xy: "split_at (floor_char_boundary text (min column (blen text))) text = Some (x, y)"
    by (auto simp: is_char_boundary_def)
  show ?thesis
  proof (cases "trim text = [] \<or> \<not> uncomment")
    case True
    then show ?thesis using l xy by (auto simp: comment_line_def floor_boundary_def slice_to_def slice_from_def)
  next
    case False
    then obtain rest where "trim_start text = prefix @ rest" using u by (auto simp: starts_with_iff)
    with at have pre: "text = takeWhile is_whitespace text @ prefix @ rest" by simp
    have "slice_from text (indent_end text + blen prefix) = Some rest"
      using slice_from_append [of "takeWhile is_whitespace text @ prefix" rest] pre by (simp add: indent_end_eq)
    moreover have "slice_to text (indent_end text) = Some (takeWhile is_whitespace text)"
      using slice_to_append [of "takeWhile is_whitespace text" "prefix @ rest"] pre by (simp add: indent_end_eq)
    ultimately show ?thesis using False l by (simp add: comment_line_def Let_def)
  qed
qed

lemma toggle_line_comment_ok:
  assumes "holds_text D b" and "history_ok T0 k T D b"
  shows "cmd_ok T0 k T b (toggle_line_comment prefix b)"
proof -
  obtain i j where ij: "line_span b = (i, j)" by (cases "line_span b")
  obtain texts where texts: "map_lines (eb_line b) [i..<j + 1] = Some texts"
    using block_lines_ok [OF assms(1) ij, of "eb_line b"] by blast
  define nb where "nb = filter (\<lambda>l. trim l \<noteq> []) texts"
  define unc where "unc = list_all (\<lambda>l. starts_with prefix (trim_start l)) nb"
  define col where "col = fold min (map indent_end (tl nb)) (indent_end (hd nb))"
  show ?thesis
  proof (cases "nb = []")
    case True
    then show ?thesis using cmd_ok_none [OF assms refl refl refl] ij texts by (simp add: toggle_line_comment_def nb_def)
  next
    case False
    have "\<exists>x. comment_line b prefix unc col n = Some x" if n: "i \<le> n" "n \<le> j" "eb_line b n = Some l" for n l
    proof (rule comment_line_ok [OF n(3)])
      assume "unc" and "trim l \<noteq> []"
      have "n - i < length [i..<j + 1]" "[i..<j + 1] ! (n - i) = n" using n by (auto simp del: upt_Suc)
      from map_lines_nth [OF texts this(1)] this n(3) have "l \<in> set texts" by (metis nth_mem option.inject)
      with \<open>trim l \<noteq> []\<close> have "l \<in> set nb" by (simp add: nb_def)
      with \<open>unc\<close> show "starts_with prefix (trim_start l)" by (simp add: unc_def list_all_iff)
    qed
    then obtain rows where rows: "map_lines (comment_line b prefix unc col) [i..<j + 1] = Some rows" "length rows = Suc j - i"
      using block_lines_ok [OF assms(1) ij, of "comment_line b prefix unc col"] by blast
    have "toggle_line_comment prefix b = rewrite_lines i j (map fst rows)
      (fold (\<lambda>(_, d) acc. case d of Some x \<Rightarrow> x | None \<Rightarrow> acc) rows 0) b"
      using False rows(1) texts
      by (simp add: toggle_line_comment_def ij Let_def nb_def [symmetric] unc_def [symmetric] col_def [symmetric])
    with rewrite_lines_ok [OF assms, of i j "map fst rows"] line_span_ok [OF assms(1) ij] rows(2)
    show ?thesis by simp
  qed
qed

end
