(* ===== verification/Editor_Props.thy ===== *)
theory Editor_Props
  imports Editor_Lines
begin

text \<open>
  The buffer as one system: every command the editor pane sends is an \<open>editor_op\<close>, the contract
  \<open>panic_free_system\<close> is discharged for it, and the properties of the editor rest on that.
\<close>

datatype editor_op =
    Move_Left bool | Move_Right bool | Move_Vertical int bool | Move_Home bool | Move_End bool
  | Move_Doc_Start bool | Move_Doc_End bool | Move_Word_Left bool | Move_Word_Right bool
  | Set_Cursor position bool | Select_All | Select_Word position
  | Insert rstr | Type_Text rstr | Newline_Indent | Backspace bool | Delete_Forward bool | Delete_Selection
  | Indent | Outdent | Toggle_Comment rstr | Break_Group | Undo | Redo

fun edit_step :: "(rchar \<Rightarrow> bool) \<Rightarrow> editor_op \<Rightarrow> ebuf \<Rightarrow> (damage \<times> ebuf) option" where
  "edit_step alnum (Move_Left e) b = map_option (Pair No_Damage) (move_left e b)"
| "edit_step alnum (Move_Right e) b = map_option (Pair No_Damage) (move_right e b)"
| "edit_step alnum (Move_Vertical n e) b = map_option (Pair No_Damage) (move_vertical n e b)"
| "edit_step alnum (Move_Home e) b = map_option (Pair No_Damage) (move_home e b)"
| "edit_step alnum (Move_End e) b = map_option (Pair No_Damage) (move_end e b)"
| "edit_step alnum (Move_Doc_Start e) b = map_option (Pair No_Damage) (move_doc_start e b)"
| "edit_step alnum (Move_Doc_End e) b = map_option (Pair No_Damage) (move_doc_end e b)"
| "edit_step alnum (Move_Word_Left e) b = map_option (Pair No_Damage) (move_word_left alnum e b)"
| "edit_step alnum (Move_Word_Right e) b = map_option (Pair No_Damage) (move_word_right alnum e b)"
| "edit_step alnum (Set_Cursor p e) b = map_option (Pair No_Damage) (eb_set_cursor p e b)"
| "edit_step alnum Select_All b = map_option (Pair No_Damage) (select_all b)"
| "edit_step alnum (Select_Word p) b = map_option (Pair No_Damage) (select_word_at alnum p b)"
| "edit_step alnum (Insert t) b = insert_str t b"
| "edit_step alnum (Type_Text t) b = insert_typed t b"
| "edit_step alnum Newline_Indent b = insert_newline_auto_indent b"
| "edit_step alnum (Backspace w) b = backspace alnum w b"
| "edit_step alnum (Delete_Forward w) b = delete_forward alnum w b"
| "edit_step alnum Delete_Selection b = delete_selection b"
| "edit_step alnum Indent b = indent b"
| "edit_step alnum Outdent b = outdent b"
| "edit_step alnum (Toggle_Comment p) b = toggle_line_comment p b"
| "edit_step alnum Break_Group b = Some (No_Damage, break_undo_group b)"
| "edit_step alnum Undo b = undo b"
| "edit_step alnum Redo b = redo b"

definition editor_step :: "(rchar \<Rightarrow> bool) \<Rightarrow> editor_op \<Rightarrow> ebuf \<Rightarrow> ebuf option" where
  "editor_step alnum op b = map_option snd (edit_step alnum op b)"

definition is_command :: "editor_op \<Rightarrow> bool" where
  "is_command op \<longleftrightarrow> (case op of
     Insert _ \<Rightarrow> True | Type_Text _ \<Rightarrow> True | Newline_Indent \<Rightarrow> True | Backspace _ \<Rightarrow> True | Delete_Forward _ \<Rightarrow> True
   | Delete_Selection \<Rightarrow> True | Indent \<Rightarrow> True | Outdent \<Rightarrow> True | Toggle_Comment _ \<Rightarrow> True | _ \<Rightarrow> False)"

section \<open>The contract\<close>

lemma move_edit_ok:
  assumes "move_ok D b res" and "history_ok T0 k T D b"
  shows "edit_ok T0 k T b (map_option (Pair No_Damage) res)"
proof -
  from assms(1) obtain b' where b': "res = Some b'" "same_doc b b'" "holds_text D b'" by (auto simp: move_ok_def)
  then have "history_ok T0 k T D b'" by (intro history_ok_cong [OF assms(2)]) (auto simp: same_doc_def)
  with b' have "edit_ok T0 k T b (Some (No_Damage, b'))"
    by (intro edit_ok_same) (auto simp: ed_inv_def same_doc_def)
  with b'(1) show ?thesis by simp
qed

lemmas command_ok = insert_str_ok insert_typed_ok insert_newline_auto_indent_ok backspace_ok delete_forward_ok
  delete_selection_ok indent_ok outdent_ok toggle_line_comment_ok

lemmas movement_ok = move_left_ok move_right_ok move_vertical_ok move_home_ok move_end_ok move_doc_start_ok
  move_doc_end_ok move_word_left_ok move_word_right_ok eb_set_cursor_ok select_all_ok select_word_at_ok

lemma edit_step_command:
  assumes "holds_text D b" and "history_ok T0 k T D b" and "is_command op"
  shows "cmd_ok T0 k T b (edit_step alnum op b)"
  using assms by (cases op) (simp_all add: is_command_def command_ok)

lemma edit_step_ok:
  assumes "holds_text D b" and "history_ok T0 k T D b"
  shows "edit_ok T0 k T b (edit_step alnum op b)"
proof (cases "is_command op")
  case True
  then show ?thesis by (intro cmd_ok_edit_ok edit_step_command [OF assms])
next
  case False
  have "history_ok T0 k T D (break_undo_group b)"
    by (rule history_ok_cong [OF assms(2)]) (simp_all add: break_undo_group_def)
  moreover have "holds_text D (break_undo_group b)" using assms(1) by (simp add: break_undo_group_def)
  ultimately have "edit_ok T0 k T b (Some (No_Damage, break_undo_group b))"
    by (intro edit_ok_same) (auto simp: ed_inv_def break_undo_group_def)
  with False show ?thesis
    using undo_ok [OF assms] redo_ok [OF assms] move_edit_ok [OF movement_ok(1) assms(2)]
    by (cases op) (simp_all add: is_command_def move_edit_ok [OF _ assms(2)] movement_ok [OF assms(1)])
qed

lemma editor_step_ok: "ed_inv T0 k T b \<Longrightarrow> \<exists>b'. editor_step alnum op b = Some b' \<and> ed_inv T0 k T b'"
  by (erule ed_invE) (use edit_step_ok in \<open>force simp: editor_step_def edit_ok_def\<close>)

lemma editor_step_keeps: "ed_inv T0 k T b \<Longrightarrow> editor_step alnum op b = Some b' \<Longrightarrow> ed_inv T0 k T b'"
  using editor_step_ok [of T0 k T b alnum op] by auto

interpretation editor: panic_free_system "editor_step alnum" "ed_inv T0 k T" "\<lambda>_. True"
  by unfold_locales (rule editor_step_ok)

lemma run_opt_append: "run_opt f (xs @ ys) s = Option.bind (run_opt f xs s) (run_opt f ys)"
  by (induction xs arbitrary: s) (auto split: option.split)

lemma run_invariant: "ed_inv T0 k T b \<Longrightarrow> run_opt (editor_step alnum) ops b = Some b' \<Longrightarrow> ed_inv T0 k T b'"
  using editor.run_total [of T0 k T b ops alnum] by auto

lemma reachable_inv: "run_opt (editor_step alnum) ops (from_text t) = Some b \<Longrightarrow> ed_inv t 0 t b"
  by (rule run_invariant [OF ed_inv_from_text])

text \<open>The followed text can be chosen anew wherever the group is closed: at the newest group now.\<close>

lemma follow_here:
  assumes "ed_inv T0 k T b" and "\<not> eb_group_open b"
  shows "ed_inv T0 (top_group_id b) (to_text b) b"
proof -
  from assms(1) obtain D where D: "holds_text D b" "history_ok T0 k T D b" "to_text b = D" by (rule ed_invE)
  let ?k = "top_group_id b"
  have ch: "chain group_ok T0 (eb_undo b) D" using D(2) by (simp add: history_ok_def)
  have ids: "distinct (map ug_id (timeline b))" and pos: "\<forall>g \<in> set (timeline b). 0 < ug_id g"
    using D(2) by (auto simp: history_ok_def strict_sorted_iff)
  have k: "?k < eb_next_id b"
    using D(2) by (cases "eb_undo b" rule: rev_cases) (auto simp: history_ok_def top_group_id_def timeline_def)
  have "chain group_ok T0 xs D" if xs: "timeline b = xs @ ys" "newest_is ?k xs" for xs ys
  proof -
    have "xs = eb_undo b"
    proof (cases xs rule: rev_cases)
      case Nil
      with xs(2) have "?k = 0" by (simp add: newest_is_def)
      with pos Nil show ?thesis
        by (cases "eb_undo b" rule: rev_cases) (auto simp: top_group_id_def timeline_def)
    next
      case (snoc zs z)
      have z: "ug_id z = ?k" using xs(2) snoc by (simp add: newest_is_def)
      with pos xs(1) snoc have "?k \<noteq> 0" by auto
      then obtain gs g where g: "eb_undo b = gs @ [g]" "ug_id g = ?k"
        by (cases "eb_undo b" rule: rev_cases) (auto simp: top_group_id_def)
      have "map ug_id zs @ ?k # map ug_id ys = map ug_id gs @ ?k # map ug_id (rev (eb_redo b))"
        using arg_cong [OF xs(1), of "map ug_id"] snoc g z by (simp add: timeline_def)
      moreover have "?k \<notin> set (map ug_id zs)" "?k \<notin> set (map ug_id ys)"
      proof -
        have "distinct (map ug_id (zs @ z # ys))" using ids xs(1) snoc by simp
        then show "?k \<notin> set (map ug_id zs)" "?k \<notin> set (map ug_id ys)" using z by auto
      qed
      ultimately have "map ug_id zs = map ug_id gs" by (simp add: append_Cons_eq_iff)
      then have "length zs = length gs" by (metis length_map)
      moreover have "zs @ z # ys = gs @ g # rev (eb_redo b)" using xs(1) snoc g by (simp add: timeline_def)
      ultimately show ?thesis using snoc g by simp
    qed
    with ch show ?thesis by simp
  qed
  then have "history_ok T0 ?k D D b" using D(2) assms(2) k by (auto simp: history_ok_def)
  with D show ?thesis by (auto simp: ed_inv_def)
qed

lemma break_undo_group_simps [simp]:
  "top_group_id (break_undo_group b) = top_group_id b" "to_text (break_undo_group b) = to_text b"
  "eb_group_open (break_undo_group b) = False"
  by (cases "eb_undo b = []"; simp add: break_undo_group_def top_group_id_def to_text_def)+

lemma newest_text:
  assumes "ed_inv T0 k T b" and "top_group_id b = k"
  shows "to_text b = T"
proof -
  from assms(1) obtain D where D: "holds_text D b" "history_ok T0 k T D b" "to_text b = D" by (rule ed_invE)
  have "newest_is k (eb_undo b)" using assms(2) by (auto simp: newest_is_def top_group_id_def)
  moreover have "timeline b = eb_undo b @ rev (eb_redo b)" by (simp add: timeline_def)
  ultimately have "chain group_ok T0 (eb_undo b) T" using D(2) unfolding history_ok_def by blast
  moreover have "chain group_ok T0 (eb_undo b) D" using D(2) by (simp add: history_ok_def)
  ultimately show ?thesis using D(3) groups_det by blast
qed

text \<open>A buffer to apply the properties to: "x" opened, "a" typed in front of it, the group closed.\<close>

definition example_buffer :: ebuf where
  "example_buffer =
     \<lparr>eb_lines = [[97, 120]], eb_cursor = Position 0 1, eb_anchor = None, eb_sticky = None,
      eb_undo = [\<lparr>ug_id = 1, ug_kind = Typing, ug_records =
          [\<lparr>er_start = Position 0 0, er_old_text = [], er_new_text = [97], er_cursor_before = Position 0 0,
            er_anchor_before = None, er_cursor_after = Position 0 1\<rparr>]\<rparr>],
      eb_redo = [], eb_next_id = 2, eb_group_open = False\<rparr>"

lemma example_run:
  "run_opt (editor_step (\<lambda>_. True)) [Type_Text [97], Break_Group] (from_text [120]) = Some example_buffer"
  by code_simp

section \<open>Properties\<close>

text \<open>C14: the editor never panics. From any opened text, any sequence of commands (movements, typing,
deleting, indenting, commenting, undo and redo, with any arguments) runs to its end, and after it the
lines are those of the text, and cursor and anchor are at character boundaries of lines that exist.\<close>

theorem editor_never_panics:
  "\<exists>b. run_opt (editor_step alnum) ops (from_text t) = Some b
    \<and> eb_lines b = lines_of (to_text b) \<and> valid_pos (to_text b) (eb_cursor b)
    \<and> pred_option (valid_pos (to_text b)) (eb_anchor b)"
proof -
  from editor.run_total [OF ed_inv_from_text, of ops alnum t] obtain b where
    b: "run_opt (editor_step alnum) ops (from_text t) = Some b" "ed_inv t 0 t b" by auto
  from b(2) obtain D where "holds_text D b" "to_text b = D" by (rule ed_invE)
  with b(1) show ?thesis by (auto simp: holds_text_def option.pred_set)
qed

text \<open>C15: the dirty flag of the editor pane is right. The pane closes the undo group when it saves and
remembers the id of the newest group; after any further commands, undo and redo included, an equal id
means the text is the saved one.\<close>

theorem equal_group_id_means_saved_text:
  assumes "run_opt (editor_step alnum) ops1 (from_text t) = Some saved"
    and "run_opt (editor_step alnum) ops2 (break_undo_group saved) = Some b"
    and "top_group_id b = top_group_id saved"
  shows "to_text b = to_text saved"
proof -
  have "ed_inv t 0 t saved" by (rule reachable_inv [OF assms(1)])
  then obtain s where s: "editor_step alnum Break_Group saved = Some s" "ed_inv t 0 t s"
    using editor_step_ok by blast
  then have "ed_inv t 0 t (break_undo_group saved)" by (simp add: editor_step_def)
  then have "ed_inv t (top_group_id saved) (to_text saved) (break_undo_group saved)"
    using follow_here [of t 0 t "break_undo_group saved"] by simp
  from run_invariant [OF this assms(2)] assms(3) show ?thesis by (intro newest_text)
qed

theorem equal_group_id_means_saved_text_witness:
  "\<exists>b. run_opt (editor_step (\<lambda>_. True)) [Type_Text [98], Undo, Redo, Undo] (break_undo_group example_buffer) = Some b
    \<and> to_text b = to_text example_buffer"
proof -
  let ?r = "run_opt (editor_step (\<lambda>_. True)) [Type_Text [98], Undo, Redo, Undo] (break_undo_group example_buffer)"
  have "map_option top_group_id ?r = Some (top_group_id example_buffer)" by code_simp
  then obtain b where b: "?r = Some b" "top_group_id b = top_group_id example_buffer" by auto
  from b(1) equal_group_id_means_saved_text [OF example_run b] show ?thesis by blast
qed

lemma undo_all_run:
  assumes "ed_inv T0 k T b"
  shows "\<exists>b0. run_opt (editor_step alnum) (replicate (length (eb_undo b)) Undo) b = Some b0 \<and> ed_inv T0 k T b0
    \<and> to_text b0 = T0 \<and> eb_undo b0 = [] \<and> timeline b0 = timeline b"
  using assms
proof (induction "length (eb_undo b)" arbitrary: b)
  case 0
  from 0(2) obtain D where D: "holds_text D b" "history_ok T0 k T D b" "to_text b = D" by (rule ed_invE)
  with 0 show ?case by (auto simp: history_ok_def)
next
  case (Suc n)
  from Suc(3) obtain D where D: "holds_text D b" "history_ok T0 k T D b" "to_text b = D" by (rule ed_invE)
  obtain gs g where gs: "eb_undo b = gs @ [g]" using Suc(2) by (cases "eb_undo b" rule: rev_cases) auto
  with D(2) obtain C where C: "group_ok C g D" by (auto simp: history_ok_def)
  obtain b1 where b1: "editor_step alnum Undo b = Some b1" "ed_inv T0 k T b1"
    using editor_step_ok [OF Suc(3)] by blast
  with undo_group [OF D(1) gs C] have "eb_undo b1 = gs" "timeline b1 = timeline b"
    by (auto simp: editor_step_def timeline_def gs)
  with Suc(1) [of b1] b1 Suc(2) gs show ?case by auto
qed

lemma redo_all_run:
  assumes "ed_inv T0 k T b" and "n \<le> length (eb_redo b)"
  shows "\<exists>b1. run_opt (editor_step alnum) (replicate n Redo) b = Some b1 \<and> ed_inv T0 k T b1
    \<and> eb_undo b1 = take (length (eb_undo b) + n) (timeline b) \<and> timeline b1 = timeline b"
  using assms
proof (induction n arbitrary: b)
  case 0
  then show ?case by (simp add: timeline_def)
next
  case (Suc n)
  from Suc(2) obtain D where D: "holds_text D b" "history_ok T0 k T D b" "to_text b = D" by (rule ed_invE)
  obtain gs g where gs: "eb_redo b = gs @ [g]" using Suc(3) by (cases "eb_redo b" rule: rev_cases) auto
  with D(2) obtain E where E: "group_ok D g E" by (auto simp: history_ok_def)
  obtain b1 where b1: "editor_step alnum Redo b = Some b1" "ed_inv T0 k T b1"
    using editor_step_ok [OF Suc(2)] by blast
  with redo_group [OF D(1) gs E] have u: "eb_undo b1 = eb_undo b @ [g]" "eb_redo b1 = gs"
    by (auto simp: editor_step_def)
  with Suc(1) [OF b1(2)] Suc(3) b1 gs show ?case by (auto simp: timeline_def)
qed

text \<open>undo is complete. After any commands, undoing as often as there are groups gives back the
text that was opened, and redoing as often the present one, with the same history.\<close>

theorem undo_all_then_redo_all:
  assumes "run_opt (editor_step alnum) ops (from_text t) = Some b"
  shows "\<exists>b0 b1. run_opt (editor_step alnum) (replicate (length (eb_undo b)) Undo) b = Some b0
    \<and> to_text b0 = t \<and> eb_undo b0 = []
    \<and> run_opt (editor_step alnum) (replicate (length (eb_undo b)) Redo) b0 = Some b1
    \<and> to_text b1 = to_text b \<and> eb_undo b1 = eb_undo b \<and> eb_redo b1 = eb_redo b"
proof -
  from reachable_inv [OF assms] have inv: "ed_inv t 0 t b" .
  from undo_all_run [OF inv] obtain b0 where
    b0: "run_opt (editor_step alnum) (replicate (length (eb_undo b)) Undo) b = Some b0" "ed_inv t 0 t b0"
      "to_text b0 = t" "eb_undo b0 = []" "timeline b0 = timeline b" by blast
  have "length (eb_undo b) \<le> length (eb_redo b0)" using arg_cong [OF b0(5), of length] b0(4) by (simp add: timeline_def)
  from redo_all_run [OF b0(2) this, of alnum] obtain b1 where
    b1: "run_opt (editor_step alnum) (replicate (length (eb_undo b)) Redo) b0 = Some b1" "ed_inv t 0 t b1"
      "eb_undo b1 = eb_undo b" "timeline b1 = timeline b" by (auto simp: b0(4,5)) (simp add: timeline_def)
  have "to_text b1 = to_text b"
    using inv b1(2,3) by (elim ed_invE) (auto simp: history_ok_def dest: groups_det)
  then show ?thesis using b0 b1 by (auto simp: timeline_def)
qed

theorem undo_all_then_redo_all_witness:
  "\<exists>b0 b1. run_opt (editor_step (\<lambda>_. True)) (replicate (length (eb_undo example_buffer)) Undo) example_buffer = Some b0
    \<and> to_text b0 = [120] \<and> eb_undo b0 = []
    \<and> run_opt (editor_step (\<lambda>_. True)) (replicate (length (eb_undo example_buffer)) Redo) b0 = Some b1
    \<and> to_text b1 = to_text example_buffer \<and> eb_undo b1 = eb_undo example_buffer \<and> eb_redo b1 = eb_redo example_buffer"
  by (rule undo_all_then_redo_all [OF example_run])

text \<open>C16: every command is one undo step. From a closed group, a command that changes the text is
reverted by one undo, in text, cursor and selection anchor, and one redo after it gives the changed text
again.\<close>

theorem command_is_one_undo_step:
  assumes "run_opt (editor_step alnum) ops (from_text t) = Some b" and "\<not> eb_group_open b"
    and "is_command op" and "editor_step alnum op b = Some b'" and "to_text b' \<noteq> to_text b"
  shows "\<exists>b0 b1. editor_step alnum Undo b' = Some b0 \<and> to_text b0 = to_text b \<and> eb_cursor b0 = eb_cursor b
    \<and> eb_anchor b0 = eb_anchor b \<and> eb_undo b0 = eb_undo b
    \<and> editor_step alnum Redo b0 = Some b1 \<and> to_text b1 = to_text b' \<and> eb_undo b1 = eb_undo b'"
proof -
  from reachable_inv [OF assms(1)] have inv: "ed_inv t 0 t b" .
  then obtain D where D: "holds_text D b" "history_ok t 0 t D b" "to_text b = D" by (rule ed_invE)
  have "cmd_ok t 0 t b (edit_step alnum op b)" by (rule edit_step_command [OF D(1,2) assms(3)])
  with assms(4) have inv': "ed_inv t 0 t b'" and step: "one_step b b'"
    by (auto simp: cmd_ok_def editor_step_def)
  from inv' obtain D' where D': "holds_text D' b'" "history_ok t 0 t D' b'" "to_text b' = D'" by (rule ed_invE)
  have "eb_lines b' \<noteq> eb_lines b" using assms(5) by (auto simp: to_text_def)
  with step assms(2) obtain g r where g: "eb_undo b' = eb_undo b @ [g]" "eb_redo b' = []" "ug_records g = [r]"
    "er_cursor_before r = eb_cursor b" "er_anchor_before r = eb_anchor b" by (auto simp: one_step_def)
  from D'(2) g(1) obtain C where C: "chain group_ok t (eb_undo b) C" "group_ok C g D'" by (auto simp: history_ok_def)
  have "C = D" using D(2) C(1) groups_det by (auto simp: history_ok_def)
  with C have gD: "group_ok D g D'" by simp
  from undo_group [OF D'(1) g(1) gD] obtain b0 where b0: "editor_step alnum Undo b' = Some b0"
    "eb_lines b0 = lines_of D" "eb_cursor b0 = eb_cursor b" "eb_anchor b0 = eb_anchor b" "eb_undo b0 = eb_undo b"
    "eb_redo b0 = [] @ [g]"
    by (auto simp: editor_step_def g)
  have "holds_text D b0" using b0 D(1) by (simp add: holds_text_def)
  from redo_group [OF this b0(6) gD] obtain b1 where
    "editor_step alnum Redo b0 = Some b1" "eb_lines b1 = lines_of D'" "eb_undo b1 = eb_undo b'"
    by (auto simp: editor_step_def b0(5) g(1))
  then show ?thesis using b0 D(3) D'(3) by (auto simp: to_text_def)
qed

theorem command_is_one_undo_step_witness:
  "\<exists>b' b0. editor_step (\<lambda>_. True) (Backspace False) example_buffer = Some b' \<and> to_text b' = [120]
    \<and> editor_step (\<lambda>_. True) Undo b' = Some b0 \<and> to_text b0 = to_text example_buffer"
proof -
  let ?r = "editor_step (\<lambda>_. True) (Backspace False) example_buffer"
  have "map_option to_text ?r = Some [120]" by code_simp
  then obtain b' where b': "?r = Some b'" "to_text b' = [120]" by auto
  have "\<not> eb_group_open example_buffer" "to_text example_buffer = [97, 120]" by code_simp+
  with command_is_one_undo_step [OF example_run _ _ b'(1)] b' show ?thesis by (auto simp: is_command_def)
qed

text \<open>the repaint hint is sound: after any operation every line that changed is covered by it.
No hint means no change, a line hint that the other lines and their number are the same, and a hint from
a line on that the lines above are.\<close>

theorem repaint_hint_covers:
  assumes "run_opt (editor_step alnum) ops (from_text t) = Some b" and "edit_step alnum op b = Some (d, b')"
  shows "damage_covers d (eb_lines b) (eb_lines b')"
proof -
  from reachable_inv [OF assms(1)] obtain D where "holds_text D b" "history_ok t 0 t D b" by (rule ed_invE)
  from edit_step_ok [OF this, of alnum op] assms(2) show ?thesis by (auto simp: edit_ok_def)
qed

theorem repaint_hint_covers_witness:
  "\<exists>b'. edit_step (\<lambda>_. True) (Insert [98, 10]) example_buffer = Some (From 0, b')
    \<and> damage_covers (From 0) (eb_lines example_buffer) (eb_lines b')"
proof -
  let ?r = "edit_step (\<lambda>_. True) (Insert [98, 10]) example_buffer"
  have "map_option fst ?r = Some (From 0)" by code_simp
  then obtain b' where "?r = Some (From 0, b')" by auto
  with repaint_hint_covers [OF example_run this] show ?thesis by blast
qed

lemma normalize_no_cr: "13 \<notin> set (normalize s)"
  by (simp add: normalize_def image_iff)

lemma replace_crlf_Nil [simp]: "replace_crlf s = [] \<longleftrightarrow> s = []"
  by (cases s rule: replace_crlf.cases) auto

lemma normalize_Nil [simp]: "normalize s = [] \<longleftrightarrow> s = []"
  by (simp add: normalize_def)

text \<open>pasting or typing replaces exactly the selection, or inserts at the cursor: with the text cut
there, the new text is the part before, the inserted text with its line ends normalised, and the part
after; the cursor is behind the insertion and nothing is selected.\<close>

theorem insertion_replaces_selection:
  assumes "run_opt (editor_step alnum) ops (from_text t) = Some b" and "to_text b = p @ m @ q"
    and "selection b = Some (pos_of p, pos_of (p @ m)) \<or> selection b = None \<and> m = [] \<and> eb_cursor b = pos_of p"
    and "kind \<noteq> Deleting" and "ins \<noteq> []"
  shows "\<exists>d b'. insert_with_kind ins kind b = Some (d, b') \<and> to_text b' = p @ normalize ins @ q
    \<and> 13 \<notin> set (normalize ins) \<and> eb_cursor b' = pos_of (p @ normalize ins) \<and> selection b' = None"
proof -
  from reachable_inv [OF assms(1)] obtain D where D: "holds_text D b" "history_ok t 0 t D b" "to_text b = D" by (rule ed_invE)
  have "insert_with_kind ins kind b = record_replace (pos_of p) (pos_of (p @ m)) (normalize ins) kind (b\<lparr>eb_sticky := None\<rparr>)"
    using assms(3) by (auto simp: insert_with_kind_def Let_def)
  moreover from record_replace_mid [of p m q "b\<lparr>eb_sticky := None\<rparr>" t 0 t kind "normalize ins"] D assms(2,4,5)
  obtain d b' where "record_replace (pos_of p) (pos_of (p @ m)) (normalize ins) kind (b\<lparr>eb_sticky := None\<rparr>) = Some (d, b')"
    "holds_text (p @ normalize ins @ q) b'" "eb_cursor b' = pos_of (p @ normalize ins)" "eb_anchor b' = None"
    by auto
  ultimately show ?thesis using holds_text_to_text normalize_no_cr by (auto simp: selection_def)
qed

theorem insertion_replaces_selection_witness:
  "\<exists>d b'. insert_with_kind [98, 13, 10, 99] Other example_buffer = Some (d, b')
    \<and> to_text b' = [97] @ normalize [98, 13, 10, 99] @ [120] \<and> normalize [98, 13, 10, 99] = [98, 10, 99]"
proof -
  have "to_text example_buffer = [97] @ [] @ [120]" "selection example_buffer = None" "eb_cursor example_buffer = pos_of [97]"
    "normalize [98, 13, 10, 99] = [98, 10, 99]" by code_simp+
  with insertion_replaces_selection [OF example_run, of "[97]" "[]" "[120]" Other "[98, 13, 10, 99]"] show ?thesis
    by auto
qed

end
