(* ===== verification/Editor_Block_Props.thy ===== *)
theory Editor_Block_Props
  imports Editor_Props
begin

text \<open>
  Properties of single features of the editor: runs of typing, word selection, visual columns, and the
  line-wise commands as inverses of each other.
\<close>

section \<open>Runs of typing\<close>

text \<open>The state after a run of typing: one open group with one record that ends at the cursor.\<close>

definition typed_since :: "ebuf \<Rightarrow> ebuf \<Rightarrow> bool" where
  "typed_since b b' \<longleftrightarrow> (\<exists>g r. eb_undo b' = eb_undo b @ [g] \<and> ug_kind g = Typing \<and> ug_records g = [r]
     \<and> er_cursor_before r = eb_cursor b \<and> er_anchor_before r = eb_anchor b
     \<and> eb_group_open b' \<and> eb_anchor b' = None \<and> er_new_text r \<noteq> []
     \<and> eb_cursor b' = end_of_text (er_start r) (er_new_text r))"

lemma insert_typed_record:
  assumes "holds_text D b" and "selection b = None" and "s \<noteq> []"
  obtains d b1 r where "insert_typed s b = Some (d, push_record Typing r b1)"
    and "er_start r = eb_cursor b" and "er_old_text r = []" and "er_new_text r = normalize s"
    and "er_cursor_before r = eb_cursor b" and "er_anchor_before r = eb_anchor b"
    and "eb_cursor b1 = end_of_text (eb_cursor b) (normalize s)" and "eb_anchor b1 = None"
    and "eb_undo b1 = eb_undo b" and "eb_group_open b1 = eb_group_open b"
proof -
  obtain p q where pq: "D = p @ q" "eb_cursor b = pos_of p"
    using assms(1) by (auto simp: holds_text_def valid_pos_def)
  let ?b = "b\<lparr>eb_sticky := None\<rparr>"
  have "eb_lines ?b = lines_of (p @ [] @ q)" using assms(1) pq by (simp add: holds_text_def)
  note tr = text_range_mid [OF this] raw_replace_text [OF this, of "normalize s"]
  obtain d b1 where rr: "raw_replace (pos_of p) (pos_of p) (normalize s) ?b = Some (d, b1)"
    "b1 = ?b\<lparr>eb_lines := lines_of (p @ normalize s @ q), eb_cursor := pos_of (p @ normalize s), eb_anchor := None\<rparr>"
    using tr(2) by auto
  show thesis
    by (rule that [of d "\<lparr>er_start = eb_cursor b, er_old_text = [], er_new_text = normalize s,
          er_cursor_before = eb_cursor b, er_anchor_before = eb_anchor b,
          er_cursor_after = end_of_text (eb_cursor b) (normalize s)\<rparr>" b1]) (use tr(1) assms(2,3) pq(2) rr in
        \<open>simp_all add: insert_typed_def insert_with_kind_def record_replace_def Let_def\<close>)
qed

lemma push_typing_new:
  "\<not> eb_group_open b \<Longrightarrow> \<exists>i. eb_undo (push_record Typing r b) = eb_undo b @ [\<lparr>ug_id = i, ug_kind = Typing, ug_records = [r]\<rparr>]
    \<and> eb_group_open (push_record Typing r b)"
  by (simp add: push_record_def absorb_into_top_def)

lemma push_typing_absorbed:
  assumes "eb_group_open b" and "eb_undo b = us @ [g]" and "ug_kind g = Typing" and "ug_records g = [l]"
    and "er_old_text r = []" and "er_start r = end_of_text (er_start l) (er_new_text l)"
  shows "eb_undo (push_record Typing r b) = us @ [g\<lparr>ug_records :=
      [l\<lparr>er_new_text := er_new_text l @ er_new_text r, er_cursor_after := er_cursor_after r\<rparr>]\<rparr>]
    \<and> eb_group_open (push_record Typing r b)"
  using assms by (simp add: push_record_def absorb_into_top_def absorb_def Let_def)

lemma end_of_text_eq: "end_of_text p s = Position (p_line p + count_list s 10)
    (if 10 \<in> set s then blen (last (lines_of s)) else p_col p + blen s)"
proof (cases "rsplit_once 10 s")
  case None
  then have "10 \<notin> set s" by (simp add: rsplit_once_None_iff)
  with None show ?thesis by (simp add: end_of_text_def)
next
  case (Some hl)
  then obtain h l where hl: "hl = (h, l)" "s = h @ 10 # l" "10 \<notin> set l"
    by (cases hl) (auto simp: rsplit_once_eq_Some)
  then have "last (lines_of s) = l" by (simp add: split_char_sep split_char_id)
  with Some hl show ?thesis by (simp add: end_of_text_def)
qed

lemma end_of_text_append: "end_of_text (end_of_text p s) t = end_of_text p (s @ t)"
  by (simp add: end_of_text_eq last_lines_append split_char_id)

lemma typed_start:
  assumes "holds_text D b" and "selection b = None" and "\<not> eb_group_open b" and "s \<noteq> []"
  shows "\<exists>d b'. insert_typed s b = Some (d, b') \<and> typed_since b b'"
proof -
  obtain d b1 r where r: "insert_typed s b = Some (d, push_record Typing r b1)" "er_start r = eb_cursor b"
    "er_old_text r = []" "er_new_text r = normalize s" "er_cursor_before r = eb_cursor b" "er_anchor_before r = eb_anchor b"
    "eb_cursor b1 = end_of_text (eb_cursor b) (normalize s)" "eb_anchor b1 = None" "eb_undo b1 = eb_undo b"
    "eb_group_open b1 = eb_group_open b"
    by (rule insert_typed_record [OF assms(1,2,4)])
  obtain i where i: "eb_undo (push_record Typing r b1) = eb_undo b @ [\<lparr>ug_id = i, ug_kind = Typing, ug_records = [r]\<rparr>]"
    "eb_group_open (push_record Typing r b1)"
    using push_typing_new [of b1 r] assms(3) r(9,10) by auto
  have "typed_since b (push_record Typing r b1)"
    unfolding typed_since_def by (intro exI [of _ "\<lparr>ug_id = i, ug_kind = Typing, ug_records = [r]\<rparr>"] exI [of _ r]) (use r i assms(4) in simp)
  with r(1) show ?thesis by blast
qed

lemma typed_continue:
  assumes "holds_text D b'" and "typed_since b b'" and "s \<noteq> []"
  shows "\<exists>d b''. insert_typed s b' = Some (d, b'') \<and> typed_since b b''"
proof -
  from assms(2) obtain g l where g: "eb_undo b' = eb_undo b @ [g]" "ug_kind g = Typing" "ug_records g = [l]"
    "er_cursor_before l = eb_cursor b" "er_anchor_before l = eb_anchor b" "eb_group_open b'" "eb_anchor b' = None"
    "eb_cursor b' = end_of_text (er_start l) (er_new_text l)" "er_new_text l \<noteq> []" by (auto simp: typed_since_def)
  have sel: "selection b' = None" by (simp add: selection_def g(7))
  obtain d b1 r where r: "insert_typed s b' = Some (d, push_record Typing r b1)" "er_start r = eb_cursor b'"
    "er_old_text r = []" "er_new_text r = normalize s"
    "eb_cursor b1 = end_of_text (eb_cursor b') (normalize s)" "eb_anchor b1 = None" "eb_undo b1 = eb_undo b'"
    "eb_group_open b1 = eb_group_open b'"
    by (rule insert_typed_record [OF assms(1) sel assms(3)])
  define l' where "l' = l\<lparr>er_new_text := er_new_text l @ er_new_text r, er_cursor_after := er_cursor_after r\<rparr>"
  have "eb_undo (push_record Typing r b1) = eb_undo b @ [g\<lparr>ug_records := [l']\<rparr>] \<and> eb_group_open (push_record Typing r b1)"
    unfolding l'_def by (rule push_typing_absorbed) (use g r in simp_all)
  then have "typed_since b (push_record Typing r b1)"
    unfolding typed_since_def
    by (intro exI [of _ "g\<lparr>ug_records := [l']\<rparr>"] exI [of _ l']) (use r g in \<open>simp add: l'_def end_of_text_append\<close>)
  with r(1) show ?thesis by blast
qed

lemma typed_run:
  assumes "ed_inv T0 k T b'" and "typed_since b b'" and "[] \<notin> set ts"
  shows "\<exists>b''. run_opt (editor_step alnum) (map Type_Text ts) b' = Some b'' \<and> typed_since b b''"
  using assms
proof (induction ts arbitrary: b')
  case (Cons s ts)
  from Cons.prems(1) obtain D where D: "holds_text D b'" by (rule ed_invE)
  from typed_continue [OF this Cons.prems(2), of s] Cons.prems(3) obtain b1 where
    b1: "editor_step alnum (Type_Text s) b' = Some b1" "typed_since b b1" by (auto simp: editor_step_def)
  moreover have "ed_inv T0 k T b1" by (rule editor_step_keeps [OF Cons.prems(1) b1(1)])
  ultimately show ?case using Cons.IH [of b1] Cons.prems(3) by auto
qed simp

text \<open>The group of the run takes the text back to where the run began.\<close>

lemma typed_since_undo:
  assumes "ed_inv T0 k T b" and "ed_inv T0 k T b'" and "typed_since b b'"
  shows "\<exists>b0. editor_step alnum Undo b' = Some b0 \<and> to_text b0 = to_text b \<and> eb_cursor b0 = eb_cursor b
    \<and> eb_anchor b0 = eb_anchor b \<and> eb_undo b0 = eb_undo b"
proof -
  from assms(3) obtain g l where g: "eb_undo b' = eb_undo b @ [g]" "ug_records g = [l]"
    "er_cursor_before l = eb_cursor b" "er_anchor_before l = eb_anchor b" by (auto simp: typed_since_def)
  from assms(1) obtain D where D: "holds_text D b" "history_ok T0 k T D b" "to_text b = D" by (rule ed_invE)
  from assms(2) obtain D' where D': "holds_text D' b'" "history_ok T0 k T D' b'" by (rule ed_invE)
  from D'(2) g(1) obtain C where C: "chain group_ok T0 (eb_undo b) C" "group_ok C g D'" by (auto simp: history_ok_def)
  have "C = D" using D(2) C(1) groups_det by (auto simp: history_ok_def)
  with undo_group [OF D'(1) g(1), of C] C(2) g D(3) show ?thesis by (auto simp: editor_step_def to_text_def)
qed

section \<open>Properties\<close>

text \<open>a run of typing is one undo step. From a closed group with no selection, any sequence of
non-empty pieces typed one after the other pushes a single group, and one undo takes the whole run back,
with the cursor and the anchor where they were.\<close>

theorem typing_run_is_one_undo_step:
  assumes "run_opt (editor_step alnum) ops (from_text t) = Some b" and "\<not> eb_group_open b"
    and "selection b = None" and "ts \<noteq> []" and "[] \<notin> set ts"
  shows "\<exists>b' b0. run_opt (editor_step alnum) (map Type_Text ts) b = Some b'
    \<and> length (eb_undo b') = Suc (length (eb_undo b))
    \<and> editor_step alnum Undo b' = Some b0 \<and> to_text b0 = to_text b \<and> eb_cursor b0 = eb_cursor b
    \<and> eb_anchor b0 = eb_anchor b \<and> eb_undo b0 = eb_undo b"
proof -
  from reachable_inv [OF assms(1)] have inv: "ed_inv t 0 t b" .
  then obtain D where D: "holds_text D b" by (rule ed_invE)
  obtain s ss where ts: "ts = s # ss" using assms(4) by (cases ts) auto
  from typed_start [OF D assms(3,2), of s] assms(5) ts obtain b1 where
    b1: "editor_step alnum (Type_Text s) b = Some b1" "typed_since b b1" by (auto simp: editor_step_def)
  have "ed_inv t 0 t b1" by (rule editor_step_keeps [OF inv b1(1)])
  from typed_run [OF this b1(2)] assms(5) ts obtain b' where
    "run_opt (editor_step alnum) (map Type_Text ss) b1 = Some b'" "typed_since b b'" by auto
  then have b': "run_opt (editor_step alnum) (map Type_Text ts) b = Some b'" "typed_since b b'"
    using b1(1) ts by auto
  from typed_since_undo [OF inv run_invariant [OF inv b'(1)] b'(2)] b' show ?thesis
    by (auto simp: typed_since_def)
qed

theorem typing_run_is_one_undo_step_witness:
  "\<exists>b' b0. run_opt (editor_step (\<lambda>_. True)) (map Type_Text [[98], [99, 10], [100]]) example_buffer = Some b'
    \<and> length (eb_undo b') = Suc (length (eb_undo example_buffer))
    \<and> editor_step (\<lambda>_. True) Undo b' = Some b0 \<and> to_text b0 = to_text example_buffer"
proof -
  have "\<not> eb_group_open example_buffer" "selection example_buffer = None" by code_simp+
  from typing_run_is_one_undo_step [OF example_run this, of "[[98], [99, 10], [100]]"] show ?thesis by auto
qed

text \<open>a cursor movement does not always end an undo step. Collapsing a selection with the arrow keys
leaves the open group open, so text typed before selecting all and after pressing right is one step, and
one undo removes both pieces; the movement without a selection closes the group.\<close>

theorem collapsing_selection_keeps_group_open:
  assumes "run_opt (editor_step alnum) [Type_Text u, Select_All, Move_Right False, Type_Text v] (from_text []) = Some b"
    and "u \<noteq> []" and "v \<noteq> []"
  shows "length (eb_undo b) = 1 \<and> (\<exists>b0. editor_step alnum Undo b = Some b0 \<and> to_text b0 = [])"
proof -
  have h: "holds_text [] (from_text [])" by (simp add: holds_text_def from_text_def)
  have "selection (from_text []) = None" "\<not> eb_group_open (from_text [])" by (simp_all add: from_text_def selection_def)
  from typed_start [OF h this assms(2)] obtain d b1 where
    b1: "insert_typed u (from_text []) = Some (d, b1)" "typed_since (from_text []) b1" by blast
  then have e1: "editor_step alnum (Type_Text u) (from_text []) = Some b1" by (simp add: editor_step_def)
  have inv1: "ed_inv [] 0 [] b1" by (rule editor_step_keeps [OF ed_inv_from_text e1])
  from inv1 obtain D where D: "holds_text D b1" "history_ok [] 0 [] D b1" by (rule ed_invE)
  from b1(2) obtain g l where g: "eb_undo b1 = [g]" "ug_records g = [l]" "er_new_text l \<noteq> []"
    "eb_cursor b1 = end_of_text (er_start l) (er_new_text l)" by (auto simp: typed_since_def from_text_def)
  have "rec_ok [] l D" using D(2) g(1,2) by (auto simp: history_ok_def group_ok_def)
  then have l: "D = er_new_text l" "er_start l = pos_of []" by (auto simp: rec_ok_def rec_step_def)
  then have cur: "eb_cursor b1 = pos_of D" "D \<noteq> []" using g by (simp_all add: end_of_text_default)
  have de: "doc_end b1 = Some (pos_of D)"
    using D(1) eb_line_text [OF D(1), of "length (lines_of D) - 1"]
    by (simp add: doc_end_def holds_text_def Let_def pos_of_def last_conv_nth)
  define b3 where "b3 = b1\<lparr>eb_sticky := None, eb_cursor := pos_of D, eb_anchor := None\<rparr>"
  have lt: "position_default < pos_of D" using pos_of_mono [of D "[]"] cur(2) by simp
  then have "position_default \<noteq> pos_of D" by (rule less_imp_neq)
  with lt have "editor_step alnum Select_All b1 = Some (b1\<lparr>eb_sticky := None, eb_anchor := Some position_default, eb_cursor := pos_of D\<rparr>)"
    "editor_step alnum (Move_Right False) (b1\<lparr>eb_sticky := None, eb_anchor := Some position_default, eb_cursor := pos_of D\<rparr>) = Some b3"
    by (simp_all add: editor_step_def select_all_def de move_right_def selection_def b3_def Let_def)
  note run = this
  have t3: "typed_since (from_text []) b3" "holds_text D b3"
    using b1(2) D(1) cur(1) by (auto simp: typed_since_def b3_def holds_text_def)
  from typed_continue [OF t3(2,1) assms(3)] obtain b' where
    b': "editor_step alnum (Type_Text v) b3 = Some b'" "typed_since (from_text []) b'" by (auto simp: editor_step_def)
  have eq: "b' = b" using assms(1) e1 run b'(1) by simp
  have "ed_inv [] 0 [] b" by (rule reachable_inv [OF assms(1)])
  from typed_since_undo [OF ed_inv_from_text this] b'(2) eq show ?thesis
    by (auto simp: typed_since_def from_text_def to_text_def)
qed

theorem collapsing_selection_keeps_group_open_witness:
  "\<exists>b. run_opt (editor_step (\<lambda>_. True)) [Type_Text [97], Select_All, Move_Right False, Type_Text [98]] (from_text []) = Some b
    \<and> to_text b = [97, 98] \<and> length (eb_undo b) = 1"
proof -
  let ?r = "run_opt (editor_step (\<lambda>_. True)) [Type_Text [97], Select_All, Move_Right False, Type_Text [98]] (from_text [])"
  have "map_option to_text ?r = Some [97, 98]" by code_simp
  then obtain b where "?r = Some b" "to_text b = [97, 98]" by auto
  with collapsing_selection_keeps_group_open [OF this(1)] show ?thesis by auto
qed

text \<open>moving down and up again comes back: over any number of lines, through shorter lines and
lines with tabs or wide characters, the cursor returns to the very position it left, because the visual
column is remembered and the column of a boundary is recovered from its visual column.\<close>

theorem vertical_moves_round_trip:
  assumes "run_opt (editor_step alnum) ops (from_text t) = Some b" and "ext \<or> selection b = None"
    and "eb_sticky b = None" and "0 < n" and "p_line (eb_cursor b) + n < length (eb_lines b)"
  shows "\<exists>b1 b2. move_vertical (int n) ext b = Some b1 \<and> p_line (eb_cursor b1) = p_line (eb_cursor b) + n
    \<and> move_vertical (- int n) ext b1 = Some b2 \<and> eb_cursor b2 = eb_cursor b"
proof -
  from reachable_inv [OF assms(1)] obtain D where D: "holds_text D b" by (rule ed_invE)
  have ls: "eb_lines b = lines_of D" using D by (simp add: holds_text_def)
  obtain a r where l: "eb_line b (p_line (eb_cursor b)) = Some (a @ r)" "p_col (eb_cursor b) = blen a"
    by (rule cursor_lineE [OF D])
  define i where "i = p_line (eb_cursor b)"
  have cur: "eb_cursor b = Position i (blen a)" using l(2) by (cases "eb_cursor b") (simp add: i_def)
  obtain v where v: "visual_col b (Position i (blen a)) = Some v" "col_for_visual b i v = Some (blen a)"
    using visual_round_trip [of b i a r] l(1) i_def by auto
  have t: "i + n < length (lines_of D)" using assms(5) ls i_def by simp
  obtain c where c: "col_for_visual b (i + n) v = Some c" using col_for_visual_ok [OF eb_line_text [OF D t]] by blast
  have vc: "visual_col (begin_move ext b) = visual_col b" by (simp add: visual_col_def fun_eq_iff)
  have cv: "col_for_visual (b'\<lparr>eb_sticky := s\<rparr>) = col_for_visual b'" "col_for_visual (b'\<lparr>eb_cursor := p\<rparr>) = col_for_visual b'"
    "col_for_visual (begin_move ext b') = col_for_visual b'" for b' s p
    by (simp_all add: col_for_visual_def fun_eq_iff)
  define b1 where "b1 = (begin_move ext b)\<lparr>eb_sticky := Some v, eb_cursor := Position (i + n) c\<rparr>"
  have m: "min (i + n) (length (lines_of D) - Suc 0) = i + n" "min i (length (lines_of D) - Suc 0) = i" using t by auto
  have s0: "(if ext then None else selection b) = None" using assms(2) by auto
  have s1: "(if ext then None else selection b1) = None"
    by (cases ext) (simp_all add: b1_def selection_def begin_move_def Let_def)
  have r1: "move_vertical (int n) ext b = Some b1"
    unfolding move_vertical_def s0
    using assms(3,4) v(1) c m by (simp add: Let_def cur vc cv ls b1_def nat_add_distrib)
  have "eb_lines b1 = lines_of D" "eb_sticky b1 = Some v" "eb_cursor b1 = Position (i + n) c"
    "col_for_visual b1 = col_for_visual b" by (simp_all add: b1_def ls cv)
  then have "\<exists>b2. move_vertical (- int n) ext b1 = Some b2 \<and> eb_cursor b2 = eb_cursor b"
    unfolding move_vertical_def s1
    using assms(4) v(2) m by (simp add: Let_def cur cv)
  with r1 show ?thesis by (simp add: b1_def cur)
qed

theorem vertical_moves_round_trip_witness:
  "\<exists>b b1 b2. run_opt (editor_step (\<lambda>_. True)) [Move_End False] (from_text [9, 97, 98, 10, 99]) = Some b
    \<and> move_vertical 1 False b = Some b1 \<and> move_vertical (- 1) False b1 = Some b2 \<and> eb_cursor b2 = Position 0 3"
proof -
  let ?r = "run_opt (editor_step (\<lambda>_. True)) [Move_End False] (from_text [9, 97, 98, 10, 99])"
  have "map_option (\<lambda>b. (selection b, eb_sticky b, eb_cursor b, length (eb_lines b))) ?r = Some (None, None, Position 0 3, 2)"
    by code_simp
  then obtain b where b: "?r = Some b" "selection b = None" "eb_sticky b = None" "eb_cursor b = Position 0 3" "length (eb_lines b) = 2"
    by auto
  from vertical_moves_round_trip [OF b(1), of False 1] b show ?thesis by auto
qed

text \<open>selecting the word at a character selects the longest run around it of characters of the same
class (word characters, white space, or other), and nothing else.\<close>

theorem select_word_selects_the_run:
  assumes "run_opt (editor_step alnum) ops (from_text t) = Some b" and "eb_line b i = Some (a @ c # r)"
  shows "\<exists>b'. editor_step alnum (Select_Word (Position i (blen a))) b = Some b'
    \<and> selected_text b' = Some (Some (rev (takeWhile (\<lambda>x. char_class alnum x = char_class alnum c) (rev a)) @ c
        # takeWhile (\<lambda>x. char_class alnum x = char_class alnum c) r))"
proof -
  let ?same = "\<lambda>x. char_class alnum x = char_class alnum c"
  from reachable_inv [OF assms(1)] obtain D where D: "holds_text D b" by (rule ed_invE)
  have ls: "eb_lines b = lines_of D" using D by (simp add: holds_text_def)
  have i: "i < length (lines_of D)" using assms(2) ls by (simp add: eb_line_def nth_opt_def split: if_splits)
  define a0 where "a0 = rev (dropWhile ?same (rev a))"
  define w where "w = rev (takeWhile ?same (rev a)) @ c # takeWhile ?same r"
  define r0 where "r0 = dropWhile ?same r"
  have a: "a = a0 @ rev (takeWhile ?same (rev a))" unfolding a0_def by (simp flip: rev_append)
  have line: "a @ c # r = a0 @ w @ r0"
    using a by (simp add: w_def r0_def)
  have bw: "blen a + (len_utf8 c + blen (takeWhile ?same r)) = blen a0 + blen w"
    using arg_cong [OF a, of blen] by (simp add: w_def)
  have bnd: "is_char_boundary (a @ c # r) (blen a)" by simp
  have cl: "clamp_position (b\<lparr>eb_sticky := None\<rparr>) (Position i (blen a)) = Some (Position i (blen a))"
  proof -
    have "min i (length (lines_of D) - Suc 0) = i" using i by simp
    then show ?thesis using assms(2) floor_char_boundary_id [OF bnd]
      by (simp add: clamp_position_def snap_to_char_boundary_def Let_def ls)
  qed
  have ws: "word_start alnum (b\<lparr>eb_sticky := None\<rparr>) i (a @ c # r) (char_class alnum c) (blen a) = Some (blen a0)"
    unfolding a0_def by (rule word_start_eq) (simp_all add: assms(2))
  have we: "word_end alnum (a @ c # r) (char_class alnum c) (blen a) = Some (blen a0 + blen w)"
    using word_end_eq [of "a @ c # r" a "c # r" alnum "char_class alnum c"] bw by simp
  define b' where "b' = b\<lparr>eb_sticky := None, eb_anchor := Some (Position i (blen a0)), eb_cursor := Position i (blen a0 + blen w)\<rparr>"
  have "select_word_at alnum (Position i (blen a)) b = Some b'"
    using cl ws we assms(2) by (simp add: select_word_at_def Let_def b'_def)
  moreover have "w \<noteq> []" by (simp add: w_def)
  then have "selection b' = Some (Position i (blen a0), Position i (blen a0 + blen w))"
    by (simp add: b'_def selection_def less_position_def)
  moreover have "eb_line b' i = Some (a0 @ w @ r0)" using assms(2) line by (simp add: b'_def)
  then have "text_range b' (Position i (blen a0)) (Position i (blen a0 + blen w)) = Some w"
    by (simp add: text_range_def)
  ultimately show ?thesis by (simp add: editor_step_def selected_text_def w_def)
qed

theorem select_word_selects_the_run_witness:
  "\<exists>b'. editor_step (\<lambda>_. True) (Select_Word (Position 0 (blen [97]))) example_buffer = Some b'
    \<and> selected_text b' = Some (Some [97, 120])"
proof -
  have "eb_line example_buffer 0 = Some ([97] @ 120 # [])" by code_simp
  from select_word_selects_the_run [OF example_run this] show ?thesis
    by (simp add: char_class_def is_whitespace_def is_word_char_def)
qed

section \<open>Indent and outdent\<close>

lemma rewrite_lines_lines:
  assumes "holds_text D b" and "history_ok T0 k T D b" and "i \<le> j" and "j < length (lines_of D)"
    and "length new = Suc j - i" and "\<And>l. l \<in> set new \<Longrightarrow> 10 \<notin> set l"
  shows "\<exists>d b'. rewrite_lines i j new delta b = Some (d, b')
    \<and> eb_lines b' = take i (lines_of D) @ new @ drop (Suc j) (lines_of D)
    \<and> (if take (Suc j - i) (drop i (lines_of D)) = new then b' = b
       else selection b \<noteq> None \<longrightarrow> eb_anchor b' = Some (Position i 0) \<and> eb_cursor b' = Position j (blen (last new)))"
proof -
  let ?L = "lines_of D"
  have ne: "new \<noteq> []" using assms(3,5) by auto
  have "lines_of (join_char 10 new) = new" by (rule split_join_char [OF ne assms(6)])
  with rewrite_lines_run [OF assms(1-5), of delta] obtain d b' where
    b': "rewrite_lines i j new delta b = Some (d, b')"
      "if take (Suc j - i) (drop i ?L) = new then b' = b
       else eb_lines b' = take i ?L @ new @ drop (Suc j) ?L
         \<and> (selection b \<noteq> None \<longrightarrow> eb_anchor b' = Some (Position i 0) \<and> eb_cursor b' = Position j (blen (eb_lines b' ! j)))"
    by auto
  have nth: "(take i ?L @ new @ drop (Suc j) ?L) ! j = last new"
    using assms(3-5) ne by (simp add: nth_append last_conv_nth Suc_diff_le)
  have "take i ?L @ take (Suc j - i) (drop i ?L) @ drop (Suc j) ?L = ?L"
    using assms(3) append_take_drop_id [of "Suc j - i" "drop i ?L"] by (simp add: append_take_drop_id)
  then show ?thesis using b' nth assms(1) by (intro exI [of _ d] exI [of _ b']) (auto simp: holds_text_def split: if_splits)
qed

definition indent_line :: "rstr \<Rightarrow> rstr" where
  "indent_line l = (if l = [] then [] else replicate TAB_SPACES 32 @ l)"

definition outdent_line :: "rstr \<Rightarrow> rstr" where
  "outdent_line l = the (slice_from l (outdent_width l))"

lemma outdent_line_eq: "slice_from l (outdent_width l) = Some (outdent_line l)"
  using boundary_slice_from [OF outdent_width_boundary [of l]] by (auto simp: outdent_line_def)

lemma outdent_indent_line [simp]: "outdent_line (indent_line l) = l"
proof (cases "l = []")
  case True
  then show ?thesis by (simp add: outdent_line_def indent_line_def outdent_width_def starts_with_def)
next
  case False
  have sp: "utf8_char 32 = [32]" by (simp add: utf8_char_def byte_def)
  have four: "replicate 4 32 = [32, 32, 32, 32 :: rchar]" by (simp add: eval_nat_numeral)
  have "outdent_width (replicate 4 32 @ l) = 4"
    by (simp add: outdent_width_def starts_with_def TAB_SPACES_def four sp)
  moreover have "slice_from (replicate 4 32 @ l) (blen (replicate 4 32)) = Some l" by (rule slice_from_append)
  moreover have "blen (replicate 4 32) = 4" by (simp add: four len_utf8_def)
  ultimately show ?thesis using False by (simp add: outdent_line_def indent_line_def TAB_SPACES_def)
qed

lemma indent_selection_eq:
  assumes "holds_text D b" and "selection b \<noteq> None" and "line_span b = (i, j)"
  shows "indent b = rewrite_lines i j (map indent_line (take (Suc j - i) (drop i (lines_of D)))) 0 b"
proof -
  let ?f = "\<lambda>line. do { l \<leftarrow> eb_line b line; Some (if l = [] then [] else replicate TAB_SPACES 32 @ l) }"
  have ij: "i \<le> j" "j < length (lines_of D)" using line_span_ok [OF assms(1,3)] by auto
  have "map ?f [i..<j + 1] = map Some (map indent_line (take (Suc j - i) (drop i (lines_of D))))"
  proof (rule nth_equalityI)
    fix n
    assume "n < length (map ?f [i..<j + 1])"
    then have n: "n < Suc j - i" by (simp del: upt_Suc)
    with ij have "i + n < length (lines_of D)" by simp
    from eb_line_text [OF assms(1) this] n ij
    show "map ?f [i..<j + 1] ! n = map Some (map indent_line (take (Suc j - i) (drop i (lines_of D)))) ! n"
      by (simp add: indent_line_def del: upt_Suc)
  qed (use ij in \<open>simp del: upt_Suc\<close>)
  then have "map_lines ?f [i..<j + 1] = Some (map indent_line (take (Suc j - i) (drop i (lines_of D))))"
    by (simp only: map_lines_eq_Some)
  then show ?thesis using assms(2,3) by (auto simp: indent_def simp del: upt_Suc)
qed

lemma outdent_eq:
  assumes "holds_text D b" and "line_span b = (i, j)"
  shows "\<exists>delta. outdent b = rewrite_lines i j (map outdent_line (take (Suc j - i) (drop i (lines_of D)))) delta b"
proof -
  let ?f = "\<lambda>line. do {
               text \<leftarrow> eb_line b line;
               let removed = outdent_width text;
               kept \<leftarrow> slice_from text removed;
               Some (kept, if line = p_line (eb_cursor b) then Some (- int removed) else None)
             }"
  have ij: "i \<le> j" "j < length (lines_of D)" using line_span_ok [OF assms] by auto
  have total: "\<exists>x. ?f n = Some x" if "eb_line b n = Some l" for n l
    using that outdent_line_eq [of l] by auto
  obtain rows where rows: "map_lines ?f [i..<j + 1] = Some rows" "length rows = Suc j - i"
    using block_lines_ok [OF assms, of ?f] total by blast
  have "map fst rows = map outdent_line (take (Suc j - i) (drop i (lines_of D)))"
  proof (rule nth_equalityI)
    fix n
    assume "n < length (map fst rows)"
    then have n: "n < Suc j - i" "n < length [i..<j + 1]" using rows(2) by (simp_all del: upt_Suc)
    with ij have "i + n < length (lines_of D)" by simp
    from eb_line_text [OF assms(1) this] map_lines_nth [OF rows(1) n(2)] n ij rows(2)
    show "map fst rows ! n = map outdent_line (take (Suc j - i) (drop i (lines_of D))) ! n"
      by (auto simp: outdent_line_eq Let_def simp del: upt_Suc) (metis fst_conv)
  qed (use ij rows(2) in simp)
  then show ?thesis using rows(1) assms(2) by (auto simp: outdent_def)
qed

lemma take_drop_block:
  assumes "i \<le> j" and "j < length L" and "length new = Suc j - i"
  shows "take (Suc j - i) (drop i (take i L @ new @ drop (Suc j) L)) = new"
  using assms by simp

text \<open>The outdent after an indent, when the last line of the block may have dropped out of the span.\<close>

lemma outdent_restores:
  assumes h: "holds_text D1 b1" and hist: "history_ok T0 k T D1 b1" and sp: "line_span b1 = (i, j')"
    and L1: "lines_of D1 = take i L @ map indent_line (take (Suc j - i) (drop i L)) @ drop (Suc j) L"
    and ij: "i \<le> j" "j < length L" and j': "i \<le> j'" "j' \<le> j" "\<forall>n. j' < n \<and> n \<le> j \<longrightarrow> L ! n = []"
    and nl: "\<And>l. l \<in> set L \<Longrightarrow> 10 \<notin> set l"
  shows "\<exists>d b2. outdent b1 = Some (d, b2) \<and> eb_lines b2 = L"
proof -
  define blk where "blk = map outdent_line (take (Suc j' - i) (drop i (lines_of D1)))"
  have len1: "length (lines_of D1) = length L" using ij by (simp add: L1)
  have blk: "blk = take (Suc j' - i) (drop i L)"
  proof (rule nth_equalityI)
    fix n
    assume "n < length blk"
    then have n: "n < Suc j' - i" "n < length L - i" using len1 by (simp_all add: blk_def)
    moreover from n have "n < Suc j - i" using j' by linarith
    ultimately have "lines_of D1 ! (i + n) = indent_line (L ! (i + n))" using ij j' by (simp add: L1 nth_append)
    then show "blk ! n = take (Suc j' - i) (drop i L) ! n" using n len1 by (simp add: blk_def)
  qed (simp add: blk_def len1)
  obtain delta where od: "outdent b1 = rewrite_lines i j' blk delta b1"
    using outdent_eq [OF h sp] by (auto simp: blk_def)
  have "j' < length (lines_of D1)" "length blk = Suc j' - i" using len1 ij j' by (simp_all add: blk)
  from rewrite_lines_lines [OF h hist j'(1) this, of delta] nl obtain d b2 where
    b2: "outdent b1 = Some (d, b2)" "eb_lines b2 = take i (lines_of D1) @ blk @ drop (Suc j') (lines_of D1)"
    unfolding od by (auto simp: blk dest!: in_set_takeD in_set_dropD)
  have "eb_lines b2 = L"
  proof (rule nth_equalityI)
    show "length (eb_lines b2) = length L" using len1 ij j' by (simp add: b2(2) blk)
    fix n
    assume "n < length (eb_lines b2)"
    then have n: "n < length L" using len1 ij j' by (simp add: b2(2) blk)
    consider "n < i" | "i \<le> n" "n \<le> j'" | "j' < n" "n \<le> j" | "j < n" by linarith
    then show "eb_lines b2 ! n = L ! n"
    proof cases
      case 1
      then show ?thesis using ij by (simp add: b2(2) L1 nth_append)
    next
      case 2
      then have "n - i < Suc j' - i" by linarith
      then show ?thesis using 2 ij j' n len1 by (simp add: b2(2) blk nth_append)
    next
      case 3
      have "\<not> n - i < Suc j' - i" "\<not> n < i" using 3 j' by linarith+
      then have "eb_lines b2 ! n = lines_of D1 ! n" using 3 ij j' n len1 by (simp add: b2(2) blk nth_append)
      moreover have "n - i < Suc j - i" using 3 j'(1) by linarith
      then have "lines_of D1 ! n = indent_line (L ! n)" using 3 ij j' by (simp add: L1 nth_append)
      ultimately show ?thesis using 3 j'(3) by (simp add: indent_line_def)
    next
      case 4
      have "\<not> n - i < Suc j' - i" "\<not> n < i" using 4 ij j' by linarith+
      then have "eb_lines b2 ! n = lines_of D1 ! n" using 4 ij j' n len1 by (simp add: b2(2) blk nth_append)
      moreover have "\<not> n - i < Suc j - i" using 4 ij by linarith
      then have "lines_of D1 ! n = L ! n" using 4 ij n by (simp add: L1 nth_append)
      ultimately show ?thesis by simp
    qed
  qed
  with b2(1) show ?thesis by blast
qed

text \<open>outdenting undoes indenting: on any selection, blank lines and tab-indented lines in it
included, Shift+Tab after Tab gives every line back as it was, although the second command works on the
block the first one left selected.\<close>

theorem outdent_undoes_indent:
  assumes "run_opt (editor_step alnum) ops (from_text t) = Some b" and "selection b \<noteq> None"
  shows "\<exists>b1 b2. editor_step alnum Indent b = Some b1 \<and> editor_step alnum Outdent b1 = Some b2
    \<and> to_text b2 = to_text b"
proof -
  from reachable_inv [OF assms(1)] have inv: "ed_inv t 0 t b" .
  then obtain D where D: "holds_text D b" "history_ok t 0 t D b" "to_text b = D" by (rule ed_invE)
  let ?L = "lines_of D"
  have nl: "10 \<notin> set l" if "l \<in> set ?L" for l using that by (rule split_char_no_sep)
  obtain i j where sp: "line_span b = (i, j)" by (cases "line_span b")
  have ij: "i \<le> j" "j < length ?L" using line_span_ok [OF D(1) sp] by auto
  define old where "old = take (Suc j - i) (drop i ?L)"
  define new where "new = map indent_line old"
  have len: "length new = Suc j - i" "length old = Suc j - i" using ij by (simp_all add: new_def old_def)
  have new_nl: "10 \<notin> set l" if "l \<in> set new" for l
    using that nl by (auto simp: new_def old_def indent_line_def dest!: in_set_takeD in_set_dropD)
  from rewrite_lines_lines [OF D(1,2) ij len(1) new_nl, of 0] obtain d b1 where
    b1: "indent b = Some (d, b1)" "eb_lines b1 = take i ?L @ new @ drop (Suc j) ?L"
      "if old = new then b1 = b else eb_anchor b1 = Some (Position i 0) \<and> eb_cursor b1 = Position j (blen (last new))"
    using indent_selection_eq [OF D(1) assms(2) sp] assms(2) unfolding old_def [symmetric] new_def [symmetric] by auto
  have s1: "editor_step alnum Indent b = Some b1" by (simp add: editor_step_def b1(1))
  from editor_step_keeps [OF inv s1] obtain D1 where D1: "holds_text D1 b1" "history_ok t 0 t D1 b1" by (rule ed_invE)
  have L1: "lines_of D1 = take i ?L @ map indent_line (take (Suc j - i) (drop i ?L)) @ drop (Suc j) ?L"
    using D1(1) b1(2) by (simp add: holds_text_def new_def old_def)
  have "\<exists>j'. line_span b1 = (i, j') \<and> i \<le> j' \<and> j' \<le> j \<and> (\<forall>n. j' < n \<and> n \<le> j \<longrightarrow> ?L ! n = [])"
  proof (cases "old = new")
    case True
    then show ?thesis using b1(3) sp ij by (intro exI [of _ j]) auto
  next
    case False
    then have b1': "eb_anchor b1 = Some (Position i 0)" "eb_cursor b1 = Position j (blen (last new))" using b1(3) by auto
    have ne: "new \<noteq> []" "old \<noteq> []" using len ij by auto
    have lst: "last new = indent_line (?L ! j)"
      using ne ij len by (simp add: last_conv_nth new_def old_def Suc_diff_le)
    have neq: "Position i 0 \<noteq> Position j (blen (last new))"
    proof
      assume *: "Position i 0 = Position j (blen (last new))"
      then have "old = [?L ! j]" "indent_line (?L ! j) = []" using lst len ij by (auto simp: old_def hd_drop_conv_nth take_Suc)
      then have "old = new" by (auto simp: new_def indent_line_def split: if_splits)
      with False show False by simp
    qed
    have "Position i 0 < Position j (blen (last new))" using neq ij by (auto simp: less_position_def intro: gr0I)
    with b1' neq have sel: "selection b1 = Some (Position i 0, Position j (blen (last new)))" by (simp add: selection_def)
    show ?thesis
    proof (cases "blen (last new) = 0 \<and> i < j")
      case True
      then have "?L ! j = []" using lst by (auto simp: indent_line_def split: if_splits)
      moreover have "line_span b1 = (i, j - 1)" using True sel by (simp add: line_span_def)
      moreover have "n = j" if "j - 1 < n" "n \<le> j" for n using that by linarith
      ultimately show ?thesis using True by (intro exI [of _ "j - 1"]) auto
    next
      case False
      then have "line_span b1 = (i, j)" using sel by (auto simp: line_span_def)
      then show ?thesis using ij by (intro exI [of _ j]) auto
    qed
  qed
  then obtain j' where "line_span b1 = (i, j')" "i \<le> j'" "j' \<le> j" "\<forall>n. j' < n \<and> n \<le> j \<longrightarrow> ?L ! n = []" by blast
  from outdent_restores [OF D1 this(1) L1 ij this(2-4) nl] obtain d2 b2 where
    "outdent b1 = Some (d2, b2)" "eb_lines b2 = ?L" by blast
  with s1 D(3) show ?thesis by (auto simp: editor_step_def to_text_def)
qed

theorem outdent_undoes_indent_witness:
  "\<exists>b b1 b2. run_opt (editor_step (\<lambda>_. True)) [Select_All] (from_text [97, 10, 10, 9, 98, 10]) = Some b
    \<and> editor_step (\<lambda>_. True) Indent b = Some b1 \<and> editor_step (\<lambda>_. True) Outdent b1 = Some b2
    \<and> to_text b2 = to_text b"
proof -
  let ?r = "run_opt (editor_step (\<lambda>_. True)) [Select_All] (from_text [97, 10, 10, 9, 98, 10])"
  have "map_option (\<lambda>b. selection b \<noteq> None) ?r = Some True" by code_simp
  then obtain b where "?r = Some b" "selection b \<noteq> None" by auto
  with outdent_undoes_indent [OF this] show ?thesis by blast
qed

end
