(* ===== verification/Editor_Find.thy ===== *)
theory Editor_Find
  imports Editor_Ops
begin

text \<open>
  The find bar of the editor, \<open>editor/find.rs\<close>: the search over the lines of a buffer and the state of
  the bar. The case tables of the standard library are arguments: \<open>is_upper\<close> is \<open>char::is_uppercase\<close>,
  \<open>lower_char\<close> is \<open>char::to_lowercase\<close> and \<open>lower_str\<close> is \<open>str::to_lowercase\<close>.
\<close>

section \<open>The model\<close>

definition MAX_MATCHES :: nat where "MAX_MATCHES = 10000"

record found_match =
  fm_line :: nat
  fm_start :: nat
  fm_end :: nat

definition match_position :: "found_match \<Rightarrow> position" where
  "match_position m = Position (fm_line m) (fm_start m)"

text \<open>
  The \<open>while let\<close> loop over one line; the result is the list of matches so far and whether the cap was
  reached. \<open>None\<close> is the panic of slicing inside a character, or a loop that does not end.
\<close>

partial_function (option) find_loop ::
    "rstr \<Rightarrow> rstr \<Rightarrow> nat \<Rightarrow> nat \<Rightarrow> found_match list \<Rightarrow> (found_match list \<times> bool) option" where
  "find_loop scan needle line at out =
     Option.bind (slice_from scan at) (\<lambda>rest.
       case find_str needle rest of
         None \<Rightarrow> Some (out, False)
       | Some pre \<Rightarrow>
           (let start = at + blen pre;
                en = start + blen needle;
                out = out @ [\<lparr>fm_line = line, fm_start = start, fm_end = en\<rparr>]
            in if length out \<ge> MAX_MATCHES then Some (out, True)
               else if en > blen scan then Some (out, False)
               else find_loop scan needle line en out))"

declare find_loop.simps [code]

text \<open>What one line is scanned with: the text and the needle.\<close>

definition scan_of :: "(rchar \<Rightarrow> rstr) \<Rightarrow> rstr \<Rightarrow> rstr \<Rightarrow> bool \<Rightarrow> rstr \<Rightarrow> rstr \<times> rstr" where
  "scan_of lower_char query needle case_sensitive line =
     (let haystack = (if case_sensitive then line else concat (map lower_char line))
      in if case_sensitive \<or> blen haystack = blen line then (haystack, needle) else (line, query))"

fun search_lines ::
    "(rchar \<Rightarrow> rstr) \<Rightarrow> rstr \<Rightarrow> rstr \<Rightarrow> bool \<Rightarrow> rstr list \<Rightarrow> nat \<Rightarrow> found_match list \<Rightarrow> (found_match list \<times> bool) option" where
  "search_lines lower_char query needle case_sensitive [] i out = Some (out, False)"
| "search_lines lower_char query needle case_sensitive (line # ls) i out =
     (case scan_of lower_char query needle case_sensitive line of
        (scan, needle_ref) \<Rightarrow>
          (case find_loop scan needle_ref i 0 out of
             None \<Rightarrow> None
           | Some (out, capped) \<Rightarrow>
               if capped then Some (out, True)
               else search_lines lower_char query needle case_sensitive ls (i + 1) out))"

definition search ::
    "(rchar \<Rightarrow> rstr) \<Rightarrow> (rstr \<Rightarrow> rstr) \<Rightarrow> ebuf \<Rightarrow> rstr \<Rightarrow> bool \<Rightarrow> (found_match list \<times> bool) option" where
  "search lower_char lower_str b query case_sensitive =
     (if query = [] then Some ([], False)
      else search_lines lower_char query (if case_sensitive then query else lower_str query) case_sensitive
             (eb_lines b) 0 [])"

record find_state =
  fs_query :: rstr
  fs_case_sensitive :: bool
  fs_matches :: "found_match list"
  fs_current :: nat
  fs_capped :: bool

definition find_state_default :: find_state where
  "find_state_default = \<lparr>fs_query = [], fs_case_sensitive = False, fs_matches = [], fs_current = 0, fs_capped = False\<rparr>"

definition effective_case_sensitive :: "(rchar \<Rightarrow> bool) \<Rightarrow> find_state \<Rightarrow> bool" where
  "effective_case_sensitive is_upper f \<longleftrightarrow> fs_case_sensitive f \<or> list_ex is_upper (fs_query f)"

text \<open>\<open>Iterator::position\<close>.\<close>

fun first_index :: "('a \<Rightarrow> bool) \<Rightarrow> 'a list \<Rightarrow> nat option" where
  "first_index P [] = None"
| "first_index P (x # xs) = (if P x then Some 0 else map_option Suc (first_index P xs))"

definition index_at_or_after :: "find_state \<Rightarrow> position \<Rightarrow> nat" where
  "index_at_or_after f pos =
     (if fs_matches f = [] then 0
      else case first_index (\<lambda>m. match_position m \<ge> pos) (fs_matches f) of Some i \<Rightarrow> i | None \<Rightarrow> 0)"

definition refresh ::
    "(rchar \<Rightarrow> bool) \<Rightarrow> (rchar \<Rightarrow> rstr) \<Rightarrow> (rstr \<Rightarrow> rstr) \<Rightarrow> ebuf \<Rightarrow> position \<Rightarrow> find_state \<Rightarrow> find_state option" where
  "refresh is_upper lower_char lower_str b near f =
     do {
       (matches, capped) \<leftarrow> search lower_char lower_str b (fs_query f) (effective_case_sensitive is_upper f);
       let f = f\<lparr>fs_matches := matches, fs_capped := capped\<rparr>;
       Some (f\<lparr>fs_current := index_at_or_after f near\<rparr>)
     }"

definition next_match :: "find_state \<Rightarrow> found_match option \<times> find_state" where
  "next_match f =
     (if fs_matches f = [] then (None, f)
      else
        (let f = f\<lparr>fs_current := (fs_current f + 1) mod length (fs_matches f)\<rparr>
         in (nth_opt (fs_matches f) (fs_current f), f)))"

definition prev_match :: "find_state \<Rightarrow> found_match option \<times> find_state" where
  "prev_match f =
     (if fs_matches f = [] then (None, f)
      else
        (let f = f\<lparr>fs_current := if fs_current f = 0 then length (fs_matches f) - 1 else fs_current f - 1\<rparr>
         in (nth_opt (fs_matches f) (fs_current f), f)))"

definition current_match :: "find_state \<Rightarrow> found_match option" where
  "current_match f = nth_opt (fs_matches f) (fs_current f)"

definition matches_on_line :: "find_state \<Rightarrow> nat \<Rightarrow> found_match list" where
  "matches_on_line f line = filter (\<lambda>m. fm_line m = line) (fs_matches f)"

definition counter_label :: "find_state \<Rightarrow> rstr" where
  "counter_label f =
     (if fs_query f = [] then []
      else if fs_matches f = [] then str_lit ''No results''
      else if fs_capped f then
        show_nat (fs_current f + 1) @ str_lit '' of '' @ show_nat (length (fs_matches f)) @ str_lit ''+''
      else show_nat (fs_current f + 1) @ str_lit '' of '' @ show_nat (length (fs_matches f)))"

section \<open>The scan of one line\<close>

text \<open>The reference: the matches of a text from the left, none overlapping an earlier one.\<close>

function occurrences :: "rstr \<Rightarrow> nat \<Rightarrow> rstr \<Rightarrow> (nat \<times> nat) list" where
  "occurrences needle off s =
     (if needle = [] then []
      else case find_str needle s of
        None \<Rightarrow> []
      | Some pre \<Rightarrow>
          (off + blen pre, off + blen pre + blen needle)
            # occurrences needle (off + blen pre + blen needle) (drop (length pre + length needle) s))"
  by pat_completeness auto
termination
  by (relation "measure (\<lambda>(needle, off, s). length s)") (auto dest!: find_str_SomeD)

declare occurrences.simps [simp del]

definition match_at :: "nat \<Rightarrow> nat \<times> nat \<Rightarrow> found_match" where
  "match_at i se = \<lparr>fm_line = i, fm_start = fst se, fm_end = snd se\<rparr>"

lemma find_loop_eq:
  assumes "needle \<noteq> []" and "length out < MAX_MATCHES" and "scan = x @ s"
  shows "find_loop scan needle i (blen x) out =
    Some (take MAX_MATCHES (out @ map (match_at i) (occurrences needle (blen x) s)),
          MAX_MATCHES \<le> length out + length (occurrences needle (blen x) s))"
  using assms(2,3)
proof (induction "length s" arbitrary: out x s rule: less_induct)
  case less
  show ?case
  proof (cases "find_str needle s")
    case None
    then show ?thesis using less.prems
      by (subst find_loop.simps) (simp add: occurrences.simps [of needle "blen x" s])
  next
    case (Some pre)
    then obtain post where s: "s = pre @ needle @ post" by (auto dest: find_str_SomeD)
    let ?m = "match_at i (blen x + blen pre, blen x + blen pre + blen needle)"
    have occ: "occurrences needle (blen x) s = (blen x + blen pre, blen x + blen pre + blen needle)
        # occurrences needle (blen (x @ pre @ needle)) post"
      using Some assms(1) by (subst occurrences.simps) (simp add: s add.assoc)
    show ?thesis
    proof (cases "MAX_MATCHES \<le> length (out @ [?m])")
      case True
      then have "MAX_MATCHES - length out = 1" using less.prems(1) by simp
      then show ?thesis using True less.prems Some
        by (subst find_loop.simps) (simp add: occ match_at_def Let_def)
    next
      case False
      have "length post < length s" using assms(1) by (simp add: s)
      moreover have "length (out @ [?m]) < MAX_MATCHES" using False by simp
      moreover have "scan = (x @ pre @ needle) @ post" using less.prems(2) s by simp
      ultimately have IH: "find_loop scan needle i (blen (x @ pre @ needle)) (out @ [?m]) =
        Some (take MAX_MATCHES ((out @ [?m]) @ map (match_at i) (occurrences needle (blen (x @ pre @ needle)) post)),
          MAX_MATCHES \<le> length (out @ [?m]) + length (occurrences needle (blen (x @ pre @ needle)) post))"
        by (rule less.hyps)
      have "blen x + blen pre + blen needle \<le> blen scan" using less.prems(2) s by simp
      then have "find_loop scan needle i (blen x) out = find_loop scan needle i (blen (x @ pre @ needle)) (out @ [?m])"
        using less.prems Some False
        by (subst find_loop.simps) (simp add: match_at_def Let_def add.assoc)
      then show ?thesis unfolding IH occ by simp
    qed
  qed
qed

section \<open>The occurrences of a needle\<close>

lemma find_str_leftmost:
  assumes "find_str p s = Some pre" and "s = a @ p @ c"
  shows "\<exists>u. a = pre @ u"
  using assms
proof (induction p s arbitrary: pre a rule: find_str.induct)
  case (1 p s)
  show ?case
  proof (cases "starts_with p s")
    case True
    then show ?thesis using 1(2) by (simp add: find_str.simps [of p s])
  next
    case False
    then obtain x xs where s: "s = x # xs" using 1(2) by (cases s) (auto simp: find_str.simps [of p "[]"])
    then obtain pre' where pre: "find_str p xs = Some pre'" "pre = x # pre'"
      using 1(2) False by (auto simp: find_str.simps [of p "x # xs"])
    have "a \<noteq> []" using 1(3) False by (auto simp: starts_with_iff)
    then obtain a' where "a = x # a'" using 1(3) s by (cases a) auto
    with 1(1) [OF False s pre(1)] 1(3) s pre(2) show ?thesis by auto
  qed
qed

lemma occurrences_sound:
  "(st, en) \<in> set (occurrences needle off s) \<Longrightarrow>
    \<exists>a c. s = a @ needle @ c \<and> st = off + blen a \<and> en = st + blen needle"
proof (induction needle off s arbitrary: st en rule: occurrences.induct)
  case (1 needle off s)
  then have ne: "needle \<noteq> []" and "find_str needle s \<noteq> None"
    by (cases "find_str needle s"; auto simp: occurrences.simps [of needle off s] split: if_splits)+
  then obtain pre where pre: "find_str needle s = Some pre" by blast
  then obtain post where s: "s = pre @ needle @ post" by (auto dest: find_str_SomeD)
  from 1(2) pre ne consider "st = off + blen pre" "en = st + blen needle"
    | "(st, en) \<in> set (occurrences needle (off + blen pre + blen needle) (drop (length pre + length needle) s))"
    by (auto simp: occurrences.simps [of needle off s])
  then show ?case
  proof cases
    case 1
    with s show ?thesis by blast
  next
    case 2
    from "1.IH" [OF ne pre 2] obtain a c where "post = a @ needle @ c" "st = off + blen pre + blen needle + blen a"
      "en = st + blen needle" by (auto simp: s)
    then show ?thesis by (intro exI [of _ "pre @ needle @ a"] exI [of _ c]) (simp add: s)
  qed
qed

lemma occurrences_complete:
  "s = a @ needle @ c \<Longrightarrow> needle \<noteq> [] \<Longrightarrow>
    \<exists>(st, en) \<in> set (occurrences needle off s). st \<le> off + blen a \<and> off + blen a < en"
proof (induction needle off s arbitrary: a rule: occurrences.induct)
  case (1 needle off s)
  obtain pre where pre: "find_str needle s = Some pre"
    using find_str_None_iff [of needle s] 1(2) by (cases "find_str needle s") auto
  then obtain post where s: "s = pre @ needle @ post" by (auto dest: find_str_SomeD)
  obtain u where u: "a = pre @ u" using find_str_leftmost [OF pre 1(2)] by blast
  have occ: "occurrences needle off s = (off + blen pre, off + blen pre + blen needle)
      # occurrences needle (off + blen pre + blen needle) post"
    using pre 1(3) by (subst occurrences.simps) (simp add: s)
  show ?case
  proof (cases "blen u < blen needle")
    case True
    then show ?thesis by (simp add: occ u)
  next
    case False
    have eq: "u @ needle @ c = needle @ post" using 1(2) s u by simp
    then obtain us where "u = needle @ us \<and> us @ needle @ c = post \<or> u @ us = needle \<and> needle @ c = us @ post"
      by (auto simp: append_eq_append_conv2)
    then obtain u' where u': "u = needle @ u'" "post = u' @ needle @ c"
    proof
      assume "u @ us = needle \<and> needle @ c = us @ post"
      moreover from this have "blen u + blen us = blen needle" by (metis blen_simps(3))
      then have "blen us = 0" using False by linarith
      then have "us = []" by simp
      ultimately show thesis using that [of "[]"] by simp
    qed (use that in blast)
    have d: "drop (length pre + length needle) s = post" by (simp add: s)
    from "1.IH" [OF 1(3) pre, unfolded d, OF u'(2) 1(3)] obtain st en where
      "(st, en) \<in> set (occurrences needle (off + blen pre + blen needle) post)"
      "st \<le> off + blen pre + blen needle + blen u'" "off + blen pre + blen needle + blen u' < en" by blast
    then show ?thesis unfolding occ u u'(1) by (intro bexI [of _ "(st, en)"]) simp_all
  qed
qed

section \<open>The search\<close>

definition line_matches :: "(rstr \<Rightarrow> rstr \<times> rstr) \<Rightarrow> nat \<Rightarrow> rstr \<Rightarrow> found_match list" where
  "line_matches f i line = (case f line of (scan, needle) \<Rightarrow> map (match_at i) (occurrences needle 0 scan))"

fun all_matches :: "(rstr \<Rightarrow> rstr \<times> rstr) \<Rightarrow> nat \<Rightarrow> rstr list \<Rightarrow> found_match list" where
  "all_matches f i [] = []"
| "all_matches f i (l # ls) = line_matches f i l @ all_matches f (Suc i) ls"

lemma search_lines_eq:
  assumes "query \<noteq> []" and "needle \<noteq> []" and "length out < MAX_MATCHES"
  shows "search_lines lower_char query needle cs ls i out =
    (let ms = out @ all_matches (scan_of lower_char query needle cs) i ls
     in Some (take MAX_MATCHES ms, MAX_MATCHES \<le> length ms))"
  using assms(3)
proof (induction ls arbitrary: i out)
  case (Cons l ls)
  obtain scan nd where sn: "scan_of lower_char query needle cs l = (scan, nd)" by (cases "scan_of lower_char query needle cs l")
  then have nd: "nd \<noteq> []" using assms(1,2) by (auto simp: scan_of_def Let_def split: if_splits)
  let ?ms = "map (match_at i) (occurrences nd 0 scan)"
  have fl: "find_loop scan nd i 0 out = Some (take MAX_MATCHES (out @ ?ms), MAX_MATCHES \<le> length out + length ?ms)"
    using find_loop_eq [OF nd Cons.prems, of scan "[]" scan i] by simp
  show ?case
  proof (cases "MAX_MATCHES \<le> length out + length ?ms")
    case True
    then show ?thesis using fl sn by (simp add: line_matches_def)
  next
    case False
    then have "length (out @ ?ms) < MAX_MATCHES" by simp
    from Cons.IH [OF this, of "Suc i"] False fl sn show ?thesis by (simp add: line_matches_def Let_def)
  qed
qed simp

lemma all_matches_set:
  "m \<in> set (all_matches f i ls) \<longleftrightarrow> (\<exists>n < length ls. m \<in> set (line_matches f (i + n) (ls ! n)))"
proof (induction ls arbitrary: i)
  case (Cons l ls)
  show ?case
    by (auto simp: Cons.IH less_Suc_eq_0_disj)
qed simp

lemma scan_of_sensitive: "scan_of lower_char query needle True l = (l, needle)"
  by (simp add: scan_of_def)

text \<open>C17: the case-sensitive search is sound and complete. It always returns; every match it reports is
an occurrence of the query on a line of the buffer, cut at character boundaries; and unless the cap was
reached, every occurrence in the buffer is reported or overlapped by a reported one that starts no later.\<close>

theorem search_finds_every_occurrence:
  "\<exists>ms capped. search lower_char lower_str b query True = Some (ms, capped) \<and> length ms \<le> MAX_MATCHES
    \<and> (\<forall>m \<in> set ms. \<exists>l. eb_line b (fm_line m) = Some l \<and> slice l (fm_start m) (fm_end m) = Some query)
    \<and> (\<not> capped \<longrightarrow> query \<noteq> [] \<longrightarrow> (\<forall>i l a c. eb_line b i = Some l \<longrightarrow> l = a @ query @ c \<longrightarrow>
         (\<exists>m \<in> set ms. fm_line m = i \<and> fm_start m \<le> blen a \<and> blen a < fm_end m)))"
proof (cases "query = []")
  case True
  then show ?thesis by (intro exI [of _ "[]"] exI [of _ False]) (simp add: search_def)
next
  case False
  define f where "f = scan_of lower_char query query True"
  define ms where "ms = all_matches f 0 (eb_lines b)"
  have run: "search lower_char lower_str b query True = Some (take MAX_MATCHES ms, MAX_MATCHES \<le> length ms)"
    using search_lines_eq [OF False False, of "[]" lower_char True "eb_lines b" 0] False
    by (simp add: search_def ms_def f_def Let_def MAX_MATCHES_def)
  have lm: "line_matches f i l = map (match_at i) (occurrences query 0 l)" for i l
    by (simp add: line_matches_def f_def scan_of_sensitive)
  have sound: "\<exists>l. eb_line b (fm_line m) = Some l \<and> slice l (fm_start m) (fm_end m) = Some query" if "m \<in> set ms" for m
  proof -
    from that obtain n se where n: "n < length (eb_lines b)" "m = match_at n se" "se \<in> set (occurrences query 0 (eb_lines b ! n))"
      by (auto simp: ms_def all_matches_set lm)
    obtain st en where "se = (st, en)" by (cases se)
    with n(3) occurrences_sound [of st en query 0] obtain a c where
      "eb_lines b ! n = a @ query @ c" "se = (blen a, blen a + blen query)" by fastforce
    then show ?thesis using n(1,2) slice_append [of a query c] by (simp add: match_at_def eb_line_def nth_opt_def)
  qed
  have complete: "\<exists>m \<in> set ms. fm_line m = i \<and> fm_start m \<le> blen a \<and> blen a < fm_end m"
    if "eb_line b i = Some l" "l = a @ query @ c" for i l a c
  proof -
    have i: "i < length (eb_lines b)" "eb_lines b ! i = l" using that(1) by (auto simp: eb_line_def nth_opt_def split: if_splits)
    from occurrences_complete [OF that(2) False, of 0] obtain st en where
      "(st, en) \<in> set (occurrences query 0 l)" "st \<le> blen a" "blen a < en" by auto
    then have "match_at i (st, en) \<in> set ms" using i by (auto simp: ms_def all_matches_set lm)
    then show ?thesis using \<open>st \<le> blen a\<close> \<open>blen a < en\<close> by (intro bexI [of _ "match_at i (st, en)"]) (simp_all add: match_at_def)
  qed
  have "\<exists>m \<in> set (take MAX_MATCHES ms). fm_line m = i \<and> fm_start m \<le> blen a \<and> blen a < fm_end m"
    if "\<not> MAX_MATCHES \<le> length ms" "eb_line b i = Some l" "l = a @ query @ c" for i l a c
    using complete [OF that(2,3)] that(1) by simp
  with run sound show ?thesis by (auto dest: in_set_takeD)
qed

theorem search_finds_every_occurrence_witness:
  "search (\<lambda>c. [c]) (\<lambda>s. s) (from_text [97, 97, 97, 10, 98, 97]) [97] True =
     Some ([\<lparr>fm_line = 0, fm_start = 0, fm_end = 1\<rparr>, \<lparr>fm_line = 0, fm_start = 1, fm_end = 2\<rparr>,
            \<lparr>fm_line = 0, fm_start = 2, fm_end = 3\<rparr>, \<lparr>fm_line = 1, fm_start = 1, fm_end = 2\<rparr>], False)
   \<and> (\<exists>m \<in> set [\<lparr>fm_line = 0, fm_start = 0, fm_end = 1\<rparr>, \<lparr>fm_line = 0, fm_start = 1, fm_end = 2\<rparr>,
            \<lparr>fm_line = 0, fm_start = 2, fm_end = 3\<rparr>, \<lparr>fm_line = 1, fm_start = 1, fm_end = 2\<rparr>].
        fm_line m = 1 \<and> fm_start m \<le> 1 \<and> 1 < fm_end m)"
proof -
  let ?b = "from_text [97, 97, 97, 10, 98, 97]"
  have run: "search (\<lambda>c. [c]) (\<lambda>s. s) ?b [97] True =
     Some ([\<lparr>fm_line = 0, fm_start = 0, fm_end = 1\<rparr>, \<lparr>fm_line = 0, fm_start = 1, fm_end = 2\<rparr>,
            \<lparr>fm_line = 0, fm_start = 2, fm_end = 3\<rparr>, \<lparr>fm_line = 1, fm_start = 1, fm_end = 2\<rparr>], False)"
    by code_simp
  have line: "eb_line ?b 1 = Some ([98] @ [97] @ [])" and len: "blen [98 :: rchar] = 1" by code_simp+
  from search_finds_every_occurrence [of "\<lambda>c. [c]" "\<lambda>s. s" ?b "[97]"] run line len show ?thesis by fastforce
qed

text \<open>a search that ignores case can report a range that splits a character. The code accepts the
offsets of the lowercased line when the total byte lengths agree, but one character may grow and another
shrink: lowercasing the capital I with dot above gives three bytes for two, and the capital sharp s two for
three, so a match after the first one is reported at offset 3, inside the second character.\<close>

theorem lowercase_match_can_split_a_character:
  assumes "lower_char 304 = [105, 775]" and "lower_char 7838 = [223]" and "lower_str [223] = [223]"
  shows "search lower_char lower_str (from_text [304, 7838]) [223] False =
      Some ([\<lparr>fm_line = 0, fm_start = 3, fm_end = 5\<rparr>], False)
    \<and> \<not> is_char_boundary [304, 7838] 3 \<and> slice [304, 7838] 3 5 = None"
proof -
  have b: "\<not> is_char_boundary [304, 7838] 3"
    by (simp add: is_char_boundary_def split_at.simps [of 3 "[304, 7838]"] split_at.simps [of 1 "[7838]"]
        split_at.simps [of "Suc 0" "[7838]"] len_utf8_def)
  have "scan_of lower_char [223] [223] False [304, 7838] = ([105, 775, 223], [223])"
    using assms by (simp add: scan_of_def len_utf8_def)
  moreover have "occurrences [223] 0 [105, 775, 223] = [(3, 5)]" by code_simp
  moreover have "eb_lines (from_text [304, 7838]) = [[304, 7838]]" by code_simp
  moreover have "(0::nat) < MAX_MATCHES" "\<not> MAX_MATCHES \<le> 1" by (simp_all add: MAX_MATCHES_def)
  ultimately have "search lower_char lower_str (from_text [304, 7838]) [223] False =
      Some ([\<lparr>fm_line = 0, fm_start = 3, fm_end = 5\<rparr>], False)"
    using search_lines_eq [of "[223]" "[223]" "[]" lower_char False "[[304, 7838]]" 0] assms(3)
    by (simp add: search_def line_matches_def match_at_def Let_def)
  with b slice_panics_iff [of "[304, 7838]" 3 5] show ?thesis by simp
qed

theorem lowercase_match_can_split_a_character_witness:
  "\<not> is_char_boundary [304, 7838] 3"
  using lowercase_match_can_split_a_character
    [of "\<lambda>c. if c = 304 then [105, 775] else if c = 7838 then [223] else [c]" "\<lambda>s. s"] by simp

section \<open>Stepping through the matches\<close>

lemma next_match_iter:
  assumes "fs_matches f \<noteq> []" and "fs_current f < length (fs_matches f)"
  shows "((\<lambda>f. snd (next_match f)) ^^ k) f = f\<lparr>fs_current := (fs_current f + k) mod length (fs_matches f)\<rparr>"
proof (induction k)
  case 0
  then show ?case using assms by simp
next
  case (Suc k)
  then show ?case using assms(1) by (simp add: next_match_def Let_def mod_Suc_eq)
qed

text \<open>stepping through the matches visits every one and wraps. From a highlighted match, as many
steps forward as there are matches come back to it, every match is the result of some of those steps, and
a step back undoes a step forward.\<close>

theorem next_visits_every_match:
  assumes "fs_matches f \<noteq> []" and "fs_current f < length (fs_matches f)"
  shows "((\<lambda>f. snd (next_match f)) ^^ length (fs_matches f)) f = f
    \<and> (\<forall>m \<in> set (fs_matches f). \<exists>k < length (fs_matches f). fst (next_match (((\<lambda>f. snd (next_match f)) ^^ k) f)) = Some m)
    \<and> snd (prev_match (snd (next_match f))) = f"
proof (intro conjI ballI)
  let ?n = "length (fs_matches f)"
  show "((\<lambda>f. snd (next_match f)) ^^ ?n) f = f" using next_match_iter [OF assms, of ?n] assms(2) by simp
  show "snd (prev_match (snd (next_match f))) = f"
  proof (cases "Suc (fs_current f) = ?n")
    case True
    then show ?thesis using assms(1) by (simp add: next_match_def prev_match_def Let_def flip: True)
  next
    case False
    then have "Suc (fs_current f) < ?n" using assms(2) by simp
    then show ?thesis using assms(1) by (simp add: next_match_def prev_match_def Let_def)
  qed
  fix m
  assume "m \<in> set (fs_matches f)"
  then obtain i where i: "i < ?n" "fs_matches f ! i = m" by (auto simp: in_set_conv_nth)
  define k where "k = (i + ?n - Suc (fs_current f)) mod ?n"
  have k: "k < ?n" using i(1) by (auto simp: k_def intro!: mod_less_divisor)
  have "(Suc (fs_current f) + k) mod ?n = (Suc (fs_current f) + (i + ?n - Suc (fs_current f))) mod ?n"
    by (simp add: k_def mod_add_right_eq del: add_Suc)
  also have "Suc (fs_current f) + (i + ?n - Suc (fs_current f)) = i + ?n" using assms(2) by simp
  finally have "(Suc (fs_current f) + k) mod ?n = i" using i(1) by simp
  then have "Suc ((fs_current f + k) mod ?n) mod ?n = i" by (simp add: mod_Suc_eq)
  then have "fst (next_match (((\<lambda>f. snd (next_match f)) ^^ k) f)) = Some m"
    unfolding next_match_iter [OF assms] using i assms(1) by (simp add: next_match_def Let_def nth_opt_def)
  with k show "\<exists>k < ?n. fst (next_match (((\<lambda>f. snd (next_match f)) ^^ k) f)) = Some m" by blast
qed

theorem next_visits_every_match_witness:
  "((\<lambda>f. snd (next_match f)) ^^ 2)
     \<lparr>fs_query = [97], fs_case_sensitive = False, fs_matches = [match_at 0 (0, 1), match_at 3 (1, 2)], fs_current = 1, fs_capped = False\<rparr>
   = \<lparr>fs_query = [97], fs_case_sensitive = False, fs_matches = [match_at 0 (0, 1), match_at 3 (1, 2)], fs_current = 1, fs_capped = False\<rparr>"
  using next_visits_every_match [of "\<lparr>fs_query = [97], fs_case_sensitive = False,
      fs_matches = [match_at 0 (0, 1), match_at 3 (1, 2)], fs_current = 1, fs_capped = False\<rparr>"]
  by (simp add: numeral_2_eq_2)

end
