(* ===== verification/Diff_Lines.thy ===== *)
theory Diff_Lines
  imports Rust_Parse
begin

text \<open>
  The line-level functions of the diff parser, \<open>diff/parse.rs\<close>: recognising section headers, hunk
  headers and body lines, and the paths of git with their quoting and side prefixes; and the language of
  a path, \<open>Language::from_path\<close> of \<open>syntax.rs\<close>. Functions that slice a string at a byte offset return
  options, \<open>None\<close> being the panic.
\<close>

section \<open>Data\<close>

definition MAX_DIFF_ROWS :: nat where "MAX_DIFF_ROWS = 200000"
definition MAX_LINE_CHARS :: nat where "MAX_LINE_CHARS = 4096"

text \<open>The literals that start with an ellipsis (U+2026).\<close>

definition CLAMP_SUFFIX :: rstr where "CLAMP_SUFFIX = 32 # [8230]"
definition TRUNCATION_NOTICE :: rstr where
  "TRUNCATION_NOTICE = 8230 # str_lit '' diff truncated: too many rows to display''"
definition OUTPUT_CUT_NOTICE :: rstr where
  "OUTPUT_CUT_NOTICE = 8230 # str_lit '' diff truncated: git produced more output than can be shown''"
definition COMBINED_NOTICE :: rstr where
  "COMBINED_NOTICE = str_lit ''combined diff (merge commit) is not shown''"
definition BINARY_NOTICE :: rstr where "BINARY_NOTICE = str_lit ''Binary files differ''"

datatype row_kind = FileHeader | HunkHeader | Context | Added | Removed | Meta | Spacer

definition marker :: "row_kind \<Rightarrow> rchar" where
  "marker k = (case k of Added \<Rightarrow> 43 | Removed \<Rightarrow> 45 | _ \<Rightarrow> 32)"

definition is_content :: "row_kind \<Rightarrow> bool" where
  "is_content k \<longleftrightarrow> k = Context \<or> k = Added \<or> k = Removed"

datatype file_status = FileAdded | FileDeleted | FileModified | FileRenamed | FileBinary

fun status_letter :: "file_status \<Rightarrow> rchar" where
  "status_letter FileAdded = 65"
| "status_letter FileDeleted = 68"
| "status_letter FileModified = 77"
| "status_letter FileRenamed = 82"
| "status_letter FileBinary = 66"

datatype language =
    Rust | TypeScript | Tsx | JavaScript | Python | Go | CSharp | Json | Toml | Yaml | Markdown | Shell
  | PowerShell | C_Lang | Cpp | Java | Kotlin | Swift | Ruby | Php | Sql | Css | Lua | Zig | Dockerfile
  | Makefile | Plain

text \<open>The arms on the extension, in order.\<close>

definition ext_languages :: "(string list \<times> language) list" where
  "ext_languages =
     [([''rs''], Rust), ([''ts'', ''mts'', ''cts''], TypeScript), ([''tsx''], Tsx),
      ([''js'', ''mjs'', ''cjs'', ''jsx''], JavaScript), ([''py'', ''pyi''], Python), ([''go''], Go),
      ([''cs''], CSharp), ([''json''], Json), ([''toml''], Toml), ([''yaml'', ''yml''], Yaml),
      ([''md'', ''markdown''], Markdown), ([''sh'', ''bash'', ''zsh''], Shell),
      ([''ps1'', ''psm1'', ''psd1''], PowerShell), ([''c'', ''h''], C_Lang),
      ([''cc'', ''cpp'', ''cxx'', ''hpp'', ''hxx''], Cpp), ([''java''], Java), ([''kt'', ''kts''], Kotlin),
      ([''swift''], Swift), ([''rb''], Ruby), ([''php''], Php), ([''sql''], Sql), ([''css'', ''scss''], Css),
      ([''lua''], Lua), ([''zig''], Zig)]"

definition from_path :: "rstr \<Rightarrow> language" where
  "from_path path =
     (let name = to_ascii_lowercase (rev (takeWhile (\<lambda>c. c \<noteq> 47 \<and> c \<noteq> 92) (rev path)))
      in if name = str_lit ''dockerfile'' then Dockerfile
         else if name = str_lit ''makefile'' \<or> name = str_lit ''gnumakefile'' then Makefile
         else case rsplit_once 46 name of
                None \<Rightarrow> Plain
              | Some (_, ext) \<Rightarrow>
                  (case List.find (\<lambda>(exts, _). ext \<in> set (map str_lit exts)) ext_languages of
                     Some (_, lang) \<Rightarrow> lang
                   | None \<Rightarrow> Plain))"

record row_info =
  ri_kind :: row_kind
  ri_file :: u32
  ri_old_no :: "u32 option"
  ri_new_no :: "u32 option"

record file_info =
  fi_path :: rstr
  fi_old_path :: "rstr option"
  fi_status :: file_status
  fi_first_row :: nat
  fi_hunk_rows :: "nat list"
  fi_lang :: language

record diff_document =
  dd_lines :: "rstr list"
  dd_rows :: "row_info list"
  dd_files :: "file_info list"
  dd_truncated :: bool

text \<open>\<open>min\<close> of a row's file and \<open>files.len() as u32 - 1\<close>, after the check that there is a file.\<close>

definition last_file :: "file_info list \<Rightarrow> u32" where
  "last_file files = of_nat (length files) - 1"

definition mark_output_truncated :: "diff_document \<Rightarrow> diff_document" where
  "mark_output_truncated d =
     (let d = d\<lparr>dd_truncated := True\<rparr>
      in if dd_files d = [] then d
         else
           (let file = min (if dd_rows d = [] then 0 else ri_file (last (dd_rows d))) (last_file (dd_files d))
            in d\<lparr>dd_lines := dd_lines d @ [OUTPUT_CUT_NOTICE],
                 dd_rows := dd_rows d @ [\<lparr>ri_kind = Meta, ri_file = file, ri_old_no = None, ri_new_no = None\<rparr>]\<rparr>))"

definition hunk_count :: "diff_document \<Rightarrow> nat" where
  "hunk_count d = sum_list (map (\<lambda>f. length (fi_hunk_rows f)) (dd_files d))"

definition dd_is_empty :: "diff_document \<Rightarrow> bool" where
  "dd_is_empty d \<longleftrightarrow> dd_files d = []"

section \<open>Section and hunk headers\<close>

datatype file_start_line = GitStart rstr | CombinedStart rstr

definition file_start :: "rstr \<Rightarrow> file_start_line option" where
  "file_start line =
     (case strip_prefix (str_lit ''diff --git '') line of
        Some rest \<Rightarrow> Some (GitStart rest)
      | None \<Rightarrow>
          (case strip_prefix (str_lit ''diff --cc '') line of
             Some rest \<Rightarrow> Some (CombinedStart rest)
           | None \<Rightarrow>
               (case strip_prefix (str_lit ''diff --combined '') line of
                  Some rest \<Rightarrow> Some (CombinedStart rest)
                | None \<Rightarrow> None)))"

definition body_row :: "rstr \<Rightarrow> (row_kind \<times> rstr) option" where
  "body_row line =
     (case line of
        [] \<Rightarrow> Some (Context, [])
      | ch # rest \<Rightarrow>
          if ch = 32 then Some (Context, rest)
          else if ch = 43 then Some (Added, rest)
          else if ch = 45 then Some (Removed, rest)
          else None)"

definition parse_range :: "rstr \<Rightarrow> (u32 \<times> u32) option" where
  "parse_range s =
     (case split_once 44 s of
        Some (start, count) \<Rightarrow> do { a \<leftarrow> parse_u32 start; n \<leftarrow> parse_u32 count; Some (a, n) }
      | None \<Rightarrow> do { a \<leftarrow> parse_u32 s; Some (a, 1) })"

definition parse_hunk_header :: "rstr \<Rightarrow> (u32 \<times> u32 \<times> u32 \<times> u32) option" where
  "parse_hunk_header line =
     do {
       rest \<leftarrow> strip_prefix (str_lit ''@@ '') line;
       ranges \<leftarrow> find_str (str_lit '' @@'') rest;
       let parts = split_whitespace ranges;
       p0 \<leftarrow> nth_opt parts 0;
       r0 \<leftarrow> strip_prefix [45] p0;
       (old_start, old_count) \<leftarrow> parse_range r0;
       p1 \<leftarrow> nth_opt parts 1;
       r1 \<leftarrow> strip_prefix [43] p1;
       (new_start, new_count) \<leftarrow> parse_range r1;
       Some (old_start, old_count, new_start, new_count)
     }"

text \<open>The slice at the offset of character number \<open>MAX_LINE_CHARS\<close> is the first \<open>MAX_LINE_CHARS\<close> characters.\<close>

definition clamp_line :: "rstr \<Rightarrow> rstr" where
  "clamp_line s =
     (if blen s \<le> MAX_LINE_CHARS then s
      else if MAX_LINE_CHARS < length s then take MAX_LINE_CHARS s @ CLAMP_SUFFIX
      else s)"

section \<open>Paths\<close>

text \<open>\<open>bytes[1] == b'/'\<close> and a side letter in front; then the slice from 2.\<close>

definition strip_side_prefix :: "rstr \<Rightarrow> rstr option" where
  "strip_side_prefix path =
     (let bytes = utf8 path
      in if length bytes > 2 \<and> bytes ! 1 = 47 \<and> bytes ! 0 \<in> set (byte_lit ''abiwco'')
         then slice_from path 2
         else Some path)"

text \<open>
  The loop of \<open>decode_c_quoted\<close> on the bytes that are left, with what it has written. A backslash at the
  end, an unknown escape, fewer than three octal digits or a value above 255 end it without a result.
\<close>

definition octal :: "u8 \<Rightarrow> nat option" where
  "octal b = (if 48 \<le> unat b \<and> unat b \<le> 55 then Some (unat b - 48) else None)"

definition simple_escape :: "u8 \<Rightarrow> u8 option" where
  "simple_escape e =
     (if e = 34 then Some 34 else if e = 92 then Some 92 else if e = 110 then Some 10
      else if e = 116 then Some 9 else if e = 114 then Some 13 else if e = 97 then Some 7
      else if e = 98 then Some 8 else if e = 102 then Some 12 else if e = 118 then Some 11 else None)"

fun decode_bytes :: "u8 list \<Rightarrow> u8 list \<Rightarrow> u8 list option" where
  "decode_bytes [] out = Some out"
| "decode_bytes (b # bs) out =
     (if b \<noteq> 92 then decode_bytes bs (out @ [b])
      else
        (case bs of
           [] \<Rightarrow> None
         | e # bs' \<Rightarrow>
             (case simple_escape e of
                Some x \<Rightarrow> decode_bytes bs' (out @ [x])
              | None \<Rightarrow>
                  (case (octal e, bs') of
                     (Some d0, c1 # c2 # rest) \<Rightarrow>
                       (case (octal c1, octal c2) of
                          (Some d1, Some d2) \<Rightarrow>
                            (let value = d0 * 64 + d1 * 8 + d2
                             in if value > 255 then None else decode_bytes rest (out @ [of_nat value]))
                        | _ \<Rightarrow> None)
                   | _ \<Rightarrow> None))))"

definition decode_c_quoted :: "rstr \<Rightarrow> rstr option" where
  "decode_c_quoted body = Option.bind (decode_bytes (utf8 body) []) from_utf8"

definition unquote_path :: "rstr \<Rightarrow> rstr" where
  "unquote_path raw =
     (case Option.bind (Option.bind (strip_prefix [34] raw) (strip_suffix [34])) decode_c_quoted of
        Some decoded \<Rightarrow> if 10 \<notin> set decoded \<and> 13 \<notin> set decoded then decoded else raw
      | None \<Rightarrow> raw)"

definition path_side :: "rstr \<Rightarrow> rstr option option" where
  "path_side rest =
     (let rest = hd (split_char 9 rest)
      in if rest = str_lit ''/dev/null'' then Some None
         else map_option Some (strip_side_prefix (unquote_path rest)))"

definition side_path :: "rstr \<Rightarrow> rstr option" where
  "side_path s = strip_side_prefix (unquote_path s)"

text \<open>The first attempt of \<open>split_git_paths\<close>: the halves around a space in the middle, when they agree.\<close>

definition split_middle :: "rstr \<Rightarrow> (rstr \<times> rstr) option option" where
  "split_middle rest =
     (let bytes = utf8 rest
      in if length bytes mod 2 = 1 \<and> bytes ! (length bytes div 2) = 32 then
           do {
             let mid = length bytes div 2;
             l \<leftarrow> slice_to rest mid;
             old \<leftarrow> side_path l;
             r \<leftarrow> slice_from rest (mid + 1);
             new \<leftarrow> side_path r;
             Some (if old = new then Some (old, new) else None)
           }
         else Some None)"

definition split_git_paths :: "rstr \<Rightarrow> (rstr option \<times> rstr option) option" where
  "split_git_paths rest =
     do {
       m \<leftarrow> split_middle rest;
       case m of
         Some (old, new) \<Rightarrow> Some (Some old, Some new)
       | None \<Rightarrow>
           (case rfind_str (str_lit '' b/'') rest of
              Some (old, after) \<Rightarrow>
                do { o' \<leftarrow> side_path old; n \<leftarrow> side_path (str_lit ''b/'' @ after); Some (Some o', Some n) }
            | None \<Rightarrow>
                (case rsplit_once 32 rest of
                   Some (old, new) \<Rightarrow> do { o' \<leftarrow> side_path old; n \<leftarrow> side_path new; Some (Some o', Some n) }
                 | None \<Rightarrow> do { n \<leftarrow> side_path rest; Some (None, Some n) }))
     }"

section \<open>No panic, no line break\<close>

lemma clamp_line_no_nl: "10 \<notin> set s \<Longrightarrow> 10 \<notin> set (clamp_line s)"
  by (auto simp: clamp_line_def CLAMP_SUFFIX_def dest: in_set_takeD)

lemma strip_side_prefix_total:
  "\<exists>t x. strip_side_prefix path = Some t \<and> path = x @ t"
proof (cases "length (utf8 path) > 2 \<and> utf8 path ! 1 = 47 \<and> utf8 path ! 0 \<in> set (byte_lit ''abiwco'')")
  case True
  then have "(1::nat) < length (utf8 path)" "unat (utf8 path ! 1) < 128" by auto
  from ascii_byte_boundary [OF this] True obtain a r where ar: "path = a @ 47 # r" "blen a = 1"
    by auto
  then have "slice_from path 2 = Some r" using slice_from_append [of "a @ [47]" r] by (simp add: len_utf8_def numeral_2_eq_2)
  then show ?thesis using True ar by (intro exI [of _ r] exI [of _ "a @ [47]"]) (simp add: strip_side_prefix_def)
next
  case False
  then have "strip_side_prefix path = Some path" unfolding strip_side_prefix_def Let_def by (rule if_not_P)
  then show ?thesis by simp
qed

lemma unquote_path_no_nl: "10 \<notin> set s \<Longrightarrow> 10 \<notin> set (unquote_path s)"
  by (auto simp: unquote_path_def split: option.split)

lemma side_path_total: "\<exists>t. side_path s = Some t \<and> (10 \<notin> set s \<longrightarrow> 10 \<notin> set t)"
proof -
  obtain t x where "strip_side_prefix (unquote_path s) = Some t" "unquote_path s = x @ t"
    using strip_side_prefix_total by blast
  then show ?thesis using unquote_path_no_nl [of s] by (auto simp: side_path_def)
qed

lemma split_middle_space:
  assumes "rest = a @ 32 # r" and "blen a = blen r"
  shows "split_middle rest = do { old \<leftarrow> side_path a; new \<leftarrow> side_path r;
                                  Some (if old = new then Some (old, new) else None) }"
proof -
  have len: "length (utf8 rest) = 2 * blen a + 1" using assms by (simp add: len_utf8_def)
  have "utf8 rest ! blen a = 32" using assms by (simp add: nth_append utf8_char_def byte_def)
  moreover have "slice_to rest (blen a) = Some a" "slice_from rest (Suc (blen a)) = Some r"
    using assms(1) slice_from_append [of "a @ [32]" r] slice_to_append [of a "32 # r"] by (simp_all add: len_utf8_def)
  ultimately show ?thesis using len unfolding split_middle_def by (simp del: length_utf8)
qed

lemma split_middle_total:
  assumes "10 \<notin> set rest"
  shows "\<exists>m. split_middle rest = Some m \<and> (\<forall>old new. m = Some (old, new) \<longrightarrow> 10 \<notin> set old \<and> 10 \<notin> set new)"
proof (cases "length (utf8 rest) mod 2 = 1 \<and> utf8 rest ! (length (utf8 rest) div 2) = 32")
  case True
  define n where "n = length (utf8 rest) div 2"
  have n: "n < length (utf8 rest)"
    unfolding n_def using True by (intro div_less_dividend) (auto simp del: length_utf8)
  have e: "utf8 rest ! n = 32" using True by (simp add: n_def)
  then have b: "unat (utf8 rest ! n) < 128" by simp
  obtain a r where "rest = a @ unat (utf8 rest ! n) # r" and a: "blen a = n"
    by (rule ascii_byte_boundary [OF n b])
  then have ar: "rest = a @ 32 # r" unfolding e by simp
  have "blen rest mod 2 = 1" using True by simp
  then have "2 * n + 1 = blen rest" unfolding n_def length_utf8 by presburger
  then have "blen a = blen r" using a by (simp add: ar len_utf8_def)
  note m = split_middle_space [OF ar this]
  obtain x y where "side_path a = Some x" "side_path r = Some y" "10 \<notin> set x" "10 \<notin> set y"
    using side_path_total [of a] side_path_total [of r] assms ar by auto
  then show ?thesis by (simp add: m)
next
  case False
  then have "split_middle rest = Some None" unfolding split_middle_def Let_def by (rule if_not_P)
  then show ?thesis by simp
qed

lemma split_git_paths_total:
  assumes "10 \<notin> set rest"
  shows "\<exists>old new. split_git_paths rest = Some (old, new) \<and>
                   (\<forall>p. old = Some p \<longrightarrow> 10 \<notin> set p) \<and> (\<forall>p. new = Some p \<longrightarrow> 10 \<notin> set p)"
proof -
  obtain m where m: "split_middle rest = Some m"
    "\<And>old new. m = Some (old, new) \<Longrightarrow> 10 \<notin> set old \<and> 10 \<notin> set new"
    using split_middle_total [OF assms] by blast
  have two: "\<exists>x y. side_path a = Some x \<and> side_path b = Some y \<and> 10 \<notin> set x \<and> 10 \<notin> set y"
    if "10 \<notin> set a" "10 \<notin> set b" for a b
    using side_path_total [of a] side_path_total [of b] that by blast
  show ?thesis
  proof (cases m)
    case (Some p)
    then show ?thesis using m by (cases p) (simp add: split_git_paths_def)
  next
    case None
    show ?thesis
    proof (cases "rfind_str (str_lit '' b/'') rest")
      case (Some p)
      obtain a b where p: "p = (a, b)" by fastforce
      then have "rest = a @ str_lit '' b/'' @ b" using rfind_str_SomeD Some by simp
      then have "10 \<notin> set a" "10 \<notin> set (str_lit ''b/'' @ b)" using assms by (auto simp: str_lit_def)
      from two [OF this] show ?thesis using m None Some p by (auto simp: split_git_paths_def)
    next
      case rf: None
      show ?thesis
      proof (cases "rsplit_once 32 rest")
        case None
        then show ?thesis using m \<open>m = None\<close> rf side_path_total [of rest] assms by (auto simp: split_git_paths_def)
      next
        case (Some p)
        obtain a b where p: "p = (a, b)" by fastforce
        then have "rest = a @ 32 # b" using Some by (simp add: rsplit_once_eq_Some)
        then have "10 \<notin> set a" "10 \<notin> set b" using assms by auto
        from two [OF this] show ?thesis using m \<open>m = None\<close> rf Some p by (auto simp: split_git_paths_def)
      qed
    qed
  qed
qed

end
