(* ===== verification/Diff.thy ===== *)
theory Diff
  imports Diff_Lines
begin

text \<open>
  The state machine of the diff parser, \<open>diff/parse.rs\<close>: the builder with its row budget, the facts about
  the file section being read, and the loop over the lines of the input. The result is \<open>None\<close> where the
  code would panic: a slice inside a character, or the subscript of \<open>files\<close>.
\<close>

section \<open>Numbers at their width\<close>

definition u32_saturating_inc :: "u32 \<Rightarrow> u32" where
  "u32_saturating_inc n = (if n = 2 ^ 32 - 1 then n else n + 1)"

definition u32_saturating_dec :: "u32 \<Rightarrow> u32" where
  "u32_saturating_dec n = (if n = 0 then 0 else n - 1)"

section \<open>The builder\<close>

record builder =
  b_cap :: nat
  b_lines :: "rstr list"
  b_rows :: "row_info list"
  b_files :: "file_info list"
  b_truncated :: bool

definition new_builder :: "nat \<Rightarrow> builder" where
  "new_builder cap = \<lparr>b_cap = cap, b_lines = [], b_rows = [], b_files = [], b_truncated = False\<rparr>"

text \<open>\<open>None\<close> when the debug assertion on the two lengths fails.\<close>

definition document_of :: "builder \<Rightarrow> diff_document" where
  "document_of b =
     \<lparr>dd_lines = b_lines b, dd_rows = b_rows b, dd_files = b_files b, dd_truncated = b_truncated b\<rparr>"

definition into_document :: "builder \<Rightarrow> diff_document option" where
  "into_document b = (if length (b_lines b) = length (b_rows b) then Some (document_of b) else None)"

definition mark_truncated :: "u32 \<Rightarrow> builder \<Rightarrow> builder" where
  "mark_truncated file b =
     (if b_truncated b then b
      else
        (let b = b\<lparr>b_truncated := True\<rparr>
         in if b_files b = [] then b
            else
              (let file = min file (last_file (b_files b))
               in if length (b_lines b) < b_cap b then
                    b\<lparr>b_lines := b_lines b @ [TRUNCATION_NOTICE],
                      b_rows := b_rows b @ [\<lparr>ri_kind = Meta, ri_file = file, ri_old_no = None, ri_new_no = None\<rparr>]\<rparr>
                  else b)))"

definition push :: "row_kind \<Rightarrow> u32 \<Rightarrow> u32 option \<Rightarrow> u32 option \<Rightarrow> rstr \<Rightarrow> builder \<Rightarrow> bool \<times> builder" where
  "push kind file old_no new_no line b =
     (if b_truncated b then (False, b)
      else if length (b_lines b) + 1 \<ge> b_cap b then (False, mark_truncated file b)
      else
        (True,
         b\<lparr>b_lines := b_lines b @ [clamp_line line],
           b_rows := b_rows b @ [\<lparr>ri_kind = kind, ri_file = file, ri_old_no = old_no, ri_new_no = new_no\<rparr>]\<rparr>))"

section \<open>File sections\<close>

record file_ctx =
  c_index :: u32
  c_git_old :: "rstr option"
  c_git_new :: "rstr option"
  c_minus :: "rstr option option"
  c_plus :: "rstr option option"
  c_rename_from :: "rstr option"
  c_rename_to :: "rstr option"
  c_is_rename :: bool
  c_is_new :: bool
  c_is_deleted :: bool
  c_is_binary :: bool
  c_combined :: bool
  c_old_no :: u32
  c_new_no :: u32

definition new_ctx :: "u32 \<Rightarrow> bool \<Rightarrow> rstr option \<Rightarrow> rstr option \<Rightarrow> file_ctx" where
  "new_ctx index combined git_old git_new =
     \<lparr>c_index = index, c_git_old = git_old, c_git_new = git_new, c_minus = None, c_plus = None,
      c_rename_from = None, c_rename_to = None, c_is_rename = False, c_is_new = False, c_is_deleted = False,
      c_is_binary = False, c_combined = combined, c_old_no = 1, c_new_no = 1\<rparr>"

definition placeholder_info :: "nat \<Rightarrow> file_info" where
  "placeholder_info first_row =
     \<lparr>fi_path = [], fi_old_path = None, fi_status = FileModified, fi_first_row = first_row,
      fi_hunk_rows = [], fi_lang = Plain\<rparr>"

definition section_ctx :: "u32 \<Rightarrow> file_start_line \<Rightarrow> file_ctx option" where
  "section_ctx index start =
     (case start of
        GitStart rest \<Rightarrow> do { (old, new) \<leftarrow> split_git_paths rest; Some (new_ctx index False old new) }
      | CombinedStart rest \<Rightarrow> Some (new_ctx index True None (Some (unquote_path rest))))"

definition begin_file :: "file_start_line \<Rightarrow> builder \<Rightarrow> (file_ctx option \<times> builder) option" where
  "begin_file start b =
     (let index = of_nat (length (b_files b));
          (ok, b) = (if b_rows b \<noteq> [] then push Spacer (u32_saturating_dec index) None None [] b else (True, b))
      in if \<not> ok then Some (None, b)
         else
           (let first_row = length (b_lines b);
                (ok, b) = push FileHeader index None None [] b
            in if \<not> ok then Some (None, b)
               else
                 (let b = b\<lparr>b_files := b_files b @ [placeholder_info first_row]\<rparr>
                  in map_option (\<lambda>ctx. (Some ctx, b)) (section_ctx index start))))"

definition or_else :: "'a option \<Rightarrow> 'a option \<Rightarrow> 'a option" where
  "or_else x y = (case x of Some v \<Rightarrow> Some v | None \<Rightarrow> y)"

definition old_side :: "file_ctx \<Rightarrow> rstr option" where
  "old_side ctx = or_else (or_else (Option.bind (c_minus ctx) id) (c_rename_from ctx)) (c_git_old ctx)"

definition new_side :: "file_ctx \<Rightarrow> rstr option" where
  "new_side ctx = or_else (or_else (Option.bind (c_plus ctx) id) (c_rename_to ctx)) (c_git_new ctx)"

definition section_status :: "file_ctx \<Rightarrow> file_status" where
  "section_status ctx =
     (if c_is_binary ctx then FileBinary
      else if c_is_rename ctx then FileRenamed
      else if c_is_new ctx \<or> c_minus ctx = Some None then FileAdded
      else if c_is_deleted ctx \<or> c_plus ctx = Some None then FileDeleted
      else FileModified)"

definition section_path :: "file_ctx \<Rightarrow> rstr" where
  "section_path ctx =
     (case (if section_status ctx = FileDeleted then or_else (old_side ctx) (new_side ctx)
            else or_else (new_side ctx) (old_side ctx)) of
        Some p \<Rightarrow> p
      | None \<Rightarrow> [])"

definition section_old_path :: "file_ctx \<Rightarrow> rstr option" where
  "section_old_path ctx =
     (case old_side ctx of Some old \<Rightarrow> if old \<noteq> section_path ctx then Some old else None | None \<Rightarrow> None)"

definition section_header :: "file_ctx \<Rightarrow> rstr" where
  "section_header ctx =
     (case (section_old_path ctx, section_status ctx) of
        (Some old, FileRenamed) \<Rightarrow> str_lit ''R '' @ old @ str_lit '' -> '' @ section_path ctx
      | _ \<Rightarrow> status_letter (section_status ctx) # 32 # section_path ctx)"

definition finish_file :: "file_ctx option \<Rightarrow> builder \<Rightarrow> builder" where
  "finish_file cur b =
     (case cur of
        None \<Rightarrow> b
      | Some ctx \<Rightarrow>
          (let index = unat (c_index ctx)
           in case nth_opt (b_files b) index of
                None \<Rightarrow> b
              | Some info \<Rightarrow>
                  (let b = b\<lparr>b_files := (b_files b)[index :=
                             info\<lparr>fi_lang := from_path (section_path ctx), fi_path := section_path ctx,
                                  fi_old_path := section_old_path ctx, fi_status := section_status ctx\<rparr>]\<rparr>
                   in case update_opt (b_lines b) (fi_first_row info) (clamp_line (section_header ctx)) of
                        Some ls \<Rightarrow> b\<lparr>b_lines := ls\<rparr>
                      | None \<Rightarrow> b)))"

section \<open>Lines\<close>

datatype mode = Outside | Header | Hunk u32 u32 | Skip

definition push_notice :: "file_ctx \<Rightarrow> rstr \<Rightarrow> builder \<Rightarrow> builder" where
  "push_notice ctx notice b = snd (push Meta (c_index ctx) None None notice b)"

definition header_line :: "rstr \<Rightarrow> file_ctx \<Rightarrow> builder \<Rightarrow> mode \<Rightarrow> (file_ctx \<times> builder \<times> mode) option" where
  "header_line line ctx b md =
     (case strip_prefix (str_lit ''--- '') line of
        Some rest \<Rightarrow> do { p \<leftarrow> path_side rest; Some (ctx\<lparr>c_minus := Some p\<rparr>, b, md) }
      | None \<Rightarrow>
     (case strip_prefix (str_lit ''+++ '') line of
        Some rest \<Rightarrow> do { p \<leftarrow> path_side rest; Some (ctx\<lparr>c_plus := Some p\<rparr>, b, md) }
      | None \<Rightarrow>
     (case strip_prefix (str_lit ''rename from '') line of
        Some rest \<Rightarrow> Some (ctx\<lparr>c_is_rename := True, c_rename_from := Some (unquote_path rest)\<rparr>, b, md)
      | None \<Rightarrow>
     (case strip_prefix (str_lit ''rename to '') line of
        Some rest \<Rightarrow> Some (ctx\<lparr>c_is_rename := True, c_rename_to := Some (unquote_path rest)\<rparr>, b, md)
      | None \<Rightarrow>
          if starts_with (str_lit ''new file mode '') line then Some (ctx\<lparr>c_is_new := True\<rparr>, b, md)
          else if starts_with (str_lit ''deleted file mode '') line then Some (ctx\<lparr>c_is_deleted := True\<rparr>, b, md)
          else if starts_with (str_lit ''Binary files '') line \<or> starts_with (str_lit ''Files '') line then
            (let ctx = ctx\<lparr>c_is_binary := True\<rparr> in Some (ctx, push_notice ctx BINARY_NOTICE b, md))
          else if starts_with (str_lit ''GIT binary patch'') line then
            (let ctx = ctx\<lparr>c_is_binary := True\<rparr> in Some (ctx, push_notice ctx BINARY_NOTICE b, Skip))
          else Some (ctx, b, md)))))"

text \<open>The block of the loop for a line of a hunk: \<open>None\<close> is \<open>in_body = false\<close>.\<close>

definition content_row ::
  "row_kind \<Rightarrow> file_ctx \<Rightarrow> u32 \<Rightarrow> u32 \<Rightarrow> u32 option \<times> u32 option \<times> file_ctx \<times> u32 \<times> u32"
where
  "content_row kind ctx old_rem new_rem =
     (case kind of
        Context \<Rightarrow>
          (Some (c_old_no ctx), Some (c_new_no ctx),
           ctx\<lparr>c_old_no := u32_saturating_inc (c_old_no ctx), c_new_no := u32_saturating_inc (c_new_no ctx)\<rparr>,
           u32_saturating_dec old_rem, u32_saturating_dec new_rem)
      | Added \<Rightarrow>
          (None, Some (c_new_no ctx), ctx\<lparr>c_new_no := u32_saturating_inc (c_new_no ctx)\<rparr>,
           old_rem, u32_saturating_dec new_rem)
      | _ \<Rightarrow>
          (Some (c_old_no ctx), None, ctx\<lparr>c_old_no := u32_saturating_inc (c_old_no ctx)\<rparr>,
           u32_saturating_dec old_rem, new_rem))"

definition hunk_line ::
  "rstr \<Rightarrow> file_ctx \<Rightarrow> builder \<Rightarrow> u32 \<Rightarrow> u32 \<Rightarrow> (file_ctx \<times> builder \<times> mode) option"
where
  "hunk_line line ctx b old_rem new_rem =
     (if starts_with [92] line then
        Some (ctx, snd (push Meta (c_index ctx) None None line b), Hunk old_rem new_rem)
      else if old_rem > 0 \<or> new_rem > 0 then
        (case body_row line of
           Some (kind, body) \<Rightarrow>
             (let (old_no, new_no, ctx', old_rem, new_rem) = content_row kind ctx old_rem new_rem
              in Some (ctx', snd (push kind (c_index ctx) old_no new_no body b), Hunk old_rem new_rem))
         | None \<Rightarrow> None)
      else None)"

text \<open>A line that starts with \<open>@@\<close> outside a hunk body; \<open>files[index]\<close> may be out of range.\<close>

definition add_hunk_row :: "u32 \<Rightarrow> nat \<Rightarrow> builder \<Rightarrow> builder option" where
  "add_hunk_row index row b =
     do {
       info \<leftarrow> nth_opt (b_files b) (unat index);
       Some (b\<lparr>b_files := (b_files b)[unat index := info\<lparr>fi_hunk_rows := fi_hunk_rows info @ [row]\<rparr>]\<rparr>)
     }"

definition at_line :: "rstr \<Rightarrow> file_ctx \<Rightarrow> builder \<Rightarrow> mode \<Rightarrow> (file_ctx \<times> builder \<times> mode) option" where
  "at_line line ctx b md =
     (if c_combined ctx \<or> starts_with (str_lit ''@@@'') line then
        Some (ctx, push_notice ctx COMBINED_NOTICE b, Skip)
      else
        (case parse_hunk_header line of
           None \<Rightarrow> Some (ctx, b, md)
         | Some (old_start, old_count, new_start, new_count) \<Rightarrow>
             (let ctx = ctx\<lparr>c_old_no := old_start, c_new_no := new_start\<rparr>;
                  row = length (b_lines b);
                  (ok, b) = push HunkHeader (c_index ctx) None None line b
              in map_option (\<lambda>b. (ctx, b, Hunk old_count new_count))
                   (if ok then add_hunk_row (c_index ctx) row b else Some b))))"

definition section_line :: "rstr \<Rightarrow> file_ctx \<Rightarrow> builder \<Rightarrow> mode \<Rightarrow> (file_ctx \<times> builder \<times> mode) option" where
  "section_line line ctx b md =
     (if starts_with (str_lit ''@@'') line then at_line line ctx b md else header_line line ctx b md)"

definition file_line :: "rstr \<Rightarrow> file_ctx \<Rightarrow> builder \<Rightarrow> mode \<Rightarrow> (file_ctx \<times> builder \<times> mode) option" where
  "file_line line ctx b md =
     (case md of
        Skip \<Rightarrow> Some (ctx, b, Skip)
      | Hunk old_rem new_rem \<Rightarrow>
          (case hunk_line line ctx b old_rem new_rem of
             Some r \<Rightarrow> Some r
           | None \<Rightarrow> section_line line ctx b Header)
      | _ \<Rightarrow> section_line line ctx b md)"

section \<open>The loop\<close>

type_synonym parse_state = "builder \<times> file_ctx option \<times> mode"

datatype 's loop_step = Go 's | Stop 's

definition parse_step :: "rstr \<Rightarrow> parse_state \<Rightarrow> parse_state loop_step option" where
  "parse_step raw st =
     (case st of (b, cur, md) \<Rightarrow>
        (let line = strip_cr raw
         in if b_truncated b then Some (Stop (b, cur, md))
            else
              (case file_start line of
                 Some start \<Rightarrow>
                   do {
                     (ctx, b) \<leftarrow> begin_file start (finish_file cur b);
                     Some (case ctx of Some c \<Rightarrow> Go (b, Some c, Header) | None \<Rightarrow> Stop (b, None, md))
                   }
               | None \<Rightarrow>
                   (case cur of
                      None \<Rightarrow> Some (Go (b, None, md))
                    | Some ctx \<Rightarrow> map_option (\<lambda>(ctx, b, md). Go (b, Some ctx, md)) (file_line line ctx b md)))))"

fun parse_loop :: "rstr list \<Rightarrow> parse_state \<Rightarrow> parse_state option" where
  "parse_loop [] st = Some st"
| "parse_loop (raw # raws) st =
     (case parse_step raw st of
        None \<Rightarrow> None
      | Some (Stop st) \<Rightarrow> Some st
      | Some (Go st) \<Rightarrow> parse_loop raws st)"

definition parse_unified_diff_with_cap :: "rstr \<Rightarrow> nat \<Rightarrow> diff_document option" where
  "parse_unified_diff_with_cap input cap =
     do {
       (b, cur, _) \<leftarrow> parse_loop (str_lines input) (new_builder cap, None, Outside);
       into_document (finish_file cur b)
     }"

definition parse_unified_diff :: "rstr \<Rightarrow> diff_document option" where
  "parse_unified_diff input = parse_unified_diff_with_cap input MAX_DIFF_ROWS"

end
