(* ===== verification/Diff_Inv.thy ===== *)
theory Diff_Inv
  imports Diff
begin

text \<open>
  What every document of the diff parser satisfies (\<open>document_ok\<close>), and that every operation of the builder
  and every line of the input keeps it (\<open>parse_step_ok\<close>). The lists \<open>first_row\<close> and \<open>hunk_rows\<close> are
  exactly the positions of the header rows.
\<close>

section \<open>Well-formed documents\<close>

text \<open>The positions of the rows of a kind.\<close>

definition kind_rows :: "row_kind \<Rightarrow> row_info list \<Rightarrow> nat list" where
  "kind_rows k rows = filter (\<lambda>i. ri_kind (rows ! i) = k) [0..<length rows]"

definition numbers_ok :: "row_info \<Rightarrow> bool" where
  "numbers_ok r \<longleftrightarrow>
     (ri_old_no r \<noteq> None \<longleftrightarrow> ri_kind r = Context \<or> ri_kind r = Removed) \<and>
     (ri_new_no r \<noteq> None \<longleftrightarrow> ri_kind r = Context \<or> ri_kind r = Added)"

definition hunks_of :: "nat \<Rightarrow> row_info list \<Rightarrow> nat list" where
  "hunks_of i rows = filter (\<lambda>k. unat (ri_file (rows ! k)) = i) (kind_rows HunkHeader rows)"

definition rows_ok :: "rstr list \<Rightarrow> row_info list \<Rightarrow> file_info list \<Rightarrow> bool" where
  "rows_ok ls rows files \<longleftrightarrow>
     length ls = length rows \<and>
     (\<forall>l \<in> set ls. 10 \<notin> set l) \<and>
     (\<forall>r \<in> set rows. unat (ri_file r) < length files \<and> numbers_ok r) \<and>
     sorted (map (\<lambda>r. unat (ri_file r)) rows) \<and>
     map fi_first_row files = kind_rows FileHeader rows \<and>
     (\<forall>i < length files. unat (ri_file (rows ! fi_first_row (files ! i))) = i \<and>
                         fi_hunk_rows (files ! i) = hunks_of i rows)"

definition document_ok :: "nat \<Rightarrow> diff_document \<Rightarrow> bool" where
  "document_ok cap d \<longleftrightarrow>
     rows_ok (dd_lines d) (dd_rows d) (dd_files d) \<and>
     length (dd_lines d) \<le> cap \<and>
     (dd_truncated d \<and> dd_files d \<noteq> [] \<longrightarrow>
        dd_rows d \<noteq> [] \<and> ri_kind (last (dd_rows d)) = Meta \<and> last (dd_lines d) = TRUNCATION_NOTICE)"

lemma kind_rows_snoc [simp]:
  "kind_rows k (rows @ [r]) = kind_rows k rows @ (if ri_kind r = k then [length rows] else [])"
  by (auto simp: kind_rows_def nth_append intro: filter_cong)

lemma kind_rows_less: "i \<in> set (kind_rows k rows) \<Longrightarrow> i < length rows"
  by (simp add: kind_rows_def)

lemma kind_rows_kind: "i \<in> set (kind_rows k rows) \<Longrightarrow> ri_kind (rows ! i) = k"
  by (simp add: kind_rows_def)

lemma length_kind_rows: "length (kind_rows k rows) \<le> length rows"
  unfolding kind_rows_def by (rule order_trans [OF length_filter_le]) simp

lemma hunks_of_snoc [simp]:
  "hunks_of i (rows @ [r]) =
     hunks_of i rows @ (if ri_kind r = HunkHeader \<and> unat (ri_file r) = i then [length rows] else [])"
proof -
  have "filter (\<lambda>k. unat (ri_file ((rows @ [r]) ! k)) = i) (kind_rows HunkHeader rows) = hunks_of i rows"
    unfolding hunks_of_def by (rule filter_cong [OF refl]) (simp add: kind_rows_less nth_append)
  then show ?thesis by (simp add: hunks_of_def)
qed

lemma first_row_mem: "rows_ok ls rows files \<Longrightarrow> f \<in> set files \<Longrightarrow> fi_first_row f \<in> set (kind_rows FileHeader rows)"
  unfolding rows_ok_def by (metis image_eqI set_map)

lemma first_row_less: "rows_ok ls rows files \<Longrightarrow> f \<in> set files \<Longrightarrow> fi_first_row f < length rows"
  using first_row_mem kind_rows_less by blast

lemma files_le_rows: "rows_ok ls rows files \<Longrightarrow> length files \<le> length rows"
  using length_kind_rows [of FileHeader rows] unfolding rows_ok_def by (metis length_map)

lemma nil_files_rows: "rows_ok ls rows [] \<Longrightarrow> rows = []"
  by (cases rows) (auto simp: rows_ok_def)

section \<open>One more row\<close>

lemma rows_ok_add:
  assumes ok: "rows_ok ls rows files" and kind: "ri_kind r \<noteq> FileHeader" "ri_kind r \<noteq> HunkHeader"
    and fl: "unat (ri_file r) < length files" "\<And>x. x \<in> set rows \<Longrightarrow> unat (ri_file x) \<le> unat (ri_file r)"
    and l: "10 \<notin> set l" and r: "numbers_ok r"
  shows "rows_ok (ls @ [l]) (rows @ [r]) files"
proof -
  have "(rows @ [r]) ! fi_first_row (files ! i) = rows ! fi_first_row (files ! i)" if "i < length files" for i
    using first_row_less [OF ok, of "files ! i"] that by (simp add: nth_append)
  then show ?thesis using assms by (auto simp: rows_ok_def sorted_append)
qed

lemma rows_ok_add_hunk:
  assumes ok: "rows_ok ls rows files" and r: "ri_kind r = HunkHeader" "unat (ri_file r) = length files - 1"
    and files: "files \<noteq> []" and l: "10 \<notin> set l" and n: "numbers_ok r"
    and j: "j = length files - 1" and f: "f = (files ! j)\<lparr>fi_hunk_rows := fi_hunk_rows (files ! j) @ [length rows]\<rparr>"
  shows "rows_ok (ls @ [l]) (rows @ [r]) (files[j := f])"
proof -
  have pos: "0 < length files" using files by simp
  have "(rows @ [r]) ! fi_first_row (files ! i) = rows ! fi_first_row (files ! i)" if "i < length files" for i
    using first_row_less [OF ok, of "files ! i"] that by (simp add: nth_append)
  moreover have "map fi_first_row (files[j := f]) = map fi_first_row files"
    using pos by (simp add: map_update f j list_update_same_conv)
  ultimately show ?thesis
    using ok r pos l n unfolding rows_ok_def
    by (auto simp: sorted_append nth_list_update f j less_Suc_eq_le [symmetric])
qed

lemma rows_ok_add_file:
  assumes ok: "rows_ok ls rows files" and r: "ri_kind r = FileHeader" "unat (ri_file r) = length files"
    and l: "10 \<notin> set l" and n: "numbers_ok r"
  shows "rows_ok (ls @ [l]) (rows @ [r]) (files @ [placeholder_info (length ls)])"
proof -
  have "(rows @ [r]) ! fi_first_row (files ! i) = rows ! fi_first_row (files ! i)" if "i < length files" for i
    using first_row_less [OF ok, of "files ! i"] that by (simp add: nth_append)
  moreover have "unat (ri_file (rows ! x)) \<noteq> length files" if "x \<in> set (kind_rows HunkHeader rows)" for x
    using ok nth_mem [OF kind_rows_less [OF that]] by (auto simp: rows_ok_def)
  then have "hunks_of (length files) rows = []" by (simp add: hunks_of_def filter_empty_conv)
  ultimately show ?thesis using assms
    by (auto simp: rows_ok_def sorted_append nth_append placeholder_info_def less_Suc_eq_le)
qed

lemma rows_ok_rewrite:
  assumes ok: "rows_ok ls rows files" and l: "10 \<notin> set l" and i: "i < length files"
    and f: "fi_first_row f = fi_first_row (files ! i)" "fi_hunk_rows f = fi_hunk_rows (files ! i)"
  shows "rows_ok (ls[k := l]) rows (files[i := f])"
proof -
  have "map fi_first_row (files[i := f]) = map fi_first_row files"
    using i f by (simp add: map_update list_update_same_conv)
  then show ?thesis using ok l f i unfolding rows_ok_def
    by (auto simp: nth_list_update dest!: set_update_subset_insert [THEN subsetD])
qed

section \<open>The builder\<close>

definition builder_ok :: "nat \<Rightarrow> builder \<Rightarrow> bool" where
  "builder_ok cap b \<longleftrightarrow>
     b_cap b = cap \<and> document_ok cap (document_of b) \<and> cap < 2 ^ 32 \<and>
     (\<not> b_truncated b \<and> b_lines b \<noteq> [] \<longrightarrow> length (b_lines b) < cap)"

abbreviation ready :: "nat \<Rightarrow> builder \<Rightarrow> bool" where "ready cap b \<equiv> builder_ok cap b \<and> \<not> b_truncated b"

lemma builder_okD:
  assumes "builder_ok cap b"
  shows "rows_ok (b_lines b) (b_rows b) (b_files b)" and "length (b_files b) < 2 ^ 32"
    and "length (b_lines b) = length (b_rows b)"
proof -
  show ok: "rows_ok (b_lines b) (b_rows b) (b_files b)"
    using assms by (simp add: builder_ok_def document_ok_def document_of_def)
  then show len: "length (b_lines b) = length (b_rows b)" by (simp add: rows_ok_def)
  have "length (b_lines b) < 2 ^ 32" using assms by (simp add: builder_ok_def document_ok_def document_of_def)
  then show "length (b_files b) < 2 ^ 32" using files_le_rows [OF ok] len by simp
qed

lemma builder_okI:
  assumes "rows_ok (b_lines b) (b_rows b) (b_files b)" and "\<not> b_truncated b"
    and "length (b_lines b) < cap" and "cap < 2 ^ 32" and "b_cap b = cap"
  shows "builder_ok cap b"
  using assms by (simp add: builder_ok_def document_ok_def document_of_def)

lemma new_builder_ok: "cap < 2 ^ 32 \<Longrightarrow> ready cap (new_builder cap)"
  by (simp add: builder_ok_def document_ok_def document_of_def new_builder_def rows_ok_def kind_rows_def)

lemma unat_of_nat_u32: "n < 2 ^ 32 \<Longrightarrow> unat (of_nat n :: u32) = n"
  by (simp add: unat_of_nat)

lemma unat_last_file:
  assumes "files \<noteq> []" and "length files < 2 ^ 32"
  shows "unat (last_file files) = length files - 1"
proof -
  from assms(1) obtain n where n: "length files = Suc n" by (cases files) auto
  then have "last_file files = of_nat n" by (simp add: last_file_def)
  then show ?thesis using n assms(2) by (simp add: unat_of_nat_u32)
qed

lemma file_bounds: "rows_ok ls rows files \<Longrightarrow> x \<in> set rows \<Longrightarrow> unat (ri_file x) \<le> length files - 1"
  by (fastforce simp: rows_ok_def)

lemma notice_no_nl:
  "10 \<notin> set TRUNCATION_NOTICE" "10 \<notin> set COMBINED_NOTICE" "10 \<notin> set BINARY_NOTICE"
  "10 \<notin> set OUTPUT_CUT_NOTICE"
  by (simp_all add: TRUNCATION_NOTICE_def COMBINED_NOTICE_def BINARY_NOTICE_def OUTPUT_CUT_NOTICE_def str_lit_def)

lemma mark_truncated_frame:
  "b_cap (mark_truncated file b) = b_cap b" "b_files (mark_truncated file b) = b_files b"
  "b_truncated (mark_truncated file b)"
  by (simp_all add: mark_truncated_def Let_def)

lemma mark_truncated_ok:
  assumes b: "ready cap b" and fl: "length (b_files b) - 1 \<le> unat file"
  shows "builder_ok cap (mark_truncated file b)"
proof (cases "b_files b = []")
  case True
  then show ?thesis using b by (simp add: mark_truncated_def Let_def builder_ok_def document_ok_def document_of_def)
next
  case False
  have bok: "builder_ok cap b" and t: "\<not> b_truncated b" using b by auto
  note ok = builder_okD(1) [OF bok] and len = builder_okD(2) [OF bok]
  have "unat (last_file (b_files b)) = length (b_files b) - 1" by (rule unat_last_file [OF False len])
  then have m: "unat (min file (last_file (b_files b))) = length (b_files b) - 1"
    using fl by (simp add: min_def word_le_nat_alt)
  have "b_lines b \<noteq> []" using files_le_rows [OF ok] builder_okD(3) [OF bok] False by auto
  then have less: "length (b_lines b) < cap" using bok t by (simp add: builder_ok_def)
  have "rows_ok (b_lines b @ [TRUNCATION_NOTICE])
          (b_rows b @ [\<lparr>ri_kind = Meta, ri_file = min file (last_file (b_files b)), ri_old_no = None, ri_new_no = None\<rparr>])
          (b_files b)"
    by (rule rows_ok_add [OF ok]) (use False m file_bounds [OF ok] in \<open>auto simp: notice_no_nl numbers_ok_def\<close>)
  then show ?thesis using less False bok t
    by (simp add: mark_truncated_def Let_def builder_ok_def document_ok_def document_of_def)
qed

lemma push_frame:
  assumes "push kind file old new l b = (ok, b')"
  shows "b_cap b' = b_cap b" and "b_files b' = b_files b" and "\<not> ok \<Longrightarrow> b_truncated b'"
    and "ok \<Longrightarrow> \<not> b_truncated b'"
  using assms by (auto simp: push_def mark_truncated_frame split: if_splits)

lemma push_False_ok:
  assumes "builder_ok cap b" and "length (b_files b) - 1 \<le> unat file" and "push kind file old new l b = (False, b')"
  shows "builder_ok cap b'"
  using assms mark_truncated_ok by (auto simp: push_def split: if_splits)

lemma push_True:
  assumes "push kind file old new l b = (True, b')"
  shows "\<not> b_truncated b" and "length (b_lines b) + 1 < b_cap b"
    and "b' = b\<lparr>b_lines := b_lines b @ [clamp_line l],
                b_rows := b_rows b @ [\<lparr>ri_kind = kind, ri_file = file, ri_old_no = old, ri_new_no = new\<rparr>]\<rparr>"
  using assms by (auto simp: push_def split: if_splits)

lemma push_plain_ok:
  assumes b: "builder_ok cap b" and p: "push kind file old new l b = (ok, b')"
    and kind: "kind \<noteq> FileHeader" "kind \<noteq> HunkHeader"
    and n: "numbers_ok \<lparr>ri_kind = kind, ri_file = file, ri_old_no = old, ri_new_no = new\<rparr>"
    and fl: "b_files b \<noteq> []" "unat file = length (b_files b) - 1" and l: "10 \<notin> set l"
  shows "builder_ok cap b'"
proof (cases ok)
  case True
  have pt: "push kind file old new l b = (True, b')" using p True by simp
  note p' = push_True [OF pt]
  note ok = builder_okD(1) [OF b]
  have "rows_ok (b_lines b') (b_rows b') (b_files b')"
    unfolding p'(3) using rows_ok_add [OF ok, of _ "clamp_line l"] kind n fl clamp_line_no_nl [OF l] file_bounds [OF ok]
    by simp
  then show ?thesis by (rule builder_okI) (use p' b in \<open>simp_all add: builder_ok_def\<close>)
next
  case False
  then show ?thesis using push_False_ok [OF b, of "file" kind old new l b'] fl p by simp
qed


section \<open>File sections\<close>

definition opt_no_nl :: "rstr option \<Rightarrow> bool" where
  "opt_no_nl x \<longleftrightarrow> (\<forall>s. x = Some s \<longrightarrow> 10 \<notin> set s)"

definition ctx_ok :: "builder \<Rightarrow> file_ctx \<Rightarrow> bool" where
  "ctx_ok b ctx \<longleftrightarrow>
     b_files b \<noteq> [] \<and> unat (c_index ctx) = length (b_files b) - 1 \<and>
     opt_no_nl (c_git_old ctx) \<and> opt_no_nl (c_git_new ctx) \<and>
     opt_no_nl (Option.bind (c_minus ctx) id) \<and> opt_no_nl (Option.bind (c_plus ctx) id) \<and>
     opt_no_nl (c_rename_from ctx) \<and> opt_no_nl (c_rename_to ctx)"

lemma opt_no_nl_simps [simp]: "opt_no_nl None" "opt_no_nl (Some s) \<longleftrightarrow> 10 \<notin> set s"
  by (simp_all add: opt_no_nl_def)

lemma opt_no_nl_or_else: "opt_no_nl x \<Longrightarrow> opt_no_nl y \<Longrightarrow> opt_no_nl (or_else x y)"
  by (cases x) (simp_all add: or_else_def)

lemma section_header_no_nl: "ctx_ok b ctx \<Longrightarrow> 10 \<notin> set (section_header ctx)"
proof -
  assume "ctx_ok b ctx"
  then have o: "opt_no_nl (old_side ctx)" and n: "opt_no_nl (new_side ctx)"
    by (auto simp: ctx_ok_def old_side_def new_side_def intro!: opt_no_nl_or_else)
  then have "opt_no_nl (or_else (old_side ctx) (new_side ctx))" "opt_no_nl (or_else (new_side ctx) (old_side ctx))"
    by (auto intro!: opt_no_nl_or_else)
  then have p: "10 \<notin> set (section_path ctx)" by (auto simp: section_path_def opt_no_nl_def split: option.split)
  have "opt_no_nl (section_old_path ctx)" using o by (auto simp: section_old_path_def split: option.split)
  moreover have "status_letter s \<noteq> 10" for s by (cases s) simp_all
  ultimately show ?thesis using p by (auto simp: section_header_def str_lit_def split: option.split file_status.split)
qed

lemma finish_file_frame:
  "b_cap (finish_file cur b) = b_cap b" "b_rows (finish_file cur b) = b_rows b"
  "b_truncated (finish_file cur b) = b_truncated b" "length (b_files (finish_file cur b)) = length (b_files b)"
  "length (b_lines (finish_file cur b)) = length (b_lines b)"
  by (auto simp: finish_file_def Let_def update_opt_def split: option.split)

lemma finish_file_ok:
  assumes b: "builder_ok cap b" and c: "\<And>ctx. cur = Some ctx \<Longrightarrow> ctx_ok b ctx"
  shows "builder_ok cap (finish_file cur b)"
proof (cases cur)
  case None
  then show ?thesis using b by (simp add: finish_file_def)
next
  case (Some ctx)
  have ctx: "ctx_ok b ctx" using c Some by simp
  note ok = builder_okD(1) [OF b]
  define i where "i = unat (c_index ctx)"
  define info where "info = b_files b ! i"
  have i: "i < length (b_files b)" using ctx by (simp add: ctx_ok_def i_def)
  then have k: "fi_first_row info < length (b_rows b)" using first_row_less [OF ok] by (simp add: info_def)
  have kk: "ri_kind (b_rows b ! fi_first_row info) = FileHeader"
    using first_row_mem [OF ok] i by (simp add: info_def kind_rows_kind)
  have fin: "finish_file cur b =
      b\<lparr>b_lines := (b_lines b)[fi_first_row info := clamp_line (section_header ctx)],
        b_files := (b_files b)[i := info\<lparr>fi_lang := from_path (section_path ctx), fi_path := section_path ctx,
                              fi_old_path := section_old_path ctx, fi_status := section_status ctx\<rparr>]\<rparr>"
    using Some i k builder_okD(3) [OF b] by (simp add: finish_file_def Let_def i_def [symmetric] info_def [symmetric])
  have "rows_ok (b_lines (finish_file cur b)) (b_rows b) (b_files (finish_file cur b))"
    unfolding fin using rows_ok_rewrite [OF ok clamp_line_no_nl [OF section_header_no_nl [OF ctx]] i]
    by (simp add: info_def)
  moreover have "last (b_lines (finish_file cur b)) = last (b_lines b)"
    if "b_rows b \<noteq> []" "ri_kind (last (b_rows b)) = Meta"
  proof -
    have "fi_first_row info \<noteq> length (b_lines b) - 1"
      using that kk builder_okD(3) [OF b] by (auto simp: last_conv_nth)
    then show ?thesis using that builder_okD(3) [OF b] by (cases "b_lines b = []") (auto simp: fin last_list_update)
  qed
  ultimately show ?thesis
    using b finish_file_frame [of cur b] by (auto simp: builder_ok_def document_ok_def document_of_def)
qed

lemma section_ctx_total:
  assumes "10 \<notin> set (case start of GitStart r \<Rightarrow> r | CombinedStart r \<Rightarrow> r)"
    and "b_files b \<noteq> []" and "unat index = length (b_files b) - 1"
  shows "\<exists>ctx. section_ctx index start = Some ctx \<and> ctx_ok b ctx"
proof (cases start)
  case (GitStart rest)
  then show ?thesis using assms split_git_paths_total [of rest]
    by (auto simp: section_ctx_def ctx_ok_def new_ctx_def opt_no_nl_def)
next
  case (CombinedStart rest)
  then show ?thesis using assms unquote_path_no_nl [of rest] by (simp add: section_ctx_def ctx_ok_def new_ctx_def)
qed

lemma begin_file_ok:
  assumes b: "ready cap b" and start: "10 \<notin> set (case start of GitStart r \<Rightarrow> r | CombinedStart r \<Rightarrow> r)"
  shows "\<exists>c b'. begin_file start b = Some (c, b') \<and> builder_ok cap b' \<and> (\<forall>ctx. c = Some ctx \<longrightarrow> ctx_ok b' ctx) \<and>
                (c \<noteq> None \<longrightarrow> \<not> b_truncated b')"
proof -
  let ?n = "length (b_files b)" and ?i = "of_nat (length (b_files b)) :: u32"
  have bok: "builder_ok cap b" using b by simp
  have idx: "unat ?i = ?n" by (rule unat_of_nat_u32 [OF builder_okD(2) [OF bok]])
  obtain ok1 b1 where one: "(if b_rows b \<noteq> [] then push Spacer (u32_saturating_dec ?i) None None [] b else (True, b)) = (ok1, b1)"
    by fastforce
  have one_ok: "builder_ok cap b1 \<and> b_files b1 = b_files b \<and> (ok1 \<longrightarrow> \<not> b_truncated b1)"
  proof (cases "b_rows b = []")
    case True
    then show ?thesis using one b by auto
  next
    case False
    then have ne: "b_files b \<noteq> []" using nil_files_rows builder_okD(1) [OF bok] by auto
    then have "unat (u32_saturating_dec ?i) = ?n - 1"
      using idx unat_last_file [OF ne builder_okD(2) [OF bok]] by (auto simp: u32_saturating_dec_def last_file_def)
    moreover have "push Spacer (u32_saturating_dec ?i) None None [] b = (ok1, b1)" using one False by simp
    ultimately show ?thesis using push_plain_ok [OF bok] push_frame [of Spacer] ne by (fastforce simp: numbers_ok_def)
  qed
  show ?thesis
  proof (cases ok1)
    case False
    then show ?thesis using one_ok one by (simp add: begin_file_def Let_def)
  next
    case True
    obtain ok2 b2 where two: "push FileHeader ?i None None [] b1 = (ok2, b2)" by fastforce
    show ?thesis
    proof (cases ok2)
      case False
      have "builder_ok cap b2"
        by (rule push_False_ok [of cap b1]) (use one_ok idx two False in auto)
      then show ?thesis using one two True False by (simp add: begin_file_def Let_def)
    next
      case ok2: True
      have two': "push FileHeader ?i None None [] b1 = (True, b2)" using two ok2 by simp
      note b2 = push_True [OF two'] and fr = push_frame [OF two']
      define b3 where "b3 = b2\<lparr>b_files := b_files b2 @ [placeholder_info (length (b_lines b1))]\<rparr>"
      have "rows_ok (b_lines b3) (b_rows b3) (b_files b3)"
        using rows_ok_add_file [OF builder_okD(1) [of cap b1], of "\<lparr>ri_kind = FileHeader, ri_file = ?i, ri_old_no = None, ri_new_no = None\<rparr>" "clamp_line []"]
          one_ok idx clamp_line_no_nl [of "[]"]
        by (simp add: b3_def b2(3) numbers_ok_def)
      then have b3: "builder_ok cap b3"
        by (rule builder_okI) (use b2 fr one_ok in \<open>simp_all add: b3_def builder_ok_def\<close>)
      obtain ctx where ctx: "section_ctx ?i start = Some ctx" "ctx_ok b3 ctx"
        using section_ctx_total [OF start, of b3 ?i] idx one_ok fr by (auto simp: b3_def)
      have "begin_file start b = Some (Some ctx, b3)"
        using one two True ok2 ctx(1) by (simp add: begin_file_def Let_def b3_def)
      moreover have "\<not> b_truncated b3" using fr by (simp add: b3_def)
      ultimately show ?thesis using b3 ctx(2) by auto
    qed
  qed
qed

section \<open>Lines\<close>

definition line_ok :: "nat \<Rightarrow> (file_ctx \<times> builder \<times> mode) option \<Rightarrow> bool" where
  "line_ok cap r \<longleftrightarrow> (\<exists>ctx b md. r = Some (ctx, b, md) \<and> builder_ok cap b \<and> ctx_ok b ctx)"

lemma line_okI: "builder_ok cap b \<Longrightarrow> ctx_ok b ctx \<Longrightarrow> line_ok cap (Some (ctx, b, md))"
  by (simp add: line_ok_def)

lemma ctx_ok_same: "ctx_ok b ctx \<Longrightarrow> length (b_files b') = length (b_files b) \<Longrightarrow> ctx_ok b' ctx"
  by (auto simp: ctx_ok_def)

lemma set_hd_split_char: "c \<in> set (hd (split_char d s)) \<Longrightarrow> c \<in> set s"
proof -
  assume c: "c \<in> set (hd (split_char d s))"
  obtain x xs where x: "split_char d s = x # xs" by (cases "split_char d s") simp_all
  then have "s = join_char d (x # xs)" using join_split_char [of d s] by simp
  with c x show "c \<in> set s" by (cases xs) auto
qed

lemma path_side_total: "10 \<notin> set rest \<Longrightarrow> \<exists>p. path_side rest = Some p \<and> opt_no_nl p"
  using side_path_total [of "hd (split_char 9 rest)"] set_hd_split_char [of 10 9 rest]
  by (auto simp: path_side_def Let_def side_path_def)

lemma push_step:
  assumes b: "builder_ok cap b" and c: "ctx_ok b ctx" and k: "kind \<noteq> FileHeader" "kind \<noteq> HunkHeader"
    and n: "numbers_ok \<lparr>ri_kind = kind, ri_file = c_index ctx, ri_old_no = old, ri_new_no = new\<rparr>"
    and l: "10 \<notin> set l"
  shows "builder_ok cap (snd (push kind (c_index ctx) old new l b))"
    and "ctx_ok b c' \<Longrightarrow> ctx_ok (snd (push kind (c_index ctx) old new l b)) c'"
proof -
  obtain ok b' where p: "push kind (c_index ctx) old new l b = (ok, b')" by fastforce
  show "builder_ok cap (snd (push kind (c_index ctx) old new l b))"
    using push_plain_ok [OF b p k n] c l by (simp add: p ctx_ok_def)
  show "ctx_ok (snd (push kind (c_index ctx) old new l b)) c'" if "ctx_ok b c'"
    using ctx_ok_same [OF that] push_frame [OF p] by (simp add: p)
qed

lemma notice_step:
  assumes b: "builder_ok cap b" and c: "ctx_ok b ctx" and l: "10 \<notin> set l"
  shows "builder_ok cap (push_notice ctx l b)" and "ctx_ok b c' \<Longrightarrow> ctx_ok (push_notice ctx l b) c'"
  unfolding push_notice_def by (intro push_step [OF b c] l; simp add: numbers_ok_def)+

lemma strip_prefix_no_nl: "strip_prefix p s = Some t \<Longrightarrow> 10 \<notin> set s \<Longrightarrow> 10 \<notin> set t"
  by (auto simp: strip_prefix_eq_Some)

text \<open>The four branches of \<open>header_line\<close> with an operand only change the paths of the section.\<close>

lemma ctx_ok_updates [simp]:
  "opt_no_nl p \<Longrightarrow> ctx_ok b ctx \<Longrightarrow> ctx_ok b (ctx\<lparr>c_minus := Some p\<rparr>)"
  "opt_no_nl p \<Longrightarrow> ctx_ok b ctx \<Longrightarrow> ctx_ok b (ctx\<lparr>c_plus := Some p\<rparr>)"
  "10 \<notin> set s \<Longrightarrow> ctx_ok b ctx \<Longrightarrow> ctx_ok b (ctx\<lparr>c_is_rename := True, c_rename_from := Some s\<rparr>)"
  "10 \<notin> set s \<Longrightarrow> ctx_ok b ctx \<Longrightarrow> ctx_ok b (ctx\<lparr>c_is_rename := True, c_rename_to := Some s\<rparr>)"
  "ctx_ok b (ctx\<lparr>c_is_new := x\<rparr>) \<longleftrightarrow> ctx_ok b ctx"
  "ctx_ok b (ctx\<lparr>c_is_deleted := x\<rparr>) \<longleftrightarrow> ctx_ok b ctx"
  "ctx_ok b (ctx\<lparr>c_is_binary := x\<rparr>) \<longleftrightarrow> ctx_ok b ctx"
  "ctx_ok b (ctx\<lparr>c_old_no := n\<rparr>) \<longleftrightarrow> ctx_ok b ctx"
  "ctx_ok b (ctx\<lparr>c_new_no := n\<rparr>) \<longleftrightarrow> ctx_ok b ctx"
  by (simp_all add: ctx_ok_def)

lemma header_line_ok:
  assumes b: "builder_ok cap b" and c: "ctx_ok b ctx" and l: "10 \<notin> set line"
  shows "line_ok cap (header_line line ctx b md)"
proof -
  have side: "\<exists>p. path_side r = Some p \<and> opt_no_nl p" if "strip_prefix q line = Some r" for q r
    using path_side_total [OF strip_prefix_no_nl [OF that l]] .
  have name: "10 \<notin> set (unquote_path r)" if "strip_prefix q line = Some r" for q r
    using unquote_path_no_nl [OF strip_prefix_no_nl [OF that l]] .
  have bin: "line_ok cap (Some (ctx\<lparr>c_is_binary := True\<rparr>, push_notice (ctx\<lparr>c_is_binary := True\<rparr>) BINARY_NOTICE b, m))" for m
    using notice_step [OF b, of "ctx\<lparr>c_is_binary := True\<rparr>" BINARY_NOTICE] c notice_no_nl
    by (auto intro!: line_okI)
  have plain: "line_ok cap (Some (ctx', b, m))" if "ctx_ok b ctx'" for ctx' m using line_okI [OF b that] .
  show ?thesis
  proof (cases "strip_prefix (str_lit ''--- '') line")
    case (Some r)
    then show ?thesis using side [OF Some] plain c by (auto simp: header_line_def)
  next
    case n1: None
    show ?thesis
    proof (cases "strip_prefix (str_lit ''+++ '') line")
      case (Some r)
      then show ?thesis using side [OF Some] plain c n1 by (auto simp: header_line_def)
    next
      case n2: None
      show ?thesis
      proof (cases "strip_prefix (str_lit ''rename from '') line")
        case (Some r)
        then show ?thesis using name [OF Some] plain c n1 n2 by (simp add: header_line_def)
      next
        case n3: None
        show ?thesis
        proof (cases "strip_prefix (str_lit ''rename to '') line")
          case (Some r)
          then show ?thesis using name [OF Some] plain c n1 n2 n3 by (simp add: header_line_def)
        next
          case None
          then show ?thesis using plain c bin n1 n2 n3 by (simp add: header_line_def Let_def)
        qed
      qed
    qed
  qed
qed

lemma body_row_kind:
  "body_row line = Some (k, x) \<Longrightarrow> (k = Context \<or> k = Added \<or> k = Removed) \<and> (10 \<notin> set line \<longrightarrow> 10 \<notin> set x)"
  by (auto simp: body_row_def split: list.splits if_splits)

lemma hunk_line_ok:
  assumes b: "builder_ok cap b" and c: "ctx_ok b ctx" and l: "10 \<notin> set line"
  shows "hunk_line line ctx b old_rem new_rem = None \<or> line_ok cap (hunk_line line ctx b old_rem new_rem)"
proof (cases "starts_with [92] line")
  case True
  then show ?thesis using push_step [OF b c _ _ _ l, of Meta None None] c
    by (auto simp: hunk_line_def numbers_ok_def intro!: line_okI)
next
  case False
  show ?thesis
  proof (cases "body_row line")
    case None
    then show ?thesis using False by (simp add: hunk_line_def)
  next
    case (Some r)
    obtain k x where r: "r = (k, x)" by fastforce
    note k = body_row_kind [OF Some [unfolded r]]
    obtain o' n' ctx' orem nrem where cr: "content_row k ctx old_rem new_rem = (o', n', ctx', orem, nrem)"
      by (cases "content_row k ctx old_rem new_rem") fastforce
    have "numbers_ok \<lparr>ri_kind = k, ri_file = c_index ctx, ri_old_no = o', ri_new_no = n'\<rparr>" "ctx_ok b ctx'"
      using k cr c by (auto simp: content_row_def numbers_ok_def)
    moreover have "k \<noteq> FileHeader" "k \<noteq> HunkHeader" using k by auto
    ultimately show ?thesis using push_step [OF b c, of k o' n' x] k l False Some r cr
      by (auto simp: hunk_line_def intro!: line_okI)
  qed
qed

lemma at_line_ok:
  assumes b: "builder_ok cap b" and c: "ctx_ok b ctx" and l: "10 \<notin> set line"
  shows "line_ok cap (at_line line ctx b md)"
proof (cases "c_combined ctx \<or> starts_with (str_lit ''@@@'') line")
  case True
  then show ?thesis using notice_step [OF b c notice_no_nl(2)] c
    by (auto simp: at_line_def intro!: line_okI)
next
  case False
  show ?thesis
  proof (cases "parse_hunk_header line")
    case None
    then show ?thesis using False b c by (auto simp: at_line_def intro!: line_okI)
  next
    case (Some h)
    obtain os oc ns nc where h: "h = (os, oc, ns, nc)" by (cases h) auto
    obtain ok b' where p: "push HunkHeader (c_index ctx) None None line b = (ok, b')" by fastforce
    have idx: "unat (c_index ctx) = length (b_files b) - 1" "b_files b \<noteq> []" using c by (simp_all add: ctx_ok_def)
    note fr = push_frame [OF p]
    show ?thesis
    proof (cases ok)
      case no: False
      then have "builder_ok cap b'" using push_False_ok [OF b, of "c_index ctx"] p idx by simp
      then show ?thesis using False Some h p no fr ctx_ok_same [OF c, of b']
        by (auto simp: at_line_def intro!: line_okI)
    next
      case True
      have pt: "push HunkHeader (c_index ctx) None None line b = (True, b')" using p True by simp
      note p' = push_True [OF pt]
      define i where "i = length (b_files b) - 1"
      have i: "i < length (b_files b)" using idx by (simp add: i_def)
      define b2 where "b2 = b'\<lparr>b_files := (b_files b)[i := (b_files b ! i)
        \<lparr>fi_hunk_rows := fi_hunk_rows (b_files b ! i) @ [length (b_rows b)]\<rparr>]\<rparr>"
      have add: "add_hunk_row (c_index ctx) (length (b_lines b)) b' = Some b2"
        using i idx fr builder_okD(3) [OF b] by (simp add: add_hunk_row_def b2_def i_def)
      have "rows_ok (b_lines b2) (b_rows b2) (b_files b2)"
        using rows_ok_add_hunk [OF builder_okD(1) [OF b] _ _ idx(2) clamp_line_no_nl [OF l] _ i_def refl,
            of "\<lparr>ri_kind = HunkHeader, ri_file = c_index ctx, ri_old_no = None, ri_new_no = None\<rparr>"] idx
        by (simp add: b2_def p'(3) numbers_ok_def)
      then have "builder_ok cap b2"
        by (rule builder_okI) (use p' b in \<open>simp_all add: b2_def builder_ok_def\<close>)
      moreover have "length (b_files b2) = length (b_files b)" by (simp add: b2_def)
      ultimately show ?thesis using False Some h pt add ctx_ok_same [OF c, of b2]
        by (auto simp: at_line_def Let_def intro!: line_okI)
    qed
  qed
qed

lemma file_line_ok:
  assumes b: "builder_ok cap b" and c: "ctx_ok b ctx" and l: "10 \<notin> set line"
  shows "line_ok cap (file_line line ctx b md)"
proof -
  have s: "line_ok cap (section_line line ctx b m)" for m
    using at_line_ok [OF assms] header_line_ok [OF assms] by (simp add: section_line_def)
  show ?thesis
  proof (cases md)
    case (Hunk x y)
    then show ?thesis using hunk_line_ok [OF assms, of x y] s by (auto simp: file_line_def split: option.split)
  qed (use s b c in \<open>auto simp: file_line_def intro: line_okI\<close>)
qed

section \<open>The loop\<close>

definition state_ok :: "nat \<Rightarrow> parse_state \<Rightarrow> bool" where
  "state_ok cap st \<longleftrightarrow> (case st of (b, cur, _) \<Rightarrow> builder_ok cap b \<and> (\<forall>ctx. cur = Some ctx \<longrightarrow> ctx_ok b ctx))"

lemma file_start_no_nl:
  "file_start line = Some start \<Longrightarrow> 10 \<notin> set line \<Longrightarrow> 10 \<notin> set (case start of GitStart r \<Rightarrow> r | CombinedStart r \<Rightarrow> r)"
  by (auto simp: file_start_def strip_prefix_eq_Some split: option.splits)

lemma parse_step_ok:
  assumes st: "state_ok cap st" and l: "10 \<notin> set raw"
  shows "\<exists>r. parse_step raw st = Some r \<and> (case r of Go s \<Rightarrow> state_ok cap s | Stop s \<Rightarrow> state_ok cap s)"
proof -
  obtain b cur md where s: "st = (b, cur, md)" by (cases st)
  have b: "builder_ok cap b" and c: "\<And>ctx. cur = Some ctx \<Longrightarrow> ctx_ok b ctx" using st s by (auto simp: state_ok_def)
  have l': "10 \<notin> set (strip_cr raw)" using l strip_cr_set by blast
  show ?thesis
  proof (cases "b_truncated b")
    case True
    then show ?thesis using st s by (simp add: parse_step_def)
  next
    case nt: False
    show ?thesis
    proof (cases "file_start (strip_cr raw)")
      case (Some start)
      have "ready cap (finish_file cur b)" using finish_file_ok [OF b c] finish_file_frame nt by simp
      from begin_file_ok [OF this file_start_no_nl [OF Some l']]
      obtain x b' where "begin_file start (finish_file cur b) = Some (x, b')" "builder_ok cap b'"
        "\<And>ctx. x = Some ctx \<Longrightarrow> ctx_ok b' ctx" by blast
      then show ?thesis using s nt Some by (auto simp: parse_step_def state_ok_def split: option.split)
    next
      case None
      then show ?thesis using s nt b c file_line_ok [OF b c l', of _ md]
        by (cases cur) (fastforce simp: parse_step_def state_ok_def line_ok_def)+
    qed
  qed
qed

lemma parse_loop_ok:
  assumes "\<And>l. l \<in> set raws \<Longrightarrow> 10 \<notin> set l" and "state_ok cap st"
  shows "\<exists>st'. parse_loop raws st = Some st' \<and> state_ok cap st'"
  using assms
proof (induction raws arbitrary: st)
  case (Cons raw raws)
  obtain r where r: "parse_step raw st = Some r" "case r of Go s \<Rightarrow> state_ok cap s | Stop s \<Rightarrow> state_ok cap s"
    using parse_step_ok [of cap st raw] Cons.prems by auto
  then show ?case using Cons.IH Cons.prems(1) by (cases r) auto
qed simp

lemma parse_with_cap_ok:
  assumes "cap < 2 ^ 32"
  shows "\<exists>d. parse_unified_diff_with_cap input cap = Some d \<and> document_ok cap d"
proof -
  have "state_ok cap (new_builder cap, None, Outside)" using new_builder_ok [OF assms] by (simp add: state_ok_def)
  then have "\<exists>st. parse_loop (str_lines input) (new_builder cap, None, Outside) = Some st \<and> state_ok cap st"
    by (intro parse_loop_ok str_lines_no_nl)
  then obtain b cur md where p: "parse_loop (str_lines input) (new_builder cap, None, Outside) = Some (b, cur, md)"
    and st: "state_ok cap (b, cur, md)" by auto
  then have "builder_ok cap (finish_file cur b)" using finish_file_ok by (auto simp: state_ok_def)
  then show ?thesis using p builder_okD(3)
    by (auto simp: parse_unified_diff_with_cap_def into_document_def builder_ok_def)
qed

end
