(* ===== verification/Diff_Print.thy ===== *)
theory Diff_Print
  imports Diff_Inv
begin

text \<open>
  A reference printer for diffs of modified files in git's format, the document such a diff stands for, and
  the run of the parser over it: hunk bodies, hunks, file sections. The line numbers and the counts are
  natural numbers here; the parser keeps them in 32 bits.
\<close>

section \<open>The printer\<close>

type_synonym body_line = "row_kind \<times> rstr"
type_synonym hunk = "nat \<times> nat \<times> body_line list"
type_synonym file_diff = "rstr \<times> hunk list"

definition old_count :: "body_line list \<Rightarrow> nat" where
  "old_count body = length (filter (\<lambda>(k, _). k = Context \<or> k = Removed) body)"

definition new_count :: "body_line list \<Rightarrow> nat" where
  "new_count body = length (filter (\<lambda>(k, _). k = Context \<or> k = Added) body)"

definition hunk_header :: "hunk \<Rightarrow> rstr" where
  "hunk_header h = (case h of (o', n, body) \<Rightarrow>
     str_lit ''@@ -'' @ show_nat o' @ str_lit '','' @ show_nat (old_count body) @
     str_lit '' +'' @ show_nat n @ str_lit '','' @ show_nat (new_count body) @ str_lit '' @@'')"

definition print_hunk :: "hunk \<Rightarrow> rstr list" where
  "print_hunk h = hunk_header h # map (\<lambda>(k, l). marker k # l) (snd (snd h))"

definition print_file :: "file_diff \<Rightarrow> rstr list" where
  "print_file f =
     [str_lit ''diff --git a/'' @ fst f @ str_lit '' b/'' @ fst f,
      str_lit ''--- a/'' @ fst f, str_lit ''+++ b/'' @ fst f] @ concat (map print_hunk (snd f))"

definition print_diff :: "file_diff list \<Rightarrow> rstr" where
  "print_diff fs = unlines (concat (map print_file fs))"

section \<open>The document it stands for\<close>

fun number_rows :: "u32 \<Rightarrow> nat \<Rightarrow> nat \<Rightarrow> body_line list \<Rightarrow> row_info list" where
  "number_rows i o' n [] = []"
| "number_rows i o' n ((k, l) # body) =
     (let old = (k = Context \<or> k = Removed); new = (k = Context \<or> k = Added)
      in \<lparr>ri_kind = k, ri_file = i, ri_old_no = if old then Some (of_nat o') else None,
          ri_new_no = if new then Some (of_nat n) else None\<rparr>
         # number_rows i (if old then o' + 1 else o') (if new then n + 1 else n) body)"

definition plain_row :: "row_kind \<Rightarrow> u32 \<Rightarrow> row_info" where
  "plain_row k i = \<lparr>ri_kind = k, ri_file = i, ri_old_no = None, ri_new_no = None\<rparr>"

definition hunk_lines :: "hunk \<Rightarrow> rstr list" where
  "hunk_lines h = hunk_header h # map snd (snd (snd h))"

definition hunk_info :: "u32 \<Rightarrow> hunk \<Rightarrow> row_info list" where
  "hunk_info i h = plain_row HunkHeader i # number_rows i (fst h) (fst (snd h)) (snd (snd h))"

text \<open>The rows of all files, numbered from \<open>i\<close>; a blank row before every file but the first.\<close>

fun diff_lines :: "nat \<Rightarrow> file_diff list \<Rightarrow> rstr list" where
  "diff_lines i [] = []"
| "diff_lines i (f # fs) =
     (if i = 0 then [] else [[]]) @ (str_lit ''M '' @ fst f) # concat (map hunk_lines (snd f)) @ diff_lines (i + 1) fs"

fun diff_rows :: "nat \<Rightarrow> file_diff list \<Rightarrow> row_info list" where
  "diff_rows i [] = []"
| "diff_rows i (f # fs) =
     (if i = 0 then [] else [plain_row Spacer (of_nat (i - 1))]) @ plain_row FileHeader (of_nat i) #
     concat (map (hunk_info (of_nat i)) (snd f)) @ diff_rows (i + 1) fs"

text \<open>Lines as git prints them: one line each, short enough, and no carriage return at the end.\<close>

definition source_line :: "rstr \<Rightarrow> bool" where
  "source_line l \<longleftrightarrow> 10 \<notin> set l \<and> length l \<le> MAX_LINE_CHARS \<and> (l \<noteq> [] \<longrightarrow> last l \<noteq> 13)"

definition hunk_ok :: "hunk \<Rightarrow> bool" where
  "hunk_ok h \<longleftrightarrow> (case h of (o', n, body) \<Rightarrow>
     (\<forall>(k, l) \<in> set body. is_content k \<and> source_line l) \<and>
     o' + length body < 2 ^ 32 \<and> n + length body < 2 ^ 32)"

definition file_ok :: "file_diff \<Rightarrow> bool" where
  "file_ok f \<longleftrightarrow> fst f \<noteq> [] \<and> length (fst f) \<le> MAX_LINE_CHARS - 2 \<and>
     (\<forall>c \<in> set (fst f). c \<noteq> 9 \<and> c \<noteq> 10 \<and> c \<noteq> 13) \<and> (\<forall>h \<in> set (snd f). hunk_ok h)"

section \<open>Lines of a hunk\<close>

lemma clamp_line_short: "length l \<le> MAX_LINE_CHARS \<Longrightarrow> clamp_line l = l"
  by (simp add: clamp_line_def)

lemma strip_cr_last: "l \<noteq> [] \<longrightarrow> last l \<noteq> 13 \<Longrightarrow> strip_cr l = l"
  by (cases "strip_suffix [13] l") (auto simp: strip_cr_def strip_suffix_eq_Some)

definition add_row :: "rstr \<Rightarrow> row_info \<Rightarrow> builder \<Rightarrow> builder" where
  "add_row l r b = b\<lparr>b_lines := b_lines b @ [l], b_rows := b_rows b @ [r]\<rparr>"

definition add_rows :: "rstr list \<Rightarrow> row_info list \<Rightarrow> builder \<Rightarrow> builder" where
  "add_rows ls rs b = b\<lparr>b_lines := b_lines b @ ls, b_rows := b_rows b @ rs\<rparr>"

lemma add_rows_simps [simp]:
  "b_cap (add_rows ls rs b) = b_cap b" "b_files (add_rows ls rs b) = b_files b"
  "b_truncated (add_rows ls rs b) = b_truncated b" "b_lines (add_rows ls rs b) = b_lines b @ ls"
  "b_rows (add_rows ls rs b) = b_rows b @ rs"
  "add_rows ls' rs' (add_rows ls rs b) = add_rows (ls @ ls') (rs @ rs') b" "add_rows [] [] b = b"
  by (simp_all add: add_rows_def)

lemma push_room:
  assumes "\<not> b_truncated b" and "length (b_lines b) + 1 < b_cap b" and "length l \<le> MAX_LINE_CHARS"
  shows "push k i old new l b =
    (True, add_rows [l] [\<lparr>ri_kind = k, ri_file = i, ri_old_no = old, ri_new_no = new\<rparr>] b)"
  using assms by (simp add: push_def add_rows_def clamp_line_short)

lemma file_start_None: "hd line \<noteq> 100 \<Longrightarrow> file_start line = None"
  by (cases line) (simp_all add: file_start_def str_lit_def)

lemma u32_inc: "n + 1 < 2 ^ 32 \<Longrightarrow> u32_saturating_inc (of_nat n) = of_nat (n + 1)"
proof -
  assume n: "n + 1 < 2 ^ 32"
  then have "unat (of_nat n :: u32) \<noteq> unat (2 ^ 32 - 1 :: u32)" by (simp add: unat_of_nat)
  then have "(of_nat n :: u32) \<noteq> 2 ^ 32 - 1" by metis
  then show ?thesis by (simp add: u32_saturating_inc_def)
qed

lemma u32_dec: "u32_saturating_dec (of_nat (Suc n)) = of_nat n" if "Suc n < 2 ^ 32"
proof -
  have "unat (of_nat (Suc n) :: u32) = Suc n" using that unat_of_nat_u32 by blast
  then have "(of_nat (Suc n) :: u32) \<noteq> 0" by (metis nat.distinct(1) unat_0)
  then show ?thesis by (simp add: u32_saturating_dec_def)
qed

text \<open>One line of a body that still has rows to come.\<close>

lemma body_step:
  assumes k: "is_content k" and l: "source_line l"
    and b: "\<not> b_truncated b" "length (b_lines b) + 1 < b_cap b"
    and ctx: "c_old_no ctx = of_nat o'" "c_new_no ctx = of_nat n" "o' + 1 < 2 ^ 32" "n + 1 < 2 ^ 32"
    and body: "length body < 2 ^ 32 - 1"
  defines "old \<equiv> k = Context \<or> k = Removed" and "new \<equiv> k = Context \<or> k = Added"
  shows "parse_step (marker k # l)
      (b, Some ctx, Hunk (of_nat (old_count ((k, l) # body))) (of_nat (new_count ((k, l) # body)))) =
    Some (Go (add_rows [l] (number_rows (c_index ctx) o' n [(k, l)]) b,
      Some (ctx\<lparr>c_old_no := of_nat (if old then o' + 1 else o'), c_new_no := of_nat (if new then n + 1 else n)\<rparr>),
      Hunk (of_nat (old_count body)) (of_nat (new_count body))))"
proof -
  have marker: "marker k \<noteq> 100" "marker k \<noteq> 92" "marker k \<noteq> 13" "marker k = 32 \<or> marker k = 43 \<or> marker k = 45"
    by (cases k; simp add: marker_def)+
  have cr: "strip_cr (marker k # l) = marker k # l" using l marker by (intro strip_cr_last) (simp add: source_line_def)
  have start: "file_start (marker k # l) = None" using marker by (intro file_start_None) simp
  have body': "old_count body < 2 ^ 32 - 1" "new_count body < 2 ^ 32 - 1"
    using body unfolding old_count_def new_count_def by (rule le_less_trans [OF length_filter_le])+
  have pos: "(of_nat (Suc m) :: u32) > 0" if "m < 2 ^ 32 - 1" for m
    using that unat_of_nat_u32 [of "Suc m"] by (simp add: word_less_nat_alt)
  have dec: "u32_saturating_dec (of_nat (Suc m)) = of_nat m" if "m < 2 ^ 32 - 1" for m
    using u32_dec [of m] that by simp
  note inc = u32_inc [OF ctx(3)] u32_inc [OF ctx(4)]
  have len: "length l \<le> MAX_LINE_CHARS" using l by (simp add: source_line_def)
  consider "k = Context" | "k = Added" | "k = Removed" using k by (auto simp: is_content_def)
  then show ?thesis
  proof cases
    case 1
    then show ?thesis using b cr start len ctx inc pos [OF body'(1)] pos [OF body'(2)] dec [OF body'(1)] dec [OF body'(2)]
      by (simp add: parse_step_def file_line_def hunk_line_def starts_with_iff body_row_def marker_def content_row_def
          push_room old_def new_def old_count_def new_count_def del: of_nat_Suc)
  next
    case 2
    then show ?thesis using b cr start len ctx inc pos [OF body'(2)] dec [OF body'(2)]
      by (simp add: parse_step_def file_line_def hunk_line_def starts_with_iff body_row_def marker_def content_row_def
          push_room old_def new_def old_count_def new_count_def del: of_nat_Suc)
  next
    case 3
    then show ?thesis using b cr start len ctx inc pos [OF body'(1)] dec [OF body'(1)]
      by (simp add: parse_step_def file_line_def hunk_line_def starts_with_iff body_row_def marker_def content_row_def
          push_room old_def new_def old_count_def new_count_def del: of_nat_Suc)
  qed
qed

text \<open>A whole body leaves no line owed.\<close>

lemma body_run:
  assumes "\<forall>(k, l) \<in> set body. is_content k \<and> source_line l" and "\<not> b_truncated b"
    and "length (b_lines b) + length body < b_cap b"
    and "c_old_no ctx = of_nat o'" and "c_new_no ctx = of_nat n"
    and "o' + length body < 2 ^ 32" and "n + length body < 2 ^ 32"
  shows "\<exists>x y. parse_loop (map (\<lambda>(k, l). marker k # l) body @ rest)
      (b, Some ctx, Hunk (of_nat (old_count body)) (of_nat (new_count body))) =
    parse_loop rest (add_rows (map snd body) (number_rows (c_index ctx) o' n body) b,
      Some (ctx\<lparr>c_old_no := x, c_new_no := y\<rparr>), Hunk 0 0)"
  using assms
proof (induction body arbitrary: b ctx o' n)
  case Nil
  then have "ctx\<lparr>c_old_no := of_nat o', c_new_no := of_nat n\<rparr> = ctx" by (cases ctx) simp
  then show ?case
    by (intro exI [of _ "of_nat o'"] exI [of _ "of_nat n"]) (simp add: old_count_def new_count_def)
next
  case (Cons kl body)
  obtain k l where kl: "kl = (k, l)" by fastforce
  let ?o = "if k = Context \<or> k = Removed then o' + 1 else o'" and ?n = "if k = Context \<or> k = Added then n + 1 else n"
  let ?b = "add_rows [l] (number_rows (c_index ctx) o' n [(k, l)]) b"
  let ?ctx = "ctx\<lparr>c_old_no := of_nat ?o, c_new_no := of_nat ?n\<rparr>"
  have step: "parse_step (marker k # l)
      (b, Some ctx, Hunk (of_nat (old_count (kl # body))) (of_nat (new_count (kl # body)))) =
    Some (Go (?b, Some ?ctx, Hunk (of_nat (old_count body)) (of_nat (new_count body))))"
    unfolding kl by (rule body_step) (use Cons.prems kl in auto)
  have "\<exists>x y. parse_loop (map (\<lambda>(k, l). marker k # l) body @ rest)
      (?b, Some ?ctx, Hunk (of_nat (old_count body)) (of_nat (new_count body))) =
    parse_loop rest (add_rows (map snd body) (number_rows (c_index ?ctx) ?o ?n body) ?b,
      Some (?ctx\<lparr>c_old_no := x, c_new_no := y\<rparr>), Hunk 0 0)"
    by (rule Cons.IH) (use Cons.prems kl in \<open>auto simp: Let_def\<close>)
  then obtain x y where "parse_loop (map (\<lambda>(k, l). marker k # l) body @ rest)
      (?b, Some ?ctx, Hunk (of_nat (old_count body)) (of_nat (new_count body))) =
    parse_loop rest (add_rows (map snd body) (number_rows (c_index ?ctx) ?o ?n body) ?b,
      Some (?ctx\<lparr>c_old_no := x, c_new_no := y\<rparr>), Hunk 0 0)" by blast
  then show ?case using step kl by (intro exI [of _ x] exI [of _ y]) (simp add: Let_def)
qed

section \<open>Hunk headers\<close>

lemma length_show_nat: "n < 10 ^ k \<Longrightarrow> 0 < k \<Longrightarrow> length (show_nat n) \<le> k"
proof (induction n arbitrary: k rule: show_nat.induct)
  case (1 n)
  show ?case
  proof (cases "n < 10")
    case True
    then show ?thesis using 1 by (simp add: show_nat.simps [of n])
  next
    case False
    then obtain j where k: "k = Suc j" "0 < j" using 1(2,3) by (cases k; cases "k - 1") auto
    then have "n div 10 < 10 ^ j" using 1(2) by (simp add: less_mult_imp_div_less mult.commute)
    then show ?thesis using 1(1) [OF False] k False by (simp add: show_nat.simps [of n])
  qed
qed

lemma show_nat_word: "c \<in> set (show_nat n) \<Longrightarrow> c \<noteq> 32 \<and> c \<noteq> 44 \<and> c \<noteq> 10 \<and> c \<noteq> 13 \<and> \<not> is_whitespace c"
  using show_nat_set [of c n] by (auto simp: is_whitespace_def)

lemma parse_range_printed:
  assumes "a < 2 ^ 32" and "n < 2 ^ 32"
  shows "parse_range (show_nat a @ 44 # show_nat n) = Some (of_nat a, of_nat n)"
proof -
  have "split_once 44 (show_nat a @ 44 # show_nat n) = Some (show_nat a, show_nat n)"
    using show_nat_word [of 44 a] by (auto simp: split_once_eq_Some)
  then show ?thesis using assms by (simp add: parse_range_def parse_u32_show_nat)
qed

lemma find_str_skip: "p \<notin> set s \<Longrightarrow> find_str (p # ps) (s @ t) = map_option ((@) s) (find_str (p # ps) t)"
proof (induction s)
  case Nil
  then show ?case by (cases "find_str (p # ps) t") simp_all
next
  case (Cons a s)
  then show ?case
    by (cases "find_str (p # ps) t") (auto simp: find_str.simps [of "p # ps" "a # s @ t"] starts_with_iff)
qed

lemma find_str_here: "find_str p (p @ t) = Some []"
  by (subst find_str.simps) (simp add: starts_with_iff)

lemma find_str_miss: "ps = c # cs \<Longrightarrow> c \<noteq> d \<Longrightarrow> find_str (p # ps) (p # d # t) = map_option ((#) p) (find_str (p # ps) (d # t))"
  by (subst find_str.simps) (simp add: starts_with_iff)

lemma parse_hunk_header_printed:
  assumes "o' < 2 ^ 32" "n < 2 ^ 32" "old_count body < 2 ^ 32" "new_count body < 2 ^ 32"
  shows "parse_hunk_header (hunk_header (o', n, body)) =
    Some (of_nat o', of_nat (old_count body), of_nat n, of_nat (new_count body))"
proof -
  define l where "l = 45 # show_nat o' @ 44 # show_nat (old_count body)"
  define r where "r = show_nat n @ 44 # show_nat (new_count body)"
  have nosp: "32 \<notin> set l" "32 \<notin> set r" "32 \<notin> set (43 # r)" by (auto simp: l_def r_def dest: show_nat_word)
  have ranges: "find_str (str_lit '' @@'') (l @ 32 # (43 # r) @ str_lit '' @@'') = Some (l @ 32 # 43 # r)"
    using find_str_here [of "[32, 64, 64]" "[]"]
    by (simp add: str_lit_def find_str_skip [OF nosp(1)] find_str_miss
        find_str_skip [OF nosp(3), simplified])
  have "hunk_header (o', n, body) = str_lit ''@@ '' @ (l @ 32 # (43 # r) @ str_lit '' @@'')"
    by (simp add: hunk_header_def l_def r_def str_lit_def)
  then have rest: "strip_prefix (str_lit ''@@ '') (hunk_header (o', n, body)) = Some (l @ 32 # (43 # r) @ str_lit '' @@'')"
    by (simp only: strip_prefix_eq_Some)
  have ws: "\<not> is_whitespace c" if "c \<in> set l \<or> c \<in> set (43 # r)" for c
    using that by (auto simp: l_def r_def dest: show_nat_word) (simp_all add: is_whitespace_def)
  have sp: "is_whitespace 32" by (simp add: is_whitespace_def)
  have "split_whitespace (l @ 32 # 43 # r) = l # split_whitespace (32 # (43 # r) @ [])"
    using split_whitespace_word [of l "32 # 43 # r"] ws sp by (auto simp: l_def)
  also have "\<dots> = [l, 43 # r]"
    using split_whitespace_word [of "43 # r" "[]"] ws sp by (simp add: split_whitespace_skip)
  finally have words: "split_whitespace (l @ 32 # 43 # r) = [l, 43 # r]" .
  have "parse_range (tl l) = Some (of_nat o', of_nat (old_count body))" "parse_range r = Some (of_nat n, of_nat (new_count body))"
    using assms by (simp_all add: l_def r_def parse_range_printed)
  then show ?thesis using ranges rest words
    by (simp add: parse_hunk_header_def nth_opt_def) (simp add: l_def)
qed

lemma hunk_header_source_line:
  assumes "o' < 2 ^ 32" "n < 2 ^ 32" "old_count body < 2 ^ 32" "new_count body < 2 ^ 32"
  shows "source_line (hunk_header (o', n, body))"
proof -
  have digits: "length (show_nat m) \<le> 10" if "m < 2 ^ 32" for m using length_show_nat [of m 10] that by simp
  then have "length (hunk_header (o', n, body)) \<le> 100"
    using digits [OF assms(1)] digits [OF assms(2)] digits [OF assms(3)] digits [OF assms(4)]
    by (simp add: hunk_header_def str_lit_def)
  then show ?thesis
    by (auto simp: source_line_def MAX_LINE_CHARS_def) (auto simp: hunk_header_def str_lit_def dest: show_nat_word)
qed

section \<open>Hunks\<close>

definition grow :: "rstr list \<Rightarrow> row_info list \<Rightarrow> file_info list \<Rightarrow> builder \<Rightarrow> builder" where
  "grow ls rs files b = b\<lparr>b_lines := b_lines b @ ls, b_rows := b_rows b @ rs, b_files := files\<rparr>"

lemma grow_simps [simp]:
  "b_cap (grow ls rs F b) = b_cap b" "b_files (grow ls rs F b) = F"
  "b_truncated (grow ls rs F b) = b_truncated b" "b_lines (grow ls rs F b) = b_lines b @ ls"
  "b_rows (grow ls rs F b) = b_rows b @ rs"
  "grow ls' rs' F' (grow ls rs F b) = grow (ls @ ls') (rs @ rs') F' b"
  "add_rows ls' rs' (grow ls rs F b) = grow (ls @ ls') (rs @ rs') F b"
  "grow ls' rs' F (add_rows ls rs b) = grow (ls @ ls') (rs @ rs') F b"
  "grow [] [] (b_files b) b = b"
  by (simp_all add: grow_def add_rows_def)

lemma add_rows_files: "(add_rows ls rs b)\<lparr>b_files := F\<rparr> = grow ls rs F b"
  by (simp add: grow_def add_rows_def)

text \<open>A hunk body is over when no line is owed; the parser is then as it is between hunks.\<close>

definition between :: "mode \<Rightarrow> bool" where
  "between md \<longleftrightarrow> md = Header \<or> md = Hunk 0 0"

lemma file_line_between:
  assumes "between md" and "hd line \<noteq> 92" and "line \<noteq> []"
  shows "file_line line ctx b md = section_line line ctx b Header"
proof -
  have "\<not> starts_with [92] line" using assms(2,3) by (auto simp: starts_with_iff)
  then show ?thesis using assms(1) by (auto simp: between_def file_line_def hunk_line_def)
qed

lemma counts_le: "old_count body \<le> length body" "new_count body \<le> length body"
  by (simp_all add: old_count_def new_count_def)

lemma hunk_step:
  assumes md: "between md" and h: "hunk_ok (o', n, body)"
    and b: "\<not> b_truncated b" "length (b_lines b) + 1 < b_cap b" "b_files b = F @ [info]"
    and ctx: "\<not> c_combined ctx" "unat (c_index ctx) = length F"
  shows "parse_step (hunk_header (o', n, body)) (b, Some ctx, md) =
    Some (Go (grow [hunk_header (o', n, body)] [plain_row HunkHeader (c_index ctx)]
        (F @ [info\<lparr>fi_hunk_rows := fi_hunk_rows info @ [length (b_lines b)]\<rparr>]) b,
      Some (ctx\<lparr>c_old_no := of_nat o', c_new_no := of_nat n\<rparr>),
      Hunk (of_nat (old_count body)) (of_nat (new_count body))))"
proof -
  let ?l = "hunk_header (o', n, body)"
  have lt: "o' < 2 ^ 32" "n < 2 ^ 32" "old_count body < 2 ^ 32" "new_count body < 2 ^ 32"
    using h counts_le [of body] by (auto simp: hunk_ok_def)
  note ph = parse_hunk_header_printed [OF lt]
  have sl: "source_line ?l" by (rule hunk_header_source_line [OF lt])
  obtain r where l: "?l = 64 # 64 # 32 # r" by (simp add: hunk_header_def str_lit_def)
  have cr: "strip_cr ?l = ?l" and len: "length ?l \<le> MAX_LINE_CHARS"
    using sl by (simp_all add: source_line_def strip_cr_last)
  have start: "file_start ?l = None" by (rule file_start_None) (simp add: l)
  have at: "starts_with (str_lit ''@@'') ?l" "\<not> starts_with (str_lit ''@@@'') ?l"
    by (simp_all add: l starts_with_iff str_lit_def)
  have "file_line ?l ctx b md = section_line ?l ctx b Header"
    by (rule file_line_between [OF md]) (simp_all add: l)
  then show ?thesis using b ctx cr start at ph push_room [OF b(1,2) len]
    by (simp add: parse_step_def section_line_def at_line_def add_hunk_row_def plain_row_def add_rows_files)
qed

lemma hunk_run:
  assumes md: "between md" and h: "hunk_ok h"
    and b: "\<not> b_truncated b" "length (b_lines b) + length (hunk_lines h) < b_cap b" "b_files b = F @ [info]"
    and ctx: "\<not> c_combined ctx" "unat (c_index ctx) = length F"
  shows "\<exists>x y hr. parse_loop (print_hunk h @ rest) (b, Some ctx, md) =
    parse_loop rest (grow (hunk_lines h) (hunk_info (c_index ctx) h) (F @ [info\<lparr>fi_hunk_rows := hr\<rparr>]) b,
      Some (ctx\<lparr>c_old_no := x, c_new_no := y\<rparr>), Hunk 0 0)"
proof -
  obtain o' n body where h': "h = (o', n, body)" by (cases h)
  let ?hr = "fi_hunk_rows info @ [length (b_lines b)]"
  let ?b = "grow [hunk_header h] [plain_row HunkHeader (c_index ctx)] (F @ [info\<lparr>fi_hunk_rows := ?hr\<rparr>]) b"
  let ?ctx = "ctx\<lparr>c_old_no := of_nat o', c_new_no := of_nat n\<rparr>"
  have step: "parse_step (hunk_header h) (b, Some ctx, md) =
      Some (Go (?b, Some ?ctx, Hunk (of_nat (old_count body)) (of_nat (new_count body))))"
    unfolding h' by (rule hunk_step [OF md h [unfolded h'] b(1) _ b(3) ctx]) (use b(2) in \<open>simp add: hunk_lines_def\<close>)
  have "\<exists>x y. parse_loop (map (\<lambda>(k, l). marker k # l) body @ rest)
      (?b, Some ?ctx, Hunk (of_nat (old_count body)) (of_nat (new_count body))) =
    parse_loop rest (add_rows (map snd body) (number_rows (c_index ?ctx) o' n body) ?b,
      Some (?ctx\<lparr>c_old_no := x, c_new_no := y\<rparr>), Hunk 0 0)"
    by (rule body_run) (use h b in \<open>simp_all add: h' hunk_ok_def hunk_lines_def\<close>)
  then obtain x y where "parse_loop (map (\<lambda>(k, l). marker k # l) body @ rest)
      (?b, Some ?ctx, Hunk (of_nat (old_count body)) (of_nat (new_count body))) =
    parse_loop rest (add_rows (map snd body) (number_rows (c_index ?ctx) o' n body) ?b,
      Some (?ctx\<lparr>c_old_no := x, c_new_no := y\<rparr>), Hunk 0 0)" by blast
  then show ?thesis using step
    by (simp add: h' print_hunk_def hunk_lines_def hunk_info_def) blast
qed

lemma hunks_run:
  assumes "between md" and "\<And>h. h \<in> set hs \<Longrightarrow> hunk_ok h"
    and "\<not> b_truncated b" "length (b_lines b) + length (concat (map hunk_lines hs)) < b_cap b"
      "b_files b = F @ [info]"
    and "\<not> c_combined ctx" "unat (c_index ctx) = length F"
  shows "\<exists>x y hr md'. between md' \<and> parse_loop (concat (map print_hunk hs) @ rest) (b, Some ctx, md) =
    parse_loop rest (grow (concat (map hunk_lines hs)) (concat (map (hunk_info (c_index ctx)) hs))
      (F @ [info\<lparr>fi_hunk_rows := hr\<rparr>]) b,
      Some (ctx\<lparr>c_old_no := x, c_new_no := y\<rparr>), md')"
  using assms
proof (induction hs arbitrary: b ctx md info)
  case Nil
  have ctx: "ctx\<lparr>c_old_no := c_old_no ctx, c_new_no := c_new_no ctx\<rparr> = ctx" by (cases ctx) simp
  have info: "info\<lparr>fi_hunk_rows := fi_hunk_rows info\<rparr> = info" by (cases info) simp
  have b: "grow [] [] (F @ [info]) b = b" using Nil(5) grow_simps(9) [of b] by simp
  show ?case
    by (rule exI [of _ "c_old_no ctx"], rule exI [of _ "c_new_no ctx"], rule exI [of _ "fi_hunk_rows info"],
        rule exI [of _ md]) (use Nil(1) in \<open>simp add: ctx info b\<close>)
next
  case (Cons h hs)
  obtain x y hr where one: "parse_loop (print_hunk h @ concat (map print_hunk hs) @ rest) (b, Some ctx, md) =
    parse_loop (concat (map print_hunk hs) @ rest)
      (grow (hunk_lines h) (hunk_info (c_index ctx) h) (F @ [info\<lparr>fi_hunk_rows := hr\<rparr>]) b,
      Some (ctx\<lparr>c_old_no := x, c_new_no := y\<rparr>), Hunk 0 0)"
    using hunk_run [of md h b F info ctx "concat (map print_hunk hs) @ rest"] Cons.prems by fastforce
  let ?b = "grow (hunk_lines h) (hunk_info (c_index ctx) h) (F @ [info\<lparr>fi_hunk_rows := hr\<rparr>]) b"
  let ?ctx = "ctx\<lparr>c_old_no := x, c_new_no := y\<rparr>"
  have "\<exists>x y hr' md'. between md' \<and> parse_loop (concat (map print_hunk hs) @ rest) (?b, Some ?ctx, Hunk 0 0) =
    parse_loop rest (grow (concat (map hunk_lines hs)) (concat (map (hunk_info (c_index ?ctx)) hs))
      (F @ [(info\<lparr>fi_hunk_rows := hr\<rparr>)\<lparr>fi_hunk_rows := hr'\<rparr>]) ?b,
      Some (?ctx\<lparr>c_old_no := x, c_new_no := y\<rparr>), md')"
    by (rule Cons.IH) (use Cons.prems in \<open>auto simp: between_def\<close>)
  then show ?case using one by simp
qed

section \<open>File sections\<close>

definition file_entry :: "rstr \<Rightarrow> nat \<Rightarrow> nat list \<Rightarrow> file_info" where
  "file_entry p k hr =
     \<lparr>fi_path = p, fi_old_path = None, fi_status = FileModified, fi_first_row = k, fi_hunk_rows = hr,
      fi_lang = from_path p\<rparr>"

lemma path_side_printed:
  assumes "file_ok f"
  shows "path_side (97 # 47 # fst f) = Some (Some (fst f))" "path_side (98 # 47 # fst f) = Some (Some (fst f))"
proof -
  have "path_side (c # 47 # fst f) = Some (Some (fst f))" if "c = 97 \<or> c = 98" for c
  proof -
    have "split_char 9 (c # 47 # fst f) = [c # 47 # fst f]"
      using assms that by (intro split_char_id) (auto simp: file_ok_def)
    moreover have "unquote_path (c # 47 # fst f) = c # 47 # fst f"
      using that by (auto simp: unquote_path_def)
    moreover have "0 < blen (fst f)" using assms by (intro gr0I) (simp add: file_ok_def)
    then have "strip_side_prefix (c # 47 # fst f) = Some (fst f)"
      using that slice_from_append [of "[c, 47]" "fst f"]
      by (auto simp: strip_side_prefix_def Let_def utf8_char_def byte_def byte_lit_def len_utf8_def numeral_2_eq_2)
    moreover have "c # 47 # fst f \<noteq> str_lit ''/dev/null''" using that by (auto simp: str_lit_def)
    ultimately show ?thesis by (simp add: path_side_def)
  qed
  then show "path_side (97 # 47 # fst f) = Some (Some (fst f))" "path_side (98 # 47 # fst f) = Some (Some (fst f))"
    by simp_all
qed

lemma file_ok_line:
  assumes "file_ok f" and "10 \<notin> set q" 
  shows "strip_cr (q @ fst f) = q @ fst f" "10 \<notin> set (q @ fst f)"
  using assms by (auto intro!: strip_cr_last simp: file_ok_def)

text \<open>The section header, from the state the previous section is finished in.\<close>

definition opened :: "nat \<Rightarrow> builder \<Rightarrow> builder" where
  "opened i b = grow (if i = 0 then [[]] else [[], []])
     (if i = 0 then [plain_row FileHeader 0] else [plain_row Spacer (of_nat (i - 1)), plain_row FileHeader (of_nat i)])
     (b_files b @ [placeholder_info (length (b_lines b) + (if i = 0 then 0 else 1))]) b"

lemma begin_file_printed:
  assumes b: "\<not> b_truncated b" "length (b_lines b) + 2 < b_cap b" "b_rows b = [] \<longleftrightarrow> b_files b = []"
    and i: "i = length (b_files b)" "i < 2 ^ 32" and r: "10 \<notin> set r"
  shows "\<exists>old new. begin_file (GitStart r) b = Some (Some (new_ctx (of_nat i) False old new), opened i b)"
proof -
  obtain old new where s: "split_git_paths r = Some (old, new)" using split_git_paths_total [OF r] by blast
  have room: "length ([] :: rstr) \<le> MAX_LINE_CHARS" by simp
  show ?thesis
  proof (intro exI, cases "i = 0")
    case True
    then show "begin_file (GitStart r) b = Some (Some (new_ctx (of_nat i) False old new), opened i b)"
      using b i s push_room [OF b(1) _ room] by (simp add: begin_file_def opened_def section_ctx_def plain_row_def add_rows_files)
  next
    case False
    then obtain j where j: "i = Suc j" by (cases i) simp_all
    then have "b_files b \<noteq> []" "length (b_files b) = Suc j" "u32_saturating_dec (of_nat (Suc j)) = of_nat j"
      using i u32_dec [of j] by auto
    then show "begin_file (GitStart r) b = Some (Some (new_ctx (of_nat i) False old new), opened i b)"
      using b j s False push_room [of b, OF b(1) _ room] push_room [OF _ _ room]
      by (simp add: Let_def begin_file_def opened_def section_ctx_def plain_row_def add_rows_files)
  qed
qed

lemma section_start:
  assumes f: "file_ok f" and b: "\<not> b_truncated b" "length (b_lines b) + 2 < b_cap b"
    "b_rows (finish_file cur b) = [] \<longleftrightarrow> b_files (finish_file cur b) = []"
    and i: "i = length (b_files b)" "i < 2 ^ 32"
  shows "\<exists>old new. parse_loop (print_file f @ rest) (b, cur, md) =
    parse_loop (concat (map print_hunk (snd f)) @ rest)
      (opened i (finish_file cur b),
       Some ((new_ctx (of_nat i) False old new)\<lparr>c_minus := Some (Some (fst f)), c_plus := Some (Some (fst f))\<rparr>), Header)"
proof -
  let ?g = "str_lit ''diff --git a/'' @ fst f @ str_lit '' b/'' @ fst f"
  let ?r = "str_lit ''a/'' @ fst f @ str_lit '' b/'' @ fst f"
  have f': "10 \<notin> set (fst f)" "fst f \<noteq> []" "last (fst f) \<noteq> 13" using f by (auto simp: file_ok_def)
  have "strip_prefix (str_lit ''diff --git '') ?g = Some ?r" by (simp add: strip_prefix_eq_Some str_lit_def)
  then have start: "file_start ?g = Some (GitStart ?r)" by (simp add: file_start_def)
  have g: "strip_cr ?g = ?g" using f' by (intro strip_cr_last) simp
  have nl: "10 \<notin> set ?r" using f' by (simp add: str_lit_def)
  obtain old new where "begin_file (GitStart ?r) (finish_file cur b) =
      Some (Some (new_ctx (of_nat i) False old new), opened i (finish_file cur b))"
    using begin_file_printed [of "finish_file cur b" i ?r] b i nl finish_file_frame [of cur b] by auto
  then have s1: "parse_step ?g (b, cur, md) =
      Some (Go (opened i (finish_file cur b), Some (new_ctx (of_nat i) False old new), Header))"
    using start g b(1) by (simp add: parse_step_def)
  have nt: "\<not> b_truncated (opened i (finish_file cur b))" using b(1) by (simp add: opened_def finish_file_frame)
  have s2: "parse_step (str_lit ''--- a/'' @ fst f) (b', Some ctx, Header) =
      Some (Go (b', Some (ctx\<lparr>c_minus := Some (Some (fst f))\<rparr>), Header))"
    "parse_step (str_lit ''+++ b/'' @ fst f) (b', Some ctx, Header) =
      Some (Go (b', Some (ctx\<lparr>c_plus := Some (Some (fst f))\<rparr>), Header))" if "\<not> b_truncated b'" for b' ctx
    using that f' path_side_printed [OF f]
    by (simp_all add: parse_step_def strip_cr_last file_start_None file_line_def section_line_def starts_with_iff header_line_def
        str_lit_def)
  show ?thesis
    using s1 s2 [OF nt] by (auto simp: print_file_def intro!: exI)
qed

lemma finish_printed:
  assumes "b_files b = F @ [(placeholder_info k)\<lparr>fi_hunk_rows := hr\<rparr>]" and "unat (c_index ctx) = length F"
    and "c_minus ctx = Some (Some p)" "c_plus ctx = Some (Some p)"
    and "\<not> c_is_binary ctx" "\<not> c_is_rename ctx" "\<not> c_is_new ctx" "\<not> c_is_deleted ctx"
    and "b_lines b = l1 @ [] # l2" "k = length l1" "length p \<le> MAX_LINE_CHARS - 2"
  shows "finish_file (Some ctx) b = b\<lparr>b_files := F @ [file_entry p k hr], b_lines := l1 @ (str_lit ''M '' @ p) # l2\<rparr>"
proof -
  have st: "section_status ctx = FileModified" using assms by (simp add: section_status_def)
  then have path: "section_path ctx = p" "section_old_path ctx = None"
    using assms(3,4) by (simp_all add: section_path_def section_old_path_def old_side_def new_side_def or_else_def)
  then have "section_header ctx = str_lit ''M '' @ p" using st by (simp add: section_header_def str_lit_def)
  moreover have "clamp_line (str_lit ''M '' @ p) = str_lit ''M '' @ p"
    by (rule clamp_line_short) (use assms in \<open>simp add: str_lit_def MAX_LINE_CHARS_def\<close>)
  ultimately show ?thesis using assms(1,2,9,10) path st
    by (simp add: finish_file_def Let_def placeholder_info_def file_entry_def)
qed

lemma file_run:
  assumes f: "file_ok f" and b: "\<not> b_truncated b" "length (b_lines b) + length (diff_lines i [f]) + 1 < b_cap b"
    "b_rows (finish_file cur b) = [] \<longleftrightarrow> b_files (finish_file cur b) = []"
    and i: "i = length (b_files b)" "i < 2 ^ 32"
  shows "\<exists>b1 ctx md' k hr. parse_loop (print_file f @ rest) (b, cur, md) = parse_loop rest (b1, Some ctx, md') \<and>
    finish_file (Some ctx) b1 =
      grow (diff_lines i [f]) (diff_rows i [f]) (b_files (finish_file cur b) @ [file_entry (fst f) k hr]) (finish_file cur b)"
proof -
  let ?b0 = "finish_file cur b"
  define k where "k = length (b_lines b) + (if i = 0 then 0 else 1)"
  have room: "length (b_lines b) + 2 < b_cap b" using b(2) by simp
  obtain old new where start: "parse_loop (print_file f @ rest) (b, cur, md) =
    parse_loop (concat (map print_hunk (snd f)) @ rest) (opened i ?b0,
       Some ((new_ctx (of_nat i) False old new)\<lparr>c_minus := Some (Some (fst f)), c_plus := Some (Some (fst f))\<rparr>), Header)"
    using section_start [OF f b(1) room b(3) i] by blast
  let ?ctx = "(new_ctx (of_nat i) False old new)\<lparr>c_minus := Some (Some (fst f)), c_plus := Some (Some (fst f))\<rparr>"
  have F: "b_files (opened i ?b0) = b_files ?b0 @ [placeholder_info k]" "length (b_files ?b0) = i"
    using i by (simp_all add: opened_def k_def finish_file_frame)
  have idx: "unat (c_index ?ctx) = length (b_files ?b0)" using F(2) unat_of_nat_u32 [OF i(2)] by (simp add: new_ctx_def)
  have comb: "\<not> c_combined ?ctx" by (simp add: new_ctx_def)
  have op: "\<not> b_truncated (opened i ?b0)"
    "length (b_lines (opened i ?b0)) + length (concat (map hunk_lines (snd f))) < b_cap (opened i ?b0)"
    using b(1,2) by (auto simp: opened_def finish_file_frame)
  obtain x y hr md' where run: "parse_loop (concat (map print_hunk (snd f)) @ rest) (opened i ?b0, Some ?ctx, Header) =
    parse_loop rest (grow (concat (map hunk_lines (snd f))) (concat (map (hunk_info (c_index ?ctx)) (snd f)))
        (b_files ?b0 @ [(placeholder_info k)\<lparr>fi_hunk_rows := hr\<rparr>]) (opened i ?b0),
      Some (?ctx\<lparr>c_old_no := x, c_new_no := y\<rparr>), md')"
    using hunks_run [of Header "snd f" "opened i ?b0" "b_files ?b0" "placeholder_info k" ?ctx rest, OF _ _ op F(1) comb idx] f
    by (auto simp: between_def file_ok_def)
  let ?b1 = "grow (concat (map hunk_lines (snd f))) (concat (map (hunk_info (c_index ?ctx)) (snd f)))
        (b_files ?b0 @ [(placeholder_info k)\<lparr>fi_hunk_rows := hr\<rparr>]) (opened i ?b0)"
  have "finish_file (Some (?ctx\<lparr>c_old_no := x, c_new_no := y\<rparr>)) ?b1 =
      ?b1\<lparr>b_files := b_files ?b0 @ [file_entry (fst f) k hr],
          b_lines := (b_lines ?b0 @ (if i = 0 then [] else [[]])) @ (str_lit ''M '' @ fst f) # concat (map hunk_lines (snd f))\<rparr>"
    by (rule finish_printed) (use f idx in \<open>simp_all add: new_ctx_def opened_def k_def finish_file_frame file_ok_def\<close>)
  also have "\<dots> = grow (diff_lines i [f]) (diff_rows i [f]) (b_files ?b0 @ [file_entry (fst f) k hr]) ?b0"
    by (simp add: grow_def opened_def new_ctx_def)
  finally have fin: "finish_file (Some (?ctx\<lparr>c_old_no := x, c_new_no := y\<rparr>)) ?b1 = \<dots>" .
  show ?thesis
    by (rule exI [of _ ?b1], rule exI [of _ "?ctx\<lparr>c_old_no := x, c_new_no := y\<rparr>"], rule exI [of _ md'],
        rule exI [of _ k], rule exI [of _ hr], rule conjI [OF trans [OF start run] fin])
qed

definition is_modified :: "file_info \<Rightarrow> bool" where
  "is_modified e \<longleftrightarrow> fi_status e = FileModified \<and> fi_old_path e = None \<and> fi_lang e = from_path (fi_path e)"

lemma diff_lines_Cons: "diff_lines i (f # fs) = diff_lines i [f] @ diff_lines (i + 1) fs"
  and diff_rows_Cons: "diff_rows i (f # fs) = diff_rows i [f] @ diff_rows (i + 1) fs"
  by simp_all

lemma files_run:
  assumes "\<And>f. f \<in> set fs \<Longrightarrow> file_ok f" and "\<not> b_truncated b"
    and "length (b_lines b) + length (diff_lines i fs) + 1 < b_cap b"
    and "b_rows (finish_file cur b) = [] \<longleftrightarrow> b_files (finish_file cur b) = []"
    and "i = length (b_files b)" "i + length fs < 2 ^ 32"
  shows "\<exists>b1 cur1 md1 es. parse_loop (concat (map print_file fs)) (b, cur, md) = Some (b1, cur1, md1) \<and>
    finish_file cur1 b1 = grow (diff_lines i fs) (diff_rows i fs) (b_files (finish_file cur b) @ es) (finish_file cur b) \<and>
    map fi_path es = map fst fs \<and> (\<forall>e \<in> set es. is_modified e)"
  using assms
proof (induction fs arbitrary: b cur md i)
  case Nil
  then show ?case by (intro exI [of _ b] exI [of _ cur] exI [of _ md] exI [of _ "[]"]) simp
next
  case (Cons f fs)
  let ?b0 = "finish_file cur b"
  have len: "length (b_lines b) + length (diff_lines i [f]) + length (diff_lines (i + 1) fs) + 1 < b_cap b"
    using Cons.prems(3) unfolding diff_lines_Cons [of i f fs] by simp
  obtain b1 ctx md' k hr where
    one: "parse_loop (print_file f @ concat (map print_file fs)) (b, cur, md) =
      parse_loop (concat (map print_file fs)) (b1, Some ctx, md')"
    and fin: "finish_file (Some ctx) b1 =
      grow (diff_lines i [f]) (diff_rows i [f]) (b_files ?b0 @ [file_entry (fst f) k hr]) ?b0"
    using file_run [of f b i cur "concat (map print_file fs)" md] Cons.prems len by auto
  have fr: "b_truncated b1 = b_truncated ?b0" "b_cap b1 = b_cap b" "length (b_files b1) = i + 1"
    "length (b_lines b1) = length (b_lines b) + length (diff_lines i [f])"
    using finish_file_frame [of "Some ctx" b1] finish_file_frame [of cur b] Cons.prems(5) by (simp_all add: fin)
  have "\<exists>b2 cur2 md2 es. parse_loop (concat (map print_file fs)) (b1, Some ctx, md') = Some (b2, cur2, md2) \<and>
    finish_file cur2 b2 = grow (diff_lines (i + 1) fs) (diff_rows (i + 1) fs) (b_files (finish_file (Some ctx) b1) @ es)
      (finish_file (Some ctx) b1) \<and>
    map fi_path es = map fst fs \<and> (\<forall>e \<in> set es. is_modified e)"
    by (rule Cons.IH) (use Cons.prems len fr fin finish_file_frame [of cur b] in auto)
  then obtain b2 cur2 md2 es where two:
    "parse_loop (concat (map print_file fs)) (b1, Some ctx, md') = Some (b2, cur2, md2)"
    "finish_file cur2 b2 = grow (diff_lines (i + 1) fs) (diff_rows (i + 1) fs) (b_files (finish_file (Some ctx) b1) @ es)
      (finish_file (Some ctx) b1)"
    "map fi_path es = map fst fs" "\<forall>e \<in> set es. is_modified e" by blast
  have "finish_file cur2 b2 = grow (diff_lines i (f # fs)) (diff_rows i (f # fs)) (b_files ?b0 @ file_entry (fst f) k hr # es) ?b0"
    unfolding two(2) fin diff_lines_Cons [of i f fs] diff_rows_Cons [of i f fs] by simp
  moreover have "parse_loop (concat (map print_file (f # fs))) (b, cur, md) = Some (b2, cur2, md2)"
    using one two(1) by simp
  moreover have "map fi_path (file_entry (fst f) k hr # es) = map fst (f # fs)" "is_modified (file_entry (fst f) k hr)"
    using two(3) by (simp_all add: file_entry_def is_modified_def)
  ultimately show ?case using two(4)
    by (intro exI [of _ b2] exI [of _ cur2] exI [of _ md2] exI [of _ "file_entry (fst f) k hr # es"]) simp
qed

end
