(* ===== verification/Session.thy ===== *)
theory Session
  imports Performer
begin

text \<open>
  A session of the daemon, \<open>session/mod.rs\<close> of \<open>unshit-ptyd\<close>: one child behind a pseudo-terminal, the
  emulator that reads all of its output, and the one attachment that output is forwarded to. What the
  library of pseudo-terminals decides is an argument: whether a child could be started, the result of a
  write and of a resize, the answer of \<open>try_wait\<close>. So is whether the bounded channel of an attachment
  takes a chunk.

  The reader thread and the thread that watches the child run beside the requests; \<open>session_env\<close> is what
  they do. A poisoned lock (a panic of the escape-sequence parser) is not modelled.
\<close>

type_synonym u64 = "64 word"

section \<open>Data\<close>

definition DEFAULT_SCROLLBACK :: nat where "DEFAULT_SCROLLBACK = 10000"
definition READ_BUF_LEN :: nat where "READ_BUF_LEN = 4096"

datatype io_kind = NotFound | NotConnected | AlreadyExists | ConnectionAborted | Unsupported | OtherKind

type_synonym io_failure = "io_kind \<times> rstr"

text \<open>The answer of \<open>try_wait\<close>: \<open>Ok(None)\<close>, \<open>Ok(Some(_))\<close> or an error.\<close>

datatype child_state = Running | Exited | Wait_Failed

text \<open>The sender of an attachment, with the chunks its channel has taken, oldest first.\<close>

record output_sink =
  os_token :: u64
  os_sent :: "u8 list list"

record output_state =
  o_current :: "output_sink option"
  o_next_token :: u64
  o_reader_open :: bool

record 'p session =
  s_id :: u64
  s_pty :: "child_state option"
  s_cols :: u16
  s_rows :: u16
  s_pid :: "u32 option"
  s_terminal :: "'p terminal"
  s_output :: output_state
  s_workspace_id :: u32
  s_pane_id :: u32
  s_name :: "rstr option"
  s_hook_capability :: rstr

section \<open>The environment of a child\<close>

definition INHERITED_AGENT_ENV_VARS :: "rstr list" where
  "INHERITED_AGENT_ENV_VARS =
     map str_lit
       [''CLAUDE_CONFIG_DIR'', ''ANTHROPIC_BASE_URL'', ''ANTHROPIC_API_KEY'', ''ANTHROPIC_AUTH_TOKEN'',
        ''ANTHROPIC_MODEL'', ''ANTHROPIC_SMALL_FAST_MODEL'', ''ANTHROPIC_DEFAULT_OPUS_MODEL'',
        ''ANTHROPIC_DEFAULT_SONNET_MODEL'', ''ANTHROPIC_DEFAULT_HAIKU_MODEL'', ''CLAUDECODE'',
        ''CLAUDE_CODE_ENTRYPOINT'', ''CLAUDE_CODE_SSE_PORT'', ''CLAUDE_CODE_SESSION_ID'',
        ''CLAUDE_CODE_TMPDIR'', ''CLAUDE_CODE_EXECPATH'', ''CLAUDE_CODE_DISABLE_NONESSENTIAL_TRAFFIC'']"

type_synonym env = "rstr \<Rightarrow> rstr option"

definition strip_inherited_agent_env :: "env \<Rightarrow> env" where
  "strip_inherited_agent_env cmd = fold (\<lambda>key cmd. cmd(key := None)) INHERITED_AGENT_ENV_VARS cmd"

definition is_ascii_hexdigit :: "u8 \<Rightarrow> bool" where
  "is_ascii_hexdigit b \<longleftrightarrow> (48 \<le> b \<and> b \<le> 57) \<or> (65 \<le> b \<and> b \<le> 70) \<or> (97 \<le> b \<and> b \<le> 102)"

definition is_valid_correlation_id :: "rstr \<Rightarrow> bool" where
  "is_valid_correlation_id v \<longleftrightarrow>
     blen v = 36 \<and>
     list_all (\<lambda>(i, b). if i \<in> {8, 13, 18, 23} then b = 45 else is_ascii_hexdigit b) (enumerate 0 (utf8 v))"

text \<open>The daemon's own environment and its notification socket are arguments.\<close>

definition terminal_manager_session_env_with_correlation ::
  "env \<Rightarrow> rstr \<Rightarrow> u32 \<Rightarrow> u32 \<Rightarrow> rstr \<Rightarrow> rstr option \<Rightarrow> (rstr \<times> rstr) list"
where
  "terminal_manager_session_env_with_correlation own notify_socket workspace_id pane_id hook_capability
       restore_correlation_id =
     (let valid = (\<lambda>v. case v of Some s \<Rightarrow> if is_valid_correlation_id s then Some s else None | None \<Rightarrow> None);
          correlation =
            (case valid restore_correlation_id of
               Some s \<Rightarrow> s
             | None \<Rightarrow>
                 (case valid (own (str_lit ''TM_AGENT_RESTORE_CORRELATION_ID'')) of Some s \<Rightarrow> s | None \<Rightarrow> []))
      in [(str_lit ''TM_NOTIFY_SOCKET'', notify_socket),
          (str_lit ''TM_WORKSPACE_ID'', show_nat (unat workspace_id)),
          (str_lit ''TM_PANE_ID'', show_nat (unat pane_id)),
          (str_lit ''TM_AGENT_HOOK_CAPABILITY'', hook_capability),
          (str_lit ''TM_AGENT_RESTORE_CORRELATION_ID'', correlation)])"

text \<open>The variables of the command of a child, from those it is built with.\<close>

definition child_env :: "env \<Rightarrow> rstr \<Rightarrow> u32 \<Rightarrow> u32 \<Rightarrow> rstr \<Rightarrow> rstr option \<Rightarrow> env \<Rightarrow> env" where
  "child_env own notify_socket workspace_id pane_id hook_capability restore_correlation_id cmd =
     (let cmd = cmd(str_lit ''TERM'' \<mapsto> str_lit ''xterm-256color'');
          cmd = cmd(str_lit ''COLORTERM'' \<mapsto> str_lit ''truecolor'');
          cmd = fold (\<lambda>(key, v) cmd. cmd(key \<mapsto> v))
                  (terminal_manager_session_env_with_correlation own notify_socket workspace_id pane_id
                     hook_capability restore_correlation_id) cmd
      in strip_inherited_agent_env cmd)"

text \<open>The capability from the 32 random bytes.\<close>

definition hex_digit :: "u8 \<Rightarrow> rchar" where
  "hex_digit n = str_lit ''0123456789abcdef'' ! unat n"

definition encode_capability :: "u8 list \<Rightarrow> rstr" where
  "encode_capability bytes = concat (map (\<lambda>b. [hex_digit (drop_bit 4 b), hex_digit (b AND 15)]) bytes)"

section \<open>Operations\<close>

text \<open>
  \<open>launched\<close> is what starting the child gave: an error, or the random bytes and the process id.
\<close>

definition session_new ::
  "bool \<Rightarrow> 'p \<Rightarrow> u64 \<Rightarrow> u16 \<Rightarrow> u16 \<Rightarrow> u32 \<Rightarrow> u32 \<Rightarrow> rstr option \<Rightarrow> rstr \<Rightarrow> u32 option \<Rightarrow> 'p session"
where
  "session_new pe parser sid cols rows workspace_id pane_id name hook_capability pid =
     \<lparr>s_id = sid, s_pty = Some Running, s_cols = cols, s_rows = rows, s_pid = pid,
      s_terminal = terminal_new pe parser (unat rows) (unat cols) DEFAULT_SCROLLBACK,
      s_output = \<lparr>o_current = Some \<lparr>os_token = 1, os_sent = []\<rparr>, o_next_token = 2, o_reader_open = True\<rparr>,
      s_workspace_id = workspace_id, s_pane_id = pane_id, s_name = name, s_hook_capability = hook_capability\<rparr>"

type_synonym launch = "io_failure + (u8 list \<times> u32 option)"

definition session_spawn ::
  "bool \<Rightarrow> 'p \<Rightarrow> launch \<Rightarrow> u64 \<Rightarrow> u16 \<Rightarrow> u16 \<Rightarrow> u32 \<Rightarrow> u32 \<Rightarrow> rstr option \<Rightarrow> io_failure + ('p session \<times> u64)"
where
  "session_spawn pe parser launched sid cols rows workspace_id pane_id name =
     (case launched of
        Inl e \<Rightarrow> Inl e
      | Inr (bytes, pid) \<Rightarrow>
          Inr (session_new pe parser sid cols rows workspace_id pane_id name (encode_capability bytes) pid, 1))"

definition close_output :: "'p session \<Rightarrow> 'p session" where
  "close_output s = s\<lparr>s_output := (s_output s)\<lparr>o_reader_open := False, o_current := None\<rparr>\<rparr>"

definition child_running :: "'p session \<Rightarrow> bool" where
  "child_running s \<longleftrightarrow> (case s_pty s of None \<Rightarrow> False | Some c \<Rightarrow> c = Running)"

definition child_exit_confirmed :: "'p session \<Rightarrow> bool" where
  "child_exit_confirmed s \<longleftrightarrow> (case s_pty s of None \<Rightarrow> True | Some c \<Rightarrow> c = Exited)"

definition alive :: "'p session \<Rightarrow> bool" where
  "alive s \<longleftrightarrow> (if \<not> o_reader_open (s_output s) then False else child_running s)"

text \<open>The outer option is the panic when the tokens are used up, the inner one the result.\<close>

definition session_attach_with_snapshot ::
  "nat \<Rightarrow> 'p session \<Rightarrow> ((u64 \<times> snapshot) option \<times> 'p session) option"
where
  "session_attach_with_snapshot scrollback_lines s =
     (if \<not> o_reader_open (s_output s) \<or> \<not> child_running s then Some (None, close_output s)
      else
        (let token = o_next_token (s_output s)
         in if token = 2 ^ 64 - 1 then None
            else
              (let out = (s_output s)\<lparr>o_next_token := token + 1, o_current := Some \<lparr>os_token = token, os_sent = []\<rparr>\<rparr>
               in Some (Some (token, terminal_snapshot (s_terminal s) scrollback_lines), s\<lparr>s_output := out\<rparr>))))"

definition session_attach :: "'p session \<Rightarrow> (u64 option \<times> 'p session) option" where
  "session_attach s = map_option (\<lambda>(r, s). (map_option fst r, s)) (session_attach_with_snapshot 0 s)"

definition session_detach :: "u64 \<Rightarrow> 'p session \<Rightarrow> bool \<times> 'p session" where
  "session_detach token s =
     (if map_option os_token (o_current (s_output s)) = Some token
      then (True, s\<lparr>s_output := (s_output s)\<lparr>o_current := None\<rparr>\<rparr>)
      else (False, s))"

text \<open>\<open>io\<close> is the result of writing and flushing the pseudo-terminal.\<close>

definition session_write :: "(u8 list \<Rightarrow> io_failure + unit) \<Rightarrow> u8 list \<Rightarrow> 'p session \<Rightarrow> io_failure + unit" where
  "session_write io bytes s =
     (case s_pty s of None \<Rightarrow> Inl (NotConnected, str_lit ''session dead'') | Some _ \<Rightarrow> io bytes)"

text \<open>\<open>ok\<close> says whether the pseudo-terminal took the new size.\<close>

definition session_resize :: "bool \<Rightarrow> u16 \<Rightarrow> u16 \<Rightarrow> 'p session \<Rightarrow> 'p session" where
  "session_resize ok cols rows s =
     (case s_pty s of
        None \<Rightarrow> s
      | Some _ \<Rightarrow>
          if ok then
            s\<lparr>s_cols := cols, s_rows := rows, s_terminal := terminal_resize (s_terminal s) (unat rows) (unat cols)\<rparr>
          else s)"

definition session_snapshot :: "nat \<Rightarrow> 'p session \<Rightarrow> snapshot" where
  "session_snapshot scrollback_lines s = terminal_snapshot (s_terminal s) scrollback_lines"

definition kill :: "'p session \<Rightarrow> 'p session" where
  "kill s = close_output (s\<lparr>s_pty := None\<rparr>)"

definition set_name :: "rstr option \<Rightarrow> 'p session \<Rightarrow> 'p session" where
  "set_name name s = s\<lparr>s_name := (case name of Some n \<Rightarrow> if n = [] then None else Some n | None \<Rightarrow> None)\<rparr>"

section \<open>The threads of a session\<close>

text \<open>One chunk read from the child: first into the emulator, then to the attachment, if its channel takes it.\<close>

definition read_chunk ::
  "'p \<Rightarrow> ('p \<Rightarrow> u8 \<Rightarrow> 'p \<times> vte_action list) \<Rightarrow> bool \<Rightarrow> u8 list \<Rightarrow> bool \<Rightarrow> 'p session \<Rightarrow> 'p session"
where
  "read_chunk pd advance pe bytes taken s =
     (let s = s\<lparr>s_terminal := process_bytes pd advance pe bytes (s_terminal s)\<rparr>
      in case o_current (s_output s) of
           None \<Rightarrow> s
         | Some sink \<Rightarrow>
             if taken then
               s\<lparr>s_output := (s_output s)\<lparr>o_current := Some (sink\<lparr>os_sent := os_sent sink @ [bytes]\<rparr>)\<rparr>\<rparr>
             else s)"

text \<open>
  The steps beside the requests: a chunk of at most the buffer's size is read; the reader ends (end of
  file, an error) or the watcher has seen the child gone, and the output is closed; the child goes. A
  child that is gone or whose state could not be read does not come back.
\<close>

inductive session_env ::
  "'p \<Rightarrow> ('p \<Rightarrow> u8 \<Rightarrow> 'p \<times> vte_action list) \<Rightarrow> bool \<Rightarrow> 'p session \<Rightarrow> 'p session \<Rightarrow> bool"
  for pd advance pe
where
  chunk: "session_env pd advance pe s (read_chunk pd advance pe bytes taken s)"
    if "bytes \<noteq> []" and "length bytes \<le> READ_BUF_LEN"
| closed: "session_env pd advance pe s (close_output s)"
| exits: "session_env pd advance pe s (s\<lparr>s_pty := Some Exited\<rparr>)" if "s_pty s = Some c"
| unknown: "session_env pd advance pe s (s\<lparr>s_pty := Some Wait_Failed\<rparr>)" if "s_pty s = Some Running"

end
