(* ===== verification/Session_Inv.thy ===== *)
theory Session_Inv
  imports Session Terminal_Stream_Props
begin

text \<open>
  What holds of every session: its emulator is well-formed and has the session's size, an attachment exists
  only while the output is open and its token is below the next one; and what the threads and the requests
  keep: the queue of replies only grows, tokens only grow, a session that is not alive stays so.
\<close>

section \<open>The size of the emulator\<close>

definition same_size :: "'p terminal \<Rightarrow> 'p terminal \<Rightarrow> bool" where
  "same_size t t' \<longleftrightarrow> t_rows t' = t_rows t \<and> t_cols t' = t_cols t"

lemma same_size_refl [simp, intro]: "same_size t t" by (simp add: same_size_def)

lemma same_size_parser: "same_size t (t\<lparr>t_parser := p\<rparr>)" by (simp add: same_size_def)

lemma same_size_trans: "same_size t t' \<Longrightarrow> same_size t' t'' \<Longrightarrow> same_size t t''"
  by (simp add: same_size_def)

lemma same_size_screen_step: "screen_step t t' \<Longrightarrow> same_size t t'"
  by (simp add: same_size_def screen_step_frame)

lemma put_char_size: "same_size t (put_char t c)"
proof -
  have "same_size t (prepare_for_printable t)"
    by (simp add: same_size_def prepare_for_printable_def wrap_to_next_line_def Let_def)
  moreover have "same_size u (put_char u c)" if "prepare_for_printable u = u" for u :: "'a terminal"
    by (simp add: same_size_def put_char_def that Let_def)
  ultimately show ?thesis by (simp add: same_size_def put_char_def Let_def)
qed

lemma csi_action_size: "same_size t (csi_action pe pv im action t)"
proof -
  have "\<And>b. same_size t (respond b t)" "same_size t (csi_position pv t)" "same_size t (csi_set_region pv t)"
    "\<And>x. same_size t (t\<lparr>t_cursor_row := x\<rparr>)" "\<And>x. same_size t (t\<lparr>t_cursor_col := x\<rparr>)" "same_size t t"
    by (simp_all add: same_size_def csi_position_def csi_set_region_def respond_def Let_def)
  moreover have "same_size t (csi_erase_display pv t)" "same_size t (csi_erase_line pv t)"
    "same_size t (csi_insert_lines pv t)" "same_size t (csi_delete_lines pv t)"
    "\<And>n. same_size t ((scroll_up ^^ n) t)" "\<And>n. same_size t ((scroll_down ^^ n) t)"
    "same_size t (csi_insert_chars pv t)" "same_size t (csi_delete_chars pv t)" "same_size t (csi_erase_chars pv t)"
    by (rule same_size_screen_step, rule screen_steps)+
  moreover have "same_size t (handle_sgr pe pv t)"
    using pen_step_frame [OF handle_sgr_pen, of pe pv t] by (simp add: same_size_def)
  ultimately show ?thesis
    unfolding csi_action_def by (intro if_split [where P = "same_size t", THEN iffD2] conjI impI)
qed

lemma private_mode_size: "same_size t (private_mode on code t)"
  by (simp add: same_size_def private_mode_def enter_alt_screen_def exit_alt_screen_def clear_pending_wrap_def
      Let_def split: option.split)

lemma perform_size: "same_size t (perform pe a t)"
proof (cases a)
  case (Csi ps im ignore action)
  have "same_size t (fold (private_mode x) cs t)" for x cs
    by (rule fold_keeps [where P = "same_size t"])
      (auto intro: same_size_trans private_mode_size)
  then have "same_size t (csi_private action (map fst ps) t)" by (simp add: csi_private_def same_size_def)
  moreover have "same_size t (csi_action pe (map fst ps) im action (clear_pending_wrap t))"
    using csi_action_size [of "clear_pending_wrap t"] by (simp add: same_size_def)
  ultimately show ?thesis
    using csi_action_size [of t pe "map fst ps" im action]
    by (simp add: Csi csi_dispatch_def Let_def)
next
  case (Print c)
  then show ?thesis by (simp add: put_char_size)
qed (auto simp: same_size_def execute_def line_feed_def osc_dispatch_def esc_dispatch_def Let_def split: option.split)

lemma process_bytes_size: "same_size t (process_bytes pd advance pe bytes t)"
proof -
  have "same_size t (snd (fold (\<lambda>b (p, t). case advance p b of (p', as) \<Rightarrow> (p', fold (perform pe) as t)) bytes
      (t_parser t, t\<lparr>t_parser := pd\<rparr>)))"
    by (rule feed_keeps [where P = "same_size t"])
      (auto intro: same_size_trans perform_size same_size_parser)
  then show ?thesis by (simp add: process_bytes_def Let_def split_beta same_size_def)
qed

lemma process_bytes_appends: "appends t (process_bytes pd advance pe bytes t)"
proof -
  have "appends t (snd (fold (\<lambda>b (p, t). case advance p b of (p', as) \<Rightarrow> (p', fold (perform pe) as t)) bytes
      (t_parser t, t\<lparr>t_parser := pd\<rparr>)))"
    by (rule feed_keeps [where P = "appends t"]) (auto intro: appends_trans perform_appends appends_same)
  then show ?thesis by (simp add: process_bytes_def Let_def split_beta appends_def)
qed

lemma resize_parts_pending:
  "t_pending_response (swap_grids t) = t_pending_response t"
  "t_pending_response (reflow_rows t rows b) = t_pending_response t"
  "t_pending_response (clamp_scroll_region_after_resize t rows b') = t_pending_response t"
  by (simp_all add: reflow_rows_def swap_grids_def clamp_scroll_region_after_resize_def Let_def split_beta
      split: option.split)

lemma terminal_resize_frame:
  "t_rows (terminal_resize t rows cols) = rows" "t_cols (terminal_resize t rows cols) = cols"
  "t_pending_response (terminal_resize t rows cols) = t_pending_response t"
proof -
  have "t_rows (terminal_resize t rows cols) = rows \<and> t_cols (terminal_resize t rows cols) = cols \<and>
      t_pending_response (terminal_resize t rows cols) = t_pending_response t"
    by (cases "t_alt_grid t") (simp_all add: terminal_resize_def Let_def resize_parts_pending)
  then show "t_rows (terminal_resize t rows cols) = rows" "t_cols (terminal_resize t rows cols) = cols"
    "t_pending_response (terminal_resize t rows cols) = t_pending_response t" by simp_all
qed

section \<open>Well-formed sessions\<close>

definition session_wf :: "'p session \<Rightarrow> bool" where
  "session_wf s \<longleftrightarrow>
     term_wf (s_terminal s) \<and> t_rows (s_terminal s) = unat (s_rows s) \<and> t_cols (s_terminal s) = unat (s_cols s) \<and>
     (\<forall>sink. o_current (s_output s) = Some sink \<longrightarrow>
        o_reader_open (s_output s) \<and> os_token sink < o_next_token (s_output s))"

lemma session_new_wf: "session_wf (session_new pe parser sid cols rows w p name c pid)"
  by (simp add: session_wf_def session_new_def term_wf_new) (simp add: terminal_new_def)

lemma close_output_wf [intro]: "session_wf s \<Longrightarrow> session_wf (close_output s)"
  by (simp add: session_wf_def close_output_def)

lemma read_chunk_wf [intro]: "session_wf s \<Longrightarrow> session_wf (read_chunk pd advance pe bytes taken s)"
  using process_bytes_size [of "s_terminal s" pd advance pe bytes] process_bytes_wf [of "s_terminal s"]
  by (auto simp: session_wf_def read_chunk_def Let_def same_size_def split: option.split)

lemma session_detach_wf: "session_wf s \<Longrightarrow> session_wf (snd (session_detach token s))"
  by (simp add: session_wf_def session_detach_def)

lemma session_resize_wf [intro]: "session_wf s \<Longrightarrow> session_wf (session_resize ok cols rows s)"
  by (auto simp: session_wf_def session_resize_def terminal_resize_wf terminal_resize_frame split: option.split)

lemma set_name_wf [intro]: "session_wf s \<Longrightarrow> session_wf (set_name name s)"
  by (simp add: session_wf_def set_name_def)

lemma u64_less_Suc: "(n :: u64) \<noteq> 2 ^ 64 - 1 \<Longrightarrow> n < n + 1"
proof -
  assume "n \<noteq> 2 ^ 64 - 1"
  then have "unat n \<noteq> unat (2 ^ 64 - 1 :: u64)" by (metis word_unat_eq_iff)
  then have "unat n + 1 < 2 ^ 64" using unsigned_less [of n, where 'a = nat] by simp
  then show ?thesis by (simp add: word_less_nat_alt unat_word_ariths)
qed

lemma attach_cases:
  assumes "session_attach_with_snapshot lines s = Some (res, s')"
  obtains (refused) "res = None" "s' = close_output s" "\<not> alive s"
  | (attached) "alive s" "o_next_token (s_output s) < o_next_token (s_output s) + 1"
      "res = Some (o_next_token (s_output s), terminal_snapshot (s_terminal s) lines)"
      "s' = s\<lparr>s_output := (s_output s)\<lparr>o_next_token := o_next_token (s_output s) + 1,
                o_current := Some \<lparr>os_token = o_next_token (s_output s), os_sent = []\<rparr>\<rparr>\<rparr>"
  using assms u64_less_Suc [of "o_next_token (s_output s)"]
  by (auto simp: session_attach_with_snapshot_def alive_def Let_def split: if_splits)

lemma session_attach_wf:
  assumes "session_attach_with_snapshot lines s = Some (res, s')" and "session_wf s"
  shows "session_wf s'"
  using assms(1)
proof (cases rule: attach_cases)
  case refused
  then show ?thesis using assms(2) by auto
next
  case attached
  then show ?thesis using assms(2) by (simp add: session_wf_def alive_def split: if_splits)
qed

lemma session_wf_pty [simp]: "session_wf (s\<lparr>s_pty := c\<rparr>) = session_wf s"
  by (simp add: session_wf_def)

lemma session_env_wf: "session_env pd advance pe s s' \<Longrightarrow> session_wf s \<Longrightarrow> session_wf s'"
  by (induction rule: session_env.induct) auto

section \<open>What a change of a session keeps\<close>

text \<open>The identity of a session: its id, its key, its capability, and that it was not killed.\<close>

definition same_session :: "'p session \<Rightarrow> 'p session \<Rightarrow> bool" where
  "same_session s s' \<longleftrightarrow>
     s_id s' = s_id s \<and> s_workspace_id s' = s_workspace_id s \<and> s_pane_id s' = s_pane_id s \<and>
     s_hook_capability s' = s_hook_capability s \<and> (s_pty s' = None \<longleftrightarrow> s_pty s = None) \<and>
     o_next_token (s_output s) \<le> o_next_token (s_output s') \<and> (alive s' \<longrightarrow> alive s) \<and>
     appends (s_terminal s) (s_terminal s')"

lemma same_session_refl [simp, intro]: "same_session s s"
  by (simp add: same_session_def appends_def)

lemma same_session_trans: "same_session s s' \<Longrightarrow> same_session s' s'' \<Longrightarrow> same_session s s''"
  by (auto simp: same_session_def intro: appends_trans)

lemma alive_simps [simp]:
  "\<not> alive (close_output s)"
  "alive (s\<lparr>s_pty := Some Exited\<rparr>) \<longleftrightarrow> False" "alive (s\<lparr>s_pty := Some Wait_Failed\<rparr>) \<longleftrightarrow> False"
  by (simp_all add: alive_def close_output_def child_running_def)

lemma same_session_close: "same_session s (close_output s)"
  by (simp add: same_session_def) (simp add: close_output_def appends_def)

lemma same_session_env: "session_env pd advance pe s s' \<Longrightarrow> same_session s s'"
proof (induction rule: session_env.induct)
  case (chunk bytes s taken)
  show ?case
    using process_bytes_appends [of "s_terminal s" pd advance pe bytes]
    by (auto simp: same_session_def read_chunk_def Let_def alive_def child_running_def split: option.splits if_splits)
next
  case (closed s)
  show ?case by (rule same_session_close)
qed (simp_all add: same_session_def appends_def)

lemma same_session_detach: "same_session s (snd (session_detach token s))"
  by (simp add: same_session_def session_detach_def appends_def alive_def child_running_def)

lemma same_session_resize: "same_session s (session_resize ok cols rows s)"
  by (auto simp: same_session_def session_resize_def appends_def terminal_resize_frame alive_def child_running_def
      split: option.splits)

lemma same_session_name: "same_session s (set_name name s)"
  by (simp add: same_session_def set_name_def appends_def alive_def child_running_def)

lemma same_session_attach:
  assumes "session_attach_with_snapshot lines s = Some (res, s')"
  shows "same_session s s'"
  using assms
proof (cases rule: attach_cases)
  case refused
  then show ?thesis using same_session_close by simp
next
  case attached
  then show ?thesis by (auto simp: same_session_def appends_def alive_def child_running_def)
qed

end
