(* ===== verification/Session_Props.thy ===== *)
theory Session_Props
  imports Session_Inv Terminal_Props
begin

text \<open>
  What a session promises of its attachments and its emulator over any run: a token that was replaced stays
  without effect, an attachment cuts the stream of the child's output cleanly, and the queue of replies.
\<close>

section \<open>Runs of a session\<close>

inductive session_step ::
  "'p \<Rightarrow> ('p \<Rightarrow> u8 \<Rightarrow> 'p \<times> vte_action list) \<Rightarrow> bool \<Rightarrow> 'p session \<Rightarrow> 'p session \<Rightarrow> bool"
  for pd advance pe
where
  thread: "session_step pd advance pe s s'" if "session_env pd advance pe s s'"
| attach: "session_step pd advance pe s s'" if "session_attach_with_snapshot lines s = Some (res, s')"
| detach: "session_step pd advance pe s (snd (session_detach token s))"
| resize: "session_step pd advance pe s (session_resize ok cols rows s)"
| rename: "session_step pd advance pe s (set_name name s)"

lemma session_step_same: "session_step pd advance pe s s' \<Longrightarrow> same_session s s'"
  by (induction rule: session_step.induct)
    (auto intro: same_session_env same_session_attach same_session_detach same_session_resize same_session_name)

lemma session_steps_same: "(session_step pd advance pe)\<^sup>*\<^sup>* s s' \<Longrightarrow> same_session s s'"
  by (induction rule: rtranclp_induct) (auto intro: same_session_trans session_step_same)

section \<open>Tokens\<close>

text \<open>Every attachment from now on has at least the token \<open>t\<close>.\<close>

definition tokens_from :: "u64 \<Rightarrow> 'p session \<Rightarrow> bool" where
  "tokens_from t s \<longleftrightarrow>
     t \<le> o_next_token (s_output s) \<and> (\<forall>sink. o_current (s_output s) = Some sink \<longrightarrow> t \<le> os_token sink)"

lemma tokens_from_env: "session_env pd advance pe s s' \<Longrightarrow> tokens_from t s \<Longrightarrow> tokens_from t s'"
  by (induction rule: session_env.induct)
    (auto simp: tokens_from_def read_chunk_def close_output_def Let_def split: option.splits)

lemma tokens_from_step: "session_step pd advance pe s s' \<Longrightarrow> tokens_from t s \<Longrightarrow> tokens_from t s'"
proof (induction rule: session_step.induct)
  case (attach lines s res s')
  from attach(1) show ?case
  proof (cases rule: attach_cases)
    case refused
    then show ?thesis using attach(2) by (simp add: tokens_from_def close_output_def)
  next
    case attached
    then show ?thesis using attach(2) by (auto simp: tokens_from_def)
  qed
qed (auto simp: tokens_from_def session_detach_def session_resize_def set_name_def dest: tokens_from_env
    split: option.splits)

lemma tokens_from_steps: "(session_step pd advance pe)\<^sup>*\<^sup>* s s' \<Longrightarrow> tokens_from t s \<Longrightarrow> tokens_from t s'"
  by (induction rule: rtranclp_induct) (auto intro: tokens_from_step)

lemma attach_Some:
  assumes "session_attach_with_snapshot lines s = Some (Some (t, snap), s')"
  shows "t = o_next_token (s_output s)" and "o_next_token (s_output s') = t + 1" and "t < t + 1"
    and "o_current (s_output s') = Some \<lparr>os_token = t, os_sent = []\<rparr>" and "s_terminal s' = s_terminal s"
    and "snap = terminal_snapshot (s_terminal s) lines"
  using assms by (auto elim: attach_cases)

text \<open>C9: After a session was attached to again, with anything happening before and after that, the token of
the older attachment is smaller than the new one and detaching with it does nothing, for ever: cleaning up
behind a stale connection never cuts off a newer one.\<close>

theorem stale_token_is_harmless:
  assumes "session_attach_with_snapshot l1 s0 = Some (Some (t1, snap1), s1)"
    and "(session_step pd advance pe)\<^sup>*\<^sup>* s1 s2"
    and "session_attach_with_snapshot l2 s2 = Some (Some (t2, snap2), s3)"
    and "(session_step pd advance pe)\<^sup>*\<^sup>* s3 s4"
  shows "t1 < t2 \<and> session_detach t1 s4 = (False, s4)"
proof -
  note A1 = attach_Some [OF assms(1)] and A2 = attach_Some [OF assms(3)]
  have "t1 + 1 \<le> t2" using session_steps_same [OF assms(2)] A1(2) A2(1) by (simp add: same_session_def)
  then have lt: "t1 < t2" using A1(3) by simp
  have "tokens_from t2 s3" using A2 by (simp add: tokens_from_def)
  then have "tokens_from t2 s4" by (rule tokens_from_steps [OF assms(4)])
  then have "map_option os_token (o_current (s_output s4)) \<noteq> Some t1" using lt by (auto simp: tokens_from_def)
  then show ?thesis using lt by (simp add: session_detach_def)
qed

definition demo_session :: "unit session" where
  "demo_session = session_new False () 1 80 24 1 1 None [] None"

theorem stale_token_is_harmless_witness:
  "\<exists>s1 s2. session_attach_with_snapshot 0 demo_session = Some (Some (2, terminal_snapshot (s_terminal demo_session) 0), s1) \<and>
     session_attach_with_snapshot 0 s1 = Some (Some (3, terminal_snapshot (s_terminal demo_session) 0), s2) \<and>
     session_detach 2 s2 = (False, s2)"
proof -
  obtain s1 where s1: "session_attach_with_snapshot 0 demo_session = Some (Some (2, terminal_snapshot (s_terminal demo_session) 0), s1)"
    by (simp add: session_attach_with_snapshot_def demo_session_def session_new_def child_running_def)
  then have "\<exists>s2. session_attach_with_snapshot 0 s1 = Some (Some (3, terminal_snapshot (s_terminal demo_session) 0), s2)"
    by (auto simp: session_attach_with_snapshot_def demo_session_def session_new_def child_running_def)
  then obtain s2 where s2: "session_attach_with_snapshot 0 s1 = Some (Some (3, terminal_snapshot (s_terminal demo_session) 0), s2)" ..
  have "session_detach 2 s2 = (False, s2)"
    using stale_token_is_harmless [OF s1 rtranclp.rtrancl_refl [of "session_step () (\<lambda>p b. (p, [])) False"] s2 rtranclp.rtrancl_refl]
    by simp
  then show ?thesis using s1 s2 by blast
qed

section \<open>The stream of a child\<close>

definition read_chunks ::
  "'p \<Rightarrow> ('p \<Rightarrow> u8 \<Rightarrow> 'p \<times> vte_action list) \<Rightarrow> bool \<Rightarrow> (u8 list \<times> bool) list \<Rightarrow> 'p session \<Rightarrow> 'p session"
where
  "read_chunks pd advance pe cs s = fold (\<lambda>(bytes, taken). read_chunk pd advance pe bytes taken) cs s"

definition taken_chunks :: "(u8 list \<times> bool) list \<Rightarrow> u8 list list" where
  "taken_chunks cs = map fst (filter snd cs)"

lemma read_chunk_effect [simp]:
  "s_terminal (read_chunk pd advance pe bytes taken s) = process_bytes pd advance pe bytes (s_terminal s)"
  "o_current (s_output (read_chunk pd advance pe bytes taken s)) =
     map_option (\<lambda>k. if taken then k\<lparr>os_sent := os_sent k @ [bytes]\<rparr> else k) (o_current (s_output s))"
  "o_next_token (s_output (read_chunk pd advance pe bytes taken s)) = o_next_token (s_output s)"
  "o_reader_open (s_output (read_chunk pd advance pe bytes taken s)) = o_reader_open (s_output s)"
  "s_pty (read_chunk pd advance pe bytes taken s) = s_pty s"
  by (auto simp: read_chunk_def Let_def split: option.split)

lemma read_chunks_Nil: "read_chunks pd advance pe [] s = s"
  and read_chunks_Cons: "read_chunks pd advance pe ((bytes, taken) # cs) s = read_chunks pd advance pe cs (read_chunk pd advance pe bytes taken s)"
  by (simp_all add: read_chunks_def)

lemma read_chunks_effect:
  "s_terminal (read_chunks pd advance pe cs s) = fold (process_bytes pd advance pe) (map fst cs) (s_terminal s)"
  "o_current (s_output (read_chunks pd advance pe cs s)) =
     map_option (\<lambda>k. k\<lparr>os_sent := os_sent k @ taken_chunks cs\<rparr>) (o_current (s_output s))"
  "o_next_token (s_output (read_chunks pd advance pe cs s)) = o_next_token (s_output s)"
  "o_reader_open (s_output (read_chunks pd advance pe cs s)) = o_reader_open (s_output s)"
  "s_pty (read_chunks pd advance pe cs s) = s_pty s"
proof -
  have "s_terminal (read_chunks pd advance pe cs s) = fold (process_bytes pd advance pe) (map fst cs) (s_terminal s) \<and>
    o_current (s_output (read_chunks pd advance pe cs s)) =
      map_option (\<lambda>k. k\<lparr>os_sent := os_sent k @ taken_chunks cs\<rparr>) (o_current (s_output s)) \<and>
    o_next_token (s_output (read_chunks pd advance pe cs s)) = o_next_token (s_output s) \<and>
    o_reader_open (s_output (read_chunks pd advance pe cs s)) = o_reader_open (s_output s) \<and>
    s_pty (read_chunks pd advance pe cs s) = s_pty s"
  proof (induction cs arbitrary: s)
    case Nil
    then show ?case by (cases "o_current (s_output s)") (simp_all add: read_chunks_Nil taken_chunks_def)
  next
    case (Cons c cs)
    then show ?case
      by (cases c; cases "o_current (s_output s)") (simp_all add: read_chunks_Cons taken_chunks_def)
  qed
  then show "s_terminal (read_chunks pd advance pe cs s) = fold (process_bytes pd advance pe) (map fst cs) (s_terminal s)"
    "o_current (s_output (read_chunks pd advance pe cs s)) =
       map_option (\<lambda>k. k\<lparr>os_sent := os_sent k @ taken_chunks cs\<rparr>) (o_current (s_output s))"
    "o_next_token (s_output (read_chunks pd advance pe cs s)) = o_next_token (s_output s)"
    "o_reader_open (s_output (read_chunks pd advance pe cs s)) = o_reader_open (s_output s)"
    "s_pty (read_chunks pd advance pe cs s) = s_pty s" by simp_all
qed

text \<open>C10: An attachment cuts the stream of the child's output at one place. The snapshot it returns shows the
emulator after exactly the chunks read before: its grid, the last \<open>lines\<close> rows of its history, its mouse and
focus modes. Before the cut only the old attachment was sent chunks; after it only the new one is, from the first
later chunk on, in order, and exactly those its channel took. When its channel took all of them, the chunks of the
snapshot followed by the chunks sent are the whole output: the emulator of the daemon is the one that was fed with
the former and then with the latter. (The snapshot is not enough to rebuild that emulator: it has no current colours, no
scroll region and no parser.)\<close>

theorem attachment_cuts_the_stream:
  assumes "o_current (s_output s) = Some old" and "alive s" and "o_next_token (s_output s) \<noteq> 2 ^ 64 - 1"
    and "emu = fold (process_bytes pd advance pe) (map fst before) (s_terminal s)"
  shows "\<exists>token snap s1. session_attach_with_snapshot lines (read_chunks pd advance pe before s) = Some (Some (token, snap), s1) \<and>
    token = o_next_token (s_output s) \<and>
    snap_grid snap = t_grid emu \<and> snap_mouse_modes snap = t_mouse_modes emu \<and>
    snap_focus_reporting_1004 snap = t_focus_reporting_1004 emu \<and>
    snap_scrollback snap = drop (length (sb_lines (t_scrollback emu)) - lines) (sb_lines (t_scrollback emu)) \<and>
    o_current (s_output (read_chunks pd advance pe before s)) = Some (old\<lparr>os_sent := os_sent old @ taken_chunks before\<rparr>) \<and>
    o_current (s_output (read_chunks pd advance pe later s1)) = Some \<lparr>os_token = token, os_sent = taken_chunks later\<rparr> \<and>
    s_terminal (read_chunks pd advance pe later s1) = fold (process_bytes pd advance pe) (map fst later) emu \<and>
    (if list_all snd later
     then s_terminal (read_chunks pd advance pe later s1) =
       fold (process_bytes pd advance pe) (map fst before @ taken_chunks later) (s_terminal s)
     else True)"
proof -
  let ?b = "read_chunks pd advance pe before s"
  have o: "o_next_token (s_output ?b) = o_next_token (s_output s)" "alive ?b" "s_terminal ?b = emu"
    using assms(2,4) by (simp_all add: read_chunks_effect alive_def child_running_def split: if_splits)
  let ?t = "o_next_token (s_output s)"
  let ?s1 = "?b\<lparr>s_output := (s_output ?b)\<lparr>o_next_token := ?t + 1, o_current := Some \<lparr>os_token = ?t, os_sent = []\<rparr>\<rparr>\<rparr>"
  have att: "session_attach_with_snapshot lines ?b = Some (Some (?t, terminal_snapshot emu lines), ?s1)"
    using o assms(3) by (simp add: session_attach_with_snapshot_def alive_def Let_def split: if_splits)
  have all: "taken_chunks later = map fst later" if "list_all snd later"
    using that by (simp add: taken_chunks_def list_all_iff)
  have sent: "o_current (s_output ?b) = Some (old\<lparr>os_sent := os_sent old @ taken_chunks before\<rparr>)"
    using assms(1) by (simp add: read_chunks_effect)
  have new: "o_current (s_output (read_chunks pd advance pe later ?s1)) = Some \<lparr>os_token = ?t, os_sent = taken_chunks later\<rparr>"
    "s_terminal (read_chunks pd advance pe later ?s1) = fold (process_bytes pd advance pe) (map fst later) emu"
    using o(3) by (simp_all add: read_chunks_effect)
  show ?thesis
    by (rule exI [of _ ?t], rule exI [of _ "terminal_snapshot emu lines"], rule exI [of _ ?s1])
      (simp only: att sent new, simp add: terminal_snapshot_def sb_tail_def all assms(4))
qed

theorem attachment_cuts_the_stream_witness:
  "\<exists>snap s1. session_attach_with_snapshot 5 (read_chunks () ascii_parser False [([104, 105], True)] demo_session) = Some (Some (2, snap), s1) \<and>
     snap_grid snap = t_grid (process_bytes () ascii_parser False [104, 105] (s_terminal demo_session)) \<and>
     o_current (s_output (read_chunks () ascii_parser False [([33], True)] s1)) = Some \<lparr>os_token = 2, os_sent = [[33]]\<rparr> \<and>
     s_terminal (read_chunks () ascii_parser False [([33], True)] s1) =
       fold (process_bytes () ascii_parser False) [[104, 105], [33]] (s_terminal demo_session)"
proof -
  have "o_current (s_output demo_session) = Some \<lparr>os_token = 1, os_sent = []\<rparr>" "alive demo_session"
    "o_next_token (s_output demo_session) = 2" and n: "o_next_token (s_output demo_session) \<noteq> 2 ^ 64 - 1"
    by (simp_all add: demo_session_def session_new_def alive_def child_running_def)
  from attachment_cuts_the_stream [OF this(1,2) n refl, of 5 "()" ascii_parser False "[([104, 105], True)]" "[([33], True)]"] this(3)
  show ?thesis by (fastforce simp: taken_chunks_def)
qed

section \<open>Replies\<close>

text \<open>The emulator of a session queues the replies it owes the child, and no operation of the daemon takes
them from the queue: over any run of a session the queue only grows, by a reply for every query the child
makes.\<close>

theorem replies_pile_up:
  assumes "(session_step pd advance pe)\<^sup>*\<^sup>* s s'"
  shows "(\<exists>b. t_pending_response (s_terminal s') = t_pending_response (s_terminal s) @ b) \<and>
    t_pending_response (perform pe (Csi [(5, [])] [] ignore CHR ''n'') (s_terminal s')) =
      t_pending_response (s_terminal s') @ 27 # byte_lit ''[0n''"
proof
  show "\<exists>b. t_pending_response (s_terminal s') = t_pending_response (s_terminal s) @ b"
    using session_steps_same [OF assms] by (simp add: same_session_def appends_def)
  show "t_pending_response (perform pe (Csi [(5, [])] [] ignore CHR ''n'') (s_terminal s')) =
      t_pending_response (s_terminal s') @ 27 # byte_lit ''[0n''"
    by (simp add: csi_dispatch_def csi_action_def byte_lit_def csi_raw_def respond_def Let_def)
qed

theorem replies_pile_up_witness:
  "\<exists>b. t_pending_response (s_terminal (close_output demo_session)) = t_pending_response (s_terminal demo_session) @ b"
  using replies_pile_up [OF r_into_rtranclp [of "session_step () ascii_parser False", OF session_step.thread [OF session_env.closed]],
      of demo_session]
  by blast

end
