(* ===== verification/Registry.thy ===== *)
theory Registry
  imports Session
begin

text \<open>
  The table of sessions of the daemon, \<open>session/registry.rs\<close>. Every operation holds the one lock of the
  table, so it is a function on the table; the threads of the sessions do not take that lock, and where an
  operation looks at a session more than once, what they do in between is an argument (\<open>env1\<close>, \<open>env2\<close>).
  The hash map is a list of pairs with distinct ids in some order. The results are pairs of what the
  operation returns and the table it leaves; an outer option is the panic of an attachment whose tokens are
  used up.
\<close>

section \<open>Data\<close>

definition SNAPSHOT_MAX_SCROLLBACK_LINES :: nat where "SNAPSHOT_MAX_SCROLLBACK_LINES = 100"

datatype ensure_disposition = Existing | Spawned

record ensured_session =
  en_session_id :: u64
  en_attachment_token :: u64
  en_hook_capability :: rstr
  en_disposition :: ensure_disposition
  en_snapshot :: snapshot

record session_info =
  info_id :: u64
  info_cols :: u16
  info_rows :: u16
  info_alive :: bool
  info_pid :: "u32 option"
  info_memory_rss_bytes :: "u64 option"
  info_workspace_id :: u32
  info_pane_id :: u32
  info_name :: "rstr option"

record 'p registry =
  r_sessions :: "(u64 \<times> 'p session) list"
  r_next_id :: u64
  r_stopping :: bool
  r_connections :: nat

definition new_registry :: "'p registry" where
  "new_registry = \<lparr>r_sessions = [], r_next_id = 1, r_stopping = False, r_connections = 0\<rparr>"

section \<open>The hash map\<close>

definition put_session :: "u64 \<Rightarrow> 'p session \<Rightarrow> 'p registry \<Rightarrow> 'p registry" where
  "put_session sid s r = r\<lparr>r_sessions := (sid, s) # filter (\<lambda>(k, _). k \<noteq> sid) (r_sessions r)\<rparr>"

definition set_session :: "u64 \<Rightarrow> 'p session \<Rightarrow> 'p registry \<Rightarrow> 'p registry" where
  "set_session sid s r = r\<lparr>r_sessions := map (\<lambda>(k, v). (k, if k = sid then s else v)) (r_sessions r)\<rparr>"

definition drop_session :: "u64 \<Rightarrow> 'p registry \<Rightarrow> 'p registry" where
  "drop_session sid r = r\<lparr>r_sessions := filter (\<lambda>(k, _). k \<noteq> sid) (r_sessions r)\<rparr>"

definition get_session :: "'p registry \<Rightarrow> u64 \<Rightarrow> 'p session option" where
  "get_session r sid = map_of (r_sessions r) sid"

definition map_sessions :: "('p session \<Rightarrow> 'p session) \<Rightarrow> 'p registry \<Rightarrow> 'p registry" where
  "map_sessions f r = r\<lparr>r_sessions := map (\<lambda>(k, v). (k, f v)) (r_sessions r)\<rparr>"

definition has_key :: "u32 \<Rightarrow> u32 \<Rightarrow> 'p session \<Rightarrow> bool" where
  "has_key workspace_id pane_id s \<longleftrightarrow> s_workspace_id s = workspace_id \<and> s_pane_id s = pane_id"

section \<open>Connections and the end\<close>

definition check_accepting :: "'p registry \<Rightarrow> io_failure + unit" where
  "check_accepting r =
     (if r_stopping r then Inl (ConnectionAborted, str_lit ''daemon is retiring'') else Inr ())"

definition register_connection :: "'p registry \<Rightarrow> (io_failure + unit) \<times> 'p registry" where
  "register_connection r =
     (case check_accepting r of
        Inl e \<Rightarrow> (Inl e, r)
      | Inr _ \<Rightarrow> (Inr (), r\<lparr>r_connections := r_connections r + 1\<rparr>))"

definition drop_connection :: "'p registry \<Rightarrow> 'p registry" where
  "drop_connection r = r\<lparr>r_connections := r_connections r - 1\<rparr>"

definition stop :: "bool \<Rightarrow> bool \<Rightarrow> 'p registry \<Rightarrow> (rstr + unit) \<times> 'p registry" where
  "stop force retire r =
     (let alive_count = length (filter (\<lambda>(_, s). \<not> child_exit_confirmed s) (r_sessions r))
      in if \<not> force \<and> alive_count > 0 then (Inl (show_nat alive_count @ str_lit '' sessions alive''), r)
         else if retire \<and> r_connections r > 1 then (Inl (str_lit ''another client is connected''), r)
         else (Inr (), r\<lparr>r_stopping := True, r_sessions := []\<rparr>))"

definition begin_shutdown :: "bool \<Rightarrow> 'p registry \<Rightarrow> (rstr + unit) \<times> 'p registry" where
  "begin_shutdown force r = stop force False r"

definition begin_retirement :: "'p registry \<Rightarrow> (rstr + unit) \<times> 'p registry" where
  "begin_retirement r = stop False True r"

section \<open>Sessions come\<close>

text \<open>The loop on the atomic counter runs once: the lock is held.\<close>

definition next_id :: "'p registry \<Rightarrow> u64 \<times> 'p registry" where
  "next_id r =
     (if r_next_id r = 2 ^ 64 - 1 then (2 ^ 64 - 1, r)
      else (r_next_id r, r\<lparr>r_next_id := r_next_id r + 1\<rparr>))"

definition spawn_with_context ::
  "bool \<Rightarrow> 'p \<Rightarrow> launch \<Rightarrow> u16 \<Rightarrow> u16 \<Rightarrow> u32 \<Rightarrow> u32 \<Rightarrow> rstr option \<Rightarrow> 'p registry
     \<Rightarrow> (io_failure + (u64 \<times> u64 \<times> rstr)) \<times> 'p registry"
where
  "spawn_with_context pe parser launched cols rows workspace_id pane_id name r =
     (case check_accepting r of
        Inl e \<Rightarrow> (Inl e, r)
      | Inr _ \<Rightarrow>
          if list_ex (\<lambda>(_, s). has_key workspace_id pane_id s \<and> alive s) (r_sessions r)
          then (Inl (AlreadyExists, str_lit ''a live session already owns this workspace and pane key''), r)
          else
            (let r = r\<lparr>r_sessions := filter (\<lambda>(_, s). \<not> has_key workspace_id pane_id s \<or> alive s) (r_sessions r)\<rparr>;
                 (sid, r) = next_id r
             in case session_spawn pe parser launched sid cols rows workspace_id pane_id name of
                  Inl e \<Rightarrow> (Inl e, r)
                | Inr (s, token) \<Rightarrow> (Inr (sid, token, s_hook_capability s), put_session sid s r)))"

text \<open>The last part of \<open>ensure_with_context\<close>: no session that can be attached to has the key.\<close>

definition ensure_spawn ::
  "bool \<Rightarrow> 'p \<Rightarrow> launch \<Rightarrow> u16 \<Rightarrow> u16 \<Rightarrow> u32 \<Rightarrow> u32 \<Rightarrow> rstr option \<Rightarrow> nat \<Rightarrow> 'p registry
     \<Rightarrow> (io_failure + ensured_session) \<times> 'p registry"
where
  "ensure_spawn pe parser launched cols rows workspace_id pane_id name scrollback_lines r =
     (let dead_matching = map fst (filter (\<lambda>(_, s). has_key workspace_id pane_id s \<and> \<not> alive s) (r_sessions r));
          r = fold drop_session dead_matching r;
          (sid, r) = next_id r
      in case session_spawn pe parser launched sid cols rows workspace_id pane_id name of
           Inl e \<Rightarrow> (Inl e, r)
         | Inr (s, token) \<Rightarrow>
             (Inr \<lparr>en_session_id = sid, en_attachment_token = token, en_hook_capability = s_hook_capability s,
                   en_disposition = Spawned,
                   en_snapshot = session_snapshot (min scrollback_lines SNAPSHOT_MAX_SCROLLBACK_LINES) s\<rparr>,
              put_session sid s r))"

definition ensure_with_context ::
  "bool \<Rightarrow> 'p \<Rightarrow> launch \<Rightarrow> bool \<Rightarrow> ('p session \<Rightarrow> 'p session) \<Rightarrow> ('p session \<Rightarrow> 'p session)
     \<Rightarrow> u16 \<Rightarrow> u16 \<Rightarrow> u32 \<Rightarrow> u32 \<Rightarrow> rstr option \<Rightarrow> nat \<Rightarrow> 'p registry
     \<Rightarrow> ((io_failure + ensured_session) \<times> 'p registry) option"
where
  "ensure_with_context pe parser launched resize_ok env1 env2 cols rows workspace_id pane_id name scrollback_lines r =
     (case check_accepting r of
        Inl e \<Rightarrow> Some (Inl e, r)
      | Inr _ \<Rightarrow>
          (let matching_live = map fst (filter (\<lambda>(_, s). has_key workspace_id pane_id s \<and> alive s) (r_sessions r));
               spawn_new = (\<lambda>r. ensure_spawn pe parser launched cols rows workspace_id pane_id name
                                  scrollback_lines (map_sessions env2 r))
           in case matching_live of
                [sid] \<Rightarrow>
                  do {
                    resized \<leftarrow> get_session r sid;
                    let resized = (if s_cols resized \<noteq> cols \<or> s_rows resized \<noteq> rows
                                   then session_resize resize_ok cols rows resized else resized);
                    let r = map_sessions env1 (set_session sid resized r);
                    s \<leftarrow> get_session r sid;
                    (attachment, s) \<leftarrow> session_attach_with_snapshot (min scrollback_lines SNAPSHOT_MAX_SCROLLBACK_LINES) s;
                    Some (case attachment of
                            Some (token, snapshot) \<Rightarrow>
                              (Inr \<lparr>en_session_id = sid, en_attachment_token = token,
                                    en_hook_capability = s_hook_capability s, en_disposition = Existing,
                                    en_snapshot = snapshot\<rparr>,
                               set_session sid s r)
                          | None \<Rightarrow> spawn_new (drop_session sid r))
                  }
              | [] \<Rightarrow> Some (spawn_new r)
              | _ \<Rightarrow> Some (Inl (AlreadyExists,
                              str_lit ''multiple live sessions share one workspace and pane key''), r)))"

section \<open>Operations on one session\<close>

definition attach_with_snapshot ::
  "u64 \<Rightarrow> nat \<Rightarrow> 'p registry \<Rightarrow> ((u64 \<times> rstr \<times> snapshot) option \<times> 'p registry) option"
where
  "attach_with_snapshot sid scrollback_lines r =
     (case get_session r sid of
        None \<Rightarrow> Some (None, drop_session sid r)
      | Some s \<Rightarrow>
          map_option
            (\<lambda>(attachment, s').
               case attachment of
                 Some (token, snapshot) \<Rightarrow> (Some (token, s_hook_capability s, snapshot), set_session sid s' r)
               | None \<Rightarrow> (None, drop_session sid r))
            (session_attach_with_snapshot (min scrollback_lines SNAPSHOT_MAX_SCROLLBACK_LINES) s))"

definition attach :: "u64 \<Rightarrow> 'p registry \<Rightarrow> ((u64 \<times> rstr) option \<times> 'p registry) option" where
  "attach sid r =
     (case get_session r sid of
        None \<Rightarrow> Some (None, drop_session sid r)
      | Some s \<Rightarrow>
          map_option
            (\<lambda>(attachment, s').
               case attachment of
                 Some token \<Rightarrow> (Some (token, s_hook_capability s), set_session sid s' r)
               | None \<Rightarrow> (None, drop_session sid r))
            (session_attach s))"

definition detach :: "u64 \<Rightarrow> u64 \<Rightarrow> 'p registry \<Rightarrow> bool \<times> 'p registry" where
  "detach sid token r =
     (case get_session r sid of
        None \<Rightarrow> (False, r)
      | Some s \<Rightarrow> (let (done, s') = session_detach token s in (done, set_session sid s' r)))"

definition no_session :: "u64 \<Rightarrow> io_failure" where
  "no_session sid = (NotFound, str_lit ''no session for id '' @ show_nat (unat sid))"

definition registry_write :: "(u8 list \<Rightarrow> io_failure + unit) \<Rightarrow> u64 \<Rightarrow> u8 list \<Rightarrow> 'p registry \<Rightarrow> io_failure + unit" where
  "registry_write io sid bytes r =
     (case get_session r sid of None \<Rightarrow> Inl (no_session sid) | Some s \<Rightarrow> session_write io bytes s)"

definition registry_resize :: "bool \<Rightarrow> u64 \<Rightarrow> u16 \<Rightarrow> u16 \<Rightarrow> 'p registry \<Rightarrow> (io_failure + unit) \<times> 'p registry" where
  "registry_resize ok sid cols rows r =
     (case get_session r sid of
        None \<Rightarrow> (Inl (no_session sid), r)
      | Some s \<Rightarrow> (Inr (), set_session sid (session_resize ok cols rows s) r))"

definition rename :: "u64 \<Rightarrow> rstr option \<Rightarrow> 'p registry \<Rightarrow> bool \<times> 'p registry" where
  "rename sid name r =
     (case get_session r sid of None \<Rightarrow> (False, r) | Some s \<Rightarrow> (True, set_session sid (set_name name s) r))"

text \<open>A removed session is killed and dropped, so nothing of it is left in the table.\<close>

definition remove_session :: "u64 \<Rightarrow> 'p registry \<Rightarrow> bool \<times> 'p registry" where
  "remove_session sid r = (get_session r sid \<noteq> None, drop_session sid r)"

definition session_info_of :: "(u32 \<Rightarrow> u64 option) \<Rightarrow> u64 \<times> 'p session \<Rightarrow> session_info" where
  "session_info_of rss x = (case x of (sid, s) \<Rightarrow>
     \<lparr>info_id = sid, info_cols = s_cols s, info_rows = s_rows s, info_alive = alive s, info_pid = s_pid s,
      info_memory_rss_bytes = Option.bind (s_pid s) rss, info_workspace_id = s_workspace_id s,
      info_pane_id = s_pane_id s, info_name = s_name s\<rparr>)"

definition list_sessions :: "(u32 \<Rightarrow> u64 option) \<Rightarrow> 'p registry \<Rightarrow> session_info list" where
  "list_sessions rss r = sort_key info_id (map (session_info_of rss) (r_sessions r))"

definition registry_snapshot :: "u64 \<Rightarrow> nat \<Rightarrow> 'p registry \<Rightarrow> snapshot option" where
  "registry_snapshot sid scrollback_lines r = map_option (session_snapshot scrollback_lines) (get_session r sid)"

definition registry_len :: "'p registry \<Rightarrow> nat" where
  "registry_len r = length (r_sessions r)"

definition registry_is_empty :: "'p registry \<Rightarrow> bool" where
  "registry_is_empty r \<longleftrightarrow> r_sessions r = []"

definition kill_all :: "'p registry \<Rightarrow> u64 list \<times> 'p registry" where
  "kill_all r = (let ids = map fst (r_sessions r) in (ids, fold drop_session ids r))"

section \<open>The daemon\<close>

text \<open>
  What can happen to the table: a step of a thread of one session, and the requests, each at once. The
  environment inside \<open>ensure\<close> is any number of thread steps of each session.
\<close>

abbreviation session_envs ::
  "'p \<Rightarrow> ('p \<Rightarrow> u8 \<Rightarrow> 'p \<times> vte_action list) \<Rightarrow> bool \<Rightarrow> 'p session \<Rightarrow> 'p session \<Rightarrow> bool"
where
  "session_envs pd advance pe \<equiv> (session_env pd advance pe)\<^sup>*\<^sup>*"

inductive registry_step ::
  "'p \<Rightarrow> ('p \<Rightarrow> u8 \<Rightarrow> 'p \<times> vte_action list) \<Rightarrow> bool \<Rightarrow> 'p \<Rightarrow> 'p registry \<Rightarrow> 'p registry \<Rightarrow> bool"
  for pd advance pe parser
where
  thread: "registry_step pd advance pe parser r (set_session sid s' r)"
    if "get_session r sid = Some s" and "session_env pd advance pe s s'"
| connects: "registry_step pd advance pe parser r (snd (register_connection r))"
| disconnects: "registry_step pd advance pe parser r (drop_connection r)"
| stops: "registry_step pd advance pe parser r (snd (stop force retire r))"
| spawns: "registry_step pd advance pe parser r
      (snd (spawn_with_context pe parser launched cols rows workspace_id pane_id name r))"
| ensures: "registry_step pd advance pe parser r r'"
    if "ensure_with_context pe parser launched resize_ok env1 env2 cols rows workspace_id pane_id name lines r = Some (res, r')"
      and "\<And>s. session_envs pd advance pe s (env1 s)" and "\<And>s. session_envs pd advance pe s (env2 s)"
| attaches: "registry_step pd advance pe parser r r'"
    if "attach_with_snapshot sid lines r = Some (res, r')"
| detaches: "registry_step pd advance pe parser r (snd (detach sid token r))"
| resizes: "registry_step pd advance pe parser r (snd (registry_resize ok sid cols rows r))"
| renames: "registry_step pd advance pe parser r (snd (rename sid name r))"
| removes: "registry_step pd advance pe parser r (snd (remove_session sid r))"
| kills: "registry_step pd advance pe parser r (snd (kill_all r))"

end
