(* ===== verification/Registry_Inv.thy ===== *)
theory Registry_Inv
  imports Registry Session_Inv
begin

text \<open>
  The invariant of the table of sessions and that every step of the daemon keeps it. A change of one
  session that keeps the session well-formed and its identity keeps the table well-formed (the locale
  \<open>session_change\<close>, interpreted on the threads and on every request to a single session).
\<close>

section \<open>The invariant\<close>

definition session_key :: "u64 \<times> 'p session \<Rightarrow> u32 \<times> u32" where
  "session_key x = (s_workspace_id (snd x), s_pane_id (snd x))"

definition entry_ok :: "u64 \<Rightarrow> u64 \<times> 'p session \<Rightarrow> bool" where
  "entry_ok next x \<longleftrightarrow>
     s_id (snd x) = fst x \<and> session_wf (snd x) \<and> s_pty (snd x) \<noteq> None \<and> 1 \<le> fst x \<and>
     (fst x < next \<or> next = 2 ^ 64 - 1)"

definition registry_wf :: "'p registry \<Rightarrow> bool" where
  "registry_wf r \<longleftrightarrow>
     distinct (map fst (r_sessions r)) \<and> distinct (map session_key (r_sessions r)) \<and>
     (\<forall>x \<in> set (r_sessions r). entry_ok (r_next_id r) x) \<and> 1 \<le> r_next_id r \<and>
     (r_stopping r \<longrightarrow> r_sessions r = [])"

lemma new_registry_wf: "registry_wf new_registry"
  by (simp add: registry_wf_def new_registry_def)

lemma distinct_map_filter_mono: "distinct (map f xs) \<Longrightarrow> distinct (map f (filter P xs))"
  by (simp add: distinct_map_filter)

lemma registry_wf_filter:
  "registry_wf r \<Longrightarrow> registry_wf (r\<lparr>r_sessions := filter P (r_sessions r)\<rparr>)"
  by (simp add: registry_wf_def distinct_map_filter_mono)

lemma drop_session_wf [intro]: "registry_wf r \<Longrightarrow> registry_wf (drop_session sid r)"
  unfolding drop_session_def by (rule registry_wf_filter)

lemma fold_drop_session:
  "fold drop_session ids r = r\<lparr>r_sessions := filter (\<lambda>x. fst x \<notin> set ids) (r_sessions r)\<rparr>"
  by (induction ids arbitrary: r) (auto simp: drop_session_def split_beta intro!: filter_cong)

lemma get_session_mem: "get_session r sid = Some s \<Longrightarrow> (sid, s) \<in> set (r_sessions r)"
  by (simp add: get_session_def map_of_SomeD)

lemma get_session_iff: "registry_wf r \<Longrightarrow> get_session r sid = Some s \<longleftrightarrow> (sid, s) \<in> set (r_sessions r)"
  by (simp add: get_session_def registry_wf_def)

section \<open>A change of one session\<close>

definition same_entry :: "'p session \<Rightarrow> 'p session \<Rightarrow> bool" where
  "same_entry s s' \<longleftrightarrow> same_session s s' \<and> (session_wf s \<longrightarrow> session_wf s')"

lemma same_entry_ok: "same_entry s s' \<Longrightarrow> entry_ok next (k, s) \<Longrightarrow> entry_ok next (k, s')"
  by (simp add: same_entry_def entry_ok_def same_session_def)

lemma same_entry_key: "same_entry s s' \<Longrightarrow> session_key (k, s') = session_key (k, s)"
  by (simp add: same_entry_def session_key_def same_session_def)

lemma registry_wf_map:
  assumes r: "registry_wf r" and f: "\<And>k s. (k, s) \<in> set (r_sessions r) \<Longrightarrow> same_entry s (f k s)"
  shows "registry_wf (r\<lparr>r_sessions := map (\<lambda>(k, s). (k, f k s)) (r_sessions r)\<rparr>)"
proof -
  let ?g = "\<lambda>(k, s). (k, f k s)"
  have key: "session_key (?g x) = session_key x" "entry_ok (r_next_id r) (?g x)" "fst (?g x) = fst x"
    if "x \<in> set (r_sessions r)" for x
    using that r same_entry_key [OF f, of "fst x" "snd x"] same_entry_ok [OF f, of "fst x" "snd x"]
    by (auto simp: registry_wf_def split_beta)
  have "map session_key (map ?g (r_sessions r)) = map session_key (r_sessions r)"
    "map fst (map ?g (r_sessions r)) = map fst (r_sessions r)"
    unfolding map_map comp_apply by (intro map_cong [OF refl]; simp add: key)+
  moreover have "\<forall>x \<in> set (map ?g (r_sessions r)). entry_ok (r_next_id r) x" using key(2) by auto
  ultimately show ?thesis using r by (simp only: registry_wf_def registry.simps) (simp del: map_map)
qed

lemma set_session_wf:
  assumes "registry_wf r" and "get_session r sid = Some s" and "same_entry s s'"
  shows "registry_wf (set_session sid s' r)"
proof -
  have "registry_wf (r\<lparr>r_sessions := map (\<lambda>(k, v). (k, if k = sid then s' else v)) (r_sessions r)\<rparr>)"
  proof (rule registry_wf_map [OF assms(1)])
    fix k v
    assume "(k, v) \<in> set (r_sessions r)"
    then show "same_entry v (if k = sid then s' else v)"
      using assms get_session_iff [OF assms(1), of k v] by (auto simp: same_entry_def)
  qed
  then show ?thesis by (simp add: set_session_def)
qed

locale session_change =
  fixes change :: "'p session \<Rightarrow> 'p session \<Rightarrow> bool"
  assumes change_wf: "change s s' \<Longrightarrow> session_wf s \<Longrightarrow> session_wf s'"
    and change_same: "change s s' \<Longrightarrow> same_session s s'"
begin

lemma entry: "change s s' \<Longrightarrow> same_entry s s'"
  using change_wf change_same by (simp add: same_entry_def)

lemma many: "change\<^sup>*\<^sup>* s s' \<Longrightarrow> same_entry s s'"
  by (induction rule: rtranclp_induct)
    (auto simp: same_entry_def intro: change_wf same_session_trans [OF _ change_same])

lemma set_keeps: "registry_wf r \<Longrightarrow> get_session r sid = Some s \<Longrightarrow> change s s' \<Longrightarrow> registry_wf (set_session sid s' r)"
  by (rule set_session_wf [OF _ _ entry])

lemma all_keeps: "registry_wf r \<Longrightarrow> (\<And>s. change\<^sup>*\<^sup>* s (f s)) \<Longrightarrow> registry_wf (map_sessions f r)"
  unfolding map_sessions_def using registry_wf_map [of r "\<lambda>_. f"] many by simp

end

interpretation threads: session_change "session_env pd advance pe" for pd advance pe
  by unfold_locales (auto intro: session_env_wf same_session_env)

interpretation attaching: session_change "\<lambda>s s'. \<exists>lines res. session_attach_with_snapshot lines s = Some (res, s')"
  by unfold_locales (auto intro: session_attach_wf same_session_attach)

interpretation detaching: session_change "\<lambda>s s'. \<exists>token. s' = snd (session_detach token s)"
  by unfold_locales (auto intro: session_detach_wf same_session_detach)

interpretation resizing: session_change "\<lambda>s s'. \<exists>ok cols rows. s' = session_resize ok cols rows s"
  by unfold_locales (auto intro: same_session_resize)

interpretation naming: session_change "\<lambda>s s'. \<exists>name. s' = set_name name s"
  by unfold_locales (auto intro: same_session_name)

section \<open>Ids and new sessions\<close>

lemma next_id_spec:
  assumes "registry_wf r" and "next_id r = (sid, r')"
  shows "registry_wf r'" and "r_sessions r' = r_sessions r" and "r_stopping r' = r_stopping r" and "1 \<le> sid"
    and "sid < r_next_id r' \<or> r_next_id r' = 2 ^ 64 - 1"
    and "r_next_id r \<noteq> 2 ^ 64 - 1 \<Longrightarrow> sid \<notin> fst ` set (r_sessions r)"
    and "r_connections r' = r_connections r"
proof -
  have "registry_wf r' \<and> r_sessions r' = r_sessions r \<and> r_stopping r' = r_stopping r \<and> 1 \<le> sid \<and>
      (sid < r_next_id r' \<or> r_next_id r' = 2 ^ 64 - 1) \<and> r_connections r' = r_connections r"
  proof (cases "r_next_id r = 2 ^ 64 - 1")
    case True
    then show ?thesis using assms by (simp add: next_id_def)
  next
    case False
    then have n: "sid = r_next_id r" "r' = r\<lparr>r_next_id := r_next_id r + 1\<rparr>"
      using assms(2) by (auto simp: next_id_def)
    have lt: "r_next_id r < r_next_id r + 1" using False by (rule u64_less_Suc)
    have "entry_ok (r_next_id r + 1) x" if "entry_ok (r_next_id r) x" for x
      using that False order.strict_trans [OF _ lt, of "fst x"] by (simp add: entry_ok_def)
    then have "\<forall>x \<in> set (r_sessions r). entry_ok (r_next_id r + 1) x" using assms(1) by (auto simp: registry_wf_def)
    moreover have "1 \<le> r_next_id r" using assms(1) by (simp add: registry_wf_def)
    then have "1 \<le> r_next_id r + 1" using lt by (meson order.trans order.strict_implies_order)
    ultimately show ?thesis using assms(1) lt unfolding n registry_wf_def by simp
  qed
  then show "registry_wf r'" "r_sessions r' = r_sessions r" "r_stopping r' = r_stopping r" "1 \<le> sid"
    "sid < r_next_id r' \<or> r_next_id r' = 2 ^ 64 - 1" "r_connections r' = r_connections r" by auto
  show "sid \<notin> fst ` set (r_sessions r)" if "r_next_id r \<noteq> 2 ^ 64 - 1"
    using that assms by (auto simp: next_id_def registry_wf_def entry_ok_def)
qed

lemma put_session_wf:
  assumes "registry_wf r" and "\<not> r_stopping r" and "entry_ok (r_next_id r) (sid, s)"
    and "\<And>x. x \<in> set (r_sessions r) \<Longrightarrow> session_key x \<noteq> session_key (sid, s)"
  shows "registry_wf (put_session sid s r)"
proof -
  have "session_key (sid, s) \<notin> session_key ` set (filter (\<lambda>(k, _). k \<noteq> sid) (r_sessions r))"
  proof
    assume "session_key (sid, s) \<in> session_key ` set (filter (\<lambda>(k, _). k \<noteq> sid) (r_sessions r))"
    then obtain x where "x \<in> set (r_sessions r)" "session_key (sid, s) = session_key x" by auto
    then show False using assms(4) by metis
  qed
  moreover have "sid \<notin> fst ` set (filter (\<lambda>(k, _). k \<noteq> sid) (r_sessions r))" by auto
  ultimately show ?thesis
    using registry_wf_filter [OF assms(1), of "\<lambda>(k, _). k \<noteq> sid"] assms(2,3)
    unfolding registry_wf_def put_session_def by simp
qed

lemma session_spawn_ok:
  assumes "session_spawn pe parser launched sid cols rows w p name = Inr (s, token)"
    and "1 \<le> sid" and "sid < next \<or> next = 2 ^ 64 - 1"
  shows "entry_ok next (sid, s)" and "session_key (sid, s) = (w, p)" and "alive s" and "token = 1"
    and "s_cols s = cols" and "s_rows s = rows"
    and "o_current (s_output s) = Some \<lparr>os_token = token, os_sent = []\<rparr>" and "o_next_token (s_output s) = token + 1"
proof -
  obtain bytes pid where "launched = Inr (bytes, pid)" "token = 1"
    "s = session_new pe parser sid cols rows w p name (encode_capability bytes) pid"
    using assms(1) by (auto simp: session_spawn_def split: sum.splits)
  then show "entry_ok next (sid, s)" "session_key (sid, s) = (w, p)" "alive s" "token = 1"
    "s_cols s = cols" "s_rows s = rows" "o_current (s_output s) = Some \<lparr>os_token = token, os_sent = []\<rparr>"
    "o_next_token (s_output s) = token + 1"
    using assms(2,3) session_new_wf
    by (auto simp: entry_ok_def session_key_def) (simp_all add: session_new_def alive_def child_running_def)
qed

lemma has_key_iff: "has_key w p s \<longleftrightarrow> session_key (k, s) = (w, p)"
  by (simp add: has_key_def session_key_def)

text \<open>Spawning under a key that no session of the table has.\<close>

lemma spawn_fresh:
  assumes r: "registry_wf r" "\<not> r_stopping r" and fresh: "\<And>x. x \<in> set (r_sessions r) \<Longrightarrow> session_key x \<noteq> (w, p)"
    and n: "next_id r = (sid, r')"
  shows "registry_wf r'"
    and "session_spawn pe parser launched sid cols rows w p name = Inr (s, token) \<Longrightarrow> registry_wf (put_session sid s r')"
proof -
  note N = next_id_spec [OF r(1) n]
  show "registry_wf r'" by (rule N(1))
  assume sp: "session_spawn pe parser launched sid cols rows w p name = Inr (s, token)"
  note S = session_spawn_ok [OF sp N(4,5)]
  show "registry_wf (put_session sid s r')"
    by (rule put_session_wf [OF N(1) _ S(1)]) (use r(2) N fresh S(2) in auto)
qed

lemma not_stopping: "check_accepting r = Inr u \<longleftrightarrow> \<not> r_stopping r"
  by (simp add: check_accepting_def)

lemma check_cases:
  obtains (refused) e where "check_accepting r = Inl e" "r_stopping r" | (accepted) "check_accepting r = Inr ()" "\<not> r_stopping r"
  by (cases "r_stopping r") (auto simp: check_accepting_def)

lemma spawn_with_context_wf:
  assumes "registry_wf r"
  shows "registry_wf (snd (spawn_with_context pe parser launched cols rows w p name r))"
proof (cases r rule: check_cases)
  case (refused e)
  then show ?thesis using assms by (simp add: spawn_with_context_def)
next
  case accepted
  let ?r = "r\<lparr>r_sessions := filter (\<lambda>(_, s). \<not> has_key w p s \<or> alive s) (r_sessions r)\<rparr>"
  show ?thesis
  proof (cases "list_ex (\<lambda>(_, s). has_key w p s \<and> alive s) (r_sessions r)")
    case True
    then show ?thesis using assms accepted by (simp add: spawn_with_context_def)
  next
    case False
    obtain sid r' where n: "next_id ?r = (sid, r')" by fastforce
    have "session_key x \<noteq> (w, p)" if "x \<in> set (r_sessions ?r)" for x
      using that False has_key_iff [of w p "snd x" "fst x"] by (auto simp: list_ex_iff)
    note F = spawn_fresh [OF registry_wf_filter [OF assms] _ this n]
    show ?thesis using F accepted False n
      by (auto simp: spawn_with_context_def split: sum.split)
  qed
qed

lemma ensure_spawn_wf:
  assumes r: "registry_wf r" "\<not> r_stopping r"
    and dead: "\<And>x. x \<in> set (r_sessions r) \<Longrightarrow> session_key x = (w, p) \<Longrightarrow> \<not> alive (snd x)"
  shows "registry_wf (snd (ensure_spawn pe parser launched cols rows w p name lines r))"
proof -
  let ?d = "map fst (filter (\<lambda>(_, s). has_key w p s \<and> \<not> alive s) (r_sessions r))"
  let ?r = "fold drop_session ?d r"
  have wf: "registry_wf ?r" unfolding fold_drop_session by (rule registry_wf_filter [OF r(1)])
  obtain sid r' where n: "next_id ?r = (sid, r')" by fastforce
  have fresh: "session_key x \<noteq> (w, p)" if "x \<in> set (r_sessions ?r)" for x
  proof
    assume k: "session_key x = (w, p)"
    have x: "x \<in> set (r_sessions r)" "fst x \<notin> set ?d" using that by (auto simp: fold_drop_session)
    then have "x \<in> set (filter (\<lambda>(_, s). has_key w p s \<and> \<not> alive s) (r_sessions r))"
      using dead [OF x(1) k] k by (simp add: split_beta has_key_def session_key_def)
    then have "fst x \<in> set ?d" unfolding set_map by (rule imageI)
    then show False using x(2) by blast
  qed
  have "\<not> r_stopping ?r" using r(2) by (simp add: fold_drop_session)
  note F = spawn_fresh [OF wf this fresh n]
  show ?thesis using F n by (auto simp: ensure_spawn_def Let_def split: sum.split)
qed

section \<open>Ensuring a session\<close>

lemma one_per_key: "distinct (map f xs) \<Longrightarrow> \<exists>y. filter (\<lambda>x. f x = k) xs \<in> {[], [y]}"
proof (induction xs)
  case (Cons x xs)
  then show ?case
  proof (cases "f x = k")
    case True
    then have "filter (\<lambda>x. f x = k) xs = []" using Cons.prems by (auto simp: filter_empty_conv image_iff)
    then show ?thesis using True by auto
  qed auto
qed auto

lemma live_with_key:
  assumes "registry_wf r"
  shows "map fst (filter (\<lambda>(_, s). has_key w p s \<and> alive s) (r_sessions r)) = [] \<and>
      (\<forall>x \<in> set (r_sessions r). session_key x = (w, p) \<longrightarrow> \<not> alive (snd x))
    \<or> (\<exists>sid s. map fst (filter (\<lambda>(_, s). has_key w p s \<and> alive s) (r_sessions r)) = [sid] \<and>
        get_session r sid = Some s \<and> has_key w p s \<and> alive s \<and>
        (\<forall>x \<in> set (r_sessions r). session_key x = (w, p) \<longrightarrow> x = (sid, s)))"
proof -
  let ?f = "filter (\<lambda>(_, s). has_key w p s \<and> alive s) (r_sessions r)"
  have f: "?f = filter (\<lambda>x. alive (snd x)) (filter (\<lambda>x. session_key x = (w, p)) (r_sessions r))"
    by (auto simp: has_key_def session_key_def split_beta intro!: filter_cong)
  obtain y where y: "filter (\<lambda>x. session_key x = (w, p)) (r_sessions r) \<in> {[], [y]}"
    using one_per_key [of session_key "r_sessions r"] assms unfolding registry_wf_def by blast
  show ?thesis
  proof (cases "?f = []")
    case True
    then show ?thesis unfolding f by (auto simp: filter_empty_conv)
  next
    case False
    then have k: "filter (\<lambda>x. session_key x = (w, p)) (r_sessions r) = [y]" "alive (snd y)"
      using y unfolding f by (auto simp del: filter_filter split: if_splits)
    then have only: "x = y" if "x \<in> set (r_sessions r)" "session_key x = (w, p)" for x
    proof -
      have "x \<in> set (filter (\<lambda>x. session_key x = (w, p)) (r_sessions r))" using that by simp
      then show ?thesis by (simp add: k(1))
    qed
    have "y \<in> set (filter (\<lambda>x. session_key x = (w, p)) (r_sessions r))" by (simp add: k)
    then have y': "y \<in> set (r_sessions r)" "session_key y = (w, p)" by auto
    then have "get_session r (fst y) = Some (snd y)" using get_session_iff [OF assms, of "fst y" "snd y"] by simp
    moreover have "?f = [y]" using k unfolding f by simp
    moreover have "has_key w p (snd y)" using y'(2) by (simp add: has_key_def session_key_def)
    ultimately show ?thesis using k(2) only by (intro disjI2 exI [of _ "fst y"] exI [of _ "snd y"]) auto
  qed
qed

text \<open>The state in which an attachment is tried: the one live session of the key, resized when its size
is another one, after what the threads did meanwhile.\<close>

definition resized :: "bool \<Rightarrow> u16 \<Rightarrow> u16 \<Rightarrow> 'p session \<Rightarrow> 'p session" where
  "resized ok cols rows s = (if s_cols s \<noteq> cols \<or> s_rows s \<noteq> rows then session_resize ok cols rows s else s)"

definition prepared :: "bool \<Rightarrow> ('p session \<Rightarrow> 'p session) \<Rightarrow> u16 \<Rightarrow> u16 \<Rightarrow> u64 \<Rightarrow> 'p session \<Rightarrow> 'p registry \<Rightarrow> 'p registry" where
  "prepared ok env cols rows sid s r = map_sessions env (set_session sid (resized ok cols rows s) r)"

lemma get_set_session: "get_session r sid = Some s \<Longrightarrow> get_session (set_session sid s' r) k = (if k = sid then Some s' else get_session r k)"
proof -
  have "map_of (map (\<lambda>(k, v). (k, if k = sid then s' else v)) xs) k =
      (if k = sid then map_option (\<lambda>_. s') (map_of xs k) else map_of xs k)" for xs :: "(u64 \<times> 'a session) list"
    by (induction xs) auto
  then show "get_session r sid = Some s \<Longrightarrow> ?thesis" by (simp add: get_session_def set_session_def)
qed

lemma get_map_sessions: "get_session (map_sessions f r) k = map_option f (get_session r k)"
  by (simp add: get_session_def map_sessions_def map_of_map)

lemma resizing_resized: "same_entry s (resized ok cols rows s)"
  using same_session_resize [of s ok cols rows] by (auto simp: same_entry_def resized_def)

lemma prepared_wf:
  assumes r: "registry_wf r" and g: "get_session r sid = Some s" and env: "\<And>s. session_envs pd advance pe s (env s)"
  shows "registry_wf (prepared ok env cols rows sid s r)"
    and "get_session (prepared ok env cols rows sid s r) sid = Some (env (resized ok cols rows s))"
    and "r_stopping (prepared ok env cols rows sid s r) = r_stopping r"
    and "map fst (r_sessions (prepared ok env cols rows sid s r)) = map fst (r_sessions r)"
proof -
  have "registry_wf (set_session sid (resized ok cols rows s) r)"
    by (rule set_session_wf [OF r g resizing_resized])
  then show "registry_wf (prepared ok env cols rows sid s r)" unfolding prepared_def using env
    by (rule threads.all_keeps)
  show "get_session (prepared ok env cols rows sid s r) sid = Some (env (resized ok cols rows s))"
    using get_set_session [OF g] by (simp add: prepared_def get_map_sessions)
qed (simp_all add: prepared_def map_sessions_def set_session_def split_beta)

text \<open>The two ways an accepted \<open>ensure\<close> ends: the one live session of the key is attached to, or a new
one is spawned in a table without a live session of the key.\<close>

definition spawn_state ::
  "bool \<Rightarrow> ('p session \<Rightarrow> 'p session) \<Rightarrow> ('p session \<Rightarrow> 'p session) \<Rightarrow> u16 \<Rightarrow> u16 \<Rightarrow> u32 \<Rightarrow> u32 \<Rightarrow> 'p registry \<Rightarrow> 'p registry \<Rightarrow> bool"
where
  "spawn_state ok env1 env2 cols rows w p r r1 \<longleftrightarrow>
     (r1 = map_sessions env2 r \<and> (\<forall>x \<in> set (r_sessions r). session_key x = (w, p) \<longrightarrow> \<not> alive (snd x))) \<or>
     (\<exists>sid s. get_session r sid = Some s \<and> has_key w p s \<and> alive s \<and> \<not> alive (env1 (resized ok cols rows s)) \<and>
        r1 = map_sessions env2 (drop_session sid (prepared ok env1 cols rows sid s r)))"

lemma ensure_cases:
  assumes r: "registry_wf r" "\<not> r_stopping r" and env: "\<And>s. session_envs pd advance pe s (env1 s)"
    and e: "ensure_with_context pe parser launched ok env1 env2 cols rows w p name lines r = Some (res, r')"
  obtains
    (attached) sid s token snap s2 where "get_session r sid = Some s" "has_key w p s" "alive s"
      "session_attach_with_snapshot (min lines SNAPSHOT_MAX_SCROLLBACK_LINES) (env1 (resized ok cols rows s)) = Some (Some (token, snap), s2)"
      "r' = set_session sid s2 (prepared ok env1 cols rows sid s r)"
      "res = Inr \<lparr>en_session_id = sid, en_attachment_token = token, en_hook_capability = s_hook_capability s2,
                  en_disposition = Existing, en_snapshot = snap\<rparr>"
  | (spawned) r1 where "spawn_state ok env1 env2 cols rows w p r r1"
      "(res, r') = ensure_spawn pe parser launched cols rows w p name lines r1"
proof -
  let ?m = "map fst (filter (\<lambda>(_, s). has_key w p s \<and> alive s) (r_sessions r))"
  have acc: "check_accepting r = Inr ()" using r(2) by (simp add: check_accepting_def)
  from live_with_key [OF r(1), of w p] show thesis
  proof (elim disjE exE conjE)
    assume m: "?m = []" and d: "\<forall>x \<in> set (r_sessions r). session_key x = (w, p) \<longrightarrow> \<not> alive (snd x)"
    then have "(res, r') = ensure_spawn pe parser launched cols rows w p name lines (map_sessions env2 r)"
      using e acc by (simp add: ensure_with_context_def Let_def)
    then show thesis by (rule spawned [rotated]) (use d in \<open>simp add: spawn_state_def\<close>)
  next
    fix sid s
    assume m: "?m = [sid]" and g: "get_session r sid = Some s" "has_key w p s" "alive s"
    let ?s1 = "env1 (resized ok cols rows s)" and ?r1 = "prepared ok env1 cols rows sid s r"
    note g1 = prepared_wf(2) [OF r(1) g(1) env]
    have e': "Option.bind (session_attach_with_snapshot (min lines SNAPSHOT_MAX_SCROLLBACK_LINES) ?s1)
        (\<lambda>(attachment, s2). Some (case attachment of
            Some (token, snapshot) \<Rightarrow> (Inr \<lparr>en_session_id = sid, en_attachment_token = token,
                 en_hook_capability = s_hook_capability s2, en_disposition = Existing, en_snapshot = snapshot\<rparr>,
               set_session sid s2 ?r1)
          | None \<Rightarrow> ensure_spawn pe parser launched cols rows w p name lines (map_sessions env2 (drop_session sid ?r1))))
      = Some (res, r')"
      using e unfolding ensure_with_context_def acc sum.case Let_def m list.case g(1) bind.bind_lunit
        resized_def [symmetric] prepared_def [symmetric] g1 bind.bind_lunit .
    then obtain att s2 where att: "session_attach_with_snapshot (min lines SNAPSHOT_MAX_SCROLLBACK_LINES) ?s1 = Some (att, s2)"
      by (cases "session_attach_with_snapshot (min lines SNAPSHOT_MAX_SCROLLBACK_LINES) ?s1") auto
    show thesis
    proof (cases att)
      case None
      have dead: "\<not> alive ?s1" using att None by (cases rule: attach_cases) simp_all
      show thesis by (rule spawned [of "map_sessions env2 (drop_session sid ?r1)"])
          (use e' att None g dead in \<open>auto simp: spawn_state_def\<close>)
    next
      case (Some ts)
      then show thesis using e' att g by (cases ts) (auto intro: attached)
    qed
  qed
qed

lemma dead_stays_dead: "session_envs pd advance pe s s' \<Longrightarrow> alive s' \<Longrightarrow> alive s"
  using threads.many [of pd advance pe s s'] by (simp add: same_entry_def same_session_def)

lemma map_sessions_dead:
  assumes "\<And>s. session_envs pd advance pe s (f s)"
    and "\<forall>x \<in> set (r_sessions r). session_key x = k \<longrightarrow> \<not> alive (snd x)"
  shows "\<forall>x \<in> set (r_sessions (map_sessions f r)). session_key x = k \<longrightarrow> \<not> alive (snd x)"
proof
  fix x
  assume "x \<in> set (r_sessions (map_sessions f r))"
  then obtain i s where x: "x = (i, f s)" "(i, s) \<in> set (r_sessions r)" by (auto simp: map_sessions_def)
  have "session_key (i, f s) = session_key (i, s)"
    using threads.many [OF assms(1)] by (rule same_entry_key)
  then show "session_key x = k \<longrightarrow> \<not> alive (snd x)"
    using assms(2) x dead_stays_dead [OF assms(1), of s] by auto
qed

lemma spawn_state_ok:
  assumes r: "registry_wf r" "\<not> r_stopping r"
    and env1: "\<And>s. session_envs pd advance pe s (env1 s)" and env2: "\<And>s. session_envs pd advance pe s (env2 s)"
    and st: "spawn_state ok env1 env2 cols rows w p r r1"
  shows "registry_wf r1" and "\<not> r_stopping r1"
    and "\<And>x. x \<in> set (r_sessions r1) \<Longrightarrow> session_key x = (w, p) \<Longrightarrow> \<not> alive (snd x)"
proof -
  have "registry_wf r1 \<and> \<not> r_stopping r1 \<and> (\<forall>x \<in> set (r_sessions r1). session_key x = (w, p) \<longrightarrow> \<not> alive (snd x))"
    using st unfolding spawn_state_def
  proof (elim disjE exE conjE)
    assume r1: "r1 = map_sessions env2 r" and d: "\<forall>x \<in> set (r_sessions r). session_key x = (w, p) \<longrightarrow> \<not> alive (snd x)"
    then show ?thesis using map_sessions_dead [OF env2 d] threads.all_keeps [OF r(1) env2] r(2)
      by (simp add: map_sessions_def [of env2 r])
  next
    fix sid s
    assume g: "get_session r sid = Some s" "has_key w p s"
      and r1: "r1 = map_sessions env2 (drop_session sid (prepared ok env1 cols rows sid s r))"
    let ?p = "prepared ok env1 cols rows sid s r"
    note P = prepared_wf [OF r(1) g(1) env1, of ok cols rows]
    have mem: "(sid, env1 (resized ok cols rows s)) \<in> set (r_sessions ?p)"
      using P(2) by (rule get_session_mem)
    have "same_entry s (env1 (resized ok cols rows s))"
      using threads.many [OF env1] resizing_resized same_session_trans unfolding same_entry_def by blast
    then have key: "session_key (sid, env1 (resized ok cols rows s)) = (w, p)"
      using g(2) same_entry_key has_key_iff by metis
    have "\<forall>x \<in> set (r_sessions (drop_session sid ?p)). session_key x = (w, p) \<longrightarrow> \<not> alive (snd x)"
    proof (intro ballI impI)
      fix x
      assume x: "x \<in> set (r_sessions (drop_session sid ?p))" "session_key x = (w, p)"
      then have "x \<in> set (r_sessions ?p)" "fst x \<noteq> sid" by (auto simp: drop_session_def)
      moreover have "inj_on session_key (set (r_sessions ?p))" using P(1) by (simp add: registry_wf_def distinct_map)
      ultimately have "x = (sid, env1 (resized ok cols rows s))" using mem key x(2) by (metis inj_onD)
      then show "\<not> alive (snd x)" using \<open>fst x \<noteq> sid\<close> by simp
    qed
    from map_sessions_dead [OF env2 this] show ?thesis
      using threads.all_keeps [OF drop_session_wf [OF P(1)] env2] r(2) P(3)
      by (simp add: r1) (simp add: map_sessions_def drop_session_def)
  qed
  then show "registry_wf r1" "\<not> r_stopping r1"
    "\<And>x. x \<in> set (r_sessions r1) \<Longrightarrow> session_key x = (w, p) \<Longrightarrow> \<not> alive (snd x)" by auto
qed

lemma ensure_wf:
  assumes r: "registry_wf r"
    and env1: "\<And>s. session_envs pd advance pe s (env1 s)" and env2: "\<And>s. session_envs pd advance pe s (env2 s)"
    and e: "ensure_with_context pe parser launched ok env1 env2 cols rows w p name lines r = Some (res, r')"
  shows "registry_wf r'"
proof (cases r rule: check_cases)
  case (refused x)
  then show ?thesis using e r by (simp add: ensure_with_context_def)
next
  case accepted
  from r accepted(2) env1 e show ?thesis
  proof (cases rule: ensure_cases)
    case (attached sid s token snap s2)
    note P = prepared_wf [OF r attached(1) env1, of ok cols rows]
    show ?thesis unfolding attached(5) by (rule attaching.set_keeps [OF P(1,2)]) (use attached(4) in blast)
  next
    case (spawned r1)
    note S = spawn_state_ok [OF r accepted(2) env1 env2 spawned(1)]
    have "registry_wf (snd (ensure_spawn pe parser launched cols rows w p name lines r1))"
      by (rule ensure_spawn_wf [OF S])
    then show ?thesis unfolding spawned(2) [symmetric] by simp
  qed
qed

section \<open>Every step\<close>

lemma attach_with_snapshot_wf:
  assumes r: "registry_wf r" and a: "attach_with_snapshot sid lines r = Some (res, r')"
  shows "registry_wf r'"
proof (cases "get_session r sid")
  case None
  then show ?thesis using a r by (auto simp: attach_with_snapshot_def)
next
  case (Some s)
  obtain att s' where s': "session_attach_with_snapshot (min lines SNAPSHOT_MAX_SCROLLBACK_LINES) s = Some (att, s')"
    using a Some by (auto simp: attach_with_snapshot_def)
  then have "registry_wf (set_session sid s' r)" by (intro attaching.set_keeps [OF r Some]) blast
  then show ?thesis using a Some s' r by (cases att) (auto simp: attach_with_snapshot_def)
qed

lemma single_session_steps_wf:
  assumes r: "registry_wf r"
  shows "registry_wf (snd (detach sid token r))" and "registry_wf (snd (registry_resize ok sid cols rows r))"
    and "registry_wf (snd (rename sid name r))" and "registry_wf (snd (remove_session sid r))"
proof -
  show "registry_wf (snd (detach sid token r))"
  proof (cases "get_session r sid")
    case (Some s)
    then have "registry_wf (set_session sid (snd (session_detach token s)) r)"
      by (intro detaching.set_keeps [OF r]) blast+
    then show ?thesis by (simp add: detach_def Some split_beta Let_def)
  qed (simp add: detach_def r)
  show "registry_wf (snd (registry_resize ok sid cols rows r))"
  proof (cases "get_session r sid")
    case (Some s)
    then have "registry_wf (set_session sid (session_resize ok cols rows s) r)"
      by (intro resizing.set_keeps [OF r]) blast+
    then show ?thesis by (simp add: registry_resize_def Some)
  qed (simp add: registry_resize_def r)
  show "registry_wf (snd (rename sid name r))"
  proof (cases "get_session r sid")
    case (Some s)
    then have "registry_wf (set_session sid (set_name name s) r)" by (intro naming.set_keeps [OF r]) blast+
    then show ?thesis by (simp add: rename_def Some)
  qed (simp add: rename_def r)
  show "registry_wf (snd (remove_session sid r))" using r by (auto simp: remove_session_def)
qed

lemma table_steps_wf:
  assumes r: "registry_wf r"
  shows "registry_wf (snd (register_connection r))" and "registry_wf (drop_connection r)"
    and "registry_wf (snd (stop force retire r))" and "registry_wf (snd (kill_all r))"
  using r registry_wf_filter [OF r]
  by (auto simp: register_connection_def drop_connection_def stop_def kill_all_def Let_def fold_drop_session
      registry_wf_def split: sum.split)

lemma registry_step_wf: "registry_step pd advance pe parser r r' \<Longrightarrow> registry_wf r \<Longrightarrow> registry_wf r'"
proof (induction rule: registry_step.induct)
  case (thread r sid s s')
  then show ?case by (intro threads.set_keeps) auto
next
  case ensures
  show ?case by (rule ensure_wf [OF ensures(4,2,3,1)])
next
  case attaches
  show ?case by (rule attach_with_snapshot_wf [OF attaches(2,1)])
qed (simp_all add: spawn_with_context_wf single_session_steps_wf table_steps_wf)

lemma reachable_wf: "(registry_step pd advance pe parser)\<^sup>*\<^sup>* new_registry r \<Longrightarrow> registry_wf r"
  by (induction rule: rtranclp_induct) (auto intro: new_registry_wf registry_step_wf)

end
