(* ===== verification/Registry_Props.thy ===== *)
theory Registry_Props
  imports Registry_Inv
begin

text \<open>
  What the daemon promises of its sessions: one per pane key with an emulator of its size, an \<open>ensure\<close>
  that ends with exactly the session of the key and may be repeated, attachments that a stale token cannot
  end, a stream that is cut cleanly at an attachment, and an end that spares running children and is final.
\<close>

section \<open>The table\<close>

text \<open>C7: In every reachable table the ids and the pane keys of the sessions are distinct, every session
carries its own id, its emulator is well-formed and has exactly the session's size, its attachment exists
only while the output is open and has a token below the next one, and a daemon that is stopping has no
session at all.\<close>

theorem one_session_per_key:
  assumes "(registry_step pd advance pe parser)\<^sup>*\<^sup>* new_registry r"
  shows "distinct (map fst (r_sessions r)) \<and>
    distinct (map (\<lambda>(_, s). (s_workspace_id s, s_pane_id s)) (r_sessions r)) \<and>
    (\<forall>(sid, s) \<in> set (r_sessions r). s_id s = sid \<and> 1 \<le> sid \<and> term_wf (s_terminal s) \<and>
       t_rows (s_terminal s) = unat (s_rows s) \<and> t_cols (s_terminal s) = unat (s_cols s) \<and>
       (case o_current (s_output s) of None \<Rightarrow> True
        | Some sink \<Rightarrow> o_reader_open (s_output s) \<and> os_token sink < o_next_token (s_output s))) \<and>
    (if r_stopping r then r_sessions r = [] else True)"
proof -
  have wf: "registry_wf r" using assms by (rule reachable_wf)
  have "map session_key (r_sessions r) = map (\<lambda>(_, s). (s_workspace_id s, s_pane_id s)) (r_sessions r)"
    by (simp add: session_key_def split_beta)
  then have "distinct (map (\<lambda>(_, s). (s_workspace_id s, s_pane_id s)) (r_sessions r))"
    using wf by (metis registry_wf_def)
  then show ?thesis using wf
    by (auto simp: registry_wf_def entry_ok_def session_wf_def split: option.split)
qed

definition launch_ok :: launch where "launch_ok = Inr (replicate 32 171, Some 7)"

definition two_panes :: "unit registry" where
  "two_panes =
     snd (spawn_with_context False () launch_ok 80 24 1 2 None
       (snd (spawn_with_context False () launch_ok 80 24 1 1 None new_registry)))"

lemma two_panes_reachable: "(registry_step () (\<lambda>p b. (p, [])) False ())\<^sup>*\<^sup>* new_registry two_panes"
  unfolding two_panes_def
  by (rule rtranclp.rtrancl_into_rtrancl [OF r_into_rtranclp]; rule registry_step.spawns)

lemma two_panes_sessions:
  "map (\<lambda>(sid, s). (sid, s_pane_id s, alive s)) (r_sessions two_panes) = [(2, 2, True), (1, 1, True)]"
  "\<not> r_stopping two_panes"
  by (simp_all add: two_panes_def spawn_with_context_def check_accepting_def new_registry_def next_id_def
      session_spawn_def launch_ok_def put_session_def session_new_def alive_def child_running_def has_key_def)

theorem one_session_per_key_witness:
  "length (r_sessions two_panes) = 2 \<and> distinct (map fst (r_sessions two_panes))"
proof -
  have "length (map (\<lambda>(sid, s). (sid, s_pane_id s, alive s)) (r_sessions two_panes)) = 2"
    by (simp only: two_panes_sessions) simp
  then show ?thesis using one_session_per_key [OF two_panes_reachable] by simp
qed

section \<open>Ensure\<close>

lemma get_put_session [simp]: "get_session (put_session sid s r) sid = Some s"
  by (simp add: get_session_def put_session_def)

lemma ensure_spawn_result:
  assumes r: "registry_wf r" and e: "ensure_spawn pe parser launched cols rows w p name lines r = (res, r')"
  shows "case res of Inl x \<Rightarrow> launched = Inl x
    | Inr en \<Rightarrow> en_disposition en = Spawned \<and>
       (\<exists>s. get_session r' (en_session_id en) = Some s \<and> has_key w p s \<and> alive s \<and> s_cols s = cols \<and> s_rows s = rows \<and>
            s_hook_capability s = en_hook_capability en \<and>
            o_current (s_output s) = Some \<lparr>os_token = en_attachment_token en, os_sent = []\<rparr> \<and>
            o_next_token (s_output s) = en_attachment_token en + 1 \<and>
            en_snapshot en = terminal_snapshot (s_terminal s) (min lines SNAPSHOT_MAX_SCROLLBACK_LINES))"
proof (cases launched)
  case (Inl x)
  then show ?thesis using e by (auto simp: ensure_spawn_def Let_def session_spawn_def split_beta)
next
  case (Inr l)
  let ?d = "map fst (filter (\<lambda>(_, s). has_key w p s \<and> \<not> alive s) (r_sessions r))"
  have wf: "registry_wf (fold drop_session ?d r)" unfolding fold_drop_session by (rule registry_wf_filter [OF r])
  obtain sid r1 where n: "next_id (fold drop_session ?d r) = (sid, r1)" by fastforce
  obtain s token where sp: "session_spawn pe parser launched sid cols rows w p name = Inr (s, token)"
    using Inr by (cases l) (auto simp: session_spawn_def)
  note S = session_spawn_ok [OF sp next_id_spec(4,5) [OF wf n]]
  have "has_key w p s" using S(2) by (simp add: has_key_def session_key_def)
  then show ?thesis using e n sp S by (auto simp: ensure_spawn_def Let_def session_snapshot_def)
qed

lemma filter_one: "distinct xs \<Longrightarrow> y \<in> set xs \<Longrightarrow> filter (\<lambda>x. x = y) xs = [y]"
  using one_per_key [of "\<lambda>x. x" xs y] by (auto simp: filter_empty_conv dest: filter_eq_ConsD)

lemma keys_unique:
  assumes "registry_wf r" and "get_session r sid = Some s" and "has_key w p s"
  shows "\<forall>x \<in> set (r_sessions r). has_key w p (snd x) \<longrightarrow> x = (sid, s)"
proof (intro ballI impI)
  fix x
  assume x: "x \<in> set (r_sessions r)" "has_key w p (snd x)"
  have "inj_on session_key (set (r_sessions r))" using assms(1) by (simp add: registry_wf_def distinct_map)
  then show "x = (sid, s)"
    using x get_session_mem [OF assms(2)] assms(3) by (auto simp: inj_on_def session_key_def has_key_def)
qed

text \<open>The size of a session only changes when it is resized.\<close>

lemma session_envs_size:
  "session_envs pd advance pe s s' \<Longrightarrow> s_cols s' = s_cols s \<and> s_rows s' = s_rows s"
proof (induction rule: rtranclp_induct)
  case (step s' s'')
  from step(2) have "s_cols s'' = s_cols s' \<and> s_rows s'' = s_rows s'"
    by (induction rule: session_env.induct) (auto simp: read_chunk_def Let_def close_output_def split: option.split)
  then show ?case using step(3) by simp
qed simp

lemma resized_size:
  assumes "alive s"
  shows "s_cols (resized ok cols rows s) = (if ok then cols else s_cols s) \<and>
    s_rows (resized ok cols rows s) = (if ok then rows else s_rows s)"
  using assms
  by (auto simp: resized_def session_resize_def alive_def child_running_def split: option.split_asm option.split if_splits)

lemma attach_size:
  "session_attach_with_snapshot lines s = Some (res, s') \<Longrightarrow> s_cols s' = s_cols s \<and> s_rows s' = s_rows s"
  by (auto elim!: attach_cases simp: close_output_def)

lemma attached_session:
  assumes "session_attach_with_snapshot lines s1 = Some (Some (token, snap), s2)" and "same_entry s s1"
  shows "same_session s s2" and "alive s2" and "o_current (s_output s2) = Some \<lparr>os_token = token, os_sent = []\<rparr>"
    and "o_next_token (s_output s2) = token + 1" and "token < token + 1" and "snap = terminal_snapshot (s_terminal s2) lines"
  using assms(1) same_session_attach [OF assms(1)] assms(2)
  by (auto elim!: attach_cases simp: same_entry_def intro: same_session_trans)
    (simp_all add: alive_def child_running_def split: if_splits)

text \<open>What an accepted \<open>ensure\<close> leaves, in both of its ways.\<close>

lemma ensure_result:
  assumes r: "registry_wf r" "\<not> r_stopping r"
    and env: "\<And>s. session_envs pd advance pe s (env1 s)" "\<And>s. session_envs pd advance pe s (env2 s)"
    and e: "ensure_with_context pe parser launched ok env1 env2 cols rows w p name lines r = Some (res, r')"
  shows "case res of Inl x \<Rightarrow> launched = Inl x
    | Inr en \<Rightarrow> \<exists>s. get_session r' (en_session_id en) = Some s \<and> has_key w p s \<and> alive s \<and>
        s_hook_capability s = en_hook_capability en \<and>
        o_current (s_output s) = Some \<lparr>os_token = en_attachment_token en, os_sent = []\<rparr> \<and>
        o_next_token (s_output s) = en_attachment_token en + 1 \<and>
        en_snapshot en = terminal_snapshot (s_terminal s) (min lines SNAPSHOT_MAX_SCROLLBACK_LINES) \<and>
        (case en_disposition en of
           Existing \<Rightarrow> (\<exists>s0. get_session r (en_session_id en) = Some s0 \<and> alive s0 \<and> same_session s0 s \<and>
             (s_cols s, s_rows s) = (if ok then (cols, rows) else (s_cols s0, s_rows s0)))
         | Spawned \<Rightarrow> s_cols s = cols \<and> s_rows s = rows)"
  using r env(1) e
proof (cases rule: ensure_cases)
  case (attached sid s token snap s2)
  note P = prepared_wf [OF r(1) attached(1) env(1), of ok cols rows]
  have "same_entry s (env1 (resized ok cols rows s))"
    using threads.many [OF env(1)] resizing_resized same_session_trans unfolding same_entry_def by blast
  note A = attached_session [OF attached(4) this]
  have "get_session r' sid = Some s2" using get_set_session [OF P(2)] attached(5) by simp
  moreover have "has_key w p s2" using attached(2) A(1) by (simp add: has_key_def same_session_def)
  moreover have "(s_cols s2, s_rows s2) = (if ok then (cols, rows) else (s_cols s, s_rows s))"
    using attach_size [OF attached(4)] session_envs_size [OF env(1)] resized_size [OF attached(3)] by simp
  ultimately show ?thesis using attached A by simp
next
  case (spawned r1)
  note S = spawn_state_ok [OF r env spawned(1)]
  show ?thesis using ensure_spawn_result [OF S(1) spawned(2) [symmetric]]
    by (auto split: sum.splits)
qed


text \<open>The first pane of \<open>two_panes\<close> has 80 columns and 24 rows; a client whose pane now has 100 and 30 asks for it.\<close>

lemma first_pane:
  obtains s where "get_session two_panes 1 = Some s" "alive s" "has_key 1 1 s" "s_cols s = 80" "s_rows s = 24"
    "o_next_token (s_output s) = 2" "map fst (filter (\<lambda>(_, s). has_key 1 1 s \<and> alive s) (r_sessions two_panes)) = [1]"
  by (rule that [of "session_new False () 1 80 24 1 1 None (encode_capability (replicate 32 171)) (Some 7)"])
    (simp_all add: two_panes_def spawn_with_context_def check_accepting_def new_registry_def next_id_def
      session_spawn_def launch_ok_def put_session_def session_new_def alive_def child_running_def has_key_def
      get_session_def del: replicate.simps)

lemma ensure_first_pane:
  "\<exists>en r'. ensure_with_context False () launch_ok True id id 100 30 1 1 None 0 two_panes = Some (Inr en, r') \<and>
     en_session_id en = 1 \<and> en_attachment_token en = 2 \<and> en_disposition en = Existing"
proof -
  obtain s where s: "get_session two_panes 1 = Some s" "alive s" "o_next_token (s_output s) = 2"
    "map fst (filter (\<lambda>(_, s). has_key 1 1 s \<and> alive s) (r_sessions two_panes)) = [1]" by (rule first_pane)
  have acc: "check_accepting two_panes = Inr ()" by (simp add: not_stopping two_panes_sessions)
  let ?s = "resized True 100 30 s"
  have s1: "s_output ?s = s_output s" "s_pty ?s = s_pty s"
    by (auto simp: resized_def session_resize_def split: option.split)
  obtain s2 snap where att: "session_attach_with_snapshot (min 0 SNAPSHOT_MAX_SCROLLBACK_LINES) ?s = Some (Some (2, snap), s2)"
    using s1 s(2,3) by (auto simp: session_attach_with_snapshot_def Let_def alive_def child_running_def split: if_splits)
  have g: "get_session (prepared True id 100 30 1 s two_panes) 1 = Some ?s"
    using get_set_session [OF s(1)] by (simp add: prepared_def get_map_sessions)
  show ?thesis
    unfolding ensure_with_context_def acc sum.case Let_def s(4) list.case s(1) bind.bind_lunit
      resized_def [symmetric] prepared_def [symmetric] g att by simp
qed


lemma first_ensure:
  "\<exists>en r'. ensure_with_context False () launch_ok True id id 80 24 1 1 None 0 new_registry = Some (Inr en, r') \<and>
     en_session_id en = 1 \<and> en_attachment_token en = 1 \<and> en_disposition en = Spawned"
  by (simp add: ensure_with_context_def check_accepting_def ensure_spawn_def Let_def next_id_def session_spawn_def
      launch_ok_def new_registry_def map_sessions_def)

text \<open>A lost answer of \<open>ensure\<close> is safe to repeat: the second call, with whatever the first left,
finds the session the first one gave, spawns nothing even if spawning would now do something else, and
hands out a newer attachment.\<close>

theorem ensure_may_be_repeated:
  assumes "(registry_step pd advance pe parser)\<^sup>*\<^sup>* new_registry r" and "\<not> r_stopping r"
    and "\<And>s. session_envs pd advance pe s (env1 s)" and "\<And>s. session_envs pd advance pe s (env2 s)"
    and first: "ensure_with_context pe parser launched ok env1 env2 cols rows w p name lines r = Some (Inr en, r1)"
    and room: "en_attachment_token en < 2 ^ 64 - 2"
  shows "\<exists>en2 r2. ensure_with_context pe parser launched2 ok2 id id cols rows w p name2 lines2 r1 = Some (Inr en2, r2) \<and>
    en_session_id en2 = en_session_id en \<and> en_disposition en2 = Existing \<and>
    en_hook_capability en2 = en_hook_capability en \<and> en_attachment_token en < en_attachment_token en2 \<and>
    map fst (r_sessions r2) = map fst (r_sessions r1)"
proof -
  have wf: "registry_wf r" using assms(1) by (rule reachable_wf)
  have wf1: "registry_wf r1" by (rule ensure_wf [OF wf assms(3,4) first])
  let ?sid = "en_session_id en" and ?t = "en_attachment_token en"
  obtain s where s: "get_session r1 ?sid = Some s" "has_key w p s" "alive s"
    "s_hook_capability s = en_hook_capability en" "o_next_token (s_output s) = ?t + 1"
    using ensure_result [OF wf assms(2-4) first] by auto
  have acc: "check_accepting r1 = Inr ()"
    using get_session_mem [OF s(1)] wf1 by (auto simp: check_accepting_def registry_wf_def)
  have m: "map fst (filter (\<lambda>(_, s). has_key w p s \<and> alive s) (r_sessions r1)) = [?sid]"
  proof -
    have k: "session_key (?sid, s) = (w, p)" using s(2) by (simp add: has_key_def session_key_def)
    from live_with_key [OF wf1, of w p] show ?thesis
    proof (elim disjE conjE exE)
      assume "\<forall>x \<in> set (r_sessions r1). session_key x = (w, p) \<longrightarrow> \<not> alive (snd x)"
      then show ?thesis using get_session_mem [OF s(1)] k s(3) by fastforce
    next
      fix i x
      assume m: "map fst (filter (\<lambda>(_, s). has_key w p s \<and> alive s) (r_sessions r1)) = [i]"
        and only: "\<forall>y \<in> set (r_sessions r1). session_key y = (w, p) \<longrightarrow> y = (i, x)"
      have "(?sid, s) = (i, x)" using bspec [OF only get_session_mem [OF s(1)]] k by (rule mp)
      then show ?thesis unfolding m by simp
    qed
  qed
  let ?s1 = "resized ok2 cols rows s" and ?p = "prepared ok2 id cols rows ?sid s r1"
  have P: "get_session ?p ?sid = Some ?s1" "map fst (r_sessions ?p) = map fst (r_sessions r1)"
    using prepared_wf(2,4) [OF wf1 s(1), where env = id] by simp_all
  have s1: "s_output ?s1 = s_output s" "s_pty ?s1 = s_pty s" "s_hook_capability ?s1 = s_hook_capability s"
    by (auto simp: resized_def session_resize_def split: option.split)
  then have al: "alive ?s1" using s(3) by (simp add: alive_def child_running_def split: if_splits)
  have t: "?t + 1 \<noteq> 2 ^ 64 - 1"
  proof
    assume "?t + 1 = 2 ^ 64 - 1"
    then have "?t = 2 ^ 64 - 1 - 1" by (metis add_diff_cancel_right')
    then show False using room by simp
  qed
  obtain s2 snap where att: "session_attach_with_snapshot (min lines2 SNAPSHOT_MAX_SCROLLBACK_LINES) ?s1 = Some (Some (?t + 1, snap), s2)"
    "s_hook_capability s2 = s_hook_capability s"
    using s1 al s(5) t by (auto simp: session_attach_with_snapshot_def Let_def alive_def split: if_splits)
  have "?t < ?t + 1" using room by (intro u64_less_Suc) auto
  moreover have "map fst (r_sessions (set_session ?sid s2 ?p)) = map fst (r_sessions r1)"
    using P(2) by (simp add: set_session_def split_beta comp_def)
  moreover have "ensure_with_context pe parser launched2 ok2 id id cols rows w p name2 lines2 r1 =
      Some (Inr \<lparr>en_session_id = ?sid, en_attachment_token = ?t + 1, en_hook_capability = s_hook_capability s2,
                 en_disposition = Existing, en_snapshot = snap\<rparr>, set_session ?sid s2 ?p)"
    unfolding ensure_with_context_def acc sum.case Let_def m list.case s(1) bind.bind_lunit
      resized_def [symmetric] prepared_def [symmetric] P(1) att(1) by simp
  ultimately show ?thesis using att(2) s(4)
    by (intro exI [of _ "\<lparr>en_session_id = ?sid, en_attachment_token = ?t + 1, en_hook_capability = s_hook_capability s2,
                 en_disposition = Existing, en_snapshot = snap\<rparr>"] exI [of _ "set_session ?sid s2 ?p"]) simp
qed

theorem ensure_may_be_repeated_witness:
  "\<exists>en r1 en2 r2. ensure_with_context False () launch_ok True id id 80 24 1 1 None 0 new_registry = Some (Inr en, r1) \<and>
     ensure_with_context False () (Inl (OtherKind, [])) True id id 80 24 1 1 None 0 r1 = Some (Inr en2, r2) \<and>
     en_session_id en2 = en_session_id en \<and> en_attachment_token en < en_attachment_token en2"
proof -
  obtain en r1 where e: "ensure_with_context False () launch_ok True id id 80 24 1 1 None 0 new_registry = Some (Inr en, r1)"
    and en: "en_attachment_token en = 1" using first_ensure by blast
  have "\<not> r_stopping (new_registry :: unit registry)" by (simp add: new_registry_def)
  from ensure_may_be_repeated [OF rtranclp.rtrancl_refl this _ _ e, where pd = "()" and advance = "\<lambda>p b. (p, [])"]
  show ?thesis using e en by fastforce
qed

section \<open>The end of the daemon\<close>

definition ended :: "'p registry \<Rightarrow> bool" where
  "ended r \<longleftrightarrow> r_stopping r \<and> r_sessions r = []"

lemma ended_step: "registry_step pd advance pe parser r r' \<Longrightarrow> ended r \<Longrightarrow> ended r'"
proof (induction rule: registry_step.induct)
  case (ensures launched ok env1 env2 cols rows w p name lines r res r')
  then show ?case by (auto simp: ended_def ensure_with_context_def check_accepting_def)
next
  case (attaches sid lines r res r')
  then show ?case by (auto simp: ended_def attach_with_snapshot_def get_session_def drop_session_def)
qed (auto simp: ended_def set_session_def register_connection_def check_accepting_def drop_connection_def stop_def Let_def
    spawn_with_context_def detach_def get_session_def registry_resize_def rename_def remove_session_def
    drop_session_def kill_all_def)

text \<open>An accepted end is final: from then on, whatever happens, there is no session, and no connection,
no spawn and no \<open>ensure\<close> is accepted. It is accepted without force only when every child is known to
have exited, so that no running child is killed, and a retirement only when no other client is connected.\<close>

theorem stop_is_final_and_spares_children:
  assumes "fst (stop force retire r) = Inr ()"
    and "(registry_step pd advance pe parser)\<^sup>*\<^sup>* (snd (stop force retire r)) r2"
  shows "r_sessions r2 = [] \<and> (\<exists>e. fst (register_connection r2) = Inl e) \<and>
    (\<exists>e. fst (spawn_with_context pe parser launched cols rows w p name r2) = Inl e) \<and>
    (\<exists>e. ensure_with_context pe parser launched ok env1 env2 cols rows w p name lines r2 = Some (Inl e, r2)) \<and>
    (force \<or> list_all (\<lambda>(_, s). child_exit_confirmed s) (r_sessions r)) \<and> (retire \<longrightarrow> r_connections r \<le> 1)"
proof -
  have start: "ended (snd (stop force retire r))"
    and pre: "force \<or> (\<forall>x \<in> set (r_sessions r). child_exit_confirmed (snd x))" "retire \<longrightarrow> r_connections r \<le> 1"
    using assms(1) by (auto simp: stop_def Let_def ended_def filter_empty_conv split: if_splits)
  from assms(2) have "ended r2"
    by (induction rule: rtranclp_induct) (auto intro: start ended_step)
  then show ?thesis using pre
    by (auto simp: ended_def register_connection_def check_accepting_def spawn_with_context_def
        ensure_with_context_def list_all_iff)
qed

theorem stop_is_final_and_spares_children_witness:
  "r_sessions (snd (stop False True (new_registry :: unit registry))) = []"
proof -
  have "fst (stop False True (new_registry :: unit registry)) = Inr ()" by (simp add: stop_def new_registry_def)
  from stop_is_final_and_spares_children [OF this rtranclp.rtrancl_refl [of "registry_step () (\<lambda>p b. (p, [])) False ()"]]
  show ?thesis by blast
qed

end
