(* ===== verification/Message.thy ===== *)
theory Message
  imports Frame Registry
begin

text \<open>
  The messages of the daemon protocol, \<open>protocol/message.rs\<close>: requests, responses, the events the daemon
  pushes, and how they ride on frames. Requests and responses are JSON, written and read by \<open>serde_json\<close>,
  which is an argument (\<open>to_json\<close>, \<open>from_json\<close>); the output of a session is a frame of its own kind with
  the session's id in front of the bytes.
\<close>

section \<open>Requests and responses\<close>

text \<open>The first component of every request and response is its correlation id.\<close>

datatype request =
    Hello u64 rstr
  | Shutdown u64 bool
  | RetireIfIdle u64
  | SpawnSession u64 u16 u16 "rstr option" "rstr option" "rstr list" u32 u32 "rstr option" "rstr option"
  | EnsureSession u64 u16 u16 "rstr option" "rstr option" "rstr list" u32 u32 "rstr option" "rstr option" u32
  | Write u64 u64 "u8 list"
  | Resize u64 u64 u16 u16
  | KillSession u64 u64
  | ListSessions u64
  | AttachSession u64 u64 u32
  | DetachSession u64 u64
  | RenameSession u64 u64 "rstr option"

fun request_id :: "request \<Rightarrow> u64" where
  "request_id (Hello i _) = i"
| "request_id (Shutdown i _) = i"
| "request_id (RetireIfIdle i) = i"
| "request_id (SpawnSession i _ _ _ _ _ _ _ _ _) = i"
| "request_id (EnsureSession i _ _ _ _ _ _ _ _ _ _) = i"
| "request_id (Write i _ _) = i"
| "request_id (Resize i _ _ _) = i"
| "request_id (KillSession i _) = i"
| "request_id (ListSessions i) = i"
| "request_id (AttachSession i _ _) = i"
| "request_id (DetachSession i _) = i"
| "request_id (RenameSession i _ _) = i"

datatype response =
    HelloAck u64 rstr u32 "rstr option"
  | ShutdownAck u64 bool "rstr option"
  | SessionSpawned u64 u64 rstr
  | SessionEnsured u64 u64 ensure_disposition snapshot rstr
  | Ack u64
  | SessionList u64 "session_info list" "u32 option" "u64 option"
  | SessionAttached u64 snapshot rstr
  | Error u64 rstr rstr

fun response_id :: "response \<Rightarrow> u64" where
  "response_id (HelloAck i _ _ _) = i"
| "response_id (ShutdownAck i _ _) = i"
| "response_id (SessionSpawned i _ _) = i"
| "response_id (SessionEnsured i _ _ _ _) = i"
| "response_id (Ack i) = i"
| "response_id (SessionList i _ _ _) = i"
| "response_id (SessionAttached i _ _) = i"
| "response_id (Error i _ _) = i"

datatype server_event = Output u64 "u8 list"

definition PROTOCOL_VERSION :: u32 where "PROTOCOL_VERSION = 3"

section \<open>The output of a session\<close>

definition OUTPUT_SESSION_ID_SIZE :: nat where "OUTPUT_SESSION_ID_SIZE = 8"

text \<open>\<open>u64::to_le_bytes\<close> and \<open>u64::from_le_bytes\<close>.\<close>

definition u64_to_le_bytes :: "u64 \<Rightarrow> u8 list" where
  "u64_to_le_bytes x = map (\<lambda>k. byte (unat x div 256 ^ k mod 256)) [0..<8]"

definition u64_from_le_bytes :: "u8 list \<Rightarrow> u64" where
  "u64_from_le_bytes bytes = of_nat (from_le_nat bytes)"

definition write_output_frame :: "u8 list \<Rightarrow> u64 \<Rightarrow> u8 list \<Rightarrow> protocol_error + u8 list" where
  "write_output_frame wire session_id bytes = write_frame wire KIND_OUTPUT (u64_to_le_bytes session_id @ bytes)"

definition decode_output_payload :: "u8 list \<Rightarrow> protocol_error + (u64 \<times> u8 list)" where
  "decode_output_payload payload =
     (if length payload < OUTPUT_SESSION_ID_SIZE then Inl (IoError InvalidData)
      else Inr (u64_from_le_bytes (take OUTPUT_SESSION_ID_SIZE payload), drop OUTPUT_SESSION_ID_SIZE payload))"

fun write_server_event :: "u8 list \<Rightarrow> server_event \<Rightarrow> protocol_error + u8 list" where
  "write_server_event wire (Output session_id bytes) = write_output_frame wire session_id bytes"

section \<open>Messages on frames\<close>

definition read_request ::
  "(u8 list \<Rightarrow> protocol_error + request) \<Rightarrow> reader \<Rightarrow> protocol_error + (request \<times> reader) option"
where
  "read_request from_json rd =
     (case read_frame rd of
        Inl e \<Rightarrow> Inl e
      | Inr None \<Rightarrow> Inr None
      | Inr (Some (f, rd')) \<Rightarrow>
          if fr_kind f \<noteq> KIND_CONTROL then Inl (UnknownKind (fr_kind f))
          else (case from_json (fr_payload f) of Inl e \<Rightarrow> Inl e | Inr req \<Rightarrow> Inr (Some (req, rd'))))"

definition read_response ::
  "(u8 list \<Rightarrow> protocol_error + response) \<Rightarrow> reader \<Rightarrow> protocol_error + (response \<times> reader) option"
where
  "read_response from_json rd =
     (case read_frame rd of
        Inl e \<Rightarrow> Inl e
      | Inr None \<Rightarrow> Inr None
      | Inr (Some (f, rd')) \<Rightarrow>
          if fr_kind f \<noteq> KIND_CONTROL then Inl (UnknownKind (fr_kind f))
          else (case from_json (fr_payload f) of Inl e \<Rightarrow> Inl e | Inr resp \<Rightarrow> Inr (Some (resp, rd'))))"

definition write_request ::
  "(request \<Rightarrow> protocol_error + u8 list) \<Rightarrow> u8 list \<Rightarrow> request \<Rightarrow> protocol_error + u8 list"
where
  "write_request to_json wire req =
     (case to_json req of Inl e \<Rightarrow> Inl e | Inr bytes \<Rightarrow> write_frame wire KIND_CONTROL bytes)"

definition write_response ::
  "(response \<Rightarrow> protocol_error + u8 list) \<Rightarrow> u8 list \<Rightarrow> response \<Rightarrow> protocol_error + u8 list"
where
  "write_response to_json wire resp =
     (case to_json resp of Inl e \<Rightarrow> Inl e | Inr bytes \<Rightarrow> write_frame wire KIND_CONTROL bytes)"

definition read_server_event ::
  "(u8 list \<Rightarrow> protocol_error + server_event) \<Rightarrow> reader \<Rightarrow> protocol_error + (server_event \<times> reader) option"
where
  "read_server_event from_json rd =
     (case read_frame rd of
        Inl e \<Rightarrow> Inl e
      | Inr None \<Rightarrow> Inr None
      | Inr (Some (f, rd')) \<Rightarrow>
          if fr_kind f = KIND_OUTPUT then
            (case decode_output_payload (fr_payload f) of
               Inl e \<Rightarrow> Inl e
             | Inr (session_id, bytes) \<Rightarrow> Inr (Some (Output session_id bytes, rd')))
          else if fr_kind f = KIND_EVENT then
            (case from_json (fr_payload f) of Inl e \<Rightarrow> Inl e | Inr ev \<Rightarrow> Inr (Some (ev, rd')))
          else Inl (UnknownKind (fr_kind f)))"

section \<open>The id in front of the output\<close>

lemma length_u64_to_le_bytes [simp]: "length (u64_to_le_bytes x) = 8"
  by (simp add: u64_to_le_bytes_def)

lemma from_le_nat_digits: "from_le_nat (map (\<lambda>k. byte (n div 256 ^ k mod 256)) [0..<m]) = n mod 256 ^ m"
proof (induction m arbitrary: n)
  case (Suc m)
  have "map (\<lambda>k. byte (n div 256 ^ k mod 256)) [0..<Suc m] =
      byte (n mod 256) # map (\<lambda>k. byte (n div 256 div 256 ^ k mod 256)) [0..<m]"
    by (simp add: upt_conv_Cons div_mult2_eq [symmetric] del: upt_Suc flip: map_Suc_upt)
  then show ?case by (simp add: Suc.IH unat_byte_mod mod_mult2_eq)
qed simp

lemma u64_from_le_to_le [simp]: "u64_from_le_bytes (u64_to_le_bytes x) = x"
proof -
  have "unat x < 256 ^ 8" using unsigned_less [of x, where 'a = nat] by simp
  then show ?thesis by (simp add: u64_from_le_bytes_def u64_to_le_bytes_def from_le_nat_digits)
qed

lemma decode_output_encoded [simp]: "decode_output_payload (u64_to_le_bytes sid @ bytes) = Inr (sid, bytes)"
  by (simp add: decode_output_payload_def OUTPUT_SESSION_ID_SIZE_def)

end
