(* ===== verification/Client.thy ===== *)
theory Client
  imports Message
begin

text \<open>
  The daemon's client, \<open>client/mod.rs\<close>: the ids of its requests, the table of requests that wait for an
  answer, and the loop that sorts what the daemon sends into answers and events; and the check of the
  protocol's version in \<open>compatibility.rs\<close>.
\<close>

section \<open>Requests\<close>

definition request_ids_default :: u64 where "request_ids_default = 1"

text \<open>\<open>RequestIds::next\<close>: the id and the counter afterwards, which saturates.\<close>

definition request_ids_next :: "u64 \<Rightarrow> u64 \<times> u64" where
  "request_ids_next next = (next, if next = 2 ^ 64 - 1 then next else next + 1)"

text \<open>The bytes written, the counter, and the ids of the requests that wait.\<close>

record client =
  cl_wire :: "u8 list"
  cl_ids :: u64
  cl_pending :: "u64 list"

definition client_new :: client where
  "client_new = \<lparr>cl_wire = [], cl_ids = request_ids_default, cl_pending = []\<rparr>"

definition alloc_id :: "client \<Rightarrow> u64 \<times> client" where
  "alloc_id c = (let (i, next) = request_ids_next (cl_ids c) in (i, c\<lparr>cl_ids := next\<rparr>))"

text \<open>The first half of \<open>roundtrip\<close>: the request waits before it is written, and no longer when the write fails.\<close>

definition send_request ::
  "(request \<Rightarrow> protocol_error + u8 list) \<Rightarrow> request \<Rightarrow> u64 \<Rightarrow> client \<Rightarrow> (protocol_error + unit) \<times> client"
where
  "send_request to_json req expected_id c =
     (let c = c\<lparr>cl_pending := List.insert expected_id (cl_pending c)\<rparr>
      in case write_request to_json (cl_wire c) req of
           Inl e \<Rightarrow> (Inl e, c\<lparr>cl_pending := removeAll expected_id (cl_pending c)\<rparr>)
         | Inr wire \<Rightarrow> (Inr (), c\<lparr>cl_wire := wire\<rparr>))"

text \<open>The second half: what arrived on the channel of the request, \<open>None\<close> when it was dropped.\<close>

definition await_response :: "response option \<Rightarrow> protocol_error + response" where
  "await_response answer = (case answer of Some resp \<Rightarrow> Inr resp | None \<Rightarrow> Inl (IoError UnexpectedEof))"

text \<open>The kind of error an attachment reports for the code of an error response.\<close>

definition attach_error_kind :: "rstr \<Rightarrow> io_kind" where
  "attach_error_kind code =
     (if code = str_lit ''session_not_found'' then NotFound
      else if code = str_lit ''session_dead'' then NotConnected
      else if code = str_lit ''session_key_ambiguous'' then AlreadyExists
      else OtherKind)"

definition check_protocol :: "u32 \<Rightarrow> io_failure + unit" where
  "check_protocol version =
     (if 1 \<le> version \<and> version \<le> PROTOCOL_VERSION then Inr ()
      else Inl (Unsupported, str_lit ''daemon protocol '' @ show_nat (unat version) @
        str_lit '' is incompatible with this UI; leave the update pending until terminal sessions have finished''))"

section \<open>The reader\<close>

text \<open>The requests that wait, the answers handed to them so far, and the events passed on.\<close>

record inbox =
  in_pending :: "u64 list"
  in_delivered :: "(u64 \<times> response) list"
  in_events :: "server_event list"

text \<open>\<open>takes\<close> says whether the receiver of the events, after what it has been sent, is still there.\<close>

definition send_event :: "(server_event list \<Rightarrow> bool) \<Rightarrow> server_event \<Rightarrow> inbox \<Rightarrow> inbox option" where
  "send_event takes ev st = (if takes (in_events st) then Some (st\<lparr>in_events := in_events st @ [ev]\<rparr>) else None)"

definition on_frame ::
  "(u8 list \<Rightarrow> protocol_error + response) \<Rightarrow> (u8 list \<Rightarrow> protocol_error + server_event)
     \<Rightarrow> (server_event list \<Rightarrow> bool) \<Rightarrow> frame \<Rightarrow> inbox \<Rightarrow> inbox option"
where
  "on_frame from_json event_of takes f st =
     (if fr_kind f = KIND_CONTROL then
        (case from_json (fr_payload f) of
           Inl _ \<Rightarrow> None
         | Inr resp \<Rightarrow>
             (let i = response_id resp
              in if i \<in> set (in_pending st)
                 then Some (st\<lparr>in_pending := removeAll i (in_pending st), in_delivered := in_delivered st @ [(i, resp)]\<rparr>)
                 else Some st))
      else if fr_kind f = KIND_OUTPUT then
        (case decode_output_payload (fr_payload f) of
           Inl _ \<Rightarrow> None
         | Inr (session_id, bytes) \<Rightarrow> send_event takes (Output session_id bytes) st)
      else if fr_kind f = KIND_EVENT then
        (case event_of (fr_payload f) of Inl _ \<Rightarrow> None | Inr ev \<Rightarrow> send_event takes ev st)
      else None)"

text \<open>Every frame that is read takes bytes from the stream.\<close>

lemma read_some_consumes: "read_some cap rd = Inr (b, rd') \<Longrightarrow> reader_size rd' + length b = reader_size rd"
  by (auto simp: read_some_def reader_size_def split: list.splits option.splits if_splits)

lemma read_exact_consumes:
  "read_exact n got rd = Inr (bs, rd') \<Longrightarrow> reader_size rd' + length bs = reader_size rd + length got"
proof (induction n got rd rule: read_exact.induct)
  case (1 n got rd)
  show ?case
  proof (cases "length got < n")
    case True
    with 1(2) obtain b rd1 where b: "read_some (n - length got) rd = Inr (b, rd1)" "b \<noteq> []"
      "read_exact n (got @ b) rd1 = Inr (bs, rd')"
      by (auto simp: read_exact.simps [of n got rd] split: sum.splits if_splits prod.splits)
    with 1(1) [OF True b(1) refl b(2,3)] read_some_consumes [OF b(1)] show ?thesis by simp
  qed (use 1(2) in \<open>simp add: read_exact.simps [of n got rd]\<close>)
qed

lemma read_header_consumes: "read_header got rd = Inr (Some (bs, rd')) \<Longrightarrow> reader_size rd' + length bs = reader_size rd + length got"
proof (induction got rd rule: read_header.induct)
  case (1 got rd)
  show ?case
  proof (cases "length got < LEN_PREFIX_SIZE")
    case True
    with 1(2) obtain b rd1 where b: "read_some (LEN_PREFIX_SIZE - length got) rd = Inr (b, rd1)" "b \<noteq> []"
      "read_header (got @ b) rd1 = Inr (Some (bs, rd'))"
      by (auto simp: read_header.simps [of got rd] split: sum.splits if_splits prod.splits)
    with 1(1) [OF True b(1) refl b(2,3)] read_some_consumes [OF b(1)] show ?thesis by simp
  qed (use 1(2) in \<open>simp add: read_header.simps [of got rd]\<close>)
qed

lemma read_frame_consumes: "read_frame rd = Inr (Some (f, rd')) \<Longrightarrow> reader_size rd' < reader_size rd"
proof -
  assume "read_frame rd = Inr (Some (f, rd'))"
  then obtain len_buf rd1 n body h payload where
    "read_header [] rd = Inr (Some (len_buf, rd1))" "read_exact n [] rd1 = Inr (body, rd')" "split_header body = Inr (h, payload)"
    by (auto simp: read_frame_def split: sum.splits option.splits prod.splits)
  then show ?thesis using read_header_consumes [of "[]" rd len_buf rd1] read_exact_consumes [of n "[]" rd1 body rd']
    by (cases body) (auto simp: split_header_def)
qed

text \<open>\<open>reader_loop\<close>: when the stream ends, or on the first thing it does not understand, every request
that still waits is let go.\<close>

function reader_loop ::
  "(u8 list \<Rightarrow> protocol_error + response) \<Rightarrow> (u8 list \<Rightarrow> protocol_error + server_event)
     \<Rightarrow> (server_event list \<Rightarrow> bool) \<Rightarrow> reader \<Rightarrow> inbox \<Rightarrow> inbox"
where
  "reader_loop from_json event_of takes rd st =
     (case read_frame rd of
        Inl _ \<Rightarrow> st\<lparr>in_pending := []\<rparr>
      | Inr None \<Rightarrow> st\<lparr>in_pending := []\<rparr>
      | Inr (Some (f, rd')) \<Rightarrow>
          (case on_frame from_json event_of takes f st of
             None \<Rightarrow> st\<lparr>in_pending := []\<rparr>
           | Some st' \<Rightarrow> reader_loop from_json event_of takes rd' st'))"
  by pat_completeness auto
termination
  by (relation "measure (\<lambda>(_, _, _, rd, _). reader_size rd)") (auto dest: read_frame_consumes)

declare reader_loop.simps [simp del]

section \<open>What the daemon writes\<close>

text \<open>What the tasks of a connection write, one whole frame at a time: the lock on the writer keeps the
frames of the answers and of the forwarders apart.\<close>

datatype sent = Reply response | Chunk u64 "u8 list"

fun write_sent ::
  "(response \<Rightarrow> protocol_error + u8 list) \<Rightarrow> sent list \<Rightarrow> u8 list \<Rightarrow> protocol_error + u8 list"
where
  "write_sent to_json [] wire = Inr wire"
| "write_sent to_json (x # xs) wire =
     (case (case x of Reply resp \<Rightarrow> write_response to_json wire resp | Chunk sid bytes \<Rightarrow> write_output_frame wire sid bytes) of
        Inl e \<Rightarrow> Inl e
      | Inr wire \<Rightarrow> write_sent to_json xs wire)"

fun replies :: "sent list \<Rightarrow> response list" where
  "replies [] = []"
| "replies (Reply r # xs) = r # replies xs"
| "replies (Chunk _ _ # xs) = replies xs"

fun outputs :: "sent list \<Rightarrow> server_event list" where
  "outputs [] = []"
| "outputs (Reply _ # xs) = outputs xs"
| "outputs (Chunk sid bytes # xs) = Output sid bytes # outputs xs"

text \<open>
  What arrives at a client is what the daemon wrote: every answer at the request that waits for it, the
  output of every session in order.
\<close>

definition frame_of :: "(response \<Rightarrow> protocol_error + u8 list) \<Rightarrow> sent \<Rightarrow> (u8 \<times> u8 list) option" where
  "frame_of to_json x =
     (case x of
        Reply r \<Rightarrow> (case to_json r of Inl _ \<Rightarrow> None | Inr bytes \<Rightarrow> Some (KIND_CONTROL, bytes))
      | Chunk sid bytes \<Rightarrow> Some (KIND_OUTPUT, u64_to_le_bytes sid @ bytes))"

lemma write_sent_step:
  assumes "write_sent to_json (x # xs) wire = Inr w"
  obtains kind payload bs where "frame_of to_json x = Some (kind, payload)" "encode_frame kind payload [] = Inr bs"
    "write_sent to_json xs (wire @ bs) = Inr w"
  using assms
  by (cases x) (auto simp: frame_of_def write_response_def write_output_frame_def write_frame_def split: sum.splits)

lemma write_sent_append:
  "write_sent to_json xs (u @ v) = (case write_sent to_json xs v of Inl e \<Rightarrow> Inl e | Inr z \<Rightarrow> Inr (u @ z))"
  by (induction xs arbitrary: v)
    (auto simp: write_response_def write_output_frame_def write_frame_def split: sum.splits sent.splits)

text \<open>One message of the daemon, at the front of the stream.\<close>

lemma reader_loop_step:
  assumes "frame_of to_json x = Some (kind, payload)" and "encode_frame kind payload [] = Inr bs"
    and "live rd" and "rest rd = bs @ later"
  obtains rd' where "live rd'" "rest rd' = later"
    "reader_loop from_json event_of takes rd st =
       (case on_frame from_json event_of takes \<lparr>fr_kind = kind, fr_payload = payload\<rparr> st of
          None \<Rightarrow> st\<lparr>in_pending := []\<rparr>
        | Some st' \<Rightarrow> reader_loop from_json event_of takes rd' st')"
proof -
  have "known_kind kind" using assms(1) by (auto simp: frame_of_def known_kind_def split: sent.splits sum.splits)
  from read_frame_encoded(1) [OF assms(2-4) this] obtain rd' where
    "read_frame rd = Inr (Some (\<lparr>fr_kind = kind, fr_payload = payload\<rparr>, rd'))" "live rd'" "rest rd' = later" by blast
  then show thesis by (intro that [of rd']) (simp_all add: reader_loop.simps [of from_json event_of takes rd])
qed

lemma reader_loop_sent:
  assumes "write_sent to_json xs [] = Inr bytes" and "\<And>r bs. to_json r = Inr bs \<Longrightarrow> from_json bs = Inr r"
    and "live rd" and "rest rd = bytes" and "distinct (map response_id (replies xs))"
    and "set (map response_id (replies xs)) \<subseteq> set (in_pending st)" and "\<And>es. takes es"
  shows "reader_loop from_json event_of takes rd st =
    \<lparr>in_pending = [], in_delivered = in_delivered st @ map (\<lambda>r. (response_id r, r)) (replies xs),
     in_events = in_events st @ outputs xs\<rparr>"
  using assms(1,3-6)
proof (induction xs arbitrary: bytes rd st)
  case Nil
  then show ?case by (simp add: reader_loop.simps [of from_json event_of takes rd] read_frame_live(1))
next
  case (Cons x xs)
  from Cons.prems(1) obtain kind payload bs where x: "frame_of to_json x = Some (kind, payload)"
    "encode_frame kind payload [] = Inr bs" "write_sent to_json xs ([] @ bs) = Inr bytes"
    by (rule write_sent_step)
  obtain later where later: "bytes = bs @ later" "write_sent to_json xs [] = Inr later"
    using x(3) write_sent_append [of to_json xs bs "[]"] by (auto split: sum.splits)
  obtain rd' where rd': "live rd'" "rest rd' = later"
    and step: "reader_loop from_json event_of takes rd st =
       (case on_frame from_json event_of takes \<lparr>fr_kind = kind, fr_payload = payload\<rparr> st of
          None \<Rightarrow> st\<lparr>in_pending := []\<rparr>
        | Some st' \<Rightarrow> reader_loop from_json event_of takes rd' st')"
    using reader_loop_step [OF x(1,2) Cons.prems(2)] Cons.prems(3) later(1) by blast
  show ?case
  proof (cases x)
    case (Reply r)
    then have f: "to_json r = Inr payload" "kind = KIND_CONTROL"
      using x(1) by (auto simp: frame_of_def split: sum.splits)
    let ?i = "response_id r"
    let ?st = "st\<lparr>in_pending := removeAll ?i (in_pending st), in_delivered := in_delivered st @ [(?i, r)]\<rparr>"
    have "on_frame from_json event_of takes \<lparr>fr_kind = kind, fr_payload = payload\<rparr> st = Some ?st"
      using f assms(2) Cons.prems(5) Reply by (simp add: on_frame_def Let_def)
    moreover have "reader_loop from_json event_of takes rd' ?st =
        \<lparr>in_pending = [], in_delivered = in_delivered ?st @ map (\<lambda>r. (response_id r, r)) (replies xs),
         in_events = in_events ?st @ outputs xs\<rparr>"
      by (rule Cons.IH [OF later(2) rd']) (use Cons.prems(4,5) Reply in \<open>auto simp: image_iff\<close>)
    ultimately show ?thesis using step Reply by simp
  next
    case (Chunk sid b)
    then have f: "payload = u64_to_le_bytes sid @ b" "kind = KIND_OUTPUT"
      using x(1) by (auto simp: frame_of_def)
    let ?st = "st\<lparr>in_events := in_events st @ [Output sid b]\<rparr>"
    have "on_frame from_json event_of takes \<lparr>fr_kind = kind, fr_payload = payload\<rparr> st = Some ?st"
      using f assms(7) by (simp add: on_frame_def KIND_CONTROL_def KIND_OUTPUT_def send_event_def)
    moreover have "reader_loop from_json event_of takes rd' ?st =
        \<lparr>in_pending = [], in_delivered = in_delivered ?st @ map (\<lambda>r. (response_id r, r)) (replies xs),
         in_events = in_events ?st @ outputs xs\<rparr>"
      by (rule Cons.IH [OF later(2) rd']) (use Cons.prems(4,5) Chunk in auto)
    ultimately show ?thesis using step Chunk by simp
  qed
qed

text \<open>C12: A client hears exactly what the daemon wrote. When the answers carry distinct ids of requests
that wait, and the bytes arrive cut in any way, each answer is handed to the request with its id, in the
order in which they were written, the chunks of the sessions' output come out as events, in order and with
the id of their session, and at the end of the stream no request is left waiting.\<close>

theorem client_hears_the_daemon:
  assumes "write_sent to_json xs [] = Inr bytes" and "\<And>r bs. to_json r = Inr bs \<Longrightarrow> from_json bs = Inr r"
    and "live rd" and "rest rd = bytes" and "distinct (map response_id (replies xs))"
    and "set (map response_id (replies xs)) \<subseteq> set waiting" and "\<And>es. takes es"
  shows "reader_loop from_json event_of takes rd \<lparr>in_pending = waiting, in_delivered = [], in_events = []\<rparr> =
    \<lparr>in_pending = [], in_delivered = map (\<lambda>r. (response_id r, r)) (replies xs), in_events = outputs xs\<rparr>"
  using reader_loop_sent [OF assms(1-5), where st = "\<lparr>in_pending = waiting, in_delivered = [], in_events = []\<rparr>"] assms(6,7)
  by simp

definition ack_json :: "response \<Rightarrow> protocol_error + u8 list" where
  "ack_json r = (case r of Ack i \<Rightarrow> Inr (u64_to_le_bytes i) | _ \<Rightarrow> Inl MalformedJson)"

theorem client_hears_the_daemon_witness:
  "reader_loop (\<lambda>bs. Inr (Ack (u64_from_le_bytes bs))) (\<lambda>_. Inl MalformedJson) (\<lambda>_. True)
     [Some [9, 0, 0], Some [0, 0, 7, 0, 0, 0, 0, 0, 0, 0, 11, 0, 0], Some [0, 1, 2, 0, 0, 0, 0, 0, 0, 0, 104, 105]]
     \<lparr>in_pending = [7, 8], in_delivered = [], in_events = []\<rparr> =
   \<lparr>in_pending = [], in_delivered = [(7, Ack 7)], in_events = [Output 2 [104, 105]]\<rparr>"
proof -
  have le: "u64_to_le_bytes 7 = [7, 0, 0, 0, 0, 0, 0, 0]" "u64_to_le_bytes 2 = [2, 0, 0, 0, 0, 0, 0, 0]"
    by (simp_all add: u64_to_le_bytes_def upt_conv_Cons byte_def)
  have "write_sent ack_json [Reply (Ack 7), Chunk 2 [104, 105]] [] =
      Inr [9, 0, 0, 0, 0, 7, 0, 0, 0, 0, 0, 0, 0, 11, 0, 0, 0, 1, 2, 0, 0, 0, 0, 0, 0, 0, 104, 105]"
    by (simp add: write_response_def ack_json_def write_output_frame_def write_frame_def encode_frame_def le
        u32_try_from_def MAX_FRAME_LEN_def to_le_bytes_eq byte_def KIND_CONTROL_def KIND_OUTPUT_def)
  from client_hears_the_daemon [OF this, where takes = "\<lambda>_. True" and waiting = "[7, 8]"
      and from_json = "\<lambda>bs. Inr (Ack (u64_from_le_bytes bs))" and event_of = "\<lambda>_. Inl MalformedJson"
      and rd = "[Some [9, 0, 0], Some [0, 0, 7, 0, 0, 0, 0, 0, 0, 0, 11, 0, 0], Some [0, 1, 2, 0, 0, 0, 0, 0, 0, 0, 104, 105]]"]
  show ?thesis by (fastforce simp: ack_json_def live_def rest_def split: response.splits)
qed

end
