(* ===== verification/Handler.thy ===== *)
theory Handler
  imports Client
begin

text \<open>
  One connection of the daemon, \<open>daemon/handler.rs\<close>: what a request does to the table of sessions and to
  the connection's own table of forwarders, its answer, and the end of a connection. Connections run beside
  each other and beside the threads of the sessions (\<open>daemon_step\<close>); a forwarder is the pair of the session
  and the token of the attachment whose output it writes. What the host decides while a request is served
  (starting a child, the pseudo-terminal, whether the answer could be written) is the argument \<open>h\<close>.
\<close>

section \<open>A request\<close>

datatype post_request = Continue | ShutdownRequested

record 'p host =
  h_pe :: bool
  h_parser :: 'p
  h_launch :: "rstr option \<Rightarrow> rstr option \<Rightarrow> rstr list \<Rightarrow> rstr option \<Rightarrow> launch"
  h_resize_ok :: bool
  h_env1 :: "'p session \<Rightarrow> 'p session"
  h_env2 :: "'p session \<Rightarrow> 'p session"
  h_write :: "u8 list \<Rightarrow> io_failure + unit"
  h_rss :: "u32 \<Rightarrow> u64 option"
  h_version :: rstr
  h_executable :: "rstr option"
  h_pid :: u32
  h_own_rss :: "u64 option"
  h_send :: "response \<Rightarrow> protocol_error + unit"

text \<open>The keys of the hash map of forwarders; the tasks themselves carry no state.\<close>

type_synonym forwarders = "(u64 \<times> u64) list"

definition insert_forwarder :: "u64 \<times> u64 \<Rightarrow> forwarders \<Rightarrow> forwarders" where
  "insert_forwarder k fw = k # removeAll k fw"

definition abort_forwarders_for_session :: "forwarders \<Rightarrow> u64 \<Rightarrow> forwarders" where
  "abort_forwarders_for_session fw session_id =
     (let attachment_keys = filter (\<lambda>(attached_session_id, _). attached_session_id = session_id) fw
      in fold removeAll attachment_keys fw)"

definition error_code :: "io_failure \<Rightarrow> rstr" where
  "error_code e =
     (case fst e of
        NotFound \<Rightarrow> str_lit ''session_not_found''
      | NotConnected \<Rightarrow> str_lit ''session_dead''
      | AlreadyExists \<Rightarrow> str_lit ''session_key_ambiguous''
      | _ \<Rightarrow> str_lit ''io_error'')"

definition error_response :: "u64 \<Rightarrow> rstr \<Rightarrow> io_failure \<Rightarrow> response" where
  "error_response i code e = Error i code (snd e)"

text \<open>The answer is written; when that fails the connection ends with the error, and what the request has
done stays done.\<close>

definition answer ::
  "'p host \<Rightarrow> post_request \<Rightarrow> response \<Rightarrow> 'p registry \<Rightarrow> forwarders
     \<Rightarrow> (protocol_error + post_request) \<times> response \<times> 'p registry \<times> forwarders"
where
  "answer h post resp r fw =
     ((case h_send h resp of Inl e \<Rightarrow> Inl e | Inr _ \<Rightarrow> Inr post), resp, r, fw)"

definition stop_answer ::
  "'p host \<Rightarrow> u64 \<Rightarrow> (rstr + unit) \<times> 'p registry \<Rightarrow> forwarders
     \<Rightarrow> (protocol_error + post_request) \<times> response \<times> 'p registry \<times> forwarders"
where
  "stop_answer h i result fw =
     (case result of
        (Inr _, r) \<Rightarrow> answer h ShutdownRequested (ShutdownAck i True None) r fw
      | (Inl reason, r) \<Rightarrow> answer h Continue (ShutdownAck i False (Some reason)) r fw)"

definition done_answer ::
  "'p host \<Rightarrow> u64 \<Rightarrow> io_failure + unit \<Rightarrow> 'p registry \<Rightarrow> forwarders
     \<Rightarrow> (protocol_error + post_request) \<times> response \<times> 'p registry \<times> forwarders"
where
  "done_answer h i result r fw =
     (case result of
        Inr _ \<Rightarrow> answer h Continue (Ack i) r fw
      | Inl e \<Rightarrow> answer h Continue (error_response i (error_code e) e) r fw)"

text \<open>\<open>None\<close> is the panic of an attachment whose tokens are used up.\<close>

fun handle ::
  "'p host \<Rightarrow> request \<Rightarrow> 'p registry \<Rightarrow> forwarders
     \<Rightarrow> ((protocol_error + post_request) \<times> response \<times> 'p registry \<times> forwarders) option"
where
  "handle h (Hello i client_version) r fw =
     Some (answer h Continue (HelloAck i (h_version h) PROTOCOL_VERSION (h_executable h)) r fw)"
| "handle h (Shutdown i force) r fw = Some (stop_answer h i (begin_shutdown force r) fw)"
| "handle h (RetireIfIdle i) r fw = Some (stop_answer h i (begin_retirement r) fw)"
| "handle h (SpawnSession i cols rows cwd shell shell_args workspace_id pane_id name correlation) r fw =
     (case spawn_with_context (h_pe h) (h_parser h) (h_launch h cwd shell shell_args correlation) cols rows
             workspace_id pane_id name r of
        (Inr (session_id, attachment_token, hook_capability), r) \<Rightarrow>
          (let fw = insert_forwarder (session_id, attachment_token) fw
           in Some (answer h Continue (SessionSpawned i session_id hook_capability) r fw))
      | (Inl e, r) \<Rightarrow> Some (answer h Continue (error_response i (str_lit ''spawn_failed'') e) r fw))"
| "handle h (Write i session_id bytes) r fw =
     Some (done_answer h i (registry_write (h_write h) session_id bytes r) r fw)"
| "handle h (Resize i session_id cols rows) r fw =
     (case registry_resize (h_resize_ok h) session_id cols rows r of
        (result, r) \<Rightarrow> Some (done_answer h i result r fw))"
| "handle h (KillSession i session_id) r fw =
     (let r = snd (remove_session session_id r);
          fw = abort_forwarders_for_session fw session_id
      in Some (answer h Continue (Ack i) r fw))"
| "handle h (ListSessions i) r fw =
     Some (answer h Continue (SessionList i (list_sessions (h_rss h) r) (Some (h_pid h)) (h_own_rss h)) r fw)"
| "handle h (EnsureSession i cols rows cwd shell shell_args workspace_id pane_id name correlation scrollback_lines) r fw =
     (let clamped = min (unat scrollback_lines) SNAPSHOT_MAX_SCROLLBACK_LINES
      in case ensure_with_context (h_pe h) (h_parser h) (h_launch h cwd shell shell_args correlation)
                (h_resize_ok h) (h_env1 h) (h_env2 h) cols rows workspace_id pane_id name clamped r of
           None \<Rightarrow> None
         | Some (Inr ensured, r) \<Rightarrow>
             (let session_id = en_session_id ensured;
                  fw = abort_forwarders_for_session fw session_id;
                  fw = insert_forwarder (session_id, en_attachment_token ensured) fw
              in Some (answer h Continue
                   (SessionEnsured i session_id (en_disposition ensured) (en_snapshot ensured) (en_hook_capability ensured)) r fw))
         | Some (Inl e, r) \<Rightarrow>
             (let code = (if fst e = AlreadyExists then error_code e else str_lit ''spawn_failed'')
              in Some (answer h Continue (error_response i code e) r fw)))"
| "handle h (AttachSession i session_id scrollback_lines) r fw =
     (let clamped = min (unat scrollback_lines) SNAPSHOT_MAX_SCROLLBACK_LINES
      in case attach_with_snapshot session_id clamped r of
           None \<Rightarrow> None
         | Some (Some (attachment_token, hook_capability, snapshot), r) \<Rightarrow>
             (let fw = abort_forwarders_for_session fw session_id;
                  fw = insert_forwarder (session_id, attachment_token) fw
              in Some (answer h Continue (SessionAttached i snapshot hook_capability) r fw))
         | Some (None, r) \<Rightarrow>
             (let e = no_session session_id in Some (answer h Continue (error_response i (error_code e) e) r fw)))"
| "handle h (DetachSession i session_id) r fw =
     (let attachment_keys = filter (\<lambda>(attached_session_id, _). attached_session_id = session_id) fw;
          (r, fw) = fold (\<lambda>k (r, fw). (snd (detach (fst k) (snd k) r), removeAll k fw)) attachment_keys (r, fw)
      in Some (answer h Continue (Ack i) r fw))"
| "handle h (RenameSession i session_id name) r fw =
     (case rename session_id name r of
        (True, r) \<Rightarrow> Some (answer h Continue (Ack i) r fw)
      | (False, r) \<Rightarrow>
          (let e = no_session session_id in Some (answer h Continue (error_response i (error_code e) e) r fw)))"

section \<open>The end of a connection\<close>

definition cleanup_forwarders :: "forwarders \<Rightarrow> 'p registry \<Rightarrow> 'p registry" where
  "cleanup_forwarders fw r = fold (\<lambda>(session_id, attachment_token) r. snd (detach session_id attachment_token r)) fw r"

text \<open>A forwarder writes the chunks of its attachment until one cannot be written.\<close>

fun forward_output :: "u8 list \<Rightarrow> u64 \<Rightarrow> u8 list list \<Rightarrow> u8 list" where
  "forward_output wire session_id [] = wire"
| "forward_output wire session_id (bytes # chunks) =
     (case write_output_frame wire session_id bytes of
        Inl _ \<Rightarrow> wire
      | Inr wire \<Rightarrow> forward_output wire session_id chunks)"

section \<open>All connections\<close>

text \<open>
  A connection serves requests until a request, the end of its stream, an error or the shutdown of the
  daemon ends that; then it detaches its forwarders one by one, and is gone. \<open>c_phase\<close> says where it is.
\<close>

datatype phase = Serving | Draining | Gone

record connection =
  c_forwarders :: forwarders
  c_phase :: phase

record 'p daemon =
  d_registry :: "'p registry"
  d_connections :: "connection list"

definition new_daemon :: "'p daemon" where
  "new_daemon = \<lparr>d_registry = new_registry, d_connections = []\<rparr>"

definition open_connections :: "'p daemon \<Rightarrow> nat" where
  "open_connections d = length (filter (\<lambda>c. c_phase c \<noteq> Gone) (d_connections d))"

inductive daemon_step ::
  "'p \<Rightarrow> ('p \<Rightarrow> u8 \<Rightarrow> 'p \<times> vte_action list) \<Rightarrow> bool \<Rightarrow> 'p daemon \<Rightarrow> 'p daemon \<Rightarrow> bool"
  for pd advance pe
where
  thread: "daemon_step pd advance pe d (d\<lparr>d_registry := set_session sid s' (d_registry d)\<rparr>)"
    if "get_session (d_registry d) sid = Some s" and "session_env pd advance pe s s'"
| connects: "daemon_step pd advance pe d
      (d\<lparr>d_registry := r', d_connections := d_connections d @ [\<lparr>c_forwarders = [], c_phase = Serving\<rparr>]\<rparr>)"
    if "register_connection (d_registry d) = (Inr (), r')"
| serves: "daemon_step pd advance pe d
      (d\<lparr>d_registry := r', d_connections := (d_connections d)
           [i := \<lparr>c_forwarders = fw', c_phase = (if res = Inr Continue then Serving else Draining)\<rparr>]\<rparr>)"
    if "i < length (d_connections d)" and "c_phase (d_connections d ! i) = Serving"
      and "handle h req (d_registry d) (c_forwarders (d_connections d ! i)) = Some (res, resp, r', fw')"
      and "h_pe h = pe" and "\<And>s. session_envs pd advance pe s (h_env1 h s)" and "\<And>s. session_envs pd advance pe s (h_env2 h s)"
| ends: "daemon_step pd advance pe d
      (d\<lparr>d_connections := (d_connections d)[i := (d_connections d ! i)\<lparr>c_phase := Draining\<rparr>]\<rparr>)"
    if "i < length (d_connections d)" and "c_phase (d_connections d ! i) = Serving"
| drains: "daemon_step pd advance pe d
      (d\<lparr>d_registry := snd (detach (fst k) (snd k) (d_registry d)),
          d_connections := (d_connections d)[i := (d_connections d ! i)\<lparr>c_forwarders := removeAll k (c_forwarders (d_connections d ! i))\<rparr>]\<rparr>)"
    if "i < length (d_connections d)" and "c_phase (d_connections d ! i) = Draining"
      and "k \<in> set (c_forwarders (d_connections d ! i))"
| leaves: "daemon_step pd advance pe d
      (d\<lparr>d_registry := drop_connection (d_registry d),
          d_connections := (d_connections d)[i := (d_connections d ! i)\<lparr>c_phase := Gone\<rparr>]\<rparr>)"
    if "i < length (d_connections d)" and "c_phase (d_connections d ! i) = Draining"
      and "c_forwarders (d_connections d ! i) = []"

end
