(* ===== verification/Handler_Inv.thy ===== *)
theory Handler_Inv
  imports Handler Registry_Inv
begin

text \<open>
  What the requests do to the attachments of the sessions. Most of them are calm: they give no session a
  new attachment. The others give one session one attachment with a token that no forwarder has yet. So
  every attachment stays with the one connection it was given to (\<open>daemon_wf\<close>), as long as the counter of
  the session ids has not reached its end.
\<close>

section \<open>Attachments\<close>

definition token_of :: "'p session \<Rightarrow> u64 option" where
  "token_of s = map_option os_token (o_current (s_output s))"

definition attached :: "'p registry \<Rightarrow> u64 \<Rightarrow> u64 option" where
  "attached r sid = Option.bind (get_session r sid) token_of"

definition quiet :: "'p session \<Rightarrow> 'p session \<Rightarrow> bool" where
  "quiet s s' \<longleftrightarrow> o_next_token (s_output s) \<le> o_next_token (s_output s') \<and> (token_of s' = None \<or> token_of s' = token_of s)"

lemma quiet_refl [simp, intro]: "quiet s s" by (simp add: quiet_def)

lemma quiet_trans: "quiet s s' \<Longrightarrow> quiet s' s'' \<Longrightarrow> quiet s s''" by (auto simp: quiet_def)

lemma quiet_close: "quiet s (close_output s)" by (simp add: quiet_def close_output_def token_of_def)

lemma quiet_env: "session_env pd advance pe s s' \<Longrightarrow> quiet s s'"
proof (induction rule: session_env.induct)
  case (closed s)
  show ?case by (rule quiet_close)
qed (auto simp: quiet_def token_of_def read_chunk_def Let_def split: option.split)

lemma quiet_envs: "session_envs pd advance pe s s' \<Longrightarrow> quiet s s'"
  by (induction rule: rtranclp_induct) (auto intro: quiet_trans quiet_env)

lemma quiet_detach: "quiet s (snd (session_detach token s))"
  by (simp add: quiet_def session_detach_def token_of_def)

lemma quiet_resize: "quiet s (session_resize ok cols rows s)"
  by (simp add: quiet_def session_resize_def token_of_def split: option.split)

lemma quiet_name: "quiet s (set_name name s)"
  by (simp add: quiet_def set_name_def token_of_def)

lemma quiet_resized: "quiet s (resized ok cols rows s)"
  using quiet_resize [of s ok cols rows] by (auto simp: resized_def)

section \<open>Calm changes of the table\<close>

definition room :: "'p registry \<Rightarrow> bool" where
  "room r \<longleftrightarrow> r_next_id r \<noteq> 2 ^ 64 - 1"

definition later_ids :: "'p registry \<Rightarrow> 'p registry \<Rightarrow> bool" where
  "later_ids r r' \<longleftrightarrow> (if room r' then room r \<and> r_next_id r \<le> r_next_id r' else True)"

definition calm_at :: "u64 \<Rightarrow> 'p registry \<Rightarrow> 'p registry \<Rightarrow> bool" where
  "calm_at sid r r' \<longleftrightarrow> (\<forall>s'. get_session r' sid = Some s' \<longrightarrow> (\<exists>s. get_session r sid = Some s \<and> quiet s s'))"

definition calm :: "'p registry \<Rightarrow> 'p registry \<Rightarrow> bool" where
  "calm r r' \<longleftrightarrow> later_ids r r' \<and> (\<forall>sid. calm_at sid r r')"

lemma later_ids_refl [simp, intro]: "later_ids r r" by (simp add: later_ids_def)

lemma later_ids_trans: "later_ids r r' \<Longrightarrow> later_ids r' r'' \<Longrightarrow> later_ids r r''"
  by (auto simp: later_ids_def split: if_splits)

lemma calm_at_trans: "calm_at sid r r' \<Longrightarrow> calm_at sid r' r'' \<Longrightarrow> calm_at sid r r''"
  unfolding calm_at_def using quiet_trans by blast

lemma calm_trans: "calm r r' \<Longrightarrow> calm r' r'' \<Longrightarrow> calm r r''"
  unfolding calm_def using later_ids_trans calm_at_trans by blast

lemma calm_refl [simp, intro]: "calm r r"
  by (auto simp: calm_def calm_at_def)

lemma later_ids_same: "r_next_id r' = r_next_id r \<Longrightarrow> later_ids r r'"
  by (simp add: later_ids_def room_def)

lemma calm_same: "r_sessions r' = r_sessions r \<Longrightarrow> r_next_id r' = r_next_id r \<Longrightarrow> calm r r'"
  by (auto simp: calm_def calm_at_def get_session_def later_ids_same)

lemma calm_filter:
  assumes "registry_wf r" and "r_sessions r' = filter P (r_sessions r)" and "r_next_id r' = r_next_id r"
  shows "calm r r'"
proof -
  have "get_session r sid = Some s" if "get_session r' sid = Some s" for sid s
    using get_session_mem [OF that] assms(2) by (simp add: get_session_iff [OF assms(1)])
  then show ?thesis using later_ids_same [OF assms(3)] by (auto simp: calm_def calm_at_def)
qed

lemma calm_drop: "registry_wf r \<Longrightarrow> calm r (drop_session sid r)"
  by (rule calm_filter) (auto simp: drop_session_def)

lemma calm_set:
  assumes "get_session r sid = Some s" and "quiet s s'"
  shows "calm r (set_session sid s' r)"
  using assms get_set_session [OF assms(1), of s']
  by (auto simp: calm_def calm_at_def later_ids_def room_def set_session_def)

lemma calm_map: "(\<And>s. quiet s (f s)) \<Longrightarrow> calm r (map_sessions f r)"
  by (auto simp: calm_def calm_at_def get_map_sessions later_ids_def room_def) (auto simp: map_sessions_def)

lemma calm_prepared:
  assumes "get_session r sid = Some s" and "\<And>s. session_envs pd advance pe s (env s)"
  shows "calm r (prepared ok env cols rows sid s r)"
  unfolding prepared_def
  by (rule calm_trans [OF calm_set [OF assms(1) quiet_resized] calm_map]) (rule quiet_envs [OF assms(2)])

lemma calm_spawn_state:
  assumes r: "registry_wf r" and env: "\<And>s. session_envs pd advance pe s (env1 s)" "\<And>s. session_envs pd advance pe s (env2 s)"
    and st: "spawn_state ok env1 env2 cols rows w p r r1"
  shows "calm r r1"
  using st unfolding spawn_state_def
proof (elim disjE exE conjE)
  assume "r1 = map_sessions env2 r"
  then show ?thesis using calm_map quiet_envs [OF env(2)] by metis
next
  fix sid s
  assume g: "get_session r sid = Some s" and r1: "r1 = map_sessions env2 (drop_session sid (prepared ok env1 cols rows sid s r))"
  have "calm r (drop_session sid (prepared ok env1 cols rows sid s r))"
    by (rule calm_trans [OF calm_prepared [OF g env(1)] calm_drop [OF prepared_wf(1) [OF r g env(1)]]])
  moreover have "calm x (map_sessions env2 x)" for x by (rule calm_map) (rule quiet_envs [OF env(2)])
  ultimately show ?thesis unfolding r1 by (rule calm_trans)
qed

lemma calm_next_id: "next_id r = (sid, r') \<Longrightarrow> calm r r'"
  using u64_less_Suc [of "r_next_id r"]
  by (auto simp: next_id_def calm_def calm_at_def get_session_def later_ids_def room_def split: if_splits)

section \<open>A new attachment\<close>

definition gives :: "u64 \<Rightarrow> u64 \<Rightarrow> 'p registry \<Rightarrow> 'p registry \<Rightarrow> bool" where
  "gives sid t r r' \<longleftrightarrow>
     later_ids r r' \<and> (\<forall>k. k \<noteq> sid \<longrightarrow> calm_at k r r') \<and>
     (\<exists>s'. get_session r' sid = Some s' \<and> token_of s' = Some t \<and> t < o_next_token (s_output s')) \<and>
     (case get_session r sid of
        Some s \<Rightarrow> o_next_token (s_output s) \<le> t
      | None \<Rightarrow> (if room r' then r_next_id r \<le> sid \<and> sid < r_next_id r' else True))"

lemma calm_attach:
  assumes g: "get_session r sid = Some s" and a: "session_attach_with_snapshot lines s = Some (Some (t, snap), s')"
  shows "gives sid t r (set_session sid s' r)"
  using a
proof (cases rule: attach_cases)
  case attached
  then show ?thesis using g get_set_session [OF g, of s']
    by (auto simp: gives_def calm_at_def later_ids_def room_def set_session_def token_of_def)
qed simp

lemma calm_gives: "calm r r1 \<Longrightarrow> gives sid t r1 r' \<Longrightarrow> get_session r sid \<noteq> None \<longrightarrow> get_session r1 sid \<noteq> None \<Longrightarrow> gives sid t r r'"
  unfolding gives_def calm_def
proof (elim conjE, intro conjI)
  assume a: "later_ids r r1" "later_ids r1 r'" "\<forall>sid. calm_at sid r r1" "\<forall>k. k \<noteq> sid \<longrightarrow> calm_at k r1 r'"
    and keep: "get_session r sid \<noteq> None \<longrightarrow> get_session r1 sid \<noteq> None"
    and c: "case get_session r1 sid of Some s \<Rightarrow> o_next_token (s_output s) \<le> t
        | None \<Rightarrow> if room r' then r_next_id r1 \<le> sid \<and> sid < r_next_id r' else True"
  show "later_ids r r'" using a later_ids_trans by blast
  show "\<forall>k. k \<noteq> sid \<longrightarrow> calm_at k r r'" using a calm_at_trans by blast
  show "case get_session r sid of Some s \<Rightarrow> o_next_token (s_output s) \<le> t
      | None \<Rightarrow> if room r' then r_next_id r \<le> sid \<and> sid < r_next_id r' else True"
  proof (cases "get_session r1 sid")
    case None
    then show ?thesis using a c keep by (auto simp: later_ids_def split: if_splits)
  next
    case (Some s1)
    then obtain s where "get_session r sid = Some s" "quiet s s1" using a(3) by (auto simp: calm_at_def)
    then show ?thesis using c Some by (auto simp: quiet_def)
  qed
qed auto

lemma get_put_other_session: "get_session (put_session sid s r) k = (if k = sid then Some s else get_session r k)"
proof -
  have "map_of (filter (\<lambda>(j, _). j \<noteq> sid) xs) k = (if k = sid then None else map_of xs k)" for xs :: "(u64 \<times> 'a session) list"
    by (induction xs) auto
  then show ?thesis by (simp add: get_session_def put_session_def)
qed

text \<open>A session that is spawned has an id that was never used.\<close>

lemma spawn_gives:
  assumes r: "registry_wf r" and n: "next_id r = (sid, r')"
    and sp: "session_spawn pe parser launched sid cols rows w p name = Inr (s, t)" and room: "room r'"
  shows "gives sid t r (put_session sid s r')" and "r_next_id r \<le> sid" and "sid < r_next_id r'"
proof -
  note N = next_id_spec [OF r n]
  note S = session_spawn_ok [OF sp N(4,5)]
  have rr: "room r" "later_ids r r'" using calm_next_id [OF n] room by (auto simp: calm_def later_ids_def)
  have fresh: "get_session r sid = None"
    using N(6) rr(1) by (auto simp: room_def get_session_def map_of_eq_None_iff)
  have sid: "r_next_id r = sid" using n rr(1) by (auto simp: next_id_def room_def)
  then show "r_next_id r \<le> sid" by simp
  show lt: "sid < r_next_id r'" using N(5) room by (simp add: room_def)
  have "get_session (put_session sid s r') k = (if k = sid then Some s else get_session r k)" for k
    using N(2) get_put_other_session [of sid s r' k] by (simp add: get_session_def)
  then show "gives sid t r (put_session sid s r')"
    using S(7,8) rr fresh sid lt u64_less_Suc [of t] S(4)
    by (auto simp: gives_def calm_at_def later_ids_def room_def put_session_def token_of_def)
qed

section \<open>The requests\<close>

lemma key_bound: "registry_wf r \<Longrightarrow> get_session r sid = Some s \<Longrightarrow> room r \<Longrightarrow> sid < r_next_id r"
  using get_session_mem [of r sid s] by (auto simp: registry_wf_def entry_ok_def room_def)

lemma calm_detach: "calm r (snd (detach sid t r))"
proof (cases "get_session r sid")
  case (Some s)
  then show ?thesis using calm_set [OF Some quiet_detach [of s t]] by (simp add: detach_def Let_def split_beta)
qed (simp add: detach_def)

lemma attached_detach: "attached (snd (detach sid t r)) k = (if k = sid \<and> attached r sid = Some t then None else attached r k)"
proof (cases "get_session r sid")
  case (Some s)
  then show ?thesis
    by (auto simp: detach_def attached_def Let_def split_beta get_set_session [OF Some] session_detach_def token_of_def)
qed (simp add: detach_def attached_def)

lemma calm_stop: "registry_wf r \<Longrightarrow> calm r (snd (stop force retire r))"
  by (auto simp: stop_def Let_def intro!: calm_filter [where P = "\<lambda>_. False"])

lemma calm_resize: "calm r (snd (registry_resize ok sid cols rows r))"
  using calm_set [OF _ quiet_resize] by (auto simp: registry_resize_def split: option.split)

lemma calm_rename: "calm r (snd (rename sid name r))"
  using calm_set [OF _ quiet_name] by (auto simp: rename_def split: option.split)

lemma calm_remove: "registry_wf r \<Longrightarrow> calm r (snd (remove_session sid r))"
  by (simp add: remove_session_def calm_drop)

lemma attach_effect:
  assumes r: "registry_wf r" and a: "attach_with_snapshot sid lines r = Some (res, r')"
  shows "case res of None \<Rightarrow> calm r r' | Some (t, _, _) \<Rightarrow> gives sid t r r'"
proof (cases "get_session r sid")
  case None
  then show ?thesis using a calm_drop [OF r] by (auto simp: attach_with_snapshot_def)
next
  case (Some s)
  then show ?thesis using a calm_drop [OF r, of sid] calm_attach [OF Some]
    by (auto simp: attach_with_snapshot_def split: option.splits)
qed

lemma spawn_effect:
  assumes r: "registry_wf r" and e: "spawn_with_context pe parser launched cols rows w p name r = (res, r')" and room: "room r'"
  shows "case res of Inl _ \<Rightarrow> calm r r' | Inr (sid, t, _) \<Rightarrow> gives sid t r r' \<and> r_next_id r \<le> sid"
proof (cases r rule: check_cases)
  case (refused x)
  then show ?thesis using e by (auto simp: spawn_with_context_def)
next
  case accepted
  let ?r = "r\<lparr>r_sessions := filter (\<lambda>(_, s). \<not> has_key w p s \<or> alive s) (r_sessions r)\<rparr>"
  have wf: "registry_wf ?r" by (rule registry_wf_filter [OF r])
  have c: "calm r ?r" by (rule calm_filter [OF r]) simp_all
  obtain sid r1 where n: "next_id ?r = (sid, r1)" by fastforce
  show ?thesis
  proof (cases "list_ex (\<lambda>(_, s). has_key w p s \<and> alive s) (r_sessions r)")
    case True
    then show ?thesis using e accepted by (auto simp: spawn_with_context_def)
  next
    case False
    show ?thesis
    proof (cases "session_spawn pe parser launched sid cols rows w p name")
      case (Inl x)
      then show ?thesis using e accepted False n calm_trans [OF c calm_next_id [OF n]]
        by (auto simp: spawn_with_context_def)
    next
      case (Inr st)
      then obtain s t where st: "session_spawn pe parser launched sid cols rows w p name = Inr (s, t)" by (cases st) auto
      then have r': "r' = put_session sid s r1" "\<exists>c. res = Inr (sid, t, c)"
        using e accepted False n by (auto simp: spawn_with_context_def)
      have "room r1" using room r'(1) by (simp add: room_def put_session_def)
      note G = spawn_gives [OF wf n st this]
      have "room r" using calm_next_id [OF n] \<open>room r1\<close> by (auto simp: calm_def later_ids_def room_def)
      then have "get_session r sid = None" using key_bound [OF r, of sid] G(2) by fastforce
      then have "gives sid t r r'" using calm_gives [OF c] G(1) r'(1) by simp
      then show ?thesis using r'(2) G(2) by auto
    qed
  qed
qed

lemma ensure_effect:
  assumes r: "registry_wf r" and env: "\<And>s. session_envs pd advance pe s (env1 s)" "\<And>s. session_envs pd advance pe s (env2 s)"
    and e: "ensure_with_context pe parser launched ok env1 env2 cols rows w p name lines r = Some (res, r')" and room: "room r'"
  shows "case res of Inl _ \<Rightarrow> calm r r' | Inr en \<Rightarrow> gives (en_session_id en) (en_attachment_token en) r r'"
proof (cases r rule: check_cases)
  case (refused x)
  then show ?thesis using e by (auto simp: ensure_with_context_def)
next
  case accepted
  from r accepted(2) env(1) e show ?thesis
  proof (cases rule: ensure_cases)
    case (attached sid s t snap s2)
    note g = prepared_wf(2) [OF r attached(1) env(1), of ok cols rows]
    have "gives sid t (prepared ok env1 cols rows sid s r) r'"
      unfolding attached(5) by (rule calm_attach [OF g attached(4)])
    then have "gives sid t r r'" by (rule calm_gives [OF calm_prepared [OF attached(1) env(1)]]) (simp add: g)
    then show ?thesis by (simp add: attached(6))
  next
    case (spawned r1)
    note S = spawn_state_ok [OF r accepted(2) env spawned(1)]
    have c1: "calm r r1" by (rule calm_spawn_state [OF r env spawned(1)])
    let ?d = "map fst (filter (\<lambda>(_, s). has_key w p s \<and> \<not> alive s) (r_sessions r1))"
    let ?r = "fold drop_session ?d r1"
    have wf: "registry_wf ?r" unfolding fold_drop_session by (rule registry_wf_filter [OF S(1)])
    have c: "calm r ?r" by (rule calm_trans [OF c1 calm_filter [OF S(1)]]) (simp_all add: fold_drop_session)
    obtain sid r2 where n: "next_id ?r = (sid, r2)" by fastforce
    show ?thesis
    proof (cases "session_spawn pe parser launched sid cols rows w p name")
      case (Inl x)
      then show ?thesis using spawned(2) n calm_trans [OF c calm_next_id [OF n]] by (auto simp: ensure_spawn_def Let_def)
    next
      case (Inr st)
      then obtain s t where st: "session_spawn pe parser launched sid cols rows w p name = Inr (s, t)" by (cases st) auto
      then have r': "r' = put_session sid s r2" "\<exists>en. res = Inr en \<and> en_session_id en = sid \<and> en_attachment_token en = t"
        using spawned(2) n by (auto simp: ensure_spawn_def Let_def)
      have "room r2" using room r'(1) by (simp add: room_def put_session_def)
      note G = spawn_gives [OF wf n st this]
      have "room ?r" using calm_next_id [OF n] \<open>room r2\<close> by (auto simp: calm_def later_ids_def)
      then have "room r" "r_next_id r \<le> sid" using c G(2) by (auto simp: calm_def later_ids_def)
      then have "get_session r sid = None" using key_bound [OF r, of sid] by fastforce
      then have "gives sid t r r'" using calm_gives [OF c] G(1) r'(1) by simp
      then show ?thesis using r'(2) by auto
    qed
  qed
qed

end
