(* ===== verification/Daemon_Inv.thy ===== *)
theory Daemon_Inv
  imports Handler_Inv
begin

text \<open>
  What a request does, and the invariant of the whole daemon: every connection that is not gone is counted,
  has at most one forwarder per session, and every attachment of a session belongs to exactly one of them.
\<close>

section \<open>Forwarders\<close>

lemma fold_removeAll: "fold removeAll ks fw = filter (\<lambda>x. x \<notin> set ks) fw"
  by (induction ks arbitrary: fw) (auto simp: removeAll_filter_not_eq intro!: filter_cong)

lemma abort_eq: "abort_forwarders_for_session fw sid = filter (\<lambda>k. fst k \<noteq> sid) fw"
  by (auto simp: abort_forwarders_for_session_def Let_def fold_removeAll split_beta intro!: filter_cong)

lemma cleanup_Cons [simp]:
  "cleanup_forwarders [] r = r"
  "cleanup_forwarders (k # ks) r = cleanup_forwarders ks (snd (detach (fst k) (snd k) r))"
  by (simp_all add: cleanup_forwarders_def split_beta)

lemma detach_loop:
  "fold (\<lambda>k (r, fw). (snd (detach (fst k) (snd k) r), removeAll k fw)) ks (r, fw) =
     (cleanup_forwarders ks r, filter (\<lambda>x. x \<notin> set ks) fw)"
  by (induction ks arbitrary: r fw) (auto simp: removeAll_filter_not_eq intro!: filter_cong)

lemma cleanup_attached:
  "attached (cleanup_forwarders ks r) sid =
     (case attached r sid of None \<Rightarrow> None | Some t \<Rightarrow> if (sid, t) \<in> set ks then None else Some t)"
  by (induction ks arbitrary: r) (auto simp: attached_detach split: option.split)

lemma detach_connections [simp]: "r_connections (snd (detach sid t r)) = r_connections r"
  by (auto simp: detach_def Let_def split_beta set_session_def split: option.split)

lemma cleanup_calm: "calm r (cleanup_forwarders ks r)"
  by (induction ks arbitrary: r) (auto intro: calm_trans calm_detach)

lemma cleanup_wf: "registry_wf r \<Longrightarrow> registry_wf (cleanup_forwarders ks r)"
  by (induction ks arbitrary: r) (simp_all add: single_session_steps_wf)

lemma cleanup_connections [simp]: "r_connections (cleanup_forwarders ks r) = r_connections r"
  by (induction ks arbitrary: r) simp_all

section \<open>The count of connections\<close>

lemma helpers_connections [simp]:
  "r_connections (set_session sid s r) = r_connections r" "r_connections (drop_session sid r) = r_connections r"
  "r_connections (put_session sid s r) = r_connections r" "r_connections (map_sessions f r) = r_connections r"
  "r_connections (fold drop_session ids r) = r_connections r" "r_connections (snd (next_id r)) = r_connections r"
  by (simp_all add: set_session_def drop_session_def put_session_def map_sessions_def fold_drop_session next_id_def)

lemma stop_connections: "r_connections (snd (stop force retire r)) = r_connections r"
  by (simp add: stop_def Let_def)

lemma spawn_connections: "r_connections (snd (spawn_with_context pe parser l cols rows w p name r)) = r_connections r"
proof -
  have "next_id x = (sid, x') \<Longrightarrow> r_connections x' = r_connections x" for x sid and x' :: "'a registry"
    using helpers_connections(6) [of x] by simp
  from this [of "r\<lparr>r_sessions := filter (\<lambda>(_, s). \<not> has_key w p s \<or> alive s) (r_sessions r)\<rparr>"] show ?thesis
    by (auto simp: spawn_with_context_def Let_def split: sum.split prod.split)
qed

lemma ensure_spawn_connections: "r_connections (snd (ensure_spawn pe parser l cols rows w p name lines r)) = r_connections r"
  using helpers_connections(5,6) by (auto simp: ensure_spawn_def Let_def split_beta split: sum.split)

lemma ensure_connections:
  assumes r: "registry_wf r" and env: "\<And>s. session_envs pd advance pe s (env1 s)"
    and e: "ensure_with_context pe parser launched ok env1 env2 cols rows w p name lines r = Some (res, r')"
  shows "r_connections r' = r_connections r"
proof (cases r rule: check_cases)
  case (refused x)
  then show ?thesis using e by (auto simp: ensure_with_context_def)
next
  case accepted
  from r accepted(2) env e show ?thesis
  proof (cases rule: ensure_cases)
    case (attached sid s t snap s2)
    then show ?thesis by (simp add: prepared_def)
  next
    case (spawned r1)
    have "r_connections r1 = r_connections r" using spawned(1) by (auto simp: spawn_state_def prepared_def)
    moreover have "r_connections r' = r_connections r1" using spawned(2) ensure_spawn_connections by (metis snd_conv)
    ultimately show ?thesis by simp
  qed
qed

lemma other_connections:
  "r_connections (snd (registry_resize ok sid cols rows r)) = r_connections r"
  "r_connections (snd (rename sid name r)) = r_connections r" "r_connections (snd (remove_session sid r)) = r_connections r"
  by (simp_all add: registry_resize_def rename_def remove_session_def split: option.split)

lemma attach_connections: "attach_with_snapshot sid lines r = Some (res, r') \<Longrightarrow> r_connections r' = r_connections r"
  by (auto simp: attach_with_snapshot_def split: option.splits)

section \<open>A request\<close>

text \<open>A request either gives no attachment, and a forwarder that goes has none left, or it gives one, and
the connection has its forwarder and no other of that session.\<close>

definition effect :: "'p registry \<Rightarrow> forwarders \<Rightarrow> 'p registry \<Rightarrow> forwarders \<Rightarrow> bool" where
  "effect r fw r' fw' \<longleftrightarrow>
     (calm r r' \<and> (\<exists>P. fw' = filter P fw \<and> (\<forall>k \<in> set fw. P k \<or> attached r' (fst k) \<noteq> Some (snd k)))) \<or>
     (\<exists>sid t. gives sid t r r' \<and> fw' = (sid, t) # filter (\<lambda>k. fst k \<noteq> sid) fw)"

lemma effect_calm: "calm r r' \<Longrightarrow> effect r fw r' fw"
  unfolding effect_def by (intro disjI1 conjI exI [of _ "\<lambda>_. True"]) simp_all

lemma answer_eq: "answer h post resp r fw = (res, resp', r', fw') \<Longrightarrow> r' = r \<and> fw' = fw \<and> resp' = resp"
  by (simp add: answer_def)

lemma done_answer_eq: "done_answer h i result r fw = (res, resp', r', fw') \<Longrightarrow> r' = r \<and> fw' = fw"
  by (auto simp: done_answer_def answer_def split: sum.splits)

lemma stop_answer_eq: "stop_answer h i result fw = (res, resp', r', fw') \<Longrightarrow> r' = snd result \<and> fw' = fw"
  by (auto simp: stop_answer_def answer_def split: prod.splits sum.splits)

lemma removed_gone: "registry_wf r \<Longrightarrow> get_session (snd (remove_session sid r)) sid = None"
  by (auto simp: remove_session_def drop_session_def get_session_def map_of_eq_None_iff)

text \<open>What holds after a request, as far as the others are concerned.\<close>

definition served :: "'p registry \<Rightarrow> forwarders \<Rightarrow> 'p registry \<Rightarrow> forwarders \<Rightarrow> bool" where
  "served r fw r' fw' \<longleftrightarrow>
     registry_wf r' \<and> r_connections r' = r_connections r \<and> later_ids r r' \<and>
     (room r' \<and> (\<forall>k \<in> set fw. fst k < r_next_id r) \<longrightarrow> effect r fw r' fw')"

lemma later_ids_effect: "effect r fw r' fw' \<Longrightarrow> later_ids r r'"
  by (auto simp: effect_def calm_def gives_def)

lemma servedI [intro!]:
  "registry_wf r' \<Longrightarrow> r_connections r' = r_connections r \<Longrightarrow> (room r' \<Longrightarrow> effect r fw r' fw') \<Longrightarrow> served r fw r' fw'"
  using later_ids_effect [of r fw r' fw'] by (auto simp: served_def later_ids_def)

lemma insert_after_abort:
  "insert_forwarder (a, b) (abort_forwarders_for_session fw a) = (a, b) # filter (\<lambda>k. fst k \<noteq> a) fw"
  by (auto simp: insert_forwarder_def abort_eq intro!: removeAll_id)

lemma handle_spawn:
  assumes r: "registry_wf r" and h: "handle h (SpawnSession i cols rows cwd shell args w p name corr) r fw = Some (res, resp, r', fw')"
  shows "served r fw r' fw'"
proof -
  let ?l = "h_launch h cwd shell args corr"
  obtain sres r1 where s: "spawn_with_context (h_pe h) (h_parser h) ?l cols rows w p name r = (sres, r1)" by fastforce
  have wf: "registry_wf r1" "r_connections r1 = r_connections r"
    using spawn_with_context_wf [OF r, of "h_pe h" "h_parser h" ?l cols rows w p name]
      spawn_connections [of "h_pe h" "h_parser h" ?l cols rows w p name r] s by auto
  show ?thesis
  proof (cases sres)
    case (Inl e)
    then have "r' = r1" "fw' = fw" using h s by (auto dest!: answer_eq)
    then show ?thesis using wf spawn_effect [OF r s] Inl by (auto intro: effect_calm)
  next
    case (Inr x)
    then obtain sid t c where x: "sres = Inr (sid, t, c)" by (cases x) auto
    then have eq: "r' = r1" "fw' = insert_forwarder (sid, t) fw" using h s by (auto dest!: answer_eq)
    have "effect r fw r' fw'" if b: "room r'" "\<forall>k \<in> set fw. fst k < r_next_id r"
    proof -
      have g: "gives sid t r r'" "r_next_id r \<le> sid" using spawn_effect [OF r s] x b(1) eq by auto
      have n: "fst k \<noteq> sid" if "k \<in> set fw" for k using b(2) that g(2) by force
      then have "filter (\<lambda>k. fst k \<noteq> sid) fw = fw" by (simp add: filter_id_conv)
      moreover have "(sid, t) \<notin> set fw" using n by fastforce
      then have "removeAll (sid, t) fw = fw" by simp
      ultimately show ?thesis using g(1) eq(2) unfolding effect_def insert_forwarder_def by metis
    qed
    moreover have "later_ids r r'" using spawn_effect [OF r s] x eq(1)
      by (cases "room r'") (auto simp: later_ids_def gives_def)
    ultimately show ?thesis using wf eq by (simp add: served_def)
  qed
qed

lemma handle_ensure:
  assumes r: "registry_wf r" and h: "handle h (EnsureSession i cols rows cwd shell args w p name corr lines) r fw = Some (res, resp, r', fw')"
    and env: "\<And>s. session_envs pd advance (h_pe h) s (h_env1 h s)" "\<And>s. session_envs pd advance (h_pe h) s (h_env2 h s)"
  shows "served r fw r' fw'"
proof -
  let ?n = "min (unat lines) SNAPSHOT_MAX_SCROLLBACK_LINES"
  from h obtain eres r1 where s: "ensure_with_context (h_pe h) (h_parser h) (h_launch h cwd shell args corr)
      (h_resize_ok h) (h_env1 h) (h_env2 h) cols rows w p name ?n r = Some (eres, r1)"
    by (auto simp: Let_def split: option.splits)
  have eq: "r' = r1" "case eres of Inl _ \<Rightarrow> fw' = fw
      | Inr en \<Rightarrow> fw' = insert_forwarder (en_session_id en, en_attachment_token en) (abort_forwarders_for_session fw (en_session_id en))"
    using h s by (auto simp: Let_def dest!: answer_eq split: sum.splits)
  have wf: "registry_wf r'" "r_connections r' = r_connections r"
    using ensure_wf [OF r env s] ensure_connections [OF r env(1) s] eq by auto
  have E: "case eres of Inl _ \<Rightarrow> calm r r' | Inr en \<Rightarrow> gives (en_session_id en) (en_attachment_token en) r r'" if "room r'"
    using ensure_effect [OF r env s] that unfolding eq(1) .
  have "effect r fw r' fw'" if "room r'"
  proof (cases eres)
    case (Inl e)
    then show ?thesis using E [OF that] eq(2) by (auto intro: effect_calm)
  next
    case (Inr en)
    then show ?thesis using E [OF that] eq(2) insert_after_abort unfolding effect_def by (intro disjI2) auto
  qed
  then show ?thesis using wf by auto
qed

lemma handle_attach:
  assumes r: "registry_wf r" and h: "handle h (AttachSession i sid lines) r fw = Some (res, resp, r', fw')"
  shows "served r fw r' fw'"
proof -
  let ?n = "min (unat lines) SNAPSHOT_MAX_SCROLLBACK_LINES"
  from h obtain ares r1 where s: "attach_with_snapshot sid ?n r = Some (ares, r1)"
    by (auto simp: Let_def split: option.splits)
  have eq: "r' = r1" "case ares of None \<Rightarrow> fw' = fw
      | Some (t, _, _) \<Rightarrow> fw' = insert_forwarder (sid, t) (abort_forwarders_for_session fw sid)"
    using h s by (auto simp: Let_def dest!: answer_eq split: option.splits prod.splits)
  have "effect r fw r' fw'"
  proof (cases ares)
    case None
    then show ?thesis using attach_effect [OF r s] eq by (auto intro: effect_calm)
  next
    case (Some x)
    then show ?thesis using attach_effect [OF r s] eq insert_after_abort unfolding effect_def by (cases x) (intro disjI2, auto)
  qed
  then show ?thesis using attach_with_snapshot_wf [OF r s] attach_connections [OF s] eq(1) by auto
qed

lemma handle_effect:
  assumes r: "registry_wf r" and h: "handle h req r fw = Some (res, resp, r', fw')"
    and env: "\<And>s. session_envs pd advance (h_pe h) s (h_env1 h s)" "\<And>s. session_envs pd advance (h_pe h) s (h_env2 h s)"
  shows "served r fw r' fw'"
proof (cases req)
  case (Hello i v)
  then show ?thesis using h r by (auto dest!: answer_eq intro: effect_calm)
next
  case (Shutdown i force)
  then show ?thesis using h r
    by (auto dest!: stop_answer_eq simp: begin_shutdown_def stop_connections table_steps_wf calm_stop intro: effect_calm)
next
  case (RetireIfIdle i)
  then show ?thesis using h r
    by (auto dest!: stop_answer_eq simp: begin_retirement_def stop_connections table_steps_wf calm_stop intro: effect_calm)
next
  case (SpawnSession i cols rows cwd shell args w p name corr)
  then show ?thesis using handle_spawn [OF r] h by simp
next
  case (EnsureSession i cols rows cwd shell args w p name corr lines)
  then show ?thesis using handle_ensure [OF r _ env] h by simp
next
  case (Write i sid bytes)
  then show ?thesis using h r by (auto dest!: done_answer_eq intro: effect_calm)
next
  case (Resize i sid cols rows)
  then show ?thesis using h r single_session_steps_wf(2) [OF r, of "h_resize_ok h" sid cols rows]
      other_connections(1) [of "h_resize_ok h" sid cols rows r] calm_resize [of r "h_resize_ok h" sid cols rows]
    by (auto dest!: done_answer_eq intro: effect_calm split: prod.splits)
next
  case (KillSession i sid)
  then have eq: "r' = snd (remove_session sid r)" "fw' = filter (\<lambda>k. fst k \<noteq> sid) fw"
    using h by (auto simp: Let_def abort_eq dest!: answer_eq)
  have "effect r fw r' fw'"
    unfolding effect_def eq using calm_remove [OF r, of sid] removed_gone [OF r, of sid]
    by (intro disjI1 conjI exI [of _ "\<lambda>k. fst k \<noteq> sid"]) (auto simp: attached_def)
  then show ?thesis using eq(1) single_session_steps_wf(4) [OF r] other_connections(3) by auto
next
  case (ListSessions i)
  then show ?thesis using h r by (auto dest!: answer_eq intro: effect_calm)
next
  case (AttachSession i sid lines)
  then show ?thesis using handle_attach [OF r] h by simp
next
  case (DetachSession i sid)
  let ?ks = "filter (\<lambda>(a, _). a = sid) fw"
  have eq: "r' = cleanup_forwarders ?ks r" "fw' = filter (\<lambda>k. k \<notin> set ?ks) fw"
    using h DetachSession by (auto simp: Let_def detach_loop dest!: answer_eq)
  have "effect r fw r' fw'" unfolding effect_def
    by (intro disjI1 conjI exI [of _ "\<lambda>k. k \<notin> set ?ks"])
      (auto simp: eq cleanup_calm cleanup_attached split: option.splits)
  then show ?thesis using cleanup_wf [OF r] by (auto simp: eq(1))
next
  case (RenameSession i sid name)
  then show ?thesis using h r single_session_steps_wf(3) [OF r, of sid name]
      other_connections(2) [of sid name r] calm_rename [of r sid name]
    by (auto simp: Let_def dest!: answer_eq intro: effect_calm split: prod.splits bool.splits)
qed

end
