(* ===== verification/Daemon_Props.thy ===== *)
theory Daemon_Props
  imports Daemon_Inv Registry_Props
begin

text \<open>
  What the daemon promises of its connections: every attachment of a session has exactly one owner, the end
  of a connection cuts off its own attachments and no other, and every request is answered once, with its id.
\<close>

section \<open>Owners\<close>

definition known :: "'p registry \<Rightarrow> u64 \<times> u64 \<Rightarrow> bool" where
  "known r k \<longleftrightarrow> fst k < r_next_id r \<and> (\<forall>s. get_session r (fst k) = Some s \<longrightarrow> snd k < o_next_token (s_output s))"

definition has :: "forwarders list \<Rightarrow> nat \<Rightarrow> u64 \<times> u64 \<Rightarrow> bool" where
  "has fs i k \<longleftrightarrow> i < length fs \<and> k \<in> set (fs ! i)"

lemma has_update [simp]: "i < length fs \<Longrightarrow> has (fs[i := fw]) j k \<longleftrightarrow> (if j = i then k \<in> set fw else has fs j k)"
  by (auto simp: has_def)

lemma has_append [simp]: "has (fs @ [[]]) j k \<longleftrightarrow> has fs j k"
  by (auto simp: has_def nth_append less_Suc_eq)

text \<open>No two connections have the same forwarder, no connection has two of one session, and every
attachment has one.\<close>

definition owned :: "'p registry \<Rightarrow> forwarders list \<Rightarrow> bool" where
  "owned r fs \<longleftrightarrow>
     (\<forall>i j k. has fs i k \<and> has fs j k \<longrightarrow> i = j) \<and> (\<forall>i < length fs. distinct (map fst (fs ! i))) \<and>
     (\<forall>i k. has fs i k \<longrightarrow> known r k) \<and> (\<forall>sid t. attached r sid = Some t \<longrightarrow> (\<exists>i. has fs i (sid, t)))"

lemma ownedI:
  "(\<And>i j k. has fs i k \<Longrightarrow> has fs j k \<Longrightarrow> i = j) \<Longrightarrow> (\<And>i. i < length fs \<Longrightarrow> distinct (map fst (fs ! i))) \<Longrightarrow>
    (\<And>i k. has fs i k \<Longrightarrow> known r k) \<Longrightarrow> (\<And>sid t. attached r sid = Some t \<Longrightarrow> \<exists>i. has fs i (sid, t)) \<Longrightarrow> owned r fs"
  unfolding owned_def by blast

lemma ownedD:
  assumes "owned r fs"
  shows "has fs i k \<Longrightarrow> has fs j k \<Longrightarrow> i = j" and "i < length fs \<Longrightarrow> distinct (map fst (fs ! i))"
    and "has fs i k \<Longrightarrow> known r k" and "attached r sid = Some t \<Longrightarrow> \<exists>i. has fs i (sid, t)"
  using assms unfolding owned_def by blast+

lemma known_calm_at:
  assumes "known r k" and "calm_at (fst k) r r'" and "later_ids r r'" and "room r'"
  shows "known r' k"
  using assms by (force simp: known_def calm_at_def later_ids_def quiet_def)

lemma known_gives:
  assumes k: "known r k" and g: "gives sid t r r'" and room: "room r'"
  shows "known r' k" and "k \<noteq> (sid, t)"
proof -
  have l: "later_ids r r'" and c: "fst k \<noteq> sid \<Longrightarrow> calm_at (fst k) r r'" using g by (simp_all add: gives_def)
  obtain s' where s': "get_session r' sid = Some s'" "t < o_next_token (s_output s')" using g by (auto simp: gives_def)
  have old: "\<exists>s. get_session r sid = Some s \<and> snd k < o_next_token (s_output s) \<and> o_next_token (s_output s) \<le> t" if "fst k = sid"
    using that k g room by (auto simp: gives_def known_def split: option.splits)
  show "k \<noteq> (sid, t)" using old by auto
  show "known r' k"
  proof (cases "fst k = sid")
    case True
    then have "snd k < o_next_token (s_output s')" using old s'(2) by auto
    moreover have "fst k < r_next_id r'" using k l room by (auto simp: known_def later_ids_def)
    ultimately show ?thesis using True s'(1) by (simp add: known_def)
  next
    case False
    then show ?thesis by (intro known_calm_at [OF k c l room])
  qed
qed

lemma attached_calm_at: "calm_at sid r r' \<Longrightarrow> attached r' sid = Some t \<Longrightarrow> attached r sid = Some t"
  by (auto simp: calm_at_def attached_def quiet_def bind_eq_Some_conv)

lemma owned_calm:
  assumes "owned r fs" and "calm r r'" and "room r'"
  shows "owned r' fs"
proof -
  note o = ownedD [OF assms(1)]
  have c: "calm_at k r r'" "later_ids r r'" for k using assms(2) by (simp_all add: calm_def)
  show ?thesis
  proof (rule ownedI)
    show "known r' k" if "has fs i k" for i k by (rule known_calm_at [OF o(3) [OF that] c assms(3)])
    show "\<exists>i. has fs i (sid, t)" if "attached r' sid = Some t" for sid t
      by (rule o(4) [OF attached_calm_at [OF c(1) that]])
  qed (auto intro: o(1,2))
qed

lemma owned_append: "owned r fs \<Longrightarrow> owned r (fs @ [[]])"
  unfolding owned_def by (simp add: nth_append less_Suc_eq)

lemma owned_effect:
  assumes o: "owned r fs" and wf: "registry_wf r'" and i: "i < length fs" and e: "effect r (fs ! i) r' fw'" and room: "room r'"
  shows "owned r' (fs[i := fw'])"
  using e unfolding effect_def
proof (elim disjE exE conjE)
  fix P
  assume c: "calm r r'" and fw': "fw' = filter P (fs ! i)" and P: "\<forall>k \<in> set (fs ! i). P k \<or> attached r' (fst k) \<noteq> Some (snd k)"
  note o' = ownedD [OF owned_calm [OF o c room]]
  have less: "has fs j k" if "has (fs[i := fw']) j k" for j k
    using that unfolding has_update [OF i] by (auto simp: fw' has_def i split: if_splits)
  show ?thesis
  proof (rule ownedI)
    show "\<exists>j. has (fs[i := fw']) j (sid, t)" if a: "attached r' sid = Some t" for sid t
    proof -
      obtain j where j: "has fs j (sid, t)" using o'(4) [OF a] by blast
      have "has (fs[i := fw']) j (sid, t)" unfolding has_update [OF i] using j P a by (auto simp: fw' has_def)
      then show ?thesis ..
    qed
    show "distinct (map fst (fs[i := fw'] ! j))" if "j < length (fs[i := fw'])" for j
      using that o'(2) [of j] by (cases "j = i") (auto simp: fw' intro: distinct_map_filter_mono)
  qed (auto dest!: less intro: o'(1,3))
next
  fix sid t
  assume g: "gives sid t r r'" and fw': "fw' = (sid, t) # filter (\<lambda>k. fst k \<noteq> sid) (fs ! i)"
  note o' = ownedD [OF o]
  have kn: "known r' k" "k \<noteq> (sid, t)" if "has fs j k" for j k
    using known_gives [OF o'(3) [OF that] g room] by simp_all
  have new: "known r' (sid, t)" "attached r' sid = Some t"
    using g key_bound [OF wf _ room, of sid] by (auto simp: gives_def attached_def known_def)
  have less: "k = (sid, t) \<and> j = i \<or> has fs j k" if "has (fs[i := fw']) j k" for j k
    using that unfolding has_update [OF i] by (auto simp: fw' has_def i split: if_splits)
  show ?thesis
  proof (rule ownedI)
    show "j = l" if "has (fs[i := fw']) j k" "has (fs[i := fw']) l k" for j l k
      using less [OF that(1)] less [OF that(2)] kn(2) o'(1) by blast
    show "known r' k" if "has (fs[i := fw']) j k" for j k using less [OF that] kn(1) new(1) by blast
    show "\<exists>j. has (fs[i := fw']) j (k, u)" if a: "attached r' k = Some u" for k u
    proof (cases "k = sid")
      case True
      then have "has (fs[i := fw']) i (k, u)" using a new(2) i by (simp add: fw')
      then show ?thesis ..
    next
      case False
      then have "calm_at k r r'" using g by (simp add: gives_def)
      then obtain j where "has fs j (k, u)" using o'(4) [OF attached_calm_at [OF _ a]] by blast
      then have "has (fs[i := fw']) j (k, u)" unfolding has_update [OF i] using False by (auto simp: fw' has_def)
      then show ?thesis ..
    qed
    show "distinct (map fst (fs[i := fw'] ! j))" if "j < length (fs[i := fw'])" for j
      using that o'(2) [of j] by (cases "j = i") (auto simp: fw' intro: distinct_map_filter_mono)
  qed
qed

section \<open>The daemon's invariant\<close>

definition daemon_wf :: "'p daemon \<Rightarrow> bool" where
  "daemon_wf d \<longleftrightarrow>
     registry_wf (d_registry d) \<and> r_connections (d_registry d) = open_connections d \<and>
     (\<forall>c \<in> set (d_connections d). c_phase c = Gone \<longrightarrow> c_forwarders c = []) \<and>
     (room (d_registry d) \<longrightarrow> owned (d_registry d) (map c_forwarders (d_connections d)))"

lemma new_daemon_wf: "daemon_wf new_daemon"
  using new_registry_wf
  by (simp add: daemon_wf_def new_daemon_def open_connections_def owned_def has_def attached_def get_session_def)
    (simp add: new_registry_def)

lemma length_filter_update:
  "i < length xs \<Longrightarrow> length (filter P (xs[i := x])) + (if P (xs ! i) then 1 else 0) =
     length (filter P xs) + (if P x then 1 else 0)"
proof (induction xs arbitrary: i)
  case (Cons y ys)
  then show ?case by (cases i) auto
qed simp

lemma open_update:
  assumes "i < length (d_connections d)" and "c_phase (d_connections d ! i) \<noteq> Gone"
  shows "c_phase c \<noteq> Gone \<Longrightarrow> open_connections (d\<lparr>d_registry := r, d_connections := (d_connections d)[i := c]\<rparr>) = open_connections d"
    and "c_phase c = Gone \<Longrightarrow> open_connections (d\<lparr>d_registry := r, d_connections := (d_connections d)[i := c]\<rparr>) = open_connections d - 1"
  using length_filter_update [OF assms(1), of "\<lambda>c. c_phase c \<noteq> Gone" c] assms(2) by (simp_all add: open_connections_def)

text \<open>A step of one connection, from its effect.\<close>

lemma connection_step_wf:
  assumes d: "daemon_wf d" and i: "i < length (d_connections d)" "c_phase (d_connections d ! i) \<noteq> Gone"
    and s: "registry_wf r'" "later_ids (d_registry d) r'"
    and e: "room r' \<Longrightarrow> room (d_registry d) \<Longrightarrow> effect (d_registry d) (c_forwarders (d_connections d ! i)) r' fw'"
    and p: "(if ph = Gone then fw' = [] \<and> r_connections r' = r_connections (d_registry d) - 1
             else r_connections r' = r_connections (d_registry d))"
  shows "daemon_wf (d\<lparr>d_registry := r', d_connections := (d_connections d)[i := \<lparr>c_forwarders = fw', c_phase = ph\<rparr>]\<rparr>)"
    (is "daemon_wf ?d")
proof -
  have "r_connections r' = open_connections ?d"
    using p d open_update [OF i, of "\<lparr>c_forwarders = fw', c_phase = ph\<rparr>" r'] by (auto simp: daemon_wf_def split: if_splits)
  moreover have "c_forwarders c = []" if "c \<in> set ((d_connections d)[i := \<lparr>c_forwarders = fw', c_phase = ph\<rparr>])" "c_phase c = Gone" for c
    using subsetD [OF set_update_subset_insert that(1)] that(2) d p by (auto simp: daemon_wf_def split: if_splits)
  moreover have "owned r' (map c_forwarders ((d_connections d)[i := \<lparr>c_forwarders = fw', c_phase = ph\<rparr>]))" if room: "room r'"
  proof -
    have rd: "room (d_registry d)" using s(2) room by (simp add: later_ids_def)
    then have "owned (d_registry d) (map c_forwarders (d_connections d))" using d by (simp add: daemon_wf_def)
    from owned_effect [OF this s(1), of i fw'] show ?thesis using e [OF room rd] i(1) room by (simp add: map_update)
  qed
  ultimately show ?thesis using s(1) by (simp add: daemon_wf_def)
qed

lemma known_forwarders:
  assumes "daemon_wf d" and "room (d_registry d)" and "i < length (d_connections d)"
  shows "\<forall>k \<in> set (c_forwarders (d_connections d ! i)). fst k < r_next_id (d_registry d)"
  using assms ownedD(3) [of "d_registry d" "map c_forwarders (d_connections d)" i]
  by (auto simp: daemon_wf_def has_def known_def)

lemma registry_change_wf:
  assumes "daemon_wf d" and "registry_wf r'" and "calm (d_registry d) r'" and "r_connections r' = r_connections (d_registry d)"
  shows "daemon_wf (d\<lparr>d_registry := r'\<rparr>)"
  using assms owned_calm [of "d_registry d" "map c_forwarders (d_connections d)" r']
  by (auto simp: daemon_wf_def open_connections_def calm_def later_ids_def)

lemma connects_wf:
  assumes d: "daemon_wf d" and r: "register_connection (d_registry d) = (Inr (), r')"
  shows "daemon_wf (d\<lparr>d_registry := r', d_connections := d_connections d @ [\<lparr>c_forwarders = [], c_phase = Serving\<rparr>]\<rparr>)"
proof -
  have r': "r' = (d_registry d)\<lparr>r_connections := r_connections (d_registry d) + 1\<rparr>"
    using r by (auto simp: register_connection_def split: sum.splits)
  have "registry_wf r'" using table_steps_wf(1) [of "d_registry d"] d r by (simp add: daemon_wf_def)
  moreover have "owned r' (map c_forwarders (d_connections d) @ [[]])" if "room r'"
    using that d owned_append [OF owned_calm [OF _ calm_same [of r' "d_registry d"] that]]
    by (simp add: r' daemon_wf_def room_def)
  ultimately show ?thesis using d by (auto simp: daemon_wf_def open_connections_def r')
qed

lemma serves_wf:
  assumes d: "daemon_wf d" and i: "i < length (d_connections d)" "c_phase (d_connections d ! i) = Serving"
    and h: "handle h req (d_registry d) (c_forwarders (d_connections d ! i)) = Some (res, resp, r', fw')"
    and env: "\<And>s. session_envs pd advance (h_pe h) s (h_env1 h s)" "\<And>s. session_envs pd advance (h_pe h) s (h_env2 h s)"
  shows "daemon_wf (d\<lparr>d_registry := r', d_connections := (d_connections d)
      [i := \<lparr>c_forwarders = fw', c_phase = (if res = Inr Continue then Serving else Draining)\<rparr>]\<rparr>)"
proof -
  have "registry_wf (d_registry d)" using d by (simp add: daemon_wf_def)
  from handle_effect [OF this h env] have s: "registry_wf r'" "r_connections r' = r_connections (d_registry d)"
    "later_ids (d_registry d) r'" and e: "room r' \<Longrightarrow>
      \<forall>k \<in> set (c_forwarders (d_connections d ! i)). fst k < r_next_id (d_registry d) \<Longrightarrow>
      effect (d_registry d) (c_forwarders (d_connections d ! i)) r' fw'"
    by (simp_all add: served_def)
  show ?thesis
    by (rule connection_step_wf [OF d i(1) _ s(1,3)]) (use i(2) s(2) e known_forwarders [OF d _ i(1)] in auto)
qed

lemma connection_eqs:
  "c\<lparr>c_phase := ph\<rparr> = \<lparr>c_forwarders = c_forwarders c, c_phase = ph\<rparr>"
  "c\<lparr>c_forwarders := fw\<rparr> = \<lparr>c_forwarders = fw, c_phase = c_phase c\<rparr>"
  by simp_all

lemma registry_wf_connections: "registry_wf (r\<lparr>r_connections := n\<rparr>) = registry_wf r"
  by (simp add: registry_wf_def)

lemma drains_wf:
  assumes d: "daemon_wf d" and i: "i < length (d_connections d)" "c_phase (d_connections d ! i) = Draining"
  shows "daemon_wf (d\<lparr>d_registry := snd (detach (fst k) (snd k) (d_registry d)), d_connections := (d_connections d)
      [i := (d_connections d ! i)\<lparr>c_forwarders := removeAll k (c_forwarders (d_connections d ! i))\<rparr>]\<rparr>)"
proof -
  let ?r = "d_registry d" and ?fw = "c_forwarders (d_connections d ! i)"
  have "effect ?r ?fw (snd (detach (fst k) (snd k) ?r)) (removeAll k ?fw)" unfolding effect_def
    by (intro disjI1 conjI exI [of _ "\<lambda>x. x \<noteq> k"] calm_detach) (auto simp: attached_detach removeAll_filter_not_eq intro!: filter_cong)
  then show ?thesis unfolding connection_eqs
    by (intro connection_step_wf [OF d i(1)])
      (use i(2) d in \<open>auto simp: daemon_wf_def single_session_steps_wf dest: later_ids_effect\<close>)
qed

lemma daemon_step_wf: "daemon_step pd advance pe d d' \<Longrightarrow> daemon_wf d \<Longrightarrow> daemon_wf d'"
proof (induction rule: daemon_step.induct)
  case (thread d sid s s')
  then show ?case
    by (intro registry_change_wf calm_set [OF thread(1) quiet_env [OF thread(2)]])
      (auto simp: daemon_wf_def intro: threads.set_keeps)
next
  case (connects d r')
  then show ?case by (intro connects_wf)
next
  case (serves i d h req res resp r' fw')
  then show ?case by (intro serves_wf [where pd = pd and advance = advance]) auto
next
  case (ends i d)
  let ?c = "\<lparr>c_forwarders = c_forwarders (d_connections d ! i), c_phase = Draining\<rparr>"
  have "daemon_wf (d\<lparr>d_registry := d_registry d, d_connections := (d_connections d)[i := ?c]\<rparr>)"
    by (intro connection_step_wf effect_calm) (use ends in \<open>auto simp: daemon_wf_def\<close>)
  then show ?case by (simp add: connection_eqs)
next
  case (drains i d k)
  then show ?case by (intro drains_wf)
next
  case (leaves i d)
  then show ?case unfolding connection_eqs
    by (intro connection_step_wf effect_calm calm_same later_ids_same)
      (auto simp: daemon_wf_def drop_connection_def registry_wf_connections)
qed

lemma reachable_daemon_wf: "(daemon_step pd advance pe)\<^sup>*\<^sup>* new_daemon d \<Longrightarrow> daemon_wf d"
  by (induction rule: rtranclp_induct) (auto intro: new_daemon_wf daemon_step_wf)

lemma reachable_owned:
  "(daemon_step pd advance pe)\<^sup>*\<^sup>* new_daemon d \<Longrightarrow> r_next_id (d_registry d) \<noteq> 2 ^ 64 - 1 \<Longrightarrow>
    owned (d_registry d) (map c_forwarders (d_connections d))"
  using reachable_daemon_wf [of pd advance pe d] by (simp add: daemon_wf_def room_def)

section \<open>Properties\<close>

text \<open>C11: As long as the ids of the sessions are not used up, every attachment of a session has exactly one
owner: one connection that is not gone yet has the forwarder with its token, and no other connection has.
So output is never forwarded for a connection that has left, and never for two. The registry counts exactly
the connections that are not gone, which is what a retirement looks at.\<close>

theorem every_attachment_has_one_owner:
  assumes "(daemon_step pd advance pe)\<^sup>*\<^sup>* new_daemon d" and "r_next_id (d_registry d) \<noteq> 2 ^ 64 - 1"
  shows "r_connections (d_registry d) = open_connections d \<and>
    (case attached (d_registry d) sid of None \<Rightarrow> True
     | Some t \<Rightarrow> \<exists>!i. i < length (d_connections d) \<and> c_phase (d_connections d ! i) \<noteq> Gone \<and>
                 (sid, t) \<in> set (c_forwarders (d_connections d ! i)))"
proof -
  have wf: "daemon_wf d" by (rule reachable_daemon_wf [OF assms(1)])
  note o = ownedD [OF reachable_owned [OF assms]]
  have h: "has (map c_forwarders (d_connections d)) i k \<longleftrightarrow>
      i < length (d_connections d) \<and> c_phase (d_connections d ! i) \<noteq> Gone \<and> k \<in> set (c_forwarders (d_connections d ! i))" for i k
    using wf by (force simp: has_def daemon_wf_def)
  show ?thesis
  proof (intro conjI)
    show "r_connections (d_registry d) = open_connections d" using wf by (simp add: daemon_wf_def)
    show "case attached (d_registry d) sid of None \<Rightarrow> True
     | Some t \<Rightarrow> \<exists>!i. i < length (d_connections d) \<and> c_phase (d_connections d ! i) \<noteq> Gone \<and>
                 (sid, t) \<in> set (c_forwarders (d_connections d ! i))"
    proof (cases "attached (d_registry d) sid")
      case (Some t)
      obtain i where i: "has (map c_forwarders (d_connections d)) i (sid, t)" using o(4) [OF Some] by blast
      then have "\<exists>!i. has (map c_forwarders (d_connections d)) i (sid, t)" using o(1) by blast
      then show ?thesis by (simp only: Some option.case h)
    qed simp
  qed
qed

text \<open>No session has used up its tokens.\<close>

definition tokens_left :: "'p registry \<Rightarrow> bool" where
  "tokens_left r \<longleftrightarrow> (\<forall>(_, s) \<in> set (r_sessions r). o_next_token (s_output s) \<noteq> 2 ^ 64 - 1)"

definition demo_host :: "unit host" where
  "demo_host = \<lparr>h_pe = False, h_parser = (), h_launch = (\<lambda>_ _ _ _. launch_ok), h_resize_ok = True, h_env1 = id, h_env2 = id,
     h_write = (\<lambda>_. Inr ()), h_rss = (\<lambda>_. None), h_version = [], h_executable = None, h_pid = 1, h_own_rss = None,
     h_send = (\<lambda>_. Inr ())\<rparr>"

text \<open>Two connections; the first spawns a session.\<close>

definition demo_daemon :: "unit daemon" where
  "demo_daemon =
     (let r = (new_registry :: unit registry)\<lparr>r_connections := 2\<rparr>
      in case handle demo_host (SpawnSession 5 80 24 None None [] 1 1 None None) r [] of
           Some (_, _, r', fw) \<Rightarrow> \<lparr>d_registry = r',
             d_connections = [\<lparr>c_forwarders = fw, c_phase = Serving\<rparr>, \<lparr>c_forwarders = [], c_phase = Serving\<rparr>]\<rparr>)"

lemma demo_spawn:
  "\<exists>r'. handle demo_host (SpawnSession 5 80 24 None None [] 1 1 None None) ((new_registry :: unit registry)\<lparr>r_connections := 2\<rparr>) [] =
      Some (Inr Continue, SessionSpawned 5 1 (encode_capability (replicate 32 171)), r', [(1, 1)]) \<and>
    r_next_id r' = 2 \<and> attached r' 1 = Some 1 \<and> tokens_left r'"
  by (simp add: tokens_left_def demo_host_def spawn_with_context_def check_accepting_def new_registry_def next_id_def launch_ok_def
      session_spawn_def session_new_def put_session_def answer_def insert_forwarder_def attached_def get_session_def token_of_def)

lemma demo_daemon_reachable: "(daemon_step () ascii_parser False)\<^sup>*\<^sup>* new_daemon demo_daemon"
proof -
  let ?c = "\<lparr>c_forwarders = [], c_phase = Serving\<rparr>"
  let ?d1 = "\<lparr>d_registry = (new_registry :: unit registry)\<lparr>r_connections := 1\<rparr>, d_connections = [?c]\<rparr>"
  let ?d2 = "\<lparr>d_registry = (new_registry :: unit registry)\<lparr>r_connections := 2\<rparr>, d_connections = [?c, ?c]\<rparr>"
  have 1: "daemon_step () ascii_parser False new_daemon ?d1"
    using daemon_step.connects [of "new_daemon :: unit daemon" "new_registry\<lparr>r_connections := 1\<rparr>" "()" ascii_parser False]
    by (simp add: new_daemon_def register_connection_def check_accepting_def new_registry_def)
  have 2: "daemon_step () ascii_parser False ?d1 ?d2"
    using daemon_step.connects [of ?d1 "new_registry\<lparr>r_connections := 2\<rparr>" "()" ascii_parser False]
    by (simp add: register_connection_def check_accepting_def new_registry_def)
  obtain r' where r': "handle demo_host (SpawnSession 5 80 24 None None [] 1 1 None None) ((new_registry :: unit registry)\<lparr>r_connections := 2\<rparr>) [] =
      Some (Inr Continue, SessionSpawned 5 1 (encode_capability (replicate 32 171)), r', [(1, 1)])"
    using demo_spawn by blast
  have "h_pe demo_host = False" "\<And>s. session_envs () ascii_parser False s (h_env1 demo_host s)"
    "\<And>s. session_envs () ascii_parser False s (h_env2 demo_host s)" by (simp_all add: demo_host_def)
  then have 3: "daemon_step () ascii_parser False ?d2 demo_daemon"
    using daemon_step.serves [of 0 ?d2 demo_host "SpawnSession 5 80 24 None None [] 1 1 None None" "Inr Continue"
        "SessionSpawned 5 1 (encode_capability (replicate 32 171))" r' "[(1, 1)]" False "()" ascii_parser] r'
    by (simp add: demo_daemon_def del: handle.simps)
  from 1 2 3 show ?thesis by (meson rtranclp.rtrancl_into_rtrancl rtranclp.rtrancl_refl)
qed

lemma demo_daemon_state:
  "r_next_id (d_registry demo_daemon) = 2" "attached (d_registry demo_daemon) 1 = Some 1" "length (d_connections demo_daemon) = 2"
  "c_forwarders (d_connections demo_daemon ! 0) = [(1, 1)]" "tokens_left (d_registry demo_daemon)"
  using demo_spawn by (auto simp: demo_daemon_def simp del: handle.simps)

theorem every_attachment_has_one_owner_witness:
  "\<exists>!i. i < length (d_connections demo_daemon) \<and> c_phase (d_connections demo_daemon ! i) \<noteq> Gone \<and>
     (1, 1) \<in> set (c_forwarders (d_connections demo_daemon ! i))"
  using every_attachment_has_one_owner [OF demo_daemon_reachable, of 1] by (simp add: demo_daemon_state(1,2))

text \<open>The end of a connection cuts off its own attachments and no other: after its forwarders are cleaned
up no session has an attachment whose forwarder it had, and a session whose attachment belongs to another
connection keeps exactly that attachment.\<close>

theorem cleanup_spares_other_connections:
  assumes "(daemon_step pd advance pe)\<^sup>*\<^sup>* new_daemon d" and "r_next_id (d_registry d) \<noteq> 2 ^ 64 - 1"
    and "i < length (d_connections d)" and "j < length (d_connections d)" and "i \<noteq> j"
    and "r' = cleanup_forwarders (c_forwarders (d_connections d ! i)) (d_registry d)"
  shows "(case attached r' sid of None \<Rightarrow> True | Some t \<Rightarrow> (sid, t) \<notin> set (c_forwarders (d_connections d ! i))) \<and>
    (attached (d_registry d) sid = Some t \<and> (sid, t) \<in> set (c_forwarders (d_connections d ! j)) \<longrightarrow> attached r' sid = Some t)"
proof -
  note o = ownedD [OF reachable_owned [OF assms(1,2)]]
  have "(sid, t) \<notin> set (c_forwarders (d_connections d ! i))" if "(sid, t) \<in> set (c_forwarders (d_connections d ! j))"
    using o(1) [of i "(sid, t)" j] that assms(3-5) by (auto simp: has_def)
  then show ?thesis by (auto simp: assms(6) cleanup_attached split: option.splits)
qed

theorem cleanup_spares_other_connections_witness:
  "attached (cleanup_forwarders (c_forwarders (d_connections demo_daemon ! 1)) (d_registry demo_daemon)) 1 = Some 1"
proof -
  have "r_next_id (d_registry demo_daemon) \<noteq> 2 ^ 64 - 1" "1 < length (d_connections demo_daemon)" "0 < length (d_connections demo_daemon)"
    by (simp_all add: demo_daemon_state)
  from cleanup_spares_other_connections [OF demo_daemon_reachable this _ refl, of 1 1]
  show ?thesis by (simp add: demo_daemon_state)
qed

section \<open>Answers\<close>

lemma envs_next_token: "session_envs pd advance pe s s' \<Longrightarrow> o_next_token (s_output s') = o_next_token (s_output s)"
proof (induction rule: rtranclp_induct)
  case (step s1 s2)
  from step(2) have "o_next_token (s_output s2) = o_next_token (s_output s1)"
    by (induction rule: session_env.induct) (auto simp: read_chunk_def close_output_def Let_def split: option.split)
  then show ?case using step(3) by simp
qed simp

lemma resized_next_token: "o_next_token (s_output (resized ok cols rows s)) = o_next_token (s_output s)"
  by (simp add: resized_def session_resize_def split: option.split)

lemma session_attach_total:
  "o_next_token (s_output s) \<noteq> 2 ^ 64 - 1 \<Longrightarrow> \<exists>res s'. session_attach_with_snapshot lines s = Some (res, s')"
  by (simp add: session_attach_with_snapshot_def Let_def)

lemma tokens_left_session: "tokens_left r \<Longrightarrow> get_session r sid = Some s \<Longrightarrow> o_next_token (s_output s) \<noteq> 2 ^ 64 - 1"
  using get_session_mem [of r sid s] by (fastforce simp: tokens_left_def)

lemma attach_total:
  assumes "tokens_left r"
  shows "\<exists>x. attach_with_snapshot sid lines r = Some x"
proof (cases "get_session r sid")
  case (Some s)
  obtain res s' where "session_attach_with_snapshot (min lines SNAPSHOT_MAX_SCROLLBACK_LINES) s = Some (res, s')"
    using session_attach_total [OF tokens_left_session [OF assms Some]] by blast
  then show ?thesis by (simp add: attach_with_snapshot_def Some)
qed (simp add: attach_with_snapshot_def)

lemma ensure_total:
  assumes r: "registry_wf r" "tokens_left r" and env: "\<And>s. session_envs pd advance pe s (env1 s)"
  shows "\<exists>x. ensure_with_context pe parser launched ok env1 env2 cols rows w p name lines r = Some x"
proof (cases r rule: check_cases)
  case accepted
  from live_with_key [OF r(1), of w p] show ?thesis
  proof (elim disjE exE conjE)
    fix sid s
    assume m: "map fst (filter (\<lambda>(_, s). has_key w p s \<and> alive s) (r_sessions r)) = [sid]" and g: "get_session r sid = Some s"
    let ?s = "env1 (resized ok cols rows s)"
    have "o_next_token (s_output ?s) \<noteq> 2 ^ 64 - 1"
      using tokens_left_session [OF r(2) g] unfolding envs_next_token [OF env] resized_next_token .
    then obtain att s2 where "session_attach_with_snapshot (min lines SNAPSHOT_MAX_SCROLLBACK_LINES) ?s = Some (att, s2)"
      using session_attach_total by blast
    then show ?thesis
      unfolding ensure_with_context_def accepted(1) sum.case Let_def m list.case g bind.bind_lunit
        resized_def [symmetric] prepared_def [symmetric] prepared_wf(2) [OF r(1) g env] by simp
  qed (simp add: ensure_with_context_def accepted(1) Let_def)
qed (simp add: ensure_with_context_def)

definition error_codes :: "rstr set" where
  "error_codes = str_lit ` {''session_not_found'', ''session_dead'', ''session_key_ambiguous'', ''io_error'', ''spawn_failed''}"

lemma error_code_known [simp]: "error_code e \<in> error_codes" "str_lit ''spawn_failed'' \<in> error_codes"
  by (simp_all add: error_codes_def error_code_def split: io_kind.split)

lemma quadruple: "\<exists>a b c e. x = (a, b, c, e)"
  by (cases x) auto

text \<open>C13: Every request of a connection is answered once, whatever the table holds: the answer carries the id
of the request, an error one of the codes the client knows, and the connection goes on unless the answer
could not be written or says that the daemon ends. The daemon is never taken down by a request as long as
no session has used up its tokens.\<close>

theorem every_request_is_answered:
  assumes "(daemon_step pd advance (h_pe h))\<^sup>*\<^sup>* new_daemon d" and "tokens_left (d_registry d)"
    and "\<And>s. session_envs pd advance (h_pe h) s (h_env1 h s)"
  shows "\<exists>res resp r' fw'. handle h req (d_registry d) fw = Some (res, resp, r', fw') \<and>
    response_id resp = request_id req \<and>
    res = (case h_send h resp of Inl e \<Rightarrow> Inl e
           | Inr _ \<Rightarrow> Inr (if resp = ShutdownAck (request_id req) True None then ShutdownRequested else Continue)) \<and>
    (case resp of Error _ code _ \<Rightarrow> code \<in> error_codes
     | _ \<Rightarrow> True)"
proof -
  let ?r = "d_registry d"
  have wf: "registry_wf ?r" using reachable_daemon_wf [OF assms(1)] by (simp add: daemon_wf_def)
  note E = ensure_total [OF wf assms(2,3)]
  have "\<exists>x. handle h req ?r fw = Some x"
  proof (cases req)
    case (EnsureSession i cols rows cwd shell args w p name corr lines)
    obtain x r1 where "ensure_with_context (h_pe h) (h_parser h) (h_launch h cwd shell args corr) (h_resize_ok h) (h_env1 h)
        (h_env2 h) cols rows w p name (min (unat lines) SNAPSHOT_MAX_SCROLLBACK_LINES) ?r = Some (x, r1)"
      using E by (metis surj_pair)
    then show ?thesis by (cases x) (simp_all add: EnsureSession Let_def quadruple)
  next
    case (AttachSession i sid lines)
    obtain x r1 where "attach_with_snapshot sid (min (unat lines) SNAPSHOT_MAX_SCROLLBACK_LINES) ?r = Some (x, r1)"
      using attach_total [OF assms(2)] by (metis surj_pair)
    then show ?thesis by (cases x) (auto simp: AttachSession Let_def quadruple)
  qed (auto simp: Let_def quadruple split: prod.splits sum.splits bool.splits)
  then obtain res resp r' fw' where h: "handle h req ?r fw = Some (res, resp, r', fw')" by (metis surj_pair)
  have "response_id resp = request_id req \<and>
    res = (case h_send h resp of Inl e \<Rightarrow> Inl e
           | Inr _ \<Rightarrow> Inr (if resp = ShutdownAck (request_id req) True None then ShutdownRequested else Continue)) \<and>
    (case resp of Error _ code _ \<Rightarrow> code \<in> error_codes
     | _ \<Rightarrow> True)"
    using h by (cases req) (auto simp: answer_def stop_answer_def done_answer_def error_response_def Let_def
        split: prod.splits sum.splits option.splits bool.splits)
  then show ?thesis using h by blast
qed

theorem every_request_is_answered_witness:
  "\<exists>res resp r' fw'. handle demo_host (AttachSession 9 1 50) (d_registry demo_daemon) [] = Some (res, resp, r', fw') \<and>
     response_id resp = 9"
proof -
  have "(daemon_step () ascii_parser (h_pe demo_host))\<^sup>*\<^sup>* new_daemon demo_daemon"
    using demo_daemon_reachable by (simp add: demo_host_def)
  from every_request_is_answered [OF this demo_daemon_state(5), of "AttachSession 9 1 50" "[]"]
  show ?thesis by (force simp: demo_host_def simp del: handle.simps)
qed

end
