(* ===== verification/Layout.thy ===== *)
theory Layout
  imports Rust_Str Complex_Main
begin

text \<open>
  The layout state of the application (src/src/state.rs): the tabs of a workspace, the grid of
  panes of each tab with the shares of the window its rows and columns take, the pane that has
  the focus, and the tables of what stands behind a pane (a terminal, an editor, a flow view).
  The state keeps the layout of the tab in front twice: live in fields of its own, and as it was
  last saved in the tab. The shares are \<open>f32\<close> in the code and rational numbers here: halving and
  adding are exact, which is the one idealisation of this theory. \<open>None\<close> is a panic (an index out
  of range, or \<open>clamp\<close> with crossed bounds). The explorer, toasts, diagnostics and telemetry
  the handlers also feed are no part of the layout and are left out.
\<close>

section \<open>Vectors\<close>

definition vec_insert_at :: "nat \<Rightarrow> 'a \<Rightarrow> 'a list \<Rightarrow> 'a list option" where
  "vec_insert_at i x xs = (if i \<le> length xs then Some (take i xs @ x # drop i xs) else None)"

definition vec_remove :: "nat \<Rightarrow> 'a list \<Rightarrow> 'a list option" where
  "vec_remove i xs = (if i < length xs then Some (take i xs @ drop (Suc i) xs) else None)"

section \<open>Data\<close>

datatype tab_status = Running | Idle | Stopped

record pane =
  pane_id :: u32
  pane_title :: rstr
  pane_subtitle :: rstr
  pane_pid :: u32
  pane_cpu :: rat
  pane_mem :: "64 word"

record tab =
  tab_id :: rstr
  tab_name :: rstr
  tab_subtitle :: rstr
  tab_status :: tab_status
  tab_panes :: "pane list list"
  tab_active_pane :: u32
  tab_row_ratios :: "rat list"
  tab_col_ratios :: "rat list list"

record workspace =
  ws_num :: u32
  ws_tabs :: "tab list"
  ws_active_tab :: nat

record app =
  tabs :: "tab list"
  active_tab :: nat
  panes :: "pane list list"
  active_pane :: u32
  row_ratios :: "rat list"
  col_ratios :: "rat list list"
  next_id :: u32
  terminals :: "u32 set"
  pty_sessions :: "u32 set"
  editors :: "u32 set"
  flows :: "u32 set"
  custom_titled_panes :: "u32 set"
  attention_pane_ids :: "u32 set"
  pane_agents :: "u32 set"
  agent_restarts :: "u32 set"
  pending_agent_resumes :: "u32 set"
  agent_resume_attempts :: "u32 set"
  agent_resume_preflights :: "u32 set"
  flow_pending :: "u32 set"
  workspaces :: "workspace list"
  active_workspace :: nat

definition MAX_COLS :: nat where "MAX_COLS = 4"
definition MAX_ROWS :: nat where "MAX_ROWS = 4"
definition MIN_PANE_RATIO :: rat where "MIN_PANE_RATIO = 1 / 10"

definition shell_pane :: "u32 \<Rightarrow> rstr \<Rightarrow> rstr \<Rightarrow> pane" where
  "shell_pane i title subtitle = \<lparr>pane_id = i, pane_title = title, pane_subtitle = subtitle,
     pane_pid = 0, pane_cpu = 0, pane_mem = 0\<rparr>"

text \<open>The tab a single pane gets: \<open>format!("t{}", id)\<close> for its id, and the whole of the window.\<close>

definition tab_of_pane :: "rstr \<Rightarrow> rstr \<Rightarrow> tab_status \<Rightarrow> pane \<Rightarrow> tab" where
  "tab_of_pane name subtitle status p = \<lparr>tab_id = 116 # show_nat (unat (pane_id p)), tab_name = name,
     tab_subtitle = subtitle, tab_status = status, tab_panes = [[p]], tab_active_pane = pane_id p,
     tab_row_ratios = [1], tab_col_ratios = [[1]]\<rparr>"

definition is_agent_pane :: "app \<Rightarrow> u32 \<Rightarrow> bool" where
  "is_agent_pane s i \<longleftrightarrow> i \<in> agent_restarts s \<or> i \<in> pane_agents s"

definition pane_ids :: "pane list list \<Rightarrow> u32 list" where
  "pane_ids ps = map pane_id (concat ps)"

section \<open>Finding a pane\<close>

fun find_col :: "u32 \<Rightarrow> nat \<Rightarrow> pane list \<Rightarrow> nat option" where
  "find_col t c [] = None"
| "find_col t c (p # ps) = (if pane_id p = t then Some c else find_col t (Suc c) ps)"

fun find_row :: "u32 \<Rightarrow> nat \<Rightarrow> pane list list \<Rightarrow> (nat \<times> nat) option" where
  "find_row t r [] = None"
| "find_row t r (row # rows) = (case find_col t 0 row of
     Some c \<Rightarrow> Some (r, c) | None \<Rightarrow> find_row t (Suc r) rows)"

definition find_pane_coord :: "app \<Rightarrow> u32 \<Rightarrow> (nat \<times> nat) option" where
  "find_pane_coord s t = find_row t 0 (panes s)"

definition pane_at :: "pane list list \<Rightarrow> nat \<Rightarrow> nat \<Rightarrow> pane option" where
  "pane_at ps r c = do { row \<leftarrow> nth_opt ps r; nth_opt row c }"

definition workspace_active_pane :: "app \<Rightarrow> nat \<Rightarrow> u32 option" where
  "workspace_active_pane s w = (if w = active_workspace s
     then do { t \<leftarrow> nth_opt (tabs s) (active_tab s);
               if find_pane_coord s (tab_active_pane t) \<noteq> None then Some (tab_active_pane t) else None }
     else do { ws \<leftarrow> nth_opt (workspaces s) w; t \<leftarrow> nth_opt (ws_tabs ws) (ws_active_tab ws);
               if tab_active_pane t \<in> set (pane_ids (tab_panes t)) then Some (tab_active_pane t) else None })"

section \<open>Saving and loading the tab in front\<close>

definition live_tab :: "app \<Rightarrow> tab \<Rightarrow> tab" where
  "live_tab s t = t\<lparr>tab_panes := panes s, tab_active_pane := active_pane s,
     tab_row_ratios := row_ratios s, tab_col_ratios := col_ratios s\<rparr>"

definition save_tab_state :: "app \<Rightarrow> app" where
  "save_tab_state s = (if length (tabs s) \<le> active_tab s then s
     else s\<lparr>tabs := (tabs s)[active_tab s := live_tab s (tabs s ! active_tab s)]\<rparr>)"

definition sync_live_tab_from_panes :: "app \<Rightarrow> app" where
  "sync_live_tab_from_panes s = (if active_tab s < length (tabs s)
     then s\<lparr>tabs := (tabs s)[active_tab s := live_tab s (tabs s ! active_tab s)]\<rparr> else s)"

definition load_tab_state :: "app \<Rightarrow> app option" where
  "load_tab_state s = do { t \<leftarrow> nth_opt (tabs s) (active_tab s);
     Some (s\<lparr>panes := tab_panes t, active_pane := tab_active_pane t,
             row_ratios := tab_row_ratios t, col_ratios := tab_col_ratios t\<rparr>) }"

definition focus_tab_group :: "bool \<Rightarrow> app \<Rightarrow> app option" where
  "focus_tab_group agents s = (if is_agent_pane s (active_pane s) \<noteq> agents
     then case List.find (\<lambda>p. is_agent_pane s (pane_id p) = agents) (concat (panes s)) of
       None \<Rightarrow> Some s
     | Some p \<Rightarrow> do { t \<leftarrow> nth_opt (tabs s) (active_tab s);
         Some (s\<lparr>active_pane := pane_id p,
                 tabs := (tabs s)[active_tab s := t\<lparr>tab_active_pane := pane_id p\<rparr>]\<rparr>) }
     else Some s)"

definition mutate_switch_tab :: "nat \<Rightarrow> app \<Rightarrow> app option" where
  "mutate_switch_tab new_index s = (if length (tabs s) \<le> new_index \<or> new_index = active_tab s then Some s
     else do { let agents = is_agent_pane s (active_pane s);
               s1 \<leftarrow> load_tab_state ((save_tab_state s)\<lparr>active_tab := new_index\<rparr>);
               let s2 = s1\<lparr>attention_pane_ids := attention_pane_ids s1 - set (pane_ids (panes s1))\<rparr>;
               focus_tab_group agents s2 })"

text \<open>The tab to show after a removal: the slot itself, then the later ones, then the earlier ones.\<close>

definition tab_in_group :: "app \<Rightarrow> bool \<Rightarrow> nat \<Rightarrow> bool" where
  "tab_in_group s agents i = (\<exists>p \<in> set (concat (tab_panes (tabs s ! i))). is_agent_pane s (pane_id p) = agents)"

definition load_tab_after_close :: "bool \<Rightarrow> app \<Rightarrow> app option" where
  "load_tab_after_close agents s = (if tabs s = [] then None
     else do { let start = min (active_tab s) (length (tabs s) - 1);
               let i = (case List.find (tab_in_group s agents) ([start..<length (tabs s)] @ rev [0..<start]) of
                          Some i \<Rightarrow> i | None \<Rightarrow> start);
               s1 \<leftarrow> load_tab_state (s\<lparr>active_tab := i\<rparr>);
               focus_tab_group agents s1 })"

definition grouped_tab_indices :: "tab list \<Rightarrow> nat \<Rightarrow> pane list list \<Rightarrow> u32 \<Rightarrow> (u32 \<Rightarrow> bool) \<Rightarrow> nat list" where
  "grouped_tab_indices ts front live ap is_agent =
     [i \<leftarrow> [0..<length ts]. i = front \<or>
        (\<exists>p \<in> set (concat (if i = front then live else tab_panes (ts ! i))). is_agent (pane_id p) = is_agent ap)]"

definition clear_live :: "app \<Rightarrow> app" where
  "clear_live s = s\<lparr>active_tab := 0, panes := [], active_pane := 0, row_ratios := [], col_ratios := []\<rparr>"

definition save_workspace_state :: "app \<Rightarrow> app" where
  "save_workspace_state s = (let s1 = save_tab_state s in
     if length (workspaces s1) \<le> active_workspace s1 then s1
     else s1\<lparr>workspaces := (workspaces s1)[active_workspace s1 :=
       (workspaces s1 ! active_workspace s1)\<lparr>ws_tabs := tabs s1, ws_active_tab := active_tab s1\<rparr>]\<rparr>)"

definition load_workspace_state :: "app \<Rightarrow> app option" where
  "load_workspace_state s = (if length (workspaces s) \<le> active_workspace s then Some s
     else let ws = workspaces s ! active_workspace s in
       if ws_tabs ws = [] then Some (clear_live (s\<lparr>tabs := []\<rparr>))
       else load_tab_state (s\<lparr>tabs := ws_tabs ws, active_tab := min (ws_active_tab ws) (length (ws_tabs ws) - 1)\<rparr>))"

definition mutate_switch_workspace :: "nat \<Rightarrow> app \<Rightarrow> app option" where
  "mutate_switch_workspace new_index s =
     (if length (workspaces s) \<le> new_index \<or> new_index = active_workspace s then Some s
      else load_workspace_state ((save_workspace_state s)\<lparr>active_workspace := new_index\<rparr>))"

section \<open>Adding tabs\<close>

text \<open>
  A new pane takes \<open>next_id\<close>. \<open>spawned\<close> says whether the pseudo terminal could be started; the
  terminal is there in both cases (with the error printed on it).
\<close>

definition take_id :: "app \<Rightarrow> u32 \<times> app" where
  "take_id s = (next_id s, s\<lparr>next_id := next_id s + 1\<rparr>)"

definition spawn_terminal :: "bool \<Rightarrow> u32 \<Rightarrow> app \<Rightarrow> app" where
  "spawn_terminal spawned i s = s\<lparr>terminals := insert i (terminals s),
     pty_sessions := (if spawned then insert i (pty_sessions s) else pty_sessions s)\<rparr>"

definition push_tab :: "tab \<Rightarrow> pane \<Rightarrow> app \<Rightarrow> app" where
  "push_tab t p s = s\<lparr>tabs := tabs s @ [t], active_tab := length (tabs s), panes := [[p]],
     active_pane := pane_id p, row_ratios := [1], col_ratios := [[1]]\<rparr>"

definition mutate_add_tab :: "bool \<Rightarrow> app \<Rightarrow> app" where
  "mutate_add_tab spawned s0 = (let (i, s1) = take_id (save_tab_state s0);
       s2 = spawn_terminal spawned i s1;
       p = shell_pane i (str_lit ''shell'') (str_lit ''bash'')
     in push_tab (tab_of_pane (str_lit ''shell'') (str_lit ''bash'') Running p) p s2)"

definition mutate_add_editor_tab :: "bool \<Rightarrow> rstr \<Rightarrow> app \<Rightarrow> u32 \<times> app" where
  "mutate_add_editor_tab is_diff title s0 = (let (i, s1) = take_id (save_tab_state s0);
       subtitle = (if is_diff then str_lit ''diff'' else str_lit ''editor'');
       s2 = s1\<lparr>editors := insert i (editors s1)\<rparr>;
       p = shell_pane i title subtitle
     in (i, push_tab (tab_of_pane title subtitle Idle p) p s2))"

definition mutate_add_flow_tab :: "rstr \<Rightarrow> app \<Rightarrow> u32 \<times> app" where
  "mutate_add_flow_tab title s0 = (let (i, s1) = take_id (save_tab_state s0);
       s2 = s1\<lparr>flows := insert i (flows s1)\<rparr>;
       p = shell_pane i title (str_lit ''flow'')
     in (i, push_tab (tab_of_pane title (str_lit ''flow'') Idle p) p s2))"

section \<open>What stands behind a pane\<close>

definition forget_agent_restore :: "u32 \<Rightarrow> app \<Rightarrow> app" where
  "forget_agent_restore i s = s\<lparr>flow_pending := flow_pending s - {i}, pane_agents := pane_agents s - {i},
     attention_pane_ids := attention_pane_ids s - {i}, agent_restarts := agent_restarts s - {i},
     pending_agent_resumes := pending_agent_resumes s - {i},
     agent_resume_attempts := agent_resume_attempts s - {i},
     agent_resume_preflights := agent_resume_preflights s - {i}\<rparr>"

definition destroy_pty :: "u32 \<Rightarrow> app \<Rightarrow> app" where
  "destroy_pty i s = s\<lparr>pty_sessions := pty_sessions s - {i}\<rparr>"

definition remove_flow_pane :: "u32 \<Rightarrow> app \<Rightarrow> bool \<times> app" where
  "remove_flow_pane i s = (if i \<in> flows s then (True, s\<lparr>flows := flows s - {i}\<rparr>) else (False, s))"

text \<open>The teardown of one pane; \<open>untitle\<close> is \<open>custom_titled_panes.remove\<close>, which the workspace kill skips.\<close>

definition teardown_pane :: "bool \<Rightarrow> u32 \<Rightarrow> app \<Rightarrow> app" where
  "teardown_pane untitle i s = (if i \<in> editors s then s\<lparr>editors := editors s - {i}\<rparr>
     else case remove_flow_pane i s of (True, s1) \<Rightarrow> s1
     | (False, s1) \<Rightarrow>
         let s2 = destroy_pty i s1;
             s3 = s2\<lparr>terminals := terminals s2 - {i},
                     custom_titled_panes := (if untitle then custom_titled_panes s2 - {i} else custom_titled_panes s2)\<rparr>
         in forget_agent_restore i s3)"

section \<open>Closing a tab\<close>

definition tab_pane_ids :: "app \<Rightarrow> nat \<Rightarrow> u32 list" where
  "tab_pane_ids s i = pane_ids (if i = active_tab s then panes s else tab_panes (tabs s ! i))"

definition mutate_close_tab :: "nat \<Rightarrow> app \<Rightarrow> app option" where
  "mutate_close_tab i s = (if length (tabs s) \<le> i then Some s
     else let is_active = (active_tab s = i);
              agents = is_agent_pane s (active_pane s);
              s1 = fold (teardown_pane True) (tab_pane_ids s i) s;
              s2 = s1\<lparr>tabs := take i (tabs s1) @ drop (Suc i) (tabs s1)\<rparr>
          in if tabs s2 = [] then Some (clear_live s2)
             else if is_active
             then load_tab_after_close agents (s2\<lparr>active_tab := min i (length (tabs s2) - 1)\<rparr>)
             else if i < active_tab s2 then Some (s2\<lparr>active_tab := active_tab s2 - 1\<rparr>)
             else Some s2)"

section \<open>The grid of panes\<close>

text \<open>
  The blocks the handlers repeat: a pane takes half the column share of its neighbour
  (\<open>insert_beside\<close>) or a row of its own takes half the share of a row (\<open>insert_row\<close>); a pane that
  leaves gives its share to the neighbour before it, and a row that becomes empty likewise
  (\<open>detach_pane\<close>).
\<close>

type_synonym pane_grid = "pane list list \<times> rat list \<times> rat list list"

definition insert_beside :: "nat \<Rightarrow> nat \<Rightarrow> nat \<Rightarrow> pane \<Rightarrow> pane_grid \<Rightarrow> pane_grid option" where
  "insert_beside r c pos p = (\<lambda>(ps, rr, cr). do {
     crow \<leftarrow> nth_opt cr r;
     existing \<leftarrow> nth_opt crow c;
     crow' \<leftarrow> vec_insert_at pos (existing / 2) (crow[c := existing / 2]);
     prow \<leftarrow> nth_opt ps r;
     prow' \<leftarrow> vec_insert_at pos p prow;
     Some (ps[r := prow'], rr, cr[r := crow']) })"

definition insert_row :: "nat \<Rightarrow> nat \<Rightarrow> pane \<Rightarrow> pane_grid \<Rightarrow> pane_grid option" where
  "insert_row r pos p = (\<lambda>(ps, rr, cr). do {
     existing \<leftarrow> nth_opt rr r;
     rr' \<leftarrow> vec_insert_at pos (existing / 2) (rr[r := existing / 2]);
     cr' \<leftarrow> vec_insert_at pos [1] cr;
     ps' \<leftarrow> vec_insert_at pos [p] ps;
     Some (ps', rr', cr') })"

definition absorb_share :: "nat \<Rightarrow> rat \<Rightarrow> rat list \<Rightarrow> rat list option" where
  "absorb_share i freed rs = (if rs = [] then Some rs
     else do { let k = (if 0 < i then i - 1 else 0); v \<leftarrow> nth_opt rs k; Some (rs[k := v + freed]) })"

definition detach_pane :: "nat \<Rightarrow> nat \<Rightarrow> pane_grid \<Rightarrow> pane_grid option" where
  "detach_pane r c = (\<lambda>(ps, rr, cr). do {
     crow \<leftarrow> nth_opt cr r;
     freed \<leftarrow> nth_opt crow c;
     crow1 \<leftarrow> vec_remove c crow;
     crow2 \<leftarrow> absorb_share c freed crow1;
     prow \<leftarrow> nth_opt ps r;
     prow1 \<leftarrow> vec_remove c prow;
     if prow1 = [] then do {
       freed_row \<leftarrow> nth_opt rr r;
       rr1 \<leftarrow> vec_remove r rr;
       cr1 \<leftarrow> vec_remove r cr;
       rr2 \<leftarrow> absorb_share r freed_row rr1;
       ps1 \<leftarrow> vec_remove r ps;
       Some (ps1, rr2, cr1) }
     else Some (ps[r := prow1], rr, cr[r := crow2]) })"

definition grid_of :: "app \<Rightarrow> pane_grid" where
  "grid_of s = (panes s, row_ratios s, col_ratios s)"

definition set_grid :: "pane_grid \<Rightarrow> app \<Rightarrow> app" where
  "set_grid g s = (case g of (ps, rr, cr) \<Rightarrow> s\<lparr>panes := ps, row_ratios := rr, col_ratios := cr\<rparr>)"

section \<open>Splitting and closing panes\<close>

definition mutate_split_right :: "bool \<Rightarrow> u32 \<Rightarrow> app \<Rightarrow> app option" where
  "mutate_split_right spawned t s = (case find_pane_coord s t of None \<Rightarrow> Some s
   | Some (r, c) \<Rightarrow>
       if MAX_COLS \<le> length (panes s ! r) then Some s
       else do { let (i, s1) = take_id s;
                 let s2 = spawn_terminal spawned i s1;
                 let p = shell_pane i (str_lit ''shell'') (str_lit ''bash'');
                 g \<leftarrow> insert_beside r c (c + 1) p (grid_of s2);
                 Some ((set_grid g s2)\<lparr>active_pane := i\<rparr>) })"

definition mutate_split_down :: "bool \<Rightarrow> u32 \<Rightarrow> app \<Rightarrow> app option" where
  "mutate_split_down spawned t s = (case find_pane_coord s t of None \<Rightarrow> Some s
   | Some (r, _) \<Rightarrow>
       if MAX_ROWS \<le> length (panes s) then Some s
       else do { let (i, s1) = take_id s;
                 let s2 = spawn_terminal spawned i s1;
                 let p = shell_pane i (str_lit ''shell'') (str_lit ''bash'');
                 g \<leftarrow> insert_row r (r + 1) p (grid_of s2);
                 Some ((set_grid g s2)\<lparr>active_pane := i\<rparr>) })"

text \<open>The pane that takes the focus when the focused one at a position has left the grid.\<close>

definition refocus :: "u32 \<Rightarrow> nat \<Rightarrow> nat \<Rightarrow> app \<Rightarrow> app option" where
  "refocus t r c s = (if active_pane s = t
     then if panes s = [] then None
       else do { let r' = min r (length (panes s) - 1);
                 row \<leftarrow> nth_opt (panes s) r';
                 if row = [] then None
                 else do { p \<leftarrow> nth_opt row (min c (length row - 1)); Some (s\<lparr>active_pane := pane_id p\<rparr>) } }
     else Some s)"

definition mutate_close_pane :: "u32 \<Rightarrow> app \<Rightarrow> app option" where
  "mutate_close_pane t s = (case find_pane_coord s t of None \<Rightarrow> Some s
   | Some (r, c) \<Rightarrow>
       if sum_list (map length (panes s)) = 1 then mutate_close_tab (active_tab s) s
       else do { let agents = is_agent_pane s (active_pane s);
                 let closing_active = (active_pane s = t);
                 let s1 = teardown_pane True t s;
                 g \<leftarrow> detach_pane r c (grid_of s1);
                 s2 \<leftarrow> refocus t r c (set_grid g s1);
                 let s3 = sync_live_tab_from_panes s2;
                 if closing_active then load_tab_after_close agents s3 else Some s3 })"

section \<open>Moving the focus\<close>

definition focus_at :: "nat \<Rightarrow> nat \<Rightarrow> app \<Rightarrow> app option" where
  "focus_at r c s = do { p \<leftarrow> pane_at (panes s) r c;
     Some (sync_live_tab_from_panes (s\<lparr>active_pane := pane_id p\<rparr>)) }"

definition mutate_focus_left :: "app \<Rightarrow> app option" where
  "mutate_focus_left s = (case find_pane_coord s (active_pane s) of None \<Rightarrow> Some s
   | Some (r, c) \<Rightarrow> if c = 0 then Some s else focus_at r (c - 1) s)"

definition mutate_focus_right :: "app \<Rightarrow> app option" where
  "mutate_focus_right s = (case find_pane_coord s (active_pane s) of None \<Rightarrow> Some s
   | Some (r, c) \<Rightarrow> if length (panes s ! r) \<le> c + 1 then Some s else focus_at r (c + 1) s)"

definition mutate_focus_up :: "app \<Rightarrow> app option" where
  "mutate_focus_up s = (case find_pane_coord s (active_pane s) of None \<Rightarrow> Some s
   | Some (r, c) \<Rightarrow> if r = 0 then Some s
       else focus_at (r - 1) (min c (length (panes s ! (r - 1)) - 1)) s)"

definition mutate_focus_down :: "app \<Rightarrow> app option" where
  "mutate_focus_down s = (case find_pane_coord s (active_pane s) of None \<Rightarrow> Some s
   | Some (r, c) \<Rightarrow> if length (panes s) \<le> r + 1 then Some s
       else focus_at (r + 1) (min c (length (panes s ! (r + 1)) - 1)) s)"

end
