(* ===== verification/Layout_Move.thy ===== *)
theory Layout_Move
  imports Layout
begin

text \<open>
  The operations of the layout that rearrange panes and tabs (drag and drop), the drag of a
  divider, the removal of panes in bulk (emptying a workspace, killing a session, restoring a
  subset), and the list of all operations the invariant is proved for.
\<close>

section \<open>Drag and drop\<close>

datatype drop_zone = ZLeft | ZRight | ZTop | ZBottom | ZCenter

fun zone_name :: "drop_zone \<Rightarrow> rstr" where
  "zone_name ZLeft = str_lit ''left''"
| "zone_name ZRight = str_lit ''right''"
| "zone_name ZTop = str_lit ''top''"
| "zone_name ZBottom = str_lit ''bottom''"
| "zone_name ZCenter = str_lit ''center''"

definition zone_from_name :: "rstr \<Rightarrow> drop_zone option" where
  "zone_from_name x =
     (if x = str_lit ''left'' then Some ZLeft else if x = str_lit ''right'' then Some ZRight
      else if x = str_lit ''top'' then Some ZTop else if x = str_lit ''bottom'' then Some ZBottom
      else if x = str_lit ''center'' then Some ZCenter else None)"

definition detach_active :: "u32 \<Rightarrow> nat \<Rightarrow> nat \<Rightarrow> app \<Rightarrow> app option" where
  "detach_active t r c s = do {
     g \<leftarrow> detach_pane r c (grid_of s);
     s1 \<leftarrow> refocus t r c (set_grid g s);
     Some (sync_live_tab_from_panes s1) }"

definition mutate_extract_pane_to_tab :: "u32 \<Rightarrow> nat \<Rightarrow> app \<Rightarrow> app option" where
  "mutate_extract_pane_to_tab t new_index s = (case find_pane_coord s t of None \<Rightarrow> Some s
   | Some (r, c) \<Rightarrow> do {
       p \<leftarrow> pane_at (panes s) r c;
       let single = (sum_list (map length (panes s)) = 1);
       s1 \<leftarrow> (if single
         then do { ts \<leftarrow> vec_remove (active_tab s) (tabs s);
                   Some (s\<lparr>tabs := ts, panes := [], row_ratios := [], col_ratios := []\<rparr>) }
         else detach_active t r c s);
       let adjusted = (if single \<and> active_tab s < new_index then new_index - 1 else new_index);
       let pos = min adjusted (length (tabs s1));
       ts \<leftarrow> vec_insert_at pos (tab_of_pane (pane_title p) (pane_subtitle p) Running p) (tabs s1);
       load_tab_state (s1\<lparr>tabs := ts, active_tab := pos\<rparr>) })"

fun tab_position :: "rstr \<Rightarrow> nat \<Rightarrow> tab list \<Rightarrow> nat option" where
  "tab_position x i [] = None"
| "tab_position x i (t # ts) = (if tab_id t = x then Some i else tab_position x (Suc i) ts)"

definition mutate_tab_reorder :: "rstr \<Rightarrow> nat \<Rightarrow> app \<Rightarrow> app option" where
  "mutate_tab_reorder source new_index s = (case tab_position source 0 (tabs s) of None \<Rightarrow> Some s
   | Some old \<Rightarrow>
       let clamped = min new_index (length (tabs s));
           adjusted = (if old < clamped then clamped - 1 else clamped)
       in if adjusted = old then Some s
       else do { front \<leftarrow> nth_opt (tabs s) (active_tab s);
                 t \<leftarrow> nth_opt (tabs s) old;
                 ts \<leftarrow> vec_remove old (tabs s);
                 ts' \<leftarrow> vec_insert_at (min adjusted (length ts)) t ts;
                 Some (s\<lparr>tabs := ts', active_tab :=
                   (case tab_position (tab_id front) 0 ts' of Some i \<Rightarrow> i | None \<Rightarrow> 0)\<rparr>) })"

text \<open>Where a dropped pane goes; \<open>ZCenter\<close> is the \<open>return\<close> of the code.\<close>

definition insert_at_edge :: "drop_zone \<Rightarrow> nat \<Rightarrow> nat \<Rightarrow> pane \<Rightarrow> pane_grid \<Rightarrow> pane_grid option" where
  "insert_at_edge z r c p g = (case z of
     ZLeft \<Rightarrow> insert_beside r c c p g
   | ZRight \<Rightarrow> insert_beside r c (c + 1) p g
   | ZTop \<Rightarrow> insert_row r r p g
   | ZBottom \<Rightarrow> insert_row r (r + 1) p g
   | ZCenter \<Rightarrow> Some g)"

definition land_pane :: "drop_zone \<Rightarrow> nat \<Rightarrow> nat \<Rightarrow> pane \<Rightarrow> u32 \<Rightarrow> app \<Rightarrow> app option" where
  "land_pane z r c p focus s = (if z = ZCenter then Some s
     else do { g \<leftarrow> insert_at_edge z r c p (grid_of s);
               Some (sync_live_tab_from_panes ((set_grid g s)\<lparr>active_pane := focus\<rparr>)) })"

definition mutate_pane_drop_split :: "rstr \<Rightarrow> u32 \<Rightarrow> drop_zone \<Rightarrow> app \<Rightarrow> app option" where
  "mutate_pane_drop_split source t z s = (case tab_position source 0 (tabs s) of None \<Rightarrow> Some s
   | Some i \<Rightarrow>
       if i = active_tab s then Some s
       else if sum_list (map length (tab_panes (tabs s ! i))) \<noteq> 1 then Some s
       else do { p \<leftarrow> pane_at (tab_panes (tabs s ! i)) 0 0;
         if pane_id p = t then Some s
         else case find_pane_coord s t of None \<Rightarrow> Some s
         | Some (r, c) \<Rightarrow> do {
             ts \<leftarrow> vec_remove i (tabs s);
             land_pane z r c p (pane_id p)
               (s\<lparr>tabs := ts, active_tab := (if i < active_tab s then active_tab s - 1 else active_tab s)\<rparr>) } })"

definition mutate_pane_move_to_edge :: "u32 \<Rightarrow> u32 \<Rightarrow> drop_zone \<Rightarrow> app \<Rightarrow> app option" where
  "mutate_pane_move_to_edge source t z s = (if source = t \<or> z = ZCenter then Some s
     else case find_pane_coord s source of None \<Rightarrow> Some s
     | Some (sr, sc) \<Rightarrow>
         if find_pane_coord s t = None then Some s
         else do { p \<leftarrow> pane_at (panes s) sr sc;
                   g \<leftarrow> detach_pane sr sc (grid_of s);
                   let s1 = set_grid g s;
                   case find_pane_coord s1 t of None \<Rightarrow> Some s1
                   | Some (r, c) \<Rightarrow> land_pane z r c p source s1 })"

definition set_pane :: "nat \<Rightarrow> nat \<Rightarrow> pane \<Rightarrow> pane list list \<Rightarrow> pane list list option" where
  "set_pane r c p ps = do { row \<leftarrow> nth_opt ps r; row' \<leftarrow> update_opt row c p; update_opt ps r row' }"

definition mutate_pane_swap :: "u32 \<Rightarrow> u32 \<Rightarrow> app \<Rightarrow> app option" where
  "mutate_pane_swap a b s = (if a = b then Some s
     else case find_pane_coord s a of None \<Rightarrow> Some s
     | Some (ar, ac) \<Rightarrow> (case find_pane_coord s b of None \<Rightarrow> Some s
       | Some (br, bc) \<Rightarrow> do {
           pa \<leftarrow> pane_at (panes s) ar ac;
           pb \<leftarrow> pane_at (panes s) br bc;
           ps1 \<leftarrow> set_pane ar ac pb (panes s);
           ps2 \<leftarrow> set_pane br bc pa ps1;
           Some (sync_live_tab_from_panes (s\<lparr>panes := ps2, active_pane := a\<rparr>)) }))"

definition mutate_pane_swap_from_tab :: "rstr \<Rightarrow> u32 \<Rightarrow> app \<Rightarrow> app option" where
  "mutate_pane_swap_from_tab source t s = (case tab_position source 0 (tabs s) of None \<Rightarrow> Some s
   | Some i \<Rightarrow>
       if i = active_tab s then Some s
       else if sum_list (map length (tab_panes (tabs s ! i))) \<noteq> 1 then Some s
       else do { p \<leftarrow> pane_at (tab_panes (tabs s ! i)) 0 0;
         if pane_id p = t then Some s
         else case find_pane_coord s t of None \<Rightarrow> Some s
         | Some (r, c) \<Rightarrow> do {
             q \<leftarrow> pane_at (panes s) r c;
             ps \<leftarrow> set_pane r c p (panes s);
             ts \<leftarrow> set_pane 0 0 q (tab_panes (tabs s ! i));
             Some (sync_live_tab_from_panes
               (s\<lparr>panes := ps, active_pane := pane_id p,
                  tabs := (tabs s)[i := (tabs s ! i)\<lparr>tab_panes := ts, tab_active_pane := t\<rparr>]\<rparr>)) } })"

section \<open>Dragging a divider\<close>

text \<open>\<open>f32::clamp\<close> panics when its bounds are crossed.\<close>

definition rat_clamp :: "rat \<Rightarrow> rat \<Rightarrow> rat \<Rightarrow> rat option" where
  "rat_clamp lo hi x = (if hi < lo then None else Some (if x < lo then lo else if hi < x then hi else x))"

definition apply_ratio_delta :: "rat list \<Rightarrow> nat \<Rightarrow> nat \<Rightarrow> rat list \<Rightarrow> rat \<Rightarrow> rat \<Rightarrow> rat list option" where
  "apply_ratio_delta ratios before after initial delta_px container_px =
     (if container_px \<le> 0 then Some ratios
      else do {
        let delta = delta_px / container_px * sum_list initial;
        a \<leftarrow> nth_opt initial before;
        b \<leftarrow> nth_opt initial after;
        let pair_sum = a + b;
        new_before \<leftarrow> rat_clamp MIN_PANE_RATIO (pair_sum - MIN_PANE_RATIO) (a + delta);
        ratios1 \<leftarrow> update_opt ratios before new_before;
        update_opt ratios1 after (pair_sum - new_before) })"

text \<open>
  One update of a drag (the closures of the two resizers in src/src/ui/terminal_grid.rs), from the
  snapshot \<open>initial\<close> taken when it began.
\<close>

definition drag_row_divider :: "nat \<Rightarrow> rat list \<Rightarrow> rat \<Rightarrow> rat \<Rightarrow> app \<Rightarrow> app option" where
  "drag_row_divider before initial delta_px container_px s = do {
     rr \<leftarrow> apply_ratio_delta (row_ratios s) before (before + 1) initial delta_px container_px;
     Some (s\<lparr>row_ratios := rr\<rparr>) }"

definition drag_col_divider :: "nat \<Rightarrow> nat \<Rightarrow> rat list \<Rightarrow> rat \<Rightarrow> rat \<Rightarrow> app \<Rightarrow> app option" where
  "drag_col_divider r before initial delta_px container_px s = do {
     crow \<leftarrow> nth_opt (col_ratios s) r;
     crow' \<leftarrow> apply_ratio_delta crow before (before + 1) initial delta_px container_px;
     Some (s\<lparr>col_ratios := (col_ratios s)[r := crow']\<rparr>) }"

section \<open>Removing panes in bulk\<close>

definition mutate_kill_workspace_terminals :: "nat \<Rightarrow> app \<Rightarrow> app" where
  "mutate_kill_workspace_terminals w s = (if length (workspaces s) \<le> w then s
     else let ids = (if w = active_workspace s
              then pane_ids (panes s) @
                   concat (map (\<lambda>i. pane_ids (tab_panes (tabs s ! i))) [i \<leftarrow> [0..<length (tabs s)]. i \<noteq> active_tab s])
              else concat (map (\<lambda>t. pane_ids (tab_panes t)) (ws_tabs (workspaces s ! w))));
            s1 = fold (teardown_pane False) ids s;
            s2 = (if w = active_workspace s1 then clear_live (s1\<lparr>tabs := []\<rparr>) else s1)
          in s2\<lparr>workspaces := (workspaces s2)[w := (workspaces s2 ! w)\<lparr>ws_tabs := [], ws_active_tab := 0\<rparr>]\<rparr>)"

definition prune_rows :: "u32 \<Rightarrow> pane list list \<Rightarrow> pane list list" where
  "prune_rows i ps = filter (\<lambda>row. row \<noteq> []) (map (filter (\<lambda>p. pane_id p \<noteq> i)) ps)"

definition prune_tab :: "u32 \<Rightarrow> tab \<Rightarrow> tab" where
  "prune_tab i t = t\<lparr>tab_panes := prune_rows i (tab_panes t)\<rparr>"

definition prune_pane_from_layouts :: "u32 \<Rightarrow> app \<Rightarrow> app" where
  "prune_pane_from_layouts i s0 = (let s = forget_agent_restore i s0 in
     s\<lparr>panes := prune_rows i (panes s),
       tabs := (if active_tab s < length (tabs s)
                then (tabs s)[active_tab s := prune_tab i (tabs s ! active_tab s)] else tabs s),
       workspaces := map (\<lambda>w. w\<lparr>ws_tabs := map (prune_tab i) (ws_tabs w)\<rparr>) (workspaces s)\<rparr>)"

text \<open>The branch of \<open>mutate_kill_session_id\<close> for a session that a pane shows.\<close>

definition kill_pane_session :: "u32 \<Rightarrow> app \<Rightarrow> app" where
  "kill_pane_session i s = (let s1 = destroy_pty i s
     in prune_pane_from_layouts i (s1\<lparr>terminals := terminals s1 - {i}\<rparr>))"

text \<open>
  Keeping a subset of a tab's panes: the shares of what stays, \<open>1\<close> where a saved share is missing
  or not positive. The result is \<open>None\<close> when nothing stays (the code answers \<open>false\<close>, and the
  caller drops the tab).
\<close>

definition positive_or_one :: "rat option \<Rightarrow> rat" where
  "positive_or_one v = (case v of Some x \<Rightarrow> if 0 < x then x else 1 | None \<Rightarrow> 1)"

fun retain_cols :: "u32 set \<Rightarrow> rat list \<Rightarrow> nat \<Rightarrow> pane list \<Rightarrow> (pane \<times> rat) list" where
  "retain_cols kept shares c [] = []"
| "retain_cols kept shares c (p # ps) =
     (if pane_id p \<in> kept then (p, positive_or_one (nth_opt shares c)) # retain_cols kept shares (Suc c) ps
      else retain_cols kept shares (Suc c) ps)"

fun retain_rows :: "u32 set \<Rightarrow> rat list \<Rightarrow> rat list list \<Rightarrow> nat \<Rightarrow> pane list list \<Rightarrow> (pane list \<times> rat \<times> rat list) list" where
  "retain_rows kept rr cr r [] = []"
| "retain_rows kept rr cr r (row # rows) =
     (let shares = (case nth_opt cr r of Some xs \<Rightarrow> xs | None \<Rightarrow> []);
          stay = retain_cols kept shares 0 row
      in if stay = [] then retain_rows kept rr cr (Suc r) rows
         else (map fst stay, positive_or_one (nth_opt rr r), map snd stay) # retain_rows kept rr cr (Suc r) rows)"

definition retain_tab_panes :: "u32 set \<Rightarrow> tab \<Rightarrow> tab option" where
  "retain_tab_panes kept t =
     (let rows = retain_rows kept (tab_row_ratios t) (tab_col_ratios t) 0 (tab_panes t);
          ps = map fst rows
      in if ps = [] then None
         else Some (t\<lparr>tab_panes := ps, tab_row_ratios := map (fst \<circ> snd) rows, tab_col_ratios := map (snd \<circ> snd) rows,
                     tab_active_pane := (if tab_active_pane t \<in> set (pane_ids ps) then tab_active_pane t
                                         else pane_id (hd (hd ps)))\<rparr>))"

definition normalized_row_ratios :: "pane list list \<Rightarrow> rat list \<Rightarrow> rat list" where
  "normalized_row_ratios ps saved =
     (if length saved = length ps \<and> (\<forall>r \<in> set saved. 0 < r) then saved else replicate (length ps) 1)"

definition normalized_col_ratios :: "pane list list \<Rightarrow> rat list list \<Rightarrow> rat list list" where
  "normalized_col_ratios ps saved =
     (if length saved = length ps \<and>
         (\<forall>(row, prow) \<in> set (zip saved ps). length row = length prow \<and> (\<forall>r \<in> set row. 0 < r))
      then saved else map (\<lambda>row. replicate (length row) 1) ps)"

end
