(* ===== verification/Layout_Grid.thy ===== *)
theory Layout_Grid
  imports Layout_Move "HOL-Library.Multiset"
begin

text \<open>
  The grid of one tab: what makes it well formed (\<open>grid_ok\<close>: shares as many as rows and panes, no
  row empty, every share positive), and what the building blocks of the layout operations do to
  it: they never fail on a position that exists, they add or take exactly the pane they are given,
  and they keep the sum of the shares of the rows, and of the columns of every other row.
\<close>

section \<open>Vectors\<close>

lemma mset_insert_at [simp]: "mset (take i xs @ x # drop i xs) = add_mset x (mset xs)"
  by (metis append_take_drop_id mset.simps(2) mset_append union_mset_add_mset_right)

lemma vec_insert_at_Some [simp]: "i \<le> length xs \<Longrightarrow> vec_insert_at i x xs = Some (take i xs @ x # drop i xs)"
  by (simp add: vec_insert_at_def)

lemma vec_remove_Some [simp]: "i < length xs \<Longrightarrow> vec_remove i xs = Some (take i xs @ drop (Suc i) xs)"
  by (simp add: vec_remove_def)

lemma mset_remove_at: "i < length xs \<Longrightarrow> mset xs = add_mset (xs ! i) (mset (take i xs @ drop (Suc i) xs))"
  by (metis id_take_nth_drop mset.simps(2) mset_append union_mset_add_mset_right)

lemma mset_concat_update:
  assumes "i < length xs"
  shows "mset (concat (xs[i := y])) + mset (xs ! i) = mset (concat xs) + mset y"
proof -
  have "mset (concat xs) = mset (concat (take i xs)) + mset (xs ! i) + mset (concat (drop (Suc i) xs))"
    using assms by (metis (no_types, lifting) ab_semigroup_add_class.add_ac(1) concat.simps(2) concat_append id_take_nth_drop mset_append)
  then show ?thesis using assms by (simp add: upd_conv_take_nth_drop)
qed

lemma mset_concat_remove:
  assumes "i < length xs"
  shows "mset (concat xs) = mset (xs ! i) + mset (concat (take i xs @ drop (Suc i) xs))"
  using mset_concat_update [OF assms, of "[]"] assms by (simp add: upd_conv_take_nth_drop add.commute)

lemma sum_insert_at [simp]: "sum_list (take i xs @ x # drop i xs) = x + sum_list (xs :: rat list)"
proof -
  have "sum_list xs = sum_list (take i xs) + sum_list (drop i xs)"
    by (metis append_take_drop_id sum_list_append)
  then show ?thesis by simp
qed

lemma sum_remove_at: "i < length xs \<Longrightarrow> sum_list xs = xs ! i + sum_list (take i xs @ drop (Suc i) xs)" for xs :: "rat list"
  by (subst id_take_nth_drop, assumption) simp

lemma sum_update: "i < length xs \<Longrightarrow> sum_list (xs[i := v]) = sum_list xs + v - xs ! i" for xs :: "rat list"
  using sum_remove_at [of i xs] by (simp add: upd_conv_take_nth_drop)

lemma set_remove_subset: "set (take i xs @ drop (Suc i) xs) \<subseteq> set xs"
  by (auto dest: in_set_takeD in_set_dropD)

lemma list_all2_insert_at:
  "list_all2 P xs ys \<Longrightarrow> P x y \<Longrightarrow> list_all2 P (take i xs @ x # drop i xs) (take i ys @ y # drop i ys)"
  by (intro list_all2_appendI) (auto intro: list_all2_takeI list_all2_dropI)

lemma list_all2_remove_at:
  "list_all2 P xs ys \<Longrightarrow> list_all2 P (take i xs @ drop (Suc i) xs) (take i ys @ drop (Suc i) ys)"
  by (intro list_all2_appendI) (auto intro: list_all2_takeI list_all2_dropI)

section \<open>Well-formed grids\<close>

definition row_ok :: "pane list \<Rightarrow> rat list \<Rightarrow> bool" where
  "row_ok row shares \<longleftrightarrow> row \<noteq> [] \<and> length shares = length row \<and> (\<forall>x \<in> set shares. 0 < x)"

definition grid_ok :: "pane_grid \<Rightarrow> bool" where
  "grid_ok g \<longleftrightarrow> (case g of (ps, rr, cr) \<Rightarrow>
     length rr = length ps \<and> (\<forall>x \<in> set rr. 0 < x) \<and> list_all2 row_ok ps cr)"

lemma grid_ok_lengths:
  assumes "grid_ok (ps, rr, cr)"
  shows "length rr = length ps" and "length cr = length ps"
    and "r < length ps \<Longrightarrow> row_ok (ps ! r) (cr ! r)"
  using assms by (auto simp: grid_ok_def list_all2_conv_all_nth)

lemma row_ok_insert:
  assumes "row_ok row shares" and "c < length row" and "pos \<le> length row"
  shows "row_ok (take pos row @ p # drop pos row)
    (take pos (shares[c := shares ! c / 2]) @ shares ! c / 2 # drop pos (shares[c := shares ! c / 2]))"
proof -
  have "0 < shares ! c" using assms by (auto simp: row_ok_def)
  then show ?thesis using assms by (auto simp: row_ok_def dest!: in_set_takeD in_set_dropD dest: set_update_subset_insert [THEN subsetD])
qed

lemma sum_halved:
  fixes shares :: "rat list"
  assumes "c < length shares"
  shows "sum_list (take pos (shares[c := shares ! c / 2]) @ shares ! c / 2 # drop pos (shares[c := shares ! c / 2])) = sum_list shares"
  using assms by (simp only: sum_insert_at) (simp add: sum_update)

lemma insert_beside_ok:
  assumes g: "grid_ok (ps, rr, cr)" and r: "r < length ps" and c: "c < length (ps ! r)" and pos: "pos \<le> length (ps ! r)"
  obtains ps' cr' where "insert_beside r c pos p (ps, rr, cr) = Some (ps', rr, cr')"
    and "grid_ok (ps', rr, cr')" and "ps' \<noteq> []" and "mset (concat ps') = add_mset p (mset (concat ps))"
    and "map sum_list cr' = map sum_list cr"
proof -
  let ?row = "take pos (ps ! r) @ p # drop pos (ps ! r)"
  let ?sh = "(cr ! r)[c := cr ! r ! c / 2]"
  let ?shares = "take pos ?sh @ cr ! r ! c / 2 # drop pos ?sh"
  note L = grid_ok_lengths [OF g]
  have ok: "row_ok (ps ! r) (cr ! r)" using L r by simp
  then have l: "length (cr ! r) = length (ps ! r)" by (simp add: row_ok_def)
  have "insert_beside r c pos p (ps, rr, cr) = Some (ps[r := ?row], rr, cr[r := ?shares])"
    using L r c l pos by (simp add: insert_beside_def)
  moreover have "grid_ok (ps[r := ?row], rr, cr[r := ?shares])"
    using g row_ok_insert [OF ok c pos, of p] by (auto simp: grid_ok_def intro: list_all2_update_cong)
  moreover have "mset (concat (ps[r := ?row])) = add_mset p (mset (concat ps))"
    using mset_concat_update [OF r, of ?row] by (simp only: mset_insert_at) simp
  moreover have "map sum_list (cr[r := ?shares]) = map sum_list cr"
    using sum_halved [of c "cr ! r" pos] c l L(2) r by (simp add: map_update list_update_same_conv)
  ultimately show thesis using that r by (metis length_0_conv length_list_update less_nat_zero_code)
qed

lemma insert_row_ok:
  assumes g: "grid_ok (ps, rr, cr)" and r: "r < length ps" and pos: "pos \<le> length ps"
  obtains ps' rr' cr' where "insert_row r pos p (ps, rr, cr) = Some (ps', rr', cr')"
    and "grid_ok (ps', rr', cr')" and "ps' \<noteq> []" and "mset (concat ps') = add_mset p (mset (concat ps))"
    and "sum_list rr' = sum_list rr"
proof -
  let ?sh = "rr[r := rr ! r / 2]"
  let ?rr = "take pos ?sh @ rr ! r / 2 # drop pos ?sh"
  let ?cr = "take pos cr @ [1] # drop pos cr"
  let ?ps = "take pos ps @ [p] # drop pos ps"
  note L = grid_ok_lengths [OF g]
  have half: "0 < rr ! r / 2" using g r L(1) by (auto simp: grid_ok_def)
  have "insert_row r pos p (ps, rr, cr) = Some (?ps, ?rr, ?cr)"
    using L r pos by (simp add: insert_row_def)
  moreover have "grid_ok (?ps, ?rr, ?cr)"
  proof -
    have "\<forall>x \<in> set ?rr. 0 < x"
      using g half L(1) r by (auto simp: grid_ok_def dest!: in_set_takeD in_set_dropD dest: set_update_subset_insert [THEN subsetD])
    moreover have "list_all2 row_ok ?ps ?cr"
      using g by (intro list_all2_insert_at) (auto simp: grid_ok_def row_ok_def)
    ultimately show ?thesis using L pos by (simp add: grid_ok_def)
  qed
  moreover have "mset (concat ?ps) = add_mset p (mset (concat ps))"
  proof -
    have "mset (concat ps) = mset (concat (take pos ps)) + mset (concat (drop pos ps))"
      by (metis append_take_drop_id concat_append mset_append)
    then show ?thesis by simp
  qed
  moreover have "sum_list ?rr = sum_list rr" using L r by (intro sum_halved) simp
  ultimately show thesis using that by blast
qed

lemma absorb_share_ok:
  assumes "length rs = n" and "i \<le> n" and "\<forall>x \<in> set rs. 0 < x" and "0 < freed"
  obtains rs' where "absorb_share i freed rs = Some rs'" and "length rs' = n" and "\<forall>x \<in> set rs'. 0 < x"
    and "rs \<noteq> [] \<Longrightarrow> sum_list rs' = freed + sum_list rs"
proof (cases "rs = []")
  case True
  then show ?thesis using assms that [of "[]"] by (simp add: absorb_share_def)
next
  case False
  let ?k = "if 0 < i then i - 1 else 0"
  have k: "?k < length rs" using assms False by auto
  have pos: "0 < rs ! ?k + freed" using assms(3,4) k by (meson add_pos_pos nth_mem)
  have "absorb_share i freed rs = Some (rs[?k := rs ! ?k + freed])"
    using False nth_opt_Some [OF k] by (simp add: absorb_share_def Let_def split: if_splits)
  moreover have "\<forall>x \<in> set (rs[?k := rs ! ?k + freed]). 0 < x"
    using assms(3) pos by (auto dest: set_update_subset_insert [THEN subsetD])
  moreover have "sum_list (rs[?k := rs ! ?k + freed]) = freed + sum_list rs" using k by (simp add: sum_update)
  ultimately show ?thesis using assms(1) that by simp
qed


lemma detach_pane_ok:
  assumes g: "grid_ok (ps, rr, cr)" and r: "r < length ps" and c: "c < length (ps ! r)"
  obtains ps' rr' cr' where "detach_pane r c (ps, rr, cr) = Some (ps', rr', cr')"
    and "grid_ok (ps', rr', cr')" and "mset (concat ps) = add_mset (ps ! r ! c) (mset (concat ps'))"
    and "ps' \<noteq> [] \<Longrightarrow> sum_list rr' = sum_list rr"
proof -
  note L = grid_ok_lengths [OF g]
  let ?sh = "take c (cr ! r) @ drop (Suc c) (cr ! r)"
  define row where "row = take c (ps ! r) @ drop (Suc c) (ps ! r)"
  have row: "vec_remove c (ps ! r) = Some row" using c by (simp add: row_def)
  have ok: "row_ok (ps ! r) (cr ! r)" using L r by simp
  then have l: "length (cr ! r) = length (ps ! r)" and pos: "\<forall>x \<in> set (cr ! r). 0 < x" by (auto simp: row_ok_def)
  have lsh: "length ?sh = length (ps ! r) - 1" using l c by simp
  have freed: "0 < cr ! r ! c" using pos c l by simp
  obtain sh where sh: "absorb_share c (cr ! r ! c) ?sh = Some sh" and shl: "length sh = length (ps ! r) - 1" and shp: "\<forall>x \<in> set sh. 0 < x"
  proof -
    have "\<forall>x \<in> set ?sh. 0 < x" using pos set_remove_subset [of c "cr ! r"] by blast
    moreover have "c \<le> length (ps ! r) - 1" using c by simp
    ultimately show thesis using absorb_share_ok [OF lsh _ _ freed] that by metis
  qed
  have rem: "mset (ps ! r) = add_mset (ps ! r ! c) (mset row)" unfolding row_def by (rule mset_remove_at [OF c])
  show thesis
  proof (cases "row = []")
    case False
    have "detach_pane r c (ps, rr, cr) = Some (ps[r := row], rr, cr[r := sh])"
      using L r c l sh False row by (simp add: detach_pane_def del: vec_remove_Some) (simp add: vec_remove_def)
    moreover have "row_ok row sh" using False shl shp c by (auto simp: row_ok_def row_def)
    then have "grid_ok (ps[r := row], rr, cr[r := sh])"
      using g by (auto simp: grid_ok_def intro: list_all2_update_cong)
    moreover have "mset (concat ps) = add_mset (ps ! r ! c) (mset (concat (ps[r := row])))"
      using mset_concat_update [OF r, of row] by (simp only: rem) simp
    ultimately show thesis using that by blast
  next
    case True
    let ?ps = "take r ps @ drop (Suc r) ps"
    let ?rr = "take r rr @ drop (Suc r) rr"
    let ?cr = "take r cr @ drop (Suc r) cr"
    have lrr: "length ?rr = length ps - 1" using L r by simp
    have rrpos: "\<forall>x \<in> set ?rr. 0 < x" using g set_remove_subset [of r rr] by (auto simp: grid_ok_def)
    have fr: "0 < rr ! r" using g r L by (auto simp: grid_ok_def)
    obtain rr2 where rr2: "absorb_share r (rr ! r) ?rr = Some rr2" and l2: "length rr2 = length ps - 1"
      and p2: "\<forall>x \<in> set rr2. 0 < x" and s2: "?rr \<noteq> [] \<Longrightarrow> sum_list rr2 = rr ! r + sum_list ?rr"
    proof -
      have "r \<le> length ps - 1" using r by simp
      then show thesis using absorb_share_ok [OF lrr _ rrpos fr] that by metis
    qed
    have "detach_pane r c (ps, rr, cr) = Some (?ps, rr2, ?cr)"
      using L r c l sh True rr2 row by (simp add: detach_pane_def)
    moreover have "grid_ok (?ps, rr2, ?cr)"
      using g l2 p2 r by (auto simp: grid_ok_def intro: list_all2_remove_at)
    moreover have "mset (concat ps) = add_mset (ps ! r ! c) (mset (concat ?ps))"
      using mset_concat_remove [OF r] rem True by simp
    moreover have "sum_list rr2 = sum_list rr" if "?ps \<noteq> []"
    proof -
      have "0 < length ?ps" using that by blast
      then have "1 < length ps" using r by (simp add: min_absorb2)
      then have "?rr \<noteq> []" using lrr by (metis diff_is_0_eq length_0_conv not_less)
      then show ?thesis using s2 sum_remove_at [of r rr] r L by simp
    qed
    ultimately show thesis using that by blast
  qed
qed

section \<open>Positions\<close>

lemma find_col_Some: "find_col t c0 row = Some c \<Longrightarrow> c0 \<le> c \<and> c - c0 < length row \<and> pane_id (row ! (c - c0)) = t"
proof (induction row arbitrary: c0)
  case (Cons p row)
  show ?case
  proof (cases "pane_id p = t")
    case False
    then have "Suc c0 \<le> c \<and> c - Suc c0 < length row \<and> pane_id (row ! (c - Suc c0)) = t"
      using Cons by simp
    then show ?thesis by (auto simp: nth_Cons')
  qed (use Cons.prems in auto)
qed simp

lemma find_col_None: "find_col t c0 row = None \<longleftrightarrow> t \<notin> pane_id ` set row"
  by (induction row arbitrary: c0) auto

lemma find_row_Some:
  "find_row t r0 ps = Some (r, c) \<Longrightarrow>
   r0 \<le> r \<and> r - r0 < length ps \<and> c < length (ps ! (r - r0)) \<and> pane_id (ps ! (r - r0) ! c) = t"
proof (induction ps arbitrary: r0)
  case (Cons row ps)
  show ?case
  proof (cases "find_col t 0 row")
    case None
    then have "Suc r0 \<le> r \<and> r - Suc r0 < length ps \<and> c < length (ps ! (r - Suc r0)) \<and> pane_id (ps ! (r - Suc r0) ! c) = t"
      using Cons by simp
    then show ?thesis by (auto simp: nth_Cons' Suc_diff_Suc)
  next
    case (Some c')
    then show ?thesis using Cons.prems find_col_Some [OF Some] by auto
  qed
qed simp

lemma find_row_None: "find_row t r0 ps = None \<longleftrightarrow> t \<notin> set (pane_ids ps)"
  by (induction ps arbitrary: r0) (auto simp: pane_ids_def find_col_None split: option.splits dest: find_col_Some)

lemma find_pane_coord_Some:
  assumes "find_pane_coord s t = Some (r, c)"
  shows "r < length (panes s)" and "c < length (panes s ! r)" and "pane_id (panes s ! r ! c) = t"
  using find_row_Some [of t 0 "panes s" r c] assms by (auto simp: find_pane_coord_def)

lemma find_pane_coord_None: "find_pane_coord s t = None \<longleftrightarrow> t \<notin> set (pane_ids (panes s))"
  by (simp add: find_pane_coord_def find_row_None)

lemma pane_at_Some [simp]: "r < length ps \<Longrightarrow> c < length (ps ! r) \<Longrightarrow> pane_at ps r c = Some (ps ! r ! c)"
  by (simp add: pane_at_def)

lemma pane_at_member: "r < length ps \<Longrightarrow> c < length (ps ! r) \<Longrightarrow> ps ! r ! c \<in> set (concat ps)"
  by simp (metis nth_mem)

lemma total_length: "sum_list (map length ps) = size (mset (concat ps))"
  by (induction ps) auto

text \<open>A grid with one pane is that pane's row.\<close>

lemma single_pane_grid:
  assumes "grid_ok (ps, rr, cr)" and "sum_list (map length ps) = 1"
  obtains p where "ps = [[p]]"
proof -
  have ne: "\<forall>row \<in> set ps. row \<noteq> []"
    using grid_ok_lengths(3) [OF assms(1)] by (metis in_set_conv_nth row_ok_def)
  show thesis
  proof (cases ps)
    case (Cons row rest)
    then have "1 \<le> length row" using ne by (cases row) auto
    moreover have "rest = []"
    proof (rule ccontr)
      assume "rest \<noteq> []"
      then have "1 \<le> length (hd rest)" using ne Cons by (cases rest; cases "hd rest") auto
      then show False using assms(2) Cons \<open>1 \<le> length row\<close> \<open>rest \<noteq> []\<close> by (cases rest) auto
    qed
    ultimately show thesis using that assms(2) Cons by (cases row) auto
  qed (use assms in simp)
qed

end
