(* ===== verification/Layout_Inv.thy ===== *)
theory Layout_Inv
  imports Layout_Grid
begin

text \<open>
  What the layout operations keep. The tab in front lives twice in the state, so everything is
  said over the tabs as they would be saved now (\<open>live_tabs\<close>) and over the tabs of the
  other workspaces: each has a well-formed grid that holds its focused pane; no pane id occurs
  twice, ids stay below the next one, and every pane is backed by exactly one terminal, editor or
  flow view, with nothing left over. \<open>layout_of\<close> and \<open>tables_of\<close> are the two halves of the state that
  shape and ids depend on.
\<close>

section \<open>The abstract view\<close>

definition live_tabs :: "app \<Rightarrow> tab list" where
  "live_tabs s = tabs (save_tab_state s)"

definition other_tabs :: "app \<Rightarrow> tab list" where
  "other_tabs s = concat (map ws_tabs (take (active_workspace s) (workspaces s) @
     drop (Suc (active_workspace s)) (workspaces s)))"

definition panes_of_tabs :: "tab list \<Rightarrow> pane multiset" where
  "panes_of_tabs ts = mset (concat (map (\<lambda>t. concat (tab_panes t)) ts))"

definition all_panes :: "app \<Rightarrow> pane multiset" where
  "all_panes s = panes_of_tabs (live_tabs s @ other_tabs s)"

definition pool :: "app \<Rightarrow> u32 multiset" where
  "pool s = image_mset pane_id (all_panes s)"

definition layout_of :: "app \<Rightarrow> (tab list \<times> nat \<times> pane_grid \<times> u32) \<times> workspace list \<times> nat" where
  "layout_of s = ((tabs s, active_tab s, grid_of s, active_pane s), workspaces s, active_workspace s)"

definition tables_of :: "app \<Rightarrow> u32 \<times> u32 set \<times> u32 set \<times> u32 set" where
  "tables_of s = (next_id s, terminals s, editors s, flows s)"

section \<open>The invariant\<close>

definition tab_ok :: "tab \<Rightarrow> bool" where
  "tab_ok t \<longleftrightarrow> grid_ok (tab_panes t, tab_row_ratios t, tab_col_ratios t) \<and> tab_panes t \<noteq> [] \<and>
     tab_active_pane t \<in> set (pane_ids (tab_panes t))"

definition front_ok :: "app \<Rightarrow> bool" where
  "front_ok s \<longleftrightarrow> (if tabs s = [] then panes s = [] \<and> row_ratios s = [] \<and> col_ratios s = []
     else active_tab s < length (tabs s))"

definition ws_ok :: "app \<Rightarrow> bool" where
  "ws_ok s \<longleftrightarrow> workspaces s = [] \<or> active_workspace s < length (workspaces s)"

definition shape_ok :: "app \<Rightarrow> bool" where
  "shape_ok s \<longleftrightarrow> front_ok s \<and> ws_ok s \<and> (\<forall>t \<in> set (live_tabs s @ other_tabs s). tab_ok t)"

definition ids_ok :: "u32 multiset \<Rightarrow> app \<Rightarrow> bool" where
  "ids_ok M s \<longleftrightarrow> (\<forall>x. count M x \<le> 1) \<and> (\<forall>x \<in> set_mset M. x < next_id s) \<and>
     terminals s \<union> editors s \<union> flows s = set_mset M \<and>
     terminals s \<inter> editors s = {} \<and> terminals s \<inter> flows s = {} \<and> editors s \<inter> flows s = {}"

definition app_ok :: "app \<Rightarrow> bool" where
  "app_ok s \<longleftrightarrow> shape_ok s \<and> ids_ok (pool s) s"

section \<open>What the pieces depend on\<close>

lemma live_tabs_cong: "layout_of s = layout_of s' \<Longrightarrow> live_tabs s = live_tabs s'"
  by (simp add: layout_of_def grid_of_def live_tabs_def save_tab_state_def live_tab_def)

lemma shape_cong:
  assumes "layout_of s = layout_of s'"
  shows "shape_ok s = shape_ok s'" and "all_panes s = all_panes s'" and "pool s = pool s'"
  using assms live_tabs_cong [OF assms]
  by (simp_all add: shape_ok_def front_ok_def ws_ok_def other_tabs_def all_panes_def pool_def layout_of_def grid_of_def)

lemma ids_cong: "tables_of s = tables_of s' \<Longrightarrow> ids_ok M s = ids_ok M s'"
  by (simp add: ids_ok_def tables_of_def)

lemma other_tabs_cong: "workspaces s = workspaces s' \<Longrightarrow> active_workspace s = active_workspace s' \<Longrightarrow> other_tabs s = other_tabs s'"
  by (simp add: other_tabs_def)

lemma layout_teardown [simp]: "layout_of (teardown_pane u i s) = layout_of s"
  by (simp add: layout_of_def grid_of_def teardown_pane_def remove_flow_pane_def destroy_pty_def forget_agent_restore_def Let_def split: prod.split)

lemma layout_teardowns [simp]: "layout_of (fold (teardown_pane u) is s) = layout_of s"
  by (induction "is" arbitrary: s) simp_all

lemma layout_spawn [simp]: "layout_of (spawn_terminal b i (snd (take_id s))) = layout_of s"
  by (simp add: layout_of_def grid_of_def spawn_terminal_def take_id_def)

section \<open>The ids and what backs them\<close>

lemma ids_teardown:
  assumes "ids_ok (add_mset i M) s"
  shows "ids_ok M (teardown_pane u i s)"
proof -
  have "count (add_mset i M) i \<le> 1" using assms by (simp only: ids_ok_def)
  then have i: "i \<notin># M" by (simp add: count_eq_zero_iff)
  have "\<forall>x. count M x \<le> 1"
  proof
    fix x
    have "count (add_mset i M) x \<le> 1" using assms by (simp only: ids_ok_def)
    then show "count M x \<le> 1" by (simp split: if_splits)
  qed
  then show ?thesis using assms i
    by (auto simp: ids_ok_def teardown_pane_def remove_flow_pane_def destroy_pty_def forget_agent_restore_def Let_def)
qed

lemma ids_teardowns: "ids_ok (mset is + M) s \<Longrightarrow> ids_ok M (fold (teardown_pane u) is s)"
  by (induction "is" arbitrary: s) (auto intro: ids_teardown)

lemma ids_fresh: "ids_ok M s \<Longrightarrow> next_id s \<notin># M"
  by (auto simp: ids_ok_def)

lemma below_next: "next_id s + 1 \<noteq> 0 \<Longrightarrow> x < next_id s \<or> x = next_id s \<Longrightarrow> x < next_id s + (1 :: u32)"
  using unatSuc [of "next_id s"] by (auto simp: word_less_nat_alt add.commute)

lemma ids_new:
  assumes "ids_ok M s" and room: "next_id s + 1 \<noteq> 0"
    and "tables_of s' = (next_id s + 1, insert (next_id s) (terminals s), editors s, flows s) \<or>
         tables_of s' = (next_id s + 1, terminals s, insert (next_id s) (editors s), flows s) \<or>
         tables_of s' = (next_id s + 1, terminals s, editors s, insert (next_id s) (flows s))"
  shows "ids_ok (add_mset (next_id s) M) s'"
proof -
  have new: "next_id s \<notin># M" by (rule ids_fresh) (rule assms)
  have bound: "\<forall>x \<in> set_mset (add_mset (next_id s) M). x < next_id s'"
    using assms below_next [OF room] by (auto simp: ids_ok_def tables_of_def)
  have uniq: "count (add_mset (next_id s) M) x \<le> 1" for x
    using assms(1) new by (auto simp: ids_ok_def count_eq_zero_iff)
  have "next_id s \<notin> terminals s \<union> editors s \<union> flows s" using new assms(1) by (auto simp: ids_ok_def)
  then show ?thesis using assms uniq bound by (auto simp: ids_ok_def tables_of_def)
qed

section \<open>The tab in front\<close>

lemma sync_is_save: "sync_live_tab_from_panes s = save_tab_state s"
  by (simp add: sync_live_tab_from_panes_def save_tab_state_def)

lemma live_tabs_eq:
  "active_tab s < length (tabs s) \<Longrightarrow> live_tabs s = (tabs s)[active_tab s := live_tab s (tabs s ! active_tab s)]"
  by (simp add: live_tabs_def save_tab_state_def)

lemma length_live_tabs [simp]: "length (live_tabs s) = length (tabs s)"
  by (simp add: live_tabs_def save_tab_state_def)

lemma live_tabs_Nil [simp]: "live_tabs s = [] \<longleftrightarrow> tabs s = []"
  by (metis length_0_conv length_live_tabs)

lemma live_tab_live [simp]: "live_tab s (live_tab s t) = live_tab s t"
  by (simp add: live_tab_def)

lemma live_tab_fields [simp]:
  "tab_panes (live_tab s t) = panes s" "tab_active_pane (live_tab s t) = active_pane s"
  "tab_row_ratios (live_tab s t) = row_ratios s" "tab_col_ratios (live_tab s t) = col_ratios s"
  "tab_id (live_tab s t) = tab_id t"
  by (simp_all add: live_tab_def)

lemma save_fields [simp]:
  "active_tab (save_tab_state s) = active_tab s" "panes (save_tab_state s) = panes s"
  "active_pane (save_tab_state s) = active_pane s" "row_ratios (save_tab_state s) = row_ratios s"
  "col_ratios (save_tab_state s) = col_ratios s" "workspaces (save_tab_state s) = workspaces s"
  "active_workspace (save_tab_state s) = active_workspace s" "next_id (save_tab_state s) = next_id s"
  "terminals (save_tab_state s) = terminals s" "editors (save_tab_state s) = editors s"
  "flows (save_tab_state s) = flows s" "length (tabs (save_tab_state s)) = length (tabs s)"
  "tables_of (save_tab_state s) = tables_of s"
  by (simp_all add: save_tab_state_def tables_of_def)

lemma live_tabs_save [simp]: "live_tabs (save_tab_state s) = live_tabs s"
  by (simp add: live_tabs_def save_tab_state_def live_tab_def)

lemma other_tabs_save [simp]: "other_tabs (save_tab_state s) = other_tabs s"
  by (simp add: other_tabs_def)

lemma save_keeps [simp]: "shape_ok (save_tab_state s) = shape_ok s" "all_panes (save_tab_state s) = all_panes s"
  "pool (save_tab_state s) = pool s"
proof -
  have "tabs (save_tab_state s) = [] \<longleftrightarrow> tabs s = []" by (metis length_0_conv save_fields(12))
  then show "shape_ok (save_tab_state s) = shape_ok s" by (simp add: shape_ok_def front_ok_def ws_ok_def)
qed (simp_all add: all_panes_def pool_def)

lemma front_tab:
  assumes "active_tab s < length (tabs s)"
  shows "live_tabs s ! active_tab s = live_tab s (tabs s ! active_tab s)"
  using assms by (simp add: live_tabs_eq)

lemma shape_front:
  assumes "shape_ok s" and "panes s \<noteq> [] \<or> tabs s \<noteq> []"
  shows "active_tab s < length (tabs s)" and "grid_ok (grid_of s)" and "panes s \<noteq> []"
    and "active_pane s \<in> set (pane_ids (panes s))"
proof -
  show a: "active_tab s < length (tabs s)" using assms by (auto simp: shape_ok_def front_ok_def split: if_splits)
  then have "live_tab s (tabs s ! active_tab s) \<in> set (live_tabs s)"
    by (metis front_tab length_live_tabs nth_mem)
  then have "tab_ok (live_tab s (tabs s ! active_tab s))" using assms by (auto simp: shape_ok_def)
  then show "grid_ok (grid_of s)" and "panes s \<noteq> []" and "active_pane s \<in> set (pane_ids (panes s))"
    by (simp_all add: tab_ok_def grid_of_def)
qed

lemma found_front:
  assumes "shape_ok s" and "find_pane_coord s t = Some (r, c)"
  shows "active_tab s < length (tabs s)" and "grid_ok (panes s, row_ratios s, col_ratios s)" and "tabs s \<noteq> []"
proof -
  have "panes s \<noteq> []" using find_pane_coord_Some(1) [OF assms(2)] by auto
  then show "active_tab s < length (tabs s)" and "grid_ok (panes s, row_ratios s, col_ratios s)" and "tabs s \<noteq> []"
    using shape_front [OF assms(1)] by (auto simp: grid_of_def)
qed

lemma panes_of_tabs_update:
  assumes "i < length ts"
  shows "panes_of_tabs (ts[i := t]) + mset (concat (tab_panes (ts ! i))) = panes_of_tabs ts + mset (concat (tab_panes t))"
  using mset_concat_update [of i "map (\<lambda>t. concat (tab_panes t)) ts" "concat (tab_panes t)"] assms
  by (simp add: panes_of_tabs_def map_update)

lemma panes_of_tabs_remove:
  assumes "i < length ts"
  shows "panes_of_tabs ts = mset (concat (tab_panes (ts ! i))) + panes_of_tabs (take i ts @ drop (Suc i) ts)"
  using mset_concat_remove [of i "map (\<lambda>t. concat (tab_panes t)) ts"] assms
  by (simp add: panes_of_tabs_def take_map drop_map)

lemma panes_of_tabs_append [simp]: "panes_of_tabs (ts @ us) = panes_of_tabs ts + panes_of_tabs us"
  by (simp add: panes_of_tabs_def)

lemma panes_of_tabs_simps [simp]: "panes_of_tabs [] = {#}"
  "panes_of_tabs (t # ts) = mset (concat (tab_panes t)) + panes_of_tabs ts"
  by (simp_all add: panes_of_tabs_def)

text \<open>A new grid with its focus for the tab in front.\<close>

lemma set_front_grid:
  assumes s: "shape_ok s" and ne: "active_tab s < length (tabs s)"
    and g: "grid_ok (ps, rr, cr)" and ps: "ps \<noteq> []" and i: "i \<in> set (pane_ids ps)"
    and s': "layout_of s' = ((tabs s, active_tab s, (ps, rr, cr), i), workspaces s, active_workspace s)"
  shows "shape_ok s'"
    and "all_panes s' + mset (concat (panes s)) = all_panes s + mset (concat ps)"
    and "live_tabs s' = (live_tabs s)[active_tab s :=
      (live_tabs s ! active_tab s)\<lparr>tab_panes := ps, tab_active_pane := i, tab_row_ratios := rr, tab_col_ratios := cr\<rparr>]"
proof -
  let ?t = "(live_tabs s ! active_tab s)\<lparr>tab_panes := ps, tab_active_pane := i, tab_row_ratios := rr, tab_col_ratios := cr\<rparr>"
  have f: "tabs s' = tabs s" "active_tab s' = active_tab s" "panes s' = ps" "row_ratios s' = rr" "col_ratios s' = cr"
    "active_pane s' = i" "workspaces s' = workspaces s" "active_workspace s' = active_workspace s"
    using s' by (simp_all add: layout_of_def grid_of_def)
  show live: "live_tabs s' = (live_tabs s)[active_tab s := ?t]"
    using ne f by (simp add: live_tabs_eq live_tab_def)
  have other: "other_tabs s' = other_tabs s" by (rule other_tabs_cong) (simp_all add: f)
  have "tab_ok ?t" using g ps i by (simp add: tab_ok_def)
  moreover have "front_ok s'" using ne f by (auto simp: front_ok_def)
  ultimately show "shape_ok s'"
    using s other live f by (auto simp: shape_ok_def ws_ok_def dest: set_update_subset_insert [THEN subsetD])
  have "mset (concat (tab_panes (live_tabs s ! active_tab s))) = mset (concat (panes s))"
    using ne by (simp add: front_tab)
  then show "all_panes s' + mset (concat (panes s)) = all_panes s + mset (concat ps)"
    using panes_of_tabs_update [of "active_tab s" "live_tabs s" ?t] ne live other by (simp add: all_panes_def ac_simps)
qed

end
