(* ===== verification/Layout_Steps.thy ===== *)
theory Layout_Steps
  imports Layout_Inv
begin

text \<open>
  The invariant of the layout through every operation: under it none panics, each keeps it, and
  each says what happens to the panes: opening adds one, closing takes away exactly the closed
  ones, everything else keeps them all.
\<close>

text \<open>What of a tab does not depend on which of its panes has the focus.\<close>

definition tab_face :: "tab \<Rightarrow> rstr \<times> pane list list \<times> rat list \<times> rat list list" where
  "tab_face t = (tab_id t, tab_panes t, tab_row_ratios t, tab_col_ratios t)"

section \<open>Loading a tab\<close>

lemma load_tab_ok:
  assumes "active_tab s < length (tabs s)" and w: "ws_ok s" and "\<forall>t \<in> set (tabs s @ other_tabs s). tab_ok t"
  obtains s' where "load_tab_state s = Some s'" and "shape_ok s'" and "live_tabs s' = tabs s"
    and "all_panes s' = panes_of_tabs (tabs s @ other_tabs s)" and "tables_of s' = tables_of s"
    and "tabs s' = tabs s" and "active_tab s' = active_tab s" and "other_tabs s' = other_tabs s"
proof -
  let ?t = "tabs s ! active_tab s"
  let ?s = "s\<lparr>panes := tab_panes ?t, active_pane := tab_active_pane ?t, row_ratios := tab_row_ratios ?t, col_ratios := tab_col_ratios ?t\<rparr>"
  have "load_tab_state s = Some ?s" using assms(1) by (simp add: load_tab_state_def)
  moreover have "live_tab ?s ?t = ?t" by (cases ?t) (simp add: live_tab_def)
  then have live: "live_tabs ?s = tabs s" using assms(1) by (simp add: live_tabs_eq)
  moreover have o: "other_tabs ?s = other_tabs s" by (rule other_tabs_cong) simp_all
  moreover have "front_ok ?s" using assms(1) by (auto simp: front_ok_def)
  then have "shape_ok ?s" using assms(3) w live o by (simp add: shape_ok_def ws_ok_def)
  moreover have "all_panes ?s = panes_of_tabs (tabs s @ other_tabs s)" using live o by (simp add: all_panes_def)
  ultimately show thesis using that [of ?s] by (simp add: tables_of_def)
qed

lemma focus_group_ok:
  assumes s: "shape_ok s" and ne: "active_tab s < length (tabs s)"
  obtains s' where "focus_tab_group b s = Some s'" and "shape_ok s'" and "all_panes s' = all_panes s"
    and "tables_of s' = tables_of s" and "active_tab s' = active_tab s" and "panes s' = panes s"
    and "map tab_face (live_tabs s') = map tab_face (live_tabs s)"
proof (cases "is_agent_pane s (active_pane s) \<noteq> b")
  case False
  then show thesis using that [of s] s by (simp add: focus_tab_group_def)
next
  case differs: True
  show thesis
  proof (cases "List.find (\<lambda>p. is_agent_pane s (pane_id p) = b) (concat (panes s))")
    case None
    then show thesis using that [of s] s differs by (simp add: focus_tab_group_def)
  next
    case (Some p)
    have p: "p \<in> set (concat (panes s))" using Some by (metis find_Some_iff nth_mem)
    let ?t = "(tabs s ! active_tab s)\<lparr>tab_active_pane := pane_id p\<rparr>"
    let ?s = "s\<lparr>active_pane := pane_id p, tabs := (tabs s)[active_tab s := ?t]\<rparr>"
    let ?s1 = "s\<lparr>active_pane := pane_id p\<rparr>"
    have eq: "focus_tab_group b s = Some ?s" using Some differs ne by (simp add: focus_tab_group_def)
    have i: "pane_id p \<in> set (pane_ids (panes s))" using p by (auto simp: pane_ids_def)
    have pn: "panes s \<noteq> []" using p by auto
    have g: "grid_ok (panes s, row_ratios s, col_ratios s)" using shape_front(2) [OF s] pn by (simp add: grid_of_def)
    note F = set_front_grid [OF s ne g pn i, of ?s1]
    have l: "layout_of ?s1 = ((tabs s, active_tab s, (panes s, row_ratios s, col_ratios s), pane_id p), workspaces s, active_workspace s)"
      by (simp add: layout_of_def grid_of_def)
    have live: "live_tabs ?s = live_tabs ?s1" using ne by (simp add: live_tabs_eq live_tab_def)
    have o: "other_tabs ?s = other_tabs ?s1" by (rule other_tabs_cong) simp_all
    have f: "front_ok ?s" using ne by (auto simp: front_ok_def)
    have sh: "shape_ok ?s" using F(1) [OF l] live o f by (simp add: shape_ok_def ws_ok_def)
    have al: "all_panes ?s = all_panes s" using F(2) [OF l] live o by (simp add: all_panes_def)
    have "map tab_face (live_tabs ?s) = map tab_face (live_tabs s)"
      using F(3) [OF l] live ne by (simp add: map_update front_tab list_update_same_conv tab_face_def)
    then show thesis using that [OF eq sh al] by (simp add: tables_of_def)
  qed
qed

lemma front_index: "front_ok s \<Longrightarrow> tabs s \<noteq> [] \<Longrightarrow> active_tab s < length (tabs s)"
  by (simp add: front_ok_def)

lemma shape_index: "shape_ok s \<Longrightarrow> tabs s \<noteq> [] \<Longrightarrow> active_tab s < length (tabs s)"
  by (simp add: shape_ok_def front_index)

lemma after_close_ok:
  assumes "tabs s \<noteq> []" and w: "ws_ok s" and ok: "\<forall>t \<in> set (tabs s @ other_tabs s). tab_ok t"
  obtains s' where "load_tab_after_close b s = Some s'" and "shape_ok s'"
    and "all_panes s' = panes_of_tabs (tabs s @ other_tabs s)" and "tables_of s' = tables_of s"
    and "map tab_face (live_tabs s') = map tab_face (tabs s)"
proof -
  let ?start = "min (active_tab s) (length (tabs s) - 1)"
  define i where "i = (case List.find (tab_in_group s b) ([?start..<length (tabs s)] @ rev [0..<?start]) of Some i \<Rightarrow> i | None \<Rightarrow> ?start)"
  have start: "?start < length (tabs s)" using assms(1) by (cases "tabs s") auto
  have i: "i < length (tabs s)"
  proof (cases "List.find (tab_in_group s b) ([?start..<length (tabs s)] @ rev [0..<?start])")
    case (Some k)
    then have "k \<in> set ([?start..<length (tabs s)] @ rev [0..<?start])" by (metis find_Some_iff nth_mem)
    then show ?thesis using start Some by (auto simp: i_def)
  qed (use start in \<open>simp add: i_def\<close>)
  let ?s = "s\<lparr>active_tab := i\<rparr>"
  have "other_tabs ?s = other_tabs s" by (rule other_tabs_cong) simp_all
  then have ok': "\<forall>t \<in> set (tabs ?s @ other_tabs ?s). tab_ok t" using ok by simp
  have i': "active_tab ?s < length (tabs ?s)" using i by simp
  obtain s1 where L: "load_tab_state ?s = Some s1" "shape_ok s1" "live_tabs s1 = tabs ?s"
    "all_panes s1 = panes_of_tabs (tabs ?s @ other_tabs ?s)" "tables_of s1 = tables_of ?s" "tabs s1 = tabs ?s"
    "active_tab s1 = active_tab ?s"
    by (rule load_tab_ok [OF i' _ ok']) (use w in \<open>simp add: ws_ok_def\<close>)
  have s1: "load_tab_state ?s = Some s1" "shape_ok s1" "live_tabs s1 = tabs s"
    "all_panes s1 = panes_of_tabs (tabs s @ other_tabs s)" "tables_of s1 = tables_of s" "tabs s1 = tabs s" "active_tab s1 = i"
    using L \<open>other_tabs ?s = other_tabs s\<close> by (simp_all add: tables_of_def)
  obtain s2 where s2: "focus_tab_group b s1 = Some s2" "shape_ok s2" "all_panes s2 = all_panes s1" "tables_of s2 = tables_of s1"
    "map tab_face (live_tabs s2) = map tab_face (live_tabs s1)"
    using focus_group_ok [OF s1(2)] i s1 by metis
  have "load_tab_after_close b s = Some s2"
    using assms(1) s1(1) s2(1) by (simp add: load_tab_after_close_def i_def Let_def del: One_nat_def)
  then show thesis using that s1 s2 by simp
qed

section \<open>Switching\<close>

definition keeps :: "app \<Rightarrow> app option \<Rightarrow> bool" where
  "keeps s r \<longleftrightarrow> (\<exists>s'. r = Some s' \<and> shape_ok s' \<and> all_panes s' = all_panes s \<and> tables_of s' = tables_of s)"

lemma keeps_same [simp]: "shape_ok s \<Longrightarrow> keeps s (Some s)"
  by (simp add: keeps_def)

lemma keepsI: "r = Some s' \<Longrightarrow> shape_ok s' \<Longrightarrow> all_panes s' = all_panes s \<Longrightarrow> tables_of s' = tables_of s \<Longrightarrow> keeps s r"
  by (simp add: keeps_def)

lemma saved_tabs_ok: "shape_ok s \<Longrightarrow> \<forall>t \<in> set (tabs (save_tab_state s) @ other_tabs s). tab_ok t"
  by (simp add: shape_ok_def live_tabs_def)

lemma switch_tab_ok:
  assumes s: "shape_ok s"
  shows "\<exists>s'. mutate_switch_tab i s = Some s' \<and> shape_ok s' \<and> all_panes s' = all_panes s \<and> tables_of s' = tables_of s \<and>
    map tab_face (live_tabs s') = map tab_face (live_tabs s) \<and> active_tab s' = (if i < length (tabs s) then i else active_tab s)"
proof (cases "length (tabs s) \<le> i \<or> i = active_tab s")
  case True
  then show ?thesis using s by (auto simp: mutate_switch_tab_def)
next
  case False
  let ?s = "(save_tab_state s)\<lparr>active_tab := i\<rparr>"
  have o: "other_tabs ?s = other_tabs s" by (rule other_tabs_cong) simp_all
  have len: "active_tab ?s < length (tabs ?s)" using False by simp
  have ok: "\<forall>t \<in> set (tabs ?s @ other_tabs ?s). tab_ok t" using saved_tabs_ok [OF s] o by simp
  obtain s1 where s1: "load_tab_state ?s = Some s1" "shape_ok s1" "live_tabs s1 = tabs ?s" "all_panes s1 = panes_of_tabs (tabs ?s @ other_tabs ?s)"
    "tables_of s1 = tables_of ?s" "tabs s1 = tabs ?s" "active_tab s1 = active_tab ?s"
    by (rule load_tab_ok [OF len _ ok]) (use s in \<open>simp add: shape_ok_def ws_ok_def\<close>)
  let ?s2 = "s1\<lparr>attention_pane_ids := attention_pane_ids s1 - set (pane_ids (panes s1))\<rparr>"
  have l: "layout_of ?s2 = layout_of s1" by (simp add: layout_of_def grid_of_def)
  note c = shape_cong [OF l] and v = live_tabs_cong [OF l]
  have sh2: "shape_ok ?s2" and len2: "active_tab ?s2 < length (tabs ?s2)" using c s1 len by simp_all
  obtain s3 where s3: "focus_tab_group (is_agent_pane s (active_pane s)) ?s2 = Some s3" "shape_ok s3" "all_panes s3 = all_panes ?s2"
    "tables_of s3 = tables_of ?s2" "active_tab s3 = active_tab ?s2" "map tab_face (live_tabs s3) = map tab_face (live_tabs ?s2)"
    by (rule focus_group_ok [OF sh2 len2])
  have eq: "mutate_switch_tab i s = Some s3"
    using False s1(1) s3(1) by (simp add: mutate_switch_tab_def Let_def)
  have al: "all_panes s3 = all_panes s" using s1(4) s3(3) c(2) o by (simp add: all_panes_def live_tabs_def)
  have tb: "tables_of s3 = tables_of s" using s1(5) s3(4) by (simp add: tables_of_def)
  have fc: "map tab_face (live_tabs s3) = map tab_face (live_tabs s)" using s3(6) v s1(3) by (simp add: live_tabs_def)
  have ac: "active_tab s3 = (if i < length (tabs s) then i else active_tab s)" using s3(5) s1(7) False by simp
  show ?thesis using eq s3(2) al tb fc ac by blast
qed

lemma switch_tab_keeps: "shape_ok s \<Longrightarrow> keeps s (mutate_switch_tab i s)"
  using switch_tab_ok [of s i] unfolding keeps_def by blast

lemma cleared_ok:
  assumes "tabs s = []" and "ws_ok s" and "\<forall>t \<in> set (other_tabs s). tab_ok t"
  shows "shape_ok (clear_live s)" and "all_panes (clear_live s) = panes_of_tabs (other_tabs s)"
    and "tables_of (clear_live s) = tables_of s"
proof -
  have live: "live_tabs (clear_live s) = []" using assms(1) by (simp add: clear_live_def)
  have o: "other_tabs (clear_live s) = other_tabs s" by (rule other_tabs_cong) (simp_all add: clear_live_def)
  have "front_ok (clear_live s)" "ws_ok (clear_live s)" using assms by (simp_all add: front_ok_def ws_ok_def clear_live_def)
  then show "shape_ok (clear_live s)" unfolding shape_ok_def live o using assms(3) by simp
  show "all_panes (clear_live s) = panes_of_tabs (other_tabs s)" unfolding all_panes_def live o by simp
qed (simp add: clear_live_def tables_of_def)

definition ws_panes :: "workspace list \<Rightarrow> pane multiset" where
  "ws_panes ws = panes_of_tabs (concat (map ws_tabs ws))"

lemma ws_panes_remove:
  assumes "i < length ws"
  shows "ws_panes ws = panes_of_tabs (ws_tabs (ws ! i)) + ws_panes (take i ws @ drop (Suc i) ws)"
proof -
  have "ws_panes ws = ws_panes (take i ws @ ws ! i # drop (Suc i) ws)" using assms by (simp add: id_take_nth_drop [symmetric])
  then show ?thesis by (simp add: ws_panes_def add.left_commute)
qed

lemma other_tabs_panes: "panes_of_tabs (other_tabs s) = ws_panes (take (active_workspace s) (workspaces s) @ drop (Suc (active_workspace s)) (workspaces s))"
  by (simp add: other_tabs_def ws_panes_def)

lemma save_workspace_facts:
  assumes s: "shape_ok s" and w: "active_workspace s < length (workspaces s)"
  shows "ws_panes (workspaces (save_workspace_state s)) = all_panes s"
    and "\<forall>w \<in> set (workspaces (save_workspace_state s)). \<forall>t \<in> set (ws_tabs w). tab_ok t"
    and "tables_of (save_workspace_state s) = tables_of s"
    and "length (workspaces (save_workspace_state s)) = length (workspaces s)"
    and "active_workspace (save_workspace_state s) = active_workspace s"
proof -
  let ?a = "active_workspace s"
  let ?w = "(workspaces s ! ?a)\<lparr>ws_tabs := live_tabs s, ws_active_tab := active_tab s\<rparr>"
  have eq: "workspaces (save_workspace_state s) = (workspaces s)[?a := ?w]"
    using w by (simp add: save_workspace_state_def Let_def live_tabs_def)
  show "ws_panes (workspaces (save_workspace_state s)) = all_panes s"
    unfolding eq using ws_panes_remove [of ?a "(workspaces s)[?a := ?w]"] w
    by (simp add: all_panes_def other_tabs_panes)
  have "set (workspaces s) = insert (workspaces s ! ?a) (set (take ?a (workspaces s) @ drop (Suc ?a) (workspaces s)))"
    using w by (metis (no_types, lifting) id_take_nth_drop list.simps(15) set_append Un_insert_right)
  have "\<forall>w \<in> set (take ?a (workspaces s) @ drop (Suc ?a) (workspaces s)). \<forall>t \<in> set (ws_tabs w). tab_ok t"
    using s by (auto simp: shape_ok_def other_tabs_def)
  moreover have "\<forall>t \<in> set (ws_tabs ?w). tab_ok t" using s by (simp add: shape_ok_def)
  ultimately show "\<forall>w \<in> set (workspaces (save_workspace_state s)). \<forall>t \<in> set (ws_tabs w). tab_ok t"
    unfolding eq using w by (simp add: upd_conv_take_nth_drop ball_Un)
qed (auto simp: save_workspace_state_def Let_def tables_of_def save_tab_state_def)

lemma switch_workspace_keeps:
  assumes s: "shape_ok s"
  shows "keeps s (mutate_switch_workspace i s)"
proof (cases "length (workspaces s) \<le> i \<or> i = active_workspace s")
  case True
  then show ?thesis using s by (simp add: mutate_switch_workspace_def)
next
  case False
  then have w: "active_workspace s < length (workspaces s)" using s by (auto simp: shape_ok_def ws_ok_def)
  note S = save_workspace_facts [OF s w]
  let ?s = "(save_workspace_state s)\<lparr>active_workspace := i\<rparr>"
  let ?ws = "workspaces (save_workspace_state s)"
  have i: "i < length ?ws" using False S(4) by simp
  have wok: "ws_ok ?s" using i by (simp add: ws_ok_def)
  have ok: "\<forall>t \<in> set (ws_tabs (?ws ! i) @ other_tabs ?s). tab_ok t"
    using S(2) i by (auto simp: other_tabs_def dest!: in_set_takeD in_set_dropD)
  have total: "panes_of_tabs (ws_tabs (?ws ! i) @ other_tabs ?s) = all_panes s"
    using ws_panes_remove [OF i] S(1) by (simp add: other_tabs_panes)
  have eq: "mutate_switch_workspace i s = load_workspace_state ?s"
    using False by (simp add: mutate_switch_workspace_def)
  show ?thesis
  proof (cases "ws_tabs (?ws ! i) = []")
    case True
    let ?c = "?s\<lparr>tabs := []\<rparr>"
    have r: "mutate_switch_workspace i s = Some (clear_live ?c)" using eq True i by (simp add: load_workspace_state_def)
    have o: "other_tabs ?c = other_tabs ?s" by (rule other_tabs_cong) simp_all
    have "\<forall>t \<in> set (other_tabs ?c). tab_ok t" "tabs ?c = []" "ws_ok ?c" using ok o wok by (simp_all add: ws_ok_def)
    note C = cleared_ok [OF this(2,3,1)]
    have "tables_of (clear_live ?c) = tables_of s" unfolding C(3) using S(3) by (simp add: tables_of_def)
    moreover have "all_panes (clear_live ?c) = all_panes s" unfolding C(2) using total True o by simp
    ultimately show ?thesis by (intro keepsI [OF r] C(1))
  next
    case False
    let ?c = "?s\<lparr>tabs := ws_tabs (?ws ! i), active_tab := min (ws_active_tab (?ws ! i)) (length (ws_tabs (?ws ! i)) - 1)\<rparr>"
    have r: "mutate_switch_workspace i s = load_tab_state ?c" using eq False i by (simp add: load_workspace_state_def Let_def)
    have o: "other_tabs ?c = other_tabs ?s" by (rule other_tabs_cong) simp_all
    have a: "active_tab ?c < length (tabs ?c)" using False by (cases "ws_tabs (?ws ! i)") auto
    have ok': "\<forall>t \<in> set (tabs ?c @ other_tabs ?c). tab_ok t" using ok o by simp
    obtain s1 where L: "load_tab_state ?c = Some s1" "shape_ok s1" "all_panes s1 = panes_of_tabs (tabs ?c @ other_tabs ?c)"
      "tables_of s1 = tables_of ?c"
      by (rule load_tab_ok [OF a _ ok']) (use wok in \<open>simp add: ws_ok_def\<close>)
    have "all_panes s1 = all_panes s" using L(3) total o by simp
    moreover have "tables_of s1 = tables_of s" using L(4) S(3) by (simp add: tables_of_def)
    ultimately show ?thesis using L(1,2) r by (simp add: keeps_def)
  qed
qed

section \<open>Opening and splitting\<close>

text \<open>One more pane, with the next id, backed by what was opened.\<close>

definition opens :: "app \<Rightarrow> app \<Rightarrow> bool" where
  "opens s s' \<longleftrightarrow> shape_ok s' \<and> (\<exists>p. pane_id p = next_id s \<and> all_panes s' = add_mset p (all_panes s)) \<and>
     (tables_of s' = (next_id s + 1, insert (next_id s) (terminals s), editors s, flows s) \<or>
      tables_of s' = (next_id s + 1, terminals s, insert (next_id s) (editors s), flows s) \<or>
      tables_of s' = (next_id s + 1, terminals s, editors s, insert (next_id s) (flows s)))"

lemma opensI:
  "shape_ok s' \<Longrightarrow> all_panes s' = add_mset p (all_panes s) \<Longrightarrow> pane_id p = next_id s \<Longrightarrow>
    tables_of s' = (next_id s + 1, insert (next_id s) (terminals s), editors s, flows s) \<or>
    tables_of s' = (next_id s + 1, terminals s, insert (next_id s) (editors s), flows s) \<or>
    tables_of s' = (next_id s + 1, terminals s, editors s, insert (next_id s) (flows s)) \<Longrightarrow> opens s s'"
  unfolding opens_def by blast

lemma push_tab_ok:
  assumes s: "shape_ok s" and p: "pane_id p = i"
    and s1: "layout_of s1 = layout_of (save_tab_state s)"
  shows "shape_ok (push_tab (tab_of_pane n sub st p) p s1)"
    and "all_panes (push_tab (tab_of_pane n sub st p) p s1) = add_mset p (all_panes s)"
proof -
  let ?t = "tab_of_pane n sub st p"
  let ?s = "push_tab ?t p s1"
  have f: "tabs s1 = live_tabs s" "workspaces s1 = workspaces s" "active_workspace s1 = active_workspace s"
    using s1 by (simp_all add: layout_of_def live_tabs_def)
  have live: "live_tabs ?s = live_tabs s @ [?t]"
    using f by (simp add: live_tabs_eq push_tab_def live_tab_def tab_of_pane_def nth_append list_update_append)
  have o: "other_tabs ?s = other_tabs s" by (rule other_tabs_cong) (simp_all add: push_tab_def f)
  have "tab_ok ?t" by (simp add: tab_ok_def tab_of_pane_def grid_ok_def row_ok_def pane_ids_def)
  moreover have "front_ok ?s" "ws_ok ?s" using s f by (simp_all add: front_ok_def push_tab_def shape_ok_def ws_ok_def)
  ultimately show "shape_ok ?s" using s live o by (auto simp: shape_ok_def)
  show "all_panes ?s = add_mset p (all_panes s)" using live o by (simp add: all_panes_def tab_of_pane_def)
qed

lemma add_tab_opens: "shape_ok s \<Longrightarrow> opens s (mutate_add_tab b s)"
proof -
  assume s: "shape_ok s"
  let ?p = "shell_pane (next_id s) (str_lit ''shell'') (str_lit ''bash'')"
  let ?s1 = "spawn_terminal b (next_id s) (snd (take_id (save_tab_state s)))"
  have eq: "mutate_add_tab b s = push_tab (tab_of_pane (str_lit ''shell'') (str_lit ''bash'') Running ?p) ?p ?s1"
    by (simp add: mutate_add_tab_def take_id_def Let_def)
  have l: "layout_of ?s1 = layout_of (save_tab_state s)" by simp
  have i: "pane_id ?p = next_id s" by (simp add: shell_pane_def)
  have t: "tables_of (mutate_add_tab b s) = (next_id s + 1, insert (next_id s) (terminals s), editors s, flows s)"
    by (simp add: eq tables_of_def push_tab_def spawn_terminal_def take_id_def)
  show ?thesis using t unfolding eq by (intro opensI [OF push_tab_ok [OF s i l]] i) simp
qed

lemma add_editor_tab_opens: "shape_ok s \<Longrightarrow> opens s (snd (mutate_add_editor_tab d title s))"
proof -
  assume s: "shape_ok s"
  let ?sub = "if d then str_lit ''diff'' else str_lit ''editor''"
  let ?p = "shell_pane (next_id s) title ?sub"
  let ?s0 = "snd (take_id (save_tab_state s))"
  let ?s1 = "?s0\<lparr>editors := insert (next_id s) (editors ?s0)\<rparr>"
  have eq: "snd (mutate_add_editor_tab d title s) = push_tab (tab_of_pane title ?sub Idle ?p) ?p ?s1"
    by (simp add: mutate_add_editor_tab_def take_id_def Let_def)
  have l: "layout_of ?s1 = layout_of (save_tab_state s)" by (simp add: layout_of_def grid_of_def take_id_def)
  have i: "pane_id ?p = next_id s" by (simp add: shell_pane_def)
  have t: "tables_of (snd (mutate_add_editor_tab d title s)) = (next_id s + 1, terminals s, insert (next_id s) (editors s), flows s)"
    by (simp add: eq tables_of_def push_tab_def take_id_def)
  show ?thesis using t unfolding eq by (intro opensI [OF push_tab_ok [OF s i l]] i) simp
qed

lemma add_flow_tab_opens: "shape_ok s \<Longrightarrow> opens s (snd (mutate_add_flow_tab title s))"
proof -
  assume s: "shape_ok s"
  let ?p = "shell_pane (next_id s) title (str_lit ''flow'')"
  let ?s0 = "snd (take_id (save_tab_state s))"
  let ?s1 = "?s0\<lparr>flows := insert (next_id s) (flows ?s0)\<rparr>"
  have eq: "snd (mutate_add_flow_tab title s) = push_tab (tab_of_pane title (str_lit ''flow'') Idle ?p) ?p ?s1"
    by (simp add: mutate_add_flow_tab_def take_id_def Let_def)
  have l: "layout_of ?s1 = layout_of (save_tab_state s)" by (simp add: layout_of_def grid_of_def take_id_def)
  have i: "pane_id ?p = next_id s" by (simp add: shell_pane_def)
  have t: "tables_of (snd (mutate_add_flow_tab title s)) = (next_id s + 1, terminals s, editors s, insert (next_id s) (flows s))"
    by (simp add: eq tables_of_def push_tab_def take_id_def)
  show ?thesis using t unfolding eq by (intro opensI [OF push_tab_ok [OF s i l]] i) simp
qed

text \<open>The new grid of the tab in front holds one more pane, which has the focus.\<close>

lemma front_plus:
  assumes s: "shape_ok s" and ne: "active_tab s < length (tabs s)"
    and g: "grid_ok (ps, rr, cr)" and m: "mset (concat ps) = add_mset p (mset (concat (panes s)))"
    and s': "layout_of s' = ((tabs s, active_tab s, (ps, rr, cr), pane_id p), workspaces s, active_workspace s)"
  shows "shape_ok s'" and "all_panes s' = add_mset p (all_panes s)"
proof -
  have "p \<in># mset (concat ps)" using m by simp
  then have p: "p \<in> set (concat ps)" by (simp only: set_mset_mset)
  then have "ps \<noteq> []" and "pane_id p \<in> set (pane_ids ps)" by (auto simp: pane_ids_def)
  note F = set_front_grid [OF s ne g this s']
  show "shape_ok s'" by (rule F(1))
  show "all_panes s' = add_mset p (all_panes s)" using F(2) m by simp
qed

lemma split_right_opens:
  assumes s: "shape_ok s"
  obtains "mutate_split_right b t s = Some s" | s' where "mutate_split_right b t s = Some s'" and "opens s s'"
proof (cases "find_pane_coord s t")
  case None
  then show thesis using that(1) by (simp add: mutate_split_right_def)
next
  case (Some rc)
  obtain r c where rc: "find_pane_coord s t = Some (r, c)" using Some by (cases rc) auto
  note c = find_pane_coord_Some [OF rc] and f = found_front [OF s rc]
  show thesis
  proof (cases "MAX_COLS \<le> length (panes s ! r)")
    case True
    then show thesis using that(1) rc by (simp add: mutate_split_right_def)
  next
    case False
    let ?p = "shell_pane (next_id s) (str_lit ''shell'') (str_lit ''bash'')"
    let ?s2 = "spawn_terminal b (next_id s) (snd (take_id s))"
    have c1: "c + 1 \<le> length (panes s ! r)" using c by simp
    obtain ps cr where g: "insert_beside r c (c + 1) ?p (panes s, row_ratios s, col_ratios s) = Some (ps, row_ratios s, cr)"
      "grid_ok (ps, row_ratios s, cr)" "mset (concat ps) = add_mset ?p (mset (concat (panes s)))"
      by (rule insert_beside_ok [OF f(2) c(1,2) c1, of ?p])
    let ?s3 = "(set_grid (ps, row_ratios s, cr) ?s2)\<lparr>active_pane := next_id s\<rparr>"
    have i: "pane_id ?p = next_id s" by (simp add: shell_pane_def)
    have go: "grid_of ?s2 = (panes s, row_ratios s, col_ratios s)" by (simp add: grid_of_def spawn_terminal_def take_id_def)
    have eq: "mutate_split_right b t s = Some ?s3"
      using rc False g(1) by (simp add: mutate_split_right_def take_id_def Let_def go [unfolded take_id_def, simplified])
    have l: "layout_of ?s3 = ((tabs s, active_tab s, (ps, row_ratios s, cr), pane_id ?p), workspaces s, active_workspace s)"
      by (simp add: layout_of_def grid_of_def set_grid_def spawn_terminal_def take_id_def i)
    have "tables_of ?s3 = (next_id s + 1, insert (next_id s) (terminals s), editors s, flows s)"
      by (simp add: tables_of_def set_grid_def spawn_terminal_def take_id_def)
    then have "opens s ?s3" using front_plus [OF s f(1) g(2,3) l] i unfolding opens_def by blast
    then show thesis using that(2) eq by blast
  qed
qed

lemma split_down_opens:
  assumes s: "shape_ok s"
  obtains "mutate_split_down b t s = Some s" | s' where "mutate_split_down b t s = Some s'" and "opens s s'"
proof (cases "find_pane_coord s t")
  case None
  then show thesis using that(1) by (simp add: mutate_split_down_def)
next
  case (Some rc)
  obtain r c where rc: "find_pane_coord s t = Some (r, c)" using Some by (cases rc) auto
  note c = find_pane_coord_Some [OF rc] and f = found_front [OF s rc]
  show thesis
  proof (cases "MAX_ROWS \<le> length (panes s)")
    case True
    then show thesis using that(1) rc by (simp add: mutate_split_down_def)
  next
    case False
    let ?p = "shell_pane (next_id s) (str_lit ''shell'') (str_lit ''bash'')"
    let ?s2 = "spawn_terminal b (next_id s) (snd (take_id s))"
    have r1: "r + 1 \<le> length (panes s)" using c by simp
    obtain ps rr cr where g: "insert_row r (r + 1) ?p (panes s, row_ratios s, col_ratios s) = Some (ps, rr, cr)"
      "grid_ok (ps, rr, cr)" "mset (concat ps) = add_mset ?p (mset (concat (panes s)))"
      by (rule insert_row_ok [OF f(2) c(1) r1, of ?p])
    let ?s3 = "(set_grid (ps, rr, cr) ?s2)\<lparr>active_pane := next_id s\<rparr>"
    have i: "pane_id ?p = next_id s" by (simp add: shell_pane_def)
    have go: "grid_of ?s2 = (panes s, row_ratios s, col_ratios s)" by (simp add: grid_of_def spawn_terminal_def take_id_def)
    have eq: "mutate_split_down b t s = Some ?s3"
      using rc False g(1) by (simp add: mutate_split_down_def take_id_def Let_def go [unfolded take_id_def, simplified])
    have l: "layout_of ?s3 = ((tabs s, active_tab s, (ps, rr, cr), pane_id ?p), workspaces s, active_workspace s)"
      by (simp add: layout_of_def grid_of_def set_grid_def spawn_terminal_def take_id_def i)
    have "tables_of ?s3 = (next_id s + 1, insert (next_id s) (terminals s), editors s, flows s)"
      by (simp add: tables_of_def set_grid_def spawn_terminal_def take_id_def)
    then have "opens s ?s3" using front_plus [OF s f(1) g(2,3) l] i unfolding opens_def by blast
    then show thesis using that(2) eq by blast
  qed
qed

end
