(* ===== verification/Layout_Moves.thy ===== *)
theory Layout_Moves
  imports Layout_Steps
begin

text \<open>
  The invariant through the operations that take panes away or move them: closing a tab or a pane,
  emptying a workspace, moving the focus, extracting a pane to a tab, dropping a tab on a pane,
  moving and swapping panes. The moves keep every pane.
\<close>

section \<open>Closing\<close>

definition closes :: "u32 list \<Rightarrow> app \<Rightarrow> app \<Rightarrow> bool" where
  "closes is s s' \<longleftrightarrow> shape_ok s' \<and>
     (\<exists>R u. all_panes s = R + all_panes s' \<and> image_mset pane_id R = mset is \<and>
        tables_of s' = tables_of (fold (teardown_pane u) is s))"

lemma closesI:
  "shape_ok s' \<Longrightarrow> all_panes s = R + all_panes s' \<Longrightarrow> image_mset pane_id R = mset is \<Longrightarrow>
    tables_of s' = tables_of (fold (teardown_pane u) is s) \<Longrightarrow> closes is s s'"
  unfolding closes_def by blast

lemma closes_ids:
  assumes "closes is s s'" and "ids_ok (pool s) s"
  shows "ids_ok (pool s') s'"
proof -
  obtain R u where R: "all_panes s = R + all_panes s'" "image_mset pane_id R = mset is"
    and t: "tables_of s' = tables_of (fold (teardown_pane u) is s)"
    using assms(1) unfolding closes_def by blast
  have "pool s = mset is + pool s'" using R by (simp add: pool_def)
  then have "ids_ok (pool s') (fold (teardown_pane u) is s)" using assms(2) by (intro ids_teardowns) simp
  then show ?thesis using ids_cong [OF t] by simp
qed

lemma live_tabs_remove:
  assumes a: "active_tab s < length (tabs s)" and i: "i < length (tabs s)" "i \<noteq> active_tab s"
    and l: "layout_of s' = ((take i (tabs s) @ drop (Suc i) (tabs s),
      (if i < active_tab s then active_tab s - 1 else active_tab s), grid_of s, active_pane s), workspaces s, active_workspace s)"
  shows "live_tabs s' = take i (live_tabs s) @ drop (Suc i) (live_tabs s)"
    and "active_tab s' < length (tabs s')" and "other_tabs s' = other_tabs s"
proof -
  have f: "tabs s' = take i (tabs s) @ drop (Suc i) (tabs s)"
    "active_tab s' = (if i < active_tab s then active_tab s - 1 else active_tab s)"
    "panes s' = panes s" "row_ratios s' = row_ratios s" "col_ratios s' = col_ratios s" "active_pane s' = active_pane s"
    "workspaces s' = workspaces s" "active_workspace s' = active_workspace s"
    using l by (simp_all add: layout_of_def grid_of_def)
  show a': "active_tab s' < length (tabs s')" using a i by (auto simp: f)
  have live: "live_tab s' t = live_tab s t" for t by (simp add: live_tab_def f)
  show "live_tabs s' = take i (live_tabs s) @ drop (Suc i) (live_tabs s)"
  proof (rule nth_equalityI)
    fix j assume "j < length (live_tabs s')"
    then have "Suc j < length (tabs s)" using i by (simp add: f)
    then show "live_tabs s' ! j = (take i (live_tabs s) @ drop (Suc i) (live_tabs s)) ! j"
      using a a' i by (auto simp: live_tabs_eq f nth_append nth_list_update live min_def)
  qed (use i in \<open>simp add: f\<close>)
  show "other_tabs s' = other_tabs s" by (rule other_tabs_cong) (simp_all add: f)
qed

lemma nth_live_tabs: "j < length (tabs s) \<Longrightarrow> live_tabs s ! j = (if j = active_tab s then live_tab s (tabs s ! j) else tabs s ! j)"
  by (cases "active_tab s < length (tabs s)") (auto simp: live_tabs_eq live_tabs_def save_tab_state_def)

lemma tab_pane_ids_live:
  "i < length (tabs s) \<Longrightarrow> mset (tab_pane_ids s i) = image_mset pane_id (mset (concat (tab_panes (live_tabs s ! i))))"
  by (simp add: tab_pane_ids_def nth_live_tabs pane_ids_def)

lemma remaining_ok: "\<forall>t \<in> set xs. tab_ok t \<Longrightarrow> \<forall>t \<in> set (take i xs @ drop (Suc i) xs). tab_ok t"
  by (auto dest: in_set_takeD in_set_dropD)

lemma close_tab_closes:
  assumes s: "shape_ok s" and i: "i < length (tabs s)"
  obtains s' where "mutate_close_tab i s = Some s'" and "closes (tab_pane_ids s i) s s'"
    and "i \<noteq> active_tab s \<Longrightarrow> live_tabs s' = take i (live_tabs s) @ drop (Suc i) (live_tabs s) \<and>
      active_tab s' = (if i < active_tab s then active_tab s - 1 else active_tab s)"
proof -
  let ?is = "tab_pane_ids s i"
  let ?R = "mset (concat (tab_panes (live_tabs s ! i)))"
  define s1 where "s1 = fold (teardown_pane True) ?is s"
  define s2 where "s2 = s1\<lparr>tabs := take i (tabs s1) @ drop (Suc i) (tabs s1)\<rparr>"
  define rest where "rest = take i (live_tabs s) @ drop (Suc i) (live_tabs s)"
  have "layout_of s1 = layout_of s" by (simp add: s1_def)
  then have f: "tabs s1 = tabs s" "active_tab s1 = active_tab s" "grid_of s1 = grid_of s" "active_pane s1 = active_pane s"
    "workspaces s1 = workspaces s" "active_workspace s1 = active_workspace s" by (simp_all add: layout_of_def)
  have a: "active_tab s < length (tabs s)" using s i by (intro shape_index) auto
  have tabs2: "tabs s2 = take i (tabs s) @ drop (Suc i) (tabs s)" by (simp add: s2_def f)
  have o: "other_tabs s2 = other_tabs s" by (rule other_tabs_cong) (simp_all add: s2_def f)
  have w: "ws_ok s2" using s by (simp add: shape_ok_def ws_ok_def s2_def f)
  have ids: "image_mset pane_id ?R = mset ?is" using tab_pane_ids_live [OF i] by simp
  have total: "all_panes s = ?R + panes_of_tabs (rest @ other_tabs s)"
    using panes_of_tabs_remove [of i "live_tabs s"] i by (simp add: all_panes_def rest_def add.assoc)
  have restok: "\<forall>t \<in> set (rest @ other_tabs s). tab_ok t"
    using s remaining_ok [of "live_tabs s" i] by (auto simp: shape_ok_def rest_def)
  have tb: "tables_of s2 = tables_of s1" by (simp add: tables_of_def s2_def)
  have eq: "mutate_close_tab i s = (if tabs s2 = [] then Some (clear_live s2)
             else if active_tab s = i
             then load_tab_after_close (is_agent_pane s (active_pane s)) (s2\<lparr>active_tab := min i (length (tabs s2) - 1)\<rparr>)
             else if i < active_tab s2 then Some (s2\<lparr>active_tab := active_tab s2 - 1\<rparr>)
             else Some s2)"
    using i by (simp add: mutate_close_tab_def Let_def s2_def s1_def del: One_nat_def)
  show thesis
  proof (cases "tabs s2 = []")
    case True
    then have "rest = []" using i by (simp add: tabs2 rest_def)
    have "\<forall>t \<in> set (other_tabs s2). tab_ok t" using restok o by simp
    note C = cleared_ok [OF True w this]
    have "closes ?is s (clear_live s2)"
      by (rule closesI [of _ _ ?R _ True]) (use C total \<open>rest = []\<close> ids o tb in \<open>simp_all add: s1_def\<close>)
    moreover have "i = active_tab s" using True tabs2 i a by auto
    ultimately show thesis using that eq True by simp
  next
    case False
    show thesis
    proof (cases "active_tab s = i")
      case True
      let ?s3 = "s2\<lparr>active_tab := min i (length (tabs s2) - 1)\<rparr>"
      have o3: "other_tabs ?s3 = other_tabs s" using o by (simp add: other_tabs_def)
      have t3: "tabs ?s3 = rest" using tabs2 True i by (simp add: rest_def live_tabs_eq)
      have ne: "tabs ?s3 \<noteq> []" using False by simp
      have w3: "ws_ok ?s3" using w by (simp add: ws_ok_def)
      have ok3: "\<forall>t \<in> set (tabs ?s3 @ other_tabs ?s3). tab_ok t" using restok t3 o3 by simp
      obtain s' where L: "load_tab_after_close (is_agent_pane s (active_pane s)) ?s3 = Some s'" "shape_ok s'"
        "all_panes s' = panes_of_tabs (tabs ?s3 @ other_tabs ?s3)" "tables_of s' = tables_of ?s3"
        by (rule after_close_ok [OF ne w3 ok3])
      have "closes ?is s s'"
        by (rule closesI [of _ _ ?R _ True]) (use L total ids t3 o3 tb in \<open>simp_all add: s1_def tables_of_def\<close>)
      moreover have "mutate_close_tab i s = Some s'" using eq False True L(1) by simp
      ultimately show thesis using that True by blast
    next
      case other: False
      let ?s3 = "if i < active_tab s then s2\<lparr>active_tab := active_tab s2 - 1\<rparr> else s2"
      have "active_tab s2 = active_tab s" by (simp add: s2_def f)
      then have r: "mutate_close_tab i s = Some ?s3" using eq False other by simp
      have l: "layout_of ?s3 = ((take i (tabs s) @ drop (Suc i) (tabs s),
        (if i < active_tab s then active_tab s - 1 else active_tab s), grid_of s, active_pane s), workspaces s, active_workspace s)"
        using f by (auto simp: layout_of_def grid_of_def s2_def)
      note V = live_tabs_remove [OF a i other [symmetric] l]
      have "front_ok ?s3" using V(2) False by (auto simp: front_ok_def)
      moreover have "ws_ok ?s3" using w by (simp add: ws_ok_def)
      ultimately have "shape_ok ?s3" using V restok by (simp only: shape_ok_def rest_def simp_thms)
      moreover have "all_panes ?s3 = panes_of_tabs (rest @ other_tabs s)" using V by (simp only: all_panes_def rest_def)
      ultimately have "closes ?is s ?s3"
        by (intro closesI [of _ _ ?R _ True]) (use total ids tb in \<open>simp_all add: s1_def tables_of_def\<close>)
      moreover have "active_tab ?s3 = (if i < active_tab s then active_tab s - 1 else active_tab s)" by (simp add: s2_def f)
      ultimately show thesis using that r V(1) by blast
    qed
  qed
qed

section \<open>Taking a pane out of the tab in front\<close>

lemma refocus_ok:
  assumes g: "grid_ok (panes s, rr, cr)" and ne: "panes s \<noteq> []"
    and k: "active_pane s = t \<or> active_pane s \<in> set (pane_ids (panes s))"
  obtains i where "refocus t r c s = Some (s\<lparr>active_pane := i\<rparr>)" and "i \<in> set (pane_ids (panes s))"
proof (cases "active_pane s = t")
  case False
  then show thesis using that [of "active_pane s"] k by (simp add: refocus_def)
next
  case True
  let ?r = "min r (length (panes s) - 1)"
  have r: "?r < length (panes s)" using ne by (cases "panes s") auto
  then have "panes s ! ?r \<noteq> []" using grid_ok_lengths(3) [OF g r] by (simp add: row_ok_def)
  let ?c = "min c (length (panes s ! ?r) - 1)"
  have c: "?c < length (panes s ! ?r)" using \<open>panes s ! ?r \<noteq> []\<close> by (cases "panes s ! ?r") auto
  have "refocus t r c s = Some (s\<lparr>active_pane := pane_id (panes s ! ?r ! ?c)\<rparr>)"
    using True ne nth_opt_Some [OF r] nth_opt_Some [OF c] \<open>panes s ! ?r \<noteq> []\<close> by (simp add: refocus_def Let_def del: One_nat_def)
  moreover have "pane_id (panes s ! ?r ! ?c) \<in> set (pane_ids (panes s))"
    unfolding pane_ids_def set_map by (rule imageI) (rule pane_at_member [OF r c])
  ultimately show thesis using that by blast
qed

lemma detach_front:
  assumes s: "shape_ok s" and rc: "find_pane_coord s t = Some (r, c)" and many: "sum_list (map length (panes s)) \<noteq> 1"
    and l: "layout_of s1 = layout_of s"
  obtains g s2 where "detach_pane r c (grid_of s1) = Some g" and "refocus t r c (set_grid g s1) = Some s2"
    and "shape_ok s2" and "all_panes s = add_mset (panes s ! r ! c) (all_panes s2)" and "tables_of s2 = tables_of s1"
    and "active_tab s2 = active_tab s" and "length (tabs s2) = length (tabs s)"
proof -
  note c = find_pane_coord_Some [OF rc] and f = found_front [OF s rc]
  have l': "grid_of s1 = (panes s, row_ratios s, col_ratios s)" "tabs s1 = tabs s" "active_tab s1 = active_tab s"
    "active_pane s1 = active_pane s" "workspaces s1 = workspaces s" "active_workspace s1 = active_workspace s"
    using l by (simp_all add: layout_of_def grid_of_def)
  obtain ps rr cr where g: "detach_pane r c (panes s, row_ratios s, col_ratios s) = Some (ps, rr, cr)" "grid_ok (ps, rr, cr)"
    "mset (concat (panes s)) = add_mset (panes s ! r ! c) (mset (concat ps))"
    by (rule detach_pane_ok [OF f(2) c(1,2)])
  have "size (mset (concat (panes s))) \<noteq> 1" using many total_length by metis
  then have "concat ps \<noteq> []" using g(3) by (auto simp only: size_add_mset mset.simps size_empty One_nat_def)
  then have ps: "ps \<noteq> []" by auto
  let ?s2 = "set_grid (ps, rr, cr) s1"
  have p2: "panes ?s2 = ps" "active_pane ?s2 = active_pane s" by (simp_all add: set_grid_def l')
  have "active_pane s \<in> set (pane_ids (panes s))" using shape_front(4) [OF s] f by blast
  then have "active_pane s \<in># image_mset pane_id (mset (concat (panes s)))" by (simp only: pane_ids_def mset_map [symmetric] set_mset_mset)
  then have "active_pane s = t \<or> active_pane s \<in># image_mset pane_id (mset (concat ps))" unfolding g(3) using c(3) by auto
  then have k: "active_pane ?s2 = t \<or> active_pane ?s2 \<in> set (pane_ids (panes ?s2))"
    unfolding p2 by (simp only: pane_ids_def mset_map [symmetric] set_mset_mset)
  have gok: "grid_ok (panes ?s2, rr, cr)" and nep: "panes ?s2 \<noteq> []" using g ps p2 by simp_all
  obtain i where i: "refocus t r c ?s2 = Some (?s2\<lparr>active_pane := i\<rparr>)" "i \<in> set (pane_ids (panes ?s2))"
    by (rule refocus_ok [OF gok nep k])
  have ip: "i \<in> set (pane_ids ps)" using i(2) p2 by simp
  have lay: "layout_of (?s2\<lparr>active_pane := i\<rparr>) = ((tabs s, active_tab s, (ps, rr, cr), i), workspaces s, active_workspace s)"
    by (simp add: layout_of_def grid_of_def set_grid_def l')
  note F = set_front_grid [OF s f(1) g(2) ps ip lay]
  show thesis
  proof (rule that [OF _ i(1) F(1)])
    show "detach_pane r c (grid_of s1) = Some (ps, rr, cr)" using g(1) l' by simp
    show "all_panes s = add_mset (panes s ! r ! c) (all_panes (?s2\<lparr>active_pane := i\<rparr>))"
      using F(2) unfolding g(3) by simp
  qed (simp_all add: tables_of_def set_grid_def l')
qed

lemma close_pane_closes:
  assumes s: "shape_ok s"
  obtains "mutate_close_pane t s = Some s" | ids s' where "mutate_close_pane t s = Some s'" and "closes ids s s'" and "t \<in> set ids"
proof (cases "find_pane_coord s t")
  case None
  then show thesis using that(1) by (simp add: mutate_close_pane_def)
next
  case (Some rc')
  obtain r c where rc: "find_pane_coord s t = Some (r, c)" using Some by (cases rc') auto
  note c = find_pane_coord_Some [OF rc] and f = found_front [OF s rc]
  show thesis
  proof (cases "sum_list (map length (panes s)) = 1")
    case True
    have tin: "t \<in> set (tab_pane_ids s (active_tab s))"
      using rc find_pane_coord_None [of s t] by (simp add: tab_pane_ids_def)
    obtain s' where "mutate_close_tab (active_tab s) s = Some s'" "closes (tab_pane_ids s (active_tab s)) s s'"
      by (rule close_tab_closes [OF s f(1)])
    then show thesis using that(2) True rc tin by (simp add: mutate_close_pane_def)
  next
    case False
    let ?s1 = "teardown_pane True t s"
    obtain g s2 where d: "detach_pane r c (grid_of ?s1) = Some g" "refocus t r c (set_grid g ?s1) = Some s2" "shape_ok s2"
      "all_panes s = add_mset (panes s ! r ! c) (all_panes s2)" "tables_of s2 = tables_of ?s1"
      "active_tab s2 = active_tab s" "length (tabs s2) = length (tabs s)"
      by (rule detach_front [OF s rc False layout_teardown])
    have R: "all_panes s = {#panes s ! r ! c#} + all_panes s2" using d(4) by simp
    let ?s3 = "save_tab_state s2"
    have eq: "mutate_close_pane t s = (if active_pane s = t then load_tab_after_close (is_agent_pane s (active_pane s)) ?s3 else Some ?s3)"
      using rc False d(1,2) by (simp add: mutate_close_pane_def Let_def sync_is_save)
    show thesis
    proof (cases "active_pane s = t")
      case True
      have "tabs s2 \<noteq> []" using d(7) f by auto
      then have ne: "tabs ?s3 \<noteq> []" by (metis length_0_conv save_fields(12))
      have w: "ws_ok ?s3" and ok: "\<forall>t \<in> set (tabs ?s3 @ other_tabs ?s3). tab_ok t"
        using d(3) by (simp_all add: shape_ok_def ws_ok_def live_tabs_def)
      obtain s' where L: "load_tab_after_close (is_agent_pane s (active_pane s)) ?s3 = Some s'" "shape_ok s'"
        "all_panes s' = panes_of_tabs (tabs ?s3 @ other_tabs ?s3)" "tables_of s' = tables_of ?s3"
        by (rule after_close_ok [OF ne w ok])
      have al: "all_panes s' = all_panes s2" using L(3) by (simp add: all_panes_def live_tabs_def)
      have "closes [t] s s'"
        by (rule closesI [of _ _ "{#panes s ! r ! c#}" _ True]) (use L R al c d(5) in simp_all)
      then show thesis using that(2) [OF _ \<open>closes [t] s s'\<close>] eq True L(1) by simp
    next
      case F: False
      have "closes [t] s ?s3"
        by (rule closesI [of _ _ "{#panes s ! r ! c#}" _ True]) (use R c d(3,5) in simp_all)
      then show thesis using that(2) [OF _ \<open>closes [t] s ?s3\<close>] eq F by simp
    qed
  qed
qed

section \<open>Moving the focus\<close>

lemma focus_keeps:
  assumes s: "shape_ok s" and r: "r < length (panes s)" and c: "c < length (panes s ! r)"
  shows "keeps s (focus_at r c s)"
proof -
  let ?s = "s\<lparr>active_pane := pane_id (panes s ! r ! c)\<rparr>"
  have ne: "panes s \<noteq> []" using r by auto
  note f = shape_front [OF s disjI1 [OF ne]]
  have g: "grid_ok (panes s, row_ratios s, col_ratios s)" using f(2) by (simp add: grid_of_def)
  have i: "pane_id (panes s ! r ! c) \<in> set (pane_ids (panes s))"
    unfolding pane_ids_def set_map by (rule imageI) (rule pane_at_member [OF r c])
  have l: "layout_of ?s = ((tabs s, active_tab s, (panes s, row_ratios s, col_ratios s), pane_id (panes s ! r ! c)), workspaces s, active_workspace s)"
    by (simp add: layout_of_def grid_of_def)
  note F = set_front_grid [OF s f(1) g ne i l]
  have "focus_at r c s = Some (save_tab_state ?s)" using r c by (simp add: focus_at_def sync_is_save)
  then show ?thesis by (rule keepsI) (use F in \<open>simp_all add: tables_of_def\<close>)
qed

lemma min_last: "xs \<noteq> [] \<Longrightarrow> min c (length xs - Suc 0) < length xs"
  by (cases xs) auto

lemma focus_moves_keep:
  assumes s: "shape_ok s"
  shows "keeps s (mutate_focus_left s)" and "keeps s (mutate_focus_right s)"
    and "keeps s (mutate_focus_up s)" and "keeps s (mutate_focus_down s)"
proof -
  have pos: "0 < length (panes s ! r)" if "find_pane_coord s t = Some (r', c')" "r < length (panes s)" for t r' c' r
    using grid_ok_lengths(3) [OF found_front(2) [OF s that(1)] that(2)] by (simp add: row_ok_def)
  show "keeps s (mutate_focus_left s)"
    using s by (auto simp: mutate_focus_left_def split: option.split intro!: focus_keeps dest: find_pane_coord_Some)
  show "keeps s (mutate_focus_right s)"
    using s by (auto simp: mutate_focus_right_def split: option.split intro!: focus_keeps dest: find_pane_coord_Some)
  show "keeps s (mutate_focus_up s)"
  proof (cases "find_pane_coord s (active_pane s)")
    case (Some rc)
    obtain r c where rc: "find_pane_coord s (active_pane s) = Some (r, c)" using Some by (cases rc) auto
    have "0 < r \<Longrightarrow> 0 < length (panes s ! (r - 1))" using pos [OF rc, of "r - 1"] find_pane_coord_Some [OF rc] by simp
    then show ?thesis using rc s find_pane_coord_Some(1) [OF rc]
      by (auto simp: mutate_focus_up_def min_last intro!: focus_keeps)
  qed (use s in \<open>simp add: mutate_focus_up_def\<close>)
  show "keeps s (mutate_focus_down s)"
  proof (cases "find_pane_coord s (active_pane s)")
    case (Some rc)
    obtain r c where rc: "find_pane_coord s (active_pane s) = Some (r, c)" using Some by (cases rc) auto
    have "r + 1 < length (panes s) \<Longrightarrow> 0 < length (panes s ! (r + 1))" using pos [OF rc, of "r + 1"] by simp
    then show ?thesis using rc s
      by (auto simp: mutate_focus_down_def min_last intro!: focus_keeps)
  qed (use s in \<open>simp add: mutate_focus_down_def\<close>)
qed

section \<open>Extracting a pane\<close>

lemma insert_tab_loaded:
  assumes w: "ws_ok s" and ok: "\<forall>t \<in> set (tabs s @ other_tabs s). tab_ok t" and t: "tab_ok t" and pos: "pos \<le> length (tabs s)"
  obtains s' where "load_tab_state (s\<lparr>tabs := take pos (tabs s) @ t # drop pos (tabs s), active_tab := pos\<rparr>) = Some s'"
    and "shape_ok s'" and "all_panes s' = mset (concat (tab_panes t)) + panes_of_tabs (tabs s @ other_tabs s)"
    and "tables_of s' = tables_of s"
proof -
  let ?s = "s\<lparr>tabs := take pos (tabs s) @ t # drop pos (tabs s), active_tab := pos\<rparr>"
  have a: "active_tab ?s < length (tabs ?s)" using pos by simp
  have o: "other_tabs ?s = other_tabs s" by (rule other_tabs_cong) simp_all
  have wk: "ws_ok ?s" using w by (simp add: ws_ok_def)
  have ok': "\<forall>t \<in> set (tabs ?s @ other_tabs ?s). tab_ok t" using ok t o by (auto dest: in_set_takeD in_set_dropD)
  obtain s' where L: "load_tab_state ?s = Some s'" "shape_ok s'" "all_panes s' = panes_of_tabs (tabs ?s @ other_tabs ?s)"
    "tables_of s' = tables_of ?s"
    by (rule load_tab_ok [OF a wk ok'])
  have "panes_of_tabs (tabs s) = panes_of_tabs (take pos (tabs s)) + panes_of_tabs (drop pos (tabs s))"
    by (metis append_take_drop_id panes_of_tabs_append)
  then have "all_panes s' = mset (concat (tab_panes t)) + panes_of_tabs (tabs s @ other_tabs s)"
    using L(3) o by simp
  then show thesis using that L by (simp add: tables_of_def)
qed

lemma single_tab_ok: "tab_ok (tab_of_pane n sub st p)" "tab_panes (tab_of_pane n sub st p) = [[p]]"
  by (simp_all add: tab_ok_def tab_of_pane_def grid_ok_def row_ok_def pane_ids_def)

lemma extract_keeps:
  assumes s: "shape_ok s"
  shows "keeps s (mutate_extract_pane_to_tab t n s)"
proof (cases "find_pane_coord s t")
  case None
  then show ?thesis using s by (simp add: mutate_extract_pane_to_tab_def)
next
  case (Some rc')
  obtain r c where rc: "find_pane_coord s t = Some (r, c)" using Some by (cases rc') auto
  note c = find_pane_coord_Some [OF rc] and f = found_front [OF s rc]
  let ?p = "panes s ! r ! c"
  let ?t = "tab_of_pane (pane_title ?p) (pane_subtitle ?p) Running ?p"
  show ?thesis
  proof (cases "sum_list (map length (panes s)) = 1")
    case True
    obtain q where q: "panes s = [[q]]" by (rule single_pane_grid [OF f(2) True])
    then have p: "?p = q" using c by simp
    let ?s1 = "s\<lparr>tabs := take (active_tab s) (tabs s) @ drop (Suc (active_tab s)) (tabs s), panes := [], row_ratios := [], col_ratios := []\<rparr>"
    let ?n = "if active_tab s < n then n - 1 else n"
    let ?pos = "min ?n (length (tabs ?s1))"
    have o: "other_tabs ?s1 = other_tabs s" by (rule other_tabs_cong) simp_all
    have t1: "tabs ?s1 = take (active_tab s) (live_tabs s) @ drop (Suc (active_tab s)) (live_tabs s)"
      using f(1) by (simp add: live_tabs_eq)
    have w: "ws_ok ?s1" using s by (simp add: shape_ok_def ws_ok_def)
    have ok: "\<forall>t \<in> set (tabs ?s1 @ other_tabs ?s1). tab_ok t"
      unfolding t1 o using s by (auto simp: shape_ok_def dest: in_set_takeD in_set_dropD)
    obtain s' where L: "load_tab_state (?s1\<lparr>tabs := take ?pos (tabs ?s1) @ ?t # drop ?pos (tabs ?s1), active_tab := ?pos\<rparr>) = Some s'"
      "shape_ok s'" "all_panes s' = mset (concat (tab_panes ?t)) + panes_of_tabs (tabs ?s1 @ other_tabs ?s1)" "tables_of s' = tables_of ?s1"
      by (rule insert_tab_loaded [OF w ok single_tab_ok(1), of ?pos]) simp
    have "panes_of_tabs (live_tabs s) = mset (concat (panes s)) + panes_of_tabs (tabs ?s1)"
      unfolding t1 using panes_of_tabs_remove [of "active_tab s" "live_tabs s"] f(1) by (simp add: front_tab)
    then have "all_panes s' = all_panes s" using L(3) o p by (simp add: q single_tab_ok all_panes_def del: panes_of_tabs_append) simp
    moreover have "mutate_extract_pane_to_tab t n s = Some s'"
      using rc c True f(1) L(1) by (simp add: mutate_extract_pane_to_tab_def Let_def del: One_nat_def)
    ultimately show ?thesis using L(2,4) by (intro keepsI) (simp_all add: tables_of_def)
  next
    case False
    obtain g s2 where d: "detach_pane r c (grid_of s) = Some g" "refocus t r c (set_grid g s) = Some s2" "shape_ok s2"
      "all_panes s = add_mset (panes s ! r ! c) (all_panes s2)" "tables_of s2 = tables_of s"
      by (rule detach_front [OF s rc False refl])
    let ?s1 = "save_tab_state s2"
    let ?pos = "min n (length (tabs ?s1))"
    have w: "ws_ok ?s1" and ok: "\<forall>t \<in> set (tabs ?s1 @ other_tabs ?s1). tab_ok t"
      using d(3) by (simp_all add: shape_ok_def ws_ok_def live_tabs_def)
    obtain s' where L: "load_tab_state (?s1\<lparr>tabs := take ?pos (tabs ?s1) @ ?t # drop ?pos (tabs ?s1), active_tab := ?pos\<rparr>) = Some s'"
      "shape_ok s'" "all_panes s' = mset (concat (tab_panes ?t)) + panes_of_tabs (tabs ?s1 @ other_tabs ?s1)" "tables_of s' = tables_of ?s1"
      by (rule insert_tab_loaded [OF w ok single_tab_ok(1), of ?pos]) simp
    have eq: "mutate_extract_pane_to_tab t n s = Some s'"
      using rc c False d(1,2) L(1) by (simp add: mutate_extract_pane_to_tab_def detach_active_def sync_is_save Let_def)
    have "all_panes s' = all_panes s" using L(3) d(4) by (simp add: single_tab_ok all_panes_def live_tabs_def)
    then show ?thesis using L(2,4) d(5) by (intro keepsI [OF eq]) simp_all
  qed
qed

end
