(* ===== verification/Layout_Drag.thy ===== *)
theory Layout_Drag
  imports Layout_Moves
begin

text \<open>
  Drag and drop under the invariant: reordering tabs, dropping a tab on an edge of a pane, moving a
  pane to an edge, swapping, the drag of a divider, and emptying a workspace.
\<close>

section \<open>Landing a pane\<close>

lemma insert_at_edge_ok:
  assumes "grid_ok (ps, rr, cr)" and "r < length ps" and "c < length (ps ! r)" and "z \<noteq> ZCenter"
  obtains ps' rr' cr' where "insert_at_edge z r c p (ps, rr, cr) = Some (ps', rr', cr')" and "grid_ok (ps', rr', cr')"
    and "mset (concat ps') = add_mset p (mset (concat ps))" and "sum_list rr' = sum_list rr"
proof (cases z)
  case ZLeft
  then show thesis using insert_beside_ok [OF assms(1-3), of c p] assms(3) that by (auto simp: insert_at_edge_def)
next
  case ZRight
  then show thesis using insert_beside_ok [OF assms(1-3), of "c + 1" p] assms(3) that by (auto simp: insert_at_edge_def)
next
  case ZTop
  then show thesis using insert_row_ok [OF assms(1,2), of r p] assms(2) that by (auto simp: insert_at_edge_def)
next
  case ZBottom
  then show thesis using insert_row_ok [OF assms(1,2), of "r + 1" p] assms(2) that by (auto simp: insert_at_edge_def)
qed (use assms in simp)

lemma tab_position_Some: "tab_position x i0 ts = Some i \<Longrightarrow> i0 \<le> i \<and> i - i0 < length ts \<and> tab_id (ts ! (i - i0)) = x"
proof (induction ts arbitrary: i0)
  case (Cons t ts)
  show ?case
  proof (cases "tab_id t = x")
    case False
    then have "Suc i0 \<le> i \<and> i - Suc i0 < length ts \<and> tab_id (ts ! (i - Suc i0)) = x" using Cons by simp
    then show ?thesis by (auto simp: nth_Cons')
  qed (use Cons.prems in auto)
qed simp

lemma tab_position_index: "tab_position x 0 ts = Some i \<Longrightarrow> i < length ts \<and> tab_id (ts ! i) = x"
  using tab_position_Some [of x 0 ts i] by simp

lemma tab_position_None: "tab_position x i0 ts = None \<longleftrightarrow> x \<notin> tab_id ` set ts"
  by (induction ts arbitrary: i0) auto

lemma single_background:
  assumes s: "shape_ok s" and i: "i < length (tabs s)" "i \<noteq> active_tab s" and one: "sum_list (map length (tab_panes (tabs s ! i))) = 1"
  obtains p where "tab_panes (tabs s ! i) = [[p]]"
proof -
  have "tabs s ! i = live_tabs s ! i" using nth_live_tabs [OF i(1)] i(2) by simp
  then have "tabs s ! i \<in> set (live_tabs s)" using i(1) by (metis length_live_tabs nth_mem)
  then have "grid_ok (tab_panes (tabs s ! i), tab_row_ratios (tabs s ! i), tab_col_ratios (tabs s ! i))"
    using s by (auto simp: shape_ok_def tab_ok_def)
  then show thesis using single_pane_grid one that by metis
qed

lemma drop_split_keeps:
  assumes s: "shape_ok s" and z: "z \<noteq> ZCenter"
  shows "keeps s (mutate_pane_drop_split src t z s)"
proof (cases "tab_position src 0 (tabs s)")
  case None
  then show ?thesis using s by (simp add: mutate_pane_drop_split_def)
next
  case (Some i)
  show ?thesis
  proof (cases "i = active_tab s \<or> sum_list (map length (tab_panes (tabs s ! i))) \<noteq> 1")
    case True
    then show ?thesis using s Some by (auto simp: mutate_pane_drop_split_def)
  next
    case False
    have i: "i < length (tabs s)" "i \<noteq> active_tab s" using tab_position_index [OF Some] False by auto
    obtain p where p: "tab_panes (tabs s ! i) = [[p]]" by (rule single_background [OF s i]) (use False in auto)
    show ?thesis
    proof (cases "pane_id p = t \<or> find_pane_coord s t = None")
      case True
      then show ?thesis using s Some False p by (auto simp: mutate_pane_drop_split_def)
    next
      case go: False
      then obtain r c where rc: "find_pane_coord s t = Some (r, c)" by auto
      note c = find_pane_coord_Some [OF rc] and f = found_front [OF s rc]
      let ?s1 = "s\<lparr>tabs := take i (tabs s) @ drop (Suc i) (tabs s), active_tab := (if i < active_tab s then active_tab s - 1 else active_tab s)\<rparr>"
      have l: "layout_of ?s1 = ((take i (tabs s) @ drop (Suc i) (tabs s),
        (if i < active_tab s then active_tab s - 1 else active_tab s), grid_of s, active_pane s), workspaces s, active_workspace s)"
        by (simp add: layout_of_def grid_of_def)
      note V = live_tabs_remove [OF f(1) i l]
      have "tabs ?s1 \<noteq> []" using V(2) by auto
      then have s1: "shape_ok ?s1" using s V remaining_ok [of "live_tabs s" i]
        by (auto simp: shape_ok_def front_ok_def ws_ok_def)
      have total: "all_panes s = add_mset p (all_panes ?s1)"
        using panes_of_tabs_remove [of i "live_tabs s"] i p nth_live_tabs [OF i(1)] V(1,3) by (simp add: all_panes_def)
      obtain ps rr cr where g: "insert_at_edge z r c p (panes s, row_ratios s, col_ratios s) = Some (ps, rr, cr)" "grid_ok (ps, rr, cr)"
        "mset (concat ps) = add_mset p (mset (concat (panes s)))"
        by (rule insert_at_edge_ok [OF f(2) c(1,2) z])
      let ?s2 = "(set_grid (ps, rr, cr) ?s1)\<lparr>active_pane := pane_id p\<rparr>"
      have lay: "layout_of ?s2 = ((tabs ?s1, active_tab ?s1, (ps, rr, cr), pane_id p), workspaces ?s1, active_workspace ?s1)"
        by (simp add: layout_of_def grid_of_def set_grid_def)
      have m: "mset (concat ps) = add_mset p (mset (concat (panes ?s1)))" using g(3) by simp
      note F = front_plus [OF s1 V(2) g(2) m lay]
      have "mutate_pane_drop_split src t z s = Some (save_tab_state ?s2)"
        using Some False p go rc i(1) z g(1)
        by (simp add: mutate_pane_drop_split_def land_pane_def sync_is_save grid_of_def)
      then show ?thesis by (rule keepsI) (use F total in \<open>simp_all add: tables_of_def set_grid_def\<close>)
    qed
  qed
qed

lemma move_to_edge_keeps:
  assumes s: "shape_ok s"
  shows "keeps s (mutate_pane_move_to_edge src t z s)"
proof (cases "src = t \<or> z = ZCenter \<or> find_pane_coord s src = None \<or> find_pane_coord s t = None")
  case True
  then show ?thesis using s by (auto simp: mutate_pane_move_to_edge_def split: option.split)
next
  case False
  then obtain sr sc where rc: "find_pane_coord s src = Some (sr, sc)" by auto
  note c = find_pane_coord_Some [OF rc] and f = found_front [OF s rc]
  let ?p = "panes s ! sr ! sc"
  obtain ps rr cr where g: "detach_pane sr sc (panes s, row_ratios s, col_ratios s) = Some (ps, rr, cr)" "grid_ok (ps, rr, cr)"
    "mset (concat (panes s)) = add_mset ?p (mset (concat ps))"
    by (rule detach_pane_ok [OF f(2) c(1,2)])
  let ?s1 = "set_grid (ps, rr, cr) s"
  have "t \<in> set (pane_ids (panes s))" using False find_pane_coord_None [of s t] by simp
  then have "t \<in># image_mset pane_id (mset (concat (panes s)))" by (simp only: pane_ids_def mset_map [symmetric] set_mset_mset)
  then have "t \<in># image_mset pane_id (mset (concat ps))" unfolding g(3) using c(3) False by auto
  then have "t \<in> set (pane_ids ps)" by (simp only: pane_ids_def mset_map [symmetric] set_mset_mset)
  then have "find_pane_coord ?s1 t \<noteq> None" by (simp add: find_pane_coord_None set_grid_def)
  then obtain r c' where rc': "find_pane_coord ?s1 t = Some (r, c')" by auto
  have c': "r < length ps" "c' < length (ps ! r)" using find_pane_coord_Some [OF rc'] by (simp_all add: set_grid_def)
  have z: "z \<noteq> ZCenter" using False by simp
  obtain ps' rr' cr' where h: "insert_at_edge z r c' ?p (ps, rr, cr) = Some (ps', rr', cr')" "grid_ok (ps', rr', cr')"
    "mset (concat ps') = add_mset ?p (mset (concat ps))"
    by (rule insert_at_edge_ok [OF g(2) c' z])
  let ?s2 = "(set_grid (ps', rr', cr') ?s1)\<lparr>active_pane := src\<rparr>"
  have lay: "layout_of ?s2 = ((tabs s, active_tab s, (ps', rr', cr'), src), workspaces s, active_workspace s)"
    by (simp add: layout_of_def grid_of_def set_grid_def)
  have "?p \<in># mset (concat ps')" using h(3) by simp
  then have pin: "?p \<in> set (concat ps')" by (simp only: set_mset_mset)
  then have ne: "ps' \<noteq> []" and i: "src \<in> set (pane_ids ps')" using c(3) by (auto simp: pane_ids_def)
  note F = set_front_grid [OF s f(1) h(2) ne i lay]
  have "mset (concat ps') = mset (concat (panes s))" using g(3) h(3) by simp
  then have al: "all_panes ?s2 = all_panes s" using F(2) by simp
  have "mutate_pane_move_to_edge src t z s = Some (save_tab_state ?s2)"
    using False rc c g(1) h(1) rc'
    by (auto simp: mutate_pane_move_to_edge_def land_pane_def sync_is_save grid_of_def set_grid_def)
  then show ?thesis by (rule keepsI) (use F(1) al in \<open>simp_all add: tables_of_def set_grid_def\<close>)
qed

section \<open>Swapping\<close>

lemma set_pane_ok:
  assumes g: "grid_ok (ps, rr, cr)" and r: "r < length ps" and c: "c < length (ps ! r)"
  obtains ps' where "set_pane r c q ps = Some ps'" and "grid_ok (ps', rr, cr)"
    and "mset (concat ps') + {#ps ! r ! c#} = add_mset q (mset (concat ps))"
    and "ps' = ps[r := (ps ! r)[c := q]]"
proof -
  let ?row = "(ps ! r)[c := q]"
  have "set_pane r c q ps = Some (ps[r := ?row])" using r c by (simp add: set_pane_def)
  moreover have "row_ok ?row (cr ! r)" using grid_ok_lengths(3) [OF g r] by (simp add: row_ok_def)
  then have "grid_ok (ps[r := ?row], rr, cr)"
    using g r grid_ok_lengths(2) [OF g] by (auto simp: grid_ok_def list_all2_conv_all_nth nth_list_update)
  moreover have "mset (concat (ps[r := ?row])) + {#ps ! r ! c#} = add_mset q (mset (concat ps))"
  proof -
    have row: "mset ?row + {#ps ! r ! c#} = add_mset q (mset (ps ! r))" using c by (simp add: mset_update)
    have "mset (concat (ps[r := ?row])) + mset (ps ! r) + {#ps ! r ! c#} = mset (concat ps) + (mset ?row + {#ps ! r ! c#})"
      using mset_concat_update [OF r, of ?row] by (simp add: add.assoc)
    then show ?thesis unfolding row by simp
  qed
  ultimately show thesis using that by blast
qed

lemma in_pane_ids: "p \<in># mset (concat ps) \<Longrightarrow> ps \<noteq> [] \<and> pane_id p \<in> set (pane_ids ps)"
  by (auto simp: pane_ids_def)

lemma swap_keeps:
  assumes s: "shape_ok s"
  shows "keeps s (mutate_pane_swap a b s)"
proof (cases "a = b \<or> find_pane_coord s a = None \<or> find_pane_coord s b = None")
  case True
  then show ?thesis using s by (auto simp: mutate_pane_swap_def split: option.split)
next
  case False
  then obtain ar ac br bc where A: "find_pane_coord s a = Some (ar, ac)" and B: "find_pane_coord s b = Some (br, bc)" by auto
  note ca = find_pane_coord_Some [OF A] and cb = find_pane_coord_Some [OF B] and f = found_front [OF s A]
  have ne: "(ar, ac) \<noteq> (br, bc)" using ca(3) cb(3) False by auto
  let ?pa = "panes s ! ar ! ac" and ?pb = "panes s ! br ! bc"
  obtain ps1 where p1: "set_pane ar ac ?pb (panes s) = Some ps1" "grid_ok (ps1, row_ratios s, col_ratios s)"
    "mset (concat ps1) + {#?pa#} = add_mset ?pb (mset (concat (panes s)))" "ps1 = (panes s)[ar := (panes s ! ar)[ac := ?pb]]"
    by (rule set_pane_ok [OF f(2) ca(1,2)])
  have same: "br < length ps1" "bc < length (ps1 ! br)" "ps1 ! br ! bc = ?pb"
    using ca cb ne by (auto simp: p1(4) nth_list_update)
  obtain ps2 where p2: "set_pane br bc ?pa ps1 = Some ps2" "grid_ok (ps2, row_ratios s, col_ratios s)"
    "mset (concat ps2) + {#ps1 ! br ! bc#} = add_mset ?pa (mset (concat ps1))"
    by (rule set_pane_ok [OF p1(2) same(1,2)])
  have "mset (concat ps2) + {#?pb#} = mset (concat ps1) + {#?pa#}" using p2(3) same(3) by simp
  then have m: "mset (concat ps2) = mset (concat (panes s))" using p1(3) by simp
  let ?s2 = "s\<lparr>panes := ps2, active_pane := a\<rparr>"
  have "?pa \<in># mset (concat ps2)" unfolding m set_mset_mset by (rule pane_at_member [OF ca(1,2)])
  then have i: "ps2 \<noteq> []" "a \<in> set (pane_ids ps2)" using in_pane_ids ca(3) by blast+
  have lay: "layout_of ?s2 = ((tabs s, active_tab s, (ps2, row_ratios s, col_ratios s), a), workspaces s, active_workspace s)"
    by (simp add: layout_of_def grid_of_def)
  note F = set_front_grid [OF s f(1) p2(2) i lay]
  have al: "all_panes ?s2 = all_panes s" using F(2) m by simp
  have "mutate_pane_swap a b s = Some (save_tab_state ?s2)"
    using False A B ca cb p1(1) p2(1) by (simp add: mutate_pane_swap_def sync_is_save)
  then show ?thesis by (rule keepsI) (use F(1) al in \<open>simp_all add: tables_of_def\<close>)
qed

lemma set_background_tab:
  assumes s: "shape_ok s" and i: "i < length (tabs s)" "i \<noteq> active_tab s" and t: "tab_ok t"
  shows "shape_ok (s\<lparr>tabs := (tabs s)[i := t]\<rparr>)"
    and "all_panes (s\<lparr>tabs := (tabs s)[i := t]\<rparr>) + mset (concat (tab_panes (tabs s ! i))) = all_panes s + mset (concat (tab_panes t))"
proof -
  let ?s = "s\<lparr>tabs := (tabs s)[i := t]\<rparr>"
  have a: "active_tab s < length (tabs s)" using s i by (intro shape_index) auto
  have live: "live_tabs ?s = (live_tabs s)[i := t]"
    using a i by (simp add: live_tabs_eq list_update_swap live_tab_def)
  have o: "other_tabs ?s = other_tabs s" by (rule other_tabs_cong) simp_all
  have f: "front_ok ?s" "ws_ok ?s" using s a by (auto simp: shape_ok_def front_ok_def ws_ok_def)
  have "\<forall>u \<in> set ((live_tabs s)[i := t] @ other_tabs s). tab_ok u"
    using s t by (auto simp: shape_ok_def dest: set_update_subset_insert [THEN subsetD])
  then show "shape_ok ?s" unfolding shape_ok_def live o using f by blast
  show "all_panes ?s + mset (concat (tab_panes (tabs s ! i))) = all_panes s + mset (concat (tab_panes t))"
    using panes_of_tabs_update [of i "live_tabs s" t] i nth_live_tabs [OF i(1)] live o by (simp add: all_panes_def ac_simps)
qed

lemma swap_from_tab_keeps:
  assumes s: "shape_ok s"
  shows "keeps s (mutate_pane_swap_from_tab src t s)"
proof (cases "tab_position src 0 (tabs s)")
  case None
  then show ?thesis using s by (simp add: mutate_pane_swap_from_tab_def)
next
  case (Some i)
  show ?thesis
  proof (cases "i = active_tab s \<or> sum_list (map length (tab_panes (tabs s ! i))) \<noteq> 1")
    case True
    then show ?thesis using s Some by (auto simp: mutate_pane_swap_from_tab_def)
  next
    case False
    have i: "i < length (tabs s)" "i \<noteq> active_tab s" using tab_position_index [OF Some] False by auto
    obtain p where p: "tab_panes (tabs s ! i) = [[p]]" by (rule single_background [OF s i]) (use False in auto)
    show ?thesis
    proof (cases "pane_id p = t \<or> find_pane_coord s t = None")
      case True
      then show ?thesis using s Some False p by (auto simp: mutate_pane_swap_from_tab_def)
    next
      case go: False
      then obtain r c where rc: "find_pane_coord s t = Some (r, c)" by auto
      note c = find_pane_coord_Some [OF rc] and f = found_front [OF s rc]
      let ?q = "panes s ! r ! c"
      let ?t = "(tabs s ! i)\<lparr>tab_panes := [[?q]], tab_active_pane := t\<rparr>"
      let ?s1 = "s\<lparr>tabs := (tabs s)[i := ?t]\<rparr>"
      have "tabs s ! i \<in> set (live_tabs s)" using nth_live_tabs [OF i(1)] i by (metis length_live_tabs nth_mem)
      then have "tab_ok (tabs s ! i)" using s by (auto simp: shape_ok_def)
      then have t: "tab_ok ?t" using p c(3) by (auto simp: tab_ok_def grid_ok_def row_ok_def pane_ids_def list_all2_Cons1)
      note S1 = set_background_tab [OF s i t]
      obtain ps where g: "set_pane r c p (panes s) = Some ps" "grid_ok (ps, row_ratios s, col_ratios s)"
        "mset (concat ps) + {#?q#} = add_mset p (mset (concat (panes s)))"
        by (rule set_pane_ok [OF f(2) c(1,2)])
      let ?s2 = "s\<lparr>panes := ps, active_pane := pane_id p, tabs := (tabs s)[i := ?t]\<rparr>"
      have a1: "active_tab ?s1 < length (tabs ?s1)" using f(1) by simp
      have pq: "?q \<noteq> p" using go c(3) by auto
      have "p \<in># mset (concat ps) + {#?q#}" unfolding g(3) by simp
      then have "p \<in># mset (concat ps)" using pq by auto
      then have pin: "ps \<noteq> []" "pane_id p \<in> set (pane_ids ps)" using in_pane_ids by blast+
      have lay: "layout_of ?s2 = ((tabs ?s1, active_tab ?s1, (ps, row_ratios s, col_ratios s), pane_id p), workspaces ?s1, active_workspace ?s1)"
        by (simp add: layout_of_def grid_of_def)
      note F = set_front_grid [OF S1(1) a1 g(2) pin lay]
      have one: "add_mset p (all_panes ?s1) = add_mset ?q (all_panes s)" using S1(2) p by simp
      have two: "all_panes ?s2 + mset (concat (panes s)) = all_panes ?s1 + mset (concat ps)" using F(2) by simp
      have "all_panes ?s2 + (mset (concat ps) + {#?q#}) = all_panes ?s2 + mset (concat (panes s)) + {#p#}" unfolding g(3) by simp
      also have "\<dots> = add_mset p (all_panes ?s1) + mset (concat ps)" unfolding two by simp
      finally have al: "all_panes ?s2 = all_panes s" unfolding one by simp
      have "mutate_pane_swap_from_tab src t s = Some (save_tab_state ?s2)"
        using Some False p go rc c i(1) g(1)
        by (simp add: mutate_pane_swap_from_tab_def sync_is_save) (simp add: set_pane_def)
      then show ?thesis by (rule keepsI) (use F(1) al in \<open>simp_all add: tables_of_def\<close>)
    qed
  qed
qed

end
