(* ===== verification/Layout_Strip.thy ===== *)
theory Layout_Strip
  imports Layout_Drag
begin

text \<open>
  The last operations (reordering tabs, emptying a workspace, dragging a divider), and the layout
  as one transition system: every operation the user interface dispatches, the guard under which
  the invariant is kept, and the states that can be reached.
\<close>

section \<open>Reordering tabs\<close>

lemma front_okI: "active_tab s < length (tabs s) \<Longrightarrow> front_ok s"
  by (auto simp: front_ok_def)

lemma panes_of_tabs_mset: "panes_of_tabs ts = \<Sum>\<^sub># (image_mset (\<lambda>t. mset (concat (tab_panes t))) (mset ts))"
  by (induction ts) simp_all

lemma mset_update_at: "i < length xs \<Longrightarrow> add_mset (xs ! i) (mset (xs[i := y])) = add_mset y (mset xs)"
  by (simp add: mset_update)

lemma reorder_keeps:
  assumes s: "shape_ok s" and d: "distinct (map tab_id (tabs s))"
  shows "keeps s (mutate_tab_reorder src n s)"
proof (cases "tab_position src 0 (tabs s)")
  case None
  then show ?thesis using s by (simp add: mutate_tab_reorder_def)
next
  case (Some old)
  define clamped where "clamped = min n (length (tabs s))"
  define adj where "adj = (if old < clamped then clamped - 1 else clamped)"
  have eq0: "mutate_tab_reorder src n s = (if adj = old then Some s
     else do { front \<leftarrow> nth_opt (tabs s) (active_tab s);
             t \<leftarrow> nth_opt (tabs s) old;
             ts \<leftarrow> vec_remove old (tabs s);
             ts' \<leftarrow> vec_insert_at (min adj (length ts)) t ts;
             Some (s\<lparr>tabs := ts', active_tab :=
               (case tab_position (tab_id front) 0 ts' of Some i \<Rightarrow> i | None \<Rightarrow> 0)\<rparr>) })"
    unfolding mutate_tab_reorder_def adj_def clamped_def Let_def Some by simp
  show ?thesis
  proof (cases "adj = old")
    case True
    then show ?thesis using s eq0 by simp
  next
    case False
    have old: "old < length (tabs s)" using tab_position_index [OF Some] by simp
    have a: "active_tab s < length (tabs s)" using s old by (intro shape_index) auto
    let ?front = "tabs s ! active_tab s"
    let ?ts = "take old (tabs s) @ drop (Suc old) (tabs s)"
    let ?pos = "min adj (length ?ts)"
    define ts' where "ts' = take ?pos ?ts @ tabs s ! old # drop ?pos ?ts"
    have m: "mset ts' = mset (tabs s)" unfolding ts'_def using mset_remove_at [OF old] by (simp only: mset_insert_at)
    then have sets: "set ts' = set (tabs s)" by (metis set_mset_mset)
    have d': "distinct (map tab_id ts')" using m d by (metis mset_eq_imp_distinct_iff mset_map)
    have "?front \<in> set ts'" unfolding sets using a by (rule nth_mem)
    then obtain k where k: "tab_position (tab_id ?front) 0 ts' = Some k" using tab_position_None [of "tab_id ?front" 0 ts'] by fastforce
    then have kl: "k < length ts'" and ki: "tab_id (ts' ! k) = tab_id ?front" using tab_position_index by blast+
    have kf: "ts' ! k = ?front"
      using d' kl ki \<open>?front \<in> set ts'\<close> by (metis distinct_map inj_onD nth_mem)
    let ?s = "s\<lparr>tabs := ts', active_tab := k\<rparr>"
    have eq: "mutate_tab_reorder src n s = Some ?s"
      unfolding eq0
      using ts'_def False nth_opt_Some [OF a] nth_opt_Some [OF old] vec_remove_Some [OF old] vec_insert_at_Some [of ?pos ?ts "tabs s ! old"] k
      by (simp del: nth_opt_Some vec_remove_Some vec_insert_at_Some length_append)
    have live: "live_tabs ?s = ts'[k := live_tab s ?front]"
      using kl kf by (simp add: live_tabs_eq live_tab_def)
    have "add_mset ?front (mset (live_tabs ?s)) = add_mset ?front (mset (live_tabs s))"
      using mset_update_at [OF kl, of "live_tab s ?front"] mset_update_at [OF a, of "live_tab s ?front"]
      unfolding live live_tabs_eq [OF a] kf m by simp
    then have ml: "mset (live_tabs ?s) = mset (live_tabs s)" by simp
    then have "set (live_tabs ?s) = set (live_tabs s)" by (metis set_mset_mset)
    moreover have o: "other_tabs ?s = other_tabs s" by (rule other_tabs_cong) simp_all
    moreover have "front_ok ?s" by (rule front_okI) (use kl in simp)
    ultimately have "shape_ok ?s" using s by (simp add: shape_ok_def ws_ok_def)
    moreover have "all_panes ?s = all_panes s" using ml o by (simp add: all_panes_def panes_of_tabs_mset)
    ultimately show ?thesis by (intro keepsI [OF eq]) (simp_all add: tables_of_def)
  qed
qed

section \<open>Emptying a workspace\<close>

lemma map_upto_other:
  assumes a: "a < length xs"
  shows "map (\<lambda>i. f (xs ! i)) [i \<leftarrow> [0..<length xs]. i \<noteq> a] = map f (take a xs @ drop (Suc a) xs)"
proof -
  have "[0..<length xs] = [0..<a] @ a # [Suc a..<length xs]"
    using a upt_add_eq_append [of 0 a "length xs - a"] upt_conv_Cons [of a "length xs"] by simp
  then have "[i \<leftarrow> [0..<length xs]. i \<noteq> a] = [0..<a] @ [Suc a..<length xs]" by (simp add: filter_id_conv)
  moreover have "map (\<lambda>i. f (xs ! i)) [0..<a] = map f (take a xs)" by (rule nth_equalityI) (use a in auto)
  moreover have "map (\<lambda>i. f (xs ! i)) [Suc a..<length xs] = map f (drop (Suc a) xs)" by (rule nth_equalityI) (use a in auto)
  ultimately show ?thesis by simp
qed

lemma mset_pane_ids: "mset (concat (map (\<lambda>t. pane_ids (tab_panes t)) ts)) = image_mset pane_id (panes_of_tabs ts)"
  by (induction ts) (simp_all add: pane_ids_def)

lemma take_drop_update_subset: "set (take a (xs[i := e]) @ drop (Suc a) (xs[i := e])) \<subseteq> insert e (set (take a xs @ drop (Suc a) xs))"
proof (cases "Suc a \<le> i")
  case True
  then have "drop (Suc a) (xs[i := e]) = (drop (Suc a) xs)[i - Suc a := e]" by (rule drop_update_swap)
  moreover have "take a (xs[i := e]) = take a xs" using True by simp
  ultimately show ?thesis using set_update_subset_insert [of "drop (Suc a) xs"] by auto
next
  case False
  then have "drop (Suc a) (xs[i := e]) = drop (Suc a) xs" by simp
  moreover have "take a (xs[i := e]) = (take a xs)[i := e]" by (rule take_update_swap)
  ultimately show ?thesis using set_update_subset_insert [of "take a xs"] by auto
qed

lemma kill_workspace_closes:
  assumes s: "shape_ok s" and w: "w < length (workspaces s)"
  obtains ids where "closes ids s (mutate_kill_workspace_terminals w s)"
proof -
  let ?a = "active_workspace s" and ?e = "(workspaces s ! w)\<lparr>ws_tabs := [], ws_active_tab := 0\<rparr>"
  define ids where "ids = (if w = ?a
    then pane_ids (panes s) @ concat (map (\<lambda>i. pane_ids (tab_panes (tabs s ! i))) [i \<leftarrow> [0..<length (tabs s)]. i \<noteq> active_tab s])
    else concat (map (\<lambda>t. pane_ids (tab_panes t)) (ws_tabs (workspaces s ! w))))"
  define s1 where "s1 = fold (teardown_pane False) ids s"
  let ?ws = "(workspaces s)[w := ?e]"
  have a: "?a < length (workspaces s)" using s w by (auto simp: shape_ok_def ws_ok_def)
  have lay: "layout_of s1 = layout_of s" by (simp add: s1_def)
  then have f: "workspaces s1 = workspaces s" "active_workspace s1 = ?a" "tabs s1 = tabs s" by (simp_all add: layout_of_def)
  have eq: "mutate_kill_workspace_terminals w s =
    (if w = ?a then clear_live (s1\<lparr>tabs := [], workspaces := ?ws\<rparr>) else s1\<lparr>workspaces := ?ws\<rparr>)"
    using w f unfolding mutate_kill_workspace_terminals_def ids_def [symmetric] Let_def s1_def [symmetric]
    by (simp add: clear_live_def)
  have others: "\<forall>t \<in> set (other_tabs s). tab_ok t" and lives: "\<forall>t \<in> set (live_tabs s). tab_ok t" using s by (simp_all add: shape_ok_def)
  show thesis
  proof (cases "w = ?a")
    case True
    let ?s = "s1\<lparr>tabs := [], workspaces := ?ws\<rparr>"
    have o: "other_tabs ?s = other_tabs s" using True by (simp add: other_tabs_def f)
    have c: "tabs ?s = []" "ws_ok ?s" "\<forall>t \<in> set (other_tabs ?s). tab_ok t" using a others o by (simp_all add: ws_ok_def f)
    note C = cleared_ok [OF c]
    have "mset ids = image_mset pane_id (panes_of_tabs (live_tabs s))"
    proof (cases "tabs s = []")
      case True
      then show ?thesis using s \<open>w = ?a\<close> by (simp add: ids_def shape_ok_def front_ok_def pane_ids_def) (simp add: live_tabs_def save_tab_state_def)
    next
      case False
      note i = shape_index [OF s False]
      have "panes_of_tabs (live_tabs s) = mset (concat (panes s)) + panes_of_tabs (take (active_tab s) (tabs s) @ drop (Suc (active_tab s)) (tabs s))"
        using panes_of_tabs_remove [of "active_tab s" "live_tabs s"] i by (simp add: front_tab) (simp add: live_tabs_eq)
      moreover have "mset ids = image_mset pane_id (mset (concat (panes s))) +
        image_mset pane_id (panes_of_tabs (take (active_tab s) (tabs s) @ drop (Suc (active_tab s)) (tabs s)))"
        unfolding ids_def map_upto_other [OF i, of "\<lambda>t. pane_ids (tab_panes t)"] mset_append mset_pane_ids
        using \<open>w = ?a\<close> mset_pane_ids [of "take (active_tab s) (tabs s) @ drop (Suc (active_tab s)) (tabs s)"]
        by (simp add: pane_ids_def)
      ultimately show ?thesis by simp
    qed
    moreover have "all_panes s = panes_of_tabs (live_tabs s) + all_panes (clear_live ?s)"
      unfolding C(2) o by (simp add: all_panes_def)
    moreover have "tables_of (clear_live ?s) = tables_of s1" unfolding C(3) by (simp add: tables_of_def)
    ultimately have "closes ids s (clear_live ?s)"
      by (intro closesI [of _ _ "panes_of_tabs (live_tabs s)" _ False] C(1)) (simp_all add: s1_def)
    then show thesis using that eq True by simp
  next
    case False
    let ?s = "s1\<lparr>workspaces := ?ws\<rparr>"
    have live: "live_tabs ?s = live_tabs s"
      using live_tabs_cong [OF lay] by (simp add: live_tabs_def save_tab_state_def live_tab_def split: if_splits)
    have front: "front_ok ?s = front_ok s" using lay by (simp add: front_ok_def layout_of_def grid_of_def)
    have "set (other_tabs ?s) \<subseteq> set (other_tabs s)"
      using take_drop_update_subset [of ?a "workspaces s" w ?e] by (auto simp: other_tabs_def f)
    then have ok: "shape_ok ?s" using s live front a by (auto simp: shape_ok_def ws_ok_def f)
    have o: "panes_of_tabs (other_tabs s) = panes_of_tabs (ws_tabs (workspaces s ! w)) + panes_of_tabs (other_tabs ?s)"
    proof -
      have wa: "?ws ! ?a = workspaces s ! ?a" using False by simp
      have "ws_panes (workspaces s) = panes_of_tabs (ws_tabs (workspaces s ! w)) + ws_panes ?ws"
        using ws_panes_remove [OF w] ws_panes_remove [of w ?ws] w by simp
      then show ?thesis using ws_panes_remove [OF a] ws_panes_remove [of ?a ?ws] a wa by (simp add: other_tabs_panes f ac_simps)
    qed
    have "mset ids = image_mset pane_id (panes_of_tabs (ws_tabs (workspaces s ! w)))"
      using False by (simp add: ids_def mset_pane_ids)
    then have "closes ids s ?s"
      by (intro closesI [of _ _ "panes_of_tabs (ws_tabs (workspaces s ! w))" _ False] ok)
        (simp_all add: o all_panes_def live s1_def [symmetric] tables_of_def ac_simps)
    then show thesis using that eq False by simp
  qed
qed

section \<open>Dragging a divider\<close>

lemma rat_clamp_Some: "lo \<le> hi \<Longrightarrow> \<exists>y. rat_clamp lo hi x = Some y \<and> lo \<le> y \<and> y \<le> hi"
  by (simp add: rat_clamp_def)

lemma apply_ratio_delta_ok:
  assumes len: "length ratios = length initial" and i: "i + 1 < length initial"
    and wide: "2 * MIN_PANE_RATIO \<le> initial ! i + initial ! (i + 1)" and pos: "\<forall>x \<in> set ratios. 0 < x"
  obtains ratios' where "apply_ratio_delta ratios i (i + 1) initial d px = Some ratios'"
    and "length ratios' = length ratios" and "\<forall>x \<in> set ratios'. 0 < x"
proof (cases "px \<le> 0")
  case True
  then show thesis using that [of ratios] pos by (simp add: apply_ratio_delta_def)
next
  case False
  let ?sum = "initial ! i + initial ! (i + 1)"
  obtain y where y: "rat_clamp MIN_PANE_RATIO (?sum - MIN_PANE_RATIO) (initial ! i + d / px * sum_list initial) = Some y"
    "MIN_PANE_RATIO \<le> y" "y \<le> ?sum - MIN_PANE_RATIO"
    using rat_clamp_Some [of MIN_PANE_RATIO "?sum - MIN_PANE_RATIO"] wide that by (metis le_diff_eq mult_2)
  have min: "0 < MIN_PANE_RATIO" by (simp add: MIN_PANE_RATIO_def)
  have "apply_ratio_delta ratios i (i + 1) initial d px = Some (ratios[i := y, i + 1 := ?sum - y])"
    using False i len y(1) by (simp add: apply_ratio_delta_def Let_def)
  moreover have "\<forall>x \<in> set (ratios[i := y, i + 1 := ?sum - y]). 0 < x"
    using pos y min by (auto dest!: set_update_subset_insert [THEN subsetD])
  ultimately show thesis using that by simp
qed

definition drag_ok :: "rat list \<Rightarrow> nat \<Rightarrow> rat list \<Rightarrow> bool" where
  "drag_ok ratios i initial \<longleftrightarrow> length ratios = length initial \<and> i + 1 < length initial \<and>
     2 * MIN_PANE_RATIO \<le> initial ! i + initial ! (i + 1)"

text \<open>New shares of the same shape for the tab in front.\<close>

lemma set_shares_keeps:
  assumes s: "shape_ok s" and a: "active_tab s < length (tabs s)" and g: "grid_ok (panes s, rr, cr)"
  shows "keeps s (Some (s\<lparr>row_ratios := rr, col_ratios := cr\<rparr>))"
proof -
  have d: "panes s \<noteq> [] \<or> tabs s \<noteq> []" using a by auto
  note f = shape_front [OF s d]
  have l: "layout_of (s\<lparr>row_ratios := rr, col_ratios := cr\<rparr>) =
    ((tabs s, active_tab s, (panes s, rr, cr), active_pane s), workspaces s, active_workspace s)"
    by (simp add: layout_of_def grid_of_def)
  note F = set_front_grid [OF s a g f(3,4) l]
  show ?thesis by (rule keepsI [OF refl F(1)]) (use F(2) in \<open>simp_all add: tables_of_def\<close>)
qed

lemma drag_row_keeps:
  assumes s: "shape_ok s" and ok: "drag_ok (row_ratios s) i initial"
  shows "keeps s (drag_row_divider i initial d px s)"
proof -
  have "row_ratios s \<noteq> []" using ok by (auto simp: drag_ok_def)
  then have "tabs s \<noteq> []" using s by (auto simp: shape_ok_def front_ok_def split: if_splits)
  note f = shape_front [OF s disjI2 [OF this]]
  have g: "grid_ok (panes s, row_ratios s, col_ratios s)" using f(2) by (simp add: grid_of_def)
  then have pos: "\<forall>x \<in> set (row_ratios s). 0 < x" by (simp add: grid_ok_def)
  obtain rr where r: "apply_ratio_delta (row_ratios s) i (i + 1) initial d px = Some rr"
    "length rr = length (row_ratios s)" "\<forall>x \<in> set rr. 0 < x"
    by (rule apply_ratio_delta_ok [of "row_ratios s" initial i]) (use ok pos in \<open>simp_all add: drag_ok_def\<close>)
  have "grid_ok (panes s, rr, col_ratios s)" using g r by (simp add: grid_ok_def)
  from set_shares_keeps [OF s f(1) this] show ?thesis using r(1) by (simp add: drag_row_divider_def)
qed

lemma drag_col_keeps:
  assumes s: "shape_ok s" and r: "r < length (col_ratios s)" and ok: "drag_ok (col_ratios s ! r) i initial"
  shows "keeps s (drag_col_divider r i initial d px s)"
proof -
  have "col_ratios s \<noteq> []" using r by auto
  then have "tabs s \<noteq> []" using s by (auto simp: shape_ok_def front_ok_def split: if_splits)
  note f = shape_front [OF s disjI2 [OF this]]
  have g: "grid_ok (panes s, row_ratios s, col_ratios s)" using f(2) by (simp add: grid_of_def)
  have rp: "r < length (panes s)" using r grid_ok_lengths(2) [OF g] by simp
  have row: "row_ok (panes s ! r) (col_ratios s ! r)" by (rule grid_ok_lengths(3) [OF g rp])
  obtain cr where c: "apply_ratio_delta (col_ratios s ! r) i (i + 1) initial d px = Some cr"
    "length cr = length (col_ratios s ! r)" "\<forall>x \<in> set cr. 0 < x"
    by (rule apply_ratio_delta_ok [of "col_ratios s ! r" initial i]) (use ok row in \<open>simp_all add: drag_ok_def row_ok_def\<close>)
  have "row_ok (panes s ! r) cr" using row c by (simp add: row_ok_def)
  then have "grid_ok (panes s, row_ratios s, (col_ratios s)[r := cr])"
    using g r by (auto simp: grid_ok_def list_all2_conv_all_nth nth_list_update)
  from set_shares_keeps [OF s f(1) this] show ?thesis using r c(1) by (simp add: drag_col_divider_def)
qed

section \<open>All operations\<close>

datatype layout_op =
    AddTab bool | AddEditorTab bool rstr | AddFlowTab rstr
  | SwitchTab nat | SwitchWorkspace nat
  | SplitRight bool u32 | SplitDown bool u32
  | CloseTab nat | ClosePane u32 | KillWorkspace nat
  | FocusLeft | FocusRight | FocusUp | FocusDown
  | ExtractPane u32 nat | ReorderTab rstr nat | DropSplit rstr u32 drop_zone
  | MoveToEdge u32 u32 drop_zone | SwapPanes u32 u32 | SwapFromTab rstr u32
  | DragRow nat "rat list" rat rat | DragCol nat nat "rat list" rat rat

fun layout_apply :: "layout_op \<Rightarrow> app \<Rightarrow> app option" where
  "layout_apply (AddTab b) s = Some (mutate_add_tab b s)"
| "layout_apply (AddEditorTab d title) s = Some (snd (mutate_add_editor_tab d title s))"
| "layout_apply (AddFlowTab title) s = Some (snd (mutate_add_flow_tab title s))"
| "layout_apply (SwitchTab i) s = mutate_switch_tab i s"
| "layout_apply (SwitchWorkspace i) s = mutate_switch_workspace i s"
| "layout_apply (SplitRight b t) s = mutate_split_right b t s"
| "layout_apply (SplitDown b t) s = mutate_split_down b t s"
| "layout_apply (CloseTab i) s = mutate_close_tab i s"
| "layout_apply (ClosePane t) s = mutate_close_pane t s"
| "layout_apply (KillWorkspace i) s = Some (mutate_kill_workspace_terminals i s)"
| "layout_apply FocusLeft s = mutate_focus_left s"
| "layout_apply FocusRight s = mutate_focus_right s"
| "layout_apply FocusUp s = mutate_focus_up s"
| "layout_apply FocusDown s = mutate_focus_down s"
| "layout_apply (ExtractPane t i) s = mutate_extract_pane_to_tab t i s"
| "layout_apply (ReorderTab src i) s = mutate_tab_reorder src i s"
| "layout_apply (DropSplit src t z) s = mutate_pane_drop_split src t z s"
| "layout_apply (MoveToEdge src t z) s = mutate_pane_move_to_edge src t z s"
| "layout_apply (SwapPanes a b) s = mutate_pane_swap a b s"
| "layout_apply (SwapFromTab src t) s = mutate_pane_swap_from_tab src t s"
| "layout_apply (DragRow i initial d px) s = drag_row_divider i initial d px s"
| "layout_apply (DragCol r i initial d px) s = drag_col_divider r i initial d px s"

text \<open>
  What keeps the invariant: a fresh id is left when something opens, the tab ids are distinct when
  tabs are reordered (extracting a pane can make two equal), a tab is dropped on an edge, and the
  two shares a divider separates leave room for two minimal panes. Closing a tab that does not
  exist is no operation.
\<close>

fun layout_guard :: "layout_op \<Rightarrow> app \<Rightarrow> bool" where
  "layout_guard (AddTab b) s = (next_id s + 1 \<noteq> 0)"
| "layout_guard (AddEditorTab d title) s = (next_id s + 1 \<noteq> 0)"
| "layout_guard (AddFlowTab title) s = (next_id s + 1 \<noteq> 0)"
| "layout_guard (SplitRight b t) s = (next_id s + 1 \<noteq> 0)"
| "layout_guard (SplitDown b t) s = (next_id s + 1 \<noteq> 0)"
| "layout_guard (ReorderTab src i) s = distinct (map tab_id (tabs s))"
| "layout_guard (DropSplit src t z) s = (z \<noteq> ZCenter)"
| "layout_guard (DragRow i initial d px) s = drag_ok (row_ratios s) i initial"
| "layout_guard (DragCol r i initial d px) s = (r < length (col_ratios s) \<and> drag_ok (col_ratios s ! r) i initial)"
| "layout_guard _ s = True"

inductive layout_reachable :: "app \<Rightarrow> app \<Rightarrow> bool" for s0 where
  start: "layout_reachable s0 s0"
| step: "layout_reachable s0 s \<Longrightarrow> layout_guard a s \<Longrightarrow> layout_apply a s = Some s' \<Longrightarrow> layout_reachable s0 s'"

lemma keeps_app:
  assumes "app_ok s" and "keeps s r"
  shows "\<exists>s'. r = Some s' \<and> app_ok s'"
proof -
  obtain s' where "r = Some s'" "shape_ok s'" "all_panes s' = all_panes s" and t: "tables_of s' = tables_of s"
    using assms(2) unfolding keeps_def by blast
  then show ?thesis using assms(1) ids_cong [OF t] by (simp add: app_ok_def pool_def)
qed

lemma opens_app:
  assumes ok: "app_ok s" and o: "opens s s'" and room: "next_id s + 1 \<noteq> 0"
  shows "app_ok s'"
proof -
  obtain p where p: "pane_id p = next_id s" "all_panes s' = add_mset p (all_panes s)" and s': "shape_ok s'"
    and t: "tables_of s' = (next_id s + 1, insert (next_id s) (terminals s), editors s, flows s) \<or>
      tables_of s' = (next_id s + 1, terminals s, insert (next_id s) (editors s), flows s) \<or>
      tables_of s' = (next_id s + 1, terminals s, editors s, insert (next_id s) (flows s))"
    using o unfolding opens_def by blast
  have "pool s' = add_mset (next_id s) (pool s)" using p by (simp add: pool_def)
  then show ?thesis using ids_new [OF _ room t] ok s' by (simp add: app_ok_def)
qed

lemma closes_app: "app_ok s \<Longrightarrow> closes ids s s' \<Longrightarrow> app_ok s'"
  using closes_ids [of ids s s'] by (simp add: app_ok_def closes_def)

lemma layout_apply_ok:
  assumes ok: "app_ok s" and guard: "layout_guard a s"
  shows "\<exists>s'. layout_apply a s = Some s' \<and> app_ok s'"
proof -
  have s: "shape_ok s" using ok by (simp add: app_ok_def)
  show ?thesis
  proof (cases a)
    case (AddTab b)
    then show ?thesis using opens_app [OF ok add_tab_opens [OF s]] guard by simp
  next
    case (AddEditorTab d title)
    then show ?thesis using opens_app [OF ok add_editor_tab_opens [OF s]] guard by simp
  next
    case (AddFlowTab title)
    then show ?thesis using opens_app [OF ok add_flow_tab_opens [OF s]] guard by simp
  next
    case (SwitchTab i)
    then show ?thesis using keeps_app [OF ok switch_tab_keeps [OF s]] by simp
  next
    case (SwitchWorkspace i)
    then show ?thesis using keeps_app [OF ok switch_workspace_keeps [OF s]] by simp
  next
    case (SplitRight b t)
    then show ?thesis using split_right_opens [OF s, of b t] opens_app [OF ok] ok guard by (metis layout_apply.simps(6) layout_guard.simps(4))
  next
    case (SplitDown b t)
    then show ?thesis using split_down_opens [OF s, of b t] opens_app [OF ok] ok guard by (metis layout_apply.simps(7) layout_guard.simps(5))
  next
    case (CloseTab i)
    show ?thesis
    proof (cases "i < length (tabs s)")
      case True
      then show ?thesis using CloseTab close_tab_closes [OF s True] closes_app [OF ok] by (metis layout_apply.simps(8))
    qed (use CloseTab ok in \<open>simp add: mutate_close_tab_def\<close>)
  next
    case (ClosePane t)
    then show ?thesis using close_pane_closes [OF s, of t] closes_app [OF ok] ok by (metis layout_apply.simps(9))
  next
    case (KillWorkspace i)
    show ?thesis
    proof (cases "i < length (workspaces s)")
      case True
      then show ?thesis using KillWorkspace kill_workspace_closes [OF s True] closes_app [OF ok] by (metis layout_apply.simps(10))
    qed (use KillWorkspace ok in \<open>simp add: mutate_kill_workspace_terminals_def\<close>)
  next
    case (ExtractPane t i)
    then show ?thesis using keeps_app [OF ok extract_keeps [OF s]] by simp
  next
    case (ReorderTab src i)
    then show ?thesis using keeps_app [OF ok reorder_keeps [OF s]] guard by simp
  next
    case (DropSplit src t z)
    then show ?thesis using keeps_app [OF ok drop_split_keeps [OF s]] guard by simp
  next
    case (MoveToEdge src t z)
    then show ?thesis using keeps_app [OF ok move_to_edge_keeps [OF s]] by simp
  next
    case (SwapPanes a b)
    then show ?thesis using keeps_app [OF ok swap_keeps [OF s]] by simp
  next
    case (SwapFromTab src t)
    then show ?thesis using keeps_app [OF ok swap_from_tab_keeps [OF s]] by simp
  next
    case (DragRow i initial d px)
    then show ?thesis using keeps_app [OF ok drag_row_keeps [OF s]] guard by simp
  next
    case (DragCol r i initial d px)
    then show ?thesis using keeps_app [OF ok drag_col_keeps [OF s]] guard by simp
  qed (use keeps_app [OF ok] focus_moves_keep [OF s] in simp_all)
qed

lemma reachable_app_ok: "layout_reachable s0 s \<Longrightarrow> app_ok s0 \<Longrightarrow> app_ok s"
proof (induction rule: layout_reachable.induct)
  case (step s a s')
  then show ?case using layout_apply_ok [of s a] by auto
qed

text \<open>
  The tab strip as an abstract list: seen as a list of tabs
  with a front one (\<open>strip_of\<close>), the handlers that save and load the live fields are plain list
  operations.
\<close>

section \<open>The tab strip as a list\<close>

type_synonym tab_strip = "(rstr \<times> pane list list \<times> rat list \<times> rat list list) list \<times> nat"

definition strip_of :: "app \<Rightarrow> tab_strip" where
  "strip_of s = (map tab_face (live_tabs s), active_tab s)"

fun face_position :: "rstr \<Rightarrow> nat \<Rightarrow> (rstr \<times> 'a) list \<Rightarrow> nat option" where
  "face_position x i [] = None"
| "face_position x i (t # ts) = (if fst t = x then Some i else face_position x (Suc i) ts)"

text \<open>A dragged tab lands before the slot it was dropped on; the front one is followed by its id.\<close>

definition strip_reorder :: "rstr \<Rightarrow> nat \<Rightarrow> tab_strip \<Rightarrow> tab_strip" where
  "strip_reorder x n = (\<lambda>(ts, k). case face_position x 0 ts of None \<Rightarrow> (ts, k)
   | Some old \<Rightarrow>
       let m = min n (length ts); pos = (if old < m then m - 1 else m);
           rest = take old ts @ drop (Suc old) ts;
           ts' = take pos rest @ ts ! old # drop pos rest
       in (ts', the (face_position (fst (ts ! k)) 0 ts')))"

fun strip_apply :: "layout_op \<Rightarrow> tab_strip \<Rightarrow> tab_strip" where
  "strip_apply (SwitchTab i) (ts, k) = (ts, if i < length ts then i else k)"
| "strip_apply (ReorderTab x n) (ts, k) = strip_reorder x n (ts, k)"
| "strip_apply (CloseTab i) (ts, k) =
     (if i < length ts then (take i ts @ drop (Suc i) ts, if i < k then k - 1 else k) else (ts, k))"
| "strip_apply _ st = st"

text \<open>The operations of the strip: switching, reordering, closing a tab in the background, moving the focus.\<close>

fun strip_op :: "layout_op \<Rightarrow> app \<Rightarrow> bool" where
  "strip_op (SwitchTab i) s = True"
| "strip_op (ReorderTab x n) s = (tabs s \<noteq> [])"
| "strip_op (CloseTab i) s = (i \<noteq> active_tab s)"
| "strip_op FocusLeft s = True"
| "strip_op FocusRight s = True"
| "strip_op FocusUp s = True"
| "strip_op FocusDown s = True"
| "strip_op _ s = False"

lemma face_position_map: "face_position x i (map tab_face ts) = tab_position x i ts"
  by (induction ts arbitrary: i) (simp_all add: tab_face_def)

lemma tab_position_ids: "map tab_id ts = map tab_id us \<Longrightarrow> tab_position x i ts = tab_position x i us"
  by (induction ts us arbitrary: i rule: list_induct2') auto

lemma live_tab_ids: "map tab_id (live_tabs s) = map tab_id (tabs s)"
  by (cases "active_tab s < length (tabs s)")
    (simp_all add: live_tabs_eq map_update list_update_same_conv live_tabs_def save_tab_state_def)

lemma tab_position_distinct:
  assumes "distinct (map tab_id ts)" and "i < length ts"
  shows "tab_position (tab_id (ts ! i)) 0 ts = Some i"
proof -
  obtain k where k: "tab_position (tab_id (ts ! i)) 0 ts = Some k"
    using tab_position_None [of "tab_id (ts ! i)" 0 ts] assms(2) by fastforce
  then have "k < length ts" "map tab_id ts ! k = map tab_id ts ! i" using tab_position_index [OF k] assms(2) by simp_all
  then have "k = i" using assms nth_eq_iff_index_eq by fastforce
  then show ?thesis using k by simp
qed

lemma insert_remove_same:
  assumes "old < length xs"
  shows "take old (take old xs @ drop (Suc old) xs) @ xs ! old # drop old (take old xs @ drop (Suc old) xs) = xs"
  using assms by (simp add: id_take_nth_drop [symmetric])

text \<open>The live tabs are the saved ones with the live layout for the one whose id is that of the front.\<close>

definition with_live :: "tab \<Rightarrow> tab \<Rightarrow> tab" where
  "with_live l t = (if tab_id t = tab_id l then l else t)"

lemma update_is_with_live:
  assumes d: "distinct (map tab_id ts)" and k: "k < length ts" and l: "tab_id l = tab_id (ts ! k)"
  shows "ts[k := l] = map (with_live l) ts"
proof (rule nth_equalityI)
  fix j assume "j < length (ts[k := l])"
  then have j: "j < length ts" by simp
  have "tab_id (ts ! j) = tab_id (ts ! k) \<longleftrightarrow> j = k"
    using d j k nth_eq_iff_index_eq [of "map tab_id ts" j k] by simp
  then show "ts[k := l] ! j = map (with_live l) ts ! j" using j k l by (auto simp: with_live_def)
qed simp

lemma reorder_strip:
  assumes s: "shape_ok s" and d: "distinct (map tab_id (tabs s))" and ne: "tabs s \<noteq> []"
    and r: "mutate_tab_reorder x n s = Some s'"
  shows "strip_of s' = strip_reorder x n (strip_of s)"
proof (cases "tab_position x 0 (tabs s)")
  case None
  then show ?thesis using r tab_position_ids [OF live_tab_ids]
    by (simp add: mutate_tab_reorder_def strip_reorder_def strip_of_def face_position_map)
next
  case (Some old)
  define adj where "adj = (if old < min n (length (tabs s)) then min n (length (tabs s)) - 1 else min n (length (tabs s)))"
  note a = shape_index [OF s ne]
  have old: "old < length (tabs s)" using tab_position_index [OF Some] by simp
  let ?front = "tabs s ! active_tab s"
  let ?L = "live_tab s ?front"
  define rest where "rest = take old (tabs s) @ drop (Suc old) (tabs s)"
  define ts' where "ts' = take adj rest @ tabs s ! old # drop adj rest"
  have lrest: "length rest = length (tabs s) - 1" using old by (simp add: rest_def)
  have adj: "adj \<le> length rest" using old by (auto simp: adj_def lrest)
  have m: "mset ts' = mset (tabs s)" unfolding ts'_def rest_def using mset_remove_at [OF old] by (simp only: mset_insert_at)
  have d': "distinct (map tab_id ts')" using m d by (metis mset_eq_imp_distinct_iff mset_map)
  have "?front \<in> set ts'" using m a by (metis nth_mem set_mset_mset)
  then obtain k where k: "k < length ts'" "ts' ! k = ?front" by (auto simp: in_set_conv_nth)
  have pk: "tab_position (tab_id ?front) 0 ts' = Some k" using tab_position_distinct [OF d' k(1)] k(2) by simp
  have live: "live_tabs s = map (with_live ?L) (tabs s)"
    unfolding live_tabs_eq [OF a] by (rule update_is_with_live [OF d a]) simp
  have goal: "strip_reorder x n (strip_of s) = (map tab_face (map (with_live ?L) ts'), k)"
  proof -
    let ?faces = "map tab_face (map (with_live ?L) (tabs s))"
    have st: "strip_of s = (?faces, active_tab s)" by (simp add: strip_of_def live)
    have pos: "face_position x 0 ?faces = Some old"
      using Some tab_position_ids [OF live_tab_ids] by (simp only: face_position_map live [symmetric])
    have ft: "fst (?faces ! active_tab s) = tab_id ?front" using a by (simp add: tab_face_def with_live_def)
    have tk: "take adj (take old ?faces @ drop (Suc old) ?faces) @ ?faces ! old # drop adj (take old ?faces @ drop (Suc old) ?faces)
      = map tab_face (map (with_live ?L) ts')"
      unfolding ts'_def rest_def using old by (simp add: take_map drop_map)
    have ids: "map tab_id (map (with_live ?L) ts') = map tab_id ts'" by (simp add: with_live_def)
    have fp: "face_position (tab_id ?front) 0 (map tab_face (map (with_live ?L) ts')) = Some k"
      unfolding face_position_map tab_position_ids [OF ids] by (rule pk)
    have len: "length ?faces = length (tabs s)" by simp
    show ?thesis
      unfolding st strip_reorder_def prod.case pos option.case Let_def len adj_def [symmetric] tk ft fp by simp
  qed
  show ?thesis
  proof (cases "adj = old")
    case True
    then have "s' = s" using r Some by (simp add: mutate_tab_reorder_def adj_def Let_def)
    have "ts' = tabs s" unfolding ts'_def True rest_def by (rule insert_remove_same [OF old])
    then have "k = active_tab s" using pk tab_position_distinct [OF d a] by simp
    then show ?thesis unfolding goal \<open>s' = s\<close> \<open>ts' = tabs s\<close> by (simp add: strip_of_def live)
  next
    case False
    have e: "mutate_tab_reorder x n s = (if adj = old then Some s
     else do { front \<leftarrow> nth_opt (tabs s) (active_tab s);
             t \<leftarrow> nth_opt (tabs s) old;
             ts \<leftarrow> vec_remove old (tabs s);
             ts' \<leftarrow> vec_insert_at (min adj (length ts)) t ts;
             Some (s\<lparr>tabs := ts', active_tab :=
               (case tab_position (tab_id front) 0 ts' of Some i \<Rightarrow> i | None \<Rightarrow> 0)\<rparr>) })"
      unfolding mutate_tab_reorder_def adj_def Let_def Some by simp
    have s': "s' = s\<lparr>tabs := ts', active_tab := k\<rparr>"
      using r unfolding e using False nth_opt_Some [OF a] nth_opt_Some [OF old] vec_remove_Some [OF old] adj pk vec_insert_at_Some [OF adj]
      unfolding rest_def [symmetric]
      by (simp add: min_absorb1 ts'_def [symmetric] del: nth_opt_Some vec_remove_Some vec_insert_at_Some)
    have "live_tabs s' = ts'[k := ?L]" unfolding s' using k by (simp add: live_tabs_eq live_tab_def)
    also have "\<dots> = map (with_live ?L) ts'" by (rule update_is_with_live [OF d' k(1)]) (simp add: k(2))
    finally show ?thesis unfolding goal by (simp add: strip_of_def s')
  qed
qed

lemma focus_strip:
  assumes s: "shape_ok s" and r: "r < length (panes s)" and c: "c < length (panes s ! r)"
  shows "focus_at r c s = Some s' \<Longrightarrow> strip_of s' = strip_of s"
proof -
  assume f: "focus_at r c s = Some s'"
  let ?s = "s\<lparr>active_pane := pane_id (panes s ! r ! c)\<rparr>"
  have ne: "panes s \<noteq> []" using r by auto
  have a: "active_tab s < length (tabs s)" by (rule shape_front(1) [OF s disjI1 [OF ne]])
  have "s' = save_tab_state ?s" using f r c by (simp add: focus_at_def sync_is_save)
  then have "live_tabs s' = live_tabs ?s" and "active_tab s' = active_tab s" by simp_all
  moreover have "map tab_face (live_tabs ?s) = map tab_face (live_tabs s)"
    using a by (simp add: live_tabs_eq map_update tab_face_def)
  ultimately show ?thesis by (simp add: strip_of_def)
qed

lemma focus_moves_strip:
  assumes s: "shape_ok s"
    and "f = mutate_focus_left \<or> f = mutate_focus_right \<or> f = mutate_focus_up \<or> f = mutate_focus_down" and "f s = Some s'"
  shows "strip_of s' = strip_of s"
proof (cases "find_pane_coord s (active_pane s)")
  case None
  then show ?thesis using assms by (auto simp: mutate_focus_left_def mutate_focus_right_def mutate_focus_up_def mutate_focus_down_def)
next
  case (Some rc)
  obtain r c where rc: "find_pane_coord s (active_pane s) = Some (r, c)" using Some by (cases rc) auto
  note c = find_pane_coord_Some [OF rc]
  have rows: "r' < length (panes s) \<Longrightarrow> min x (length (panes s ! r') - 1) < length (panes s ! r')" for r' x
    using grid_ok_lengths(3) [OF found_front(2) [OF s rc], of r'] by (simp add: row_ok_def min_last)
  have go: "strip_of s' = strip_of s" if "r' < length (panes s)" "c' < length (panes s ! r')" "focus_at r' c' s = Some s'" for r' c'
    by (rule focus_strip [OF s that])
  have left: "c - 1 < length (panes s ! r)" using c by simp
  from assms(2) show ?thesis
  proof (elim disjE)
    assume "f = mutate_focus_left"
    then show ?thesis using assms(3) rc go [OF c(1) left] by (simp add: mutate_focus_left_def split: if_splits)
  next
    assume "f = mutate_focus_right"
    then show ?thesis using assms(3) rc go [OF c(1), of "c + 1"] by (simp add: mutate_focus_right_def split: if_splits)
  next
    assume "f = mutate_focus_up"
    then show ?thesis using assms(3) rc go [of "r - 1", OF _ rows] c(1) by (simp add: mutate_focus_up_def split: if_splits)
  next
    assume "f = mutate_focus_down"
    then show ?thesis using assms(3) rc go [of "r + 1", OF _ rows] by (simp add: mutate_focus_down_def split: if_splits)
  qed
qed

lemma close_strip:
  assumes s: "shape_ok s" and i: "i \<noteq> active_tab s" and r: "mutate_close_tab i s = Some s'"
  shows "strip_of s' = strip_apply (CloseTab i) (strip_of s)"
proof (cases "i < length (tabs s)")
  case True
  obtain s1 where "mutate_close_tab i s = Some s1"
    "live_tabs s1 = take i (live_tabs s) @ drop (Suc i) (live_tabs s)"
    "active_tab s1 = (if i < active_tab s then active_tab s - 1 else active_tab s)"
    using close_tab_closes [OF s True] i by metis
  then show ?thesis using True r i by (simp add: strip_of_def take_map drop_map)
next
  case False
  then show ?thesis using r by (simp add: mutate_close_tab_def strip_of_def)
qed

lemma switch_strip:
  assumes s: "shape_ok s" and r: "mutate_switch_tab i s = Some s'"
  shows "strip_of s' = strip_apply (SwitchTab i) (strip_of s)"
  using switch_tab_ok [OF s, of i] r by (auto simp: strip_of_def)

end
