(* ===== verification/Layout_Props.thy ===== *)
theory Layout_Props
  imports Layout_Strip
begin

text \<open>
  The properties of the layout: no reachable state panics and every pane has exactly one backing;
  rearranging keeps every pane; the live and saved copies of the front tab implement a list of
  tabs; a split is undone by closing the new pane; a divider keeps both sides at the minimum;
  what a restored tab looks like; and three ways in which the code leaves the invariant.
\<close>

section \<open>A state to start from\<close>

definition seed_app :: app where
  "seed_app = \<lparr>tabs = [tab_of_pane (str_lit ''shell'') (str_lit ''bash'') Running (shell_pane 1 (str_lit ''shell'') (str_lit ''bash''))],
     active_tab = 0, panes = [[shell_pane 1 (str_lit ''shell'') (str_lit ''bash'')]], active_pane = 1,
     row_ratios = [1], col_ratios = [[1]], next_id = 2, terminals = {1}, pty_sessions = {1}, editors = {}, flows = {},
     custom_titled_panes = {}, attention_pane_ids = {}, pane_agents = {}, agent_restarts = {},
     pending_agent_resumes = {}, agent_resume_attempts = {}, agent_resume_preflights = {}, flow_pending = {},
     workspaces = [\<lparr>ws_num = 1, ws_tabs = [], ws_active_tab = 0\<rparr>, \<lparr>ws_num = 2, ws_tabs = [], ws_active_tab = 0\<rparr>],
     active_workspace = 0\<rparr>"

lemma seed_ok: "app_ok seed_app"
  by (simp add: app_ok_def shape_ok_def front_ok_def ws_ok_def ids_ok_def pool_def all_panes_def live_tabs_eq
      other_tabs_def seed_app_def tab_ok_def grid_ok_def row_ok_def pane_ids_def live_tab_def tab_of_pane_def shell_pane_def)

section \<open>The invariant over all operations\<close>

interpretation layout: panic_free_system layout_apply app_ok "\<lambda>a. \<forall>s. layout_guard a s"
  by unfold_locales (auto intro: layout_apply_ok)

text \<open>C20: In every state the layout operations can reach from a good one, an operation whose guard
  holds does not panic and leaves a good state again.\<close>

theorem layout_never_panics:
  assumes "layout_reachable s0 s" and "app_ok s0" and "layout_guard a s"
  shows "\<exists>s'. layout_apply a s = Some s' \<and> app_ok s'"
  using layout_apply_ok [OF reachable_app_ok [OF assms(1,2)] assms(3)] .

theorem layout_never_panics_witness: "\<exists>s'. layout_apply (SplitRight True 1) seed_app = Some s' \<and> app_ok s'"
  by (rule layout_never_panics [OF layout_reachable.start seed_ok]) (simp add: seed_app_def)

text \<open>Two tabs: pane 1 in the one behind, pane 2 in the front one.\<close>

definition two_tab_app :: app where "two_tab_app = mutate_add_tab True seed_app"

lemma two_tabs_reachable: "layout_reachable seed_app two_tab_app"
  by (rule layout_reachable.step [OF layout_reachable.start, of "AddTab True"]) (simp_all add: two_tab_app_def seed_app_def)

lemma two_tabs_ok: "app_ok two_tab_app"
  by (rule reachable_app_ok [OF two_tabs_reachable seed_ok])

lemmas two_tabs_simps = two_tab_app_def mutate_add_tab_def save_tab_state_def take_id_def spawn_terminal_def push_tab_def
  tab_of_pane_def shell_pane_def seed_app_def live_tab_def live_tabs_def Let_def

lemma two_tabs:
  "map tab_id (tabs two_tab_app) = [116 # show_nat 1, 116 # show_nat 2]" "active_tab two_tab_app = 1"
  "terminals two_tab_app = {1, 2}" "pane_ids (panes two_tab_app) = [2]" "length (live_tabs two_tab_app) = 2"
  by (auto simp: two_tabs_simps pane_ids_def show_nat.simps)

text \<open>C21: In every state reached from a good one by operations within their guard, no pane id is shown
  twice, in no tab of any workspace, and the shown panes are exactly those with a terminal, an editor or
  a flow view, each with one of them only. The guard (\<open>layout_guard\<close>): a fresh pane id is left when a pane
  opens, the ids of the tabs are distinct when a tab is moved, no pane of another tab is dropped on the
  centre zone, and a dragged divider has room for two minimal panes. Without the second,
  \<open>equal_tab_ids_lose_a_pane\<close> below loses a pane.\<close>

theorem every_pane_has_one_backing:
  assumes "layout_reachable s0 s" and "app_ok s0"
  shows "count (pool s) i \<le> 1 \<and> (i \<in># pool s \<longleftrightarrow> i \<in> terminals s \<union> editors s \<union> flows s) \<and>
    \<not> (i \<in> terminals s \<and> i \<in> editors s) \<and> \<not> (i \<in> terminals s \<and> i \<in> flows s) \<and>
    \<not> (i \<in> editors s \<and> i \<in> flows s)"
proof -
  have "ids_ok (pool s) s" using reachable_app_ok [OF assms] by (simp add: app_ok_def)
  then show ?thesis by (auto simp: ids_ok_def)
qed

theorem every_pane_has_one_backing_witness:
  "layout_reachable seed_app two_tab_app \<and> count (pool two_tab_app) 1 = 1 \<and> count (pool two_tab_app) 2 = 1 \<and>
     count (pool two_tab_app) 3 = 0 \<and> 2 \<notin> editors two_tab_app \<and> 2 \<notin> flows two_tab_app"
proof -
  note P = every_pane_has_one_backing [OF two_tabs_reachable seed_ok]
  have "count (pool two_tab_app) i = 1" if "i = 1 \<or> i = 2" for i
  proof -
    have "i \<in># pool two_tab_app" using P [of i] that two_tabs(3) by auto
    then have "0 < count (pool two_tab_app) i" by simp
    then show ?thesis using P [of i] by linarith
  qed
  moreover have "3 \<notin># pool two_tab_app" using P [of 3] by (auto simp: two_tabs_simps)
  ultimately show ?thesis using two_tabs_reachable P [of 2] two_tabs(3) by (auto simp: not_in_iff)
qed

section \<open>Rearranging\<close>

fun rearranges :: "layout_op \<Rightarrow> bool" where
  "rearranges (SwitchTab i) = True"
| "rearranges (SwitchWorkspace i) = True"
| "rearranges (ExtractPane t i) = True"
| "rearranges (ReorderTab x i) = True"
| "rearranges (DropSplit x t z) = True"
| "rearranges (MoveToEdge a t z) = True"
| "rearranges (SwapPanes a b) = True"
| "rearranges (SwapFromTab x t) = True"
| "rearranges FocusLeft = True"
| "rearranges FocusRight = True"
| "rearranges FocusUp = True"
| "rearranges FocusDown = True"
| "rearranges (DragRow i initial d px) = True"
| "rearranges (DragCol r i initial d px) = True"
| "rearranges _ = False"

text \<open>C22: In a good state, within the guard of the operation, switching, dragging and dropping never lose,
  duplicate or restart a pane: the panes shown in all tabs of all workspaces are the same before and after,
  and so are the terminals, editors and flow views. The guard (\<open>layout_guard\<close>) asks of these operations
  that the ids of the tabs are distinct when a tab is moved, that a pane of another tab is not dropped on the
  centre zone, and that a dragged divider has room for two minimal panes.\<close>

theorem rearranging_keeps_panes:
  assumes ok: "app_ok s" and guard: "layout_guard a s" and a: "rearranges a" and r: "layout_apply a s = Some s'"
  shows "all_panes s' = all_panes s \<and> terminals s' = terminals s \<and> editors s' = editors s \<and> flows s' = flows s"
proof -
  have s: "shape_ok s" using ok by (simp add: app_ok_def)
  have "keeps s (layout_apply a s)"
    using guard a switch_tab_keeps [OF s] switch_workspace_keeps [OF s] extract_keeps [OF s] reorder_keeps [OF s]
      drop_split_keeps [OF s] move_to_edge_keeps [OF s] swap_keeps [OF s] swap_from_tab_keeps [OF s] focus_moves_keep [OF s]
      drag_row_keeps [OF s] drag_col_keeps [OF s]
    by (cases a) simp_all
  then show ?thesis using r by (auto simp: keeps_def tables_of_def)
qed

text \<open>The tab behind is dropped on the left edge of pane 2: one tab with both panes is left.\<close>

theorem rearranging_keeps_panes_witness:
  "\<exists>s'. layout_apply (DropSplit (116 # show_nat 1) 2 ZLeft) two_tab_app = Some s' \<and> length (tabs s') = 1 \<and>
     pane_ids (panes s') = [1, 2] \<and> all_panes s' = all_panes two_tab_app \<and> terminals s' = {1, 2}"
proof -
  let ?op = "DropSplit (116 # show_nat 1) 2 ZLeft"
  have "\<exists>s'. layout_apply ?op two_tab_app = Some s' \<and> length (tabs s') = 1 \<and> pane_ids (panes s') = [1, 2]"
    by (simp add: two_tabs_simps mutate_pane_drop_split_def find_pane_coord_def pane_at_def vec_remove_def land_pane_def
        insert_at_edge_def insert_beside_def grid_of_def set_grid_def sync_live_tab_from_panes_def live_tab_def pane_ids_def
        nth_opt_def Let_def)
  then obtain s' where s': "layout_apply ?op two_tab_app = Some s'" "length (tabs s') = 1" "pane_ids (panes s') = [1, 2]"
    by blast
  have "layout_guard ?op two_tab_app" "rearranges ?op" by simp_all
  from rearranging_keeps_panes [OF two_tabs_ok this s'(1)] show ?thesis using s' two_tabs(3) by simp
qed

section \<open>The tab strip_of\<close>

text \<open>C23: The live fields and the saved tabs together implement a plain list of tabs with a front one: in a
  good state switching, reordering when the ids of the tabs are distinct (the guard), closing a tab in the
  background and moving the focus act on the abstract strip as moving the mark, moving an element, deleting an
  element, and nothing.\<close>

theorem tab_strip_refines_list:
  assumes "app_ok s" and "layout_guard a s" and "strip_op a s" and "layout_apply a s = Some s'"
  shows "strip_of s' = strip_apply a (strip_of s)"
proof -
  have s: "shape_ok s" using assms(1) by (simp add: app_ok_def)
  show ?thesis
    using assms(2-) switch_strip [OF s] reorder_strip [OF s] close_strip [OF s]
      focus_moves_strip [OF s, of mutate_focus_left] focus_moves_strip [OF s, of mutate_focus_right]
      focus_moves_strip [OF s, of mutate_focus_up] focus_moves_strip [OF s, of mutate_focus_down]
    by (cases a) (simp_all add: strip_of_def)
qed

theorem tab_strip_refines_list_witness:
  "\<exists>s1 s2. layout_apply (SwitchTab 0) two_tab_app = Some s1 \<and> strip_of s1 = (fst (strip_of two_tab_app), 0) \<and>
     layout_apply (ReorderTab (116 # show_nat 2) 0) two_tab_app = Some s2 \<and>
     strip_of s2 = (rev (fst (strip_of two_tab_app)), 0) \<and> snd (strip_of two_tab_app) = 1"
proof -
  let ?mv = "ReorderTab (116 # show_nat 2) 0"
  have g: "layout_guard (SwitchTab 0) two_tab_app" "layout_guard ?mv two_tab_app" "strip_op ?mv two_tab_app"
    using two_tabs(1) by (auto simp: show_nat.simps)
  obtain s1 s2 where s: "layout_apply (SwitchTab 0) two_tab_app = Some s1" "layout_apply ?mv two_tab_app = Some s2"
    using layout_apply_ok [OF two_tabs_ok g(1)] layout_apply_ok [OF two_tabs_ok g(2)] by auto
  have "strip_of s1 = strip_apply (SwitchTab 0) (strip_of two_tab_app)"
    using tab_strip_refines_list [OF two_tabs_ok g(1) _ s(1)] by simp
  moreover have "strip_of s2 = strip_apply ?mv (strip_of two_tab_app)"
    using tab_strip_refines_list [OF two_tabs_ok g(2,3) s(2)] .
  moreover obtain a b where "strip_of two_tab_app = ([a, b], 1)" "fst b = 116 # show_nat 2" "fst a \<noteq> 116 # show_nat 2"
    by (auto simp: strip_of_def two_tabs_simps tab_face_def show_nat.simps)
  ultimately show ?thesis using s by (auto simp: strip_reorder_def)
qed

section \<open>Dragging a divider\<close>

text \<open>Where a drag by \<open>d\<close> of \<open>px\<close> pixels puts the divider behind the pane \<open>i\<close>: the mouse moves a part of the whole,
and both panes keep the minimum.\<close>

definition divider_share :: "rat list \<Rightarrow> nat \<Rightarrow> rat \<Rightarrow> rat \<Rightarrow> rat" where
  "divider_share initial i d px =
     max MIN_PANE_RATIO (min (initial ! i + initial ! (i + 1) - MIN_PANE_RATIO) (initial ! i + d / px * sum_list initial))"

definition move_divider :: "rat list \<Rightarrow> nat \<Rightarrow> rat \<Rightarrow> rat \<Rightarrow> rat list \<Rightarrow> rat list" where
  "move_divider initial i d px ratios = ratios[i := divider_share initial i d px,
     i + 1 := initial ! i + initial ! (i + 1) - divider_share initial i d px]"

abbreviation narrow_pair :: "rat list \<Rightarrow> nat \<Rightarrow> bool" where
  "narrow_pair initial i \<equiv> initial ! i + initial ! (i + 1) < 2 * MIN_PANE_RATIO"

lemma apply_ratio_delta_spec:
  assumes "length ratios = length initial" and "i + 1 < length initial" and "0 < px"
  shows "apply_ratio_delta ratios i (i + 1) initial d px =
    (if narrow_pair initial i then None else Some (move_divider initial i d px ratios))"
proof -
  have "rat_clamp MIN_PANE_RATIO (initial ! i + initial ! (i + 1) - MIN_PANE_RATIO) (initial ! i + d / px * sum_list initial) =
      (if narrow_pair initial i then None else Some (divider_share initial i d px))"
    by (auto simp: rat_clamp_def divider_share_def max_def min_def)
  then show ?thesis using assms by (simp add: apply_ratio_delta_def move_divider_def Let_def)
qed

lemma move_divider_again [simp]: "move_divider initial i d' px (move_divider initial i d px ratios) = move_divider initial i d' px ratios"
  by (auto simp: move_divider_def list_update_swap)

lemma length_move_divider [simp]: "length (move_divider initial i d px ratios) = length ratios"
  by (simp add: move_divider_def)

lemma move_divider_keeps_pair:
  assumes "i + 1 < length ratios" and "\<not> narrow_pair initial i"
  shows "MIN_PANE_RATIO \<le> move_divider initial i d px ratios ! i \<and> MIN_PANE_RATIO \<le> move_divider initial i d px ratios ! (i + 1) \<and>
    move_divider initial i d px ratios ! i + move_divider initial i d px ratios ! (i + 1) = initial ! i + initial ! (i + 1) \<and>
    (\<forall>j. j \<noteq> i \<longrightarrow> j \<noteq> i + 1 \<longrightarrow> move_divider initial i d px ratios ! j = ratios ! j)"
  using assms by (auto simp: move_divider_def divider_share_def)

lemma drag_col_spec:
  assumes "r < length (col_ratios s)" and "length (col_ratios s ! r) = length initial" and "i + 1 < length initial" and "0 < px"
  shows "drag_col_divider r i initial d px s =
    (if narrow_pair initial i then None
     else Some (s\<lparr>col_ratios := (col_ratios s)[r := move_divider initial i d px (col_ratios s ! r)]\<rparr>))"
  using assms by (simp add: drag_col_divider_def apply_ratio_delta_spec del: One_nat_def)

lemma drag_steps:
  assumes "r < length (col_ratios s)" and "length (col_ratios s ! r) = length initial" and "i + 1 < length initial" and "0 < px"
    and "\<not> narrow_pair initial i"
  shows "run_opt layout_apply (map (\<lambda>d. DragCol r i initial d px) (ds @ [d])) s =
    Some (s\<lparr>col_ratios := (col_ratios s)[r := move_divider initial i d px (col_ratios s ! r)]\<rparr>)"
  using assms
proof (induction ds arbitrary: s)
  case Nil
  then show ?case using drag_col_spec [of r s initial i px] by simp
next
  case (Cons e ds)
  let ?s = "s\<lparr>col_ratios := (col_ratios s)[r := move_divider initial i e px (col_ratios s ! r)]\<rparr>"
  have "drag_col_divider r i initial e px s = Some ?s"
    using Cons.prems drag_col_spec [of r s initial i px] by simp
  then show ?case using Cons.prems Cons.IH [of ?s] by simp
qed

text \<open>C25: A drag of a divider between two columns, from the shares \<open>initial\<close> it began with, whatever the
mouse does in between: when the two panes beside the divider have together less than twice the minimum, the
drag panics (the bounds of \<open>clamp\<close> cross). Otherwise it ends with the divider where its last position puts it, a
part of the row further than it began but not below the minimum on either side. Nothing else changes, so that both
panes have the minimum or more and their joint share is the one of before.\<close>

theorem drag_follows_the_mouse:
  assumes "r < length (col_ratios s)" and "col_ratios s ! r = initial" and "i + 1 < length initial" and "0 < px"
  shows "if initial ! i + initial ! (i + 1) < 2 * MIN_PANE_RATIO
    then run_opt layout_apply (map (\<lambda>d. DragCol r i initial d px) (ds @ [d])) s = None
    else \<exists>row. run_opt layout_apply (map (\<lambda>d. DragCol r i initial d px) (ds @ [d])) s =
        Some (s\<lparr>col_ratios := (col_ratios s)[r := row]\<rparr>) \<and>
      row = initial[i := row ! i, i + 1 := row ! (i + 1)] \<and>
      row ! i = max MIN_PANE_RATIO
        (min (initial ! i + initial ! (i + 1) - MIN_PANE_RATIO) (initial ! i + d / px * sum_list initial)) \<and>
      row ! i + row ! (i + 1) = initial ! i + initial ! (i + 1) \<and>
      MIN_PANE_RATIO \<le> row ! i \<and> MIN_PANE_RATIO \<le> row ! (i + 1)"
proof (cases "narrow_pair initial i")
  case True
  then have "drag_col_divider r i initial e px s = None" for e
    using assms drag_col_spec [of r s initial i px] by simp
  then show ?thesis using True by (cases ds) simp_all
next
  case False
  have "run_opt layout_apply (map (\<lambda>d. DragCol r i initial d px) (ds @ [d])) s =
      Some (s\<lparr>col_ratios := (col_ratios s)[r := move_divider initial i d px initial]\<rparr>)"
    using drag_steps [of r s initial i px] assms False by simp
  then show ?thesis
    using move_divider_keeps_pair [OF assms(3) False, of d px] assms(3) False
    by (intro if_not_P [THEN iffD2] exI [of _ "move_divider initial i d px initial"])
      (simp_all add: move_divider_def divider_share_def)
qed

text \<open>It panics after a drag to the minimum and a split of the narrow pane.\<close>

theorem split_of_minimal_pane_panics:
  "\<exists>s. run_opt layout_apply [SplitRight True 1, DragCol 0 0 [1/2, 1/2] 900 1000, SplitRight True 2] seed_app = Some s \<and>
     col_ratios s = [[9/10, 1/20, 1/20]] \<and> drag_col_divider 0 1 [9/10, 1/20, 1/20] 0 1000 s = None"
  by (simp add: seed_app_def mutate_split_right_def find_pane_coord_def shell_pane_def take_id_def spawn_terminal_def
      MAX_COLS_def insert_beside_def grid_of_def set_grid_def drag_col_divider_def apply_ratio_delta_def rat_clamp_def MIN_PANE_RATIO_def Let_def)

theorem drag_follows_the_mouse_witness:
  "\<exists>s1 s2. layout_apply (SplitRight True 1) seed_app = Some s1 \<and>
     run_opt layout_apply (map (\<lambda>d. DragCol 0 0 [1/2, 1/2] d 1000) [-900, 300, 100]) s1 = Some s2 \<and>
     col_ratios s2 = [[3/5, 2/5]] \<and> panes s2 = panes s1"
proof -
  obtain s1 where s1: "layout_apply (SplitRight True 1) seed_app = Some s1" "col_ratios s1 = [[1/2, 1/2]]"
    by (simp add: seed_app_def mutate_split_right_def find_pane_coord_def shell_pane_def take_id_def spawn_terminal_def
      MAX_COLS_def insert_beside_def grid_of_def set_grid_def Let_def)
  let ?h = "[1/2, 1/2] :: rat list"
  have wide: "\<not> ?h ! 0 + ?h ! (0 + 1) < 2 * MIN_PANE_RATIO" by (simp add: MIN_PANE_RATIO_def)
  have "0 < length (col_ratios s1)" "col_ratios s1 ! 0 = ?h" "0 + 1 < length ?h" "0 < (1000 :: rat)" using s1(2) by simp_all
  from drag_follows_the_mouse [OF this, of "[-900, 300]" 100, unfolded if_not_P [OF wide]]
  obtain row where s2: "run_opt layout_apply (map (\<lambda>d. DragCol 0 0 ?h d 1000) ([-900, 300] @ [100])) s1 =
      Some (s1\<lparr>col_ratios := (col_ratios s1)[0 := row]\<rparr>)"
    and row: "row = ?h[0 := row ! 0, 0 + 1 := row ! (0 + 1)]" "row ! 0 + row ! (0 + 1) = ?h ! 0 + ?h ! (0 + 1)"
      "row ! 0 = max MIN_PANE_RATIO (min (?h ! 0 + ?h ! (0 + 1) - MIN_PANE_RATIO) (?h ! 0 + 100 / 1000 * sum_list ?h))"
    by blast
  have "row ! 0 = 3/5" using row(3) by (simp add: MIN_PANE_RATIO_def max_def min_def)
  moreover have "row ! 1 = 2/5" using row(2) calculation by simp
  moreover have "row = [row ! 0, row ! 1]" using row(1) by simp
  ultimately have "row = [3/5, 2/5]" by metis
  then show ?thesis using s1 s2
    by (intro exI [of _ s1] exI [of _ "s1\<lparr>col_ratios := (col_ratios s1)[0 := row]\<rparr>"]) simp
qed

section \<open>Splitting and closing again\<close>

lemma find_col_inserted: "t \<notin> pane_id ` set xs \<Longrightarrow> pane_id p = t \<Longrightarrow> find_col t c0 (xs @ p # ys) = Some (c0 + length xs)"
  by (induction xs arbitrary: c0) auto

lemma find_row_inserted:
  "t \<notin> set (pane_ids as) \<Longrightarrow> find_col t 0 row = Some c \<Longrightarrow> find_row t r0 (as @ row # bs) = Some (r0 + length as, c)"
proof (induction as arbitrary: r0)
  case (Cons a as)
  then have "find_col t 0 a = None" by (simp add: find_col_None pane_ids_def)
  then show ?case using Cons by (simp add: pane_ids_def)
qed simp

lemma find_inserted:
  assumes "t \<notin> set (pane_ids ps)" and r: "r < length ps" and "c \<le> length (ps ! r)" and "pane_id p = t"
  shows "find_row t 0 (ps[r := take c (ps ! r) @ p # drop c (ps ! r)]) = Some (r, c)"
proof -
  have a: "t \<notin> set (pane_ids (take r ps))" using assms(1) by (auto simp: pane_ids_def dest: in_set_takeD)
  have "set (ps ! r) \<subseteq> set (concat ps)" using r by (auto intro: nth_mem)
  then have "t \<notin> pane_id ` set (ps ! r)" using assms(1) by (auto simp: pane_ids_def simp del: set_concat)
  then have "t \<notin> pane_id ` set (take c (ps ! r))" by (auto dest: in_set_takeD)
  then have "find_col t 0 (take c (ps ! r) @ p # drop c (ps ! r)) = Some c"
    using find_col_inserted [of t "take c (ps ! r)" p 0] assms(3,4) by simp
  from find_row_inserted [OF a this, of 0 "drop (Suc r) ps"] show ?thesis using r by (simp add: upd_conv_take_nth_drop)
qed

lemma focus_group_grid: "focus_tab_group b s = Some s' \<Longrightarrow> grid_of s' = grid_of s \<and> active_tab s' = active_tab s \<and> terminals s' = terminals s"
  by (auto simp: focus_tab_group_def grid_of_def nth_opt_def split: if_splits option.splits bind_splits)

lemma after_close_stays:
  assumes a: "active_tab s < length (tabs s)" and g: "tab_in_group s b (active_tab s)" and r: "load_tab_after_close b s = Some s'"
  shows "grid_of s' = (let t = tabs s ! active_tab s in (tab_panes t, tab_row_ratios t, tab_col_ratios t)) \<and>
    active_tab s' = active_tab s \<and> terminals s' = terminals s"
proof -
  have start: "min (active_tab s) (length (tabs s) - 1) = active_tab s" using a by simp
  have "[active_tab s..<length (tabs s)] = active_tab s # [Suc (active_tab s)..<length (tabs s)]" using a by (rule upt_conv_Cons)
  then have f: "List.find (tab_in_group s b) ([active_tab s..<length (tabs s)] @ rev [0..<active_tab s]) = Some (active_tab s)"
    using g by simp
  have "tabs s \<noteq> []" using a by auto
  then have "load_tab_after_close b s = load_tab_state (s\<lparr>active_tab := active_tab s\<rparr>) \<bind> focus_tab_group b"
    unfolding load_tab_after_close_def start Let_def f by simp
  then obtain s1 where s1: "load_tab_state s = Some s1" "focus_tab_group b s1 = Some s'"
    using r by (cases "load_tab_state s") auto
  let ?t = "tabs s ! active_tab s"
  have "s1 = s\<lparr>panes := tab_panes ?t, active_pane := tab_active_pane ?t, row_ratios := tab_row_ratios ?t, col_ratios := tab_col_ratios ?t\<rparr>"
    using s1(1) a by (simp add: load_tab_state_def)
  then have "grid_of s1 = (tab_panes ?t, tab_row_ratios ?t, tab_col_ratios ?t)" "active_tab s1 = active_tab s" "terminals s1 = terminals s"
    by (simp_all add: grid_of_def)
  then show ?thesis using focus_group_grid [OF s1(2)] by (simp add: Let_def)
qed

lemma remove_inserted:
  assumes "i \<le> length xs"
  shows "take i (take i xs @ x # drop i xs) @ drop (Suc i) (take i xs @ x # drop i xs) = xs"
    and "(take i xs @ x # drop i xs) ! i = x" and "i < length (take i xs @ x # drop i xs)"
  using assms by (simp_all add: nth_append)

text \<open>Taking the inserted pane out again is the identity on the grid.\<close>

lemma insert_then_detach:
  assumes g: "grid_ok (ps, rr, cr)" and r: "r < length ps" and c: "c < length (ps ! r)"
  shows "\<exists>crow. insert_beside r c (c + 1) p (ps, rr, cr) =
      Some (ps[r := take (c + 1) (ps ! r) @ p # drop (c + 1) (ps ! r)], rr, cr[r := crow]) \<and>
    detach_pane r (c + 1) (ps[r := take (c + 1) (ps ! r) @ p # drop (c + 1) (ps ! r)], rr, cr[r := crow]) = Some (ps, rr, cr)"
proof -
  note L = grid_ok_lengths [OF g]
  have row: "row_ok (ps ! r) (cr ! r)" using L(3) r by simp
  have lc: "c < length (cr ! r)" and lr: "r < length cr" and ll: "length (cr ! r) = length (ps ! r)"
    using row c r L by (simp_all add: row_ok_def)
  let ?h = "cr ! r ! c / 2"
  let ?sh = "(cr ! r)[c := ?h]"
  define prow where "prow = take (c + 1) (ps ! r) @ p # drop (c + 1) (ps ! r)"
  define crow where "crow = take (c + 1) ?sh @ ?h # drop (c + 1) ?sh"
  have i: "insert_beside r c (c + 1) p (ps, rr, cr) = Some (ps[r := prow], rr, cr[r := crow])"
    using r c lr lc ll by (simp add: insert_beside_def prow_def crow_def)
  have "crow ! (c + 1) = ?h" and "c + 1 < length crow" and "take (c + 1) crow @ drop (Suc (c + 1)) crow = ?sh"
    using remove_inserted [of "c + 1" ?sh ?h] lc unfolding crow_def by simp_all
  then have co: "nth_opt crow (c + 1) = Some ?h" "vec_remove (c + 1) crow = Some ?sh" by simp_all
  have ab: "absorb_share (c + 1) ?h ?sh = Some (cr ! r)" using lc by (auto simp: absorb_share_def)
  have "c + 1 < length prow" and "take (c + 1) prow @ drop (Suc (c + 1)) prow = ps ! r" using remove_inserted [of "c + 1" "ps ! r" p] c unfolding prow_def by simp_all
  then have po: "vec_remove (c + 1) prow = Some (ps ! r)" by simp
  have "ps ! r \<noteq> []" using c by auto
  then have "detach_pane r (c + 1) (ps[r := prow], rr, cr[r := crow]) = Some (ps, rr, cr)"
    using r lr co ab po by (simp add: detach_pane_def del: vec_remove_Some nth_opt_Some) (simp add: nth_opt_def)
  then show ?thesis using i unfolding prow_def by blast
qed

lemma split_grid_total:
  assumes r: "r < length ps" and c: "c < length (ps ! r)"
  shows "sum_list (map length (ps[r := take (c + 1) (ps ! r) @ p # drop (c + 1) (ps ! r)])) \<noteq> 1"
proof -
  let ?row = "take (c + 1) (ps ! r) @ p # drop (c + 1) (ps ! r)"
  have "mset (concat (ps[r := ?row])) + mset (ps ! r) = mset (concat ps) + mset ?row" by (rule mset_concat_update [OF r])
  then have "mset (concat (ps[r := ?row])) = add_mset p (mset (concat ps))" by (simp only: mset_insert_at) simp
  moreover have "0 < length (concat ps)" using pane_at_member [OF r c] by (cases "concat ps") auto
  ultimately show ?thesis unfolding total_length by (simp del: length_concat)
qed

lemma teardown_agents: "is_agent_pane (teardown_pane u i s) k \<Longrightarrow> is_agent_pane s k"
  by (auto simp: is_agent_pane_def teardown_pane_def remove_flow_pane_def destroy_pty_def forget_agent_restore_def Let_def split: if_splits)

text \<open>Closing the focused shell pane of a tab that keeps another one stays on the tab.\<close>

lemma close_focused_stays:
  assumes s: "shape_ok s" and found: "find_pane_coord s i = Some (r, c)" and many: "sum_list (map length (panes s)) \<noteq> 1"
    and front: "active_pane s = i" "\<not> is_agent_pane s i"
    and det: "detach_pane r c (grid_of s) = Some (ps, rr, cr)" and g: "grid_ok (ps, rr, cr)"
    and p: "p \<in> set (concat ps)" "\<not> is_agent_pane s (pane_id p)"
  shows "\<exists>s2. mutate_close_pane i s = Some s2 \<and> grid_of s2 = (ps, rr, cr) \<and> active_tab s2 = active_tab s \<and>
    terminals s2 = terminals (teardown_pane True i s)"
proof -
  let ?s3 = "teardown_pane True i s"
  have l3: "layout_of ?s3 = layout_of s" by simp
  then have g3: "grid_of ?s3 = grid_of s" "active_pane ?s3 = i" "tabs ?s3 = tabs s" "active_tab ?s3 = active_tab s"
    using front(1) by (simp_all add: layout_of_def)
  let ?s4 = "set_grid (ps, rr, cr) ?s3"
  have f4: "panes ?s4 = ps" "active_pane ?s4 = i" by (simp_all add: set_grid_def g3)
  have gok: "grid_ok (panes ?s4, rr, cr)" "panes ?s4 \<noteq> []" "active_pane ?s4 = i \<or> active_pane ?s4 \<in> set (pane_ids (panes ?s4))"
    using g p(1) f4 by auto
  obtain j where j: "refocus i r c ?s4 = Some (?s4\<lparr>active_pane := j\<rparr>)" by (rule refocus_ok [OF gok])
  let ?s5 = "save_tab_state (?s4\<lparr>active_pane := j\<rparr>)"
  have close: "mutate_close_pane i s = load_tab_after_close False ?s5"
    using found many det j front by (simp add: mutate_close_pane_def Let_def g3 sync_is_save)
  obtain s2 where s2: "mutate_close_pane i s = Some s2"
    using close_pane_closes [OF s, of i] by metis
  have a: "active_tab s < length (tabs s)" by (rule found_front(1) [OF s found])
  have a5: "active_tab ?s5 < length (tabs ?s5)" using a by (simp add: g3 set_grid_def)
  have t5: "tab_panes (tabs ?s5 ! active_tab ?s5) = ps" "tab_row_ratios (tabs ?s5 ! active_tab ?s5) = rr"
    "tab_col_ratios (tabs ?s5 ! active_tab ?s5) = cr"
    using a by (simp_all add: save_tab_state_def g3 set_grid_def)
  have "\<not> is_agent_pane ?s5 (pane_id p)"
    using p(2) teardown_agents [of True i s "pane_id p"] by (auto simp: is_agent_pane_def save_tab_state_def set_grid_def split: if_splits)
  then have grp: "tab_in_group ?s5 False (active_tab ?s5)" using p(1) unfolding tab_in_group_def t5(1) by blast
  show ?thesis
    using after_close_stays [OF a5 grp] s2 close t5 by (simp add: Let_def g3 set_grid_def)
qed

text \<open>C24: Splitting a shell pane to the right and closing the new pane again gives back exactly the grid,
  the shares, the tab and the terminals there were.\<close>

theorem split_then_close:
  assumes ok: "app_ok s" and t: "find_pane_coord s t = Some (r, c)" and room: "length (panes s ! r) < MAX_COLS"
    and plain: "\<not> is_agent_pane s t" "\<not> is_agent_pane s (next_id s)"
  shows "\<exists>s1 s2. mutate_split_right b t s = Some s1 \<and> mutate_close_pane (next_id s) s1 = Some s2 \<and>
    grid_of s2 = grid_of s \<and> active_tab s2 = active_tab s \<and> terminals s2 = terminals s"
proof -
  have s: "shape_ok s" using ok by (simp add: app_ok_def)
  note c = find_pane_coord_Some [OF t] and f = found_front [OF s t]
  let ?i = "next_id s"
  let ?p = "shell_pane ?i (str_lit ''shell'') (str_lit ''bash'')"
  define ps where "ps = (panes s)[r := take (c + 1) (panes s ! r) @ ?p # drop (c + 1) (panes s ! r)]"
  obtain crow where ins: "insert_beside r c (c + 1) ?p (grid_of s) = Some (ps, row_ratios s, (col_ratios s)[r := crow])"
    and det: "detach_pane r (c + 1) (ps, row_ratios s, (col_ratios s)[r := crow]) = Some (grid_of s)"
    using insert_then_detach [OF f(2) c(1,2), of ?p] unfolding ps_def grid_of_def by blast
  let ?s2 = "spawn_terminal b ?i (snd (take_id s))"
  let ?s1 = "(set_grid (ps, row_ratios s, (col_ratios s)[r := crow]) ?s2)\<lparr>active_pane := ?i\<rparr>"
  have fresh: "?i \<notin># pool s" "?i \<notin> terminals s \<and> ?i \<notin> editors s \<and> ?i \<notin> flows s"
    using ids_fresh ok by (auto simp: app_ok_def ids_ok_def)
  have "mset (concat (panes s)) \<subseteq># all_panes s"
    using panes_of_tabs_remove [of "active_tab s" "live_tabs s"] f(1) by (simp add: all_panes_def front_tab)
  then have notin: "?i \<notin> set (pane_ids (panes s))"
    using fresh(1) by (auto simp: pool_def pane_ids_def dest!: mset_subset_eqD)
  have "grid_of ?s2 = grid_of s" by (simp add: grid_of_def spawn_terminal_def take_id_def)
  then have split: "mutate_split_right b t s = Some ?s1"
    using t room ins by (simp add: mutate_split_right_def take_id_def)
  have found: "find_pane_coord ?s1 ?i = Some (r, c + 1)"
    using find_inserted [OF notin c(1) _, of "c + 1" ?p] c by (simp add: find_pane_coord_def set_grid_def shell_pane_def ps_def)
  have many: "sum_list (map length (panes ?s1)) \<noteq> 1"
    using split_grid_total [OF c(1,2), of ?p] by (simp add: set_grid_def ps_def)
  let ?s3 = "teardown_pane True ?i ?s1"
  have lay: "layout_of ?s3 = ((tabs s, active_tab s, (ps, row_ratios s, (col_ratios s)[r := crow]), ?i), workspaces s, active_workspace s)"
    unfolding layout_teardown by (simp add: layout_of_def grid_of_def set_grid_def spawn_terminal_def take_id_def)
  have tb: "terminals ?s3 = terminals s"
    using fresh(2) by (auto simp: teardown_pane_def remove_flow_pane_def destroy_pty_def forget_agent_restore_def
        set_grid_def spawn_terminal_def take_id_def Let_def)
  have g1: "grid_of ?s1 = (ps, row_ratios s, (col_ratios s)[r := crow])" "active_pane ?s1 = ?i" "active_tab ?s1 = active_tab s"
    by (simp_all add: grid_of_def set_grid_def spawn_terminal_def take_id_def)
  have ag: "is_agent_pane ?s1 k = is_agent_pane s k" for k
    by (simp add: is_agent_pane_def set_grid_def spawn_terminal_def take_id_def)
  have shape: "shape_ok ?s1" using split_right_opens [OF s, of b t] split s by (metis opens_def option.inject)
  have d: "detach_pane r (c + 1) (grid_of ?s1) = Some (panes s, row_ratios s, col_ratios s)"
    using det unfolding g1(1) by (simp add: grid_of_def)
  obtain s2 where "mutate_close_pane ?i ?s1 = Some s2" "grid_of s2 = grid_of s" "active_tab s2 = active_tab s" "terminals s2 = terminals s"
    using close_focused_stays [OF shape found many g1(2) _ d f(2) pane_at_member [OF c(1,2)]] plain c(3) ag g1 tb
    by (auto simp: grid_of_def)
  then show ?thesis using split by blast
qed

theorem split_then_close_witness:
  "\<exists>s1 s2. mutate_split_right True 1 seed_app = Some s1 \<and> mutate_close_pane (next_id seed_app) s1 = Some s2 \<and>
    grid_of s2 = grid_of seed_app \<and> active_tab s2 = active_tab seed_app \<and> terminals s2 = terminals seed_app"
  by (rule split_then_close [OF seed_ok, of _ 0 0])
    (simp_all add: seed_app_def find_pane_coord_def shell_pane_def MAX_COLS_def is_agent_pane_def)

section \<open>Restoring\<close>

lemma retain_cols_ok:
  "map fst (retain_cols kept shares c row) = filter (\<lambda>p. pane_id p \<in> kept) row \<and> (\<forall>x \<in> set (map snd (retain_cols kept shares c row)). 0 < x)"
  by (induction row arbitrary: c) (auto simp: positive_or_one_def split: option.split)

lemma retain_rows_ok:
  "pane_ids (map fst (retain_rows kept rr cr r ps)) = filter (\<lambda>i. i \<in> kept) (pane_ids ps) \<and>
   grid_ok (map fst (retain_rows kept rr cr r ps), map (fst \<circ> snd) (retain_rows kept rr cr r ps), map (snd \<circ> snd) (retain_rows kept rr cr r ps))"
proof (induction ps arbitrary: r)
  case Nil
  then show ?case by (simp add: pane_ids_def grid_ok_def)
next
  case (Cons row ps)
  let ?stay = "retain_cols kept (case nth_opt cr r of Some xs \<Rightarrow> xs | None \<Rightarrow> []) 0 row"
  have st: "map fst ?stay = filter (\<lambda>p. pane_id p \<in> kept) row" "\<forall>x \<in> set (map snd ?stay). 0 < x"
    using retain_cols_ok [of kept "case nth_opt cr r of Some xs \<Rightarrow> xs | None \<Rightarrow> []" 0 row] by blast+
  have ids: "pane_ids (row # ps) = map pane_id row @ pane_ids ps" by (simp add: pane_ids_def)
  have fi: "filter (\<lambda>i. i \<in> kept) (map pane_id row) = map pane_id (map fst ?stay)"
    unfolding st(1) by (simp add: filter_map comp_def)
  show ?case
  proof (cases "?stay = []")
    case True
    then show ?thesis using Cons.IH [of "Suc r"] fi ids by (simp add: Let_def)
  next
    case False
    have "row_ok (map fst ?stay) (map snd ?stay)" using st(2) False by (simp add: row_ok_def)
    moreover have "0 < positive_or_one (nth_opt rr r)" by (simp add: positive_or_one_def split: option.split)
    ultimately show ?thesis using Cons.IH [of "Suc r"] fi ids False by (simp add: Let_def grid_ok_def pane_ids_def)
  qed
qed

text \<open>Whatever shares a saved tab carries (missing, too few, not positive), the tab that keeps a subset of
  its panes is well formed, with exactly the panes of the subset in their order; it is dropped exactly when none of them stays.\<close>

theorem retained_tab_is_well_formed:
  "case retain_tab_panes kept t of
     Some t' \<Rightarrow> tab_ok t' \<and> pane_ids (tab_panes t') = filter (\<lambda>i. i \<in> kept) (pane_ids (tab_panes t))
   | None \<Rightarrow> filter (\<lambda>i. i \<in> kept) (pane_ids (tab_panes t)) = []"
proof -
  let ?rows = "retain_rows kept (tab_row_ratios t) (tab_col_ratios t) 0 (tab_panes t)"
  have R: "pane_ids (map fst ?rows) = filter (\<lambda>i. i \<in> kept) (pane_ids (tab_panes t))"
    and G: "grid_ok (map fst ?rows, map (fst \<circ> snd) ?rows, map (snd \<circ> snd) ?rows)"
    using retain_rows_ok by blast+
  show ?thesis
  proof (cases "map fst ?rows = []")
    case True
    then show ?thesis using R by (simp add: retain_tab_panes_def Let_def pane_ids_def)
  next
    case False
    have "0 < length (map fst ?rows)" using False by simp
    then have "map fst ?rows ! 0 \<noteq> []" using grid_ok_lengths(3) [OF G, of 0] by (simp add: row_ok_def del: length_map)
    then have "hd (hd (map fst ?rows)) \<in> set (concat (map fst ?rows))" using False by (cases "map fst ?rows"; cases "hd (map fst ?rows)") auto
    then have "pane_id (hd (hd (map fst ?rows))) \<in> set (pane_ids (map fst ?rows))" unfolding pane_ids_def set_map by (rule imageI)
    then show ?thesis using R G False unfolding retain_tab_panes_def Let_def by (auto simp: tab_ok_def)
  qed
qed

lemma normalized_ratios_ok:
  assumes "\<forall>row \<in> set ps. row \<noteq> []"
  shows "grid_ok (ps, normalized_row_ratios ps rr, normalized_col_ratios ps cr)"
proof -
  let ?cr = "normalized_col_ratios ps cr"
  have rows: "length (normalized_row_ratios ps rr) = length ps" "\<forall>x \<in> set (normalized_row_ratios ps rr). 0 < x"
    by (auto simp: normalized_row_ratios_def)
  have "length ?cr = length ps" by (simp add: normalized_col_ratios_def)
  moreover have "row_ok (ps ! i) (?cr ! i)" if i: "i < length ps" for i
  proof (cases "length cr = length ps \<and> (\<forall>(row, prow) \<in> set (zip cr ps). length row = length prow \<and> (\<forall>r \<in> set row. 0 < r))")
    case True
    then have "(cr ! i, ps ! i) \<in> set (zip cr ps)" using i by (auto simp: set_zip)
    then have "length (cr ! i) = length (ps ! i) \<and> (\<forall>r \<in> set (cr ! i). 0 < r)" using True by fastforce
    moreover have "?cr = cr" unfolding normalized_col_ratios_def by (rule if_P [OF True])
    ultimately show ?thesis using assms i by (simp add: row_ok_def)
  next
    case False
    then have "?cr = map (\<lambda>row. replicate (length row) 1) ps" unfolding normalized_col_ratios_def by (rule if_not_P)
    then have "?cr ! i = replicate (length (ps ! i)) 1" using i by simp
    then show ?thesis using assms i by (simp add: row_ok_def)
  qed
  ultimately show ?thesis using rows by (simp add: grid_ok_def list_all2_conv_all_nth)
qed

section \<open>Where the code leaves the invariant\<close>

text \<open>Killing a session takes its pane out of the grid but leaves the shares and the focus as they were: after
  it, splitting a pane that is still shown indexes outside the shares and panics.\<close>

theorem killed_session_breaks_the_grid:
  "\<exists>s. run_opt layout_apply [SplitDown True 1, SplitRight True 2] seed_app = Some s \<and>
     pane_ids (panes (kill_pane_session 1 s)) = [2, 3] \<and> mutate_split_right True 3 (kill_pane_session 1 s) = None"
  by (simp add: seed_app_def mutate_split_right_def mutate_split_down_def find_pane_coord_def shell_pane_def take_id_def spawn_terminal_def
      MAX_COLS_def MAX_ROWS_def insert_beside_def insert_row_def grid_of_def set_grid_def kill_pane_session_def prune_pane_from_layouts_def
      forget_agent_restore_def destroy_pty_def prune_rows_def pane_ids_def Let_def nth_opt_def)

text \<open>A pane extracted to a tab can give the tab the id of the tab it came from. Reordering another tab then
  makes the wrong tab the front one, and the next switch writes the live layout over it: pane 2 is in no tab while
  its terminal is still there, and pane 1 is shown twice.\<close>

theorem equal_tab_ids_lose_a_pane:
  "\<exists>s. run_opt layout_apply [SplitRight True 1, ExtractPane 1 1, AddTab True, SwitchTab 1,
       ReorderTab (116 # show_nat 3) 0, SwitchTab 0] seed_app = Some s \<and>
     2 \<in> terminals s \<and> 2 \<notin># pool s \<and> count (pool s) 1 = 2"
  by (simp add: seed_app_def mutate_split_right_def find_pane_coord_def shell_pane_def take_id_def spawn_terminal_def
      MAX_COLS_def insert_beside_def grid_of_def set_grid_def mutate_extract_pane_to_tab_def detach_active_def detach_pane_def absorb_share_def
      refocus_def sync_live_tab_from_panes_def live_tab_def tab_of_pane_def load_tab_state_def mutate_add_tab_def save_tab_state_def
      push_tab_def mutate_switch_tab_def focus_tab_group_def is_agent_pane_def mutate_tab_reorder_def show_nat.simps pane_ids_def
      vec_insert_at_def vec_remove_def nth_opt_def Let_def pool_def all_panes_def live_tabs_def other_tabs_def panes_of_tabs_def)

end
