(* ===== verification/Syntax_Tables.thy ===== *)
theory Syntax_Tables
  imports Diff_Lines
begin

text \<open>
  The rules of the syntax scanner per language (src/src/syntax.rs): the names, the comment and
  string delimiters, and the keyword tables.
\<close>

section \<open>Names\<close>

fun language_as_str :: "language \<Rightarrow> rstr" where
  "language_as_str Rust = str_lit ''rust''"
| "language_as_str TypeScript = str_lit ''typescript''"
| "language_as_str Tsx = str_lit ''tsx''"
| "language_as_str JavaScript = str_lit ''javascript''"
| "language_as_str Python = str_lit ''python''"
| "language_as_str Go = str_lit ''go''"
| "language_as_str CSharp = str_lit ''csharp''"
| "language_as_str Json = str_lit ''json''"
| "language_as_str Toml = str_lit ''toml''"
| "language_as_str Yaml = str_lit ''yaml''"
| "language_as_str Markdown = str_lit ''markdown''"
| "language_as_str Shell = str_lit ''shell''"
| "language_as_str PowerShell = str_lit ''powershell''"
| "language_as_str C_Lang = str_lit ''c''"
| "language_as_str Cpp = str_lit ''cpp''"
| "language_as_str Java = str_lit ''java''"
| "language_as_str Kotlin = str_lit ''kotlin''"
| "language_as_str Swift = str_lit ''swift''"
| "language_as_str Ruby = str_lit ''ruby''"
| "language_as_str Php = str_lit ''php''"
| "language_as_str Sql = str_lit ''sql''"
| "language_as_str Css = str_lit ''css''"
| "language_as_str Lua = str_lit ''lua''"
| "language_as_str Zig = str_lit ''zig''"
| "language_as_str Dockerfile = str_lit ''dockerfile''"
| "language_as_str Makefile = str_lit ''makefile''"
| "language_as_str Plain = str_lit ''plain''"

section \<open>Delimiters\<close>

fun line_comment_prefix :: "language \<Rightarrow> rstr option" where
  "line_comment_prefix Rust = Some (str_lit ''//'')"
| "line_comment_prefix TypeScript = Some (str_lit ''//'')"
| "line_comment_prefix Tsx = Some (str_lit ''//'')"
| "line_comment_prefix JavaScript = Some (str_lit ''//'')"
| "line_comment_prefix Go = Some (str_lit ''//'')"
| "line_comment_prefix CSharp = Some (str_lit ''//'')"
| "line_comment_prefix C_Lang = Some (str_lit ''//'')"
| "line_comment_prefix Cpp = Some (str_lit ''//'')"
| "line_comment_prefix Java = Some (str_lit ''//'')"
| "line_comment_prefix Kotlin = Some (str_lit ''//'')"
| "line_comment_prefix Swift = Some (str_lit ''//'')"
| "line_comment_prefix Php = Some (str_lit ''//'')"
| "line_comment_prefix Zig = Some (str_lit ''//'')"
| "line_comment_prefix Python = Some (str_lit ''#'')"
| "line_comment_prefix Shell = Some (str_lit ''#'')"
| "line_comment_prefix PowerShell = Some (str_lit ''#'')"
| "line_comment_prefix Ruby = Some (str_lit ''#'')"
| "line_comment_prefix Yaml = Some (str_lit ''#'')"
| "line_comment_prefix Toml = Some (str_lit ''#'')"
| "line_comment_prefix Makefile = Some (str_lit ''#'')"
| "line_comment_prefix Dockerfile = Some (str_lit ''#'')"
| "line_comment_prefix Sql = Some (str_lit ''--'')"
| "line_comment_prefix Lua = Some (str_lit ''--'')"
| "line_comment_prefix Json = None"
| "line_comment_prefix Css = None"
| "line_comment_prefix Markdown = None"
| "line_comment_prefix Plain = None"

definition line_comment_needs_boundary :: "language \<Rightarrow> bool" where
  "line_comment_needs_boundary l \<longleftrightarrow> l \<in> {Shell, PowerShell, Yaml, Toml, Ruby, Makefile, Dockerfile}"

definition block_comment :: "language \<Rightarrow> (rstr \<times> rstr) option" where
  "block_comment l =
     (if l \<in> {Rust, TypeScript, Tsx, JavaScript, Go, CSharp, C_Lang, Cpp, Java, Kotlin, Swift, Php, Css, Sql}
      then Some (str_lit ''/*'', str_lit ''*/'')
      else if l = PowerShell then Some (str_lit ''<#'', str_lit ''#>'')
      else if l = Lua then Some (str_lit ''--[['', str_lit '']]'')
      else None)"

definition has_block_comments :: "language \<Rightarrow> bool" where
  "has_block_comments l \<longleftrightarrow> block_comment l \<noteq> None"

text \<open>The quotes: 34 is the double, 39 the single one, 96 the back quote.\<close>

definition string_quotes :: "language \<Rightarrow> rchar list" where
  "string_quotes l =
     (if l \<in> {Rust, Go, CSharp, Swift, Json} then [34]
      else if l \<in> {Markdown, Plain} then []
      else if l \<in> {Ruby, TypeScript, Tsx, JavaScript} then [34, 39, 96]
      else [34, 39])"

definition keywords_ignore_case :: "language \<Rightarrow> bool" where
  "keywords_ignore_case l \<longleftrightarrow> l \<in> {Sql, PowerShell, Dockerfile}"

section \<open>Keywords\<close>

definition KW_JS :: "rstr list" where
  "KW_JS = map str_lit [
    ''async'', ''await'', ''break'', ''case'', ''catch'', ''class'', ''const'', ''continue'', ''default'',
    ''delete'', ''do'', ''else'', ''export'', ''extends'', ''false'', ''finally'', ''for'', ''from'',
    ''function'', ''if'', ''import'', ''in'', ''instanceof'', ''let'', ''new'', ''null'', ''of'', ''return'',
    ''static'', ''super'', ''switch'', ''this'', ''throw'', ''true'', ''try'', ''typeof'', ''undefined'',
    ''var'', ''void'', ''while'', ''yield'']"

definition KW_TS :: "rstr list" where
  "KW_TS = map str_lit [
    ''abstract'', ''as'', ''async'', ''await'', ''break'', ''case'', ''catch'', ''class'', ''const'',
    ''continue'', ''declare'', ''default'', ''delete'', ''do'', ''else'', ''enum'', ''export'', ''extends'',
    ''false'', ''finally'', ''for'', ''from'', ''function'', ''if'', ''implements'', ''import'', ''in'',
    ''instanceof'', ''interface'', ''keyof'', ''let'', ''namespace'', ''new'', ''null'', ''of'', ''private'',
    ''protected'', ''public'', ''readonly'', ''return'', ''satisfies'', ''static'', ''super'', ''switch'',
    ''this'', ''throw'', ''true'', ''try'', ''type'', ''typeof'', ''undefined'', ''var'', ''void'',
    ''while'', ''yield'']"

definition KW_RUST :: "rstr list" where
  "KW_RUST = map str_lit [
    ''as'', ''async'', ''await'', ''break'', ''const'', ''continue'', ''crate'', ''dyn'', ''else'', ''enum'',
    ''extern'', ''false'', ''fn'', ''for'', ''if'', ''impl'', ''in'', ''let'', ''loop'', ''match'', ''mod'',
    ''move'', ''mut'', ''pub'', ''ref'', ''return'', ''self'', ''Self'', ''static'', ''struct'', ''super'',
    ''trait'', ''true'', ''type'', ''unsafe'', ''use'', ''where'', ''while'']"

definition KW_PYTHON :: "rstr list" where
  "KW_PYTHON = map str_lit [
    ''False'', ''None'', ''True'', ''and'', ''as'', ''assert'', ''async'', ''await'', ''break'', ''class'',
    ''continue'', ''def'', ''del'', ''elif'', ''else'', ''except'', ''finally'', ''for'', ''from'',
    ''global'', ''if'', ''import'', ''in'', ''is'', ''lambda'', ''nonlocal'', ''not'', ''or'', ''pass'',
    ''raise'', ''return'', ''try'', ''while'', ''with'', ''yield'']"

definition KW_GO :: "rstr list" where
  "KW_GO = map str_lit [
    ''break'', ''case'', ''chan'', ''const'', ''continue'', ''default'', ''defer'', ''else'',
    ''fallthrough'', ''false'', ''for'', ''func'', ''go'', ''goto'', ''if'', ''import'', ''interface'',
    ''map'', ''nil'', ''package'', ''range'', ''return'', ''select'', ''struct'', ''switch'', ''true'',
    ''type'', ''var'']"

definition KW_CSHARP :: "rstr list" where
  "KW_CSHARP = map str_lit [
    ''abstract'', ''as'', ''async'', ''await'', ''base'', ''bool'', ''break'', ''case'', ''catch'',
    ''class'', ''const'', ''continue'', ''default'', ''delegate'', ''do'', ''else'', ''enum'', ''event'',
    ''false'', ''finally'', ''for'', ''foreach'', ''get'', ''if'', ''in'', ''int'', ''interface'',
    ''internal'', ''is'', ''lock'', ''namespace'', ''new'', ''null'', ''object'', ''out'', ''override'',
    ''private'', ''protected'', ''public'', ''readonly'', ''ref'', ''return'', ''sealed'', ''set'',
    ''static'', ''string'', ''struct'', ''switch'', ''this'', ''throw'', ''true'', ''try'', ''using'',
    ''var'', ''virtual'', ''void'', ''while'', ''yield'']"

definition KW_JSON :: "rstr list" where
  "KW_JSON = map str_lit [
    ''false'', ''null'', ''true'']"

definition KW_TOML :: "rstr list" where
  "KW_TOML = map str_lit [
    ''false'', ''inf'', ''nan'', ''true'']"

definition KW_YAML :: "rstr list" where
  "KW_YAML = map str_lit [
    ''False'', ''Null'', ''TRUE'', ''True'', ''false'', ''no'', ''null'', ''off'', ''on'', ''true'', ''yes'']"

definition KW_SHELL :: "rstr list" where
  "KW_SHELL = map str_lit [
    ''alias'', ''case'', ''declare'', ''do'', ''done'', ''elif'', ''else'', ''esac'', ''eval'', ''exec'',
    ''exit'', ''export'', ''fi'', ''for'', ''function'', ''if'', ''in'', ''local'', ''readonly'', ''return'',
    ''select'', ''set'', ''shift'', ''source'', ''then'', ''trap'', ''typeset'', ''unset'', ''until'',
    ''while'']"

definition KW_POWERSHELL :: "rstr list" where
  "KW_POWERSHELL = map str_lit [
    ''$false'', ''$null'', ''$true'', ''begin'', ''break'', ''catch'', ''class'', ''continue'', ''data'',
    ''do'', ''dynamicparam'', ''else'', ''elseif'', ''end'', ''enum'', ''exit'', ''filter'', ''finally'',
    ''for'', ''foreach'', ''function'', ''hidden'', ''if'', ''in'', ''param'', ''process'', ''return'',
    ''static'', ''switch'', ''throw'', ''trap'', ''try'', ''until'', ''using'', ''while'', ''workflow'']"

definition KW_C :: "rstr list" where
  "KW_C = map str_lit [
    ''NULL'', ''auto'', ''break'', ''case'', ''char'', ''const'', ''continue'', ''default'', ''do'',
    ''double'', ''else'', ''enum'', ''extern'', ''float'', ''for'', ''goto'', ''if'', ''inline'', ''int'',
    ''long'', ''register'', ''restrict'', ''return'', ''short'', ''signed'', ''sizeof'', ''static'',
    ''struct'', ''switch'', ''typedef'', ''union'', ''unsigned'', ''void'', ''volatile'', ''while'']"

definition KW_CPP_EXTRA :: "rstr list" where
  "KW_CPP_EXTRA = map str_lit [
    ''bool'', ''catch'', ''class'', ''constexpr'', ''consteval'', ''decltype'', ''delete'', ''explicit'',
    ''false'', ''friend'', ''mutable'', ''namespace'', ''new'', ''noexcept'', ''nullptr'', ''operator'',
    ''override'', ''private'', ''protected'', ''public'', ''template'', ''this'', ''throw'', ''true'',
    ''try'', ''typeid'', ''typename'', ''using'', ''virtual'']"

definition KW_JAVA :: "rstr list" where
  "KW_JAVA = map str_lit [
    ''abstract'', ''assert'', ''boolean'', ''break'', ''byte'', ''case'', ''catch'', ''char'', ''class'',
    ''const'', ''continue'', ''default'', ''do'', ''double'', ''else'', ''enum'', ''extends'', ''false'',
    ''final'', ''finally'', ''float'', ''for'', ''if'', ''implements'', ''import'', ''instanceof'', ''int'',
    ''interface'', ''long'', ''native'', ''new'', ''null'', ''package'', ''private'', ''protected'',
    ''public'', ''record'', ''return'', ''sealed'', ''short'', ''static'', ''strictfp'', ''super'',
    ''switch'', ''synchronized'', ''this'', ''throw'', ''throws'', ''transient'', ''true'', ''try'', ''var'',
    ''void'', ''volatile'', ''while'', ''yield'']"

definition KW_KOTLIN :: "rstr list" where
  "KW_KOTLIN = map str_lit [
    ''as'', ''break'', ''by'', ''catch'', ''class'', ''companion'', ''const'', ''constructor'', ''continue'',
    ''crossinline'', ''data'', ''do'', ''else'', ''enum'', ''external'', ''false'', ''final'', ''finally'',
    ''for'', ''fun'', ''if'', ''import'', ''in'', ''infix'', ''init'', ''inline'', ''interface'',
    ''internal'', ''is'', ''lateinit'', ''null'', ''object'', ''open'', ''operator'', ''out'', ''override'',
    ''package'', ''private'', ''protected'', ''public'', ''reified'', ''return'', ''sealed'', ''super'',
    ''suspend'', ''this'', ''throw'', ''true'', ''try'', ''typealias'', ''val'', ''var'', ''vararg'',
    ''when'', ''while'']"

definition KW_SWIFT :: "rstr list" where
  "KW_SWIFT = map str_lit [
    ''as'', ''associatedtype'', ''async'', ''await'', ''break'', ''case'', ''catch'', ''class'',
    ''continue'', ''default'', ''defer'', ''deinit'', ''do'', ''else'', ''enum'', ''extension'',
    ''fallthrough'', ''false'', ''fileprivate'', ''final'', ''for'', ''func'', ''guard'', ''if'', ''import'',
    ''in'', ''init'', ''inout'', ''internal'', ''is'', ''let'', ''mutating'', ''nil'', ''open'',
    ''operator'', ''private'', ''protocol'', ''public'', ''repeat'', ''rethrows'', ''return'', ''self'',
    ''static'', ''struct'', ''subscript'', ''super'', ''switch'', ''throw'', ''throws'', ''true'', ''try'',
    ''typealias'', ''var'', ''weak'', ''where'', ''while'']"

definition KW_RUBY :: "rstr list" where
  "KW_RUBY = map str_lit [
    ''alias'', ''and'', ''begin'', ''break'', ''case'', ''class'', ''def'', ''do'', ''else'', ''elsif'',
    ''end'', ''ensure'', ''false'', ''for'', ''if'', ''in'', ''module'', ''next'', ''nil'', ''not'', ''or'',
    ''redo'', ''require'', ''require_relative'', ''rescue'', ''retry'', ''return'', ''self'', ''super'',
    ''then'', ''true'', ''undef'', ''unless'', ''until'', ''when'', ''while'', ''yield'']"

definition KW_PHP :: "rstr list" where
  "KW_PHP = map str_lit [
    ''abstract'', ''and'', ''array'', ''as'', ''break'', ''callable'', ''case'', ''catch'', ''class'',
    ''clone'', ''const'', ''continue'', ''declare'', ''default'', ''do'', ''echo'', ''else'', ''elseif'',
    ''empty'', ''enum'', ''extends'', ''false'', ''final'', ''finally'', ''fn'', ''for'', ''foreach'',
    ''function'', ''global'', ''if'', ''implements'', ''include'', ''include_once'', ''instanceof'',
    ''insteadof'', ''interface'', ''isset'', ''list'', ''match'', ''namespace'', ''new'', ''null'', ''or'',
    ''print'', ''private'', ''protected'', ''public'', ''readonly'', ''require'', ''require_once'',
    ''return'', ''static'', ''switch'', ''throw'', ''trait'', ''true'', ''try'', ''unset'', ''use'', ''var'',
    ''while'', ''xor'', ''yield'']"

definition KW_SQL :: "rstr list" where
  "KW_SQL = map str_lit [
    ''add'', ''all'', ''alter'', ''and'', ''as'', ''asc'', ''begin'', ''between'', ''boolean'', ''by'',
    ''case'', ''column'', ''commit'', ''constraint'', ''create'', ''cross'', ''default'', ''delete'',
    ''desc'', ''distinct'', ''drop'', ''else'', ''end'', ''exists'', ''foreign'', ''from'', ''full'',
    ''group'', ''having'', ''in'', ''index'', ''inner'', ''insert'', ''int'', ''integer'', ''into'', ''is'',
    ''join'', ''key'', ''left'', ''like'', ''limit'', ''not'', ''null'', ''offset'', ''on'', ''or'',
    ''order'', ''outer'', ''primary'', ''references'', ''returning'', ''right'', ''rollback'', ''select'',
    ''set'', ''table'', ''text'', ''then'', ''timestamp'', ''union'', ''unique'', ''update'', ''values'',
    ''varchar'', ''view'', ''when'', ''where'', ''with'']"

definition KW_CSS :: "rstr list" where
  "KW_CSS = map str_lit [
    ''and'', ''charset'', ''font-face'', ''import'', ''inherit'', ''initial'', ''keyframes'', ''media'',
    ''not'', ''only'', ''revert'', ''supports'', ''unset'']"

definition KW_LUA :: "rstr list" where
  "KW_LUA = map str_lit [
    ''and'', ''break'', ''do'', ''else'', ''elseif'', ''end'', ''false'', ''for'', ''function'', ''goto'',
    ''if'', ''in'', ''local'', ''nil'', ''not'', ''or'', ''repeat'', ''return'', ''then'', ''true'',
    ''until'', ''while'']"

definition KW_ZIG :: "rstr list" where
  "KW_ZIG = map str_lit [
    ''align'', ''allowzero'', ''and'', ''anyframe'', ''anytype'', ''asm'', ''async'', ''await'', ''break'',
    ''catch'', ''comptime'', ''const'', ''continue'', ''defer'', ''else'', ''enum'', ''errdefer'', ''error'',
    ''export'', ''extern'', ''false'', ''fn'', ''for'', ''if'', ''inline'', ''linksection'', ''noalias'',
    ''nosuspend'', ''null'', ''opaque'', ''or'', ''orelse'', ''packed'', ''pub'', ''resume'', ''return'',
    ''struct'', ''suspend'', ''switch'', ''test'', ''threadlocal'', ''try'', ''undefined'', ''union'',
    ''unreachable'', ''usingnamespace'', ''var'', ''volatile'', ''while'']"

definition KW_DOCKERFILE :: "rstr list" where
  "KW_DOCKERFILE = map str_lit [
    ''add'', ''arg'', ''as'', ''cmd'', ''copy'', ''entrypoint'', ''env'', ''expose'', ''from'',
    ''healthcheck'', ''label'', ''maintainer'', ''onbuild'', ''run'', ''shell'', ''stopsignal'', ''user'',
    ''volume'', ''workdir'']"

definition KW_MAKEFILE :: "rstr list" where
  "KW_MAKEFILE = map str_lit [
    ''define'', ''else'', ''endef'', ''endif'', ''export'', ''ifdef'', ''ifeq'', ''ifndef'', ''ifneq'',
    ''include'', ''override'', ''unexport'', ''vpath'']"

fun keyword_table :: "language \<Rightarrow> rstr list" where
  "keyword_table Rust = KW_RUST"
| "keyword_table TypeScript = KW_TS"
| "keyword_table Tsx = KW_TS"
| "keyword_table JavaScript = KW_JS"
| "keyword_table Python = KW_PYTHON"
| "keyword_table Go = KW_GO"
| "keyword_table CSharp = KW_CSHARP"
| "keyword_table Json = KW_JSON"
| "keyword_table Toml = KW_TOML"
| "keyword_table Yaml = KW_YAML"
| "keyword_table Shell = KW_SHELL"
| "keyword_table PowerShell = KW_POWERSHELL"
| "keyword_table C_Lang = KW_C"
| "keyword_table Cpp = KW_C @ KW_CPP_EXTRA"
| "keyword_table Java = KW_JAVA"
| "keyword_table Kotlin = KW_KOTLIN"
| "keyword_table Swift = KW_SWIFT"
| "keyword_table Ruby = KW_RUBY"
| "keyword_table Php = KW_PHP"
| "keyword_table Sql = KW_SQL"
| "keyword_table Css = KW_CSS"
| "keyword_table Lua = KW_LUA"
| "keyword_table Zig = KW_ZIG"
| "keyword_table Dockerfile = KW_DOCKERFILE"
| "keyword_table Makefile = KW_MAKEFILE"
| "keyword_table Markdown = []"
| "keyword_table Plain = []"

definition is_keyword :: "language \<Rightarrow> rstr \<Rightarrow> bool" where
  "is_keyword l word = (if keywords_ignore_case l
     then \<exists>k \<in> set (keyword_table l). to_ascii_lowercase word = to_ascii_lowercase k
     else word \<in> set (keyword_table l))"

end
