(* ===== verification/Syntax.thy ===== *)
theory Syntax
  imports Syntax_Tables
begin

text \<open>
  The syntax scanner (\<open>tokenize_spans\<close> and \<open>tokenize\<close> of src/src/syntax.rs). A line is its
  characters, offsets count UTF-8 bytes; the loop of the code walks the offset \<open>i\<close>, here the
  characters before and from \<open>i\<close>. \<open>char::is_alphabetic\<close> and \<open>char::is_numeric\<close> are the arguments
  \<open>alpha\<close> and \<open>numeric\<close>; \<open>is_alphanumeric\<close> is their disjunction, as in the standard library.
\<close>

datatype token_kind = Comment | Str | Number | Keyword | Ident | Punct | Ws

fun token_class :: "token_kind \<Rightarrow> rstr" where
  "token_class Comment = str_lit ''tok-comment''"
| "token_class Str = str_lit ''tok-str''"
| "token_class Number = str_lit ''tok-number''"
| "token_class Keyword = str_lit ''tok-keyword''"
| "token_class Ident = str_lit ''tok-ident''"
| "token_class Punct = str_lit ''tok-punct''"
| "token_class Ws = str_lit ''tok-ws''"

record span =
  span_start :: nat
  span_end :: nat
  span_kind :: token_kind

record token =
  token_text :: rstr
  token_kind :: token_kind

definition push_span :: "span list \<Rightarrow> nat \<Rightarrow> nat \<Rightarrow> token_kind \<Rightarrow> span list" where
  "push_span out i j kind =
     (if j \<le> i then out
      else if out \<noteq> [] \<and> span_kind (last out) = kind \<and> span_end (last out) = i \<and> (kind = Punct \<or> kind = Ws)
      then butlast out @ [(last out)\<lparr>span_end := j\<rparr>]
      else out @ [\<lparr>span_start = i, span_end = j, span_kind = kind\<rparr>])"

definition is_ascii_whitespace :: "rchar \<Rightarrow> bool" where
  "is_ascii_whitespace c \<longleftrightarrow> c = 32 \<or> c = 9 \<or> c = 10 \<or> c = 12 \<or> c = 13"

definition is_ascii_digit :: "rchar \<Rightarrow> bool" where
  "is_ascii_digit c \<longleftrightarrow> 48 \<le> c \<and> c \<le> 57"

definition is_ascii_alphanumeric :: "rchar \<Rightarrow> bool" where
  "is_ascii_alphanumeric c \<longleftrightarrow> is_ascii_digit c \<or> (65 \<le> c \<and> c \<le> 90) \<or> (97 \<le> c \<and> c \<le> 122)"

text \<open>The body of a string literal with its closing quote \<open>q\<close>, if the line has it; 92 is the backslash.\<close>

fun string_body :: "rchar \<Rightarrow> bool \<Rightarrow> rstr \<Rightarrow> rstr" where
  "string_body q escaped [] = []"
| "string_body q escaped (c # cs) =
     (if escaped then c # string_body q False cs
      else if c = 92 then c # string_body q True cs
      else if c = q then [c]
      else c # string_body q False cs)"

definition is_word_start :: "(rchar \<Rightarrow> bool) \<Rightarrow> rchar \<Rightarrow> bool" where
  "is_word_start alpha c \<longleftrightarrow> alpha c \<or> c = 95 \<or> c = 36"

definition is_word_rest :: "(rchar \<Rightarrow> bool) \<Rightarrow> (rchar \<Rightarrow> bool) \<Rightarrow> language \<Rightarrow> rchar \<Rightarrow> bool" where
  "is_word_rest alpha numeric lang c \<longleftrightarrow> alpha c \<or> numeric c \<or> c = 95 \<or> c = 36 \<or> (lang = Css \<and> c = 45)"

text \<open>
  One turn of the loop at a place with \<open>pre\<close> before it and \<open>rest\<close> from it: the text of the run, its
  kind, and whether a block comment is open after it.
\<close>

definition block_run :: "rstr \<Rightarrow> rstr \<Rightarrow> rstr \<times> bool" where
  "block_run close s = (case find_str close s of Some a \<Rightarrow> (a @ close, False) | None \<Rightarrow> (s, True))"

definition starts_line_comment :: "language \<Rightarrow> rstr \<Rightarrow> rstr \<Rightarrow> bool" where
  "starts_line_comment lang pre rest \<longleftrightarrow> (case line_comment_prefix lang of None \<Rightarrow> False
   | Some mark \<Rightarrow> (\<not> line_comment_needs_boundary lang \<or> pre = [] \<or> is_ascii_whitespace (last pre)) \<and> starts_with mark rest)"

definition code_run :: "(rchar \<Rightarrow> bool) \<Rightarrow> (rchar \<Rightarrow> bool) \<Rightarrow> language \<Rightarrow> rstr \<Rightarrow> rstr \<times> token_kind" where
  "code_run alpha numeric lang rest = (let c = hd rest in
     if c \<in> set (string_quotes lang) then (c # string_body c False (tl rest), Str)
     else if is_ascii_digit c then (takeWhile (\<lambda>x. is_ascii_alphanumeric x \<or> x = 46 \<or> x = 95) rest, Number)
     else if is_word_start alpha c
     then let word = takeWhile (is_word_rest alpha numeric lang) rest
          in (word, if is_keyword lang word then Keyword else Ident)
     else if is_whitespace c then (takeWhile is_whitespace rest, Ws)
     else ([c], Punct))"

definition next_run :: "(rchar \<Rightarrow> bool) \<Rightarrow> (rchar \<Rightarrow> bool) \<Rightarrow> language \<Rightarrow> bool \<Rightarrow> rstr \<Rightarrow> rstr \<Rightarrow> rstr \<times> token_kind \<times> bool" where
  "next_run alpha numeric lang in_block pre rest =
     (if in_block
      then let close = (case block_comment lang of Some (_, close) \<Rightarrow> close | None \<Rightarrow> str_lit ''*/'');
               (run, open') = block_run close rest in (run, Comment, open')
      else case block_comment lang of
        Some (opener, close) \<Rightarrow>
          (case strip_prefix opener rest of
             Some body \<Rightarrow> let (run, open') = block_run close body in (opener @ run, Comment, open')
           | None \<Rightarrow> if starts_line_comment lang pre rest then (rest, Comment, False)
                     else let (run, kind) = code_run alpha numeric lang rest in (run, kind, False))
      | None \<Rightarrow> if starts_line_comment lang pre rest then (rest, Comment, False)
                else let (run, kind) = code_run alpha numeric lang rest in (run, kind, False))"

section \<open>Every run takes something\<close>

lemma string_body_prefix: "\<exists>t. cs = string_body q e cs @ t"
  by (induction q e cs rule: string_body.induct) auto

lemma block_run_prefix: "\<exists>t. s = fst (block_run close s) @ t"
  by (auto simp: block_run_def split: option.split dest: find_str_SomeD)

lemma takeWhile_prefix: "\<exists>t. s = takeWhile P s @ t"
  by (metis takeWhile_dropWhile_id)

lemma code_run_prefix:
  assumes "rest \<noteq> []"
  shows "\<exists>t. rest = fst (code_run alpha numeric lang rest) @ t \<and> fst (code_run alpha numeric lang rest) \<noteq> []"
proof -
  obtain c cs where r: "rest = c # cs" using assms by (cases rest) auto
  have num: "is_ascii_digit c \<Longrightarrow> takeWhile (\<lambda>x. is_ascii_alphanumeric x \<or> x = 46 \<or> x = 95) rest \<noteq> []"
    by (simp add: r is_ascii_alphanumeric_def)
  have word: "is_word_start alpha c \<Longrightarrow> takeWhile (is_word_rest alpha numeric lang) rest \<noteq> []"
    by (auto simp: r is_word_start_def is_word_rest_def)
  have white: "is_whitespace c \<Longrightarrow> takeWhile is_whitespace rest \<noteq> []" by (simp add: r)
  obtain t where "cs = string_body c False cs @ t" using string_body_prefix by blast
  then have str: "rest = (c # string_body c False cs) @ t" by (simp add: r)
  have hd: "hd rest = c" "tl rest = cs" "rest = [c] @ cs" by (simp_all add: r)
  have pre: "\<exists>t. rest = fst (takeWhile P rest, k) @ t \<and> fst (takeWhile P rest, k) \<noteq> []" if "takeWhile P rest \<noteq> []" for P and k :: token_kind
    using takeWhile_prefix [of rest P] that by simp
  show ?thesis
  proof (cases "c \<in> set (string_quotes lang)")
    case True
    then have "code_run alpha numeric lang rest = (c # string_body c False cs, Str)" by (simp add: code_run_def hd(1,2))
    then show ?thesis using str by auto
  next
    case q: False
    show ?thesis
    proof (cases "is_ascii_digit c \<or> is_word_start alpha c \<or> is_whitespace c")
      case True
      then show ?thesis using q pre [OF num] pre [OF word] pre [OF white]
        unfolding code_run_def Let_def hd(1,2) by (cases "is_ascii_digit c"; cases "is_word_start alpha c"; simp)
    next
      case False
      then have "code_run alpha numeric lang rest = ([c], Punct)" using q by (simp add: code_run_def hd(1,2))
      then show ?thesis using hd(3) by auto
    qed
  qed
qed

lemma block_comment_nonempty: "block_comment lang = Some (a, b) \<Longrightarrow> a \<noteq> [] \<and> b \<noteq> []"
  by (cases lang) (auto simp: block_comment_def str_lit_def)

lemma block_run_nonempty: "s \<noteq> [] \<Longrightarrow> close \<noteq> [] \<Longrightarrow> fst (block_run close s) \<noteq> []"
  by (simp add: block_run_def split: option.split)

lemma next_run_prefix:
  assumes "rest \<noteq> []"
  obtains run kind open' t where "next_run alpha numeric lang b pre rest = (run, kind, open')" and "rest = run @ t" and "run \<noteq> []"
proof -
  have "\<exists>t. rest = fst (next_run alpha numeric lang b pre rest) @ t \<and> fst (next_run alpha numeric lang b pre rest) \<noteq> []"
  proof (cases b)
    case True
    let ?close = "case block_comment lang of Some (_, close) \<Rightarrow> close | None \<Rightarrow> str_lit ''*/''"
    have "?close \<noteq> []" by (auto simp: str_lit_def split: option.split dest: block_comment_nonempty)
    moreover obtain run open' where "block_run ?close rest = (run, open')" by fastforce
    ultimately show ?thesis
      using block_run_prefix [of rest ?close] block_run_nonempty [OF assms, of ?close] True
      by (simp add: next_run_def Let_def)
  next
    case False
    show ?thesis
    proof (cases "\<exists>opener close body. block_comment lang = Some (opener, close) \<and> strip_prefix opener rest = Some body")
      case True
      then obtain opener close body where o: "block_comment lang = Some (opener, close)" "strip_prefix opener rest = Some body" by auto
      obtain run open' where r: "block_run close body = (run, open')" by fastforce
    have "next_run alpha numeric lang b pre rest = (opener @ run, Comment, open')"
      using False o r by (simp add: next_run_def)
    moreover have "rest = opener @ body" using o(2) by (simp add: strip_prefix_eq_Some)
    moreover obtain t where "body = run @ t" using block_run_prefix [of body close] r by auto
    ultimately show ?thesis using block_comment_nonempty [OF o(1)] by simp
    next
      case none: False
      then have "next_run alpha numeric lang b pre rest = (if starts_line_comment lang pre rest then (rest, Comment, False)
                else let (run, kind) = code_run alpha numeric lang rest in (run, kind, False))"
        using False by (auto simp: next_run_def split: option.split)
      moreover obtain run kind where "code_run alpha numeric lang rest = (run, kind)" by fastforce
      ultimately show ?thesis using assms code_run_prefix [OF assms, of alpha numeric lang] by simp
    qed
  qed
  then show thesis using that by (metis prod.exhaust_sel)
qed

section \<open>The scanner\<close>

function scan_line :: "(rchar \<Rightarrow> bool) \<Rightarrow> (rchar \<Rightarrow> bool) \<Rightarrow> language \<Rightarrow> bool \<Rightarrow> rstr \<Rightarrow> rstr \<Rightarrow> span list \<Rightarrow> span list \<times> bool" where
  "scan_line alpha numeric lang b pre [] out = (out, b)"
| "scan_line alpha numeric lang b pre (c # cs) out =
     (let (run, kind, b') = next_run alpha numeric lang b pre (c # cs)
      in scan_line alpha numeric lang b' (pre @ run) (drop (length run) (c # cs))
           (push_span out (blen pre) (blen pre + blen run) kind))"
  by pat_completeness auto
termination
proof (relation "measure (\<lambda>(alpha, numeric, lang, b, pre, rest, out). length rest)", goal_cases)
  case 1
  show ?case by simp
next
  case (2 alpha numeric lang b pre c cs out r run y kind b')
  obtain run' kind' o' t where "next_run alpha numeric lang b pre (c # cs) = (run', kind', o')" "c # cs = run' @ t" "run' \<noteq> []"
    by (rule next_run_prefix [of "c # cs"]) auto
  then show ?case using 2 by (cases run') auto
qed

definition tokenize_spans :: "(rchar \<Rightarrow> bool) \<Rightarrow> (rchar \<Rightarrow> bool) \<Rightarrow> rstr \<Rightarrow> language \<Rightarrow> bool \<Rightarrow> span list \<times> bool" where
  "tokenize_spans alpha numeric line lang in_block =
     (if line = [] then ([], in_block)
      else let indent = blen line - blen (trim_start line) in
        if lang = Markdown \<and> (case trim_start line of c # _ \<Rightarrow> c = 35 | [] \<Rightarrow> False)
        then (push_span (push_span [] 0 indent Ws) indent (blen line) Keyword, in_block)
        else scan_line alpha numeric lang in_block [] line [])"

definition tokenize :: "(rchar \<Rightarrow> bool) \<Rightarrow> (rchar \<Rightarrow> bool) \<Rightarrow> rstr \<Rightarrow> language \<Rightarrow> bool \<Rightarrow> token list option \<times> bool" where
  "tokenize alpha numeric line lang in_block =
     (let (spans, b) = tokenize_spans alpha numeric line lang in_block
      in (those (map (\<lambda>sp. map_option (\<lambda>t. \<lparr>token_text = t, token_kind = span_kind sp\<rparr>)
            (slice line (span_start sp) (span_end sp))) spans), b))"

text \<open>
  What the painters rely on: the spans of a line tile it without gap or overlap, on character
  boundaries, so cutting them out never panics and gives the line back; neighbouring runs of
  punctuation or of space are one span; and what the comment command writes is painted as a comment.
\<close>

section \<open>Tiling\<close>

text \<open>The texts of the spans one after the other, \<open>pre\<close> being what they cover.\<close>

fun covers :: "span list \<Rightarrow> rstr list \<Rightarrow> nat \<Rightarrow> bool" where
  "covers [] [] i = True"
| "covers (sp # sps) (t # ts) i = (span_start sp = i \<and> t \<noteq> [] \<and> span_end sp = i + blen t \<and> covers sps ts (i + blen t))"
| "covers _ _ i = False"

lemma covers_Nil [simp]: "covers sps [] i \<longleftrightarrow> sps = []" "covers [] ts i \<longleftrightarrow> ts = []"
  by (cases sps; simp) (cases ts; simp)

lemma covers_snoc:
  "covers (sps @ [sp]) (ts @ [t]) i \<longleftrightarrow>
   covers sps ts i \<and> span_start sp = i + blen (concat ts) \<and> t \<noteq> [] \<and> span_end sp = i + blen (concat ts) + blen t"
  by (induction sps ts i rule: covers.induct) (auto simp: add.assoc)

lemma covers_length: "covers sps ts i \<Longrightarrow> length sps = length ts"
  by (induction sps ts i rule: covers.induct) auto

lemma push_covers:
  assumes "covers out ts 0" and "concat ts = pre" and run: "run \<noteq> []"
  obtains ts' where "covers (push_span out (blen pre) (blen pre + blen run) kind) ts' 0" and "concat ts' = pre @ run"
proof (cases "out \<noteq> [] \<and> span_kind (last out) = kind \<and> span_end (last out) = blen pre \<and> (kind = Punct \<or> kind = Ws)")
  case True
  then obtain sps sp where o: "out = sps @ [sp]" by (metis rev_exhaust)
  then have "ts \<noteq> []" using assms(1) by auto
  then obtain us t where t: "ts = us @ [t]" by (metis rev_exhaust)
  have c: "covers sps us 0" "span_start sp = blen (concat us)" "t \<noteq> []" "span_end sp = blen (concat us) + blen t"
    using assms(1) by (simp_all add: o t covers_snoc)
  have "push_span out (blen pre) (blen pre + blen run) kind = sps @ [sp\<lparr>span_end := blen pre + blen run\<rparr>]"
    using True run by (simp add: push_span_def o)
  moreover have "covers (sps @ [sp\<lparr>span_end := blen pre + blen run\<rparr>]) (us @ [t @ run]) 0"
    using c assms(2) by (auto simp: covers_snoc t)
  ultimately show thesis using that [of "us @ [t @ run]"] assms(2) t by simp
next
  case False
  then have "push_span out (blen pre) (blen pre + blen run) kind = out @ [\<lparr>span_start = blen pre, span_end = blen pre + blen run, span_kind = kind\<rparr>]"
    using run by (auto simp: push_span_def)
  then show thesis using that [of "ts @ [run]"] assms run by (simp add: covers_snoc)
qed

lemma scan_covers:
  "covers out ts 0 \<Longrightarrow> concat ts = pre \<Longrightarrow>
   \<exists>ts'. covers (fst (scan_line alpha numeric lang b pre rest out)) ts' 0 \<and> concat ts' = pre @ rest"
proof (induction alpha numeric lang b pre rest out arbitrary: ts rule: scan_line.induct)
  case (1 alpha numeric lang b pre out)
  then show ?case by auto
next
  case (2 alpha numeric lang b pre c cs out)
  obtain run kind b' t where r: "next_run alpha numeric lang b pre (c # cs) = (run, kind, b')" "c # cs = run @ t" "run \<noteq> []"
    by (rule next_run_prefix [of "c # cs"]) auto
  obtain ts1 where p: "covers (push_span out (blen pre) (blen pre + blen run) kind) ts1 0" "concat ts1 = pre @ run"
    by (rule push_covers [OF 2(2,3) r(3)])
  have d: "drop (length run) (c # cs) = t" using r(2) by simp
  have "\<exists>ts2. covers (fst (scan_line alpha numeric lang b' (pre @ run) (drop (length run) (c # cs)) (push_span out (blen pre) (blen pre + blen run) kind))) ts2 0
    \<and> concat ts2 = (pre @ run) @ drop (length run) (c # cs)"
    by (rule 2(1) [OF r(1) [symmetric] refl refl p])
  then show ?case unfolding scan_line.simps r(1) Let_def prod.case using r(2) d by simp
qed

lemma tokenize_covers:
  obtains ts where "covers (fst (tokenize_spans alpha numeric line lang b)) ts 0" and "concat ts = line"
proof (cases "line = []")
  case True
  then show thesis using that [of "[]"] by (simp add: tokenize_spans_def)
next
  case ne: False
  show thesis
  proof (cases "lang = Markdown \<and> (case trim_start line of c # _ \<Rightarrow> c = 35 | [] \<Rightarrow> False)")
    case True
    have l: "line = takeWhile is_whitespace line @ trim_start line" by (simp add: trim_start_def)
    have ts: "trim_start line \<noteq> []" using True by (auto split: list.splits)
    define ws where "ws = takeWhile is_whitespace line"
    have line: "line = ws @ trim_start line" using l by (simp add: ws_def)
    have ind: "blen line - blen (trim_start line) = blen ws" by (subst line) simp
    have end': "blen line = blen ws + blen (trim_start line)" by (subst line) simp
    have eq: "fst (tokenize_spans alpha numeric line lang b) = push_span (push_span [] 0 (blen ws) Ws) (blen ws) (blen ws + blen (trim_start line)) Keyword"
      using ne True ind end' by (simp add: tokenize_spans_def Let_def)
    have "\<exists>us. covers (push_span [] 0 (blen ws) Ws) us 0 \<and> concat us = ws"
      by (cases "ws = []") (auto simp: push_span_def intro: exI [of _ "[]"] exI [of _ "[ws]"])
    then obtain us where us: "covers (push_span [] 0 (blen ws) Ws) us 0" "concat us = ws" by blast
    obtain ts' where "covers (push_span (push_span [] 0 (blen ws) Ws) (blen ws) (blen ws + blen (trim_start line)) Keyword) ts' 0"
      "concat ts' = ws @ trim_start line"
      by (rule push_covers [OF us ts])
    then show thesis using that eq line by metis
  next
    case False
    have "covers [] [] 0" "concat [] = ([] :: rstr)" by simp_all
    obtain ts where "covers (fst (scan_line alpha numeric lang b [] line [])) ts 0" "concat ts = [] @ line"
      using scan_covers [OF \<open>covers [] [] 0\<close> \<open>concat [] = ([] :: rstr)\<close>, of alpha numeric lang b line] by blast
    then show thesis using that ne False by (simp add: tokenize_spans_def Let_def)
  qed
qed

lemma covers_slices:
  "covers sps ts (blen pre) \<Longrightarrow>
   map (\<lambda>sp. slice (pre @ concat ts @ post) (span_start sp) (span_end sp)) sps = map Some ts"
proof (induction sps ts "blen pre" arbitrary: pre rule: covers.induct)
  case (2 sp sps t ts)
  have h: "slice (pre @ t @ (concat ts @ post)) (blen pre) (blen pre + blen t) = Some t" by (rule slice_append)
  have "map (\<lambda>sp. slice ((pre @ t) @ concat ts @ post) (span_start sp) (span_end sp)) sps = map Some ts"
    by (rule 2(1)) (use 2 in auto)
  then show ?case using 2 h by simp
qed auto

lemma covers_nonempty: "covers sps ts i \<Longrightarrow> \<forall>t \<in> set ts. t \<noteq> []"
  by (induction sps ts i rule: covers.induct) auto

lemma those_map_Some: "those (map (\<lambda>x. map_option (f x) (g x)) xs) = (if \<exists>x \<in> set xs. g x = None then None else Some (map (\<lambda>x. f x (the (g x))) xs))"
  by (induction xs) (auto split: option.split)

text \<open>C27: Scanning any line in any language returns, with character boundaries only (cutting the spans out does
  not panic), with tokens that are never empty, and the texts of the tokens in order are the line.\<close>

theorem tokens_spell_the_line:
  "\<exists>tokens. fst (tokenize alpha numeric line lang b) = Some tokens \<and> concat (map token_text tokens) = line \<and>
     [] \<notin> set (map token_text tokens)"
proof -
  obtain ts where ts: "covers (fst (tokenize_spans alpha numeric line lang b)) ts 0" "concat ts = line"
    by (rule tokenize_covers)
  let ?sps = "fst (tokenize_spans alpha numeric line lang b)"
  have sl: "map (\<lambda>sp. slice line (span_start sp) (span_end sp)) ?sps = map Some ts"
    using covers_slices [of ?sps ts "[]" "[]"] ts by simp
  have none: "\<not> (\<exists>sp \<in> set ?sps. slice line (span_start sp) (span_end sp) = None)"
    using arg_cong [OF sl, of set] by auto
  let ?toks = "map (\<lambda>sp. \<lparr>token_text = the (slice line (span_start sp) (span_end sp)), token_kind = span_kind sp\<rparr>) ?sps"
  have "fst (tokenize alpha numeric line lang b) = Some ?toks"
    using none by (simp add: tokenize_def those_map_Some case_prod_beta)
  moreover have tt: "map token_text ?toks = ts"
  proof -
    have "map token_text ?toks = map the (map (\<lambda>sp. slice line (span_start sp) (span_end sp)) ?sps)" by simp
    then show ?thesis unfolding sl by (simp add: comp_def)
  qed
  moreover have "\<forall>t \<in> set ts. t \<noteq> []" by (rule covers_nonempty [OF ts(1)])
  ultimately show ?thesis using ts(2) by metis
qed

section \<open>Merged runs\<close>

definition merged :: "span list \<Rightarrow> bool" where
  "merged sps \<longleftrightarrow> (\<forall>i. Suc i < length sps \<longrightarrow> \<not> (span_kind (sps ! i) = span_kind (sps ! Suc i) \<and> span_kind (sps ! i) \<in> {Punct, Ws}))"

lemma merged_snoc: "merged (sps @ [sp]) \<longleftrightarrow> merged sps \<and> (sps = [] \<or> \<not> (span_kind (last sps) = span_kind sp \<and> span_kind sp \<in> {Punct, Ws}))"
proof (cases "sps = []")
  case False
  have "merged (sps @ [sp]) \<longleftrightarrow> (\<forall>i < length sps. \<not> (span_kind (sps ! i) = span_kind ((sps @ [sp]) ! Suc i) \<and> span_kind (sps ! i) \<in> {Punct, Ws}))"
    by (auto simp: merged_def nth_append)
  also have "\<dots> \<longleftrightarrow> (\<forall>i < length sps - 1. \<not> (span_kind (sps ! i) = span_kind (sps ! Suc i) \<and> span_kind (sps ! i) \<in> {Punct, Ws})) \<and>
      \<not> (span_kind (sps ! (length sps - 1)) = span_kind sp \<and> span_kind (sps ! (length sps - 1)) \<in> {Punct, Ws})"
  proof -
    have "length sps = Suc (length sps - 1)" using False by (cases sps) auto
    then show ?thesis using All_less_Suc [of "length sps - 1" "\<lambda>i. \<not> (span_kind (sps ! i) = span_kind ((sps @ [sp]) ! Suc i) \<and> span_kind (sps ! i) \<in> {Punct, Ws})"]
      by (auto simp: nth_append)
  qed
  also have "\<dots> \<longleftrightarrow> merged sps \<and> \<not> (span_kind (last sps) = span_kind sp \<and> span_kind sp \<in> {Punct, Ws})"
    using False by (auto simp: merged_def last_conv_nth less_diff_conv)
  finally show ?thesis using False by blast
qed (simp add: merged_def)

lemma merged_update_last:
  assumes "sps \<noteq> []" and "span_kind sp = span_kind (last sps)" and "merged sps"
  shows "merged (butlast sps @ [sp])"
proof -
  have "merged (butlast sps @ [last sps])" using assms by simp
  then show ?thesis using assms(2) unfolding merged_snoc by simp
qed

text \<open>Adjacent spans of one kind cannot stay apart, because each span starts where the one before ends.\<close>

lemma push_merged:
  assumes "merged out" and "out = [] \<or> span_end (last out) = i"
  shows "merged (push_span out i j kind) \<and> (i < j \<longrightarrow> push_span out i j kind \<noteq> [] \<and> span_end (last (push_span out i j kind)) = j)"
proof (cases "out \<noteq> [] \<and> span_kind (last out) = kind \<and> (kind = Punct \<or> kind = Ws)")
  case True
  then show ?thesis using assms merged_update_last [of out "(last out)\<lparr>span_end := j\<rparr>"] by (auto simp: push_span_def)
next
  case False
  then show ?thesis using assms by (auto simp: push_span_def merged_snoc)
qed

lemma scan_merged:
  "merged out \<Longrightarrow> out = [] \<or> span_end (last out) = blen pre \<Longrightarrow> merged (fst (scan_line alpha numeric lang b pre rest out))"
proof (induction alpha numeric lang b pre rest out rule: scan_line.induct)
  case (2 alpha numeric lang b pre c cs out)
  obtain run kind b' t where r: "next_run alpha numeric lang b pre (c # cs) = (run, kind, b')" "c # cs = run @ t" "run \<noteq> []"
    by (rule next_run_prefix [of "c # cs"]) auto
  have "blen pre < blen pre + blen run" using r(3) by (cases run) auto
  then have "merged (push_span out (blen pre) (blen pre + blen run) kind)"
    "push_span out (blen pre) (blen pre + blen run) kind = [] \<or> span_end (last (push_span out (blen pre) (blen pre + blen run) kind)) = blen (pre @ run)"
    using push_merged [OF 2(2,3), of "blen pre + blen run" kind] by simp_all
  from 2(1) [OF r(1) [symmetric] refl refl this] show ?case unfolding scan_line.simps r(1) Let_def prod.case .
qed simp

text \<open>No two neighbouring spans of a line are both punctuation or both space: such runs are one span.\<close>

theorem neighbouring_spans_are_merged:
  "merged (fst (tokenize_spans alpha numeric line lang b))"
proof -
  have "merged (fst (scan_line alpha numeric lang b [] line []))" by (rule scan_merged) (simp_all add: merged_def)
  moreover have "merged (push_span (push_span [] 0 i Ws) i j Keyword)" for i j
    by (simp add: push_span_def merged_def)
  ultimately show ?thesis by (simp add: tokenize_spans_def Let_def merged_def)
qed

section \<open>Comments\<close>

lemma not_block_run:
  assumes "\<forall>opener close. block_comment lang = Some (opener, close) \<longrightarrow> \<not> starts_with opener rest"
  shows "next_run alpha numeric lang False pre rest =
    (if starts_line_comment lang pre rest then (rest, Comment, False)
     else let (run, kind) = code_run alpha numeric lang rest in (run, kind, False))"
  using assms by (auto simp: next_run_def strip_prefix_eq_Some starts_with_iff split: option.split)

lemma scan_comment:
  assumes "rest \<noteq> []" and "starts_line_comment lang pre rest"
    and "\<forall>opener close. block_comment lang = Some (opener, close) \<longrightarrow> \<not> starts_with opener rest"
  shows "scan_line alpha numeric lang False pre rest out = (push_span out (blen pre) (blen pre + blen rest) Comment, False)"
proof -
  obtain c cs where r: "rest = c # cs" using assms(1) by (cases rest) auto
  have "next_run alpha numeric lang False pre rest = (rest, Comment, False)" using not_block_run [OF assms(3)] assms(2) by simp
  then show ?thesis unfolding r by (simp add: Let_def)
qed

text \<open>A line that carries the line-comment prefix of its language after its indentation, as the
  toggle-comment command writes it, is painted as indentation and one comment to its end, and no block
  comment is open after it.\<close>

theorem toggled_line_is_a_comment:
  assumes p: "line_comment_prefix lang = Some mark" and line: "line = indent @ mark @ text'"
    and ind: "\<forall>c \<in> set indent. is_ascii_whitespace c"
    and opener: "\<forall>opener close. block_comment lang = Some (opener, close) \<longrightarrow> \<not> starts_with opener (mark @ text')"
    and plain: "\<forall>c. is_ascii_whitespace c \<longrightarrow> \<not> alpha c"
  shows "tokenize_spans alpha numeric line lang False =
    ((if indent = [] then [] else [\<lparr>span_start = 0, span_end = blen indent, span_kind = Ws\<rparr>]) @
     [\<lparr>span_start = blen indent, span_end = blen line, span_kind = Comment\<rparr>], False)"
proof -
  have mark: "mark \<noteq> []" "lang \<noteq> Markdown" "\<not> is_whitespace (hd mark)"
    using p by (cases lang; auto simp: str_lit_def is_whitespace_def)+
  have wsp: "is_whitespace c" if "c \<in> set indent" for c using ind that by (auto simp: is_ascii_whitespace_def is_whitespace_def)
  have sc: "starts_line_comment lang indent (mark @ text')"
    using ind p last_in_set [of indent] by (cases "indent = []") (auto simp: starts_line_comment_def starts_with_iff)
  show ?thesis
  proof (cases "indent = []")
    case True
    have "starts_line_comment lang [] (mark @ text')" using sc True by simp
    then show ?thesis using scan_comment [OF _ _ opener, of "[]" alpha numeric "[]"] mark True line
      by (simp add: tokenize_spans_def push_span_def Let_def)
  next
    case False
    obtain c cs where ic: "indent = c # cs" using False by (cases indent) auto
    have cw: "is_ascii_whitespace c" using ind ic by simp
    have nblock: "\<forall>opener close. block_comment lang = Some (opener, close) \<longrightarrow> \<not> starts_with opener line"
    proof (intro allI impI)
      fix a b assume ab: "block_comment lang = Some (a, b)"
      then have "a \<noteq> [] \<and> \<not> is_ascii_whitespace (hd a)"
        by (cases lang) (auto simp: block_comment_def str_lit_def is_ascii_whitespace_def)
      then show "\<not> starts_with a line" using cw by (cases a) (auto simp: starts_with_iff line ic)
    qed
    have nline: "\<not> starts_line_comment lang [] line"
    proof -
      have "mark \<noteq> []" "\<not> is_ascii_whitespace (hd mark)" using p by (cases lang; auto simp: str_lit_def is_ascii_whitespace_def)+
      then show ?thesis using cw p by (cases mark) (auto simp: starts_line_comment_def starts_with_iff line ic)
    qed
    have run: "code_run alpha numeric lang line = (indent, Ws)"
    proof -
      have q: "c \<notin> set (string_quotes lang)" using cw by (cases lang) (auto simp: string_quotes_def is_ascii_whitespace_def)
      have na: "\<not> alpha c" using cw plain by blast
      have d: "\<not> is_ascii_digit c" "\<not> is_word_start alpha c" using cw na
        by (auto simp: is_ascii_digit_def is_ascii_whitespace_def is_word_start_def)
      have "takeWhile is_whitespace line = indent"
        using wsp mark by (simp add: line takeWhile_append2) (cases mark; simp)
      moreover have "hd line = c" by (simp add: line ic)
      moreover have "is_whitespace c" using wsp ic by simp
      ultimately show ?thesis using q d by (simp add: code_run_def Let_def)
    qed
    have nr: "next_run alpha numeric lang False [] line = (indent, Ws, False)"
      using not_block_run [OF nblock] nline run by simp
    have lc: "line = c # (cs @ mark @ text')" by (simp add: line ic)
    have "scan_line alpha numeric lang False [] line [] =
      scan_line alpha numeric lang False indent (mark @ text') (push_span [] 0 (blen indent) Ws)"
      using nr unfolding lc by (simp add: Let_def) (simp add: ic)
    also have "\<dots> = (push_span (push_span [] 0 (blen indent) Ws) (blen indent) (blen indent + blen (mark @ text')) Comment, False)"
      by (rule scan_comment [OF _ sc opener]) (simp add: mark)
    finally show ?thesis using mark False by (simp add: tokenize_spans_def push_span_def Let_def line)
  qed
qed

theorem toggled_line_is_a_comment_witness:
  "tokenize_spans (\<lambda>c. 65 \<le> c) (\<lambda>c. False) (str_lit ''  -- x'') Lua False =
    ((if str_lit ''  '' = [] then [] else [\<lparr>span_start = 0, span_end = blen (str_lit ''  ''), span_kind = Ws\<rparr>]) @
     [\<lparr>span_start = blen (str_lit ''  ''), span_end = blen (str_lit ''  -- x''), span_kind = Comment\<rparr>], False)"
  by (rule toggled_line_is_a_comment [where mark = "str_lit ''--''" and text' = "str_lit '' x''"])
    (auto simp: str_lit_def is_ascii_whitespace_def block_comment_def starts_with_def)

end
