(* ===== verification/Damage.thy ===== *)
theory Damage
  imports Prelude "HOL-Library.Product_Lexorder"
begin

unbundle bit_operations_syntax

text \<open>
  Damage tracking of the renderer (crates/unshit-framework/crates/unshit-core/src/damage.rs): the
  rows of an element that changed, as a bit set in 64-bit words, and the regions of cells to
  redraw. Row and column numbers are \<open>u32\<close> values as natural numbers; none of the operations
  computes past them except the cell count, which wraps. An access outside the words is a panic
  (\<open>None\<close>).
\<close>

section \<open>Regions\<close>

record region =
  row_start :: nat
  row_end :: nat
  col_start :: nat
  col_end :: nat

definition region_new :: "nat \<Rightarrow> nat \<Rightarrow> nat \<Rightarrow> nat \<Rightarrow> region" where
  "region_new rs re cs ce = \<lparr>row_start = rs, row_end = re, col_start = cs, col_end = ce\<rparr>"

definition region_row_count :: "region \<Rightarrow> nat" where
  "region_row_count d = row_end d - row_start d"

definition region_col_count :: "region \<Rightarrow> nat" where
  "region_col_count d = col_end d - col_start d"

definition region_cell_count :: "region \<Rightarrow> nat" where
  "region_cell_count d = (region_row_count d * region_col_count d) mod 2 ^ 32"

definition region_overlaps :: "region \<Rightarrow> region \<Rightarrow> bool" where
  "region_overlaps a b \<longleftrightarrow> row_start a < row_end b \<and> row_start b < row_end a \<and>
     col_start a < col_end b \<and> col_start b < col_end a"

definition region_merge :: "region \<Rightarrow> region \<Rightarrow> region" where
  "region_merge a b = \<lparr>row_start = min (row_start a) (row_start b), row_end = max (row_end a) (row_end b),
     col_start = min (col_start a) (col_start b), col_end = max (col_end a) (col_end b)\<rparr>"

definition region_full :: "nat \<Rightarrow> nat \<Rightarrow> region" where
  "region_full rows cols = \<lparr>row_start = 0, row_end = rows, col_start = 0, col_end = cols\<rparr>"

section \<open>Dirty rows\<close>

record dirty_rows =
  dr_bits :: "64 word list"
  dr_row_count :: nat

definition words_for :: "nat \<Rightarrow> nat" where
  "words_for rows = (rows + 63) div 64"

definition dirty_new :: "nat \<Rightarrow> dirty_rows" where
  "dirty_new rows = \<lparr>dr_bits = replicate (words_for rows) 0, dr_row_count = rows\<rparr>"

definition mark_row :: "nat \<Rightarrow> dirty_rows \<Rightarrow> dirty_rows option" where
  "mark_row row d = (if row < dr_row_count d
     then do { w \<leftarrow> nth_opt (dr_bits d) (row div 64);
               Some (d\<lparr>dr_bits := (dr_bits d)[row div 64 := w OR push_bit (row mod 64) 1]\<rparr>) }
     else Some d)"

fun mark_rows :: "nat list \<Rightarrow> dirty_rows \<Rightarrow> dirty_rows option" where
  "mark_rows [] d = Some d"
| "mark_rows (row # rows) d = do { d' \<leftarrow> mark_row row d; mark_rows rows d' }"

definition mark_range :: "nat \<Rightarrow> nat \<Rightarrow> dirty_rows \<Rightarrow> dirty_rows option" where
  "mark_range start stop d = mark_rows [start..<min stop (dr_row_count d)] d"

definition mark_all :: "dirty_rows \<Rightarrow> dirty_rows" where
  "mark_all d = d\<lparr>dr_bits := map (\<lambda>_. - 1) (dr_bits d)\<rparr>"

definition dirty_clear :: "dirty_rows \<Rightarrow> dirty_rows" where
  "dirty_clear d = d\<lparr>dr_bits := map (\<lambda>_. 0) (dr_bits d)\<rparr>"

definition any_dirty :: "dirty_rows \<Rightarrow> bool" where
  "any_dirty d \<longleftrightarrow> (\<exists>w \<in> set (dr_bits d). w \<noteq> 0)"

definition is_row_dirty :: "nat \<Rightarrow> dirty_rows \<Rightarrow> bool option" where
  "is_row_dirty row d = (if dr_row_count d \<le> row then Some False
     else do { w \<leftarrow> nth_opt (dr_bits d) (row div 64);
               Some ((drop_bit (row mod 64) w) AND 1 \<noteq> 0) })"

definition dirty_resize :: "nat \<Rightarrow> dirty_rows \<Rightarrow> dirty_rows" where
  "dirty_resize rows d = d\<lparr>dr_bits := take (words_for rows) (dr_bits d) @ replicate (words_for rows - length (dr_bits d)) 0,
     dr_row_count := rows\<rparr>"

text \<open>The loop of \<open>dirty_ranges\<close> over the rows, with the start of the range it is in, if any.\<close>

fun ranges_loop :: "dirty_rows \<Rightarrow> nat list \<Rightarrow> nat option \<Rightarrow> (nat \<times> nat) list option" where
  "ranges_loop d [] None = Some []"
| "ranges_loop d [] (Some start) = Some [(start, dr_row_count d)]"
| "ranges_loop d (row # rows) open' = do {
     dirty \<leftarrow> is_row_dirty row d;
     if dirty then ranges_loop d rows (Some (case open' of None \<Rightarrow> row | Some start \<Rightarrow> start))
     else case open' of None \<Rightarrow> ranges_loop d rows None
       | Some start \<Rightarrow> do { rs \<leftarrow> ranges_loop d rows None; Some ((start, row) # rs) } }"

definition dirty_ranges :: "dirty_rows \<Rightarrow> (nat \<times> nat) list option" where
  "dirty_ranges d = ranges_loop d [0..<dr_row_count d] None"

definition to_damage_regions :: "nat \<Rightarrow> dirty_rows \<Rightarrow> region list option" where
  "to_damage_regions cols d = map_option (map (\<lambda>(start, stop). region_new start stop 0 cols)) (dirty_ranges d)"

section \<open>The damage of an element\<close>

record element_damage =
  ed_dirty_rows :: dirty_rows
  ed_pending :: "region list"
  ed_rows :: nat
  ed_cols :: nat
  ed_structural_change :: bool

definition damage_new :: "nat \<Rightarrow> nat \<Rightarrow> element_damage" where
  "damage_new rows cols = \<lparr>ed_dirty_rows = dirty_new rows, ed_pending = [], ed_rows = rows, ed_cols = cols,
     ed_structural_change = False\<rparr>"

definition record_damage :: "region \<Rightarrow> element_damage \<Rightarrow> element_damage option" where
  "record_damage reg e = do {
     d \<leftarrow> mark_range (row_start reg) (row_end reg) (ed_dirty_rows e);
     Some (e\<lparr>ed_dirty_rows := d, ed_pending := ed_pending e @ [reg]\<rparr>) }"

definition mark_full_damage :: "element_damage \<Rightarrow> element_damage" where
  "mark_full_damage e = e\<lparr>ed_dirty_rows := mark_all (ed_dirty_rows e), ed_pending := [region_full (ed_rows e) (ed_cols e)]\<rparr>"

definition joins :: "region \<Rightarrow> region \<Rightarrow> bool" where
  "joins l d \<longleftrightarrow> region_overlaps l d \<or>
     (row_start d \<le> row_end l \<and> col_start l = col_start d \<and> col_end l = col_end d)"

text \<open>The loop over the sorted regions; \<open>acc\<close> is the coalesced list, its last element first.\<close>

fun coalesce :: "region list \<Rightarrow> region list \<Rightarrow> region list" where
  "coalesce acc [] = rev acc"
| "coalesce [] (d # ds) = coalesce [d] ds"
| "coalesce (l # acc) (d # ds) = (if joins l d then coalesce (region_merge l d # acc) ds else coalesce (d # l # acc) ds)"

text \<open>\<open>sort_by\<close> is stable; the order is by the first row, then by the first column.\<close>

definition take_coalesced_damage :: "element_damage \<Rightarrow> region list \<times> element_damage" where
  "take_coalesced_damage e = (if ed_pending e = [] then ([], e)
     else (coalesce [] (sort_key (\<lambda>d. (row_start d, col_start d)) (ed_pending e)),
           e\<lparr>ed_pending := [], ed_dirty_rows := dirty_clear (ed_dirty_rows e)\<rparr>))"

definition damage_resize :: "nat \<Rightarrow> nat \<Rightarrow> element_damage \<Rightarrow> element_damage" where
  "damage_resize rows cols e = (if rows \<noteq> ed_rows e \<or> cols \<noteq> ed_cols e
     then mark_full_damage (e\<lparr>ed_rows := rows, ed_cols := cols, ed_dirty_rows := dirty_resize rows (ed_dirty_rows e),
            ed_structural_change := True\<rparr>)
     else e)"

definition clear_structural_change :: "element_damage \<Rightarrow> element_damage" where
  "clear_structural_change e = e\<lparr>ed_structural_change := False\<rparr>"

section \<open>The tracker\<close>

text \<open>Nodes are looked up by id; \<open>'n\<close> is the type of node ids.\<close>

type_synonym 'n tracker = "'n \<rightharpoonup> element_damage"

definition tracker_new :: "'n tracker" where
  "tracker_new = Map.empty"

definition tracker_register :: "'n \<Rightarrow> nat \<Rightarrow> nat \<Rightarrow> 'n tracker \<Rightarrow> 'n tracker" where
  "tracker_register n rows cols t = t(n \<mapsto> damage_new rows cols)"

definition tracker_unregister :: "'n \<Rightarrow> 'n tracker \<Rightarrow> 'n tracker" where
  "tracker_unregister n t = t(n := None)"

definition is_tracked :: "'n \<Rightarrow> 'n tracker \<Rightarrow> bool" where
  "is_tracked n t \<longleftrightarrow> t n \<noteq> None"

definition tracker_record_damage :: "'n \<Rightarrow> region \<Rightarrow> 'n tracker \<Rightarrow> 'n tracker option" where
  "tracker_record_damage n d t = (case t n of None \<Rightarrow> Some t
   | Some e \<Rightarrow> do { e' \<leftarrow> record_damage d e; Some (t(n \<mapsto> e')) })"

definition tracker_take :: "'n \<Rightarrow> 'n tracker \<Rightarrow> region list \<times> 'n tracker" where
  "tracker_take n t = (case t n of None \<Rightarrow> ([], t)
   | Some e \<Rightarrow> let (ds, e') = take_coalesced_damage e in (ds, t(n \<mapsto> e')))"

unbundle bit_operations_syntax

text \<open>
  The bit set against plain sets of rows: which rows are dirty (\<open>dirty_set\<close>), what every operation
  does to them, the ranges as the maximal runs of the set, and the coalesced regions, which cover
  everything recorded. Growing a tracker after \<open>mark_all\<close> is the one case where the code misses its
  own description.
\<close>

section \<open>The set of dirty rows\<close>

definition dirty_wf :: "dirty_rows \<Rightarrow> bool" where
  "dirty_wf d \<longleftrightarrow> length (dr_bits d) = words_for (dr_row_count d)"

definition dirty_set :: "dirty_rows \<Rightarrow> nat set" where
  "dirty_set d = {row. row < dr_row_count d \<and> bit (dr_bits d ! (row div 64)) (row mod 64)}"

lemma word_index: "row < n \<Longrightarrow> row div 64 < words_for n"
  by (simp add: words_for_def)

lemma drop_bit_and_1: "(drop_bit n w AND 1 \<noteq> 0) = bit w n" for w :: "64 word"
  by (simp add: bit_iff_odd_drop_bit and_one_eq odd_iff_mod_2_eq_one)

lemma is_row_dirty_ok: "dirty_wf d \<Longrightarrow> is_row_dirty row d = Some (row \<in> dirty_set d)"
  using word_index [of row "dr_row_count d"]
  by (auto simp: is_row_dirty_def dirty_set_def dirty_wf_def drop_bit_and_1)

lemma mark_row_ok:
  assumes "dirty_wf d"
  shows "\<exists>d'. mark_row row d = Some d' \<and> dirty_wf d' \<and> dr_row_count d' = dr_row_count d \<and>
    dirty_set d' = dirty_set d \<union> ({row} \<inter> {..<dr_row_count d})"
proof (cases "row < dr_row_count d")
  case False
  then show ?thesis using assms by (simp add: mark_row_def)
next
  case True
  let ?i = "row div 64"
  have i: "?i < length (dr_bits d)" using word_index [OF True] assms by (simp add: dirty_wf_def)
  let ?d = "d\<lparr>dr_bits := (dr_bits d)[?i := dr_bits d ! ?i OR push_bit (row mod 64) 1]\<rparr>"
  have "mark_row row d = Some ?d" using True i by (simp add: mark_row_def)
  moreover have "dirty_set ?d = dirty_set d \<union> {row}"
  proof (rule set_eqI)
    fix x
    have b: "bit (dr_bits d ! ?i OR push_bit (row mod 64) 1) k \<longleftrightarrow> bit (dr_bits d ! ?i) k \<or> (k = row mod 64)" if "k < 64" for k
      using that by (auto simp: bit_simps)
    have "x = row \<longleftrightarrow> x div 64 = ?i \<and> x mod 64 = row mod 64" by (metis div_mod_decomp)
    then show "x \<in> dirty_set ?d \<longleftrightarrow> x \<in> dirty_set d \<union> {row}"
      using i True b [of "x mod 64"] by (cases "x div 64 = ?i") (auto simp: dirty_set_def)
  qed
  ultimately show ?thesis using True assms by (auto simp: dirty_wf_def)
qed

lemma mark_rows_ok:
  "dirty_wf d \<Longrightarrow> \<exists>d'. mark_rows rows d = Some d' \<and> dirty_wf d' \<and> dr_row_count d' = dr_row_count d \<and>
    dirty_set d' = dirty_set d \<union> (set rows \<inter> {..<dr_row_count d})"
proof (induction rows arbitrary: d)
  case (Cons row rows)
  obtain d1 where "mark_row row d = Some d1" "dirty_wf d1" "dr_row_count d1 = dr_row_count d"
    "dirty_set d1 = dirty_set d \<union> ({row} \<inter> {..<dr_row_count d})"
    using mark_row_ok [OF Cons.prems] by blast
  then show ?case using Cons.IH [of d1] by auto
qed simp

lemma mark_range_ok:
  assumes "dirty_wf d"
  shows "\<exists>d'. mark_range a b d = Some d' \<and> dirty_wf d' \<and> dr_row_count d' = dr_row_count d \<and>
    dirty_set d' = dirty_set d \<union> ({a..<b} \<inter> {..<dr_row_count d})"
proof -
  have "set [a..<min b (dr_row_count d)] \<inter> {..<dr_row_count d} = {a..<b} \<inter> {..<dr_row_count d}" by auto
  then show ?thesis using mark_rows_ok [OF assms, of "[a..<min b (dr_row_count d)]"] by (simp add: mark_range_def)
qed

lemma mark_all_ok: "dirty_wf d \<Longrightarrow> dirty_wf (mark_all d) \<and> dirty_set (mark_all d) = {..<dr_row_count d}"
  using word_index by (auto simp: dirty_wf_def mark_all_def dirty_set_def)

lemma clear_ok: "dirty_wf d \<Longrightarrow> dirty_wf (dirty_clear d) \<and> dirty_set (dirty_clear d) = {}"
  using word_index by (auto simp: dirty_wf_def dirty_clear_def dirty_set_def)

lemma new_ok: "dirty_wf (dirty_new n) \<and> dirty_set (dirty_new n) = {}"
  using word_index by (auto simp: dirty_wf_def dirty_new_def dirty_set_def)

section \<open>Programs of marks\<close>

datatype mark_op = MarkRow nat | MarkRange nat nat | MarkAll | ClearAll

fun mark_step :: "mark_op \<Rightarrow> dirty_rows \<Rightarrow> dirty_rows option" where
  "mark_step (MarkRow row) d = mark_row row d"
| "mark_step (MarkRange a b) d = mark_range a b d"
| "mark_step MarkAll d = Some (mark_all d)"
| "mark_step ClearAll d = Some (dirty_clear d)"

text \<open>The same on a plain set of rows below \<open>n\<close>.\<close>

fun mark_set :: "nat \<Rightarrow> mark_op \<Rightarrow> nat set \<Rightarrow> nat set" where
  "mark_set n (MarkRow row) S = S \<union> ({row} \<inter> {..<n})"
| "mark_set n (MarkRange a b) S = S \<union> ({a..<b} \<inter> {..<n})"
| "mark_set n MarkAll S = {..<n}"
| "mark_set n ClearAll S = {}"

lemma mark_step_ok:
  assumes "dirty_wf d"
  shows "\<exists>d'. mark_step a d = Some d' \<and> dirty_wf d' \<and> dr_row_count d' = dr_row_count d \<and>
    dirty_set d' = mark_set (dr_row_count d) a (dirty_set d)"
  using assms mark_row_ok [OF assms] mark_range_ok [OF assms] mark_all_ok [OF assms] clear_ok [OF assms]
  by (cases a) (auto simp: mark_all_def dirty_clear_def)

interpretation marks: panic_free_system mark_step dirty_wf "\<lambda>_. True"
  by unfold_locales (use mark_step_ok in blast)

text \<open>C28: The bit set implements a set of rows: any program of marks on a fresh tracker returns, and a row
  then reads dirty exactly when it is in the set the program builds.\<close>

theorem bit_set_refines_row_set:
  "\<exists>d. run_opt mark_step ops (dirty_new n) = Some d \<and>
     (\<forall>row. is_row_dirty row d = Some (row \<in> fold (mark_set n) ops {}))"
proof -
  have "dirty_wf d \<Longrightarrow> dr_row_count d = n \<Longrightarrow> \<exists>d'. run_opt mark_step ops d = Some d' \<and> dirty_wf d' \<and>
    dirty_set d' = fold (mark_set n) ops (dirty_set d)" for d
  proof (induction ops arbitrary: d)
    case (Cons a ops)
    obtain d1 where "mark_step a d = Some d1" "dirty_wf d1" "dr_row_count d1 = n" "dirty_set d1 = mark_set n a (dirty_set d)"
      using mark_step_ok [OF Cons.prems(1)] Cons.prems(2) by auto
    then show ?case using Cons.IH [of d1] by simp
  qed simp
  from this [of "dirty_new n"] show ?thesis using new_ok is_row_dirty_ok by (auto simp: dirty_new_def)
qed

section \<open>Ranges\<close>

definition range_rows :: "(nat \<times> nat) list \<Rightarrow> nat set" where
  "range_rows rs = (\<Union>(a, b) \<in> set rs. {a..<b})"

text \<open>Non-empty ranges in order, with at least one clean row between two of them.\<close>

fun separated :: "nat \<Rightarrow> (nat \<times> nat) list \<Rightarrow> bool" where
  "separated k [] = True"
| "separated k ((a, b) # rs) = (k \<le> a \<and> a < b \<and> separated (b + 1) rs)"

lemma separated_mono: "separated k rs \<Longrightarrow> j \<le> k \<Longrightarrow> separated j rs"
  by (cases rs) auto

lemma range_rows_simps [simp]: "range_rows [] = {}" "range_rows ((a, b) # rs) = {a..<b} \<union> range_rows rs"
  by (simp_all add: range_rows_def)

lemma from_Suc: "S \<inter> {k..} = (if k \<in> S then insert k (S \<inter> {Suc k..}) else S \<inter> {Suc k..})" for S :: "nat set"
  by (auto simp: Suc_le_eq le_less)

lemma dirty_set_bound: "S = dirty_set d \<Longrightarrow> S \<inter> {dr_row_count d..} = {}"
  by (auto simp: dirty_set_def)

lemma ranges_loop_ok:
  assumes wf: "dirty_wf d"
  shows "k \<le> dr_row_count d \<Longrightarrow>
    (\<exists>rs. ranges_loop d [k..<dr_row_count d] None = Some rs \<and> separated k rs \<and> range_rows rs = dirty_set d \<inter> {k..}) \<and>
    (\<forall>start < k. \<exists>b rs. ranges_loop d [k..<dr_row_count d] (Some start) = Some ((start, b) # rs) \<and> k \<le> b \<and>
      separated (b + 1) rs \<and> {k..<b} \<union> range_rows rs = dirty_set d \<inter> {k..})"
proof (induction "dr_row_count d - k" arbitrary: k)
  case 0
  then have k: "k = dr_row_count d" by simp
  show ?case using dirty_set_bound [OF refl, of d] unfolding k by simp
next
  case (Suc n)
  then have k: "k < dr_row_count d" "[k..<dr_row_count d] = k # [Suc k..<dr_row_count d]" by (simp_all add: upt_conv_Cons)
  have IH: "(\<exists>rs. ranges_loop d [Suc k..<dr_row_count d] None = Some rs \<and> separated (Suc k) rs \<and> range_rows rs = dirty_set d \<inter> {Suc k..}) \<and>
    (\<forall>start < Suc k. \<exists>b rs. ranges_loop d [Suc k..<dr_row_count d] (Some start) = Some ((start, b) # rs) \<and> Suc k \<le> b \<and>
      separated (b + 1) rs \<and> {Suc k..<b} \<union> range_rows rs = dirty_set d \<inter> {Suc k..})"
    using Suc.hyps(1) [of "Suc k"] Suc.hyps(2) k(1) by auto
  obtain rs where rs: "ranges_loop d [Suc k..<dr_row_count d] None = Some rs" "separated (Suc k) rs" "range_rows rs = dirty_set d \<inter> {Suc k..}"
    using IH by blast
  have some: "\<exists>b rs. ranges_loop d [Suc k..<dr_row_count d] (Some start) = Some ((start, b) # rs) \<and> Suc k \<le> b \<and>
      separated (b + 1) rs \<and> {Suc k..<b} \<union> range_rows rs = dirty_set d \<inter> {Suc k..}" if "start < Suc k" for start
    using IH that by blast
  have ins: "{k..<b} \<union> R = insert k (dirty_set d \<inter> {Suc k..})" if "Suc k \<le> b" "{Suc k..<b} \<union> R = dirty_set d \<inter> {Suc k..}" for b R
  proof -
    have "{k..<b} = insert k {Suc k..<b}" using that(1) by auto
    then show ?thesis using that(2) by simp
  qed
  show ?case
  proof (cases "k \<in> dirty_set d")
    case True
    then have D: "is_row_dirty k d = Some True" using is_row_dirty_ok [OF wf] by simp
    have l: "ranges_loop d (k # [Suc k..<dr_row_count d]) p =
        ranges_loop d [Suc k..<dr_row_count d] (Some (case p of None \<Rightarrow> k | Some start \<Rightarrow> start))" for p
      using D by (cases p) (simp_all del: upt_Suc)
    have S: "dirty_set d \<inter> {k..} = insert k (dirty_set d \<inter> {Suc k..})"
      using True from_Suc [of "dirty_set d" k] by simp
    obtain b rs where b: "ranges_loop d [Suc k..<dr_row_count d] (Some k) = Some ((k, b) # rs)" "Suc k \<le> b"
      "separated (b + 1) rs" "{Suc k..<b} \<union> range_rows rs = dirty_set d \<inter> {Suc k..}"
      using some [of k] by blast
    have "\<exists>b rs. ranges_loop d [Suc k..<dr_row_count d] (Some start) = Some ((start, b) # rs) \<and> k \<le> b \<and>
      separated (b + 1) rs \<and> {k..<b} \<union> range_rows rs = insert k (dirty_set d \<inter> {Suc k..})" if st: "start < k" for start
    proof -
      obtain b rs where "ranges_loop d [Suc k..<dr_row_count d] (Some start) = Some ((start, b) # rs)" "Suc k \<le> b"
        "separated (b + 1) rs" "{Suc k..<b} \<union> range_rows rs = dirty_set d \<inter> {Suc k..}"
        using some [of start] less_SucI [OF st] by blast
      then show ?thesis using ins [of b "range_rows rs"] by (intro exI [of _ b] exI [of _ rs]) simp
    qed
    moreover have "separated k ((k, b) # rs)" "range_rows ((k, b) # rs) = insert k (dirty_set d \<inter> {Suc k..})"
      using b ins [OF b(2,4)] by simp_all
    ultimately show ?thesis using b(1) unfolding k(2) l S by auto
  next
    case False
    then have D: "is_row_dirty k d = Some False" using is_row_dirty_ok [OF wf] by simp
    show ?thesis
      using rs separated_mono [OF rs(2), of k] D False unfolding k(2) from_Suc [of "dirty_set d" k] by (auto simp del: upt_Suc)
  qed
qed

text \<open>The ranges of dirty rows are non-empty, in order, apart from each other by a clean row, and hold exactly the dirty rows.\<close>

theorem ranges_are_the_dirty_runs:
  assumes "dirty_wf d"
  shows "\<exists>rs. dirty_ranges d = Some rs \<and> separated 0 rs \<and> (\<forall>row. (\<exists>(a, b) \<in> set rs. a \<le> row \<and> row < b) \<longleftrightarrow> is_row_dirty row d = Some True)"
proof -
  obtain rs where "ranges_loop d [0..<dr_row_count d] None = Some rs" "separated 0 rs" "range_rows rs = dirty_set d \<inter> {0..}"
    using ranges_loop_ok [OF assms, of 0] by blast
  moreover have "(\<exists>(a, b) \<in> set rs. a \<le> row \<and> row < b) \<longleftrightarrow> row \<in> range_rows rs" for rs row
    unfolding range_rows_def UN_iff by (intro bex_cong refl) (simp add: case_prod_beta)
  ultimately show ?thesis using is_row_dirty_ok [OF assms] by (simp add: dirty_ranges_def)
qed

theorem ranges_are_the_dirty_runs_witness:
  "\<exists>rs. dirty_ranges (mark_all (dirty_new 70)) = Some rs \<and> separated 0 rs"
  using ranges_are_the_dirty_runs [of "mark_all (dirty_new 70)"] mark_all_ok new_ok by blast

section \<open>Coalescing\<close>

definition cells :: "region \<Rightarrow> (nat \<times> nat) set" where
  "cells d = {row_start d..<row_end d} \<times> {col_start d..<col_end d}"

definition all_cells :: "region list \<Rightarrow> (nat \<times> nat) set" where
  "all_cells ds = (\<Union>d \<in> set ds. cells d)"

lemma merge_cells: "cells a \<union> cells b \<subseteq> cells (region_merge a b)"
  by (auto simp: cells_def region_merge_def)

lemma all_cells_simps: "all_cells [] = {}" "all_cells (d # ds) = cells d \<union> all_cells ds" "all_cells (rev ds) = all_cells ds"
  by (simp_all add: all_cells_def)

lemma coalesce_cells: "all_cells acc \<union> all_cells ds \<subseteq> all_cells (coalesce acc ds)"
proof (induction acc ds rule: coalesce.induct)
  case (3 l acc d ds)
  show ?case
  proof (cases "joins l d")
    case True
    then show ?thesis using 3(1) merge_cells [of l d] unfolding all_cells_simps coalesce.simps by auto
  next
    case False
    then show ?thesis using 3(2) unfolding all_cells_simps coalesce.simps by auto
  qed
qed (simp_all add: all_cells_simps)

lemma coalesce_length: "length (coalesce acc ds) \<le> length acc + length ds"
  by (induction acc ds rule: coalesce.induct) auto

definition inside :: "nat \<Rightarrow> nat \<Rightarrow> region \<Rightarrow> bool" where
  "inside rows cols d \<longleftrightarrow> row_end d \<le> rows \<and> col_end d \<le> cols"

lemma coalesce_inside: "\<forall>d \<in> set acc \<union> set ds. inside rows cols d \<Longrightarrow> \<forall>d \<in> set (coalesce acc ds). inside rows cols d"
proof (induction acc ds rule: coalesce.induct)
  case (3 l acc d ds)
  have "inside rows cols (region_merge l d)" using 3(3) by (simp add: inside_def region_merge_def)
  then have m: "\<forall>e \<in> set (region_merge l d # acc) \<union> set ds. inside rows cols e" using 3(3) by simp
  have n: "\<forall>e \<in> set (d # l # acc) \<union> set ds. inside rows cols e" using 3(3) by simp
  show ?case
  proof (cases "joins l d")
    case True
    show ?thesis using 3(1) [OF True m] True by (simp only: coalesce.simps if_True)
  next
    case False
    show ?thesis using 3(2) [OF False n] False by (simp only: coalesce.simps if_False)
  qed
qed simp_all

text \<open>Taking the damage of an element loses nothing: the regions cover every cell of every recorded region,
  are at most as many, stay inside the element when those do, and the next taking gives none.\<close>

theorem taken_damage_covers:
  "let (ds, e') = take_coalesced_damage e in
     all_cells (ed_pending e) \<subseteq> all_cells ds \<and> length ds \<le> length (ed_pending e) \<and>
     ((\<forall>d \<in> set (ed_pending e). inside rows cols d) \<longrightarrow> (\<forall>d \<in> set ds. inside rows cols d)) \<and>
     fst (take_coalesced_damage e') = []"
proof (cases "ed_pending e = []")
  case False
  let ?s = "sort_key (\<lambda>d. (row_start d, col_start d)) (ed_pending e)"
  have "all_cells (ed_pending e) = all_cells ?s" by (simp add: all_cells_def)
  then show ?thesis using False coalesce_cells [of "[]" ?s] coalesce_length [of "[]" ?s] coalesce_inside [of "[]" ?s rows cols]
    by (simp add: take_coalesced_damage_def)
qed (simp add: take_coalesced_damage_def all_cells_def)

theorem taken_damage_covers_witness:
  "let (ds, e') = take_coalesced_damage (the (record_damage (region_new 1 3 0 4) (damage_new 5 6))) in
     all_cells [region_new 1 3 0 4] \<subseteq> all_cells ds \<and> (\<forall>d \<in> set ds. inside 5 6 d)"
proof -
  have r: "\<exists>e. record_damage (region_new 1 3 0 4) (damage_new 5 6) = Some e \<and> ed_pending e = [region_new 1 3 0 4]"
    using mark_range_ok [where d = "dirty_new 5" and a = 1 and b = 3] new_ok by (auto simp: record_damage_def region_new_def damage_new_def)
  then obtain e where e: "record_damage (region_new 1 3 0 4) (damage_new 5 6) = Some e" "ed_pending e = [region_new 1 3 0 4]" by blast
  have "inside 5 6 (region_new 1 3 0 4)" by (simp add: inside_def region_new_def)
  then show ?thesis using taken_damage_covers [of e 5 6] e by (auto simp: Let_def)
qed

section \<open>Resizing\<close>

text \<open>Growing after \<open>mark_all\<close> makes rows dirty that the description promises clean; shrinking keeps the bits of
  rows that are gone.\<close>

lemma grown_rows_are_dirty: "is_row_dirty 5 (dirty_resize 10 (mark_all (dirty_new 3))) = Some True"
  by (simp add: is_row_dirty_def dirty_resize_def mark_all_def dirty_new_def words_for_def drop_bit_eq_div)

lemma dirty_without_a_row:
  "\<exists>d. mark_row 9 (dirty_new 10) = Some d \<and> any_dirty (dirty_resize 3 d) \<and> dirty_ranges (dirty_resize 3 d) = Some []"
  by (simp add: mark_row_def dirty_new_def words_for_def dirty_resize_def any_dirty_def dirty_ranges_def is_row_dirty_def upt_rec)

end
