(* ===== verification/Arena.thy ===== *)
theory Arena
  imports Prelude
begin

unbundle bit_operations_syntax

text \<open>
  The node arena of the user-interface framework (crates/unshit-framework/crates/unshit-core/src:
  id.rs and tree.rs): generational node ids and their packing into the shared slot of a
  \<open>NodeRef\<close>, slots with a free list, and the tree links between the nodes. Of an element only the
  links are modelled; \<open>'e\<close> is everything else it carries. A loop along the links may run for ever
  on links that form a cycle, so it is a partial function, where \<open>None\<close> is a loop that does not end.
\<close>

section \<open>Node ids\<close>

record node_id =
  nid_index :: u32
  nid_generation :: u32

definition DANGLING :: node_id where
  "DANGLING = \<lparr>nid_index = - 1, nid_generation = 0\<rparr>"

definition is_dangling :: "node_id \<Rightarrow> bool" where
  "is_dangling i \<longleftrightarrow> nid_index i = - 1"

definition to_raw :: "node_id \<Rightarrow> 64 word" where
  "to_raw i = push_bit 32 (ucast (nid_index i)) OR ucast (nid_generation i)"

definition from_raw :: "64 word \<Rightarrow> node_id" where
  "from_raw raw = \<lparr>nid_index = ucast (drop_bit 32 raw), nid_generation = ucast (raw AND 0xFFFFFFFF)\<rparr>"

definition NO_NODE :: "64 word" where
  "NO_NODE = - 1"

text \<open>A \<open>NodeRef\<close> is one atomic cell; its clones share it.\<close>

definition node_ref_new :: "64 word" where
  "node_ref_new = NO_NODE"

definition node_ref_get :: "64 word \<Rightarrow> node_id option" where
  "node_ref_get raw = (if raw = NO_NODE then None else Some (from_raw raw))"

definition node_ref_set :: "node_id \<Rightarrow> 64 word \<Rightarrow> 64 word" where
  "node_ref_set i raw = to_raw i"

definition node_ref_clear :: "64 word \<Rightarrow> 64 word" where
  "node_ref_clear raw = NO_NODE"

section \<open>Slots\<close>

record 'e element =
  el_parent :: node_id
  el_first_child :: node_id
  el_last_child :: node_id
  el_next_sibling :: node_id
  el_prev_sibling :: node_id
  el_data :: 'e

datatype 'e slot = Occupied u32 "'e element" | Vacant u32

record 'e arena =
  ar_nodes :: "'e slot list"
  ar_free :: "u32 list"
  ar_autofocus :: "node_id option"

definition element_new :: "'e \<Rightarrow> 'e element" where
  "element_new x = \<lparr>el_parent = DANGLING, el_first_child = DANGLING, el_last_child = DANGLING,
     el_next_sibling = DANGLING, el_prev_sibling = DANGLING, el_data = x\<rparr>"

definition arena_new :: "'e arena" where
  "arena_new = \<lparr>ar_nodes = [], ar_free = [], ar_autofocus = None\<rparr>"

text \<open>\<open>None\<close> is a panic: a free-list entry outside the slots, or the \<open>unreachable!\<close> of an occupied one.\<close>

definition arena_alloc :: "'e element \<Rightarrow> 'e arena \<Rightarrow> (node_id \<times> 'e arena) option" where
  "arena_alloc el a = (if ar_free a \<noteq> []
     then let index = last (ar_free a) in
       do { sl \<leftarrow> nth_opt (ar_nodes a) (unat index);
            case sl of
              Vacant g \<Rightarrow> Some (\<lparr>nid_index = index, nid_generation = g\<rparr>,
                a\<lparr>ar_nodes := (ar_nodes a)[unat index := Occupied g el], ar_free := butlast (ar_free a)\<rparr>)
            | Occupied _ _ \<Rightarrow> None }
     else Some (\<lparr>nid_index = of_nat (length (ar_nodes a)), nid_generation = 0\<rparr>,
            a\<lparr>ar_nodes := ar_nodes a @ [Occupied 0 el]\<rparr>))"

definition arena_dealloc :: "node_id \<Rightarrow> 'e arena \<Rightarrow> 'e arena" where
  "arena_dealloc i a = (case nth_opt (ar_nodes a) (unat (nid_index i)) of
     Some (Occupied g el) \<Rightarrow> if g = nid_generation i
       then a\<lparr>ar_nodes := (ar_nodes a)[unat (nid_index i) := Vacant (g + 1)], ar_free := ar_free a @ [nid_index i]\<rparr>
       else a
   | _ \<Rightarrow> a)"

definition get_node :: "'e arena \<Rightarrow> node_id \<Rightarrow> 'e element option" where
  "get_node a i = (case nth_opt (ar_nodes a) (unat (nid_index i)) of
     Some (Occupied g el) \<Rightarrow> if g = nid_generation i then Some el else None
   | _ \<Rightarrow> None)"

text \<open>\<open>if let Some(e) = arena.get_mut(id) { e = f(e) }\<close>\<close>

definition update_node :: "node_id \<Rightarrow> ('e element \<Rightarrow> 'e element) \<Rightarrow> 'e arena \<Rightarrow> 'e arena" where
  "update_node i f a = (case get_node a i of
     Some el \<Rightarrow> a\<lparr>ar_nodes := (ar_nodes a)[unat (nid_index i) := Occupied (nid_generation i) (f el)]\<rparr>
   | None \<Rightarrow> a)"

text \<open>The subtraction panics when there are more free entries than slots.\<close>

definition arena_len :: "'e arena \<Rightarrow> nat option" where
  "arena_len a = (if length (ar_free a) \<le> length (ar_nodes a) then Some (length (ar_nodes a) - length (ar_free a)) else None)"

definition arena_is_empty :: "'e arena \<Rightarrow> bool option" where
  "arena_is_empty a = map_option (\<lambda>n. n = 0) (arena_len a)"

definition arena_iter :: "'e arena \<Rightarrow> (node_id \<times> 'e element) list" where
  "arena_iter a = List.map_filter (\<lambda>(k, sl). case sl of
     Occupied g el \<Rightarrow> Some (\<lparr>nid_index = of_nat k, nid_generation = g\<rparr>, el) | Vacant _ \<Rightarrow> None) (enumerate 0 (ar_nodes a))"

section \<open>Loops along the links\<close>

text \<open>The link of a node, \<open>DANGLING\<close> for one that is not there.\<close>

definition link_of :: "('e element \<Rightarrow> node_id) \<Rightarrow> 'e arena \<Rightarrow> node_id \<Rightarrow> node_id" where
  "link_of f a i = (case get_node a i of Some el \<Rightarrow> f el | None \<Rightarrow> DANGLING)"

partial_function (option) follow :: "('e element \<Rightarrow> node_id) \<Rightarrow> 'e arena \<Rightarrow> node_id \<Rightarrow> node_id list option" where
  "follow f a i = (if is_dangling i then Some []
     else do { is \<leftarrow> follow f a (link_of f a i); Some (i # is) })"

definition node_children :: "'e arena \<Rightarrow> node_id \<Rightarrow> node_id list option" where
  "node_children a i = (case get_node a i of Some el \<Rightarrow> follow el_next_sibling a (el_first_child el) | None \<Rightarrow> Some [])"

partial_function (option) lca_loop :: "'e arena \<Rightarrow> node_id list \<Rightarrow> node_id \<Rightarrow> node_id \<Rightarrow> node_id option" where
  "lca_loop a a_path root cur = (if is_dangling cur then Some root
     else if cur \<in> set a_path then Some cur
     else lca_loop a a_path root (link_of el_parent a cur))"

definition lowest_common_ancestor :: "'e arena \<Rightarrow> node_id \<Rightarrow> node_id \<Rightarrow> node_id \<Rightarrow> node_id option" where
  "lowest_common_ancestor ar a b root = (if a = b \<and> get_node ar a \<noteq> None then Some a
     else let a_in = (\<not> is_dangling a \<and> get_node ar a \<noteq> None);
              b_in = (\<not> is_dangling b \<and> get_node ar b \<noteq> None) in
       if \<not> a_in \<and> \<not> b_in then Some root
       else if \<not> a_in then Some b
       else if \<not> b_in then Some a
       else do { a_path \<leftarrow> follow el_parent ar a; lca_loop ar a_path root b })"

text \<open>The stack of the code, its top first; the children are pushed in their order.\<close>

partial_function (option) dealloc_loop :: "node_id list \<Rightarrow> 'e arena \<Rightarrow> 'e arena option" where
  "dealloc_loop stack a = (case stack of [] \<Rightarrow> Some a
     | cur # rest \<Rightarrow> do { kids \<leftarrow> node_children a cur; dealloc_loop (rev kids @ rest) (arena_dealloc cur a) })"

definition arena_dealloc_subtree :: "node_id \<Rightarrow> 'e arena \<Rightarrow> 'e arena option" where
  "arena_dealloc_subtree i a = (if is_dangling i \<or> get_node a i = None then Some a else dealloc_loop [i] a)"

section \<open>Changing the links\<close>

definition remove_child :: "node_id \<Rightarrow> node_id \<Rightarrow> 'e arena \<Rightarrow> 'e arena" where
  "remove_child parent child a = (case get_node a child of None \<Rightarrow> a | Some el \<Rightarrow>
     let prev_sib = el_prev_sibling el; next_sib = el_next_sibling el;
         a = (if is_dangling prev_sib then update_node parent (el_first_child_update (\<lambda>_. next_sib)) a
              else update_node prev_sib (el_next_sibling_update (\<lambda>_. next_sib)) a);
         a = (if is_dangling next_sib then update_node parent (el_last_child_update (\<lambda>_. prev_sib)) a
              else update_node next_sib (el_prev_sibling_update (\<lambda>_. prev_sib)) a)
     in update_node child (\<lambda>e. e\<lparr>el_parent := DANGLING, el_prev_sibling := DANGLING, el_next_sibling := DANGLING\<rparr>) a)"

definition append_child :: "node_id \<Rightarrow> node_id \<Rightarrow> 'e arena \<Rightarrow> 'e arena" where
  "append_child parent child a = (case get_node a parent of None \<Rightarrow> a | Some el \<Rightarrow>
     let old_last = el_last_child el;
         a = (if is_dangling old_last
              then update_node parent (\<lambda>e. e\<lparr>el_first_child := child, el_last_child := child\<rparr>) a
              else update_node parent (el_last_child_update (\<lambda>_. child))
                    (update_node child (el_prev_sibling_update (\<lambda>_. old_last))
                      (update_node old_last (el_next_sibling_update (\<lambda>_. child)) a)))
     in update_node child (el_parent_update (\<lambda>_. parent)) a)"

definition insert_child_before :: "node_id \<Rightarrow> node_id \<Rightarrow> node_id \<Rightarrow> 'e arena \<Rightarrow> 'e arena" where
  "insert_child_before parent child before a = (case get_node a before of None \<Rightarrow> a | Some el \<Rightarrow>
     let prev_sib = el_prev_sibling el;
         a = update_node child (\<lambda>e. e\<lparr>el_next_sibling := before, el_prev_sibling := prev_sib, el_parent := parent\<rparr>) a;
         a = update_node before (el_prev_sibling_update (\<lambda>_. child)) a
     in if is_dangling prev_sib then update_node parent (el_first_child_update (\<lambda>_. child)) a
        else update_node prev_sib (el_next_sibling_update (\<lambda>_. child)) a)"

end
