(* ===== verification/Arena_Slots.thy ===== *)
theory Arena_Slots
  imports Arena
begin

unbundle bit_operations_syntax

text \<open>
  The slots as a map from ids to elements: allocation adds an id that was not there, deallocation
  removes one, an update changes one, and the free list holds vacant slots only. The map view is
  what the link operations and their lemmas work on. Then the two facts that make stale ids safe:
  the packing of ids into a \<open>NodeRef\<close>, and generations.
\<close>

section \<open>The free list\<close>

definition free_ok :: "'e arena \<Rightarrow> bool" where
  "free_ok a \<longleftrightarrow> distinct (ar_free a) \<and>
     (\<forall>k \<in> set (ar_free a). unat k < length (ar_nodes a) \<and> (\<exists>g. ar_nodes a ! unat k = Vacant g))"

text \<open>Room for one more node: a vacant slot, or an index below the one that means dangling.\<close>

definition has_room :: "'e arena \<Rightarrow> bool" where
  "has_room a \<longleftrightarrow> ar_free a \<noteq> [] \<or> length (ar_nodes a) < 2 ^ 32 - 1"

definition arena_wf :: "'e arena \<Rightarrow> bool" where
  "arena_wf a \<longleftrightarrow> free_ok a \<and> length (ar_nodes a) < 2 ^ 32"

lemma arena_wf_new [simp]: "arena_wf arena_new"
  by (simp add: arena_wf_def free_ok_def arena_new_def)

lemma unat_inj: "unat (x :: u32) = unat y \<longleftrightarrow> x = y"
  by (metis word_unat_eq_iff)

lemma unat_max: "unat (- 1 :: u32) = 2 ^ 32 - 1"
  by (simp add: unsigned_minus_1_eq_mask mask_eq_exp_minus_1)

lemma get_node_None_iff:
  "get_node a i = None \<longleftrightarrow> \<not> (\<exists>el. unat (nid_index i) < length (ar_nodes a) \<and> ar_nodes a ! unat (nid_index i) = Occupied (nid_generation i) el)"
  by (auto simp: get_node_def nth_opt_def split: slot.split)

lemma get_node_Some_iff:
  "get_node a i = Some el \<longleftrightarrow> unat (nid_index i) < length (ar_nodes a) \<and> ar_nodes a ! unat (nid_index i) = Occupied (nid_generation i) el"
  by (auto simp: get_node_def nth_opt_def split: slot.split)

lemma get_arena_new [simp]: "get_node arena_new i = None"
  by (simp add: get_node_def arena_new_def)

lemma get_update_node [simp]: "get_node (update_node i f a) j = (if j = i then map_option f (get_node a i) else get_node a j)"
proof (cases "get_node a i")
  case None
  then show ?thesis by (simp add: update_node_def)
next
  case (Some el)
  then have k: "unat (nid_index i) < length (ar_nodes a)" "ar_nodes a ! unat (nid_index i) = Occupied (nid_generation i) el"
    by (simp_all add: get_node_Some_iff)
  show ?thesis
  proof (cases "nid_index j = nid_index i")
    case True
    then show ?thesis using Some k by (auto simp: update_node_def get_node_def)
  next
    case False
    then have "unat (nid_index i) \<noteq> unat (nid_index j)" by (simp add: unat_inj)
    then show ?thesis using Some False by (auto simp: update_node_def get_node_def nth_opt_def)
  qed
qed

lemma update_node_free [simp]: "ar_free (update_node i f a) = ar_free a" "length (ar_nodes (update_node i f a)) = length (ar_nodes a)"
  by (simp_all add: update_node_def split: option.split)

lemma update_node_wf [simp]: "arena_wf (update_node i f a) \<longleftrightarrow> arena_wf a"
proof (cases "get_node a i")
  case None
  then show ?thesis by (simp add: update_node_def)
next
  case (Some el)
  then have k: "ar_nodes a ! unat (nid_index i) = Occupied (nid_generation i) el" "unat (nid_index i) < length (ar_nodes a)"
    by (simp_all add: get_node_Some_iff)
  have v: "(\<exists>g. (ar_nodes a)[unat (nid_index i) := Occupied (nid_generation i) (f el)] ! n = Vacant g) \<longleftrightarrow> (\<exists>g. ar_nodes a ! n = Vacant g)" for n
    using k by (cases "n = unat (nid_index i)") simp_all
  show ?thesis using Some by (simp add: update_node_def arena_wf_def free_ok_def v)
qed

section \<open>Allocation and deallocation\<close>

lemma alloc_total: "free_ok a \<Longrightarrow> \<exists>i a'. arena_alloc el a = Some (i, a') \<and> free_ok a'"
proof (cases "ar_free a = []")
  case False
  assume ok: "free_ok a"
  define k where "k = last (ar_free a)"
  define fs where "fs = butlast (ar_free a)"
  have fr: "ar_free a = fs @ [k]" using False by (simp add: k_def fs_def)
  obtain g where g: "unat k < length (ar_nodes a)" "ar_nodes a ! unat k = Vacant g"
    using ok by (auto simp: free_ok_def fr)
  have "arena_alloc el a = Some (\<lparr>nid_index = k, nid_generation = g\<rparr>,
      a\<lparr>ar_nodes := (ar_nodes a)[unat k := Occupied g el], ar_free := fs\<rparr>)"
    using False g by (simp add: arena_alloc_def Let_def fr)
  moreover have "(\<exists>h. (ar_nodes a)[unat k := Occupied g el] ! unat x = Vacant h) \<longleftrightarrow> (\<exists>h. ar_nodes a ! unat x = Vacant h)" if "x \<in> set fs" for x
  proof -
    have "x \<noteq> k" using ok that by (auto simp: free_ok_def fr)
    then have "unat k \<noteq> unat x" by (simp add: unat_inj)
    then show ?thesis by simp
  qed
  ultimately show ?thesis using ok by (auto simp: free_ok_def fr)
qed (simp add: arena_alloc_def free_ok_def)

lemma alloc_ok:
  assumes wf: "arena_wf a" and room: "has_room a"
  obtains i a' where "arena_alloc el a = Some (i, a')" and "arena_wf a'" and "get_node a i = None" and "\<not> is_dangling i"
    and "get_node a' = (get_node a)(i \<mapsto> el)"
proof (cases "ar_free a = []")
  case True
  let ?n = "length (ar_nodes a)"
  let ?i = "\<lparr>nid_index = of_nat ?n, nid_generation = 0\<rparr>"
  have n: "?n < 2 ^ 32 - 1" using room True by (simp add: has_room_def)
  then have u: "unat (of_nat ?n :: u32) = ?n" by (simp add: unat_of_nat)
  have nd: "(of_nat ?n :: u32) \<noteq> - 1"
  proof
    assume "(of_nat ?n :: u32) = - 1"
    then have "unat (of_nat ?n :: u32) = unat (- 1 :: u32)" by simp
    then show False using n u by (simp add: unat_max)
  qed
  have al: "arena_alloc el a = Some (?i, a\<lparr>ar_nodes := ar_nodes a @ [Occupied 0 el]\<rparr>)" using True by (simp add: arena_alloc_def)
  show thesis
  proof (rule that [OF al])
    show "arena_wf (a\<lparr>ar_nodes := ar_nodes a @ [Occupied 0 el]\<rparr>)" using n True by (simp add: arena_wf_def free_ok_def)
    show "get_node a ?i = None" by (simp add: get_node_def u)
    show "\<not> is_dangling ?i" using nd by (simp add: is_dangling_def)
    show "get_node (a\<lparr>ar_nodes := ar_nodes a @ [Occupied 0 el]\<rparr>) = (get_node a)(?i \<mapsto> el)"
    proof (rule ext)
      fix j :: node_id
      have "unat (nid_index j) = ?n \<longleftrightarrow> nid_index j = of_nat ?n" using u by (metis unat_inj)
      then show "get_node (a\<lparr>ar_nodes := ar_nodes a @ [Occupied 0 el]\<rparr>) j = ((get_node a)(?i \<mapsto> el)) j"
        by (cases j) (auto simp: get_node_def nth_opt_def nth_append u)
    qed
  qed
next
  case False
  define k where "k = last (ar_free a)"
  define fs where "fs = butlast (ar_free a)"
  have fr: "ar_free a = fs @ [k]" using False by (simp add: k_def fs_def)
  obtain g where g: "unat k < length (ar_nodes a)" "ar_nodes a ! unat k = Vacant g"
    using wf by (auto simp: arena_wf_def free_ok_def fr)
  let ?i = "\<lparr>nid_index = k, nid_generation = g\<rparr>"
  let ?a = "a\<lparr>ar_nodes := (ar_nodes a)[unat k := Occupied g el], ar_free := fs\<rparr>"
  have al: "arena_alloc el a = Some (?i, ?a)" using False g by (simp add: arena_alloc_def Let_def fr)
  obtain i' a' where "arena_alloc el a = Some (i', a')" "free_ok a'" using alloc_total wf by (metis arena_wf_def)
  then have fo: "free_ok ?a" using al by simp
  show thesis
  proof (rule that [OF al])
    show "arena_wf ?a" using fo wf by (simp add: arena_wf_def)
    show "get_node a ?i = None" using g by (simp add: get_node_def)
    show "\<not> is_dangling ?i"
    proof
      assume "is_dangling ?i"
      then have "unat k = unat (- 1 :: u32)" by (simp add: is_dangling_def)
      then show False using g(1) wf by (simp add: arena_wf_def unat_max)
    qed
    show "get_node ?a = (get_node a)(?i \<mapsto> el)"
    proof (rule ext)
      fix j
      show "get_node ?a j = ((get_node a)(?i \<mapsto> el)) j"
      proof (cases "nid_index j = k")
        case True
        then show ?thesis using g by (cases j) (auto simp: get_node_def)
      next
        case False
        then have "unat k \<noteq> unat (nid_index j)" by (simp add: unat_inj)
        then show ?thesis using False by (cases j) (auto simp: get_node_def nth_opt_def)
      qed
    qed
  qed
qed

lemma dealloc_free_ok: "free_ok a \<Longrightarrow> free_ok (arena_dealloc i a)"
proof (cases "get_node a i")
  case None
  then have "arena_dealloc i a = a" by (auto simp: arena_dealloc_def get_node_def split: option.splits slot.splits if_splits)
  then show "free_ok a \<Longrightarrow> ?thesis" by simp
next
  case (Some el)
  assume ok: "free_ok a"
  have k: "unat (nid_index i) < length (ar_nodes a)" "ar_nodes a ! unat (nid_index i) = Occupied (nid_generation i) el"
    using Some by (simp_all add: get_node_Some_iff)
  have nf: "nid_index i \<notin> set (ar_free a)" using ok k by (auto simp: free_ok_def)
  have "arena_dealloc i a = a\<lparr>ar_nodes := (ar_nodes a)[unat (nid_index i) := Vacant (nid_generation i + 1)], ar_free := ar_free a @ [nid_index i]\<rparr>"
    using k by (simp add: arena_dealloc_def)
  moreover have "(ar_nodes a)[unat (nid_index i) := Vacant (nid_generation i + 1)] ! unat x = ar_nodes a ! unat x" if "x \<in> set (ar_free a)" for x
  proof -
    have "x \<noteq> nid_index i" using nf that by auto
    then have "unat (nid_index i) \<noteq> unat x" by (simp add: unat_inj)
    then show ?thesis by simp
  qed
  ultimately show ?thesis using ok nf k by (auto simp: free_ok_def)
qed

lemma dealloc_length [simp]: "length (ar_nodes (arena_dealloc i a)) = length (ar_nodes a)"
  by (simp add: arena_dealloc_def split: option.split slot.split)

lemma dealloc_wf [simp]: "arena_wf a \<Longrightarrow> arena_wf (arena_dealloc i a)"
  using dealloc_free_ok [of a i] dealloc_length [of i a] by (simp add: arena_wf_def)

lemma get_dealloc [simp]: "get_node (arena_dealloc i a) = (get_node a)(i := None)"
proof (rule ext)
  fix j
  show "get_node (arena_dealloc i a) j = ((get_node a)(i := None)) j"
  proof (cases "nid_index j = nid_index i")
    case True
    have "(g :: u32) + 1 \<noteq> g" for g by simp
    then show ?thesis using True
      by (cases i; cases j) (auto simp: get_node_def arena_dealloc_def nth_opt_def split: slot.splits)
  next
    case False
    then have "unat (nid_index i) \<noteq> unat (nid_index j)" by (simp add: unat_inj)
    then show ?thesis using False
      by (auto simp: get_node_def arena_dealloc_def nth_opt_def split: slot.split)
  qed
qed

section \<open>Packed ids\<close>

lemma from_to_raw: "from_raw (to_raw i) = i"
proof -
  have "bit (ucast (drop_bit 32 (to_raw i)) :: u32) n = bit (nid_index i) n" for n
    by (auto simp: to_raw_def bit_simps dest: bit_imp_le_length)
  moreover have "bit (ucast (to_raw i AND 0xFFFFFFFF) :: u32) n = bit (nid_generation i) n" if "n < 32" for n
  proof -
    have m: "(0xFFFFFFFF :: 64 word) = mask 32" by (simp add: mask_eq_exp_minus_1)
    show ?thesis using that unfolding m by (simp add: to_raw_def bit_simps)
  qed
  ultimately have "ucast (drop_bit 32 (to_raw i)) = nid_index i" "ucast (to_raw i AND 0xFFFFFFFF) = nid_generation i"
    by (auto intro!: bit_word_eqI)
  then show ?thesis by (cases i) (simp add: from_raw_def)
qed

text \<open>A \<open>NodeRef\<close> that is set gives the id back, and one that is new or cleared gives none; the single
  id it cannot hold is the one of the last index and the last generation, whose packing is the empty mark.\<close>

theorem node_ref_holds_node:
  "node_ref_get (node_ref_set i raw) = (if nid_index i = - 1 \<and> nid_generation i = - 1 then None else Some i) \<and>
   node_ref_get node_ref_new = None \<and> node_ref_get (node_ref_clear raw) = None"
proof -
  have "to_raw i = NO_NODE \<longleftrightarrow> i = from_raw NO_NODE"
  proof
    assume "i = from_raw NO_NODE"
    moreover have "to_raw (from_raw NO_NODE) = NO_NODE" by (simp add: to_raw_def from_raw_def NO_NODE_def unsigned_minus_1_eq_mask mask_eq_exp_minus_1)
    ultimately show "to_raw i = NO_NODE" by simp
  qed (metis from_to_raw)
  moreover have "from_raw NO_NODE = \<lparr>nid_index = - 1, nid_generation = - 1\<rparr>"
  proof -
    have "ucast (mask 32 :: 64 word) = (- 1 :: u32)" by (rule bit_word_eqI) (simp add: bit_simps)
    then show ?thesis by (simp add: from_raw_def NO_NODE_def mask_eq_exp_minus_1)
  qed
  ultimately have "to_raw i = NO_NODE \<longleftrightarrow> nid_index i = - 1 \<and> nid_generation i = - 1" by (cases i) simp
  then show ?thesis by (simp add: node_ref_get_def node_ref_set_def node_ref_new_def node_ref_clear_def from_to_raw)
qed

section \<open>Stale ids\<close>

datatype 'e slot_op = OpAlloc "'e element" | OpFree node_id | OpUpdate node_id "'e element \<Rightarrow> 'e element"

fun slot_step :: "'e slot_op \<Rightarrow> 'e arena \<Rightarrow> 'e arena option" where
  "slot_step (OpAlloc el) a = map_option snd (arena_alloc el a)"
| "slot_step (OpFree i) a = Some (arena_dealloc i a)"
| "slot_step (OpUpdate i f) a = Some (update_node i f a)"

fun slot_generation :: "'e slot \<Rightarrow> u32" where
  "slot_generation (Occupied g el) = g"
| "slot_generation (Vacant g) = g"

definition frees :: "'e slot_op list \<Rightarrow> nat" where
  "frees ops = length (filter (\<lambda>op. case op of OpFree _ \<Rightarrow> True | _ \<Rightarrow> False) ops)"

definition generation_at :: "'e arena \<Rightarrow> nat \<Rightarrow> u32 option" where
  "generation_at a k = map_option slot_generation (nth_opt (ar_nodes a) k)"

lemma update_node_free_ok: "free_ok (update_node i f a) = free_ok a"
proof (cases "get_node a i")
  case None
  then show ?thesis by (simp add: update_node_def)
next
  case (Some el)
  then have k: "ar_nodes a ! unat (nid_index i) = Occupied (nid_generation i) el" "unat (nid_index i) < length (ar_nodes a)"
    by (simp_all add: get_node_Some_iff)
  have "(\<exists>g. (ar_nodes a)[unat (nid_index i) := Occupied (nid_generation i) (f el)] ! n = Vacant g) \<longleftrightarrow> (\<exists>g. ar_nodes a ! n = Vacant g)" for n
    using k by (cases "n = unat (nid_index i)") simp_all
  then show ?thesis using Some by (simp add: update_node_def free_ok_def)
qed

lemma slot_step_total:
  assumes "free_ok a"
  shows "\<exists>a'. slot_step op a = Some a' \<and> free_ok a'"
proof (cases op)
  case (OpAlloc el)
  then show ?thesis using alloc_total [OF assms, of el] by auto
qed (use assms in \<open>simp_all add: dealloc_free_ok update_node_free_ok\<close>)

interpretation slots: panic_free_system slot_step free_ok "\<lambda>_. True"
  by unfold_locales (rule slot_step_total)

text \<open>An operation leaves the generation of a slot alone, or adds one when it frees a node.\<close>

lemma slot_step_generation:
  assumes "slot_step op a = Some a'" and "generation_at a k = Some g"
  shows "generation_at a' k = Some g \<or> frees [op] = 1 \<and> generation_at a' k = Some (g + 1)"
proof (cases op)
  case (OpAlloc el)
  then show ?thesis using assms
    by (auto simp: arena_alloc_def Let_def generation_at_def nth_opt_def nth_append nth_list_update
      split: if_splits slot.splits Option.bind_splits)
next
  case (OpFree i)
  then show ?thesis using assms
    by (auto simp: arena_dealloc_def generation_at_def frees_def nth_opt_def nth_list_update split: option.splits slot.splits if_splits)
next
  case (OpUpdate i f)
  then show ?thesis using assms
    by (auto simp: update_node_def generation_at_def nth_opt_def nth_list_update get_node_Some_iff split: option.splits if_splits)
qed

lemma run_generation:
  "run_opt slot_step ops a = Some a' \<Longrightarrow> generation_at a k = Some g \<Longrightarrow>
   \<exists>n \<le> frees ops. generation_at a' k = Some (g + of_nat n)"
proof (induction ops arbitrary: a g)
  case (Cons op ops)
  obtain b where b: "slot_step op a = Some b" "run_opt slot_step ops b = Some a'" using Cons.prems(1) by (cases "slot_step op a") auto
  have fr: "frees (op # ops) = frees [op] + frees ops" by (simp add: frees_def)
  from slot_step_generation [OF b(1) Cons.prems(2)] show ?case
  proof
    assume "generation_at b k = Some g"
    then obtain n where "n \<le> frees ops" "generation_at a' k = Some (g + of_nat n)" using Cons.IH [OF b(2)] by blast
    moreover have "n \<le> frees (op # ops)" using fr \<open>n \<le> frees ops\<close> by linarith
    ultimately show ?thesis by blast
  next
    assume g: "frees [op] = 1 \<and> generation_at b k = Some (g + 1)"
    then obtain n where "n \<le> frees ops" "generation_at a' k = Some (g + 1 + of_nat n)" using Cons.IH [OF b(2)] by blast
    moreover have "g + 1 + of_nat n = g + of_nat (Suc n)" by (simp add: add.assoc)
    moreover have "Suc n \<le> frees (op # ops)" using g fr \<open>n \<le> frees ops\<close> by linarith
    ultimately show ?thesis by metis
  qed
qed (auto intro: exI [of _ 0])

text \<open>C31: The id of a node that was freed never resolves again, whatever is allocated, freed and
  changed after it, as long as fewer than \<open>2 ^ 32 - 1\<close> nodes are freed: no operation panics, and the slot may be
  in use again under a later generation.\<close>

theorem stale_id_never_resolves:
  assumes ok: "free_ok a" and live: "get_node a i \<noteq> None" and few: "frees ops < 2 ^ 32 - 1"
  shows "\<exists>a'. run_opt slot_step (OpFree i # ops) a = Some a' \<and> get_node a' i = None"
proof -
  obtain a' where r: "run_opt slot_step ops (arena_dealloc i a) = Some a'"
    using slots.run_total [of "arena_dealloc i a" ops] dealloc_free_ok [OF ok] by auto
  obtain el where el: "unat (nid_index i) < length (ar_nodes a)" "ar_nodes a ! unat (nid_index i) = Occupied (nid_generation i) el"
    using live by (auto simp: get_node_Some_iff)
  have "generation_at (arena_dealloc i a) (unat (nid_index i)) = Some (nid_generation i + 1)"
    using el by (simp add: generation_at_def arena_dealloc_def)
  then obtain n where n: "n \<le> frees ops" "generation_at a' (unat (nid_index i)) = Some (nid_generation i + 1 + of_nat n)"
    using run_generation [OF r] by blast
  have "nid_generation i + 1 + of_nat n \<noteq> nid_generation i"
  proof
    assume "nid_generation i + 1 + of_nat n = nid_generation i"
    then have "(of_nat (Suc n) :: u32) = 0" by (simp add: add.assoc)
    then have "unat (of_nat (Suc n) :: u32) = 0" by simp
    then show False using n(1) few by (simp add: unat_of_nat del: of_nat_Suc)
  qed
  then have "get_node a' i = None"
    using n(2) by (auto simp: generation_at_def get_node_def nth_opt_def split: slot.split if_splits)
  then show ?thesis using r by simp
qed

theorem stale_id_never_resolves_witness:
  "\<exists>i a a'. arena_alloc (element_new ()) arena_new = Some (i, a) \<and>
     run_opt slot_step [OpFree i, OpAlloc (element_new ())] a = Some a' \<and> get_node a' i = None"
proof -
  have wf: "arena_wf (arena_new :: unit arena)" "has_room (arena_new :: unit arena)"
    unfolding has_room_def by (simp, simp add: arena_new_def)
  obtain i and a :: "unit arena" where a: "arena_alloc (element_new ()) arena_new = Some (i, a)" "arena_wf a"
    "get_node a = (get_node arena_new)(i \<mapsto> element_new ())"
    by (rule alloc_ok [OF wf]) blast
  have "free_ok a" "get_node a i \<noteq> None" using a by (simp_all add: arena_wf_def)
  from stale_id_never_resolves [OF this, of "[OpAlloc (element_new ())]"] show ?thesis
    using a(1) by (auto simp: frees_def)
qed

end
