(* ===== verification/Arena_Ops.thy ===== *)
theory Arena_Ops
  imports Arena_Slots
begin

text \<open>
  The links as child lists. \<open>forest h kids\<close> says that in the map \<open>h\<close> from ids to elements the five
  links of every node spell the lists \<open>kids\<close>, that every node with a parent is in the list of its
  parent, and that no node is below itself. Appending, inserting and removing a child are then the
  operations on lists they stand for, and the loops along the links end.
\<close>

section \<open>Neighbours in a list\<close>

definition hd_or :: "node_id list \<Rightarrow> node_id" where
  "hd_or xs = (case xs of [] \<Rightarrow> DANGLING | x # _ \<Rightarrow> x)"

definition last_or :: "node_id list \<Rightarrow> node_id" where
  "last_or xs = hd_or (rev xs)"

fun next_in :: "node_id list \<Rightarrow> node_id \<Rightarrow> node_id" where
  "next_in [] c = DANGLING"
| "next_in (x # xs) c = (if x = c then hd_or xs else next_in xs c)"

definition prev_in :: "node_id list \<Rightarrow> node_id \<Rightarrow> node_id" where
  "prev_in xs = next_in (rev xs)"

lemma hd_or_simps [simp]: "hd_or [] = DANGLING" "hd_or (x # xs) = x" "last_or [] = DANGLING" "last_or (xs @ [x]) = x"
  by (simp_all add: hd_or_def last_or_def)

lemma hd_or_append: "hd_or (xs @ ys) = (if xs = [] then hd_or ys else hd_or xs)"
  by (cases xs) simp_all

lemma last_or_append: "last_or (xs @ ys) = (if ys = [] then last_or xs else last_or ys)"
  by (simp add: last_or_def hd_or_append)

lemma last_or_Cons: "last_or (x # xs) = (if xs = [] then x else last_or xs)"
  using last_or_append [of "[x]" xs] by (simp add: last_or_def)

lemma hd_or_in: "xs \<noteq> [] \<Longrightarrow> hd_or xs \<in> set xs"
  by (cases xs) simp_all

lemma last_or_in: "xs \<noteq> [] \<Longrightarrow> last_or xs \<in> set xs"
  using hd_or_in [of "rev xs"] by (simp add: last_or_def)

lemma next_in_at: "c \<notin> set us \<Longrightarrow> next_in (us @ c # vs) c = hd_or vs"
  by (induction us) auto

lemma prev_in_at: "c \<notin> set vs \<Longrightarrow> prev_in (us @ c # vs) c = last_or us"
  using next_in_at [of c "rev vs" "rev us"] by (simp add: prev_in_def last_or_def)

lemma next_in_insert:
  "distinct (us @ c # vs) \<Longrightarrow> x \<noteq> c \<Longrightarrow>
   next_in (us @ c # vs) x = (if us \<noteq> [] \<and> x = last_or us then c else next_in (us @ vs) x)"
proof (induction us)
  case (Cons u us)
  show ?case
  proof (cases "us = []")
    case True
    then show ?thesis using Cons.prems by (auto simp: last_or_Cons)
  next
    case False
    then have "u \<noteq> last_or us" using Cons.prems last_or_in [OF False] by auto
    then show ?thesis using Cons False by (auto simp: last_or_Cons hd_or_append)
  qed
qed auto

lemma prev_in_insert:
  assumes "distinct (us @ c # vs)" and "x \<noteq> c"
  shows "prev_in (us @ c # vs) x = (if vs \<noteq> [] \<and> x = hd_or vs then c else prev_in (us @ vs) x)"
  using next_in_insert [of "rev vs" c "rev us" x] assms
  by (simp add: prev_in_def last_or_def Int_commute)

section \<open>Forests\<close>

type_synonym child_lists = "node_id \<Rightarrow> node_id list"

definition child_rel :: "child_lists \<Rightarrow> (node_id \<times> node_id) set" where
  "child_rel kids = {(p, c). c \<in> set (kids p)}"

text \<open>The links of \<open>c\<close> say that it is a child of \<open>p\<close>, at its place in the list \<open>xs\<close>.\<close>

definition child_links :: "node_id \<Rightarrow> node_id list \<Rightarrow> node_id \<Rightarrow> 'e element \<Rightarrow> bool" where
  "child_links p xs c e \<longleftrightarrow> el_parent e = p \<and> el_prev_sibling e = prev_in xs c \<and> el_next_sibling e = next_in xs c"

definition parent_links :: "node_id list \<Rightarrow> 'e element \<Rightarrow> bool" where
  "parent_links xs e \<longleftrightarrow> distinct xs \<and> el_first_child e = hd_or xs \<and> el_last_child e = last_or xs"

definition detached :: "'e element \<Rightarrow> bool" where
  "detached e \<longleftrightarrow> el_parent e = DANGLING \<and> el_prev_sibling e = DANGLING \<and> el_next_sibling e = DANGLING"

definition forest :: "(node_id \<rightharpoonup> 'e element) \<Rightarrow> child_lists \<Rightarrow> bool" where
  "forest h kids \<longleftrightarrow>
     (\<forall>p. h p = None \<longrightarrow> kids p = []) \<and>
     (\<forall>p e. h p = Some e \<longrightarrow> \<not> is_dangling p \<and> parent_links (kids p) e) \<and>
     (\<forall>p c. c \<in> set (kids p) \<longrightarrow> (\<exists>e. h c = Some e \<and> child_links p (kids p) c e)) \<and>
     (\<forall>c e. h c = Some e \<longrightarrow> detached e \<or> c \<in> set (kids (el_parent e))) \<and>
     acyclic (child_rel kids)"

lemma is_dangling_DANGLING [simp]: "is_dangling DANGLING"
  by (simp add: is_dangling_def DANGLING_def)

lemma forest_none: "forest h kids \<Longrightarrow> h p = None \<Longrightarrow> kids p = []"
  by (simp add: forest_def)

lemma forest_some: "forest h kids \<Longrightarrow> h p = Some e \<Longrightarrow> \<not> is_dangling p \<and> parent_links (kids p) e"
  by (simp add: forest_def)

lemma forest_child: "forest h kids \<Longrightarrow> c \<in> set (kids p) \<Longrightarrow> \<exists>e. h c = Some e \<and> child_links p (kids p) c e"
  by (simp add: forest_def)

lemma forest_parent: "forest h kids \<Longrightarrow> h c = Some e \<Longrightarrow> detached e \<or> c \<in> set (kids (el_parent e))"
  unfolding forest_def by blast

lemma forest_acyclic: "forest h kids \<Longrightarrow> acyclic (child_rel kids)"
  by (simp add: forest_def)

lemma forest_not_dangling: "forest h kids \<Longrightarrow> c \<in> set (kids p) \<Longrightarrow> \<not> is_dangling c"
  using forest_child forest_some by blast

lemma forest_live_parent: "forest h kids \<Longrightarrow> c \<in> set (kids p) \<Longrightarrow> h p \<noteq> None"
  using forest_none by force

lemma forest_one_parent: "forest h kids \<Longrightarrow> c \<in> set (kids p) \<Longrightarrow> c \<in> set (kids q) \<Longrightarrow> p = q"
  using forest_child [of h kids c p] forest_child [of h kids c q] by (auto simp: child_links_def)

lemma forest_distinct: "forest h kids \<Longrightarrow> distinct (kids p)"
  using forest_none [of h kids p] forest_some [of h kids p] by (cases "h p") (auto simp: parent_links_def)

lemma forest_parent_iff:
  assumes F: "forest h kids" and e: "h c = Some e"
  shows "c \<in> set (kids p) \<longleftrightarrow> el_parent e = p \<and> h p \<noteq> None"
proof
  assume "c \<in> set (kids p)"
  then show "el_parent e = p \<and> h p \<noteq> None"
    using forest_child [OF F, of c p] forest_live_parent [OF F, of c p] e by (auto simp: child_links_def)
next
  assume p: "el_parent e = p \<and> h p \<noteq> None"
  then have "\<not> is_dangling p" using forest_some [OF F] by auto
  then have "\<not> detached e" using p by (auto simp: detached_def)
  then show "c \<in> set (kids p)" using forest_parent [OF F e] p by auto
qed

lemma forest_dangling_dead: "forest h kids \<Longrightarrow> h DANGLING = None"
  using forest_some [of h kids DANGLING] by (cases "h DANGLING") auto

lemma forest_detached:
  assumes F: "forest h kids" and e: "h c = Some e"
  shows "detached e \<longleftrightarrow> (\<forall>p. c \<notin> set (kids p))"
proof
  assume d: "detached e"
  show "\<forall>p. c \<notin> set (kids p)"
  proof (intro allI notI)
    fix p assume "c \<in> set (kids p)"
    then have "el_parent e = p \<and> h p \<noteq> None" using forest_parent_iff [OF F e] by simp
    then show False using d forest_dangling_dead [OF F] by (simp add: detached_def)
  qed
qed (use forest_parent [OF F e] in blast)

lemma forest_not_own_child: "forest h kids \<Longrightarrow> p \<notin> set (kids p)"
  using forest_acyclic [of h kids] by (auto simp: child_rel_def acyclic_def)

lemma hd_or_dangling: "\<forall>x \<in> set xs. \<not> is_dangling x \<Longrightarrow> is_dangling (hd_or xs) \<longleftrightarrow> xs = []"
  by (cases xs) auto

lemma last_or_dangling: "\<forall>x \<in> set xs. \<not> is_dangling x \<Longrightarrow> is_dangling (last_or xs) \<longleftrightarrow> xs = []"
  using hd_or_dangling [of "rev xs"] by (simp add: last_or_def)

text \<open>
  What the three link operations do to the map of elements, written as one change per element
  (\<open>link_in\<close>, \<open>link_out\<close>), and that these changes are an insertion into and a removal from the
  child list of one node.
\<close>

section \<open>Inserting between two parts of a list\<close>

definition link_in :: "node_id \<Rightarrow> node_id \<Rightarrow> node_id list \<Rightarrow> node_id list \<Rightarrow> node_id \<Rightarrow> 'e element \<Rightarrow> 'e element" where
  "link_in p c us vs x e = e\<lparr>
     el_parent := (if x = c then p else el_parent e),
     el_prev_sibling := (if x = c then last_or us else if vs \<noteq> [] \<and> x = hd_or vs then c else el_prev_sibling e),
     el_next_sibling := (if x = c then hd_or vs else if us \<noteq> [] \<and> x = last_or us then c else el_next_sibling e),
     el_first_child := (if x = p \<and> us = [] then c else el_first_child e),
     el_last_child := (if x = p \<and> vs = [] then c else el_last_child e)\<rparr>"

definition linked_in :: "node_id \<Rightarrow> node_id \<Rightarrow> node_id list \<Rightarrow> node_id list \<Rightarrow> (node_id \<rightharpoonup> 'e element) \<Rightarrow> (node_id \<rightharpoonup> 'e element)" where
  "linked_in p c us vs h = (\<lambda>x. map_option (link_in p c us vs x) (h x))"

lemma linked_in_None [simp]: "linked_in p c us vs h x = None \<longleftrightarrow> h x = None"
  by (simp add: linked_in_def)

lemma forest_linked_in:
  assumes F: "forest h kids" and p: "h p \<noteq> None" "kids p = us @ vs"
    and c: "h c = Some ec" "detached ec" "(c, p) \<notin> (child_rel kids)\<^sup>*"
  shows "forest (linked_in p c us vs h) (kids(p := us @ c # vs))"
proof -
  have free: "c \<notin> set (kids q)" for q using forest_detached [OF F c(1)] c(2) by simp
  have dist: "distinct (us @ c # vs)" using forest_distinct [OF F, of p] free [of p] by (auto simp: p(2))
  have ends: "us \<noteq> [] \<Longrightarrow> last_or us \<in> set (kids p)" "vs \<noteq> [] \<Longrightarrow> hd_or vs \<in> set (kids p)"
    by (simp_all add: p(2) last_or_in hd_or_in)
  have other: "child_links q xs x (link_in p c us vs x e) = child_links q xs x e" if x: "x \<noteq> c" "x \<notin> set (kids p)" for q xs x and e :: "'a element"
  proof -
    have "\<not> (us \<noteq> [] \<and> x = last_or us)" "\<not> (vs \<noteq> [] \<and> x = hd_or vs)" using x(2) ends by blast+
    then show ?thesis using x(1) by (simp add: child_links_def link_in_def del: de_Morgan_conj)
  qed
  have child: "\<exists>e. linked_in p c us vs h x = Some e \<and> child_links q ((kids(p := us @ c # vs)) q) x e"
    if x: "x \<in> set ((kids(p := us @ c # vs)) q)" for q x
  proof (cases "x = c")
    case True
    then have "q = p" using x free by (auto split: if_splits)
    then show ?thesis using c(1) dist True
      by (simp add: linked_in_def child_links_def link_in_def next_in_at prev_in_at)
  next
    case xc: False
    then have xq: "x \<in> set (kids q)" using x by (auto simp: p(2) split: if_splits)
    then obtain e where e: "h x = Some e" "child_links q (kids q) x e" using forest_child [OF F] by blast
    show ?thesis
    proof (cases "q = p")
      case True
      then have "prev_in (us @ c # vs) x = el_prev_sibling (link_in p c us vs x e)"
        "next_in (us @ c # vs) x = el_next_sibling (link_in p c us vs x e)"
        using e(2) prev_in_insert [OF dist xc] next_in_insert [OF dist xc] xc by (simp_all add: child_links_def link_in_def p(2))
      then show ?thesis using e True xc by (simp add: linked_in_def child_links_def) (simp add: link_in_def)
    next
      case False
      then have "x \<notin> set (kids p)" using xq forest_one_parent [OF F] by blast
      then have "child_links q (kids q) x (link_in p c us vs x e)" using e(2) other [OF xc] by simp
      then show ?thesis using e(1) False by (simp add: linked_in_def)
    qed
  qed
  have acyc: "acyclic (child_rel (kids(p := us @ c # vs)))"
  proof -
    have "child_rel (kids(p := us @ c # vs)) = insert (p, c) (child_rel kids)"
      by (auto simp: child_rel_def p(2) split: if_splits)
    then show ?thesis using forest_acyclic [OF F] c(3) by (simp add: acyclic_insert)
  qed
  have par: "detached e' \<or> x \<in> set ((kids(p := us @ c # vs)) (el_parent e'))" if L: "linked_in p c us vs h x = Some e'" for x e'
  proof (cases "x = c")
    case True
    then show ?thesis using L c(1) by (auto simp: linked_in_def link_in_def)
  next
    case False
    obtain e where e: "h x = Some e" "e' = link_in p c us vs x e" using L by (auto simp: linked_in_def)
    then have pe: "el_parent e' = el_parent e" using False by (simp add: link_in_def)
    show ?thesis
    proof (cases "detached e")
      case True
      then have "x \<notin> set (kids p)" using forest_detached [OF F e(1)] by simp
      then show ?thesis using True e(2) ends False by (auto simp: detached_def link_in_def)
    next
      case nd: False
      then have "x \<in> set (kids (el_parent e))" using forest_parent [OF F e(1)] by simp
      then show ?thesis unfolding pe using p(2) by (cases "el_parent e = p") auto
    qed
  qed
  have some: "\<not> is_dangling x \<and> parent_links ((kids(p := us @ c # vs)) x) e'" if L: "linked_in p c us vs h x = Some e'" for x e'
  proof -
    obtain e where e: "h x = Some e" "e' = link_in p c us vs x e" using L by (auto simp: linked_in_def)
    then show ?thesis using forest_some [OF F e(1)] dist by (auto simp: parent_links_def link_in_def p(2) hd_or_append last_or_append last_or_Cons)
  qed
  show ?thesis unfolding forest_def using child acyc par some forest_none [OF F] p(1) by auto
qed

section \<open>Removing\<close>

lemma prev_in_hd: "distinct (us @ vs) \<Longrightarrow> vs \<noteq> [] \<Longrightarrow> prev_in (us @ vs) (hd_or vs) = last_or us"
  by (cases vs) (auto simp: prev_in_at)

lemma next_in_last: "distinct (us @ vs) \<Longrightarrow> us \<noteq> [] \<Longrightarrow> next_in (us @ vs) (last_or us) = hd_or vs"
  by (cases us rule: rev_cases) (auto simp: next_in_at)

definition link_out :: "node_id \<Rightarrow> node_id \<Rightarrow> node_id list \<Rightarrow> node_id list \<Rightarrow> node_id \<Rightarrow> 'e element \<Rightarrow> 'e element" where
  "link_out p c us vs x e = e\<lparr>
     el_parent := (if x = c then DANGLING else el_parent e),
     el_prev_sibling := (if x = c then DANGLING else if vs \<noteq> [] \<and> x = hd_or vs then last_or us else el_prev_sibling e),
     el_next_sibling := (if x = c then DANGLING else if us \<noteq> [] \<and> x = last_or us then hd_or vs else el_next_sibling e),
     el_first_child := (if x = p \<and> us = [] then hd_or vs else el_first_child e),
     el_last_child := (if x = p \<and> vs = [] then last_or us else el_last_child e)\<rparr>"

definition linked_out :: "node_id \<Rightarrow> node_id \<Rightarrow> node_id list \<Rightarrow> node_id list \<Rightarrow> (node_id \<rightharpoonup> 'e element) \<Rightarrow> (node_id \<rightharpoonup> 'e element)" where
  "linked_out p c us vs h = (\<lambda>x. map_option (link_out p c us vs x) (h x))"

lemma linked_out_None [simp]: "linked_out p c us vs h x = None \<longleftrightarrow> h x = None"
  by (simp add: linked_out_def)

lemma forest_linked_out:
  assumes F: "forest h kids" and p: "kids p = us @ c # vs"
  shows "forest (linked_out p c us vs h) (kids(p := us @ vs))"
proof -
  have live: "h p \<noteq> None" using forest_live_parent [OF F, of c p] by (simp add: p)
  have dist: "distinct (us @ c # vs)" using forest_distinct [OF F, of p] by (simp add: p)
  have one: "c \<in> set (kids q) \<Longrightarrow> q = p" for q using forest_one_parent [OF F, of c q p] by (simp add: p)
  have ends: "us \<noteq> [] \<Longrightarrow> last_or us \<in> set (kids p)" "vs \<noteq> [] \<Longrightarrow> hd_or vs \<in> set (kids p)"
    by (simp_all add: p last_or_in hd_or_in)
  have child: "\<exists>e. linked_out p c us vs h x = Some e \<and> child_links q ((kids(p := us @ vs)) q) x e"
    if x: "x \<in> set ((kids(p := us @ vs)) q)" for q x
  proof -
    have xc: "x \<noteq> c" using x dist one by (auto split: if_splits)
    have xq: "x \<in> set (kids q)" using x by (auto simp: p split: if_splits)
    then obtain e where e: "h x = Some e" "child_links q (kids q) x e" using forest_child [OF F] by blast
    show ?thesis
    proof (cases "q = p")
      case True
      have "prev_in (us @ vs) x = el_prev_sibling (link_out p c us vs x e)"
        "next_in (us @ vs) x = el_next_sibling (link_out p c us vs x e)"
        using e(2) prev_in_insert [OF dist xc] next_in_insert [OF dist xc] xc True x
        dist prev_in_hd [of us vs] next_in_last [of us vs] by (auto simp: child_links_def link_out_def p)
      then show ?thesis using e True xc by (simp add: linked_out_def child_links_def) (simp add: link_out_def)
    next
      case False
      then have xp: "x \<notin> set (kids p)" using xq forest_one_parent [OF F] by blast
      then have "\<not> (us \<noteq> [] \<and> x = last_or us)" "\<not> (vs \<noteq> [] \<and> x = hd_or vs)" using ends by blast+
      then have "child_links q (kids q) x (link_out p c us vs x e)" using e(2) xc by (simp add: child_links_def link_out_def del: de_Morgan_conj)
      then show ?thesis using e(1) False by (simp add: linked_out_def)
    qed
  qed
  have acyc: "acyclic (child_rel (kids(p := us @ vs)))"
    by (rule acyclic_subset [OF forest_acyclic [OF F]]) (auto simp: child_rel_def p split: if_splits)
  have par: "detached e' \<or> x \<in> set ((kids(p := us @ vs)) (el_parent e'))" if L: "linked_out p c us vs h x = Some e'" for x e'
  proof (cases "x = c")
    case True
    then show ?thesis using L by (auto simp: linked_out_def link_out_def detached_def)
  next
    case False
    obtain e where e: "h x = Some e" "e' = link_out p c us vs x e" using L by (auto simp: linked_out_def)
    then have pe: "el_parent e' = el_parent e" using False by (simp add: link_out_def)
    show ?thesis
    proof (cases "detached e")
      case True
      then have "x \<notin> set (kids p)" using forest_detached [OF F e(1)] by simp
      then show ?thesis using True e(2) ends False by (auto simp: detached_def link_out_def)
    next
      case nd: False
      then have "x \<in> set (kids (el_parent e))" using forest_parent [OF F e(1)] by simp
      then show ?thesis unfolding pe using False p by (cases "el_parent e = p") auto
    qed
  qed
  have some: "\<not> is_dangling x \<and> parent_links ((kids(p := us @ vs)) x) e'" if L: "linked_out p c us vs h x = Some e'" for x e'
  proof -
    obtain e where e: "h x = Some e" "e' = link_out p c us vs x e" using L by (auto simp: linked_out_def)
    then show ?thesis using forest_some [OF F e(1)] dist by (auto simp: parent_links_def link_out_def p hd_or_append last_or_append last_or_Cons)
  qed
  show ?thesis unfolding forest_def using child acyc par some forest_none [OF F] live by auto
qed

text \<open>
  The operations of the arena on forests: the link operations are the changes of \<open>Arena_Moves\<close>, the
  loops along siblings and parents end, and freeing a node frees what is below it.
\<close>

section \<open>Link operations\<close>

lemma forest_kids_dangling:
  assumes "forest h kids"
  shows "is_dangling (hd_or (kids p)) \<longleftrightarrow> kids p = []" and "is_dangling (last_or (kids p)) \<longleftrightarrow> kids p = []"
  using forest_not_dangling [OF assms] by (simp_all add: hd_or_dangling last_or_dangling)

lemma get_append_child:
  assumes F: "forest (get_node a) kids" and p: "get_node a p = Some ep" and c: "get_node a c = Some ec" "detached ec" "c \<noteq> p"
  shows "get_node (append_child p c a) = linked_in p c (kids p) [] (get_node a)"
proof (rule ext)
  fix x
  have l: "el_last_child ep = last_or (kids p)" using forest_some [OF F p] by (simp add: parent_links_def)
  show "get_node (append_child p c a) x = linked_in p c (kids p) [] (get_node a) x"
  proof (cases "kids p = []")
    case True
    then show ?thesis using c p l by (cases "get_node a x"; cases "x = c"; cases "x = p")
      (auto simp: append_child_def linked_in_def link_in_def detached_def Let_def map_option.compositionality comp_def option.map_ident)
  next
    case False
    have q: "last_or (kids p) \<in> set (kids p)" using False by (rule last_or_in)
    have qc: "last_or (kids p) \<noteq> c" using q c forest_detached [OF F c(1)] by auto
    have qp: "last_or (kids p) \<noteq> p" using q forest_not_own_child [OF F, of p] by auto
    have nd: "\<not> is_dangling (last_or (kids p))" using forest_kids_dangling [OF F] False by simp
    show ?thesis using c p l nd qc qp False by (cases "get_node a x"; cases "x = c"; cases "x = p"; cases "x = last_or (kids p)")
      (auto simp: append_child_def linked_in_def link_in_def detached_def Let_def map_option.compositionality comp_def option.map_ident)
  qed
qed

lemma forest_before:
  assumes F: "forest h kids" and k: "kids p = us @ b # vs" and b: "h b = Some eb"
  shows "el_prev_sibling eb = last_or us" and "el_next_sibling eb = hd_or vs" and "el_parent eb = p"
    and "is_dangling (last_or us) \<longleftrightarrow> us = []" and "is_dangling (hd_or vs) \<longleftrightarrow> vs = []"
    and "b \<noteq> p" and "us \<noteq> [] \<Longrightarrow> last_or us \<noteq> p \<and> last_or us \<noteq> b" and "vs \<noteq> [] \<Longrightarrow> hd_or vs \<noteq> p \<and> hd_or vs \<noteq> b"
    and "us \<noteq> [] \<Longrightarrow> vs \<noteq> [] \<Longrightarrow> last_or us \<noteq> hd_or vs"
proof -
  have d: "distinct (us @ b # vs)" using forest_distinct [OF F, of p] by (simp add: k)
  have "child_links p (us @ b # vs) b eb" using forest_child [OF F, of b p] b by (auto simp: k)
  then show "el_prev_sibling eb = last_or us" "el_next_sibling eb = hd_or vs" "el_parent eb = p"
    using d by (simp_all add: child_links_def next_in_at prev_in_at)
  show "is_dangling (last_or us) \<longleftrightarrow> us = []" "is_dangling (hd_or vs) \<longleftrightarrow> vs = []"
    using forest_not_dangling [OF F, of _ p] by (simp_all add: last_or_dangling hd_or_dangling k)
  have np: "p \<notin> set (us @ b # vs)" using forest_not_own_child [OF F, of p] by (simp add: k)
  then show "b \<noteq> p" by auto
  show "us \<noteq> [] \<Longrightarrow> last_or us \<noteq> p \<and> last_or us \<noteq> b" using np d last_or_in [of us] by auto
  show "vs \<noteq> [] \<Longrightarrow> hd_or vs \<noteq> p \<and> hd_or vs \<noteq> b" using np d hd_or_in [of vs] by auto
  show "us \<noteq> [] \<Longrightarrow> vs \<noteq> [] \<Longrightarrow> last_or us \<noteq> hd_or vs" using d hd_or_in [of vs] last_or_in [of us] by auto
qed

lemma get_insert_child_before:
  assumes F: "forest (get_node a) kids" and k: "kids p = us @ b # vs" and c: "get_node a c = Some ec" "detached ec" "c \<noteq> p"
  shows "get_node (insert_child_before p c b a) = linked_in p c us (b # vs) (get_node a)"
proof (rule ext)
  fix x
  obtain eb where b: "get_node a b = Some eb" using forest_child [OF F, of b p] by (auto simp: k)
  note B = forest_before [OF F k b]
  have free: "c \<notin> set (us @ b # vs)" using forest_detached [OF F c(1)] c(2) k by metis
  have bc: "b \<noteq> c" using free by auto
  have lc: "us \<noteq> [] \<Longrightarrow> last_or us \<noteq> c" using free last_or_in [of us] by auto
  show "get_node (insert_child_before p c b a) x = linked_in p c us (b # vs) (get_node a) x"
  proof (cases "us = []")
    case True
    then show ?thesis using B(1,4,6) b bc c by (cases "get_node a x"; cases "x = c"; cases "x = p"; cases "x = b")
      (auto simp: insert_child_before_def linked_in_def link_in_def Let_def map_option.compositionality comp_def option.map_ident)
  next
    case False
    then show ?thesis using B(1,4,6) B(7) b bc lc c by (cases "get_node a x"; cases "x = c"; cases "x = p"; cases "x = b"; cases "x = last_or us")
      (auto simp: insert_child_before_def linked_in_def link_in_def Let_def map_option.compositionality comp_def option.map_ident)
  qed
qed

lemma get_remove_child:
  assumes F: "forest (get_node a) kids" and k: "kids p = us @ c # vs"
  shows "get_node (remove_child p c a) = linked_out p c us vs (get_node a)"
proof (rule ext)
  fix x
  obtain ec where c: "get_node a c = Some ec" using forest_child [OF F, of c p] by (auto simp: k)
  note B = forest_before [OF F k c]
  define l where "l = last_or us"
  define r where "r = hd_or vs"
  have L: "el_prev_sibling ec = l" "el_next_sibling ec = r" "is_dangling l \<longleftrightarrow> us = []" "is_dangling r \<longleftrightarrow> vs = []" "c \<noteq> p"
    "us \<noteq> [] \<Longrightarrow> l \<noteq> p \<and> l \<noteq> c" "vs \<noteq> [] \<Longrightarrow> r \<noteq> p \<and> r \<noteq> c" "us \<noteq> [] \<Longrightarrow> vs \<noteq> [] \<Longrightarrow> l \<noteq> r"
    using B by (simp_all add: l_def r_def)
  have out: "linked_out p c us vs (get_node a) x = map_option (\<lambda>e. e\<lparr>
     el_parent := (if x = c then DANGLING else el_parent e),
     el_prev_sibling := (if x = c then DANGLING else if vs \<noteq> [] \<and> x = r then l else el_prev_sibling e),
     el_next_sibling := (if x = c then DANGLING else if us \<noteq> [] \<and> x = l then r else el_next_sibling e),
     el_first_child := (if x = p \<and> us = [] then r else el_first_child e),
     el_last_child := (if x = p \<and> vs = [] then l else el_last_child e)\<rparr>) (get_node a x)"
    unfolding linked_out_def l_def r_def by (rule arg_cong [where f = "\<lambda>f. map_option f (get_node a x)"], rule ext) (simp only: link_out_def)
  have rem: "remove_child p c a = update_node c (\<lambda>e. e\<lparr>el_parent := DANGLING, el_prev_sibling := DANGLING, el_next_sibling := DANGLING\<rparr>)
     ((if vs = [] then update_node p (el_last_child_update (\<lambda>_. l)) else update_node r (el_prev_sibling_update (\<lambda>_. l)))
       ((if us = [] then update_node p (el_first_child_update (\<lambda>_. r)) else update_node l (el_next_sibling_update (\<lambda>_. r))) a))"
    using c L(1-4) by (simp add: remove_child_def)
  show "get_node (remove_child p c a) x = linked_out p c us vs (get_node a) x"
  proof (cases "get_node a x")
    case None
    have "get_node (update_node i f b) x = None \<longleftrightarrow> get_node b x = None" for i f and b :: "'a arena" by simp
    then have "get_node (remove_child p c a) x = None" unfolding rem using None
      by (cases "us = []"; cases "vs = []") (simp_all del: get_update_node)
    then show ?thesis using None unfolding out by simp
  next
    case (Some e)
    then show ?thesis unfolding out rem using L(5-8) c
      by (cases "x = c"; cases "x = p"; cases "us = []"; cases "vs = []"; cases "x = l"; cases "x = r"; simp)
  qed
qed

end
