(* ===== verification/Arena_Loops.thy ===== *)
theory Arena_Loops
  imports Arena_Ops
begin

text \<open>
  The loops of the arena end on a forest: the walk along the siblings lists the children, the walk
  up lists the ancestors, the search for the lowest common ancestor finds it, and freeing a node
  frees exactly the nodes below it.
\<close>

section \<open>The child relation is well-founded\<close>

lemma finite_live: "finite (dom (get_node a))"
proof -
  have "dom (get_node a) \<subseteq> (\<lambda>k. \<lparr>nid_index = of_nat k, nid_generation = slot_generation (ar_nodes a ! k)\<rparr>) ` {..<length (ar_nodes a)}"
  proof
    fix i assume "i \<in> dom (get_node a)"
    then obtain el where "unat (nid_index i) < length (ar_nodes a)" "ar_nodes a ! unat (nid_index i) = Occupied (nid_generation i) el"
      by (auto simp: get_node_Some_iff)
    then show "i \<in> (\<lambda>k. \<lparr>nid_index = of_nat k, nid_generation = slot_generation (ar_nodes a ! k)\<rparr>) ` {..<length (ar_nodes a)}"
      by (intro image_eqI [of _ _ "unat (nid_index i)"]) (cases i, simp_all)
  qed
  then show ?thesis by (rule finite_subset) simp
qed

lemma child_rel_wf:
  assumes F: "forest (get_node a) kids"
  shows "wf (child_rel kids)" and "wf ((child_rel kids)\<inverse>)"
proof -
  have "child_rel kids \<subseteq> dom (get_node a) \<times> dom (get_node a)"
    using forest_child [OF F] forest_live_parent [OF F] unfolding child_rel_def by blast
  then have "finite (child_rel kids)" using finite_live [of a] finite_subset by blast
  then show "wf (child_rel kids)" "wf ((child_rel kids)\<inverse>)"
    using forest_acyclic [OF F] by (simp_all add: finite_acyclic_wf finite_acyclic_wf_converse)
qed

section \<open>Walking along the siblings\<close>

lemma follow_end: "is_dangling i \<Longrightarrow> follow f a i = Some []"
  by (simp add: follow.simps)

lemma follow_step: "\<not> is_dangling i \<Longrightarrow> follow f a i = map_option ((#) i) (follow f a (link_of f a i))"
  by (subst follow.simps) (cases "follow f a (link_of f a i)"; simp)

lemma follow_siblings:
  assumes F: "forest h kids"
  shows "kids p = us @ vs \<Longrightarrow> \<forall>x \<in> set vs. get_node a x = h x \<Longrightarrow> follow el_next_sibling a (hd_or vs) = Some vs"
proof (induction vs arbitrary: us)
  case (Cons v vs)
  obtain e where e: "h v = Some e" using forest_child [OF F, of v p] Cons.prems(1) by auto
  have "\<not> is_dangling v" using forest_not_dangling [OF F, of v p] Cons.prems(1) by simp
  moreover have "link_of el_next_sibling a v = hd_or vs"
    using forest_before(2) [OF F Cons.prems(1) e] Cons.prems(2) e by (simp add: link_of_def)
  ultimately show ?case using Cons.IH [of "us @ [v]"] Cons.prems by (simp add: follow_step)
qed (simp add: follow_end)

lemma children_ok: "forest (get_node a) kids \<Longrightarrow> node_children a p = Some (kids p)"
  using follow_siblings [of "get_node a" kids p "[]" "kids p" a] forest_some [of "get_node a" kids p] forest_none [of "get_node a" kids p]
  by (cases "get_node a p") (auto simp: node_children_def parent_links_def)

section \<open>Walking up\<close>

abbreviation ancestors :: "child_lists \<Rightarrow> node_id \<Rightarrow> node_id set" where
  "ancestors kids c \<equiv> {x. (x, c) \<in> (child_rel kids)\<^sup>*}"

lemma parent_link:
  assumes F: "forest (get_node a) kids" and c: "get_node a c \<noteq> None"
  obtains "is_dangling (link_of el_parent a c)" and "ancestors kids c = {c}"
  | p where "link_of el_parent a c = p" and "(p, c) \<in> child_rel kids" and "get_node a p \<noteq> None"
      and "ancestors kids c = insert c (ancestors kids p)"
proof -
  obtain e where e: "get_node a c = Some e" using c by blast
  show thesis
  proof (cases "detached e")
    case True
    then have "\<forall>p. (p, c) \<notin> child_rel kids" using forest_detached [OF F e] by (simp add: child_rel_def)
    then have "ancestors kids c = {c}" by (auto elim: rtranclE)
    then show thesis using that(1) True e by (simp add: link_of_def detached_def)
  next
    case False
    then have p: "c \<in> set (kids (el_parent e))" using forest_parent [OF F e] by simp
    have "x \<in> ancestors kids c \<longleftrightarrow> x = c \<or> x \<in> ancestors kids (el_parent e)" for x
    proof
      assume "x \<in> ancestors kids c"
      then have "(x, c) \<in> (child_rel kids)\<^sup>*" by simp
      then show "x = c \<or> x \<in> ancestors kids (el_parent e)"
      proof (cases rule: rtranclE)
        case (step y)
        then have "y = el_parent e" using forest_one_parent [OF F _ p] by (simp add: child_rel_def)
        then show ?thesis using step by simp
      qed simp
    next
      assume "x = c \<or> x \<in> ancestors kids (el_parent e)"
      then show "x \<in> ancestors kids c" using p by (auto simp: child_rel_def intro: rtrancl_into_rtrancl)
    qed
    then have "ancestors kids c = insert c (ancestors kids (el_parent e))" by blast
    then show thesis using that(2) p e forest_live_parent [OF F p] by (simp add: link_of_def child_rel_def)
  qed
qed

lemma follow_parents:
  assumes F: "forest (get_node a) kids"
  shows "get_node a c \<noteq> None \<Longrightarrow> \<exists>path. follow el_parent a c = Some path \<and> set path = ancestors kids c"
proof (induction c rule: wf_induct_rule [OF child_rel_wf(1) [OF F]])
  case (1 c)
  have nd: "\<not> is_dangling c" using 1(2) forest_some [OF F] by blast
  from F 1(2) show ?case
  proof (cases rule: parent_link)
    case 1
    then show ?thesis using nd by (intro exI [of _ "[c]"]) (simp add: follow_step follow_end)
  next
    case (2 p)
    then obtain path where "follow el_parent a p = Some path" "set path = ancestors kids p" using 1(1) by blast
    then show ?thesis using 2 nd by (intro exI [of _ "c # path"]) (simp add: follow_step)
  qed
qed

lemma lca_loop_ok:
  assumes F: "forest (get_node a) kids" and path: "set path = ancestors kids b"
  shows "get_node a c \<noteq> None \<Longrightarrow>
    \<exists>x. lca_loop a path root c = Some x \<and>
      (if ancestors kids b \<inter> ancestors kids c = {} then x = root
       else x \<in> ancestors kids b \<inter> ancestors kids c \<and> ancestors kids b \<inter> ancestors kids c \<subseteq> ancestors kids x)"
proof (induction c rule: wf_induct_rule [OF child_rel_wf(1) [OF F]])
  case (1 c)
  have nd: "\<not> is_dangling c" using 1(2) forest_some [OF F] by blast
  show ?case
  proof (cases "c \<in> ancestors kids b")
    case True
    then have "lca_loop a path root c = Some c" using nd path by (simp add: lca_loop.simps)
    then show ?thesis using True by auto
  next
    case False
    then have l: "lca_loop a path root c = lca_loop a path root (link_of el_parent a c)"
      using nd path by (subst lca_loop.simps) simp
    from F 1(2) show ?thesis
    proof (cases rule: parent_link)
      case 1
      then show ?thesis using l False by (simp add: lca_loop.simps)
    next
      case (2 p)
      then have "ancestors kids b \<inter> ancestors kids c = ancestors kids b \<inter> ancestors kids p" using False by (subst 2(4)) (rule Int_insert_right_if0)
      then show ?thesis using 1(1) [OF 2(2,3)] unfolding l 2(1) by (simp only:)
    qed
  qed
qed

section \<open>Freeing a subtree\<close>

abbreviation below :: "child_lists \<Rightarrow> node_id \<Rightarrow> node_id set" where
  "below kids c \<equiv> {x. (c, x) \<in> (child_rel kids)\<^sup>*}"

lemma below_unfold: "below kids c = insert c (\<Union>k \<in> set (kids c). below kids k)"
  by (auto simp: child_rel_def elim: converse_rtranclE intro: converse_rtrancl_into_rtrancl)

text \<open>Two children of one node have nothing below them in common.\<close>

lemma below_disjoint:
  assumes F: "forest h kids" and xy: "x \<in> set (kids p)" "y \<in> set (kids p)" "x \<noteq> y"
  shows "below kids x \<inter> below kids y = {}"
proof -
  let ?R = "child_rel kids"
  have sv: "single_valued (?R\<inverse>)" using forest_one_parent [OF F] by (auto simp: single_valued_def child_rel_def)
  have not_above: "(u, v) \<notin> ?R\<^sup>*" if uv: "u \<in> set (kids p)" "v \<in> set (kids p)" "u \<noteq> v" for u v
  proof
    assume "(u, v) \<in> ?R\<^sup>*"
    then obtain w where w: "(u, w) \<in> ?R\<^sup>*" "(w, v) \<in> ?R" using uv(3) by (auto elim: rtranclE)
    then have "w = p" using forest_one_parent [OF F _ uv(2)] by (simp add: child_rel_def)
    moreover have "(p, u) \<in> ?R" using uv(1) by (simp add: child_rel_def)
    ultimately have "(p, p) \<in> ?R\<^sup>+" using w(1) by (metis rtrancl_into_trancl2)
    then show False using forest_acyclic [OF F] by (simp add: acyclic_def)
  qed
  have False if "(x, z) \<in> ?R\<^sup>*" "(y, z) \<in> ?R\<^sup>*" for z
  proof -
    have "(z, x) \<in> (?R\<inverse>)\<^sup>*" "(z, y) \<in> (?R\<inverse>)\<^sup>*" using that by (simp_all add: rtrancl_converse)
    then have "(x, y) \<in> (?R\<inverse>)\<^sup>* \<or> (y, x) \<in> (?R\<inverse>)\<^sup>*" by (rule single_valued_confluent [OF sv])
    then show False using not_above [OF xy(1,2)] not_above [OF xy(2,1)] xy(3) by (auto simp: rtrancl_converse)
  qed
  then show ?thesis by blast
qed

lemma dealloc_loop_Cons: "dealloc_loop (c # st) a = node_children a c \<bind> (\<lambda>kids. dealloc_loop (rev kids @ st) (arena_dealloc c a))"
  by (simp add: dealloc_loop.simps)

definition freed :: "node_id set \<Rightarrow> 'e arena \<Rightarrow> 'e arena \<Rightarrow> bool" where
  "freed D a a' \<longleftrightarrow> get_node a' = (\<lambda>x. if x \<in> D then None else get_node a x) \<and> (arena_wf a \<longrightarrow> arena_wf a')"

lemma freed_trans: "freed D a b \<Longrightarrow> freed E b c \<Longrightarrow> freed (D \<union> E) a c"
  by (auto simp: freed_def fun_eq_iff)

lemma freed_one: "freed {c} a (arena_dealloc c a)"
  by (auto simp: freed_def)

lemma dealloc_list:
  assumes each: "\<And>k st a. k \<in> set ks \<Longrightarrow> \<forall>x \<in> below kids k. get_node a x = h x \<Longrightarrow>
      \<exists>a'. dealloc_loop (k # st) a = dealloc_loop st a' \<and> freed (below kids k) a a'"
    and dist: "distinct ks" and disj: "\<And>x y. x \<in> set ks \<Longrightarrow> y \<in> set ks \<Longrightarrow> x \<noteq> y \<Longrightarrow> below kids x \<inter> below kids y = {}"
    and intact: "\<forall>k \<in> set ks. \<forall>x \<in> below kids k. get_node a x = h x"
  shows "\<exists>a'. dealloc_loop (ks @ st) a = dealloc_loop st a' \<and> freed (\<Union>k \<in> set ks. below kids k) a a'"
  using assms
proof (induction ks arbitrary: a)
  case Nil
  then show ?case by (auto simp: freed_def)
next
  case (Cons k ks)
  obtain b where b: "dealloc_loop (k # ks @ st) a = dealloc_loop (ks @ st) b" "freed (below kids k) a b"
    using Cons.prems(1) [of k a "ks @ st"] Cons.prems(4) by auto
  have "\<forall>j \<in> set ks. \<forall>x \<in> below kids j. get_node b x = h x"
  proof (intro ballI)
    fix j x assume j: "j \<in> set ks" "x \<in> below kids j"
    then have "x \<notin> below kids k" using Cons.prems(3) [of j k] Cons.prems(2) by auto
    then show "get_node b x = h x" using b(2) Cons.prems(4) j by (simp add: freed_def)
  qed
  moreover have "distinct ks" using Cons.prems(2) by simp
  ultimately have "\<exists>a'. dealloc_loop (ks @ st) b = dealloc_loop st a' \<and> freed (\<Union>k \<in> set ks. below kids k) b a'"
    by (intro Cons.IH Cons.prems(1,3)) auto
  then obtain a' where a': "dealloc_loop (ks @ st) b = dealloc_loop st a'" "freed (\<Union>k \<in> set ks. below kids k) b a'" by blast
  show ?case using b(1) a'(1) freed_trans [OF b(2) a'(2)] by auto
qed

lemma dealloc_loop_below:
  fixes a0 :: "'e arena"
  assumes F: "forest (get_node a0) kids"
  shows "\<forall>x \<in> below kids c. get_node a x = get_node a0 x \<Longrightarrow>
    \<exists>a'. dealloc_loop (c # st) a = dealloc_loop st a' \<and> freed (below kids c) a a'"
proof (induction c arbitrary: a st rule: wf_induct_rule [OF child_rel_wf(2) [OF F]])
  case (1 c)
  have same: "get_node a c = get_node a0 c" using 1(2) by simp
  have kid: "\<forall>x \<in> set (kids c). get_node a x = get_node a0 x" using 1(2) below_unfold [of c kids] by auto
  have walk: "node_children a c = Some (kids c)"
  proof (cases "get_node a0 c")
    case None
    then show ?thesis using same forest_none [OF F None] by (simp add: node_children_def)
  next
    case (Some e)
    then show ?thesis using same follow_siblings [OF F, of c "[]" "kids c" a] kid forest_some [OF F Some]
      by (simp add: node_children_def parent_links_def)
  qed
  have notc: "c \<notin> below kids k" if "k \<in> set (kids c)" for k
  proof
    assume "c \<in> below kids k"
    then have "(c, c) \<in> (child_rel kids)\<^sup>+" using that by (auto simp: child_rel_def intro: rtrancl_into_trancl2)
    then show False using forest_acyclic [OF F] by (simp add: acyclic_def)
  qed
  have "\<exists>a'. dealloc_loop (rev (kids c) @ st) (arena_dealloc c a) = dealloc_loop st a' \<and>
      freed (\<Union>k \<in> set (rev (kids c)). below kids k) (arena_dealloc c a) a'"
  proof (rule dealloc_list [where h = "get_node a0"])
    fix k st and b :: "'e arena" assume k: "k \<in> set (rev (kids c))" and b: "\<forall>x \<in> below kids k. get_node b x = get_node a0 x"
    show "\<exists>a'. dealloc_loop (k # st) b = dealloc_loop st a' \<and> freed (below kids k) b a'"
      by (rule 1(1) [OF _ b]) (use k in \<open>simp add: child_rel_def\<close>)
  next
    show "\<forall>k \<in> set (rev (kids c)). \<forall>x \<in> below kids k. get_node (arena_dealloc c a) x = get_node a0 x"
    proof (intro ballI)
      fix k x assume k: "k \<in> set (rev (kids c))" and x: "x \<in> below kids k"
      then have "x \<noteq> c" using notc [of k] by auto
      moreover have "x \<in> below kids c" using k x below_unfold [of c kids] by auto
      ultimately show "get_node (arena_dealloc c a) x = get_node a0 x" using 1(2) by simp
    qed
  qed (use below_disjoint [OF F] forest_distinct [OF F, of c] in auto)
  then obtain a' where "dealloc_loop (rev (kids c) @ st) (arena_dealloc c a) = dealloc_loop st a'"
    "freed (\<Union>k \<in> set (kids c). below kids k) (arena_dealloc c a) a'" by auto
  then show ?case
    using freed_trans [OF freed_one [of c a], of "\<Union>k \<in> set (kids c). below kids k" a'] below_unfold [of c kids] walk
    by (intro exI [of _ a']) (simp add: dealloc_loop_Cons)
qed

end
