(* ===== verification/Arena_Props.thy ===== *)
theory Arena_Props
  imports Arena_Loops
begin

text \<open>
  Programs of arena operations. \<open>arena_reach a kids\<close> says that \<open>a\<close> comes from the empty arena by
  operations as the framework calls them (new nodes have no links, only a node without a parent is
  put under one, never under itself or what is below it), and that \<open>kids\<close> are the child lists these
  operations stand for.
\<close>

section \<open>Reachable arenas\<close>

inductive arena_reach :: "'e arena \<Rightarrow> child_lists \<Rightarrow> bool" where
  empty: "arena_reach arena_new (\<lambda>_. [])"
| alloc: "arena_reach a kids \<Longrightarrow> has_room a \<Longrightarrow> arena_alloc (element_new x) a = Some (i, a') \<Longrightarrow> arena_reach a' kids"
| store: "arena_reach a kids \<Longrightarrow> arena_reach (update_node i (el_data_update f) a) kids"
| append: "arena_reach a kids \<Longrightarrow> get_node a p \<noteq> None \<Longrightarrow> get_node a c = Some e \<Longrightarrow> detached e \<Longrightarrow>
    p \<notin> below kids c \<Longrightarrow> arena_reach (append_child p c a) (kids(p := kids p @ [c]))"
| insert: "arena_reach a kids \<Longrightarrow> kids p = us @ b # vs \<Longrightarrow> get_node a c = Some e \<Longrightarrow> detached e \<Longrightarrow>
    p \<notin> below kids c \<Longrightarrow> arena_reach (insert_child_before p c b a) (kids(p := us @ c # b # vs))"
| remove: "arena_reach a kids \<Longrightarrow> c \<in> set (kids p) \<Longrightarrow> arena_reach (remove_child p c a) (kids(p := remove1 c (kids p)))"
| free: "arena_reach a kids \<Longrightarrow> get_node a r = Some e \<Longrightarrow> detached e \<Longrightarrow> arena_dealloc_subtree r a = Some a' \<Longrightarrow>
    arena_reach a' (\<lambda>p. if p \<in> below kids r then [] else kids p)"

lemma link_ops_wf [simp]:
  "arena_wf a \<Longrightarrow> arena_wf (append_child p c a)"
  "arena_wf a \<Longrightarrow> arena_wf (insert_child_before p c b a)"
  "arena_wf a \<Longrightarrow> arena_wf (remove_child p c a)"
  by (simp_all add: append_child_def insert_child_before_def remove_child_def Let_def split: option.split)

lemma forest_new: "forest (\<lambda>_. None) (\<lambda>_. [])"
  by (simp add: forest_def child_rel_def acyclic_def)

lemma forest_alloc:
  assumes F: "forest h kids" and i: "h i = None" "\<not> is_dangling i"
  shows "forest (h(i \<mapsto> element_new x)) kids"
proof -
  have k: "kids i = []" using forest_none [OF F i(1)] .
  have "i \<notin> set (kids p)" for p using forest_child [OF F, of i p] i(1) by auto
  moreover have "parent_links [] (element_new x)" "detached (element_new x)"
    by (simp_all add: parent_links_def detached_def element_new_def)
  ultimately show ?thesis using F i k unfolding forest_def by (auto split: if_splits)
qed

lemma forest_store:
  assumes F: "forest (get_node a) kids"
  shows "forest (get_node (update_node i (el_data_update f) a)) kids"
proof -
  let ?u = "el_data_update f :: 'a element \<Rightarrow> 'a element"
  have s: "parent_links xs (?u e) = parent_links xs e" "child_links p xs c (?u e) = child_links p xs c e"
    "detached (?u e) = detached e" "el_parent (?u e) = el_parent e" for xs p c e
    by (simp_all add: parent_links_def child_links_def detached_def)
  show ?thesis unfolding forest_def
  proof (intro conjI allI impI)
    fix p assume "get_node (update_node i ?u a) p = None"
    then show "kids p = []" using forest_none [OF F, of p] by (auto split: if_splits)
  next
    fix p e assume "get_node (update_node i ?u a) p = Some e"
    then obtain e0 where "get_node a p = Some e0" "parent_links (kids p) e = parent_links (kids p) e0" by (auto simp: s split: if_splits)
    then show "\<not> is_dangling p" "parent_links (kids p) e" using forest_some [OF F] by auto
  next
    fix p c assume "c \<in> set (kids p)"
    then show "\<exists>e. get_node (update_node i ?u a) c = Some e \<and> child_links p (kids p) c e"
      using forest_child [OF F, of c p] by (cases "c = i") (auto simp: s)
  next
    fix c e assume "get_node (update_node i ?u a) c = Some e"
    then obtain e0 where "get_node a c = Some e0" "detached e = detached e0" "el_parent e = el_parent e0" by (auto simp: s split: if_splits)
    then show "detached e \<or> c \<in> set (kids (el_parent e))" using forest_parent [OF F, of c e0] by simp
  qed (rule forest_acyclic [OF F])
qed

lemma forest_free:
  assumes F: "forest h kids" and r: "h r = Some e" "detached e"
  shows "forest (\<lambda>x. if x \<in> below kids r then None else h x) (\<lambda>p. if p \<in> below kids r then [] else kids p)"
proof -
  have sep: "x \<in> below kids r \<longleftrightarrow> p \<in> below kids r" if x: "x \<in> set (kids p)" for x p
  proof
    assume "x \<in> below kids r"
    moreover have "x \<noteq> r" using forest_detached [OF F r(1)] r(2) x by auto
    ultimately obtain y where y: "(r, y) \<in> (child_rel kids)\<^sup>*" "(y, x) \<in> child_rel kids" by (auto elim: rtranclE)
    then have "y = p" using forest_one_parent [OF F _ x] by (simp add: child_rel_def)
    then show "p \<in> below kids r" using y by simp
  next
    assume "p \<in> below kids r"
    then show "x \<in> below kids r" using x by (auto simp: child_rel_def intro: rtrancl_into_rtrancl)
  qed
  have "acyclic (child_rel (\<lambda>p. if p \<in> below kids r then [] else kids p))"
    by (rule acyclic_subset [OF forest_acyclic [OF F]]) (auto simp: child_rel_def split: if_splits)
  moreover have "detached e' \<or> c \<in> set (if el_parent e' \<in> below kids r then [] else kids (el_parent e'))"
    if "h c = Some e'" "c \<notin> below kids r" for c e'
    using forest_parent [OF F that(1)] sep [of c "el_parent e'"] that(2) by auto
  ultimately show ?thesis using sep forest_none [OF F] forest_some [OF F] forest_child [OF F] unfolding forest_def
    by (auto split: if_splits)
qed

lemma dealloc_subtree_ok:
  assumes F: "forest (get_node a) kids" and r: "get_node a r \<noteq> None"
  shows "\<exists>a'. arena_dealloc_subtree r a = Some a' \<and> freed (below kids r) a a'"
proof -
  obtain a' where "dealloc_loop [r] a = dealloc_loop [] a'" "freed (below kids r) a a'"
    using dealloc_loop_below [OF F, of r a "[]"] by auto
  then show ?thesis using r forest_some [OF F] by (auto simp: arena_dealloc_subtree_def dealloc_loop.simps)
qed

lemma reach_ok: "arena_reach a kids \<Longrightarrow> arena_wf a \<and> forest (get_node a) kids"
proof (induction rule: arena_reach.induct)
  case empty
  then show ?case by (simp add: forest_new)
next
  case (alloc a kids x i a')
  obtain j b where j: "arena_alloc (element_new x) a = Some (j, b)" "arena_wf b" "get_node a j = None" "\<not> is_dangling j"
    "get_node b = (get_node a)(j \<mapsto> element_new x)"
    by (rule alloc_ok [of a "element_new x"]) (use alloc in auto)
  have "a' = b" using j(1) alloc.hyps by simp
  moreover have "forest (get_node b) kids" unfolding j(5) by (rule forest_alloc) (use alloc.IH j in auto)
  ultimately show ?case using j(2) by blast
next
  case (store a kids i f)
  then have "forest (get_node (update_node i (el_data_update f) a)) kids" using forest_store by blast
  then show ?case using store.IH update_node_wf by blast
next
  case (append a kids p c e)
  have cp: "c \<noteq> p" using append.hyps by auto
  obtain ep where ep: "get_node a p = Some ep" using append.hyps by blast
  have F: "forest (get_node a) kids" using append.IH by simp
  have "forest (linked_in p c (kids p) [] (get_node a)) (kids(p := kids p @ [c]))"
    by (rule forest_linked_in [OF F]) (use append.hyps in auto)
  then show ?case using append.IH get_append_child [OF F ep append.hyps(3,4) cp] link_ops_wf(1) by metis
next
  case (insert a kids p us b vs c e)
  have cp: "c \<noteq> p" using insert.hyps by auto
  have F: "forest (get_node a) kids" using insert.IH by simp
  have live: "get_node a p \<noteq> None" using forest_live_parent [OF F, of b p] insert.hyps by simp
  have "forest (linked_in p c us (b # vs) (get_node a)) (kids(p := us @ c # b # vs))"
    by (rule forest_linked_in [OF F live]) (use insert.hyps in auto)
  then show ?case using insert.IH get_insert_child_before [OF F insert.hyps(2,3,4) cp] link_ops_wf(2) by metis
next
  case (remove a kids c p)
  have F: "forest (get_node a) kids" using remove.IH by simp
  obtain us vs where k: "kids p = us @ c # vs" "c \<notin> set us" using remove.hyps(2) by (meson split_list_first)
  have "remove1 c (kids p) = us @ vs" using k by (simp add: remove1_append)
  then show ?case using remove.IH forest_linked_out [OF F k(1)] get_remove_child [OF F k(1)] link_ops_wf(3) by metis
next
  case (free a kids r e a')
  have F: "forest (get_node a) kids" using free.IH by simp
  obtain b where "arena_dealloc_subtree r a = Some b" "freed (below kids r) a b"
    using dealloc_subtree_ok [OF F, of r] free.hyps(2) by auto
  then show ?case using free.IH free.hyps forest_free [OF F free.hyps(2,3)] by (simp add: freed_def)
qed

section \<open>An example\<close>

lemma alloc_length: "arena_alloc el a = Some (i, a') \<Longrightarrow> length (ar_nodes a') \<le> Suc (length (ar_nodes a))"
  by (auto simp: arena_alloc_def Let_def split: if_splits slot.splits Option.bind_splits)

lemma reach_alloc:
  assumes "arena_reach a kids" and "length (ar_nodes a) < 100"
  obtains i a' where "arena_reach a' kids" and "length (ar_nodes a') \<le> Suc (length (ar_nodes a))" and "get_node a i = None"
    and "get_node a' = (get_node a)(i \<mapsto> element_new x)"
proof -
  have "arena_wf a" "has_room a" using reach_ok [OF assms(1)] assms(2) by (simp_all add: has_room_def)
  then obtain i a' where "arena_alloc (element_new x) a = Some (i, a')" "get_node a i = None" "get_node a' = (get_node a)(i \<mapsto> element_new x)"
    by (rule alloc_ok) blast
  then show thesis using that arena_reach.alloc [OF assms(1) \<open>has_room a\<close>] alloc_length by metis
qed

text \<open>A node with two children.\<close>

lemma demo_tree:
  obtains a :: "unit arena" and kids r x y where "arena_reach a kids" and "kids r = [x, y]" and "kids x = []" and "kids y = []"
    and "get_node a r \<noteq> None" and "get_node a x \<noteq> None" and "get_node a y \<noteq> None"
proof -
  obtain a1 :: "unit arena" and r where 1: "arena_reach a1 (\<lambda>_. [])" "length (ar_nodes a1) \<le> Suc 0"
    "get_node a1 = (get_node arena_new)(r \<mapsto> element_new ())"
    by (rule reach_alloc [OF arena_reach.empty]) (simp_all add: arena_new_def)
  obtain a2 :: "unit arena" and x where 2: "arena_reach a2 (\<lambda>_. [])" "length (ar_nodes a2) \<le> Suc (length (ar_nodes a1))"
    "get_node a1 x = None" "get_node a2 = (get_node a1)(x \<mapsto> element_new ())"
    by (rule reach_alloc [OF 1(1)]) (use 1(2) in simp_all)
  obtain a3 :: "unit arena" and y where 3: "arena_reach a3 (\<lambda>_. [])" "get_node a2 y = None" "get_node a3 = (get_node a2)(y \<mapsto> element_new ())"
    by (rule reach_alloc [OF 2(1)]) (use 1(2) 2(2) in simp_all)
  have ne: "x \<noteq> r" "y \<noteq> r" "y \<noteq> x" using 1 2 3 by (auto split: if_splits)
  have det: "detached (element_new ())" by (simp add: detached_def element_new_def)
  have g3: "get_node a3 r = Some (element_new ())" "get_node a3 x = Some (element_new ())" "get_node a3 y = Some (element_new ())"
    using 1(3) 2(4) 3(3) ne by auto
  let ?k1 = "(\<lambda>_. [])(r := [] @ [x]) :: child_lists"
  have 4: "arena_reach (append_child r x a3) ?k1"
    by (rule arena_reach.append [OF 3(1) _ g3(2) det]) (use g3 below_unfold [of x "\<lambda>_. []"] ne in auto)
  have F3: "forest (get_node a3) (\<lambda>_. [])" using reach_ok [OF 3(1)] by simp
  have g4: "get_node (append_child r x a3) = linked_in r x [] [] (get_node a3)"
    using get_append_child [OF F3 g3(1,2) det ne(1)] by simp
  have y4: "get_node (append_child r x a3) y = Some (element_new ())"
    using g4 g3 ne by (simp add: linked_in_def link_in_def element_new_def)
  have 5: "arena_reach (append_child r y (append_child r x a3)) (?k1(r := ?k1 r @ [y]))"
    by (rule arena_reach.append [OF 4 _ y4 det]) (use g4 g3 below_unfold [of y ?k1] ne in auto)
  have F5: "forest (get_node (append_child r y (append_child r x a3))) (?k1(r := ?k1 r @ [y]))" using reach_ok [OF 5] by simp
  show thesis
  proof (rule that [OF 5])
    show "(?k1(r := ?k1 r @ [y])) r = [x, y]" "(?k1(r := ?k1 r @ [y])) x = []" "(?k1(r := ?k1 r @ [y])) y = []" using ne by simp_all
    show "get_node (append_child r y (append_child r x a3)) r \<noteq> None"
      by (rule forest_live_parent [OF F5, of x r]) simp
    show "get_node (append_child r y (append_child r x a3)) x \<noteq> None" "get_node (append_child r y (append_child r x a3)) y \<noteq> None"
      using forest_child [OF F5, of x r] forest_child [OF F5, of y r] by auto
  qed
qed

section \<open>Properties\<close>

text \<open>C29: The links implement lists of children: in every arena that the operations reach, walking along the
  siblings returns and gives the list that appending, inserting before, removing and freeing stand for, without
  repetition, and a node is in the list of another exactly if that is its parent.\<close>

theorem children_refine_lists:
  assumes "arena_reach a kids"
  shows "node_children a p = Some (kids p) \<and> distinct (kids p) \<and>
    (c \<in> set (kids p) \<longleftrightarrow> get_node a p \<noteq> None \<and> (\<exists>e. get_node a c = Some e \<and> el_parent e = p))"
proof -
  have F: "forest (get_node a) kids" using reach_ok [OF assms] by simp
  have "c \<in> set (kids p) \<longleftrightarrow> get_node a p \<noteq> None \<and> (\<exists>e. get_node a c = Some e \<and> el_parent e = p)"
    using forest_parent_iff [OF F, of c] forest_child [OF F, of c p] by (cases "get_node a c") auto
  then show ?thesis using children_ok [OF F] forest_distinct [OF F] by blast
qed

theorem children_refine_lists_witness:
  "\<exists>(a :: unit arena) r x y. node_children a r = Some [x, y] \<and> (\<exists>e. get_node a y = Some e \<and> el_parent e = r)"
proof (rule demo_tree)
  fix a :: "unit arena" and kids r x y assume "arena_reach a kids" "kids r = [x, y]"
  then have "node_children a r = Some [x, y]" "\<exists>e. get_node a y = Some e \<and> el_parent e = r"
    using children_refine_lists [of a kids r y] by simp_all
  then show ?thesis by blast
qed

text \<open>C30: Freeing a subtree ends, whatever the shape of the tree, and frees the node and every node below it and
  nothing else.\<close>

theorem freeing_a_subtree_ends:
  assumes "arena_reach a kids" and "get_node a r \<noteq> None"
  shows "\<exists>a'. arena_dealloc_subtree r a = Some a' \<and> arena_wf a' \<and>
    (\<forall>x. get_node a' x = (if (r, x) \<in> (child_rel kids)\<^sup>* then None else get_node a x))"
  using dealloc_subtree_ok [of a kids r] reach_ok [OF assms(1)] assms(2) by (auto simp: freed_def)

theorem freeing_a_subtree_ends_witness:
  "\<exists>(a :: unit arena) a' r x. get_node a x \<noteq> None \<and> arena_dealloc_subtree r a = Some a' \<and> get_node a' x = None"
proof (rule demo_tree)
  fix a :: "unit arena" and kids r x y assume a: "arena_reach a kids" "kids r = [x, y]" "get_node a r \<noteq> None" "get_node a x \<noteq> None"
  have "(r, x) \<in> (child_rel kids)\<^sup>*" using a(2) by (auto simp: child_rel_def)
  then obtain a' where "arena_dealloc_subtree r a = Some a'" "get_node a' x = None"
    using freeing_a_subtree_ends [OF a(1,3)] by auto
  then show ?thesis using a(4) by blast
qed

text \<open>The search for the lowest common ancestor ends; for two nodes with a common ancestor it gives one that
  every common ancestor is an ancestor of, and for nodes of different trees the given root.\<close>

theorem lowest_common_ancestor_is_lowest:
  assumes "arena_reach a kids" and "get_node a u \<noteq> None" and "get_node a v \<noteq> None"
  shows "\<exists>x. lowest_common_ancestor a u v root = Some x \<and>
    (if ancestors kids u \<inter> ancestors kids v = {} then x = root
     else x \<in> ancestors kids u \<inter> ancestors kids v \<and> ancestors kids u \<inter> ancestors kids v \<subseteq> ancestors kids x)"
proof (cases "u = v")
  case True
  then show ?thesis using assms(2) by (auto simp: lowest_common_ancestor_def)
next
  case False
  have F: "forest (get_node a) kids" using reach_ok [OF assms(1)] by simp
  obtain path where p: "follow el_parent a u = Some path" "set path = ancestors kids u" using follow_parents [OF F assms(2)] by blast
  have "lowest_common_ancestor a u v root = lca_loop a path root v"
    using False assms(2,3) forest_some [OF F] p(1) by (auto simp: lowest_common_ancestor_def)
  then show ?thesis using lca_loop_ok [OF F p(2) assms(3), of root] by simp
qed

theorem lowest_common_ancestor_is_lowest_witness:
  "\<exists>(a :: unit arena) r x y. r \<noteq> x \<and> lowest_common_ancestor a x y DANGLING = Some r"
proof (rule demo_tree)
  fix a :: "unit arena" and kids r x y assume a: "arena_reach a kids" "kids r = [x, y]" "kids x = []" "kids y = []"
    "get_node a x \<noteq> None" "get_node a y \<noteq> None"
  have F: "forest (get_node a) kids" using reach_ok [OF a(1)] by simp
  have k: "x \<in> set (kids r)" "y \<in> set (kids r)" "x \<noteq> y" "r \<noteq> x" using a(2,3) forest_distinct [OF F, of r] by auto
  have "r \<in> ancestors kids x \<inter> ancestors kids y" using k by (auto simp: child_rel_def)
  then obtain z where z: "lowest_common_ancestor a x y DANGLING = Some z" "z \<in> ancestors kids x \<inter> ancestors kids y" "r \<in> ancestors kids z"
    using lowest_common_ancestor_is_lowest [OF a(1,5,6), of DANGLING] by (auto split: if_splits)
  have "z \<noteq> x" "z \<noteq> y" using z(2) below_unfold [of x kids] below_unfold [of y kids] a(3,4) k(3) by auto
  then have "(z, r) \<in> (child_rel kids)\<^sup>*"
    using z(2) forest_one_parent [OF F _ k(1)] by (auto simp: child_rel_def elim: rtranclE)
  then have "z = r" using z(3) forest_acyclic [OF F] by (metis acyclic_def mem_Collect_eq rtranclD trancl_rtrancl_trancl)
  then show ?thesis using z(1) k(4) by blast
qed

text \<open>When one of two nodes is gone the result is the other, not the root.\<close>

lemma lowest_common_ancestor_of_stale: "get_node a u = None \<Longrightarrow> get_node a v \<noteq> None \<Longrightarrow> \<not> is_dangling v \<Longrightarrow>
    lowest_common_ancestor a u v root = Some v"
  by (auto simp: lowest_common_ancestor_def)

end
