(* ===== verification/Keys.thy ===== *)
theory Keys
  imports Rust_Parse Arena "HOL-Library.AList"
begin

text \<open>
  Keys and shortcuts of the user-interface framework: the keys and modifiers of event.rs with their
  names, key combos, shortcuts, conditions and the registry of unshit-core/src/shortcut.rs, and the
  resolver of unshit-app/src/shortcut.rs, which turns key presses into commands. Strings are lists
  of code points, an error is its message. The hash maps are association lists; a point in time is a
  number of milliseconds.
\<close>

section \<open>Characters\<close>

definition ascii_lower :: "rchar \<Rightarrow> rchar" where
  "ascii_lower c = (if 65 \<le> c \<and> c \<le> 90 then c + 32 else c)"

definition ascii_upper :: "rchar \<Rightarrow> rchar" where
  "ascii_upper c = (if 97 \<le> c \<and> c \<le> 122 then c - 32 else c)"

text \<open>\<open>str::parse::<u8>\<close>: an optional plus sign and at least one digit, within range.\<close>

definition parse_u8 :: "rstr \<Rightarrow> u8 option" where
  "parse_u8 s =
     (let ds = (case s of c # cs \<Rightarrow> if c = 43 then cs else s | [] \<Rightarrow> [])
      in if ds = [] then None
         else case digits_value 0 ds of
                None \<Rightarrow> None
              | Some n \<Rightarrow> if n < 2 ^ 8 then Some (of_nat n) else None)"

section \<open>Keys and modifiers\<close>

datatype key = KChar rchar | KEnter | KEscape | KBackspace | KTab | KSpace | KUp | KDown | KLeft | KRight
  | KHome | KEnd | KPageUp | KPageDown | KDelete | KInsert | KF u8 | KUnknown

text \<open>The flags of the bit set \<open>Modifiers\<close>.\<close>

record modifiers =
  m_shift :: bool
  m_ctrl :: bool
  m_alt :: bool
  m_meta :: bool

definition mods_empty :: modifiers where
  "mods_empty = \<lparr>m_shift = False, m_ctrl = False, m_alt = False, m_meta = False\<rparr>"

definition mods_union :: "modifiers \<Rightarrow> modifiers \<Rightarrow> modifiers" where
  "mods_union a b = \<lparr>m_shift = m_shift a \<or> m_shift b, m_ctrl = m_ctrl a \<or> m_ctrl b,
     m_alt = m_alt a \<or> m_alt b, m_meta = m_meta a \<or> m_meta b\<rparr>"

text \<open>The last arm of \<open>Key::from_name\<close>: a function key, else a single character.\<close>

definition key_from_rest :: "rstr \<Rightarrow> key option" where
  "key_from_rest other =
     (case (case strip_prefix [102] other of
              Some n_str \<Rightarrow> (case parse_u8 n_str of
                  Some n \<Rightarrow> if 1 \<le> n \<and> n \<le> 12 then Some (KF n) else None | None \<Rightarrow> None)
            | None \<Rightarrow> None) of
        Some k \<Rightarrow> Some k
      | None \<Rightarrow> (case other of [c] \<Rightarrow> Some (KChar (ascii_lower c)) | _ \<Rightarrow> None))"

definition key_names :: "(rstr \<times> key) list" where
  "key_names = [(str_lit ''enter'', KEnter), (str_lit ''escape'', KEscape), (str_lit ''esc'', KEscape),
     (str_lit ''backspace'', KBackspace), (str_lit ''tab'', KTab), (str_lit ''space'', KSpace),
     (str_lit ''up'', KUp), (str_lit ''arrowup'', KUp), (str_lit ''down'', KDown), (str_lit ''arrowdown'', KDown),
     (str_lit ''left'', KLeft), (str_lit ''arrowleft'', KLeft), (str_lit ''right'', KRight), (str_lit ''arrowright'', KRight),
     (str_lit ''home'', KHome), (str_lit ''end'', KEnd), (str_lit ''pageup'', KPageUp), (str_lit ''pagedown'', KPageDown),
     (str_lit ''delete'', KDelete), (str_lit ''del'', KDelete), (str_lit ''insert'', KInsert), (str_lit ''ins'', KInsert)]"

definition key_from_name :: "rstr \<Rightarrow> key option" where
  "key_from_name s = (let lower = to_ascii_lowercase (trim s)
     in case map_of key_names lower of Some k \<Rightarrow> Some k | None \<Rightarrow> key_from_rest lower)"

fun show_key :: "key \<Rightarrow> rstr" where
  "show_key (KChar c) = [ascii_upper c]"
| "show_key KEnter = str_lit ''Enter''"
| "show_key KEscape = str_lit ''Escape''"
| "show_key KBackspace = str_lit ''Backspace''"
| "show_key KTab = str_lit ''Tab''"
| "show_key KSpace = str_lit ''Space''"
| "show_key KUp = str_lit ''Up''"
| "show_key KDown = str_lit ''Down''"
| "show_key KLeft = str_lit ''Left''"
| "show_key KRight = str_lit ''Right''"
| "show_key KHome = str_lit ''Home''"
| "show_key KEnd = str_lit ''End''"
| "show_key KPageUp = str_lit ''PageUp''"
| "show_key KPageDown = str_lit ''PageDown''"
| "show_key KDelete = str_lit ''Delete''"
| "show_key KInsert = str_lit ''Insert''"
| "show_key (KF n) = 70 # show_nat (unat n)"
| "show_key KUnknown = str_lit ''Unknown''"

definition modifier_from_name :: "rstr \<Rightarrow> modifiers option" where
  "modifier_from_name s = (let n = to_ascii_lowercase (trim s) in
     if n = str_lit ''ctrl'' \<or> n = str_lit ''control'' then Some (mods_empty\<lparr>m_ctrl := True\<rparr>)
     else if n = str_lit ''shift'' then Some (mods_empty\<lparr>m_shift := True\<rparr>)
     else if n = str_lit ''alt'' then Some (mods_empty\<lparr>m_alt := True\<rparr>)
     else if n \<in> set [str_lit ''meta'', str_lit ''super'', str_lit ''cmd'', str_lit ''command''] then Some (mods_empty\<lparr>m_meta := True\<rparr>)
     else None)"

definition show_modifiers :: "modifiers \<Rightarrow> rstr" where
  "show_modifiers m = (if m_ctrl m then str_lit ''Ctrl+'' else []) @ (if m_alt m then str_lit ''Alt+'' else []) @
     (if m_shift m then str_lit ''Shift+'' else []) @ (if m_meta m then str_lit ''Meta+'' else [])"

section \<open>Combos and shortcuts\<close>

record key_combo =
  kc_key :: key
  kc_modifiers :: modifiers

definition combo_plain :: "key \<Rightarrow> key_combo" where
  "combo_plain k = \<lparr>kc_key = k, kc_modifiers = mods_empty\<rparr>"

text \<open>\<open>macos\<close> is the target of the build.\<close>

definition combo_command :: "bool \<Rightarrow> key \<Rightarrow> key_combo" where
  "combo_command macos k = \<lparr>kc_key = k, kc_modifiers =
     (if macos then mods_empty\<lparr>m_meta := True\<rparr> else mods_empty\<lparr>m_ctrl := True\<rparr>)\<rparr>"

fun parse_modifiers :: "modifiers \<Rightarrow> rstr list \<Rightarrow> rstr + modifiers" where
  "parse_modifiers m [] = Inr m"
| "parse_modifiers m (part # parts) = (case modifier_from_name (trim part) of
     None \<Rightarrow> Inl (str_lit ''unknown modifier: '' @ trim part)
   | Some x \<Rightarrow> parse_modifiers (mods_union m x) parts)"

definition combo_parse :: "rstr \<Rightarrow> rstr + key_combo" where
  "combo_parse s0 = (let s = trim s0 in
     if s = [] then Inl (str_lit ''empty key combo'')
     else let parts = split_char 43 s; key_str = trim (last parts) in
       case key_from_name key_str of
         None \<Rightarrow> Inl (str_lit ''unknown key: '' @ key_str)
       | Some k \<Rightarrow> (case parse_modifiers mods_empty (butlast parts) of
           Inl e \<Rightarrow> Inl e
         | Inr m \<Rightarrow> Inr \<lparr>kc_key = k, kc_modifiers = m\<rparr>))"

definition show_combo :: "key_combo \<Rightarrow> rstr" where
  "show_combo c = show_modifiers (kc_modifiers c) @ show_key (kc_key c)"

datatype shortcut = Single key_combo | Chord key_combo key_combo

text \<open>\<open>split_once\<close> for a separator of several characters.\<close>

definition split_once_str :: "rstr \<Rightarrow> rstr \<Rightarrow> (rstr \<times> rstr) option" where
  "split_once_str sep s = map_option (\<lambda>a. (a, drop (length a + length sep) s)) (find_str sep s)"

definition shortcut_parse :: "rstr \<Rightarrow> rstr + shortcut" where
  "shortcut_parse s = (case split_once_str (str_lit '', '') s of
     Some (a, b) \<Rightarrow> (case combo_parse a of Inl e \<Rightarrow> Inl e | Inr x \<Rightarrow>
       (case combo_parse b of Inl e \<Rightarrow> Inl e | Inr y \<Rightarrow> Inr (Chord x y)))
   | None \<Rightarrow> (case combo_parse s of Inl e \<Rightarrow> Inl e | Inr x \<Rightarrow> Inr (Single x)))"

fun show_shortcut :: "shortcut \<Rightarrow> rstr" where
  "show_shortcut (Single c) = show_combo c"
| "show_shortcut (Chord a b) = show_combo a @ str_lit '', '' @ show_combo b"

section \<open>Conditions\<close>

datatype tag = Div | Span | TextTag | Button | Input | Canvas | Svg | SvgPath | SvgCircle | SvgRect | SvgLine
  | SvgPolyline | SvgPolygon | SvgGroup | Select | OptionTag

definition tag_names :: "(rstr \<times> tag) list" where
  "tag_names = [(str_lit ''div'', Div), (str_lit ''span'', Span), (str_lit ''text'', TextTag), (str_lit ''button'', Button),
     (str_lit ''input'', Input), (str_lit ''canvas'', Canvas), (str_lit ''svg'', Svg), (str_lit ''path'', SvgPath),
     (str_lit ''circle'', SvgCircle), (str_lit ''rect'', SvgRect), (str_lit ''line'', SvgLine), (str_lit ''polyline'', SvgPolyline),
     (str_lit ''polygon'', SvgPolygon), (str_lit ''g'', SvgGroup), (str_lit ''select'', Select), (str_lit ''option'', OptionTag)]"

definition tag_from_str :: "rstr \<Rightarrow> tag option" where
  "tag_from_str s = map_of tag_names s"

datatype when_clause = Always | ContextFlag rstr | FocusedTag tag | FocusedClass rstr | And "when_clause list" | Not when_clause

lemma strip_prefix_length: "strip_prefix p s = Some t \<Longrightarrow> length s = length p + length t"
  by (auto simp: strip_prefix_eq_Some)

lemma trim_length: "length (trim s) \<le> length s"
  by (simp add: trim_def trim_start_def trim_end_def length_dropWhile_le order_trans [OF length_dropWhile_le])

text \<open>The parser of the core ignores the case of \<open>always\<close>, the one of the application does not.\<close>

function when_parse :: "bool \<Rightarrow> rstr \<Rightarrow> rstr + when_clause" where
  "when_parse ignore_case s0 = (let s = trim s0 in
     if (if ignore_case then to_ascii_lowercase s else s) = str_lit ''always'' then Inr Always
     else case strip_prefix [33] s of
       Some rest \<Rightarrow> (case when_parse ignore_case rest of Inl e \<Rightarrow> Inl e | Inr w \<Rightarrow> Inr (Not w))
     | None \<Rightarrow> (case strip_prefix (str_lit ''focusedTag:'') s of
         Some name \<Rightarrow> (case tag_from_str name of Some t \<Rightarrow> Inr (FocusedTag t)
           | None \<Rightarrow> Inl (if ignore_case then str_lit ''unknown tag: '' @ name else str_lit ''unknown tag: '' @ [39] @ name @ [39]))
       | None \<Rightarrow> (case strip_prefix (str_lit ''focusedClass:'') s of
           Some c \<Rightarrow> Inr (FocusedClass c)
         | None \<Rightarrow> Inr (ContextFlag s))))"
  by pat_completeness auto
termination
  by (relation "measure (\<lambda>(_, s). length s)") (auto dest!: strip_prefix_length intro: less_le_trans [OF _ trim_length])

end
