(* ===== verification/Shortcuts.thy ===== *)
theory Shortcuts
  imports Keys
begin

text \<open>
  The registry of shortcuts (unshit-core/src/shortcut.rs) and the resolver with its second parser
  (unshit-app/src/shortcut.rs), up to the start of the application, which registers its shortcuts
  (unshit-app/src/app.rs). Of the focused element only its tag and classes matter.
\<close>

section \<open>The registry\<close>

datatype priority = DefaultPriority | ExtensionPriority | UserPriority

fun priority_rank :: "priority \<Rightarrow> nat" where
  "priority_rank DefaultPriority = 0"
| "priority_rank ExtensionPriority = 1"
| "priority_rank UserPriority = 2"

record key_binding =
  kb_shortcut :: shortcut
  kb_command :: rstr
  kb_when :: when_clause
  kb_priority :: priority

text \<open>\<open>sort_by(|a, b| b.priority.cmp(&a.priority))\<close>, a stable sort.\<close>

definition by_priority :: "key_binding list \<Rightarrow> key_binding list" where
  "by_priority = sort_key (\<lambda>b. 2 - priority_rank (kb_priority b))"

record shortcut_registry =
  sr_singles :: "(key_combo \<times> key_binding list) list"
  sr_chords :: "(key_combo \<times> (key_combo \<times> key_binding list) list) list"

definition shortcuts_new :: shortcut_registry where
  "shortcuts_new = \<lparr>sr_singles = [], sr_chords = []\<rparr>"

text \<open>\<open>entry(k).or_default()\<close>\<close>

definition or_default :: "('k \<times> 'v list) list \<Rightarrow> 'k \<Rightarrow> 'v list" where
  "or_default m k = (case map_of m k of None \<Rightarrow> [] | Some v \<Rightarrow> v)"

definition register_binding :: "key_binding \<Rightarrow> shortcut_registry \<Rightarrow> shortcut_registry" where
  "register_binding b r = (case kb_shortcut b of
     Single c \<Rightarrow> r\<lparr>sr_singles := AList.update c (by_priority (or_default (sr_singles r) c @ [b])) (sr_singles r)\<rparr>
   | Chord l f \<Rightarrow> (let inner = or_default (sr_chords r) l
       in r\<lparr>sr_chords := AList.update l (AList.update f (by_priority (or_default inner f @ [b])) inner) (sr_chords r)\<rparr>))"

definition unregister_shortcut :: "shortcut \<Rightarrow> shortcut_registry \<Rightarrow> shortcut_registry" where
  "unregister_shortcut s r = (case s of
     Single c \<Rightarrow> r\<lparr>sr_singles := AList.delete c (sr_singles r)\<rparr>
   | Chord l f \<Rightarrow> (case map_of (sr_chords r) l of None \<Rightarrow> r
       | Some inner \<Rightarrow> (let inner' = AList.delete f inner
           in if inner' = [] then r\<lparr>sr_chords := AList.delete l (sr_chords r)\<rparr>
              else r\<lparr>sr_chords := AList.update l inner' (sr_chords r)\<rparr>)))"

datatype lookup_result = NoMatch | Matched "key_binding list" bool | ChordLeader

definition lookup_combo :: "shortcut_registry \<Rightarrow> key_combo \<Rightarrow> lookup_result" where
  "lookup_combo r c = (let has_singles = map_of (sr_singles r) c; is_chord_leader = (map_of (sr_chords r) c \<noteq> None)
     in case has_singles of
          Some bs \<Rightarrow> Matched bs is_chord_leader
        | None \<Rightarrow> if is_chord_leader then ChordLeader else NoMatch)"

definition lookup_chord :: "shortcut_registry \<Rightarrow> key_combo \<Rightarrow> key_combo \<Rightarrow> key_binding list" where
  "lookup_chord r l f = (case map_of (sr_chords r) l of None \<Rightarrow> [] | Some inner \<Rightarrow> or_default inner f)"

section \<open>The parsers of the application\<close>

definition app_key_names :: "(rstr \<times> key) list" where
  "app_key_names = [(str_lit ''enter'', KEnter), (str_lit ''return'', KEnter), (str_lit ''escape'', KEscape), (str_lit ''esc'', KEscape),
     (str_lit ''backspace'', KBackspace), (str_lit ''tab'', KTab), (str_lit ''space'', KSpace),
     (str_lit ''up'', KUp), (str_lit ''down'', KDown), (str_lit ''left'', KLeft), (str_lit ''right'', KRight),
     (str_lit ''home'', KHome), (str_lit ''end'', KEnd), (str_lit ''pageup'', KPageUp), (str_lit ''pagedown'', KPageDown),
     (str_lit ''delete'', KDelete), (str_lit ''del'', KDelete)]"

definition parse_key_name :: "rstr \<Rightarrow> rstr + key" where
  "parse_key_name s = (let lower = to_ascii_lowercase s
     in case (case map_of app_key_names lower of Some k \<Rightarrow> Some k | None \<Rightarrow> key_from_rest lower) of
          Some k \<Rightarrow> Inr k
        | None \<Rightarrow> Inl (str_lit ''unknown key name: '' @ [39] @ s @ [39]))"

fun parse_app_modifiers :: "modifiers \<Rightarrow> rstr list \<Rightarrow> rstr + modifiers" where
  "parse_app_modifiers m [] = Inr m"
| "parse_app_modifiers m (part # parts) = (case modifier_from_name (trim part) of
     None \<Rightarrow> Inl (str_lit ''unknown modifier: '' @ [39] @ to_ascii_lowercase (trim part) @ [39])
   | Some x \<Rightarrow> parse_app_modifiers (mods_union m x) parts)"

definition parse_key_combo :: "rstr \<Rightarrow> rstr + key_combo" where
  "parse_key_combo s0 = (let s = trim s0 in
     if s = [] then Inl (str_lit ''empty key combo string'')
     else let parts = split_char 43 s in
       case parse_key_name (last parts) of
         Inl e \<Rightarrow> Inl e
       | Inr k \<Rightarrow> (case parse_app_modifiers mods_empty (butlast parts) of
           Inl e \<Rightarrow> Inl e
         | Inr m \<Rightarrow> Inr \<lparr>kc_key = k, kc_modifiers = m\<rparr>))"

definition parse_shortcut :: "rstr \<Rightarrow> rstr + shortcut" where
  "parse_shortcut s = (case split_once_str (str_lit '', '') s of
     Some (a, b) \<Rightarrow> (case parse_key_combo a of Inl e \<Rightarrow> Inl e | Inr x \<Rightarrow>
       (case parse_key_combo b of Inl e \<Rightarrow> Inl e | Inr y \<Rightarrow> Inr (Chord x y)))
   | None \<Rightarrow> (case parse_key_combo s of Inl e \<Rightarrow> Inl e | Inr x \<Rightarrow> Inr (Single x)))"

text \<open>The entries of the keybindings file, read by \<open>serde_json\<close>; the first bad one refuses the whole file.\<close>

record keybinding_entry =
  ke_key :: rstr
  ke_command :: rstr
  ke_when :: rstr

fun load_entries :: "keybinding_entry list \<Rightarrow> rstr + key_binding list" where
  "load_entries [] = Inr []"
| "load_entries (e # es) = (case parse_shortcut (ke_key e) of Inl x \<Rightarrow> Inl x | Inr s \<Rightarrow>
     (case when_parse False (ke_when e) of Inl x \<Rightarrow> Inl x | Inr w \<Rightarrow>
       (case load_entries es of Inl x \<Rightarrow> Inl x
        | Inr bs \<Rightarrow> Inr (\<lparr>kb_shortcut = s, kb_command = ke_command e, kb_when = w, kb_priority = UserPriority\<rparr> # bs))))"

section \<open>The resolver\<close>

record elem_info =
  ei_tag :: tag
  ei_classes :: "rstr list"

fun evaluate_when :: "when_clause \<Rightarrow> rstr set \<Rightarrow> node_id \<Rightarrow> elem_info arena \<Rightarrow> bool" where
  "evaluate_when Always context focused arena = True"
| "evaluate_when (ContextFlag flag) context focused arena = (flag \<in> context)"
| "evaluate_when (FocusedTag t) context focused arena =
     (case get_node arena focused of Some el \<Rightarrow> ei_tag (el_data el) = t | None \<Rightarrow> False)"
| "evaluate_when (FocusedClass c) context focused arena =
     (case get_node arena focused of Some el \<Rightarrow> c \<in> set (ei_classes (el_data el)) | None \<Rightarrow> False)"
| "evaluate_when (And cs) context focused arena = (\<forall>c \<in> set cs. evaluate_when c context focused arena)"
| "evaluate_when (Not c) context focused arena = (\<not> evaluate_when c context focused arena)"

definition first_matching :: "key_binding list \<Rightarrow> rstr set \<Rightarrow> node_id \<Rightarrow> elem_info arena \<Rightarrow> key_binding option" where
  "first_matching bs context focused arena = find (\<lambda>b. evaluate_when (kb_when b) context focused arena) bs"

record resolver =
  rv_registry :: shortcut_registry
  rv_pending_chord :: "(key_combo \<times> nat) option"
  rv_chord_timeout :: nat
  rv_context :: "rstr set"

definition resolver_new :: resolver where
  "resolver_new = \<lparr>rv_registry = shortcuts_new, rv_pending_chord = None, rv_chord_timeout = 1500, rv_context = {}\<rparr>"

text \<open>The part of \<open>process_key\<close> after the pending chord is settled.\<close>

definition process_single :: "nat \<Rightarrow> key_combo \<Rightarrow> node_id \<Rightarrow> elem_info arena \<Rightarrow> resolver \<Rightarrow> rstr option \<times> resolver" where
  "process_single now combo focused arena r = (case lookup_combo (rv_registry r) combo of
     Matched bs is_chord_leader \<Rightarrow> (case first_matching bs (rv_context r) focused arena of
         Some b \<Rightarrow> (Some (kb_command b), r)
       | None \<Rightarrow> (None, if is_chord_leader then r\<lparr>rv_pending_chord := Some (combo, now)\<rparr> else r))
   | ChordLeader \<Rightarrow> (None, r\<lparr>rv_pending_chord := Some (combo, now)\<rparr>)
   | NoMatch \<Rightarrow> (None, r))"

definition process_key :: "nat \<Rightarrow> key_combo \<Rightarrow> node_id \<Rightarrow> elem_info arena \<Rightarrow> resolver \<Rightarrow> rstr option \<times> resolver" where
  "process_key now combo focused arena r0 = (let r = r0\<lparr>rv_pending_chord := None\<rparr> in
     case rv_pending_chord r0 of
       Some (leader, timestamp) \<Rightarrow>
         (case (if now - timestamp < rv_chord_timeout r
                then first_matching (lookup_chord (rv_registry r) leader combo) (rv_context r) focused arena else None) of
            Some b \<Rightarrow> (Some (kb_command b), r)
          | None \<Rightarrow> process_single now combo focused arena r)
     | None \<Rightarrow> process_single now combo focused arena r)"

definition set_context :: "rstr \<Rightarrow> bool \<Rightarrow> resolver \<Rightarrow> resolver" where
  "set_context flag v r = (if v then r\<lparr>rv_context := insert flag (rv_context r)\<rparr> else r\<lparr>rv_context := rv_context r - {flag}\<rparr>)"

definition cancel_chord :: "resolver \<Rightarrow> resolver" where
  "cancel_chord r = r\<lparr>rv_pending_chord := None\<rparr>"

definition is_chord_pending :: "resolver \<Rightarrow> bool" where
  "is_chord_pending r \<longleftrightarrow> rv_pending_chord r \<noteq> None"

definition pending_chord_leader :: "resolver \<Rightarrow> key_combo option" where
  "pending_chord_leader r = map_option fst (rv_pending_chord r)"

definition pending_chord_display :: "resolver \<Rightarrow> rstr option" where
  "pending_chord_display r = map_option (\<lambda>c. show_combo c @ str_lit '' ...'') (pending_chord_leader r)"

definition set_chord_timeout :: "nat \<Rightarrow> resolver \<Rightarrow> resolver" where
  "set_chord_timeout t r = r\<lparr>rv_chord_timeout := t\<rparr>"

definition register_in :: "key_binding \<Rightarrow> resolver \<Rightarrow> resolver" where
  "register_in b r = r\<lparr>rv_registry := register_binding b (rv_registry r)\<rparr>"

definition register_defaults :: "resolver \<Rightarrow> resolver" where
  "register_defaults r =
     register_in \<lparr>kb_shortcut = Single \<lparr>kc_key = KTab, kc_modifiers = mods_empty\<lparr>m_shift := True\<rparr>\<rparr>,
         kb_command = str_lit ''focus.prev'', kb_when = Always, kb_priority = DefaultPriority\<rparr>
       (register_in \<lparr>kb_shortcut = Single (combo_plain KTab), kb_command = str_lit ''focus.next'', kb_when = Always,
           kb_priority = DefaultPriority\<rparr> r)"

section \<open>The start of the application\<close>

text \<open>Shortcuts that do not parse are logged and skipped; a file of keybindings is read or refused as a whole.\<close>

fun register_user_shortcuts :: "(rstr \<times> rstr) list \<Rightarrow> resolver \<Rightarrow> resolver" where
  "register_user_shortcuts [] r = r"
| "register_user_shortcuts ((s, command) # rest) r = register_user_shortcuts rest
     (case shortcut_parse s of
        Inr x \<Rightarrow> register_in \<lparr>kb_shortcut = x, kb_command = command, kb_when = Always, kb_priority = UserPriority\<rparr> r
      | Inl _ \<Rightarrow> r)"

definition start_resolver :: "(rstr \<times> rstr) list \<Rightarrow> (rstr + key_binding list) option \<Rightarrow> resolver" where
  "start_resolver user_shortcuts keybindings_file =
     (let r = register_user_shortcuts user_shortcuts (register_defaults resolver_new)
      in case keybindings_file of
           Some (Inr bs) \<Rightarrow> fold register_in bs r
         | _ \<Rightarrow> r)"

end
