(* ===== verification/Keybinds.thy ===== *)
theory Keybinds
  imports Shortcuts
begin

text \<open>
  The editable shortcuts of the application (src/src/keybinds): the actions with their names,
  commands and default combos, the runtime state with its overrides (state.rs), reading and writing
  the overrides (loader.rs), the list of bindings registered at the start (registry.rs), and the two
  commands that change a binding (src/src/state.rs). \<open>macos\<close> is the target of the build. A default
  that does not parse is a panic (\<open>None\<close>).
\<close>

section \<open>Actions\<close>

datatype keybind_action = NewTerminal | NewAgent | NewClaudeAgent | NewCodexAgent | CloseTab | SplitRight | SplitDown | Unsplit | FocusLeft | FocusRight | FocusUp | FocusDown | NextTab | PrevTab | CommandPalette | QuickPromptOpen | RenameSession | OpenFile | QuickOpen | DiffOpen | EditorSave | ToggleExplorer | ToggleSidebar | OpenSettings | ZoomIn | ZoomOut | ZoomReset | Fullscreen

fun action_id :: "keybind_action \<Rightarrow> rstr" where
  "action_id NewTerminal = str_lit ''new_terminal''"
| "action_id NewAgent = str_lit ''new_agent''"
| "action_id NewClaudeAgent = str_lit ''new_claude_agent''"
| "action_id NewCodexAgent = str_lit ''new_codex_agent''"
| "action_id CloseTab = str_lit ''close_tab''"
| "action_id SplitRight = str_lit ''split_right''"
| "action_id SplitDown = str_lit ''split_down''"
| "action_id Unsplit = str_lit ''unsplit''"
| "action_id FocusLeft = str_lit ''focus_left''"
| "action_id FocusRight = str_lit ''focus_right''"
| "action_id FocusUp = str_lit ''focus_up''"
| "action_id FocusDown = str_lit ''focus_down''"
| "action_id NextTab = str_lit ''next_tab''"
| "action_id PrevTab = str_lit ''prev_tab''"
| "action_id CommandPalette = str_lit ''command_palette''"
| "action_id QuickPromptOpen = str_lit ''quick_prompt_open''"
| "action_id RenameSession = str_lit ''rename_session''"
| "action_id OpenFile = str_lit ''open_file''"
| "action_id QuickOpen = str_lit ''quick_open''"
| "action_id DiffOpen = str_lit ''diff_open''"
| "action_id EditorSave = str_lit ''editor_save''"
| "action_id ToggleExplorer = str_lit ''toggle_explorer''"
| "action_id ToggleSidebar = str_lit ''toggle_sidebar''"
| "action_id OpenSettings = str_lit ''open_settings''"
| "action_id ZoomIn = str_lit ''zoom_in''"
| "action_id ZoomOut = str_lit ''zoom_out''"
| "action_id ZoomReset = str_lit ''zoom_reset''"
| "action_id Fullscreen = str_lit ''fullscreen''"

fun action_label :: "keybind_action \<Rightarrow> rstr" where
  "action_label NewTerminal = str_lit ''New terminal''"
| "action_label NewAgent = str_lit ''New agent''"
| "action_label NewClaudeAgent = str_lit ''New Claude Code agent''"
| "action_label NewCodexAgent = str_lit ''New Codex agent''"
| "action_label CloseTab = str_lit ''Close tab''"
| "action_label SplitRight = str_lit ''Split right''"
| "action_label SplitDown = str_lit ''Split down''"
| "action_label Unsplit = str_lit ''Unsplit''"
| "action_label FocusLeft = str_lit ''Focus pane left''"
| "action_label FocusRight = str_lit ''Focus pane right''"
| "action_label FocusUp = str_lit ''Focus pane up''"
| "action_label FocusDown = str_lit ''Focus pane down''"
| "action_label NextTab = str_lit ''Next tab''"
| "action_label PrevTab = str_lit ''Previous tab''"
| "action_label CommandPalette = str_lit ''Command palette''"
| "action_label QuickPromptOpen = str_lit ''Quick prompt''"
| "action_label RenameSession = str_lit ''Rename session''"
| "action_label OpenFile = str_lit ''Open file''"
| "action_label QuickOpen = str_lit ''Quick open''"
| "action_label DiffOpen = str_lit ''Diff against'' @ [8230]"
| "action_label EditorSave = str_lit ''Save file''"
| "action_label ToggleExplorer = str_lit ''Toggle file explorer''"
| "action_label ToggleSidebar = str_lit ''Toggle sidebar''"
| "action_label OpenSettings = str_lit ''Settings''"
| "action_label ZoomIn = str_lit ''Zoom in''"
| "action_label ZoomOut = str_lit ''Zoom out''"
| "action_label ZoomReset = str_lit ''Reset zoom''"
| "action_label Fullscreen = str_lit ''Fullscreen''"

fun action_description :: "keybind_action \<Rightarrow> rstr" where
  "action_description NewTerminal = str_lit ''Open a new terminal tab''"
| "action_description NewAgent = str_lit ''Open a new tab running the default agent CLI in the active workspace''"
| "action_description NewClaudeAgent = str_lit ''Open a new tab running Claude Code in the active workspace''"
| "action_description NewCodexAgent = str_lit ''Open a new tab running Codex in the active workspace''"
| "action_description CloseTab = str_lit ''Close the current tab''"
| "action_description SplitRight = str_lit ''Open a new pane to the right''"
| "action_description SplitDown = str_lit ''Open a new pane below''"
| "action_description Unsplit = str_lit ''Close the focused split''"
| "action_description FocusLeft = str_lit ''Move focus to the pane on the left''"
| "action_description FocusRight = str_lit ''Move focus to the pane on the right''"
| "action_description FocusUp = str_lit ''Move focus to the pane above''"
| "action_description FocusDown = str_lit ''Move focus to the pane below''"
| "action_description NextTab = str_lit ''Switch to the next tab''"
| "action_description PrevTab = str_lit ''Switch to the previous tab''"
| "action_description CommandPalette = str_lit ''Open the fuzzy command runner''"
| "action_description QuickPromptOpen = str_lit ''Open the quick prompt''"
| "action_description RenameSession = str_lit ''Edit the active session label''"
| "action_description OpenFile = str_lit ''Open a file in the built-in editor''"
| "action_description QuickOpen = str_lit ''Find a file in the workspace by name and open it''"
| "action_description DiffOpen = str_lit ''Review a git range as a read-only diff pane''"
| "action_description EditorSave = str_lit ''Save the focused editor pane''"
| "action_description ToggleExplorer = str_lit ''Show or hide the file explorer''"
| "action_description ToggleSidebar = str_lit ''Show or hide the workspace sidebar''"
| "action_description OpenSettings = str_lit ''Open the settings window''"
| "action_description ZoomIn = str_lit ''Scale the whole interface up, terminal and chrome together''"
| "action_description ZoomOut = str_lit ''Scale the whole interface down, terminal and chrome together''"
| "action_description ZoomReset = str_lit ''Return the interface to 100%''"
| "action_description Fullscreen = str_lit ''Toggle the fullscreen window''"

fun dispatch_command :: "keybind_action \<Rightarrow> rstr" where
  "dispatch_command NewTerminal = str_lit ''tab.new''"
| "dispatch_command NewAgent = str_lit ''agent.new''"
| "dispatch_command NewClaudeAgent = str_lit ''agent.new:claude''"
| "dispatch_command NewCodexAgent = str_lit ''agent.new:codex''"
| "dispatch_command CloseTab = str_lit ''tab.close.active''"
| "dispatch_command SplitRight = str_lit ''pane.split_right''"
| "dispatch_command SplitDown = str_lit ''pane.split_down''"
| "dispatch_command Unsplit = str_lit ''pane.close''"
| "dispatch_command FocusLeft = str_lit ''pane.focus_left''"
| "dispatch_command FocusRight = str_lit ''pane.focus_right''"
| "dispatch_command FocusUp = str_lit ''pane.focus_up''"
| "dispatch_command FocusDown = str_lit ''pane.focus_down''"
| "dispatch_command NextTab = str_lit ''tab.next''"
| "dispatch_command PrevTab = str_lit ''tab.prev''"
| "dispatch_command CommandPalette = str_lit ''palette.toggle''"
| "dispatch_command QuickPromptOpen = str_lit ''quick_prompt.open''"
| "dispatch_command RenameSession = str_lit ''session.rename_active''"
| "dispatch_command OpenFile = str_lit ''editor.open''"
| "dispatch_command QuickOpen = str_lit ''palette.files''"
| "dispatch_command DiffOpen = str_lit ''diff.open''"
| "dispatch_command EditorSave = str_lit ''editor.save''"
| "dispatch_command ToggleExplorer = str_lit ''explorer.toggle''"
| "dispatch_command ToggleSidebar = str_lit ''sidebar.toggle''"
| "dispatch_command OpenSettings = str_lit ''modal.open''"
| "dispatch_command ZoomIn = str_lit ''zoom.in''"
| "dispatch_command ZoomOut = str_lit ''zoom.out''"
| "dispatch_command ZoomReset = str_lit ''zoom.reset''"
| "dispatch_command Fullscreen = str_lit ''window.toggle_fullscreen''"

fun macos_combo_str :: "keybind_action \<Rightarrow> rstr" where
  "macos_combo_str NewTerminal = str_lit ''Meta+T''"
| "macos_combo_str NewAgent = str_lit ''Shift+Meta+A''"
| "macos_combo_str NewClaudeAgent = str_lit ''Shift+Meta+L''"
| "macos_combo_str NewCodexAgent = str_lit ''Shift+Meta+X''"
| "macos_combo_str CloseTab = str_lit ''Shift+Meta+W''"
| "macos_combo_str SplitRight = str_lit ''Meta+D''"
| "macos_combo_str SplitDown = str_lit ''Shift+Meta+D''"
| "macos_combo_str Unsplit = str_lit ''Meta+W''"
| "macos_combo_str FocusLeft = str_lit ''Alt+Meta+Left''"
| "macos_combo_str FocusRight = str_lit ''Alt+Meta+Right''"
| "macos_combo_str FocusUp = str_lit ''Alt+Meta+Up''"
| "macos_combo_str FocusDown = str_lit ''Alt+Meta+Down''"
| "macos_combo_str NextTab = str_lit ''Shift+Meta+]''"
| "macos_combo_str PrevTab = str_lit ''Shift+Meta+[''"
| "macos_combo_str CommandPalette = str_lit ''Shift+Meta+P''"
| "macos_combo_str QuickPromptOpen = str_lit ''Shift+Meta+I''"
| "macos_combo_str RenameSession = str_lit ''F2''"
| "macos_combo_str OpenFile = str_lit ''Meta+O''"
| "macos_combo_str QuickOpen = str_lit ''Meta+P''"
| "macos_combo_str DiffOpen = str_lit ''Shift+Meta+G''"
| "macos_combo_str EditorSave = str_lit ''Meta+S''"
| "macos_combo_str ToggleExplorer = str_lit ''Meta+B''"
| "macos_combo_str ToggleSidebar = str_lit ''Shift+Meta+B''"
| "macos_combo_str OpenSettings = str_lit ''Meta+,''"
| "macos_combo_str ZoomIn = str_lit ''Meta+=''"
| "macos_combo_str ZoomOut = str_lit ''Meta+-''"
| "macos_combo_str ZoomReset = str_lit ''Meta+0''"
| "macos_combo_str Fullscreen = str_lit ''Ctrl+Meta+F''"

fun other_combo_str :: "keybind_action \<Rightarrow> rstr" where
  "other_combo_str NewTerminal = str_lit ''Ctrl+T''"
| "other_combo_str NewAgent = str_lit ''Ctrl+Shift+A''"
| "other_combo_str NewClaudeAgent = str_lit ''Ctrl+Shift+L''"
| "other_combo_str NewCodexAgent = str_lit ''Ctrl+Shift+X''"
| "other_combo_str CloseTab = str_lit ''Ctrl+Shift+W''"
| "other_combo_str SplitRight = str_lit ''Ctrl+D''"
| "other_combo_str SplitDown = str_lit ''Ctrl+Shift+D''"
| "other_combo_str Unsplit = str_lit ''Ctrl+W''"
| "other_combo_str FocusLeft = str_lit ''Ctrl+Alt+Left''"
| "other_combo_str FocusRight = str_lit ''Ctrl+Alt+Right''"
| "other_combo_str FocusUp = str_lit ''Ctrl+Alt+Up''"
| "other_combo_str FocusDown = str_lit ''Ctrl+Alt+Down''"
| "other_combo_str NextTab = str_lit ''Ctrl+Tab''"
| "other_combo_str PrevTab = str_lit ''Ctrl+Shift+Tab''"
| "other_combo_str CommandPalette = str_lit ''Ctrl+Shift+P''"
| "other_combo_str QuickPromptOpen = str_lit ''Ctrl+Shift+Q''"
| "other_combo_str RenameSession = str_lit ''F2''"
| "other_combo_str OpenFile = str_lit ''Ctrl+Shift+O''"
| "other_combo_str QuickOpen = str_lit ''Ctrl+Shift+E''"
| "other_combo_str DiffOpen = str_lit ''Ctrl+Shift+G''"
| "other_combo_str EditorSave = str_lit ''Ctrl+Shift+S''"
| "other_combo_str ToggleExplorer = str_lit ''Ctrl+B''"
| "other_combo_str ToggleSidebar = str_lit ''Ctrl+Shift+B''"
| "other_combo_str OpenSettings = str_lit ''Ctrl+,''"
| "other_combo_str ZoomIn = str_lit ''Ctrl+=''"
| "other_combo_str ZoomOut = str_lit ''Ctrl+-''"
| "other_combo_str ZoomReset = str_lit ''Ctrl+0''"
| "other_combo_str Fullscreen = str_lit ''F11''"

definition default_combo_str :: "bool \<Rightarrow> keybind_action \<Rightarrow> rstr" where
  "default_combo_str macos a = (if macos then macos_combo_str a else other_combo_str a)"

definition all_actions :: "keybind_action list" where
  "all_actions = [NewTerminal, NewAgent, NewClaudeAgent, NewCodexAgent, CloseTab, SplitRight, SplitDown, Unsplit,
     FocusLeft, FocusRight, FocusUp, FocusDown, NextTab, PrevTab, CommandPalette, QuickPromptOpen, RenameSession,
     OpenFile, QuickOpen, DiffOpen, EditorSave, ToggleExplorer, ToggleSidebar, OpenSettings, ZoomIn, ZoomOut,
     ZoomReset, Fullscreen]"

definition action_from_id :: "rstr \<Rightarrow> keybind_action option" where
  "action_from_id s = find (\<lambda>a. action_id a = s) all_actions"

datatype keybind_group = Panes | Tabs | Navigation | Application

fun group_title :: "keybind_group \<Rightarrow> rstr" where
  "group_title Panes = str_lit ''Panes''"
| "group_title Tabs = str_lit ''Tabs & Sessions''"
| "group_title Navigation = str_lit ''Navigation''"
| "group_title Application = str_lit ''Application''"

definition action_group :: "keybind_action \<Rightarrow> keybind_group" where
  "action_group a = (if a \<in> set [SplitRight, SplitDown, Unsplit, FocusLeft, FocusRight, FocusUp, FocusDown] then Panes
     else if a \<in> set [NewTerminal, NewAgent, NewClaudeAgent, NewCodexAgent, CloseTab, NextTab, PrevTab, RenameSession] then Tabs
     else if a \<in> set [CommandPalette, QuickPromptOpen, QuickOpen] then Navigation
     else Application)"

definition default_combo :: "bool \<Rightarrow> keybind_action \<Rightarrow> key_combo option" where
  "default_combo macos a = (case combo_parse (default_combo_str macos a) of Inr c \<Rightarrow> Some c | Inl _ \<Rightarrow> None)"

section \<open>The state\<close>

type_synonym user_keybinds = "keybind_action \<rightharpoonup> key_combo"

datatype keybind_error_kind = Conflict keybind_action rstr | InvalidCombo rstr rstr

record keybinds_state =
  kbs_overrides :: user_keybinds
  kbs_recording :: "keybind_action option"
  kbs_error :: "(keybind_action \<times> keybind_error_kind) option"
  kbs_filter :: rstr

definition with_overrides :: "user_keybinds \<Rightarrow> keybinds_state" where
  "with_overrides m = \<lparr>kbs_overrides = m, kbs_recording = None, kbs_error = None, kbs_filter = []\<rparr>"

definition effective :: "bool \<Rightarrow> keybinds_state \<Rightarrow> keybind_action \<Rightarrow> key_combo option" where
  "effective macos s a = (case kbs_overrides s a of Some c \<Rightarrow> Some c | None \<Rightarrow> default_combo macos a)"

fun conflict_among :: "bool \<Rightarrow> keybinds_state \<Rightarrow> key_combo \<Rightarrow> keybind_action \<Rightarrow> keybind_action list \<Rightarrow> keybind_action option option" where
  "conflict_among macos s combo except [] = Some None"
| "conflict_among macos s combo except (a # as) =
     (if a = except then conflict_among macos s combo except as
      else do { c \<leftarrow> effective macos s a;
                if c = combo then Some (Some a) else conflict_among macos s combo except as })"

definition conflict :: "bool \<Rightarrow> key_combo \<Rightarrow> keybind_action \<Rightarrow> keybinds_state \<Rightarrow> keybind_action option option" where
  "conflict macos combo except s = conflict_among macos s combo except all_actions"

text \<open>The result says whether the override was accepted.\<close>

definition keybind_set :: "bool \<Rightarrow> keybind_action \<Rightarrow> key_combo \<Rightarrow> keybinds_state \<Rightarrow> (bool \<times> keybinds_state) option" where
  "keybind_set macos a combo s = do {
     other \<leftarrow> conflict macos combo a s;
     case other of
       Some b \<Rightarrow> Some (False, s\<lparr>kbs_error := Some (a, Conflict b (show_combo combo))\<rparr>)
     | None \<Rightarrow> do { d \<leftarrow> default_combo macos a;
         Some (True, s\<lparr>kbs_overrides := (if combo = d then (kbs_overrides s)(a := None) else (kbs_overrides s)(a \<mapsto> combo)),
                kbs_recording := None, kbs_error := None\<rparr>) } }"

definition keybind_reset :: "keybind_action \<Rightarrow> keybinds_state \<Rightarrow> keybinds_state" where
  "keybind_reset a s = s\<lparr>kbs_overrides := (kbs_overrides s)(a := None), kbs_error := None\<rparr>"

definition keybind_reset_all :: "keybinds_state \<Rightarrow> keybinds_state" where
  "keybind_reset_all s = s\<lparr>kbs_overrides := Map.empty, kbs_recording := None, kbs_error := None\<rparr>"

definition start_recording :: "keybind_action \<Rightarrow> keybinds_state \<Rightarrow> keybinds_state" where
  "start_recording a s = s\<lparr>kbs_recording := Some a, kbs_error := None\<rparr>"

definition cancel_recording :: "keybinds_state \<Rightarrow> keybinds_state" where
  "cancel_recording s = s\<lparr>kbs_recording := None\<rparr>"

section \<open>Commands\<close>

text \<open>The result says whether the command was understood; \<open>cmd\<close> is the text after the prefix.\<close>

definition dispatch_keybind_set :: "bool \<Rightarrow> rstr \<Rightarrow> keybinds_state \<Rightarrow> (bool \<times> keybinds_state) option" where
  "dispatch_keybind_set macos cmd s = (case split_once 58 cmd of
     None \<Rightarrow> Some (False, s)
   | Some (i, combo_str) \<Rightarrow> (case action_from_id i of
       None \<Rightarrow> Some (False, s)
     | Some a \<Rightarrow> (case combo_parse combo_str of
         Inl e \<Rightarrow> Some (True, s\<lparr>kbs_error := Some (a, InvalidCombo combo_str e)\<rparr>)
       | Inr combo \<Rightarrow> map_option (\<lambda>(_, s'). (True, s')) (keybind_set macos a combo s))))"

definition dispatch_keybind_reset :: "rstr \<Rightarrow> keybinds_state \<Rightarrow> bool \<times> keybinds_state" where
  "dispatch_keybind_reset cmd s = (case action_from_id cmd of None \<Rightarrow> (False, s) | Some a \<Rightarrow> (True, keybind_reset a s))"

section \<open>The file of overrides\<close>

text \<open>
  The file is a JSON object of ids and combos. \<open>save_entries\<close> gives its entries in the order of the
  actions (the hash map has none), \<open>load_entries_of\<close> reads them; unknown ids and bad combos are skipped.
\<close>

definition save_entries :: "user_keybinds \<Rightarrow> (rstr \<times> rstr) list" where
  "save_entries m = List.map_filter (\<lambda>a. map_option (\<lambda>c. (action_id a, show_combo c)) (m a)) all_actions"

fun load_overrides :: "(rstr \<times> rstr) list \<Rightarrow> user_keybinds \<Rightarrow> user_keybinds" where
  "load_overrides [] m = m"
| "load_overrides ((i, combo_str) # rest) m = load_overrides rest
     (case action_from_id i of None \<Rightarrow> m
      | Some a \<Rightarrow> (case combo_parse combo_str of Inr c \<Rightarrow> m(a \<mapsto> c) | Inl _ \<Rightarrow> m))"

text \<open>\<open>body\<close> is the content of the file, \<open>None\<close> when it is missing or cannot be read; \<open>from_json\<close> is \<open>serde_json\<close>.\<close>

definition load_user_keybinds :: "(rstr \<Rightarrow> (rstr \<times> rstr) list option) \<Rightarrow> rstr option \<Rightarrow> user_keybinds" where
  "load_user_keybinds from_json body = (case body of None \<Rightarrow> Map.empty
   | Some t \<Rightarrow> (case from_json t of None \<Rightarrow> Map.empty | Some raw \<Rightarrow> load_overrides raw Map.empty))"

definition save_user_keybinds :: "((rstr \<times> rstr) list \<Rightarrow> rstr) \<Rightarrow> user_keybinds \<Rightarrow> rstr" where
  "save_user_keybinds to_json m = to_json (save_entries m)"

section \<open>The bindings registered at the start\<close>

definition primary_combo :: "bool \<Rightarrow> rstr \<Rightarrow> rstr" where
  "primary_combo macos k = (if macos then str_lit ''Meta'' else str_lit ''Ctrl'') @ [43] @ k"

definition alias_bindings :: "bool \<Rightarrow> (rstr \<times> rstr) list" where
  "alias_bindings macos =
     [(primary_combo macos (str_lit ''Shift+H''), dispatch_command SplitRight),
      (primary_combo macos (str_lit ''K''), dispatch_command CommandPalette),
      (primary_combo macos (str_lit ''Shift+=''), dispatch_command ZoomIn)]"

definition TAB_SWITCH_COUNT :: nat where
  "TAB_SWITCH_COUNT = 9"

definition system_bindings :: "bool \<Rightarrow> (rstr \<times> rstr) list" where
  "system_bindings macos =
     [(str_lit ''Escape'', str_lit ''modal.close''),
      (primary_combo macos (str_lit ''Shift+F''), str_lit ''fps_overlay.toggle''),
      (primary_combo macos (str_lit ''V''), str_lit ''terminal.paste''),
      (str_lit ''Ctrl+Shift+V'', str_lit ''terminal.paste''),
      (str_lit ''Shift+Insert'', str_lit ''terminal.paste'')] @
     (if macos then [(primary_combo macos (str_lit ''C''), str_lit ''terminal.copy'')] else []) @
     [(str_lit ''Ctrl+Shift+C'', str_lit ''terminal.copy'')] @
     map (\<lambda>i. (primary_combo macos (show_nat (i + 1)), str_lit ''tab.switch:'' @ show_nat i)) [0..<TAB_SWITCH_COUNT]"

fun action_bindings :: "bool \<Rightarrow> user_keybinds \<Rightarrow> keybind_action list \<Rightarrow> (rstr \<times> rstr) list option" where
  "action_bindings macos m [] = Some []"
| "action_bindings macos m (a # as) = do {
     c \<leftarrow> (case m a of Some c \<Rightarrow> Some c | None \<Rightarrow> default_combo macos a);
     rest \<leftarrow> action_bindings macos m as;
     Some ((show_combo c, dispatch_command a) # rest) }"

definition shortcut_bindings_with_overrides :: "bool \<Rightarrow> user_keybinds \<Rightarrow> (rstr \<times> rstr) list option" where
  "shortcut_bindings_with_overrides macos m = do {
     out \<leftarrow> action_bindings macos m all_actions;
     Some (out @ alias_bindings macos @ system_bindings macos) }"

end
