(* ===== verification/Keys_Props.thy ===== *)
theory Keys_Props
  imports Shortcuts "HOL-Library.Multiset"
begin

text \<open>
  Shortcuts print and parse back, the registry is a list of bindings with lookups as stable sorts by
  priority, and the resolver runs the first active binding of the highest priority.
\<close>

section \<open>Printing and parsing\<close>

text \<open>The keys that have a name: lower-case characters that are neither space nor the separator, F1 to F12.\<close>

fun plain_key :: "key \<Rightarrow> bool" where
  "plain_key (KChar c) = (\<not> (65 \<le> c \<and> c \<le> 90) \<and> c \<noteq> 43 \<and> \<not> is_whitespace c)"
| "plain_key (KF n) = (1 \<le> n \<and> n \<le> 12)"
| "plain_key KUnknown = False"
| "plain_key _ = True"

abbreviation plain_combo :: "key_combo \<Rightarrow> bool" where
  "plain_combo c \<equiv> plain_key (kc_key c)"

fun plain_shortcut :: "shortcut \<Rightarrow> bool" where
  "plain_shortcut (Single c) = plain_combo c"
| "plain_shortcut (Chord a b) = (plain_combo a \<and> plain_combo b)"

lemma ascii_lower_upper: "\<not> (65 \<le> c \<and> c \<le> 90) \<Longrightarrow> ascii_lower (ascii_upper c) = c"
  by (auto simp: ascii_lower_def ascii_upper_def)

lemma trim_id: "s \<noteq> [] \<Longrightarrow> \<not> is_whitespace (hd s) \<Longrightarrow> \<not> is_whitespace (last s) \<Longrightarrow> trim s = s"
proof -
  assume s: "s \<noteq> []" "\<not> is_whitespace (hd s)" "\<not> is_whitespace (last s)"
  have "trim_start s = s" using s(1,2) by (cases s) (simp_all add: trim_start_def)
  moreover have "trim_end s = s" using s(1,3) by (cases s rule: rev_cases) (simp_all add: trim_end_def)
  ultimately show ?thesis by (simp add: trim_def)
qed

lemma upper_space: "is_whitespace (ascii_upper c) \<longleftrightarrow> is_whitespace c"
proof (cases "97 \<le> c \<and> c \<le> 122")
  case True
  have "is_whitespace x \<Longrightarrow> \<not> (65 \<le> x \<and> x \<le> 122)" for x by (auto simp: is_whitespace_def)
  from this [of c] this [of "c - 32"] True show ?thesis by (auto simp: ascii_upper_def)
qed (auto simp: ascii_upper_def)

lemma key_name_length: "map_of key_names [c] = None"
  by (simp add: key_names_def str_lit_def)

lemma digits_facts: "c \<in> set (show_nat n) \<Longrightarrow> \<not> is_whitespace c \<and> c \<noteq> 43 \<and> c \<noteq> 32 \<and> \<not> (65 \<le> c \<and> c \<le> 90)"
  using show_nat_set [of c n] by (auto simp: is_whitespace_def)

lemma parse_u8_show_nat: "parse_u8 (show_nat (unat n)) = Some n"
proof -
  obtain c cs where c: "show_nat (unat n) = c # cs" by (cases "show_nat (unat n)") simp_all
  then have "c \<noteq> 43" using digits_facts [of c "unat n"] by auto
  moreover have "unat n < 2 ^ 8" using unsigned_less [of n] by simp
  ultimately show ?thesis using digits_value_show_nat [of "unat n"] by (simp add: parse_u8_def c)
qed

lemmas key_eval = Let_def key_from_name_def key_names_def key_from_rest_def parse_u8_def to_ascii_lowercase_def str_lit_def
  trim_def trim_start_def trim_end_def is_whitespace_def

lemma show_key_name: "plain_key k \<Longrightarrow> key_from_name (show_key k) = Some k"
proof (cases k)
  case (KChar c)
  assume p: "plain_key k"
  have "\<not> is_whitespace (ascii_upper c)" using p KChar upper_space [of c] by simp
  then have "trim [ascii_upper c] = [ascii_upper c]" by (simp add: trim_id)
  moreover have "to_ascii_lowercase [ascii_upper c] = [c]"
    using p KChar ascii_lower_upper [of c] by (simp add: to_ascii_lowercase_def ascii_lower_def)
  moreover have "key_from_rest [c] = Some (KChar c)"
    using p KChar by (auto simp: key_from_rest_def parse_u8_def ascii_lower_def)
  ultimately show ?thesis by (simp add: KChar key_from_name_def key_name_length)
next
  case (KF n)
  let ?ds = "show_nat (unat n)"
  assume "plain_key k"
  then have n: "1 \<le> n \<and> n \<le> 12" using KF by simp
  have "trim (70 # ?ds) = 70 # ?ds" using digits_facts [of "last ?ds" "unat n"] by (intro trim_id) (simp_all add: is_whitespace_def)
  moreover have "to_ascii_lowercase (70 # ?ds) = 102 # ?ds"
    using digits_facts by (auto simp: to_ascii_lowercase_def intro!: map_idI)
  moreover have "map_of key_names (102 # ?ds) = None" by (simp add: key_names_def str_lit_def)
  moreover have "key_from_rest (102 # ?ds) = Some (KF n)" using n by (simp add: key_from_rest_def parse_u8_show_nat)
  ultimately show ?thesis by (simp add: KF key_from_name_def)
qed (simp_all add: key_eval)

lemma show_key_chars: "plain_key k \<Longrightarrow> show_key k \<noteq> [] \<and> 43 \<notin> set (show_key k) \<and> 32 \<notin> set (show_key k) \<and>
    \<not> is_whitespace (hd (show_key k)) \<and> \<not> is_whitespace (last (show_key k))"
proof (cases k)
  case (KChar c)
  assume "plain_key k"
  then have "\<not> is_whitespace c" "c \<noteq> 43" using KChar by simp_all
  moreover have "c \<noteq> 32" using calculation(1) by (auto simp: is_whitespace_def)
  moreover have "ascii_upper c \<noteq> 43 \<and> ascii_upper c \<noteq> 32" using calculation(2,3) by (auto simp: ascii_upper_def)
  ultimately show ?thesis using upper_space [of c] KChar by simp
next
  case (KF n)
  have "last (show_nat (unat n)) \<in> set (show_nat (unat n))" by simp
  then show ?thesis using digits_facts [of _ "unat n"] unfolding KF by (auto simp: is_whitespace_def)
qed (simp_all add: key_eval)

definition modifier_names :: "modifiers \<Rightarrow> rstr list" where
  "modifier_names m = (if m_ctrl m then [str_lit ''Ctrl''] else []) @ (if m_alt m then [str_lit ''Alt''] else []) @
     (if m_shift m then [str_lit ''Shift''] else []) @ (if m_meta m then [str_lit ''Meta''] else [])"

lemma modifier_name_facts:
  "modifier_from_name (trim (str_lit ''Ctrl'')) = Some (mods_empty\<lparr>m_ctrl := True\<rparr>)"
  "modifier_from_name (trim (str_lit ''Alt'')) = Some (mods_empty\<lparr>m_alt := True\<rparr>)"
  "modifier_from_name (trim (str_lit ''Shift'')) = Some (mods_empty\<lparr>m_shift := True\<rparr>)"
  "modifier_from_name (trim (str_lit ''Meta'')) = Some (mods_empty\<lparr>m_meta := True\<rparr>)"
  by (simp_all add: key_eval modifier_from_name_def)

lemma parse_modifier_names: "parse_modifiers mods_empty (modifier_names m) = Inr m"
  by (cases m) (simp add: modifier_names_def modifier_name_facts mods_union_def mods_empty_def)

lemma show_modifiers_split: "split_char 43 (show_modifiers m @ s) = modifier_names m @ split_char 43 s"
proof -
  have "split_char 43 (str_lit w @ 43 # t) = str_lit w # split_char 43 t" if "w \<in> {''Ctrl'', ''Alt'', ''Shift'', ''Meta''}" for w t
    using that by (auto simp: str_lit_def)
  moreover have "str_lit (w @ ''+'') = str_lit w @ [43]" for w by (simp add: str_lit_def)
  from this [of "''Ctrl''"] this [of "''Alt''"] this [of "''Shift''"] this [of "''Meta''"]
  have "str_lit ''Ctrl+'' = str_lit ''Ctrl'' @ [43]" "str_lit ''Alt+'' = str_lit ''Alt'' @ [43]"
    "str_lit ''Shift+'' = str_lit ''Shift'' @ [43]" "str_lit ''Meta+'' = str_lit ''Meta'' @ [43]" by simp_all
  ultimately show ?thesis by (simp add: show_modifiers_def modifier_names_def)
qed

lemma show_modifiers_chars: "32 \<notin> set (show_modifiers m) \<and> (show_modifiers m \<noteq> [] \<longrightarrow> \<not> is_whitespace (hd (show_modifiers m)))"
  by (auto simp: show_modifiers_def str_lit_def is_whitespace_def)

lemma combo_round_trip:
  assumes "plain_combo c"
  shows "combo_parse (show_combo c) = Inr c"
proof -
  note k = show_key_chars [OF assms]
  have "trim (show_combo c) = show_combo c"
    using k show_modifiers_chars [of "kc_modifiers c"] by (intro trim_id) (auto simp: show_combo_def hd_append)
  moreover have "show_combo c \<noteq> []" using k by (simp add: show_combo_def)
  moreover have "split_char 43 (show_combo c) = modifier_names (kc_modifiers c) @ [show_key (kc_key c)]"
    using k by (simp add: show_combo_def show_modifiers_split split_char_id)
  moreover have "trim (show_key (kc_key c)) = show_key (kc_key c)" using k by (simp add: trim_id)
  ultimately show ?thesis using show_key_name [OF assms] parse_modifier_names [of "kc_modifiers c"]
    by (simp add: combo_parse_def Let_def)
qed

lemma find_sep: "32 \<notin> set a \<Longrightarrow> find_str [44, 32] (a @ 44 # 32 # b) = Some a"
proof (induction a)
  case Nil
  then show ?case by (simp add: find_str.simps starts_with_def)
next
  case (Cons x a)
  have "\<not> starts_with [44, 32] ((x # a) @ 44 # 32 # b)" using Cons.prems by (cases a) (auto simp: starts_with_iff)
  then show ?case using Cons by (subst find_str.simps) simp
qed

lemma single_round_trip:
  assumes "plain_combo c"
  shows "shortcut_parse (show_combo c) = Inr (Single c)"
proof -
  have "32 \<notin> set (show_combo c)" using show_key_chars show_modifiers_chars assms by (simp add: show_combo_def)
  then have "find_str (str_lit '', '') (show_combo c) = None" by (auto simp: find_str_None_iff str_lit_def)
  then show ?thesis using combo_round_trip assms by (simp add: shortcut_parse_def split_once_str_def)
qed

text \<open>Every shortcut of named keys, a combo or a chord, is printed to a text that parses back to it.\<close>

theorem shortcut_round_trip:
  assumes "plain_shortcut s"
  shows "shortcut_parse (show_shortcut s) = Inr s"
proof (cases s)
  case (Single c)
  then show ?thesis using single_round_trip assms by simp
next
  case (Chord a b)
  have "32 \<notin> set (show_combo a)" using show_key_chars show_modifiers_chars assms Chord by (simp add: show_combo_def)
  then have "split_once_str (str_lit '', '') (show_combo a @ str_lit '', '' @ show_combo b) = Some (show_combo a, show_combo b)"
    by (simp add: split_once_str_def str_lit_def find_sep)
  then show ?thesis using combo_round_trip assms Chord by (simp add: shortcut_parse_def)
qed

theorem shortcut_round_trip_witness:
  "shortcut_parse (show_shortcut (Chord \<lparr>kc_key = KChar 44, kc_modifiers = mods_empty\<lparr>m_ctrl := True\<rparr>\<rparr> (combo_plain (KF 12)))) =
   Inr (Chord \<lparr>kc_key = KChar 44, kc_modifiers = mods_empty\<lparr>m_ctrl := True\<rparr>\<rparr> (combo_plain (KF 12)))"
  by (rule shortcut_round_trip) (simp add: combo_plain_def is_whitespace_def)

text \<open>The plus key has no name in a combo: it is the separator.\<close>

lemma plus_key_has_no_name: "combo_parse (show_combo \<lparr>kc_key = KChar 43, kc_modifiers = mods_empty\<lparr>m_ctrl := True\<rparr>\<rparr>) = Inl (str_lit ''unknown key: '')"
  by (simp add: combo_parse_def show_combo_def show_modifiers_def ascii_upper_def key_eval)

text \<open>The loader of the keybindings file does not know the insert key, which the other parser does.\<close>

lemma insert_key_of_the_file:
  "shortcut_parse (str_lit ''Shift+Insert'') = Inr (Single \<lparr>kc_key = KInsert, kc_modifiers = mods_empty\<lparr>m_shift := True\<rparr>\<rparr>)"
  "load_entries [\<lparr>ke_key = str_lit ''Shift+Insert'', ke_command = [], ke_when = str_lit ''always''\<rparr>] =
   Inl (str_lit ''unknown key name: '' @ [39] @ str_lit ''Insert'' @ [39])"
proof -
  let ?c = "\<lparr>kc_key = KInsert, kc_modifiers = mods_empty\<lparr>m_shift := True\<rparr>\<rparr>"
  have t: "show_combo ?c = str_lit ''Shift+Insert''" by (simp add: show_combo_def show_modifiers_def mods_empty_def str_lit_def)
  have "find_str (str_lit '', '') (str_lit ''Shift+Insert'') = None" by (simp add: find_str.simps starts_with_def str_lit_def)
  then show "shortcut_parse (str_lit ''Shift+Insert'') = Inr (Single ?c)"
    using combo_round_trip [of ?c] unfolding t by (simp add: shortcut_parse_def split_once_str_def)
  have "parse_shortcut (str_lit ''Shift+Insert'') = Inl (str_lit ''unknown key name: '' @ [39] @ str_lit ''Insert'' @ [39])"
    by (simp add: parse_shortcut_def split_once_str_def find_str.simps starts_with_def parse_key_combo_def parse_key_name_def
      app_key_names_def key_eval)
  then show "load_entries [\<lparr>ke_key = str_lit ''Shift+Insert'', ke_command = [], ke_when = str_lit ''always''\<rparr>] =
     Inl (str_lit ''unknown key name: '' @ [39] @ str_lit ''Insert'' @ [39])" by simp
qed

section \<open>The registry as a list\<close>

definition of_shortcut :: "shortcut \<Rightarrow> key_binding list \<Rightarrow> key_binding list" where
  "of_shortcut s bs = filter (\<lambda>b. kb_shortcut b = s) bs"

definition binding_group :: "key_binding list \<Rightarrow> key_binding list option" where
  "binding_group xs = (if xs = [] then None else Some (by_priority xs))"

definition chord_rel :: "key_binding list \<Rightarrow> key_combo \<Rightarrow> (key_combo \<times> key_binding list) list option \<Rightarrow> bool" where
  "chord_rel bs l x \<longleftrightarrow> (case x of
     None \<Rightarrow> (\<forall>f. of_shortcut (Chord l f) bs = [])
   | Some inner \<Rightarrow> inner \<noteq> [] \<and> (\<forall>f. map_of inner f = binding_group (of_shortcut (Chord l f) bs)))"

definition reg_rel :: "shortcut_registry \<Rightarrow> key_binding list \<Rightarrow> bool" where
  "reg_rel r bs \<longleftrightarrow> (\<forall>c. map_of (sr_singles r) c = binding_group (of_shortcut (Single c) bs)) \<and>
     (\<forall>l. chord_rel bs l (map_of (sr_chords r) l))"

lemma by_priority_step: "by_priority (by_priority xs @ [b]) = by_priority (xs @ [b])"
  unfolding by_priority_def
proof (rule properties_for_sort_key)
  fix k
  show "filter (\<lambda>x. 2 - priority_rank (kb_priority k) = 2 - priority_rank (kb_priority x)) (sort_key (\<lambda>b. 2 - priority_rank (kb_priority b)) (xs @ [b])) =
    filter (\<lambda>x. 2 - priority_rank (kb_priority k) = 2 - priority_rank (kb_priority x)) (sort_key (\<lambda>b. 2 - priority_rank (kb_priority b)) xs @ [b])"
    unfolding eq_commute [of "2 - priority_rank (kb_priority k)"] by (simp only: sort_key_stable filter_append)
qed simp_all

lemma by_priority_Nil [simp]: "by_priority [] = []" "by_priority xs = [] \<longleftrightarrow> xs = []"
  by (simp_all add: by_priority_def) (metis list.size(3) length_0_conv length_sort sort_key_simps(1))

lemma or_default_group: "map_of m k = binding_group xs \<Longrightarrow> by_priority (or_default m k @ [b]) = by_priority (xs @ [b])"
  by (cases "xs = []") (simp_all add: or_default_def binding_group_def by_priority_step)

lemma of_shortcut_simps [simp]:
  "of_shortcut s (bs @ [b]) = (if kb_shortcut b = s then of_shortcut s bs @ [b] else of_shortcut s bs)"
  "of_shortcut s (filter (\<lambda>b. kb_shortcut b \<noteq> t) bs) = (if s = t then [] else of_shortcut s bs)"
  by (auto simp: of_shortcut_def filter_empty_conv intro: filter_cong)


lemma reg_rel_new: "reg_rel shortcuts_new []"
  by (simp add: reg_rel_def shortcuts_new_def of_shortcut_def binding_group_def chord_rel_def)

lemma group_snoc: "binding_group (xs @ [b]) = Some (by_priority (xs @ [b]))"
  by (simp add: binding_group_def)

lemma chord_rel_cong: "(\<And>g. of_shortcut (Chord l g) bs = of_shortcut (Chord l g) bs') \<Longrightarrow> chord_rel bs l x = chord_rel bs' l x"
  by (cases x) (simp_all add: chord_rel_def)

lemma reg_relI: "(\<And>c. map_of (sr_singles r) c = binding_group (of_shortcut (Single c) bs)) \<Longrightarrow>
    (\<And>l. chord_rel bs l (map_of (sr_chords r) l)) \<Longrightarrow> reg_rel r bs"
  by (simp add: reg_rel_def)

lemma reg_relD: "reg_rel r bs \<Longrightarrow> map_of (sr_singles r) c = binding_group (of_shortcut (Single c) bs)"
    "reg_rel r bs \<Longrightarrow> chord_rel bs l (map_of (sr_chords r) l)"
  by (simp_all add: reg_rel_def)

lemma reg_rel_register:
  assumes r: "reg_rel r bs"
  shows "reg_rel (register_binding b r) (bs @ [b])"
proof (cases "kb_shortcut b")
  case (Single c)
  have e: "register_binding b r = r\<lparr>sr_singles := AList.update c (by_priority (or_default (sr_singles r) c @ [b])) (sr_singles r)\<rparr>"
    by (simp add: register_binding_def Single)
  show ?thesis
  proof (rule reg_relI)
    fix c'
    show "map_of (sr_singles (register_binding b r)) c' = binding_group (of_shortcut (Single c') (bs @ [b]))"
      using or_default_group [OF reg_relD(1) [OF r], of c b] reg_relD(1) [OF r, of c'] Single
      by (cases "c' = c") (simp_all add: e update_conv' group_snoc del: map_of_eq_None_iff)
  next
    fix l
    have "chord_rel (bs @ [b]) l x = chord_rel bs l x" for x using Single by (intro chord_rel_cong) simp
    then show "chord_rel (bs @ [b]) l (map_of (sr_chords (register_binding b r)) l)" using reg_relD(2) [OF r, of l] by (simp add: e)
  qed
next
  case (Chord l f)
  define inner where "inner = or_default (sr_chords r) l"
  have inner: "map_of inner g = binding_group (of_shortcut (Chord l g) bs)" for g
  proof (cases "map_of (sr_chords r) l")
    case None
    then have "of_shortcut (Chord l g) bs = []" using reg_relD(2) [OF r, of l] by (simp add: chord_rel_def)
    then show ?thesis using None by (simp add: inner_def or_default_def binding_group_def)
  next
    case (Some m)
    then have "map_of m g = binding_group (of_shortcut (Chord l g) bs)" using reg_relD(2) [OF r, of l] by (simp add: chord_rel_def)
    then show ?thesis using Some by (simp add: inner_def or_default_def)
  qed
  define inner' where "inner' = AList.update f (by_priority (or_default inner f @ [b])) inner"
  have inner': "map_of inner' g = binding_group (of_shortcut (Chord l g) (bs @ [b]))" for g
    using or_default_group [OF inner, of f b] inner [of g] Chord
    by (simp add: inner'_def update_conv' group_snoc del: map_of_eq_None_iff)
  have ne: "inner' \<noteq> []" using inner' [of f] Chord by (auto simp: group_snoc)
  have reg: "register_binding b r = r\<lparr>sr_chords := AList.update l inner' (sr_chords r)\<rparr>"
    by (simp add: register_binding_def Chord Let_def inner_def inner'_def)
  have old: "case map_of (sr_chords r) k of None \<Rightarrow> \<forall>g. of_shortcut (Chord k g) bs = []
      | Some m \<Rightarrow> m \<noteq> [] \<and> (\<forall>g. map_of m g = binding_group (of_shortcut (Chord k g) bs))" for k
    using r by (simp add: reg_rel_def chord_rel_def)
  have "case map_of (AList.update l inner' (sr_chords r)) k of None \<Rightarrow> \<forall>g. of_shortcut (Chord k g) (bs @ [b]) = []
      | Some m \<Rightarrow> m \<noteq> [] \<and> (\<forall>g. map_of m g = binding_group (of_shortcut (Chord k g) (bs @ [b])))" for k
  proof (cases "k = l")
    case True
    then show ?thesis using inner' ne by (simp add: update_conv')
  next
    case False
    then have "of_shortcut (Chord k g) (bs @ [b]) = of_shortcut (Chord k g) bs" for g using Chord by simp
    then show ?thesis using old [of k] False by (simp add: update_conv' del: of_shortcut_simps split: option.splits)
  qed
  moreover have "\<forall>c. map_of (sr_singles r) c = binding_group (of_shortcut (Single c) (bs @ [b]))"
    using r Chord by (simp add: reg_rel_def)
  ultimately show ?thesis unfolding reg by (simp add: reg_rel_def chord_rel_def)
qed

lemma map_of_empty_iff: "m = [] \<longleftrightarrow> (\<forall>k. map_of m k = None)"
  by (cases m) (auto intro: exI)

lemma reg_rel_unregister:
  assumes r: "reg_rel r bs"
  shows "reg_rel (unregister_shortcut s r) (filter (\<lambda>b. kb_shortcut b \<noteq> s) bs)"
proof (cases s)
  case (Single c)
  have e: "unregister_shortcut s r = r\<lparr>sr_singles := AList.delete c (sr_singles r)\<rparr>" by (simp add: unregister_shortcut_def Single)
  show ?thesis
  proof (rule reg_relI)
    fix c'
    show "map_of (sr_singles (unregister_shortcut s r)) c' = binding_group (of_shortcut (Single c') (filter (\<lambda>b. kb_shortcut b \<noteq> s) bs))"
      unfolding e using reg_relD(1) [OF r, of c'] Single by (cases "c' = c") (simp_all add: delete_conv' binding_group_def del: map_of_eq_None_iff)
  next
    fix l
    have "chord_rel (filter (\<lambda>b. kb_shortcut b \<noteq> s) bs) l x = chord_rel bs l x" for x using Single by (intro chord_rel_cong) simp
    then show "chord_rel (filter (\<lambda>b. kb_shortcut b \<noteq> s) bs) l (map_of (sr_chords (unregister_shortcut s r)) l)"
      using reg_relD(2) [OF r, of l] by (simp add: e)
  qed
next
  case (Chord l f)
  let ?bs = "filter (\<lambda>b. kb_shortcut b \<noteq> s) bs"
  have singles: "\<forall>c. map_of (sr_singles r) c = binding_group (of_shortcut (Single c) ?bs)"
    using r Chord by (simp add: reg_rel_def)
  have old: "case map_of (sr_chords r) k of None \<Rightarrow> \<forall>g. of_shortcut (Chord k g) bs = []
      | Some m \<Rightarrow> m \<noteq> [] \<and> (\<forall>g. map_of m g = binding_group (of_shortcut (Chord k g) bs))" for k
    using r by (simp add: reg_rel_def chord_rel_def)
  have other: "k \<noteq> l \<Longrightarrow> of_shortcut (Chord k g) ?bs = of_shortcut (Chord k g) bs" for k g using Chord by simp
  show ?thesis
  proof (cases "map_of (sr_chords r) l")
    case None
    then have "of_shortcut (Chord l g) bs = []" for g using old [of l] by simp
    then have "of_shortcut (Chord k g) ?bs = of_shortcut (Chord k g) bs" for k g using Chord by (cases "k = l") simp_all
    then have "chord_rel ?bs k x = chord_rel bs k x" for k x by (rule chord_rel_cong)
    then have "reg_rel r ?bs" using singles reg_relD(2) [OF r] by (intro reg_relI) simp_all
    then show ?thesis using None Chord by (simp add: unregister_shortcut_def)
  next
    case (Some m)
    define m' where "m' = AList.delete f m"
    have m': "map_of m' g = binding_group (of_shortcut (Chord l g) ?bs)" for g
      using old [of l] Some Chord by (simp add: m'_def delete_conv' binding_group_def)
    have c: "case map_of (sr_chords (unregister_shortcut s r)) k of None \<Rightarrow> \<forall>g. of_shortcut (Chord k g) ?bs = []
      | Some m \<Rightarrow> m \<noteq> [] \<and> (\<forall>g. map_of m g = binding_group (of_shortcut (Chord k g) ?bs))" for k
    proof (cases "k = l")
      case False
      then show ?thesis using old [of k] other [of k] Some Chord
        by (simp add: unregister_shortcut_def Let_def delete_conv' update_conv' del: of_shortcut_simps split: option.splits)
    next
      case True
      show ?thesis
      proof (cases "m' = []")
        case True
        then have "binding_group (of_shortcut (Chord l g) ?bs) = None" for g using m' [of g] by simp
        then have "of_shortcut (Chord l g) ?bs = []" for g by (metis binding_group_def option.distinct(1))
        then show ?thesis using True \<open>k = l\<close> Some Chord
          by (simp add: unregister_shortcut_def Let_def delete_conv' m'_def [symmetric] del: of_shortcut_simps)
      next
        case False
        then show ?thesis using \<open>k = l\<close> Some Chord m'
          by (simp add: unregister_shortcut_def Let_def update_conv' m'_def [symmetric] del: of_shortcut_simps)
      qed
    qed
    have "sr_singles (unregister_shortcut s r) = sr_singles r" using Some Chord by (simp add: unregister_shortcut_def Let_def)
    then show ?thesis using c singles by (simp add: reg_rel_def chord_rel_def del: of_shortcut_simps)
  qed
qed

datatype shortcut_op = Register key_binding | Unregister shortcut

fun shortcut_step :: "shortcut_op \<Rightarrow> shortcut_registry \<Rightarrow> shortcut_registry" where
  "shortcut_step (Register b) r = register_binding b r"
| "shortcut_step (Unregister s) r = unregister_shortcut s r"

text \<open>The same on the plain list of bindings in the order they were registered.\<close>

fun list_step :: "shortcut_op \<Rightarrow> key_binding list \<Rightarrow> key_binding list" where
  "list_step (Register b) bs = bs @ [b]"
| "list_step (Unregister s) bs = filter (\<lambda>b. kb_shortcut b \<noteq> s) bs"

lemma reg_rel_run: "reg_rel r bs \<Longrightarrow> reg_rel (fold shortcut_step ops r) (fold list_step ops bs)"
proof (induction ops arbitrary: r bs)
  case (Cons op ops)
  have "reg_rel (shortcut_step op r) (list_step op bs)"
    using reg_rel_register [OF Cons.prems] reg_rel_unregister [OF Cons.prems] by (cases op) simp_all
  then show ?case using Cons.IH by simp
qed simp

lemma lookup_rel:
  assumes r: "reg_rel r bs"
  shows "lookup_combo r c =
      (let xs = by_priority (of_shortcut (Single c) bs); leader = (\<exists>f. of_shortcut (Chord c f) bs \<noteq> [])
       in if xs \<noteq> [] then Matched xs leader else if leader then ChordLeader else NoMatch)"
    and "lookup_chord r c f = by_priority (of_shortcut (Chord c f) bs)"
proof -
  have s: "map_of (sr_singles r) c = binding_group (of_shortcut (Single c) bs)" using r by (simp add: reg_rel_def)
  have ch: "case map_of (sr_chords r) c of None \<Rightarrow> \<forall>g. of_shortcut (Chord c g) bs = []
      | Some m \<Rightarrow> m \<noteq> [] \<and> (\<forall>g. map_of m g = binding_group (of_shortcut (Chord c g) bs))"
    using r by (simp add: reg_rel_def chord_rel_def)
  have leader: "map_of (sr_chords r) c \<noteq> None \<longleftrightarrow> (\<exists>f. of_shortcut (Chord c f) bs \<noteq> [])"
  proof (cases "map_of (sr_chords r) c")
    case None
    then show ?thesis using ch by simp
  next
    case (Some m)
    have "m \<noteq> []" using Some ch by simp
    then obtain g where "map_of m g \<noteq> None" unfolding map_of_empty_iff [of m] by blast
    moreover have "map_of m g = binding_group (of_shortcut (Chord c g) bs)" using Some ch by simp
    ultimately have "of_shortcut (Chord c g) bs \<noteq> []" by (metis binding_group_def)
    then show ?thesis using Some by blast
  qed
  show "lookup_combo r c = (let xs = by_priority (of_shortcut (Single c) bs); leader = (\<exists>f. of_shortcut (Chord c f) bs \<noteq> [])
       in if xs \<noteq> [] then Matched xs leader else if leader then ChordLeader else NoMatch)"
    unfolding lookup_combo_def s leader Let_def by (simp add: binding_group_def)
  show "lookup_chord r c f = by_priority (of_shortcut (Chord c f) bs)"
    using ch by (cases "map_of (sr_chords r) c") (auto simp: lookup_chord_def or_default_def binding_group_def split: option.split)
qed

text \<open>The registry implements the list of bindings in the order they were registered: after any registering and
  unregistering, looking up a combo gives the bindings of that combo, higher priorities first and equal ones in the
  order of the list, says whether a chord starts with it, and the bindings of a chord are found the same way.\<close>

theorem registry_refines_list:
  "let r = fold shortcut_step ops shortcuts_new; bs = fold list_step ops [];
       xs = sort_key (\<lambda>b. 2 - priority_rank (kb_priority b)) (filter (\<lambda>b. kb_shortcut b = Single c) bs);
       leader = (\<exists>b \<in> set bs. \<exists>f. kb_shortcut b = Chord c f)
   in lookup_combo r c = (if xs \<noteq> [] then Matched xs leader else if leader then ChordLeader else NoMatch) \<and>
      lookup_chord r c f = sort_key (\<lambda>b. 2 - priority_rank (kb_priority b)) (filter (\<lambda>b. kb_shortcut b = Chord c f) bs)"
proof -
  have R: "reg_rel (fold shortcut_step ops shortcuts_new) (fold list_step ops [])" by (rule reg_rel_run [OF reg_rel_new])
  have "(\<exists>f. of_shortcut (Chord c f) bs \<noteq> []) \<longleftrightarrow> (\<exists>b \<in> set bs. \<exists>f. kb_shortcut b = Chord c f)" for bs
    by (auto simp: of_shortcut_def filter_empty_conv)
  then show ?thesis using lookup_rel [OF R, of c] by (simp add: Let_def by_priority_def of_shortcut_def)
qed

end
