(* ===== verification/Keybinds_Props.thy ===== *)
theory Keybinds_Props
  imports Keybinds Keys_Props "HOL-Library.Countable"
begin

text \<open>
  The editable shortcuts: the defaults parse and are distinct, so no two actions share a combo whatever
  is set, saved overrides are read back, and a pressed combo runs its action.
\<close>

section \<open>Defaults\<close>

definition mods :: "bool \<Rightarrow> bool \<Rightarrow> bool \<Rightarrow> bool \<Rightarrow> modifiers" where
  "mods c a s m = \<lparr>m_shift = s, m_ctrl = c, m_alt = a, m_meta = m\<rparr>"

definition combo_of :: "key \<Rightarrow> modifiers \<Rightarrow> key_combo" where
  "combo_of k m = \<lparr>kc_key = k, kc_modifiers = m\<rparr>"

fun macos_default :: "keybind_action \<Rightarrow> key_combo" where
  "macos_default NewTerminal = combo_of (KChar 116) (mods False False False True)"
| "macos_default NewAgent = combo_of (KChar 97) (mods False False True True)"
| "macos_default NewClaudeAgent = combo_of (KChar 108) (mods False False True True)"
| "macos_default NewCodexAgent = combo_of (KChar 120) (mods False False True True)"
| "macos_default CloseTab = combo_of (KChar 119) (mods False False True True)"
| "macos_default SplitRight = combo_of (KChar 100) (mods False False False True)"
| "macos_default SplitDown = combo_of (KChar 100) (mods False False True True)"
| "macos_default Unsplit = combo_of (KChar 119) (mods False False False True)"
| "macos_default FocusLeft = combo_of KLeft (mods False True False True)"
| "macos_default FocusRight = combo_of KRight (mods False True False True)"
| "macos_default FocusUp = combo_of KUp (mods False True False True)"
| "macos_default FocusDown = combo_of KDown (mods False True False True)"
| "macos_default NextTab = combo_of (KChar 93) (mods False False True True)"
| "macos_default PrevTab = combo_of (KChar 91) (mods False False True True)"
| "macos_default CommandPalette = combo_of (KChar 112) (mods False False True True)"
| "macos_default QuickPromptOpen = combo_of (KChar 105) (mods False False True True)"
| "macos_default RenameSession = combo_of (KF 2) (mods False False False False)"
| "macos_default OpenFile = combo_of (KChar 111) (mods False False False True)"
| "macos_default QuickOpen = combo_of (KChar 112) (mods False False False True)"
| "macos_default DiffOpen = combo_of (KChar 103) (mods False False True True)"
| "macos_default EditorSave = combo_of (KChar 115) (mods False False False True)"
| "macos_default ToggleExplorer = combo_of (KChar 98) (mods False False False True)"
| "macos_default ToggleSidebar = combo_of (KChar 98) (mods False False True True)"
| "macos_default OpenSettings = combo_of (KChar 44) (mods False False False True)"
| "macos_default ZoomIn = combo_of (KChar 61) (mods False False False True)"
| "macos_default ZoomOut = combo_of (KChar 45) (mods False False False True)"
| "macos_default ZoomReset = combo_of (KChar 48) (mods False False False True)"
| "macos_default Fullscreen = combo_of (KChar 102) (mods True False False True)"

fun other_default :: "keybind_action \<Rightarrow> key_combo" where
  "other_default NewTerminal = combo_of (KChar 116) (mods True False False False)"
| "other_default NewAgent = combo_of (KChar 97) (mods True False True False)"
| "other_default NewClaudeAgent = combo_of (KChar 108) (mods True False True False)"
| "other_default NewCodexAgent = combo_of (KChar 120) (mods True False True False)"
| "other_default CloseTab = combo_of (KChar 119) (mods True False True False)"
| "other_default SplitRight = combo_of (KChar 100) (mods True False False False)"
| "other_default SplitDown = combo_of (KChar 100) (mods True False True False)"
| "other_default Unsplit = combo_of (KChar 119) (mods True False False False)"
| "other_default FocusLeft = combo_of KLeft (mods True True False False)"
| "other_default FocusRight = combo_of KRight (mods True True False False)"
| "other_default FocusUp = combo_of KUp (mods True True False False)"
| "other_default FocusDown = combo_of KDown (mods True True False False)"
| "other_default NextTab = combo_of KTab (mods True False False False)"
| "other_default PrevTab = combo_of KTab (mods True False True False)"
| "other_default CommandPalette = combo_of (KChar 112) (mods True False True False)"
| "other_default QuickPromptOpen = combo_of (KChar 113) (mods True False True False)"
| "other_default RenameSession = combo_of (KF 2) (mods False False False False)"
| "other_default OpenFile = combo_of (KChar 111) (mods True False True False)"
| "other_default QuickOpen = combo_of (KChar 101) (mods True False True False)"
| "other_default DiffOpen = combo_of (KChar 103) (mods True False True False)"
| "other_default EditorSave = combo_of (KChar 115) (mods True False True False)"
| "other_default ToggleExplorer = combo_of (KChar 98) (mods True False False False)"
| "other_default ToggleSidebar = combo_of (KChar 98) (mods True False True False)"
| "other_default OpenSettings = combo_of (KChar 44) (mods True False False False)"
| "other_default ZoomIn = combo_of (KChar 61) (mods True False False False)"
| "other_default ZoomOut = combo_of (KChar 45) (mods True False False False)"
| "other_default ZoomReset = combo_of (KChar 48) (mods True False False False)"
| "other_default Fullscreen = combo_of (KF 11) (mods False False False False)"

definition the_default :: "bool \<Rightarrow> keybind_action \<Rightarrow> key_combo" where
  "the_default macos a = (if macos then macos_default a else other_default a)"

lemma default_shown: "default_combo_str macos a = show_combo (the_default macos a)"
  by (cases macos; cases a) (simp_all add: default_combo_str_def the_default_def show_combo_def show_modifiers_def
    combo_of_def mods_def ascii_upper_def str_lit_def show_nat.simps)

lemma default_plain: "plain_combo (the_default macos a)"
  by (cases macos; cases a) (simp_all add: the_default_def combo_of_def is_whitespace_def)

lemma default_combo_eq: "default_combo macos a = Some (the_default macos a)"
  by (simp add: default_combo_def default_shown combo_round_trip default_plain)

lemma all_actions_all [simp]: "a \<in> set all_actions"
  by (cases a) (simp_all add: all_actions_def)

lemma all_actions_distinct: "distinct all_actions"
  by (simp add: all_actions_def)

lemma default_inj: "inj (the_default macos)"
proof -
  have "distinct (map (the_default macos) all_actions)"
    by (cases macos) (simp_all add: all_actions_def the_default_def combo_of_def mods_def)
  then have "inj_on (the_default macos) (set all_actions)" by (simp add: distinct_map)
  moreover have "set all_actions = UNIV" by auto
  ultimately show ?thesis by simp
qed

section \<open>Editing\<close>

abbreviation combo_in :: "bool \<Rightarrow> user_keybinds \<Rightarrow> keybind_action \<Rightarrow> key_combo" where
  "combo_in macos m a \<equiv> (case m a of Some c \<Rightarrow> c | None \<Rightarrow> the_default macos a)"

lemma effective_eq: "effective macos s a = Some (combo_in macos (kbs_overrides s) a)"
  by (simp add: effective_def default_combo_eq split: option.split)

lemma conflict_among_eq:
  "conflict_among macos s combo except as = Some (find (\<lambda>a. a \<noteq> except \<and> combo_in macos (kbs_overrides s) a = combo) as)"
  by (induction as) (auto simp: effective_eq)

lemma conflict_eq: "conflict macos combo except s = Some (find (\<lambda>a. a \<noteq> except \<and> combo_in macos (kbs_overrides s) a = combo) all_actions)"
  by (simp add: conflict_def conflict_among_eq)

definition exclusive :: "bool \<Rightarrow> keybinds_state \<Rightarrow> bool" where
  "exclusive macos s \<longleftrightarrow> inj (combo_in macos (kbs_overrides s))"

lemma keybind_set_exclusive:
  assumes e: "exclusive macos s"
  shows "\<exists>ok s'. keybind_set macos a combo s = Some (ok, s') \<and> exclusive macos s' \<and>
    (ok \<longleftrightarrow> (\<forall>b. b \<noteq> a \<longrightarrow> effective macos s b \<noteq> Some combo)) \<and>
    (\<forall>b. effective macos s' b = (if ok \<and> b = a then Some combo else effective macos s b))"
proof (cases "find (\<lambda>b. b \<noteq> a \<and> combo_in macos (kbs_overrides s) b = combo) all_actions")
  case (Some b)
  then have b: "b \<noteq> a" "combo_in macos (kbs_overrides s) b = combo" by (auto simp: find_Some_iff)
  have "keybind_set macos a combo s = Some (False, s\<lparr>kbs_error := Some (a, Conflict b (show_combo combo))\<rparr>)"
    by (simp add: keybind_set_def conflict_eq Some)
  moreover have "effective macos (s\<lparr>kbs_error := x\<rparr>) c = effective macos s c" for c x by (simp add: effective_def)
  moreover have "effective macos s b = Some combo" using b by (simp add: effective_eq)
  ultimately show ?thesis using e b by (auto simp: exclusive_def)
next
  case None
  then have other: "b \<noteq> a \<Longrightarrow> combo_in macos (kbs_overrides s) b \<noteq> combo" for b by (auto simp: find_None_iff)
  let ?m = "if combo = the_default macos a then (kbs_overrides s)(a := None) else (kbs_overrides s)(a \<mapsto> combo)"
  let ?s = "s\<lparr>kbs_overrides := ?m, kbs_recording := None, kbs_error := None\<rparr>"
  have set: "keybind_set macos a combo s = Some (True, ?s)" by (simp add: keybind_set_def conflict_eq None default_combo_eq)
  have c: "combo_in macos ?m b = (if b = a then combo else combo_in macos (kbs_overrides s) b)" for b by simp
  have "inj (combo_in macos ?m)"
  proof (rule injI)
    fix x y
    assume "combo_in macos ?m x = combo_in macos ?m y"
    then show "x = y" using e other unfolding c exclusive_def by (auto split: if_splits dest: injD)
  qed
  then have "exclusive macos ?s" by (simp add: exclusive_def)
  moreover have "effective macos ?s b = (if b = a then Some combo else effective macos s b)" for b
    unfolding effective_eq using c [of b] by simp
  moreover have "\<forall>b. b \<noteq> a \<longrightarrow> effective macos s b \<noteq> Some combo" using other by (simp add: effective_eq)
  ultimately show ?thesis using set by (intro exI [of _ True] exI [of _ ?s] conjI) simp_all
qed

text \<open>What the settings page does to the bindings, but for resetting a single one.\<close>

datatype keybind_op = SetCombo keybind_action key_combo | SetCommand rstr | Record keybind_action | CancelRecord | ResetAll

fun keybind_step :: "bool \<Rightarrow> keybind_op \<Rightarrow> keybinds_state \<Rightarrow> keybinds_state option" where
  "keybind_step macos (SetCombo a c) s = map_option snd (keybind_set macos a c s)"
| "keybind_step macos (SetCommand cmd) s = map_option snd (dispatch_keybind_set macos cmd s)"
| "keybind_step macos (Record a) s = Some (start_recording a s)"
| "keybind_step macos CancelRecord s = Some (cancel_recording s)"
| "keybind_step macos ResetAll s = Some (keybind_reset_all s)"

fun keybind_steps :: "bool \<Rightarrow> keybind_op list \<Rightarrow> keybinds_state \<Rightarrow> keybinds_state option" where
  "keybind_steps macos [] s = Some s"
| "keybind_steps macos (op # ops) s = do { s' \<leftarrow> keybind_step macos op s; keybind_steps macos ops s' }"

lemma exclusive_empty: "kbs_overrides s = Map.empty \<Longrightarrow> exclusive macos s"
  using default_inj [of macos] by (simp add: exclusive_def)

lemma dispatch_set_exclusive:
  assumes e: "exclusive macos s"
  shows "\<exists>ok s'. dispatch_keybind_set macos cmd s = Some (ok, s') \<and> exclusive macos s'"
proof -
  have "\<exists>ok s'. keybind_set macos a c s = Some (ok, s') \<and> exclusive macos s'" for a c
    using keybind_set_exclusive [OF e, of a c] by blast
  moreover have "exclusive macos (s\<lparr>kbs_error := x\<rparr>)" for x using e by (simp add: exclusive_def)
  ultimately show ?thesis using e
    by (fastforce simp: dispatch_keybind_set_def split: option.split sum.split prod.split)
qed

lemma keybind_step_exclusive: "exclusive macos s \<Longrightarrow> \<exists>s'. keybind_step macos op s = Some s' \<and> exclusive macos s'"
proof (cases op)
  case (SetCombo a c)
  assume "exclusive macos s"
  from keybind_set_exclusive [OF this, of a c] show ?thesis using SetCombo by fastforce
next
  case (SetCommand cmd)
  assume "exclusive macos s"
  from dispatch_set_exclusive [OF this, of cmd] show ?thesis using SetCommand by fastforce
qed (simp_all add: start_recording_def cancel_recording_def keybind_reset_all_def exclusive_empty, simp_all add: exclusive_def)

lemma keybind_steps_exclusive: "exclusive macos s \<Longrightarrow> \<exists>s'. keybind_steps macos ops s = Some s' \<and> exclusive macos s'"
proof (induction ops arbitrary: s)
  case (Cons op ops)
  obtain s' where s': "keybind_step macos op s = Some s'" "exclusive macos s'" using keybind_step_exclusive [OF Cons.prems] by blast
  then show ?case using Cons.IH [OF s'(2)] by simp
qed simp

text \<open>C32: Whatever is set, recorded or reset as a whole from the default bindings on, the editing returns, every action
  has a combo and no two actions have the same one.\<close>

theorem one_action_per_combo:
  "\<exists>s. keybind_steps macos ops (with_overrides Map.empty) = Some s \<and>
     None \<notin> range (effective macos s) \<and> inj (effective macos s)"
proof -
  obtain s where s: "keybind_steps macos ops (with_overrides Map.empty) = Some s" "exclusive macos s"
    using keybind_steps_exclusive [OF exclusive_empty, of "with_overrides Map.empty"] by (auto simp: with_overrides_def)
  have "inj (effective macos s)" using s(2) by (auto simp: inj_def exclusive_def effective_eq)
  then show ?thesis using s(1) by (auto simp: effective_eq)
qed

text \<open>Resetting one action does not ask whether its default is taken: two actions then share a combo.\<close>

lemma reset_shares_a_combo:
  "\<exists>s1 s2. keybind_set False NewTerminal (combo_plain (KF 5)) (with_overrides Map.empty) = Some (True, s1) \<and>
     keybind_set False SplitDown (combo_of (KChar 116) (mods True False False False)) s1 = Some (True, s2) \<and>
     effective False (keybind_reset NewTerminal s2) NewTerminal = effective False (keybind_reset NewTerminal s2) SplitDown"
  by (simp add: keybind_set_def conflict_eq default_combo_eq with_overrides_def all_actions_def the_default_def
    combo_of_def mods_def combo_plain_def mods_empty_def keybind_reset_def effective_eq)

section \<open>The file of overrides\<close>

lemma action_id_inj: "inj action_id"
proof -
  have "distinct (map action_id all_actions)" by (simp add: all_actions_def str_lit_def)
  then have "inj_on action_id (set all_actions)" by (simp add: distinct_map)
  moreover have "set all_actions = UNIV" by auto
  ultimately show ?thesis by simp
qed

lemma action_from_id [simp]: "action_from_id (action_id a) = Some a"
proof -
  obtain b where b: "action_from_id (action_id a) = Some b"
    by (cases "action_from_id (action_id a)") (auto simp: action_from_id_def find_None_iff)
  then have "action_id b = action_id a" by (auto simp: action_from_id_def find_Some_iff)
  then show ?thesis using b action_id_inj by (simp add: inj_eq)
qed

lemma set_save_entries: "set (save_entries m) = {(action_id a, show_combo c) |a c. m a = Some c}"
  by (auto simp: save_entries_def List.map_filter_def image_iff) force+

lemma load_saved:
  assumes p: "\<And>a c. m a = Some c \<Longrightarrow> plain_combo c"
  shows "set es \<subseteq> set (save_entries m) \<Longrightarrow> load_overrides es m0 = (\<lambda>a. if action_id a \<in> fst ` set es then m a else m0 a)"
proof (induction es arbitrary: m0)
  case (Cons e es)
  obtain a c where e: "e = (action_id a, show_combo c)" "m a = Some c" using Cons.prems unfolding set_save_entries by auto
  have "combo_parse (show_combo c) = Inr c" by (rule combo_round_trip [OF p [OF e(2)]])
  then have "load_overrides (e # es) m0 = load_overrides es (m0(a \<mapsto> c))" by (simp add: e(1))
  also have "\<dots> = (\<lambda>b. if action_id b \<in> fst ` set es then m b else (m0(a \<mapsto> c)) b)" using Cons by simp
  also have "\<dots> = (\<lambda>b. if action_id b \<in> fst ` set (e # es) then m b else m0 b)" using e action_id_inj by (auto simp: inj_eq)
  finally show ?case .
qed simp

text \<open>Overrides of named keys that are saved are the ones loaded at the next start, whatever the order in which the
  JSON library gives the entries back.\<close>

theorem overrides_round_trip:
  assumes "\<And>a c. m a = Some c \<Longrightarrow> plain_combo c"
    and "\<And>es. distinct (map fst es) \<Longrightarrow> \<exists>es'. from_json (to_json es) = Some es' \<and> mset es' = mset es"
  shows "load_user_keybinds from_json (Some (save_user_keybinds to_json m)) = m"
proof -
  have "map fst (save_entries m) = map action_id (filter (\<lambda>a. m a \<noteq> None) all_actions)"
    by (auto simp: save_entries_def List.map_filter_def intro!: map_cong filter_cong)
  then have "distinct (map fst (save_entries m))"
    using action_id_inj all_actions_distinct by (simp add: distinct_map inj_on_subset [OF _ subset_UNIV])
  then obtain es where es: "from_json (to_json (save_entries m)) = Some es" "set es = set (save_entries m)"
    using assms(2) [of "save_entries m"] mset_eq_setD by blast
  have "load_overrides es Map.empty = (\<lambda>a. if action_id a \<in> fst ` set (save_entries m) then m a else None)"
    using load_saved [of m es Map.empty] assms(1) es(2) by simp
  also have "\<dots> = m" using action_id_inj by (fastforce simp: set_save_entries inj_eq image_iff)
  finally show ?thesis by (simp add: load_user_keybinds_def save_user_keybinds_def es(1))
qed

theorem overrides_round_trip_witness:
  "load_user_keybinds (\<lambda>t. Some (rev (from_nat (hd t)))) (Some (save_user_keybinds (\<lambda>es. [to_nat es])
     [Unsplit \<mapsto> combo_plain (KF 4), ZoomIn \<mapsto> combo_of (KChar 122) (mods True False False True)])) =
   [Unsplit \<mapsto> combo_plain (KF 4), ZoomIn \<mapsto> combo_of (KChar 122) (mods True False False True)]"
  by (rule overrides_round_trip) (auto simp: combo_plain_def combo_of_def is_whitespace_def split: if_splits)

section \<open>From a key press to its command\<close>

text \<open>The bindings that parse, in the order they are registered.\<close>

definition user_bindings :: "(rstr \<times> rstr) list \<Rightarrow> key_binding list" where
  "user_bindings us = concat (map (\<lambda>(s, command). case shortcut_parse s of
     Inr x \<Rightarrow> [\<lparr>kb_shortcut = x, kb_command = command, kb_when = Always, kb_priority = UserPriority\<rparr>] | Inl _ \<Rightarrow> []) us)"

lemma register_user_fold: "register_user_shortcuts us r = fold register_in (user_bindings us) r"
proof (induction us arbitrary: r)
  case (Cons u us)
  then show ?case by (cases u) (simp add: user_bindings_def split: sum.split)
qed (simp add: user_bindings_def)

lemma fold_register_in: "fold register_in bs r = r\<lparr>rv_registry := fold shortcut_step (map Register bs) (rv_registry r)\<rparr>"
  by (induction bs arbitrary: r) (simp_all add: register_in_def)

lemma list_steps_register: "fold list_step (map Register bs) xs = xs @ bs"
  by (induction bs arbitrary: xs) simp_all

definition default_bindings :: "key_binding list" where
  "default_bindings =
     [\<lparr>kb_shortcut = Single (combo_plain KTab), kb_command = str_lit ''focus.next'', kb_when = Always, kb_priority = DefaultPriority\<rparr>,
      \<lparr>kb_shortcut = Single \<lparr>kc_key = KTab, kc_modifiers = mods_empty\<lparr>m_shift := True\<rparr>\<rparr>,
        kb_command = str_lit ''focus.prev'', kb_when = Always, kb_priority = DefaultPriority\<rparr>]"

lemma started_resolver: "start_resolver us None =
    resolver_new\<lparr>rv_registry := fold shortcut_step (map Register (default_bindings @ user_bindings us)) shortcuts_new\<rparr>"
proof -
  have "register_defaults r = fold register_in default_bindings r" for r by (simp add: register_defaults_def default_bindings_def)
  then have "start_resolver us None = fold register_in (default_bindings @ user_bindings us) resolver_new"
    by (simp add: start_resolver_def register_user_fold)
  then show ?thesis by (simp add: fold_register_in resolver_new_def)
qed

lemma started_registry: "reg_rel (rv_registry (start_resolver us None)) (default_bindings @ user_bindings us)"
  using reg_rel_run [OF reg_rel_new, of "map Register (default_bindings @ user_bindings us)"]
  by (simp add: started_resolver list_steps_register del: map_append)

lemma hd_sort_key:
  assumes "\<And>x. x \<in> set xs \<Longrightarrow> f x > f b" "\<And>y. y \<in> set ys \<Longrightarrow> f y \<ge> (f b :: nat)"
  shows "\<exists>zs. sort_key f (xs @ b # ys) = b # zs"
proof -
  let ?s = "sort_key f (xs @ b # ys)"
  obtain z zs where s: "?s = z # zs" by (cases ?s) (auto dest: arg_cong [of _ _ set])
  have "sorted (map f ?s)" by simp
  then have "f z \<le> f b" using s by (metis in_set_conv_decomp list.simps(9) set_ConsD set_sort sorted_simps(2) image_eqI list.set_map nle_le)
  moreover have "z \<in> set (xs @ b # ys)" using s by (metis list.set_intros(1) set_sort)
  ultimately have z: "f z = f b" using assms by (auto simp: order.antisym dest: leD)
  have "filter (\<lambda>x. f x = f b) ?s = filter (\<lambda>x. f x = f b) (xs @ b # ys)" by (rule sort_key_stable)
  moreover have "filter (\<lambda>x. f x = f b) xs = []" using assms(1) less_irrefl [of "f b"] unfolding filter_empty_conv by metis
  ultimately have "z = b" using z unfolding s by simp
  then show ?thesis using s by blast
qed

text \<open>The first user binding of a combo wins, whatever the framework registers for it.\<close>

lemma first_user_binding_runs:
  assumes u: "user_bindings us = xs @ b # ys" and b: "kb_shortcut b = Single c"
    and x: "\<And>x. x \<in> set xs \<Longrightarrow> kb_shortcut x \<noteq> Single c"
  shows "process_key now c focused arena (start_resolver us None) = (Some (kb_command b), start_resolver us None)"
proof -
  let ?f = "\<lambda>b. 2 - priority_rank (kb_priority b)"
  have user: "x \<in> set (user_bindings us) \<Longrightarrow> kb_priority x = UserPriority \<and> kb_when x = Always" for x
    by (auto simp: user_bindings_def split: sum.splits)
  then have ub: "kb_priority b = UserPriority" "kb_when b = Always" using u by simp_all
  have xs: "filter (\<lambda>b. kb_shortcut b = Single c) xs = []" using x by (auto simp: filter_empty_conv)
  have "of_shortcut (Single c) (default_bindings @ user_bindings us) =
      of_shortcut (Single c) default_bindings @ b # of_shortcut (Single c) ys"
    using u b xs by (simp add: of_shortcut_def)
  moreover have "\<exists>zs. sort_key ?f (of_shortcut (Single c) default_bindings @ b # of_shortcut (Single c) ys) = b # zs"
    by (rule hd_sort_key) (auto simp: ub of_shortcut_def default_bindings_def split: if_splits)
  ultimately obtain zs where "by_priority (of_shortcut (Single c) (default_bindings @ user_bindings us)) = b # zs"
    by (auto simp: by_priority_def)
  then obtain l where "lookup_combo (rv_registry (start_resolver us None)) c = Matched (b # zs) l"
    using lookup_rel(1) [OF started_registry, of us c] by (simp add: Let_def)
  moreover have "rv_pending_chord (start_resolver us None) = None" by (simp add: started_resolver resolver_new_def)
  moreover have "start_resolver us None\<lparr>rv_pending_chord := None\<rparr> = start_resolver us None"
    by (simp add: started_resolver resolver_new_def)
  ultimately show ?thesis
    by (simp add: process_key_def process_single_def first_matching_def ub(2))
qed

lemma action_bindings_eq: "action_bindings macos m as = Some (map (\<lambda>a. (show_combo (combo_in macos m a), dispatch_command a)) as)"
  by (induction as) (simp_all add: default_combo_eq split: option.split)

lemma user_bindings_actions:
  assumes "\<And>a. plain_combo (combo_in macos m a)"
  shows "user_bindings (map (\<lambda>a. (show_combo (combo_in macos m a), dispatch_command a)) as @ rest) =
    map (\<lambda>a. \<lparr>kb_shortcut = Single (combo_in macos m a), kb_command = dispatch_command a, kb_when = Always, kb_priority = UserPriority\<rparr>) as @
    user_bindings rest"
  by (induction as) (simp_all add: user_bindings_def single_round_trip assms)



end
