(* ===== verification/Agents.thy ===== *)
theory Agents
  imports Layout Rust_Parse
begin

text \<open>
  Which pane runs an agent, and how the application knows (src/src/agents and src/src/state.rs): the
  table of known agents, recognition by window title and by process, the user's detection rules with
  their file, and the tags of the panes. Strings are lists of code points. \<open>is_alnum\<close> is
  \<open>char::is_alphanumeric\<close>, whose tables are part of the standard library; the JSON reader is an
  argument.
\<close>

section \<open>Restart records and tags\<close>

datatype agent_kind = Claude | Codex

fun kind_label :: "agent_kind \<Rightarrow> rstr" where
  "kind_label Claude = str_lit ''Claude''"
| "kind_label Codex = str_lit ''Codex''"

datatype resume_mode = Interactive | CodexExec

datatype launch_phase = Confirmed | PendingManual | ConfirmingResume

record agent_restart =
  rs_agent :: agent_kind
  rs_cwd :: rstr
  rs_resume_mode :: resume_mode
  rs_session_id :: "rstr option"
  rs_observed_at :: "64 word"
  rs_managed :: bool
  rs_phase :: launch_phase

datatype tag_source = Launched | Hook | Process | Title

fun source_str :: "tag_source \<Rightarrow> rstr" where
  "source_str Launched = str_lit ''launched''"
| "source_str Hook = str_lit ''hook''"
| "source_str Process = str_lit ''process''"
| "source_str Title = str_lit ''title''"

record agent_tag =
  tag_profile :: rstr
  tag_source :: tag_source

section \<open>Profiles\<close>

record agent_profile =
  ap_id :: rstr
  ap_label :: rstr
  ap_program :: rstr
  ap_args :: "rstr list"
  ap_title_needles :: "rstr list"
  ap_restore_kind :: "agent_kind option"

definition launched_profile :: "string \<Rightarrow> string \<Rightarrow> agent_kind option \<Rightarrow> agent_profile" where
  "launched_profile i label kind = \<lparr>ap_id = str_lit i, ap_label = str_lit label, ap_program = str_lit i, ap_args = [],
     ap_title_needles = [str_lit i], ap_restore_kind = kind\<rparr>"

definition PROFILES :: "agent_profile list" where
  "PROFILES = [launched_profile ''claude'' ''Claude Code'' (Some Claude), launched_profile ''codex'' ''Codex'' (Some Codex),
     launched_profile ''gemini'' ''Gemini CLI'' None, launched_profile ''opencode'' ''OpenCode'' None,
     launched_profile ''aider'' ''Aider'' None, launched_profile ''copilot'' ''Copilot CLI'' None,
     \<lparr>ap_id = str_lit ''openrouter'', ap_label = str_lit ''OpenRouter agent'', ap_program = [], ap_args = [],
      ap_title_needles = [str_lit ''openrouter''], ap_restore_kind = None\<rparr>]"

definition DEFAULT_PROFILE_ID :: rstr where
  "DEFAULT_PROFILE_ID = str_lit ''claude''"

definition profile :: "rstr \<Rightarrow> agent_profile option" where
  "profile i = find (\<lambda>p. ap_id p = i) PROFILES"

definition profile_for_restore_kind :: "agent_kind \<Rightarrow> agent_profile option" where
  "profile_for_restore_kind k = find (\<lambda>p. ap_restore_kind p = Some k) PROFILES"

definition tag_label :: "agent_tag \<Rightarrow> rstr" where
  "tag_label t = (case profile (tag_profile t) of Some p \<Rightarrow> ap_label p | None \<Rightarrow> tag_profile t)"

definition launchable :: "agent_profile \<Rightarrow> bool" where
  "launchable p \<longleftrightarrow> ap_program p \<noteq> []"

definition program_name :: "bool \<Rightarrow> agent_profile \<Rightarrow> rstr" where
  "program_name windows p = (if windows \<and> ap_program p \<noteq> [] then ap_program p @ str_lit ''.cmd'' else ap_program p)"

definition launchable_profiles :: "agent_profile list" where
  "launchable_profiles = filter launchable PROFILES"

text \<open>\<open>is_file\<close> tells whether a directory holds a file of that name.\<close>

definition program_on_path :: "(rstr \<Rightarrow> rstr \<Rightarrow> bool) \<Rightarrow> rstr \<Rightarrow> rstr list \<Rightarrow> rstr list \<Rightarrow> bool" where
  "program_on_path is_file program dirs exts \<longleftrightarrow> (\<exists>dir \<in> set dirs. \<exists>ext \<in> set exts. is_file dir (program @ ext))"

definition executable_extensions :: "bool \<Rightarrow> rstr option \<Rightarrow> rstr list" where
  "executable_extensions windows pathext = (if windows
     then map to_ascii_lowercase (filter (\<lambda>e. e \<noteq> [])
       (split_char 59 (case pathext of Some v \<Rightarrow> v | None \<Rightarrow> str_lit ''.COM;.EXE;.BAT;.CMD'')))
     else [[]])"

definition installed_profiles :: "(rstr \<Rightarrow> rstr \<Rightarrow> bool) \<Rightarrow> rstr list \<Rightarrow> rstr list \<Rightarrow> agent_profile list" where
  "installed_profiles is_file dirs exts = filter (\<lambda>p. program_on_path is_file (ap_program p) dirs exts) launchable_profiles"

definition menu_profiles :: "agent_profile list \<Rightarrow> agent_profile list" where
  "menu_profiles installed = (if installed = [] then launchable_profiles else installed)"

definition default_profile :: "agent_profile list \<Rightarrow> agent_profile option" where
  "default_profile installed = (case installed of p # _ \<Rightarrow> Some p | [] \<Rightarrow> profile DEFAULT_PROFILE_ID)"

definition parse_launchable_id :: "rstr \<Rightarrow> agent_profile option" where
  "parse_launchable_id raw = (let key = to_ascii_lowercase (trim raw);
       i = (if key \<in> set [str_lit ''claude-code'', str_lit ''claudecode'', str_lit ''cc''] then str_lit ''claude''
            else if key = str_lit ''gemini-cli'' then str_lit ''gemini''
            else if key = str_lit ''copilot-cli'' then str_lit ''copilot'' else key)
     in case profile i of Some p \<Rightarrow> if launchable p then Some p else None | None \<Rightarrow> None)"

section \<open>Titles\<close>

datatype title_match = Glyph | Needle

definition CLAUDE_TITLE_GLYPHS :: "rchar list" where
  "CLAUDE_TITLE_GLYPHS = [10035, 10038, 10043, 10045, 10018, 183, 9680, 9683, 9681, 9682]"

definition is_sep :: "rchar \<Rightarrow> bool" where
  "is_sep c \<longleftrightarrow> c = 92 \<or> c = 47"

text \<open>The part after the last separator: \<open>rsplit(['\\', '/']).next()\<close>.\<close>

definition after_seps :: "rstr \<Rightarrow> rstr" where
  "after_seps s = rev (takeWhile (\<lambda>c. \<not> is_sep c) (rev s))"

definition exe_stem :: "rstr \<Rightarrow> rstr" where
  "exe_stem title = (if strip_suffix (str_lit ''.exe'') (to_ascii_lowercase title) \<noteq> None \<and> 32 \<notin> set title \<and> (\<exists>c \<in> set title. is_sep c)
     then take (length (after_seps title) - 4) (after_seps title) else title)"

text \<open>The needles are ASCII, so positions count characters; the loop moves one past each occurrence.\<close>

function contains_word :: "(rchar \<Rightarrow> bool) \<Rightarrow> rstr \<Rightarrow> rstr \<Rightarrow> nat \<Rightarrow> bool" where
  "contains_word is_alnum token needle start =
     (case find_str needle (drop start token) of
        None \<Rightarrow> False
      | Some pre \<Rightarrow>
          let at0 = start + length pre; end0 = at0 + length needle;
              before_ok = (at0 = 0 \<or> \<not> is_alnum (token ! (at0 - 1)));
              after_ok = (end0 = length token \<or> \<not> is_alnum (token ! end0))
          in if before_ok \<and> after_ok then True
             else if length token \<le> at0 + 1 then False else contains_word is_alnum token needle (at0 + 1))"
  by pat_completeness auto
termination by (relation "measure (\<lambda>(_, token, _, start). length token - start)") auto

declare contains_word.simps [simp del]

fun classify_tokens :: "(rchar \<Rightarrow> bool) \<Rightarrow> rstr list \<Rightarrow> agent_profile option" where
  "classify_tokens is_alnum [] = None"
| "classify_tokens is_alnum (token # tokens) =
     (if \<exists>c \<in> set token. is_sep c then classify_tokens is_alnum tokens
      else case find (\<lambda>p. \<exists>n \<in> set (ap_title_needles p). contains_word is_alnum token n 0) PROFILES of
        Some p \<Rightarrow> Some p | None \<Rightarrow> classify_tokens is_alnum tokens)"

definition classify_title :: "(rchar \<Rightarrow> bool) \<Rightarrow> rstr \<Rightarrow> (agent_profile \<times> title_match) option" where
  "classify_title is_alnum title = (case trim title of
     [] \<Rightarrow> None
   | first # rest \<Rightarrow>
       if first \<in> set CLAUDE_TITLE_GLYPHS then map_option (\<lambda>p. (p, Glyph)) (profile (str_lit ''claude''))
       else map_option (\<lambda>p. (p, Needle))
         (classify_tokens is_alnum (split_whitespace (to_ascii_lowercase (exe_stem (first # rest))))))"

section \<open>Processes\<close>

definition executable_stem :: "rstr \<Rightarrow> rstr" where
  "executable_stem img = (let name = to_ascii_lowercase (after_seps img)
     in case strip_suffix (str_lit ''.exe'') name of Some s \<Rightarrow> s | None \<Rightarrow> name)"

definition is_digit_or_dot :: "rchar \<Rightarrow> bool" where
  "is_digit_or_dot c \<longleftrightarrow> (48 \<le> c \<and> c \<le> 57) \<or> c = 46"

definition needs_command_line :: "rstr \<Rightarrow> bool" where
  "needs_command_line img = (let stem = executable_stem img in
     stem \<in> set [str_lit ''node'', str_lit ''bun'', str_lit ''python'', str_lit ''pythonw''] \<or>
     (case strip_prefix (str_lit ''python'') stem of Some v \<Rightarrow> v \<noteq> [] \<and> (\<forall>c \<in> set v. is_digit_or_dot c) | None \<Rightarrow> False))"

text \<open>One argument and the text after it.\<close>

definition next_argument :: "rstr \<Rightarrow> (rstr \<times> rstr) option" where
  "next_argument remaining = (let t = trim_start remaining in
     case t of
       [] \<Rightarrow> None
     | q # quoted \<Rightarrow>
         if q = 34 \<or> q = 39
         then (case split_once q quoted of
                 None \<Rightarrow> None
               | Some (arg, rest) \<Rightarrow>
                   if (case rest of c # _ \<Rightarrow> \<not> is_whitespace c | [] \<Rightarrow> False) then None else Some (arg, rest))
         else let word = takeWhile (\<lambda>c. \<not> is_whitespace c) t
              in if 34 \<in> set word \<or> 39 \<in> set word then None else Some (word, drop (length word) t))"

text \<open>Skips known switches; the list shrinks with every argument, so the text is the measure.\<close>

lemma next_argument_shrinks: "next_argument s = Some (a, rest) \<Longrightarrow> length rest < length s"
proof -
  assume n: "next_argument s = Some (a, rest)"
  then obtain c t where t: "trim_start s = c # t" by (auto simp: next_argument_def Let_def split: list.splits)
  have l: "length (trim_start s) \<le> length s" by (simp add: trim_start_def length_dropWhile_le)
  show ?thesis
  proof (cases "c = 34 \<or> c = 39")
    case True
    then have "split_once c t = Some (a, rest)"
      using n by (auto simp: next_argument_def t Let_def split: option.splits if_splits prod.splits)
    then have "length rest \<le> length t" by (auto simp: split_once_eq_Some)
    then show ?thesis using t l by simp
  next
    case False
    have w: "\<not> is_whitespace c" using t by (auto simp: trim_start_def dropWhile_eq_Cons_conv)
    then have "rest = drop (length (takeWhile (\<lambda>c. \<not> is_whitespace c) (c # t))) (c # t)"
      using n False by (auto simp: next_argument_def t Let_def split: if_splits)
    then show ?thesis using w t l by simp
  qed
qed

function skip_switches :: "rstr list \<Rightarrow> rstr \<Rightarrow> rstr \<Rightarrow> (rstr \<times> rstr) option" where
  "skip_switches switches entrypoint remaining =
     (if entrypoint \<in> set switches
      then case next_argument remaining of None \<Rightarrow> None
        | Some (e, rest) \<Rightarrow> skip_switches switches e rest
      else Some (entrypoint, remaining))"
  by pat_completeness auto
termination
  by (relation "measure (\<lambda>(_, _, remaining). length remaining)") (auto dest: next_argument_shrinks)

declare skip_switches.simps [simp del]

definition ends_with :: "rstr \<Rightarrow> rstr \<Rightarrow> bool" where
  "ends_with suffix s \<longleftrightarrow> strip_suffix suffix s \<noteq> None"

definition slashes :: "rstr \<Rightarrow> rstr" where
  "slashes s = map (\<lambda>c. if c = 92 then 47 else c) s"

definition script_suffixes :: "(rstr \<times> rstr) list" where
  "script_suffixes = [(str_lit ''/node_modules/@openai/codex/bin/codex.js'', str_lit ''codex''),
     (str_lit ''/node_modules/@anthropic-ai/claude-code/cli.js'', str_lit ''claude''),
     (str_lit ''/node_modules/@github/copilot/index.js'', str_lit ''copilot''),
     (str_lit ''/node_modules/@github/copilot/npm-loader.js'', str_lit ''copilot''),
     (str_lit ''/node_modules/@google/gemini-cli/dist/index.js'', str_lit ''gemini''),
     (str_lit ''/node_modules/opencode-ai/bin/opencode'', str_lit ''opencode'')]"

definition classify_python :: "rstr \<Rightarrow> rstr \<Rightarrow> agent_profile option" where
  "classify_python entrypoint0 remaining0 = (case skip_switches (map str_lit [''-u'', ''-B'', ''-E'', ''-s'', ''-S'', ''-I'']) entrypoint0 remaining0 of
     None \<Rightarrow> None
   | Some (entrypoint, remaining) \<Rightarrow>
       if entrypoint = str_lit ''-m''
       then (case next_argument remaining of None \<Rightarrow> None
             | Some (m, _) \<Rightarrow> if m = str_lit ''aider'' then profile (str_lit ''aider'') else None)
       else let script = to_ascii_lowercase (slashes entrypoint)
         in if ends_with (str_lit ''/scripts/aider'') script \<or> ends_with (str_lit ''/bin/aider'') script
            then profile (str_lit ''aider'') else None)"

definition classify_script :: "rstr \<Rightarrow> rstr \<Rightarrow> agent_profile option" where
  "classify_script entrypoint0 remaining0 = (case skip_switches (map str_lit [''--no-warnings'', ''--enable-source-maps'', ''--'']) entrypoint0 remaining0 of
     None \<Rightarrow> None
   | Some (entrypoint, _) \<Rightarrow>
       let script = to_ascii_lowercase (slashes entrypoint)
       in case find (\<lambda>(suffix, _). ends_with suffix script \<or> script = tl suffix) script_suffixes of
            Some (_, i) \<Rightarrow> profile i | None \<Rightarrow> None)"

definition classify_process :: "rstr \<Rightarrow> rstr option \<Rightarrow> agent_profile option" where
  "classify_process img command_line = (let stem = executable_stem img in
     case profile stem of Some p \<Rightarrow> Some p
     | None \<Rightarrow>
       if stem = str_lit ''gh-copilot'' then profile (str_lit ''copilot'')
       else if \<not> needs_command_line img then None
       else case command_line of None \<Rightarrow> None
         | Some cmd \<Rightarrow> (case next_argument cmd of None \<Rightarrow> None
           | Some (_, r1) \<Rightarrow> (case next_argument r1 of None \<Rightarrow> None
             | Some (entrypoint, r2) \<Rightarrow>
                 if starts_with (str_lit ''python'') stem then classify_python entrypoint r2
                 else classify_script entrypoint r2)))"

section \<open>Detection rules\<close>

record detection_rule =
  dr_profile :: rstr
  dr_executable :: rstr
  dr_args_prefix :: "rstr list"

definition MAX_FILE_BYTES :: nat where
  "MAX_FILE_BYTES = 64 * 1024"

definition is_control :: "rchar \<Rightarrow> bool" where
  "is_control c \<longleftrightarrow> c < 32 \<or> (127 \<le> c \<and> c < 160)"

definition ascii_lower_or_digit :: "rchar \<Rightarrow> bool" where
  "ascii_lower_or_digit c \<longleftrightarrow> (97 \<le> c \<and> c \<le> 122) \<or> (48 \<le> c \<and> c \<le> 57)"

text \<open>Every byte must be ASCII, so bytes are characters; \<open>is_ascii_alphanumeric\<close> also has the upper case.\<close>

definition valid_profile_id :: "rstr \<Rightarrow> bool" where
  "valid_profile_id s \<longleftrightarrow> s \<noteq> [] \<and> blen s \<le> 64 \<and>
     (ascii_lower_or_digit (hd s) \<or> (65 \<le> hd s \<and> hd s \<le> 90)) \<and>
     (\<forall>c \<in> set s. ascii_lower_or_digit c \<or> c = 45 \<or> c = 95)"

definition is_runtime_or_shell :: "rstr \<Rightarrow> bool" where
  "is_runtime_or_shell img \<longleftrightarrow> needs_command_line img \<or> executable_stem img \<in> set (map str_lit
     [''pwsh'', ''powershell'', ''cmd'', ''bash'', ''sh'', ''zsh'', ''fish'', ''deno'', ''java'', ''dotnet'', ''ruby'', ''perl'', ''php''])"

definition bad_executable :: "rstr \<Rightarrow> bool" where
  "bad_executable e \<longleftrightarrow> e = [] \<or> 128 < blen e \<or> trim e \<noteq> e \<or>
     (\<exists>c \<in> set e. is_control c \<or> c \<in> set (str_lit ''/'' @ [92] @ str_lit '':*?'' @ [34, 39] @ str_lit ''<>|'')) \<or>
     executable_stem e = []"

definition bad_args_prefix :: "rstr list \<Rightarrow> bool" where
  "bad_args_prefix as \<longleftrightarrow> 16 < length as \<or> (\<exists>a \<in> set as. a = [] \<or> 1024 < blen a \<or> (\<exists>c \<in> set a. is_control c))"

definition invalid_rule :: "detection_rule \<Rightarrow> rstr option" where
  "invalid_rule r =
     (if \<not> valid_profile_id (dr_profile r)
      then Some (str_lit ''profile must be a lowercase ID of 1'' @ [8211] @ str_lit ''64 letters, digits, underscores or hyphens, starting with a letter or digit'')
      else if bad_executable (dr_executable r)
      then Some (str_lit ''executable must be a basename of 1'' @ [8211] @ str_lit ''128 bytes, without paths or patterns'')
      else if bad_args_prefix (dr_args_prefix r)
      then Some (str_lit ''args_prefix allows at most 16 nonempty arguments of at most 1024 bytes, without control characters'')
      else if dr_args_prefix r = [] \<and> is_runtime_or_shell (dr_executable r)
      then Some (str_lit ''shells and runtimes require args_prefix to identify the harness'')
      else None)"

fun check_rules :: "nat \<Rightarrow> detection_rule list \<Rightarrow> rstr + detection_rule list" where
  "check_rules index [] = Inr []"
| "check_rules index (r # rs) = (case invalid_rule r of
     Some reason \<Rightarrow> Inl (str_lit ''rule '' @ show_nat (index + 1) @ str_lit '': '' @ reason)
   | None \<Rightarrow> (case check_rules (index + 1) rs of Inl e \<Rightarrow> Inl e
       | Inr rs' \<Rightarrow> Inr (r\<lparr>dr_executable := executable_stem (dr_executable r)\<rparr> # rs')))"

text \<open>\<open>from_json\<close> gives the rules of the file, or the line and column of the error.\<close>

definition rules_parse :: "(rstr \<Rightarrow> (nat \<times> nat) + detection_rule list) \<Rightarrow> rstr \<Rightarrow> rstr + detection_rule list" where
  "rules_parse from_json t =
     (if MAX_FILE_BYTES < blen t then Inl (str_lit ''file exceeds 64 KiB'')
      else case from_json (dropWhile (\<lambda>c. c = 65279) t) of
        Inl (line, column) \<Rightarrow> Inl (str_lit ''invalid configuration at line '' @ show_nat line @ str_lit '', column '' @ show_nat column)
      | Inr rs \<Rightarrow> if 64 < length rs then Inl (str_lit ''at most 64 rules are allowed'') else check_rules 0 rs)"

fun args_match :: "rstr list \<Rightarrow> rstr \<Rightarrow> bool" where
  "args_match [] remaining = True"
| "args_match (expected # es) remaining = (case next_argument remaining of None \<Rightarrow> False
   | Some (actual, rest) \<Rightarrow>
       (if \<exists>c \<in> set expected. is_sep c
        then to_ascii_lowercase (slashes actual) = to_ascii_lowercase (slashes expected) else actual = expected) \<and> args_match es rest)"

definition rule_matches :: "rstr \<Rightarrow> rstr option \<Rightarrow> detection_rule \<Rightarrow> bool" where
  "rule_matches stem command_line r \<longleftrightarrow> dr_executable r = stem \<and>
     (dr_args_prefix r = [] \<or> (case command_line of None \<Rightarrow> False
       | Some cmd \<Rightarrow> (case next_argument cmd of None \<Rightarrow> False | Some (_, rest) \<Rightarrow> args_match (dr_args_prefix r) rest)))"

definition rules_classify :: "detection_rule list \<Rightarrow> rstr \<Rightarrow> rstr option \<Rightarrow> rstr option" where
  "rules_classify rs img command_line = map_option dr_profile (find (rule_matches (executable_stem img) command_line) rs)"

definition rules_need_command_line :: "detection_rule list \<Rightarrow> rstr \<Rightarrow> bool" where
  "rules_need_command_line rs img \<longleftrightarrow> (\<exists>r \<in> set rs. dr_executable r = executable_stem img \<and> dr_args_prefix r \<noteq> [])"

text \<open>The file of rules: no file is configured, or it is missing, unreadable (with the error), or holds a text.\<close>

datatype rules_read = NoPath | NotFound | Unreadable rstr | Content rstr

record rules_file =
  rf_rules :: "detection_rule list"
  rf_last_text :: "rstr option"
  rf_last_error :: "rstr option"

definition rules_file_new :: rules_file where
  "rules_file_new = \<lparr>rf_rules = [], rf_last_text = None, rf_last_error = None\<rparr>"

definition rules_reload :: "(rstr \<Rightarrow> (nat \<times> nat) + detection_rule list) \<Rightarrow> rules_read \<Rightarrow> rules_file \<Rightarrow> (rstr + bool) \<times> rules_file" where
  "rules_reload from_json content f = (case content of
     NoPath \<Rightarrow> (Inr False, f)
   | NotFound \<Rightarrow> (Inr (rf_rules f \<noteq> []), f\<lparr>rf_rules := [], rf_last_text := None\<rparr>)
   | Unreadable e \<Rightarrow> (Inl e, f)
   | Content t \<Rightarrow>
       if rf_last_text f = Some t then (Inr False, f)
       else case rules_parse from_json t of
         Inl e \<Rightarrow> (Inl e, f)
       | Inr parsed \<Rightarrow> (Inr (rf_rules f \<noteq> parsed), f\<lparr>rf_rules := parsed, rf_last_text := Some t\<rparr>))"

definition rules_refresh :: "(rstr \<Rightarrow> (nat \<times> nat) + detection_rule list) \<Rightarrow> rules_read \<Rightarrow> rules_file \<Rightarrow> rules_file" where
  "rules_refresh from_json content f = (case rules_reload from_json content f of
     (Inr _, f') \<Rightarrow> f'\<lparr>rf_last_error := None\<rparr>
   | (Inl e, f') \<Rightarrow> f'\<lparr>rf_last_error := Some e\<rparr>)"

section \<open>The tags of the panes\<close>

record pane_tags =
  pt_restarts :: "u32 \<rightharpoonup> agent_restart"
  pt_agents :: "u32 \<rightharpoonup> agent_tag"

definition agent_tag_for_pane :: "pane_tags \<Rightarrow> u32 \<Rightarrow> agent_tag option" where
  "agent_tag_for_pane st i = (case pt_restarts st i of
     Some r \<Rightarrow> Some \<lparr>tag_profile = (case profile_for_restore_kind (rs_agent r) of Some p \<Rightarrow> ap_id p | None \<Rightarrow> DEFAULT_PROFILE_ID),
       tag_source = (if rs_managed r then Launched else Hook)\<rparr>
   | None \<Rightarrow> pt_agents st i)"

definition workspace_num_for_pane :: "app \<Rightarrow> u32 \<Rightarrow> u32 option" where
  "workspace_num_for_pane s i =
     (if i \<in> set (pane_ids (panes s)) \<or> (\<exists>t \<in> set (tabs s). i \<in> set (pane_ids (tab_panes t)))
      then map_option ws_num (nth_opt (workspaces s) (active_workspace s))
      else map_option ws_num (find (\<lambda>w. \<exists>t \<in> set (ws_tabs w). i \<in> set (pane_ids (tab_panes t))) (workspaces s)))"

text \<open>The result says whether the tag changed. Unfolding the agents list and the telemetry are left out.\<close>

definition classify_pane_process :: "app \<Rightarrow> u32 \<Rightarrow> rstr option \<Rightarrow> pane_tags \<Rightarrow> bool \<times> pane_tags" where
  "classify_pane_process s i profile_id st = (let existing = pt_agents st i;
       next0 = map_option (\<lambda>p. \<lparr>tag_profile = p, tag_source = Process\<rparr>) profile_id in
     if workspace_num_for_pane s i = None then (False, st)
     else if pt_restarts st i \<noteq> None \<or> (case existing of Some t \<Rightarrow> tag_source t = Launched \<or> tag_source t = Hook | None \<Rightarrow> False) then (False, st)
     else if (case profile_id of Some p \<Rightarrow> \<not> valid_profile_id p | None \<Rightarrow> False) then (False, st)
     else if next0 = None \<and> \<not> (case existing of Some t \<Rightarrow> tag_source t = Process | None \<Rightarrow> False) then (False, st)
     else if existing = next0 then (False, st)
     else (True, st\<lparr>pt_agents := (pt_agents st)(i := next0)\<rparr>))"

definition classify_pane_title :: "(rchar \<Rightarrow> bool) \<Rightarrow> u32 \<Rightarrow> rstr \<Rightarrow> pane_tags \<Rightarrow> bool \<times> pane_tags" where
  "classify_pane_title is_alnum i raw_title st = (let existing = pt_agents st i in
     if (case existing of Some t \<Rightarrow> tag_source t \<noteq> Title | None \<Rightarrow> False) then (False, st)
     else case classify_title is_alnum raw_title of
       Some (p, _) \<Rightarrow>
         if (case existing of Some t \<Rightarrow> tag_profile t = ap_id p | None \<Rightarrow> False) then (False, st)
         else (True, st\<lparr>pt_agents := (pt_agents st)(i \<mapsto> \<lparr>tag_profile = ap_id p, tag_source = Title\<rparr>)\<rparr>)
     | None \<Rightarrow> (case existing of None \<Rightarrow> (False, st) | Some _ \<Rightarrow> (True, st\<lparr>pt_agents := (pt_agents st)(i := None)\<rparr>)))"

end
