(* ===== verification/Agents_Props.thy ===== *)
theory Agents_Props
  imports Agents
begin

text \<open>
  The rules in force are those of the last valid file, launches and hooks outweigh observations, what is
  typed to an agent never counts, and needles are whole words.
\<close>

section \<open>The file of rules\<close>

text \<open>The rules and the error after a reading, without the text that was read last.\<close>

fun rules_spec :: "(rstr \<Rightarrow> (nat \<times> nat) + detection_rule list) \<Rightarrow> rules_read \<Rightarrow>
    detection_rule list \<times> rstr option \<Rightarrow> detection_rule list \<times> rstr option" where
  "rules_spec from_json NoPath st = (fst st, None)"
| "rules_spec from_json NotFound st = ([], None)"
| "rules_spec from_json (Unreadable e) st = (fst st, Some e)"
| "rules_spec from_json (Content t) st = (case rules_parse from_json t of Inl e \<Rightarrow> (fst st, Some e) | Inr rs \<Rightarrow> (rs, None))"

definition cache_ok :: "(rstr \<Rightarrow> (nat \<times> nat) + detection_rule list) \<Rightarrow> rules_file \<Rightarrow> bool" where
  "cache_ok from_json f \<longleftrightarrow> (\<forall>t. rf_last_text f = Some t \<longrightarrow> rules_parse from_json t = Inr (rf_rules f))"

lemma refresh_step:
  assumes "cache_ok from_json f"
  shows "cache_ok from_json (rules_refresh from_json c f)"
    and "(rf_rules (rules_refresh from_json c f), rf_last_error (rules_refresh from_json c f)) =
      rules_spec from_json c (rf_rules f, rf_last_error f)"
  using assms by (cases c; auto simp: rules_refresh_def rules_reload_def cache_ok_def split: sum.split)+

lemma refresh_run:
  "cache_ok from_json f \<Longrightarrow> (rf_rules (fold (rules_refresh from_json) cs f), rf_last_error (fold (rules_refresh from_json) cs f)) =
    fold (rules_spec from_json) cs (rf_rules f, rf_last_error f)"
proof (induction cs arbitrary: f)
  case (Cons c cs)
  show ?case using Cons.IH [OF refresh_step(1) [OF Cons.prems]] refresh_step(2) [OF Cons.prems, of c] by simp
qed simp

text \<open>C40: Whatever the file of detection rules was found to hold at each tick, the rules in force are those of the last
  valid text since the file was last missing, and the error is the one of the last reading: skipping a text equal to
  the last good one changes nothing.\<close>

theorem rules_of_the_last_valid_file:
  "(rf_rules (fold (rules_refresh from_json) readings rules_file_new), rf_last_error (fold (rules_refresh from_json) readings rules_file_new)) =
   fold (rules_spec from_json) readings ([], None)"
  using refresh_run [of from_json rules_file_new readings] by (simp add: cache_ok_def rules_file_new_def)

section \<open>Evidence\<close>

datatype observation = ProcessScan app u32 "rstr option" | TitleChange u32 rstr

fun observe :: "(rchar \<Rightarrow> bool) \<Rightarrow> observation \<Rightarrow> pane_tags \<Rightarrow> pane_tags" where
  "observe is_alnum (ProcessScan s i p) st = snd (classify_pane_process s i p st)"
| "observe is_alnum (TitleChange i title) st = snd (classify_pane_title is_alnum i title st)"

lemma observe_restarts [simp]: "pt_restarts (observe is_alnum ob st) = pt_restarts st"
  by (cases ob) (simp_all add: classify_pane_process_def classify_pane_title_def Let_def split: option.split prod.split)

lemma observe_strong:
  assumes "pt_agents st i = Some t" "tag_source t = Launched \<or> tag_source t = Hook"
  shows "pt_agents (observe is_alnum ob st) i = Some t"
  using assms by (cases ob) (auto simp: classify_pane_process_def classify_pane_title_def Let_def split: option.split prod.split)

lemma observe_tag:
  assumes "agent_tag_for_pane st i = Some t" "tag_source t = Launched \<or> tag_source t = Hook"
  shows "agent_tag_for_pane (observe is_alnum ob st) i = Some t"
proof (cases "pt_restarts st i")
  case None
  then have "pt_agents st i = Some t" using assms(1) by (simp add: agent_tag_for_pane_def)
  then show ?thesis using observe_strong [of st i t] assms(2) None by (simp add: agent_tag_for_pane_def)
next
  case (Some r)
  then show ?thesis using assms(1) by (simp add: agent_tag_for_pane_def)
qed

text \<open>What a pane was launched as, or a hook reported, outweighs every later process scan and window title.\<close>

theorem strong_evidence_survives:
  assumes "agent_tag_for_pane st i = Some t" and "tag_source t = Launched \<or> tag_source t = Hook"
  shows "agent_tag_for_pane (fold (observe is_alnum) obs st) i = Some t"
  using assms(1)
proof (induction obs arbitrary: st)
  case (Cons ob obs)
  show ?case using Cons.IH [OF observe_tag [OF Cons.prems assms(2)]] by simp
qed simp

theorem strong_evidence_survives_witness:
  "agent_tag_for_pane (fold (observe (\<lambda>_. False)) [TitleChange 3 (str_lit ''codex''), TitleChange 3 []]
     \<lparr>pt_restarts = Map.empty, pt_agents = [3 \<mapsto> \<lparr>tag_profile = str_lit ''aider'', tag_source = Launched\<rparr>]\<rparr>) 3 =
   Some \<lparr>tag_profile = str_lit ''aider'', tag_source = Launched\<rparr>"
  by (rule strong_evidence_survives) (simp_all add: agent_tag_for_pane_def)

section \<open>Command lines\<close>

text \<open>A word that needs no quotes.\<close>

definition bare_word :: "rstr \<Rightarrow> bool" where
  "bare_word w \<longleftrightarrow> w \<noteq> [] \<and> (\<forall>c \<in> set w. \<not> is_whitespace c \<and> c \<noteq> 34 \<and> c \<noteq> 39)"

lemma space_white: "is_whitespace 32"
  by (simp add: is_whitespace_def)

lemma next_argument_bare:
  assumes w: "bare_word w" and r: "r = [] \<or> is_whitespace (hd r)"
  shows "next_argument (w @ r) = Some (w, r)" and "next_argument (32 # w @ r) = Some (w, r)"
proof -
  obtain c cs where c: "w = c # cs" using w by (cases w) (auto simp: bare_word_def)
  have t: "takeWhile (\<lambda>c. \<not> is_whitespace c) (w @ r) = w" using w r by (cases r) (auto simp: bare_word_def takeWhile_append)
  have n: "\<not> is_whitespace c" "c \<noteq> 34" "c \<noteq> 39" using w by (simp_all add: bare_word_def c)
  have s: "trim_start (w @ r) = w @ r" "trim_start (32 # w @ r) = w @ r" using n(1) by (simp_all add: trim_start_def space_white c)
  have q: "34 \<notin> set w" "39 \<notin> set w" using w by (auto simp: bare_word_def)
  have e: "(case w @ r of [] \<Rightarrow> None | q # quoted \<Rightarrow>
      if q = 34 \<or> q = 39
      then (case split_once q quoted of None \<Rightarrow> None | Some (arg, rest) \<Rightarrow>
        if (case rest of c # _ \<Rightarrow> \<not> is_whitespace c | [] \<Rightarrow> False) then None else Some (arg, rest))
      else if 34 \<in> set w \<or> 39 \<in> set w then None else Some (w, drop (length w) (w @ r))) = Some (w, r)"
    using n q by (simp add: c)
  show "next_argument (w @ r) = Some (w, r)" "next_argument (32 # w @ r) = Some (w, r)"
    unfolding next_argument_def s Let_def t by (rule e)+
qed

lemma classify_script_entry: "e \<notin> set (map str_lit [''--no-warnings'', ''--enable-source-maps'', ''--'']) \<Longrightarrow> classify_script e r = classify_script e r'"
  by (simp add: classify_script_def skip_switches.simps [of _ e])

text \<open>For a program run by node or bun, what follows the script on the command line, such as a prompt, has no say in
  which agent is recognised.\<close>

theorem prompt_is_ignored:
  assumes "bare_word runtime" and "bare_word script"
    and "script \<notin> set (map str_lit [''--no-warnings'', ''--enable-source-maps'', ''--''])"
    and "\<not> starts_with (str_lit ''python'') (executable_stem img)"
  shows "classify_process img (Some (runtime @ 32 # script @ 32 # prompt)) = classify_process img (Some (runtime @ 32 # script))"
proof -
  have "next_argument (runtime @ 32 # script @ t) = Some (runtime, 32 # script @ t)" for t
    by (rule next_argument_bare(1) [OF assms(1)]) (simp add: space_white)
  moreover have "next_argument (32 # script @ 32 # prompt) = Some (script, 32 # prompt)" "next_argument (32 # script) = Some (script, [])"
    using next_argument_bare(2) [OF assms(2), of "32 # prompt"] next_argument_bare(2) [OF assms(2), of "[]"] by (simp_all add: space_white)
  ultimately have a: "next_argument (runtime @ 32 # script @ 32 # prompt) = Some (runtime, 32 # script @ 32 # prompt)"
      "next_argument (runtime @ 32 # script) = Some (runtime, 32 # script)"
      "next_argument (32 # script @ 32 # prompt) = Some (script, 32 # prompt)" "next_argument (32 # script) = Some (script, [])"
    by (metis append_Nil2)+
  show ?thesis
    using classify_script_entry [OF assms(3), of "32 # prompt" "[]"] assms(4)
    by (simp add: classify_process_def Let_def a split: option.split)
qed

theorem prompt_is_ignored_witness:
  "classify_process (str_lit ''node'') (Some (str_lit ''node'' @ 32 # str_lit ''app.js'' @ 32 # str_lit ''codex'')) =
   classify_process (str_lit ''node'') (Some (str_lit ''node'' @ 32 # str_lit ''app.js''))"
  by (rule prompt_is_ignored)
    (simp_all add: bare_word_def str_lit_def is_whitespace_def starts_with_def executable_stem_def after_seps_def is_sep_def
      to_ascii_lowercase_def strip_suffix_def Let_def)

section \<open>Whole words\<close>

definition whole_word :: "(rchar \<Rightarrow> bool) \<Rightarrow> rstr \<Rightarrow> rstr \<Rightarrow> rstr \<Rightarrow> bool" where
  "whole_word is_alnum a n b \<longleftrightarrow> (a = [] \<or> \<not> is_alnum (last a)) \<and> (b = [] \<or> \<not> is_alnum (hd b))"

lemma find_str_least: "find_str p s = Some a \<Longrightarrow> s = a' @ p @ b \<Longrightarrow> length a \<le> length a'"
proof (induction s arbitrary: a a')
  case Nil
  then show ?case by (auto simp: find_str.simps split: if_splits)
next
  case (Cons c cs)
  show ?case
  proof (cases "starts_with p (c # cs)")
    case True
    then show ?thesis using Cons.prems(1) by (simp add: find_str.simps)
  next
    case False
    then obtain a1 where a1: "a = c # a1" "find_str p cs = Some a1" using Cons.prems(1) by (auto simp: find_str.simps [of _ "c # cs"])
    have "a' \<noteq> []" using False Cons.prems(2) by (auto simp: starts_with_iff)
    then obtain a2 where "a' = c # a2" "cs = a2 @ p @ b" using Cons.prems(2) by (cases a') auto
    then show ?thesis using Cons.IH [OF a1(2)] a1(1) by simp
  qed
qed

lemma contains_word_from:
  "needle \<noteq> [] \<Longrightarrow> start \<le> length token \<Longrightarrow> contains_word is_alnum token needle start \<longleftrightarrow>
     (\<exists>a b. token = a @ needle @ b \<and> start \<le> length a \<and> whole_word is_alnum a needle b)"
proof (induction is_alnum token needle start rule: contains_word.induct)
  case (1 is_alnum token needle start)
  show ?case
  proof (cases "find_str needle (drop start token)")
    case None
    have "\<not> (token = a @ needle @ b \<and> start \<le> length a)" for a b
    proof
      assume "token = a @ needle @ b \<and> start \<le> length a"
      then have "drop start token = drop start a @ needle @ b" by simp
      then show False using None unfolding find_str_None_iff by blast
    qed
    then have "\<not> (\<exists>a b. token = a @ needle @ b \<and> start \<le> length a \<and> whole_word is_alnum a needle b)" by blast
    then show ?thesis using None by (simp add: contains_word.simps)
  next
    case (Some pre)
    then obtain b where "drop start token = pre @ needle @ b" using find_str_SomeD by blast
    define a where "a = take start token @ pre"
    have tok: "token = a @ needle @ b" unfolding a_def using \<open>drop start token = pre @ needle @ b\<close> append_take_drop_id [of start token] by simp
    have la: "length a = start + length pre" using 1(3) by (simp add: a_def)
    have least: "length a \<le> length a'" if "token = a' @ needle @ b'" "start \<le> length a'" for a' b'
    proof -
      have "drop start token = drop start a' @ needle @ b'" using that by simp
      from find_str_least [OF Some this] show ?thesis using la that(2) by simp
    qed
    let ?at = "start + length pre"
    have before: "(?at = 0 \<or> \<not> is_alnum (token ! (?at - 1))) \<longleftrightarrow> (a = [] \<or> \<not> is_alnum (last a))"
      using la by (cases a rule: rev_cases) (auto simp: tok nth_append)
    have after: "(?at + length needle = length token \<or> \<not> is_alnum (token ! (?at + length needle))) \<longleftrightarrow> (b = [] \<or> \<not> is_alnum (hd b))"
      using la by (cases b) (auto simp: tok nth_append)
    have step: "contains_word is_alnum token needle start = (if whole_word is_alnum a needle b then True
        else if length token \<le> ?at + 1 then False else contains_word is_alnum token needle (?at + 1))"
      unfolding contains_word.simps [of is_alnum token needle start] Some whole_word_def Let_def before [symmetric] after [symmetric]
      by simp
    show ?thesis
    proof (cases "whole_word is_alnum a needle b")
      case True
      then have "contains_word is_alnum token needle start" by (simp add: step)
      moreover have "start \<le> length a" using la by simp
      ultimately show ?thesis using True tok by blast
    next
      case False
      have other: "?at + 1 \<le> length a'" if "token = a' @ needle @ b'" "start \<le> length a'" "whole_word is_alnum a' needle b'" for a' b'
      proof -
        have "length a' \<noteq> length a" using that False tok by (metis append_eq_append_conv append.assoc same_append_eq)
        then show ?thesis using least [OF that(1,2)] la by simp
      qed
      show ?thesis
      proof (cases "length token \<le> ?at + 1")
        case True
        have "\<not> contains_word is_alnum token needle start"
          using False True by (simp add: step)
        moreover have "\<not> (token = a' @ needle @ b' \<and> start \<le> length a' \<and> whole_word is_alnum a' needle b')" for a' b'
        proof
          assume w: "token = a' @ needle @ b' \<and> start \<le> length a' \<and> whole_word is_alnum a' needle b'"
          then have "length token = length a' + length needle + length b'" by simp
          moreover have "0 < length needle" using 1(2) by simp
          moreover have "?at + 1 \<le> length a'" using other w by blast
          ultimately show False using True by simp
        qed
        ultimately show ?thesis by blast
      next
        case room: False
        have nb: "\<not> ((?at = 0 \<or> \<not> is_alnum (token ! (?at - 1))) \<and> (?at + length needle = length token \<or> \<not> is_alnum (token ! (?at + length needle))))"
          using False unfolding before after whole_word_def .
        have "contains_word is_alnum token needle start = contains_word is_alnum token needle (?at + 1)"
          using False room by (simp add: step)
        also have "\<dots> \<longleftrightarrow> (\<exists>a b. token = a @ needle @ b \<and> ?at + 1 \<le> length a \<and> whole_word is_alnum a needle b)"
          by (rule 1(1) [OF Some refl refl refl refl nb room 1(2)]) (use room in simp)
        also have "\<dots> \<longleftrightarrow> (\<exists>a b. token = a @ needle @ b \<and> start \<le> length a \<and> whole_word is_alnum a needle b)"
          using other add_leD1 le_trans [of start "?at + 1"] by (metis le_add1 trans_le_add1)
        finally show ?thesis .
      qed
    qed
  qed
qed

text \<open>A needle counts exactly when it occurs somewhere in the token with no letter or digit next to it.\<close>

theorem needle_is_a_whole_word:
  assumes "needle \<noteq> []"
  shows "contains_word is_alnum token needle 0 \<longleftrightarrow>
    (\<exists>a b. token = a @ needle @ b \<and> (a = [] \<or> \<not> is_alnum (last a)) \<and> (b = [] \<or> \<not> is_alnum (hd b)))"
  using contains_word_from [OF assms, of 0 token is_alnum] by (simp add: whole_word_def)

theorem needle_is_a_whole_word_witness:
  "contains_word (\<lambda>c. 97 \<le> c \<and> c \<le> 122) (str_lit ''my-claude'') (str_lit ''claude'') 0"
proof (rule needle_is_a_whole_word [THEN iffD2])
  show "\<exists>a b. str_lit ''my-claude'' = a @ str_lit ''claude'' @ b \<and> (a = [] \<or> \<not> (97 \<le> last a \<and> last a \<le> 122)) \<and>
      (b = [] \<or> \<not> (97 \<le> hd b \<and> hd b \<le> 122))"
    by (rule exI [of _ "str_lit ''my-''"], rule exI [of _ "[]"]) (simp add: str_lit_def)
qed (simp add: str_lit_def)

end
