(* ===== verification/Pane_Titles.thy ===== *)
theory Pane_Titles
  imports Agents
begin

text \<open>
  The titles of panes and tabs (src/src/state.rs): renaming by the user, titles reported by the guest
  program, and how such text is cleaned for display (src/src/command_palette.rs). A title is kept in
  every copy of its pane, and a tab takes the title of its focused or only pane.
\<close>

section \<open>Display labels\<close>

definition normalize_palette_char :: "rchar \<Rightarrow> rchar option" where
  "normalize_palette_char c = (if is_whitespace c then Some 32 else if is_control c then None else Some c)"

definition is_bidi_control :: "rchar \<Rightarrow> bool" where
  "is_bidi_control c \<longleftrightarrow> c = 0x61C \<or> c = 0x200E \<or> c = 0x200F \<or> (0x202A \<le> c \<and> c \<le> 0x202E) \<or> (0x2066 \<le> c \<and> c \<le> 0x2069)"

text \<open>The loop gives the accepted characters and whether there were more.\<close>

fun sanitize_loop :: "nat \<Rightarrow> rstr \<Rightarrow> rstr \<Rightarrow> bool \<Rightarrow> rstr \<times> bool" where
  "sanitize_loop max_chars [] out last_was_space = (out, False)"
| "sanitize_loop max_chars (c # cs) out last_was_space =
     (if is_bidi_control c then sanitize_loop max_chars cs out last_was_space
      else case normalize_palette_char c of
        None \<Rightarrow> sanitize_loop max_chars cs out last_was_space
      | Some ch \<Rightarrow>
          if ch = 32 \<and> (out = [] \<or> last_was_space) then sanitize_loop max_chars cs out last_was_space
          else if max_chars \<le> length out then (out, True)
          else sanitize_loop max_chars cs (out @ [ch]) (ch = 32))"

definition sanitize_display_label :: "rstr \<Rightarrow> rstr \<Rightarrow> nat \<Rightarrow> rstr" where
  "sanitize_display_label input fallback max_chars =
     (let scan_limit = max (min (max_chars * 4) (2 ^ 64 - 1)) (max_chars + 1);
          (out, truncated) = sanitize_loop max_chars (take scan_limit input) [] False;
          output = trim out
      in if output = [] then fallback else if truncated then output @ str_lit ''...'' else output)"

definition OSC_TITLE_MAX_CHARS :: nat where
  "OSC_TITLE_MAX_CHARS = 64"

section \<open>Renaming\<close>

definition rename_panes_in_rows :: "u32 \<Rightarrow> rstr \<Rightarrow> pane list list \<Rightarrow> pane list list" where
  "rename_panes_in_rows i new_title rows = map (map (\<lambda>p. if pane_id p = i then p\<lparr>pane_title := new_title\<rparr> else p)) rows"

definition tab_title_follows_pane :: "tab \<Rightarrow> u32 \<Rightarrow> bool" where
  "tab_title_follows_pane t i \<longleftrightarrow> tab_active_pane t = i \<or> length (concat (tab_panes t)) = 1"

definition rename_pane_in_tab :: "u32 \<Rightarrow> rstr \<Rightarrow> tab \<Rightarrow> tab" where
  "rename_pane_in_tab i new_title t = (let t' = t\<lparr>tab_panes := rename_panes_in_rows i new_title (tab_panes t)\<rparr> in
     if i \<in> set (pane_ids (tab_panes t)) \<and> tab_title_follows_pane t' i then t'\<lparr>tab_name := new_title\<rparr> else t')"

text \<open>The loops both handlers end with.\<close>

definition rename_everywhere :: "u32 \<Rightarrow> rstr \<Rightarrow> app \<Rightarrow> app" where
  "rename_everywhere i new_title s = s\<lparr>panes := rename_panes_in_rows i new_title (panes s),
     tabs := map (rename_pane_in_tab i new_title) (tabs s),
     workspaces := map (\<lambda>w. w\<lparr>ws_tabs := map (rename_pane_in_tab i new_title) (ws_tabs w)\<rparr>) (workspaces s)\<rparr>"

definition mutate_rename_pane :: "u32 \<Rightarrow> rstr \<Rightarrow> app \<Rightarrow> app" where
  "mutate_rename_pane i name s = (let trimmed = trim name in
     if trimmed = []
     then rename_everywhere i (str_lit ''shell'') (s\<lparr>custom_titled_panes := custom_titled_panes s - {i}\<rparr>)
     else rename_everywhere i trimmed (s\<lparr>custom_titled_panes := insert i (custom_titled_panes s)\<rparr>))"

section \<open>Titles of the guest program\<close>

definition prettify_osc_title :: "rstr \<Rightarrow> rstr" where
  "prettify_osc_title title = (let trimmed = trim title in
     if ends_with (str_lit ''.exe'') (to_ascii_lowercase trimmed) \<and> 32 \<notin> set trimmed \<and> (\<exists>c \<in> set trimmed. is_sep c)
     then let basename = after_seps trimmed
       in if 4 \<le> length basename \<and> to_ascii_lowercase (drop (length basename - 4) basename) = str_lit ''.exe''
          then take (length basename - 4) basename else title
     else title)"

text \<open>All copies of the panes: the grid in front, the tabs of the workspace, the tabs of all workspaces.\<close>

definition pane_copies :: "app \<Rightarrow> pane list" where
  "pane_copies s = concat (panes s) @ concat (map (\<lambda>t. concat (tab_panes t)) (tabs s)) @
     concat (map (\<lambda>w. concat (map (\<lambda>t. concat (tab_panes t)) (ws_tabs w))) (workspaces s))"

definition mutate_apply_osc_title :: "(rchar \<Rightarrow> bool) \<Rightarrow> u32 \<Rightarrow> rstr \<Rightarrow> app \<times> pane_tags \<Rightarrow> bool \<times> app \<times> pane_tags" where
  "mutate_apply_osc_title is_alnum i raw_title = (\<lambda>(s, tags).
     case find (\<lambda>p. pane_id p = i) (pane_copies s) of
       None \<Rightarrow> (False, s, tags)
     | Some p \<Rightarrow>
         let tags' = snd (classify_pane_title is_alnum i raw_title tags);
             s1 = s\<lparr>pane_agents := (if pt_agents tags' i = None then pane_agents s - {i} else insert i (pane_agents s))\<rparr>;
             new_title = sanitize_display_label (prettify_osc_title raw_title) (str_lit ''shell'') OSC_TITLE_MAX_CHARS
         in if i \<in> custom_titled_panes s then (False, s1, tags')
            else if pane_title p = new_title then (False, s1, tags')
            else (True, rename_everywhere i new_title s1, tags'))"

end
