(* ===== verification/Persist.thy ===== *)
theory Persist
  imports Layout_Move Pane_Titles
begin

text \<open>
  What survives a restart (src/src/persist.rs): the layout of the workspaces as it is written to the
  file, without editors and flow views, with the agent records of the panes, and the rebuilding of the
  state from such a file (\<open>restore_layout\<close> in src/src/state.rs, with the start in src/src/main.rs).
  The shares are rational numbers, so every one is finite. \<open>None\<close> is a panic. Of a workspace the layout
  state keeps the number and the tabs; the rest of what is saved is kept beside it, in the same order.
  The lists of the sidebar and telemetry are left out. \<open>is_absolute\<close> is \<open>Path::is_absolute\<close>.
\<close>

section \<open>Data\<close>

record shell_spec =
  sh_program :: rstr
  sh_args :: "rstr list"

record persisted_pane =
  pp_id :: u32
  pp_title :: rstr
  pp_subtitle :: rstr
  pp_custom_title :: bool
  pp_agent_restart :: "agent_restart option"
  pp_agent_tag :: "agent_tag option"

record persisted_tab =
  ptab_id :: rstr
  ptab_name :: rstr
  ptab_subtitle :: rstr
  ptab_panes :: "persisted_pane list list"
  ptab_active_pane :: u32
  ptab_row_ratios :: "rat list"
  ptab_col_ratios :: "rat list list"

record persisted_workspace =
  pw_num :: u32
  pw_name :: rstr
  pw_path :: "rstr option"
  pw_collapsed :: bool
  pw_shell :: shell_spec
  pw_tabs :: "persisted_tab list"
  pw_active_tab :: nat

record persisted_state =
  ps_workspaces :: "persisted_workspace list"
  ps_active_workspace :: nat
  ps_remember_close_choice :: bool
  ps_kill_all_on_close :: bool
  ps_worktree_tabs :: bool
  ps_auto_resume_agents :: bool
  ps_force_software_renderer :: bool
  ps_default_shell :: shell_spec
  ps_check_updates_on_startup :: "bool option"
  ps_update_prompted_version :: "rstr option"

datatype toggle_key = RememberCloseChoice | KillAllOnClose | WorktreeTabs | AutoResumeAgents
  | StartAtLogin | StartAtLoginStale | CheckUpdatesOnStartup | ForceSoftwareRenderer

record workspace_meta =
  wm_name :: rstr
  wm_path :: "rstr option"
  wm_collapsed :: bool
  wm_shell :: shell_spec

text \<open>The saved part of the state that the layout operations do not touch.\<close>

record durable =
  du_tags :: pane_tags
  du_meta :: "workspace_meta list"
  du_toggles :: "toggle_key \<rightharpoonup> bool"
  du_default_shell :: shell_spec
  du_prompted_version :: "rstr option"

section \<open>Labels\<close>

definition launched_tag :: "agent_tag option \<Rightarrow> agent_tag option" where
  "launched_tag tag = (case tag of Some t \<Rightarrow> if tag_source t = Launched then Some t else None | None \<Rightarrow> None)"

definition persisted_agent_label :: "rstr \<Rightarrow> agent_kind option \<Rightarrow> agent_tag option \<Rightarrow> bool \<Rightarrow> rstr" where
  "persisted_agent_label live managed_agent tag custom =
     (case (managed_agent, launched_tag tag) of
        (Some k, Some t) \<Rightarrow> if \<not> starts_with (str_lit ''qp: '') live then tag_label t else str_lit ''qp: '' @ kind_label k
      | (Some k, None) \<Rightarrow> str_lit ''qp: '' @ kind_label k
      | (None, Some t) \<Rightarrow> if custom then live else tag_label t
      | (None, None) \<Rightarrow> live)"

definition managed_kind :: "agent_restart option \<Rightarrow> agent_kind option" where
  "managed_kind r = (case r of Some x \<Rightarrow> if rs_managed x then Some (rs_agent x) else None | None \<Rightarrow> None)"

definition persisted_pane_of :: "u32 set \<Rightarrow> pane_tags \<Rightarrow> pane \<Rightarrow> persisted_pane" where
  "persisted_pane_of custom_titled tags p = (let i = pane_id p; restart = pt_restarts tags i; tag = pt_agents tags i;
       managed = managed_kind restart; custom = (i \<in> custom_titled)
     in \<lparr>pp_id = i, pp_title = persisted_agent_label (pane_title p) managed tag (managed = None \<and> custom),
         pp_subtitle = pane_subtitle p, pp_custom_title = (managed = None \<and> custom),
         pp_agent_restart = restart, pp_agent_tag = tag\<rparr>)"

text \<open>The first managed pane, else the first launched one, names the tab.\<close>

definition tab_label :: "u32 set \<Rightarrow> pane_tags \<Rightarrow> tab \<Rightarrow> rstr" where
  "tab_label custom_titled tags t = (let ids = pane_ids (tab_panes t) in
     case find (\<lambda>i. managed_kind (pt_restarts tags i) \<noteq> None) ids of
       Some i \<Rightarrow> persisted_agent_label (tab_name t) (managed_kind (pt_restarts tags i)) (pt_agents tags i) False
     | None \<Rightarrow> (case find (\<lambda>i. launched_tag (pt_agents tags i) \<noteq> None) ids of
         Some i \<Rightarrow> persisted_agent_label (tab_name t) None (pt_agents tags i) (i \<in> custom_titled)
       | None \<Rightarrow> persisted_agent_label (tab_name t) None None False))"

definition persisted_tab_of :: "u32 set \<Rightarrow> pane_tags \<Rightarrow> tab \<Rightarrow> persisted_tab" where
  "persisted_tab_of custom_titled tags t = \<lparr>ptab_id = tab_id t, ptab_name = tab_label custom_titled tags t,
     ptab_subtitle = tab_subtitle t, ptab_panes = map (map (persisted_pane_of custom_titled tags)) (tab_panes t),
     ptab_active_pane = tab_active_pane t, ptab_row_ratios = tab_row_ratios t, ptab_col_ratios = tab_col_ratios t\<rparr>"

section \<open>Transient panes\<close>

text \<open>A removed share goes to the neighbour before it, the first one's to the next; the indices are in range.\<close>

definition strip_share :: "nat \<Rightarrow> rat list \<Rightarrow> rat list" where
  "strip_share i rs = (if i < length rs
     then let closed = rs ! i; rest = take i rs @ drop (Suc i) rs; k = (if 0 < i then i - 1 else 0)
       in if rest = [] then rest else rest[k := rest ! k + closed]
     else rs)"

function strip_cols :: "u32 set \<Rightarrow> nat \<Rightarrow> persisted_pane list \<Rightarrow> rat list option \<Rightarrow> persisted_pane list \<times> rat list option" where
  "strip_cols ids col ps ratios =
     (if col < length ps
      then if pp_id (ps ! col) \<in> ids
        then strip_cols ids col (take col ps @ drop (Suc col) ps) (map_option (strip_share col) ratios)
        else strip_cols ids (col + 1) ps ratios
      else (ps, ratios))"
  by pat_completeness auto
termination by (relation "measure (\<lambda>(_, col, ps, _). length ps - col)") auto

declare strip_cols.simps [simp del]

definition set_nth :: "nat \<Rightarrow> 'a option \<Rightarrow> 'a list \<Rightarrow> 'a list" where
  "set_nth i x xs = (case x of Some v \<Rightarrow> xs[i := v] | None \<Rightarrow> xs)"

definition remove_nth :: "nat \<Rightarrow> 'a list \<Rightarrow> 'a list" where
  "remove_nth i xs = (if i < length xs then take i xs @ drop (Suc i) xs else xs)"

function strip_rows :: "u32 set \<Rightarrow> nat \<Rightarrow> persisted_pane list list \<times> rat list \<times> rat list list \<Rightarrow>
    persisted_pane list list \<times> rat list \<times> rat list list" where
  "strip_rows ids row (ps, rr, cr) =
     (if row < length ps
      then let (prow, crow) = strip_cols ids 0 (ps ! row) (nth_opt cr row); cr' = set_nth row crow cr
        in if prow = [] then strip_rows ids row (take row ps @ drop (Suc row) ps, strip_share row rr, remove_nth row cr')
           else strip_rows ids (row + 1) (ps[row := prow], rr, cr')
      else (ps, rr, cr))"
  by pat_completeness auto
termination by (relation "measure (\<lambda>(_, row, ps, _). length ps - row)") auto

declare strip_rows.simps [simp del]

text \<open>\<open>None\<close> when no pane is left.\<close>

definition strip_transient_panes :: "u32 set \<Rightarrow> persisted_tab \<Rightarrow> persisted_tab option" where
  "strip_transient_panes ids t =
     (case strip_rows ids 0 (ptab_panes t, ptab_row_ratios t, ptab_col_ratios t) of (ps, rr, cr) \<Rightarrow>
        if ps = [] then None
        else Some (t\<lparr>ptab_panes := ps, ptab_row_ratios := rr, ptab_col_ratios := cr,
          ptab_active_pane := (if ptab_active_pane t \<in> ids then pp_id (hd (hd ps)) else ptab_active_pane t)\<rparr>))"

fun strip_tabs :: "u32 set \<Rightarrow> nat \<Rightarrow> nat \<Rightarrow> persisted_tab list \<Rightarrow> persisted_tab list \<Rightarrow> nat \<Rightarrow> persisted_tab list \<times> nat" where
  "strip_tabs ids active idx [] kept new_active = (kept, new_active)"
| "strip_tabs ids active idx (t # ts) kept new_active = (case strip_transient_panes ids t of
     None \<Rightarrow> strip_tabs ids active (idx + 1) ts kept new_active
   | Some t' \<Rightarrow> strip_tabs ids active (idx + 1) ts (kept @ [t']) (if idx \<le> active then length kept else new_active))"

definition strip_transient_tabs :: "u32 set \<Rightarrow> persisted_tab list \<Rightarrow> nat \<Rightarrow> persisted_tab list \<times> nat" where
  "strip_transient_tabs ids ts active = (if ids = {} then (ts, active) else strip_tabs ids active 0 ts [] 0)"

section \<open>Saving\<close>

definition workspace_tabs :: "app \<Rightarrow> pane_tags \<Rightarrow> nat \<Rightarrow> persisted_tab list \<times> nat" where
  "workspace_tabs s tags w = (let custom = custom_titled_panes s; transient = editors s \<union> flows s in
     if w = active_workspace s
     then strip_transient_tabs transient
       (map (\<lambda>i. let pt = persisted_tab_of custom tags (tabs s ! i) in
          if i = active_tab s
          then pt\<lparr>ptab_panes := map (map (persisted_pane_of custom tags)) (panes s), ptab_active_pane := active_pane s,
                  ptab_row_ratios := row_ratios s, ptab_col_ratios := col_ratios s\<rparr>
          else pt) [0..<length (tabs s)]) (active_tab s)
     else let ws = workspaces s ! w
       in strip_transient_tabs transient (map (persisted_tab_of custom tags) (ws_tabs ws)) (ws_active_tab ws))"

definition toggle_or :: "bool \<Rightarrow> (toggle_key \<rightharpoonup> bool) \<Rightarrow> toggle_key \<Rightarrow> bool" where
  "toggle_or b0 m k = (case m k of Some b \<Rightarrow> b | None \<Rightarrow> b0)"

definition persisted_from_state :: "app \<Rightarrow> durable \<Rightarrow> persisted_state" where
  "persisted_from_state s d = \<lparr>
     ps_workspaces = map (\<lambda>(i, w, m). let (ts, active) = workspace_tabs s (du_tags d) i
         in \<lparr>pw_num = ws_num w, pw_name = wm_name m, pw_path = wm_path m, pw_collapsed = wm_collapsed m,
             pw_shell = wm_shell m, pw_tabs = ts, pw_active_tab = active\<rparr>)
       (zip [0..<length (workspaces s)] (zip (workspaces s) (du_meta d))),
     ps_active_workspace = active_workspace s,
     ps_remember_close_choice = toggle_or False (du_toggles d) RememberCloseChoice,
     ps_kill_all_on_close = toggle_or False (du_toggles d) KillAllOnClose,
     ps_worktree_tabs = toggle_or False (du_toggles d) WorktreeTabs,
     ps_auto_resume_agents = toggle_or False (du_toggles d) AutoResumeAgents,
     ps_force_software_renderer = toggle_or False (du_toggles d) ForceSoftwareRenderer,
     ps_default_shell = du_default_shell d,
     ps_check_updates_on_startup = Some (toggle_or True (du_toggles d) CheckUpdatesOnStartup),
     ps_update_prompted_version = du_prompted_version d\<rparr>"

definition has_layout :: "persisted_state \<Rightarrow> bool" where
  "has_layout p \<longleftrightarrow> (\<exists>w \<in> set (ps_workspaces p). pw_tabs w \<noteq> [])"

section \<open>Restoring\<close>

text \<open>What is collected over all panes, those of dropped tabs too.\<close>

record restore_acc =
  ra_max :: u32
  ra_custom :: "u32 set"
  ra_tags :: pane_tags

fun map_acc :: "('a \<Rightarrow> 's \<Rightarrow> 'b \<times> 's) \<Rightarrow> 'a list \<Rightarrow> 's \<Rightarrow> 'b list \<times> 's" where
  "map_acc f [] acc = ([], acc)"
| "map_acc f (x # xs) acc = (let (y, acc1) = f x acc; (ys, acc2) = map_acc f xs acc1 in (y # ys, acc2))"

definition or_default_text :: "rstr \<Rightarrow> string \<Rightarrow> rstr" where
  "or_default_text s fallback = (if s = [] then str_lit fallback else s)"

definition restored_tags :: "(rchar \<Rightarrow> bool) \<Rightarrow> (rstr \<Rightarrow> bool) \<Rightarrow> persisted_pane \<Rightarrow> pane_tags \<Rightarrow> pane_tags" where
  "restored_tags is_alnum is_absolute pp tags = (let i = pp_id pp;
       tags1 = (case pp_agent_restart pp of
         Some r \<Rightarrow> if is_absolute (rs_cwd r) then tags\<lparr>pt_restarts := (pt_restarts tags)(i \<mapsto> r)\<rparr> else tags
       | None \<Rightarrow> tags)
     in case (case pp_agent_tag pp of Some t \<Rightarrow> if tag_source t \<noteq> Process then Some t else None | None \<Rightarrow> None) of
          Some t \<Rightarrow> tags1\<lparr>pt_agents := (pt_agents tags1)(i \<mapsto> t)\<rparr>
        | None \<Rightarrow> if pp_agent_restart pp = None \<and> \<not> pp_custom_title pp
            then (case classify_title is_alnum (pp_title pp) of
                Some (p, _) \<Rightarrow> tags1\<lparr>pt_agents := (pt_agents tags1)(i \<mapsto> \<lparr>tag_profile = ap_id p, tag_source = Title\<rparr>)\<rparr>
              | None \<Rightarrow> tags1)
            else tags1)"

definition restore_pane :: "(rchar \<Rightarrow> bool) \<Rightarrow> (rstr \<Rightarrow> bool) \<Rightarrow> persisted_pane \<Rightarrow> restore_acc \<Rightarrow> pane \<times> restore_acc" where
  "restore_pane is_alnum is_absolute pp acc =
     (shell_pane (pp_id pp) (or_default_text (pp_title pp) ''shell'') (or_default_text (pp_subtitle pp) ''bash''),
      \<lparr>ra_max = max (ra_max acc) (pp_id pp),
       ra_custom = (if pp_custom_title pp \<and> pp_title pp \<noteq> [] then insert (pp_id pp) (ra_custom acc) else ra_custom acc),
       ra_tags = restored_tags is_alnum is_absolute pp (ra_tags acc)\<rparr>)"

definition terminal_tab_from_persisted :: "(rchar \<Rightarrow> bool) \<Rightarrow> (rstr \<Rightarrow> bool) \<Rightarrow> persisted_tab \<Rightarrow> restore_acc \<Rightarrow> tab option \<times> restore_acc" where
  "terminal_tab_from_persisted is_alnum is_absolute pt acc =
     (let (rows, acc') = map_acc (map_acc (restore_pane is_alnum is_absolute)) (ptab_panes pt) acc;
          ps = filter (\<lambda>row. row \<noteq> []) rows
      in if ps = [] then (None, acc')
         else (Some \<lparr>tab_id = ptab_id pt, tab_name = or_default_text (ptab_name pt) ''shell'', tab_subtitle = or_default_text (ptab_subtitle pt) ''bash'',
                tab_status = Running, tab_panes = ps,
                tab_active_pane = (case find (\<lambda>i. i = ptab_active_pane pt) (pane_ids ps) of
                  Some i \<Rightarrow> i | None \<Rightarrow> pane_id (hd (hd ps))),
                tab_row_ratios = normalized_row_ratios ps (ptab_row_ratios pt),
                tab_col_ratios = normalized_col_ratios ps (ptab_col_ratios pt)\<rparr>, acc'))"

text \<open>The numbers in use are distinct, so their count is the size of the hash set.\<close>

definition allocate_workspace_num :: "u32 list \<Rightarrow> u32 option" where
  "allocate_workspace_num used = (let highest = fold max used 0 in
     if highest \<noteq> 2 ^ 32 - 1 \<and> highest + 1 \<noteq> 0 \<and> highest + 1 \<notin> set used then Some (highest + 1)
     else find (\<lambda>c. c \<notin> set used) (map of_nat [1..<Suc (max (min (length used + 1) (2 ^ 32 - 1)) 1)]))"

definition restored_num :: "u32 list \<Rightarrow> u32 \<Rightarrow> u32 option" where
  "restored_num used n = (if n \<noteq> 0 \<and> n \<notin> set used then Some n else allocate_workspace_num used)"

fun restore_workspaces :: "(rchar \<Rightarrow> bool) \<Rightarrow> (rstr \<Rightarrow> bool) \<Rightarrow> persisted_workspace list \<Rightarrow> u32 list \<Rightarrow> restore_acc \<Rightarrow>
    workspace list \<times> workspace_meta list \<times> restore_acc" where
  "restore_workspaces is_alnum is_absolute [] used acc = ([], [], acc)"
| "restore_workspaces is_alnum is_absolute (e # es) used acc = (case restored_num used (pw_num e) of
     None \<Rightarrow> restore_workspaces is_alnum is_absolute es used acc
   | Some n \<Rightarrow>
       let (opts, acc1) = map_acc (terminal_tab_from_persisted is_alnum is_absolute) (pw_tabs e) acc;
           ts = List.map_filter (\<lambda>t. t) opts;
           (wss, metas, acc2) = restore_workspaces is_alnum is_absolute es (n # used) acc1
       in (\<lparr>ws_num = n, ws_tabs = ts, ws_active_tab = (if ts = [] then 0 else min (pw_active_tab e) (length ts - 1))\<rparr> # wss,
           \<lparr>wm_name = pw_name e, wm_path = pw_path e, wm_collapsed = pw_collapsed e, wm_shell = pw_shell e\<rparr> # metas, acc2))"

definition saturating_inc :: "u32 \<Rightarrow> u32" where
  "saturating_inc n = (if n = 2 ^ 32 - 1 then n else n + 1)"

definition seed_fresh_terminal_tab :: "u32 \<Rightarrow> app \<Rightarrow> app" where
  "seed_fresh_terminal_tab i s = (let p = shell_pane i (str_lit ''shell'') (str_lit ''bash'');
       t = tab_of_pane (str_lit ''shell'') (str_lit ''bash'') Running p;
       s1 = s\<lparr>tabs := [t], active_tab := 0, panes := [[p]], active_pane := i, row_ratios := [1], col_ratios := [[1]]\<rparr>
     in if active_workspace s1 < length (workspaces s1)
        then s1\<lparr>workspaces := (workspaces s1)[active_workspace s1 :=
          (workspaces s1 ! active_workspace s1)\<lparr>ws_tabs := [t], ws_active_tab := 0\<rparr>]\<rparr>
        else s1)"

definition seed_default_tab :: "u32 \<Rightarrow> app \<Rightarrow> app \<times> u32" where
  "seed_default_tab max_pane_id s = (let i = saturating_inc max_pane_id in (seed_fresh_terminal_tab i s, i))"

definition ensure_live_pane :: "u32 \<Rightarrow> app \<Rightarrow> app \<times> u32" where
  "ensure_live_pane max_pane_id s = (if concat (panes s) = [] then seed_default_tab max_pane_id s else (s, max_pane_id))"

definition persisted_ids :: "persisted_state \<Rightarrow> u32 set" where
  "persisted_ids p = set (map pp_id (concat (map (\<lambda>w. concat (map (\<lambda>t. concat (ptab_panes t)) (pw_tabs w))) (ps_workspaces p))))"

definition restore_layout :: "(rchar \<Rightarrow> bool) \<Rightarrow> (rstr \<Rightarrow> bool) \<Rightarrow> persisted_state \<Rightarrow> app \<times> durable \<Rightarrow> (app \<times> durable) option" where
  "restore_layout is_alnum is_absolute p = (\<lambda>(s, d).
     if ps_workspaces p = [] then Some (s, d)
     else let active_idx = min (ps_active_workspace p) (length (ps_workspaces p) - 1);
              (wss, metas, acc) = restore_workspaces is_alnum is_absolute (ps_workspaces p) []
                \<lparr>ra_max = 0, ra_custom = {}, ra_tags = \<lparr>pt_restarts = Map.empty, pt_agents = Map.empty\<rparr>\<rparr>;
              tags = ra_tags acc;
              s1 = s\<lparr>workspaces := wss, active_workspace := active_idx, custom_titled_panes := ra_custom acc,
                agent_restarts := {i \<in> persisted_ids p. pt_restarts tags i \<noteq> None},
                pane_agents := {i \<in> persisted_ids p. pt_agents tags i \<noteq> None},
                pending_agent_resumes := {}, agent_resume_attempts := {}, agent_resume_preflights := {}\<rparr>
       in do { s2 \<leftarrow> load_workspace_state s1;
               let (s3, m) = ensure_live_pane (ra_max acc) s2;
               Some (s3\<lparr>next_id := max (saturating_inc m) 2\<rparr>, d\<lparr>du_tags := tags, du_meta := metas\<rparr>) })"

text \<open>The start of the application: the layout and the saved choices.\<close>

definition restore_at_start :: "(rchar \<Rightarrow> bool) \<Rightarrow> (rstr \<Rightarrow> bool) \<Rightarrow> persisted_state option \<Rightarrow> app \<times> durable \<Rightarrow> (app \<times> durable) option" where
  "restore_at_start is_alnum is_absolute persisted sd = (case persisted of None \<Rightarrow> Some sd
   | Some p \<Rightarrow> do {
       (s, d) \<leftarrow> restore_layout is_alnum is_absolute p sd;
       Some (s, d\<lparr>du_toggles := (du_toggles d)
           (RememberCloseChoice \<mapsto> ps_remember_close_choice p, KillAllOnClose \<mapsto> ps_kill_all_on_close p,
            WorktreeTabs \<mapsto> ps_worktree_tabs p, AutoResumeAgents \<mapsto> ps_auto_resume_agents p,
            ForceSoftwareRenderer \<mapsto> ps_force_software_renderer p,
            CheckUpdatesOnStartup \<mapsto> (case ps_check_updates_on_startup p of Some b \<Rightarrow> b | None \<Rightarrow> True)),
         du_prompted_version := ps_update_prompted_version p, du_default_shell := ps_default_shell p\<rparr>) })"

end
