(* ===== verification/Titles_Props.thy ===== *)
theory Titles_Props
  imports Persist Layout_Props
begin

text \<open>
  What a guest program can and cannot do with its window title: it cannot undo the user's name for a
  pane, it cannot put control or direction characters on the screen, and the title of a launched agent
  does not reach the saved layout through its pane.
\<close>

section \<open>Guest titles and the user's names\<close>

type_synonym guest_title = "u32 \<times> rstr"

definition hear_title :: "(rchar \<Rightarrow> bool) \<Rightarrow> guest_title \<Rightarrow> app \<times> pane_tags \<Rightarrow> app \<times> pane_tags" where
  "hear_title is_alnum = (\<lambda>(i, title) st. snd (mutate_apply_osc_title is_alnum i title st))"

lemma set_rename_panes_in_rows:
  "set (concat (rename_panes_in_rows i n rows)) = (\<lambda>p. if pane_id p = i then p\<lparr>pane_title := n\<rparr> else p) ` set (concat rows)"
  by (auto simp: rename_panes_in_rows_def)

lemma tab_panes_rename: "tab_panes (rename_pane_in_tab i n t) = rename_panes_in_rows i n (tab_panes t)"
  by (simp add: rename_pane_in_tab_def Let_def)

lemma pane_copies_rename:
  "set (pane_copies (rename_everywhere i n s)) = (\<lambda>p. if pane_id p = i then p\<lparr>pane_title := n\<rparr> else p) ` set (pane_copies s)"
proof -
  let ?f = "\<lambda>p. if pane_id p = i then p\<lparr>pane_title := n\<rparr> else p"
  have "set (concat (map (\<lambda>t. concat (tab_panes t)) (map (rename_pane_in_tab i n) ts))) =
      ?f ` set (concat (map (\<lambda>t. concat (tab_panes t)) ts))" for ts
    by (induction ts) (simp_all add: tab_panes_rename set_rename_panes_in_rows image_Un del: set_concat if_image_distrib)
  note t = this
  have "set (concat (map (\<lambda>w. concat (map (\<lambda>t. concat (tab_panes t)) (ws_tabs w)))
        (map (\<lambda>w. w\<lparr>ws_tabs := map (rename_pane_in_tab i n) (ws_tabs w)\<rparr>) ws))) =
      ?f ` set (concat (map (\<lambda>w. concat (map (\<lambda>t. concat (tab_panes t)) (ws_tabs w))) ws))" for ws
    by (induction ws) (simp_all add: image_Un t del: set_concat map_map if_image_distrib)
  note w = this
  show ?thesis
    unfolding pane_copies_def rename_everywhere_def
    by (simp add: image_Un t w set_rename_panes_in_rows del: set_concat map_map if_image_distrib)
qed

lemma custom_rename [simp]: "custom_titled_panes (rename_everywhere i n s) = custom_titled_panes s"
  by (simp add: rename_everywhere_def)

lemma hear_title_cases:
  obtains (quiet) s1 tags1 where "hear_title is_alnum (i, title) (s, tags) = (s1, tags1)" and "pane_copies s1 = pane_copies s"
      and "custom_titled_panes s1 = custom_titled_panes s"
  | (renamed) s1 tags1 where "hear_title is_alnum (i, title) (s, tags) = (s1, tags1)" and "i \<notin> custom_titled_panes s"
      and "custom_titled_panes s1 = custom_titled_panes s"
      and "set (pane_copies s1) = (\<lambda>p. if pane_id p = i
        then p\<lparr>pane_title := sanitize_display_label (prettify_osc_title title) (str_lit ''shell'') OSC_TITLE_MAX_CHARS\<rparr> else p) ` set (pane_copies s)"
proof (cases "find (\<lambda>p. pane_id p = i) (pane_copies s)")
  case None
  then show thesis using quiet by (simp add: hear_title_def mutate_apply_osc_title_def)
next
  case (Some p)
  have c: "pane_copies (s\<lparr>pane_agents := a\<rparr>) = pane_copies s" for a by (simp add: pane_copies_def)
  let ?n = "sanitize_display_label (prettify_osc_title title) (str_lit ''shell'') OSC_TITLE_MAX_CHARS"
  show thesis
  proof (cases "i \<in> custom_titled_panes s \<or> pane_title p = ?n")
    case True
    then show thesis using quiet c Some by (auto simp: hear_title_def mutate_apply_osc_title_def Let_def)
  next
    case False
    then show thesis using renamed Some
      by (simp add: hear_title_def mutate_apply_osc_title_def Let_def pane_copies_rename c)
  qed
qed

text \<open>C37: Once the user has named a pane, no sequence of guest titles, for this pane or any other, changes the name in
  any copy of the pane: the grid in front, the tabs of the workspace, the tabs of the other workspaces.\<close>

theorem user_name_survives_guest_titles:
  assumes "trim name \<noteq> []"
    and "fold (hear_title is_alnum) titles (mutate_rename_pane i name s, tags) = (s', tags')"
    and "p \<in> set (pane_copies s')" and "pane_id p = i"
  shows "pane_title p = trim name"
proof -
  define named where "named st \<longleftrightarrow> i \<in> custom_titled_panes (fst st) \<and> (\<forall>p \<in> set (pane_copies (fst st)). pane_id p = i \<longrightarrow> pane_title p = trim name)"
    for st :: "app \<times> pane_tags"
  have start: "named (mutate_rename_pane i name s, tags)"
    using assms(1) by (simp add: named_def mutate_rename_pane_def pane_copies_rename del: if_image_distrib)
  have step: "named (hear_title is_alnum ti st)" if "named st" for ti st
  proof -
    obtain j title where ti: "ti = (j, title)" by (cases ti)
    obtain s0 t0 where st: "st = (s0, t0)" by (cases st)
    have n: "i \<in> custom_titled_panes s0" "\<forall>p \<in> set (pane_copies s0). pane_id p = i \<longrightarrow> pane_title p = trim name"
      using that by (simp_all add: named_def st)
    show ?thesis unfolding ti st
    proof (cases rule: hear_title_cases [of is_alnum j title s0 t0])
      case (quiet s1 tags1)
      then show "named (hear_title is_alnum (j, title) (s0, t0))" using n by (simp add: named_def)
    next
      case (renamed s1 tags1)
      then show "named (hear_title is_alnum (j, title) (s0, t0))" using n by (auto simp: named_def simp del: if_image_distrib)
    qed
  qed
  have "named (fold (hear_title is_alnum) titles st)" if "named st" for st
    using that by (induction titles arbitrary: st) (simp_all add: step)
  from this [OF start] show ?thesis using assms(2-4) by (simp add: named_def)
qed

definition aider_tags :: pane_tags where
  "aider_tags = \<lparr>pt_restarts = Map.empty, pt_agents = [1 \<mapsto> \<lparr>tag_profile = str_lit ''aider'', tag_source = Launched\<rparr>]\<rparr>"

lemma pane_id_shell_pane: "pane_id (shell_pane i t b) = i"
  by (simp add: shell_pane_def)

theorem user_name_survives_guest_titles_witness:
  "pane_title (shell_pane 1 (str_lit ''ab'') (str_lit ''bash'')) = trim (str_lit '' ab'')"
proof -
  let ?st = "fold (hear_title (\<lambda>c. True)) [(1, str_lit ''x''), (2, [])] (mutate_rename_pane 1 (str_lit '' ab'') seed_app, aider_tags)"
  have t: "trim (str_lit '' ab'') = str_lit ''ab''" "str_lit ''ab'' \<noteq> []"
    by (simp_all add: trim_def trim_start_def trim_end_def str_lit_def is_whitespace_def)
  have "custom_titled_panes (mutate_rename_pane 1 (str_lit '' ab'') seed_app) = {1}" "pane_copies (mutate_rename_pane 1 (str_lit '' ab'') seed_app) =
      [shell_pane 1 (str_lit ''ab'') (str_lit ''bash''), shell_pane 1 (str_lit ''ab'') (str_lit ''bash'')]"
    using t by (simp_all add: mutate_rename_pane_def seed_app_def pane_copies_def rename_everywhere_def rename_panes_in_rows_def
        rename_pane_in_tab_def tab_of_pane_def shell_pane_def Let_def)
  then have "shell_pane 1 (str_lit ''ab'') (str_lit ''bash'') \<in> set (pane_copies (fst ?st))"
    by (simp add: hear_title_def mutate_apply_osc_title_def classify_pane_title_def aider_tags_def pane_copies_def Let_def pane_id_shell_pane)
  then show ?thesis
    using user_name_survives_guest_titles [of "str_lit '' ab''" "\<lambda>c. True" "[(1, str_lit ''x''), (2, [])]" 1 seed_app aider_tags "fst ?st" "snd ?st"] t
    by (simp add: pane_id_shell_pane)
qed

section \<open>What a guest title can put on the screen\<close>

definition printable :: "rchar \<Rightarrow> bool" where
  "printable c \<longleftrightarrow> c = 32 \<or> \<not> is_whitespace c \<and> \<not> is_control c \<and> \<not> is_bidi_control c"

fun single_spaced :: "rstr \<Rightarrow> bool" where
  "single_spaced (a # b # cs) \<longleftrightarrow> \<not> (a = 32 \<and> b = 32) \<and> single_spaced (b # cs)"
| "single_spaced _ \<longleftrightarrow> True"

lemma single_spaced_snoc: "single_spaced (cs @ [c]) \<longleftrightarrow> single_spaced cs \<and> \<not> (cs \<noteq> [] \<and> last cs = 32 \<and> c = 32)"
  by (induction cs rule: single_spaced.induct) auto

lemma single_spaced_append: "single_spaced (cs @ ds) \<Longrightarrow> single_spaced cs"
  by (induction ds rule: rev_induct) (auto simp: single_spaced_snoc append_assoc [symmetric] simp del: append_assoc)

lemma single_spaced_drop: "single_spaced (cs @ ds) \<Longrightarrow> single_spaced ds"
proof (induction cs)
  case (Cons c cs)
  then show ?case by (cases "cs @ ds") auto
qed simp

lemma sanitize_loop_label:
  assumes "sanitize_loop m cs out sp = (out', tr)" and "sp \<longleftrightarrow> out \<noteq> [] \<and> last out = 32"
    and "length out \<le> m" and "\<forall>c \<in> set out. printable c" and "single_spaced out"
  shows "length out' \<le> m \<and> (\<forall>c \<in> set out'. printable c) \<and> single_spaced out'"
  using assms
proof (induction m cs out sp rule: sanitize_loop.induct)
  case (2 m c cs out sp)
  show ?case
  proof (cases "is_bidi_control c")
    case True
    show ?thesis by (rule 2(1) [OF True _ 2(6-9)]) (use 2(5) True in simp)
  next
    case nb: False
    show ?thesis
    proof (cases "normalize_palette_char c")
      case None
      show ?thesis by (rule 2(2) [OF nb None _ 2(6-9)]) (use 2(5) nb None in simp)
    next
      case (Some ch)
      have ch: "printable ch" using Some nb by (auto simp: normalize_palette_char_def printable_def split: if_splits)
      show ?thesis
      proof (cases "ch = 32 \<and> (out = [] \<or> sp)")
        case True
        show ?thesis by (rule 2(3) [OF nb Some True _ 2(6-9)]) (use 2(5) nb Some True in simp)
      next
        case False
        show ?thesis
        proof (cases "m \<le> length out")
          case True
          then have "out' = out" using 2(5) nb Some False by (simp split: if_splits)
          then show ?thesis using 2(7-9) by simp
        next
          case room: False
          show ?thesis
          proof (rule 2(4) [OF nb Some False room])
            show "sanitize_loop m cs (out @ [ch]) (ch = 32) = (out', tr)" using 2(5) nb Some False room by (simp split: if_splits)
            show "\<forall>c \<in> set (out @ [ch]). printable c" using 2(8) ch by simp
            show "single_spaced (out @ [ch])" using 2(6,9) False by (auto simp: single_spaced_snoc)
          qed (use room in simp_all)
        qed
      qed
    qed
  qed
qed simp

lemma trim_inside: "\<exists>a b. s = a @ trim s @ b" and trim_ends: "trim s \<noteq> [] \<Longrightarrow> \<not> is_whitespace (hd (trim s))"
proof -
  define t where "t = dropWhile is_whitespace s"
  define u where "u = rev (dropWhile is_whitespace (rev t))"
  have u: "trim s = u" by (simp add: trim_def trim_start_def trim_end_def u_def t_def)
  have s: "s = takeWhile is_whitespace s @ t" by (simp add: t_def)
  have "rev t = takeWhile is_whitespace (rev t) @ dropWhile is_whitespace (rev t)" by simp
  then have t: "t = u @ rev (takeWhile is_whitespace (rev t))" unfolding u_def by (metis rev_append rev_rev_ident)
  show "\<exists>a b. s = a @ trim s @ b" using s t u by metis
  assume "trim s \<noteq> []"
  then have "u \<noteq> []" by (simp add: u)
  then have "hd t = hd u" "t \<noteq> []" using t by (metis hd_append2, metis append_is_Nil_conv)
  then show "\<not> is_whitespace (hd (trim s))" using hd_dropWhile [of is_whitespace s] by (simp add: u t_def)
qed

text \<open>C38: Whatever a guest program reports, the label made of it is the fallback or at most \<open>max_chars\<close> characters
  and an ellipsis, with no control, direction or line-break character, no two spaces in a row and none in front.\<close>

theorem label_is_printable:
  "sanitize_display_label input fallback m \<in> {fallback} \<union>
     {l. length l \<le> m + 3 \<and> list_all printable l \<and> single_spaced l \<and> l \<noteq> [] \<and> hd l \<noteq> 32}"
proof -
  obtain out tr where o: "sanitize_loop m (take (max (min (m * 4) (2 ^ 64 - 1)) (m + 1)) input) [] False = (out, tr)"
    by (cases "sanitize_loop m (take (max (min (m * 4) (2 ^ 64 - 1)) (m + 1)) input) [] False")
  have out: "length out \<le> m" "\<forall>c \<in> set out. printable c" "single_spaced out"
    using sanitize_loop_label [OF o] by simp_all
  obtain a b where ab: "out = a @ trim out @ b" using trim_inside by blast
  have l: "length (trim out) \<le> m" "\<forall>c \<in> set (trim out). printable c" "single_spaced (trim out)"
    using out ab single_spaced_append [of "trim out" b] single_spaced_drop [of a "trim out @ b"]
    by (metis length_append le_add1 le_add2 le_trans, metis in_set_conv_decomp append_assoc UnCI set_append, metis)
  have h: "trim out \<noteq> [] \<Longrightarrow> hd (trim out) \<noteq> 32" using trim_ends [of out] by (auto simp: is_whitespace_def)
  have dots: "single_spaced (cs @ [46, 46, 46])" if "single_spaced cs" for cs
    using that single_spaced_snoc [of cs 46] single_spaced_snoc [of "cs @ [46]" 46] single_spaced_snoc [of "cs @ [46, 46]" 46] by simp
  have dot: "printable 46" by (simp add: printable_def is_whitespace_def is_control_def is_bidi_control_def)
  show ?thesis
    unfolding sanitize_display_label_def Let_def o
    using l h dots dot by (simp add: list_all_iff str_lit_def)
qed

section \<open>What of it is saved\<close>

definition saved_panes :: "persisted_state \<Rightarrow> persisted_pane list" where
  "saved_panes p = concat (map (\<lambda>w. concat (map (\<lambda>t. concat (ptab_panes t)) (pw_tabs w))) (ps_workspaces p))"

lemma strip_cols_subset: "strip_cols ids c ps rs = (ps', rs') \<Longrightarrow> set ps' \<subseteq> set ps"
proof (induction ids c ps rs arbitrary: ps' rs' rule: strip_cols.induct)
  case (1 ids c ps rs)
  have s: "set (take c ps @ drop (Suc c) ps) \<subseteq> set ps" by (auto dest: in_set_takeD in_set_dropD)
  note e = strip_cols.simps [of ids c ps rs, unfolded 1(3)]
  show ?case
  proof (cases "c < length ps")
    case True
    show ?thesis
    proof (cases "pp_id (ps ! c) \<in> ids")
      case t: True
      have "strip_cols ids c (take c ps @ drop (Suc c) ps) (map_option (strip_share c) rs) = (ps', rs')" using e True t by simp
      from 1(1) [OF True t this] have "set ps' \<subseteq> set (take c ps @ drop (Suc c) ps)" .
      then show ?thesis using s by blast
    next
      case False
      have "strip_cols ids (c + 1) ps rs = (ps', rs')" using e True False by simp
      from 1(2) [OF True False this] show ?thesis .
    qed
  qed (use e in simp)
qed

lemma strip_rows_subset: "strip_rows ids r (ps, rr, cr) = (ps', rr', cr') \<Longrightarrow> set (concat ps') \<subseteq> set (concat ps)"
proof (induction ids r "(ps, rr, cr)" arbitrary: ps rr cr rule: strip_rows.induct)
  case (1 ids r ps rr cr)
  note e = strip_rows.simps [of ids r ps rr cr, unfolded 1(3)]
  show ?case
  proof (cases "r < length ps")
    case False
    then show ?thesis using 1(3) by (simp add: strip_rows.simps)
  next
    case True
    obtain prow crow where s: "strip_cols ids 0 (ps ! r) (nth_opt cr r) = (prow, crow)"
      by (cases "strip_cols ids 0 (ps ! r) (nth_opt cr r)")
    have p: "set prow \<subseteq> set (concat ps)" using strip_cols_subset [OF s] True by (auto dest: nth_mem)
    show ?thesis
    proof (cases "prow = []")
      case t: True
      have "set (concat ps') \<subseteq> set (concat (take r ps @ drop (Suc r) ps))"
        by (rule 1(1) [OF True s [symmetric] refl refl t]) (simp add: e True s t)
      also have "\<dots> \<subseteq> set (concat ps)" by (auto dest: in_set_takeD in_set_dropD)
      finally show ?thesis .
    next
      case f: False
      have "set (concat ps') \<subseteq> set (concat (ps[r := prow]))"
        by (rule 1(2) [OF True s [symmetric] refl refl f]) (simp add: e True s f)
      also have "\<dots> \<subseteq> set (concat ps)" using p by (auto dest!: set_update_subset_insert [THEN subsetD])
      finally show ?thesis .
    qed
  qed
qed

lemma strip_tabs_subset:
  "set (concat (map (\<lambda>t. concat (ptab_panes t)) (fst (strip_tabs ids a k ts kept n)))) \<subseteq>
     set (concat (map (\<lambda>t. concat (ptab_panes t)) (kept @ ts)))"
proof (induction ids a k ts kept n rule: strip_tabs.induct)
  case (2 ids a k t ts kept n)
  show ?case
  proof (cases "strip_transient_panes ids t")
    case None
    then show ?thesis using 2(1) by auto
  next
    case (Some t')
    obtain ps rr cr where s: "strip_rows ids 0 (ptab_panes t, ptab_row_ratios t, ptab_col_ratios t) = (ps, rr, cr)"
      by (cases "strip_rows ids 0 (ptab_panes t, ptab_row_ratios t, ptab_col_ratios t)")
    have "set (concat (ptab_panes t')) \<subseteq> set (concat (ptab_panes t))"
      using Some s strip_rows_subset [OF s] by (cases "ps = []") (auto simp: strip_transient_panes_def simp del: set_concat)
    then show ?thesis using 2(2) [OF Some] Some by (auto simp del: set_concat)
  qed
qed simp

lemma strip_transient_tabs_subset:
  "set (concat (map (\<lambda>t. concat (ptab_panes t)) (fst (strip_transient_tabs ids ts a)))) \<subseteq> set (concat (map (\<lambda>t. concat (ptab_panes t)) ts))"
  using strip_tabs_subset [of ids a 0 ts "[]" 0] by (simp add: strip_transient_tabs_def del: set_concat)

lemma persisted_tab_panes: "concat (ptab_panes (persisted_tab_of custom tags t)) = map (persisted_pane_of custom tags) (concat (tab_panes t))"
  by (simp add: persisted_tab_of_def map_concat)

text \<open>Every saved pane is a copy of a live one.\<close>

lemma workspace_tabs_panes:
  assumes "w < length (workspaces s)"
  shows "set (concat (map (\<lambda>t. concat (ptab_panes t)) (fst (workspace_tabs s tags w)))) \<subseteq>
    persisted_pane_of (custom_titled_panes s) tags ` set (pane_copies s)"
proof (cases "w = active_workspace s")
  case False
  have "workspaces s ! w \<in> set (workspaces s)" using assms by simp
  then have "set (concat (map (\<lambda>t. concat (ptab_panes t)) (map (persisted_tab_of (custom_titled_panes s) tags) (ws_tabs (workspaces s ! w))))) \<subseteq>
      persisted_pane_of (custom_titled_panes s) tags ` set (pane_copies s)"
    by (auto simp: persisted_tab_of_def pane_copies_def)
  then show ?thesis
    using False strip_transient_tabs_subset [of "editors s \<union> flows s" "map (persisted_tab_of (custom_titled_panes s) tags) (ws_tabs (workspaces s ! w))" "ws_active_tab (workspaces s ! w)"]
    by (simp add: workspace_tabs_def Let_def del: set_concat map_map)
next
  case True
  let ?g = "\<lambda>i. let pt = persisted_tab_of (custom_titled_panes s) tags (tabs s ! i) in
     if i = active_tab s
     then pt\<lparr>ptab_panes := map (map (persisted_pane_of (custom_titled_panes s) tags)) (panes s), ptab_active_pane := active_pane s,
             ptab_row_ratios := row_ratios s, ptab_col_ratios := col_ratios s\<rparr>
     else pt"
  have "set (concat (ptab_panes (?g i))) \<subseteq> persisted_pane_of (custom_titled_panes s) tags ` set (pane_copies s)" if "i < length (tabs s)" for i
  proof (cases "i = active_tab s")
    case t: True
    then show ?thesis by (auto simp: Let_def pane_copies_def)
  next
    case f: False
    have "tabs s ! i \<in> set (tabs s)" using that by simp
    then show ?thesis using f by (auto simp: Let_def persisted_tab_of_def pane_copies_def)
  qed
  moreover have "set (concat (map (\<lambda>t. concat (ptab_panes t)) (map ?g [0..<length (tabs s)]))) = (\<Union>i < length (tabs s). set (concat (ptab_panes (?g i))))"
    by (simp del: set_concat add: set_concat [of "map f xs" for f xs] atLeast0LessThan)
  ultimately have "set (concat (map (\<lambda>t. concat (ptab_panes t)) (map ?g [0..<length (tabs s)]))) \<subseteq>
      persisted_pane_of (custom_titled_panes s) tags ` set (pane_copies s)" by blast
  then show ?thesis
    using True strip_transient_tabs_subset [of "editors s \<union> flows s" "map ?g [0..<length (tabs s)]" "active_tab s"]
    by (simp add: workspace_tabs_def Let_def del: set_concat)
qed

lemma saved_panes_are_copies:
  "set (saved_panes (persisted_from_state s d)) \<subseteq> persisted_pane_of (custom_titled_panes s) (du_tags d) ` set (pane_copies s)"
proof
  fix pp assume "pp \<in> set (saved_panes (persisted_from_state s d))"
  then obtain i where "i < length (workspaces s)" "pp \<in> set (concat (map (\<lambda>t. concat (ptab_panes t)) (fst (workspace_tabs s (du_tags d) i))))"
    by (fastforce simp: saved_panes_def persisted_from_state_def Let_def case_prod_beta dest: set_zip_leftD)
  then show "pp \<in> persisted_pane_of (custom_titled_panes s) (du_tags d) ` set (pane_copies s)" using workspace_tabs_panes by blast
qed

lemma hear_title_keeps_strong:
  assumes "pt_agents tags i = Some t" and "tag_source t = Launched"
  shows "pt_agents (snd (hear_title is_alnum ti (s, tags))) i = Some t \<and> pt_restarts (snd (hear_title is_alnum ti (s, tags))) = pt_restarts tags"
  using assms by (cases ti) (auto simp: hear_title_def mutate_apply_osc_title_def classify_pane_title_def Let_def split: option.splits prod.splits)




text \<open>A tab is not as careful: when its first launched pane was named by the user, the file gets the tab's name as it
  is, which may be the title that another agent of the tab reported.\<close>

lemma named_pane_exposes_the_tab_name:
  assumes "pane_ids (tab_panes t) = i # js" and "launched_tag (pt_agents tags i) \<noteq> None" and "i \<in> custom"
    and "\<forall>j \<in> set (i # js). managed_kind (pt_restarts tags j) = None"
  shows "ptab_name (persisted_tab_of custom tags t) = tab_name t"
proof -
  have "find (\<lambda>j. managed_kind (pt_restarts tags j) \<noteq> None) (pane_ids (tab_panes t)) = None"
    using assms(1,4) by (simp add: find_None_iff)
  then show ?thesis using assms(1-3)
    by (auto simp: persisted_tab_of_def tab_label_def persisted_agent_label_def managed_kind_def Let_def split: option.splits)
qed

definition plain_durable :: durable where
  "plain_durable = \<lparr>du_tags = aider_tags, du_meta = replicate 2 \<lparr>wm_name = [], wm_path = None, wm_collapsed = False,
       wm_shell = \<lparr>sh_program = [], sh_args = []\<rparr>\<rparr>,
     du_toggles = Map.empty, du_default_shell = \<lparr>sh_program = [], sh_args = []\<rparr>, du_prompted_version = None\<rparr>"


end
