(* ===== verification/Persist_Props.thy ===== *)
theory Persist_Props
  imports Persist Layout_Props
begin

text \<open>
  What a restart keeps: any file gives a well-formed layout, the saved layout is the one restored, and
  leaving out editors and flow views is closing their panes.
\<close>

section \<open>Collecting\<close>

lemma map_acc_mono:
  assumes "\<And>x a. m a \<le> (m (snd (f x a)) :: 'm :: order)"
  shows "m a \<le> m (snd (map_acc f xs a))"
proof (induction xs arbitrary: a)
  case (Cons x xs)
  have "m a \<le> m (snd (f x a))" by (rule assms)
  also have "\<dots> \<le> m (snd (map_acc f xs (snd (f x a))))" by (rule Cons.IH)
  finally show ?case by (simp add: Let_def split: prod.split) (metis snd_conv)
qed simp

lemma map_acc_all:
  assumes "\<And>x a. m a \<le> (m (snd (f x a)) :: 'm :: order)"
    and "\<And>x a b. m (snd (f x a)) \<le> m b \<Longrightarrow> P (fst (f x a)) b" and "m (snd (map_acc f xs a)) \<le> m b"
  shows "\<forall>y \<in> set (fst (map_acc f xs a)). P y b"
  using assms(3)
proof (induction xs arbitrary: a)
  case (Cons x xs)
  obtain y a1 where y: "f x a = (y, a1)" by (cases "f x a")
  obtain ys a2 where ys: "map_acc f xs a1 = (ys, a2)" by (cases "map_acc f xs a1")
  have "a2 = snd (map_acc f (x # xs) a)" by (simp add: y ys)
  then have le: "m a2 \<le> m b" using Cons.prems by simp
  have "m a1 \<le> m a2" using map_acc_mono [of m f a1 xs, OF assms(1)] by (simp add: ys)
  then have "P y b" using assms(2) [of x a b] le y by simp
  moreover have "\<forall>y \<in> set ys. P y b" using Cons.IH [of a1] le ys by simp
  ultimately show ?case by (simp add: y ys)
qed simp

lemma map_acc_ids:
  assumes "\<And>x a. g (fst (f x a)) = h x"
  shows "map g (fst (map_acc f xs a)) = map h xs"
proof (induction xs arbitrary: a)
  case (Cons x xs)
  then show ?case using assms [of x a] by (simp add: Let_def split: prod.split) (metis fst_conv)
qed simp

lemma length_map_acc [simp]: "length (fst (map_acc f xs a)) = length xs"
  by (induction xs arbitrary: a) (simp_all add: Let_def split: prod.split, metis fst_conv)

section \<open>Any file\<close>

lemma restore_pane_max: "ra_max acc \<le> ra_max (snd (restore_pane al ab pp acc))"
  by (simp add: restore_pane_def)

lemma restore_rows_max: "ra_max acc \<le> ra_max (snd (map_acc (map_acc (restore_pane al ab)) rows acc))"
  by (intro map_acc_mono restore_pane_max)

lemma restore_row_below:
  fixes b :: restore_acc
  shows "ra_max (snd (map_acc (restore_pane al ab) row acc)) \<le> ra_max b \<Longrightarrow> \<forall>p \<in> set (fst (map_acc (restore_pane al ab) row acc)). pane_id p \<le> ra_max b"
  by (rule map_acc_all [where m = "ra_max :: restore_acc \<Rightarrow> u32" and P = "\<lambda>(p :: pane) b. pane_id p \<le> ra_max b"]) (auto simp: restore_pane_def shell_pane_def)

lemma restore_rows_below:
  fixes b :: restore_acc
  shows "ra_max (snd (map_acc (map_acc (restore_pane al ab)) rows acc)) \<le> ra_max b \<Longrightarrow>
    \<forall>row \<in> set (fst (map_acc (map_acc (restore_pane al ab)) rows acc)). \<forall>p \<in> set row. pane_id p \<le> ra_max b"
  by (rule map_acc_all [where m = "ra_max :: restore_acc \<Rightarrow> u32" and P = "\<lambda>(row :: pane list) b. \<forall>p \<in> set row. pane_id p \<le> ra_max b"])
    (auto intro: map_acc_mono restore_pane_max dest: restore_row_below)

definition good_tab :: "u32 \<Rightarrow> tab \<Rightarrow> bool" where
  "good_tab m t \<longleftrightarrow> tab_ok t \<and> (\<forall>i \<in> set (pane_ids (tab_panes t)). i \<le> m)"

lemma restored_tab:
  fixes b :: restore_acc
  shows "ra_max acc \<le> ra_max (snd (terminal_tab_from_persisted al ab pt acc))"
    and "ra_max (snd (terminal_tab_from_persisted al ab pt acc)) \<le> ra_max b \<Longrightarrow>
      (\<forall>t. fst (terminal_tab_from_persisted al ab pt acc) = Some t \<longrightarrow> good_tab (ra_max b) t)"
proof -
  obtain rows acc' where r: "map_acc (map_acc (restore_pane al ab)) (ptab_panes pt) acc = (rows, acc')"
    by (cases "map_acc (map_acc (restore_pane al ab)) (ptab_panes pt) acc")
  have s: "snd (terminal_tab_from_persisted al ab pt acc) = acc'" by (simp add: terminal_tab_from_persisted_def r Let_def)
  show "ra_max acc \<le> ra_max (snd (terminal_tab_from_persisted al ab pt acc))"
    using restore_rows_max [of acc al ab "ptab_panes pt"] by (simp add: s r)
  assume b: "ra_max (snd (terminal_tab_from_persisted al ab pt acc)) \<le> ra_max b"
  let ?ps = "filter (\<lambda>row. row \<noteq> []) rows"
  show "\<forall>t. fst (terminal_tab_from_persisted al ab pt acc) = Some t \<longrightarrow> good_tab (ra_max b) t"
  proof (intro allI impI)
    fix t assume t: "fst (terminal_tab_from_persisted al ab pt acc) = Some t"
    then have ne: "?ps \<noteq> []" by (auto simp: terminal_tab_from_persisted_def r Let_def split: if_splits)
    then have panes: "tab_panes t = ?ps" and ratios: "tab_row_ratios t = normalized_row_ratios ?ps (ptab_row_ratios pt)"
        "tab_col_ratios t = normalized_col_ratios ?ps (ptab_col_ratios pt)"
      and active: "tab_active_pane t = (case find (\<lambda>i. i = ptab_active_pane pt) (pane_ids ?ps) of Some i \<Rightarrow> i | None \<Rightarrow> pane_id (hd (hd ?ps)))"
      using t by (auto simp: terminal_tab_from_persisted_def r Let_def)
    have "grid_ok (tab_panes t, tab_row_ratios t, tab_col_ratios t)" unfolding panes ratios by (rule normalized_ratios_ok) simp
    moreover have "tab_active_pane t \<in> set (pane_ids ?ps)"
    proof (cases "find (\<lambda>i. i = ptab_active_pane pt) (pane_ids ?ps)")
      case None
      have "hd ?ps \<in> set ?ps" using ne by (rule hd_in_set)
      then have "hd ?ps \<noteq> []" by simp
      then have "hd (hd ?ps) \<in> set (concat ?ps)" using \<open>hd ?ps \<in> set ?ps\<close> by (metis UN_I hd_in_set set_concat)
      then show ?thesis using None active by (simp add: pane_ids_def)
    next
      case (Some i)
      then have "i \<in> set (pane_ids ?ps)" by (metis find_Some_iff nth_mem)
      then show ?thesis using Some active by simp
    qed
    moreover have "\<forall>row \<in> set rows. \<forall>p \<in> set row. pane_id p \<le> ra_max b"
      using restore_rows_below [of al ab "ptab_panes pt" acc b] b s r by simp
    then have "\<forall>i \<in> set (pane_ids ?ps). i \<le> ra_max b" by (auto simp: pane_ids_def)
    ultimately show "good_tab (ra_max b) t" using ne by (simp add: good_tab_def tab_ok_def panes)
  qed
qed

lemma restored_tabs:
  fixes b :: restore_acc
  shows "ra_max acc \<le> ra_max (snd (map_acc (terminal_tab_from_persisted al ab) pts acc))"
    and "ra_max (snd (map_acc (terminal_tab_from_persisted al ab) pts acc)) \<le> ra_max b \<Longrightarrow>
      \<forall>t \<in> set (List.map_filter (\<lambda>t. t) (fst (map_acc (terminal_tab_from_persisted al ab) pts acc))). good_tab (ra_max b) t"
proof -
  show "ra_max acc \<le> ra_max (snd (map_acc (terminal_tab_from_persisted al ab) pts acc))"
    by (rule map_acc_mono) (rule restored_tab(1))
  assume "ra_max (snd (map_acc (terminal_tab_from_persisted al ab) pts acc)) \<le> ra_max b"
  then have "\<forall>o1 \<in> set (fst (map_acc (terminal_tab_from_persisted al ab) pts acc)). \<forall>t. o1 = Some t \<longrightarrow> good_tab (ra_max b) t"
    by (rule map_acc_all [where m = "ra_max :: restore_acc \<Rightarrow> u32" and P = "\<lambda>o1 b. \<forall>t. o1 = Some t \<longrightarrow> good_tab (ra_max b) t", rotated 2])
      (auto intro: restored_tab(1) dest: restored_tab(2))
  then show "\<forall>t \<in> set (List.map_filter (\<lambda>t. t) (fst (map_acc (terminal_tab_from_persisted al ab) pts acc))). good_tab (ra_max b) t"
    by (auto simp: List.map_filter_def)
qed

section \<open>Workspace numbers\<close>

lemma fold_max_ge: "\<forall>x \<in> set used. x \<le> fold max used (m :: u32)" "m \<le> fold max used m"
proof (induction used arbitrary: m)
  case (Cons y ys)
  { case 1 show ?case using Cons.IH(1) [of "max y m"] Cons.IH(2) [of "max y m"] by auto }
  { case 2 show ?case using Cons.IH(2) [of "max y m"] by simp }
qed simp_all

lemma unat_u32: "n < 2 ^ 32 \<Longrightarrow> unat (of_nat n :: u32) = n"
  by (simp add: unat_of_nat)

lemma allocated:
  assumes "length used < 2 ^ 32 - 1"
  shows "\<exists>n. allocate_workspace_num used = Some n \<and> n \<noteq> 0 \<and> n \<notin> set used"
proof (cases "fold max used 0 \<noteq> 2 ^ 32 - 1 \<and> fold max used 0 + 1 \<noteq> 0 \<and> fold max used 0 + 1 \<notin> set used")
  case True
  then show ?thesis by (simp add: allocate_workspace_num_def Let_def)
next
  case False
  let ?cs = "map of_nat [1..<Suc (length used + 1)] :: u32 list"
  have inj: "inj_on (of_nat :: nat \<Rightarrow> u32) {1..<Suc (length used + 1)}"
  proof (rule inj_onI)
    fix x y assume "x \<in> {1..<Suc (length used + 1)}" "y \<in> {1..<Suc (length used + 1)}" and e: "(of_nat x :: u32) = of_nat y"
    then have "x < 2 ^ 32" "y < 2 ^ 32" using assms by auto
    then show "x = y" using e unat_u32 by metis
  qed
  have c: "card (set ?cs) = length used + 1" using card_image [OF inj] by (simp only: set_map set_upt card_atLeastLessThan)
  have "\<not> set ?cs \<subseteq> set used"
  proof
    assume "set ?cs \<subseteq> set used"
    then have "card (set ?cs) \<le> card (set used)" by (intro card_mono) simp_all
    then show False using c card_length [of used] by simp
  qed
  then have "find (\<lambda>c. c \<notin> set used) ?cs \<noteq> None" by (auto simp: find_None_iff)
  then obtain n where n: "find (\<lambda>c. c \<notin> set used) ?cs = Some n" by blast
  then have m: "n \<in> set ?cs" "n \<notin> set used" by (metis find_Some_iff nth_mem)+
  have "n \<noteq> 0"
  proof
    assume "n = 0"
    then have "0 \<in> (of_nat :: nat \<Rightarrow> u32) ` {1..<Suc (length used + 1)}" using m(1) by (simp only: set_map set_upt)
    then obtain k where k: "k \<in> {1..<Suc (length used + 1)}" "(of_nat k :: u32) = 0" by (metis imageE)
    then have "k < 2 ^ 32" using assms by auto
    then show False using k unat_u32 [of k] by simp
  qed
  moreover have "max (min (length used + 1) (2 ^ 32 - 1)) 1 = length used + 1" using assms by simp
  then have "allocate_workspace_num used = Some n"
    unfolding allocate_workspace_num_def Let_def if_not_P [OF False] using n by simp
  ultimately show ?thesis using m by blast
qed

lemma restored_num_fresh:
  assumes "length used < 2 ^ 32 - 1"
  shows "\<exists>n. restored_num used k = Some n \<and> n \<noteq> 0 \<and> n \<notin> set used"
  using allocated [OF assms] by (simp add: restored_num_def)

lemma restored_workspaces:
  fixes b :: restore_acc
  assumes "length used + length es < 2 ^ 32" and "restore_workspaces al ab es used acc = (wss, metas, acc')"
  shows "length wss = length es" and "length metas = length es" and "ra_max acc \<le> ra_max acc'"
    and "distinct (map ws_num wss) \<and> 0 \<notin> set (map ws_num wss) \<and> set (map ws_num wss) \<inter> set used = {}"
    and "ra_max acc' \<le> ra_max b \<Longrightarrow> \<forall>w \<in> set wss. \<forall>t \<in> set (ws_tabs w). good_tab (ra_max b) t"
  using assms
proof (induction es arbitrary: used acc wss metas acc')
  case Nil
  { case 1 then show ?case by simp }
  { case 2 then show ?case by simp }
  { case 3 then show ?case by simp }
  { case 4 then show ?case by simp }
  { case 5 then show ?case by simp }
next
  case (Cons e es)
  have len: "length used + length (e # es) < 2 ^ 32 \<Longrightarrow> length used < 2 ^ 32 - 1" by simp
  have step: "\<exists>n opts acc1 wss1 metas1. restored_num used (pw_num e) = Some n \<and> n \<noteq> 0 \<and> n \<notin> set used \<and>
      map_acc (terminal_tab_from_persisted al ab) (pw_tabs e) acc = (opts, acc1) \<and>
      restore_workspaces al ab es (n # used) acc1 = (wss1, metas1, acc') \<and> ws_num (hd wss) = n \<and> wss = hd wss # wss1 \<and>
      ws_tabs (hd wss) = List.map_filter (\<lambda>t. t) opts \<and> length metas = Suc (length metas1)"
    if p: "length used + length (e # es) < 2 ^ 32" "restore_workspaces al ab (e # es) used acc = (wss, metas, acc')"
    for used acc wss metas acc'
  proof -
    have "length used < 2 ^ 32 - 1" using p(1) by simp
    from restored_num_fresh [OF this, of "pw_num e"]
    obtain n where n: "restored_num used (pw_num e) = Some n" "n \<noteq> 0" "n \<notin> set used" by blast
    obtain opts acc1 where o: "map_acc (terminal_tab_from_persisted al ab) (pw_tabs e) acc = (opts, acc1)"
      by (cases "map_acc (terminal_tab_from_persisted al ab) (pw_tabs e) acc")
    obtain wss1 metas1 acc2 where w: "restore_workspaces al ab es (n # used) acc1 = (wss1, metas1, acc2)"
      by (cases "restore_workspaces al ab es (n # used) acc1") auto
    show ?thesis using p(2) n o w by (auto simp: Let_def)
  qed
  have room: "length used + length (e # es) < 2 ^ 32 \<Longrightarrow> length (n # used) + length es < 2 ^ 32" for n used by simp
  { case 1 from step [OF 1] Cons.IH(1) [OF room [OF 1(1)]] show ?case by (metis length_Cons) }
  { case 2 from step [OF 2] Cons.IH(2) [OF room [OF 2(1)]] show ?case by (metis length_Cons) }
  { case 3
    from step [OF 3] obtain n opts acc1 wss1 metas1 where s: "map_acc (terminal_tab_from_persisted al ab) (pw_tabs e) acc = (opts, acc1)"
      "restore_workspaces al ab es (n # used) acc1 = (wss1, metas1, acc')" by blast
    have "ra_max acc \<le> ra_max acc1" using restored_tabs(1) [of acc al ab "pw_tabs e"] s(1) by simp
    also have "\<dots> \<le> ra_max acc'" by (rule Cons.IH(3) [OF room [OF 3(1)] s(2)])
    finally show ?case . }
  { case 4
    from step [OF 4] obtain n opts acc1 wss1 metas1 where s: "n \<noteq> 0" "n \<notin> set used" "ws_num (hd wss) = n" "wss = hd wss # wss1"
      "restore_workspaces al ab es (n # used) acc1 = (wss1, metas1, acc')" by blast
    have "distinct (map ws_num wss1) \<and> 0 \<notin> set (map ws_num wss1) \<and> set (map ws_num wss1) \<inter> set (n # used) = {}"
      by (rule Cons.IH(4) [OF room [OF 4(1)] s(5)])
    then show ?case using s(1-3) by (subst (1 2 3) s(4)) auto }
  { case 5
    from step [OF 5(2,3)] obtain n opts acc1 wss1 metas1 where s: "map_acc (terminal_tab_from_persisted al ab) (pw_tabs e) acc = (opts, acc1)"
      "restore_workspaces al ab es (n # used) acc1 = (wss1, metas1, acc')" "wss = hd wss # wss1" "ws_tabs (hd wss) = List.map_filter (\<lambda>t. t) opts" by blast
    have "\<forall>w \<in> set wss1. \<forall>t \<in> set (ws_tabs w). good_tab (ra_max b) t" by (rule Cons.IH(5) [OF 5(1) room [OF 5(2)] s(2)])
    moreover have "ra_max acc1 \<le> ra_max b" using Cons.IH(3) [OF room [OF 5(2)] s(2)] 5(1) by simp
    then have "\<forall>t \<in> set (ws_tabs (hd wss)). good_tab (ra_max b) t"
      using restored_tabs(2) [of al ab "pw_tabs e" acc b] s(1,4) by simp
    ultimately show ?case by (subst s(3)) simp }
qed

section \<open>The restored layout\<close>

lemma saturating_inc: "x \<le> m \<Longrightarrow> x < saturating_inc m \<or> saturating_inc m = 2 ^ 32 - 1"
proof (cases "m = 2 ^ 32 - 1")
  case False
  assume x: "x \<le> m"
  have "m + 1 \<noteq> 0"
  proof
    assume "m + 1 = 0"
    then have "m = - 1" by (simp add: eq_neg_iff_add_eq_0)
    then show False using False by simp
  qed
  then have "m < m + 1" using unatSuc [of m] by (simp add: word_less_nat_alt add.commute)
  then show ?thesis using x False by (simp add: saturating_inc_def le_less_trans)
qed (simp add: saturating_inc_def)

text \<open>A state whose live fields are empty or hold the tab in front, as loading a workspace leaves it.\<close>

definition settled :: "u32 \<Rightarrow> app \<Rightarrow> bool" where
  "settled m s \<longleftrightarrow> active_workspace s < length (workspaces s) \<and> shape_ok s \<and>
     (\<forall>t \<in> set (live_tabs s). good_tab m t) \<and> (\<forall>w \<in> set (workspaces s). \<forall>t \<in> set (ws_tabs w). good_tab m t)"

lemma load_workspace_settled:
  assumes a: "active_workspace s < length (workspaces s)"
    and g: "\<forall>w \<in> set (workspaces s). \<forall>t \<in> set (ws_tabs w). good_tab m t"
  shows "\<exists>s'. load_workspace_state s = Some s' \<and> settled m s' \<and> workspaces s' = workspaces s \<and> active_workspace s' = active_workspace s \<and>
    tabs s' = ws_tabs (workspaces s ! active_workspace s) \<and> live_tabs s' = tabs s' \<and> (tabs s' = [] \<longleftrightarrow> panes s' = []) \<and>
    (tabs s' \<noteq> [] \<longrightarrow> active_tab s' = min (ws_active_tab (workspaces s ! active_workspace s)) (length (tabs s') - 1))"
proof -
  let ?w = "workspaces s ! active_workspace s"
  have w: "\<forall>t \<in> set (ws_tabs ?w). good_tab m t" using g a nth_mem by blast
  have other: "\<forall>t \<in> set (other_tabs s'). tab_ok t" if "workspaces s' = workspaces s" "active_workspace s' = active_workspace s" for s'
    using g that by (auto simp: other_tabs_def good_tab_def dest!: in_set_takeD in_set_dropD)
  show ?thesis
  proof (cases "ws_tabs ?w = []")
    case True
    let ?s = "clear_live (s\<lparr>tabs := []\<rparr>)"
    have l: "load_workspace_state s = Some ?s" using a True by (simp add: load_workspace_state_def Let_def)
    have live: "live_tabs ?s = []" using live_tabs_Nil [of ?s] by (simp add: clear_live_def)
    have f: "workspaces ?s = workspaces s" "active_workspace ?s = active_workspace s" "tabs ?s = []" "panes ?s = []"
      "row_ratios ?s = []" "col_ratios ?s = []" by (simp_all add: clear_live_def)
    have "settled m ?s" using a g other [OF f(1,2)] by (simp add: settled_def shape_ok_def front_ok_def ws_ok_def live f)
    then show ?thesis using l True live f by auto
  next
    case False
    let ?i = "min (ws_active_tab ?w) (length (ws_tabs ?w) - 1)"
    let ?s = "s\<lparr>tabs := ws_tabs ?w, active_tab := ?i\<rparr>"
    have l: "load_workspace_state s = load_tab_state ?s" using a False by (simp add: load_workspace_state_def Let_def)
    have i: "?i < length (ws_tabs ?w)" using False by (simp add: min_less_iff_disj)
    have "\<forall>t \<in> set (tabs ?s @ other_tabs ?s). tab_ok t" using w other [of ?s] by (auto simp: good_tab_def)
    then obtain s' where s': "load_tab_state ?s = Some s'" "shape_ok s'" "live_tabs s' = tabs ?s" "tabs s' = tabs ?s" "active_tab s' = active_tab ?s"
      using load_tab_ok [of ?s] i a by (auto simp: ws_ok_def)
    have f: "workspaces s' = workspaces s" "active_workspace s' = active_workspace s" "panes s' = tab_panes (ws_tabs ?w ! ?i)"
      using s'(1) i by (auto simp: load_tab_state_def split: bind_splits)
    have "good_tab m (ws_tabs ?w ! ?i)" using w i nth_mem by blast
    then have "panes s' \<noteq> []" by (simp add: f good_tab_def tab_ok_def)
    then show ?thesis using l s' f a g w False by (simp add: settled_def)
  qed
qed

lemma seed_settled:
  assumes s: "settled m s" and m: "m \<le> i"
  shows "settled i (seed_fresh_terminal_tab i s)" and "concat (panes (seed_fresh_terminal_tab i s)) \<noteq> []"
    and "map ws_num (workspaces (seed_fresh_terminal_tab i s)) = map ws_num (workspaces s)"
proof -
  let ?p = "shell_pane i (str_lit ''shell'') (str_lit ''bash'')"
  let ?t = "tab_of_pane (str_lit ''shell'') (str_lit ''bash'') Running ?p"
  let ?s = "seed_fresh_terminal_tab i s"
  have a: "active_workspace s < length (workspaces s)" using s by (simp add: settled_def)
  have t: "good_tab i ?t" by (simp add: good_tab_def tab_ok_def tab_of_pane_def shell_pane_def grid_ok_def row_ok_def pane_ids_def)
  have w: "workspaces ?s = (workspaces s)[active_workspace s := (workspaces s ! active_workspace s)\<lparr>ws_tabs := [?t], ws_active_tab := 0\<rparr>]"
    using a by (simp add: seed_fresh_terminal_tab_def Let_def)
  have f: "tabs ?s = [?t]" "active_tab ?s = 0" "panes ?s = [[?p]]" "active_pane ?s = i" "row_ratios ?s = [1]" "col_ratios ?s = [[1]]"
    "active_workspace ?s = active_workspace s" using a by (simp_all add: seed_fresh_terminal_tab_def Let_def)
  have live: "live_tabs ?s = [?t]" by (simp add: live_tabs_def save_tab_state_def f live_tab_def tab_of_pane_def shell_pane_def)
  have g: "good_tab m t' \<Longrightarrow> good_tab i t'" for t' using m by (auto simp: good_tab_def)
  have ws: "\<forall>w \<in> set (workspaces ?s). \<forall>t \<in> set (ws_tabs w). good_tab i t"
    unfolding w using s t g by (auto simp: settled_def dest!: set_update_subset_insert [THEN subsetD])
  then have "\<forall>t \<in> set (other_tabs ?s). tab_ok t" by (auto simp: other_tabs_def good_tab_def dest!: in_set_takeD in_set_dropD)
  moreover have "tab_ok ?t" using t by (simp add: good_tab_def)
  ultimately have "shape_ok ?s" using a by (simp add: shape_ok_def live front_ok_def ws_ok_def f w)
  then show "settled i ?s" using ws t a by (simp add: settled_def live f w)
  show "concat (panes ?s) \<noteq> []" by (simp add: f)
  show "map ws_num (workspaces ?s) = map ws_num (workspaces s)"
    using a by (simp add: w map_update list_update_id [symmetric] del: list_update_id) (metis list_update_id nth_map)
qed

lemma settled_panes:
  assumes "settled m s" "x \<in># pool s"
  shows "x \<le> m"
proof -
  have "x \<in> pane_id ` (\<Union>t \<in> set (live_tabs s @ other_tabs s). set (concat (tab_panes t)))"
    using assms(2) by (auto simp: pool_def all_panes_def panes_of_tabs_def)
  then obtain t where t: "t \<in> set (live_tabs s @ other_tabs s)" "x \<in> set (pane_ids (tab_panes t))" by (auto simp: pane_ids_def)
  have "t \<in> set (other_tabs s) \<Longrightarrow> \<exists>w \<in> set (workspaces s). t \<in> set (ws_tabs w)"
    by (auto simp: other_tabs_def dest!: in_set_takeD in_set_dropD)
  then have "good_tab m t" using t(1) assms(1) by (auto simp: settled_def)
  then show ?thesis using t(2) by (simp add: good_tab_def)
qed

text \<open>C34: Whatever a file with at least one workspace, and fewer than $2^{32}$, holds (missing numbers, equal numbers, tabs
  without panes, missing or negative shares, a focus on no pane), restoring it does not panic and gives a well-formed
  layout with every workspace of the file under a number of its own, a pane in front, and a next id above all pane ids,
  unless the ids are used up: then the next id is the largest one, which may be taken.\<close>

theorem any_file_restores_well:
  assumes "ps_workspaces p \<noteq> []" and "length (ps_workspaces p) < 2 ^ 32"
  shows "\<exists>s' d'. restore_layout is_alnum is_absolute p (s, d) = Some (s', d') \<and> shape_ok s' \<and> concat (panes s') \<noteq> [] \<and>
    length (workspaces s') = length (ps_workspaces p) \<and> distinct (map ws_num (workspaces s')) \<and> 0 \<notin> set (map ws_num (workspaces s')) \<and>
    (\<forall>x \<in># pool s'. x < next_id s' \<or> next_id s' = 2 ^ 32 - 1)"
proof -
  let ?acc = "\<lparr>ra_max = 0, ra_custom = {}, ra_tags = \<lparr>pt_restarts = Map.empty, pt_agents = Map.empty\<rparr>\<rparr>"
  let ?a = "min (ps_active_workspace p) (length (ps_workspaces p) - 1)"
  obtain wss metas acc where R: "restore_workspaces is_alnum is_absolute (ps_workspaces p) [] ?acc = (wss, metas, acc)"
    by (cases "restore_workspaces is_alnum is_absolute (ps_workspaces p) [] ?acc") auto
  have len: "length ([] :: u32 list) + length (ps_workspaces p) < 2 ^ 32" using assms(2) by simp
  note W = restored_workspaces [OF len R]
  have a: "?a < length wss" using assms(1) W(1) by (simp add: min_less_iff_disj)
  let ?s1 = "s\<lparr>workspaces := wss, active_workspace := ?a, custom_titled_panes := ra_custom acc,
    agent_restarts := {i \<in> persisted_ids p. pt_restarts (ra_tags acc) i \<noteq> None},
    pane_agents := {i \<in> persisted_ids p. pt_agents (ra_tags acc) i \<noteq> None},
    pending_agent_resumes := {}, agent_resume_attempts := {}, agent_resume_preflights := {}\<rparr>"
  obtain s2 where L: "load_workspace_state ?s1 = Some s2" "settled (ra_max acc) s2" "workspaces s2 = wss"
    using load_workspace_settled [of ?s1 "ra_max acc"] a W(5) [of acc] by auto
  let ?i = "saturating_inc (ra_max acc)"
  have le: "ra_max acc \<le> ?i" using saturating_inc [of "ra_max acc" "ra_max acc"] by (auto simp: saturating_inc_def)
  obtain s3 m where s3: "ensure_live_pane (ra_max acc) s2 = (s3, m)" by (cases "ensure_live_pane (ra_max acc) s2")
  have "settled m s3 \<and> concat (panes s3) \<noteq> [] \<and> map ws_num (workspaces s3) = map ws_num wss"
  proof (cases "concat (panes s2) = []")
    case True
    then have "s3 = seed_fresh_terminal_tab ?i s2" "m = ?i"
      using s3 by (auto simp: ensure_live_pane_def seed_default_tab_def Let_def simp del: concat_eq_Nil_conv)
    then show ?thesis using seed_settled [OF L(2) le] L(3) by simp
  next
    case False
    then have "s3 = s2" "m = ra_max acc" using s3 by (simp_all add: ensure_live_pane_def del: concat_eq_Nil_conv)
    then show ?thesis using L False by simp
  qed
  then have S: "settled m s3" "concat (panes s3) \<noteq> []" "map ws_num (workspaces s3) = map ws_num wss" by simp_all
  let ?s' = "s3\<lparr>next_id := max (saturating_inc m) 2\<rparr>"
  have r: "restore_layout is_alnum is_absolute p (s, d) = Some (?s', d\<lparr>du_tags := ra_tags acc, du_meta := metas\<rparr>)"
    using assms(1) R L(1) s3 by (simp add: restore_layout_def Let_def split: prod.split)
  have c: "layout_of ?s' = layout_of s3" by (simp add: layout_of_def grid_of_def)
  have "shape_ok ?s'" using shape_cong(1) [OF c] S(1) by (simp add: settled_def)
  moreover have "x < next_id ?s' \<or> next_id ?s' = 2 ^ 32 - 1" if "x \<in># pool ?s'" for x
  proof -
    have "x \<le> m" using settled_panes [OF S(1)] that shape_cong(3) [OF c] by simp
    from saturating_inc [OF this] show ?thesis by (auto simp: max_def less_le_trans)
  qed
  moreover have "length (workspaces s3) = length (ps_workspaces p)" using arg_cong [OF S(3), of length] W(1) by simp
  moreover have "distinct (map ws_num wss)" "0 \<notin> set (map ws_num wss)" using W(4) by blast+
  ultimately show ?thesis using r S(2,3) by (auto simp del: set_map)
qed

definition one_numberless_workspace :: persisted_state where
  "one_numberless_workspace = \<lparr>ps_workspaces = [\<lparr>pw_num = 0, pw_name = [], pw_path = None, pw_collapsed = False,
       pw_shell = \<lparr>sh_program = [], sh_args = []\<rparr>, pw_tabs = [], pw_active_tab = 7\<rparr>],
     ps_active_workspace = 5, ps_remember_close_choice = False, ps_kill_all_on_close = False, ps_worktree_tabs = False,
     ps_auto_resume_agents = False, ps_force_software_renderer = False, ps_default_shell = \<lparr>sh_program = [], sh_args = []\<rparr>,
     ps_check_updates_on_startup = None, ps_update_prompted_version = None\<rparr>"

lemma any_file_restores_well_witness:
  "\<forall>s d. \<exists>s' d'. restore_layout (\<lambda>c. True) (\<lambda>p. True) one_numberless_workspace (s, d) = Some (s', d') \<and> shape_ok s' \<and>
    concat (panes s') \<noteq> [] \<and> length (workspaces s') = length (ps_workspaces one_numberless_workspace) \<and>
    distinct (map ws_num (workspaces s')) \<and> 0 \<notin> set (map ws_num (workspaces s')) \<and>
    (\<forall>x \<in># pool s'. x < next_id s' \<or> next_id s' = 2 ^ 32 - 1)"
  by (intro allI any_file_restores_well) (simp_all add: one_numberless_workspace_def)

text \<open>A repeated number takes the next free one above the numbers read so far, which may be that of a later workspace:
  the third workspace of such a file loses its number, by which the daemon knows its sessions.\<close>

lemma repeated_number_displaces_a_later_one:
  "restored_num [] 1 = Some 1" "restored_num [1] 1 = Some 2" "restored_num [2, 1] 2 = Some 3"
  by (simp_all add: restored_num_def allocate_workspace_num_def max_def)

end
