(* ===== verification/Persist_Strip.thy ===== *)
theory Persist_Strip
  imports Persist Layout_Props
begin

text \<open>
  Leaving the transient panes out of a saved tab is closing them in the live layout: the loops of
  persist.rs take the steps of \<open>detach_pane\<close>, the grid part of \<open>mutate_close_pane\<close>, one pane at a time.
\<close>

inductive close_step :: "u32 set \<Rightarrow> pane_grid \<Rightarrow> pane_grid \<Rightarrow> bool" for ids where
  "r < length ps \<Longrightarrow> c < length (ps ! r) \<Longrightarrow> pane_id (ps ! r ! c) \<in> ids \<Longrightarrow>
   detach_pane r c (ps, rr, cr) = Some g \<Longrightarrow> close_step ids (ps, rr, cr) g"

lemma strip_share_absorb:
  assumes "i < length rs"
  shows "absorb_share i (rs ! i) (take i rs @ drop (Suc i) rs) = Some (strip_share i rs)"
proof (cases "take i rs @ drop (Suc i) rs = []")
  case True
  then show ?thesis using assms by (simp add: absorb_share_def strip_share_def)
next
  case False
  let ?rest = "take i rs @ drop (Suc i) rs"
  let ?k = "if 0 < i then i - 1 else 0"
  have "0 < length ?rest" using False by blast
  then have "?k < length ?rest" using assms by auto
  then show ?thesis using False assms by (simp add: absorb_share_def strip_share_def Let_def)
qed

lemma detach_keeps_row:
  assumes g: "grid_ok (ps, rr, cr)" and r: "r < length ps" and c: "c < length (ps ! r)" and l: "length (ps ! r) \<noteq> 1"
  shows "detach_pane r c (ps, rr, cr) = Some (ps[r := take c (ps ! r) @ drop (Suc c) (ps ! r)], rr, cr[r := strip_share c (cr ! r)])"
proof -
  note L = grid_ok_lengths [OF g]
  have n: "length (cr ! r) = length (ps ! r)" using L(3) [OF r] by (simp add: row_ok_def)
  define row where "row = take c (ps ! r) @ drop (Suc c) (ps ! r)"
  have v: "vec_remove c (ps ! r) = Some row" using c by (simp add: row_def)
  have "length row \<noteq> 0" using c l by (simp add: row_def)
  then have ne: "row \<noteq> []" by simp
  have sh: "absorb_share c (cr ! r ! c) (take c (cr ! r) @ drop (Suc c) (cr ! r)) = Some (strip_share c (cr ! r))"
    using strip_share_absorb [of c "cr ! r"] c n by simp
  show ?thesis unfolding row_def [symmetric]
    using L r c n v ne sh by (simp add: detach_pane_def del: vec_remove_Some) (simp add: vec_remove_def)
qed

lemma detach_drops_row:
  assumes g: "grid_ok (ps, rr, cr)" and r: "r < length ps" and l: "length (ps ! r) = 1"
  shows "detach_pane r 0 (ps, rr, cr) = Some (take r ps @ drop (Suc r) ps, strip_share r rr, take r cr @ drop (Suc r) cr)"
proof -
  note L = grid_ok_lengths [OF g]
  obtain p where p: "ps ! r = [p]" using l by (cases "ps ! r") auto
  obtain x where x: "cr ! r = [x]" using L(3) [OF r] p by (cases "cr ! r") (auto simp: row_ok_def)
  show ?thesis using L r strip_share_absorb [of r rr] by (simp add: detach_pane_def p x absorb_share_def)
qed

lemma close_step_ok: "close_step ids g g' \<Longrightarrow> grid_ok g \<Longrightarrow> grid_ok g'"
proof (induction rule: close_step.induct)
  case (1 r ps c rr cr g)
  obtain ps' rr' cr' where "detach_pane r c (ps, rr, cr) = Some (ps', rr', cr')" "grid_ok (ps', rr', cr')"
    using detach_pane_ok [OF 1(5) 1(1,2)] by metis
  then show ?case using 1(4) by simp
qed

lemma close_steps_ok: "(close_step ids)\<^sup>*\<^sup>* g g' \<Longrightarrow> grid_ok g \<Longrightarrow> grid_ok g'"
  by (induction rule: rtranclp_induct) (auto intro: close_step_ok)

text \<open>One row, from a column on. A row that empties leaves the grid.\<close>

definition row_stripped :: "u32 set \<Rightarrow> nat \<Rightarrow> pane_grid \<Rightarrow> pane list \<Rightarrow> rat list \<Rightarrow> bool" where
  "row_stripped ids r g row sh \<longleftrightarrow> (case g of (ps, rr, cr) \<Rightarrow> if row = []
     then (close_step ids)\<^sup>*\<^sup>* g (take r ps @ drop (Suc r) ps, strip_share r rr, take r cr @ drop (Suc r) cr)
     else (close_step ids)\<^sup>*\<^sup>* g (ps[r := row], rr, cr[r := sh]))"

lemma strip_cols_steps:
  assumes f: "\<And>p. pp_id (f p) = pane_id p"
  shows "grid_ok (ps, rr, cr) \<Longrightarrow> r < length ps \<Longrightarrow> c \<le> length (ps ! r) \<Longrightarrow>
    \<exists>row sh. strip_cols ids c (map f (ps ! r)) (Some (cr ! r)) = (map f row, Some sh) \<and>
      row = take c (ps ! r) @ filter (\<lambda>p. pane_id p \<notin> ids) (drop c (ps ! r)) \<and> row_stripped ids r (ps, rr, cr) row sh"
proof (induction "length (ps ! r) - c" arbitrary: ps cr c)
  case 0
  then have c: "c = length (ps ! r)" by simp
  have ne: "ps ! r \<noteq> []" using grid_ok_lengths(3) [OF 0(2,3)] by (simp add: row_ok_def)
  have "strip_cols ids c (map f (ps ! r)) (Some (cr ! r)) = (map f (ps ! r), Some (cr ! r))" by (simp add: strip_cols.simps c)
  moreover have "row_stripped ids r (ps, rr, cr) (ps ! r) (cr ! r)" using ne by (simp add: row_stripped_def)
  ultimately show ?case using c by auto
next
  case (Suc n)
  have c: "c < length (ps ! r)" using Suc(2) by simp
  have d: "drop c (ps ! r) = ps ! r ! c # drop (Suc c) (ps ! r)" using c by (rule Cons_nth_drop_Suc [symmetric])
  show ?case
  proof (cases "pane_id (ps ! r ! c) \<in> ids")
    case False
    have e: "strip_cols ids c (map f (ps ! r)) (Some (cr ! r)) = strip_cols ids (c + 1) (map f (ps ! r)) (Some (cr ! r))"
      using c False f by (subst strip_cols.simps) simp
    obtain row sh where s: "strip_cols ids (Suc c) (map f (ps ! r)) (Some (cr ! r)) = (map f row, Some sh)"
      "row = take (Suc c) (ps ! r) @ filter (\<lambda>p. pane_id p \<notin> ids) (drop (Suc c) (ps ! r))" "row_stripped ids r (ps, rr, cr) row sh"
      using Suc(1) [of ps "Suc c" cr] Suc(2-4) c by fastforce
    moreover have "take (Suc c) (ps ! r) @ filter (\<lambda>p. pane_id p \<notin> ids) (drop (Suc c) (ps ! r)) =
        take c (ps ! r) @ filter (\<lambda>p. pane_id p \<notin> ids) (drop c (ps ! r))"
      using c False by (simp add: take_Suc_conv_app_nth d)
    ultimately show ?thesis using e by auto
  next
    case True
    let ?row1 = "take c (ps ! r) @ drop (Suc c) (ps ! r)"
    have e: "strip_cols ids c (map f (ps ! r)) (Some (cr ! r)) = strip_cols ids c (map f ?row1) (Some (strip_share c (cr ! r)))"
      using c True f by (subst strip_cols.simps) (simp add: take_map drop_map)
    show ?thesis
    proof (cases "length (ps ! r) = 1")
      case one: True
      then have c0: "c = 0" "?row1 = []" using c by auto
      have "close_step ids (ps, rr, cr) (take r ps @ drop (Suc r) ps, strip_share r rr, take r cr @ drop (Suc r) cr)"
        using close_step.intros [OF Suc(4) c True] detach_drops_row [OF Suc(3,4) one] c0(1) by simp
      then have "row_stripped ids r (ps, rr, cr) [] (strip_share c (cr ! r))" by (simp add: row_stripped_def)
      moreover have "strip_cols ids c (map f (ps ! r)) (Some (cr ! r)) = (map f [], Some (strip_share c (cr ! r)))"
        unfolding e c0(2) by (simp add: strip_cols.simps)
      moreover have "take c (ps ! r) @ filter (\<lambda>p. pane_id p \<notin> ids) (drop c (ps ! r)) = []"
        using one True c0(1) by (cases "ps ! r") auto
      ultimately show ?thesis by metis
    next
      case many: False
      let ?ps = "ps[r := ?row1]" and ?cr = "cr[r := strip_share c (cr ! r)]"
      have rl: "r < length cr" using grid_ok_lengths(2) [OF Suc(3)] Suc(4) by simp
      have st: "close_step ids (ps, rr, cr) (?ps, rr, ?cr)"
        using close_step.intros [OF Suc(4) c True] detach_keeps_row [OF Suc(3,4) c many] by simp
      have g: "grid_ok (?ps, rr, ?cr)" by (rule close_step_ok [OF st Suc(3)])
      have n: "?ps ! r = ?row1" "?cr ! r = strip_share c (cr ! r)" using Suc(4) rl by simp_all
      have "n = length (?ps ! r) - c" "c \<le> length (?ps ! r)" using Suc(2) c n by simp_all
      from Suc(1) [OF this(1) g _ this(2)] obtain row sh where
        s: "strip_cols ids c (map f ?row1) (Some (strip_share c (cr ! r))) = (map f row, Some sh)"
        "row = take c ?row1 @ filter (\<lambda>p. pane_id p \<notin> ids) (drop c ?row1)" "row_stripped ids r (?ps, rr, ?cr) row sh"
        using Suc(4) n by auto
      have "row_stripped ids r (ps, rr, cr) row sh"
        using s(3) converse_rtranclp_into_rtranclp [of "close_step ids", OF st] Suc(4)
        by (auto simp: row_stripped_def drop_update_cancel rl split: if_splits)
      moreover have "row = take c (ps ! r) @ filter (\<lambda>p. pane_id p \<notin> ids) (drop c (ps ! r))"
        using s(2) c True by (simp add: d min_absorb2)
      ultimately show ?thesis using e s(1) by auto
    qed
  qed
qed

lemma strip_rows_steps:
  assumes f: "\<And>p. pp_id (f p) = pane_id p"
  shows "grid_ok (ps, rr, cr) \<Longrightarrow> row \<le> length ps \<Longrightarrow>
    \<exists>ps' rr' cr'. strip_rows ids row (map (map f) ps, rr, cr) = (map (map f) ps', rr', cr') \<and>
      (close_step ids)\<^sup>*\<^sup>* (ps, rr, cr) (ps', rr', cr') \<and>
      concat ps' = concat (take row ps) @ filter (\<lambda>p. pane_id p \<notin> ids) (concat (drop row ps))"
proof (induction "length ps - row" arbitrary: ps rr cr row)
  case 0
  then have "strip_rows ids row (map (map f) ps, rr, cr) = (map (map f) ps, rr, cr)" by (simp add: strip_rows.simps)
  then show ?case using 0 by auto
next
  case (Suc n)
  have r: "row < length ps" using Suc(2) by simp
  note L = grid_ok_lengths [OF Suc(3)]
  have rl: "row < length cr" using L(2) r by simp
  obtain prow sh where s: "strip_cols ids 0 (map f (ps ! row)) (Some (cr ! row)) = (map f prow, Some sh)"
    "prow = filter (\<lambda>p. pane_id p \<notin> ids) (ps ! row)" "row_stripped ids row (ps, rr, cr) prow sh"
    using strip_cols_steps [OF f Suc(3) r, of 0 ids] by auto
  have d: "drop row ps = ps ! row # drop (Suc row) ps" using r by (rule Cons_nth_drop_Suc [symmetric])
  show ?case
  proof (cases "prow = []")
    case True
    let ?g = "(take row ps @ drop (Suc row) ps, strip_share row rr, take row cr @ drop (Suc row) cr)"
    have st: "(close_step ids)\<^sup>*\<^sup>* (ps, rr, cr) ?g" using s(3) True by (simp add: row_stripped_def)
    have g: "grid_ok ?g" by (rule close_steps_ok [OF st Suc(3)])
    have e: "strip_rows ids row (map (map f) ps, rr, cr) =
        strip_rows ids row (map (map f) (take row ps @ drop (Suc row) ps), strip_share row rr, take row cr @ drop (Suc row) cr)"
      using r rl s(1) True by (subst strip_rows.simps) (simp add: set_nth_def remove_nth_def take_map drop_map drop_update_cancel)
    have "n = length (take row ps @ drop (Suc row) ps) - row" "row \<le> length (take row ps @ drop (Suc row) ps)"
      using Suc(2) r by simp_all
    from Suc(1) [OF this(1) g this(2)] obtain ps' rr' cr' where
      i: "strip_rows ids row (map (map f) (take row ps @ drop (Suc row) ps), strip_share row rr, take row cr @ drop (Suc row) cr) = (map (map f) ps', rr', cr')"
      "(close_step ids)\<^sup>*\<^sup>* ?g (ps', rr', cr')"
      "concat ps' = concat (take row (take row ps @ drop (Suc row) ps)) @ filter (\<lambda>p. pane_id p \<notin> ids) (concat (drop row (take row ps @ drop (Suc row) ps)))"
      by blast
    have "concat ps' = concat (take row ps) @ filter (\<lambda>p. pane_id p \<notin> ids) (concat (drop row ps))"
      using i(3) r True s(2) by (simp add: d min_absorb2)
    then show ?thesis using e i(1) rtranclp_trans [OF st i(2)] by auto
  next
    case False
    let ?ps = "ps[row := prow]" and ?cr = "cr[row := sh]"
    have st: "(close_step ids)\<^sup>*\<^sup>* (ps, rr, cr) (?ps, rr, ?cr)" using s(3) False by (simp add: row_stripped_def)
    have g: "grid_ok (?ps, rr, ?cr)" by (rule close_steps_ok [OF st Suc(3)])
    have e: "strip_rows ids row (map (map f) ps, rr, cr) = strip_rows ids (Suc row) (map (map f) ?ps, rr, ?cr)"
      using r rl s(1) False by (subst strip_rows.simps) (simp add: set_nth_def map_update)
    have "n = length ?ps - Suc row" "Suc row \<le> length ?ps" using Suc(2) r by simp_all
    from Suc(1) [OF this(1) g this(2)] obtain ps' rr' cr' where
      i: "strip_rows ids (Suc row) (map (map f) ?ps, rr, ?cr) = (map (map f) ps', rr', cr')"
      "(close_step ids)\<^sup>*\<^sup>* (?ps, rr, ?cr) (ps', rr', cr')"
      "concat ps' = concat (take (Suc row) ?ps) @ filter (\<lambda>p. pane_id p \<notin> ids) (concat (drop (Suc row) ?ps))"
      by blast
    have "concat ps' = concat (take row ps) @ filter (\<lambda>p. pane_id p \<notin> ids) (concat (drop row ps))"
      using i(3) r s(2) by (simp add: d take_Suc_conv_app_nth)
    then show ?thesis using e i(1) rtranclp_trans [OF st i(2)] by auto
  qed
qed

lemma persisted_pane_id [simp]: "pp_id (persisted_pane_of custom tags p) = pane_id p"
  by (simp add: persisted_pane_of_def Let_def)

lemma stripped_tab:
  assumes "grid_ok (ps, rr, cr)" and "ptab_panes pt = map (map (persisted_pane_of custom tags)) ps"
    and "ptab_row_ratios pt = rr" and "ptab_col_ratios pt = cr"
  obtains ps' rr' cr' where "(close_step ids)\<^sup>*\<^sup>* (ps, rr, cr) (ps', rr', cr')" and "grid_ok (ps', rr', cr')"
    and "concat ps' = filter (\<lambda>p. pane_id p \<notin> ids) (concat ps)"
    and "strip_transient_panes ids pt = (if ps' = [] then None else Some (pt\<lparr>ptab_panes := map (map (persisted_pane_of custom tags)) ps',
      ptab_row_ratios := rr', ptab_col_ratios := cr',
      ptab_active_pane := (if ptab_active_pane pt \<in> ids then pane_id (hd (hd ps')) else ptab_active_pane pt)\<rparr>))"
proof -
  obtain ps' rr' cr' where s: "strip_rows ids 0 (map (map (persisted_pane_of custom tags)) ps, rr, cr) = (map (map (persisted_pane_of custom tags)) ps', rr', cr')"
    "(close_step ids)\<^sup>*\<^sup>* (ps, rr, cr) (ps', rr', cr')" "concat ps' = filter (\<lambda>p. pane_id p \<notin> ids) (concat ps)"
    using strip_rows_steps [of "persisted_pane_of custom tags" ps rr cr 0 ids, OF persisted_pane_id assms(1)] by auto
  have g: "grid_ok (ps', rr', cr')" by (rule close_steps_ok [OF s(2) assms(1)])
  have "pp_id (hd (hd (map (map (persisted_pane_of custom tags)) ps'))) = pane_id (hd (hd ps'))" if "ps' \<noteq> []"
  proof -
    have "0 < length ps'" using that by simp
    then have "hd ps' \<noteq> []" using grid_ok_lengths(3) [OF g, of 0] by (simp add: row_ok_def hd_conv_nth that)
    then show ?thesis using that by (simp add: hd_map)
  qed
  then show thesis using that [OF s(2) g s(3)] s(1) assms(2-4) by (simp add: strip_transient_panes_def)
qed

text \<open>C36: Saving a tab without its editors and flow views closes their panes one at a time as the live layout would:
  what is saved is what some sequence of live closes leaves, in panes, shares and columns; a tab is dropped exactly when
  nothing else is in it.\<close>

theorem stripping_closes_panes:
  assumes "tab_ok t"
  shows "case strip_transient_panes ids (persisted_tab_of custom tags t) of
    None \<Rightarrow> filter (\<lambda>p. pane_id p \<notin> ids) (concat (tab_panes t)) = []
  | Some pt \<Rightarrow> \<exists>ps. (close_step ids)\<^sup>*\<^sup>* (tab_panes t, tab_row_ratios t, tab_col_ratios t) (ps, ptab_row_ratios pt, ptab_col_ratios pt) \<and>
      concat ps = filter (\<lambda>p. pane_id p \<notin> ids) (concat (tab_panes t)) \<and> concat ps \<noteq> [] \<and>
      ptab_panes pt = map (map (persisted_pane_of custom tags)) ps"
proof -
  have g: "grid_ok (tab_panes t, tab_row_ratios t, tab_col_ratios t)" using assms by (simp add: tab_ok_def)
  obtain ps' rr' cr' where s: "(close_step ids)\<^sup>*\<^sup>* (tab_panes t, tab_row_ratios t, tab_col_ratios t) (ps', rr', cr')" "grid_ok (ps', rr', cr')"
    "concat ps' = filter (\<lambda>p. pane_id p \<notin> ids) (concat (tab_panes t))"
    "strip_transient_panes ids (persisted_tab_of custom tags t) = (if ps' = [] then None else Some ((persisted_tab_of custom tags t)\<lparr>
      ptab_panes := map (map (persisted_pane_of custom tags)) ps', ptab_row_ratios := rr', ptab_col_ratios := cr',
      ptab_active_pane := (if ptab_active_pane (persisted_tab_of custom tags t) \<in> ids then pane_id (hd (hd ps'))
        else ptab_active_pane (persisted_tab_of custom tags t))\<rparr>))"
    by (rule stripped_tab [OF g, of "persisted_tab_of custom tags t" custom tags ids]) (simp_all add: persisted_tab_of_def)
  show ?thesis
  proof (cases "ps' = []")
    case True
    then show ?thesis using s(3,4) by simp
  next
    case False
    then have "0 < length ps'" by simp
    then have "hd ps' \<noteq> []" using grid_ok_lengths(3) [OF s(2), of 0] by (simp add: row_ok_def hd_conv_nth)
    then have "concat ps' \<noteq> []" using False by (cases ps') auto
    then show ?thesis unfolding s(4) using False s(1,3) by (simp del: concat_eq_Nil_conv) metis
  qed
qed

definition editor_beside_shell :: tab where
  "editor_beside_shell = (let p1 = shell_pane 1 (str_lit ''sh'') (str_lit ''bash''); p2 = shell_pane 2 (str_lit ''ed'') (str_lit ''rs'') in
     (tab_of_pane (str_lit ''t'') (str_lit ''bash'') Running p1)\<lparr>tab_panes := [[p1, p2]], tab_col_ratios := [[1/2, 1/2]]\<rparr>)"

lemma stripping_closes_panes_witness:
  "case strip_transient_panes {2} (persisted_tab_of {} \<lparr>pt_restarts = Map.empty, pt_agents = Map.empty\<rparr> editor_beside_shell) of
    None \<Rightarrow> filter (\<lambda>p. pane_id p \<notin> {2}) (concat (tab_panes editor_beside_shell)) = []
  | Some pt \<Rightarrow> \<exists>ps. (close_step {2})\<^sup>*\<^sup>* (tab_panes editor_beside_shell, tab_row_ratios editor_beside_shell, tab_col_ratios editor_beside_shell)
        (ps, ptab_row_ratios pt, ptab_col_ratios pt) \<and>
      concat ps = filter (\<lambda>p. pane_id p \<notin> {2}) (concat (tab_panes editor_beside_shell)) \<and> concat ps \<noteq> [] \<and>
      ptab_panes pt = map (map (persisted_pane_of {} \<lparr>pt_restarts = Map.empty, pt_agents = Map.empty\<rparr>)) ps"
proof (rule stripping_closes_panes)
  show "tab_ok editor_beside_shell"
    by (simp add: editor_beside_shell_def tab_ok_def tab_of_pane_def shell_pane_def grid_ok_def row_ok_def pane_ids_def Let_def)
qed

end
