(* ===== verification/Persist_Round.thy ===== *)
theory Persist_Round
  imports Persist_Props
begin

text \<open>
  Saving and restoring is the identity on the layout of a state without editors and flow views: tabs,
  grids, shares, focus and numbers of all workspaces.
\<close>

section \<open>Views\<close>

type_synonym tab_view = "rstr \<times> u32 list list \<times> u32 \<times> rat list \<times> rat list list"

definition view_of_tab :: "tab \<Rightarrow> tab_view" where
  "view_of_tab t = (tab_id t, map (map pane_id) (tab_panes t), tab_active_pane t, tab_row_ratios t, tab_col_ratios t)"

definition view_of_saved :: "persisted_tab \<Rightarrow> tab_view" where
  "view_of_saved pt = (ptab_id pt, map (map pp_id) (ptab_panes pt), ptab_active_pane pt, ptab_row_ratios pt, ptab_col_ratios pt)"

definition tabs_in :: "app \<Rightarrow> nat \<Rightarrow> tab list" where
  "tabs_in s w = (if w = active_workspace s then live_tabs s else ws_tabs (workspaces s ! w))"

definition front_in :: "app \<Rightarrow> nat \<Rightarrow> nat" where
  "front_in s w = (if w = active_workspace s then active_tab s
     else min (ws_active_tab (workspaces s ! w)) (length (ws_tabs (workspaces s ! w)) - 1))"

lemma view_of_persisted: "view_of_saved (persisted_tab_of custom tags t) = view_of_tab t"
  by (simp add: view_of_saved_def view_of_tab_def persisted_tab_of_def persisted_pane_of_def comp_def Let_def)

section \<open>One tab\<close>

lemma find_self: "x \<in> set xs \<Longrightarrow> find (\<lambda>i. i = x) xs = Some x"
  by (induction xs) auto

lemma nth_other:
  assumes "w < length xs" and "w \<noteq> a"
  shows "xs ! w \<in> set (take a xs @ drop (Suc a) xs)"
proof (cases "w < a")
  case True
  then have "take a xs ! w = xs ! w" "w < length (take a xs)" using assms(1) by simp_all
  then show ?thesis by (metis UnCI nth_mem set_append)
next
  case False
  then have "drop (Suc a) xs ! (w - Suc a) = xs ! w" "w - Suc a < length (drop (Suc a) xs)" using assms by simp_all
  then show ?thesis by (metis UnCI nth_mem set_append)
qed

lemma restored_row_ids: "map pane_id (fst (map_acc (restore_pane al ab) row acc)) = map pp_id row"
  by (rule map_acc_ids) (simp add: restore_pane_def shell_pane_def)

lemma restored_rows_ids: "map (map pane_id) (fst (map_acc (map_acc (restore_pane al ab)) rows acc)) = map (map pp_id) rows"
  by (rule map_acc_ids) (rule restored_row_ids)

lemma restored_view:
  assumes t: "tab_ok t" and v: "view_of_saved pt = view_of_tab t"
  shows "\<exists>t'. fst (terminal_tab_from_persisted al ab pt acc) = Some t' \<and> view_of_tab t' = view_of_tab t"
proof -
  obtain rows acc' where r: "map_acc (map_acc (restore_pane al ab)) (ptab_panes pt) acc = (rows, acc')"
    by (cases "map_acc (map_acc (restore_pane al ab)) (ptab_panes pt) acc")
  have ids: "map (map pane_id) rows = map (map pane_id) (tab_panes t)"
    using restored_rows_ids [of al ab "ptab_panes pt" acc] v by (simp add: r view_of_saved_def view_of_tab_def)
  then have len: "map length rows = map length (tab_panes t)" by (metis (no_types) comp_apply length_map map_eq_conv map_map)
  have g: "grid_ok (tab_panes t, tab_row_ratios t, tab_col_ratios t)" "tab_panes t \<noteq> []" using t by (simp_all add: tab_ok_def)
  note L = grid_ok_lengths [OF g(1)]
  have lr: "length rows = length (tab_panes t)" using arg_cong [OF len, of length] by simp
  have li: "length (rows ! i) = length (tab_panes t ! i)" if "i < length (tab_panes t)" for i
    using len that lr by (metis nth_map)
  have ne: "\<forall>row \<in> set rows. row \<noteq> []"
    using L(3) li lr by (auto simp: in_set_conv_nth row_ok_def) (metis length_0_conv)
  then have ps: "filter (\<lambda>row. row \<noteq> []) rows = rows" by simp
  have rr: "normalized_row_ratios rows (ptab_row_ratios pt) = tab_row_ratios t"
    using v g(1) L(1) lr by (simp add: normalized_row_ratios_def view_of_saved_def view_of_tab_def grid_ok_def)
  have cr: "normalized_col_ratios rows (ptab_col_ratios pt) = tab_col_ratios t"
    using v L(2,3) lr li by (auto simp: normalized_col_ratios_def view_of_saved_def view_of_tab_def set_zip row_ok_def)
  have "map pane_id (concat rows) = concat (map (map pane_id) rows)" by (simp add: map_concat)
  then have pids: "pane_ids rows = pane_ids (tab_panes t)" using ids by (simp add: pane_ids_def map_concat)
  then have "ptab_active_pane pt \<in> set (pane_ids rows)" using t v by (simp add: tab_ok_def view_of_saved_def view_of_tab_def)
  then have f: "find (\<lambda>i. i = ptab_active_pane pt) (pane_ids rows) = Some (ptab_active_pane pt)" by (rule find_self)
  have ne: "rows \<noteq> []" using g(2) lr by auto
  have vf: "ptab_id pt = tab_id t" "ptab_active_pane pt = tab_active_pane t" using v by (simp_all add: view_of_saved_def view_of_tab_def)
  have "fst (terminal_tab_from_persisted al ab pt acc) = Some \<lparr>tab_id = tab_id t, tab_name = or_default_text (ptab_name pt) ''shell'',
      tab_subtitle = or_default_text (ptab_subtitle pt) ''bash'', tab_status = Running, tab_panes = rows, tab_active_pane = tab_active_pane t,
      tab_row_ratios = tab_row_ratios t, tab_col_ratios = tab_col_ratios t\<rparr>"
    unfolding terminal_tab_from_persisted_def r Let_def prod.case ps rr cr f using ne by (simp add: vf)
  then show ?thesis using ids by (simp add: view_of_tab_def)
qed

lemma restored_views:
  "\<forall>pt \<in> set pts. \<exists>t. tab_ok t \<and> view_of_saved pt = view_of_tab t \<Longrightarrow>
   map view_of_tab (List.map_filter (\<lambda>t. t) (fst (map_acc (terminal_tab_from_persisted al ab) pts acc))) = map view_of_saved pts"
proof (induction pts arbitrary: acc)
  case (Cons pt pts)
  obtain t where t: "tab_ok t" "view_of_saved pt = view_of_tab t" using Cons.prems by auto
  obtain t' where "fst (terminal_tab_from_persisted al ab pt acc) = Some t'" "view_of_tab t' = view_of_tab t"
    using restored_view [OF t] by blast
  then obtain acc1 where y: "terminal_tab_from_persisted al ab pt acc = (Some t', acc1)" by (metis prod.collapse)
  obtain opts acc2 where ys: "map_acc (terminal_tab_from_persisted al ab) pts acc1 = (opts, acc2)"
    by (cases "map_acc (terminal_tab_from_persisted al ab) pts acc1")
  have "map view_of_tab (List.map_filter (\<lambda>t. t) opts) = map view_of_saved pts"
    using Cons.IH [of acc1] Cons.prems by (simp add: ys)
  then show ?case using \<open>view_of_tab t' = view_of_tab t\<close> t(2) by (simp add: y ys List.map_filter_simps)
qed (simp add: List.map_filter_simps)

section \<open>All workspaces\<close>

definition saved_ok :: "persisted_workspace \<Rightarrow> bool" where
  "saved_ok e \<longleftrightarrow> (\<forall>pt \<in> set (pw_tabs e). \<exists>t. tab_ok t \<and> view_of_saved pt = view_of_tab t)"

lemma restored_workspace_views:
  assumes "\<forall>e \<in> set es. saved_ok e" and "distinct (map pw_num es)" and "0 \<notin> set (map pw_num es)" and "set (map pw_num es) \<inter> set used = {}"
    and "restore_workspaces al ab es used acc = (wss, metas, acc')"
  shows "map (\<lambda>w. (ws_num w, map view_of_tab (ws_tabs w), ws_active_tab w)) wss =
    map (\<lambda>e. (pw_num e, map view_of_saved (pw_tabs e), min (pw_active_tab e) (length (pw_tabs e) - 1))) es"
  using assms
proof (induction es arbitrary: used acc wss metas acc')
  case (Cons e es)
  obtain opts acc1 where o: "map_acc (terminal_tab_from_persisted al ab) (pw_tabs e) acc = (opts, acc1)"
    by (cases "map_acc (terminal_tab_from_persisted al ab) (pw_tabs e) acc")
  obtain wss1 metas1 acc2 where w: "restore_workspaces al ab es (pw_num e # used) acc1 = (wss1, metas1, acc2)"
    by (cases "restore_workspaces al ab es (pw_num e # used) acc1") auto
  have n: "restored_num used (pw_num e) = Some (pw_num e)" using Cons.prems(3,4) by (auto simp: restored_num_def)
  let ?ts = "List.map_filter (\<lambda>t. t) opts"
  have v: "map view_of_tab ?ts = map view_of_saved (pw_tabs e)"
    using restored_views [of "pw_tabs e" al ab acc] Cons.prems(1) o by (simp add: saved_ok_def)
  then have l: "length ?ts = length (pw_tabs e)" by (metis length_map)
  then have e: "?ts = [] \<longleftrightarrow> pw_tabs e = []" by auto
  have IH: "map (\<lambda>w. (ws_num w, map view_of_tab (ws_tabs w), ws_active_tab w)) wss1 =
      map (\<lambda>e. (pw_num e, map view_of_saved (pw_tabs e), min (pw_active_tab e) (length (pw_tabs e) - 1))) es"
    by (rule Cons.IH [OF _ _ _ _ w]) (use Cons.prems in auto)
  have "wss = \<lparr>ws_num = pw_num e, ws_tabs = ?ts, ws_active_tab = (if ?ts = [] then 0 else min (pw_active_tab e) (length ?ts - 1))\<rparr> # wss1"
    using Cons.prems(5) n o w by (auto simp: Let_def)
  then show ?case using IH v l e by simp
qed simp

lemma saved_workspace:
  assumes s: "shape_ok s" and ne: "tabs s \<noteq> []" and e: "editors s = {}" "flows s = {}" and w: "w < length (workspaces s)"
  shows "map view_of_saved (fst (workspace_tabs s tags w)) = map view_of_tab (tabs_in s w)"
    and "\<forall>pt \<in> set (fst (workspace_tabs s tags w)). \<exists>t. tab_ok t \<and> view_of_saved pt = view_of_tab t"
    and "min (snd (workspace_tabs s tags w)) (length (fst (workspace_tabs s tags w)) - 1) = front_in s w"
proof -
  show v: "map view_of_saved (fst (workspace_tabs s tags w)) = map view_of_tab (tabs_in s w)"
  proof (cases "w = active_workspace s")
    case True
    show ?thesis
    proof (cases "tabs s = []")
      case False
      then have a: "active_tab s < length (tabs s)" using s by (simp add: shape_ok_def front_ok_def)
      show ?thesis
        using True a e view_of_persisted
        by (auto intro!: nth_equalityI simp: workspace_tabs_def strip_transient_tabs_def tabs_in_def live_tabs_eq Let_def nth_list_update
            view_of_saved_def view_of_tab_def live_tab_def persisted_tab_of_def persisted_pane_of_def)
    qed (use True e in \<open>simp add: workspace_tabs_def strip_transient_tabs_def tabs_in_def Let_def\<close>)
  next
    case False
    then show ?thesis using e by (simp add: workspace_tabs_def strip_transient_tabs_def tabs_in_def Let_def view_of_persisted comp_def)
  qed
  have ok: "\<forall>t \<in> set (tabs_in s w). tab_ok t"
  proof (cases "w = active_workspace s")
    case False
    then have "workspaces s ! w \<in> set (take (active_workspace s) (workspaces s) @ drop (Suc (active_workspace s)) (workspaces s))"
      by (rule nth_other [OF w])
    then have "set (ws_tabs (workspaces s ! w)) \<subseteq> set (other_tabs s)" by (auto simp: other_tabs_def)
    then show ?thesis using False s by (auto simp: tabs_in_def shape_ok_def)
  qed (use s in \<open>simp add: tabs_in_def shape_ok_def\<close>)
  show "\<forall>pt \<in> set (fst (workspace_tabs s tags w)). \<exists>t. tab_ok t \<and> view_of_saved pt = view_of_tab t"
  proof
    fix pt assume "pt \<in> set (fst (workspace_tabs s tags w))"
    then have "view_of_saved pt \<in> set (map view_of_saved (fst (workspace_tabs s tags w)))" by simp
    then have "view_of_saved pt \<in> set (map view_of_tab (tabs_in s w))" unfolding v .
    then show "\<exists>t. tab_ok t \<and> view_of_saved pt = view_of_tab t" using ok by auto
  qed
  have l: "length (fst (workspace_tabs s tags w)) = length (tabs_in s w)" using arg_cong [OF v, of length] by simp
  show "min (snd (workspace_tabs s tags w)) (length (fst (workspace_tabs s tags w)) - 1) = front_in s w"
  proof (cases "w = active_workspace s")
    case True
    then have "active_tab s < length (tabs s)" using s ne by (simp add: shape_ok_def front_ok_def)
    then show ?thesis using True e l by (auto simp: workspace_tabs_def strip_transient_tabs_def tabs_in_def front_in_def Let_def)
  next
    case False
    then show ?thesis using e l by (simp add: workspace_tabs_def strip_transient_tabs_def tabs_in_def front_in_def Let_def)
  qed
qed

section \<open>The round trip\<close>

lemma saved_nums:
  assumes "length (du_meta d) = length (workspaces s)"
  shows "map pw_num (ps_workspaces (persisted_from_state s d)) = map ws_num (workspaces s)"
    and "length (ps_workspaces (persisted_from_state s d)) = length (workspaces s)"
    and "w < length (workspaces s) \<Longrightarrow> pw_tabs (ps_workspaces (persisted_from_state s d) ! w) = fst (workspace_tabs s (du_tags d) w) \<and>
      pw_active_tab (ps_workspaces (persisted_from_state s d) ! w) = snd (workspace_tabs s (du_tags d) w)"
proof -
  show "map pw_num (ps_workspaces (persisted_from_state s d)) = map ws_num (workspaces s)"
    using assms by (auto intro!: nth_equalityI simp: persisted_from_state_def case_prod_beta Let_def)
  show "length (ps_workspaces (persisted_from_state s d)) = length (workspaces s)" using assms by (simp add: persisted_from_state_def)
  show "w < length (workspaces s) \<Longrightarrow> pw_tabs (ps_workspaces (persisted_from_state s d) ! w) = fst (workspace_tabs s (du_tags d) w) \<and>
      pw_active_tab (ps_workspaces (persisted_from_state s d) ! w) = snd (workspace_tabs s (du_tags d) w)"
    using assms by (simp add: persisted_from_state_def case_prod_beta Let_def)
qed

lemma settled_front:
  assumes "settled m s" and "tabs s \<noteq> []"
  shows "concat (panes s) \<noteq> []"
proof -
  have a: "active_tab s < length (tabs s)" using assms by (simp add: settled_def shape_ok_def front_ok_def)
  then have "live_tab s (tabs s ! active_tab s) \<in> set (live_tabs s)" by (simp add: live_tabs_eq set_update_memI)
  then have "tab_ok (live_tab s (tabs s ! active_tab s))" using assms(1) by (auto simp: settled_def good_tab_def)
  then have g: "grid_ok (panes s, row_ratios s, col_ratios s)" "panes s \<noteq> []" by (simp_all add: tab_ok_def)
  then have "0 < length (panes s)" by simp
  then have "panes s ! 0 \<noteq> []" "panes s ! 0 \<in> set (panes s)" using grid_ok_lengths(3) [OF g(1), of 0] by (simp_all add: row_ok_def)
  then show ?thesis by (simp add: concat_eq_Nil_conv) blast
qed

text \<open>C35: Saving the layout and starting again from the file gives back every workspace under its number, with its tabs in
  order, their pane grids, shares and focus, and the same workspace and tab in front, when no editor or flow view is
  open, a tab is in front and the numbers of the workspaces are distinct and not zero, whatever the state the restore
  starts from.\<close>

theorem saved_layout_is_restored:
  assumes "app_ok s" and "tabs s \<noteq> []" and "workspaces s \<noteq> []" and "editors s = {}" and "flows s = {}"
    and "distinct (map ws_num (workspaces s))" and "0 \<notin> set (map ws_num (workspaces s))" and "length (workspaces s) < 2 ^ 32"
    and "length (du_meta d) = length (workspaces s)"
  shows "\<exists>s' d'. restore_layout is_alnum is_absolute (persisted_from_state s d) (s0, d0) = Some (s', d') \<and>
    map ws_num (workspaces s') = map ws_num (workspaces s) \<and> active_workspace s' = active_workspace s \<and>
    (\<forall>w < length (workspaces s). map view_of_tab (tabs_in s' w) = map view_of_tab (tabs_in s w) \<and> front_in s' w = front_in s w)"
proof -
  let ?p = "persisted_from_state s d"
  let ?acc = "\<lparr>ra_max = 0, ra_custom = {}, ra_tags = \<lparr>pt_restarts = Map.empty, pt_agents = Map.empty\<rparr>\<rparr>"
  note N = saved_nums [OF assms(9)]
  have sh: "shape_ok s" using assms(1) by (simp add: app_ok_def)
  note S = saved_workspace [OF sh assms(2,4,5)]
  have act: "active_workspace s < length (workspaces s)" using sh assms(3) by (simp add: shape_ok_def ws_ok_def)
  have pa: "min (ps_active_workspace ?p) (length (ps_workspaces ?p) - 1) = active_workspace s"
    using act N(2) by (simp add: persisted_from_state_def min_def)
  obtain wss metas acc where R: "restore_workspaces is_alnum is_absolute (ps_workspaces ?p) [] ?acc = (wss, metas, acc)"
    by (cases "restore_workspaces is_alnum is_absolute (ps_workspaces ?p) [] ?acc") auto
  have len: "length ([] :: u32 list) + length (ps_workspaces ?p) < 2 ^ 32" using assms(8) N(2) by simp
  note W = restored_workspaces [OF len R]
  have ok: "\<forall>e \<in> set (ps_workspaces ?p). saved_ok e"
  proof
    fix e assume "e \<in> set (ps_workspaces ?p)"
    then obtain i where i: "i < length (workspaces s)" "e = ps_workspaces ?p ! i" using N(2) by (auto simp: in_set_conv_nth)
    show "saved_ok e" unfolding saved_ok_def i(2) conjunct1 [OF N(3) [OF i(1)]] by (rule S(2) [OF i(1)])
  qed
  have V: "map (\<lambda>w. (ws_num w, map view_of_tab (ws_tabs w), ws_active_tab w)) wss =
    map (\<lambda>e. (pw_num e, map view_of_saved (pw_tabs e), min (pw_active_tab e) (length (pw_tabs e) - 1))) (ps_workspaces ?p)"
    by (rule restored_workspace_views [OF ok _ _ _ R]) (use assms(6,7) N(1) in \<open>simp_all del: set_map\<close>)
  have lw: "length wss = length (workspaces s)" using W(1) N(2) by simp
  have nums: "map ws_num wss = map ws_num (workspaces s)" using arg_cong [OF V, of "map fst"] N(1) by (simp add: comp_def)
  have v: "map view_of_tab (ws_tabs (wss ! w)) = map view_of_tab (tabs_in s w) \<and> ws_active_tab (wss ! w) = front_in s w"
    if "w < length (workspaces s)" for w
    using arg_cong [OF V, of "\<lambda>xs. xs ! w"] that lw N(2,3) S(1,3) [OF that, of "du_tags d"] by simp
  let ?s1 = "s0\<lparr>workspaces := wss, active_workspace := active_workspace s, custom_titled_panes := ra_custom acc,
    agent_restarts := {i \<in> persisted_ids ?p. pt_restarts (ra_tags acc) i \<noteq> None},
    pane_agents := {i \<in> persisted_ids ?p. pt_agents (ra_tags acc) i \<noteq> None},
    pending_agent_resumes := {}, agent_resume_attempts := {}, agent_resume_preflights := {}\<rparr>"
  obtain s2 where L: "load_workspace_state ?s1 = Some s2" "settled (ra_max acc) s2" "workspaces s2 = wss" "active_workspace s2 = active_workspace s"
      "tabs s2 = ws_tabs (wss ! active_workspace s)" "live_tabs s2 = tabs s2"
      "tabs s2 \<noteq> [] \<longrightarrow> active_tab s2 = min (ws_active_tab (wss ! active_workspace s)) (length (tabs s2) - 1)"
    using load_workspace_settled [of ?s1 "ra_max acc"] act lw W(5) [of acc] by auto
  have "length (tabs s2) = length (tabs_in s (active_workspace s))" using v [OF act] L(5) by (metis length_map)
  then have t2: "tabs s2 \<noteq> []" "length (tabs s2) = length (tabs s)" using assms(2) by (auto simp: tabs_in_def)
  have s3: "ensure_live_pane (ra_max acc) s2 = (s2, ra_max acc)" using settled_front [OF L(2) t2(1)] by (simp add: ensure_live_pane_def del: concat_eq_Nil_conv)
  let ?s' = "s2\<lparr>next_id := max (saturating_inc (ra_max acc)) 2\<rparr>"
  have r: "restore_layout is_alnum is_absolute ?p (s0, d0) = Some (?s', d0\<lparr>du_tags := ra_tags acc, du_meta := metas\<rparr>)"
    using assms(3) N(2) R L(1) s3 pa by (auto simp: restore_layout_def Let_def)
  have lt: "live_tabs ?s' = live_tabs s2" by (rule live_tabs_cong) (simp add: layout_of_def grid_of_def)
  have "active_tab s < length (tabs s)" using sh assms(2) by (simp add: shape_ok_def front_ok_def)
  then have at2: "active_tab s2 = active_tab s" using L(7) t2 v [OF act] by (simp add: front_in_def)
  have "map view_of_tab (tabs_in ?s' w) = map view_of_tab (tabs_in s w) \<and> front_in ?s' w = front_in s w" if "w < length (workspaces s)" for w
  proof (cases "w = active_workspace s")
    case True
    then show ?thesis using v [OF act] L(3-6) lt at2 by (simp add: tabs_in_def front_in_def)
  next
    case False
    have "length (ws_tabs (wss ! w)) = length (tabs_in s w)" using v [OF that] by (metis length_map)
    then show ?thesis using v [OF that] False L(3,4) by (simp add: tabs_in_def front_in_def)
  qed
  then show ?thesis using r nums L(3,4) by auto
qed

definition unnamed_workspace :: workspace_meta where
  "unnamed_workspace = \<lparr>wm_name = [], wm_path = None, wm_collapsed = False, wm_shell = \<lparr>sh_program = [], sh_args = []\<rparr>\<rparr>"

definition two_workspaces :: durable where
  "two_workspaces = \<lparr>du_tags = \<lparr>pt_restarts = Map.empty, pt_agents = Map.empty\<rparr>, du_meta = [unnamed_workspace, unnamed_workspace],
     du_toggles = Map.empty, du_default_shell = \<lparr>sh_program = [], sh_args = []\<rparr>, du_prompted_version = None\<rparr>"

theorem saved_layout_is_restored_witness:
  "\<exists>s' d'. restore_layout (\<lambda>c. True) (\<lambda>p. True) (persisted_from_state seed_app two_workspaces) (seed_app, two_workspaces) = Some (s', d') \<and>
    map ws_num (workspaces s') = map ws_num (workspaces seed_app) \<and> active_workspace s' = active_workspace seed_app \<and>
    (\<forall>w < length (workspaces seed_app). map view_of_tab (tabs_in s' w) = map view_of_tab (tabs_in seed_app w) \<and> front_in s' w = front_in seed_app w)"
  by (rule saved_layout_is_restored [OF seed_ok]) (simp_all add: seed_app_def two_workspaces_def)

end
