(* ===== verification/Key_Encode.thy ===== *)
theory Key_Encode
  imports Keys
begin

text \<open>
  What a key press sends to the shell (src/src/terminal/keys.rs): the bytes for each key and set of
  modifiers, and the chords that belong to the window manager and send nothing.
\<close>

datatype key_event_kind = KeyPressed | KeyReleased

record keyboard_event =
  ke_kind :: key_event_kind
  ke_key :: key
  ke_mods :: modifiers
  ke_text :: "rstr option"

definition is_os_reserved_chord :: "key \<Rightarrow> modifiers \<Rightarrow> bool" where
  "is_os_reserved_chord k m \<longleftrightarrow> m_meta m \<or> (m_alt m \<and> (k = KTab \<or> k = KSpace))"

definition xterm_modifier :: "bool \<Rightarrow> bool \<Rightarrow> bool \<Rightarrow> u8" where
  "xterm_modifier shift alt ctrl = (let m = 1 + (if shift then 1 else 0) + (if alt then 2 else 0) + (if ctrl then 4 else 0)
     in if m = 1 then 0 else m)"

text \<open>\<open>u8::to_string\<close> of a modifier, which is below ten.\<close>

definition digit_bytes :: "u8 \<Rightarrow> u8 list" where
  "digit_bytes m = map of_nat (show_nat (unat m))"

definition encode_modified_key :: "u8 \<Rightarrow> bool \<Rightarrow> bool \<Rightarrow> bool \<Rightarrow> u8 list" where
  "encode_modified_key letter shift alt ctrl = (let modifier = xterm_modifier shift alt ctrl in
     if modifier = 0 then [0x1b, 91, letter] else [0x1b, 91, 49, 59] @ digit_bytes modifier @ [letter])"

definition encode_modified_tilde :: "u8 list \<Rightarrow> bool \<Rightarrow> bool \<Rightarrow> bool \<Rightarrow> u8 list" where
  "encode_modified_tilde num shift alt ctrl = (let modifier = xterm_modifier shift alt ctrl in
     if modifier = 0 then [0x1b, 91] @ num @ [126] else [0x1b, 91] @ num @ [59] @ digit_bytes modifier @ [126])"

text \<open>The letters of F1 to F4 and the codes of F5 to F12.\<close>

definition fkey_letter :: "u8 \<Rightarrow> u8 option" where
  "fkey_letter n = map_of [(1, 80), (2, 81), (3, 82), (4, 83)] n"

definition fkey_code :: "u8 \<Rightarrow> u8 list option" where
  "fkey_code n = map_of [(5, [49, 53]), (6, [49, 55]), (7, [49, 56]), (8, [49, 57]), (9, [50, 48]), (10, [50, 49]), (11, [50, 51]), (12, [50, 52])] n"

definition encode_fkey :: "u8 \<Rightarrow> bool \<Rightarrow> bool \<Rightarrow> bool \<Rightarrow> u8 list option" where
  "encode_fkey n shift alt ctrl = (let modifier = xterm_modifier shift alt ctrl in
     case fkey_letter n of
       Some letter \<Rightarrow> Some (if modifier = 0 then [0x1b, 79, letter] else [0x1b, 91, 49, 59] @ digit_bytes modifier @ [letter])
     | None \<Rightarrow> map_option (\<lambda>code. encode_modified_tilde code shift alt ctrl) (fkey_code n))"

definition committed_text :: "keyboard_event \<Rightarrow> u8 list option" where
  "committed_text e = (case ke_text e of Some t \<Rightarrow> if t \<noteq> [] then Some (utf8 t) else None | None \<Rightarrow> None)"

definition encode_char :: "keyboard_event \<Rightarrow> rchar \<Rightarrow> u8 list" where
  "encode_char e c = (let lower = ascii_lower c in
     if m_ctrl (ke_mods e) \<and> 97 \<le> lower \<and> lower \<le> 122 then [of_nat lower - 97 + 1]
     else if m_alt (ke_mods e) then 0x1b # utf8_char (if m_shift (ke_mods e) then ascii_upper c else c)
     else case committed_text e of Some bs \<Rightarrow> bs | None \<Rightarrow> utf8_char c)"

definition encode_key :: "keyboard_event \<Rightarrow> u8 list option" where
  "encode_key e = (let m = ke_mods e; shift = m_shift m; alt = m_alt m; ctrl = m_ctrl m in
     if ke_kind e \<noteq> KeyPressed then None
     else if is_os_reserved_chord (ke_key e) m then None
     else case ke_key e of
       KChar c \<Rightarrow> Some (encode_char e c)
     | KEnter \<Rightarrow> Some [0x0D]
     | KTab \<Rightarrow> Some (if shift \<and> \<not> ctrl \<and> \<not> alt then [0x1b, 91, 90] else [0x09])
     | KBackspace \<Rightarrow> Some [0x7F]
     | KEscape \<Rightarrow> Some [0x1B]
     | KSpace \<Rightarrow> Some (if ctrl then [0] else case committed_text e of Some bs \<Rightarrow> bs | None \<Rightarrow> [0x20])
     | KUp \<Rightarrow> Some (encode_modified_key 65 shift alt ctrl)
     | KDown \<Rightarrow> Some (encode_modified_key 66 shift alt ctrl)
     | KRight \<Rightarrow> Some (encode_modified_key 67 shift alt ctrl)
     | KLeft \<Rightarrow> Some (encode_modified_key 68 shift alt ctrl)
     | KHome \<Rightarrow> Some (encode_modified_key 72 shift alt ctrl)
     | KEnd \<Rightarrow> Some (encode_modified_key 70 shift alt ctrl)
     | KPageUp \<Rightarrow> Some (encode_modified_tilde [53] shift alt ctrl)
     | KPageDown \<Rightarrow> Some (encode_modified_tilde [54] shift alt ctrl)
     | KDelete \<Rightarrow> Some (encode_modified_tilde [51] shift alt ctrl)
     | KInsert \<Rightarrow> Some (encode_modified_tilde [50] shift alt ctrl)
     | KF n \<Rightarrow> encode_fkey n shift alt ctrl
     | KUnknown \<Rightarrow> None)"

section \<open>Reading the sequences back\<close>

text \<open>The reading of the function and cursor key sequences by a terminal program: ESC, a bracket or
  letter O, numbers, a final byte.\<close>

definition csi_keys :: "(u8 list \<times> u8 \<times> key) list" where
  "csi_keys = [([], 65, KUp), ([], 66, KDown), ([], 67, KRight), ([], 68, KLeft), ([], 72, KHome), ([], 70, KEnd),
     ([], 80, KF 1), ([], 81, KF 2), ([], 82, KF 3), ([], 83, KF 4),
     ([53], 126, KPageUp), ([54], 126, KPageDown), ([51], 126, KDelete), ([50], 126, KInsert),
     ([49, 53], 126, KF 5), ([49, 55], 126, KF 6), ([49, 56], 126, KF 7), ([49, 57], 126, KF 8),
     ([50, 48], 126, KF 9), ([50, 49], 126, KF 10), ([50, 51], 126, KF 11), ([50, 52], 126, KF 12)]"

definition modifier_of :: "u8 list \<Rightarrow> (bool \<times> bool \<times> bool) option" where
  "modifier_of bs = map_of [([], (False, False, False)), ([50], (True, False, False)), ([51], (False, True, False)), ([52], (True, True, False)),
     ([53], (False, False, True)), ([54], (True, False, True)), ([55], (False, True, True)), ([56], (True, True, True))] bs"

definition csi_parts :: "u8 list \<Rightarrow> (u8 list \<times> u8 list \<times> u8) option" where
  "csi_parts bs = (case bs of
       e # o2 # rest \<Rightarrow>
         if e \<noteq> 0x1b \<or> rest = [] then None
         else if o2 = 79 then Some ([], [], last rest)
         else if o2 = 91 then
           (let body = butlast rest; num = takeWhile (\<lambda>b. b \<noteq> 59) body; m = drop (Suc (length num)) body
            in Some (if num = [49] \<and> m \<noteq> [] then [] else num, m, last rest))
         else None
     | _ \<Rightarrow> None)"

definition read_key :: "u8 list \<Rightarrow> (key \<times> bool \<times> bool \<times> bool) option" where
  "read_key bs = (case csi_parts bs of None \<Rightarrow> None
     | Some (num, m, final) \<Rightarrow> (case (find (\<lambda>(n, f, k). n = num \<and> f = final) csi_keys, modifier_of m) of
         (Some (_, _, k), Some mods) \<Rightarrow> Some (k, mods) | _ \<Rightarrow> None))"

definition sequence_keys :: "key list" where
  "sequence_keys = map (\<lambda>(_, _, k). k) csi_keys"

lemma digit_bytes_one [simp]: "unat m < 10 \<Longrightarrow> digit_bytes m = [of_nat (48 + unat m)]"
  by (simp add: digit_bytes_def show_nat.simps [of "unat m"])

text \<open>A modified or plain sequence in its three forms.\<close>

definition key_named :: "u8 list \<Rightarrow> u8 \<Rightarrow> key option" where
  "key_named num final = map_option (\<lambda>(_, _, k). k) (find (\<lambda>(n, f, k). n = num \<and> f = final) csi_keys)"

lemma read_letter:
  "read_key (encode_modified_key letter s a c) = map_option (\<lambda>k. (k, s, a, c)) (key_named [] letter)"
  by (cases s; cases a; cases c)
    (simp_all add: encode_modified_key_def xterm_modifier_def read_key_def csi_parts_def modifier_of_def key_named_def split: option.split)

lemma read_ss3: "read_key [0x1b, 79, letter] = map_option (\<lambda>k. (k, False, False, False)) (key_named [] letter)"
  by (simp add: read_key_def csi_parts_def modifier_of_def key_named_def split: option.split)

lemma read_tilde:
  assumes "59 \<notin> set num" and "num \<noteq> [49]"
  shows "read_key (encode_modified_tilde num s a c) = map_option (\<lambda>k. (k, s, a, c)) (key_named num 126)"
proof -
  have t: "takeWhile (\<lambda>b. b \<noteq> 59) num = num" "takeWhile (\<lambda>b. b \<noteq> 59) (num @ 59 # x) = num" for x
    using assms(1) by (auto simp: takeWhile_eq_all_conv takeWhile_append)
  have plain: "csi_parts ([0x1b, 91] @ num @ [126]) = Some (num, [], 126)"
    by (simp add: csi_parts_def t butlast_append)
  have modified: "csi_parts ([0x1b, 91] @ num @ [59] @ [d] @ [126]) = Some (num, [d], 126)" for d
    using assms(2) by (simp add: csi_parts_def t butlast_append)
  show ?thesis using plain modified
    by (cases s; cases a; cases c)
      (simp_all add: encode_modified_tilde_def xterm_modifier_def read_key_def modifier_of_def key_named_def split: option.split)
qed

lemma read_fkey:
  "fkey_letter n = Some l \<Longrightarrow> encode_fkey n s a c = Some (if s \<or> a \<or> c then encode_modified_key l s a c else [0x1b, 79, l])"
  "fkey_letter n = None \<Longrightarrow> fkey_code n = Some code \<Longrightarrow> encode_fkey n s a c = Some (encode_modified_tilde code s a c)"
  by (cases s; cases a; cases c; simp add: encode_fkey_def encode_modified_key_def xterm_modifier_def)
     (simp add: encode_fkey_def)

text \<open>The sequences of the cursor, navigation and function keys are unambiguous: a terminal program reads back the key
  and exactly the Shift, Alt and Ctrl keys that were held.\<close>

theorem key_sequences_round_trip:
  assumes "k \<in> set sequence_keys" and "\<not> m_meta m"
  shows "\<exists>bs. encode_key \<lparr>ke_kind = KeyPressed, ke_key = k, ke_mods = m, ke_text = t\<rparr> = Some bs \<and>
    read_key bs = Some (k, m_shift m, m_alt m, m_ctrl m)"
proof -
  have "k \<in> {KUp, KDown, KRight, KLeft, KHome, KEnd, KPageUp, KPageDown, KDelete, KInsert} \<or>
      k \<in> {KF 1, KF 2, KF 3, KF 4} \<or> k \<in> KF ` {5, 6, 7, 8, 9, 10, 11, 12}"
    using assms(1) by (auto simp: sequence_keys_def csi_keys_def)
  then show ?thesis
  proof (elim disjE)
    assume "k \<in> {KUp, KDown, KRight, KLeft, KHome, KEnd, KPageUp, KPageDown, KDelete, KInsert}"
    then show ?thesis by (auto simp: encode_key_def is_os_reserved_chord_def assms(2) Let_def read_letter read_tilde key_named_def csi_keys_def)
  next
    assume "k \<in> {KF 1, KF 2, KF 3, KF 4}"
    then show ?thesis
      by (auto simp: encode_key_def is_os_reserved_chord_def assms(2) Let_def read_fkey(1) fkey_letter_def read_letter read_ss3 key_named_def csi_keys_def)
  next
    assume "k \<in> KF ` {5, 6, 7, 8, 9, 10, 11, 12}"
    then show ?thesis
      by (auto simp: encode_key_def is_os_reserved_chord_def assms(2) Let_def read_fkey(2) fkey_letter_def fkey_code_def read_tilde key_named_def csi_keys_def)
  qed
qed

theorem key_sequences_round_trip_witness:
  "\<exists>bs. encode_key \<lparr>ke_kind = KeyPressed, ke_key = KF 5, ke_mods = mods_empty\<lparr>m_ctrl := True\<rparr>, ke_text = None\<rparr> = Some bs \<and>
    read_key bs = Some (KF 5, m_shift (mods_empty\<lparr>m_ctrl := True\<rparr>), m_alt (mods_empty\<lparr>m_ctrl := True\<rparr>), m_ctrl (mods_empty\<lparr>m_ctrl := True\<rparr>))"
  by (rule key_sequences_round_trip) (simp_all add: sequence_keys_def csi_keys_def mods_empty_def)

end
