(* ===== verification/Cell_Grid.thy ===== *)
theory Cell_Grid
  imports Complex_Main Grid
begin

text \<open>
  The character grid that the user interface paints (unshit-core/src/cell_grid.rs): cells with dirty
  bits, the damaged columns of every row, and the identities of the lines, which move with their
  content. Measured sizes and the paint offset are rational numbers; the atomics for focus, blinking
  and the pending resize are a record, one step per access.
\<close>

section \<open>Cells\<close>

record ui_cell = cell +
  c_wide :: bool

definition ui_cell_default :: ui_cell where
  "ui_cell_default = \<lparr>c_ch = 0, c_fg = WHITE, c_bg = TRANSPARENT, c_attrs = attrs_empty, c_wide = False\<rparr>"

definition ui_cell_with_char :: "rchar \<Rightarrow> ui_cell" where
  "ui_cell_with_char ch = ui_cell_default\<lparr>c_ch := ch\<rparr>"

definition ui_cell_is_empty :: "ui_cell \<Rightarrow> bool" where
  "ui_cell_is_empty x \<longleftrightarrow> c_ch x = 0 \<or> c_ch x = 32"

section \<open>Damage of a row\<close>

record line_damage =
  ld_first :: u16
  ld_last :: u16
  ld_seqno :: "64 word"

definition ld_default :: line_damage where
  "ld_default = \<lparr>ld_first = - 1, ld_last = 0, ld_seqno = 0\<rparr>"

definition ld_is_clean :: "line_damage \<Rightarrow> bool" where
  "ld_is_clean ld \<longleftrightarrow> ld_first ld = - 1"

definition mark_damage :: "u16 \<Rightarrow> u16 \<Rightarrow> line_damage \<Rightarrow> line_damage" where
  "mark_damage start stop ld = (if stop < start then ld
     else let ld1 = (if ld_is_clean ld then ld\<lparr>ld_first := start, ld_last := stop\<rparr>
                     else ld\<lparr>ld_first := (if start < ld_first ld then start else ld_first ld),
                             ld_last := (if ld_last ld < stop then stop else ld_last ld)\<rparr>)
       in ld1\<lparr>ld_seqno := (if ld_seqno ld1 = - 1 then ld_seqno ld1 else ld_seqno ld1 + 1)\<rparr>)"

definition mark_col :: "u16 \<Rightarrow> line_damage \<Rightarrow> line_damage" where
  "mark_col col ld = mark_damage col col ld"

definition clear_cols :: "line_damage \<Rightarrow> line_damage" where
  "clear_cols ld = ld\<lparr>ld_first := - 1, ld_last := 0\<rparr>"

section \<open>The grid\<close>

record cell_grid =
  cg_rows :: nat
  cg_cols :: nat
  cg_cells :: "ui_cell list"
  cg_dirty :: "bool list"
  cg_damage :: "line_damage list"
  cg_ids :: "64 word list"
  cg_next_id :: "64 word"
  cg_cursor_row :: nat
  cg_cursor_col :: nat
  cg_cursor_visible :: bool
  cg_cell_w :: rat
  cg_cell_h :: rat
  cg_offset_y :: rat
  cg_overscan :: u8

text \<open>Casts of columns to 16 bits clamp; \<open>saturating_sub\<close> is subtraction on naturals.\<close>

definition clamp_u16 :: "nat \<Rightarrow> u16" where
  "clamp_u16 n = of_nat (min n 65535)"

definition last_col_u16 :: "nat \<Rightarrow> u16" where
  "last_col_u16 cols = clamp_u16 (cols - 1)"

definition mark_all_lines :: "nat \<Rightarrow> line_damage list \<Rightarrow> line_damage list" where
  "mark_all_lines cols = map (mark_damage 0 (last_col_u16 cols))"

text \<open>\<open>v.copy_within(s..s + n, d)\<close>\<close>

definition copy_within :: "nat \<Rightarrow> nat \<Rightarrow> nat \<Rightarrow> 'a list \<Rightarrow> 'a list" where
  "copy_within d s n xs = take d xs @ take n (drop s xs) @ drop (d + n) xs"

definition cg_new :: "nat \<Rightarrow> nat \<Rightarrow> cell_grid" where
  "cg_new rows cols = \<lparr>cg_rows = rows, cg_cols = cols, cg_cells = replicate (rows * cols) ui_cell_default,
     cg_dirty = replicate (rows * cols) True, cg_damage = mark_all_lines cols (replicate rows ld_default),
     cg_ids = map of_nat [1..<Suc rows], cg_next_id = of_nat (Suc rows),
     cg_cursor_row = 0, cg_cursor_col = 0, cg_cursor_visible = True,
     cg_cell_w = 0, cg_cell_h = 0, cg_offset_y = 0, cg_overscan = 0\<rparr>"

definition shift_rows :: "nat \<Rightarrow> nat \<Rightarrow> nat \<Rightarrow> cell_grid \<Rightarrow> cell_grid" where
  "shift_rows dst_row src_row count0 g =
     (if count0 = 0 \<or> cg_rows g = 0 \<or> cg_cols g = 0 then g
      else let count1 = min count0 (cg_rows g - max dst_row src_row) in
        if count1 = 0 \<or> dst_row = src_row then g
        else g\<lparr>cg_cells := copy_within (dst_row * cg_cols g) (src_row * cg_cols g) (count1 * cg_cols g) (cg_cells g),
               cg_dirty := fill_range (dst_row * cg_cols g) (dst_row * cg_cols g + count1 * cg_cols g) True (cg_dirty g),
               cg_ids := copy_within dst_row src_row count1 (cg_ids g),
               cg_damage := copy_within dst_row src_row count1 (cg_damage g)\<rparr>)"

definition allocate_line_id :: "cell_grid \<Rightarrow> 64 word \<times> cell_grid" where
  "allocate_line_id g = (cg_next_id g, g\<lparr>cg_next_id := cg_next_id g + 1\<rparr>)"

definition reset_line_identity :: "nat \<Rightarrow> cell_grid \<Rightarrow> cell_grid" where
  "reset_line_identity row g = (if cg_rows g \<le> row then g
     else let (new_id, g1) = allocate_line_id g
       in g1\<lparr>cg_ids := (cg_ids g1)[row := new_id],
             cg_damage := (cg_damage g1)[row := mark_damage 0 (last_col_u16 (cg_cols g1)) (cg_damage g1 ! row)]\<rparr>)"

definition viewport_rows :: "cell_grid \<Rightarrow> nat" where
  "viewport_rows g = cg_rows g - unat (cg_overscan g)"

text \<open>A prefix of the given cells, padded with default ones.\<close>

definition fitted_row :: "nat \<Rightarrow> ui_cell list option \<Rightarrow> ui_cell list" where
  "fitted_row cols src = (case src of None \<Rightarrow> replicate cols ui_cell_default
     | Some cs \<Rightarrow> take cols cs @ replicate (cols - length cs) ui_cell_default)"

definition insert_overscan_row_top :: "ui_cell list option \<Rightarrow> 64 word \<Rightarrow> cell_grid \<Rightarrow> cell_grid" where
  "insert_overscan_row_top src line_id g =
     g\<lparr>cg_cells := fitted_row (cg_cols g) src @ cg_cells g, cg_dirty := replicate (cg_cols g) True @ cg_dirty g,
       cg_damage := mark_damage 0 (last_col_u16 (cg_cols g)) ld_default # cg_damage g, cg_ids := line_id # cg_ids g,
       cg_rows := cg_rows g + 1, cg_cursor_row := min (cg_cursor_row g + 1) (cg_rows g)\<rparr>"

definition line_damage_for :: "nat \<Rightarrow> cell_grid \<Rightarrow> line_damage option" where
  "line_damage_for row g = nth_opt (cg_damage g) row"

definition line_id_at :: "nat \<Rightarrow> cell_grid \<Rightarrow> 64 word option" where
  "line_id_at row g = nth_opt (cg_ids g) row"

definition clear_dirty :: "cell_grid \<Rightarrow> cell_grid" where
  "clear_dirty g = g\<lparr>cg_dirty := map (\<lambda>_. False) (cg_dirty g), cg_damage := map clear_cols (cg_damage g)\<rparr>"

definition mark_all_dirty :: "cell_grid \<Rightarrow> cell_grid" where
  "mark_all_dirty g = g\<lparr>cg_dirty := map (\<lambda>_. True) (cg_dirty g), cg_damage := mark_all_lines (cg_cols g) (cg_damage g)\<rparr>"

definition has_dirty_cells :: "cell_grid \<Rightarrow> bool" where
  "has_dirty_cells g \<longleftrightarrow> (\<exists>d \<in> set (cg_dirty g). d)"

definition cg_set_cursor :: "nat \<Rightarrow> nat \<Rightarrow> cell_grid \<Rightarrow> cell_grid" where
  "cg_set_cursor row col g = g\<lparr>cg_cursor_row := min row (cg_rows g - 1), cg_cursor_col := min col (cg_cols g - 1)\<rparr>"

definition cell_idx :: "nat \<Rightarrow> nat \<Rightarrow> cell_grid \<Rightarrow> nat option" where
  "cell_idx row col g = (if row < cg_rows g \<and> col < cg_cols g then Some (row * cg_cols g + col) else None)"

definition set_cell :: "nat \<Rightarrow> nat \<Rightarrow> ui_cell \<Rightarrow> cell_grid \<Rightarrow> cell_grid" where
  "set_cell row col x g = (case cell_idx row col g of None \<Rightarrow> g
     | Some i \<Rightarrow> g\<lparr>cg_cells := (cg_cells g)[i := x], cg_dirty := (cg_dirty g)[i := True],
         cg_damage := (if row < length (cg_damage g)
           then (cg_damage g)[row := mark_col (clamp_u16 col) (cg_damage g ! row)] else cg_damage g)\<rparr>)"

definition get_cell :: "nat \<Rightarrow> nat \<Rightarrow> cell_grid \<Rightarrow> ui_cell option" where
  "get_cell row col g = map_option (\<lambda>i. cg_cells g ! i) (cell_idx row col g)"

text \<open>One half of a wide character.\<close>

definition put_half :: "nat \<Rightarrow> nat \<Rightarrow> ui_cell \<Rightarrow> cell_grid \<Rightarrow> cell_grid" where
  "put_half row col x g = (case cell_idx row col g of None \<Rightarrow> g
     | Some i \<Rightarrow> g\<lparr>cg_cells := (cg_cells g)[i := x], cg_dirty := (cg_dirty g)[i := True]\<rparr>)"

definition set_wide_cell :: "nat \<Rightarrow> nat \<Rightarrow> ui_cell \<Rightarrow> cell_grid \<Rightarrow> cell_grid" where
  "set_wide_cell row col x g = (if cg_cols g \<le> col + 1 then g
     else let g1 = put_half row col (x\<lparr>c_wide := False\<rparr>) g;
              g2 = put_half row (col + 1) (x\<lparr>c_ch := 0, c_wide := True\<rparr>) g1
       in if row < length (cg_damage g2)
          then g2\<lparr>cg_damage := (cg_damage g2)[row := mark_damage (clamp_u16 col) (clamp_u16 (col + 1)) (cg_damage g2 ! row)]\<rparr>
          else g2)"

text \<open>Fresh ids for the rows from \<open>r\<close> up to \<open>n\<close>.\<close>

definition fresh_id :: "nat \<Rightarrow> cell_grid \<Rightarrow> cell_grid" where
  "fresh_id row g = (let (i, g1) = allocate_line_id g in g1\<lparr>cg_ids := (cg_ids g1)[row := i]\<rparr>)"

definition cg_clear :: "cell_grid \<Rightarrow> cell_grid" where
  "cg_clear g = fold fresh_id [0..<cg_rows g]
     (g\<lparr>cg_cells := map (\<lambda>_. ui_cell_default) (cg_cells g), cg_dirty := map (\<lambda>_. True) (cg_dirty g),
        cg_damage := mark_all_lines (cg_cols g) (cg_damage g)\<rparr>)"

definition cg_scroll_up :: "nat \<Rightarrow> cell_grid \<Rightarrow> cell_grid" where
  "cg_scroll_up n0 g = (if n0 = 0 then g
     else let n = min n0 (cg_rows g); shift = n * cg_cols g; total = cg_rows g * cg_cols g; kept = cg_rows g - n;
              cells1 = copy_within 0 shift (total - shift) (cg_cells g);
              g1 = g\<lparr>cg_cells := fill_range (total - shift) (length cells1) ui_cell_default cells1,
                     cg_dirty := map (\<lambda>_. True) (cg_dirty g),
                     cg_ids := (if 0 < kept then copy_within 0 n (cg_rows g - n) (cg_ids g) else cg_ids g),
                     cg_damage := (if 0 < kept then copy_within 0 n (cg_rows g - n) (cg_damage g) else cg_damage g)\<rparr>
       in fold (\<lambda>row g. let g2 = fresh_id row g in
            if row < length (cg_damage g2)
            then g2\<lparr>cg_damage := (cg_damage g2)[row := mark_damage 0 (last_col_u16 (cg_cols g)) (cg_damage g2 ! row)]\<rparr> else g2)
          [kept..<cg_rows g] g1)"

text \<open>\<open>dst[a..a + n].copy_from_slice(src)\<close> is \<open>copy_slice\<close>.\<close>

definition cg_resize :: "nat \<Rightarrow> nat \<Rightarrow> cell_grid \<Rightarrow> cell_grid" where
  "cg_resize new_rows new_cols g = (if new_rows = cg_rows g \<and> new_cols = cg_cols g then g
     else let copy_rows = min (cg_rows g) new_rows; copy_cols = min (cg_cols g) new_cols;
              cells1 = fold (\<lambda>r. copy_slice (r * new_cols) (take copy_cols (drop (r * cg_cols g) (cg_cells g))))
                [0..<copy_rows] (replicate (new_rows * new_cols) ui_cell_default);
              fresh = new_rows - copy_rows
       in g\<lparr>cg_rows := new_rows, cg_cols := new_cols, cg_cells := cells1, cg_dirty := replicate (new_rows * new_cols) True,
            cg_damage := mark_all_lines new_cols (replicate new_rows ld_default),
            cg_ids := take copy_rows (cg_ids g) @ map (\<lambda>k. cg_next_id g + of_nat k) [0..<fresh],
            cg_next_id := cg_next_id g + of_nat fresh\<rparr>)"

definition set_render_offset_y :: "rat \<Rightarrow> cell_grid \<Rightarrow> cell_grid" where
  "set_render_offset_y y g = g\<lparr>cg_offset_y := y\<rparr>"

definition set_overscan_rows :: "u8 \<Rightarrow> cell_grid \<Rightarrow> cell_grid" where
  "set_overscan_rows n g = g\<lparr>cg_overscan := n\<rparr>"

definition cg_set_cursor_visible :: "bool \<Rightarrow> cell_grid \<Rightarrow> cell_grid" where
  "cg_set_cursor_visible visible g = g\<lparr>cg_cursor_visible := visible\<rparr>"

definition set_measured_cell_size :: "rat \<Rightarrow> rat \<Rightarrow> cell_grid \<Rightarrow> cell_grid" where
  "set_measured_cell_size w h g = g\<lparr>cg_cell_w := w, cg_cell_h := h\<rparr>"

definition debug_row_string :: "nat \<Rightarrow> nat \<Rightarrow> nat \<Rightarrow> cell_grid \<Rightarrow> rstr" where
  "debug_row_string row start_col len g = (if cg_rows g \<le> row then []
     else map (\<lambda>col. let ch = (case get_cell row col g of Some x \<Rightarrow> c_ch x | None \<Rightarrow> 0) in if ch = 0 then 32 else ch)
       [start_col..<min (min (start_col + len) (2 ^ 64 - 1)) (cg_cols g)])"

definition debug_rows :: "nat \<Rightarrow> nat \<Rightarrow> cell_grid \<Rightarrow> rstr list" where
  "debug_rows rows cols g = map (\<lambda>row. debug_row_string row 0 cols g) [0..<min rows (cg_rows g)]"

section \<open>Runs of equal style\<close>

text \<open>\<open>StyleRun\<close> and \<open>BgRun\<close>: an interval of columns, open at the end, and what its cells share.\<close>

record 'k cell_run =
  run_start :: nat
  run_end :: nat
  run_key :: 'k

record style_key =
  sk_fg :: color
  sk_bg :: color
  sk_attrs :: cell_attrs

definition inverse_fg_from_bg :: "color \<Rightarrow> color" where
  "inverse_fg_from_bg bg = (if col_a bg = 0 then BLACK else bg)"

definition is_inverse :: "ui_cell \<Rightarrow> bool" where
  "is_inverse x \<longleftrightarrow> c_attrs x AND INVERSE = INVERSE"

definition style_of :: "ui_cell \<Rightarrow> style_key" where
  "style_of x = (if is_inverse x then \<lparr>sk_fg = inverse_fg_from_bg (c_bg x), sk_bg = c_fg x, sk_attrs = c_attrs x\<rparr>
     else \<lparr>sk_fg = c_fg x, sk_bg = c_bg x, sk_attrs = c_attrs x\<rparr>)"

definition bg_of :: "ui_cell \<Rightarrow> color" where
  "bg_of x = (if is_inverse x then c_fg x else c_bg x)"

definition run_cols :: "'k cell_run \<Rightarrow> nat" where
  "run_cols r = run_end r - run_start r"

definition run_step :: "(nat \<Rightarrow> 'k) \<Rightarrow> nat \<Rightarrow> 'k cell_run list \<times> 'k cell_run option \<Rightarrow> 'k cell_run list \<times> 'k cell_run option" where
  "run_step key col = (\<lambda>(runs, cur). case cur of
       Some run \<Rightarrow> if run_key run = key col then (runs, Some (run\<lparr>run_end := col + 1\<rparr>))
         else (runs @ [run], Some \<lparr>run_start = col, run_end = col + 1, run_key = key col\<rparr>)
     | None \<Rightarrow> (runs, Some \<lparr>run_start = col, run_end = col + 1, run_key = key col\<rparr>))"

definition runs_of :: "(nat \<Rightarrow> 'k) \<Rightarrow> nat \<Rightarrow> nat \<Rightarrow> 'k cell_run list" where
  "runs_of key start stop = (case fold (run_step key) [start..<stop] ([], None) of (runs, cur) \<Rightarrow>
     (case cur of Some run \<Rightarrow> runs @ [run] | None \<Rightarrow> runs))"

definition compute_bg_runs_in_range :: "nat \<Rightarrow> nat \<Rightarrow> nat \<Rightarrow> cell_grid \<Rightarrow> color cell_run list" where
  "compute_bg_runs_in_range row start_col end_col0 g = (if cg_rows g \<le> row then []
     else let end_col = min end_col0 (cg_cols g) in
       if end_col \<le> start_col then [] else runs_of (\<lambda>col. bg_of (cg_cells g ! (row * cg_cols g + col))) start_col end_col)"

definition compute_style_runs_in_range :: "nat \<Rightarrow> nat \<Rightarrow> nat \<Rightarrow> cell_grid \<Rightarrow> style_key cell_run list" where
  "compute_style_runs_in_range row start_col end_col0 g = (if cg_rows g \<le> row then []
     else let end_col = min end_col0 (cg_cols g) in
       if end_col \<le> start_col then [] else runs_of (\<lambda>col. style_of (cg_cells g ! (row * cg_cols g + col))) start_col end_col)"

definition compute_bg_runs :: "nat \<Rightarrow> cell_grid \<Rightarrow> color cell_run list" where
  "compute_bg_runs row g = compute_bg_runs_in_range row 0 (cg_cols g) g"

definition compute_style_runs :: "nat \<Rightarrow> cell_grid \<Rightarrow> style_key cell_run list" where
  "compute_style_runs row g = compute_style_runs_in_range row 0 (cg_cols g) g"

section \<open>Values shared between threads\<close>

text \<open>The two halves of a pending resize are stored and taken one after the other.\<close>

record shared_cells =
  sh_cols :: u32
  sh_rows :: u32
  sh_focused :: u32
  sh_metrics :: "rat \<times> rat"

definition set_window_focused :: "bool \<Rightarrow> shared_cells \<Rightarrow> shared_cells" where
  "set_window_focused focused s = s\<lparr>sh_focused := if focused then 1 else 0\<rparr>"

definition is_window_focused :: "shared_cells \<Rightarrow> bool" where
  "is_window_focused s \<longleftrightarrow> sh_focused s = 1"

definition publish_cell_metrics :: "rat \<Rightarrow> rat \<Rightarrow> shared_cells \<Rightarrow> shared_cells" where
  "publish_cell_metrics w h s = s\<lparr>sh_metrics := (w, h)\<rparr>"

datatype shared_access = StoreCols u16 | StoreRows u16 | SwapCols | SwapRows

definition shared_step :: "shared_access \<Rightarrow> shared_cells \<Rightarrow> u32 \<times> shared_cells" where
  "shared_step a s = (case a of StoreCols c \<Rightarrow> (0, s\<lparr>sh_cols := ucast c\<rparr>) | StoreRows r \<Rightarrow> (0, s\<lparr>sh_rows := ucast r\<rparr>)
     | SwapCols \<Rightarrow> (sh_cols s, s\<lparr>sh_cols := 0\<rparr>) | SwapRows \<Rightarrow> (sh_rows s, s\<lparr>sh_rows := 0\<rparr>))"

definition publish_pending_resize :: "u16 \<Rightarrow> u16 \<Rightarrow> shared_access list" where
  "publish_pending_resize cols rows = [StoreCols cols, StoreRows rows]"

definition resize_taken :: "u32 \<Rightarrow> u32 \<Rightarrow> (u16 \<times> u16) option" where
  "resize_taken cols rows = (if 0 < cols \<and> 0 < rows then Some (ucast cols, ucast rows) else None)"

definition take_pending_resize :: "shared_cells \<Rightarrow> (u16 \<times> u16) option \<times> shared_cells" where
  "take_pending_resize s = (let (cols, s1) = shared_step SwapCols s; (rows, s2) = shared_step SwapRows s1 in (resize_taken cols rows, s2))"

text \<open>Milliseconds since a fixed point; the duration is cut to 64 bits.\<close>

definition cursor_blink_phase_at :: "nat \<Rightarrow> nat \<Rightarrow> bool" where
  "cursor_blink_phase_at epoch now \<longleftrightarrow> (now - epoch) mod 2 ^ 64 div 530 mod 2 = 0"

end
