(* ===== verification/Line_Cache.thy ===== *)
theory Line_Cache
  imports Cell_Grid Arena "HOL-Library.AList"
begin

text \<open>
  How a character grid is painted (unshit-renderer): the cache of painted lines of line_quad_cache.rs
  and the row loop \<open>emit_grid_cells\<close> of batch.rs, with its three ways to paint a row: replay a cached
  line, splice the damaged columns into one, or paint it afresh. The hash map is an association list.
  Rectangles are described in columns (backgrounds, lines, vector shapes), not in floating-point coordinates: a line
  is what it shows, with the geometry and the row it was painted for, and moving its instances is changing that
  place. The font library and the hasher of rows are arguments (\<open>painter\<close>); the font is taken not to fail.
\<close>

section \<open>Signatures\<close>

record geometry =
  ge_origin_x :: u32
  ge_origin_y :: u32
  ge_cell_w :: u32
  ge_cell_h :: u32
  ge_font_size :: u32
  ge_opacity :: u32
  ge_clip :: "u32 list"
  ge_cols :: u32
  ge_atlas :: "64 word"

definition retarget_compatible :: "geometry \<Rightarrow> geometry \<Rightarrow> bool" where
  "retarget_compatible old new0 \<longleftrightarrow> ge_cell_w old = ge_cell_w new0 \<and> ge_cell_h old = ge_cell_h new0 \<and>
     ge_font_size old = ge_font_size new0 \<and> ge_opacity old = ge_opacity new0 \<and> ge_atlas old = ge_atlas new0"

definition row_slice :: "ui_cell list \<Rightarrow> nat \<Rightarrow> nat \<Rightarrow> ui_cell list" where
  "row_slice cells row cols = take cols (drop (row * cols) cells)"

definition trailing_cell_is_visually_empty :: "ui_cell \<Rightarrow> bool" where
  "trailing_cell_is_visually_empty x \<longleftrightarrow> ui_cell_is_empty x \<and> col_a (c_bg x) = 0 \<and> c_attrs x = 0 \<and> \<not> c_wide x"

definition visible_cells :: "ui_cell list \<Rightarrow> ui_cell list" where
  "visible_cells cs = rev (dropWhile trailing_cell_is_visually_empty (rev cs))"

text \<open>The hasher gets the version number, the width where it is written, and the cells.\<close>

type_synonym hasher = "u8 \<Rightarrow> nat option \<Rightarrow> ui_cell list \<Rightarrow> 64 word"

definition hash_row_cells :: "hasher \<Rightarrow> ui_cell list \<Rightarrow> nat \<Rightarrow> nat \<Rightarrow> 64 word" where
  "hash_row_cells hash cells row cols = hash 1 (Some cols) (row_slice cells row cols)"

definition hash_row_visible_cells :: "hasher \<Rightarrow> ui_cell list \<Rightarrow> nat \<Rightarrow> nat \<Rightarrow> 64 word" where
  "hash_row_visible_cells hash cells row cols = hash 2 None (visible_cells (row_slice cells row cols))"

definition hash_all_rows :: "hasher \<Rightarrow> cell_grid \<Rightarrow> 64 word list" where
  "hash_all_rows hash g = map (\<lambda>row. hash_row_cells hash (cg_cells g) row (cg_cols g)) [0..<cg_rows g]"

definition row_has_dirty_cells :: "cell_grid \<Rightarrow> nat \<Rightarrow> bool" where
  "row_has_dirty_cells g row \<longleftrightarrow> (\<exists>d \<in> set (take (cg_cols g) (drop (row * cg_cols g) (cg_dirty g))). d)"

definition is_blink :: "ui_cell \<Rightarrow> bool" where
  "is_blink x \<longleftrightarrow> c_attrs x AND BLINK = BLINK"

definition terminal_row_content_sig :: "hasher \<Rightarrow> ui_cell list \<Rightarrow> nat \<Rightarrow> nat \<Rightarrow> bool \<Rightarrow> 64 word" where
  "terminal_row_content_sig hash cells row cols blink_on = (let sig = hash_row_visible_cells hash cells row cols in
     if (\<exists>x \<in> set (row_slice cells row cols). is_blink x) \<and> \<not> blink_on then sig XOR 0x9e3779b97f4a7c15 else sig)"

section \<open>Colours and vector shapes of a cell\<close>

text \<open>The linear colour a cell is written in: its source colour, and whether it is dimmed.\<close>

type_synonym ink = "color \<times> bool"

definition terminal_fg_color :: "ui_cell \<Rightarrow> ink" where
  "terminal_fg_color x = ((if is_inverse x then if col_a (c_bg x) = 0 then BLACK else c_bg x else c_fg x), c_attrs x AND DIM = DIM)"

definition PARITY_CALIBRATED_FG :: color where "PARITY_CALIBRATED_FG = rgba 196 196 196 255"
definition PARITY_LITERAL_FG :: color where "PARITY_LITERAL_FG = rgba 204 204 204 255"

definition terminal_inverse_bg_color :: "bool \<Rightarrow> color \<Rightarrow> color" where
  "terminal_inverse_bg_color parity fg = (if parity \<and> fg = PARITY_CALIBRATED_FG then PARITY_LITERAL_FG else fg)"

definition terminal_effective_bg :: "bool \<Rightarrow> ui_cell \<Rightarrow> color" where
  "terminal_effective_bg parity x = (if is_inverse x then terminal_inverse_bg_color parity (c_fg x) else c_bg x)"

definition terminal_block_rect :: "rchar \<Rightarrow> bool" where
  "terminal_block_rect ch \<longleftrightarrow> ch \<in> {0x2588, 0x2580, 0x2584, 0x258c, 0x2590} \<or>
     0x2581 \<le> ch \<and> ch \<le> 0x2587 \<or> 0x2589 \<le> ch \<and> ch \<le> 0x258f"

definition terminal_block_or_shade_char :: "rchar \<Rightarrow> bool" where
  "terminal_block_or_shade_char ch \<longleftrightarrow> 0x2580 \<le> ch \<and> ch \<le> 0x259f"

definition trailing_edge_clamp :: "bool \<Rightarrow> rchar \<Rightarrow> rchar option \<Rightarrow> bool" where
  "trailing_edge_clamp parity ch next_ch \<longleftrightarrow> parity \<and>
     (ch = 0x2588 \<and> \<not> (case next_ch of Some c \<Rightarrow> terminal_block_or_shade_char c | None \<Rightarrow> False) \<or> ch = 0x2501 \<and> next_ch \<noteq> Some 0x2501)"

definition terminal_shade_threshold :: "rchar \<Rightarrow> nat option" where
  "terminal_shade_threshold ch = map_of [(0x2591, 4), (0x2592, 8), (0x2593, 12)] ch"

datatype square_mark = NoSquareMark | SquareCheck | SquareCross

text \<open>A square is filled or hollow, has a side in hundredths of the width, and may have a mark inside.\<close>

definition terminal_geometric_square :: "rchar \<Rightarrow> (bool \<times> nat \<times> square_mark) option" where
  "terminal_geometric_square ch = map_of
    [(0x2610, (False, 82, NoSquareMark)), (0x2611, (False, 82, SquareCheck)), (0x2612, (False, 82, SquareCross)),
     (0x25A0, (True, 72, NoSquareMark)), (0x25A1, (False, 72, NoSquareMark)), (0x25A2, (False, 72, NoSquareMark)),
     (0x25AA, (True, 42, NoSquareMark)), (0x25AB, (False, 42, NoSquareMark)), (0x25FB, (False, 60, NoSquareMark)),
     (0x25FC, (True, 60, NoSquareMark)), (0x25FD, (False, 48, NoSquareMark)), (0x25FE, (True, 48, NoSquareMark)),
     (0x2B1B, (True, 86, NoSquareMark)), (0x2B1C, (False, 86, NoSquareMark))] ch"

definition is_braille :: "rchar \<Rightarrow> bool" where
  "is_braille ch \<longleftrightarrow> 0x2800 \<le> ch \<and> ch \<le> 0x28FF"

text \<open>The raised dots of a Braille pattern as rows and columns.\<close>

definition DOT_BITS :: "nat list list" where
  "DOT_BITS = [[0, 3], [1, 4], [2, 5], [6, 7]]"

definition braille_dots :: "rchar \<Rightarrow> (nat \<times> nat) list" where
  "braille_dots ch = (let bits = of_nat (ch - 0x2800) :: u8 in
     [(r, c). r \<leftarrow> [0..<4], c \<leftarrow> [0..<2], bits AND push_bit (DOT_BITS ! r ! c) 1 \<noteq> 0])"

definition RED_MARK :: color where "RED_MARK = rgb 233 69 61"
definition ORANGE_MARK :: color where "ORANGE_MARK = rgb 245 154 56"
definition YELLOW_MARK :: color where "YELLOW_MARK = rgb 245 199 71"
definition GREEN_MARK :: color where "GREEN_MARK = rgb 92 184 92"
definition BLUE_MARK :: color where "BLUE_MARK = rgb 79 143 231"
definition PURPLE_MARK :: color where "PURPLE_MARK = rgb 162 118 209"
definition BROWN_MARK :: color where "BROWN_MARK = rgb 156 110 74"
definition WHITE_MARK :: color where "WHITE_MARK = rgb 245 245 245"
definition BLACK_MARK :: color where "BLACK_MARK = rgb 38 38 40"

datatype emoji_marker = MarkSquare color | MarkDisc color | MarkCross color | MarkCheckBox color color | MarkWarning color color

definition terminal_emoji_marker :: "rchar \<Rightarrow> emoji_marker option" where
  "terminal_emoji_marker ch = map_of
    [(0x1F7E5, MarkSquare RED_MARK), (0x1F7E7, MarkSquare ORANGE_MARK), (0x1F7E8, MarkSquare YELLOW_MARK),
     (0x1F7E9, MarkSquare GREEN_MARK), (0x1F7E6, MarkSquare BLUE_MARK), (0x1F7EA, MarkSquare PURPLE_MARK), (0x1F7EB, MarkSquare BROWN_MARK),
     (0x1F534, MarkDisc RED_MARK), (0x1F7E0, MarkDisc ORANGE_MARK), (0x1F7E1, MarkDisc YELLOW_MARK), (0x1F7E2, MarkDisc GREEN_MARK),
     (0x1F535, MarkDisc BLUE_MARK), (0x1F7E3, MarkDisc PURPLE_MARK), (0x1F7E4, MarkDisc BROWN_MARK), (0x26AA, MarkDisc WHITE_MARK),
     (0x274C, MarkCross RED_MARK), (0x2705, MarkCheckBox GREEN_MARK WHITE_MARK), (0x26A0, MarkWarning YELLOW_MARK BLACK_MARK)] ch"

text \<open>The strokes of a box-drawing character: left, right, up, down, heavy.\<close>

definition box_connections :: "rchar \<Rightarrow> (bool \<times> bool \<times> bool \<times> bool \<times> bool) option" where
  "box_connections ch = map_of
    [(0x2500, (True, True, False, False, False)), (0x2502, (False, False, True, True, False)), (0x250c, (False, True, False, True, False)),
     (0x2510, (True, False, False, True, False)), (0x2514, (False, True, True, False, False)), (0x2518, (True, False, True, False, False)),
     (0x251c, (False, True, True, True, False)), (0x2524, (True, False, True, True, False)), (0x252c, (True, True, False, True, False)),
     (0x2534, (True, True, True, False, False)), (0x253c, (True, True, True, True, False)), (0x2501, (True, True, False, False, True)),
     (0x2503, (False, False, True, True, True)), (0x250f, (False, True, False, True, True)), (0x2513, (True, False, False, True, True)),
     (0x2517, (False, True, True, False, True)), (0x251b, (True, False, True, False, True)), (0x2523, (False, True, True, True, True)),
     (0x252b, (True, False, True, True, True)), (0x2533, (True, True, False, True, True)), (0x253b, (True, True, True, False, True)),
     (0x254b, (True, True, True, True, True))] ch"

text \<open>The double box-drawing characters: left, right, up, down, double lines across and along.\<close>

definition double_box_connections :: "rchar \<Rightarrow> (bool \<times> bool \<times> bool \<times> bool \<times> bool \<times> bool) option" where
  "double_box_connections ch = map_of
    [(0x2550, (True, True, False, False, True, False)), (0x2551, (False, False, True, True, False, True)),
     (0x2554, (False, True, False, True, True, True)), (0x2557, (True, False, False, True, True, True)),
     (0x255a, (False, True, True, False, True, True)), (0x255d, (True, False, True, False, True, True)),
     (0x255f, (False, True, True, True, False, True)), (0x2562, (True, False, True, True, False, True))] ch"

section \<open>Painting a row\<close>

text \<open>
  What is drawn by rectangles, in terms of columns: a background with its ends and whether they are
  moved to a whole pixel, lines under and through the text, and the vector shape of a character. A shape is
  drawn in the colour of the text, and ends one pixel early where its clamp is set.
\<close>

datatype vector_shape = BlockRect rchar bool | ShadeBlock nat | GeometricSquare bool nat square_mark | BrailleDots "(nat \<times> nat) list" |
  EmojiShape emoji_marker | BoxLines "bool \<times> bool \<times> bool \<times> bool \<times> bool" bool | DoubleBoxLines "bool \<times> bool \<times> bool \<times> bool \<times> bool \<times> bool"

datatype paint_mark = Background nat nat color bool bool | Underlined nat ink | StruckThrough nat ink | Vector nat vector_shape ink

definition terminal_bg_runs_in_range :: "bool \<Rightarrow> nat \<Rightarrow> nat \<Rightarrow> ui_cell list \<Rightarrow> color cell_run list" where
  "terminal_bg_runs_in_range parity start_col end_col0 cs = (let end_col = min end_col0 (length cs) in
     if end_col \<le> start_col then [] else runs_of (\<lambda>col. terminal_effective_bg parity (cs ! col)) start_col end_col)"

text \<open>Whether an end of a run is moved to a whole pixel: it touches an opaque cell.\<close>

definition terminal_bg_run_edges :: "bool \<Rightarrow> nat \<Rightarrow> nat \<Rightarrow> ui_cell list \<Rightarrow> color cell_run \<Rightarrow> bool \<times> bool" where
  "terminal_bg_run_edges parity start_col end_col cs run =
     (start_col < run_start run \<and> col_a (terminal_effective_bg parity (cs ! (run_start run - 1))) \<noteq> 0,
      run_end run < end_col \<and> col_a (terminal_effective_bg parity (cs ! run_end run)) \<noteq> 0)"

definition emit_grid_row_backgrounds :: "bool \<Rightarrow> nat \<Rightarrow> nat \<Rightarrow> ui_cell list \<Rightarrow> paint_mark list" where
  "emit_grid_row_backgrounds parity start_col end_col cs =
     map (\<lambda>run. case terminal_bg_run_edges parity start_col end_col cs run of (left, right) \<Rightarrow>
         Background (run_start run) (run_end run) (run_key run) left right)
       (filter (\<lambda>run. col_a (run_key run) \<noteq> 0) (terminal_bg_runs_in_range parity start_col end_col cs))"

definition terminal_cell_foreground_visible :: "bool \<Rightarrow> ui_cell \<Rightarrow> bool" where
  "terminal_cell_foreground_visible blink_on x \<longleftrightarrow> blink_on \<or> \<not> is_blink x"

definition emit_terminal_text_decorations :: "nat \<Rightarrow> ui_cell \<Rightarrow> paint_mark list" where
  "emit_terminal_text_decorations col x =
     (if c_attrs x AND UNDERLINE = UNDERLINE then [Underlined col (terminal_fg_color x)] else []) @
     (if c_attrs x AND STRIKETHROUGH = STRIKETHROUGH then [StruckThrough col (terminal_fg_color x)] else [])"

definition vector_of :: "bool \<Rightarrow> rchar \<Rightarrow> bool \<Rightarrow> vector_shape option" where
  "vector_of parity ch clamp =
     (if terminal_block_rect ch then Some (BlockRect ch clamp)
      else case if parity then terminal_shade_threshold ch else None of Some t \<Rightarrow> Some (ShadeBlock t) | None \<Rightarrow>
      case terminal_geometric_square ch of Some (filled, side, m) \<Rightarrow> Some (GeometricSquare filled side m) | None \<Rightarrow>
      if is_braille ch then Some (BrailleDots (braille_dots ch))
      else case terminal_emoji_marker ch of Some m \<Rightarrow> Some (EmojiShape m) | None \<Rightarrow>
      case box_connections ch of Some b \<Rightarrow> Some (BoxLines b clamp) | None \<Rightarrow>
      if parity then map_option DoubleBoxLines (double_box_connections ch) else None)"

text \<open>The marks of a cell, and whether nothing else is drawn for it.\<close>

definition emit_terminal_cell_primitive :: "bool \<Rightarrow> bool \<Rightarrow> nat \<Rightarrow> rchar option \<Rightarrow> ui_cell \<Rightarrow> paint_mark list \<times> bool" where
  "emit_terminal_cell_primitive parity blink_on col next_ch x =
     (if c_ch x = 0 \<or> c_wide x then ([], False)
      else if \<not> terminal_cell_foreground_visible blink_on x then ([], True)
      else let deco = emit_terminal_text_decorations col x in
        if c_ch x = 32 then (deco, deco \<noteq> [])
        else case vector_of parity (c_ch x) (trailing_edge_clamp parity (c_ch x) next_ch) of
          Some v \<Rightarrow> (deco @ [Vector col v (terminal_fg_color x)], True) | None \<Rightarrow> (deco, False))"

definition terminal_row_next_ch :: "ui_cell list \<Rightarrow> nat \<Rightarrow> rchar option" where
  "terminal_row_next_ch cs col = (if col + 1 < length cs then Some (c_ch (cs ! (col + 1))) else None)"

definition row_marks :: "bool \<Rightarrow> bool \<Rightarrow> ui_cell list \<Rightarrow> paint_mark list" where
  "row_marks parity blink_on cs = emit_grid_row_backgrounds parity 0 (length cs) cs @
     concat (map (\<lambda>col. fst (emit_terminal_cell_primitive parity blink_on col (terminal_row_next_ch cs col) (cs ! col))) [0..<length cs])"

text \<open>
  The font: the picture of a character for the fields of the geometry that the code calls its metrics,
  upright or slanted. White space may have none.
\<close>

record 'p painter =
  pa_hash :: hasher
  pa_parity :: bool
  pa_font :: "u32 list \<Rightarrow> 64 word \<Rightarrow> rchar \<Rightarrow> 64 word \<Rightarrow> 'p option"

definition terminal_shape_style :: "cell_attrs \<Rightarrow> 64 word" where
  "terminal_shape_style attrs = (if attrs AND ITALIC = ITALIC then 1 else 0)"

definition emit_grid_cell_glyph :: "'p painter \<Rightarrow> geometry \<Rightarrow> ui_cell \<Rightarrow> ('p \<times> ink) option" where
  "emit_grid_cell_glyph P geom x = (if ui_cell_is_empty x \<or> c_wide x then None
     else map_option (\<lambda>p. (p, terminal_fg_color x))
       (pa_font P [ge_cell_w geom, ge_cell_h geom, ge_font_size geom, ge_opacity geom] (ge_atlas geom) (c_ch x) (terminal_shape_style (c_attrs x))))"

definition is_primitive :: "bool \<Rightarrow> bool \<Rightarrow> ui_cell list \<Rightarrow> nat \<Rightarrow> bool" where
  "is_primitive parity blink_on cs col = snd (emit_terminal_cell_primitive parity blink_on col (terminal_row_next_ch cs col) (cs ! col))"

definition fresh_glyph :: "'p painter \<Rightarrow> geometry \<Rightarrow> bool \<Rightarrow> ui_cell list \<Rightarrow> nat \<Rightarrow> ('p \<times> ink) option" where
  "fresh_glyph P geom blink_on cs col =
     (if is_primitive (pa_parity P) blink_on cs col then None
      else if \<not> terminal_cell_foreground_visible blink_on (cs ! col) then None else emit_grid_cell_glyph P geom (cs ! col))"

definition emit_grid_row_fresh :: "'p painter \<Rightarrow> geometry \<Rightarrow> bool \<Rightarrow> ui_cell list \<Rightarrow> paint_mark list \<times> ('p \<times> ink) option list" where
  "emit_grid_row_fresh P geom blink_on cs =
     (row_marks (pa_parity P) blink_on cs, map (fresh_glyph P geom blink_on cs) [0..<length cs])"

definition spliced_glyph :: "'p painter \<Rightarrow> geometry \<Rightarrow> bool \<Rightarrow> nat \<Rightarrow> nat \<Rightarrow> ('p \<times> ink) option list \<Rightarrow> ui_cell list \<Rightarrow> nat \<Rightarrow> ('p \<times> ink) option" where
  "spliced_glyph P geom blink_on start stop cached cs col =
     (if is_primitive (pa_parity P) blink_on cs col then None
      else if \<not> terminal_cell_foreground_visible blink_on (cs ! col) then None
      else if start \<le> col \<and> col < stop then emit_grid_cell_glyph P geom (cs ! col)
      else if col < length cached then cached ! col else None)"

definition emit_grid_row_splice :: "'p painter \<Rightarrow> geometry \<Rightarrow> bool \<Rightarrow> nat \<Rightarrow> nat \<Rightarrow> ('p \<times> ink) option list \<Rightarrow> ui_cell list \<Rightarrow>
    paint_mark list \<times> ('p \<times> ink) option list" where
  "emit_grid_row_splice P geom blink_on start stop cached cs =
     (row_marks (pa_parity P) blink_on cs, map (spliced_glyph P geom blink_on start stop cached cs) [0..<length cs])"

section \<open>The cache\<close>

record 'p cached_line =
  cl_sig :: "64 word"
  cl_geometry :: "geometry option"
  cl_quads :: "paint_mark list"
  cl_glyphs :: "('p \<times> ink) option list"
  cl_row :: nat

type_synonym 'p line_cache = "((node_id \<times> 64 word) \<times> 'p cached_line) list"

definition cache_new :: "'p line_cache" where
  "cache_new = []"

definition cache_clear :: "'p line_cache \<Rightarrow> 'p line_cache" where
  "cache_clear c = []"

definition cache_len :: "'p line_cache \<Rightarrow> nat" where
  "cache_len c = length c"

definition cache_get :: "node_id \<Rightarrow> 64 word \<Rightarrow> 'p line_cache \<Rightarrow> 'p cached_line option" where
  "cache_get node i c = map_of c (node, i)"

definition lookup_replayable :: "node_id \<Rightarrow> 64 word \<Rightarrow> 64 word \<Rightarrow> geometry \<Rightarrow> 'p line_cache \<Rightarrow> 'p cached_line option" where
  "lookup_replayable node i sig geom c = (case cache_get node i c of None \<Rightarrow> None
     | Some e \<Rightarrow> if cl_sig e = sig \<and> cl_geometry e = Some geom then Some e else None)"

definition cache_store :: "node_id \<Rightarrow> 64 word \<Rightarrow> 'p cached_line \<Rightarrow> 'p line_cache \<Rightarrow> 'p line_cache" where
  "cache_store node i e c = AList.update (node, i) e c"

definition lookup_and_retarget :: "node_id \<Rightarrow> 64 word \<Rightarrow> 64 word \<Rightarrow> geometry \<Rightarrow> nat \<Rightarrow> 'p line_cache \<Rightarrow>
    'p cached_line option \<times> 'p line_cache" where
  "lookup_and_retarget node i sig geom current_row c = (case cache_get node i c of None \<Rightarrow> (None, c)
     | Some e \<Rightarrow>
         if cl_sig e \<noteq> sig then (None, c)
         else case cl_geometry e of None \<Rightarrow> (None, c)
           | Some old \<Rightarrow>
               if old \<noteq> geom \<and> \<not> retarget_compatible old geom then (None, c)
               else let e' = e\<lparr>cl_geometry := Some geom, cl_row := current_row\<rparr>
                 in (Some e', cache_store node i e' c))"

definition retain_element_ids :: "node_id \<Rightarrow> 64 word set \<Rightarrow> 'p line_cache \<Rightarrow> 'p line_cache" where
  "retain_element_ids node ids c = filter (\<lambda>((n, i), _). n \<noteq> node \<or> i \<in> ids) c"

definition element_line_count :: "node_id \<Rightarrow> 'p line_cache \<Rightarrow> nat" where
  "element_line_count node c = length (filter (\<lambda>((n, _), _). n = node) c)"

definition forget_element :: "node_id \<Rightarrow> 'p line_cache \<Rightarrow> 'p line_cache" where
  "forget_element node c = filter (\<lambda>((n, _), _). n \<noteq> node) c"

section \<open>Painting the grid\<close>

text \<open>The damaged columns of a row; \<open>None\<close> for a clean one.\<close>

definition damage_range :: "nat \<Rightarrow> cell_grid \<Rightarrow> (nat \<times> nat) option" where
  "damage_range row g = (case line_damage_for row g of None \<Rightarrow> None
     | Some ld \<Rightarrow> if ld_is_clean ld then None
         else let start = min (unat (ld_first ld)) (cg_cols g); stop = min (unat (ld_last ld) + 1) (cg_cols g)
           in if start < stop then Some (start, stop) else None)"

definition splice_inputs :: "node_id \<Rightarrow> 64 word \<Rightarrow> geometry \<Rightarrow> nat \<Rightarrow> cell_grid \<Rightarrow> 'p line_cache \<Rightarrow> (nat \<times> nat \<times> ('p \<times> ink) option list) option" where
  "splice_inputs node i geom row g c = (case damage_range row g of None \<Rightarrow> None
     | Some (start, stop) \<Rightarrow> (case cache_get node i c of None \<Rightarrow> None
         | Some e \<Rightarrow> if cl_geometry e \<noteq> Some geom \<or> length (cl_glyphs e) \<noteq> cg_cols g then None
             else Some (start, stop, cl_glyphs e)))"

text \<open>What is on the screen for a row: where, the rectangles and the glyphs.\<close>

type_synonym 'p painted = "geometry option \<times> nat \<times> paint_mark list \<times> ('p \<times> ink) option list"

definition emit_row :: "'p painter \<Rightarrow> node_id \<Rightarrow> geometry \<Rightarrow> bool \<Rightarrow> cell_grid \<Rightarrow> nat \<Rightarrow>
    'p painted list \<times> 'p line_cache \<Rightarrow> 'p painted list \<times> 'p line_cache" where
  "emit_row P node geom blink_on g row = (\<lambda>(out, c).
     let i = (case line_id_at row g of Some i \<Rightarrow> i | None \<Rightarrow> 0);
         cs = row_slice (cg_cells g) row (cg_cols g);
         sig = terminal_row_content_sig (pa_hash P) (cg_cells g) row (cg_cols g) blink_on
     in case lookup_and_retarget node i sig geom row c of
          (Some hit, c1) \<Rightarrow> (out @ [(cl_geometry hit, cl_row hit, cl_quads hit, cl_glyphs hit)], c1)
        | (None, c1) \<Rightarrow>
            let (quads, glyphs) = (case splice_inputs node i geom row g c1 of
                  Some (start, stop, cached) \<Rightarrow> emit_grid_row_splice P geom blink_on start stop cached cs
                | None \<Rightarrow> emit_grid_row_fresh P geom blink_on cs)
            in (out @ [(Some geom, row, quads, glyphs)],
                cache_store node i \<lparr>cl_sig = sig, cl_geometry = Some geom, cl_quads = quads, cl_glyphs = glyphs, cl_row = row\<rparr> c1))"

definition emit_grid_cells :: "'p painter \<Rightarrow> node_id \<Rightarrow> geometry \<Rightarrow> bool \<Rightarrow> cell_grid \<Rightarrow> 'p line_cache \<Rightarrow>
    'p painted list \<times> 'p line_cache" where
  "emit_grid_cells P node geom0 blink_on g c =
     (let geom = geom0\<lparr>ge_cols := of_nat (cg_cols g)\<rparr>;
          c1 = (if cg_rows g < element_line_count node c then retain_element_ids node (set (cg_ids g)) c else c)
      in fold (emit_row P node geom blink_on g) [0..<cg_rows g] ([], c1))"

end
