(* ===== verification/Cell_Lines.thy ===== *)
theory Cell_Lines
  imports Line_Cache
begin

text \<open>
  The character grid as a list of lines: the cells of a row as a slice, block copies and updates seen on
  rows, and the columns a row's damage names.
\<close>

section \<open>Well-formed grids and their lines\<close>

definition cg_wf :: "cell_grid \<Rightarrow> bool" where
  "cg_wf g \<longleftrightarrow> length (cg_cells g) = cg_rows g * cg_cols g \<and> length (cg_dirty g) = cg_rows g * cg_cols g \<and>
     length (cg_damage g) = cg_rows g \<and> length (cg_ids g) = cg_rows g"

lemma row_end: "r < m \<Longrightarrow> r * n + n \<le> m * (n :: nat)"
  by (metis Suc_leI add.commute mult_Suc mult_le_mono1)

lemma nth_row_slice: "length xs = m * n \<Longrightarrow> r < m \<Longrightarrow> j < n \<Longrightarrow> row_slice xs r n ! j = xs ! (r * n + j)"
  using row_end [of r m n] by (simp add: row_slice_def)

lemma length_row_slice: "length xs = m * n \<Longrightarrow> r < m \<Longrightarrow> length (row_slice xs r n) = n"
  using row_end [of r m n] by (simp add: row_slice_def)

lemma row_slice_eqI:
  assumes "length xs = m * n" "r < m" "length ys = m' * n" "r' < m'"
    and "\<And>j. j < n \<Longrightarrow> xs ! (r * n + j) = ys ! (r' * n + j)"
  shows "row_slice xs r n = row_slice ys r' n"
proof (rule nth_equalityI)
  have l: "length (row_slice xs r n) = n" "length (row_slice ys r' n) = n"
    by (rule length_row_slice [OF assms(1,2)], rule length_row_slice [OF assms(3,4)])
  then show "length (row_slice xs r n) = length (row_slice ys r' n)" by simp
  fix j assume "j < length (row_slice xs r n)"
  then have "j < n" using l by simp
  then show "row_slice xs r n ! j = row_slice ys r' n ! j"
    using assms(5) nth_row_slice [OF assms(1,2)] nth_row_slice [OF assms(3,4)] by simp
qed

lemma length_copy_within [simp]: "d + n \<le> length xs \<Longrightarrow> s + n \<le> length xs \<Longrightarrow> length (copy_within d s n xs) = length xs"
  by (simp add: copy_within_def)

lemma nth_copy_within:
  assumes "d + n \<le> length xs" "s + n \<le> length xs" "k < length xs"
  shows "copy_within d s n xs ! k = (if d \<le> k \<and> k < d + n then xs ! (k - d + s) else xs ! k)"
proof -
  have l: "length (take d xs) = d" "length (take n (drop s xs)) = n" using assms by simp_all
  consider "k < d" | "d \<le> k" "k < d + n" | "d + n \<le> k" by linarith
  then show ?thesis
  proof cases
    case 1
    then show ?thesis using l by (simp add: copy_within_def nth_append)
  next
    case 2
    then have kd: "k - d < n" by linarith
    then have "copy_within d s n xs ! k = take n (drop s xs) ! (k - d)" using l 2 by (simp add: copy_within_def nth_append)
    also have "\<dots> = xs ! (k - d + s)" using kd assms by (simp add: add.commute)
    finally show ?thesis using 2 by simp
  next
    case 3
    then have "copy_within d s n xs ! k = drop (d + n) xs ! (k - d - n)" using l by (simp add: copy_within_def nth_append)
    also have "\<dots> = xs ! k" using 3 assms by simp
    finally show ?thesis using 3 by simp
  qed
qed

lemma row_in_block: "j < n \<Longrightarrow> d * n \<le> r * n + j \<longleftrightarrow> d \<le> (r :: nat)" "j < n \<Longrightarrow> r * n + j < e * n \<longleftrightarrow> r < (e :: nat)"
proof -
  assume j: "j < n"
  show "r * n + j < e * n \<longleftrightarrow> r < e"
  proof
    assume "r < e"
    from row_end [OF this, of n] j show "r * n + j < e * n" by linarith
  next
    assume "r * n + j < e * n"
    then show "r < e" by (metis le_add1 le_less_trans mult_less_cancel2)
  qed
  then show "d * n \<le> r * n + j \<longleftrightarrow> d \<le> r"
  proof -
    have "r * n + j < d * n \<longleftrightarrow> r < d"
    proof
      assume "r < d"
      from row_end [OF this, of n] j show "r * n + j < d * n" by linarith
    next
      assume "r * n + j < d * n"
      then show "r < d" by (metis le_add1 le_less_trans mult_less_cancel2)
    qed
    then show ?thesis by linarith
  qed
qed

lemma row_slice_copy_within:
  assumes len: "length xs = m * c" and b: "d + n \<le> m" "s + n \<le> m" and r: "r < m"
  shows "row_slice (copy_within (d * c) (s * c) (n * c) xs) r c =
    (if d \<le> r \<and> r < d + n then row_slice xs (r - d + s) c else row_slice xs r c)"
proof -
  have e: "(d + n) * c \<le> m * c" "(s + n) * c \<le> m * c" using b by (simp_all add: mult_le_mono1)
  then have e': "d * c + n * c \<le> length xs" "s * c + n * c \<le> length xs" using len by (simp_all add: add_mult_distrib)
  have l: "length (copy_within (d * c) (s * c) (n * c) xs) = m * c" using e' len by simp
  have n: "copy_within (d * c) (s * c) (n * c) xs ! (r * c + j) =
      (if d \<le> r \<and> r < d + n then xs ! ((r - d + s) * c + j) else xs ! (r * c + j))" if j: "j < c" for j
  proof -
    have k: "r * c + j < length xs" using row_in_block(2) [OF j, of r m] r len by simp
    have "d * c \<le> r * c + j \<longleftrightarrow> d \<le> r" "r * c + j < d * c + n * c \<longleftrightarrow> r < d + n"
      using row_in_block [OF j] by (simp_all flip: add_mult_distrib)
    moreover have "r * c + j - d * c + s * c = (r - d + s) * c + j" if "d \<le> r"
      using that by (auto simp: le_iff_add add_mult_distrib)
    ultimately show ?thesis using nth_copy_within [OF e' k] by simp
  qed
  show ?thesis
  proof (cases "d \<le> r \<and> r < d + n")
    case True
    then have "r - d + s < m" using b by linarith
    then show ?thesis using True row_slice_eqI [OF l r len] n by simp
  next
    case False
    then have "row_slice (copy_within (d * c) (s * c) (n * c) xs) r c = row_slice xs r c"
      by (intro row_slice_eqI [OF l r len r]) (simp only: n if_False)
    then show ?thesis unfolding if_not_P [OF False] .
  qed
qed

lemma row_slice_update:
  assumes "length xs = m * n" "r < m" "k < n" "r' < m"
  shows "row_slice (xs[r * n + k := x]) r' n = (if r' = r then (row_slice xs r n)[k := x] else row_slice xs r' n)"
proof -
  have ne: "r' * n + j = r * n + k \<longleftrightarrow> r' = r \<and> j = k" if "j < n" for j
    using that assms(3) by (metis add_left_cancel row_index_inj)
  show ?thesis
  proof (rule nth_equalityI)
    show "length (row_slice (xs[r * n + k := x]) r' n) = length (if r' = r then (row_slice xs r n)[k := x] else row_slice xs r' n)"
      using assms by (simp add: length_row_slice)
    fix j assume "j < length (row_slice (xs[r * n + k := x]) r' n)"
    then have j: "j < n" using assms by (simp add: length_row_slice)
    then have b: "r' * n + j < m * n" "r * n + k < m * n" using assms row_end [of r' m n] row_end [of r m n] by linarith+
    show "row_slice (xs[r * n + k := x]) r' n ! j = (if r' = r then (row_slice xs r n)[k := x] else row_slice xs r' n) ! j"
      using assms j b ne [OF j] by (auto simp: nth_row_slice [where m = m] nth_list_update length_row_slice [where m = m])
  qed
qed

section \<open>Damage\<close>

definition damaged :: "line_damage \<Rightarrow> nat \<Rightarrow> bool" where
  "damaged d k \<longleftrightarrow> \<not> ld_is_clean d \<and> unat (ld_first d) \<le> k \<and> k \<le> unat (ld_last d)"

lemma unat_clamp_u16 [simp]: "n \<le> 65535 \<Longrightarrow> unat (clamp_u16 n) = n"
  by (simp add: clamp_u16_def unat_of_nat)

lemma unat_u16_le: "unat (x :: u16) \<le> 65535"
  using unat_u16_less [of x] by linarith

lemma unat_MAX_u16 [simp]: "unat (- 1 :: u16) = 65535"
proof -
  have "(- 1 :: u16) = 65535" by (simp add: eq_neg_iff_add_eq_0)
  moreover have "unat (65535 :: u16) = 65535" by simp
  ultimately show ?thesis by (simp only:)
qed

lemma eq_MAX_u16: "x = (- 1 :: u16) \<longleftrightarrow> unat x = 65535"
  using unat_MAX_u16 by (metis word_unat_eq_iff)

lemma damaged_iff: "damaged d k \<longleftrightarrow> unat (ld_first d) \<noteq> 65535 \<and> unat (ld_first d) \<le> k \<and> k \<le> unat (ld_last d)"
  by (simp add: damaged_def ld_is_clean_def eq_MAX_u16)

lemma mark_damage_iff:
  assumes "unat a \<noteq> 65535"
  shows "damaged d k \<Longrightarrow> damaged (mark_damage a b d) k"
    and "unat a \<le> k \<Longrightarrow> k \<le> unat b \<Longrightarrow> damaged (mark_damage a b d) k"
  using assms by (auto simp: damaged_iff mark_damage_def ld_is_clean_def eq_MAX_u16 Let_def word_less_nat_alt)

lemma mark_damage_row: "cols \<le> 65535 \<Longrightarrow> k < cols \<Longrightarrow> damaged (mark_damage 0 (last_col_u16 cols) d) k"
  by (rule mark_damage_iff(2)) (simp_all add: last_col_u16_def)

lemma mark_all_row: "cols \<le> 65535 \<Longrightarrow> k < cols \<Longrightarrow> r < length ds \<Longrightarrow> damaged (mark_all_lines cols ds ! r) k"
  by (simp add: mark_all_lines_def mark_damage_row)

lemma length_mark_all [simp]: "length (mark_all_lines cols ds) = length ds"
  by (simp add: mark_all_lines_def)

end
