(* ===== verification/Cell_Grid_Inv.thy ===== *)
theory Cell_Grid_Inv
  imports Cell_Lines
begin

text \<open>
  The operations of the character grid: each keeps the grid well-formed, and a column of a row that is
  not damaged afterwards was not damaged before, in the row that had the same line identity, and has kept its cell.
\<close>

definition g_cell :: "cell_grid \<Rightarrow> nat \<Rightarrow> nat \<Rightarrow> ui_cell" where
  "g_cell g r k = cg_cells g ! (r * cg_cols g + k)"

definition all_damaged :: "cell_grid \<Rightarrow> nat \<Rightarrow> bool" where
  "all_damaged g r \<longleftrightarrow> (\<forall>k < cg_cols g. damaged (cg_damage g ! r) k)"

definition row_from :: "cell_grid \<Rightarrow> nat \<Rightarrow> cell_grid \<Rightarrow> nat \<Rightarrow> bool" where
  "row_from g r g' r' \<longleftrightarrow> r < cg_rows g \<and> cg_cols g' = cg_cols g \<and> cg_ids g' ! r' = cg_ids g ! r \<and>
     (\<forall>k < cg_cols g'. \<not> damaged (cg_damage g' ! r') k \<longrightarrow> \<not> damaged (cg_damage g ! r) k \<and> g_cell g' r' k = g_cell g r k)"

definition evolves :: "cell_grid \<Rightarrow> cell_grid \<Rightarrow> bool" where
  "evolves g g' \<longleftrightarrow> cg_wf g' \<and> (\<forall>r' < cg_rows g'. all_damaged g' r' \<or> (\<exists>r. row_from g r g' r'))"

lemma evolvesI: "cg_wf g' \<Longrightarrow> (\<And>r. r < cg_rows g' \<Longrightarrow> all_damaged g' r \<or> (\<exists>q. row_from g q g' r)) \<Longrightarrow> evolves g g'"
  by (simp add: evolves_def)

lemma evolves_refl: "cg_wf g \<Longrightarrow> evolves g g"
  by (rule evolvesI) (auto simp: row_from_def)

lemma row_sameI: "r < cg_rows g \<Longrightarrow> cg_cols g' = cg_cols g \<Longrightarrow> cg_ids g' ! r = cg_ids g ! r \<Longrightarrow>
    cg_damage g' ! r = cg_damage g ! r \<Longrightarrow> (\<And>k. k < cg_cols g \<Longrightarrow> g_cell g' r k = g_cell g r k) \<Longrightarrow> row_from g r g' r"
  by (simp add: row_from_def)

lemma row_markedI:
  assumes "r < cg_rows g" "cg_cols g' = cg_cols g" "cg_ids g' ! r = cg_ids g ! r" "unat a \<noteq> 65535"
    and d: "cg_damage g' ! r = mark_damage a b (cg_damage g ! r)"
    and c: "\<And>k. k < cg_cols g \<Longrightarrow> k < unat a \<or> unat b < k \<Longrightarrow> g_cell g' r k = g_cell g r k"
  shows "row_from g r g' r"
  unfolding row_from_def d
proof (intro conjI allI impI)
  fix k assume k: "k < cg_cols g'" "\<not> damaged (mark_damage a b (cg_damage g ! r)) k"
  then show "\<not> damaged (cg_damage g ! r) k" using mark_damage_iff(1) [OF assms(4)] by blast
  have "k < unat a \<or> unat b < k" using k(2) mark_damage_iff(2) [OF assms(4)] not_less by blast
  then show "g_cell g' r k = g_cell g r k" using c k(1) assms(2) by simp
qed (use assms in simp_all)

section \<open>New lines\<close>

definition renew_line :: "nat \<Rightarrow> cell_grid \<Rightarrow> cell_grid" where
  "renew_line row g = (let g2 = fresh_id row g in
     if row < length (cg_damage g2)
     then g2\<lparr>cg_damage := (cg_damage g2)[row := mark_damage 0 (last_col_u16 (cg_cols g)) (cg_damage g2 ! row)]\<rparr> else g2)"

lemma fresh_id_simps [simp]:
  "cg_rows (fresh_id row g) = cg_rows g" "cg_cols (fresh_id row g) = cg_cols g" "cg_cells (fresh_id row g) = cg_cells g"
  "cg_dirty (fresh_id row g) = cg_dirty g" "cg_damage (fresh_id row g) = cg_damage g"
  "length (cg_ids (fresh_id row g)) = length (cg_ids g)" "r \<noteq> row \<Longrightarrow> cg_ids (fresh_id row g) ! r = cg_ids g ! r"
  by (simp_all add: fresh_id_def allocate_line_id_def)

lemma renew_line_simps [simp]:
  "cg_rows (renew_line row g) = cg_rows g" "cg_cols (renew_line row g) = cg_cols g" "cg_cells (renew_line row g) = cg_cells g"
  "cg_dirty (renew_line row g) = cg_dirty g" "length (cg_damage (renew_line row g)) = length (cg_damage g)"
  "length (cg_ids (renew_line row g)) = length (cg_ids g)"
  "r \<noteq> row \<Longrightarrow> cg_ids (renew_line row g) ! r = cg_ids g ! r" "r \<noteq> row \<Longrightarrow> cg_damage (renew_line row g) ! r = cg_damage g ! r"
  by (simp_all add: renew_line_def Let_def)

lemma renew_line_damaged: "cg_wf g \<Longrightarrow> cg_cols g \<le> 65535 \<Longrightarrow> row < cg_rows g \<Longrightarrow> all_damaged (renew_line row g) row"
  by (simp add: all_damaged_def renew_line_def Let_def cg_wf_def mark_damage_row)

lemma cg_wf_cong: "cg_wf g \<Longrightarrow> cg_rows h = cg_rows g \<Longrightarrow> cg_cols h = cg_cols g \<Longrightarrow> length (cg_cells h) = length (cg_cells g) \<Longrightarrow>
    length (cg_dirty h) = length (cg_dirty g) \<Longrightarrow> length (cg_damage h) = length (cg_damage g) \<Longrightarrow> length (cg_ids h) = length (cg_ids g) \<Longrightarrow> cg_wf h"
  by (simp add: cg_wf_def)

lemma fold_renew_simps [simp]:
  "cg_rows (fold renew_line rs g) = cg_rows g" "cg_cols (fold renew_line rs g) = cg_cols g"
  "cg_cells (fold renew_line rs g) = cg_cells g" "cg_dirty (fold renew_line rs g) = cg_dirty g"
  "length (cg_damage (fold renew_line rs g)) = length (cg_damage g)" "length (cg_ids (fold renew_line rs g)) = length (cg_ids g)"
  "r \<notin> set rs \<Longrightarrow> cg_ids (fold renew_line rs g) ! r = cg_ids g ! r"
  "r \<notin> set rs \<Longrightarrow> cg_damage (fold renew_line rs g) ! r = cg_damage g ! r"
  by (induction rs arbitrary: g) simp_all

lemma fold_renew_damaged: "cg_wf g \<Longrightarrow> cg_cols g \<le> 65535 \<Longrightarrow> r \<in> set rs \<Longrightarrow> r < cg_rows g \<Longrightarrow> all_damaged (fold renew_line rs g) r"
proof (induction rs arbitrary: g)
  case (Cons a rs)
  have wf: "cg_wf (renew_line a g)" by (rule cg_wf_cong [OF Cons.prems(1)]) simp_all
  show ?case
  proof (cases "r \<in> set rs")
    case True
    then show ?thesis using Cons.IH [OF wf] Cons.prems by simp
  next
    case False
    then have "r = a" using Cons.prems(3) by simp
    then show ?thesis using renew_line_damaged [OF Cons.prems(1,2,4)] False by (simp add: all_damaged_def)
  qed
qed simp

lemma fold_fresh_simps [simp]:
  "cg_rows (fold fresh_id rs g) = cg_rows g" "cg_cols (fold fresh_id rs g) = cg_cols g"
  "cg_cells (fold fresh_id rs g) = cg_cells g" "cg_dirty (fold fresh_id rs g) = cg_dirty g" "cg_damage (fold fresh_id rs g) = cg_damage g"
  "length (cg_ids (fold fresh_id rs g)) = length (cg_ids g)"
  by (induction rs arbitrary: g) simp_all

section \<open>Operations that damage whole rows\<close>

lemma all_damagedI: "cg_wf g' \<Longrightarrow> (\<And>r. r < cg_rows g' \<Longrightarrow> all_damaged g' r) \<Longrightarrow> evolves g g'"
  by (simp add: evolvesI)

lemma cg_new_wf: "cg_wf (cg_new rows cols)"
  by (simp add: cg_wf_def cg_new_def)

lemma cg_new_evolves: "cols \<le> 65535 \<Longrightarrow> evolves g (cg_new rows cols)"
  by (rule all_damagedI) (simp_all add: cg_new_wf, simp add: cg_new_def all_damaged_def mark_all_row)

lemma mark_all_dirty_evolves: "cg_wf g \<Longrightarrow> cg_cols g \<le> 65535 \<Longrightarrow> evolves g (mark_all_dirty g)"
  by (rule all_damagedI) (simp_all add: mark_all_dirty_def cg_wf_def all_damaged_def mark_all_row)

lemma cg_clear_evolves: "cg_wf g \<Longrightarrow> cg_cols g \<le> 65535 \<Longrightarrow> evolves g (cg_clear g)"
  by (rule all_damagedI) (simp_all add: cg_clear_def cg_wf_def all_damaged_def mark_all_row)

lemma reset_line_identity_evolves:
  assumes "cg_wf g" "cg_cols g \<le> 65535"
  shows "evolves g (reset_line_identity row g)"
proof (cases "cg_rows g \<le> row")
  case True
  then show ?thesis using assms by (simp add: reset_line_identity_def evolves_refl)
next
  case False
  then have e: "reset_line_identity row g = renew_line row g"
    using assms by (simp add: reset_line_identity_def renew_line_def fresh_id_def allocate_line_id_def cg_wf_def)
  show ?thesis unfolding e
  proof (rule evolvesI)
    show "cg_wf (renew_line row g)" by (rule cg_wf_cong [OF assms(1)]) simp_all
    fix r assume r: "r < cg_rows (renew_line row g)"
    show "all_damaged (renew_line row g) r \<or> (\<exists>q. row_from g q (renew_line row g) r)"
    proof (cases "r = row")
      case True
      then show ?thesis using renew_line_damaged [OF assms] False by simp
    next
      case False
      then have "row_from g r (renew_line row g) r" using r by (intro row_sameI) (simp_all add: g_cell_def)
      then show ?thesis by blast
    qed
  qed
qed

lemma insert_overscan_evolves:
  assumes "cg_wf g" "cg_cols g \<le> 65535"
  shows "evolves g (insert_overscan_row_top src i g)"
proof (rule evolvesI)
  let ?g = "insert_overscan_row_top src i g"
  have len: "length (fitted_row (cg_cols g) src) = cg_cols g" by (simp add: fitted_row_def min_def split: option.split)
  then show "cg_wf ?g" using assms(1) by (simp add: cg_wf_def insert_overscan_row_top_def)
  fix r assume r: "r < cg_rows ?g"
  show "all_damaged ?g r \<or> (\<exists>q. row_from g q ?g r)"
  proof (cases r)
    case 0
    then show ?thesis using assms(2) by (simp add: all_damaged_def insert_overscan_row_top_def mark_damage_row)
  next
    case (Suc q)
    then have "row_from g q ?g r"
      using r len by (simp add: row_from_def insert_overscan_row_top_def g_cell_def nth_append)
    then show ?thesis by blast
  qed
qed

lemma cg_scroll_up_evolves:
  assumes g: "cg_wf g" and c: "cg_cols g \<le> 65535"
  shows "evolves g (cg_scroll_up n0 g)"
proof (cases "n0 = 0")
  case True
  then show ?thesis using g by (simp add: cg_scroll_up_def evolves_refl)
next
  case False
  define n where "n = min n0 (cg_rows g)"
  define k where "k = cg_rows g - n"
  have nk: "n + k = cg_rows g" by (simp add: n_def k_def)
  define cells1 where "cells1 = copy_within 0 (n * cg_cols g) (k * cg_cols g) (cg_cells g)"
  define h where "h = g\<lparr>cg_cells := fill_range (k * cg_cols g) (length cells1) ui_cell_default cells1,
    cg_dirty := map (\<lambda>_. True) (cg_dirty g),
    cg_ids := (if 0 < k then copy_within 0 n k (cg_ids g) else cg_ids g),
    cg_damage := (if 0 < k then copy_within 0 n k (cg_damage g) else cg_damage g)\<rparr>"
  have tot: "cg_rows g * cg_cols g - n * cg_cols g = k * cg_cols g" "n * cg_cols g + k * cg_cols g = cg_rows g * cg_cols g"
    using nk by (simp_all add: k_def diff_mult_distrib)
  have e: "cg_scroll_up n0 g = fold renew_line [k..<cg_rows g] h"
    using False unfolding cg_scroll_up_def renew_line_def [abs_def] Let_def n_def [symmetric] k_def [symmetric] tot h_def cells1_def
    by simp
  have w: "length (cg_cells g) = cg_rows g * cg_cols g" "length (cg_damage g) = cg_rows g" "length (cg_ids g) = cg_rows g"
    using g by (simp_all add: cg_wf_def)
  have l1: "length cells1 = cg_rows g * cg_cols g" unfolding cells1_def using w tot(2) nk by (subst length_copy_within) simp_all
  have wf: "cg_wf h" by (rule cg_wf_cong [OF g]) (use w nk l1 tot in \<open>simp_all add: h_def\<close>)
  have wf': "cg_wf (fold renew_line [k..<cg_rows g] h)" by (rule cg_wf_cong [OF wf]) simp_all
  show ?thesis unfolding e
  proof (rule evolvesI [OF wf'])
    fix r assume "r < cg_rows (fold renew_line [k..<cg_rows g] h)"
    then have r: "r < cg_rows g" by (simp add: h_def)
    show "all_damaged (fold renew_line [k..<cg_rows g] h) r \<or> (\<exists>q. row_from g q (fold renew_line [k..<cg_rows g] h) r)"
    proof (cases "k \<le> r")
      case True
      then show ?thesis using fold_renew_damaged [OF wf, of r "[k..<cg_rows g]"] c r by (simp add: h_def)
    next
      case False
      then have rk: "r < k" by simp
      have q: "r + n < cg_rows g" using rk nk by linarith
      have "g_cell h r j = g_cell g (r + n) j" if j: "j < cg_cols g" for j
      proof -
        have b: "r * cg_cols g + j < k * cg_cols g" using row_in_block(2) [OF j] rk by simp
        have "g_cell h r j = cells1 ! (r * cg_cols g + j)"
          using b l1 tot(2) by (simp add: h_def g_cell_def fill_range_def nth_append)
        also have "\<dots> = cg_cells g ! (r * cg_cols g + j + n * cg_cols g)"
          unfolding cells1_def using b w tot(2) nk by (subst nth_copy_within) simp_all
        also have "\<dots> = g_cell g (r + n) j" by (simp add: g_cell_def algebra_simps)
        finally show ?thesis .
      qed
      moreover have "cg_ids h ! r = cg_ids g ! (r + n)" "cg_damage h ! r = cg_damage g ! (r + n)"
        using rk nk w by (simp_all add: h_def nth_copy_within)
      ultimately have "row_from g (r + n) (fold renew_line [k..<cg_rows g] h) r"
        using q rk by (simp add: row_from_def g_cell_def h_def)
      then show ?thesis by blast
    qed
  qed
qed

lemma cg_resize_evolves:
  assumes "cg_wf g" "rows = cg_rows g \<and> cols = cg_cols g \<or> cols \<le> 65535"
  shows "evolves g (cg_resize rows cols g)"
proof (cases "rows = cg_rows g \<and> cols = cg_cols g")
  case True
  then show ?thesis using assms by (simp add: cg_resize_def evolves_refl)
next
  case False
  let ?g = "cg_resize rows cols g"
  let ?cells = "fold (\<lambda>r. copy_slice (r * cols) (take (min (cg_cols g) cols) (drop (r * cg_cols g) (cg_cells g))))
    [0..<min (cg_rows g) rows] (replicate (rows * cols) ui_cell_default)"
  have "length ?cells = rows * cols"
  proof (rule fold_keeps [where P = "\<lambda>xs. length xs = rows * cols"])
    fix r and xs :: "ui_cell list" assume a: "r \<in> set [0..<min (cg_rows g) rows]" "length xs = rows * cols"
    have "r * cols + cols \<le> rows * cols" by (rule row_end) (use a(1) in simp)
    then have "r * cols + length (take (min (cg_cols g) cols) (drop (r * cg_cols g) (cg_cells g))) \<le> length xs"
      unfolding a(2) length_take by linarith
    then show "length (copy_slice (r * cols) (take (min (cg_cols g) cols) (drop (r * cg_cols g) (cg_cells g))) xs) = rows * cols"
      using a(2) by (metis length_copy_slice)
  qed simp
  moreover have "?g = g\<lparr>cg_rows := rows, cg_cols := cols, cg_cells := ?cells, cg_dirty := replicate (rows * cols) True,
      cg_damage := mark_all_lines cols (replicate rows ld_default),
      cg_ids := take (min (cg_rows g) rows) (cg_ids g) @ map (\<lambda>k. cg_next_id g + of_nat k) [0..<rows - min (cg_rows g) rows],
      cg_next_id := cg_next_id g + of_nat (rows - min (cg_rows g) rows)\<rparr>"
    unfolding cg_resize_def Let_def if_not_P [OF False] by (rule refl)
  ultimately have s: "cg_wf ?g" "cg_cols ?g = cols" "cg_rows ?g = rows" "cg_damage ?g = mark_all_lines cols (replicate rows ld_default)"
    using assms(1) by (simp_all add: cg_wf_def)
  show ?thesis by (rule all_damagedI [OF s(1)]) (use False assms(2) in \<open>auto simp: s all_damaged_def mark_all_row\<close>)
qed


section \<open>Operations that damage some columns\<close>

lemma cell_idx_eq: "cell_idx row col g = Some i \<longleftrightarrow> row < cg_rows g \<and> col < cg_cols g \<and> i = row * cg_cols g + col"
  by (auto simp: cell_idx_def)

lemma nth_update_cell:
  assumes "cg_wf g" "row < cg_rows g" "col < cg_cols g" "r < cg_rows g" "k < cg_cols g"
  shows "(cg_cells g)[row * cg_cols g + col := x] ! (r * cg_cols g + k) =
    (if r = row \<and> k = col then x else cg_cells g ! (r * cg_cols g + k))"
proof -
  have "row * cg_cols g + col < length (cg_cells g)" using assms row_end [OF assms(2), of "cg_cols g"] by (simp add: cg_wf_def)
  then show ?thesis using row_index_inj [OF assms(5,3), of r row] by (auto simp: nth_list_update)
qed

lemma set_cell_evolves:
  assumes "cg_wf g" "cg_cols g \<le> 65535"
  shows "evolves g (set_cell row col x g)"
proof (cases "cell_idx row col g")
  case None
  then show ?thesis using assms by (simp add: set_cell_def evolves_refl)
next
  case (Some i)
  then have b: "row < cg_rows g" "col < cg_cols g" "i = row * cg_cols g + col" by (simp_all add: cell_idx_eq)
  let ?g = "set_cell row col x g"
  have g: "?g = g\<lparr>cg_cells := (cg_cells g)[i := x], cg_dirty := (cg_dirty g)[i := True],
      cg_damage := (cg_damage g)[row := mark_col (clamp_u16 col) (cg_damage g ! row)]\<rparr>"
    using assms(1) b(1) by (simp add: set_cell_def Some cg_wf_def)
  have m: "unat (clamp_u16 col) = col" "col \<noteq> 65535" using assms(2) b(2) by simp_all
  show ?thesis
  proof (rule evolvesI)
    show "cg_wf ?g" using assms(1) by (subst g) (simp add: cg_wf_def)
    fix r assume "r < cg_rows ?g"
    then have r: "r < cg_rows g" by (simp add: g)
    have "row_from g r ?g r"
    proof (cases "r = row")
      case True
      show ?thesis
        by (rule row_markedI [where a = "clamp_u16 col" and b = "clamp_u16 col"])
          (use r b m assms(1) in \<open>auto simp: g True mark_col_def cg_wf_def g_cell_def nth_update_cell\<close>)
    next
      case False
      then show ?thesis
        by (intro row_sameI) (use r b assms(1) in \<open>simp_all add: g g_cell_def nth_update_cell\<close>)
    qed
    then show "all_damaged ?g r \<or> (\<exists>q. row_from g q ?g r)" by blast
  qed
qed

lemma put_half_simps [simp]:
  "cg_rows (put_half row col x g) = cg_rows g" "cg_cols (put_half row col x g) = cg_cols g"
  "cg_damage (put_half row col x g) = cg_damage g" "cg_ids (put_half row col x g) = cg_ids g"
  by (simp_all add: put_half_def split: option.split)

lemma put_half_wf: "cg_wf g \<Longrightarrow> cg_wf (put_half row col x g)"
  by (simp add: put_half_def cg_wf_def split: option.split)

lemma put_half_cell: "cg_wf g \<Longrightarrow> r < cg_rows g \<Longrightarrow> k < cg_cols g \<Longrightarrow> r \<noteq> row \<or> k \<noteq> col \<Longrightarrow>
    g_cell (put_half row col x g) r k = g_cell g r k"
  by (auto simp: put_half_def g_cell_def cell_idx_def nth_update_cell)

lemma set_wide_cell_evolves:
  assumes "cg_wf g" "cg_cols g \<le> 65535"
  shows "evolves g (set_wide_cell row col x g)"
proof (cases "cg_cols g \<le> col + 1")
  case True
  then show ?thesis using assms by (simp add: set_wide_cell_def evolves_refl)
next
  case False
  define h where "h = put_half row (col + 1) (x\<lparr>c_ch := 0, c_wide := True\<rparr>) (put_half row col (x\<lparr>c_wide := False\<rparr>) g)"
  have h: "cg_wf h" "cg_rows h = cg_rows g" "cg_cols h = cg_cols g" "cg_damage h = cg_damage g" "cg_ids h = cg_ids g"
    using assms(1) by (simp_all add: h_def put_half_wf)
  have c: "g_cell h r k = g_cell g r k" if "r < cg_rows g" "k < cg_cols g" "r \<noteq> row \<or> k \<noteq> col \<and> k \<noteq> col + 1" for r k
    using assms(1) that by (auto simp: h_def put_half_cell put_half_wf)
  let ?g = "set_wide_cell row col x g"
  have g: "?g = (if row < cg_rows g
      then h\<lparr>cg_damage := (cg_damage g)[row := mark_damage (clamp_u16 col) (clamp_u16 (col + 1)) (cg_damage g ! row)]\<rparr> else h)"
    using False assms(1) by (simp add: set_wide_cell_def h_def Let_def cg_wf_def)
  have s: "cg_wf ?g" "cg_rows ?g = cg_rows g" "cg_cols ?g = cg_cols g" "cg_ids ?g = cg_ids g" "cg_cells ?g = cg_cells h"
    using h assms(1) by (auto simp: g cg_wf_def)
  have c': "g_cell ?g r k = g_cell h r k" for r k by (simp add: g_cell_def s h)
  have m: "unat (clamp_u16 col) = col" "unat (clamp_u16 (col + 1)) = col + 1" "col \<noteq> 65535"
    using assms(2) False by simp_all
  show ?thesis
  proof (rule evolvesI)
    fix r assume "r < cg_rows ?g"
    then have r: "r < cg_rows g" by (simp add: s)
    have "row_from g r ?g r"
    proof (cases "r = row")
      case True
      have "cg_damage ?g ! r = mark_damage (clamp_u16 col) (clamp_u16 (col + 1)) (cg_damage g ! r)"
        using True r assms(1) by (simp add: g cg_wf_def)
      then show ?thesis
        by (intro row_markedI [OF r s(3)]) (use r m s c in \<open>auto simp: c'\<close>)
    next
      case False
      then have "cg_damage ?g ! r = cg_damage g ! r" using h by (simp add: g)
      then show ?thesis using False r c by (intro row_sameI) (simp_all add: s c')
    qed
    then show "all_damaged ?g r \<or> (\<exists>q. row_from g q ?g r)" by blast
  qed (rule s)
qed

section \<open>Moving rows\<close>

lemma shift_rows_evolves:
  assumes g: "cg_wf g"
  shows "evolves g (shift_rows d s n0 g)"
proof -
  let ?n = "min n0 (cg_rows g - max d s)"
  let ?g = "shift_rows d s n0 g"
  have "?g = g \<or> ?g = g\<lparr>cg_cells := copy_within (d * cg_cols g) (s * cg_cols g) (?n * cg_cols g) (cg_cells g),
      cg_dirty := fill_range (d * cg_cols g) (d * cg_cols g + ?n * cg_cols g) True (cg_dirty g),
      cg_ids := copy_within d s ?n (cg_ids g), cg_damage := copy_within d s ?n (cg_damage g)\<rparr> \<and> 0 < ?n"
    unfolding shift_rows_def Let_def by (simp del: min_less_iff_conj)
  then show ?thesis
  proof (elim disjE conjE)
    assume "?g = g"
    then show ?thesis using g evolves_refl by simp
  next
    assume 2: "?g = g\<lparr>cg_cells := copy_within (d * cg_cols g) (s * cg_cols g) (?n * cg_cols g) (cg_cells g),
      cg_dirty := fill_range (d * cg_cols g) (d * cg_cols g + ?n * cg_cols g) True (cg_dirty g),
      cg_ids := copy_within d s ?n (cg_ids g), cg_damage := copy_within d s ?n (cg_damage g)\<rparr>" "0 < ?n"
    then have b: "d + ?n \<le> cg_rows g" "s + ?n \<le> cg_rows g" by linarith+
    then have b': "d * cg_cols g + ?n * cg_cols g \<le> cg_rows g * cg_cols g" "s * cg_cols g + ?n * cg_cols g \<le> cg_rows g * cg_cols g"
      by (metis add_mult_distrib mult_le_mono1)+
    show ?thesis
    proof (rule evolvesI)
      show "cg_wf ?g" using g b b' by (subst 2(1)) (simp add: cg_wf_def)
      fix r assume "r < cg_rows ?g"
      then have r: "r < cg_rows g" by (simp add: 2(1))
      define q where "q = (if d \<le> r \<and> r < d + ?n then r - d + s else r)"
      have "d \<le> r \<Longrightarrow> r < d + m \<Longrightarrow> s + m \<le> R \<Longrightarrow> r - d + s < R" for m R :: nat by linarith
      from this [OF _ _ b(2)] r have q: "q < cg_rows g" unfolding q_def by (cases "d \<le> r \<and> r < d + ?n") (simp_all only: if_True if_False simp_thms)
      have w: "length (cg_cells g) = cg_rows g * cg_cols g" "length (cg_damage g) = cg_rows g" "length (cg_ids g) = cg_rows g"
        using g by (simp_all add: cg_wf_def)
      have "row_from g q ?g r"
        unfolding row_from_def
      proof (intro conjI allI impI)
        show "q < cg_rows g" by (rule q)
        show cc: "cg_cols ?g = cg_cols g" by (simp add: 2(1))
        show "cg_ids ?g ! r = cg_ids g ! q" using b r w by (simp add: 2(1) nth_copy_within q_def)
        have d: "cg_damage ?g ! r = cg_damage g ! q" using b r w by (simp add: 2(1) nth_copy_within q_def)
        fix k assume k: "k < cg_cols ?g" "\<not> damaged (cg_damage ?g ! r) k"
        show "\<not> damaged (cg_damage g ! q) k" using k(2) d by simp
        have j: "k < cg_cols g" using k(1) by (simp add: 2(1))
        have "row_slice (cg_cells ?g) r (cg_cols g) = row_slice (cg_cells g) q (cg_cols g)"
          using row_slice_copy_within [OF w(1) b r] by (simp add: 2(1) q_def)
        moreover have "length (cg_cells ?g) = cg_rows g * cg_cols g" using b' w by (simp add: 2(1))
        ultimately have "cg_cells ?g ! (r * cg_cols g + k) = cg_cells g ! (q * cg_cols g + k)"
          by (metis nth_row_slice [OF _ r j] nth_row_slice [OF w(1) q j])
        then show "g_cell ?g r k = g_cell g q k" unfolding g_cell_def cc .
      qed
      then show "all_damaged ?g r \<or> (\<exists>q. row_from g q ?g r)" by blast
    qed
  qed
qed

section \<open>Programs of operations\<close>

datatype grid_op = PutCell nat nat ui_cell | PutWide nat nat ui_cell | MoveRows nat nat nat | RenewLine nat |
  InsertTop "ui_cell list option" "64 word" | WipeGrid | ScrollGrid nat | ResizeGrid nat nat | DirtyGrid | PlaceCursor nat nat

definition grid_apply :: "grid_op \<Rightarrow> cell_grid \<Rightarrow> cell_grid" where
  "grid_apply a g = (case a of PutCell row col x \<Rightarrow> set_cell row col x g | PutWide row col x \<Rightarrow> set_wide_cell row col x g
     | MoveRows d s n \<Rightarrow> shift_rows d s n g | RenewLine row \<Rightarrow> reset_line_identity row g | InsertTop src i \<Rightarrow> insert_overscan_row_top src i g
     | WipeGrid \<Rightarrow> cg_clear g | ScrollGrid n \<Rightarrow> cg_scroll_up n g | ResizeGrid rows cols \<Rightarrow> cg_resize rows cols g
     | DirtyGrid \<Rightarrow> mark_all_dirty g | PlaceCursor row col \<Rightarrow> cg_set_cursor row col g)"

text \<open>Column numbers are kept in 16 bits.\<close>

definition fits_u16 :: "grid_op \<Rightarrow> bool" where
  "fits_u16 a \<longleftrightarrow> (case a of ResizeGrid rows cols \<Rightarrow> cols \<le> 65535 | _ \<Rightarrow> True)"

lemma cg_scroll_up_cols: "cg_cols (cg_scroll_up n g) = cg_cols g"
  unfolding cg_scroll_up_def Let_def renew_line_def [abs_def, unfolded Let_def, symmetric] by simp

lemma grid_apply_cols: "cg_cols g \<le> 65535 \<Longrightarrow> fits_u16 a \<Longrightarrow> cg_cols (grid_apply a g) \<le> 65535"
  by (cases a) (simp_all add: grid_apply_def fits_u16_def set_cell_def set_wide_cell_def shift_rows_def reset_line_identity_def
      allocate_line_id_def insert_overscan_row_top_def cg_clear_def cg_scroll_up_cols cg_resize_def mark_all_dirty_def cg_set_cursor_def
      Let_def split: option.split)

lemma place_cursor_evolves: "cg_wf g \<Longrightarrow> evolves g (cg_set_cursor row col g)"
  by (rule evolvesI) (auto simp: cg_wf_def cg_set_cursor_def row_from_def g_cell_def)

theorem grid_apply_evolves:
  "cg_wf g \<Longrightarrow> cg_cols g \<le> 65535 \<Longrightarrow> fits_u16 a \<Longrightarrow> evolves g (grid_apply a g)"
  by (cases a) (simp_all add: grid_apply_def fits_u16_def set_cell_evolves set_wide_cell_evolves shift_rows_evolves
      reset_line_identity_evolves insert_overscan_evolves cg_clear_evolves cg_scroll_up_evolves cg_resize_evolves
      mark_all_dirty_evolves place_cursor_evolves)

end
