(* ===== verification/Line_Cache_Props.thy ===== *)
theory Line_Cache_Props
  imports Cell_Grid_Inv
begin

text \<open>
  Painting with retained lines shows what painting from scratch shows: the marks and glyphs of a row depend on
  its visible cells only, a replayed line is one with the same visible cells, and a spliced line gets its
  undamaged columns from cells that have not changed.
\<close>

section \<open>Runs\<close>

definition finish_runs :: "'k cell_run list \<times> 'k cell_run option \<Rightarrow> 'k cell_run list" where
  "finish_runs s = (case s of (runs, cur) \<Rightarrow> (case cur of Some run \<Rightarrow> runs @ [run] | None \<Rightarrow> runs))"

lemma runs_of_eq: "runs_of key a b = finish_runs (fold (run_step key) [a..<b] ([], None))"
  by (simp add: runs_of_def finish_runs_def)

definition runs_cover :: "(nat \<Rightarrow> 'k) \<Rightarrow> nat \<Rightarrow> nat \<Rightarrow> 'k cell_run list \<Rightarrow> bool" where
  "runs_cover key a b runs \<longleftrightarrow> concat (map (\<lambda>r. map (\<lambda>c. (c, run_key r)) [run_start r..<run_end r]) runs) = map (\<lambda>c. (c, key c)) [a..<b] \<and>
     (\<forall>r \<in> set runs. run_start r < run_end r \<and> run_end r \<le> b) \<and> (runs \<noteq> [] \<longrightarrow> run_end (last runs) = b) \<and>
     sorted_wrt (\<lambda>r s. run_end r \<le> run_start s) runs \<and> successively (\<lambda>r s. run_key r \<noteq> run_key s) runs"

lemma fold_runs_cover:
  assumes "a \<le> b"
  shows "runs_cover key a b (finish_runs (fold (run_step key) [a..<b] ([], None))) \<and>
    (snd (fold (run_step key) [a..<b] ([], None)) = None \<longrightarrow> a = b \<and> fst (fold (run_step key) [a..<b] ([], None)) = [])"
  using assms
proof (induction rule: dec_induct)
  case base
  then show ?case by (simp add: runs_cover_def finish_runs_def)
next
  case (step n)
  obtain runs cur where s: "fold (run_step key) [a..<n] ([], None) = (runs, cur)" by (rule prod.exhaust)
  have f: "fold (run_step key) [a..<Suc n] ([], None) = run_step key n (runs, cur)" using step.hyps s by simp
  have u: "[a..<Suc n] = [a..<n] @ [n]" using step.hyps by simp
  show ?case
  proof (cases cur)
    case None
    then have "a = n" "runs = []" using step.IH s by simp_all
    then show ?thesis unfolding f by (simp add: None run_step_def runs_cover_def finish_runs_def)
  next
    case (Some run)
    have ih: "runs_cover key a n (runs @ [run])" using step.IH s Some by (simp add: finish_runs_def)
    then have r: "run_end run = n" "run_start run < n" by (simp_all add: runs_cover_def)
    show ?thesis
    proof (cases "run_key run = key n")
      case True
      then show ?thesis using ih r step.hyps unfolding f
        by (simp add: Some run_step_def runs_cover_def finish_runs_def sorted_wrt_append successively_append_iff u)
          (auto split: if_splits)
    next
      case False
      then show ?thesis using ih r step.hyps unfolding f
        by (simp add: Some run_step_def runs_cover_def finish_runs_def sorted_wrt_append successively_append_iff u)
          (auto split: if_splits)
    qed
  qed
qed

lemma runs_of_cover: "a \<le> b \<Longrightarrow> runs_cover key a b (runs_of key a b)"
  unfolding runs_of_eq using fold_runs_cover by blast

section \<open>Only the visible cells matter\<close>

lemma terminal_bg_fits: "terminal_bg_runs_in_range parity 0 (length cs) cs = runs_of (\<lambda>col. terminal_effective_bg parity (cs ! col)) 0 (length cs)"
  by (cases "cs = []") (simp_all add: terminal_bg_runs_in_range_def runs_of_def)

lemma transparent_run_filtered:
  assumes "\<not> vis (key n)"
  shows "filter (\<lambda>r. vis (run_key r)) (finish_runs (run_step key n s)) = filter (\<lambda>r. vis (run_key r)) (finish_runs s)"
  using assms by (auto simp: finish_runs_def run_step_def split: prod.splits option.splits)

lemma run_step_cong: "key c = key' c \<Longrightarrow> run_step key c = run_step key' c"
  by (rule ext) (auto simp: run_step_def split: prod.split option.split)

lemma runs_of_cong: "(\<And>c. a \<le> c \<Longrightarrow> c < b \<Longrightarrow> key c = key' c) \<Longrightarrow> runs_of key a b = runs_of key' a b"
  unfolding runs_of_eq by (rule arg_cong [where f = finish_runs], rule fold_cong) (auto intro: run_step_cong)

lemma empty_cell:
  assumes "trailing_cell_is_visually_empty x"
  shows "\<not> is_inverse x" "col_a (c_bg x) = 0" "c_ch x = 0 \<or> c_ch x = 32" "c_attrs x = 0" "\<not> is_blink x" "\<not> c_wide x"
  using assms by (auto simp: trailing_cell_is_visually_empty_def is_inverse_def INVERSE_def is_blink_def BLINK_def ui_cell_is_empty_def)

lemma backgrounds_snoc:
  assumes x: "trailing_cell_is_visually_empty x"
  shows "emit_grid_row_backgrounds parity 0 (length (cs @ [x])) (cs @ [x]) = emit_grid_row_backgrounds parity 0 (length cs) cs"
proof -
  let ?k = "\<lambda>col. terminal_effective_bg parity (cs ! col)" and ?k' = "\<lambda>col. terminal_effective_bg parity ((cs @ [x]) ! col)"
  let ?n = "length cs" and ?vis = "\<lambda>c. col_a c \<noteq> 0"
  have tr: "\<not> ?vis (?k' ?n)" using empty_cell [OF x] by (simp add: terminal_effective_bg_def)
  have "filter (\<lambda>r. ?vis (run_key r)) (runs_of ?k' 0 (Suc ?n)) = filter (\<lambda>r. ?vis (run_key r)) (runs_of ?k' 0 ?n)"
    using transparent_run_filtered [where vis = ?vis, of ?k' ?n, OF tr] by (simp add: runs_of_eq)
  also have "runs_of ?k' 0 ?n = runs_of ?k 0 ?n" by (rule runs_of_cong) (simp add: nth_append)
  finally have f: "filter (\<lambda>r. ?vis (run_key r)) (terminal_bg_runs_in_range parity 0 (length (cs @ [x])) (cs @ [x])) =
      filter (\<lambda>r. ?vis (run_key r)) (terminal_bg_runs_in_range parity 0 ?n cs)" (is "?l = ?r")
    unfolding terminal_bg_fits by simp
  have "terminal_bg_run_edges parity 0 (length (cs @ [x])) (cs @ [x]) r = terminal_bg_run_edges parity 0 ?n cs r"
    if "r \<in> set ?r" for r
  proof -
    have "r \<in> set (runs_of ?k 0 ?n)" using that by (simp add: terminal_bg_fits)
    then have b: "run_start r < run_end r" "run_end r \<le> ?n" using runs_of_cover [of 0 ?n ?k] by (simp_all add: runs_cover_def)
    show ?thesis
    proof (cases "run_end r = ?n")
      case True
      then show ?thesis using b tr by (auto simp: terminal_bg_run_edges_def nth_append)
    next
      case False
      then show ?thesis using b by (auto simp: terminal_bg_run_edges_def nth_append)
    qed
  qed
  then show ?thesis unfolding emit_grid_row_backgrounds_def f by (intro map_cong) simp_all
qed

lemma clamp_next: "c = 0 \<or> c = 32 \<Longrightarrow> trailing_edge_clamp parity ch (Some c) = trailing_edge_clamp parity ch None"
  by (auto simp: trailing_edge_clamp_def terminal_block_or_shade_char_def)

lemma primitive_next: "c = 0 \<or> c = 32 \<Longrightarrow>
    emit_terminal_cell_primitive parity b col (Some c) x = emit_terminal_cell_primitive parity b col None x"
  by (simp only: emit_terminal_cell_primitive_def clamp_next)

lemma marks_snoc:
  assumes x: "trailing_cell_is_visually_empty x"
  shows "row_marks parity b (cs @ [x]) = row_marks parity b cs"
proof -
  let ?n = "length cs"
  have old: "emit_terminal_cell_primitive parity b col (terminal_row_next_ch (cs @ [x]) col) ((cs @ [x]) ! col) =
      emit_terminal_cell_primitive parity b col (terminal_row_next_ch cs col) (cs ! col)" if "col < ?n" for col
  proof (cases "Suc col = ?n")
    case True
    then have "terminal_row_next_ch (cs @ [x]) col = Some (c_ch x)" "terminal_row_next_ch cs col = None"
      by (simp_all add: terminal_row_next_ch_def nth_append)
    then show ?thesis using that primitive_next [OF empty_cell(3) [OF x]] by (simp add: nth_append)
  next
    case False
    then show ?thesis using that by (simp add: terminal_row_next_ch_def nth_append)
  qed
  have new: "fst (emit_terminal_cell_primitive parity b ?n c x) = []" for c
    using empty_cell [OF x] by (auto simp: emit_terminal_cell_primitive_def emit_terminal_text_decorations_def UNDERLINE_def STRIKETHROUGH_def Let_def)
  have "map (\<lambda>col. fst (emit_terminal_cell_primitive parity b col (terminal_row_next_ch (cs @ [x]) col) ((cs @ [x]) ! col))) [0..<?n] =
      map (\<lambda>col. fst (emit_terminal_cell_primitive parity b col (terminal_row_next_ch cs col) (cs ! col))) [0..<?n]"
    by (rule map_cong) (simp_all add: old)
  then show ?thesis unfolding row_marks_def backgrounds_snoc [OF x] by (simp add: new del: map_eq_conv)
qed

text \<open>The glyph of a cell does not depend on its neighbours.\<close>

definition column_glyph :: "'p painter \<Rightarrow> geometry \<Rightarrow> bool \<Rightarrow> ui_cell \<Rightarrow> ('p \<times> ink) option" where
  "column_glyph P geom b x = fresh_glyph P geom b [x] 0"

definition fresh_glyphs :: "'p painter \<Rightarrow> geometry \<Rightarrow> bool \<Rightarrow> ui_cell list \<Rightarrow> ('p \<times> ink) option list" where
  "fresh_glyphs P geom b cs = map (column_glyph P geom b) cs"

lemma vector_of_clamp: "vector_of parity ch clamp = None \<longleftrightarrow> vector_of parity ch False = None"
  by (simp add: vector_of_def split: option.split prod.split)

lemma primitive_alone:
  "snd (emit_terminal_cell_primitive parity b col c x) = snd (emit_terminal_cell_primitive parity b 0 None x)"
proof -
  have deco: "emit_terminal_text_decorations col x \<noteq> [] \<longleftrightarrow> emit_terminal_text_decorations 0 x \<noteq> []"
    by (simp add: emit_terminal_text_decorations_def)
  have v: "snd (case vector_of parity ch clamp of Some v \<Rightarrow> (f v, True) | None \<Rightarrow> (ds, False)) = (vector_of parity ch False \<noteq> None)"
    for ch clamp ds and f :: "vector_shape \<Rightarrow> paint_mark list"
    using vector_of_clamp [of parity ch clamp] by (cases "vector_of parity ch clamp") simp_all
  show ?thesis unfolding emit_terminal_cell_primitive_def Let_def by (simp only: if_distrib [where f = snd] snd_conv deco v)
qed

lemma is_primitive_cell: "col < length cs \<Longrightarrow> is_primitive parity b cs col = is_primitive parity b [cs ! col] 0"
  unfolding is_primitive_def by (subst primitive_alone, subst (2) primitive_alone) simp

lemma fresh_glyph_cell: "col < length cs \<Longrightarrow> fresh_glyph P geom b cs col = column_glyph P geom b (cs ! col)"
  using is_primitive_cell [of col cs] by (simp add: column_glyph_def fresh_glyph_def)

lemma emit_fresh: "emit_grid_row_fresh P geom b cs = (row_marks (pa_parity P) b cs, fresh_glyphs P geom b cs)"
proof -
  have "map (fresh_glyph P geom b cs) [0..<length cs] = fresh_glyphs P geom b cs"
    by (rule nth_equalityI) (simp_all add: fresh_glyphs_def fresh_glyph_cell)
  then show ?thesis by (simp add: emit_grid_row_fresh_def)
qed

lemma empty_cell_glyph: "trailing_cell_is_visually_empty x \<Longrightarrow> column_glyph P geom b x = None"
  by (simp add: column_glyph_def fresh_glyph_def emit_grid_cell_glyph_def trailing_cell_is_visually_empty_def)

lemma visible_cells_split: "\<exists>rest. cs = visible_cells cs @ rest \<and> (\<forall>x \<in> set rest. trailing_cell_is_visually_empty x)"
proof (intro exI conjI ballI)
  have "rev (rev cs) = rev (takeWhile trailing_cell_is_visually_empty (rev cs) @ dropWhile trailing_cell_is_visually_empty (rev cs))"
    by (simp only: takeWhile_dropWhile_id)
  then show "cs = visible_cells cs @ rev (takeWhile trailing_cell_is_visually_empty (rev cs))"
    by (simp only: rev_append rev_rev_ident visible_cells_def)
  fix x assume "x \<in> set (rev (takeWhile trailing_cell_is_visually_empty (rev cs)))"
  then show "trailing_cell_is_visually_empty x" by (metis set_rev set_takeWhileD)
qed

lemma row_marks_visible: "row_marks parity b (visible_cells cs) = row_marks parity b cs"
proof -
  obtain rest where r: "cs = visible_cells cs @ rest" "\<forall>x \<in> set rest. trailing_cell_is_visually_empty x"
    using visible_cells_split by blast
  have "row_marks parity b (xs @ rest) = row_marks parity b xs" for xs
    using r(2)
  proof (induction rest rule: rev_induct)
    case (snoc x rest)
    then show ?case using marks_snoc [of x parity b "xs @ rest"] by simp
  qed simp
  then show ?thesis by (metis r(1))
qed

lemma fresh_glyphs_visible: "\<exists>n. fresh_glyphs P geom b cs = fresh_glyphs P geom b (visible_cells cs) @ replicate n None \<and>
    length cs = length (visible_cells cs) + n"
proof -
  obtain rest where r: "cs = visible_cells cs @ rest" "\<forall>x \<in> set rest. trailing_cell_is_visually_empty x"
    using visible_cells_split by blast
  have "map (column_glyph P geom b) rest = map (\<lambda>_. None) rest" using r(2) empty_cell_glyph by (intro map_cong) blast+
  also have "\<dots> = replicate (length rest) None" by (rule map_replicate_const)
  finally have "map (column_glyph P geom b) rest = replicate (length rest) None" .
  then have "fresh_glyphs P geom b (visible_cells cs @ rest) = fresh_glyphs P geom b (visible_cells cs) @ replicate (length rest) None"
    by (simp add: fresh_glyphs_def)
  then show ?thesis using r(1) by (metis length_append)
qed

text \<open>What is shown of a row of glyphs: all up to the last one.\<close>

definition shown_glyphs :: "('p \<times> ink) option list \<Rightarrow> ('p \<times> ink) option list" where
  "shown_glyphs gs = rev (dropWhile (\<lambda>g. g = None) (rev gs))"

lemma shown_glyphs_append: "shown_glyphs (gs @ replicate n None) = shown_glyphs gs"
proof -
  have "dropWhile (\<lambda>g. g = None) (replicate n None @ xs) = dropWhile (\<lambda>g. g = None) xs" for xs :: "('p \<times> ink) option list"
    by (induction n) simp_all
  then show ?thesis by (simp add: shown_glyphs_def)
qed

lemma same_visible_glyphs:
  assumes "visible_cells cs = visible_cells cs'"
  shows "shown_glyphs (fresh_glyphs P geom b cs) = shown_glyphs (fresh_glyphs P geom b cs')"
    and "length cs = length cs' \<Longrightarrow> fresh_glyphs P geom b cs = fresh_glyphs P geom b cs'"
proof -
  obtain n m where "fresh_glyphs P geom b cs = fresh_glyphs P geom b (visible_cells cs) @ replicate n None" "length cs = length (visible_cells cs) + n"
      "fresh_glyphs P geom b cs' = fresh_glyphs P geom b (visible_cells cs') @ replicate m None" "length cs' = length (visible_cells cs') + m"
    using fresh_glyphs_visible by metis
  then show "shown_glyphs (fresh_glyphs P geom b cs) = shown_glyphs (fresh_glyphs P geom b cs')"
    "length cs = length cs' \<Longrightarrow> fresh_glyphs P geom b cs = fresh_glyphs P geom b cs'"
    using assms by (simp_all add: shown_glyphs_append)
qed

lemma same_visible_marks: "visible_cells cs = visible_cells cs' \<Longrightarrow> row_marks parity b cs = row_marks parity b cs'"
  by (metis row_marks_visible)

section \<open>The blink phase and compatible geometries\<close>

definition has_blink :: "ui_cell list \<Rightarrow> bool" where
  "has_blink cs \<longleftrightarrow> (\<exists>x \<in> set cs. is_blink x)"

lemma phase_irrelevant:
  assumes "\<not> has_blink cs"
  shows "row_marks parity b cs = row_marks parity b' cs" "fresh_glyphs P geom b cs = fresh_glyphs P geom b' cs"
proof -
  have v: "terminal_cell_foreground_visible b x = terminal_cell_foreground_visible b' x" if "x \<in> set cs" for x b b'
    using assms that by (simp add: has_blink_def terminal_cell_foreground_visible_def)
  have p: "emit_terminal_cell_primitive parity b col c x = emit_terminal_cell_primitive parity b' col c x" if "x \<in> set cs" for x col c parity
    unfolding emit_terminal_cell_primitive_def v [OF that, of b b'] by (rule refl)
  show "row_marks parity b cs = row_marks parity b' cs"
    unfolding row_marks_def using p by (intro arg_cong2 [where f = "(@)"] arg_cong [where f = concat] map_cong refl) simp
  have "column_glyph P geom b x = column_glyph P geom b' x" if "x \<in> set cs" for x
    using p [OF that] v [OF that, of b b'] by (simp add: column_glyph_def fresh_glyph_def is_primitive_def)
  then show "fresh_glyphs P geom b cs = fresh_glyphs P geom b' cs" by (simp add: fresh_glyphs_def)
qed

lemma compatible_glyph: "retarget_compatible old geom \<Longrightarrow> column_glyph P old b x = column_glyph P geom b x"
  by (simp add: column_glyph_def fresh_glyph_def emit_grid_cell_glyph_def retarget_compatible_def)

lemma compatible_glyphs: "retarget_compatible old geom \<Longrightarrow> fresh_glyphs P old b cs = fresh_glyphs P geom b cs"
  by (simp add: fresh_glyphs_def compatible_glyph)

section \<open>The cache\<close>

definition row_sig :: "'p painter \<Rightarrow> ui_cell list \<Rightarrow> bool \<Rightarrow> 64 word" where
  "row_sig P cs b = (let sig = pa_hash P 2 None (visible_cells cs) in if has_blink cs \<and> \<not> b then sig XOR 0x9e3779b97f4a7c15 else sig)"

lemma content_sig: "terminal_row_content_sig (pa_hash P) cells row cols b = row_sig P (row_slice cells row cols) b"
  by (simp add: terminal_row_content_sig_def row_sig_def hash_row_visible_cells_def has_blink_def)

text \<open>No two different rows of a set have the same signature.\<close>

definition no_collision :: "'p painter \<Rightarrow> ui_cell list set \<Rightarrow> bool" where
  "no_collision P Rows \<longleftrightarrow> (\<forall>cs \<in> Rows. \<forall>cs' \<in> Rows. \<forall>b b'. row_sig P cs b = row_sig P cs' b' \<longrightarrow>
     visible_cells cs = visible_cells cs' \<and> (b = b' \<or> \<not> has_blink cs))"

lemma has_blink_visible: "has_blink (visible_cells cs) = has_blink cs"
proof -
  obtain rest where r: "cs = visible_cells cs @ rest" "\<forall>x \<in> set rest. trailing_cell_is_visually_empty x"
    using visible_cells_split by blast
  have "set cs = set (visible_cells cs) \<union> set rest" by (metis r(1) set_append)
  moreover have "\<not> is_blink x" if "x \<in> set rest" for x using r(2) that empty_cell(5) by blast
  ultimately show ?thesis by (auto simp: has_blink_def)
qed

definition entry_of :: "'p painter \<Rightarrow> ui_cell list \<Rightarrow> bool \<Rightarrow> 'p cached_line \<Rightarrow> bool" where
  "entry_of P cs b e \<longleftrightarrow> (\<exists>geom. cl_geometry e = Some geom \<and> cl_sig e = row_sig P cs b \<and>
     cl_quads e = row_marks (pa_parity P) b cs \<and> cl_glyphs e = fresh_glyphs P geom b cs)"

definition entries_ok :: "'p painter \<Rightarrow> node_id \<Rightarrow> ui_cell list set \<Rightarrow> 'p line_cache \<Rightarrow> bool" where
  "entries_ok P node Rows c \<longleftrightarrow> (\<forall>i e. cache_get node i c = Some e \<longrightarrow> (\<exists>cs \<in> Rows. \<exists>b. entry_of P cs b e))"

text \<open>The undamaged columns of a row are those of its cached line.\<close>

definition row_fits :: "'p painter \<Rightarrow> bool \<Rightarrow> cell_grid \<Rightarrow> nat \<Rightarrow> 'p cached_line \<Rightarrow> bool" where
  "row_fits P b g r e \<longleftrightarrow> (\<forall>geom k. cl_geometry e = Some geom \<longrightarrow> length (cl_glyphs e) = cg_cols g \<longrightarrow> k < cg_cols g \<longrightarrow>
     \<not> damaged (cg_damage g ! r) k \<longrightarrow> cl_glyphs e ! k = column_glyph P geom b (g_cell g r k))"

definition cache_fits :: "'p painter \<Rightarrow> node_id \<Rightarrow> bool \<Rightarrow> cell_grid \<Rightarrow> 'p line_cache \<Rightarrow> bool" where
  "cache_fits P node b g c \<longleftrightarrow> (\<forall>r < cg_rows g. \<forall>e. cache_get node (cg_ids g ! r) c = Some e \<longrightarrow> row_fits P b g r e)"

definition g_row :: "cell_grid \<Rightarrow> nat \<Rightarrow> ui_cell list" where
  "g_row g r = row_slice (cg_cells g) r (cg_cols g)"

lemma g_row_nth: "cg_wf g \<Longrightarrow> r < cg_rows g \<Longrightarrow> k < cg_cols g \<Longrightarrow> g_row g r ! k = g_cell g r k"
  by (simp add: g_row_def g_cell_def cg_wf_def nth_row_slice)

lemma g_row_length: "cg_wf g \<Longrightarrow> r < cg_rows g \<Longrightarrow> length (g_row g r) = cg_cols g"
  unfolding g_row_def cg_wf_def by (rule length_row_slice) blast+

lemma cache_get_store: "cache_get n i' (cache_store node i e c) = (if n = node \<and> i' = i then Some e else cache_get n i' c)"
  by (simp add: cache_get_def cache_store_def update_conv')

lemma map_of_filter_keys: "map_of (filter (\<lambda>(k, _). Q k) c) k = (if Q k then map_of c k else None)"
  by (induction c) auto

lemma cache_get_retain: "cache_get node i (retain_element_ids node ids c) = (if i \<in> ids then cache_get node i c else None)"
proof -
  have "retain_element_ids node ids c = filter (\<lambda>(k, _). fst k \<noteq> node \<or> snd k \<in> ids) c"
    unfolding retain_element_ids_def by (rule filter_cong) auto
  then show ?thesis by (simp add: cache_get_def map_of_filter_keys)
qed

lemma cache_get_forget: "cache_get node i (forget_element node' c) = (if node = node' then None else cache_get node i c)"
proof -
  have "forget_element node' c = filter (\<lambda>(k, _). fst k \<noteq> node') c"
    unfolding forget_element_def by (rule filter_cong) auto
  then show ?thesis by (simp add: cache_get_def map_of_filter_keys)
qed

section \<open>Painting one row\<close>

text \<open>A cached line that shows a row as it is now.\<close>

definition up_to_date :: "'p painter \<Rightarrow> geometry \<Rightarrow> bool \<Rightarrow> nat \<Rightarrow> ui_cell list \<Rightarrow> 'p cached_line \<Rightarrow> bool" where
  "up_to_date P geom b row cs e \<longleftrightarrow> cl_geometry e = Some geom \<and> cl_row e = row \<and> cl_quads e = row_marks (pa_parity P) b cs \<and>
     shown_glyphs (cl_glyphs e) = shown_glyphs (fresh_glyphs P geom b cs) \<and>
     (length (cl_glyphs e) = length cs \<longrightarrow> cl_glyphs e = fresh_glyphs P geom b cs)"

lemma replayed_up_to_date:
  assumes coll: "no_collision P Rows" and rows: "cs \<in> Rows" "cs0 \<in> Rows" and e: "entry_of P cs0 b0 e"
    and sig: "cl_sig e = row_sig P cs b" and g: "cl_geometry e = Some old" "old = geom \<or> retarget_compatible old geom"
  shows "up_to_date P geom b row cs (e\<lparr>cl_geometry := Some geom, cl_row := row\<rparr>)"
    and "entry_of P cs0 b0 (e\<lparr>cl_geometry := Some geom, cl_row := row\<rparr>)"
proof -
  have e': "cl_sig e = row_sig P cs0 b0" "cl_quads e = row_marks (pa_parity P) b0 cs0" "cl_glyphs e = fresh_glyphs P old b0 cs0"
    using e g(1) by (auto simp: entry_of_def)
  have gl: "cl_glyphs e = fresh_glyphs P geom b0 cs0" using g(2) e'(3) compatible_glyphs [of old geom P b0 cs0] by metis
  show "entry_of P cs0 b0 (e\<lparr>cl_geometry := Some geom, cl_row := row\<rparr>)" using e' gl by (simp add: entry_of_def)
  have v: "visible_cells cs0 = visible_cells cs" "b0 = b \<or> \<not> has_blink cs0"
    using coll rows sig e'(1) unfolding no_collision_def by metis+
  then have "\<not> has_blink cs" if "b0 \<noteq> b" using that has_blink_visible by metis
  then have "row_marks (pa_parity P) b0 cs = row_marks (pa_parity P) b cs" "fresh_glyphs P geom b0 cs = fresh_glyphs P geom b cs"
    using phase_irrelevant by (cases "b0 = b", simp_all, blast+)
  moreover have "cl_quads e = row_marks (pa_parity P) b0 cs" "shown_glyphs (cl_glyphs e) = shown_glyphs (fresh_glyphs P geom b0 cs)"
      "length (cl_glyphs e) = length cs \<Longrightarrow> cl_glyphs e = fresh_glyphs P geom b0 cs"
    unfolding e'(2) gl using same_visible_marks [OF v(1)] same_visible_glyphs [OF v(1)] by (simp_all add: fresh_glyphs_def)
  ultimately show "up_to_date P geom b row cs (e\<lparr>cl_geometry := Some geom, cl_row := row\<rparr>)"
    by (simp add: up_to_date_def)
qed

lemma damage_range_Some: "cg_wf g \<Longrightarrow> damage_range row g = Some (start, stop) \<Longrightarrow> k < cg_cols g \<Longrightarrow>
    start \<le> k \<and> k < stop \<longleftrightarrow> damaged (cg_damage g ! row) k"
  by (auto simp: damage_range_def line_damage_for_def nth_opt_def damaged_def Let_def split: if_splits)

lemma spliced_row:
  assumes wf: "cg_wf g" and r: "r < cg_rows g" and fits: "row_fits P b g r e"
    and s: "damage_range r g = Some (start, stop)" "cl_geometry e = Some geom" "length (cl_glyphs e) = cg_cols g"
  shows "emit_grid_row_splice P geom b start stop (cl_glyphs e) (g_row g r) = emit_grid_row_fresh P geom b (g_row g r)"
proof -
  have "spliced_glyph P geom b start stop (cl_glyphs e) (g_row g r) k = fresh_glyph P geom b (g_row g r) k" if k: "k < cg_cols g" for k
  proof (cases "damaged (cg_damage g ! r) k")
    case True
    then show ?thesis using damage_range_Some [OF wf s(1) k] by (simp add: spliced_glyph_def fresh_glyph_def)
  next
    case False
    then have "cl_glyphs e ! k = column_glyph P geom b (g_row g r ! k)"
      using fits s(2,3) k g_row_nth [OF wf r k] by (simp add: row_fits_def)
    then have "cl_glyphs e ! k = fresh_glyph P geom b (g_row g r) k" using fresh_glyph_cell k g_row_length [OF wf r] by metis
    moreover have "\<not> (start \<le> k \<and> k < stop)" using damage_range_Some [OF wf s(1) k] False by simp
    ultimately show ?thesis using s(3) k by (simp only: spliced_glyph_def) (simp add: fresh_glyph_def)
  qed
  then show ?thesis using g_row_length [OF wf r] by (simp add: emit_grid_row_splice_def emit_grid_row_fresh_def)
qed

definition shown :: "'p painted \<Rightarrow> 'p painted" where
  "shown p = (case p of (geom, row, quads, glyphs) \<Rightarrow> (geom, row, quads, shown_glyphs glyphs))"

definition fresh_line :: "'p painter \<Rightarrow> geometry \<Rightarrow> bool \<Rightarrow> cell_grid \<Rightarrow> nat \<Rightarrow> 'p painted" where
  "fresh_line P geom b g r = (Some geom, r, row_marks (pa_parity P) b (g_row g r), shown_glyphs (fresh_glyphs P geom b (g_row g r)))"

lemma lookup_cases:
  obtains (hit) e old where "cache_get node i c = Some e" "cl_sig e = sig" "cl_geometry e = Some old" "old = geom \<or> retarget_compatible old geom"
      "lookup_and_retarget node i sig geom row c =
        (Some (e\<lparr>cl_geometry := Some geom, cl_row := row\<rparr>), cache_store node i (e\<lparr>cl_geometry := Some geom, cl_row := row\<rparr>) c)"
    | (miss) "lookup_and_retarget node i sig geom row c = (None, c)"
proof (cases "cache_get node i c")
  case None
  then show thesis by (intro miss) (simp add: lookup_and_retarget_def)
next
  case (Some e)
  show thesis
  proof (cases "cl_sig e = sig")
    case True
    show thesis
    proof (cases "cl_geometry e")
      case None
      then show thesis by (intro miss) (simp add: lookup_and_retarget_def Some)
    next
      case old: (Some old)
      show thesis
      proof (cases "old = geom \<or> retarget_compatible old geom")
        case True
        then show thesis by (intro hit [OF Some \<open>cl_sig e = sig\<close> old]) (auto simp: lookup_and_retarget_def Let_def Some old \<open>cl_sig e = sig\<close>)
      next
        case False
        then show thesis by (intro miss) (simp add: lookup_and_retarget_def Some old)
      qed
    qed
  next
    case False
    then show thesis by (intro miss) (simp add: lookup_and_retarget_def Some)
  qed
qed

lemma splice_inputs_SomeD:
  assumes "splice_inputs node i geom r g c = Some (start, stop, cached)"
  shows "\<exists>e. damage_range r g = Some (start, stop) \<and> cache_get node i c = Some e \<and> cl_geometry e = Some geom \<and>
    length (cl_glyphs e) = cg_cols g \<and> cached = cl_glyphs e"
proof (cases "damage_range r g")
  case (Some d)
  then show ?thesis using assms
    by (cases "cache_get node i c") (simp_all add: splice_inputs_def split: if_splits prod.splits)
qed (use assms in \<open>simp add: splice_inputs_def\<close>)

lemma emit_row_step:
  assumes coll: "no_collision P Rows" and ok: "entries_ok P node Rows c" and wf: "cg_wf g" and r: "r < cg_rows g"
    and row: "g_row g r \<in> Rows" and fits: "\<And>e. cache_get node (cg_ids g ! r) c = Some e \<Longrightarrow> row_fits P b g r e"
  obtains p e c' where "emit_row P node geom b g r (out, c) = (out @ [p], c')" "shown p = fresh_line P geom b g r"
    "cache_get node (cg_ids g ! r) c' = Some e" "up_to_date P geom b r (g_row g r) e" "entries_ok P node Rows c'"
    "\<And>i. i \<noteq> cg_ids g ! r \<Longrightarrow> cache_get node i c' = cache_get node i c"
proof -
  let ?i = "cg_ids g ! r" and ?cs = "g_row g r"
  have id: "line_id_at r g = Some ?i" using wf r by (simp add: line_id_at_def nth_opt_def cg_wf_def)
  have em: "emit_row P node geom b g r (out, c) = (case lookup_and_retarget node ?i (row_sig P ?cs b) geom r c of
          (Some hit, c1) \<Rightarrow> (out @ [(cl_geometry hit, cl_row hit, cl_quads hit, cl_glyphs hit)], c1)
        | (None, c1) \<Rightarrow>
            let (quads, glyphs) = (case splice_inputs node ?i geom r g c1 of
                  Some (start, stop, cached) \<Rightarrow> emit_grid_row_splice P geom b start stop cached ?cs
                | None \<Rightarrow> emit_grid_row_fresh P geom b ?cs)
            in (out @ [(Some geom, r, quads, glyphs)],
                cache_store node ?i \<lparr>cl_sig = row_sig P ?cs b, cl_geometry = Some geom, cl_quads = quads, cl_glyphs = glyphs, cl_row = r\<rparr> c1))"
    unfolding emit_row_def split_conv Let_def id option.case content_sig g_row_def [symmetric] by (rule refl)
  show thesis
  proof (cases rule: lookup_cases [of node ?i c "row_sig P ?cs b" geom r])
    case (hit e old)
    let ?e = "e\<lparr>cl_geometry := Some geom, cl_row := r\<rparr>"
    obtain cs0 b0 where e0: "cs0 \<in> Rows" "entry_of P cs0 b0 e" using ok hit(1) unfolding entries_ok_def by blast
    note up = replayed_up_to_date [OF coll row e0(1,2) hit(2,3,4), where row = r]
    show thesis
    proof (rule that)
      show "emit_row P node geom b g r (out, c) = (out @ [(Some geom, r, cl_quads e, cl_glyphs e)], cache_store node ?i ?e c)"
        unfolding em hit(5) by simp
      show "shown (Some geom, r, cl_quads e, cl_glyphs e) = fresh_line P geom b g r"
        using up(1) by (simp add: shown_def fresh_line_def up_to_date_def)
      show "cache_get node ?i (cache_store node ?i ?e c) = Some ?e" by (simp add: cache_get_store)
      show "up_to_date P geom b r ?cs ?e" by (rule up(1))
      show "entries_ok P node Rows (cache_store node ?i ?e c)"
        using ok e0(1) up(2) by (auto simp: entries_ok_def cache_get_store)
      show "cache_get node i (cache_store node ?i ?e c) = cache_get node i c" if "i \<noteq> ?i" for i using that by (simp add: cache_get_store)
    qed
  next
    case miss
    have "(case splice_inputs node ?i geom r g c of
        Some (start, stop, cached) \<Rightarrow> emit_grid_row_splice P geom b start stop cached ?cs
      | None \<Rightarrow> emit_grid_row_fresh P geom b ?cs) = emit_grid_row_fresh P geom b ?cs"
    proof (cases "splice_inputs node ?i geom r g c")
      case (Some s)
      obtain start stop cached where s: "s = (start, stop, cached)" by (rule prod_cases3)
      then obtain e where e: "damage_range r g = Some (start, stop)" "cache_get node ?i c = Some e" "cl_geometry e = Some geom"
          "length (cl_glyphs e) = cg_cols g" "cached = cl_glyphs e"
        using splice_inputs_SomeD Some by blast
      then show ?thesis using spliced_row [OF wf r fits [OF e(2)] e(1,3,4)] by (simp add: Some s)
    qed simp
    then have m: "emit_row P node geom b g r (out, c) = (out @ [(Some geom, r, row_marks (pa_parity P) b ?cs, fresh_glyphs P geom b ?cs)],
        cache_store node ?i \<lparr>cl_sig = row_sig P ?cs b, cl_geometry = Some geom, cl_quads = row_marks (pa_parity P) b ?cs,
          cl_glyphs = fresh_glyphs P geom b ?cs, cl_row = r\<rparr> c)" (is "_ = (_, cache_store node ?i ?e c)")
      unfolding em miss by (simp add: emit_fresh)
    have "entry_of P ?cs b ?e" by (simp add: entry_of_def)
    then have ok': "entries_ok P node Rows (cache_store node ?i ?e c)"
      using ok row by (auto simp: entries_ok_def cache_get_store)
    have up: "up_to_date P geom b r ?cs ?e" unfolding up_to_date_def by simp
    show thesis
      by (rule that [OF m _ _ up ok']) (simp_all add: shown_def fresh_line_def cache_get_store)
  qed
qed

lemma emit_rows:
  assumes coll: "no_collision P Rows" and ok: "entries_ok P node Rows c" and wf: "cg_wf g"
    and ids: "distinct (cg_ids g)" and rows: "\<And>r. r < cg_rows g \<Longrightarrow> g_row g r \<in> Rows" and fits: "cache_fits P node b g c" and m: "m \<le> cg_rows g"
  shows "\<exists>out c'. fold (emit_row P node geom b g) [0..<m] ([], c) = (out, c') \<and> map shown out = map (fresh_line P geom b g) [0..<m] \<and>
    entries_ok P node Rows c' \<and> (\<forall>r < m. \<exists>e. cache_get node (cg_ids g ! r) c' = Some e \<and> up_to_date P geom b r (g_row g r) e) \<and>
    (\<forall>r < cg_rows g. m \<le> r \<longrightarrow> cache_get node (cg_ids g ! r) c' = cache_get node (cg_ids g ! r) c)"
  using m
proof (induction m)
  case 0
  then show ?case using ok by simp
next
  case (Suc m)
  then have m: "m < cg_rows g" by simp
  obtain out c1 where ih: "fold (emit_row P node geom b g) [0..<m] ([], c) = (out, c1)" "map shown out = map (fresh_line P geom b g) [0..<m]"
      "entries_ok P node Rows c1" "\<And>r. r < m \<Longrightarrow> \<exists>e. cache_get node (cg_ids g ! r) c1 = Some e \<and> up_to_date P geom b r (g_row g r) e"
      "\<And>r. r < cg_rows g \<Longrightarrow> m \<le> r \<Longrightarrow> cache_get node (cg_ids g ! r) c1 = cache_get node (cg_ids g ! r) c"
    using Suc by auto
  have f: "row_fits P b g m e" if "cache_get node (cg_ids g ! m) c1 = Some e" for e
    using fits that ih(5) [OF m] m by (simp add: cache_fits_def)
  obtain p e c' where st: "emit_row P node geom b g m (out, c1) = (out @ [p], c')" "shown p = fresh_line P geom b g m"
      "cache_get node (cg_ids g ! m) c' = Some e" "up_to_date P geom b m (g_row g m) e" "entries_ok P node Rows c'"
      "\<And>i. i \<noteq> cg_ids g ! m \<Longrightarrow> cache_get node i c' = cache_get node i c1"
    by (rule emit_row_step [OF coll ih(3) wf m rows [OF m] f, where out = out and geom = geom]) (assumption, rule that, assumption+)
  have other: "cg_ids g ! r \<noteq> cg_ids g ! m" if "r < cg_rows g" "r \<noteq> m" for r
    using ids wf that m by (simp add: nth_eq_iff_index_eq cg_wf_def)
  have a: "fold (emit_row P node geom b g) [0..<Suc m] ([], c) = (out @ [p], c')" by (simp add: ih(1) st(1))
  have l: "map shown (out @ [p]) = map (fresh_line P geom b g) [0..<Suc m]" using ih(2) st(2) by (simp del: map_eq_conv)
  have u: "\<exists>e. cache_get node (cg_ids g ! r) c' = Some e \<and> up_to_date P geom b r (g_row g r) e" if "r < Suc m" for r
  proof (cases "r = m")
    case False
    then have "r < m" "r < cg_rows g" using that m by simp_all
    then show ?thesis using ih(4) [of r] st(6) [OF other] False by metis
  qed (use st(3,4) in simp)
  have o: "cache_get node (cg_ids g ! r) c' = cache_get node (cg_ids g ! r) c" if "r < cg_rows g" "Suc m \<le> r" for r
    using st(6) [OF other] ih(5) that by simp
  have uu: "\<forall>r < Suc m. \<exists>e. cache_get node (cg_ids g ! r) c' = Some e \<and> up_to_date P geom b r (g_row g r) e" using u by simp
  have oo: "\<forall>r < cg_rows g. Suc m \<le> r \<longrightarrow> cache_get node (cg_ids g ! r) c' = cache_get node (cg_ids g ! r) c" using o by simp
  show ?case by (rule exI [where x = "out @ [p]"], rule exI [where x = c'], intro conjI a l st(5) uu oo)
qed

section \<open>Painting from retained lines\<close>

lemma cache_fits_evolves:
  assumes ev: "evolves g g'" and fits: "cache_fits P node b g c"
  shows "cache_fits P node b g' c"
  unfolding cache_fits_def
proof (intro allI impI)
  fix r e assume r: "r < cg_rows g'" and e: "cache_get node (cg_ids g' ! r) c = Some e"
  show "row_fits P b g' r e"
  proof (cases "all_damaged g' r")
    case True
    then show ?thesis by (simp add: row_fits_def all_damaged_def)
  next
    case False
    then obtain q where q: "row_from g q g' r" using ev r unfolding evolves_def by blast
    then have "row_fits P b g q e" using fits e by (simp add: cache_fits_def row_from_def)
    then show ?thesis using q by (simp add: row_fits_def row_from_def)
  qed
qed

definition paintable :: "ui_cell list set \<Rightarrow> cell_grid \<Rightarrow> bool" where
  "paintable Rows g \<longleftrightarrow> distinct (cg_ids g) \<and> (\<forall>r < cg_rows g. g_row g r \<in> Rows)"

text \<open>
  What happens between two paintings of an element: operations on its grid, paintings with one blink
  phase or with all of it damaged, the damage forgotten after a painting, and whatever happens to the
  lines of other elements or drops lines of this one.
\<close>

inductive retained :: "'p painter \<Rightarrow> node_id \<Rightarrow> ui_cell list set \<Rightarrow> cell_grid \<Rightarrow> 'p line_cache \<Rightarrow> bool \<Rightarrow> bool"
  for P node Rows where
  retained_new: "cols \<le> 65535 \<Longrightarrow> retained P node Rows (cg_new rows cols) cache_new b"
| retained_change: "retained P node Rows g c b \<Longrightarrow> fits_u16 a \<Longrightarrow> retained P node Rows (grid_apply a g) c b"
| retained_other: "retained P node Rows g c b \<Longrightarrow> (\<And>i. cache_get node i c' \<in> {None, cache_get node i c}) \<Longrightarrow> retained P node Rows g c' b"
| retained_paint: "retained P node Rows g c b \<Longrightarrow> paintable Rows g \<Longrightarrow> b' = b \<or> (\<forall>r < cg_rows g. all_damaged g r) \<Longrightarrow>
    retained P node Rows g (snd (emit_grid_cells P node geom b' g c)) b'"
| retained_paint_clean: "retained P node Rows g c b \<Longrightarrow> paintable Rows g \<Longrightarrow> b' = b \<or> (\<forall>r < cg_rows g. all_damaged g r) \<Longrightarrow>
    retained P node Rows (clear_dirty g) (snd (emit_grid_cells P node geom b' g c)) b'"

inductive_cases retained_newE: "retained P node Rows (cg_new rows cols) cache_new b"

definition retained_inv :: "'p painter \<Rightarrow> node_id \<Rightarrow> ui_cell list set \<Rightarrow> cell_grid \<Rightarrow> 'p line_cache \<Rightarrow> bool \<Rightarrow> bool" where
  "retained_inv P node Rows g c b \<longleftrightarrow> cg_wf g \<and> cg_cols g \<le> 65535 \<and> entries_ok P node Rows c \<and> cache_fits P node b g c"

lemma fits_other_phase: "cache_fits P node b g c \<Longrightarrow> b' = b \<or> (\<forall>r < cg_rows g. all_damaged g r) \<Longrightarrow> cache_fits P node b' g c"
  by (auto simp: cache_fits_def row_fits_def all_damaged_def)

lemma emit_grid:
  assumes coll: "no_collision P Rows" and inv: "retained_inv P node Rows g c b" and p: "paintable Rows g"
    and b: "b' = b \<or> (\<forall>r < cg_rows g. all_damaged g r)"
  shows "map shown (fst (emit_grid_cells P node geom b' g c)) = map (fresh_line P (geom\<lparr>ge_cols := of_nat (cg_cols g)\<rparr>) b' g) [0..<cg_rows g]"
    and "entries_ok P node Rows (snd (emit_grid_cells P node geom b' g c))"
    and "cache_fits P node b' g (snd (emit_grid_cells P node geom b' g c))"
    and "cache_fits P node b' (clear_dirty g) (snd (emit_grid_cells P node geom b' g c))"
proof -
  let ?geom = "geom\<lparr>ge_cols := of_nat (cg_cols g)\<rparr>"
  define c1 where "c1 = (if cg_rows g < element_line_count node c then retain_element_ids node (set (cg_ids g)) c else c)"
  have sub: "cache_get node i c1 \<in> {None, cache_get node i c}" for i by (simp add: c1_def cache_get_retain)
  have ok: "entries_ok P node Rows c1" "cache_fits P node b' g c1"
    using inv fits_other_phase [OF _ b] sub unfolding retained_inv_def entries_ok_def cache_fits_def
    by (metis insertE option.distinct(1) singletonD)+
  obtain out c' where e: "fold (emit_row P node ?geom b' g) [0..<cg_rows g] ([], c1) = (out, c')"
      "map shown out = map (fresh_line P ?geom b' g) [0..<cg_rows g]" "entries_ok P node Rows c'"
      "\<And>r. r < cg_rows g \<Longrightarrow> \<exists>e. cache_get node (cg_ids g ! r) c' = Some e \<and> up_to_date P ?geom b' r (g_row g r) e"
    using emit_rows [OF coll ok(1) _ _ _ ok(2) order_refl, where geom = ?geom] inv p by (auto simp: retained_inv_def paintable_def)
  have em: "emit_grid_cells P node geom b' g c = (out, c')" using e(1) by (simp add: emit_grid_cells_def c1_def)
  have fit: "row_fits P b' g' r e" if "r < cg_rows g" "cache_get node (cg_ids g ! r) c' = Some e" "cg_cols g' = cg_cols g" "cg_cells g' = cg_cells g" for g' r e
  proof -
    have u: "up_to_date P ?geom b' r (g_row g r) e" using e(4) [OF that(1)] that(2) by auto
    have wf: "cg_wf g" using inv by (simp add: retained_inv_def)
    show ?thesis using u g_row_nth [OF wf that(1)] g_row_length [OF wf that(1)] that(3,4)
      by (auto simp: row_fits_def up_to_date_def fresh_glyphs_def g_cell_def)
  qed
  show "map shown (fst (emit_grid_cells P node geom b' g c)) = map (fresh_line P ?geom b' g) [0..<cg_rows g]" using e(2) em by simp
  show "entries_ok P node Rows (snd (emit_grid_cells P node geom b' g c))" using e(3) em by simp
  show "cache_fits P node b' g (snd (emit_grid_cells P node geom b' g c))" using fit by (simp add: em cache_fits_def)
  show "cache_fits P node b' (clear_dirty g) (snd (emit_grid_cells P node geom b' g c))"
    using fit by (simp add: em cache_fits_def clear_dirty_def)
qed

lemma retained_keeps: "retained P node Rows g c b \<Longrightarrow> no_collision P Rows \<Longrightarrow> retained_inv P node Rows g c b"
proof (induction rule: retained.induct)
  case (retained_new cols rows b)
  then show ?case by (simp add: retained_inv_def cg_new_wf entries_ok_def cache_fits_def cache_get_def cache_new_def)
     (simp add: cg_new_def)
next
  case (retained_change g c b a)
  then have i: "retained_inv P node Rows g c b" by simp
  then have ev: "evolves g (grid_apply a g)" using grid_apply_evolves retained_change.hyps(2) by (simp add: retained_inv_def)
  then show ?case using i grid_apply_cols retained_change.hyps(2)
    by (simp add: retained_inv_def cache_fits_evolves [OF ev]) (simp add: evolves_def)
next
  case (retained_other g c b c')
  then have "cache_get node i c' \<in> {None, cache_get node i c}" for i by simp
  then show ?case using retained_other.IH retained_other.prems unfolding retained_inv_def entries_ok_def cache_fits_def
    by (metis insertE option.distinct(1) singletonD)
next
  case (retained_paint g c b b' geom)
  then have "retained_inv P node Rows g c b" by simp
  then show ?case using emit_grid(2,3) [OF retained_paint.prems _ retained_paint.hyps(2,3)] by (simp add: retained_inv_def)
next
  case (retained_paint_clean g c b b' geom)
  then have "retained_inv P node Rows g c b" by simp
  then show ?case using emit_grid(2,4) [OF retained_paint_clean.prems _ retained_paint_clean.hyps(2,3)]
    by (simp add: retained_inv_def) (simp add: cg_wf_def clear_dirty_def)
qed


definition demo_painter :: "nat painter" where
  "demo_painter = \<lparr>pa_hash = \<lambda>v cols cs. of_nat (length cs), pa_parity = True, pa_font = \<lambda>metrics atlas ch style. Some ch\<rparr>"

definition demo_letter :: "rchar \<Rightarrow> ui_cell" where
  "demo_letter ch = ui_cell_default\<lparr>c_ch := ch\<rparr>"

definition demo_geometry :: geometry where
  "demo_geometry = \<lparr>ge_origin_x = 0, ge_origin_y = 0, ge_cell_w = 8, ge_cell_h = 16, ge_font_size = 14, ge_opacity = 1, ge_clip = [], ge_cols = 0, ge_atlas = 0\<rparr>"

definition demo_node :: node_id where
  "demo_node = DANGLING"

definition demo_first :: cell_grid where
  "demo_first = grid_apply (PutCell 0 0 (demo_letter 97)) (cg_new 1 2)"

definition demo_cache :: "nat line_cache" where
  "demo_cache = snd (emit_grid_cells demo_painter demo_node demo_geometry True demo_first cache_new)"

definition demo_second :: cell_grid where
  "demo_second = grid_apply (PutCell 0 1 (demo_letter 98)) (clear_dirty demo_first)"

definition demo_rows :: "ui_cell list set" where
  "demo_rows = {[demo_letter 97, ui_cell_default], [demo_letter 97, demo_letter 98]}"

lemma demo_no_collision: "no_collision demo_painter demo_rows"
  by (auto simp: no_collision_def demo_rows_def row_sig_def demo_painter_def has_blink_def is_blink_def BLINK_def demo_letter_def
      ui_cell_default_def visible_cells_def trailing_cell_is_visually_empty_def ui_cell_is_empty_def TRANSPARENT_def attrs_empty_def)

lemma demo_grids:
  "paintable demo_rows demo_first" "paintable demo_rows demo_second"
  by (simp_all add: paintable_def demo_second_def demo_first_def grid_apply_def set_cell_def cell_idx_def cg_new_def clear_dirty_def
      demo_rows_def g_row_def row_slice_def eval_nat_numeral)


section \<open>Runs of a row\<close>

text \<open>The style runs of a row cover its columns in order, each cell with its own style, and two runs that touch differ in style.\<close>

theorem style_runs_cover_the_row:
  assumes "row < cg_rows g"
  shows "runs_cover (\<lambda>col. style_of (g_cell g row col)) 0 (cg_cols g) (compute_style_runs row g)"
  using assms runs_of_cover [of 0 "cg_cols g" "\<lambda>col. style_of (g_cell g row col)"]
  by (cases "cg_cols g = 0") (simp_all add: compute_style_runs_def compute_style_runs_in_range_def g_cell_def Let_def runs_of_def)

text \<open>The same for the backgrounds.\<close>

lemma bg_runs_cover_the_row: "row < cg_rows g \<Longrightarrow>
    runs_cover (\<lambda>col. bg_of (g_cell g row col)) 0 (cg_cols g) (compute_bg_runs row g)"
  using runs_of_cover [of 0 "cg_cols g" "\<lambda>col. bg_of (g_cell g row col)"]
  by (cases "cg_cols g = 0") (simp_all add: compute_bg_runs_def compute_bg_runs_in_range_def g_cell_def Let_def runs_of_def)

section \<open>A resize that is lost\<close>

text \<open>The two halves of a pending resize are taken one after the other: a resize published between them is torn
  apart, its rows are taken with no columns, and nothing is left of it.\<close>

fun run_accesses :: "shared_access list \<Rightarrow> shared_cells \<Rightarrow> u32 list \<times> shared_cells" where
  "run_accesses [] s = ([], s)"
| "run_accesses (a # as) s = (let (v, s1) = shared_step a s; (vs, s2) = run_accesses as s1 in (v # vs, s2))"

lemma published_resize_is_lost:
  "run_accesses (SwapCols # publish_pending_resize 80 24 @ [SwapRows]) (s\<lparr>sh_cols := 0, sh_rows := 0\<rparr>) = ([0, 0, 0, 24], s\<lparr>sh_cols := 80, sh_rows := 0\<rparr>)"
  "resize_taken 0 24 = None" "fst (take_pending_resize (s\<lparr>sh_cols := 80, sh_rows := 0\<rparr>)) = None"
  by (simp_all add: publish_pending_resize_def shared_step_def resize_taken_def take_pending_resize_def)

section \<open>Two lines with one identity\<close>

text \<open>Growing the grid and moving its rows down, as the terminal does when it takes lines back from the history, leaves
  the identities of the moved lines on the rows above, which get new content.\<close>

lemma moved_rows_share_an_identity:
  "cg_ids (grid_apply (MoveRows 1 0 1) (grid_apply (ResizeGrid 2 1) (cg_new 1 1))) = [1, 1]"
  by (simp add: grid_apply_def cg_resize_def shift_rows_def cg_new_def copy_within_def fill_range_def Let_def)

text \<open>Why the phase matters: a blinking cell painted while hidden stays hidden when its row is
  spliced in the other phase with only other columns damaged.\<close>

lemma hidden_cell_stays_hidden:
  assumes "is_blink (cs ! k)" "k < length cs" "\<not> (start \<le> k \<and> k < stop)"
  shows "snd (emit_grid_row_splice P geom True start stop (snd (emit_grid_row_fresh P geom False cs)) cs) ! k = None"
  by (cases "start \<le> k")
    (use assms in \<open>simp_all add: emit_grid_row_splice_def emit_grid_row_fresh_def spliced_glyph_def fresh_glyph_def terminal_cell_foreground_visible_def\<close>)

end
