(* ===== verification/Spec2Isabelle.thy ===== *)
theory Spec2Isabelle
  imports Prelude Rust_Str Terminal_Mode_Props Terminal_Stream_Props Frame Editor_Block_Props Editor_Find Diff_Props Session_Props Registry_Props Client Daemon_Props Layout_Props Syntax Damage Arena_Props Keybinds_Props Agents_Props Titles_Props Persist_Props Persist_Strip Persist_Round Key_Encode Line_Cache_Props
begin

text \<open>
  A verification development of the terminal manager, a desktop application (Rust) that shows terminals,
  editors and diffs in panes and keeps its shells alive in a daemon.

  \<^bold>\<open>The program.\<close> The daemon (\<open>crates/unshit-ptyd\<close>) owns the child processes. A session has a pseudo-terminal
  and an emulator (\<open>crates/unshit-terminal-core\<close>), and at most one client is attached to it. Clients talk to the daemon in frames that carry
  messages. The application (\<open>src/src\<close>) keeps workspaces, tabs and panes in one state (\<open>state.rs\<close>), changes
  it by operations that the user interface dispatches, and saves the layout to disk. Its windows are drawn by a
  framework of its own (\<open>crates/unshit-framework\<close>): a tree of nodes in an arena, shortcuts, damage tracking,
  and grids of characters that the renderer paints.

  \<^bold>\<open>Theories and sources.\<close> Definitions keep the names of the source where they do not clash with names of
  the library. A struct is a record whose field names carry a short prefix.
  \<^item> \<^bold>\<open>Foundations.\<close> \<open>Prelude\<close>: machine types, accesses that report a panic as \<open>None\<close>, loop
    lemmas, and the two interfaces of step systems (\<open>transition_system\<close>, \<open>panic_free_system\<close>). \<open>Rust_Str\<close> and
    \<open>Rust_Parse\<close>: the parts of Rust's string library the code uses. A string is a list of code points, byte
    positions are kept, and a slice outside a character boundary is a panic.
  \<^item> \<^bold>\<open>Emulator\<close> (\<open>unshit-terminal-core\<close>). \<open>Cell_Types\<close> (\<open>color.rs\<close>, \<open>cell.rs\<close>), \<open>Grid\<close> (\<open>grid.rs\<close>), \<open>Scrollback\<close>
    (\<open>scrollback.rs\<close>), \<open>Terminal\<close> and \<open>Performer\<close> (\<open>terminal.rs\<close>, \<open>snapshot.rs\<close>). \<open>Terminal_Inv\<close> has the invariant, \<open>Terminal_Screen\<close>
    what the editing operations do row by row, \<open>Terminal_Props\<close>, \<open>Terminal_Mode_Props\<close> and \<open>Terminal_Stream_Props\<close> the properties.
  \<^item> \<^bold>\<open>Daemon\<close> (\<open>unshit-ptyd\<close>). \<open>Frame\<close> (\<open>protocol/frame.rs\<close>, \<open>codec.rs\<close>, \<open>error.rs\<close>), \<open>Message\<close> (\<open>message.rs\<close>), \<open>Session\<close>
    (\<open>session/mod.rs\<close>), \<open>Registry\<close> (\<open>session/registry.rs\<close>), \<open>Handler\<close> (\<open>daemon/handler.rs\<close>) and \<open>Client\<close> (\<open>client/mod.rs\<close>).
    \<open>Session_Inv\<close>, \<open>Registry_Inv\<close>, \<open>Handler_Inv\<close> and \<open>Daemon_Inv\<close> hold the invariants, the theories ending in \<open>_Props\<close> the
    properties: one session per pane, one owner per attachment, one answer per request.
  \<^item> \<^bold>\<open>Editor\<close> (\<open>src/src/editor\<close>). \<open>Editor\<close> and \<open>Editor_Edit\<close> (\<open>buffer.rs\<close>), \<open>Editor_Find\<close> (\<open>find.rs\<close>). \<open>Editor_Text\<close> sees
    the lines as one text, \<open>Editor_Inv\<close> the history as a chain of replacements; \<open>Editor_Cols\<close>, \<open>Editor_Ops\<close>,
    \<open>Editor_Cmds\<close> and \<open>Editor_Lines\<close> take every operation through the invariant, \<open>Editor_Props\<close> and \<open>Editor_Block_Props\<close> hold the properties.
  \<^item> \<^bold>\<open>Diffs and syntax.\<close> \<open>Diff_Lines\<close> and \<open>Diff\<close> (\<open>diff/parse.rs\<close>), \<open>Diff_Inv\<close>, the reference printer \<open>Diff_Print\<close>, \<open>Diff_Props\<close>;
    \<open>Syntax_Tables\<close> and \<open>Syntax\<close> (\<open>syntax.rs\<close>).
  \<^item> \<^bold>\<open>Tabs and panes.\<close> \<open>Layout\<close> and \<open>Layout_Move\<close> (\<open>state.rs\<close>, \<open>drag/drop_zones.rs\<close>, \<open>ui/terminal_grid.rs\<close>). \<open>Layout_Grid\<close> has the
    grid of one tab, \<open>Layout_Inv\<close> the invariant of the state; \<open>Layout_Steps\<close>, \<open>Layout_Moves\<close>, \<open>Layout_Drag\<close> and \<open>Layout_Strip\<close> keep it through
    every operation, \<open>Layout_Props\<close> has the properties.
  \<^item> \<^bold>\<open>Agents, titles and the saved layout.\<close> \<open>Agents\<close> (\<open>agents\<close>, and its part of \<open>state.rs\<close>), \<open>Pane_Titles\<close> (\<open>state.rs\<close>,
    \<open>command_palette.rs\<close>), \<open>Persist\<close> (\<open>persist.rs\<close>, \<open>main.rs\<close>); \<open>Agents_Props\<close>, \<open>Titles_Props\<close>, \<open>Persist_Props\<close>, \<open>Persist_Strip\<close> and
    \<open>Persist_Round\<close> hold their properties.
  \<^item> \<^bold>\<open>Keys and shortcuts.\<close> \<open>Keys\<close> and \<open>Shortcuts\<close> (\<open>unshit-core/src/shortcut.rs\<close>, \<open>event.rs\<close>, \<open>unshit-app/src/shortcut.rs\<close>), \<open>Keybinds\<close>
    (\<open>src/src/keybinds\<close>), \<open>Key_Encode\<close> (\<open>src/src/terminal/keys.rs\<close>), with \<open>Keys_Props\<close> and \<open>Keybinds_Props\<close>.
  \<^item> \<^bold>\<open>Framework core.\<close> \<open>Damage\<close> (\<open>unshit-core/src/damage.rs\<close>); \<open>Arena\<close> (\<open>id.rs\<close>, \<open>tree.rs\<close>) with \<open>Arena_Slots\<close> (slots and ids as a
    map), \<open>Arena_Ops\<close> (links as lists of children), \<open>Arena_Loops\<close> and \<open>Arena_Props\<close>.
    \<open>Cell_Grid\<close> (\<open>unshit-core/src/cell_grid.rs\<close>) and \<open>Line_Cache\<close> (\<open>unshit-renderer/src/line_quad_cache.rs\<close>, \<open>batch.rs\<close>): grids of
    characters and their painting through retained lines; \<open>Cell_Lines\<close> and \<open>Cell_Grid_Inv\<close> see the operations on rows, \<open>Line_Cache_Props\<close>
    compares retained with fresh painting.

  \<^bold>\<open>How the parts fit.\<close> A session runs the emulator on what its child prints; the registry runs the sessions with
  their threads between any two of its steps; a connection turns requests into operations of the registry, and the
  client turns what a connection sends back into answers, over frames that arrive in any chunks. Titles and
  agents are kept in the panes of the layout; the saved layout is written from that state and rebuilt into it. The
  properties that span components are those of \<open>Daemon_Props\<close>, \<open>Titles_Props\<close>, \<open>Persist_Round\<close> and \<open>Keybinds_Props\<close>.

  \<^bold>\<open>What the lemmas show.\<close> Every component has an invariant and a lemma per operation that it is kept, joined into
  one system of steps (\<open>emulator\<close>, \<open>editor\<close>, \<open>layout\<close>, \<open>marks\<close>, \<open>slots\<close> interpret the two interfaces of \<open>Prelude\<close>), from which follow
  that no reachable state panics and what runs keep. Interfaces with laws: \<open>cell_store\<close> (the grid as a
  table of cells), \<open>history\<close> (the scrollback as a bounded list), \<open>session_change\<close> (what a step of a session may do).
  Refinements compare the code with a plainer model: the tab strip with a list of tabs, links with lists of children, the
  bit set with a set of rows, the registry of shortcuts with a list, stripping the saved layout with closing
  its panes. Painting from retained lines is compared with painting from scratch. Round trips cover frames, messages, diffs, shortcuts and their files, resizing, the saved layout and the key sequences.

  \<^bold>\<open>Bounds and termination.\<close> Integers keep their width (\<open>word\<close>) where the code can wrap, narrow or saturate; they are \<open>nat\<close>
  or \<open>int\<close> where the code cannot reach the bound, which each theory says. There is no fuel: loops are structural, or have a
  measure, or are partial functions with \<open>None\<close> for a loop that does not end (the links of the arena, the word
  selection and the search of the editor), for which the lemmas prove the result exists. A panic is \<open>None\<close> as well.

  \<^bold>\<open>Idealised.\<close> The shares of rows and columns are rational numbers, the code has 32-bit floats. An element of the
  arena carries a type variable besides its links. Threads are interleaved at the locks they take; poisoned locks,
  log output and telemetry are left out. The wall clock is an input.

  \<^bold>\<open>Parameters.\<close> Code that is not in the repository is an argument of the definitions: the escape sequence parser \<open>vte\<close>,
  the pseudo-terminal library, \<open>serde_json\<close>, the character tables of the standard library, the random generator, the file system. What is
  assumed of them stands in the theorems, each with an instance.

  \<^bold>\<open>Not modelled.\<close> The views (\<open>src/src/ui\<close>), which turn the state into trees of elements with closures; style, layout and
  painting of the framework, which compute with floats, fonts and the GPU; threads, sockets and processes
  of the platform; git, updates, notifications, voice, diagnostics and the flow explorer, which talk to other programs and
  keep little state of their own; of \<open>state.rs\<close> the settings and dialogs.

  Strange behaviour of the code that the model shows (a divider dragged in a very narrow window, equal ids of restored
  tabs, dirty rows after a shrink) is stated by the lemmas \<open>split_of_minimal_pane_panics\<close>, \<open>equal_tab_ids_lose_a_pane\<close>,
  \<open>killed_session_breaks_the_grid\<close>, \<open>grown_rows_are_dirty\<close>, \<open>reset_shares_a_combo\<close>, \<open>modify_keys_taken_for_sgr\<close> and others beside them.
\<close>

end
